(* ===== verification/XPrelude.thy ===== *)
theory XPrelude
  imports Main "HOL-Library.Multiset" "HOL-Library.Word"
begin

text \<open>
  Shared vocabulary of the development: the machine types of \<^verbatim>\<open>xutil/prefix/type.h\<close>,
  the comparator contract that every ordered container and every sorting routine relies on,
  and the generic facts about lists used as C arrays (a range of cells, a "hole" whose
  item is held in a temporary, the frame outside a range).
\<close>

section \<open>Machine types\<close>

text \<open>\<open>xu_byte_t\<close>, \<open>xu_uint16_t\<close>, \<open>xu_uint32_t\<close>, \<open>xu_uint64_t\<close> and the 64-bit
  \<open>xu_size_t\<close> / \<open>xu_pointer_t\<close>.\<close>

type_synonym u8 = "8 word"
type_synonym u16 = "16 word"
type_synonym u32 = "32 word"
type_synonym u64 = "64 word"

named_theorems range_intros \<open>how a step of an in-place routine keeps its range frame\<close>
named_theorems hole_simps \<open>moving the hole of an array\<close>

section \<open>The comparator contract\<close>

text \<open>
  A comparator returns a negative, zero or positive \<open>xu_long_t\<close>. What the sorts, the
  heap and the search routines rely on is that the sign is antisymmetric and that
  "not greater" is transitive.
\<close>

locale comparator =
  fixes cmp :: "'a \<Rightarrow> 'a \<Rightarrow> int"
  assumes comp_sgn: "sgn (cmp x y) = - sgn (cmp y x)"
    and comp_trans: "cmp x y \<le> 0 \<Longrightarrow> cmp y z \<le> 0 \<Longrightarrow> cmp x z \<le> 0"
begin

lemma comp_refl [simp]: "cmp x x = 0"
  using comp_sgn [of x x] by (simp add: sgn_if split: if_splits)

lemma comp_pos: "0 < cmp x y \<longleftrightarrow> cmp y x < 0"
  using comp_sgn [of x y] by (auto simp: sgn_if split: if_splits)

lemma comp_zero: "cmp x y = 0 \<longleftrightarrow> cmp y x = 0"
  using comp_sgn [of x y] by (auto simp: sgn_if split: if_splits)

lemma comp_not_neg: "\<not> cmp x y < 0 \<longleftrightarrow> cmp y x \<le> 0"
  using comp_sgn [of x y] by (auto simp: sgn_if split: if_splits)

lemma comp_not_pos: "\<not> 0 < cmp x y \<longleftrightarrow> cmp x y \<le> 0"
  by auto

lemma comp_neg_le: "cmp x y < 0 \<Longrightarrow> cmp x y \<le> 0"
  by simp

lemma comp_pos_le: "0 < cmp x y \<Longrightarrow> cmp y x \<le> 0"
  using comp_pos by fastforce

lemma comp_nonneg_le: "0 \<le> cmp x y \<longleftrightarrow> cmp y x \<le> 0"
  using comp_not_neg [of x y] by linarith

lemma comp_total: "cmp x y \<le> 0 \<or> cmp y x \<le> 0"
  using comp_nonneg_le [of x y] by linarith

lemma comp_neg_trans: "cmp x y < 0 \<Longrightarrow> cmp y z \<le> 0 \<Longrightarrow> cmp x z < 0"
  using comp_trans [of y z x] comp_not_neg [of x z] comp_pos [of y x] by fastforce

lemma comp_trans_neg: "cmp x y \<le> 0 \<Longrightarrow> cmp y z < 0 \<Longrightarrow> cmp x z < 0"
  using comp_trans [of z x y] comp_not_neg [of x z] comp_pos [of z y] by fastforce

end

section \<open>Ranges of an array\<close>

text \<open>A routine that works in place on the cells \<open>[lo, hi)\<close> keeps the length, every
  cell outside the range and the multiset of the items.\<close>

definition range_perm :: "'a list \<Rightarrow> 'a list \<Rightarrow> nat \<Rightarrow> nat \<Rightarrow> bool" where
  "range_perm xs ys lo hi \<longleftrightarrow> length ys = length xs \<and> take lo ys = take lo xs
     \<and> drop hi ys = drop hi xs \<and> mset ys = mset xs"

definition sorted_range :: "('a \<Rightarrow> 'a \<Rightarrow> int) \<Rightarrow> 'a list \<Rightarrow> nat \<Rightarrow> nat \<Rightarrow> bool" where
  "sorted_range cmp xs lo hi \<longleftrightarrow> (\<forall>j\<in>{lo..<hi}. \<forall>i\<in>{lo..<j}. cmp (xs ! i) (xs ! j) \<le> 0)"

definition same_outside :: "'a list \<Rightarrow> 'a list \<Rightarrow> nat \<Rightarrow> nat \<Rightarrow> bool" where
  "same_outside xs ys lo hi \<longleftrightarrow> length ys = length xs
     \<and> (\<forall>i < length xs. i < lo \<or> hi \<le> i \<longrightarrow> ys ! i = xs ! i)"

lemma same_outside_take_drop:
  "same_outside xs ys lo hi \<longleftrightarrow>
     length ys = length xs \<and> take lo ys = take lo xs \<and> drop hi ys = drop hi xs"
proof
  assume h: "same_outside xs ys lo hi"
  then have len: "length ys = length xs" by (simp add: same_outside_def)
  have "take lo ys = take lo xs"
    by (rule nth_equalityI) (use h in \<open>auto simp: same_outside_def\<close>)
  moreover have "drop hi ys = drop hi xs"
    by (rule nth_equalityI) (use h in \<open>auto simp: same_outside_def\<close>)
  ultimately show "length ys = length xs \<and> take lo ys = take lo xs \<and> drop hi ys = drop hi xs"
    using len by blast
next
  assume h: "length ys = length xs \<and> take lo ys = take lo xs \<and> drop hi ys = drop hi xs"
  have "ys ! i = xs ! i" if "i < length xs" and "i < lo" for i
    using h that by (metis nth_take)
  moreover have "ys ! i = xs ! i" if "i < length xs" and "hi \<le> i" for i
    using h that by (metis le_add_diff_inverse nth_drop less_imp_le_nat order_trans)
  ultimately show "same_outside xs ys lo hi"
    using h unfolding same_outside_def by blast
qed

lemma range_perm_iff: "range_perm xs ys lo hi \<longleftrightarrow> same_outside xs ys lo hi \<and> mset ys = mset xs"
  by (auto simp: range_perm_def same_outside_take_drop)

lemma range_permD:
  assumes "range_perm xs ys lo hi"
  shows "length ys = length xs" and "mset ys = mset xs"
    and "\<And>i. i < lo \<Longrightarrow> i < length xs \<Longrightarrow> ys ! i = xs ! i"
    and "\<And>i. hi \<le> i \<Longrightarrow> i < length xs \<Longrightarrow> ys ! i = xs ! i"
  using assms by (auto simp: range_perm_iff same_outside_def)

lemma range_perm_refl [simp, range_intros]: "range_perm xs xs lo hi"
  by (simp add: range_perm_def)

lemma same_outside_refl [simp]: "same_outside xs xs lo hi"
  by (simp add: same_outside_def)

lemma same_outside_trans:
  "same_outside xs ys lo hi \<Longrightarrow> same_outside ys zs lo hi \<Longrightarrow> same_outside xs zs lo hi"
  by (simp add: same_outside_def)

lemma same_outside_mono:
  "same_outside xs ys lo hi \<Longrightarrow> lo' \<le> lo \<Longrightarrow> hi \<le> hi' \<Longrightarrow> same_outside xs ys lo' hi'"
  by (auto simp: same_outside_def)

lemma same_outside_update:
  "same_outside xs ys lo hi \<Longrightarrow> lo \<le> i \<Longrightarrow> i < hi \<Longrightarrow> same_outside xs (ys[i := v]) lo hi"
  by (auto simp: same_outside_def nth_list_update)

lemma range_perm_trans:
  "range_perm xs ys lo hi \<Longrightarrow> range_perm ys zs lo hi \<Longrightarrow> range_perm xs zs lo hi"
  by (simp add: range_perm_def)

lemma range_perm_mono:
  "range_perm xs ys lo hi \<Longrightarrow> lo' \<le> lo \<Longrightarrow> hi \<le> hi' \<Longrightarrow> range_perm xs ys lo' hi'"
  by (auto simp: range_perm_iff intro: same_outside_mono)

lemma range_perm_slice_mset:
  assumes "range_perm xs ys lo hi" and "lo \<le> hi"
  shows "mset (take (hi - lo) (drop lo ys)) = mset (take (hi - lo) (drop lo xs))"
proof -
  have split3: "mset zs = mset (take lo zs) + mset (take (hi - lo) (drop lo zs)) + mset (drop hi zs)"
    for zs :: "'a list"
  proof -
    have "zs = take lo zs @ take (hi - lo) (drop lo zs) @ drop (hi - lo) (drop lo zs)"
      by (simp del: drop_drop)
    moreover have "drop (hi - lo) (drop lo zs) = drop hi zs"
      using assms(2) by simp
    ultimately show ?thesis
      by (metis mset_append add.assoc)
  qed
  show ?thesis
    using split3 [of xs] split3 [of ys] assms(1) by (auto simp: range_perm_def)
qed

lemma nth_in_slice:
  "lo \<le> i \<Longrightarrow> i < hi \<Longrightarrow> i < length xs \<Longrightarrow> xs ! i \<in> set (take (hi - lo) (drop lo xs))"
  by (auto simp: in_set_conv_nth intro!: exI [of _ "i - lo"])

lemma slice_nth:
  "x \<in> set (take (hi - lo) (drop lo xs)) \<Longrightarrow> \<exists>i. lo \<le> i \<and> i < hi \<and> i < length xs \<and> xs ! i = x"
  by (clarsimp simp: in_set_conv_nth) (metis less_diff_conv add.commute le_add1)

text \<open>The cells of a range after a routine hold items that were in the range before.\<close>

lemma range_perm_nth:
  assumes "range_perm xs ys lo hi" and "lo \<le> i" and "i < hi" and "i < length xs"
  shows "\<exists>j. lo \<le> j \<and> j < hi \<and> j < length xs \<and> ys ! i = xs ! j"
proof -
  have "ys ! i \<in> set (take (hi - lo) (drop lo ys))"
    using assms by (intro nth_in_slice) (auto simp: range_perm_def)
  also have "set (take (hi - lo) (drop lo ys)) = set (take (hi - lo) (drop lo xs))"
    using range_perm_slice_mset [OF assms(1)] assms(2,3) by (metis mset_eq_setD le_less_trans less_imp_le)
  finally show ?thesis
    using slice_nth by metis
qed

section \<open>Arrays with a hole\<close>

text \<open>
  The in-place routines lift one item into a temporary, which makes its cell a hole, move
  items into the hole and so the hole through the array, and put the item back at the end.
  What is constant is the multiset of the array with the temporary put into the hole.
\<close>

lemma hole_move [hole_simps]:
  assumes "l < length xs" and "r < length xs"
  shows "mset (xs[l := xs ! r, r := k]) = mset (xs[l := k])"
proof (cases "l = r")
  case True
  then show ?thesis by simp
next
  case False
  let ?ys = "xs[l := k]"
  have "mset (?ys[r := ?ys ! l, l := ?ys ! r]) = mset ?ys"
    by (rule mset_swap) (use assms in auto)
  moreover have "?ys[r := ?ys ! l, l := ?ys ! r] = xs[l := xs ! r, r := k]"
    using assms False by (auto intro!: nth_equalityI simp: nth_list_update)
  ultimately show ?thesis by simp
qed

lemma hole_start [hole_simps]: "l < length xs \<Longrightarrow> mset (xs[l := xs ! l]) = mset xs"
  by simp

end
