(* ===== verification/XIterator.thy ===== *)
theory XIterator
  imports XPrelude
begin

unbundle bit_operations_syntax

text \<open>
  \<^verbatim>\<open>xutil/container/iterator.c\<close> and \<^verbatim>\<open>xutil/container/array_iterator.c\<close>: the
  iterator over an array of items, which the routines of \<^verbatim>\<open>xutil/algorithm/\<close> work on.
  An iterator position (\<open>itor\<close>, an \<open>xu_size_t\<close>) is the index of the cell. Items are
  values: the temporary that a routine allocates for items larger than a pointer and the
  pointer-sized value it keeps otherwise both hold a copy of the item.
\<close>

section \<open>Iterator modes\<close>

definition XU_ITERATOR_MODE_FORWARD :: nat where "XU_ITERATOR_MODE_FORWARD = 1"
definition XU_ITERATOR_MODE_REVERSE :: nat where "XU_ITERATOR_MODE_REVERSE = 2"
definition XU_ITERATOR_MODE_RACCESS :: nat where "XU_ITERATOR_MODE_RACCESS = 4"
definition XU_ITERATOR_MODE_MUTABLE :: nat where "XU_ITERATOR_MODE_MUTABLE = 8"
definition XU_ITERATOR_MODE_READONLY :: nat where "XU_ITERATOR_MODE_READONLY = 16"

lemmas iterator_modes =
  XU_ITERATOR_MODE_FORWARD_def XU_ITERATOR_MODE_REVERSE_def XU_ITERATOR_MODE_RACCESS_def
  XU_ITERATOR_MODE_MUTABLE_def XU_ITERATOR_MODE_READONLY_def

section \<open>The array iterator\<close>

record 'a iterator =
  it_mode :: nat
  it_items :: "'a list"
  it_comp :: "'a \<Rightarrow> 'a \<Rightarrow> int"

definition xu_iterator_size :: "'a iterator \<Rightarrow> nat" where
  "xu_iterator_size it = length (it_items it)"

definition xu_iterator_head :: "'a iterator \<Rightarrow> nat" where
  "xu_iterator_head it = 0"

definition xu_iterator_tail :: "'a iterator \<Rightarrow> nat" where
  "xu_iterator_tail it = length (it_items it)"

definition xu_iterator_next :: "'a iterator \<Rightarrow> nat \<Rightarrow> nat" where
  "xu_iterator_next it itor = itor + 1"

definition xu_iterator_prev :: "'a iterator \<Rightarrow> nat \<Rightarrow> nat" where
  "xu_iterator_prev it itor = itor - 1"

definition xu_iterator_item :: "'a iterator \<Rightarrow> nat \<Rightarrow> 'a" where
  "xu_iterator_item it itor = it_items it ! itor"

definition xu_iterator_copy :: "'a iterator \<Rightarrow> nat \<Rightarrow> 'a \<Rightarrow> 'a iterator" where
  "xu_iterator_copy it itor item = it\<lparr>it_items := (it_items it)[itor := item]\<rparr>"

definition xu_iterator_comp :: "'a iterator \<Rightarrow> 'a \<Rightarrow> 'a \<Rightarrow> int" where
  "xu_iterator_comp it litem ritem = it_comp it litem ritem"

definition has_mode :: "'a iterator \<Rightarrow> nat \<Rightarrow> bool" where
  "has_mode it m \<longleftrightarrow> (it_mode it AND m) \<noteq> 0"

text \<open>The modes every array iterator is set up with.\<close>

definition array_mode :: nat where
  "array_mode = (XU_ITERATOR_MODE_FORWARD OR XU_ITERATOR_MODE_REVERSE OR XU_ITERATOR_MODE_RACCESS)
     OR XU_ITERATOR_MODE_MUTABLE"

text \<open>Comparing two items as \<open>xu_long_t\<close> and as pointers (the address).\<close>

definition xu_array_iterator_long_comp :: "u64 \<Rightarrow> u64 \<Rightarrow> int" where
  "xu_array_iterator_long_comp litem ritem =
     (if sint litem < sint ritem then -1 else if sint litem > sint ritem then 1 else 0)"

definition xu_array_iterator_ptr_comp :: "u64 \<Rightarrow> u64 \<Rightarrow> int" where
  "xu_array_iterator_ptr_comp litem ritem =
     (if litem < ritem then -1 else if litem > ritem then 1 else 0)"

definition xu_array_iterator_init_long :: "u64 list \<Rightarrow> u64 iterator" where
  "xu_array_iterator_init_long items =
     \<lparr>it_mode = array_mode, it_items = items, it_comp = xu_array_iterator_long_comp\<rparr>"

definition xu_array_iterator_init_ptr :: "u64 list \<Rightarrow> u64 iterator" where
  "xu_array_iterator_init_ptr items =
     \<lparr>it_mode = array_mode, it_items = items, it_comp = xu_array_iterator_ptr_comp\<rparr>"

definition xu_array_iterator_init_size :: "u64 list \<Rightarrow> u64 iterator" where
  "xu_array_iterator_init_size items = xu_array_iterator_init_ptr items"

lemmas iterator_defs =
  xu_iterator_size_def xu_iterator_head_def xu_iterator_tail_def xu_iterator_next_def
  xu_iterator_prev_def xu_iterator_item_def xu_iterator_copy_def xu_iterator_comp_def

interpretation long_comp: comparator xu_array_iterator_long_comp
  by unfold_locales (auto simp: xu_array_iterator_long_comp_def split: if_splits)

interpretation ptr_comp: comparator xu_array_iterator_ptr_comp
  by unfold_locales (auto simp: xu_array_iterator_ptr_comp_def split: if_splits)

lemma array_modes [simp]:
  "has_mode (xu_array_iterator_init_long xs) XU_ITERATOR_MODE_RACCESS"
  "has_mode (xu_array_iterator_init_long xs) XU_ITERATOR_MODE_FORWARD"
  "has_mode (xu_array_iterator_init_long xs) XU_ITERATOR_MODE_REVERSE"
  "\<not> has_mode (xu_array_iterator_init_long xs) XU_ITERATOR_MODE_READONLY"
  by (simp_all add: has_mode_def xu_array_iterator_init_long_def array_mode_def iterator_modes)

end
