(* ===== verification/XHeapShape.thy ===== *)
theory XHeapShape
  imports XPrelude
begin

text \<open>
  Implicit binary heaps, for an arbitrary "may sit above" order: the shape shared by
  \<^verbatim>\<open>xutil/container/heap.c\<close> (least item on top) and
  \<^verbatim>\<open>xutil/algorithm/heap_sort.c\<close> (greatest item on top). The cells are seen as a
  function of the heap index, so that one set of lemmas serves a heap that starts at the
  first cell and a heap that starts at the head of a sorted range.
\<close>

section \<open>Parents and children\<close>

definition parent :: "nat \<Rightarrow> nat" where
  "parent i = (i - 1) div 2"

lemma parent_less [simp]: "0 < i \<Longrightarrow> parent i < i"
  by (simp add: parent_def)

lemma parent_le [simp]: "parent i \<le> i"
  by (simp add: parent_def)

lemma parent_self [simp]: "parent i = i \<longleftrightarrow> i = 0" "i = parent i \<longleftrightarrow> i = 0"
  using parent_less [of i] by (cases "i = 0"; simp add: parent_def)+

lemma parent_child [simp]: "parent (2 * i + 1) = i" "parent (Suc (2 * i)) = i"
    "parent (2 * i + 2) = i" "parent (Suc (Suc (2 * i))) = i"
  by (simp_all add: parent_def)

lemma parent_eq: "0 < c \<Longrightarrow> parent c = h \<longleftrightarrow> c = 2 * h + 1 \<or> c = 2 * h + 2"
  by (auto simp: parent_def)

section \<open>Heaps with a hole\<close>

text \<open>
  \<open>heap_from R k n f\<close>: in the cells \<open>[0, n)\<close> every edge whose upper end is at least
  \<open>k\<close> is ordered. \<open>heap_hole R k n h f\<close>: the same without the edges of the hole
  \<open>h\<close>, and the children of the hole are below its parent.
\<close>

definition heap_from :: "('a \<Rightarrow> 'a \<Rightarrow> bool) \<Rightarrow> nat \<Rightarrow> nat \<Rightarrow> (nat \<Rightarrow> 'a) \<Rightarrow> bool" where
  "heap_from R k n f \<longleftrightarrow> (\<forall>c<n. 0 < c \<longrightarrow> k \<le> parent c \<longrightarrow> R (f (parent c)) (f c))"

definition heap_hole :: "('a \<Rightarrow> 'a \<Rightarrow> bool) \<Rightarrow> nat \<Rightarrow> nat \<Rightarrow> nat \<Rightarrow> (nat \<Rightarrow> 'a) \<Rightarrow> bool" where
  "heap_hole R k n h f \<longleftrightarrow>
     (\<forall>c<n. 0 < c \<longrightarrow> k \<le> parent c \<longrightarrow> parent c \<noteq> h \<longrightarrow> c \<noteq> h \<longrightarrow> R (f (parent c)) (f c))
     \<and> (\<forall>c<n. 0 < c \<longrightarrow> parent c = h \<longrightarrow> 0 < h \<longrightarrow> k \<le> parent h \<longrightarrow> R (f (parent h)) (f c))"

lemma heap_holeI:
  assumes "\<And>c. 0 < c \<Longrightarrow> c < n \<Longrightarrow> k \<le> parent c \<Longrightarrow> parent c \<noteq> h \<Longrightarrow> c \<noteq> h \<Longrightarrow> R (f (parent c)) (f c)"
    and "\<And>c. 0 < c \<Longrightarrow> c < n \<Longrightarrow> parent c = h \<Longrightarrow> 0 < h \<Longrightarrow> k \<le> parent h \<Longrightarrow> R (f (parent h)) (f c)"
  shows "heap_hole R k n h f"
  using assms by (simp add: heap_hole_def)

lemma heap_hole_edge:
  "heap_hole R k n h f \<Longrightarrow> 0 < c \<Longrightarrow> c < n \<Longrightarrow> k \<le> parent c \<Longrightarrow> parent c \<noteq> h \<Longrightarrow> c \<noteq> h
     \<Longrightarrow> R (f (parent c)) (f c)"
  by (simp add: heap_hole_def)

lemma heap_hole_grand:
  "heap_hole R k n h f \<Longrightarrow> 0 < c \<Longrightarrow> c < n \<Longrightarrow> parent c = h \<Longrightarrow> 0 < h \<Longrightarrow> k \<le> parent h
     \<Longrightarrow> R (f (parent h)) (f c)"
  by (simp add: heap_hole_def)

lemma heap_from_cong:
  "(\<And>i. i < n \<Longrightarrow> f i = g i) \<Longrightarrow> heap_from R k n f = heap_from R k n g"
  unfolding heap_from_def by (metis le_less_trans parent_le)

lemma heap_fromD:
  "heap_from R k n f \<Longrightarrow> 0 < c \<Longrightarrow> c < n \<Longrightarrow> k \<le> parent c \<Longrightarrow> R (f (parent c)) (f c)"
  by (simp add: heap_from_def)

lemma heap_from_shrink: "heap_from R k n f \<Longrightarrow> m \<le> n \<Longrightarrow> heap_from R k m f"
  by (simp add: heap_from_def)

lemma heap_from_leaves: "n \<le> 2 * k + 1 \<Longrightarrow> heap_from R k n f"
  by (auto simp: heap_from_def parent_def)

lemma cells_update:
  "a + h < length xs \<Longrightarrow> (\<lambda>i. xs[a + h := v] ! (a + i)) = (\<lambda>i. xs ! (a + i))(h := v)"
  by (auto simp: fun_eq_iff)

lemma cells_update0: "h < length xs \<Longrightarrow> (!) (xs[h := v]) = ((!) xs)(h := v)"
  by (auto simp: fun_eq_iff)

section \<open>The order on items\<close>

locale heap_order =
  fixes R :: "'a \<Rightarrow> 'a \<Rightarrow> bool"
  assumes R_refl: "R x x"
    and R_trans: "R x y \<Longrightarrow> R y z \<Longrightarrow> R x z"
begin

text \<open>The item at the top is above every item of the heap.\<close>

lemma heap_top:
  assumes "heap_from R 0 n f" and "i < n"
  shows "R (f 0) (f i)"
  using assms(2)
proof (induction i rule: less_induct)
  case (less i)
  show ?case
  proof (cases "i = 0")
    case True
    then show ?thesis by (simp add: R_refl)
  next
    case False
    then have p: "parent i < i" by simp
    then have "parent i < n" using less.prems by (rule less_trans)
    with p have "R (f 0) (f (parent i))" by (rule less.IH)
    moreover have "R (f (parent i)) (f i)"
      using heap_fromD [OF assms(1), of i] False less.prems by simp
    ultimately show ?thesis by (rule R_trans)
  qed
qed

text \<open>Opening a hole, at a cell whose upper edges are not asked for or at any cell of a heap.\<close>

lemma heap_hole_open_low:
  assumes "heap_from R (Suc h) n f"
  shows "heap_hole R h n h f"
proof (rule heap_holeI)
  show "R (f (parent c)) (f c)"
    if "0 < c" "c < n" "h \<le> parent c" "parent c \<noteq> h" for c
    using heap_fromD [OF assms] that by simp
next
  show "R (f (parent h)) (f c)" if "0 < h" "h \<le> parent h" for c
    using parent_less [OF that(1)] that(2) by linarith
qed

lemma heap_hole_open:
  assumes "heap_from R 0 n f" and "h < n"
  shows "heap_hole R 0 n h f"
proof (rule heap_holeI)
  show "R (f (parent c)) (f c)" if "0 < c" "c < n" for c
    using heap_fromD [OF assms(1)] that by simp
next
  fix c assume c: "0 < c" "c < n" "parent c = h" "0 < h"
  show "R (f (parent h)) (f c)"
  proof (rule R_trans)
    show "R (f (parent h)) (f h)"
      using heap_fromD [OF assms(1), of h] assms(2) c by simp
    show "R (f h) (f c)"
      using assms c heap_fromD [OF assms(1), of c] by simp
  qed
qed

lemma heap_hole_tail:
  assumes "heap_from R 0 n f"
  shows "heap_hole R 0 (Suc n) n f"
proof (rule heap_holeI)
  show "R (f (parent c)) (f c)" if "0 < c" "c < Suc n" "c \<noteq> n" for c
    using heap_fromD [OF assms] that by simp
next
  show "R (f (parent n)) (f c)" if "0 < c" "c < Suc n" "parent c = n" for c
    using that parent_less [of c] by simp
qed

text \<open>Moving the hole down to the child that may sit above its sibling.\<close>

lemma heap_hole_down:
  assumes hole: "heap_hole R k n h f" and c: "0 < c" "c < n" "parent c = h" "k \<le> h"
    and best: "\<And>d. 0 < d \<Longrightarrow> d < n \<Longrightarrow> parent d = h \<Longrightarrow> R (f c) (f d)"
  shows "heap_hole R k n c (f(h := f c))"
proof (rule heap_holeI)
  have hc: "h < c" using c by auto
  fix d assume d: "0 < d" "d < n"
  show "R ((f(h := f c)) (parent d)) ((f(h := f c)) d)"
    if e: "k \<le> parent d" "parent d \<noteq> c" "d \<noteq> c"
  proof (cases "parent d = h")
    case True
    then have "d \<noteq> h" using d by auto
    then show ?thesis using True best [of d] d by simp
  next
    case False
    show ?thesis
    proof (cases "d = h")
      case True
      then show ?thesis
        using heap_hole_grand [OF hole c(1-3)] d e \<open>parent d \<noteq> h\<close> by simp
    next
      case False
      then show ?thesis
        using heap_hole_edge [OF hole d] e \<open>parent d \<noteq> h\<close> by simp
    qed
  qed
  show "R ((f(h := f c)) (parent c)) ((f(h := f c)) d)" if e: "parent d = c" "k \<le> parent c"
  proof -
    have "c < d" using d e by auto
    then have "R (f c) (f d)"
      using heap_hole_edge [OF hole d] e hc c(3,4) by simp
    then show ?thesis using c(3) hc \<open>c < d\<close> by simp
  qed
qed

text \<open>Moving the hole up to its parent.\<close>

lemma heap_hole_up:
  assumes hole: "heap_hole R 0 n h f" and h: "0 < h" "h < n"
  shows "heap_hole R 0 n (parent h) (f(h := f (parent h)))"
proof (rule heap_holeI)
  let ?p = "parent h" and ?g = "f(h := f (parent h))"
  have ph: "?p < h" using h by simp
  fix d assume d: "0 < d" "d < n"
  show "R (?g (parent d)) (?g d)" if e: "parent d \<noteq> ?p" "d \<noteq> ?p"
  proof (cases "parent d = h")
    case True
    then have "d \<noteq> h" using d by auto
    then show ?thesis using True heap_hole_grand [OF hole d] h by simp
  next
    case False
    moreover have "d \<noteq> h" using e by auto
    ultimately show ?thesis using heap_hole_edge [OF hole d] by simp
  qed
  show "R (?g (parent ?p)) (?g d)" if e: "parent d = ?p" "0 < ?p"
  proof -
    have pp: "parent ?p < ?p" using e by simp
    have up: "R (f (parent ?p)) (f ?p)"
      using heap_hole_edge [OF hole e(2)] h ph pp by simp
    show ?thesis
    proof (cases "d = h")
      case True
      then show ?thesis using up pp ph by simp
    next
      case False
      then have "R (f ?p) (f d)"
        using heap_hole_edge [OF hole d] e ph by (metis less_irrefl zero_le)
      then show ?thesis using R_trans [OF up] False pp ph by simp
    qed
  qed
qed

text \<open>Closing the hole with an item that fits between its parent and its children.\<close>

lemma heap_hole_close:
  assumes hole: "heap_hole R k n h f"
    and above: "0 < h \<Longrightarrow> k \<le> parent h \<Longrightarrow> R (f (parent h)) x"
    and below: "\<And>c. 0 < c \<Longrightarrow> c < n \<Longrightarrow> parent c = h \<Longrightarrow> R x (f c)"
  shows "heap_from R k n (f(h := x))"
proof -
  have "R ((f(h := x)) (parent c)) ((f(h := x)) c)" if c: "0 < c" "c < n" "k \<le> parent c" for c
  proof (cases "c = h")
    case True
    then show ?thesis using above c by simp
  next
    case False
    then show ?thesis using heap_hole_edge [OF hole c] below [OF c(1,2)] by simp
  qed
  then show ?thesis by (simp add: heap_from_def)
qed

end

text \<open>Both directions of a comparator give an order for heaps.\<close>

sublocale comparator \<subseteq> min: heap_order "\<lambda>x y. cmp x y \<le> 0"
  by unfold_locales (auto intro: comp_trans)

sublocale comparator \<subseteq> max: heap_order "\<lambda>x y. cmp y x \<le> 0"
  by unfold_locales (auto intro: comp_trans)

end
