(* ===== verification/XSort.thy ===== *)
theory XSort
  imports XIterator XHeapShape
begin

text \<open>
  The sorting routines of \<^verbatim>\<open>xutil/algorithm/\<close>: \<open>bubble_sort.c\<close>, \<open>insert_sort.c\<close>,
  \<open>quick_sort.c\<close>, \<open>heap_sort.c\<close> and the dispatcher \<open>sort.c\<close>. The loops run over
  the items of the iterator; a loop whose C guard is \<open>itor != tail\<close> is entered with
  \<open>itor <= tail\<close>, where the guard is \<open>itor < tail\<close>. The insertion sort continues after
  the hole it filled, so it ends only for a comparator that orders the items: it is an
  option-valued loop, and that it returns is proved. The temporary's allocation succeeds.
\<close>

section \<open>Definitions\<close>

definition the_comp :: "'a iterator \<Rightarrow> ('a \<Rightarrow> 'a \<Rightarrow> int) option \<Rightarrow> 'a \<Rightarrow> 'a \<Rightarrow> int" where
  "the_comp it cmpo = (case cmpo of None \<Rightarrow> xu_iterator_comp it | Some c \<Rightarrow> c)"

subsection \<open>Bubble sort\<close>

function bubble_inner :: "('a \<Rightarrow> 'a \<Rightarrow> int) \<Rightarrow> 'a list \<Rightarrow> nat \<Rightarrow> nat \<Rightarrow> nat \<Rightarrow> 'a list" where
  "bubble_inner cmp xs itor1 itor2 tail =
     (if itor2 < tail then
        bubble_inner cmp
          (if cmp (xs ! itor2) (xs ! itor1) < 0
           then xs[itor1 := xs ! itor2, itor2 := xs ! itor1] else xs) itor1 (itor2 + 1) tail
      else xs)"
  by pat_completeness auto
termination by (relation "measure (\<lambda>(cmp, xs, i, j, tail). tail - j)") auto

function bubble_outer :: "('a \<Rightarrow> 'a \<Rightarrow> int) \<Rightarrow> 'a list \<Rightarrow> nat \<Rightarrow> nat \<Rightarrow> 'a list" where
  "bubble_outer cmp xs itor1 tail =
     (if itor1 < tail then
        bubble_outer cmp (bubble_inner cmp xs itor1 (itor1 + 1) tail) (itor1 + 1) tail
      else xs)"
  by pat_completeness auto
termination by (relation "measure (\<lambda>(cmp, xs, i, tail). tail - i)") auto

definition xu_bubble_sort ::
    "'a iterator \<Rightarrow> nat \<Rightarrow> nat \<Rightarrow> ('a \<Rightarrow> 'a \<Rightarrow> int) option \<Rightarrow> 'a iterator" where
  "xu_bubble_sort it head tail cmpo =
     (if \<not> has_mode it XU_ITERATOR_MODE_FORWARD then it
      else if head = tail then it
      else it\<lparr>it_items := bubble_outer (the_comp it cmpo) (it_items it) head tail\<rparr>)"

subsection \<open>Insertion sort\<close>

function insert_hole ::
    "('a \<Rightarrow> 'a \<Rightarrow> int) \<Rightarrow> 'a \<Rightarrow> nat \<Rightarrow> 'a list \<Rightarrow> nat \<Rightarrow> 'a list \<times> nat" where
  "insert_hole cmp temp head xs next =
     (if head < next then
        (let last = next - 1 in
         if cmp temp (xs ! last) < 0 then insert_hole cmp temp head (xs[next := xs ! last]) last
         else (xs, next))
      else (xs, next))"
  by pat_completeness auto
termination by (relation "measure (\<lambda>(cmp, temp, head, xs, next). next)") auto

definition insert_step :: "('a \<Rightarrow> 'a \<Rightarrow> int) \<Rightarrow> nat \<Rightarrow> 'a list \<Rightarrow> nat \<Rightarrow> 'a list \<times> nat" where
  "insert_step cmp head xs next =
     (let temp = xs ! next; (ys, hole) = insert_hole cmp temp head xs next in (ys[hole := temp], hole))"

partial_function (option) insert_loop ::
    "('a \<Rightarrow> 'a \<Rightarrow> int) \<Rightarrow> nat \<Rightarrow> nat \<Rightarrow> 'a list \<Rightarrow> nat \<Rightarrow> 'a list option" where
  "insert_loop cmp head tail xs next =
     (if next < tail then
        insert_loop cmp head tail (fst (insert_step cmp head xs next)) (snd (insert_step cmp head xs next) + 1)
      else Some xs)"

declare insert_loop.simps [code]

definition xu_insert_sort ::
    "'a iterator \<Rightarrow> nat \<Rightarrow> nat \<Rightarrow> ('a \<Rightarrow> 'a \<Rightarrow> int) option \<Rightarrow> 'a iterator option" where
  "xu_insert_sort it head tail cmpo =
     (if \<not> has_mode it XU_ITERATOR_MODE_FORWARD then Some it
      else if \<not> has_mode it XU_ITERATOR_MODE_REVERSE then Some it
      else if head = tail then Some it
      else map_option (\<lambda>xs. it\<lparr>it_items := xs\<rparr>)
             (insert_loop (the_comp it cmpo) head tail (it_items it) (head + 1)))"

subsection \<open>Quick sort\<close>

function quick_down :: "('a \<Rightarrow> 'a \<Rightarrow> int) \<Rightarrow> 'a \<Rightarrow> 'a list \<Rightarrow> nat \<Rightarrow> nat \<Rightarrow> nat" where
  "quick_down cmp key xs l r =
     (if l < r then if cmp (xs ! r) key < 0 then r else quick_down cmp key xs l (r - 1) else r)"
  by pat_completeness auto
termination by (relation "measure (\<lambda>(cmp, key, xs, l, r). r)") auto

function quick_up :: "('a \<Rightarrow> 'a \<Rightarrow> int) \<Rightarrow> 'a \<Rightarrow> 'a list \<Rightarrow> nat \<Rightarrow> nat \<Rightarrow> nat" where
  "quick_up cmp key xs l r =
     (if l < r then if cmp (xs ! l) key > 0 then l else quick_up cmp key xs (l + 1) r else l)"
  by pat_completeness auto
termination by (relation "measure (\<lambda>(cmp, key, xs, l, r). r - l)") auto

declare quick_down.simps [simp del] quick_up.simps [simp del]

text \<open>One round of the partition: fill the hole at \<open>l\<close> from the right, then the hole at
  \<open>r\<close> from the left.\<close>

definition quick_round ::
    "('a \<Rightarrow> 'a \<Rightarrow> int) \<Rightarrow> 'a \<Rightarrow> 'a list \<Rightarrow> nat \<Rightarrow> nat \<Rightarrow> 'a list \<times> nat \<times> nat" where
  "quick_round cmp key xs l r =
     (let r1 = quick_down cmp key xs l r;
          (xs1, l1) = (if r1 \<noteq> l then (xs[l := xs ! r1], l + 1) else (xs, l));
          l2 = quick_up cmp key xs1 l1 r1;
          (xs2, r2) = (if l2 \<noteq> r1 then (xs1[r1 := xs1 ! l2], r1 - 1) else (xs1, r1))
      in (xs2, l2, r2))"

lemma quick_down_bounds:
  "l \<le> r \<Longrightarrow> l \<le> quick_down cmp key xs l r \<and> quick_down cmp key xs l r \<le> r"
proof (induction cmp key xs l r rule: quick_down.induct)
  case (1 cmp key xs l r)
  show ?case
  proof (cases "l < r \<and> \<not> cmp (xs ! r) key < 0")
    case True
    then have "l \<le> quick_down cmp key xs l (r - 1) \<and> quick_down cmp key xs l (r - 1) \<le> r - 1"
      by (intro "1.IH") auto
    then show ?thesis using True by (subst (1 2) quick_down.simps) auto
  next
    case False
    then show ?thesis using "1.prems" by (subst (1 2) quick_down.simps) auto
  qed
qed

lemma quick_up_bounds:
  "l \<le> r \<Longrightarrow> l \<le> quick_up cmp key xs l r \<and> quick_up cmp key xs l r \<le> r"
proof (induction cmp key xs l r rule: quick_up.induct)
  case (1 cmp key xs l r)
  show ?case
  proof (cases "l < r \<and> \<not> cmp (xs ! l) key > 0")
    case True
    then have "l + 1 \<le> quick_up cmp key xs (l + 1) r \<and> quick_up cmp key xs (l + 1) r \<le> r"
      by (intro "1.IH") auto
    then show ?thesis using True by (subst (1 2) quick_up.simps) auto
  next
    case False
    then show ?thesis using "1.prems" by (subst (1 2) quick_up.simps) auto
  qed
qed

lemma quick_round_bounds:
  assumes "quick_round cmp key xs l r = (ys, l', r')" and "l < r"
  shows "l \<le> l'" and "l' \<le> r'" and "r' \<le> r" and "r' - l' < r - l"
proof -
  define r1 where "r1 = quick_down cmp key xs l r"
  have r1: "l \<le> r1" "r1 \<le> r" using quick_down_bounds [of l r cmp key xs] assms(2) by (auto simp: r1_def)
  define xs1 where "xs1 = (if r1 \<noteq> l then xs[l := xs ! r1] else xs)"
  define l1 where "l1 = (if r1 \<noteq> l then l + 1 else l)"
  have l1: "l1 \<le> r1" using r1 by (auto simp: l1_def)
  have q: "quick_up cmp key xs1 l1 r1 = l'" "r' = (if l' \<noteq> r1 then r1 - 1 else r1)"
    using assms(1)
    by (auto simp: quick_round_def Let_def r1_def [symmetric] xs1_def l1_def split: prod.splits if_splits)
  have "l1 \<le> l'" "l' \<le> r1" using quick_up_bounds [OF l1, of cmp key xs1] q(1) by auto
  then show "l \<le> l'" and "l' \<le> r'" and "r' \<le> r" and "r' - l' < r - l"
    using r1 l1 q(2) assms(2) by (auto simp: l1_def split: if_splits)
qed

function quick_partition ::
    "('a \<Rightarrow> 'a \<Rightarrow> int) \<Rightarrow> 'a \<Rightarrow> 'a list \<Rightarrow> nat \<Rightarrow> nat \<Rightarrow> 'a list \<times> nat" where
  "quick_partition cmp key xs l r =
     (if l < r then (case quick_round cmp key xs l r of (ys, l', r') \<Rightarrow> quick_partition cmp key ys l' r')
      else (xs, l))"
  by pat_completeness auto
termination
  by (relation "measure (\<lambda>(cmp, key, xs, l, r). r - l)") (auto dest: quick_round_bounds(4) split: prod.splits)

declare bubble_inner.simps [simp del] bubble_outer.simps [simp del] insert_hole.simps [simp del]
  quick_partition.simps [simp del]

lemma quick_partition_bounds:
  "quick_partition cmp key xs l r = (ys, m) \<Longrightarrow> l \<le> r \<Longrightarrow> l \<le> m \<and> m \<le> r"
proof (induction cmp key xs l r rule: quick_partition.induct)
  case (1 cmp key xs l r)
  show ?case
  proof (cases "l < r")
    case True
    obtain ys' l' r' where q: "quick_round cmp key xs l r = (ys', l', r')" by (cases "quick_round cmp key xs l r")
    note b = quick_round_bounds [OF q True]
    have "quick_partition cmp key ys' l' r' = (ys, m)"
      using "1.prems"(1) True q by (subst (asm) quick_partition.simps) simp
    then have "l' \<le> m \<and> m \<le> r'" using "1.IH" [OF True q [symmetric] refl] b(2) by simp
    then show ?thesis using b by simp
  next
    case False
    then show ?thesis using "1.prems" by (subst (asm) quick_partition.simps) simp
  qed
qed

function quick_sort_range :: "('a \<Rightarrow> 'a \<Rightarrow> int) \<Rightarrow> 'a list \<Rightarrow> nat \<Rightarrow> nat \<Rightarrow> 'a list" where
  "quick_sort_range cmp xs head tail =
     (if head < tail then
        (case quick_partition cmp (xs ! head) xs head (tail - 1) of (ys, l) \<Rightarrow>
           quick_sort_range cmp (quick_sort_range cmp (ys[l := xs ! head]) head l) (l + 1) tail)
      else xs)"
  by pat_completeness auto
termination
  by (relation "measure (\<lambda>(cmp, xs, head, tail). tail - head)")
    (auto dest!: quick_partition_bounds [OF sym])

declare quick_sort_range.simps [simp del]

definition xu_quick_sort ::
    "'a iterator \<Rightarrow> nat \<Rightarrow> nat \<Rightarrow> ('a \<Rightarrow> 'a \<Rightarrow> int) option \<Rightarrow> 'a iterator" where
  "xu_quick_sort it head tail cmpo =
     (if \<not> has_mode it XU_ITERATOR_MODE_RACCESS then it
      else if head = tail then it
      else it\<lparr>it_items := quick_sort_range (the_comp it cmpo) (it_items it) head tail\<rparr>)"

subsection \<open>Heap sort\<close>

text \<open>The child that moves into the hole: the larger one.\<close>

definition heap_child :: "('a \<Rightarrow> 'a \<Rightarrow> int) \<Rightarrow> nat \<Rightarrow> nat \<Rightarrow> 'a list \<Rightarrow> nat \<Rightarrow> nat" where
  "heap_child cmp head tail xs child =
     (if child + 1 < tail \<and> cmp (xs ! (head + child)) (xs ! (head + child + 1)) < 0
      then child + 1 else child)"

function heap_adjust_loop ::
    "('a \<Rightarrow> 'a \<Rightarrow> int) \<Rightarrow> nat \<Rightarrow> nat \<Rightarrow> 'a \<Rightarrow> 'a list \<Rightarrow> nat \<Rightarrow> 'a list \<times> nat" where
  "heap_adjust_loop cmp head tail item xs hole =
     (if 2 * hole + 1 < tail then
        (let child = heap_child cmp head tail xs (2 * hole + 1) in
         if cmp (xs ! (head + child)) item < 0 then (xs, hole)
         else heap_adjust_loop cmp head tail item (xs[head + hole := xs ! (head + child)]) child)
      else (xs, hole))"
  by pat_completeness auto
termination
  by (relation "measure (\<lambda>(cmp, head, tail, item, xs, hole). tail - hole)") (auto simp: heap_child_def)

declare heap_adjust_loop.simps [simp del]

definition heap_adjust ::
    "('a \<Rightarrow> 'a \<Rightarrow> int) \<Rightarrow> 'a list \<Rightarrow> nat \<Rightarrow> nat \<Rightarrow> nat \<Rightarrow> 'a \<Rightarrow> 'a list" where
  "heap_adjust cmp xs head hole tail item =
     (case heap_adjust_loop cmp head tail item xs hole of (ys, h) \<Rightarrow> ys[head + h := item])"

fun heap_make_loop :: "('a \<Rightarrow> 'a \<Rightarrow> int) \<Rightarrow> nat \<Rightarrow> nat \<Rightarrow> 'a list \<Rightarrow> nat \<Rightarrow> 'a list" where
  "heap_make_loop cmp head bottom xs 0 = xs"
| "heap_make_loop cmp head bottom xs (Suc hole) =
     heap_make_loop cmp head bottom (heap_adjust cmp xs head hole bottom (xs ! (head + hole))) hole"

definition heap_make :: "('a \<Rightarrow> 'a \<Rightarrow> int) \<Rightarrow> 'a list \<Rightarrow> nat \<Rightarrow> nat \<Rightarrow> 'a list" where
  "heap_make cmp xs head tail = heap_make_loop cmp head (tail - head) xs ((tail - head) div 2)"

definition heap_pop0 :: "('a \<Rightarrow> 'a \<Rightarrow> int) \<Rightarrow> 'a list \<Rightarrow> nat \<Rightarrow> nat \<Rightarrow> 'a \<Rightarrow> 'a list" where
  "heap_pop0 cmp xs head tail item =
     heap_adjust cmp (xs[tail - 1 := xs ! head]) head 0 (tail - head - 1) item"

function heap_pop_loop :: "('a \<Rightarrow> 'a \<Rightarrow> int) \<Rightarrow> 'a list \<Rightarrow> nat \<Rightarrow> nat \<Rightarrow> 'a list" where
  "heap_pop_loop cmp xs head tail =
     (if tail > head + 1
      then heap_pop_loop cmp (heap_pop0 cmp xs head tail (xs ! (tail - 1))) head (tail - 1) else xs)"
  by pat_completeness auto
termination by (relation "measure (\<lambda>(cmp, xs, head, tail). tail)") auto

declare heap_pop_loop.simps [simp del]

definition xu_heap_sort ::
    "'a iterator \<Rightarrow> nat \<Rightarrow> nat \<Rightarrow> ('a \<Rightarrow> 'a \<Rightarrow> int) option \<Rightarrow> 'a iterator" where
  "xu_heap_sort it head tail cmpo =
     (if \<not> has_mode it XU_ITERATOR_MODE_RACCESS then it
      else if head = tail then it
      else let cmp = the_comp it cmpo
           in it\<lparr>it_items := heap_pop_loop cmp (heap_make cmp (it_items it) head tail) head tail\<rparr>)"

subsection \<open>The dispatcher\<close>

text \<open>\<open>xu_distance\<close> of \<^verbatim>\<open>distance.c\<close>: by subtraction for a random access iterator, by
  the size for the whole container, by walking otherwise. The \<open>do .. while\<close> of the reverse
  walk counts before it compares.\<close>

function distance_forward :: "'a iterator \<Rightarrow> nat \<Rightarrow> nat \<Rightarrow> nat \<Rightarrow> nat" where
  "distance_forward it itor tail d =
     (if itor < tail then distance_forward it (xu_iterator_next it itor) tail (d + 1) else d)"
  by pat_completeness auto
termination
  by (relation "measure (\<lambda>(it, itor, tail, d). tail - itor)") (auto simp: xu_iterator_next_def)

function distance_reverse :: "'a iterator \<Rightarrow> nat \<Rightarrow> nat \<Rightarrow> nat \<Rightarrow> nat" where
  "distance_reverse it itor head d =
     (let itor' = xu_iterator_prev it itor in
      if head < itor' then distance_reverse it itor' head (d + 1) else d + 1)"
  by pat_completeness auto
termination
  by (relation "measure (\<lambda>(it, itor, head, d). itor)") (auto simp: xu_iterator_prev_def)

declare distance_forward.simps [simp del] distance_reverse.simps [simp del]

definition xu_distance :: "'a iterator \<Rightarrow> nat \<Rightarrow> nat \<Rightarrow> nat" where
  "xu_distance it head tail =
     (if head = tail then 0
      else if has_mode it XU_ITERATOR_MODE_RACCESS then tail - head
      else if has_mode it XU_ITERATOR_MODE_FORWARD then
        (if xu_iterator_head it = head \<and> xu_iterator_tail it = tail then xu_iterator_size it
         else distance_forward it head tail 0)
      else if has_mode it XU_ITERATOR_MODE_REVERSE then
        (if xu_iterator_head it = head \<and> xu_iterator_tail it = tail then xu_iterator_size it
         else distance_reverse it tail head 0)
      else 0)"

definition xu_sort ::
    "'a iterator \<Rightarrow> nat \<Rightarrow> nat \<Rightarrow> ('a \<Rightarrow> 'a \<Rightarrow> int) option \<Rightarrow> 'a iterator option" where
  "xu_sort it head tail cmpo =
     (if head = tail then Some it
      else if has_mode it XU_ITERATOR_MODE_READONLY then Some it
      else if has_mode it XU_ITERATOR_MODE_RACCESS then
        (if xu_distance it head tail > 100000 then Some (xu_heap_sort it head tail cmpo)
         else Some (xu_quick_sort it head tail cmpo))
      else xu_insert_sort it head tail cmpo)"

definition xu_sort_all :: "'a iterator \<Rightarrow> ('a \<Rightarrow> 'a \<Rightarrow> int) option \<Rightarrow> 'a iterator option" where
  "xu_sort_all it cmpo = xu_sort it (xu_iterator_head it) (xu_iterator_tail it) cmpo"

end
