(* ===== verification/XSortCorrect.thy ===== *)
theory XSortCorrect
  imports XSort
begin

text \<open>
  The sorting routines permute the range they are given, leave every other cell alone and
  end with the range in order, for every comparator that satisfies the contract. The heap
  sort rests on the heap-with-a-hole lemmas of \<open>XHeapShape\<close>.
\<close>

section \<open>Ordered ranges\<close>

lemma sorted_rangeD:
  "sorted_range cmp xs lo hi \<Longrightarrow> lo \<le> i \<Longrightarrow> i < j \<Longrightarrow> j < hi \<Longrightarrow> cmp (xs ! i) (xs ! j) \<le> 0"
  by (simp add: sorted_range_def)

lemma sorted_rangeI:
  "(\<And>i j. lo \<le> i \<Longrightarrow> i < j \<Longrightarrow> j < hi \<Longrightarrow> cmp (xs ! i) (xs ! j) \<le> 0) \<Longrightarrow> sorted_range cmp xs lo hi"
  by (simp add: sorted_range_def)

lemma sorted_range_cons:
  "sorted_range cmp xs (Suc i) hi \<Longrightarrow> (\<And>k. i < k \<Longrightarrow> k < hi \<Longrightarrow> cmp (xs ! i) (xs ! k) \<le> 0)
     \<Longrightarrow> sorted_range cmp xs i hi"
  by (rule sorted_rangeI) (metis Suc_leI le_neq_implies_less sorted_rangeD)

lemma sorted_range_cong:
  "(\<And>i. lo \<le> i \<Longrightarrow> i < hi \<Longrightarrow> ys ! i = xs ! i) \<Longrightarrow> sorted_range cmp xs lo hi \<Longrightarrow> sorted_range cmp ys lo hi"
  by (auto simp: sorted_range_def)

lemma range_perm_all:
  assumes "range_perm xs ys lo hi" and "hi \<le> length xs"
    and "\<And>j. lo \<le> j \<Longrightarrow> j < hi \<Longrightarrow> P (xs ! j)" and "lo \<le> i" and "i < hi"
  shows "P (ys ! i)"
proof -
  have "i < length xs" using assms(2,5) by simp
  then obtain j where "lo \<le> j" "j < hi" "ys ! i = xs ! j"
    using range_perm_nth [OF assms(1,4,5)] by blast
  then show ?thesis using assms(3) by simp
qed

lemma range_perm_holeI:
  assumes "same_outside xs ys lo hi" and "mset (ys[h := v]) = mset xs" and "lo \<le> h" and "h < hi"
  shows "range_perm xs (ys[h := v]) lo hi"
  using assms by (simp add: range_perm_iff same_outside_update)

section \<open>Bubble sort\<close>

context comparator
begin

lemma bubble_inner_spec:
  assumes "i < j" and "j \<le> tail" and "tail \<le> length xs"
    and "\<And>k. i < k \<Longrightarrow> k < j \<Longrightarrow> cmp (xs ! i) (xs ! k) \<le> 0"
  shows "range_perm xs (bubble_inner cmp xs i j tail) i tail \<and>
    (\<forall>k. i < k \<longrightarrow> k < tail \<longrightarrow>
       cmp (bubble_inner cmp xs i j tail ! i) (bubble_inner cmp xs i j tail ! k) \<le> 0)"
  using assms
proof (induction "tail - j" arbitrary: xs j)
  case 0
  then show ?case by (subst (1 2 3) bubble_inner.simps) auto
next
  case (Suc n)
  let ?ys = "if cmp (xs ! j) (xs ! i) < 0 then xs[i := xs ! j, j := xs ! i] else xs"
  have "j < tail" using Suc.hyps(2) by simp
  then have step: "bubble_inner cmp xs i j tail = bubble_inner cmp ?ys i (j + 1) tail"
    by (subst bubble_inner.simps) simp
  have perm: "range_perm xs ?ys i tail"
  proof (cases "cmp (xs ! j) (xs ! i) < 0")
    case True
    have "mset (xs[i := xs ! j, j := xs ! i]) = mset xs"
      using hole_move [of i xs j "xs ! i"] Suc.prems \<open>j < tail\<close> by simp
    then show ?thesis
      using True Suc.prems \<open>j < tail\<close> by (auto simp: range_perm_iff intro!: same_outside_update)
  qed simp
  have ij: "i < length xs" "j < length xs" "i \<noteq> j" using Suc.prems(1,3) \<open>j < tail\<close> by auto
  have least: "cmp (?ys ! i) (?ys ! k) \<le> 0" if k: "i < k" "k < j + 1" for k
  proof (cases "cmp (xs ! j) (xs ! i) < 0")
    case True
    have ysi: "?ys ! i = xs ! j" using True ij by simp
    show ?thesis
    proof (cases "k = j")
      case kj: True
      have "?ys ! k = xs ! i" using True kj ij by simp
      then show ?thesis using ysi True by simp
    next
      case False
      then have "cmp (xs ! i) (xs ! k) \<le> 0" using k Suc.prems(4) by simp
      then have "cmp (xs ! j) (xs ! k) < 0" using comp_neg_trans [OF True] by simp
      moreover have "?ys ! k = xs ! k" using True False k by simp
      ultimately show ?thesis using ysi by simp
    qed
  next
    case False
    then show ?thesis using k Suc.prems(4) [of k] comp_not_neg [of "xs ! j" "xs ! i"] by (cases "k = j") auto
  qed
  have "length ?ys = length xs" by simp
  then have IH: "range_perm ?ys (bubble_inner cmp ?ys i (j + 1) tail) i tail \<and>
     (\<forall>k. i < k \<longrightarrow> k < tail \<longrightarrow> cmp (bubble_inner cmp ?ys i (j + 1) tail ! i)
        (bubble_inner cmp ?ys i (j + 1) tail ! k) \<le> 0)"
  proof (intro Suc.hyps(1))
    show "n = tail - (j + 1)" "i < j + 1" "j + 1 \<le> tail" "tail \<le> length ?ys"
      using Suc.hyps(2) Suc.prems \<open>j < tail\<close> by simp_all
  qed (rule least)
  then show ?case
    unfolding step using range_perm_trans [OF perm] by blast
qed

lemma bubble_outer_spec:
  assumes "i \<le> tail" and "tail \<le> length xs"
  shows "range_perm xs (bubble_outer cmp xs i tail) i tail \<and>
    sorted_range cmp (bubble_outer cmp xs i tail) i tail"
  using assms
proof (induction "tail - i" arbitrary: xs i)
  case 0
  then show ?case by (subst (1 2) bubble_outer.simps) (auto simp: sorted_range_def)
next
  case (Suc n)
  let ?ys = "bubble_inner cmp xs i (i + 1) tail"
  let ?zs = "bubble_outer cmp ?ys (i + 1) tail"
  have "i < tail" using Suc.hyps(2) by simp
  then have step: "bubble_outer cmp xs i tail = ?zs"
    by (subst bubble_outer.simps) simp
  have inner: "range_perm xs ?ys i tail"
    and least: "\<And>k. i < k \<Longrightarrow> k < tail \<Longrightarrow> cmp (?ys ! i) (?ys ! k) \<le> 0"
    using bubble_inner_spec [of i "i + 1" tail xs] \<open>i < tail\<close> Suc.prems by auto
  have len: "length ?ys = length xs" using range_permD(1) [OF inner] .
  have IH: "range_perm ?ys ?zs (i + 1) tail" "sorted_range cmp ?zs (i + 1) tail"
    using Suc.hyps(1) [of "i + 1" ?ys] Suc.hyps(2) Suc.prems \<open>i < tail\<close> len by auto
  have "?zs ! i = ?ys ! i"
    using range_permD(3) [OF IH(1)] \<open>i < tail\<close> Suc.prems len by simp
  moreover have "cmp (?ys ! i) (?zs ! k) \<le> 0" if "i < k" "k < tail" for k
  proof (rule range_perm_all [OF IH(1), where P = "\<lambda>x. cmp (?ys ! i) x \<le> 0" and i = k])
    show "cmp (?ys ! i) (?ys ! l) \<le> 0" if "i + 1 \<le> l" "l < tail" for l
      using least that by simp
  qed (use that len Suc.prems in simp_all)
  ultimately have le: "cmp (?zs ! i) (?zs ! k) \<le> 0" if "i < k" "k < tail" for k
    using that by simp
  have "sorted_range cmp ?zs i tail"
    by (rule sorted_range_cons) (use IH(2) le in simp_all)
  then show ?case
    unfolding step using range_perm_trans [OF inner] range_perm_mono [OF IH(1)] by simp
qed

end

section \<open>Insertion sort\<close>

context comparator
begin

lemma insert_hole_spec:
  assumes "insert_hole cmp temp head xs nxt = (ys, h)" and "head \<le> nxt" and "nxt < m" and "m \<le> length xs"
    and "\<And>i j. head \<le> i \<Longrightarrow> i < j \<Longrightarrow> j < m \<Longrightarrow> i \<noteq> nxt \<Longrightarrow> j \<noteq> nxt \<Longrightarrow> cmp (xs ! i) (xs ! j) \<le> 0"
    and "\<And>j. nxt < j \<Longrightarrow> j < m \<Longrightarrow> cmp temp (xs ! j) \<le> 0"
  shows "head \<le> h \<and> h \<le> nxt \<and> same_outside xs ys head m \<and> mset (ys[h := temp]) = mset (xs[nxt := temp])
    \<and> sorted_range cmp (ys[h := temp]) head m"
  using assms
proof (induction nxt arbitrary: xs rule: less_induct)
  case (less nxt)
  let ?last = "nxt - 1"
  have nl: "nxt < length xs" "?last < length xs" using less.prems(3,4) by auto
  show ?case
  proof (cases "head < nxt \<and> cmp temp (xs ! ?last) < 0")
    case True
    let ?xs = "xs[nxt := xs ! ?last]"
    have lt: "?last < nxt" using True by simp
    have step: "insert_hole cmp temp head ?xs ?last = (ys, h)"
      using less.prems(1) True by (subst (asm) insert_hole.simps) (simp add: Let_def)
    have srt: "cmp (?xs ! i) (?xs ! j) \<le> 0"
      if ij: "head \<le> i" "i < j" "j < m" "i \<noteq> ?last" "j \<noteq> ?last" for i j
    proof -
      consider "j = nxt" | "i = nxt" "j \<noteq> nxt" | "i \<noteq> nxt" "j \<noteq> nxt" by blast
      then show ?thesis
      proof cases
        case 1
        then have "cmp (xs ! i) (xs ! ?last) \<le> 0" using ij lt less.prems(3) by (intro less.prems(5)) auto
        then show ?thesis using 1 ij nl by simp
      next
        case 2
        then have "cmp (xs ! ?last) (xs ! j) \<le> 0" using ij lt True by (intro less.prems(5)) auto
        then show ?thesis using 2 nl by simp
      next
        case 3
        then have "cmp (xs ! i) (xs ! j) \<le> 0" using ij by (intro less.prems(5)) auto
        then show ?thesis using 3 by simp
      qed
    qed
    have abv: "cmp temp (?xs ! j) \<le> 0" if "?last < j" "j < m" for j
      using that True less.prems(6) [of j] nl by (cases "j = nxt") auto
    have "head \<le> h \<and> h \<le> ?last \<and> same_outside ?xs ys head m
        \<and> mset (ys[h := temp]) = mset (?xs[?last := temp]) \<and> sorted_range cmp (ys[h := temp]) head m"
      by (rule less.IH [OF lt step]) (use True less.prems(3,4) srt abv in auto)
    moreover have "mset (?xs[?last := temp]) = mset (xs[nxt := temp])"
      using hole_move [of nxt xs ?last temp] nl by simp
    moreover have "same_outside xs ?xs head m"
      using less.prems(2,3) by (intro same_outside_update) auto
    ultimately show ?thesis
      using same_outside_trans lt by (metis less_imp_le order_trans)
  next
    case False
    then have eq: "ys = xs" "h = nxt"
      using less.prems(1) by (auto simp: insert_hole.simps [of cmp temp head xs nxt] Let_def split: if_splits)
    have below: "cmp (xs ! i) temp \<le> 0" if i: "head \<le> i" "i < nxt" for i
    proof -
      have last: "cmp (xs ! ?last) temp \<le> 0"
        using False i comp_not_neg [of temp "xs ! ?last"] by auto
      show ?thesis
      proof (cases "i = ?last")
        case False
        then have "cmp (xs ! i) (xs ! ?last) \<le> 0" using i less.prems(3) by (intro less.prems(5)) auto
        then show ?thesis using last comp_trans by blast
      qed (use last in simp)
    qed
    have "sorted_range cmp (xs[nxt := temp]) head m"
    proof (rule sorted_rangeI)
      fix i j assume ij: "head \<le> i" "i < j" "j < m"
      consider "j = nxt" | "i = nxt" "j \<noteq> nxt" | "i \<noteq> nxt" "j \<noteq> nxt" by blast
      then show "cmp (xs[nxt := temp] ! i) (xs[nxt := temp] ! j) \<le> 0"
      proof cases
        case 1 then show ?thesis using ij nl below [of i] by simp
      next
        case 2 then show ?thesis using ij nl less.prems(6) [of j] by simp
      next
        case 3 then show ?thesis using ij less.prems(5) [of i j] by simp
      qed
    qed
    then show ?thesis using eq less.prems(2) by simp
  qed
qed

text \<open>One step of the outer loop, on a prefix sorted up to \<open>next\<close> and on one sorted beyond it.\<close>

lemma insert_step_extend:
  assumes "sorted_range cmp xs head nxt" and "head \<le> nxt" and "nxt < length xs"
    and "insert_step cmp head xs nxt = (ys, h)"
  shows "head \<le> h \<and> h \<le> nxt \<and> range_perm xs ys head (Suc nxt) \<and> sorted_range cmp ys head (Suc nxt)"
proof -
  obtain zs where zs: "insert_hole cmp (xs ! nxt) head xs nxt = (zs, h)" "ys = zs[h := xs ! nxt]"
    using assms(4) by (auto simp: insert_step_def Let_def split: prod.splits)
  have "head \<le> h \<and> h \<le> nxt \<and> same_outside xs zs head (Suc nxt)
      \<and> mset (zs[h := xs ! nxt]) = mset (xs[nxt := xs ! nxt]) \<and> sorted_range cmp (zs[h := xs ! nxt]) head (Suc nxt)"
    by (rule insert_hole_spec [OF zs(1)]) (use assms(1-3) in \<open>auto intro: sorted_rangeD\<close>)
  then show ?thesis unfolding zs(2) by (auto intro: range_perm_holeI)
qed

lemma insert_step_stay:
  assumes "sorted_range cmp xs head (Suc nxt)" and "head \<le> nxt"
  shows "insert_step cmp head xs nxt = (xs, nxt)"
proof -
  have "\<not> (head < nxt \<and> cmp (xs ! nxt) (xs ! (nxt - 1)) < 0)"
    using sorted_rangeD [OF assms(1), of "nxt - 1" nxt] comp_not_neg [of "xs ! nxt"] assms(2) by fastforce
  then have "insert_hole cmp (xs ! nxt) head xs nxt = (xs, nxt)"
    by (subst insert_hole.simps) (auto simp: Let_def)
  then show ?thesis by (simp add: insert_step_def Let_def)
qed

lemma insert_loop_spec:
  assumes "sorted_range cmp xs head j" and "head < nxt" and "nxt \<le> j" and "j \<le> tail" and "tail \<le> length xs"
  shows "\<exists>ys. insert_loop cmp head tail xs nxt = Some ys \<and> range_perm xs ys head tail \<and> sorted_range cmp ys head tail"
  using assms
proof (induction "(tail - j, j - nxt)" arbitrary: xs j nxt rule: wf_induct_rule [OF wf_lex_prod [OF wf_less_than wf_less_than]])
  case (1 j nxt xs)
  show ?case
  proof (cases "nxt < j")
    case True
    have "sorted_range cmp xs head (Suc nxt)"
      using "1.prems"(1) True by (intro sorted_rangeI) (auto intro: sorted_rangeD)
    then have st: "insert_step cmp head xs nxt = (xs, nxt)"
      using "1.prems"(2) by (intro insert_step_stay) auto
    have "\<exists>ys. insert_loop cmp head tail xs (nxt + 1) = Some ys \<and> range_perm xs ys head tail \<and> sorted_range cmp ys head tail"
      by (rule "1.hyps") (use "1.prems" True in auto)
    then show ?thesis using st True "1.prems"(4) by (subst insert_loop.simps) simp
  next
    case False
    then have nj: "nxt = j" using "1.prems"(3) by simp
    show ?thesis
    proof (cases "j < tail")
      case True
      obtain ys h where st: "insert_step cmp head xs nxt = (ys, h)" by (cases "insert_step cmp head xs nxt")
      have sp: "head \<le> h \<and> h \<le> nxt \<and> range_perm xs ys head (Suc nxt) \<and> sorted_range cmp ys head (Suc nxt)"
        by (rule insert_step_extend [OF _ _ _ st]) (use "1.prems" nj True in auto)
      then have len: "length ys = length xs" by (auto dest: range_permD(1))
      have "\<exists>zs. insert_loop cmp head tail ys (h + 1) = Some zs \<and> range_perm ys zs head tail \<and> sorted_range cmp zs head tail"
        by (rule "1.hyps" [where j = "Suc j"]) (use "1.prems" True nj sp len in auto)
      moreover have "range_perm xs ys head tail"
        using sp True nj by (auto intro: range_perm_mono)
      moreover have "insert_loop cmp head tail xs nxt = insert_loop cmp head tail ys (h + 1)"
        using st True nj by (subst insert_loop.simps) simp
      ultimately show ?thesis
        using range_perm_trans by metis
    next
      case False
      then show ?thesis using "1.prems" nj by (subst insert_loop.simps) auto
    qed
  qed
qed

end

section \<open>Quick sort\<close>

text \<open>The state of the partition: cells left of \<open>l\<close> are not above the key, cells right of
  \<open>r\<close> are not below it, and the array with the key in the hole \<open>h\<close> is a permutation.\<close>

definition partition_inv ::
    "('a \<Rightarrow> 'a \<Rightarrow> int) \<Rightarrow> 'a \<Rightarrow> 'a list \<Rightarrow> nat \<Rightarrow> nat \<Rightarrow> 'a list \<Rightarrow> nat \<Rightarrow> nat \<Rightarrow> nat \<Rightarrow> bool" where
  "partition_inv cmp key xs0 head tail xs l r h \<longleftrightarrow>
     head \<le> l \<and> l \<le> r \<and> r < tail \<and> tail \<le> length xs0 \<and> same_outside xs0 xs head tail
     \<and> mset (xs[h := key]) = mset xs0
     \<and> (\<forall>i. head \<le> i \<longrightarrow> i < l \<longrightarrow> cmp (xs ! i) key \<le> 0)
     \<and> (\<forall>i. r < i \<longrightarrow> i < tail \<longrightarrow> cmp key (xs ! i) \<le> 0)"

lemma partition_inv_len:
  "partition_inv cmp key xs0 head tail xs l r h \<Longrightarrow> length xs = length xs0 \<and> r < length xs \<and> l < length xs"
  by (auto simp: partition_inv_def same_outside_def)

context comparator
begin

lemma quick_down_spec:
  "l \<le> r \<Longrightarrow> (quick_down cmp key xs l r \<noteq> l \<longrightarrow> cmp (xs ! quick_down cmp key xs l r) key < 0)
     \<and> (\<forall>i. quick_down cmp key xs l r < i \<longrightarrow> i \<le> r \<longrightarrow> cmp key (xs ! i) \<le> 0)"
proof (induction r)
  case 0
  then show ?case by (simp add: quick_down.simps)
next
  case (Suc r)
  show ?case
  proof (cases "l < Suc r \<and> \<not> cmp (xs ! Suc r) key < 0")
    case True
    then have "quick_down cmp key xs l (Suc r) = quick_down cmp key xs l r"
      by (subst quick_down.simps) simp
    then show ?thesis
      using Suc True comp_not_neg [of "xs ! Suc r" key] by (auto simp: le_Suc_eq)
  next
    case False
    then have "quick_down cmp key xs l (Suc r) = Suc r"
      by (subst quick_down.simps) auto
    then show ?thesis using False Suc.prems by auto
  qed
qed

lemma quick_up_spec:
  "l \<le> r \<Longrightarrow> (quick_up cmp key xs l r \<noteq> r \<longrightarrow> 0 < cmp (xs ! quick_up cmp key xs l r) key)
     \<and> (\<forall>i. l \<le> i \<longrightarrow> i < quick_up cmp key xs l r \<longrightarrow> cmp (xs ! i) key \<le> 0)"
proof (induction "r - l" arbitrary: l)
  case 0
  then show ?case by (subst (1 2 3) quick_up.simps) simp
next
  case (Suc n)
  show ?case
  proof (cases "cmp (xs ! l) key > 0")
    case True
    then have "quick_up cmp key xs l r = l" using Suc.hyps(2) by (subst quick_up.simps) simp
    then show ?thesis using True by auto
  next
    case False
    have lr: "l < r" using Suc.hyps(2) by simp
    have step: "quick_up cmp key xs l r = quick_up cmp key xs (l + 1) r"
      using False lr by (subst quick_up.simps) simp
    have "(quick_up cmp key xs (l + 1) r \<noteq> r \<longrightarrow> 0 < cmp (xs ! quick_up cmp key xs (l + 1) r) key)
     \<and> (\<forall>i. l + 1 \<le> i \<longrightarrow> i < quick_up cmp key xs (l + 1) r \<longrightarrow> cmp (xs ! i) key \<le> 0)"
      using Suc.hyps(2) by (intro Suc.hyps(1)) auto
    moreover have "cmp (xs ! i) key \<le> 0" if "l \<le> i" "i < quick_up cmp key xs (l + 1) r" for i
      using calculation False that by (cases "i = l") auto
    ultimately show ?thesis unfolding step by blast
  qed
qed

text \<open>Each half of a round keeps the invariant; between the halves the hole is at \<open>r\<close>.\<close>

lemma quick_half_down:
  assumes inv: "partition_inv cmp key xs0 head tail xs l r l"
    and r1: "r1 = quick_down cmp key xs l r"
  shows "r1 \<noteq> l \<Longrightarrow> partition_inv cmp key xs0 head tail (xs[l := xs ! r1]) (l + 1) r1 r1"
    and "r1 = l \<Longrightarrow> partition_inv cmp key xs0 head tail xs l r1 r1"
proof -
  have b: "l \<le> r1" "r1 \<le> r" and lr: "l \<le> r" "l < length xs" "r < length xs"
    using quick_down_bounds [of l r cmp key xs] inv partition_inv_len [OF inv] r1
    by (auto simp: partition_inv_def)
  have sp: "r1 \<noteq> l \<Longrightarrow> cmp (xs ! r1) key < 0" "\<And>i. r1 < i \<Longrightarrow> i \<le> r \<Longrightarrow> cmp key (xs ! i) \<le> 0"
    using quick_down_spec [OF lr(1), of key xs] r1 by auto
  have right: "cmp key (xs ! i) \<le> 0" if "r1 < i" "i < tail" for i
    using that sp(2) [of i] inv by (cases "i \<le> r") (auto simp: partition_inv_def)
  show "partition_inv cmp key xs0 head tail xs l r1 r1" if "r1 = l"
    using inv that right by (auto simp: partition_inv_def)
  assume ne: "r1 \<noteq> l"
  let ?ys = "xs[l := xs ! r1]"
  have "mset (?ys[r1 := key]) = mset xs0"
    using hole_move [of l xs r1 key] b lr inv by (simp add: partition_inv_def)
  moreover have "same_outside xs0 ?ys head tail"
    using inv by (intro same_outside_update) (auto simp: partition_inv_def)
  moreover have "cmp (?ys ! i) key \<le> 0" if "head \<le> i" "i < l + 1" for i
    using that sp(1) ne inv lr by (cases "i = l") (auto simp: partition_inv_def)
  moreover have "cmp key (?ys ! i) \<le> 0" if "r1 < i" "i < tail" for i
    using that right [of i] b by simp
  ultimately show "partition_inv cmp key xs0 head tail ?ys (l + 1) r1 r1"
    using inv b ne by (auto simp: partition_inv_def)
qed

lemma quick_half_up:
  assumes inv: "partition_inv cmp key xs0 head tail xs l r r"
    and l2: "l2 = quick_up cmp key xs l r"
  shows "l2 \<noteq> r \<Longrightarrow> partition_inv cmp key xs0 head tail (xs[r := xs ! l2]) l2 (r - 1) l2"
    and "l2 = r \<Longrightarrow> partition_inv cmp key xs0 head tail xs l2 r l2"
proof -
  have b: "l \<le> l2" "l2 \<le> r" and lr: "l \<le> r" "l < length xs" "r < length xs"
    using quick_up_bounds [of l r cmp key xs] inv partition_inv_len [OF inv] l2
    by (auto simp: partition_inv_def)
  have sp: "l2 \<noteq> r \<Longrightarrow> 0 < cmp (xs ! l2) key" "\<And>i. l \<le> i \<Longrightarrow> i < l2 \<Longrightarrow> cmp (xs ! i) key \<le> 0"
    using quick_up_spec [OF lr(1), of key xs] l2 by auto
  have left: "cmp (xs ! i) key \<le> 0" if "head \<le> i" "i < l2" for i
    using that sp(2) [of i] inv by (cases "l \<le> i") (auto simp: partition_inv_def)
  show "partition_inv cmp key xs0 head tail xs l2 r l2" if "l2 = r"
    using inv that left b by (auto simp: partition_inv_def)
  assume ne: "l2 \<noteq> r"
  let ?ys = "xs[r := xs ! l2]"
  have "mset (?ys[l2 := key]) = mset xs0"
    using hole_move [of r xs l2 key] b lr inv by (simp add: partition_inv_def)
  moreover have "same_outside xs0 ?ys head tail"
    using inv by (intro same_outside_update) (auto simp: partition_inv_def)
  moreover have "cmp (?ys ! i) key \<le> 0" if "head \<le> i" "i < l2" for i
    using that left [of i] b by simp
  moreover have "cmp key (?ys ! i) \<le> 0" if "r - 1 < i" "i < tail" for i
  proof (cases "i = r")
    case True
    then show ?thesis using sp(1) ne comp_pos_le lr by simp
  next
    case False
    then show ?thesis using that inv by (auto simp: partition_inv_def)
  qed
  ultimately show "partition_inv cmp key xs0 head tail ?ys l2 (r - 1) l2"
    using inv b ne by (auto simp: partition_inv_def)
qed

lemma quick_round_inv:
  assumes inv: "partition_inv cmp key xs0 head tail xs l r l"
    and q: "quick_round cmp key xs l r = (ys, l', r')"
  shows "partition_inv cmp key xs0 head tail ys l' r' l'"
proof -
  define r1 where "r1 = quick_down cmp key xs l r"
  define xs1 where "xs1 = (if r1 \<noteq> l then xs[l := xs ! r1] else xs)"
  define l1 where "l1 = (if r1 \<noteq> l then l + 1 else l)"
  have half: "partition_inv cmp key xs0 head tail xs1 l1 r1 r1"
    using quick_half_down [OF inv r1_def] by (auto simp: xs1_def l1_def)
  have l': "l' = quick_up cmp key xs1 l1 r1"
    and ys: "ys = (if l' \<noteq> r1 then xs1[r1 := xs1 ! l'] else xs1)"
    and r': "r' = (if l' \<noteq> r1 then r1 - 1 else r1)"
    using q by (auto simp: quick_round_def Let_def r1_def [symmetric] xs1_def l1_def split: if_splits)
  show ?thesis
    using quick_half_up [OF half l'] by (auto simp: ys r')
qed

lemma quick_partition_inv:
  assumes "partition_inv cmp key xs0 head tail xs l r l" and "quick_partition cmp key xs l r = (ys, m)"
  shows "partition_inv cmp key xs0 head tail ys m m m"
  using assms
proof (induction "r - l" arbitrary: xs l r rule: less_induct)
  case less
  show ?case
  proof (cases "l < r")
    case True
    obtain zs l' r' where q: "quick_round cmp key xs l r = (zs, l', r')" by (cases "quick_round cmp key xs l r")
    have "quick_partition cmp key zs l' r' = (ys, m)"
      using less.prems(2) True q by (subst (asm) quick_partition.simps) simp
    then show ?thesis
      using less.hyps quick_round_bounds(4) [OF q True] quick_round_inv [OF less.prems(1) q] by blast
  next
    case False
    then have "ys = xs" "m = l"
      using less.prems(2) by (auto simp: quick_partition.simps)
    then show ?thesis using less.prems(1) False by (auto simp: partition_inv_def)
  qed
qed

lemma quick_sort_range_spec:
  assumes "tail \<le> length xs"
  shows "range_perm xs (quick_sort_range cmp xs head tail) head tail
    \<and> sorted_range cmp (quick_sort_range cmp xs head tail) head tail"
  using assms
proof (induction "tail - head" arbitrary: xs head tail rule: less_induct)
  case less
  show ?case
  proof (cases "head < tail")
    case False
    then show ?thesis by (subst (1 2) quick_sort_range.simps) (auto simp: sorted_range_def)
  next
    case True
    define key where "key = xs ! head"
    obtain ys m where q: "quick_partition cmp key xs head (tail - 1) = (ys, m)"
      by (cases "quick_partition cmp key xs head (tail - 1)")
    let ?zs = "ys[m := key]"
    let ?us = "quick_sort_range cmp ?zs head m"
    let ?vs = "quick_sort_range cmp ?us (m + 1) tail"
    have step: "quick_sort_range cmp xs head tail = ?vs"
      using True q by (subst quick_sort_range.simps) (simp add: key_def)
    have "partition_inv cmp key xs head tail xs head (tail - 1) head"
      using True less.prems by (auto simp: partition_inv_def key_def)
    then have inv: "partition_inv cmp key xs head tail ys m m m"
      using quick_partition_inv q by blast
    have m: "head \<le> m" "m < tail" and len: "length ys = length xs"
      using inv partition_inv_len [OF inv] by (auto simp: partition_inv_def)
    have pz: "range_perm xs ?zs head tail"
      using inv m by (intro range_perm_holeI) (auto simp: partition_inv_def)
    have u: "range_perm ?zs ?us head m" "sorted_range cmp ?us head m"
      using less.hyps [of m head ?zs] m less.prems len by auto
    have lenu: "length ?us = length xs" using range_permD(1) [OF u(1)] len by simp
    have v: "range_perm ?us ?vs (m + 1) tail" "sorted_range cmp ?vs (m + 1) tail"
      using less.hyps [of tail "m + 1" ?us] m less.prems lenu by auto
    have left: "cmp (?vs ! i) key \<le> 0" if i: "head \<le> i" "i < m" for i
    proof -
      have "cmp (?us ! i) key \<le> 0"
      proof (rule range_perm_all [OF u(1), where P = "\<lambda>x. cmp x key \<le> 0"])
        show "cmp (?zs ! j) key \<le> 0" if "head \<le> j" "j < m" for j
          using inv that by (simp add: partition_inv_def)
      qed (use i m len less.prems in simp_all)
      then show ?thesis using range_permD(3) [OF v(1), of i] i lenu m less.prems by simp
    qed
    have mid: "?vs ! m = key"
      using range_permD(3) [OF v(1), of m] range_permD(4) [OF u(1), of m] lenu len m less.prems by simp
    have right: "cmp key (?vs ! i) \<le> 0" if i: "m < i" "i < tail" for i
    proof (rule range_perm_all [OF v(1), where P = "\<lambda>x. cmp key x \<le> 0" and i = i])
      fix j assume j: "m + 1 \<le> j" "j < tail"
      then have "?us ! j = ys ! j"
        using range_permD(4) [OF u(1), of j] lenu len less.prems by simp
      then show "cmp key (?us ! j) \<le> 0" using inv j by (simp add: partition_inv_def)
    qed (use i lenu less.prems in simp_all)
    have "sorted_range cmp ?vs head tail"
    proof (rule sorted_rangeI)
      fix i j assume ij: "head \<le> i" "i < j" "j < tail"
      consider "j < m" | "j = m" | "i < m" "m < j" | "i = m" | "m < i"
        using ij by linarith
      then show "cmp (?vs ! i) (?vs ! j) \<le> 0"
      proof cases
        case 1
        then have "?vs ! i = ?us ! i" "?vs ! j = ?us ! j"
          using range_permD(3) [OF v(1)] ij lenu less.prems by simp_all
        then show ?thesis using sorted_rangeD [OF u(2) ij(1,2) 1] by simp
      next
        case 2 then show ?thesis using left ij mid by simp
      next
        case 3 then show ?thesis using comp_trans [OF left right] ij by simp
      next
        case 4 then show ?thesis using right [of j] ij mid by simp
      next
        case 5 then show ?thesis using sorted_rangeD [OF v(2)] ij by simp
      qed
    qed
    moreover have "range_perm xs ?vs head tail"
      using range_perm_trans [OF pz range_perm_trans [OF range_perm_mono [OF u(1)] range_perm_mono [OF v(1)]]] m
      by simp
    ultimately show ?thesis unfolding step by simp
  qed
qed

end

section \<open>Heap sort\<close>

text \<open>\<open>heap_at\<close>: the cells from \<open>head\<close>, seen by heap index, form a heap with the
  greatest item on top.\<close>

definition heap_at :: "('a \<Rightarrow> 'a \<Rightarrow> int) \<Rightarrow> 'a list \<Rightarrow> nat \<Rightarrow> nat \<Rightarrow> nat \<Rightarrow> bool" where
  "heap_at cmp xs head k n \<longleftrightarrow> heap_from (\<lambda>x y. cmp y x \<le> 0) k n (\<lambda>i. xs ! (head + i))"

context comparator
begin

lemma heap_child_spec:
  assumes "c = heap_child cmp head n xs (2 * h + 1)" and "2 * h + 1 < n"
  shows "c < n" and "parent c = h" and "0 < c" and "h < c"
    and "\<And>d. 0 < d \<Longrightarrow> d < n \<Longrightarrow> parent d = h \<Longrightarrow> cmp (xs ! (head + d)) (xs ! (head + c)) \<le> 0"
proof -
  show "c < n" "parent c = h" "0 < c" "h < c"
    using assms by (auto simp: heap_child_def)
  fix d assume d: "0 < d" "d < n" "parent d = h"
  have two: "d = 2 * h + 1 \<or> d = 2 * h + 2" using d by (simp add: parent_eq)
  let ?l = "xs ! Suc (head + 2 * h)" and ?r = "xs ! Suc (Suc (head + 2 * h))"
  show "cmp (xs ! (head + d)) (xs ! (head + c)) \<le> 0"
    using two assms d(2) comp_not_neg [of ?l ?r] comp_neg_le [of ?l ?r] by (auto simp: heap_child_def)
qed

lemma heap_adjust_loop_spec:
  assumes "heap_adjust_loop cmp head n item xs h = (ys, h')" and "k \<le> h" and "h < n" and "head + n \<le> length xs"
    and "heap_hole (\<lambda>x y. cmp y x \<le> 0) k n h (\<lambda>i. xs ! (head + i))"
    and "0 < h \<Longrightarrow> k \<le> parent h \<Longrightarrow> cmp item (xs ! (head + parent h)) \<le> 0"
  shows "h' < n \<and> same_outside xs ys head (head + n) \<and> mset (ys[head + h' := item]) = mset (xs[head + h := item])
    \<and> heap_at cmp (ys[head + h' := item]) head k n"
  using assms
proof (induction "n - h" arbitrary: xs h rule: less_induct)
  case less
  have hl: "head + h < length xs" using less.prems(3,4) by simp
  let ?c = "heap_child cmp head n xs (2 * h + 1)"
  show ?case
  proof (cases "2 * h + 1 < n \<and> \<not> cmp (xs ! (head + ?c)) item < 0")
    case True
    note c = heap_child_spec [OF refl, where h = h and n = n and head = head and xs = xs]
    have c': "?c < n" "parent ?c = h" "0 < ?c" "h < ?c" using c True by auto
    let ?xs = "xs[head + h := xs ! (head + ?c)]"
    have step: "heap_adjust_loop cmp head n item ?xs ?c = (ys, h')"
      using less.prems(1) True by (subst (asm) heap_adjust_loop.simps) (simp add: Let_def)
    have hole: "heap_hole (\<lambda>x y. cmp y x \<le> 0) k n ?c (\<lambda>i. ?xs ! (head + i))"
      unfolding cells_update [OF hl]
      by (rule max.heap_hole_down [OF less.prems(5) c'(3,1,2) less.prems(2)]) (use c(5) True in auto)
    have above: "cmp item (?xs ! (head + parent ?c)) \<le> 0"
      using True c'(2) hl comp_not_neg by simp
    have "h' < n \<and> same_outside ?xs ys head (head + n)
        \<and> mset (ys[head + h' := item]) = mset (?xs[head + ?c := item])
        \<and> heap_at cmp (ys[head + h' := item]) head k n"
      by (rule less.hyps [OF _ step]) (use c' less.prems(2-4) hole above in auto)
    moreover have "mset (?xs[head + ?c := item]) = mset (xs[head + h := item])"
      using hole_move [of "head + h" xs "head + ?c" item] hl c'(1) less.prems(4) by simp
    moreover have "same_outside xs ?xs head (head + n)"
      using less.prems(3) by (intro same_outside_update) auto
    ultimately show ?thesis using same_outside_trans by metis
  next
    case False
    then have eq: "ys = xs" "h' = h"
      using less.prems(1) by (auto simp: heap_adjust_loop.simps [of cmp head n item xs h] Let_def split: if_splits)
    have "heap_from (\<lambda>x y. cmp y x \<le> 0) k n ((\<lambda>i. xs ! (head + i))(h := item))"
    proof (rule max.heap_hole_close [OF less.prems(5)])
      show "cmp item (xs ! (head + parent h)) \<le> 0" if "0 < h" "k \<le> parent h"
        using less.prems(6) that by simp
      fix d assume d: "0 < d" "d < n" "parent d = h"
      then have "2 * h + 1 < n" by (auto simp: parent_eq)
      then show "cmp (xs ! (head + d)) item \<le> 0"
        using False heap_child_spec(5) [OF refl _ d, where head = head and xs = xs] comp_trans comp_neg_le by blast
    qed
    then show ?thesis
      using eq less.prems(3) cells_update [OF hl] by (simp add: heap_at_def)
  qed
qed

lemma heap_adjust_spec:
  assumes "k \<le> h" and "h < n" and "head + n \<le> length xs"
    and "heap_hole (\<lambda>x y. cmp y x \<le> 0) k n h (\<lambda>i. xs ! (head + i))"
    and "h = 0 \<or> parent h < k"
  shows "same_outside xs (heap_adjust cmp xs head h n item) head (head + n)"
    and "mset (heap_adjust cmp xs head h n item) = mset (xs[head + h := item])"
    and "heap_at cmp (heap_adjust cmp xs head h n item) head k n"
proof -
  obtain ys h' where q: "heap_adjust_loop cmp head n item xs h = (ys, h')"
    by (cases "heap_adjust_loop cmp head n item xs h")
  have "h' < n \<and> same_outside xs ys head (head + n) \<and> mset (ys[head + h' := item]) = mset (xs[head + h := item])
    \<and> heap_at cmp (ys[head + h' := item]) head k n"
    by (rule heap_adjust_loop_spec [OF q assms(1-4)]) (use assms(5) in auto)
  then show "same_outside xs (heap_adjust cmp xs head h n item) head (head + n)"
    and "mset (heap_adjust cmp xs head h n item) = mset (xs[head + h := item])"
    and "heap_at cmp (heap_adjust cmp xs head h n item) head k n"
    using q by (auto simp: heap_adjust_def intro!: same_outside_update)
qed

lemma heap_make_loop_spec:
  assumes "head + n \<le> length xs" and "h \<le> n" and "heap_at cmp xs head h n"
  shows "range_perm xs (heap_make_loop cmp head n xs h) head (head + n)
    \<and> heap_at cmp (heap_make_loop cmp head n xs h) head 0 n"
  using assms
proof (induction h arbitrary: xs)
  case 0
  then show ?case by simp
next
  case (Suc h)
  let ?ys = "heap_adjust cmp xs head h n (xs ! (head + h))"
  have hole: "heap_hole (\<lambda>x y. cmp y x \<le> 0) h n h (\<lambda>i. xs ! (head + i))"
    using max.heap_hole_open_low Suc.prems(3) by (simp add: heap_at_def)
  have "h = 0 \<or> parent h < h" using parent_less by blast
  note sp = heap_adjust_spec [OF order_refl _ Suc.prems(1) hole this, where item = "xs ! (head + h)"]
  have hn: "h < n" using Suc.prems(2) by simp
  have perm: "range_perm xs ?ys head (head + n)"
    using sp(1,2) [OF hn] by (simp add: range_perm_iff)
  have "head + n \<le> length ?ys" using range_permD(1) [OF perm] Suc.prems(1) by simp
  then have "range_perm ?ys (heap_make_loop cmp head n ?ys h) head (head + n)
    \<and> heap_at cmp (heap_make_loop cmp head n ?ys h) head 0 n"
    using sp(3) [OF hn] hn by (intro Suc.IH) auto
  then show ?case using range_perm_trans [OF perm] by simp
qed

lemma heap_make_spec:
  assumes "head \<le> tail" and "tail \<le> length xs"
  shows "range_perm xs (heap_make cmp xs head tail) head tail \<and> heap_at cmp (heap_make cmp xs head tail) head 0 (tail - head)"
proof -
  have "heap_at cmp xs head ((tail - head) div 2) (tail - head)"
    unfolding heap_at_def by (rule heap_from_leaves) simp
  then show ?thesis
    using heap_make_loop_spec [of head "tail - head" xs "(tail - head) div 2"] assms
    by (simp add: heap_make_def)
qed

text \<open>One pop moves the greatest item of the heap behind it.\<close>

lemma heap_pop0_spec:
  assumes "head + 1 < tail" and "tail \<le> length xs" and "heap_at cmp xs head 0 (tail - head)"
    and "ys = heap_pop0 cmp xs head tail (xs ! (tail - 1))"
  shows "range_perm xs ys head tail" and "ys ! (tail - 1) = xs ! head"
    and "heap_at cmp ys head 0 (tail - 1 - head)"
    and "\<And>i. head \<le> i \<Longrightarrow> i < tail \<Longrightarrow> cmp (ys ! i) (xs ! head) \<le> 0"
proof -
  let ?n = "tail - head - 1" and ?zs = "xs[tail - 1 := xs ! head]"
  have len: "head < length xs" "tail - 1 < length xs" "head + ?n \<le> length ?zs" "0 < ?n" "tail - 1 \<noteq> head"
    using assms(1,2) by auto
  have "heap_from (\<lambda>x y. cmp y x \<le> 0) 0 ?n (\<lambda>i. xs ! (head + i))"
    using assms(3) heap_from_shrink unfolding heap_at_def by (metis diff_le_self)
  then have "heap_from (\<lambda>x y. cmp y x \<le> 0) 0 ?n (\<lambda>i. ?zs ! (head + i))"
    by (rule heap_from_cong [THEN iffD1, rotated]) (use assms(1) in auto)
  then have hole: "heap_hole (\<lambda>x y. cmp y x \<le> 0) 0 ?n 0 (\<lambda>i. ?zs ! (head + i))"
    using max.heap_hole_open len(4) by blast
  have ys: "ys = heap_adjust cmp ?zs head 0 ?n (xs ! (tail - 1))"
    using assms(4) by (simp add: heap_pop0_def)
  note sp = heap_adjust_spec [OF order_refl len(4,3) hole disjI1 [OF refl], of "xs ! (tail - 1)"]
  have so: "same_outside ?zs ys head (tail - 1)"
    using sp(1) len ys assms(1) by simp
  have so2: "same_outside xs ?zs head tail"
    using assms(1) by (intro same_outside_update) auto
  have "mset ys = mset (?zs[head := xs ! (tail - 1)])"
    using sp(2) ys by simp
  also have "\<dots> = mset xs"
    using hole_move [of "tail - 1" xs head "xs ! (tail - 1)"] len by simp
  finally show perm: "range_perm xs ys head tail"
    using same_outside_trans [OF so2 same_outside_mono [OF so]] assms(1) by (simp add: range_perm_iff)
  show "ys ! (tail - 1) = xs ! head"
    using so len by (simp add: same_outside_def)
  have "?n = tail - 1 - head" by simp
  then show "heap_at cmp ys head 0 (tail - 1 - head)" using sp(3) ys by metis
  show "cmp (ys ! i) (xs ! head) \<le> 0" if "head \<le> i" "i < tail" for i
  proof (rule range_perm_all [OF perm assms(2), where P = "\<lambda>x. cmp x (xs ! head) \<le> 0"])
    show "cmp (xs ! j) (xs ! head) \<le> 0" if j: "head \<le> j" "j < tail" for j
      using max.heap_top [OF assms(3) [unfolded heap_at_def], of "j - head"] j by simp
  qed (use that in simp_all)
qed

lemma heap_pop_loop_spec:
  assumes "head < t" and "t \<le> tail" and "tail \<le> length xs"
    and "heap_at cmp xs head 0 (t - head)" and "sorted_range cmp xs t tail"
    and "\<And>i j. head \<le> i \<Longrightarrow> i < t \<Longrightarrow> t \<le> j \<Longrightarrow> j < tail \<Longrightarrow> cmp (xs ! i) (xs ! j) \<le> 0"
  shows "range_perm xs (heap_pop_loop cmp xs head t) head tail
    \<and> sorted_range cmp (heap_pop_loop cmp xs head t) head tail"
  using assms
proof (induction "t" arbitrary: xs)
  case 0
  then show ?case by simp
next
  case (Suc t)
  show ?case
  proof (cases "head + 1 < Suc t")
    case False
    then have t: "t = head" using Suc.prems(1) by simp
    have "sorted_range cmp xs head tail"
      by (rule sorted_range_cons) (use Suc.prems(5,6) t in simp_all)
    then show ?thesis using False by (simp add: heap_pop_loop.simps)
  next
    case True
    let ?ys = "heap_pop0 cmp xs head (Suc t) (xs ! t)"
    have tl: "Suc t \<le> length xs" using Suc.prems(2,3) by simp
    note sp = heap_pop0_spec [OF True tl Suc.prems(4) refl, simplified]
    have len: "length ?ys = length xs" using range_permD(1) [OF sp(1)] .
    have outside: "?ys ! j = xs ! j" if "t < j" "j < tail" for j
      using range_permD(4) [OF sp(1), of j] that Suc.prems(3) by simp
    have last: "cmp (?ys ! i) (?ys ! j) \<le> 0" if "head \<le> i" "i < Suc t" "t \<le> j" "j < tail" for i j
    proof (cases "j = t")
      case True
      then show ?thesis using sp(2,4) that by simp
    next
      case False
      then have "cmp (xs ! head) (xs ! j) \<le> 0" using Suc.prems(6) [of head j] that Suc.prems(1) by simp
      then show ?thesis using comp_trans [OF sp(4)] outside [of j] False that by simp
    qed
    have "sorted_range cmp ?ys (Suc t) tail"
      using sorted_range_cong [OF _ Suc.prems(5)] outside by simp
    then have srt: "sorted_range cmp ?ys t tail"
      by (rule sorted_range_cons) (use last [of t] True in simp)
    have "range_perm ?ys (heap_pop_loop cmp ?ys head t) head tail
        \<and> sorted_range cmp (heap_pop_loop cmp ?ys head t) head tail"
    proof (rule Suc.IH)
      show "head < t" "t \<le> tail" "tail \<le> length ?ys"
        using True Suc.prems(2,3) len by simp_all
      show "heap_at cmp ?ys head 0 (t - head)" by (rule sp(3))
      show "sorted_range cmp ?ys t tail" by (rule srt)
      show "cmp (?ys ! i) (?ys ! j) \<le> 0" if "head \<le> i" "i < t" "t \<le> j" "j < tail" for i j
        using last that by simp
    qed
    moreover have "heap_pop_loop cmp xs head (Suc t) = heap_pop_loop cmp ?ys head t"
      using True by (subst heap_pop_loop.simps) simp
    moreover have "range_perm xs ?ys head tail"
      using range_perm_mono [OF sp(1)] Suc.prems(2) by simp
    ultimately show ?thesis using range_perm_trans by metis
  qed
qed

lemma heap_sort_spec:
  assumes "head < tail" and "tail \<le> length xs"
  shows "range_perm xs (heap_pop_loop cmp (heap_make cmp xs head tail) head tail) head tail
    \<and> sorted_range cmp (heap_pop_loop cmp (heap_make cmp xs head tail) head tail) head tail"
proof -
  let ?ys = "heap_make cmp xs head tail"
  have m: "range_perm xs ?ys head tail" "heap_at cmp ?ys head 0 (tail - head)"
    using heap_make_spec assms by auto
  have "range_perm ?ys (heap_pop_loop cmp ?ys head tail) head tail
      \<and> sorted_range cmp (heap_pop_loop cmp ?ys head tail) head tail"
    by (rule heap_pop_loop_spec) (use assms m range_permD(1) [OF m(1)] in \<open>auto simp: sorted_range_def\<close>)
  then show ?thesis using range_perm_trans [OF m(1)] by blast
qed

end

section \<open>The sorting interfaces\<close>

text \<open>What a caller asks of a sort: it returns, its range is in order, and the array is
  permuted within the range only.\<close>

definition sorts :: "('a \<Rightarrow> 'a \<Rightarrow> int) \<Rightarrow> 'a iterator \<Rightarrow> nat \<Rightarrow> nat \<Rightarrow> 'a iterator \<Rightarrow> bool" where
  "sorts cmp it head tail it' \<longleftrightarrow>
     sorted_range cmp (it_items it') head tail \<and> range_perm (it_items it) (it_items it') head tail
     \<and> it_mode it' = it_mode it"

lemma sorts_update:
  "range_perm (it_items it) ys head tail \<and> sorted_range cmp ys head tail
     \<Longrightarrow> sorts cmp it head tail (it\<lparr>it_items := ys\<rparr>)"
  by (simp add: sorts_def)

lemma sorts_same: "sorts cmp it head head it"
  by (simp add: sorts_def sorted_range_def)

context comparator
begin

lemma bubble_sorts:
  assumes "has_mode it XU_ITERATOR_MODE_FORWARD" and "the_comp it cmpo = cmp"
    and "head \<le> tail" and "tail \<le> length (it_items it)"
  shows "sorts cmp it head tail (xu_bubble_sort it head tail cmpo)"
  using assms bubble_outer_spec [OF assms(3,4)]
  by (auto simp: xu_bubble_sort_def intro: sorts_update sorts_same)

lemma insert_sorts:
  assumes "has_mode it XU_ITERATOR_MODE_FORWARD" and "has_mode it XU_ITERATOR_MODE_REVERSE"
    and "the_comp it cmpo = cmp" and "head \<le> tail" and "tail \<le> length (it_items it)"
  shows "\<exists>it'. xu_insert_sort it head tail cmpo = Some it' \<and> sorts cmp it head tail it'"
proof (cases "head = tail")
  case True
  then show ?thesis using assms by (simp add: xu_insert_sort_def sorts_same)
next
  case False
  have "sorted_range cmp (it_items it) head (head + 1)" by (simp add: sorted_range_def)
  from insert_loop_spec [OF this _ order_refl _ assms(5)] False assms(4)
  obtain ys where "insert_loop cmp head tail (it_items it) (head + 1) = Some ys"
    "range_perm (it_items it) ys head tail \<and> sorted_range cmp ys head tail" by auto
  then show ?thesis using False assms by (auto simp: xu_insert_sort_def intro: sorts_update)
qed

lemma quick_sorts:
  assumes "has_mode it XU_ITERATOR_MODE_RACCESS" and "the_comp it cmpo = cmp"
    and "head \<le> tail" and "tail \<le> length (it_items it)"
  shows "sorts cmp it head tail (xu_quick_sort it head tail cmpo)"
  using assms quick_sort_range_spec [OF assms(4)]
  by (auto simp: xu_quick_sort_def intro: sorts_update sorts_same)

lemma heap_sorts:
  assumes "has_mode it XU_ITERATOR_MODE_RACCESS" and "the_comp it cmpo = cmp"
    and "head \<le> tail" and "tail \<le> length (it_items it)"
  shows "sorts cmp it head tail (xu_heap_sort it head tail cmpo)"
proof (cases "head = tail")
  case True
  then show ?thesis using assms by (simp add: xu_heap_sort_def sorts_same)
next
  case False
  then show ?thesis
    using assms heap_sort_spec [OF _ assms(4), of head]
    by (auto simp: xu_heap_sort_def Let_def intro: sorts_update)
qed

lemma sort_sorts:
  assumes "has_mode it XU_ITERATOR_MODE_RACCESS
      \<or> (has_mode it XU_ITERATOR_MODE_FORWARD \<and> has_mode it XU_ITERATOR_MODE_REVERSE)"
    and "\<not> has_mode it XU_ITERATOR_MODE_READONLY" and "the_comp it cmpo = cmp"
    and "head \<le> tail" and "tail \<le> length (it_items it)"
  shows "\<exists>it'. xu_sort it head tail cmpo = Some it' \<and> sorts cmp it head tail it'"
  using assms insert_sorts quick_sorts heap_sorts by (auto simp: xu_sort_def sorts_same)

end

lemma distance_forward_eq: "itor \<le> tail \<Longrightarrow> distance_forward it itor tail d = d + (tail - itor)"
proof (induction "tail - itor" arbitrary: itor d)
  case 0
  then show ?case by (simp add: distance_forward.simps)
next
  case (Suc n)
  have "distance_forward it (itor + 1) tail (d + 1) = d + 1 + (tail - (itor + 1))" using Suc.hyps(2) by (intro Suc.hyps(1)) auto
  moreover have "itor < tail" using Suc.hyps(2) by simp
  ultimately show ?case by (subst distance_forward.simps) (simp add: xu_iterator_next_def)
qed

lemma distance_reverse_eq: "head < itor \<Longrightarrow> distance_reverse it itor head d = d + (itor - head)"
proof (induction "itor - head" arbitrary: itor d)
  case 0
  then show ?case by simp
next
  case (Suc n)
  show ?case
  proof (cases "head < itor - 1")
    case True
    then have "distance_reverse it (itor - 1) head (d + 1) = d + 1 + (itor - 1 - head)"
      using Suc.hyps(2) by (intro Suc.hyps(1)) auto
    then show ?thesis using True by (subst distance_reverse.simps) (simp add: xu_iterator_prev_def Let_def)
  next
    case False
    then show ?thesis using Suc.prems by (subst distance_reverse.simps) (simp add: xu_iterator_prev_def Let_def)
  qed
qed

section \<open>Properties\<close>

text \<open>C1. \<open>xu_sort\<close> returns for every comparator that orders the items, whichever routine it
  dispatches to; the range it is given is in order afterwards, its items are a permutation
  of the items before and no cell outside the range has changed.\<close>

theorem xu_sort_correct:
  assumes "comparator (the_comp it cmpo)"
    and "has_mode it XU_ITERATOR_MODE_RACCESS
      \<or> (has_mode it XU_ITERATOR_MODE_FORWARD \<and> has_mode it XU_ITERATOR_MODE_REVERSE)"
    and "\<not> has_mode it XU_ITERATOR_MODE_READONLY"
    and "head \<le> tail" and "tail \<le> length (it_items it)"
  shows "\<exists>it'. xu_sort it head tail cmpo = Some it'
    \<and> sorted_range (the_comp it cmpo) (it_items it') head tail
    \<and> range_perm (it_items it) (it_items it') head tail"
  using comparator.sort_sorts [OF assms(1-3) refl assms(4,5)] by (auto simp: sorts_def)

theorem xu_sort_correct_witness:
  "\<exists>it'. xu_sort (xu_array_iterator_init_long [3, 7, -2, 5, 1]) 1 4 None = Some it'
    \<and> sorted_range xu_array_iterator_long_comp (it_items it') 1 4
    \<and> range_perm [3, 7, -2, 5, 1] (it_items it') 1 4"
proof -
  let ?it = "xu_array_iterator_init_long [3, 7, -2, 5, 1]"
  have c: "the_comp ?it None = xu_array_iterator_long_comp"
    by (simp add: the_comp_def xu_iterator_comp_def fun_eq_iff xu_array_iterator_init_long_def)
  have i: "it_items ?it = [3, 7, -2, 5, 1]" by (simp add: xu_array_iterator_init_long_def)
  have "comparator (the_comp ?it None)" unfolding c by (rule long_comp.comparator_axioms)
  from xu_sort_correct [OF this, of 1 4] show ?thesis unfolding c i by simp
qed

text \<open>C2. Called directly, the four routines sort as well: the bubble sort on a forward
  iterator, the insertion sort on a bidirectional one (where it returns), the quick sort and
  the heap sort on a random access one.\<close>

theorem xu_sort_routines_correct:
  assumes "comparator (the_comp it cmpo)"
    and "has_mode it XU_ITERATOR_MODE_FORWARD" and "has_mode it XU_ITERATOR_MODE_REVERSE"
    and "has_mode it XU_ITERATOR_MODE_RACCESS"
    and "head \<le> tail" and "tail \<le> length (it_items it)"
  shows "sorts (the_comp it cmpo) it head tail (xu_bubble_sort it head tail cmpo)
    \<and> (\<exists>it'. xu_insert_sort it head tail cmpo = Some it' \<and> sorts (the_comp it cmpo) it head tail it')
    \<and> sorts (the_comp it cmpo) it head tail (xu_quick_sort it head tail cmpo)
    \<and> sorts (the_comp it cmpo) it head tail (xu_heap_sort it head tail cmpo)"
  using comparator.bubble_sorts [OF assms(1,2) refl assms(5,6)]
    comparator.insert_sorts [OF assms(1-3) refl assms(5,6)]
    comparator.quick_sorts [OF assms(1,4) refl assms(5,6)]
    comparator.heap_sorts [OF assms(1,4) refl assms(5,6)] by blast

theorem xu_sort_routines_correct_witness:
  "sorts xu_array_iterator_long_comp (xu_array_iterator_init_long [9, 4, 6]) 0 3
     (xu_heap_sort (xu_array_iterator_init_long [9, 4, 6]) 0 3 (Some xu_array_iterator_long_comp))"
proof -
  let ?it = "xu_array_iterator_init_long [9, 4, 6]"
  have c: "the_comp ?it (Some xu_array_iterator_long_comp) = xu_array_iterator_long_comp"
    by (simp add: the_comp_def)
  have i: "it_items ?it = [9, 4, 6]" by (simp add: xu_array_iterator_init_long_def)
  have "comparator (the_comp ?it (Some xu_array_iterator_long_comp))"
    unfolding c by (rule long_comp.comparator_axioms)
  from xu_sort_routines_correct [OF this, of 0 3] show ?thesis unfolding c i by simp
qed

end
