(* ===== verification/XElement.thy ===== *)
theory XElement
  imports XPrelude
begin

text \<open>
  \<^verbatim>\<open>xutil/container/element/long.c\<close> and \<^verbatim>\<open>size.c\<close>: the elements a container is
  parametrised with, as the table of functions of \<open>xu_element_t\<close>. A buffer of elements is
  the list of its cells of \<open>sizeof(xu_long_t)\<close> bytes; the value elements keep the item in the
  cell itself. A position is the index of the cell the pointer \<open>buff\<close> points at.
\<close>

section \<open>Block operations on a buffer\<close>

text \<open>\<open>xu_memset_ptr\<close> / \<open>xu_memset\<close> and \<open>xu_memmov\<close> of the C library, on cells.\<close>

definition mem_fill :: "'a list \<Rightarrow> nat \<Rightarrow> nat \<Rightarrow> 'a \<Rightarrow> 'a list" where
  "mem_fill xs i n v = map (\<lambda>j. if i \<le> j \<and> j < i + n then v else xs ! j) [0..<length xs]"

definition mem_move :: "'a list \<Rightarrow> nat \<Rightarrow> nat \<Rightarrow> nat \<Rightarrow> 'a list" where
  "mem_move xs dst src n =
     map (\<lambda>j. if dst \<le> j \<and> j < dst + n then xs ! (src + (j - dst)) else xs ! j) [0..<length xs]"

lemma length_mem_fill [simp]: "length (mem_fill xs i n v) = length xs"
  by (simp add: mem_fill_def)

lemma length_mem_move [simp]: "length (mem_move xs d s n) = length xs"
  by (simp add: mem_move_def)

lemma nth_mem_fill [simp]:
  "j < length xs \<Longrightarrow> mem_fill xs i n v ! j = (if i \<le> j \<and> j < i + n then v else xs ! j)"
  by (simp add: mem_fill_def)

lemma nth_mem_move [simp]:
  "j < length xs \<Longrightarrow>
     mem_move xs d s n ! j = (if d \<le> j \<and> j < d + n then xs ! (s + (j - d)) else xs ! j)"
  by (simp add: mem_move_def)

lemma mem_fill_none [simp]: "mem_fill xs i 0 v = xs"
  by (rule nth_equalityI) auto

lemma mem_move_none [simp]: "mem_move xs d s 0 = xs"
  by (rule nth_equalityI) auto

lemma same_outside_cell [simp]: "same_outside xs (xs[i := v]) i (Suc i)"
  by (auto simp: same_outside_def nth_list_update)

lemma same_outside_fill [simp]: "same_outside xs (mem_fill xs i n v) i (i + n)"
  by (auto simp: same_outside_def)

lemma mem_fill_Nil [simp]: "mem_fill [] i n v = []"
  by (simp add: mem_fill_def)

section \<open>The element table\<close>

record element =
  el_comp :: "u64 \<Rightarrow> u64 \<Rightarrow> int"
  el_data :: "u64 list \<Rightarrow> nat \<Rightarrow> u64"
  el_free :: "(u64 list \<Rightarrow> nat \<Rightarrow> u64 list) option"
  el_dupl :: "u64 list \<Rightarrow> nat \<Rightarrow> u64 \<Rightarrow> u64 list"
  el_repl :: "u64 list \<Rightarrow> nat \<Rightarrow> u64 \<Rightarrow> u64 list"
  el_copy :: "u64 list \<Rightarrow> nat \<Rightarrow> u64 \<Rightarrow> u64 list"
  el_nfree :: "(u64 list \<Rightarrow> nat \<Rightarrow> nat \<Rightarrow> u64 list) option"
  el_ndupl :: "u64 list \<Rightarrow> nat \<Rightarrow> u64 \<Rightarrow> nat \<Rightarrow> u64 list"
  el_nrepl :: "u64 list \<Rightarrow> nat \<Rightarrow> u64 \<Rightarrow> nat \<Rightarrow> u64 list"

subsection \<open>Long elements\<close>

definition xu_element_long_comp :: "u64 \<Rightarrow> u64 \<Rightarrow> int" where
  "xu_element_long_comp ldata rdata =
     (if sint ldata < sint rdata then -1 else if sint ldata > sint rdata then 1 else 0)"

definition xu_element_long_data :: "u64 list \<Rightarrow> nat \<Rightarrow> u64" where
  "xu_element_long_data buff i = buff ! i"

definition xu_element_long_free :: "u64 list \<Rightarrow> nat \<Rightarrow> u64 list" where
  "xu_element_long_free buff i = buff[i := 0]"

definition xu_element_long_copy :: "u64 list \<Rightarrow> nat \<Rightarrow> u64 \<Rightarrow> u64 list" where
  "xu_element_long_copy buff i data = buff[i := data]"

definition xu_element_long_nfree :: "u64 list \<Rightarrow> nat \<Rightarrow> nat \<Rightarrow> u64 list" where
  "xu_element_long_nfree buff i n = (if n \<noteq> 0 then mem_fill buff i n 0 else buff)"

definition xu_element_long_ncopy :: "u64 list \<Rightarrow> nat \<Rightarrow> u64 \<Rightarrow> nat \<Rightarrow> u64 list" where
  "xu_element_long_ncopy buff i data n = (if n \<noteq> 0 then mem_fill buff i n data else buff)"

definition xu_element_long :: element where
  "xu_element_long =
     \<lparr>el_comp = xu_element_long_comp, el_data = xu_element_long_data,
      el_free = Some xu_element_long_free, el_dupl = xu_element_long_copy,
      el_repl = xu_element_long_copy, el_copy = xu_element_long_copy,
      el_nfree = Some xu_element_long_nfree, el_ndupl = xu_element_long_ncopy,
      el_nrepl = xu_element_long_ncopy\<rparr>"

subsection \<open>Size elements\<close>

definition xu_element_size_comp :: "u64 \<Rightarrow> u64 \<Rightarrow> int" where
  "xu_element_size_comp ldata rdata =
     (if ldata < rdata then -1 else if ldata > rdata then 1 else 0)"

definition xu_element_size_data :: "u64 list \<Rightarrow> nat \<Rightarrow> u64" where
  "xu_element_size_data buff i = buff ! i"

definition xu_element_size_free :: "u64 list \<Rightarrow> nat \<Rightarrow> u64 list" where
  "xu_element_size_free buff i = buff[i := 0]"

definition xu_element_size_copy :: "u64 list \<Rightarrow> nat \<Rightarrow> u64 \<Rightarrow> u64 list" where
  "xu_element_size_copy buff i data = buff[i := data]"

definition xu_element_size_nfree :: "u64 list \<Rightarrow> nat \<Rightarrow> nat \<Rightarrow> u64 list" where
  "xu_element_size_nfree buff i n = (if n \<noteq> 0 then mem_fill buff i n 0 else buff)"

definition xu_element_size_ncopy :: "u64 list \<Rightarrow> nat \<Rightarrow> u64 \<Rightarrow> nat \<Rightarrow> u64 list" where
  "xu_element_size_ncopy buff i data n = (if n \<noteq> 0 then mem_fill buff i n data else buff)"

definition xu_element_size :: element where
  "xu_element_size =
     \<lparr>el_comp = xu_element_size_comp, el_data = xu_element_size_data,
      el_free = Some xu_element_size_free, el_dupl = xu_element_size_copy,
      el_repl = xu_element_size_copy, el_copy = xu_element_size_copy,
      el_nfree = Some xu_element_size_nfree, el_ndupl = xu_element_size_ncopy,
      el_nrepl = xu_element_size_ncopy\<rparr>"

section \<open>The contract of a value element\<close>

text \<open>What a container relies on: reading a cell gives the item stored there, storing
  writes that cell only, and freeing touches no cell outside the freed ones.\<close>

locale value_element =
  fixes e :: element
  assumes data_cell: "el_data e xs i = xs ! i"
    and dupl_cell: "el_dupl e xs i v = xs[i := v]"
    and repl_cell: "el_repl e xs i v = xs[i := v]"
    and copy_cell: "el_copy e xs i v = xs[i := v]"
    and ndupl_cells: "el_ndupl e xs i v n = mem_fill xs i n v"
    and nrepl_cells: "el_nrepl e xs i v n = mem_fill xs i n v"
    and free_frame: "el_free e = Some f \<Longrightarrow> same_outside xs (f xs i) i (Suc i)"
    and nfree_frame: "el_nfree e = Some g \<Longrightarrow> same_outside xs (g xs i n) i (i + n)"
begin

lemma free_length: "el_free e = Some f \<Longrightarrow> length (f xs i) = length xs"
  using free_frame [of f xs i] by (simp add: same_outside_def)

lemma nfree_length: "el_nfree e = Some g \<Longrightarrow> length (g xs i n) = length xs"
  using nfree_frame [of g xs i n] by (simp add: same_outside_def)

lemma free_nth: "el_free e = Some f \<Longrightarrow> j < length xs \<Longrightarrow> j \<noteq> i \<Longrightarrow> f xs i ! j = xs ! j"
  using free_frame [of f xs i] by (auto simp: same_outside_def)

lemma nfree_nth:
  "el_nfree e = Some g \<Longrightarrow> j < length xs \<Longrightarrow> j < i \<or> i + n \<le> j \<Longrightarrow> g xs i n ! j = xs ! j"
  using nfree_frame [of g xs i n] by (auto simp: same_outside_def)

lemmas cell_ops = data_cell dupl_cell repl_cell copy_cell ndupl_cells nrepl_cells

end

lemmas long_element_defs = xu_element_long_def xu_element_long_data_def xu_element_long_free_def
  xu_element_long_copy_def xu_element_long_nfree_def xu_element_long_ncopy_def

lemmas size_element_defs = xu_element_size_def xu_element_size_data_def xu_element_size_free_def
  xu_element_size_copy_def xu_element_size_nfree_def xu_element_size_ncopy_def

interpretation long_element: value_element xu_element_long
proof
  fix xs :: "u64 list" and i n v f g
  show "el_data xu_element_long xs i = xs ! i" and "el_dupl xu_element_long xs i v = xs[i := v]"
    and "el_repl xu_element_long xs i v = xs[i := v]" and "el_copy xu_element_long xs i v = xs[i := v]"
    by (simp_all add: long_element_defs)
  show "el_ndupl xu_element_long xs i v n = mem_fill xs i n v"
    and "el_nrepl xu_element_long xs i v n = mem_fill xs i n v"
    by (simp_all add: xu_element_long_def xu_element_long_ncopy_def)
  show "same_outside xs (f xs i) i (Suc i)" if "el_free xu_element_long = Some f"
    using that by (auto simp: xu_element_long_def xu_element_long_free_def)
  show "same_outside xs (g xs i n) i (i + n)" if "el_nfree xu_element_long = Some g"
    using that by (auto simp: xu_element_long_def xu_element_long_nfree_def)
qed

interpretation size_element: value_element xu_element_size
proof
  fix xs :: "u64 list" and i n v f g
  show "el_data xu_element_size xs i = xs ! i" and "el_dupl xu_element_size xs i v = xs[i := v]"
    and "el_repl xu_element_size xs i v = xs[i := v]" and "el_copy xu_element_size xs i v = xs[i := v]"
    by (simp_all add: size_element_defs)
  show "el_ndupl xu_element_size xs i v n = mem_fill xs i n v"
    and "el_nrepl xu_element_size xs i v n = mem_fill xs i n v"
    by (simp_all add: xu_element_size_def xu_element_size_ncopy_def)
  show "same_outside xs (f xs i) i (Suc i)" if "el_free xu_element_size = Some f"
    using that by (auto simp: xu_element_size_def xu_element_size_free_def)
  show "same_outside xs (g xs i n) i (i + n)" if "el_nfree xu_element_size = Some g"
    using that by (auto simp: xu_element_size_def xu_element_size_nfree_def)
qed

interpretation element_long_comp: comparator xu_element_long_comp
  by unfold_locales (auto simp: xu_element_long_comp_def split: if_splits)

interpretation element_size_comp: comparator xu_element_size_comp
  by unfold_locales (auto simp: xu_element_size_comp_def split: if_splits)

section \<open>Machine sizes\<close>

text \<open>\<open>xu_size_t\<close> arithmetic, on naturals below \<open>2 ^ 64\<close> with the wrap-around written out.\<close>

definition sz_add :: "nat \<Rightarrow> nat \<Rightarrow> nat" where
  "sz_add a b = (a + b) mod 2 ^ 64"

definition sz_sub :: "nat \<Rightarrow> nat \<Rightarrow> nat" where
  "sz_sub a b = (a + 2 ^ 64 - b mod 2 ^ 64) mod 2 ^ 64"

definition xu_align4 :: "nat \<Rightarrow> nat" where
  "xu_align4 x = sz_add x 3 div 4 * 4"

lemma sz_add_small [simp]: "a + b < 2 ^ 64 \<Longrightarrow> sz_add a b = a + b"
  by (simp add: sz_add_def)

lemma sz_sub_small: "b \<le> a \<Longrightarrow> a < 2 ^ 64 \<Longrightarrow> sz_sub a b = a - b"
proof -
  assume h: "b \<le> a" "a < 2 ^ 64"
  then have "a + 2 ^ 64 - b mod 2 ^ 64 = (a - b) + 2 ^ 64" by simp
  then have "sz_sub a b = (a - b + 2 ^ 64) mod 2 ^ 64" unfolding sz_sub_def by (rule arg_cong)
  also have "\<dots> = a - b" using h(2) by (simp only: mod_add_self2) simp
  finally show ?thesis .
qed

lemma xu_align4_ge: "x + 3 < 2 ^ 64 \<Longrightarrow> x \<le> xu_align4 x"
  by (simp add: xu_align4_def)

lemma xu_align4_le: "x + 3 < 2 ^ 64 \<Longrightarrow> xu_align4 x \<le> x + 3"
  by (simp add: xu_align4_def)

lemma xu_align4_dvd: "4 dvd xu_align4 x"
  by (simp add: xu_align4_def)

end
