(* ===== verification/XVector.thy ===== *)
theory XVector
  imports XElement
begin

text \<open>
  \<^verbatim>\<open>xutil/container/vector.c\<close>: the growing array. The buffer is the list of its
  \<open>maxn\<close> cells, or none when a reallocation failed; the element table is the one of
  \<open>XElement\<close>. \<open>xu_ralloc\<close> is reached through the installed allocator, so it is a parameter:
  \<open>ralloc old n\<close> is the new buffer of \<open>n\<close> cells, whose cells beyond the old ones are
  arbitrary, or none. Buffers are aligned, as the allocators promise.
\<close>

definition XU_VECTOR_GROW :: nat where "XU_VECTOR_GROW = 256"
definition XU_VECTOR_MAXN :: nat where "XU_VECTOR_MAXN = 2 ^ 30"

record vector =
  v_data :: "u64 list option"
  v_size :: nat
  v_grow :: nat
  v_maxn :: nat
  v_elem :: element

type_synonym reallocator = "u64 list option \<Rightarrow> nat \<Rightarrow> u64 list option"

section \<open>The iterator operations\<close>

definition xu_vector_itor_size :: "vector \<Rightarrow> nat" where
  "xu_vector_itor_size v = v_size v"

definition xu_vector_itor_head :: "vector \<Rightarrow> nat" where
  "xu_vector_itor_head v = 0"

definition xu_vector_itor_last :: "vector \<Rightarrow> nat" where
  "xu_vector_itor_last v = (if v_size v \<noteq> 0 then v_size v - 1 else 0)"

definition xu_vector_itor_tail :: "vector \<Rightarrow> nat" where
  "xu_vector_itor_tail v = v_size v"

definition xu_vector_itor_next :: "vector \<Rightarrow> nat \<Rightarrow> nat" where
  "xu_vector_itor_next v itor = (if itor < v_size v then itor + 1 else v_size v)"

definition xu_vector_itor_prev :: "vector \<Rightarrow> nat \<Rightarrow> nat" where
  "xu_vector_itor_prev v itor = (if itor \<noteq> 0 \<and> itor \<le> v_size v then itor - 1 else 0)"

text \<open>The item, null for an iterator out of range or a lost buffer.\<close>

definition xu_vector_itor_item :: "vector \<Rightarrow> nat \<Rightarrow> u64 option" where
  "xu_vector_itor_item v itor =
     (if itor < v_size v then map_option (\<lambda>d. el_data (v_elem v) d itor) (v_data v) else None)"

definition xu_vector_itor_copy :: "vector \<Rightarrow> nat \<Rightarrow> u64 \<Rightarrow> vector" where
  "xu_vector_itor_copy v itor item =
     v\<lparr>v_data := map_option (\<lambda>d. el_copy (v_elem v) d itor item) (v_data v)\<rparr>"

definition xu_vector_itor_comp :: "vector \<Rightarrow> u64 \<Rightarrow> u64 \<Rightarrow> int" where
  "xu_vector_itor_comp v litem ritem = el_comp (v_elem v) litem ritem"

section \<open>Life cycle\<close>

definition nfree_cells :: "element \<Rightarrow> u64 list \<Rightarrow> nat \<Rightarrow> nat \<Rightarrow> u64 list" where
  "nfree_cells e d i n = (case el_nfree e of None \<Rightarrow> d | Some g \<Rightarrow> g d i n)"

definition free_cell :: "element \<Rightarrow> u64 list \<Rightarrow> nat \<Rightarrow> u64 list" where
  "free_cell e d i = (case el_free e of None \<Rightarrow> d | Some f \<Rightarrow> f d i)"

definition xu_vector_init :: "(nat \<Rightarrow> u64 list option) \<Rightarrow> nat \<Rightarrow> element \<Rightarrow> vector option" where
  "xu_vector_init nalloc0 grow e =
     (let grow = (if grow = 0 then XU_VECTOR_GROW else grow) in
      if grow < XU_VECTOR_MAXN then
        (case nalloc0 grow of
           None \<Rightarrow> None
         | Some d \<Rightarrow> Some \<lparr>v_data = Some d, v_size = 0, v_grow = grow, v_maxn = grow, v_elem = e\<rparr>)
      else None)"

definition xu_vector_clear :: "vector \<Rightarrow> vector" where
  "xu_vector_clear v =
     v\<lparr>v_data := map_option (\<lambda>d. nfree_cells (v_elem v) d 0 (v_size v)) (v_data v), v_size := 0\<rparr>"

definition xu_vector_size :: "vector \<Rightarrow> nat" where
  "xu_vector_size v = v_size v"

definition xu_vector_head :: "vector \<Rightarrow> u64 option" where
  "xu_vector_head v = xu_vector_itor_item v (xu_vector_itor_head v)"

definition xu_vector_last :: "vector \<Rightarrow> u64 option" where
  "xu_vector_last v = xu_vector_itor_item v (xu_vector_itor_last v)"

section \<open>Resizing\<close>

definition xu_vector_resize :: "reallocator \<Rightarrow> vector \<Rightarrow> nat \<Rightarrow> bool \<times> vector" where
  "xu_vector_resize ralloc v size' =
     (let v = (if size' < v_size v then
                 v\<lparr>v_data := map_option (\<lambda>d. nfree_cells (v_elem v) d size' (v_size v - size')) (v_data v)\<rparr>
               else v) in
      if size' > v_maxn v then
        (let maxn = xu_align4 (sz_add size' (v_grow v)) in
         if \<not> maxn < XU_VECTOR_MAXN then (False, v)
         else (case ralloc (v_data v) maxn of
                 None \<Rightarrow> (False, v\<lparr>v_data := None\<rparr>)
               | Some d \<Rightarrow>
                   (True, v\<lparr>v_data := Some (mem_fill d (v_size v) (sz_sub maxn (v_maxn v)) 0),
                            v_maxn := maxn, v_size := size'\<rparr>)))
      else (True, v\<lparr>v_size := size'\<rparr>))"

definition xu_vector_copy :: "reallocator \<Rightarrow> vector \<Rightarrow> vector \<Rightarrow> vector" where
  "xu_vector_copy ralloc v copy =
     (if v_size copy = 0 then xu_vector_clear v
      else let v = (if v_size v < v_size copy then snd (xu_vector_resize ralloc v (v_size copy)) else v) in
        (case (v_data v, v_data copy) of
           (Some d, Some dc) \<Rightarrow>
             if v_size v \<ge> v_size copy then
               v\<lparr>v_data := Some (take (v_size copy) dc @ drop (v_size copy) d), v_size := v_size copy\<rparr>
             else v
         | _ \<Rightarrow> v))"

section \<open>Insertion\<close>

definition xu_vector_insert_prev :: "reallocator \<Rightarrow> vector \<Rightarrow> nat \<Rightarrow> u64 \<Rightarrow> vector" where
  "xu_vector_insert_prev ralloc v itor data =
     (if v_data v = None \<or> \<not> itor \<le> v_size v then v
      else let osize = v_size v in
        (case xu_vector_resize ralloc v (osize + 1) of
           (False, v) \<Rightarrow> v
         | (True, v) \<Rightarrow>
             v\<lparr>v_data := map_option (\<lambda>d.
                 let d = (if osize \<noteq> itor then mem_move d (itor + 1) itor (osize - itor) else d)
                 in el_dupl (v_elem v) d itor data) (v_data v)\<rparr>))"

definition xu_vector_insert_next :: "reallocator \<Rightarrow> vector \<Rightarrow> nat \<Rightarrow> u64 \<Rightarrow> vector" where
  "xu_vector_insert_next ralloc v itor data =
     xu_vector_insert_prev ralloc v (xu_vector_itor_next v itor) data"

definition xu_vector_insert_head :: "reallocator \<Rightarrow> vector \<Rightarrow> u64 \<Rightarrow> vector" where
  "xu_vector_insert_head ralloc v data = xu_vector_insert_prev ralloc v 0 data"

definition xu_vector_insert_tail :: "reallocator \<Rightarrow> vector \<Rightarrow> u64 \<Rightarrow> vector" where
  "xu_vector_insert_tail ralloc v data = xu_vector_insert_prev ralloc v (xu_vector_size v) data"

definition xu_vector_ninsert_prev :: "reallocator \<Rightarrow> vector \<Rightarrow> nat \<Rightarrow> u64 \<Rightarrow> nat \<Rightarrow> vector" where
  "xu_vector_ninsert_prev ralloc v itor data n =
     (if v_data v = None \<or> n = 0 \<or> \<not> itor \<le> v_size v then v
      else let osize = v_size v in
        (case xu_vector_resize ralloc v (sz_add osize n) of
           (False, v) \<Rightarrow> v
         | (True, v) \<Rightarrow>
             v\<lparr>v_data := map_option (\<lambda>d.
                 let d = (if osize \<noteq> itor then mem_move d (itor + n) itor (osize - itor) else d)
                 in el_ndupl (v_elem v) d itor data n) (v_data v)\<rparr>))"

definition xu_vector_ninsert_next :: "reallocator \<Rightarrow> vector \<Rightarrow> nat \<Rightarrow> u64 \<Rightarrow> nat \<Rightarrow> vector" where
  "xu_vector_ninsert_next ralloc v itor data n =
     xu_vector_ninsert_prev ralloc v (xu_vector_itor_next v itor) data n"

definition xu_vector_ninsert_head :: "reallocator \<Rightarrow> vector \<Rightarrow> u64 \<Rightarrow> nat \<Rightarrow> vector" where
  "xu_vector_ninsert_head ralloc v data n = xu_vector_ninsert_prev ralloc v 0 data n"

definition xu_vector_ninsert_tail :: "reallocator \<Rightarrow> vector \<Rightarrow> u64 \<Rightarrow> nat \<Rightarrow> vector" where
  "xu_vector_ninsert_tail ralloc v data n = xu_vector_ninsert_prev ralloc v (xu_vector_size v) data n"

section \<open>Replacement\<close>

definition xu_vector_replace :: "vector \<Rightarrow> nat \<Rightarrow> u64 \<Rightarrow> vector" where
  "xu_vector_replace v itor data =
     (if v_data v = None \<or> \<not> itor \<le> v_size v then v
      else v\<lparr>v_data := map_option (\<lambda>d. el_repl (v_elem v) d itor data) (v_data v)\<rparr>)"

definition xu_vector_replace_head :: "vector \<Rightarrow> u64 \<Rightarrow> vector" where
  "xu_vector_replace_head v data = xu_vector_replace v 0 data"

definition xu_vector_replace_last :: "vector \<Rightarrow> u64 \<Rightarrow> vector" where
  "xu_vector_replace_last v data =
     (if v_size v = 0 then v else xu_vector_replace v (v_size v - 1) data)"

definition xu_vector_nreplace :: "vector \<Rightarrow> nat \<Rightarrow> u64 \<Rightarrow> nat \<Rightarrow> vector" where
  "xu_vector_nreplace v itor data n =
     (if v_data v = None \<or> v_size v = 0 \<or> \<not> itor \<le> v_size v \<or> n = 0 then v
      else let n = (if sz_add itor n > v_size v then v_size v - itor else n) in
        v\<lparr>v_data := map_option (\<lambda>d. el_nrepl (v_elem v) d itor data n) (v_data v)\<rparr>)"

definition xu_vector_nreplace_head :: "vector \<Rightarrow> u64 \<Rightarrow> nat \<Rightarrow> vector" where
  "xu_vector_nreplace_head v data n = xu_vector_nreplace v 0 data n"

definition xu_vector_nreplace_last :: "vector \<Rightarrow> u64 \<Rightarrow> nat \<Rightarrow> vector" where
  "xu_vector_nreplace_last v data n =
     (if v_size v = 0 \<or> n = 0 then v
      else xu_vector_nreplace v (if n \<ge> v_size v then 0 else v_size v - n) data n)"

section \<open>Removal\<close>

definition xu_vector_remove :: "vector \<Rightarrow> nat \<Rightarrow> vector" where
  "xu_vector_remove v itor =
     (if \<not> itor < v_size v then v
      else v\<lparr>v_data := map_option (\<lambda>d.
                let d = free_cell (v_elem v) d itor
                in if itor < v_size v - 1 then mem_move d itor (itor + 1) (v_size v - itor - 1) else d) (v_data v),
             v_size := v_size v - 1\<rparr>)"

definition xu_vector_remove_head :: "vector \<Rightarrow> vector" where
  "xu_vector_remove_head v = xu_vector_remove v 0"

definition xu_vector_remove_last :: "vector \<Rightarrow> vector" where
  "xu_vector_remove_last v =
     (if v_size v \<noteq> 0 then
        v\<lparr>v_data := map_option (\<lambda>d. free_cell (v_elem v) d (v_size v - 1)) (v_data v),
          v_size := v_size v - 1\<rparr>
      else v)"

definition xu_vector_nremove :: "vector \<Rightarrow> nat \<Rightarrow> nat \<Rightarrow> vector" where
  "xu_vector_nremove v itor n =
     (if n = 0 \<or> \<not> itor < v_size v then v
      else if itor = 0 \<and> n \<ge> v_size v then xu_vector_clear v
      else let n = (if sz_add itor n > v_size v then v_size v - itor else n);
               left = sz_sub (sz_sub (v_size v) itor) n in
        v\<lparr>v_data := map_option (\<lambda>d.
             let d = nfree_cells (v_elem v) d itor n
             in if left \<noteq> 0 then mem_move d itor (sz_add itor n) left else d) (v_data v),
          v_size := sz_sub (v_size v) n\<rparr>)"

definition xu_vector_nremove_head :: "vector \<Rightarrow> nat \<Rightarrow> vector" where
  "xu_vector_nremove_head v n =
     (if n = 0 then v else if n \<ge> v_size v then xu_vector_clear v else xu_vector_nremove v 0 n)"

definition xu_vector_nremove_last :: "vector \<Rightarrow> nat \<Rightarrow> vector" where
  "xu_vector_nremove_last v n =
     (if n = 0 then v else if n \<ge> v_size v then xu_vector_clear v
      else xu_vector_nremove v (v_size v - n) n)"

definition xu_vector_itor_remove :: "vector \<Rightarrow> nat \<Rightarrow> vector" where
  "xu_vector_itor_remove v itor = xu_vector_remove v itor"

definition xu_vector_itor_nremove :: "vector \<Rightarrow> nat \<Rightarrow> nat \<Rightarrow> nat \<Rightarrow> vector" where
  "xu_vector_itor_nremove v prev next n =
     (if n \<noteq> 0 then xu_vector_nremove v (if prev \<noteq> v_size v then prev + 1 else 0) n else v)"

end
