(* ===== verification/XVectorCorrect.thy ===== *)
theory XVectorCorrect
  imports XVector
begin

text \<open>
  The vector refines a list: \<open>vec_items\<close> is the abstraction, \<open>vec_inv\<close> the
  representation invariant, and each operation is shown to commute with the list operation
  it stands for, on the path where the buffer suffices or is reallocated and on the paths
  where the limit or the allocator refuses.
\<close>

section \<open>Abstraction, invariant, allocator\<close>

definition vec_items :: "vector \<Rightarrow> u64 list" where
  "vec_items v = (case v_data v of None \<Rightarrow> [] | Some d \<Rightarrow> take (v_size v) d)"

definition vec_inv :: "vector \<Rightarrow> bool" where
  "vec_inv v \<longleftrightarrow> (case v_data v of None \<Rightarrow> False | Some d \<Rightarrow> length d = v_maxn v)
     \<and> v_size v \<le> v_maxn v \<and> v_maxn v < XU_VECTOR_MAXN \<and> v_grow v < XU_VECTOR_MAXN"

text \<open>What \<open>realloc\<close> promises: the new buffer has the size asked for and starts with the
  old cells.\<close>

definition ralloc_keeps :: "reallocator \<Rightarrow> bool" where
  "ralloc_keeps ralloc \<longleftrightarrow> (\<forall>d n d'. ralloc (Some d) n = Some d' \<longrightarrow>
     length d' = n \<and> (\<forall>i < min (length d) n. d' ! i = d ! i))"

text \<open>The vector can hold \<open>n\<close> items, at once or after growing.\<close>

definition vec_room :: "reallocator \<Rightarrow> vector \<Rightarrow> nat \<Rightarrow> bool" where
  "vec_room ralloc v n \<longleftrightarrow> n \<le> v_maxn v
     \<or> (xu_align4 (sz_add n (v_grow v)) < XU_VECTOR_MAXN
        \<and> ralloc (v_data v) (xu_align4 (sz_add n (v_grow v))) \<noteq> None)"

lemma vec_invE:
  assumes "vec_inv v"
  obtains d where "v_data v = Some d" and "length d = v_maxn v" and "v_size v \<le> length d"
    and "vec_items v = take (v_size v) d"
  using assms by (auto simp: vec_inv_def vec_items_def split: option.splits)

lemma vec_items_length: "vec_inv v \<Longrightarrow> length (vec_items v) = v_size v"
  by (auto elim!: vec_invE)

section \<open>Block moves on lists\<close>

lemma take_nth_eqI:
  "length xs = n \<Longrightarrow> n \<le> length d \<Longrightarrow> (\<And>i. i < n \<Longrightarrow> d ! i = xs ! i) \<Longrightarrow> take n d = xs"
  by (auto intro: nth_equalityI)

lemma insert_cells:
  assumes "i \<le> s" and "s + n \<le> length d"
  shows "take (s + n) (mem_fill (mem_move d (i + n) i (s - i)) i n x)
    = take i (take s d) @ replicate n x @ drop i (take s d)"
  by (rule take_nth_eqI) (use assms in \<open>auto simp: nth_append\<close>)

lemma insert_cell:
  assumes "i \<le> s" and "s + 1 \<le> length d"
  shows "take (s + 1) ((mem_move d (i + 1) i (s - i))[i := x]) = take i (take s d) @ x # drop i (take s d)"
  by (rule take_nth_eqI) (use assms in \<open>auto simp: nth_append nth_list_update nth_Cons'\<close>)

lemma remove_cells:
  assumes "i + n \<le> s" and "s \<le> length d" and "same_outside d d' i (i + n)"
  shows "take (s - n) (mem_move d' i (i + n) (s - i - n)) = take i (take s d) @ drop (i + n) (take s d)"
proof (rule take_nth_eqI)
  have len: "length d' = length d" using assms(3) by (simp add: same_outside_def)
  show "s - n \<le> length (mem_move d' i (i + n) (s - i - n))" using assms len by simp
  show "length (take i (take s d) @ drop (i + n) (take s d)) = s - n" using assms by simp
  fix j assume j: "j < s - n"
  have jl: "j < length d'" using j assms(2) len by simp
  show "mem_move d' i (i + n) (s - i - n) ! j = (take i (take s d) @ drop (i + n) (take s d)) ! j"
  proof (cases "j < i")
    case True
    then have "d' ! j = d ! j" using assms(3) jl len by (simp add: same_outside_def)
    then show ?thesis using True j assms(1,2) jl by (simp add: nth_append)
  next
    case False
    then have "d' ! (i + n + (j - i)) = d ! (i + n + (j - i))"
      using assms j len by (simp add: same_outside_def)
    then show ?thesis using False j assms(1,2) jl by (simp add: nth_append)
  qed
qed

section \<open>Freeing\<close>

context value_element
begin

lemma nfree_cells_outside [simp]: "same_outside d (nfree_cells e d i n) i (i + n)"
  using nfree_frame by (auto simp: nfree_cells_def split: option.splits)

lemma free_cell_outside [simp]: "same_outside d (free_cell e d i) i (Suc i)"
  using free_frame by (auto simp: free_cell_def split: option.splits)

lemma nfree_cells_length [simp]: "length (nfree_cells e d i n) = length d"
  using nfree_cells_outside [of d i n] by (simp add: same_outside_def del: nfree_cells_outside)

lemma free_cell_length [simp]: "length (free_cell e d i) = length d"
  using free_cell_outside [of d i] by (simp add: same_outside_def del: free_cell_outside)

end

section \<open>Resizing\<close>

lemma resize_refused:
  assumes "vec_inv v" and "v_size v \<le> n" and "\<not> vec_room ralloc v n"
  shows "fst (xu_vector_resize ralloc v n) = False"
    and "\<not> xu_align4 (sz_add n (v_grow v)) < XU_VECTOR_MAXN \<Longrightarrow> snd (xu_vector_resize ralloc v n) = v"
    and "xu_align4 (sz_add n (v_grow v)) < XU_VECTOR_MAXN \<Longrightarrow> snd (xu_vector_resize ralloc v n) = v\<lparr>v_data := None\<rparr>"
  using assms by (auto simp: xu_vector_resize_def vec_room_def Let_def)

lemma resize_grow:
  assumes "vec_inv v" and "ralloc_keeps ralloc" and "vec_room ralloc v n"
    and "v_size v \<le> n" and "n < 2 ^ 63"
  obtains v' d' where "xu_vector_resize ralloc v n = (True, v')" and "v_data v' = Some d'"
    and "v_size v' = n" and "v_maxn v \<le> v_maxn v'" and "v_elem v' = v_elem v" and "v_grow v' = v_grow v"
    and "vec_inv v'" and "take (v_size v) d' = vec_items v" and "n \<le> length d'"
proof -
  obtain d where d: "v_data v = Some d" "length d = v_maxn v" "v_size v \<le> length d"
    "vec_items v = take (v_size v) d" using assms(1) by (rule vec_invE)
  show thesis
  proof (cases "n \<le> v_maxn v")
    case True
    then have "xu_vector_resize ralloc v n = (True, v\<lparr>v_size := n\<rparr>)"
      using assms(4) by (simp add: xu_vector_resize_def)
    then show ?thesis
      using that [of "v\<lparr>v_size := n\<rparr>" d] d True assms(1) by (auto simp: vec_inv_def)
  next
    case False
    let ?m = "xu_align4 (sz_add n (v_grow v))"
    obtain d' where m: "?m < XU_VECTOR_MAXN" and r: "ralloc (Some d) ?m = Some d'"
      using False assms(3) d(1) by (auto simp: vec_room_def)
    have g: "v_grow v < 2 ^ 30" using assms(1) by (simp add: vec_inv_def XU_VECTOR_MAXN_def)
    then have nm: "n \<le> ?m"
      using xu_align4_ge [of "n + v_grow v"] assms(5) by simp
    have keep: "length d' = ?m" "\<And>i. i < length d \<Longrightarrow> i < ?m \<Longrightarrow> d' ! i = d ! i"
      using assms(2) r by (auto simp: ralloc_keeps_def)
    let ?d = "mem_fill d' (v_size v) (sz_sub ?m (v_maxn v)) 0"
    let ?v = "v\<lparr>v_data := Some ?d, v_maxn := ?m, v_size := n\<rparr>"
    have "xu_vector_resize ralloc v n = (True, ?v)"
      using False assms(4) m r d(1) by (simp add: xu_vector_resize_def Let_def)
    moreover have "take (v_size v) ?d = vec_items v"
      unfolding d(4) by (rule take_nth_eqI) (use d nm assms(4) keep in auto)
    moreover have "vec_inv ?v"
      using assms(1) m nm keep(1) by (auto simp: vec_inv_def)
    ultimately show ?thesis
      using that [of ?v ?d] nm keep(1) False by auto
  qed
qed

lemma resize_shrink:
  assumes "vec_inv v" and "value_element (v_elem v)" and "n < v_size v"
  shows "fst (xu_vector_resize ralloc v n)" and "vec_inv (snd (xu_vector_resize ralloc v n))"
    and "vec_items (snd (xu_vector_resize ralloc v n)) = take n (vec_items v)"
proof -
  obtain d where d: "v_data v = Some d" "length d = v_maxn v" "v_size v \<le> length d"
    "vec_items v = take (v_size v) d" using assms(1) by (rule vec_invE)
  let ?d = "nfree_cells (v_elem v) d n (v_size v - n)"
  have r: "xu_vector_resize ralloc v n = (True, v\<lparr>v_data := Some ?d, v_size := n\<rparr>)"
    using assms(1,3) d(1) by (simp add: xu_vector_resize_def vec_inv_def)
  have "same_outside d ?d n (n + (v_size v - n))"
    using value_element.nfree_cells_outside [OF assms(2)] .
  then have so: "length ?d = length d" "take n ?d = take n d"
    by (auto simp: same_outside_take_drop)
  show "fst (xu_vector_resize ralloc v n)" "vec_inv (snd (xu_vector_resize ralloc v n))"
    "vec_items (snd (xu_vector_resize ralloc v n)) = take n (vec_items v)"
    using r so d assms(1,3) by (auto simp: vec_inv_def vec_items_def min_def)
qed

section \<open>Insertion\<close>

lemma vec_insert_prev:
  assumes "vec_inv v" and "value_element (v_elem v)" and "ralloc_keeps ralloc"
    and "vec_room ralloc v (v_size v + 1)" and "i \<le> v_size v"
  shows "vec_inv (xu_vector_insert_prev ralloc v i x)"
    and "vec_items (xu_vector_insert_prev ralloc v i x) = take i (vec_items v) @ x # drop i (vec_items v)"
    and "v_elem (xu_vector_insert_prev ralloc v i x) = v_elem v"
proof -
  have small: "v_size v + 1 < 2 ^ 63"
    using assms(1) by (simp add: vec_inv_def XU_VECTOR_MAXN_def)
  obtain v' d' where r: "xu_vector_resize ralloc v (v_size v + 1) = (True, v')" "v_data v' = Some d'"
      "v_size v' = v_size v + 1" "v_elem v' = v_elem v" "vec_inv v'"
      "take (v_size v) d' = vec_items v" "v_size v + 1 \<le> length d'"
    by (rule resize_grow [OF assms(1,3,4) _ small]) auto
  let ?d = "(mem_move d' (i + 1) i (v_size v - i))[i := x]"
  have move: "(if v_size v \<noteq> i then mem_move d' (i + 1) i (v_size v - i) else d')
      = mem_move d' (i + 1) i (v_size v - i)" by simp
  obtain d0 where nn: "v_data v = Some d0" using assms(1) by (rule vec_invE)
  have eq: "xu_vector_insert_prev ralloc v i x = v'\<lparr>v_data := Some ?d\<rparr>"
    using nn assms(5) r(1,2,4) move value_element.dupl_cell [OF assms(2)]
    by (simp add: xu_vector_insert_prev_def Let_def)
  show "vec_inv (xu_vector_insert_prev ralloc v i x)"
    unfolding eq using r(2,5) by (simp add: vec_inv_def)
  show "vec_items (xu_vector_insert_prev ralloc v i x) = take i (vec_items v) @ x # drop i (vec_items v)"
    unfolding eq using insert_cell [OF assms(5) r(7), of x] r(3,6) by (simp add: vec_items_def)
  show "v_elem (xu_vector_insert_prev ralloc v i x) = v_elem v"
    unfolding eq using r(4) by simp
qed

lemma vec_ninsert_prev:
  assumes "vec_inv v" and "value_element (v_elem v)" and "ralloc_keeps ralloc"
    and "vec_room ralloc v (v_size v + n)" and "i \<le> v_size v" and "n < 2 ^ 62"
  shows "vec_inv (xu_vector_ninsert_prev ralloc v i x n)"
    and "vec_items (xu_vector_ninsert_prev ralloc v i x n)
      = take i (vec_items v) @ replicate n x @ drop i (vec_items v)"
proof -
  have small: "v_size v + n < 2 ^ 63"
    using assms(1,6) by (simp add: vec_inv_def XU_VECTOR_MAXN_def)
  then have add: "sz_add (v_size v) n = v_size v + n" by simp
  obtain v' d' where r: "xu_vector_resize ralloc v (v_size v + n) = (True, v')" "v_data v' = Some d'"
      "v_size v' = v_size v + n" "v_elem v' = v_elem v" "vec_inv v'"
      "take (v_size v) d' = vec_items v" "v_size v + n \<le> length d'"
    by (rule resize_grow [OF assms(1,3,4) _ small]) auto
  let ?d = "mem_fill (mem_move d' (i + n) i (v_size v - i)) i n x"
  have move: "(if v_size v \<noteq> i then mem_move d' (i + n) i (v_size v - i) else d')
      = mem_move d' (i + n) i (v_size v - i)" by simp
  obtain d0 where nn: "v_data v = Some d0" using assms(1) by (rule vec_invE)
  have "vec_inv (xu_vector_ninsert_prev ralloc v i x n) \<and> vec_items (xu_vector_ninsert_prev ralloc v i x n)
      = take i (vec_items v) @ replicate n x @ drop i (vec_items v)"
  proof (cases "n = 0")
    case True
    then show ?thesis using assms(1) by (simp add: xu_vector_ninsert_prev_def)
  next
    case False
    have eq: "xu_vector_ninsert_prev ralloc v i x n = v'\<lparr>v_data := Some ?d\<rparr>"
      using nn False assms(5) r(1,2,4) move add value_element.ndupl_cells [OF assms(2)]
      by (simp add: xu_vector_ninsert_prev_def Let_def)
    show ?thesis
      unfolding eq using r(2,3,5,6) insert_cells [OF assms(5) r(7), of x]
      by (simp add: vec_items_def vec_inv_def)
  qed
  then show "vec_inv (xu_vector_ninsert_prev ralloc v i x n)"
    and "vec_items (xu_vector_ninsert_prev ralloc v i x n)
      = take i (vec_items v) @ replicate n x @ drop i (vec_items v)" by auto
qed

section \<open>Replacement and removal\<close>

lemma vec_nreplace:
  assumes "vec_inv v" and "value_element (v_elem v)" and "i \<le> v_size v" and "n < 2 ^ 62"
  shows "vec_inv (xu_vector_nreplace v i x n)"
    and "vec_items (xu_vector_nreplace v i x n) = mem_fill (vec_items v) i n x"
proof -
  obtain d where d: "v_data v = Some d" "length d = v_maxn v" "v_size v \<le> length d"
    "vec_items v = take (v_size v) d" using assms(1) by (rule vec_invE)
  have add: "sz_add i n = i + n"
    using assms(1,3,4) by (simp add: vec_inv_def XU_VECTOR_MAXN_def)
  let ?n = "if i + n > v_size v then v_size v - i else n"
  have fill: "take (v_size v) (mem_fill d i ?n x) = mem_fill (take (v_size v) d) i n x"
    by (rule take_nth_eqI) (use d(3) assms(3) in auto)
  show "vec_inv (xu_vector_nreplace v i x n)"
    using assms(1) d add value_element.nrepl_cells [OF assms(2)]
    by (auto simp: xu_vector_nreplace_def Let_def vec_inv_def)
  show "vec_items (xu_vector_nreplace v i x n) = mem_fill (vec_items v) i n x"
  proof (cases "v_size v = 0 \<or> n = 0")
    case True
    then show ?thesis using d by (auto simp: xu_vector_nreplace_def)
  next
    case False
    then show ?thesis
      using d add assms(3) value_element.nrepl_cells [OF assms(2)] fill
      by (simp add: xu_vector_nreplace_def Let_def vec_items_def del: mem_fill_none)
  qed
qed

lemma vec_clear:
  assumes "vec_inv v" and "value_element (v_elem v)"
  shows "vec_inv (xu_vector_clear v)" and "vec_items (xu_vector_clear v) = []"
  using assms value_element.nfree_cells_length [OF assms(2)]
  by (auto simp: xu_vector_clear_def vec_inv_def vec_items_def split: option.splits)

lemma vec_remove:
  assumes "vec_inv v" and "value_element (v_elem v)" and "i < v_size v"
  shows "vec_inv (xu_vector_remove v i)"
    and "vec_items (xu_vector_remove v i) = take i (vec_items v) @ drop (i + 1) (vec_items v)"
proof -
  obtain d where d: "v_data v = Some d" "length d = v_maxn v" "v_size v \<le> length d"
    "vec_items v = take (v_size v) d" using assms(1) by (rule vec_invE)
  let ?d = "free_cell (v_elem v) d i"
  have so: "same_outside d ?d i (i + 1)" using value_element.free_cell_outside [OF assms(2)] by simp
  have move: "(if i < v_size v - 1 then mem_move ?d i (i + 1) (v_size v - i - 1) else ?d)
      = mem_move ?d i (i + 1) (v_size v - i - 1)" using assms(3) by simp
  have "xu_vector_remove v i
      = v\<lparr>v_data := Some (if i < v_size v - 1 then mem_move ?d i (i + 1) (v_size v - i - 1) else ?d),
          v_size := v_size v - 1\<rparr>"
    using assms(3) d(1) by (simp add: xu_vector_remove_def Let_def)
  then have eq: "xu_vector_remove v i
      = v\<lparr>v_data := Some (mem_move ?d i (i + 1) (v_size v - i - 1)), v_size := v_size v - 1\<rparr>"
    unfolding move .
  show "vec_inv (xu_vector_remove v i)"
    unfolding eq using assms(1) d(1,2) value_element.free_cell_length [OF assms(2)] by (auto simp: vec_inv_def)
  show "vec_items (xu_vector_remove v i) = take i (vec_items v) @ drop (i + 1) (vec_items v)"
    unfolding eq using remove_cells [OF _ d(3) so] assms(3) d(4) by (simp add: vec_items_def)
qed

lemma vec_nremove:
  assumes "vec_inv v" and "value_element (v_elem v)" and "i \<le> v_size v" and "n < 2 ^ 62"
  shows "vec_inv (xu_vector_nremove v i n)"
    and "vec_items (xu_vector_nremove v i n) = take i (vec_items v) @ drop (i + n) (vec_items v)"
    and "v_elem (xu_vector_nremove v i n) = v_elem v"
proof -
  obtain d where d: "v_data v = Some d" "length d = v_maxn v" "v_size v \<le> length d"
    "vec_items v = take (v_size v) d" using assms(1) by (rule vec_invE)
  have sz: "v_size v < 2 ^ 30" using assms(1) by (simp add: vec_inv_def XU_VECTOR_MAXN_def)
  have "vec_inv (xu_vector_nremove v i n)
    \<and> vec_items (xu_vector_nremove v i n) = take i (vec_items v) @ drop (i + n) (vec_items v)
    \<and> v_elem (xu_vector_nremove v i n) = v_elem v"
  proof (cases "n = 0 \<or> i = v_size v")
    case True
    then have "xu_vector_nremove v i n = v" by (auto simp: xu_vector_nremove_def)
    moreover have "take i (vec_items v) @ drop (i + n) (vec_items v) = vec_items v"
      using True vec_items_length [OF assms(1)] by auto
    ultimately show ?thesis using assms(1) by simp
  next
    case ni: False
    then have i: "i < v_size v" "n \<noteq> 0" using assms(3) by auto
    show ?thesis
    proof (cases "i = 0 \<and> n \<ge> v_size v")
      case True
      then show ?thesis
        using vec_clear [OF assms(1,2)] i d by (simp add: xu_vector_nremove_def) (simp add: xu_vector_clear_def)
    next
      case False
      have add: "sz_add i n = i + n" using i sz assms(4) by simp
      define k where "k = (if i + n > v_size v then v_size v - i else n)"
      have kk: "(if sz_add i n > v_size v then v_size v - i else n) = k"
        by (simp add: add k_def)
      have c: "\<not> (n = 0 \<or> \<not> i < v_size v)" "\<not> (i = 0 \<and> n \<ge> v_size v)"
        using i False by auto
      have k: "i + k \<le> v_size v" "drop (i + k) (vec_items v) = drop (i + n) (vec_items v)"
        using i d by (auto simp: k_def)
      have left: "sz_sub (sz_sub (v_size v) i) k = v_size v - i - k" "sz_sub (v_size v) k = v_size v - k"
        using k(1) sz i by (simp_all add: sz_sub_small)
      let ?d = "nfree_cells (v_elem v) d i k"
      have so: "same_outside d ?d i (i + k)" using value_element.nfree_cells_outside [OF assms(2)] .
      have addk: "sz_add i k = i + k" using k(1) sz by simp
      have move: "(if v_size v - i - k \<noteq> 0 then mem_move ?d i (i + k) (v_size v - i - k) else ?d)
          = mem_move ?d i (i + k) (v_size v - i - k)" by simp
      have "xu_vector_nremove v i n
          = v\<lparr>v_data := Some (if v_size v - i - k \<noteq> 0 then mem_move ?d i (i + k) (v_size v - i - k) else ?d),
              v_size := v_size v - k\<rparr>"
        unfolding xu_vector_nremove_def if_not_P [OF c(1)] if_not_P [OF c(2)] Let_def kk left addk d(1)
        by simp
      then have eq: "xu_vector_nremove v i n
          = v\<lparr>v_data := Some (mem_move ?d i (i + k) (v_size v - i - k)), v_size := v_size v - k\<rparr>"
        unfolding move .
      show ?thesis
        unfolding eq using remove_cells [OF k(1) d(3) so] k(2) assms(1) d(1,2,4)
          value_element.nfree_cells_length [OF assms(2)] by (auto simp: vec_items_def vec_inv_def)
    qed
  qed
  then show "vec_inv (xu_vector_nremove v i n)"
    and "vec_items (xu_vector_nremove v i n) = take i (vec_items v) @ drop (i + n) (vec_items v)"
    and "v_elem (xu_vector_nremove v i n) = v_elem v" by auto
qed

section \<open>Copies of the interface\<close>

text \<open>The \<open>head\<close>, \<open>next\<close> and \<open>tail\<close> variants, as list operations.\<close>

lemma vec_insert_variants:
  assumes "vec_inv v" and "value_element (v_elem v)" and "ralloc_keeps ralloc"
    and "vec_room ralloc v (v_size v + 1)"
  shows "vec_items (xu_vector_insert_head ralloc v x) = x # vec_items v"
    and "vec_items (xu_vector_insert_tail ralloc v x) = vec_items v @ [x]"
    and "i < v_size v \<Longrightarrow>
      vec_items (xu_vector_insert_next ralloc v i x) = take (i + 1) (vec_items v) @ x # drop (i + 1) (vec_items v)"
  using vec_insert_prev(2) [OF assms, of _ x] vec_items_length [OF assms(1)]
  by (simp_all add: xu_vector_insert_head_def xu_vector_insert_tail_def xu_vector_insert_next_def
      xu_vector_size_def xu_vector_itor_next_def)

lemma vec_itor_item:
  assumes "vec_inv v" and "value_element (v_elem v)"
  shows "xu_vector_itor_item v i = (if i < length (vec_items v) then Some (vec_items v ! i) else None)"
proof -
  obtain d where "v_data v = Some d" "v_size v \<le> length d" "vec_items v = take (v_size v) d"
    using assms(1) by (rule vec_invE)
  then show ?thesis
    by (simp add: xu_vector_itor_item_def value_element.data_cell [OF assms(2)])
qed

lemma vec_remove_ends:
  assumes "vec_inv v" and "value_element (v_elem v)"
  shows "vec_items (xu_vector_remove_head v) = tl (vec_items v)"
    and "vec_items (xu_vector_remove_last v) = butlast (vec_items v)"
proof -
  obtain d where d: "v_data v = Some d" "v_size v \<le> length d" "vec_items v = take (v_size v) d"
    using assms(1) by (rule vec_invE)
  show "vec_items (xu_vector_remove_head v) = tl (vec_items v)"
  proof (cases "v_size v = 0")
    case True
    then show ?thesis using d by (simp add: xu_vector_remove_head_def xu_vector_remove_def)
  next
    case False
    then show ?thesis
      using vec_remove(2) [OF assms, of 0] by (simp add: xu_vector_remove_head_def drop_Suc)
  qed
  let ?d = "free_cell (v_elem v) d (v_size v - 1)"
  have "take (v_size v - 1) ?d = take (v_size v - 1) d"
    using value_element.free_cell_outside [OF assms(2), of d "v_size v - 1"]
    by (simp add: same_outside_take_drop)
  then show "vec_items (xu_vector_remove_last v) = butlast (vec_items v)"
    using d by (simp add: xu_vector_remove_last_def vec_items_def butlast_take)
qed

section \<open>Properties\<close>

text \<open>What a vector becomes: it keeps the invariant, its element table and its growth, and holds the items.\<close>

definition vec_becomes :: "vector \<Rightarrow> vector \<Rightarrow> u64 list \<Rightarrow> bool" where
  "vec_becomes v v' xs \<longleftrightarrow> vec_inv v' \<and> vec_items v' = xs \<and> v_elem v' = v_elem v \<and> v_grow v' = v_grow v"

lemma vec_insert_becomes:
  assumes "vec_inv v" and "value_element (v_elem v)" and "ralloc_keeps ralloc"
    and "vec_room ralloc v (v_size v + 1)" and "i \<le> v_size v"
  shows "vec_becomes v (xu_vector_insert_prev ralloc v i x) (take i (vec_items v) @ x # drop i (vec_items v))"
proof -
  have small: "v_size v + 1 < 2 ^ 63" using assms(1) by (simp add: vec_inv_def XU_VECTOR_MAXN_def)
  obtain v' where r: "xu_vector_resize ralloc v (v_size v + 1) = (True, v')" "v_grow v' = v_grow v"
    by (rule resize_grow [OF assms(1,3,4) _ small]) auto
  obtain d where "v_data v = Some d" using assms(1) by (rule vec_invE)
  then have "v_grow (xu_vector_insert_prev ralloc v i x) = v_grow v"
    using assms(5) r by (simp add: xu_vector_insert_prev_def Let_def)
  then show ?thesis using vec_insert_prev [OF assms] by (simp add: vec_becomes_def)
qed

lemma vec_remove_becomes:
  assumes "vec_inv v" and "value_element (v_elem v)" and "i < v_size v"
  shows "vec_becomes v (xu_vector_remove v i) (take i (vec_items v) @ drop (i + 1) (vec_items v))"
  using vec_remove [OF assms] assms(3) by (simp add: vec_becomes_def) (simp add: xu_vector_remove_def)

lemma vec_replace_becomes:
  assumes "vec_inv v" and "value_element (v_elem v)" and "i < v_size v"
  shows "vec_becomes v (xu_vector_replace v i x) ((vec_items v)[i := x])"
  using assms value_element.repl_cell [OF assms(2)]
  by (auto simp: vec_becomes_def xu_vector_replace_def vec_inv_def vec_items_def take_update_swap split: option.splits)

lemma vec_remove_ends_become:
  assumes "vec_inv v" and "value_element (v_elem v)"
  shows "vec_becomes v (xu_vector_remove_head v) (tl (vec_items v))"
    and "vec_becomes v (xu_vector_remove_last v) (butlast (vec_items v))"
proof -
  have "xu_vector_remove v 0 = v" if "v_size v = 0" using that by (simp add: xu_vector_remove_def)
  then show "vec_becomes v (xu_vector_remove_head v) (tl (vec_items v))"
    using vec_remove_ends(1) [OF assms] vec_remove_becomes [OF assms, of 0] assms(1)
    by (cases "v_size v = 0") (auto simp: vec_becomes_def xu_vector_remove_head_def)
  show "vec_becomes v (xu_vector_remove_last v) (butlast (vec_items v))"
    using vec_remove_ends(2) [OF assms] assms(1) value_element.free_cell_length [OF assms(2)]
    by (auto simp: vec_becomes_def xu_vector_remove_last_def vec_inv_def split: option.splits)
qed

lemma vec_out_of_range:
  "v_size v < i \<Longrightarrow> xu_vector_insert_prev ralloc v i x = v"
  "v_size v < i \<Longrightarrow> xu_vector_replace v i x = v"
  "v_size v \<le> i \<Longrightarrow> xu_vector_remove v i = v"
  by (simp_all add: xu_vector_insert_prev_def xu_vector_replace_def xu_vector_remove_def split: option.splits)


definition example_ralloc :: reallocator where
  "example_ralloc old n =
     (case old of None \<Rightarrow> Some (replicate n 7) | Some d \<Rightarrow> Some (take n d @ replicate (n - length d) 7))"

lemma example_ralloc_keeps: "ralloc_keeps example_ralloc"
  by (auto simp: ralloc_keeps_def example_ralloc_def nth_append)

definition example_vector :: vector where
  "example_vector =
     \<lparr>v_data = Some [10, 20], v_size = 2, v_grow = 2, v_maxn = 2, v_elem = xu_element_long\<rparr>"

lemma example_vector_inv: "vec_inv example_vector" "v_size example_vector = 2"
    "v_elem example_vector = xu_element_long" "vec_items example_vector = [10, 20]"
  by (simp_all add: vec_inv_def example_vector_def XU_VECTOR_MAXN_def vec_items_def)




text \<open>C5. When growing is refused by the size limit an insertion leaves the vector as it was,
  but when the reallocation fails the buffer pointer is overwritten, and nothing else changes, neither the capacity nor the
  size: the items are lost while the size still counts them.\<close>

theorem xu_vector_insert_refused:
  assumes "vec_inv v" and "\<not> vec_room ralloc v (v_size v + 1)" and "i \<le> v_size v"
  shows "xu_vector_insert_prev ralloc v i x =
    (if xu_align4 (sz_add (v_size v + 1) (v_grow v)) < XU_VECTOR_MAXN then v\<lparr>v_data := None\<rparr> else v)"
proof -
  obtain d where d: "v_data v = Some d" using assms(1) by (rule vec_invE)
  note r = resize_refused [OF assms(1) _ assms(2), simplified]
  have "xu_vector_insert_prev ralloc v i x = snd (xu_vector_resize ralloc v (v_size v + 1))"
    using d assms(3) r(1)
    by (cases "xu_vector_resize ralloc v (v_size v + 1)") (simp add: xu_vector_insert_prev_def Let_def)
  then show ?thesis using r(2,3) by simp
qed

theorem xu_vector_insert_refused_witness:
  "xu_vector_insert_prev (\<lambda>_ _. None) example_vector 0 5 = example_vector\<lparr>v_data := None\<rparr>"
proof -
  have small: "xu_align4 (sz_add (v_size example_vector + 1) (v_grow example_vector)) < XU_VECTOR_MAXN"
    by (simp add: example_vector_def XU_VECTOR_MAXN_def xu_align4_def)
  have "\<not> vec_room (\<lambda>_ _. None) example_vector (v_size example_vector + 1)"
    by (simp add: vec_room_def example_vector_def)
  from xu_vector_insert_refused [OF example_vector_inv(1) this, of 0 5] show ?thesis
    using small by simp
qed

end
