(* ===== verification/XSearchCorrect.thy ===== *)
theory XSearchCorrect
  imports XSearch
begin

text \<open>
  The searches find what they look for or answer the tail; removing by a predicate is
  filtering, for every container that keeps the contract of an indexed mutable container.
\<close>

section \<open>Searches\<close>

lemma find_loop_spec:
  "tail \<le> length xs \<Longrightarrow> find_loop p xs i tail =
     (if \<exists>k. i \<le> k \<and> k < tail \<and> p (xs ! k) then Some (LEAST k. i \<le> k \<and> k < tail \<and> p (xs ! k)) else None)"
proof (induction "tail - i" arbitrary: i)
  case 0
  then show ?case by (subst find_loop.simps) auto
next
  case (Suc n)
  have it: "i < tail" using Suc.hyps(2) by simp
  show ?case
  proof (cases "p (xs ! i)")
    case True
    then have "(LEAST k. i \<le> k \<and> k < tail \<and> p (xs ! k)) = i"
      using it by (intro Least_equality) auto
    then show ?thesis using True it by (subst find_loop.simps) auto
  next
    case False
    have same: "(i \<le> k \<and> k < tail \<and> p (xs ! k)) = (i + 1 \<le> k \<and> k < tail \<and> p (xs ! k))" for k
      using False by (cases "k = i") auto
    have "find_loop p xs i tail = find_loop p xs (i + 1) tail"
      using False it by (subst find_loop.simps) simp
    then show ?thesis
      unfolding same using Suc.hyps(1) [of "i + 1"] Suc.hyps(2) Suc.prems by simp
  qed
qed

lemma find_loop_some:
  assumes "find_loop p xs i tail = Some m" and "tail \<le> length xs"
  shows "i \<le> m" and "m < tail" and "p (xs ! m)" and "\<And>k. i \<le> k \<Longrightarrow> k < m \<Longrightarrow> \<not> p (xs ! k)"
proof -
  have e: "\<exists>k. i \<le> k \<and> k < tail \<and> p (xs ! k)"
    and m: "m = (LEAST k. i \<le> k \<and> k < tail \<and> p (xs ! k))"
    using assms(1) find_loop_spec [OF assms(2), of p i] by (auto split: if_splits)
  have l: "i \<le> m \<and> m < tail \<and> p (xs ! m)" unfolding m by (rule LeastI_ex [OF e])
  then show "i \<le> m" "m < tail" "p (xs ! m)" by auto
  show "\<not> p (xs ! k)" if "i \<le> k" "k < m" for k
    using not_less_Least [of k "\<lambda>k. i \<le> k \<and> k < tail \<and> p (xs ! k)"] that l m by auto
qed

lemma find_loop_none:
  "find_loop p xs i tail = None \<Longrightarrow> tail \<le> length xs \<Longrightarrow> i \<le> k \<Longrightarrow> k < tail \<Longrightarrow> \<not> p (xs ! k)"
  using find_loop_spec [of tail xs p i] by (auto split: if_splits)

text \<open>Binary search: the item is searched with a comparison that is monotone on the range.\<close>

definition monotone_range :: "('a \<Rightarrow> int) \<Rightarrow> 'a list \<Rightarrow> nat \<Rightarrow> nat \<Rightarrow> bool" where
  "monotone_range c xs lo hi \<longleftrightarrow> (\<forall>j\<in>{lo..<hi}. \<forall>i\<in>{lo..<j}. sgn (c (xs ! i)) \<le> sgn (c (xs ! j)))"

lemma binary_loop_some:
  "binary_loop c xs l r = Some m \<Longrightarrow> l \<le> m \<and> m < r \<and> c (xs ! m) = 0"
proof (induction "r - l" arbitrary: l r rule: less_induct)
  case less
  let ?m = "(l + r) div 2"
  have lr: "l < r" using less.prems by (subst (asm) binary_loop.simps) (simp split: if_splits)
  then have b: "l \<le> ?m" "?m < r" by auto
  consider "c (xs ! ?m) > 0" | "c (xs ! ?m) < 0" | "c (xs ! ?m) = 0" by linarith
  then show ?case
  proof cases
    case 1
    then have "binary_loop c xs l ?m = Some m"
      using less.prems lr by (subst (asm) binary_loop.simps) (simp add: Let_def)
    then show ?thesis using less.hyps [of ?m l] b by force
  next
    case 2
    then have "binary_loop c xs (?m + 1) r = Some m"
      using less.prems lr by (subst (asm) binary_loop.simps) (simp add: Let_def)
    then show ?thesis using less.hyps [of r "?m + 1"] b by force
  next
    case 3
    then have "m = ?m" using less.prems lr by (subst (asm) binary_loop.simps) (simp add: Let_def)
    then show ?thesis using 3 b by simp
  qed
qed

lemma binary_loop_none:
  "binary_loop c xs l r = None \<Longrightarrow> monotone_range c xs l r \<Longrightarrow> l \<le> k \<Longrightarrow> k < r \<Longrightarrow> c (xs ! k) \<noteq> 0"
proof (induction "r - l" arbitrary: l r rule: less_induct)
  case less
  let ?m = "(l + r) div 2"
  have lr: "l < r" using less.prems by simp
  then have b: "l \<le> ?m" "?m < r" by auto
  have mono: "sgn (c (xs ! i)) \<le> sgn (c (xs ! j))" if "l \<le> i" "i < j" "j < r" for i j
    using less.prems(2) that by (simp add: monotone_range_def)
  consider "c (xs ! ?m) > 0" | "c (xs ! ?m) < 0" | "c (xs ! ?m) = 0" by linarith
  then show ?case
  proof cases
    case 1
    then have n: "binary_loop c xs l ?m = None"
      using less.prems(1) lr by (subst (asm) binary_loop.simps) (simp add: Let_def)
    show ?thesis
    proof (cases "k < ?m")
      case True
      have "monotone_range c xs l ?m" using less.prems(2) b by (simp add: monotone_range_def)
      then show ?thesis using less.hyps [OF _ n] True less.prems(3) b by simp
    next
      case False
      then show ?thesis using mono [of ?m k] 1 b less.prems(4) by (cases "k = ?m") (auto simp: sgn_if split: if_splits)
    qed
  next
    case 2
    then have n: "binary_loop c xs (?m + 1) r = None"
      using less.prems(1) lr by (subst (asm) binary_loop.simps) (simp add: Let_def)
    show ?thesis
    proof (cases "?m < k")
      case True
      have "monotone_range c xs (?m + 1) r" using less.prems(2) b by (simp add: monotone_range_def)
      moreover have "r - (?m + 1) < r - l" using b by linarith
      ultimately show ?thesis using less.hyps [OF _ n] True less.prems(4) by simp
    next
      case False
      then show ?thesis using mono [of k ?m] 2 b less.prems(3) by (cases "k = ?m") (auto simp: sgn_if split: if_splits)
    qed
  next
    case 3
    then have "binary_loop c xs l r = Some ?m" using lr by (subst binary_loop.simps) (simp add: Let_def)
    then show ?thesis using less.prems(1) by simp
  qed
qed

context comparator
begin

lemma sorted_monotone:
  assumes "sorted_range cmp xs lo hi"
  shows "monotone_range (\<lambda>x. cmp x v) xs lo hi"
proof -
  have "sgn (cmp (xs ! i) v) \<le> sgn (cmp (xs ! j) v)" if "lo \<le> i" "i < j" "j < hi" for i j
  proof -
    have le: "cmp (xs ! i) (xs ! j) \<le> 0" using sorted_rangeD [OF assms that] .
    have "cmp (xs ! j) v < 0 \<longrightarrow> cmp (xs ! i) v < 0" "cmp (xs ! j) v \<le> 0 \<longrightarrow> cmp (xs ! i) v \<le> 0"
      using comp_trans_neg [OF le] comp_trans [OF le] by auto
    then show ?thesis by (auto simp: sgn_if)
  qed
  then show ?thesis by (simp add: monotone_range_def)
qed

end

section \<open>Walking\<close>

text \<open>A walk that never stops visits the items of the range in order.\<close>

lemma walk_loop_all:
  assumes "\<And>x s. fst (func x s)" and "tail \<le> length xs"
  shows "walk_loop func xs i tail c s
    = (c + (tail - i), fold (\<lambda>x s. snd (func x s)) (take (tail - i) (drop i xs)) s)"
proof (induction "tail - i" arbitrary: i c s)
  case 0
  then show ?case by (subst walk_loop.simps) auto
next
  case (Suc n)
  have it: "i < tail" "i < length xs" using Suc.hyps(2) assms(2) by auto
  obtain s' where f: "func (xs ! i) s = (True, s')"
    using assms(1) [of "xs ! i" s] by (cases "func (xs ! i) s") auto
  have "take (tail - i) (drop i xs) = xs ! i # take (tail - (i + 1)) (drop (i + 1) xs)"
    using it by (simp add: Cons_nth_drop_Suc [symmetric] take_Cons' del: drop_eq_Nil)
  moreover have "walk_loop func xs i tail c s = walk_loop func xs (i + 1) tail (c + 1) s'"
    using it f by (subst walk_loop.simps) simp
  moreover have "n = tail - (i + 1)" using Suc.hyps(2) by simp
  ultimately show ?case
    using Suc.hyps(1) [of "i + 1" "c + 1" s'] it f by simp
qed

section \<open>The contract of a mutable container\<close>

text \<open>What \<open>xu_remove_if_until\<close> leaves: an item goes when the predicate says so; a kept item with the flag set stops
  the removal, a removed one does not.\<close>

fun kept_until :: "('a \<Rightarrow> bool \<Rightarrow> bool \<times> bool) \<Rightarrow> bool \<Rightarrow> 'a list \<Rightarrow> 'a list" where
  "kept_until pred b [] = []"
| "kept_until pred b (x # xs) =
     (case pred x b of (ok, b') \<Rightarrow>
       if ok then kept_until pred b' xs else if b' then x # xs else x # kept_until pred b' xs)"

lemma kept_until_filter: "kept_until (xu_remove_if_pred p) False xs = filter (\<lambda>x. \<not> p x) xs"
  by (induction xs) (simp_all add: xu_remove_if_pred_def)

lemma kept_until_all: "(\<And>x b. x \<in> set xs \<Longrightarrow> fst (pred x b)) \<Longrightarrow> kept_until pred b xs = []"
proof (induction xs arbitrary: b)
  case (Cons x xs)
  have "fst (pred x b)" by (rule Cons.prems) simp
  moreover have "kept_until pred b' xs = []" for b' by (rule Cons.IH) (simp add: Cons.prems)
  ultimately show ?case by (simp add: case_prod_beta)
qed simp

text \<open>The positions of the items in their order, with the tail behind them. A removal may change the
  positions of the items from its place on, not the one in front of it.\<close>

locale mutable_container =
  fixes ops :: "('s, 'a) iterator_op" and inv :: "'s \<Rightarrow> bool" and items :: "'s \<Rightarrow> 'a list" and pos :: "'s \<Rightarrow> nat \<Rightarrow> nat"
  assumes mode_forward: "op_has_mode ops XU_ITERATOR_MODE_FORWARD"
    and mode_mutable: "op_has_mode ops XU_ITERATOR_MODE_MUTABLE"
    and mode_write: "\<not> op_has_mode ops XU_ITERATOR_MODE_READONLY"
    and head_first: "inv s \<Longrightarrow> op_head ops s = pos s 0"
    and tail_end: "inv s \<Longrightarrow> op_tail ops s = pos s (length (items s))"
    and pos_tail: "inv s \<Longrightarrow> i < length (items s) \<Longrightarrow> pos s i \<noteq> pos s (length (items s))"
    and next_up: "inv s \<Longrightarrow> i < length (items s) \<Longrightarrow> op_next ops s (pos s i) = pos s (i + 1)"
    and item_nth: "inv s \<Longrightarrow> i < length (items s) \<Longrightarrow> op_item ops s (pos s i) = items s ! i"
    and remove_one: "inv s \<Longrightarrow> i < length (items s) \<Longrightarrow>
      inv (op_remove ops s (pos s i)) \<and> items (op_remove ops s (pos s i)) = take i (items s) @ drop (i + 1) (items s)"
    and nremove_range: "inv s \<Longrightarrow> j + n \<le> length (items s) \<Longrightarrow> n \<noteq> 0 \<Longrightarrow>
      s' = op_nremove ops s (if j = 0 then op_tail ops s else pos s (j - 1)) (pos s (j + n)) n \<Longrightarrow>
      inv s' \<and> items s' = take j (items s) @ drop (j + n) (items s) \<and> (j \<noteq> 0 \<longrightarrow> pos s' (j - 1) = pos s (j - 1))"
begin

text \<open>The state of the removal: the kept items \<open>[0, j)\<close>, a pending range \<open>[j, i)\<close> of items
  to remove, and the position before the pending range.\<close>

definition before :: "'s \<Rightarrow> nat \<Rightarrow> nat" where
  "before s j = (if j = 0 then op_tail ops s else pos s (j - 1))"

definition remove_inv :: "'s \<Rightarrow> remove_vars \<Rightarrow> nat \<Rightarrow> nat \<Rightarrow> bool" where
  "remove_inv s v j i \<longleftrightarrow> inv s \<and> j \<le> i \<and> i \<le> length (items s)
     \<and> rv_itor v = pos s i \<and> rv_need v = (j < i) \<and> rv_size v = i - j \<and> (j < i \<longrightarrow> i < length (items s))
     \<and> (if j < i then rv_base v = before s j else j < length (items s) \<longrightarrow> rv_prev v = before s j)"

text \<open>After the removal of a range the loop goes on at the position of its place.\<close>

lemma nremove_pending:
  assumes "inv s" and "n \<noteq> 0" and "j + n \<le> length (items s)" and "s' = op_nremove ops s (before s j) (pos s (j + n)) n"
  shows "inv s'" and "items s' = take j (items s) @ drop (j + n) (items s)"
    and "(if before s j \<noteq> op_tail ops s then op_next ops s' (before s j) else op_head ops s') = pos s' j"
    and "j < length (items s') \<Longrightarrow> before s' (Suc j) = pos s' j"
proof -
  have r: "inv s'" "items s' = take j (items s) @ drop (j + n) (items s)" "j \<noteq> 0 \<Longrightarrow> pos s' (j - 1) = pos s (j - 1)"
    using nremove_range [OF assms(1,3,2), of s'] assms(4) by (simp_all add: before_def)
  show "inv s'" "items s' = take j (items s) @ drop (j + n) (items s)" by (rule r)+
  show "(if before s j \<noteq> op_tail ops s then op_next ops s' (before s j) else op_head ops s') = pos s' j"
  proof (cases "j = 0")
    case True
    then show ?thesis using head_first [OF r(1)] by (simp add: before_def)
  next
    case False
    have "j - 1 < length (items s')" unfolding r(2) using assms(2,3) False by simp
    then show ?thesis
      using next_up [OF r(1), of "j - 1"] r(3) [OF False] False pos_tail [OF assms(1), of "j - 1"] tail_end [OF assms(1)] assms(2,3)
      by (simp add: before_def)
  qed
qed (simp add: before_def)

lemma take_drop_pending:
  assumes "j \<le> i" and "i < length xs"
  shows "take (Suc j) (take j xs @ drop i xs) = take j xs @ [xs ! i]"
    and "drop (Suc j) (take j xs @ drop i xs) = drop (Suc i) xs"
  using assms by (simp_all add: min_def take_Suc_conv_app_nth)

text \<open>One turn keeps the invariant, makes progress and keeps what the removal will give; a turn that stops has given it.\<close>

lemma remove_turn_step:
  assumes ri: "remove_inv s v j i" and i: "i < length (items s)"
    and turn: "remove_turn ops pred s v = (s', v', go)"
  shows "if go then \<exists>j' i'. remove_inv s' v' j' i' \<and> length (items s') - i' < length (items s) - i
      \<and> take j' (items s') @ kept_until pred (rv_break v') (drop i' (items s'))
          = take j (items s) @ kept_until pred (rv_break v) (drop i (items s))
    else inv s' \<and> items s' = take j (items s) @ kept_until pred (rv_break v) (drop i (items s))"
proof -
  let ?xs = "items s"
  have inv: "inv s" and j: "j \<le> i" and need: "rv_need v = (j < i)" and itor: "rv_itor v = pos s i"
    and size: "rv_size v = i - j" using ri by (auto simp: remove_inv_def)
  note nx = next_up [OF inv i] and it = item_nth [OF inv i] and tl = tail_end [OF inv]
  have last: "pos s (i + 1) = op_tail ops s \<longleftrightarrow> i + 1 = length ?xs"
    using pos_tail [OF inv, of "i + 1"] i tl by (cases "i + 1 = length ?xs") auto
  obtain ok b where pb: "pred (?xs ! i) (rv_break v) = (ok, b)" by fastforce
  define base where "base = (if ok \<and> \<not> rv_need v then rv_prev v else rv_base v)"
  have base: "base = before s j" if "j < i \<or> ok"
    using ri that i need by (auto simp: remove_inv_def base_def split: if_splits)
  have dropi: "drop i ?xs = ?xs ! i # drop (Suc i) ?xs" using i by (simp add: Cons_nth_drop_Suc)
  have kept: "kept_until pred (rv_break v) (drop i ?xs) = (if ok then kept_until pred b (drop (Suc i) ?xs)
      else if b then drop i ?xs else ?xs ! i # kept_until pred b (drop (Suc i) ?xs))"
    using pb by (simp add: dropi)
  note turn_simps = remove_turn_def Let_def base_def itor pb
  consider (A) "ok" "i + 1 < length ?xs" | (B) "ok" "i + 1 = length ?xs" | (C) "\<not> ok" "j < i" | (D) "\<not> ok" "j = i"
    using i j by fastforce
  then show ?thesis
  proof cases
    case A
    then have e: "s' = s" "go"
      "v' = v\<lparr>rv_base := base, rv_need := True, rv_size := rv_size v + 1, rv_break := b, rv_prev := pos s i,
        rv_itor := pos s (i + 1)\<rparr>"
      using turn nx it last by (auto simp: turn_simps)
    have "remove_inv s' v' j (i + 1)"
      using e A inv j size base by (simp add: remove_inv_def)
    then show ?thesis using e A kept by (simp, intro exI [of _ j] exI [of _ "Suc i"]) auto
  next
    case B
    define u where "u = op_nremove ops s base (pos s (i + 1)) (rv_size v + 1)"
    have jn: "j + (rv_size v + 1) = i + 1" using size j by simp
    have bb: "base = before s j" using base B by simp
    note r0 = nremove_pending [OF inv, of "rv_size v + 1" j u, unfolded jn, folded bb]
    have r: "inv u" "items u = take j ?xs" "(if base \<noteq> op_tail ops s then op_next ops u base else op_head ops u) = pos u j"
      using r0 [OF _ _ u_def] B by simp_all
    have len: "length (items u) = j" using r(2) j i by simp
    have e: "s' = u" "go = (\<not> b)"
      "v' = v\<lparr>rv_base := base, rv_need := False, rv_size := 0, rv_break := b, rv_prev := base, rv_itor := pos u j\<rparr>"
      using turn nx it last B r(3) mode_mutable by (auto simp: turn_simps u_def)
    have "remove_inv s' v' j j" using e r(1) len by (simp add: remove_inv_def)
    then show ?thesis using e r len i j kept B by (simp, intro impI exI [of _ j]) auto
  next
    case C
    define u where "u = op_nremove ops s base (pos s i) (rv_size v)"
    have jn: "j + rv_size v = i" using size j by simp
    have bb: "base = before s j" and rb: "rv_base v = base" using base C by (simp_all add: base_def)
    note r0 = nremove_pending [OF inv, of "rv_size v" j u, unfolded jn, folded bb]
    have r: "inv u" "items u = take j ?xs @ drop i ?xs"
        "(if base \<noteq> op_tail ops s then op_next ops u base else op_head ops u) = pos u j"
        "j < length (items u) \<Longrightarrow> before u (Suc j) = pos u j"
      using r0 [OF _ _ u_def] C size i by simp_all
    have len: "length (items u) = j + (length ?xs - i)" using r(2) j i by simp
    have nj: "op_next ops u (pos u j) = pos u (Suc j)" using next_up [OF r(1), of j] len i by simp
    have e: "s' = u" "go = (\<not> b)"
      "v' = v\<lparr>rv_base := base, rv_need := False, rv_size := 0, rv_break := b, rv_prev := pos u j, rv_itor := pos u (Suc j)\<rparr>"
      using turn nx it last C r(3) nj mode_mutable need rb by (auto simp: remove_turn_def Let_def itor pb simp flip: u_def)
    have "remove_inv s' v' (Suc j) (Suc j)" using e r(1,4) len i by (simp add: remove_inv_def)
    then show ?thesis
      using e r len i j C kept take_drop_pending [OF j i] by (simp, intro impI exI [of _ "Suc j"]) auto
  next
    case D
    then have e: "s' = s" "go = (\<not> b)" "v' = v\<lparr>rv_base := rv_base v, rv_break := b, rv_prev := pos s i, rv_itor := pos s (i + 1)\<rparr>"
      using turn nx it last need by (auto simp: turn_simps)
    have "remove_inv s' v' (i + 1) (i + 1)" using e D inv size need i by (simp add: remove_inv_def before_def)
    then show ?thesis
      using e D i inv kept by (simp, intro impI exI [of _ "Suc i"]) (auto simp: take_Suc_conv_app_nth)
  qed
qed

lemma remove_loop_kept:
  assumes "remove_inv s v j i"
  shows "\<exists>s'. remove_loop ops pred s v = Some s' \<and> inv s'
    \<and> items s' = take j (items s) @ kept_until pred (rv_break v) (drop i (items s))"
  using assms
proof (induction "length (items s) - i" arbitrary: s v j i rule: less_induct)
  case less
  have inv: "inv s" and le: "i \<le> length (items s)" and itor: "rv_itor v = pos s i" using less.prems by (auto simp: remove_inv_def)
  show ?case
  proof (cases "i = length (items s)")
    case True
    then have "j = length (items s)" using less.prems by (auto simp: remove_inv_def)
    then show ?thesis using True inv itor tail_end [OF inv] by (subst remove_loop.simps) simp
  next
    case False
    then have i: "i < length (items s)" using le by simp
    obtain s' v' go where t: "remove_turn ops pred s v = (s', v', go)"
      by (cases "remove_turn ops pred s v")
    have loop: "remove_loop ops pred s v = (if go then remove_loop ops pred s' v' else Some s')"
      using t i tail_end [OF inv] pos_tail [OF inv i] itor by (subst remove_loop.simps) simp
    note st = remove_turn_step [OF less.prems i t]
    show ?thesis
    proof (cases go)
      case True
      with st obtain j' i' where "remove_inv s' v' j' i'" "length (items s') - i' < length (items s) - i"
        "take j' (items s') @ kept_until pred (rv_break v') (drop i' (items s'))
          = take j (items s) @ kept_until pred (rv_break v) (drop i (items s))" by auto
      then show ?thesis using less.hyps [of s' i' v' j'] loop True by simp
    qed (use st loop in simp)
  qed
qed

lemma remove_if_until_kept:
  assumes "inv s"
  shows "\<exists>s'. xu_remove_if_until ops s pred = Some s' \<and> inv s' \<and> items s' = kept_until pred False (items s)"
proof -
  let ?v = "\<lparr>rv_prev = op_tail ops s, rv_itor = op_head ops s, rv_base = op_tail ops s,
    rv_need = False, rv_size = 0, rv_break = False\<rparr>"
  have "remove_inv s ?v 0 0"
    using assms head_first [OF assms] by (simp add: remove_inv_def before_def)
  then show ?thesis
    using remove_loop_kept [of s ?v 0 0 pred] mode_forward mode_write by (simp add: xu_remove_if_until_def)
qed

lemma remove_if_filter:
  assumes "inv s"
  shows "\<exists>s'. xu_remove_if ops s p = Some s' \<and> inv s' \<and> items s' = filter (\<lambda>x. \<not> p x) (items s)"
  using remove_if_until_kept [OF assms, of "xu_remove_if_pred p"] by (simp add: xu_remove_if_def kept_until_filter)

lemma remove_first_loop_spec:
  assumes "inv s" and "i \<le> length (items s)"
  shows "\<exists>s'. remove_first_loop ops p s (pos s i) = Some s' \<and> inv s'
    \<and> items s' = take i (items s) @ takeWhile (\<lambda>x. \<not> p x) (drop i (items s))
        @ tl (dropWhile (\<lambda>x. \<not> p x) (drop i (items s)))"
  using assms(2)
proof (induction "length (items s) - i" arbitrary: i)
  case 0
  then show ?case
    using assms(1) tail_end [OF assms(1)] by (subst remove_first_loop.simps) simp
next
  case (Suc n)
  then have i: "i < length (items s)" by simp
  have d: "drop i (items s) = items s ! i # drop (i + 1) (items s)" using i by (simp add: Cons_nth_drop_Suc)
  note f = tail_end [OF assms(1)] item_nth [OF assms(1) i] next_up [OF assms(1) i] pos_tail [OF assms(1) i]
  show ?case
  proof (cases "p (items s ! i)")
    case True
    then show ?thesis
      using remove_one [OF assms(1) i] f i d by (subst remove_first_loop.simps) simp
  next
    case False
    have "n = length (items s) - (i + 1)" "i + 1 \<le> length (items s)" using Suc.hyps(2) i by auto
    from Suc.hyps(1) [OF this] show ?thesis
      using False f i d by (subst remove_first_loop.simps) (simp add: take_Suc_conv_app_nth)
  qed
qed

lemma remove_first_if_first:
  assumes "inv s"
  shows "\<exists>s'. xu_remove_first_if ops s p = Some s' \<and> inv s'
    \<and> items s' = takeWhile (\<lambda>x. \<not> p x) (items s) @ tl (dropWhile (\<lambda>x. \<not> p x) (items s))"
  using remove_first_loop_spec [OF assms, of 0 p] head_first [OF assms] mode_forward mode_write
  by (simp add: xu_remove_first_if_def)

end

text \<open>The vector of value elements keeps the contract.\<close>

definition vec_ok :: "vector \<Rightarrow> bool" where
  "vec_ok v \<longleftrightarrow> vec_inv v \<and> (v_elem v = xu_element_long \<or> v_elem v = xu_element_size)"

lemma vec_okD: "vec_ok v \<Longrightarrow> vec_inv v \<and> value_element (v_elem v)"
  using long_element.value_element_axioms size_element.value_element_axioms by (auto simp: vec_ok_def)

lemma vec_ok_nremove:
  assumes "vec_ok v" and "i + n \<le> v_size v"
  shows "vec_ok (xu_vector_nremove v i n)"
    and "vec_items (xu_vector_nremove v i n) = take i (vec_items v) @ drop (i + n) (vec_items v)"
proof -
  have "n < 2 ^ 62" using assms vec_okD [OF assms(1)] by (simp add: vec_inv_def XU_VECTOR_MAXN_def)
  then show "vec_ok (xu_vector_nremove v i n)"
    and "vec_items (xu_vector_nremove v i n) = take i (vec_items v) @ drop (i + n) (vec_items v)"
    using vec_nremove [of v i n] vec_okD [OF assms(1)] assms by (auto simp: vec_ok_def)
qed

interpretation vec_container: mutable_container vector_op vec_ok vec_items "\<lambda>v i. i"
proof
  show "op_has_mode vector_op XU_ITERATOR_MODE_FORWARD" "op_has_mode vector_op XU_ITERATOR_MODE_MUTABLE"
    "\<not> op_has_mode vector_op XU_ITERATOR_MODE_READONLY"
    by (simp_all add: op_has_mode_def vector_op_def array_mode_def iterator_modes)
  fix s i j n s' assume ok: "vec_ok s"
  note len = vec_items_length [of s] and k = vec_okD [OF ok]
  show "op_head vector_op s = 0" by (simp add: vector_op_def xu_vector_itor_head_def)
  show tl: "op_tail vector_op s = length (vec_items s)"
    using len k by (simp add: vector_op_def xu_vector_itor_tail_def)
  show "op_next vector_op s i = i + 1" if "i < length (vec_items s)"
    using that len k by (simp add: vector_op_def xu_vector_itor_next_def)
  show "op_item vector_op s i = vec_items s ! i" if "i < length (vec_items s)"
    using that vec_itor_item k by (simp add: vector_op_def)
  show "vec_ok (op_remove vector_op s i)
      \<and> vec_items (op_remove vector_op s i) = take i (vec_items s) @ drop (i + 1) (vec_items s)"
    if "i < length (vec_items s)"
    using that vec_remove [of s i] k len ok
    by (auto simp: vector_op_def xu_vector_itor_remove_def vec_ok_def xu_vector_remove_def)
  show "vec_ok s' \<and> vec_items s' = take j (vec_items s) @ drop (j + n) (vec_items s) \<and> (j \<noteq> 0 \<longrightarrow> j - 1 = j - 1)"
    if "j + n \<le> length (vec_items s)" "n \<noteq> 0"
      "s' = op_nremove vector_op s (if j = 0 then op_tail vector_op s else j - 1) (j + n) n"
    using that vec_ok_nremove [OF ok, of j n] len k tl
    by (cases "j = 0") (auto simp: vector_op_def xu_vector_itor_nremove_def)
qed simp_all

section \<open>Properties\<close>

text \<open>C6. The binary search on a range that the comparator has in order answers a position of
  the range whose item compares equal, if there is one, and the tail of the container
  otherwise.\<close>

theorem xu_binary_find_correct:
  assumes "comparator (it_comp it)" and "has_mode it XU_ITERATOR_MODE_RACCESS"
    and "sorted_range (it_comp it) (it_items it) head tail"
  shows "if \<exists>k. head \<le> k \<and> k < tail \<and> it_comp it (it_items it ! k) v = 0
    then head \<le> xu_binary_find it head tail v \<and> xu_binary_find it head tail v < tail
      \<and> it_comp it (it_items it ! xu_binary_find it head tail v) v = 0
    else xu_binary_find it head tail v = xu_iterator_tail it"
proof -
  let ?c = "\<lambda>x. it_comp it x v"
  have m: "monotone_range ?c (it_items it) head tail"
    using comparator.sorted_monotone [OF assms(1,3)] .
  have f: "xu_binary_find it head tail v = (case binary_loop ?c (it_items it) head tail of
      Some m \<Rightarrow> m | None \<Rightarrow> xu_iterator_tail it)"
    using assms(2) by (auto simp: xu_binary_find_def xu_binary_find_if_def xu_iterator_comp_def binary_loop.simps)
  show ?thesis
  proof (cases "binary_loop ?c (it_items it) head tail")
    case None
    then show ?thesis using f binary_loop_none [OF None m] by auto
  next
    case (Some a)
    then show ?thesis using f binary_loop_some [OF Some] by auto
  qed
qed

theorem xu_binary_find_correct_witness:
  "xu_binary_find (xu_array_iterator_init_long [-4, 1, 1, 8]) 0 4 8 = 3"
proof -
  let ?it = "xu_array_iterator_init_long [-4, 1, 1, 8]"
  have i: "it_items ?it = [-4, 1, 1, 8]" "it_comp ?it = xu_array_iterator_long_comp"
    by (simp_all add: xu_array_iterator_init_long_def)
  have s: "sorted_range (it_comp ?it) (it_items ?it) 0 4"
    unfolding i by (auto simp: sorted_range_def xu_array_iterator_long_comp_def numeral_eq_Suc less_Suc_eq)
  have c: "comparator (it_comp ?it)" unfolding i(2) by (rule long_comp.comparator_axioms)
  have "xu_array_iterator_long_comp ([-4, 1, 1, 8] ! 3) 8 = 0"
    by (simp add: xu_array_iterator_long_comp_def)
  then have ex: "\<exists>k\<ge>0. k < 4 \<and> xu_array_iterator_long_comp ([-4, 1, 1, 8] ! k) 8 = 0"
    by (intro exI [of _ 3]) simp
  define m where "m = xu_binary_find ?it 0 4 8"
  have "m < 4 \<and> xu_array_iterator_long_comp ([-4, 1, 1, 8] ! m) 8 = 0"
    using xu_binary_find_correct [OF c array_modes(1) s, of 8] ex unfolding i m_def by simp
  moreover have "m = 0 \<or> m = 1 \<or> m = 2 \<or> m = 3" using calculation by auto
  ultimately show ?thesis
    unfolding m_def [symmetric] by (auto simp: xu_array_iterator_long_comp_def)
qed

text \<open>\<open>xu_find_if\<close> answers the first position of the range whose item satisfies the
  predicate, and the tail of the container if there is none.\<close>

theorem xu_find_if_first:
  assumes "has_mode it XU_ITERATOR_MODE_FORWARD" and "tail \<le> length (it_items it)" and "head \<le> tail"
  shows "xu_find_if it head tail pred v =
    (if \<exists>k. head \<le> k \<and> k < tail \<and> pred it (it_items it ! k) v
     then (LEAST k. head \<le> k \<and> k < tail \<and> pred it (it_items it ! k) v)
     else xu_iterator_tail it)"
  using assms find_loop_spec [OF assms(2), of "\<lambda>x. pred it x v" head]
  by (auto simp: xu_find_if_def)

theorem xu_find_if_first_witness:
  "xu_find_if (xu_array_iterator_init_long [5]) 0 1 xu_predicate_eq 9 = 1"
proof -
  let ?it = "xu_array_iterator_init_long [5]"
  have i: "it_items ?it = [5]" by (simp add: xu_array_iterator_init_long_def)
  have no: "\<not> (\<exists>k\<ge>0. k < 1 \<and> xu_predicate_eq ?it (it_items ?it ! k) 9)"
    by (simp add: xu_predicate_eq_def xu_iterator_comp_def xu_array_iterator_init_long_def
        xu_array_iterator_long_comp_def)
  show ?thesis
    using xu_find_if_first [OF array_modes(2), of 1 "[5]" 0 xu_predicate_eq 9] no
    by (simp add: i xu_iterator_tail_def)
qed

text \<open>C7. \<open>xu_remove_if\<close> on a vector ends, keeps the vector's invariant and leaves exactly the
  items that do not satisfy the predicate, in their order, although it removes them in ranges
  while the positions move; \<open>xu_remove_first_if\<close> removes the first such item only.\<close>

theorem xu_remove_if_vector_filters:
  assumes "vec_ok v"
  shows "(\<exists>v'. xu_remove_if vector_op v p = Some v' \<and> vec_ok v'
      \<and> vec_items v' = filter (\<lambda>x. \<not> p x) (vec_items v))
    \<and> (\<exists>v'. xu_remove_first_if vector_op v p = Some v' \<and> vec_ok v'
      \<and> vec_items v' = takeWhile (\<lambda>x. \<not> p x) (vec_items v)
          @ tl (dropWhile (\<lambda>x. \<not> p x) (vec_items v)))"
  using vec_container.remove_if_filter [OF assms] vec_container.remove_first_if_first [OF assms] by blast

theorem xu_remove_if_vector_filters_witness:
  "\<exists>v'. xu_remove_if vector_op example_vector (\<lambda>x. x = 10) = Some v' \<and> vec_items v' = [20]"
proof -
  have "vec_ok example_vector" by (simp add: vec_ok_def example_vector_inv)
  from xu_remove_if_vector_filters [OF this, of "\<lambda>x. x = 10"] show ?thesis
    by (auto simp: example_vector_inv)
qed

text \<open>C8. \<open>xu_remove_if_until\<close> on a vector ends for every predicate, keeps the vector's invariant, and leaves what
  \<open>kept_until\<close> says: each item is asked about once, in order, with the flag as the predicate last left it; removed items
  go, and the removal stops only at a kept item with the flag set, which stays with everything behind it. A removed item
  that sets the flag does not stop it, as the documentation promises: when every item is to go, all go, whatever the flag
  says.\<close>

theorem xu_remove_if_until_runs_past_break:
  assumes "vec_ok v"
  shows "(\<exists>v'. xu_remove_if_until vector_op v pred = Some v' \<and> vec_ok v' \<and> vec_items v' = kept_until pred False (vec_items v))
    \<and> ((\<forall>x b. fst (pred x b)) \<longrightarrow> map_option vec_items (xu_remove_if_until vector_op v pred) = Some [])"
  using vec_container.remove_if_until_kept [OF assms, of pred] by (auto simp: kept_until_all)

theorem xu_remove_if_until_runs_past_break_witness:
  "map_option vec_items (xu_remove_if_until vector_op example_vector (\<lambda>x b. (True, True))) = Some []
    \<and> map_option vec_items (xu_remove_if_until vector_op example_vector (\<lambda>x b. (False, True))) = Some [10, 20]"
proof -
  have ok: "vec_ok example_vector" by (simp add: vec_ok_def example_vector_inv)
  show ?thesis
    using xu_remove_if_until_runs_past_break [OF ok, of "\<lambda>x b. (True, True)"]
      xu_remove_if_until_runs_past_break [OF ok, of "\<lambda>x b. (False, True)"] by (auto simp: example_vector_inv)
qed

text \<open>\<open>xu_distance\<close> is the number of steps from head to tail, whichever of its branches
  (subtraction, container size, forward walk, reverse walk) the iterator's mode selects.\<close>

theorem xu_distance_correct:
  assumes "head \<le> tail"
    and "has_mode it XU_ITERATOR_MODE_RACCESS \<or> has_mode it XU_ITERATOR_MODE_FORWARD
      \<or> has_mode it XU_ITERATOR_MODE_REVERSE"
  shows "xu_distance it head tail = tail - head"
  using assms distance_forward_eq [OF assms(1), of it 0] distance_reverse_eq [of head tail it 0]
  by (auto simp: xu_distance_def xu_iterator_head_def xu_iterator_tail_def xu_iterator_size_def)

theorem xu_distance_correct_witness:
  "xu_distance \<lparr>it_mode = 2, it_items = [1, 2, 3 :: u64], it_comp = xu_array_iterator_long_comp\<rparr> 1 3 = 2"
  using xu_distance_correct [of 1 3 "\<lparr>it_mode = 2, it_items = [1, 2, 3 :: u64], it_comp = xu_array_iterator_long_comp\<rparr>"]
  by (simp add: has_mode_def iterator_modes)

end
