(* ===== verification/XHeap.thy ===== *)
theory XHeap
  imports XVector
begin

text \<open>
  \<^verbatim>\<open>xutil/container/heap.c\<close>: the priority queue as an implicit binary heap with the least
  item on top. The buffer is the list of its \<open>maxn\<close> cells, as for the vector; a pointer into
  it is the index of its cell. The two switches on the element size copy a cell in two
  ways and are one case here. \<open>xu_ralloc\<close> is a parameter.
\<close>

definition XU_HEAP_GROW :: nat where "XU_HEAP_GROW = 256"
definition XU_HEAP_MAXN :: nat where "XU_HEAP_MAXN = 2 ^ 30"

record heap =
  h_data :: "u64 list option"
  h_size :: nat
  h_maxn :: nat
  h_grow :: nat
  h_elem :: element

section \<open>Moving the hole\<close>

text \<open>The loop stops at the root before it looks at a parent.\<close>

fun shift_up_loop :: "element \<Rightarrow> u64 list \<Rightarrow> nat \<Rightarrow> u64 \<Rightarrow> u64 list \<times> nat" where
  "shift_up_loop e head hole data =
     (let parent = (hole - 1) div 2 in
      if hole \<noteq> 0 \<and> el_comp e (el_data e head parent) data > 0 then
        shift_up_loop e (head[hole := head ! parent]) parent data
      else (head, hole))"

declare shift_up_loop.simps [simp del]

definition xu_heap_shift_up :: "element \<Rightarrow> u64 list \<Rightarrow> nat \<Rightarrow> u64 \<Rightarrow> u64 list \<times> nat" where
  "xu_heap_shift_up e head hole data = shift_up_loop e head hole data"

text \<open>The child the hole would move to: the right one when it exists and is smaller.\<close>

definition smaller_child :: "element \<Rightarrow> u64 list \<Rightarrow> nat \<Rightarrow> nat \<Rightarrow> nat" where
  "smaller_child e head tail lchild =
     (if lchild + 1 < tail \<and> el_comp e (el_data e head lchild) (el_data e head (lchild + 1)) > 0
      then lchild + 1 else lchild)"

lemma smaller_child_ge: "lchild \<le> smaller_child e head tail lchild"
  by (simp add: smaller_child_def)

lemma smaller_child_twice [simp]: "lchild \<le> 2 * smaller_child e head tail lchild"
  by (simp add: smaller_child_def)

function shift_down_loop :: "element \<Rightarrow> u64 list \<Rightarrow> nat \<Rightarrow> nat \<Rightarrow> nat \<Rightarrow> u64 \<Rightarrow> u64 list \<times> nat" where
  "shift_down_loop e head tail phole lchild data =
     (if lchild < tail then
        let lchild = smaller_child e head tail lchild in
        if el_comp e (el_data e head lchild) data \<ge> 0 then (head, phole)
        else shift_down_loop e (head[phole := head ! lchild]) tail lchild (2 * lchild + 1) data
      else (head, phole))"
  by auto
termination
  by (relation "measure (\<lambda>(e, head, tail, phole, lchild, data). tail - lchild)")
     (auto intro!: diff_less_mono2 simp: less_Suc_eq_le)

declare shift_down_loop.simps [simp del]

definition xu_heap_shift_down :: "element \<Rightarrow> u64 list \<Rightarrow> nat \<Rightarrow> nat \<Rightarrow> u64 \<Rightarrow> u64 list \<times> nat" where
  "xu_heap_shift_down e head tail hole data = shift_down_loop e head tail hole (2 * hole + 1) data"

section \<open>The iterator operations\<close>

definition xu_heap_itor_size :: "heap \<Rightarrow> nat" where
  "xu_heap_itor_size h = h_size h"

definition xu_heap_itor_head :: "heap \<Rightarrow> nat" where
  "xu_heap_itor_head h = 0"

definition xu_heap_itor_last :: "heap \<Rightarrow> nat" where
  "xu_heap_itor_last h = (if h_size h \<noteq> 0 then h_size h - 1 else 0)"

definition xu_heap_itor_tail :: "heap \<Rightarrow> nat" where
  "xu_heap_itor_tail h = h_size h"

definition xu_heap_itor_next :: "heap \<Rightarrow> nat \<Rightarrow> nat" where
  "xu_heap_itor_next h itor = (if itor < h_size h then itor + 1 else h_size h)"

definition xu_heap_itor_prev :: "heap \<Rightarrow> nat \<Rightarrow> nat" where
  "xu_heap_itor_prev h itor = (if itor \<noteq> 0 \<and> itor < h_size h then itor - 1 else 0)"

definition xu_heap_itor_item :: "heap \<Rightarrow> nat \<Rightarrow> u64 option" where
  "xu_heap_itor_item h itor =
     (if itor < h_size h then map_option (\<lambda>d. el_data (h_elem h) d itor) (h_data h) else None)"

definition xu_heap_itor_copy :: "heap \<Rightarrow> nat \<Rightarrow> u64 \<Rightarrow> heap" where
  "xu_heap_itor_copy h itor item =
     h\<lparr>h_data := map_option (\<lambda>d. el_copy (h_elem h) d itor item) (h_data h)\<rparr>"

definition xu_heap_itor_comp :: "heap \<Rightarrow> u64 \<Rightarrow> u64 \<Rightarrow> int" where
  "xu_heap_itor_comp h litem ritem = el_comp (h_elem h) litem ritem"

text \<open>
  The last item fills the hole of the removed one. The parent is looked up before the
  test of \<open>itor\<close>, with an index that wraps for the root; its value is then not used.
\<close>

definition xu_heap_itor_remove :: "heap \<Rightarrow> nat \<Rightarrow> heap" where
  "xu_heap_itor_remove h itor =
     (case h_data h of
        None \<Rightarrow> h
      | Some d \<Rightarrow>
          if h_size h = 0 \<or> \<not> itor < h_size h then h
          else
            let e = h_elem h;
                d = free_cell e d itor;
                d = (if itor \<noteq> h_size h - 1 then
                       let last = h_size h - 1;
                           data_last = el_data e d last;
                           data_parent = el_data e d (sz_sub itor 1 div 2);
                           (d, hole) =
                             (if itor \<noteq> 0 \<and> el_comp e data_parent data_last > 0
                              then xu_heap_shift_up e d itor data_last
                              else xu_heap_shift_down e d (h_size h) itor data_last)
                       in if hole \<noteq> last then d[hole := d ! last] else d
                     else d)
            in h\<lparr>h_data := Some d, h_size := h_size h - 1\<rparr>)"

section \<open>The operations\<close>

definition xu_heap_init :: "(nat \<Rightarrow> u64 list option) \<Rightarrow> nat \<Rightarrow> element \<Rightarrow> heap option" where
  "xu_heap_init nalloc0 grow e =
     (let grow = (if grow = 0 then XU_HEAP_GROW else grow) in
      if grow < XU_HEAP_MAXN then
        (case nalloc0 grow of
           None \<Rightarrow> None
         | Some d \<Rightarrow> Some \<lparr>h_data = Some d, h_size = 0, h_maxn = grow, h_grow = grow, h_elem = e\<rparr>)
      else None)"

definition xu_heap_clear :: "heap \<Rightarrow> heap" where
  "xu_heap_clear h =
     h\<lparr>h_data := map_option (\<lambda>d. nfree_cells (h_elem h) d 0 (h_size h)) (h_data h), h_size := 0\<rparr>"

definition xu_heap_size :: "heap \<Rightarrow> nat" where
  "xu_heap_size h = h_size h"

definition xu_heap_maxn :: "heap \<Rightarrow> nat" where
  "xu_heap_maxn h = h_maxn h"

definition xu_heap_top :: "heap \<Rightarrow> u64 option" where
  "xu_heap_top h = xu_heap_itor_item h (xu_heap_itor_head h)"

text \<open>The growth of a full heap: the flag tells whether \<open>put\<close> goes on.\<close>

definition heap_grow :: "reallocator \<Rightarrow> heap \<Rightarrow> bool \<times> heap" where
  "heap_grow ralloc h =
     (if h_size h = h_maxn h then
        let maxn = xu_align4 (sz_add (h_maxn h) (h_grow h)) in
        if \<not> maxn < XU_HEAP_MAXN then (False, h)
        else (case ralloc (h_data h) maxn of
                None \<Rightarrow> (False, h\<lparr>h_data := None\<rparr>)
              | Some d \<Rightarrow>
                  (True, h\<lparr>h_data := Some (mem_fill d (h_size h) (sz_sub maxn (h_maxn h)) 0),
                           h_maxn := maxn\<rparr>))
      else (True, h))"

definition xu_heap_put :: "reallocator \<Rightarrow> heap \<Rightarrow> u64 \<Rightarrow> heap" where
  "xu_heap_put ralloc h data =
     (if h_data h = None then h
      else case heap_grow ralloc h of
        (False, h) \<Rightarrow> h
      | (True, h) \<Rightarrow>
          (case h_data h of
             None \<Rightarrow> h
           | Some d \<Rightarrow>
               if h_size h < h_maxn h then
                 let (d, hole) = xu_heap_shift_up (h_elem h) d (h_size h) data in
                 h\<lparr>h_data := Some (el_dupl (h_elem h) d hole data), h_size := h_size h + 1\<rparr>
               else h))"

definition xu_heap_pop :: "heap \<Rightarrow> heap" where
  "xu_heap_pop h =
     (case h_data h of
        None \<Rightarrow> h
      | Some d \<Rightarrow>
          if h_size h = 0 then h
          else
            let e = h_elem h;
                d = free_cell e d 0;
                d = (if h_size h > 1 then
                       let last = h_size h - 1;
                           (d, hole) = xu_heap_shift_down e d (h_size h) 0 (el_data e d last)
                       in if hole \<noteq> last then d[hole := d ! last] else d
                     else d)
            in h\<lparr>h_data := Some d, h_size := h_size h - 1\<rparr>)"

definition xu_heap_remove :: "heap \<Rightarrow> nat \<Rightarrow> heap" where
  "xu_heap_remove h itor = xu_heap_itor_remove h itor"

end
