(* ===== verification/XHeapCorrect.thy ===== *)
theory XHeapCorrect
  imports XHeap XHeapShape XVectorCorrect
begin

text \<open>
  The heap refines a priority queue: \<open>heap_items\<close> is its multiset, \<open>heap_inv\<close> the
  representation invariant with the order of every edge. The operations are proved once for
  the elements whose cells hold the item and whose comparator is lawful.
\<close>

section \<open>Abstraction and invariant\<close>

definition heap_cells :: "heap \<Rightarrow> u64 list" where
  "heap_cells h = (case h_data h of None \<Rightarrow> [] | Some d \<Rightarrow> take (h_size h) d)"

definition heap_items :: "heap \<Rightarrow> u64 multiset" where
  "heap_items h = mset (heap_cells h)"

definition heap_inv :: "heap \<Rightarrow> bool" where
  "heap_inv h \<longleftrightarrow> (case h_data h of None \<Rightarrow> False | Some d \<Rightarrow> length d = h_maxn h
       \<and> heap_from (\<lambda>x y. el_comp (h_elem h) x y \<le> 0) 0 (h_size h) ((!) d))
     \<and> h_size h \<le> h_maxn h \<and> h_maxn h < XU_HEAP_MAXN \<and> h_grow h < XU_HEAP_MAXN \<and> 0 < h_grow h"

definition heap_room :: "reallocator \<Rightarrow> heap \<Rightarrow> bool" where
  "heap_room ralloc h \<longleftrightarrow> h_size h < h_maxn h
     \<or> (xu_align4 (sz_add (h_maxn h) (h_grow h)) < XU_HEAP_MAXN
        \<and> ralloc (h_data h) (xu_align4 (sz_add (h_maxn h) (h_grow h))) \<noteq> None)"

lemma heap_invE:
  assumes "heap_inv h"
  obtains d where "h_data h = Some d" and "length d = h_maxn h" and "h_size h \<le> length d"
    and "heap_from (\<lambda>x y. el_comp (h_elem h) x y \<le> 0) 0 (h_size h) ((!) d)"
    and "heap_cells h = take (h_size h) d"
  using assms by (auto simp: heap_inv_def heap_cells_def split: option.splits)

lemma heap_order_cong:
  "length d = length d' \<Longrightarrow> n \<le> length d \<Longrightarrow> take n d = take n d' \<Longrightarrow>
     heap_from R k n ((!) d) = heap_from R k n ((!) d')"
  by (rule heap_from_cong) (metis nth_take)

lemma heap_hole_frame:
  assumes hole: "heap_hole R 0 n h f" and eq: "\<And>k. k < n \<Longrightarrow> k \<noteq> h \<Longrightarrow> g k = f k"
  shows "heap_hole R 0 n h g"
proof (rule heap_holeI)
  fix c assume c: "0 < c" "c < n"
  have p: "parent c < c" using c(1) by (rule parent_less)
  show "R (g (parent c)) (g c)" if "parent c \<noteq> h" "c \<noteq> h"
    using heap_hole_edge [OF hole c] eq [of c] eq [of "parent c"] that p c by simp
  show "R (g (parent h)) (g c)" if h: "parent c = h" "0 < h"
  proof -
    have "parent h < h" "h < c" using parent_less [OF h(2)] p h(1) by auto
    then show ?thesis
      using heap_hole_grand [OF hole c h(1,2)] eq [of c] eq [of "parent h"] c by simp
  qed
qed

section \<open>The two shifts\<close>

locale heap_element = value_element e + comparator "el_comp e" for e
begin

abbreviation above :: "u64 \<Rightarrow> u64 \<Rightarrow> bool" where
  "above x y \<equiv> el_comp e x y \<le> 0"

lemma shift_up_heap:
  assumes "shift_up_loop e d hole x = (d', hole')" and "hole < n" and "n \<le> length d"
    and "heap_hole above 0 n hole ((!) d)"
    and "\<And>c. 0 < c \<Longrightarrow> c < n \<Longrightarrow> parent c = hole \<Longrightarrow> above x (d ! c)"
  shows "hole' \<le> hole \<and> length d' = length d \<and> heap_from above 0 n ((!) (d'[hole' := x]))
    \<and> mset (take n (d'[hole' := x])) = mset (take n (d[hole := x]))
    \<and> same_outside d d' 0 (Suc hole)"
  using assms
proof (induction hole arbitrary: d rule: less_induct)
  case (less hole)
  let ?p = "parent hole"
  have len: "hole < length d" using less.prems by simp
  note step = less.prems(1) [unfolded shift_up_loop.simps [of e d hole] data_cell
      parent_def [symmetric] Let_def]
  show ?case
  proof (cases "hole \<noteq> 0 \<and> 0 < el_comp e (d ! ?p) x")
    case True
    then have p: "?p < hole" by simp
    let ?d = "d[hole := d ! ?p]"
    have rec: "shift_up_loop e ?d ?p x = (d', hole')" using step True by simp
    have cells: "(!) ?d = ((!) d)(hole := d ! ?p)" using len by (simp add: cells_update0)
    have hp: "heap_hole above 0 n ?p ((!) ?d)"
      unfolding cells by (rule min.heap_hole_up) (use less.prems True in auto)
    have below: "above x (?d ! c)" if c: "0 < c" "c < n" "parent c = ?p" for c
    proof (cases "c = hole")
      case True
      then show ?thesis using \<open>hole \<noteq> 0 \<and> 0 < el_comp e (d ! ?p) x\<close> len comp_pos_le by simp
    next
      case False
      have "parent c < c" using c(1) by (rule parent_less)
      then have "above (d ! ?p) (d ! c)"
        using heap_hole_edge [OF less.prems(4) c(1,2)] c False p by auto
      then show ?thesis
        using comp_trans [of x "d ! ?p" "d ! c"] True comp_pos_le False by simp
    qed
    have ih: "hole' \<le> ?p \<and> length d' = length ?d \<and> heap_from above 0 n ((!) (d'[hole' := x]))
      \<and> mset (take n (d'[hole' := x])) = mset (take n (?d[?p := x])) \<and> same_outside ?d d' 0 (Suc ?p)"
      by (rule less.IH [OF p rec _ _ hp below]) (use p less.prems in auto)
    have "mset (take n (?d[?p := x])) = mset (take n (d[hole := x]))"
      using hole_move [of hole "take n d" ?p x] p less.prems(2,3) by (simp add: take_update_swap)
    moreover have "same_outside d d' 0 (Suc hole)"
      using ih p by (auto simp: same_outside_def)
    ultimately show ?thesis using ih p by simp
  next
    case False
    then have eq: "d' = d" "hole' = hole" using step by auto
    have "heap_from above 0 n (((!) d)(hole := x))"
      by (rule min.heap_hole_close [OF less.prems(4)])
         (use False comp_nonneg_le comp_not_pos less.prems(5) in \<open>auto\<close>)
    then show ?thesis
      using len unfolding eq by (simp add: cells_update0 same_outside_def del: fun_upd_apply)
  qed
qed

lemma smaller_child_least:
  assumes "c = smaller_child e d n (2 * h + 1)" and "2 * h + 1 < n"
  shows "0 < c" and "c < n" and "parent c = h"
    and "\<And>k. 0 < k \<Longrightarrow> k < n \<Longrightarrow> parent k = h \<Longrightarrow> above (d ! c) (d ! k)"
proof -
  show "0 < c" "c < n" "parent c = h"
    using assms by (auto simp: smaller_child_def)
  fix k assume k: "0 < k" "k < n" "parent k = h"
  then have "k = 2 * h + 1 \<or> k = 2 * h + 2" by (simp add: parent_eq)
  then show "above (d ! c) (d ! k)"
    using assms k comp_pos_le by (auto simp: smaller_child_def data_cell)
qed

text \<open>The last cell of the heap still holds the item that is to be put into the hole, and
  the hole never reaches it.\<close>

lemma shift_down_heap:
  assumes "shift_down_loop e d n hole (2 * hole + 1) x = (d', hole')" and "hole < n"
    and "n \<le> length d" and "heap_hole above 0 n hole ((!) d)"
    and "0 < hole \<Longrightarrow> above (d ! parent hole) x" and "hole \<noteq> n - 1" and "d ! (n - 1) = x"
  shows "hole' < n \<and> length d' = length d \<and> heap_from above 0 n ((!) (d'[hole' := x]))
    \<and> mset (take n (d'[hole' := x])) = mset (take n (d[hole := x]))
    \<and> hole' \<noteq> n - 1 \<and> d' ! (n - 1) = x \<and> same_outside d d' hole n"
  using assms
proof (induction "n - hole" arbitrary: d hole rule: less_induct)
  case less
  have len: "hole < length d" using less.prems by simp
  let ?c = "smaller_child e d n (2 * hole + 1)"
  note step = less.prems(1) [unfolded shift_down_loop.simps [where head = d and phole = hole] data_cell Let_def]
  show ?case
  proof (cases "2 * hole + 1 < n \<and> el_comp e (d ! ?c) x < 0")
    case True
    then have lt: "2 * hole + 1 < n" and neg: "el_comp e (d ! ?c) x < 0" by auto
    note c = smaller_child_least [OF refl lt, where d = d]
    have hc: "hole < ?c" using c(1,3) by (metis parent_less)
    let ?d = "d[hole := d ! ?c]"
    have rec: "shift_down_loop e ?d n ?c (2 * ?c + 1) x = (d', hole')"
      using step True by (simp add: linorder_not_le)
    have cells: "(!) ?d = ((!) d)(hole := d ! ?c)" using len by (simp add: cells_update0)
    have hp: "heap_hole above 0 n ?c ((!) ?d)"
      unfolding cells by (rule min.heap_hole_down [OF less.prems(4) c(1-3)]) (use c(4) in auto)
    have up: "above (?d ! parent ?c) x" using c(3) len neg by simp
    have last: "?c \<noteq> n - 1" using neg less.prems(7) by auto
    have keep: "?d ! (n - 1) = x" using less.prems by simp
    have ih: "hole' < n \<and> length d' = length ?d \<and> heap_from above 0 n ((!) (d'[hole' := x]))
      \<and> mset (take n (d'[hole' := x])) = mset (take n (?d[?c := x]))
      \<and> hole' \<noteq> n - 1 \<and> d' ! (n - 1) = x \<and> same_outside ?d d' ?c n"
      by (rule less.hyps [OF _ rec c(2) _ hp up last keep]) (use hc c(2) less.prems(3) in auto)
    have "mset (take n (?d[?c := x])) = mset (take n (d[hole := x]))"
      using hole_move [of hole "take n d" ?c x] hc c(2) less.prems(2,3) by (simp add: take_update_swap)
    moreover have "same_outside d d' hole n"
      using ih hc c(2) by (auto simp: same_outside_def)
    ultimately show ?thesis using ih by simp
  next
    case False
    then have eq: "d' = d" "hole' = hole"
      using step by (auto simp: linorder_not_less split: if_splits)
    have below: "above x (d ! c)" if k: "0 < c" "c < n" "parent c = hole" for c
    proof -
      have lt: "2 * hole + 1 < n" using k by (auto simp: parent_eq)
      then have "above x (d ! ?c)" using False comp_nonneg_le by (simp add: linorder_not_less)
      then show ?thesis using smaller_child_least(4) [OF refl lt k] comp_trans by blast
    qed
    have "heap_from above 0 n (((!) d)(hole := x))"
      by (rule min.heap_hole_close [OF less.prems(4)]) (use less.prems(5) below in auto)
    then show ?thesis
      using len less.prems unfolding eq by (simp add: cells_update0 same_outside_def del: fun_upd_apply)
  qed
qed

end

lemma heap_size_items:
  assumes "heap_inv h"
  shows "size (heap_items h) = h_size h"
  using assms by (auto elim!: heap_invE simp: heap_items_def)

section \<open>Growing\<close>

lemma heap_grow_room:
  assumes "heap_inv h" and "ralloc_keeps ralloc" and "heap_room ralloc h"
  obtains h' d' where "heap_grow ralloc h = (True, h')" and "h_data h' = Some d'"
    and "length d' = h_maxn h'" and "h_size h' = h_size h" and "h_size h < h_maxn h'"
    and "h_maxn h' < XU_HEAP_MAXN" and "h_grow h' = h_grow h" and "h_elem h' = h_elem h"
    and "take (h_size h) d' = heap_cells h"
proof -
  obtain d where d: "h_data h = Some d" "length d = h_maxn h" "h_size h \<le> length d"
    "heap_cells h = take (h_size h) d" using assms(1) by (rule heap_invE)
  show thesis
  proof (cases "h_size h = h_maxn h")
    case False
    then show ?thesis
      using that [of h d] d assms(1) by (auto simp: heap_grow_def heap_inv_def)
  next
    case True
    let ?m = "xu_align4 (sz_add (h_maxn h) (h_grow h))"
    obtain d' where m: "?m < XU_HEAP_MAXN" and r: "ralloc (Some d) ?m = Some d'"
      using True assms(3) d(1) by (auto simp: heap_room_def)
    have "h_maxn h < 2 ^ 30" "h_grow h < 2 ^ 30" "0 < h_grow h"
      using assms(1) by (simp_all add: heap_inv_def XU_HEAP_MAXN_def)
    then have grow: "h_maxn h < ?m"
      using xu_align4_ge [of "h_maxn h + h_grow h"] by simp
    have keep: "length d' = ?m" "\<And>i. i < length d \<Longrightarrow> i < ?m \<Longrightarrow> d' ! i = d ! i"
      using assms(2) r by (auto simp: ralloc_keeps_def)
    let ?d = "mem_fill d' (h_size h) (sz_sub ?m (h_maxn h)) 0"
    let ?h = "h\<lparr>h_data := Some ?d, h_maxn := ?m\<rparr>"
    have "heap_grow ralloc h = (True, ?h)"
      using True m r d(1) by (simp add: heap_grow_def Let_def)
    moreover have "take (h_size h) ?d = heap_cells h"
      unfolding d(4) by (rule take_nth_eqI) (use d grow keep True in auto)
    ultimately show ?thesis
      using that [of ?h ?d] True m grow keep(1) by auto
  qed
qed

section \<open>The operations as operations of a priority queue\<close>

context heap_element
begin

lemma heap_put:
  assumes "heap_inv h" and "h_elem h = e" and "ralloc_keeps ralloc" and "heap_room ralloc h"
  shows "heap_inv (xu_heap_put ralloc h x) \<and> h_elem (xu_heap_put ralloc h x) = e
    \<and> heap_items (xu_heap_put ralloc h x) = add_mset x (heap_items h)"
proof -
  obtain d where d: "h_data h = Some d" "length d = h_maxn h" "h_size h \<le> length d"
    "heap_from (\<lambda>x y. el_comp (h_elem h) x y \<le> 0) 0 (h_size h) ((!) d)"
    "heap_cells h = take (h_size h) d" using assms(1) by (rule heap_invE)
  obtain h' d' where g: "heap_grow ralloc h = (True, h')" "h_data h' = Some d'"
      "length d' = h_maxn h'" "h_size h' = h_size h" "h_size h < h_maxn h'"
      "h_maxn h' < XU_HEAP_MAXN" "h_grow h' = h_grow h" "h_elem h' = h_elem h"
      "take (h_size h) d' = heap_cells h"
    by (rule heap_grow_room [OF assms(1,3,4)])
  let ?n = "h_size h"
  obtain d'' hole where s: "shift_up_loop e d' ?n x = (d'', hole)" by fastforce
  have "heap_from above 0 ?n ((!) d)" using d(4) assms(2) by simp
  then have "heap_from above 0 ?n ((!) d')"
    using g(3,5,9) d(3,5) heap_from_cong [of ?n "(!) d" "(!) d'"] by (metis nth_take)
  then have hp: "heap_hole above 0 (Suc ?n) ?n ((!) d')" by (rule min.heap_hole_tail)
  have below: "above x (d' ! c)" if "0 < c" "c < Suc ?n" "parent c = ?n" for c
    using parent_less [OF that(1)] that by simp
  have up: "hole \<le> ?n \<and> length d'' = length d' \<and> heap_from above 0 (Suc ?n) ((!) (d''[hole := x]))
    \<and> mset (take (Suc ?n) (d''[hole := x])) = mset (take (Suc ?n) (d'[?n := x]))
    \<and> same_outside d' d'' 0 (Suc ?n)"
    by (rule shift_up_heap [OF s _ _ hp below]) (use g(3,5) in auto)
  have "take (Suc ?n) (d'[?n := x]) = heap_cells h @ [x]"
    using g(3,5,9) by (simp add: take_Suc_conv_app_nth)
  moreover have "xu_heap_put ralloc h x
      = h'\<lparr>h_data := Some (d''[hole := x]), h_size := Suc ?n\<rparr>"
    using d(1) g s assms(2) by (simp add: xu_heap_put_def xu_heap_shift_up_def dupl_cell)
  ultimately show ?thesis
    using up g assms(1,2) by (simp add: heap_inv_def heap_items_def heap_cells_def)
qed

text \<open>Both removals: the freed cell is the hole, the last item goes into it, and the last
  cell leaves the heap.\<close>

lemma heap_drop_last:
  assumes "heap_from above 0 n ((!) (d'[hole := x]))" and "n \<le> length d'" and "hole < n"
    and "hole \<noteq> n - 1" and "d' ! (n - 1) = x"
    and "mset (take n (d'[hole := x])) = mset (take n (d[i := x]))"
  shows "heap_from above 0 (n - 1) ((!) (d'[hole := x]))"
    and "mset (take (n - 1) (d'[hole := x])) = mset (take n (d[i := x])) - {#x#}"
proof -
  show "heap_from above 0 (n - 1) ((!) (d'[hole := x]))"
    by (rule heap_from_shrink [OF assms(1)]) simp
  have "take n (d'[hole := x]) = take (n - 1) (d'[hole := x]) @ [x]"
    using assms(2-5) take_Suc_conv_app_nth [of "n - 1" "d'[hole := x]"] by simp
  then show "mset (take (n - 1) (d'[hole := x])) = mset (take n (d[i := x])) - {#x#}"
    unfolding assms(6) [symmetric] by simp
qed

lemma heap_refill:
  assumes "heap_from above 0 n ((!) d)" and "i < n" and "n \<le> length d" and "i \<noteq> n - 1"
    and "same_outside d f i (Suc i)" and "x = d ! (n - 1)"
    and "(if i \<noteq> 0 \<and> 0 < el_comp e (f ! parent i) x then shift_up_loop e f i x
          else shift_down_loop e f n i (2 * i + 1) x) = (d', hole)"
  shows "hole < n \<and> hole \<noteq> n - 1 \<and> length d' = length d \<and> d' ! (n - 1) = x
    \<and> heap_from above 0 (n - 1) ((!) (d'[hole := x]))
    \<and> mset (take (n - 1) (d'[hole := x])) = mset (take n d) - {# d ! i #}"
proof -
  have len: "length f = length d" and cells: "\<And>k. k < length d \<Longrightarrow> k \<noteq> i \<Longrightarrow> f ! k = d ! k"
    using assms(5) by (auto simp: same_outside_def)
  have fx: "f[i := x] = d[i := x]"
    by (rule nth_equalityI) (use len cells assms(2,3) in \<open>auto simp: nth_list_update\<close>)
  have "heap_hole above 0 n i ((!) d)" by (rule min.heap_hole_open [OF assms(1,2)])
  then have hp: "heap_hole above 0 n i ((!) f)"
    by (rule heap_hole_frame) (use cells assms(3) in auto)
  have last: "f ! (n - 1) = x" using cells [of "n - 1"] assms(2-4,6) by simp
  have kept: "hole < n \<and> hole \<noteq> n - 1 \<and> length d' = length d \<and> d' ! (n - 1) = x
    \<and> heap_from above 0 n ((!) (d'[hole := x]))
    \<and> mset (take n (d'[hole := x])) = mset (take n (d[i := x]))"
  proof (cases "i \<noteq> 0 \<and> 0 < el_comp e (f ! parent i) x")
    case True
    then have s: "shift_up_loop e f i x = (d', hole)" using assms(7) by simp
    have below: "above x (f ! c)" if c: "0 < c" "c < n" "parent c = i" for c
      using heap_hole_grand [OF hp c] True comp_trans [of x "f ! parent i" "f ! c"] comp_pos_le
      by simp
    have "hole \<le> i \<and> length d' = length f \<and> heap_from above 0 n ((!) (d'[hole := x]))
        \<and> mset (take n (d'[hole := x])) = mset (take n (f[i := x])) \<and> same_outside f d' 0 (Suc i)"
      by (rule shift_up_heap [OF s assms(2) _ hp below]) (use len assms(3) in auto)
    moreover then have "d' ! (n - 1) = x"
      using last len assms(2-4) by (auto simp: same_outside_def)
    ultimately show ?thesis using assms(2,4) len unfolding fx by auto
  next
    case False
    then have s: "shift_down_loop e f n i (2 * i + 1) x = (d', hole)" using assms(7) by auto
    have "hole < n \<and> length d' = length f \<and> heap_from above 0 n ((!) (d'[hole := x]))
        \<and> mset (take n (d'[hole := x])) = mset (take n (f[i := x]))
        \<and> hole \<noteq> n - 1 \<and> d' ! (n - 1) = x \<and> same_outside f d' i n"
      by (rule shift_down_heap [OF s assms(2) _ hp _ assms(4) last])
         (use False len assms(3) in auto)
    then show ?thesis using len unfolding fx by simp
  qed
  have upd: "mset (take n (d[i := x])) = add_mset x (mset (take n d) - {# d ! i #})"
    using assms(2,3) by (simp add: take_update_swap mset_update)
  show ?thesis
    using kept heap_drop_last [of n d' hole x d i] assms(3) upd by simp
qed

text \<open>Removing any item, and the top as the special case of the first cell.\<close>

lemma heap_itor_remove:
  assumes "heap_inv h" and "h_elem h = e" and "i < h_size h"
  shows "heap_inv (xu_heap_itor_remove h i) \<and> h_elem (xu_heap_itor_remove h i) = e
    \<and> heap_items (xu_heap_itor_remove h i) = heap_items h - {# heap_cells h ! i #}"
proof -
  obtain d where d: "h_data h = Some d" "length d = h_maxn h" "h_size h \<le> length d"
    "heap_from (\<lambda>x y. el_comp (h_elem h) x y \<le> 0) 0 (h_size h) ((!) d)"
    "heap_cells h = take (h_size h) d" using assms(1) by (rule heap_invE)
  let ?n = "h_size h" and ?f = "free_cell e d i"
  have hd: "heap_from above 0 ?n ((!) d)" using d(4) assms(2) by simp
  have so: "same_outside d ?f i (Suc i)" by (rule free_cell_outside)
  then have len: "length ?f = length d" by (simp add: same_outside_def)
  have item: "heap_cells h ! i = d ! i" using assms(3) by (simp add: d(5))
  have small: "?n < 2 ^ 30" using assms(1) by (auto simp: heap_inv_def XU_HEAP_MAXN_def)
  show ?thesis
  proof (cases "i = ?n - 1")
    case True
    have n: "Suc (?n - 1) = ?n" using assms(3) by simp
    have eq: "xu_heap_itor_remove h i = h\<lparr>h_data := Some ?f, h_size := ?n - 1\<rparr>"
      using d(1) assms(2,3) True by (simp add: xu_heap_itor_remove_def)
    have tk: "take (?n - 1) ?f = take (?n - 1) d"
      using so True by (simp add: same_outside_take_drop)
    then have "heap_from above 0 (?n - 1) ((!) ?f)"
      using heap_from_shrink [OF hd, of "?n - 1"] heap_order_cong [of d ?f "?n - 1"] len d(3) by simp
    moreover have "take ?n d = take (?n - 1) d @ [d ! i]"
      using take_Suc_conv_app_nth [of "?n - 1" d] n d(3) assms(3) True by simp
    ultimately show ?thesis
      unfolding eq heap_items_def item
      using tk len assms(1,2) d by (simp add: heap_inv_def heap_cells_def)
  next
    case False
    let ?x = "d ! (?n - 1)"
    have fx: "?f ! (?n - 1) = ?x"
      using so False assms(3) d(3) by (simp add: same_outside_def)
    have par: "sz_sub i 1 div 2 = parent i" if "i \<noteq> 0"
      using that small assms(3) sz_sub_small [of 1 i] by (simp add: parent_def)
    obtain d' hole where s: "(if i \<noteq> 0 \<and> 0 < el_comp e (?f ! parent i) ?x
        then shift_up_loop e ?f i ?x else shift_down_loop e ?f ?n i (2 * i + 1) ?x) = (d', hole)"
      by fastforce
    note r = heap_refill [OF hd assms(3) d(3) False so refl s]
    have choice: "(if i \<noteq> 0 \<and> 0 < el_comp e (?f ! (sz_sub i 1 div 2)) ?x
        then xu_heap_shift_up e ?f i ?x else xu_heap_shift_down e ?f ?n i ?x) = (d', hole)"
      using s par unfolding xu_heap_shift_up_def xu_heap_shift_down_def
      by (cases "i = 0") simp_all
    have eq: "xu_heap_itor_remove h i = h\<lparr>h_data := Some (d'[hole := ?x]), h_size := ?n - 1\<rparr>"
      using d(1) assms(2,3) False choice fx r
      by (cases "i = 0"; cases "0 < el_comp e (?f ! (sz_sub i 1 div 2)) ?x")
         (simp_all add: xu_heap_itor_remove_def data_cell Let_def)
    show ?thesis
      unfolding eq heap_items_def item
      using r assms(1,2) d by (simp add: heap_inv_def heap_cells_def)
  qed
qed

lemma heap_pop_remove: "xu_heap_pop h = xu_heap_itor_remove h 0"
  by (auto simp: xu_heap_pop_def xu_heap_itor_remove_def Let_def split: option.split)

lemma heap_top_item:
  assumes "heap_inv h" and "h_elem h = e"
  shows "xu_heap_top h = (if h_size h = 0 then None else Some (heap_cells h ! 0))"
proof -
  obtain d where d: "h_data h = Some d" "heap_cells h = take (h_size h) d"
    using assms(1) by (rule heap_invE)
  then show ?thesis
    using assms(2)
    by (simp add: xu_heap_top_def xu_heap_itor_item_def xu_heap_itor_head_def data_cell)
qed

lemma heap_top_least:
  assumes "heap_inv h" and "h_elem h = e" and "y \<in># heap_items h"
  shows "above (heap_cells h ! 0) y"
proof -
  obtain d where d: "h_size h \<le> length d"
    "heap_from (\<lambda>x y. el_comp (h_elem h) x y \<le> 0) 0 (h_size h) ((!) d)"
    "heap_cells h = take (h_size h) d" using assms(1) by (rule heap_invE)
  obtain i where "i < h_size h" "y = d ! i"
    using assms(3) d by (auto simp: heap_items_def in_set_conv_nth)
  then show ?thesis
    using min.heap_top [of "h_size h" "(!) d" i] d assms(2) by simp
qed

end

section \<open>The priority queue contract\<close>

text \<open>Taking the top and popping, up to \<open>n\<close> times.\<close>

primrec drain :: "('q \<Rightarrow> 'a option) \<Rightarrow> ('q \<Rightarrow> 'q) \<Rightarrow> nat \<Rightarrow> 'q \<Rightarrow> 'a list" where
  "drain peek pop 0 q = []"
| "drain peek pop (Suc n) q =
     (case peek q of None \<Rightarrow> [] | Some x \<Rightarrow> x # drain peek pop n (pop q))"

locale priority_queue =
  fixes items :: "'q \<Rightarrow> 'a multiset"
    and ok :: "'q \<Rightarrow> bool"
    and peek :: "'q \<Rightarrow> 'a option"
    and pop :: "'q \<Rightarrow> 'q"
    and le :: "'a \<Rightarrow> 'a \<Rightarrow> bool"
  assumes top_none: "ok q \<Longrightarrow> peek q = None \<Longrightarrow> items q = {#}"
    and top_in: "ok q \<Longrightarrow> peek q = Some x \<Longrightarrow> x \<in># items q"
    and top_le: "ok q \<Longrightarrow> peek q = Some x \<Longrightarrow> y \<in># items q \<Longrightarrow> le x y"
    and pop_inv: "ok q \<Longrightarrow> peek q = Some x \<Longrightarrow> ok (pop q)"
    and pop_items: "ok q \<Longrightarrow> peek q = Some x \<Longrightarrow> items (pop q) = items q - {#x#}"
begin

lemma drain_sorted:
  "ok q \<Longrightarrow> size (items q) \<le> n \<Longrightarrow>
     mset (drain peek pop n q) = items q \<and> sorted_wrt le (drain peek pop n q)"
proof (induction n arbitrary: q)
  case 0
  then show ?case by simp
next
  case (Suc n)
  show ?case
  proof (cases "peek q")
    case None
    then show ?thesis using Suc.prems top_none by simp
  next
    case (Some x)
    have x: "x \<in># items q" using Suc.prems(1) Some by (rule top_in)
    then have split: "items q = add_mset x (items (pop q))"
      using pop_items [OF Suc.prems(1) Some] by simp
    have "mset (drain peek pop n (pop q)) = items (pop q) \<and> sorted_wrt le (drain peek pop n (pop q))"
      by (rule Suc.IH) (use Suc.prems split pop_inv [OF Suc.prems(1) Some] in auto)
    moreover have "le x y" if "y \<in># items (pop q)" for y
      using top_le [OF Suc.prems(1) Some] that split by simp
    ultimately show ?thesis
      using Some split by (auto simp flip: set_mset_mset)
  qed
qed

end

text \<open>The heap keeps the contract for every lawful element.\<close>

sublocale heap_element \<subseteq> pq: priority_queue heap_items "\<lambda>h. heap_inv h \<and> h_elem h = e"
    xu_heap_top xu_heap_pop above
proof
  fix h x y
  assume h: "heap_inv h \<and> h_elem h = e"
  then have top: "xu_heap_top h = (if h_size h = 0 then None else Some (heap_cells h ! 0))"
    using heap_top_item by simp
  have size: "size (heap_items h) = h_size h" using h heap_size_items by simp
  have len: "length (heap_cells h) = h_size h" using size by (simp add: heap_items_def)
  show "heap_items h = {#}" if "xu_heap_top h = None"
    using that top size by (simp split: if_splits)
  assume x: "xu_heap_top h = Some x"
  then have n: "0 < h_size h" and x0: "x = heap_cells h ! 0" using top by (auto split: if_splits)
  show "x \<in># heap_items h" using n len x0 by (simp add: heap_items_def)
  show "above x y" if "y \<in># heap_items h"
    using heap_top_least [of h y] h that x0 by simp
  show "heap_inv (xu_heap_pop h) \<and> h_elem (xu_heap_pop h) = e"
    and "heap_items (xu_heap_pop h) = heap_items h - {#x#}"
    using heap_itor_remove [of h 0] h n x0 by (simp_all add: heap_pop_remove)
qed

context heap_element
begin

lemma heap_drain:
  "heap_inv h \<Longrightarrow> h_elem h = e \<Longrightarrow>
     mset (drain xu_heap_top xu_heap_pop (h_size h) h) = heap_items h
     \<and> sorted_wrt above (drain xu_heap_top xu_heap_pop (h_size h) h)"
  by (rule pq.drain_sorted) (simp_all add: heap_size_items)

end

interpretation long_heap: heap_element xu_element_long
  by unfold_locales (auto simp: xu_element_long_def intro: element_long_comp.comp_sgn element_long_comp.comp_trans)

interpretation size_heap: heap_element xu_element_size
  by unfold_locales (auto simp: xu_element_size_def intro: element_size_comp.comp_sgn element_size_comp.comp_trans)

section \<open>The properties\<close>


text \<open>C10. Taking the top and popping until the heap is empty returns its items in ascending
  order: the top is always a least item and popping removes that item only.\<close>

theorem xu_heap_drains_in_order:
  assumes "heap_inv h" and "value_element (h_elem h)" and "comparator (el_comp (h_elem h))"
  shows "mset (drain xu_heap_top xu_heap_pop (xu_heap_size h) h) = heap_items h
    \<and> sorted_wrt (\<lambda>x y. el_comp (h_elem h) x y \<le> 0) (drain xu_heap_top xu_heap_pop (xu_heap_size h) h)"
proof -
  note el = heap_element.intro [OF assms(2,3)]
  show ?thesis
    using heap_element.heap_drain [OF el assms(1) refl] by (simp add: xu_heap_size_def)
qed

section \<open>Witnesses\<close>

definition example_heap :: heap where
  "example_heap = \<lparr>h_data = Some [1, 5, 3], h_size = 3, h_maxn = 3, h_grow = 2, h_elem = xu_element_long\<rparr>"

lemma example_heap_inv: "heap_inv example_heap" "h_elem example_heap = xu_element_long"
    "heap_items example_heap = {#1, 3, 5#}" "h_size example_heap = 3"
  by (auto simp: example_heap_def heap_inv_def heap_from_def parent_def XU_HEAP_MAXN_def
      heap_items_def heap_cells_def xu_element_long_def xu_element_long_comp_def less_Suc_eq numeral_3_eq_3)

lemmas example_long = long_element.value_element_axioms long_heap.comparator_axioms

lemma example_heap_room: "heap_room example_ralloc example_heap"
  by (simp add: heap_room_def example_heap_def example_ralloc_def XU_HEAP_MAXN_def xu_align4_def)


theorem xu_heap_drains_in_order_witness:
  "mset (drain xu_heap_top xu_heap_pop 3 example_heap) = {#1, 3, 5#}"
  using xu_heap_drains_in_order [OF example_heap_inv(1)]
  by (simp add: example_heap_inv example_long xu_heap_size_def)

end
