(* ===== verification/XHash.thy ===== *)
theory XHash
  imports XPrelude
begin

text \<open>
  \<^verbatim>\<open>xutil/hash\<close>: the byte hashes, at the width the code keeps its state in. A data pointer
  with its size is an optional list of bytes, none for the null pointer; a C string is the
  list of its bytes before the terminator, and the \<open>_from_cstr\<close> variants hash the
  terminator too. \<open>xu_size_t\<close> is 64 bits wide.
\<close>

unbundle bit_operations_syntax

definition cstr_data :: "u8 list \<Rightarrow> u8 list" where
  "cstr_data cstr = cstr @ [0]"

section \<open>adler32\<close>

definition BASE :: nat where "BASE = 65521"
definition NMAX :: nat where "NMAX = 5552"

text \<open>The two sums: a 32-bit one and one of the size of a pointer.\<close>

definition DO1 :: "u32 \<times> u64 \<Rightarrow> u8 \<Rightarrow> u32 \<times> u64" where
  "DO1 s x = (case s of (adler, sum2) \<Rightarrow>
     let adler = adler + ucast x in (adler, sum2 + ucast adler))"

definition DO16 :: "u8 list \<Rightarrow> u32 \<times> u64 \<Rightarrow> u32 \<times> u64" where
  "DO16 data s = foldl DO1 s (take 16 data)"

text \<open>\<open>n\<close> times 16 unrolled sums.\<close>

primrec adler_do16_times :: "nat \<Rightarrow> u8 list \<Rightarrow> u32 \<times> u64 \<Rightarrow> u32 \<times> u64" where
  "adler_do16_times 0 data s = s"
| "adler_do16_times (Suc n) data s = adler_do16_times n (drop 16 data) (DO16 data s)"

definition adler_mod :: "u32 \<times> u64 \<Rightarrow> u32 \<times> u64" where
  "adler_mod s = (case s of (adler, sum2) \<Rightarrow> (adler mod of_nat BASE, sum2 mod of_nat BASE))"

function adler_blocks :: "u8 list \<Rightarrow> u32 \<times> u64 \<Rightarrow> u8 list \<times> u32 \<times> u64" where
  "adler_blocks data s =
     (if length data \<ge> NMAX then
        adler_blocks (drop NMAX data) (adler_mod (adler_do16_times (NMAX div 16) data s))
      else (data, s))"
  by auto
termination by (relation "measure (\<lambda>(data, s). length data)") (auto simp: NMAX_def)

function adler_tail16 :: "u8 list \<Rightarrow> u32 \<times> u64 \<Rightarrow> u8 list \<times> u32 \<times> u64" where
  "adler_tail16 data s =
     (if length data \<ge> 16 then adler_tail16 (drop 16 data) (DO16 data s) else (data, s))"
  by auto
termination by (relation "measure (\<lambda>(data, s). length data)") auto

declare adler_blocks.simps [simp del] adler_tail16.simps [simp del]

definition adler_combine :: "u32 \<times> u64 \<Rightarrow> u32" where
  "adler_combine s = (case s of (adler, sum2) \<Rightarrow> ucast (ucast adler OR push_bit 16 sum2))"

definition xu_adler32_make :: "u8 list option \<Rightarrow> u32 \<Rightarrow> u32" where
  "xu_adler32_make p seed =
     (case p of
        None \<Rightarrow> 1
      | Some data \<Rightarrow>
          let sum2 = (ucast (drop_bit 16 seed AND 0xffff) :: u64);
              adler = seed AND 0xffff in
          if length data = 1 then
            let adler = adler + ucast (data ! 0);
                adler = (if adler \<ge> of_nat BASE then adler - of_nat BASE else adler);
                sum2 = sum2 + ucast adler;
                sum2 = (if sum2 \<ge> of_nat BASE then sum2 - of_nat BASE else sum2)
            in adler_combine (adler, sum2)
          else if length data < 16 then
            let (adler, sum2) = foldl DO1 (adler, sum2) data;
                adler = (if adler \<ge> of_nat BASE then adler - of_nat BASE else adler)
            in adler_combine (adler, sum2 mod of_nat BASE)
          else
            let (data, s) = adler_blocks data (adler, sum2) in
            if data \<noteq> [] then
              let (data, s) = adler_tail16 data s in
              adler_combine (adler_mod (foldl DO1 s data))
            else adler_combine s)"

definition xu_adler32_make_from_cstr :: "u8 list option \<Rightarrow> u32 \<Rightarrow> u32" where
  "xu_adler32_make_from_cstr p seed =
     (case p of None \<Rightarrow> 0 | Some cstr \<Rightarrow> xu_adler32_make (Some (cstr_data cstr)) seed)"

section \<open>Multiplicative hashes\<close>

text \<open>The functions of this section refuse a null pointer and an empty buffer.\<close>

definition hash_check :: "u8 list option \<Rightarrow> (u8 list \<Rightarrow> 'a::len word) \<Rightarrow> 'a word" where
  "hash_check p f = (case p of None \<Rightarrow> 0 | Some data \<Rightarrow> if data = [] then 0 else f data)"

definition hash_cstr :: "u8 list option \<Rightarrow> (u8 list option \<Rightarrow> 'a::len word) \<Rightarrow> 'a word" where
  "hash_cstr p f = (case p of None \<Rightarrow> 0 | Some cstr \<Rightarrow> f (Some (cstr_data cstr)))"

definition XU_FNV32_PRIME :: u32 where "XU_FNV32_PRIME = 16777619"
definition XU_FNV32_OFFSET_BASIS :: u32 where "XU_FNV32_OFFSET_BASIS = 2166136261"

definition fnv32_init :: "u32 \<Rightarrow> u32" where
  "fnv32_init seed =
     (if seed \<noteq> 0 then (XU_FNV32_OFFSET_BASIS * XU_FNV32_PRIME) XOR seed else XU_FNV32_OFFSET_BASIS)"

definition xu_fnv32_make :: "u8 list option \<Rightarrow> u32 \<Rightarrow> u32" where
  "xu_fnv32_make p seed = hash_check p (\<lambda>data.
     foldl (\<lambda>value x. (value * XU_FNV32_PRIME) XOR ucast x) (fnv32_init seed) data)"

definition xu_fnv32_make_from_cstr :: "u8 list option \<Rightarrow> u32 \<Rightarrow> u32" where
  "xu_fnv32_make_from_cstr p seed = hash_cstr p (\<lambda>q. xu_fnv32_make q seed)"

definition xu_fnv32_1a_make :: "u8 list option \<Rightarrow> u32 \<Rightarrow> u32" where
  "xu_fnv32_1a_make p seed = hash_check p (\<lambda>data.
     foldl (\<lambda>value x. (value XOR ucast x) * XU_FNV32_PRIME) (fnv32_init seed) data)"

definition xu_fnv32_1a_make_from_cstr :: "u8 list option \<Rightarrow> u32 \<Rightarrow> u32" where
  "xu_fnv32_1a_make_from_cstr p seed = hash_cstr p (\<lambda>q. xu_fnv32_1a_make q seed)"

definition XU_FNV64_PRIME :: u64 where "XU_FNV64_PRIME = 1099511628211"
definition XU_FNV64_OFFSET_BASIS :: u64 where "XU_FNV64_OFFSET_BASIS = 14695981039346656037"

definition fnv64_init :: "u64 \<Rightarrow> u64" where
  "fnv64_init seed =
     (if seed \<noteq> 0 then (XU_FNV64_OFFSET_BASIS * XU_FNV64_PRIME) XOR seed else XU_FNV64_OFFSET_BASIS)"

definition xu_fnv64_make :: "u8 list option \<Rightarrow> u64 \<Rightarrow> u64" where
  "xu_fnv64_make p seed = hash_check p (\<lambda>data.
     foldl (\<lambda>value x. (value * XU_FNV64_PRIME) XOR ucast x) (fnv64_init seed) data)"

definition xu_fnv64_make_from_cstr :: "u8 list option \<Rightarrow> u64 \<Rightarrow> u64" where
  "xu_fnv64_make_from_cstr p seed = hash_cstr p (\<lambda>q. xu_fnv64_make q seed)"

definition xu_fnv64_1a_make :: "u8 list option \<Rightarrow> u64 \<Rightarrow> u64" where
  "xu_fnv64_1a_make p seed = hash_check p (\<lambda>data.
     foldl (\<lambda>value x. (value XOR ucast x) * XU_FNV64_PRIME) (fnv64_init seed) data)"

definition xu_fnv64_1a_make_from_cstr :: "u8 list option \<Rightarrow> u64 \<Rightarrow> u64" where
  "xu_fnv64_1a_make_from_cstr p seed = hash_cstr p (\<lambda>q. xu_fnv64_1a_make q seed)"

definition xu_djb2_make :: "u8 list option \<Rightarrow> u64 \<Rightarrow> u64" where
  "xu_djb2_make p seed = hash_check p (\<lambda>data.
     let value = (if seed \<noteq> 0 then 5381 * 33 + seed else 5381) in
     foldl (\<lambda>value x. value * 33 + ucast x) value data)"

definition xu_djb2_make_from_cstr :: "u8 list option \<Rightarrow> u64 \<Rightarrow> u64" where
  "xu_djb2_make_from_cstr p seed = hash_cstr p (\<lambda>q. xu_djb2_make q seed)"

definition xu_bkdr_make :: "u8 list option \<Rightarrow> u64 \<Rightarrow> u64" where
  "xu_bkdr_make p seed = hash_check p (\<lambda>data.
     let value = (if seed \<noteq> 0 then 0 * 131313 + seed else 0) in
     foldl (\<lambda>value x. value * 131313 + ucast x) value data)"

definition xu_bkdr_make_from_cstr :: "u8 list option \<Rightarrow> u64 \<Rightarrow> u64" where
  "xu_bkdr_make_from_cstr p seed = hash_cstr p (\<lambda>q. xu_bkdr_make q seed)"

definition xu_sdbm_make :: "u8 list option \<Rightarrow> u64 \<Rightarrow> u64" where
  "xu_sdbm_make p seed = hash_check p (\<lambda>data.
     foldl (\<lambda>value x. ucast x + push_bit 6 value + push_bit 16 value - value) seed data)"

definition xu_sdbm_make_from_cstr :: "u8 list option \<Rightarrow> u64 \<Rightarrow> u64" where
  "xu_sdbm_make_from_cstr p seed = hash_cstr p (\<lambda>q. xu_sdbm_make q seed)"

text \<open>The even and the odd positions are mixed in different ways.\<close>

fun ap_loop :: "nat \<Rightarrow> u8 list \<Rightarrow> u64 \<Rightarrow> u64" where
  "ap_loop i [] v = v"
| "ap_loop i (x # p) v =
     ap_loop (i + 1) p
       (v XOR (if i mod 2 = 0 then push_bit 7 v XOR (ucast x * drop_bit 3 v)
               else NOT ((push_bit 11 v + ucast x) XOR drop_bit 5 v)))"

definition xu_ap_make :: "u8 list option \<Rightarrow> u64 \<Rightarrow> u64" where
  "xu_ap_make p seed = hash_check p (\<lambda>data.
     ap_loop 0 data (if seed \<noteq> 0 then 0xAAAAAAAA XOR seed else 0xAAAAAAAA))"

definition xu_ap_make_from_cstr :: "u8 list option \<Rightarrow> u64 \<Rightarrow> u64" where
  "xu_ap_make_from_cstr p seed = hash_cstr p (\<lambda>q. xu_ap_make q seed)"

definition xu_rs_make :: "u8 list option \<Rightarrow> u64 \<Rightarrow> u64" where
  "xu_rs_make p seed = hash_check p (\<lambda>data.
     fst (foldl (\<lambda>(value, a) x. (value * a + ucast x, a * 378551)) (seed, 63689) data))"

definition xu_rs_make_from_cstr :: "u8 list option \<Rightarrow> u64 \<Rightarrow> u64" where
  "xu_rs_make_from_cstr p seed = hash_cstr p (\<lambda>q. xu_rs_make q seed)"

definition murmur_step :: "u64 \<Rightarrow> u8 \<Rightarrow> u64" where
  "murmur_step value x =
     (let value = value XOR ucast x; value = value * 0x5bd1e995 in value XOR drop_bit 15 value)"

definition xu_murmur_make :: "u8 list option \<Rightarrow> u64 \<Rightarrow> u64" where
  "xu_murmur_make p seed = hash_check p (foldl murmur_step seed)"

definition xu_murmur_make_from_cstr :: "u8 list option \<Rightarrow> u64 \<Rightarrow> u64" where
  "xu_murmur_make_from_cstr p seed = hash_cstr p (\<lambda>q. xu_murmur_make q seed)"

text \<open>The function returns after its first loop: the table of the Blizzard hash below it is
  never made.\<close>

definition xu_blizzard_make :: "u8 list option \<Rightarrow> u64 \<Rightarrow> u64" where
  "xu_blizzard_make p seed = hash_check p (\<lambda>data.
     foldl (\<lambda>value x. ucast x + push_bit 6 value + push_bit 16 value - value) seed data)"

definition xu_blizzard_make_from_cstr :: "u8 list option \<Rightarrow> u64 \<Rightarrow> u64" where
  "xu_blizzard_make_from_cstr p seed = hash_cstr p (\<lambda>q. xu_blizzard_make q seed)"

end
