(* ===== verification/XHashCorrect.thy ===== *)
theory XHashCorrect
  imports XHash
begin

text \<open>
  adler32 against its definition with a reduction after every byte; chaining and injectivity
  in the seed of the multiplicative hashes.
\<close>

section \<open>adler32\<close>

text \<open>The definition: both sums modulo \<open>BASE\<close> after every byte.\<close>

definition adler_step :: "nat \<times> nat \<Rightarrow> u8 \<Rightarrow> nat \<times> nat" where
  "adler_step s x = (let a = (fst s + unat x) mod BASE in (a, (snd s + a) mod BASE))"

definition adler_ref :: "nat \<times> nat \<Rightarrow> u8 list \<Rightarrow> nat \<times> nat" where
  "adler_ref s xs = foldl adler_step s xs"

definition adler_word :: "nat \<times> nat \<Rightarrow> u32" where
  "adler_word s = of_nat (fst s + snd s * 65536)"

definition adler_seed :: "u32 \<Rightarrow> nat \<times> nat" where
  "adler_seed w = (unat w mod 65536, unat w div 65536)"

text \<open>The machine sums carry the sums of the definition while they do not overflow.\<close>

definition carries :: "u32 \<times> u64 \<Rightarrow> nat \<times> nat \<Rightarrow> bool" where
  "carries s t \<longleftrightarrow> unat (fst s) mod BASE = fst t mod BASE \<and> unat (snd s) mod BASE = snd t mod BASE"

definition below :: "u32 \<times> u64 \<Rightarrow> nat \<Rightarrow> bool" where
  "below s k \<longleftrightarrow> unat (fst s) < BASE + k * 255 \<and> unat (snd s) < BASE + k * (BASE + k * 255)"

lemma unat_u8 [simp]: "unat (ucast (x :: u8) :: u32) = unat x" "unat (ucast (w :: u32) :: u64) = unat w"
  by (simp_all add: unsigned_ucast_eq take_bit_nat_eq_self unsigned_less
      order_less_le_trans [OF unsigned_less [of x]] order_less_le_trans [OF unsigned_less [of w]])

lemma u8_le: "unat (x :: u8) \<le> 255"
  using unsigned_less [of x, where 'a = nat] by simp

lemma DO1_step:
  assumes "carries s t" and "below s k" and "k < NMAX"
  shows "carries (DO1 s x) (adler_step t x)" and "below (DO1 s x) (Suc k)"
proof -
  obtain a b where s: "s = (a, b)" by (cases s)
  have k: "k \<le> 5551" using assms(3) by (simp add: NMAX_def)
  have ka: "k * 255 \<le> 5551 * 255" using k by simp
  have a: "unat a < 65521 + k * 255" using assms(2) by (simp add: s below_def BASE_def)
  have b: "unat b < 65521 + k * (65521 + k * 255)" using assms(2) by (simp add: s below_def BASE_def)
  have kb: "k * (65521 + k * 255) \<le> 5551 * (65521 + 5551 * 255)"
    by (rule mult_le_mono) (use k in simp_all)
  have ua: "unat (a + ucast x) = unat a + unat x"
    using a ka u8_le [of x] by (simp add: unat_word_ariths)
  have ub: "unat (b + ucast (a + ucast x)) = unat b + (unat a + unat x)"
    using a b ka kb u8_le [of x] ua by (subst unat_word_ariths) simp
  have D: "DO1 s x = (a + ucast x, b + ucast (a + ucast x))"
    by (simp add: s DO1_def Let_def)
  have c: "unat a mod BASE = fst t mod BASE" "unat b mod BASE = snd t mod BASE"
    using assms(1) by (simp_all add: s carries_def)
  have m1: "(unat a + unat x) mod BASE = (fst t + unat x) mod BASE"
    using c(1) by (metis mod_add_left_eq)
  have "(unat b + (unat a + unat x)) mod BASE = (snd t + (fst t + unat x) mod BASE) mod BASE"
    using c(2) m1 by (metis mod_add_eq mod_mod_trivial)
  then show "carries (DO1 s x) (adler_step t x)"
    using m1 by (simp add: D carries_def ua ub adler_step_def Let_def)
  have "unat b + (unat a + unat x) < 65521 + Suc k * (65521 + Suc k * 255)"
  proof -
    have "k * (65521 + k * 255) + (65521 + Suc k * 255) \<le> Suc k * (65521 + Suc k * 255)"
      by (simp add: algebra_simps)
    moreover have "unat b + (unat a + unat x)
        < 65521 + (k * (65521 + k * 255) + (65521 + Suc k * 255))"
      using a b u8_le [of x] by simp
    ultimately show ?thesis by linarith
  qed
  then show "below (DO1 s x) (Suc k)"
    using a u8_le [of x] by (simp add: D below_def ua ub BASE_def)
qed

lemma DO1_fold:
  "carries s t \<Longrightarrow> below s k \<Longrightarrow> k + length xs \<le> NMAX \<Longrightarrow>
     carries (foldl DO1 s xs) (adler_ref t xs) \<and> below (foldl DO1 s xs) (k + length xs)"
proof (induction xs arbitrary: s t k)
  case Nil
  then show ?case by (simp add: adler_ref_def)
next
  case (Cons x xs)
  have "k < NMAX" using Cons.prems(3) by simp
  note step = DO1_step [OF Cons.prems(1,2) this, of x]
  show ?case
    using Cons.IH [OF step] Cons.prems(3) by (simp add: adler_ref_def)
qed

lemma adler_mod_carries:
  assumes "carries s t"
  shows "carries (adler_mod s) t" and "below (adler_mod s) 0"
    and "fst t < BASE \<Longrightarrow> snd t < BASE \<Longrightarrow> unat (fst (adler_mod s)) = fst t \<and> unat (snd (adler_mod s)) = snd t"
proof -
  obtain a b where s: "s = (a, b)" by (cases s)
  have m: "unat (a mod 65521) = unat a mod 65521" "unat (b mod 65521) = unat b mod 65521"
    by (simp_all add: unat_mod)
  show "carries (adler_mod s) t" and "below (adler_mod s) 0"
    using assms m by (simp_all add: s adler_mod_def carries_def below_def BASE_def)
  show "unat (fst (adler_mod s)) = fst t \<and> unat (snd (adler_mod s)) = snd t"
    if "fst t < BASE" "snd t < BASE"
    using assms m that by (simp add: s adler_mod_def carries_def BASE_def)
qed

lemma adler_ref_range: "fst t < BASE \<Longrightarrow> snd t < BASE \<Longrightarrow> fst (adler_ref t xs) < BASE \<and> snd (adler_ref t xs) < BASE"
  by (induction xs arbitrary: t) (simp_all add: adler_ref_def adler_step_def Let_def BASE_def)

lemma adler_ref_append: "adler_ref t (xs @ ys) = adler_ref (adler_ref t xs) ys"
  by (simp add: adler_ref_def)

text \<open>The unrolled loops are folds.\<close>

lemma do16_times_fold: "16 * n \<le> length xs \<Longrightarrow> adler_do16_times n xs s = foldl DO1 s (take (16 * n) xs)"
proof (induction n arbitrary: xs s)
  case (Suc n)
  have "take (16 * Suc n) xs = take 16 xs @ take (16 * n) (drop 16 xs)"
    by (simp add: take_add)
  then show ?case using Suc by (simp add: DO16_def)
qed simp

lemma tail16_fold: "adler_tail16 xs s = (xs', s') \<Longrightarrow> foldl DO1 s' xs' = foldl DO1 s xs"
proof (induction xs s arbitrary: xs' s' rule: adler_tail16.induct)
  case (1 xs s)
  show ?case
  proof (cases "length xs \<ge> 16")
    case True
    then have "foldl DO1 s' xs' = foldl DO1 (DO16 xs s) (drop 16 xs)"
      using 1 by (simp add: adler_tail16.simps [of xs])
    also have "\<dots> = foldl DO1 s (take 16 xs @ drop 16 xs)"
      by (simp only: DO16_def foldl_append)
    finally show ?thesis by simp
  next
    case False
    then show ?thesis using "1.prems" by (simp add: adler_tail16.simps [of xs])
  qed
qed

lemma adler_blocks_carries:
  assumes "carries s t" and "below s 0" and "adler_blocks xs s = (xs', s')"
  shows "\<exists>ys. xs = ys @ xs' \<and> length xs' < NMAX \<and> below s' 0 \<and> carries s' (adler_ref t ys)
    \<and> (ys = [] \<longrightarrow> s' = s) \<and> (ys \<noteq> [] \<longrightarrow> (\<exists>u. carries u (adler_ref t ys) \<and> s' = adler_mod u))"
  using assms
proof (induction xs s arbitrary: t xs' s' rule: adler_blocks.induct)
  case (1 xs s)
  show ?case
  proof (cases "length xs \<ge> NMAX")
    case True
    let ?u = "adler_do16_times (NMAX div 16) xs s"
    have u: "?u = foldl DO1 s (take NMAX xs)"
      using do16_times_fold [of "NMAX div 16" xs s] True by (simp add: NMAX_def)
    have cu: "carries ?u (adler_ref t (take NMAX xs))"
      unfolding u using DO1_fold [OF "1.prems"(1,2), of "take NMAX xs"] by simp
    note m = adler_mod_carries [OF cu]
    have rec: "adler_blocks (drop NMAX xs) (adler_mod ?u) = (xs', s')"
      using "1.prems"(3) True by (simp add: adler_blocks.simps [of xs])
    obtain ys where ys: "drop NMAX xs = ys @ xs'" "length xs' < NMAX" "below s' 0"
      "carries s' (adler_ref (adler_ref t (take NMAX xs)) ys)" "ys = [] \<longrightarrow> s' = adler_mod ?u"
      "ys \<noteq> [] \<longrightarrow> (\<exists>u. carries u (adler_ref (adler_ref t (take NMAX xs)) ys) \<and> s' = adler_mod u)"
      using "1.IH" [OF True m(1,2) rec] by blast
    have "xs = (take NMAX xs @ ys) @ xs'"
      using ys(1) by (metis append_assoc append_take_drop_id)
    moreover have "\<exists>u. carries u (adler_ref t (take NMAX xs @ ys)) \<and> s' = adler_mod u"
    proof (cases "ys = []")
      case True
      then show ?thesis using ys(5) cu by (intro exI [of _ ?u]) simp
    next
      case False
      then show ?thesis using ys(6) by (simp add: adler_ref_append)
    qed
    moreover have "take NMAX xs \<noteq> []" using True by (auto simp: NMAX_def)
    ultimately show ?thesis
      using ys(2-4) by (intro exI [of _ "take NMAX xs @ ys"]) (simp add: adler_ref_append)
  next
    case False
    then have "xs' = xs" "s' = s" using "1.prems"(3) by (simp_all add: adler_blocks.simps [of xs])
    then show ?thesis using False "1.prems" by (intro exI [of _ "[]"]) (simp add: adler_ref_def)
  qed
qed

lemma adler_combine_word:
  assumes "unat a < BASE" and "unat b < BASE"
  shows "adler_combine (a, b) = adler_word (unat a, unat b)"
proof -
  have a: "\<not> bit a n" if "16 \<le> n" for n
  proof -
    have "take_bit 16 (unat a) = unat a"
      using assms(1) by (simp add: BASE_def take_bit_nat_eq_self)
    then have "\<not> bit (unat a) n" using that bit_take_bit_iff [of 16 "unat a" n] by simp
    then show ?thesis by (simp add: bit_unsigned_iff)
  qed
  have "(ucast a OR push_bit 16 b :: u64) = ucast a + push_bit 16 b"
    by (rule disjunctive_add_eq_or [symmetric])
       (rule bit_eqI, use a in \<open>auto simp: bit_simps\<close>)
  then have "adler_combine (a, b) = ucast (ucast a + push_bit 16 b)"
    by (simp add: adler_combine_def)
  also have "\<dots> = word_of_nat (unat (ucast a + push_bit 16 b :: u64))"
    by simp
  also have "unat (ucast a + push_bit 16 b :: u64) = unat a + unat b * 65536"
    using assms by (simp add: unat_word_ariths BASE_def push_bit_eq_mult)
  finally show ?thesis by (simp add: adler_word_def)
qed

lemma adler_cond_sub32:
  "unat (w :: u32) < 2 * BASE \<Longrightarrow> unat (if w \<ge> of_nat BASE then w - of_nat BASE else w) = unat w mod BASE"
  by (auto simp: BASE_def unat_sub_if_size word_le_nat_alt mod_if)

lemma adler_cond_sub64:
  "unat (w :: u64) < 2 * BASE \<Longrightarrow> unat (if w \<ge> of_nat BASE then w - of_nat BASE else w) = unat w mod BASE"
  by (auto simp: BASE_def unat_sub_if_size word_le_nat_alt mod_if)

lemma adler32_small_sum:
  assumes "carries s t" and "below s k" and "fst t < BASE" and "snd t < BASE" and "k * 255 < BASE"
  shows "adler_combine ((if fst s \<ge> of_nat BASE then fst s - of_nat BASE else fst s), snd s mod of_nat BASE)
    = adler_word t"
proof -
  let ?a = "if fst s \<ge> of_nat BASE then fst s - of_nat BASE else fst s"
  have a: "unat ?a = unat (fst s) mod BASE"
    by (rule adler_cond_sub32) (use assms(2,5) in \<open>simp add: below_def BASE_def\<close>)
  have b: "unat (snd s mod of_nat BASE) = unat (snd s) mod BASE"
    by (simp add: BASE_def unat_mod)
  have "unat ?a = fst t" "unat (snd s mod of_nat BASE) = snd t"
    using a b assms(1,3,4) by (simp_all add: carries_def)
  then show ?thesis
    using adler_combine_word [of ?a "snd s mod of_nat BASE"] assms(3,4) by simp
qed

lemma adler_one:
  fixes a0 :: u32 and b0 :: u64
  assumes "unat a0 < BASE" and "unat b0 < BASE"
  shows "(let a = a0 + ucast x; a = (if a \<ge> of_nat BASE then a - of_nat BASE else a);
              b = b0 + ucast a; b = (if b \<ge> of_nat BASE then b - of_nat BASE else b)
          in adler_combine (a, b)) = adler_word (adler_step (unat a0, unat b0) x)"
proof -
  define a where "a = a0 + ucast x"
  define a' where "a' = (if a \<ge> of_nat BASE then a - of_nat BASE else a)"
  define b where "b = b0 + ucast a'"
  define b' where "b' = (if b \<ge> of_nat BASE then b - of_nat BASE else b)"
  have lt: "unat a0 < 65521" "unat b0 < 65521" using assms by (simp_all add: BASE_def)
  have a: "unat a = unat a0 + unat x"
    using lt u8_le [of x] by (simp add: a_def unat_word_ariths)
  have a': "unat a' = (unat a0 + unat x) mod BASE"
    unfolding a'_def a [symmetric] by (rule adler_cond_sub32) (use a lt u8_le [of x] in \<open>simp add: BASE_def\<close>)
  then have "unat a' < 65521" by (simp add: BASE_def)
  then have b: "unat b = unat b0 + unat a'"
    using lt by (simp add: b_def unat_word_ariths)
  have b': "unat b' = (unat b0 + unat a') mod BASE"
    unfolding b'_def b [symmetric]
    by (rule adler_cond_sub64) (use b lt \<open>unat a' < 65521\<close> in \<open>simp add: BASE_def\<close>)
  have "adler_combine (a', b') = adler_word (unat a', unat b')"
    by (rule adler_combine_word) (simp_all only: a' b', simp_all add: BASE_def)
  then have "adler_combine (a', b') = adler_word (adler_step (unat a0, unat b0) x)"
    by (simp add: b' a' adler_step_def Let_def)
  then show ?thesis
    unfolding Let_def b'_def b_def a'_def a_def .
qed

lemma adler_start:
  fixes seed :: u32
  defines "s \<equiv> (seed AND 0xffff, ucast (drop_bit 16 seed AND 0xffff))"
  assumes "fst (adler_seed seed) < BASE" and "snd (adler_seed seed) < BASE"
  shows "carries s (adler_seed seed)" and "below s 0"
    and "unat (fst s) = fst (adler_seed seed)" and "unat (snd s) = snd (adler_seed seed)"
proof -
  have m: "(0xffff :: u32) = mask 16" by (simp add: mask_eq_exp_minus_1)
  have a: "unat (seed AND 0xffff) = unat seed mod 65536"
    by (simp add: m flip: take_bit_eq_mask)
       (simp add: unsigned_take_bit_eq take_bit_nat_def)
  have "unat seed < 2 ^ 32" using unsigned_less [of seed, where 'a = nat] by simp
  then have d: "unat seed div 65536 < 65536" by (simp add: less_mult_imp_div_less)
  have "unat (drop_bit 16 seed AND 0xffff) = unat seed div 65536"
    using d by (simp add: m flip: take_bit_eq_mask)
       (simp add: unsigned_take_bit_eq unsigned_drop_bit_eq take_bit_nat_def drop_bit_nat_def)
  then show u: "unat (fst s) = fst (adler_seed seed)" "unat (snd s) = snd (adler_seed seed)"
    using a by (simp_all add: s_def adler_seed_def)
  show "carries s (adler_seed seed)" "below s 0"
    unfolding carries_def below_def u using assms(2,3) by simp_all
qed

lemma adler32_equals_ref:
  assumes "fst (adler_seed seed) < BASE" and "snd (adler_seed seed) < BASE"
  shows "xu_adler32_make (Some xs) seed = adler_word (adler_ref (adler_seed seed) xs)"
proof -
  let ?t = "adler_seed seed" and ?s = "(seed AND 0xffff, ucast (drop_bit 16 seed AND 0xffff) :: u64)"
  note st = adler_start [OF assms]
  note r = adler_ref_range [OF assms, of xs]
  consider "length xs = 1" | "length xs \<noteq> 1" "length xs < 16" | "16 \<le> length xs" by linarith
  then show ?thesis
  proof cases
    case 1
    then obtain x where x: "xs = [x]" by (auto simp: length_Suc_conv)
    have "adler_step (unat (fst ?s), unat (snd ?s)) x = adler_step ?t x"
      using st(3,4) by simp
    then show ?thesis
      using adler_one [of "fst ?s" "snd ?s" x] st(3,4) assms
      by (simp add: x xu_adler32_make_def adler_ref_def Let_def del: unsigned_and_eq)
  next
    case 2
    have f: "carries (foldl DO1 ?s xs) (adler_ref ?t xs)" "below (foldl DO1 ?s xs) (length xs)"
      using DO1_fold [OF st(1,2), of xs] 2 by (simp_all add: NMAX_def)
    have "length xs * 255 < BASE" using 2 by (simp add: BASE_def)
    from adler32_small_sum [OF f _ _ this] show ?thesis
      using 2 r by (simp add: xu_adler32_make_def Let_def case_prod_beta)
  next
    case 3
    obtain ys s' where b: "adler_blocks xs ?s = (ys, s')"
      by (cases "adler_blocks xs ?s") blast
    obtain zs where z: "xs = zs @ ys" "length ys < NMAX" "below s' 0" "carries s' (adler_ref ?t zs)"
      "zs = [] \<longrightarrow> s' = ?s" "zs \<noteq> [] \<longrightarrow> (\<exists>u. carries u (adler_ref ?t zs) \<and> s' = adler_mod u)"
      using adler_blocks_carries [OF st(1,2) b] by blast
    note rz = adler_ref_range [OF assms, of zs]
    show ?thesis
    proof (cases "ys = []")
      case True
      then obtain u where u: "carries u (adler_ref ?t zs)" "s' = adler_mod u"
        using z 3 by auto
      have "unat (fst s') = fst (adler_ref ?t zs)" "unat (snd s') = snd (adler_ref ?t zs)"
        using adler_mod_carries(3) [OF u(1)] rz u(2) by auto
      then show ?thesis
        using 3 b True z(1) rz adler_combine_word [of "fst s'" "snd s'"]
        by (simp add: xu_adler32_make_def Let_def)
    next
      case False
      obtain ws w where w: "adler_tail16 ys s' = (ws, w)"
        by (cases "adler_tail16 ys s'") blast
      let ?f = "foldl DO1 s' ys"
      have eq: "foldl DO1 w ws = ?f" by (rule tail16_fold [OF w])
      have "carries ?f (adler_ref (adler_ref ?t zs) ys)"
        using DO1_fold [OF z(4,3), of ys] z(2) by simp
      then have c: "carries ?f (adler_ref ?t xs)" by (simp add: z(1) adler_ref_append)
      have "unat (fst (adler_mod ?f)) = fst (adler_ref ?t xs)"
        "unat (snd (adler_mod ?f)) = snd (adler_ref ?t xs)"
        using adler_mod_carries(3) [OF c] r by auto
      then show ?thesis
        using 3 b False w eq r adler_combine_word [of "fst (adler_mod ?f)" "snd (adler_mod ?f)"]
        by (simp add: xu_adler32_make_def Let_def)
    qed
  qed
qed

section \<open>Injectivity of the rounds\<close>

text \<open>A multiplier with an inverse, an XOR with a constant and an XOR with the own upper bits
  lose nothing of the state.\<close>

lemma mult_inverse_inj: "k * j = (1 :: 'a::len word) \<Longrightarrow> x * k = y * k \<Longrightarrow> x = y"
  by (metis mult.assoc mult.right_neutral)

lemma xor_right_inj: "(x :: 'a::len word) XOR k = y XOR k \<Longrightarrow> x = y"
  by (metis xor.assoc xor_self_eq xor.right_neutral)

lemma xor_shift_inj:
  assumes "0 < n" and "(x :: 'a::len word) XOR drop_bit n x = y XOR drop_bit n y"
  shows "x = y"
proof (rule bit_word_eqI)
  fix i assume "i < LENGTH('a)"
  then show "bit x i = bit y i"
  proof (induction "LENGTH('a) - i" arbitrary: i rule: less_induct)
    case less
    have eq: "(bit x i \<noteq> bit x (n + i)) = (bit y i \<noteq> bit y (n + i))"
      using arg_cong [OF assms(2), of "\<lambda>w. bit w i"] by (simp add: bit_simps)
    have "bit x (n + i) = bit y (n + i)"
    proof (cases "n + i < LENGTH('a)")
      case True
      then show ?thesis using less.hyps [of "n + i"] less.prems assms(1) by simp
    next
      case False
      then show ?thesis using bit_imp_le_length [of x "n + i"] bit_imp_le_length [of y "n + i"] by auto
    qed
    then show ?case using eq by auto
  qed
qed

lemma fold_inj:
  assumes "\<And>s t x. f s x = f t x \<Longrightarrow> s = t" and "foldl f s xs = foldl f t xs"
  shows "s = t"
  using assms(2)
proof (induction xs arbitrary: s t)
  case (Cons x xs)
  then show ?case using assms(1) by (metis foldl_Cons)
qed simp

lemma sdbm_round: "ucast x + push_bit 6 s + push_bit 16 s - s = s * 65599 + (ucast (x :: u8) :: u64)"
  by (simp add: push_bit_eq_mult algebra_simps)

lemma sdbm_inj: "s * 65599 + c = t * 65599 + c \<Longrightarrow> s = (t :: u64)"
  using mult_inverse_inj [of "65599 :: u64" "0xdf24161e8e7aefbf" s t] by simp

lemma bkdr_inj: "s * 131313 + c = t * 131313 + c \<Longrightarrow> s = (t :: u64)"
  using mult_inverse_inj [of "131313 :: u64" "0xd81dc5fc4ebcf011" s t] by simp

lemma murmur_inj: "murmur_step s x = murmur_step t x \<Longrightarrow> s = t"
proof -
  assume h: "murmur_step s x = murmur_step t x"
  have "(s XOR ucast x) * 0x5bd1e995 = (t XOR ucast x) * 0x5bd1e995"
    by (rule xor_shift_inj [of 15]) (use h in \<open>simp_all add: murmur_step_def Let_def\<close>)
  moreover have "(0x5bd1e995 :: u64) * 0x39c9eb52e59b19bd = 1" by simp
  ultimately have "s XOR ucast x = t XOR ucast x" by (metis mult_inverse_inj)
  then show "s = t" by (rule xor_right_inj)
qed

lemma fnv32_inj: "(s XOR c) * XU_FNV32_PRIME = (t XOR c) * XU_FNV32_PRIME \<Longrightarrow> s = t"
  using mult_inverse_inj [of XU_FNV32_PRIME "0x359c449b" "s XOR c" "t XOR c"] xor_right_inj
  by (simp add: XU_FNV32_PRIME_def)

lemma fnv64_inj: "(s XOR c) * XU_FNV64_PRIME = (t XOR c) * XU_FNV64_PRIME \<Longrightarrow> s = t"
  using mult_inverse_inj [of XU_FNV64_PRIME "0xce965057aff6957b" "s XOR c" "t XOR c"] xor_right_inj
  by (simp add: XU_FNV64_PRIME_def)

section \<open>The properties\<close>

text \<open>C11. adler32 equals its definition with a reduction after each byte, for every length and
  so through the short, the blocked and the unrolled paths: the deferred reductions never
  overflow. Its input can be split anywhere, the checksum of the first part being the seed of
  the second.\<close>

theorem xu_adler32_correct:
  assumes "fst (adler_seed seed) < BASE" and "snd (adler_seed seed) < BASE"
  shows "xu_adler32_make (Some xs) seed = adler_word (adler_ref (adler_seed seed) xs)
    \<and> xu_adler32_make (Some (xs @ ys)) seed = xu_adler32_make (Some ys) (xu_adler32_make (Some xs) seed)"
proof -
  let ?r = "adler_ref (adler_seed seed) xs"
  have r: "fst ?r < 65521" "snd ?r < 65521"
    using adler_ref_range [OF assms, of xs] by (simp_all add: BASE_def)
  then have "unat (adler_word ?r) = fst ?r + snd ?r * 65536"
    by (simp add: adler_word_def unat_of_nat del: of_nat_add of_nat_mult)
  then have "adler_seed (adler_word ?r) = ?r"
    using r by (simp add: adler_seed_def prod_eq_iff)
  then show ?thesis
    using adler32_equals_ref [OF assms] adler32_equals_ref [of "adler_word ?r" ys] r
    by (simp add: adler_ref_append BASE_def)
qed

theorem xu_adler32_correct_witness:
  "xu_adler32_make (Some ([0x61, 0x62] @ [0x63])) 1
     = xu_adler32_make (Some [0x63]) (xu_adler32_make (Some [0x61, 0x62]) 1)"
  using xu_adler32_correct [of 1 "[0x61, 0x62]" "[0x63]"] by (simp add: adler_seed_def BASE_def)

text \<open>The seeded hashes lose nothing of their seed: on the same bytes two different seeds
  never give the same bkdr, sdbm or murmur hash, nor, when both are not zero, the same fnv-1a
  hash of 32 or 64 bits.\<close>

theorem xu_seeded_hashes_injective:
  assumes "data \<noteq> []"
  shows "(xu_bkdr_make (Some data) s = xu_bkdr_make (Some data) t \<longrightarrow> s = t)
    \<and> (xu_sdbm_make (Some data) s = xu_sdbm_make (Some data) t \<longrightarrow> s = t)
    \<and> (xu_murmur_make (Some data) s = xu_murmur_make (Some data) t \<longrightarrow> s = t)
    \<and> (a \<noteq> 0 \<and> b \<noteq> 0 \<and> xu_fnv32_1a_make (Some data) a = xu_fnv32_1a_make (Some data) b \<longrightarrow> a = b)
    \<and> (s \<noteq> 0 \<and> t \<noteq> 0 \<and> xu_fnv64_1a_make (Some data) s = xu_fnv64_1a_make (Some data) t \<longrightarrow> s = t)"
proof (intro conjI impI)
  show "s = t" if eq: "xu_bkdr_make (Some data) s = xu_bkdr_make (Some data) t"
  proof (rule fold_inj [of "\<lambda>(v :: u64) x. v * 131313 + ucast x" s data t])
    show "u = v" if "(\<lambda>(v :: u64) x. v * 131313 + ucast x) u x = (\<lambda>v x. v * 131313 + ucast x) v x" for u v x
      using that bkdr_inj [of u 0 v] by simp
    show "foldl (\<lambda>v x. v * 131313 + ucast x) s data = foldl (\<lambda>v x. v * 131313 + ucast x) t data"
      using eq assms by (auto simp: xu_bkdr_make_def hash_check_def Let_def split: if_splits)
  qed
  show "s = t" if eq: "xu_sdbm_make (Some data) s = xu_sdbm_make (Some data) t"
  proof (rule fold_inj [of "\<lambda>(v :: u64) x. v * 65599 + ucast x" s data t])
    show "u = v" if "(\<lambda>(v :: u64) x. v * 65599 + ucast x) u x = (\<lambda>v x. v * 65599 + ucast x) v x" for u v x
      using that sdbm_inj [of u 0 v] by simp
    show "foldl (\<lambda>v x. v * 65599 + ucast x) s data = foldl (\<lambda>v x. v * 65599 + ucast x) t data"
      using eq assms by (simp add: xu_sdbm_make_def hash_check_def sdbm_round)
  qed
  show "s = t" if eq: "xu_murmur_make (Some data) s = xu_murmur_make (Some data) t"
  proof (rule fold_inj [of "murmur_step" s data t])
    show "u = v" if "(murmur_step) u x = (murmur_step) v x" for u v x
      using that by (rule murmur_inj)
    show "foldl (murmur_step) s data = foldl (murmur_step) t data"
      using eq assms by (simp add: xu_murmur_make_def hash_check_def)
  qed
  show "a = b" if h: "a \<noteq> 0 \<and> b \<noteq> 0 \<and> xu_fnv32_1a_make (Some data) a = xu_fnv32_1a_make (Some data) b"
  proof -
    have "fnv32_init a = fnv32_init b"
      by (rule fold_inj [of "\<lambda>v x. (v XOR ucast x) * XU_FNV32_PRIME" _ data])
         (rule fnv32_inj, assumption, use h assms in \<open>simp add: xu_fnv32_1a_make_def hash_check_def\<close>)
    then have "a XOR (XU_FNV32_OFFSET_BASIS * XU_FNV32_PRIME) = b XOR (XU_FNV32_OFFSET_BASIS * XU_FNV32_PRIME)"
      using h by (simp add: fnv32_init_def xor.commute)
    then show ?thesis by (rule xor_right_inj)
  qed
  show "s = t" if h: "s \<noteq> 0 \<and> t \<noteq> 0 \<and> xu_fnv64_1a_make (Some data) s = xu_fnv64_1a_make (Some data) t"
  proof -
    have "fnv64_init s = fnv64_init t"
      by (rule fold_inj [of "\<lambda>v x. (v XOR ucast x) * XU_FNV64_PRIME" _ data])
         (rule fnv64_inj, assumption, use h assms in \<open>simp add: xu_fnv64_1a_make_def hash_check_def\<close>)
    then have "s XOR (XU_FNV64_OFFSET_BASIS * XU_FNV64_PRIME) = t XOR (XU_FNV64_OFFSET_BASIS * XU_FNV64_PRIME)"
      using h by (simp add: fnv64_init_def xor.commute)
    then show ?thesis by (rule xor_right_inj)
  qed
qed

theorem xu_seeded_hashes_injective_witness:
  "xu_murmur_make (Some [7]) 1 \<noteq> xu_murmur_make (Some [7]) 2"
  using xu_seeded_hashes_injective [of "[7]" 1 2 0 0] by auto

text \<open>The Blizzard hash is the sdbm hash: its own rounds stand after a return and never
  run.\<close>

lemma xu_blizzard_is_sdbm: "xu_blizzard_make p seed = xu_sdbm_make p seed"
  by (simp add: xu_blizzard_make_def xu_sdbm_make_def)

end
