(* ===== verification/XCrcCorrect.thy ===== *)
theory XCrcCorrect
  imports XCrc
begin

text \<open>
  The table-driven checks against bit-serial division: a shift register that takes the
  remainder of a polynomial one bit at a time. The tables of the source are compared with
  the eight-fold register step through its linearity over XOR, from eight basis entries.
  Four of the five checks keep their register in swapped byte order.
\<close>

section \<open>Shift registers\<close>

text \<open>One step towards the low end (reflected checks) or the high end, and eight of them.\<close>

definition lfsr_down :: "'a::len word \<Rightarrow> 'a word \<Rightarrow> 'a word" where
  "lfsr_down poly c = (if bit c 0 then drop_bit 1 c XOR poly else drop_bit 1 c)"

definition lfsr_up :: "'a::len word \<Rightarrow> 'a word \<Rightarrow> 'a word" where
  "lfsr_up poly c = (if bit c (LENGTH('a) - 1) then push_bit 1 c XOR poly else push_bit 1 c)"

definition eight :: "('a \<Rightarrow> 'a) \<Rightarrow> 'a \<Rightarrow> 'a" where
  "eight f x = f (f (f (f (f (f (f (f x)))))))"

definition xor_linear :: "('a::len word \<Rightarrow> 'a word) \<Rightarrow> bool" where
  "xor_linear f \<longleftrightarrow> (\<forall>a b. f (a XOR b) = f a XOR f b)"

lemma xor_linearD: "xor_linear f \<Longrightarrow> f (a XOR b) = f a XOR f b"
  by (simp add: xor_linear_def)

lemma xor_linear_zero: "xor_linear f \<Longrightarrow> f 0 = 0"
  using xor_linearD [of f 0 0] by simp

lemma xor_linear_eight: "xor_linear f \<Longrightarrow> xor_linear (eight f)"
  by (simp add: xor_linear_def eight_def)

lemma lfsr_down_linear: "xor_linear (lfsr_down poly)"
  by (auto simp: xor_linear_def lfsr_down_def bit_xor_iff ac_simps)

lemma lfsr_up_linear: "xor_linear (lfsr_up poly)"
  by (auto simp: xor_linear_def lfsr_up_def bit_xor_iff ac_simps)

lemma eight_funpow: "eight f x = (f ^^ 8) x"
  by (simp add: eight_def numeral_eq_Suc)

lemma eight_down_clear:
  assumes "\<And>i. i < 8 \<Longrightarrow> \<not> bit c i"
  shows "eight (lfsr_down poly) c = drop_bit 8 c"
proof -
  have "(lfsr_down poly ^^ k) c = drop_bit k c" if "k \<le> 8" for k
    using that
  proof (induction k)
    case (Suc k)
    then have "\<not> bit (drop_bit k c) 0" using assms [of k] by (simp add: bit_drop_bit_eq)
    then show ?case using Suc by (simp add: lfsr_down_def)
  qed simp
  then show ?thesis by (simp add: eight_funpow)
qed

lemma eight_up_clear:
  fixes c :: "'a::len word"
  assumes "\<And>i. LENGTH('a) - 8 \<le> i \<Longrightarrow> i < LENGTH('a) \<Longrightarrow> \<not> bit c i"
  shows "eight (lfsr_up poly) c = push_bit 8 c"
proof -
  have "(lfsr_up poly ^^ k) c = push_bit k c" if "k \<le> 8" for k
    using that
  proof (induction k)
    case (Suc k)
    have "\<not> bit (push_bit k c) (LENGTH('a) - 1)"
    proof (cases "k \<le> LENGTH('a) - 1")
      case True
      then show ?thesis
        using assms [of "LENGTH('a) - 1 - k"] Suc.prems by (simp add: bit_push_bit_iff)
    next
      case False
      then show ?thesis by (simp add: bit_push_bit_iff)
    qed
    then show ?case using Suc by (simp add: lfsr_up_def del: push_bit_of_1)
  qed simp
  then show ?thesis by (simp add: eight_funpow)
qed

section \<open>Tables of a linear function\<close>

definition spread :: "'a::len word list \<Rightarrow> 'a word list" where
  "spread bs = foldl (\<lambda>L b. L @ map (\<lambda>x. x XOR b) L) [0] bs"

lemma of_nat_xor:
  assumes "i < 2 ^ n" and "n < LENGTH('a)"
  shows "word_of_nat (2 ^ n + i) = (word_of_nat i XOR 2 ^ n :: 'a::len word)"
proof -
  have "take_bit n i = i" using assms(1) by (simp add: take_bit_nat_eq_self)
  then have i: "\<not> bit i k" if "n \<le> k" for k
    using that bit_take_bit_iff [of n i k] by simp
  have "i XOR 2 ^ n = i + 2 ^ n"
    by (rule disjunctive_add_eq_xor [symmetric])
       (rule bit_eqI, use i in \<open>auto simp: bit_simps\<close>)
  then have "word_of_nat (2 ^ n + i) = (word_of_nat (i XOR 2 ^ n) :: 'a word)"
    by (simp add: add.commute)
  also have "\<dots> = word_of_nat i XOR word_of_nat (2 ^ n)"
    by (rule bit_word_eqI) (simp add: bit_simps)
  finally show ?thesis by simp
qed

lemma spread_linear:
  fixes T :: "'a::len word \<Rightarrow> 'a word"
  assumes "xor_linear T" and "n \<le> LENGTH('a)"
  shows "spread (map (\<lambda>k. T (2 ^ k)) [0..<n]) = map (\<lambda>i. T (word_of_nat i)) [0..<2 ^ n]"
  using assms(2)
proof (induction n)
  case 0
  then show ?case using xor_linear_zero [OF assms(1)] by (simp add: spread_def)
next
  case (Suc n)
  let ?L = "map (\<lambda>i. T (word_of_nat i)) [0..<2 ^ n]"
  have "spread (map (\<lambda>k. T (2 ^ k)) [0..<Suc n]) = ?L @ map (\<lambda>x. x XOR T (2 ^ n)) ?L"
    using Suc by (simp add: spread_def)
  also have "map (\<lambda>x. x XOR T (2 ^ n)) ?L = map (\<lambda>i. T (word_of_nat i)) [2 ^ n..<2 ^ Suc n]"
  proof (rule nth_equalityI)
    fix i assume "i < length (map (\<lambda>x. x XOR T (2 ^ n)) ?L)"
    then have "i < 2 ^ n" by simp
    then show "map (\<lambda>x. x XOR T (2 ^ n)) ?L ! i = map (\<lambda>i. T (word_of_nat i)) [2 ^ n..<2 ^ Suc n] ! i"
      using of_nat_xor [of i n, where 'a = 'a] Suc.prems xor_linearD [OF assms(1)]
      by (simp del: of_nat_add)
  qed simp
  also have "?L @ map (\<lambda>i. T (word_of_nat i)) [2 ^ n..<2 ^ Suc n]
      = map (\<lambda>i. T (word_of_nat i)) [0..<2 ^ Suc n]"
    using upt_add_eq_append [of 0 "2 ^ n" "2 ^ n"] by (simp add: mult_2)
  finally show ?case .
qed

section \<open>The contract of a byte step and its table\<close>

locale crc_table =
  fixes T :: "'a::len word \<Rightarrow> 'a word" and table :: "'a word list"
  assumes linear: "xor_linear T"
    and shifts: "T (push_bit 8 (drop_bit 8 c)) = drop_bit 8 c"
    and entries: "table = spread (map (\<lambda>k. T (2 ^ k)) [0..<8])"
    and wide: "8 \<le> LENGTH('a)"
begin

lemma entry: "table ! unat (x :: u8) = T (ucast x)"
proof -
  have "unat x < 256" using unsigned_less [of x, where 'a = nat] by simp
  then show ?thesis
    unfolding entries spread_linear [OF linear wide] by simp
qed

lemma byte_step: "table ! unat (ucast c XOR x) XOR drop_bit 8 c = T (c XOR ucast (x :: u8))"
proof -
  have "c XOR ucast x = ucast (ucast c XOR x :: u8) XOR push_bit 8 (drop_bit 8 c)"
    by (rule bit_word_eqI) (use wide in \<open>auto simp: bit_simps not_less\<close>)
  then show ?thesis
    by (simp only: entry xor_linearD [OF linear] shifts)
qed

text \<open>The loop of the code is the bit-serial loop.\<close>

lemma loop:
  "foldl (\<lambda>crc x. table ! unat (ucast crc XOR x) XOR drop_bit 8 crc) crc data
     = foldl (\<lambda>crc x. T (crc XOR ucast (x :: u8))) crc data"
  by (simp only: byte_step)

end

section \<open>Swapped byte order\<close>

definition swap16 :: "u16 \<Rightarrow> u16" where
  "swap16 w = push_bit 8 w OR drop_bit 8 w"

definition swap32 :: "u32 \<Rightarrow> u32" where
  "swap32 w = push_bit 24 w OR push_bit 8 (w AND 0xff00) OR (drop_bit 8 w AND 0xff00) OR drop_bit 24 w"

lemma bit_swap16: "bit (swap16 w) i \<longleftrightarrow> (if i < 8 then bit w (i + 8) else i < 16 \<and> bit w (i - 8))"
  using bit_imp_le_length [of w "i + 8"] by (auto simp: swap16_def bit_simps add.commute)

lemma bit_swap32: "bit (swap32 w) i \<longleftrightarrow>
    (if i < 8 then bit w (i + 24) else if i < 16 then bit w (i + 8)
     else if i < 24 then bit w (i - 8) else i < 32 \<and> bit w (i - 24))"
proof -
  have m: "(0xff00 :: u32) = push_bit 8 (mask 8)" by (simp add: mask_eq_exp_minus_1 push_bit_eq_mult)
  show ?thesis
    using bit_imp_le_length [of w "i + 24"] bit_imp_le_length [of w "i + 8"]
    unfolding swap32_def m by (auto simp: bit_simps add.commute)
qed

lemma swap16_swap16 [simp]: "swap16 (swap16 w) = w"
  by (rule bit_word_eqI) (auto simp: bit_swap16)

lemma swap32_swap32 [simp]: "swap32 (swap32 w) = w"
  by (rule bit_word_eqI) (auto simp: bit_swap32)

lemma swap16_linear: "xor_linear swap16"
  by (auto simp: xor_linear_def bit_swap16 bit_xor_iff intro!: bit_word_eqI)

lemma swap32_linear: "xor_linear swap32"
  by (auto simp: xor_linear_def bit_swap32 bit_xor_iff intro!: bit_word_eqI)

text \<open>The register of the MSB-first checks, read with its bytes swapped.\<close>

definition swapped16 :: "u16 \<Rightarrow> u16 \<Rightarrow> u16" where
  "swapped16 poly s = swap16 (eight (lfsr_up poly) (swap16 s))"

definition swapped32 :: "u32 \<Rightarrow> u32 \<Rightarrow> u32" where
  "swapped32 poly s = swap32 (eight (lfsr_up poly) (swap32 s))"

lemma swapped16_linear: "xor_linear (swapped16 poly)"
  unfolding xor_linear_def swapped16_def
  by (simp add: xor_linearD [OF swap16_linear] xor_linearD [OF xor_linear_eight [OF lfsr_up_linear]])

lemma swapped32_linear: "xor_linear (swapped32 poly)"
  unfolding xor_linear_def swapped32_def
  by (simp add: xor_linearD [OF swap32_linear] xor_linearD [OF xor_linear_eight [OF lfsr_up_linear]])

lemma swapped16_shifts: "swapped16 poly (push_bit 8 (drop_bit 8 c)) = drop_bit 8 c"
proof -
  have "eight (lfsr_up poly) (swap16 (push_bit 8 (drop_bit 8 c))) = push_bit 8 (swap16 (push_bit 8 (drop_bit 8 c)))"
    by (rule eight_up_clear) (auto simp: bit_swap16 bit_simps)
  moreover have "swap16 (push_bit 8 (swap16 (push_bit 8 (drop_bit 8 c)))) = drop_bit 8 c"
    by (rule bit_word_eqI) (auto simp: bit_swap16 bit_simps add.commute dest: bit_imp_le_length)
  ultimately show ?thesis unfolding swapped16_def by simp
qed

lemma swapped32_shifts: "swapped32 poly (push_bit 8 (drop_bit 8 c)) = drop_bit 8 c"
proof -
  have "eight (lfsr_up poly) (swap32 (push_bit 8 (drop_bit 8 c))) = push_bit 8 (swap32 (push_bit 8 (drop_bit 8 c)))"
    by (rule eight_up_clear) (auto simp: bit_swap32 bit_simps)
  moreover have "swap32 (push_bit 8 (swap32 (push_bit 8 (drop_bit 8 c)))) = drop_bit 8 c"
    by (rule bit_word_eqI) (auto simp: bit_swap32 bit_simps add.commute dest: bit_imp_le_length)
  ultimately show ?thesis unfolding swapped32_def by simp
qed

lemma down_shifts: "eight (lfsr_down poly) (push_bit 8 (drop_bit 8 c)) = drop_bit 8 c"
proof -
  have "eight (lfsr_down poly) (push_bit 8 (drop_bit 8 c)) = drop_bit 8 (push_bit 8 (drop_bit 8 c))"
    by (rule eight_down_clear) (simp add: bit_push_bit_iff)
  then show ?thesis by (auto simp: bit_simps dest: bit_imp_le_length intro!: bit_word_eqI)
qed

lemma up8_shifts: "eight (lfsr_up poly) (push_bit 8 (drop_bit 8 c)) = drop_bit 8 (c :: u8)"
proof -
  have z: "drop_bit 8 c = 0" by (rule bit_word_eqI) (auto simp: bit_simps dest: bit_imp_le_length)
  show ?thesis unfolding z push_bit_of_0 by (rule xor_linear_zero [OF xor_linear_eight [OF lfsr_up_linear]])
qed

section \<open>The tables of the source\<close>

lemma g_crc32_le_table_basis: "map (\<lambda>k. eight (lfsr_down 0xedb88320) (2 ^ k :: u32)) [0..<8]
    = [0x77073096, 0xee0e612c, 0x076dc419, 0x0edb8832, 0x1db71064, 0x3b6e20c8, 0x76dc4190, 0xedb88320]"
  by (simp add:  eight_def lfsr_up_def lfsr_down_def upt_rec bit_0 push_bit_eq_mult)

lemma g_crc32_le_table_spread: "g_crc32_le_table = spread [0x77073096, 0xee0e612c, 0x076dc419, 0x0edb8832, 0x1db71064, 0x3b6e20c8, 0x76dc4190, 0xedb88320]"
  by (simp add: spread_def g_crc32_le_table_def)

lemma swap32_units: "map swap32 [0x1, 0x2, 0x4, 0x8, 0x10, 0x20, 0x40, 0x80] = [0x1000000, 0x2000000, 0x4000000, 0x8000000, 0x10000000, 0x20000000, 0x40000000, 0x80000000]"
  by (simp add: swap32_def push_bit_eq_mult)

lemma lfsr32_units: "map (eight (lfsr_up 0x04c11db7)) [0x1000000, 0x2000000, 0x4000000, 0x8000000, 0x10000000, 0x20000000, 0x40000000, 0x80000000] = ([0x4c11db7, 0x9823b6e, 0x130476dc, 0x2608edb8, 0x4c11db70, 0x9823b6e0, 0x34867077, 0x690ce0ee] :: u32 list)"
  by (simp add: eight_def lfsr_up_def push_bit_eq_mult)

lemma swap32_lfsr_units: "map swap32 [0x4c11db7, 0x9823b6e, 0x130476dc, 0x2608edb8, 0x4c11db70, 0x9823b6e0, 0x34867077, 0x690ce0ee] = [0xb71dc104, 0x6e3b8209, 0xdc760413, 0xb8ed0826, 0x70db114c, 0xe0b62398, 0x77708634, 0xeee00c69]"
  by (simp add: swap32_def push_bit_eq_mult)

lemma units32: "map (\<lambda>k. 2 ^ k :: u32) [0..<8] = [0x1, 0x2, 0x4, 0x8, 0x10, 0x20, 0x40, 0x80]"
  by (simp add: upt_rec)

lemma g_crc32_table_basis: "map (\<lambda>k. swapped32 0x04c11db7 (2 ^ k :: u32)) [0..<8]
    = [0xb71dc104, 0x6e3b8209, 0xdc760413, 0xb8ed0826, 0x70db114c, 0xe0b62398, 0x77708634, 0xeee00c69]"
proof -
  have "map (\<lambda>k. swapped32 0x04c11db7 (2 ^ k)) [0..<8]
      = map swap32 (map (eight (lfsr_up 0x04c11db7)) (map swap32 (map (\<lambda>k. 2 ^ k) [0..<8])))"
    by (simp only: map_map comp_def swapped32_def)
  then show ?thesis
    by (simp only: units32 swap32_units lfsr32_units swap32_lfsr_units)
qed

lemma g_crc32_table_spread: "g_crc32_table = spread [0xb71dc104, 0x6e3b8209, 0xdc760413, 0xb8ed0826, 0x70db114c, 0xe0b62398, 0x77708634, 0xeee00c69]"
  by (simp add: spread_def g_crc32_table_def)

lemma g_crc16_table_basis: "map (\<lambda>k. swapped16 0x8005 (2 ^ k :: u16)) [0..<8]
    = [0x0580, 0x0f80, 0x1b80, 0x3380, 0x6380, 0xc380, 0x8381, 0x0383]"
  by (simp add: swapped16_def swap16_def eight_def lfsr_up_def lfsr_down_def upt_rec bit_0 push_bit_eq_mult)

lemma g_crc16_table_spread: "g_crc16_table = spread [0x0580, 0x0f80, 0x1b80, 0x3380, 0x6380, 0xc380, 0x8381, 0x0383]"
  by (simp add: spread_def g_crc16_table_def)

lemma g_crc16_ccitt_table_basis: "map (\<lambda>k. swapped16 0x1021 (2 ^ k :: u16)) [0..<8]
    = [0x2110, 0x4220, 0x8440, 0x0881, 0x3112, 0x6224, 0xc448, 0x8891]"
  by (simp add: swapped16_def swap16_def eight_def lfsr_up_def lfsr_down_def upt_rec bit_0 push_bit_eq_mult)

lemma g_crc16_ccitt_table_spread: "g_crc16_ccitt_table = spread [0x2110, 0x4220, 0x8440, 0x0881, 0x3112, 0x6224, 0xc448, 0x8891]"
  by (simp add: spread_def g_crc16_ccitt_table_def)

lemma g_crc8_table_basis: "map (\<lambda>k. eight (lfsr_up 0x07) (2 ^ k :: u8)) [0..<8]
    = [0x07, 0x0e, 0x1c, 0x38, 0x70, 0xe0, 0xc7, 0x89]"
  by (simp add:  eight_def lfsr_up_def lfsr_down_def upt_rec bit_0 push_bit_eq_mult)

lemma g_crc8_table_spread: "g_crc8_table = spread [0x07, 0x0e, 0x1c, 0x38, 0x70, 0xe0, 0xc7, 0x89]"
  by (simp add: spread_def g_crc8_table_def)

interpretation crc32_le: crc_table "eight (lfsr_down 0xedb88320)" g_crc32_le_table
  by unfold_locales
     (simp_all add: xor_linear_eight lfsr_down_linear down_shifts g_crc32_le_table_basis
        g_crc32_le_table_spread)

interpretation crc32_be: crc_table "swapped32 0x04c11db7" g_crc32_table
  by unfold_locales
     (simp_all add: swapped32_linear swapped32_shifts g_crc32_table_basis g_crc32_table_spread)

interpretation crc16_be: crc_table "swapped16 0x8005" g_crc16_table
  by unfold_locales
     (simp_all add: swapped16_linear swapped16_shifts g_crc16_table_basis g_crc16_table_spread)

interpretation crc16_ccitt: crc_table "swapped16 0x1021" g_crc16_ccitt_table
  by unfold_locales
     (simp_all add: swapped16_linear swapped16_shifts g_crc16_ccitt_table_basis
        g_crc16_ccitt_table_spread)

interpretation crc8: crc_table "eight (lfsr_up 0x07)" g_crc8_table
  by unfold_locales
     (simp_all add: xor_linear_eight lfsr_up_linear up8_shifts [simplified] g_crc8_table_basis g_crc8_table_spread)

section \<open>The properties\<close>

text \<open>The bit-serial checks: a byte enters at the low end of a register that shifts down, or
  at the high end of one that shifts up, and eight steps follow.\<close>

definition serial_down :: "'a::len word \<Rightarrow> 'a word \<Rightarrow> u8 list \<Rightarrow> 'a word" where
  "serial_down poly c data = foldl (\<lambda>c x. eight (lfsr_down poly) (c XOR ucast x)) c data"

definition serial_up :: "'a::len word \<Rightarrow> 'a word \<Rightarrow> u8 list \<Rightarrow> 'a word" where
  "serial_up poly c data =
     foldl (\<lambda>c x. eight (lfsr_up poly) (c XOR push_bit (LENGTH('a) - 8) (ucast x))) c data"

lemma swap16_byte: "swap16 (ucast (x :: u8)) = push_bit 8 (ucast x)"
  by (rule bit_word_eqI) (auto simp: bit_swap16 bit_simps dest: bit_imp_le_length)

lemma swap32_byte: "swap32 (ucast (x :: u8)) = push_bit 24 (ucast x)"
  by (rule bit_word_eqI) (auto simp: bit_swap32 bit_simps dest: bit_imp_le_length)

lemma swapped16_serial:
  "swap16 (foldl (\<lambda>s x. swapped16 poly (s XOR ucast (x :: u8))) s data) = serial_up poly (swap16 s) data"
proof (induction data arbitrary: s)
  case (Cons x data)
  have "swap16 (swapped16 poly (s XOR ucast x)) = eight (lfsr_up poly) (swap16 s XOR push_bit 8 (ucast x))"
    by (simp add: swapped16_def xor_linearD [OF swap16_linear] swap16_byte)
  then show ?case using Cons by (simp add: serial_up_def)
qed (simp add: serial_up_def)

lemma swapped32_serial:
  "swap32 (foldl (\<lambda>s x. swapped32 poly (s XOR ucast (x :: u8))) s data) = serial_up poly (swap32 s) data"
proof (induction data arbitrary: s)
  case (Cons x data)
  have "swap32 (swapped32 poly (s XOR ucast x)) = eight (lfsr_up poly) (swap32 s XOR push_bit 24 (ucast x))"
    by (simp add: swapped32_def xor_linearD [OF swap32_linear] swap32_byte)
  then show ?case using Cons by (simp add: serial_up_def)
qed (simp add: serial_up_def)

text \<open>A loop whose state has more bits than its table.\<close>

lemma crc_wide_state:
  fixes seed :: "'a::len word"
  assumes "LENGTH('a) \<le> LENGTH('b)" and "8 \<le> LENGTH('a)"
  shows "foldl (\<lambda>crc x. ucast (table ! unat (ucast crc XOR x)) XOR drop_bit 8 crc)
      (ucast seed :: 'b::len word) data
    = ucast (foldl (\<lambda>crc x. table ! unat (ucast crc XOR (x :: u8)) XOR drop_bit 8 crc) seed data)"
proof (induction data arbitrary: seed)
  case (Cons x data)
  have low: "(ucast (ucast seed :: 'b word) :: u8) = ucast seed"
    by (rule bit_word_eqI) (use assms in \<open>auto simp: bit_simps dest: bit_imp_le_length\<close>)
  have "ucast (table ! unat (ucast seed XOR x)) XOR drop_bit 8 (ucast seed :: 'b word)
      = ucast (table ! unat (ucast seed XOR x) XOR drop_bit 8 seed)"
    by (rule bit_word_eqI) (use assms in \<open>auto simp: bit_simps dest: bit_imp_le_length\<close>)
  then show ?case using Cons low by simp
qed simp

lemma ucast_narrow:
  "LENGTH('a::len) \<le> LENGTH('b::len) \<Longrightarrow> (ucast (ucast (w :: 'a word) :: 'b word) :: 'a word) = w"
  by (rule bit_word_eqI) (auto simp: bit_simps)

text \<open>C12. The table-driven checks compute the remainders of bit-serial division: the
  little-endian CRC-32 by the reflected polynomial EDB88320, the other CRC-32 by 04C11DB7, the
  16-bit checks by 8005 and 1021 and the 8-bit one by 07, MSB first and with the register of the
  wider ones kept in swapped byte order. This covers every entry of the five tables.\<close>

theorem xu_crc_equals_bit_serial:
  "xu_crc32_le_make (Some data) seed32 = serial_down 0xedb88320 seed32 data
    \<and> swap32 (xu_crc32_make (Some data) seed32) = serial_up 0x04c11db7 (swap32 seed32) data
    \<and> swap16 (xu_crc16_make (Some data) seed16) = serial_up 0x8005 (swap16 seed16) data
    \<and> swap16 (xu_crc16_ccitt_make (Some data) seed16) = serial_up 0x1021 (swap16 seed16) data
    \<and> xu_crc8_make (Some data) seed8 = serial_up 0x07 seed8 data"
proof (intro conjI)
  show "xu_crc32_le_make (Some data) seed32 = serial_down 0xedb88320 seed32 data"
    by (simp only: xu_crc32_le_make_def xu_crc32_make_impl_def option.case crc32_le.loop serial_down_def)
  show "swap32 (xu_crc32_make (Some data) seed32) = serial_up 0x04c11db7 (swap32 seed32) data"
    by (simp only: xu_crc32_make_def xu_crc32_make_impl_def option.case crc32_be.loop swapped32_serial)
  show "swap16 (xu_crc16_make (Some data) seed16) = serial_up 0x8005 (swap16 seed16) data"
    unfolding xu_crc16_make_def option.case
    by (subst crc_wide_state) (simp_all only: crc16_be.loop swapped16_serial ucast_narrow, simp_all add: ucast_narrow swapped16_serial)
  show "swap16 (xu_crc16_ccitt_make (Some data) seed16) = serial_up 0x1021 (swap16 seed16) data"
    by (simp only: xu_crc16_ccitt_make_def option.case crc16_ccitt.loop swapped16_serial)
  show "xu_crc8_make (Some data) seed8 = serial_up 0x07 seed8 data"
    unfolding xu_crc8_make_def option.case
    by (subst crc_wide_state) (simp_all only: crc8.loop, simp_all add: ucast_narrow serial_up_def)
qed

end
