(* ===== verification/XDigest.thy ===== *)
theory XDigest
  imports XHash
begin

text \<open>
  \<^verbatim>\<open>xutil/hash/md5.c\<close> and \<^verbatim>\<open>sha.c\<close>: the streaming digests. The unrolled
  rounds call one macro with its register arguments rotated from call to call; here one step
  acts on the register tuple and rotates the tuple, so the sequence of calls is a fold. The
  machine is little-endian.
\<close>

section \<open>MD5 rounds\<close>

definition xu_MD5_F :: "u32 \<Rightarrow> u32 \<Rightarrow> u32 \<Rightarrow> u32" where "xu_MD5_F x y z = (x AND y) OR (NOT x AND z)"
definition xu_MD5_G :: "u32 \<Rightarrow> u32 \<Rightarrow> u32 \<Rightarrow> u32" where "xu_MD5_G x y z = (x AND z) OR (y AND NOT z)"
definition xu_MD5_H :: "u32 \<Rightarrow> u32 \<Rightarrow> u32 \<Rightarrow> u32" where "xu_MD5_H x y z = x XOR y XOR z"
definition xu_MD5_I :: "u32 \<Rightarrow> u32 \<Rightarrow> u32 \<Rightarrow> u32" where "xu_MD5_I x y z = y XOR (x OR NOT z)"

definition xu_MD5_ROTATE_LEFT :: "u32 \<Rightarrow> nat \<Rightarrow> u32" where
  "xu_MD5_ROTATE_LEFT x n = push_bit n x OR drop_bit (32 - n) x"

type_synonym md5_regs = "u32 \<times> u32 \<times> u32 \<times> u32"

text \<open>One call of a round macro, \<open>FF (a, b, c, d, x, s, ac)\<close> and its siblings, followed by
  the rotation of the arguments for the next call.\<close>

definition md5_step ::
    "(u32 \<Rightarrow> u32 \<Rightarrow> u32 \<Rightarrow> u32) \<Rightarrow> u32 list \<Rightarrow> md5_regs \<Rightarrow> nat \<times> nat \<times> u32 \<Rightarrow> md5_regs" where
  "md5_step g ip r e = (case r of (a, b, c, d) \<Rightarrow> case e of (k, s, ac) \<Rightarrow>
     let a = a + g b c d + ip ! k + ac;
         a = xu_MD5_ROTATE_LEFT a s;
         a = a + b
     in (d, a, b, c))"

text \<open>The word index, the shift and the constant of the sixteen calls of each round.\<close>

definition md5_round1 :: "(nat \<times> nat \<times> u32) list" where
  "md5_round1 =
    [(0, 7, 3614090360), (1, 12, 3905402710), (2, 17, 606105819), (3, 22, 3250441966),
     (4, 7, 4118548399), (5, 12, 1200080426), (6, 17, 2821735955), (7, 22, 4249261313),
     (8, 7, 1770035416), (9, 12, 2336552879), (10, 17, 4294925233), (11, 22, 2304563134),
     (12, 7, 1804603682), (13, 12, 4254626195), (14, 17, 2792965006), (15, 22, 1236535329)]"

definition md5_round2 :: "(nat \<times> nat \<times> u32) list" where
  "md5_round2 =
    [(1, 5, 4129170786), (6, 9, 3225465664), (11, 14, 643717713), (0, 20, 3921069994),
     (5, 5, 3593408605), (10, 9, 38016083), (15, 14, 3634488961), (4, 20, 3889429448),
     (9, 5, 568446438), (14, 9, 3275163606), (3, 14, 4107603335), (8, 20, 1163531501),
     (13, 5, 2850285829), (2, 9, 4243563512), (7, 14, 1735328473), (12, 20, 2368359562)]"

definition md5_round3 :: "(nat \<times> nat \<times> u32) list" where
  "md5_round3 =
    [(5, 4, 4294588738), (8, 11, 2272392833), (11, 16, 1839030562), (14, 23, 4259657740),
     (1, 4, 2763975236), (4, 11, 1272893353), (7, 16, 4139469664), (10, 23, 3200236656),
     (13, 4, 681279174), (0, 11, 3936430074), (3, 16, 3572445317), (6, 23, 76029189),
     (9, 4, 3654602809), (12, 11, 3873151461), (15, 16, 530742520), (2, 23, 3299628645)]"

definition md5_round4 :: "(nat \<times> nat \<times> u32) list" where
  "md5_round4 =
    [(0, 6, 4096336452), (7, 10, 1126891415), (14, 15, 2878612391), (5, 21, 4237533241),
     (12, 6, 1700485571), (3, 10, 2399980690), (10, 15, 4293915773), (1, 21, 2240044497),
     (8, 6, 1873313359), (15, 10, 4264355552), (6, 15, 2734768916), (13, 21, 1309151649),
     (4, 6, 4149444226), (11, 10, 3174756917), (2, 15, 718787259), (9, 21, 3951481745)]"

definition xu_md5_transform :: "md5_regs \<Rightarrow> u32 list \<Rightarrow> md5_regs" where
  "xu_md5_transform sp ip =
     (let r = foldl (md5_step xu_MD5_F ip) sp md5_round1;
          r = foldl (md5_step xu_MD5_G ip) r md5_round2;
          r = foldl (md5_step xu_MD5_H ip) r md5_round3;
          r = foldl (md5_step xu_MD5_I ip) r md5_round4
      in case (sp, r) of ((s0, s1, s2, s3), (a, b, c, d)) \<Rightarrow> (s0 + a, s1 + b, s2 + c, s3 + d))"

section \<open>The MD5 stream\<close>

record md5 =
  md5_i0 :: u32
  md5_i1 :: u32
  md5_sp :: md5_regs
  md5_ip :: "u8 list"
  md5_data :: "u8 list"

text \<open>The words of the input buffer, least significant byte first.\<close>

definition le_word :: "u8 list \<Rightarrow> nat \<Rightarrow> u32" where
  "le_word b ii = push_bit 24 (ucast (b ! (ii + 3))) OR push_bit 16 (ucast (b ! (ii + 2)))
     OR push_bit 8 (ucast (b ! (ii + 1))) OR ucast (b ! ii)"

definition le_words :: "nat \<Rightarrow> u8 list \<Rightarrow> u32 list" where
  "le_words n b = map (\<lambda>i. le_word b (4 * i)) [0..<n]"

definition g_md5_padding :: "u8 list" where
  "g_md5_padding = 0x80 # replicate 63 0"

definition xu_md5_init :: "u32 \<Rightarrow> md5 \<Rightarrow> md5" where
  "xu_md5_init pseudo_rand m =
     m\<lparr>md5_i0 := 0, md5_i1 := 0,
       md5_sp := (0x67452301 + pseudo_rand * 11, 0xefcdab89 + pseudo_rand * 71,
                  0x98badcfe + pseudo_rand * 37, 0x10325476 + pseudo_rand * 97)\<rparr>"

text \<open>One byte goes to the buffer at \<open>mdi\<close>; a full buffer is transformed.\<close>

definition md5_byte :: "md5_regs \<times> u8 list \<times> nat \<Rightarrow> u8 \<Rightarrow> md5_regs \<times> u8 list \<times> nat" where
  "md5_byte s x = (case s of (sp, ip, mdi) \<Rightarrow>
     let ip = ip[mdi := x]; mdi = mdi + 1 in
     if mdi = 0x40 then (xu_md5_transform sp (le_words 16 ip), ip, 0) else (sp, ip, mdi))"

definition xu_md5_spak :: "md5 \<Rightarrow> u8 list \<Rightarrow> md5" where
  "xu_md5_spak m data =
     (let size32 = (of_nat (length data) :: u32);
          mdi = unat (drop_bit 3 (md5_i0 m) AND 0x3F);
          i1 = (if md5_i0 m + push_bit 3 size32 < md5_i0 m then md5_i1 m + 1 else md5_i1 m);
          i0 = md5_i0 m + push_bit 3 size32;
          i1 = i1 + drop_bit 29 size32;
          (sp, ip, mdi) = foldl md5_byte (md5_sp m, md5_ip m, mdi) data
      in m\<lparr>md5_i0 := i0, md5_i1 := i1, md5_sp := sp, md5_ip := ip\<rparr>)"

definition md5_store :: "u32 \<Rightarrow> u8 list" where
  "md5_store w = [ucast (w AND 0xff), ucast (drop_bit 8 w AND 0xff),
     ucast (drop_bit 16 w AND 0xff), ucast (drop_bit 24 w AND 0xff)]"

text \<open>The digest, and the state it leaves.\<close>

definition xu_md5_exit :: "md5 \<Rightarrow> md5 \<times> u8 list" where
  "xu_md5_exit m =
     (let ip14 = md5_i0 m; ip15 = md5_i1 m;
          mdi = unat (drop_bit 3 (md5_i0 m) AND 0x3F);
          pad_n = (if mdi < 56 then 56 - mdi else 120 - mdi);
          m = xu_md5_spak m (take pad_n g_md5_padding);
          ip = le_words 14 (md5_ip m) @ [ip14, ip15];
          sp = xu_md5_transform (md5_sp m) ip;
          data = (case sp of (a, b, c, d) \<Rightarrow> md5_store a @ md5_store b @ md5_store c @ md5_store d)
      in (m\<lparr>md5_sp := sp, md5_data := data\<rparr>, data))"

text \<open>The digest goes to the start of the output buffer; \<open>m\<close> is the uninitialised local.\<close>

definition xu_md5_make :: "md5 \<Rightarrow> u8 list option \<Rightarrow> u8 list option \<Rightarrow> nat \<times> u8 list option" where
  "xu_md5_make m ib ob =
     (case (ib, ob) of
        (Some ib, Some ob) \<Rightarrow>
          if ib \<noteq> [] \<and> length ob \<ge> 16 then
            let m = xu_md5_spak (xu_md5_init 0 m) ib in
            (16, Some (snd (xu_md5_exit m) @ drop 16 ob))
          else (0, Some ob)
      | _ \<Rightarrow> (0, ob))"

section \<open>SHA rounds\<close>

definition XU_SHA_ROL :: "u32 \<Rightarrow> nat \<Rightarrow> u32" where
  "XU_SHA_ROL v b = push_bit b v OR drop_bit (32 - b) v"

text \<open>The big-endian word at index \<open>i\<close> of the input buffer.\<close>

definition be_word :: "u8 list \<Rightarrow> nat \<Rightarrow> u32" where
  "be_word b i = push_bit 24 (ucast (b ! (4 * i))) OR push_bit 16 (ucast (b ! (4 * i + 1)))
     OR push_bit 8 (ucast (b ! (4 * i + 2))) OR ucast (b ! (4 * i + 3))"

text \<open>\<open>block[i]\<close> is set in increasing order of \<open>i\<close>, so the block is the list of the words set
  so far.\<close>

definition XU_SHA_BLK0 :: "u8 list \<Rightarrow> u32 list \<Rightarrow> nat \<Rightarrow> u32" where
  "XU_SHA_BLK0 buffer block i = be_word buffer i"

definition XU_SHA_BLK :: "u8 list \<Rightarrow> u32 list \<Rightarrow> nat \<Rightarrow> u32" where
  "XU_SHA_BLK buffer block i =
     XU_SHA_ROL (block ! (i - 3) XOR block ! (i - 8) XOR block ! (i - 14) XOR block ! (i - 16)) 1"

type_synonym sha1_regs = "u32 \<times> u32 \<times> u32 \<times> u32 \<times> u32"

definition sha1_choose :: "u32 \<Rightarrow> u32 \<Rightarrow> u32 \<Rightarrow> u32" where "sha1_choose w x y = (w AND (x XOR y)) XOR y"
definition sha1_parity :: "u32 \<Rightarrow> u32 \<Rightarrow> u32 \<Rightarrow> u32" where "sha1_parity w x y = w XOR x XOR y"
definition sha1_major :: "u32 \<Rightarrow> u32 \<Rightarrow> u32 \<Rightarrow> u32" where "sha1_major w x y = ((w OR x) AND y) OR (w AND x)"

text \<open>One call of \<open>XU_SHA_R0\<close> to \<open>XU_SHA_R4\<close> on \<open>(v, w, x, y, z)\<close>, which differ in the function,
  in the constant and in how they make \<open>block[i]\<close>, and the rotation for the next call.\<close>

definition sha1_step ::
    "(u32 \<Rightarrow> u32 \<Rightarrow> u32 \<Rightarrow> u32) \<Rightarrow> u32 \<Rightarrow> (u8 list \<Rightarrow> u32 list \<Rightarrow> nat \<Rightarrow> u32) \<Rightarrow> u8 list
       \<Rightarrow> u32 list \<times> sha1_regs \<Rightarrow> nat \<Rightarrow> u32 list \<times> sha1_regs" where
  "sha1_step f k blk buffer s i = (case s of (block, v, w, x, y, z) \<Rightarrow>
     let t = blk buffer block i;
         z = z + (f w x y + t + k + XU_SHA_ROL v 5);
         w = XU_SHA_ROL w 30
     in (block @ [t], z, v, w, x, y))"

definition xu_sha_transform_sha1 :: "u32 list \<Rightarrow> u8 list \<Rightarrow> u32 list" where
  "xu_sha_transform_sha1 state buffer =
     (let s = ([], state ! 0, state ! 1, state ! 2, state ! 3, state ! 4);
          s = foldl (sha1_step sha1_choose 0x5a827999 XU_SHA_BLK0 buffer) s [0..<16];
          s = foldl (sha1_step sha1_choose 0x5a827999 XU_SHA_BLK buffer) s [16..<20];
          s = foldl (sha1_step sha1_parity 0x6ed9eba1 XU_SHA_BLK buffer) s [20..<40];
          s = foldl (sha1_step sha1_major 0x8f1bbcdc XU_SHA_BLK buffer) s [40..<60];
          s = foldl (sha1_step sha1_parity 0xca62c1d6 XU_SHA_BLK buffer) s [60..<80]
      in case s of (block, a, b, c, d, e) \<Rightarrow>
           [state ! 0 + a, state ! 1 + b, state ! 2 + c, state ! 3 + d, state ! 4 + e] @ drop 5 state)"

text \<open>The compact loop of the same transform, compiled for small targets.\<close>

definition sha1_small_turn :: "u8 list \<Rightarrow> u32 list \<times> sha1_regs \<Rightarrow> nat \<Rightarrow> u32 list \<times> sha1_regs" where
  "sha1_small_turn buffer s i = (case s of (block, a, b, c, d, e) \<Rightarrow>
     let t = (if i < 16 then be_word buffer i
              else XU_SHA_ROL (block ! (i - 3) XOR block ! (i - 8) XOR block ! (i - 14) XOR block ! (i - 16)) 1);
         block = block @ [t];
         t = t + (e + XU_SHA_ROL a 5);
         t = (if i < 40 then
                if i < 20 then t + (((b AND (c XOR d)) XOR d) + 0x5a827999)
                else t + ((b XOR c XOR d) + 0x6ED9EBA1)
              else if i < 60 then t + ((((b OR c) AND d) OR (b AND c)) + 0x8f1bbcdc)
              else t + ((b XOR c XOR d) + 0xca62c1d6))
     in (block, t, a, XU_SHA_ROL b 30, c, d))"

definition sha_transform_sha1_small :: "u32 list \<Rightarrow> u8 list \<Rightarrow> u32 list" where
  "sha_transform_sha1_small state buffer =
     (case foldl (sha1_small_turn buffer) ([], state ! 0, state ! 1, state ! 2, state ! 3, state ! 4) [0..<80] of
        (block, a, b, c, d, e) \<Rightarrow>
          [state ! 0 + a, state ! 1 + b, state ! 2 + c, state ! 3 + d, state ! 4 + e] @ drop 5 state)"

definition XU_SHA_CH :: "u32 \<Rightarrow> u32 \<Rightarrow> u32 \<Rightarrow> u32" where "XU_SHA_CH x y z = (x AND (y XOR z)) XOR z"
definition XU_SHA_MAJ :: "u32 \<Rightarrow> u32 \<Rightarrow> u32 \<Rightarrow> u32" where "XU_SHA_MAJ x y z = ((x OR y) AND z) OR (x AND y)"
definition XU_SHA_SIGMA0_256 :: "u32 \<Rightarrow> u32" where
  "XU_SHA_SIGMA0_256 x = XU_SHA_ROL x 30 XOR XU_SHA_ROL x 19 XOR XU_SHA_ROL x 10"
definition XU_SHA_SIGMA1_256 :: "u32 \<Rightarrow> u32" where
  "XU_SHA_SIGMA1_256 x = XU_SHA_ROL x 26 XOR XU_SHA_ROL x 21 XOR XU_SHA_ROL x 7"
definition XU_SHA_SIGMA0_256x :: "u32 \<Rightarrow> u32" where
  "XU_SHA_SIGMA0_256x x = XU_SHA_ROL x 25 XOR XU_SHA_ROL x 14 XOR drop_bit 3 x"
definition XU_SHA_SIGMA1_256x :: "u32 \<Rightarrow> u32" where
  "XU_SHA_SIGMA1_256x x = XU_SHA_ROL x 15 XOR XU_SHA_ROL x 13 XOR drop_bit 10 x"

definition XU_SHA_BLKx :: "u8 list \<Rightarrow> u32 list \<Rightarrow> nat \<Rightarrow> u32" where
  "XU_SHA_BLKx buffer block i = block ! (i - 16) + XU_SHA_SIGMA0_256x (block ! (i - 15))
     + XU_SHA_SIGMA1_256x (block ! (i - 2)) + block ! (i - 7)"

definition g_sha_k256 :: "u32 list" where
  "g_sha_k256 =
     [0x428a2f98, 0x71374491, 0xb5c0fbcf, 0xe9b5dba5] @
     [0x3956c25b, 0x59f111f1, 0x923f82a4, 0xab1c5ed5] @
     [0xd807aa98, 0x12835b01, 0x243185be, 0x550c7dc3] @
     [0x72be5d74, 0x80deb1fe, 0x9bdc06a7, 0xc19bf174] @
     [0xe49b69c1, 0xefbe4786, 0x0fc19dc6, 0x240ca1cc] @
     [0x2de92c6f, 0x4a7484aa, 0x5cb0a9dc, 0x76f988da] @
     [0x983e5152, 0xa831c66d, 0xb00327c8, 0xbf597fc7] @
     [0xc6e00bf3, 0xd5a79147, 0x06ca6351, 0x14292967] @
     [0x27b70a85, 0x2e1b2138, 0x4d2c6dfc, 0x53380d13] @
     [0x650a7354, 0x766a0abb, 0x81c2c92e, 0x92722c85] @
     [0xa2bfe8a1, 0xa81a664b, 0xc24b8b70, 0xc76c51a3] @
     [0xd192e819, 0xd6990624, 0xf40e3585, 0x106aa070] @
     [0x19a4c116, 0x1e376c08, 0x2748774c, 0x34b0bcb5] @
     [0x391c0cb3, 0x4ed8aa4a, 0x5b9cca4f, 0x682e6ff3] @
     [0x748f82ee, 0x78a5636f, 0x84c87814, 0x8cc70208] @
     [0x90befffa, 0xa4506ceb, 0xbef9a3f7, 0xc67178f2]"

type_synonym sha2_regs = "u32 \<times> u32 \<times> u32 \<times> u32 \<times> u32 \<times> u32 \<times> u32 \<times> u32"

text \<open>\<open>XU_SHA_ROUND256\<close> on \<open>(a, b, c, d, e, f, g, h)\<close> and the rotation for the next call.\<close>

definition sha2_step :: "(u8 list \<Rightarrow> u32 list \<Rightarrow> nat \<Rightarrow> u32) \<Rightarrow> u8 list
       \<Rightarrow> u32 list \<times> sha2_regs \<Rightarrow> nat \<Rightarrow> u32 list \<times> sha2_regs" where
  "sha2_step blk buffer s i = (case s of (block, a, b, c, d, e, f, g, h) \<Rightarrow>
     let t = blk buffer block i;
         T1 = t + (h + XU_SHA_SIGMA1_256 e + XU_SHA_CH e f g + g_sha_k256 ! i);
         d = d + T1;
         h = T1 + XU_SHA_SIGMA0_256 a + XU_SHA_MAJ a b c
     in (block @ [t], h, a, b, c, d, e, f, g))"

definition xu_sha_transform_sha2 :: "u32 list \<Rightarrow> u8 list \<Rightarrow> u32 list" where
  "xu_sha_transform_sha2 state buffer =
     (let s = ([], state ! 0, state ! 1, state ! 2, state ! 3, state ! 4, state ! 5, state ! 6, state ! 7);
          s = foldl (sha2_step XU_SHA_BLK0 buffer) s [0..<16];
          s = foldl (sha2_step XU_SHA_BLKx buffer) s [16..<64]
      in case s of (block, a, b, c, d, e, f, g, h) \<Rightarrow>
           [state ! 0 + a, state ! 1 + b, state ! 2 + c, state ! 3 + d,
            state ! 4 + e, state ! 5 + f, state ! 6 + g, state ! 7 + h])"

section \<open>The SHA stream\<close>

record sha =
  sha_digest_len :: nat
  sha_count :: u64
  sha_buffer :: "u8 list"
  sha_state :: "u32 list"
  sha_transform :: "u32 list \<Rightarrow> u8 list \<Rightarrow> u32 list"

definition XU_SHA_MODE_SHA1_160 :: nat where "XU_SHA_MODE_SHA1_160 = 160"
definition XU_SHA_MODE_SHA2_224 :: nat where "XU_SHA_MODE_SHA2_224 = 224"
definition XU_SHA_MODE_SHA2_256 :: nat where "XU_SHA_MODE_SHA2_256 = 256"

text \<open>The digest length is kept in a byte. An unknown mode is an assertion in debug builds and
  leaves the transform null: no state here.\<close>

definition xu_sha_init :: "nat \<Rightarrow> sha option" where
  "xu_sha_init mode =
     (let n = mode div 32 mod 256; zero = replicate 64 0 in
      if mode = XU_SHA_MODE_SHA1_160 then
        Some \<lparr>sha_digest_len = n, sha_count = 0, sha_buffer = zero,
          sha_state = [0x67452301, 0xefcdab89, 0x98badcfe, 0x10325476, 0xc3d2e1f0, 0, 0, 0],
          sha_transform = xu_sha_transform_sha1\<rparr>
      else if mode = XU_SHA_MODE_SHA2_224 then
        Some \<lparr>sha_digest_len = n, sha_count = 0, sha_buffer = zero,
          sha_state = [0xc1059ed8, 0x367cd507, 0x3070dd17, 0xf70e5939,
                       0xffc00b31, 0x68581511, 0x64f98fa7, 0xbefa4fa4],
          sha_transform = xu_sha_transform_sha2\<rparr>
      else if mode = XU_SHA_MODE_SHA2_256 then
        Some \<lparr>sha_digest_len = n, sha_count = 0, sha_buffer = zero,
          sha_state = [0x6a09e667, 0xbb67ae85, 0x3c6ef372, 0xa54ff53a,
                       0x510e527f, 0x9b05688c, 0x1f83d9ab, 0x5be0cd19],
          sha_transform = xu_sha_transform_sha2\<rparr>
      else None)"

text \<open>\<open>xu_memcpy\<close> into a buffer at a position.\<close>

definition buf_copy :: "u8 list \<Rightarrow> nat \<Rightarrow> u8 list \<Rightarrow> u8 list" where
  "buf_copy buf j xs = take j buf @ xs @ drop (j + length xs) buf"

text \<open>The loop over whole blocks of the input. Its counter has 32 bits and the size 64, so it
  may run forever.\<close>

partial_function (option) sha_blocks ::
    "(u32 list \<Rightarrow> u8 list \<Rightarrow> u32 list) \<Rightarrow> u8 list \<Rightarrow> nat \<Rightarrow> u32 list \<Rightarrow> (nat \<times> u32 list) option" where
  "sha_blocks f data i state =
     (if (i + 63) mod 2 ^ 32 < length data
      then sha_blocks f data ((i + 64) mod 2 ^ 32) (f state (take 64 (drop i data)))
      else Some (i, state))"

declare sha_blocks.simps [code]

definition xu_sha_spak :: "sha \<Rightarrow> u8 list \<Rightarrow> sha option" where
  "xu_sha_spak s data =
     (let j = unat ((ucast (sha_count s) :: u32) AND 63);
          s = s\<lparr>sha_count := sha_count s + of_nat (length data)\<rparr> in
      if j + length data > 63 then
        let i = 64 - j;
            buffer = buf_copy (sha_buffer s) j (take i data);
            state = sha_transform s (sha_state s) buffer in
        case sha_blocks (sha_transform s) data i state of
          None \<Rightarrow> None
        | Some (i, state) \<Rightarrow>
            Some (s\<lparr>sha_buffer := buf_copy buffer 0 (drop i data), sha_state := state\<rparr>)
      else Some (s\<lparr>sha_buffer := buf_copy (sha_buffer s) j data\<rparr>))"

partial_function (option) sha_pad :: "sha \<Rightarrow> sha option" where
  "sha_pad s =
     (if sha_count s AND 63 \<noteq> 56 then
        (case xu_sha_spak s [0] of None \<Rightarrow> None | Some s \<Rightarrow> sha_pad s)
      else Some s)"

declare sha_pad.simps [code]

text \<open>The bytes of a 64-bit and of a 32-bit word, most significant first.\<close>

definition be_bytes64 :: "u64 \<Rightarrow> u8 list" where
  "be_bytes64 w = map (\<lambda>i. ucast (drop_bit (56 - 8 * i) w)) [0..<8]"

definition be_bytes32 :: "u32 \<Rightarrow> u8 list" where
  "be_bytes32 w = map (\<lambda>i. ucast (drop_bit (24 - 8 * i) w)) [0..<4]"

text \<open>The digest words go to the output buffer one after the other; writing past its end is
  none.\<close>

definition xu_sha_exit :: "sha \<Rightarrow> u8 list \<Rightarrow> u8 list option" where
  "xu_sha_exit s data =
     (let count = be_bytes64 (push_bit 3 (sha_count s)) in
      case xu_sha_spak s [0x80] of None \<Rightarrow> None | Some s \<Rightarrow>
      (case sha_pad s of None \<Rightarrow> None | Some s \<Rightarrow>
      (case xu_sha_spak s count of None \<Rightarrow> None | Some s \<Rightarrow>
         let n = sha_digest_len s in
         if 4 * n \<le> length data then
           Some (buf_copy data 0 (concat (map (\<lambda>i. be_bytes32 (sha_state s ! i)) [0..<n])))
         else None)))"

definition xu_sha_make :: "nat \<Rightarrow> u8 list option \<Rightarrow> u8 list option \<Rightarrow> (nat \<times> u8 list option) option" where
  "xu_sha_make mode ib ob =
     (case (ib, ob) of
        (Some ib, Some ob) \<Rightarrow>
          if ib \<noteq> [] \<and> length ob \<ge> 16 then
            (case xu_sha_init mode of None \<Rightarrow> None | Some s \<Rightarrow>
            (case xu_sha_spak s ib of None \<Rightarrow> None | Some s \<Rightarrow>
            (case xu_sha_exit s ob of None \<Rightarrow> None | Some ob \<Rightarrow>
               Some (sha_digest_len s * 4, Some ob))))
          else Some (0, Some ob)
      | _ \<Rightarrow> Some (0, ob))"

end
