(* ===== verification/XDigestCorrect.thy ===== *)
theory XDigestCorrect
  imports XDigest
begin

text \<open>
  The streaming digests against the digests of the whole padded message: what a sequence of
  \<open>spak\<close> calls has absorbed is the list of its bytes, the complete blocks of it are in the
  chaining state and the rest is at the start of the buffer. Padding and length words are
  those of the standards.
\<close>

section \<open>Blocks of a message\<close>

function chunks64 :: "'a list \<Rightarrow> 'a list list" where
  "chunks64 xs = (if length xs \<ge> 64 then take 64 xs # chunks64 (drop 64 xs) else [])"
  by auto
termination by (relation "measure length") auto

declare chunks64.simps [simp del]

lemma chunks64_short [simp]: "length xs < 64 \<Longrightarrow> chunks64 xs = []"
  by (simp add: chunks64.simps)

lemma chunks64_one: "length xs = 64 \<Longrightarrow> chunks64 xs = [xs]"
  by (simp add: chunks64.simps [of xs])

lemma chunks64_append: "64 dvd length xs \<Longrightarrow> chunks64 (xs @ ys) = chunks64 xs @ chunks64 ys"
proof (induction xs rule: chunks64.induct)
  case (1 xs)
  show ?case
  proof (cases "length xs \<ge> 64")
    case True
    have "64 dvd length (drop 64 xs)" using "1.prems" True by (simp add: dvd_diff_nat)
    with "1.IH" [OF True] show ?thesis
      using True by (simp add: chunks64.simps [of xs] chunks64.simps [of "xs @ ys"])
  next
    case False
    then have "xs = []" using "1.prems" by (auto dest: dvd_imp_le)
    then show ?thesis by simp
  qed
qed

section \<open>The stream of a block function\<close>

definition stream_at ::
    "('s \<Rightarrow> u8 list \<Rightarrow> 's) \<Rightarrow> 's \<Rightarrow> u8 list \<Rightarrow> 's \<Rightarrow> u8 list \<Rightarrow> bool" where
  "stream_at f s0 M s buf \<longleftrightarrow> s = foldl f s0 (chunks64 M) \<and> length buf = 64
     \<and> take (length M mod 64) buf = drop (length M - length M mod 64) M"

lemma stream_split:
  obtains A R where "M = A @ R" and "64 dvd length A" and "length R = length M mod 64"
    and "drop (length M - length M mod 64) M = R" and "chunks64 M = chunks64 A"
proof -
  let ?n = "length M - length M mod 64"
  have dvd: "64 dvd ?n" by (rule dvd_minus_mod)
  have "length M mod 64 \<le> length M" by simp
  then have len: "length (drop ?n M) = length M mod 64" "length (take ?n M) = ?n" by simp_all
  have "chunks64 M = chunks64 (take ?n M @ drop ?n M)" by simp
  also have "\<dots> = chunks64 (take ?n M)"
    by (subst chunks64_append) (simp_all only: len dvd, simp add: len(1))
  finally show thesis
    by (intro that [of "take ?n M" "drop ?n M"]) (use dvd len in simp_all)
qed

lemma stream_start: "length buf = 64 \<Longrightarrow> stream_at f s0 [] s0 buf"
  by (simp add: stream_at_def)

text \<open>Bytes that do not fill the buffer.\<close>

lemma stream_part:
  assumes "stream_at f s0 M s buf" and "length M mod 64 + length xs < 64"
  shows "stream_at f s0 (M @ xs) s (buf_copy buf (length M mod 64) xs)"
proof -
  obtain A R where M: "M = A @ R" "64 dvd length A" "length R = length M mod 64"
    "drop (length M - length M mod 64) M = R" "chunks64 M = chunks64 A" by (rule stream_split)
  let ?j = "length M mod 64"
  have mod: "length (M @ xs) mod 64 = ?j + length xs"
    using assms(2) by (metis length_append mod_add_left_eq mod_less)
  have "chunks64 (M @ xs) = chunks64 (A @ (R @ xs))" using M(1) by simp
  also have "\<dots> = chunks64 M"
    unfolding M(5) by (subst chunks64_append [OF M(2)]) (use M(3) assms(2) in simp)
  finally have chunks: "chunks64 (M @ xs) = chunks64 M" .
  have "length (M @ xs) - length (M @ xs) mod 64 = length M - ?j" using mod by simp
  then have "drop (length (M @ xs) - length (M @ xs) mod 64) (M @ xs) = R @ xs"
    using M(4) by simp
  moreover have "take (?j + length xs) (buf_copy buf ?j xs) = R @ xs"
    using assms M(3,4) by (simp add: buf_copy_def stream_at_def)
  ultimately show ?thesis
    using assms mod chunks M(3) by (simp add: stream_at_def buf_copy_def)
qed

text \<open>Bytes that fill it: one more block.\<close>

lemma stream_full:
  assumes "stream_at f s0 M s buf" and "length M mod 64 + length xs = 64" and "length buf' = 64"
  shows "stream_at f s0 (M @ xs) (f s (take (length M mod 64) buf @ xs)) buf'"
proof -
  obtain A R where M: "M = A @ R" "64 dvd length A" "length R = length M mod 64"
    "drop (length M - length M mod 64) M = R" "chunks64 M = chunks64 A" by (rule stream_split)
  have mod: "length (M @ xs) mod 64 = 0"
    using assms(2) by (metis length_append mod_add_left_eq mod_self)
  have "chunks64 (M @ xs) = chunks64 (A @ (R @ xs))" using M(1) by simp
  also have "\<dots> = chunks64 M @ [R @ xs]"
    unfolding M(5) by (subst chunks64_append [OF M(2)]) (use M(3) assms(2) in \<open>simp add: chunks64_one\<close>)
  finally show ?thesis
    using assms M(4) mod by (simp add: stream_at_def)
qed

lemma stream_done: "stream_at f s0 M s buf \<Longrightarrow> s = foldl f s0 (chunks64 M)"
  by (simp add: stream_at_def)

lemma stream_length: "stream_at f s0 M s buf \<Longrightarrow> length buf = 64"
  by (simp add: stream_at_def)

section \<open>MD5\<close>

definition md5_compress :: "md5_regs \<Rightarrow> u8 list \<Rightarrow> md5_regs" where
  "md5_compress sp b = xu_md5_transform sp (le_words 16 b)"

lemma md5_bytes:
  assumes "stream_at md5_compress s0 M sp ip"
  shows "\<exists>sp' ip'. foldl md5_byte (sp, ip, length M mod 64) xs = (sp', ip', length (M @ xs) mod 64)
    \<and> stream_at md5_compress s0 (M @ xs) sp' ip'"
  using assms
proof (induction xs arbitrary: M sp ip)
  case (Cons x xs)
  let ?j = "length M mod 64"
  have len: "length ip = 64" using Cons.prems by (rule stream_length)
  have j: "?j < 64" by simp
  have put: "ip[?j := x] = buf_copy ip ?j [x]"
    using len j by (simp add: buf_copy_def upd_conv_take_nth_drop)
  show ?case
  proof (cases "?j = 63")
    case True
    have full: "ip[?j := x] = take ?j ip @ [x]"
      using True len by (simp add: upd_conv_take_nth_drop)
    have "stream_at md5_compress s0 (M @ [x]) (md5_compress sp (take ?j ip @ [x])) (ip[?j := x])"
      by (rule stream_full [OF Cons.prems]) (use True len in auto)
    moreover have "length (M @ [x]) mod 64 = 0" using True by (simp add: mod_Suc)
    moreover have "md5_byte (sp, ip, ?j) x = (md5_compress sp (take ?j ip @ [x]), ip[?j := x], 0)"
      unfolding full [symmetric] using True by (simp add: md5_byte_def md5_compress_def Let_def)
    ultimately show ?thesis using Cons.IH [of "M @ [x]"] by simp
  next
    case False
    then have "stream_at md5_compress s0 (M @ [x]) sp (ip[?j := x])"
      unfolding put by (intro stream_part [OF Cons.prems]) (use j in auto)
    moreover have "length (M @ [x]) mod 64 = Suc ?j" using False by (simp add: mod_Suc)
    moreover have "md5_byte (sp, ip, ?j) x = (sp, ip[?j := x], Suc ?j)"
      using False by (simp add: md5_byte_def)
    ultimately show ?thesis using Cons.IH [of "M @ [x]"] by simp
  qed
qed simp

text \<open>The bit count, as the two words of it.\<close>

definition md5_at :: "md5_regs \<Rightarrow> u8 list \<Rightarrow> md5 \<Rightarrow> bool" where
  "md5_at s0 M m \<longleftrightarrow> md5_i0 m = of_nat (8 * length M) \<and> md5_i1 m = of_nat (8 * length M div 2 ^ 32)
     \<and> stream_at md5_compress s0 M (md5_sp m) (md5_ip m)"

lemma md5_index: "unat (drop_bit 3 (of_nat (8 * n) :: u32) AND 0x3F) = n mod 64"
proof -
  have m: "(0x3F :: u32) = mask 6" by (simp add: mask_eq_exp_minus_1)
  have "(8 * n) mod 2 ^ 32 = 8 * (n mod 2 ^ 29)"
    using mod_mult_mult1 [of 8 n "2 ^ 29"] by simp
  then have u: "unat (of_nat (8 * n) :: u32) = 8 * (n mod 2 ^ 29)"
    by (simp add: unat_of_nat del: of_nat_mult)
  have "unat (drop_bit 3 (of_nat (8 * n) :: u32) AND 0x3F) = 8 * (n mod 2 ^ 29) div 8 mod 64"
    unfolding m take_bit_eq_mask [symmetric]
    by (simp add: unsigned_take_bit_eq unsigned_drop_bit_eq take_bit_nat_def drop_bit_nat_def u
        del: of_nat_mult)
  also have "\<dots> = n mod 64" by (simp add: mod_mod_cancel)
  finally show ?thesis .
qed

lemma wrap_less:
  fixes N :: nat
  assumes "a < N" and "b < N"
  shows "(a + b) mod N < a \<longleftrightarrow> N \<le> a + b"
proof (cases "N \<le> a + b")
  case True
  then have "(a + b) mod N = a + b - N" using assms by (simp add: le_mod_geq)
  then show ?thesis using True assms by linarith
qed simp

lemma md5_count:
  assumes "s < 2 ^ 32"
  shows "(if of_nat (8 * n) + push_bit 3 (of_nat s) < (of_nat (8 * n) :: u32)
        then of_nat (8 * n div 2 ^ 32) + 1 else of_nat (8 * n div 2 ^ 32)) + drop_bit 29 (of_nat s :: u32)
      = (of_nat (8 * (n + s) div 2 ^ 32) :: u32)"
    and "of_nat (8 * n) + push_bit 3 (of_nat s) = (of_nat (8 * (n + s)) :: u32)"
proof -
  let ?a = "of_nat (8 * n) :: u32" and ?b = "of_nat (8 * s) :: u32"
  have push: "push_bit 3 (of_nat s) = ?b" by (simp add: push_bit_eq_mult)
  have us: "unat (of_nat s :: u32) = s" using assms by (simp add: unat_of_nat)
  have drop: "drop_bit 29 (of_nat s :: u32) = of_nat (8 * s div 2 ^ 32)"
  proof -
    have "drop_bit 29 (of_nat s :: u32) = of_nat (unat (drop_bit 29 (of_nat s :: u32)))" by simp
    also have "unat (drop_bit 29 (of_nat s :: u32)) = s div 2 ^ 29"
      using assms by (simp add: unsigned_drop_bit_eq us drop_bit_nat_def take_bit_nat_eq_self)
    finally show ?thesis using div_mult_mult1 [of 8 s "2 ^ 29"] by simp
  qed
  have ua: "unat ?a = 8 * n mod 2 ^ 32" "unat ?b = 8 * s mod 2 ^ 32"
    by (simp_all add: unat_of_nat del: of_nat_mult)
  have carry: "?a + ?b < ?a \<longleftrightarrow> 2 ^ 32 \<le> 8 * n mod 2 ^ 32 + 8 * s mod 2 ^ 32"
  proof -
    have "8 * n mod 2 ^ 32 < (2 ^ 32 :: nat)" "8 * s mod 2 ^ 32 < (2 ^ 32 :: nat)" by simp_all
    then show ?thesis
      unfolding word_less_nat_alt unat_word_ariths ua using wrap_less by simp
  qed
  have div: "8 * (n + s) div 2 ^ 32 = 8 * n div 2 ^ 32 + 8 * s div 2 ^ 32
      + (if 2 ^ 32 \<le> 8 * n mod 2 ^ 32 + 8 * s mod 2 ^ 32 then 1 else 0)"
  proof -
    have lt: "8 * n mod 2 ^ 32 < (2 ^ 32 :: nat)" "8 * s mod 2 ^ 32 < (2 ^ 32 :: nat)" by simp_all
    have "8 * (n + s) div 2 ^ 32 = 8 * n div 2 ^ 32 + 8 * s div 2 ^ 32
        + (8 * n mod 2 ^ 32 + 8 * s mod 2 ^ 32) div 2 ^ 32"
      unfolding distrib_left by (rule div_add1_eq)
    moreover have "(8 * n mod 2 ^ 32 + 8 * s mod 2 ^ 32) div 2 ^ 32
        = (if 2 ^ 32 \<le> 8 * n mod 2 ^ 32 + 8 * s mod 2 ^ 32 then 1 else (0 :: nat))"
      using lt by (auto simp: div_nat_eqI)
    ultimately show ?thesis by simp
  qed
  show "(if ?a + push_bit 3 (of_nat s) < ?a then of_nat (8 * n div 2 ^ 32) + 1
      else of_nat (8 * n div 2 ^ 32)) + drop_bit 29 (of_nat s :: u32) = (of_nat (8 * (n + s) div 2 ^ 32) :: u32)"
    unfolding push drop carry div by simp
  show "?a + push_bit 3 (of_nat s) = (of_nat (8 * (n + s)) :: u32)"
    unfolding push by (simp add: algebra_simps)
qed

lemma md5_spak_at:
  assumes "md5_at s0 M m" and "length xs < 2 ^ 32"
  shows "md5_at s0 (M @ xs) (xu_md5_spak m xs)"
proof -
  have at: "md5_i0 m = of_nat (8 * length M)" "md5_i1 m = of_nat (8 * length M div 2 ^ 32)"
    "stream_at md5_compress s0 M (md5_sp m) (md5_ip m)" using assms(1) by (simp_all add: md5_at_def)
  obtain sp' ip' where f: "foldl md5_byte (md5_sp m, md5_ip m, length M mod 64) xs
      = (sp', ip', length (M @ xs) mod 64)" "stream_at md5_compress s0 (M @ xs) sp' ip'"
    using md5_bytes [OF at(3)] by blast
  show ?thesis
    using f at(1,2) md5_index [of "length M"] md5_count [OF assms(2), of "length M"]
    by (simp only: md5_at_def xu_md5_spak_def Let_def length_append prod.case simp_thms) simp
qed

lemma length_md5_store [simp]: "length (md5_store w) = 4"
  by (simp add: md5_store_def)

lemma byte_mask: "(0xff :: u32) = mask 8"
  by (simp add: mask_eq_exp_minus_1)

lemma bytes_join:
  fixes w :: u32
  shows "push_bit 24 (ucast (ucast (drop_bit 24 w AND mask 8) :: u8))
    OR push_bit 16 (ucast (ucast (drop_bit 16 w AND mask 8) :: u8))
    OR push_bit 8 (ucast (ucast (drop_bit 8 w AND mask 8) :: u8))
    OR ucast (ucast (w AND mask 8) :: u8) = w" (is "?l = w")
proof (rule bit_word_eqI)
  fix n assume "n < LENGTH(32)"
  then consider "n < 8" | "8 \<le> n" "n < 16" | "16 \<le> n" "n < 24" | "24 \<le> n" "n < 32"
    by fastforce
  then show "bit ?l n = bit w n"
    by cases (simp_all add: bit_simps less_diff_conv2)
qed

lemma le_word_store: "le_word (xs @ md5_store w @ ys) (length xs) = w"
proof -
  have "le_word (md5_store w @ ys) 0 = w"
    by (simp add: le_word_def md5_store_def byte_mask bytes_join)
  then show ?thesis by (simp add: le_word_def nth_append numeral_2_eq_2 numeral_3_eq_3)
qed

lemma le_words_Suc: "le_words (Suc n) b = le_words n b @ [le_word b (4 * n)]"
  by (simp add: le_words_def)

lemma le_words_take: "4 * n \<le> k \<Longrightarrow> k \<le> length b \<Longrightarrow> le_words n (take k b @ xs) = le_words n b"
  by (auto simp: le_words_def le_word_def nth_append)

text \<open>The standard padding: a one bit, zeros up to 56 modulo 64, the bit count.\<close>

definition pad_zeros :: "nat \<Rightarrow> nat" where
  "pad_zeros n = (if n mod 64 < 56 then 55 - n mod 64 else 119 - n mod 64)"

definition md5_padded :: "u8 list \<Rightarrow> u8 list" where
  "md5_padded M = M @ 0x80 # replicate (pad_zeros (length M)) 0
     @ md5_store (of_nat (8 * length M)) @ md5_store (of_nat (8 * length M div 2 ^ 32))"

definition md5_digest :: "md5_regs \<Rightarrow> u8 list \<Rightarrow> u8 list" where
  "md5_digest s0 M = (case foldl md5_compress s0 (chunks64 (md5_padded M)) of
     (a, b, c, d) \<Rightarrow> md5_store a @ md5_store b @ md5_store c @ md5_store d)"

lemma pad_zeros_mod: "(n + Suc (pad_zeros n)) mod 64 = 56"
proof -
  have "n mod 64 < 64" by simp
  then have "(n mod 64 + Suc (pad_zeros n)) mod 64 = 56"
    by (cases "n mod 64 < 56") (simp_all add: pad_zeros_def)
  then show ?thesis by (metis mod_add_left_eq)
qed

lemma pad_zeros_less: "pad_zeros n < 64"
proof (cases "n mod 64 < 56")
  case False
  then have "119 - n mod 64 < 64" by linarith
  then show ?thesis using False by (simp add: pad_zeros_def)
qed (simp add: pad_zeros_def)

lemma md5_exit_digest:
  assumes "md5_at s0 M m"
  shows "snd (xu_md5_exit m) = md5_digest s0 M"
proof -
  let ?z = "pad_zeros (length M)" and ?L0 = "of_nat (8 * length M) :: u32"
  let ?L1 = "of_nat (8 * length M div 2 ^ 32) :: u32"
  let ?P = "0x80 # replicate ?z 0" and ?n = "length M mod 64"
  have n: "?n < 64" by simp
  have at: "md5_i0 m = ?L0" "md5_i1 m = ?L1" using assms by (simp_all add: md5_at_def)
  have mdi: "unat (drop_bit 3 ?L0 AND 0x3F) = ?n" by (rule md5_index)
  have pad: "take (if ?n < 56 then 56 - ?n else 120 - ?n) g_md5_padding = ?P"
    using n by (auto simp: g_md5_padding_def pad_zeros_def take_Cons' min_def Suc_diff_le)
  let ?m = "xu_md5_spak m ?P"
  have "md5_at s0 (M @ ?P) ?m"
    by (rule md5_spak_at [OF assms]) (use pad_zeros_less [of "length M"] in simp)
  then have st: "stream_at md5_compress s0 (M @ ?P) (md5_sp ?m) (md5_ip ?m)"
    by (simp add: md5_at_def)
  have mod: "length (M @ ?P) mod 64 = 56" using pad_zeros_mod [of "length M"] by simp
  have len: "length (md5_ip ?m) = 64" using st by (rule stream_length)
  let ?S = "md5_store ?L0 @ md5_store ?L1"
  have "stream_at md5_compress s0 ((M @ ?P) @ ?S) (md5_compress (md5_sp ?m) (take 56 (md5_ip ?m) @ ?S)) (md5_ip ?m)"
    using stream_full [OF st, of ?S "md5_ip ?m"] mod len by simp
  then have fold: "md5_compress (md5_sp ?m) (take 56 (md5_ip ?m) @ ?S)
      = foldl md5_compress s0 (chunks64 (md5_padded M))"
    by (simp add: stream_at_def md5_padded_def)
  let ?T = "take 56 (md5_ip ?m)"
  have T: "length ?T = 56" using len by simp
  have "le_words 16 (?T @ ?S) = le_words 14 (?T @ ?S) @ [le_word (?T @ ?S) 56, le_word (?T @ ?S) 60]"
    using le_words_Suc [of 14 "?T @ ?S"] le_words_Suc [of 15 "?T @ ?S"] by simp
  also have "le_word (?T @ ?S) 56 = ?L0"
    using le_word_store [of ?T ?L0 "md5_store ?L1"] T by simp
  also have "le_word (?T @ ?S) 60 = ?L1"
    using le_word_store [of "?T @ md5_store ?L0" ?L1 "[]"] T by simp
  also have "le_words 14 (?T @ ?S) = le_words 14 (md5_ip ?m)"
    by (rule le_words_take) (use len in simp_all)
  finally have "xu_md5_transform (md5_sp ?m) (le_words 14 (md5_ip ?m) @ [?L0, ?L1])
      = foldl md5_compress s0 (chunks64 (md5_padded M))"
    using fold by (simp add: md5_compress_def)
  then show ?thesis
    unfolding xu_md5_exit_def Let_def at mdi pad md5_digest_def by simp
qed

section \<open>SHA\<close>

definition sha_at :: "u32 list \<Rightarrow> u8 list \<Rightarrow> sha \<Rightarrow> bool" where
  "sha_at s0 M s \<longleftrightarrow> sha_count s = of_nat (length M)
     \<and> stream_at (sha_transform s) s0 M (sha_state s) (sha_buffer s)"

lemma sha_index: "unat ((ucast (of_nat n :: u64) :: u32) AND 63) = n mod 64"
proof -
  have m: "(63 :: u32) = mask 6" by (simp add: mask_eq_exp_minus_1)
  have u: "unat (of_nat n :: u64) = n mod 2 ^ 64" by (simp add: unat_of_nat)
  have "unat ((ucast (of_nat n :: u64) :: u32) AND 63) = n mod 2 ^ 64 mod 2 ^ 32 mod 64"
    unfolding m take_bit_eq_mask [symmetric] unsigned_take_bit_eq unsigned_ucast_eq u
    by (simp add: take_bit_nat_def)
  then show ?thesis by (simp add: mod_mod_cancel)
qed

lemma sha_count_mod: "(of_nat n :: u64) AND 63 = of_nat (n mod 64)"
proof -
  have m: "(63 :: u64) = mask 6" by (simp add: mask_eq_exp_minus_1)
  show ?thesis
    unfolding m take_bit_eq_mask [symmetric]
    by (simp add: take_bit_of_nat take_bit_nat_def flip: of_nat_mod)
qed

lemma buf_copy_length: "length xs \<le> length buf - j \<Longrightarrow> j \<le> length buf \<Longrightarrow> length (buf_copy buf j xs) = length buf"
  by (simp add: buf_copy_def)

text \<open>The block loop returns, and absorbs all but the last incomplete block.\<close>

lemma sha_blocks_stream:
  assumes "stream_at f s0 (M @ take i data) st buf" and "(length M + i) mod 64 = 0"
    and "i \<le> length data" and "length data < 2 ^ 32 - 64"
  shows "\<exists>i' st'. sha_blocks f data i st = Some (i', st') \<and> i' \<le> length data
    \<and> length data - i' < 64 \<and> (length M + i') mod 64 = 0
    \<and> stream_at f s0 (M @ take i' data) st' buf"
  using assms
proof (induction "length data - i" arbitrary: i st rule: less_induct)
  case less
  show ?case
  proof (cases "i + 63 < length data")
    case True
    have step: "sha_blocks f data i st = sha_blocks f data (i + 64) (f st (take 64 (drop i data)))"
      using True less.prems(4) by (simp add: sha_blocks.simps [of f data i])
    let ?b = "take 64 (drop i data)"
    have mod: "length (M @ take i data) mod 64 = 0" using less.prems(2,3) by simp
    have "stream_at f s0 ((M @ take i data) @ ?b) (f st ?b) buf"
      using stream_full [OF less.prems(1), of ?b buf] mod True stream_length [OF less.prems(1)] by simp
    moreover have "take i data @ ?b = take (i + 64) data" by (simp add: take_add)
    ultimately have "stream_at f s0 (M @ take (i + 64) data) (f st ?b) buf" by simp
    moreover have "(length M + (i + 64)) mod 64 = 0"
      using less.prems(2) by (metis add.assoc mod_add_self2)
    ultimately show ?thesis
      using less.hyps [of "i + 64"] True less.prems(4) unfolding step by simp
  next
    case False
    then show ?thesis
      using less.prems by (simp add: sha_blocks.simps [of f data i])
  qed
qed

lemma sha_spak_at:
  assumes "sha_at s0 M s" and "length data < 2 ^ 32 - 64"
  shows "\<exists>s'. xu_sha_spak s data = Some s' \<and> sha_at s0 (M @ data) s'
    \<and> sha_transform s' = sha_transform s \<and> sha_digest_len s' = sha_digest_len s"
proof -
  let ?j = "length M mod 64" and ?f = "sha_transform s"
  have at: "sha_count s = of_nat (length M)" "stream_at ?f s0 M (sha_state s) (sha_buffer s)"
    using assms(1) by (simp_all add: sha_at_def)
  have j: "?j < 64" and len: "length (sha_buffer s) = 64"
    using stream_length [OF at(2)] by simp_all
  have idx: "unat ((ucast (sha_count s) :: u32) AND 63) = ?j"
    unfolding at(1) by (rule sha_index)
  show ?thesis
  proof (cases "?j + length data > 63")
    case False
    then have "stream_at ?f s0 (M @ data) (sha_state s) (buf_copy (sha_buffer s) ?j data)"
      by (intro stream_part [OF at(2)]) simp
    moreover have "xu_sha_spak s data = Some (s\<lparr>sha_count := sha_count s + of_nat (length data),
        sha_buffer := buf_copy (sha_buffer s) ?j data\<rparr>)"
      using False by (simp add: xu_sha_spak_def Let_def idx)
    ultimately show ?thesis using at(1) by (simp add: sha_at_def)
  next
    case True
    let ?i = "64 - ?j"
    let ?buf = "buf_copy (sha_buffer s) ?j (take ?i data)"
    have ti: "length (take ?i data) = ?i" using True by simp
    then have buf: "?buf = take ?j (sha_buffer s) @ take ?i data"
      using len by (simp add: buf_copy_def)
    have bl: "length ?buf = 64" using buf len ti j by simp
    have st: "stream_at ?f s0 (M @ take ?i data) (?f (sha_state s) ?buf) ?buf"
      using stream_full [OF at(2), of "take ?i data" ?buf] ti bl j unfolding buf by simp
    have mod: "(length M + ?i) mod 64 = 0"
      using j by (metis le_add_diff_inverse less_imp_le mod_add_left_eq mod_self)
    have le: "?i \<le> length data" using True by simp
    obtain i' st' where b: "sha_blocks ?f data ?i (?f (sha_state s) ?buf) = Some (i', st')"
      "i' \<le> length data" "length data - i' < 64" "(length M + i') mod 64 = 0"
      "stream_at ?f s0 (M @ take i' data) st' ?buf"
      using sha_blocks_stream [OF st mod le assms(2)] by (elim exE conjE) (rule that)
    have "stream_at ?f s0 ((M @ take i' data) @ drop i' data) st' (buf_copy ?buf 0 (drop i' data))"
      using stream_part [OF b(5), of "drop i' data"] b(2-4) by simp
    moreover have "xu_sha_spak s data = Some (s\<lparr>sha_count := sha_count s + of_nat (length data),
        sha_buffer := buf_copy ?buf 0 (drop i' data), sha_state := st'\<rparr>)"
      using True b(1) by (simp add: xu_sha_spak_def Let_def idx)
    ultimately show ?thesis using at(1) by (simp add: sha_at_def)
  qed
qed

lemma sha_pad_at:
  assumes "sha_at s0 M s"
  shows "\<exists>s'. sha_pad s = Some s' \<and> sha_at s0 (M @ replicate ((120 - length M mod 64) mod 64) 0) s'
    \<and> sha_transform s' = sha_transform s \<and> sha_digest_len s' = sha_digest_len s"
  using assms
proof (induction "(120 - length M mod 64) mod 64" arbitrary: M s rule: less_induct)
  case less
  let ?n = "length M mod 64" and ?k = "(120 - length M mod 64) mod 64"
  have n: "?n < 64" by simp
  have cnt: "(sha_count s AND 63 = 56) = (?n = 56)"
  proof -
    have "unat (of_nat ?n :: u64) = ?n" using n by (simp add: unat_of_nat)
    moreover have "unat (56 :: u64) = 56" by simp
    ultimately have "of_nat ?n = (56 :: u64) \<longleftrightarrow> ?n = 56" by (metis of_nat_numeral)
    then show ?thesis using less.prems by (simp add: sha_at_def sha_count_mod)
  qed
  show ?case
  proof (cases "?n = 56")
    case True
    then show ?thesis using less.prems cnt by (simp add: sha_pad.simps [of s])
  next
    case False
    obtain s1 where s1: "xu_sha_spak s [0] = Some s1" "sha_at s0 (M @ [0]) s1"
      "sha_transform s1 = sha_transform s" "sha_digest_len s1 = sha_digest_len s"
      using sha_spak_at [OF less.prems, of "[0]"] by auto
    have k: "?k = Suc ((120 - length (M @ [0::u8]) mod 64) mod 64)"
    proof -
      consider "?n < 56" | "56 < ?n" "?n < 63" | "?n = 63" using False n by linarith
      then show ?thesis by cases (auto simp: mod_Suc le_mod_geq)
    qed
    then obtain s' where "sha_pad s1 = Some s'"
      "sha_at s0 ((M @ [0]) @ replicate ((120 - length (M @ [0::u8]) mod 64) mod 64) 0) s'"
      "sha_transform s' = sha_transform s1" "sha_digest_len s' = sha_digest_len s1"
      using less.hyps [of "M @ [0]", OF _ s1(2)] by auto
    then show ?thesis
      using False cnt s1 k by (simp add: sha_pad.simps [of s])
  qed
qed

text \<open>The padding of the standard, and the digest of the whole message.\<close>

definition sha_padded :: "u8 list \<Rightarrow> u8 list" where
  "sha_padded M = M @ 0x80 # replicate (pad_zeros (length M)) 0 @ be_bytes64 (of_nat (8 * length M))"

definition sha_digest :: "(u32 list \<Rightarrow> u8 list \<Rightarrow> u32 list) \<Rightarrow> u32 list \<Rightarrow> nat \<Rightarrow> u8 list \<Rightarrow> u8 list" where
  "sha_digest f s0 n M =
     (let s = foldl f s0 (chunks64 (sha_padded M)) in concat (map (\<lambda>i. be_bytes32 (s ! i)) [0..<n]))"

lemma length_be_bytes64 [simp]: "length (be_bytes64 w) = 8"
  by (simp add: be_bytes64_def)

lemma sha_zeros: "(120 - length (M @ [0x80 :: u8]) mod 64) mod 64 = pad_zeros (length M)"
proof -
  have n: "length M mod 64 < 64" by simp
  consider "length M mod 64 < 56" | "56 \<le> length M mod 64" "length M mod 64 < 63" | "length M mod 64 = 63"
    using n by linarith
  then show ?thesis by cases (simp_all add: mod_Suc pad_zeros_def le_mod_geq)
qed

lemma length_sha_digest [simp]: "length (sha_digest f s0 n M) = 4 * n"
  by (simp add: sha_digest_def Let_def length_concat be_bytes32_def comp_def sum_list_triv)

lemma sha_exit_digest:
  assumes "sha_at s0 M s"
  shows "xu_sha_exit s ob = (if 4 * sha_digest_len s \<le> length ob
    then Some (buf_copy ob 0 (sha_digest (sha_transform s) s0 (sha_digest_len s) M)) else None)"
proof -
  let ?z = "replicate (pad_zeros (length M)) 0" and ?L = "be_bytes64 (of_nat (8 * length M))"
  obtain s1 where s1: "xu_sha_spak s [0x80] = Some s1" "sha_at s0 (M @ [0x80]) s1"
    "sha_transform s1 = sha_transform s" "sha_digest_len s1 = sha_digest_len s"
    using sha_spak_at [OF assms, of "[0x80]"] by auto
  obtain s2 where s2: "sha_pad s1 = Some s2" "sha_at s0 ((M @ [0x80]) @ ?z) s2"
    "sha_transform s2 = sha_transform s1" "sha_digest_len s2 = sha_digest_len s1"
    using sha_pad_at [OF s1(2)] unfolding sha_zeros by auto
  obtain s3 where s3: "xu_sha_spak s2 ?L = Some s3" "sha_at s0 (((M @ [0x80]) @ ?z) @ ?L) s3"
    "sha_transform s3 = sha_transform s2" "sha_digest_len s3 = sha_digest_len s2"
    using sha_spak_at [OF s2(2), of ?L] by auto
  have L: "be_bytes64 (push_bit 3 (sha_count s)) = ?L"
    using assms by (simp add: sha_at_def push_bit_eq_mult mult.commute)
  have "sha_state s3 = foldl (sha_transform s) s0 (chunks64 (sha_padded M))"
    using s3 s2(3) s1(3) by (simp add: sha_at_def stream_at_def sha_padded_def)
  then show ?thesis
    using s1(1,4) s2(1,4) s3(1,4) by (simp add: xu_sha_exit_def L sha_digest_def Let_def)
qed

lemma sha_init_modes:
  assumes "mode \<in> {160, 224, 256}"
  obtains s where "xu_sha_init mode = Some s" and "sha_at (sha_state s) [] s"
    and "sha_digest_len s = mode div 32"
  using assms
  by (auto simp: xu_sha_init_def XU_SHA_MODE_SHA1_160_def XU_SHA_MODE_SHA2_224_def
      XU_SHA_MODE_SHA2_256_def sha_at_def stream_start)

section \<open>The unrolled SHA-1 transform\<close>

lemma sha1_turns:
  "i < 16 \<Longrightarrow> sha1_step sha1_choose 0x5a827999 XU_SHA_BLK0 b s i = sha1_small_turn b s i"
  "16 \<le> i \<Longrightarrow> i < 20 \<Longrightarrow> sha1_step sha1_choose 0x5a827999 XU_SHA_BLK b s i = sha1_small_turn b s i"
  "20 \<le> i \<Longrightarrow> i < 40 \<Longrightarrow> sha1_step sha1_parity 0x6ed9eba1 XU_SHA_BLK b s i = sha1_small_turn b s i"
  "40 \<le> i \<Longrightarrow> i < 60 \<Longrightarrow> sha1_step sha1_major 0x8f1bbcdc XU_SHA_BLK b s i = sha1_small_turn b s i"
  "60 \<le> i \<Longrightarrow> sha1_step sha1_parity 0xca62c1d6 XU_SHA_BLK b s i = sha1_small_turn b s i"
  by (auto simp: sha1_step_def sha1_small_turn_def Let_def sha1_choose_def sha1_parity_def
      sha1_major_def XU_SHA_BLK0_def XU_SHA_BLK_def split: prod.splits)

lemma fold_turns:
  "(\<And>s i. lo \<le> i \<Longrightarrow> i < hi \<Longrightarrow> f s i = g s i) \<Longrightarrow> foldl f s [lo..<hi] = foldl g s [lo..<hi]"
  by (rule foldl_cong) auto

lemma sha1_folds:
  "foldl (sha1_step sha1_choose 0x5a827999 XU_SHA_BLK0 b) s [0..<16] = foldl (sha1_small_turn b) s [0..<16]"
  "foldl (sha1_step sha1_choose 0x5a827999 XU_SHA_BLK b) s [16..<20] = foldl (sha1_small_turn b) s [16..<20]"
  "foldl (sha1_step sha1_parity 0x6ed9eba1 XU_SHA_BLK b) s [20..<40] = foldl (sha1_small_turn b) s [20..<40]"
  "foldl (sha1_step sha1_major 0x8f1bbcdc XU_SHA_BLK b) s [40..<60] = foldl (sha1_small_turn b) s [40..<60]"
  "foldl (sha1_step sha1_parity 0xca62c1d6 XU_SHA_BLK b) s [60..<80] = foldl (sha1_small_turn b) s [60..<80]"
  by (rule fold_turns, rule sha1_turns, assumption+)+

lemma upt_split: "i \<le> j \<Longrightarrow> j \<le> k \<Longrightarrow> [i..<k] = [i..<j] @ [j..<k]"
  by (metis le_iff_add upt_add_eq_append)

section \<open>The properties\<close>

lemma md5_spaks_at:
  assumes "md5_at s0 M m" and "\<forall>xs \<in> set xss. length xs < 2 ^ 32"
  shows "md5_at s0 (M @ concat xss) (foldl xu_md5_spak m xss)"
  using assms
proof (induction xss arbitrary: M m)
  case (Cons xs xss)
  from md5_spak_at [OF Cons.prems(1), of xs] Cons.prems(2) show ?case
    using Cons.IH [of "M @ xs" "xu_md5_spak m xs"] by simp
qed simp

text \<open>C13. The streaming MD5 computes the digest of the padded message: absorbing any number of pieces, each of less than
  \<open>2 ^ 32\<close> bytes, and then finishing gives the same as folding the transform over the blocks
  of the whole message with the standard padding, and the two words of the bit count carry
  as a 64-bit count does. The carry is read off the low 32 bits of the size of a piece, so a longer piece is outside this
  claim.\<close>

theorem xu_md5_stream_correct:
  assumes "\<forall>xs \<in> set xss. length xs < 2 ^ 32" and "length (md5_ip m) = 64"
  shows "snd (xu_md5_exit (foldl xu_md5_spak (xu_md5_init r m) xss))
    = md5_digest (md5_sp (xu_md5_init r m)) (concat xss)"
proof -
  let ?m = "xu_md5_init r m"
  have "md5_at (md5_sp ?m) [] ?m"
    using assms(2) by (simp add: md5_at_def xu_md5_init_def stream_start)
  from md5_spaks_at [OF this assms(1)] show ?thesis using md5_exit_digest by simp
qed

definition example_md5 :: md5 where
  "example_md5 = \<lparr>md5_i0 = 0, md5_i1 = 0, md5_sp = (0, 0, 0, 0), md5_ip = replicate 64 0, md5_data = []\<rparr>"

theorem xu_md5_stream_correct_witness:
  "snd (xu_md5_exit (xu_md5_spak (xu_md5_spak (xu_md5_init 0 example_md5) [0x61]) [0x62, 0x63]))
    = md5_digest (0x67452301, 0xefcdab89, 0x98badcfe, 0x10325476) [0x61, 0x62, 0x63]"
  using xu_md5_stream_correct [of "[[0x61], [0x62, 0x63]]" example_md5 0]
  by (simp add: example_md5_def xu_md5_init_def)



text \<open>The size check of \<open>xu_sha_make\<close> is that of MD5: an output buffer of at least 16 bytes
  that is shorter than the digest passes it and is written past its end.\<close>

theorem xu_sha_make_overruns:
  assumes "mode \<in> {160, 224, 256}" and "ib \<noteq> []" and "length ib < 2 ^ 32 - 64"
    and "16 \<le> length ob" and "length ob < 4 * (mode div 32)"
  shows "xu_sha_make mode (Some ib) (Some ob) = None"
proof -
  obtain s where s: "xu_sha_init mode = Some s" "sha_at (sha_state s) [] s"
    "sha_digest_len s = mode div 32" using assms(1) by (rule sha_init_modes)
  obtain s1 where s1: "xu_sha_spak s ib = Some s1" "sha_at (sha_state s) ib s1"
    "sha_digest_len s1 = sha_digest_len s"
    using sha_spak_at [OF s(2) assms(3)] by auto
  show ?thesis
    using s s1 assms(2,4,5) sha_exit_digest [OF s1(2), of ob] by (simp add: xu_sha_make_def)
qed

theorem xu_sha_make_overruns_witness:
  "xu_sha_make 256 (Some [1]) (Some (replicate 16 0)) = None"
  using xu_sha_make_overruns [of 256 "[1]" "replicate 16 0"] by simp

text \<open>C15. The unrolled SHA-1 transform with rotated register arguments is the compact loop that is
  compiled for small targets.\<close>

theorem xu_sha1_unrolled_is_loop:
  "xu_sha_transform_sha1 state buffer = sha_transform_sha1_small state buffer"
proof -
  have r: "[0..<80] = [0..<16] @ [16..<20] @ [20..<40] @ [40..<60] @ [60..<80]"
    by (simp only: upt_split [of 0 16 80] upt_split [of 16 20 80] upt_split [of 20 40 80]
        upt_split [of 40 60 80] zero_le numeral_le_iff semiring_norm)
  show ?thesis
    unfolding xu_sha_transform_sha1_def sha_transform_sha1_small_def Let_def sha1_folds r
    by (simp only: foldl_append)
qed

end
