(* ===== verification/XBits.thy ===== *)
theory XBits
  imports XPrelude
begin

text \<open>
  \<^verbatim>\<open>xutil/utils/bits.c\<close> and the portable accessors of \<^verbatim>\<open>bits.h\<close>: integers of
  8 to 64 bits in either byte order, and bit fields of up to 64 bits at any bit position,
  most significant bit first. Memory is the list of its bytes and a pointer is an index;
  an access outside the list is none. Signed results are words, read with \<open>sint\<close>.
\<close>

unbundle bit_operations_syntax

section \<open>Memory\<close>

definition mem_ok :: "u8 list \<Rightarrow> nat \<Rightarrow> nat \<Rightarrow> bool" where
  "mem_ok m p k \<longleftrightarrow> p + k \<le> length m"

definition put_bytes :: "u8 list \<Rightarrow> nat \<Rightarrow> u8 list \<Rightarrow> u8 list" where
  "put_bytes m p bs = take p m @ bs @ drop (p + length bs) m"

section \<open>Whole bytes\<close>

definition xu_bits_get_u1 :: "u8 list \<Rightarrow> nat \<Rightarrow> u8" where
  "xu_bits_get_u1 m p = drop_bit 7 (m ! p) AND 1"

definition xu_bits_set_u1 :: "u8 list \<Rightarrow> nat \<Rightarrow> u32 \<Rightarrow> u8 list" where
  "xu_bits_set_u1 m p x = m[p := ((m ! p) AND 0x7f) OR ucast (push_bit 7 (x AND 1))]"

definition xu_bits_get_u16_le :: "u8 list \<Rightarrow> nat \<Rightarrow> u16" where
  "xu_bits_get_u16_le m p = push_bit 8 (ucast (m ! (p + 1))) OR ucast (m ! p)"

definition xu_bits_get_u16_be :: "u8 list \<Rightarrow> nat \<Rightarrow> u16" where
  "xu_bits_get_u16_be m p = push_bit 8 (ucast (m ! p)) OR ucast (m ! (p + 1))"

definition xu_bits_set_u16_le :: "u8 list \<Rightarrow> nat \<Rightarrow> u16 \<Rightarrow> u8 list" where
  "xu_bits_set_u16_le m p x = put_bytes m p [ucast x, ucast (drop_bit 8 x)]"

definition xu_bits_set_u16_be :: "u8 list \<Rightarrow> nat \<Rightarrow> u16 \<Rightarrow> u8 list" where
  "xu_bits_set_u16_be m p x = put_bytes m p [ucast (drop_bit 8 x), ucast x]"

definition xu_bits_get_u24_le :: "u8 list \<Rightarrow> nat \<Rightarrow> u32" where
  "xu_bits_get_u24_le m p =
     push_bit 16 (ucast (m ! (p + 2))) OR push_bit 8 (ucast (m ! (p + 1))) OR ucast (m ! p)"

definition xu_bits_get_u24_be :: "u8 list \<Rightarrow> nat \<Rightarrow> u32" where
  "xu_bits_get_u24_be m p =
     push_bit 16 (ucast (m ! p)) OR push_bit 8 (ucast (m ! (p + 1))) OR ucast (m ! (p + 2))"

definition xu_bits_get_s24_le :: "u8 list \<Rightarrow> nat \<Rightarrow> u32" where
  "xu_bits_get_s24_le m p = (xu_bits_get_u24_le m p + 0xff800000) XOR 0xff800000"

definition xu_bits_get_s24_be :: "u8 list \<Rightarrow> nat \<Rightarrow> u32" where
  "xu_bits_get_s24_be m p = (xu_bits_get_u24_be m p + 0xff800000) XOR 0xff800000"

definition xu_bits_set_u24_le :: "u8 list \<Rightarrow> nat \<Rightarrow> u32 \<Rightarrow> u8 list" where
  "xu_bits_set_u24_le m p x = put_bytes m p [ucast x, ucast (drop_bit 8 x), ucast (drop_bit 16 x)]"

definition xu_bits_set_u24_be :: "u8 list \<Rightarrow> nat \<Rightarrow> u32 \<Rightarrow> u8 list" where
  "xu_bits_set_u24_be m p x = put_bytes m p [ucast (drop_bit 16 x), ucast (drop_bit 8 x), ucast x]"

definition xu_bits_get_u32_le :: "u8 list \<Rightarrow> nat \<Rightarrow> u32" where
  "xu_bits_get_u32_le m p = push_bit 24 (ucast (m ! (p + 3))) OR push_bit 16 (ucast (m ! (p + 2)))
     OR push_bit 8 (ucast (m ! (p + 1))) OR ucast (m ! p)"

definition xu_bits_get_u32_be :: "u8 list \<Rightarrow> nat \<Rightarrow> u32" where
  "xu_bits_get_u32_be m p = push_bit 24 (ucast (m ! p)) OR push_bit 16 (ucast (m ! (p + 1)))
     OR push_bit 8 (ucast (m ! (p + 2))) OR ucast (m ! (p + 3))"

definition xu_bits_set_u32_le :: "u8 list \<Rightarrow> nat \<Rightarrow> u32 \<Rightarrow> u8 list" where
  "xu_bits_set_u32_le m p x =
     put_bytes m p [ucast x, ucast (drop_bit 8 x), ucast (drop_bit 16 x), ucast (drop_bit 24 x)]"

definition xu_bits_set_u32_be :: "u8 list \<Rightarrow> nat \<Rightarrow> u32 \<Rightarrow> u8 list" where
  "xu_bits_set_u32_be m p x =
     put_bytes m p [ucast (drop_bit 24 x), ucast (drop_bit 16 x), ucast (drop_bit 8 x), ucast x]"

definition xu_bits_get_u64_le :: "u8 list \<Rightarrow> nat \<Rightarrow> u64" where
  "xu_bits_get_u64_le m p =
     push_bit 56 (ucast (m ! (p + 7))) OR push_bit 48 (ucast (m ! (p + 6)))
     OR push_bit 40 (ucast (m ! (p + 5))) OR push_bit 32 (ucast (m ! (p + 4)))
     OR push_bit 24 (ucast (m ! (p + 3))) OR push_bit 16 (ucast (m ! (p + 2)))
     OR push_bit 8 (ucast (m ! (p + 1))) OR ucast (m ! p)"

definition xu_bits_get_u64_be :: "u8 list \<Rightarrow> nat \<Rightarrow> u64" where
  "xu_bits_get_u64_be m p =
     push_bit 56 (ucast (m ! p)) OR push_bit 48 (ucast (m ! (p + 1)))
     OR push_bit 40 (ucast (m ! (p + 2))) OR push_bit 32 (ucast (m ! (p + 3)))
     OR push_bit 24 (ucast (m ! (p + 4))) OR push_bit 16 (ucast (m ! (p + 5)))
     OR push_bit 8 (ucast (m ! (p + 6))) OR ucast (m ! (p + 7))"

definition xu_bits_set_u64_le :: "u8 list \<Rightarrow> nat \<Rightarrow> u64 \<Rightarrow> u8 list" where
  "xu_bits_set_u64_le m p x =
     put_bytes m p [ucast x, ucast (drop_bit 8 x), ucast (drop_bit 16 x), ucast (drop_bit 24 x),
       ucast (drop_bit 32 x), ucast (drop_bit 40 x), ucast (drop_bit 48 x), ucast (drop_bit 56 x)]"

definition xu_bits_set_u64_be :: "u8 list \<Rightarrow> nat \<Rightarrow> u64 \<Rightarrow> u8 list" where
  "xu_bits_set_u64_be m p x =
     put_bytes m p [ucast (drop_bit 56 x), ucast (drop_bit 48 x), ucast (drop_bit 40 x),
       ucast (drop_bit 32 x), ucast (drop_bit 24 x), ucast (drop_bit 16 x), ucast (drop_bit 8 x), ucast x]"

section \<open>Bit fields\<close>

text \<open>\<open>p[k] << s\<close> of a byte in 32 bits.\<close>

definition byte_up :: "u8 list \<Rightarrow> nat \<Rightarrow> nat \<Rightarrow> u32" where
  "byte_up m a s = push_bit s (ucast (m ! a))"

text \<open>The bytes a field of \<open>n\<close> bits at bit \<open>i\<close> of the byte \<open>p\<close> touches are \<open>p\<close> and the
  following ones up to \<open>(i + n + 7) div 8\<close> bytes.\<close>

definition xu_bits_get_ubits32 :: "u8 list \<Rightarrow> nat \<Rightarrow> nat \<Rightarrow> nat \<Rightarrow> u32 option" where
  "xu_bits_get_ubits32 m p b n =
     (if n = 0 then Some 0
      else let p = p + b div 8; b = b mod 8 in
        if \<not> mem_ok m p ((b + n + 7) div 8) then None
        else if b = 0 \<and> n = 1 then Some (ucast (xu_bits_get_u1 m p))
        else if b = 0 \<and> n = 8 then Some (ucast (m ! p))
        else if b = 0 \<and> n = 16 then Some (ucast (xu_bits_get_u16_be m p))
        else if b = 0 \<and> n = 24 then Some (xu_bits_get_u24_be m p)
        else if b = 0 \<and> n = 32 then Some (xu_bits_get_u32_be m p)
        else
          let i = b; b = b + n;
              x = (if b > 32 then byte_up m p (i + 24) OR byte_up m (p + 1) (i + 16)
                     OR byte_up m (p + 2) (i + 8) OR byte_up m (p + 3) i
                     OR drop_bit (8 - i) (ucast (m ! (p + 4)))
                   else if b > 24 then byte_up m p (i + 24) OR byte_up m (p + 1) (i + 16)
                     OR byte_up m (p + 2) (i + 8) OR byte_up m (p + 3) i
                   else if b > 16 then byte_up m p (i + 24) OR byte_up m (p + 1) (i + 16)
                     OR byte_up m (p + 2) (i + 8)
                   else if b > 8 then byte_up m p (i + 24) OR byte_up m (p + 1) (i + 16)
                   else byte_up m p (i + 24))
          in Some (if n < 32 then drop_bit (32 - n) x else x))"

definition xu_bits_get_sbits32 :: "u8 list \<Rightarrow> nat \<Rightarrow> nat \<Rightarrow> nat \<Rightarrow> u32 option" where
  "xu_bits_get_sbits32 m p b n =
     (if n = 0 then Some 0
      else let p = p + b div 8; b = b mod 8 in
        if n < 32 then
          (case xu_bits_get_ubits32 m p b 1 of None \<Rightarrow> None | Some s \<Rightarrow>
          (case xu_bits_get_ubits32 m p (b + 1) (n - 1) of None \<Rightarrow> None | Some x \<Rightarrow>
             Some (push_bit (n - 1) (- s) OR x)))
        else xu_bits_get_ubits32 m p b n)"

text \<open>The first byte keeps its bits in front of the field; the bytes behind it are overwritten,
  with zeros after the end of the field.\<close>

definition set_first :: "u8 list \<Rightarrow> nat \<Rightarrow> nat \<Rightarrow> u32 \<Rightarrow> u32 \<Rightarrow> u8" where
  "set_first m p i mk x = (m ! p AND NOT (ucast (drop_bit (24 + i) mk))) OR ucast (drop_bit (24 + i) x)"

definition xu_bits_set_ubits32 :: "u8 list \<Rightarrow> nat \<Rightarrow> nat \<Rightarrow> u32 \<Rightarrow> nat \<Rightarrow> u8 list option" where
  "xu_bits_set_ubits32 m p b x n =
     (if n = 0 then Some m
      else let p = p + b div 8; b = b mod 8 in
        if \<not> mem_ok m p ((b + n + 7) div 8) then None
        else if b = 0 \<and> n = 1 then Some (xu_bits_set_u1 m p x)
        else if b = 0 \<and> n = 8 then Some (m[p := ucast x])
        else if b = 0 \<and> n = 16 then Some (xu_bits_set_u16_be m p (ucast x))
        else if b = 0 \<and> n = 24 then Some (xu_bits_set_u24_be m p x)
        else if b = 0 \<and> n = 32 then Some (xu_bits_set_u32_be m p x)
        else
          let i = b; b = b + n;
              (x, mk) = (if n < 32 then (push_bit (32 - n) x, push_bit (32 - n) 0xffffffff)
                         else (x, 0xffffffff));
              first = (if i \<noteq> 0 \<or> b > 32 then set_first m p i mk x else ucast (drop_bit 24 x))
          in Some (put_bytes m p
               (if b > 32 then [first, ucast (drop_bit (16 + i) x), ucast (drop_bit (8 + i) x),
                  ucast (drop_bit i x), ucast (push_bit (8 - i) x)]
                else if b > 24 then [first, ucast (drop_bit (16 + i) x), ucast (drop_bit (8 + i) x),
                  ucast (drop_bit i x)]
                else if b > 16 then [first, ucast (drop_bit (16 + i) x), ucast (drop_bit (8 + i) x)]
                else if b > 8 then [first, ucast (drop_bit (16 + i) x)]
                else [first])))"

definition xu_bits_set_sbits32 :: "u8 list \<Rightarrow> nat \<Rightarrow> nat \<Rightarrow> u32 \<Rightarrow> nat \<Rightarrow> u8 list option" where
  "xu_bits_set_sbits32 m p b x n =
     (if n = 0 then Some m
      else let p = p + b div 8; b = b mod 8 in
        if n < 32 then
          (case xu_bits_set_ubits32 m p b (drop_bit 31 x AND 1) 1 of None \<Rightarrow> None | Some m \<Rightarrow>
             xu_bits_set_ubits32 m p (b + 1) (x AND 0x7fffffff) (n - 1))
        else xu_bits_set_ubits32 m p b x n)"

text \<open>The byte loop of the 64-bit fields: \<open>b\<close> bits are left, the next byte goes to \<open>i + j\<close>.\<close>

function get_ubits64_loop :: "u8 list \<Rightarrow> nat \<Rightarrow> nat \<Rightarrow> nat \<Rightarrow> int \<Rightarrow> u64 \<Rightarrow> u64" where
  "get_ubits64_loop m p i b j x =
     (if b > 7 then
        get_ubits64_loop m (p + 1) i (b - 8) (j - 8) (x OR push_bit (nat (int i + j)) (ucast (m ! p)))
      else if b > 0 then
        x OR (if j < 0 then drop_bit (8 - i) (ucast (m ! p)) else push_bit (nat (int i + j)) (ucast (m ! p)))
      else x)"
  by auto
termination by (relation "measure (\<lambda>(m, p, i, b, j, x). b)") auto

declare get_ubits64_loop.simps [simp del]

definition xu_bits_get_ubits64 :: "u8 list \<Rightarrow> nat \<Rightarrow> nat \<Rightarrow> nat \<Rightarrow> u64 option" where
  "xu_bits_get_ubits64 m p b n =
     (if n \<le> 32 then map_option ucast (xu_bits_get_ubits32 m p b n)
      else let p = p + b div 8; b = b mod 8 in
        if \<not> mem_ok m p ((b + n + 7) div 8) then None
        else if b = 0 \<and> n = 64 then Some (xu_bits_get_u64_be m p)
        else let x = get_ubits64_loop m p b (b + n) 56 0
             in Some (if n < 64 then drop_bit (64 - n) x else x))"

definition xu_bits_get_sbits64 :: "u8 list \<Rightarrow> nat \<Rightarrow> nat \<Rightarrow> nat \<Rightarrow> u64 option" where
  "xu_bits_get_sbits64 m p b n =
     (if n \<le> 32 then map_option (\<lambda>v. scast v) (xu_bits_get_sbits32 m p b n)
      else let p = p + b div 8; b = b mod 8 in
        if n < 64 then
          (case xu_bits_get_ubits64 m p b 1 of None \<Rightarrow> None | Some s \<Rightarrow>
          (case xu_bits_get_ubits64 m p (b + 1) (n - 1) of None \<Rightarrow> None | Some x \<Rightarrow>
             Some (push_bit (n - 1) (- s) OR x)))
        else xu_bits_get_ubits64 m p b n)"

end
