(* ===== verification/XBitsCorrect.thy ===== *)
theory XBitsCorrect
  imports XBits
begin

text \<open>
  Memory as a stream of bits, most significant bit of each byte first. Every branch of the
  bit-field readers returns the bits of its field, every branch of the writer stores them and
  keeps the bits in front of the field and the bytes behind it.
\<close>

section \<open>The bit stream\<close>

definition sbit :: "u8 list \<Rightarrow> nat \<Rightarrow> bool" where
  "sbit m j = bit (m ! (j div 8)) (7 - j mod 8)"

text \<open>A byte shifted into a word that holds the stream from bit \<open>i\<close> of the byte \<open>p\<close> at its
  top.\<close>

lemma bit_byte_up:
  "bit (byte_up m a s) t \<longleftrightarrow> t < 32 \<and> s \<le> t \<and> t < s + 8 \<and> bit (m ! a) (t - s)"
  using bit_imp_le_length [of "m ! a" "t - s"]
  by (auto simp: byte_up_def bit_simps)

lemma stream_byte:
  fixes i t k :: nat
  assumes "i < 8" and "t < 32" and "k \<le> 3"
  shows "i + 24 - 8 * k \<le> t \<and> t < i + 24 - 8 * k + 8 \<longleftrightarrow> (i + 31 - t) div 8 = k"
    and "(i + 31 - t) div 8 = k \<Longrightarrow> t - (i + 24 - 8 * k) = 7 - (i + 31 - t) mod 8"
proof -
  let ?q = "i + 31 - t"
  have q: "?q = 8 * (?q div 8) + ?q mod 8" "?q mod 8 < 8" by simp_all
  have k: "8 * k \<le> i + 24" using assms(3) by simp
  have t: "?q + t = i + 31" using assms(2) by simp
  show "i + 24 - 8 * k \<le> t \<and> t < i + 24 - 8 * k + 8 \<longleftrightarrow> ?q div 8 = k"
  proof
    assume "i + 24 - 8 * k \<le> t \<and> t < i + 24 - 8 * k + 8"
    then have "8 * k \<le> ?q" "?q < 8 * Suc k" using k t by auto
    then show "?q div 8 = k" by (simp add: div_nat_eqI mult.commute)
  next
    assume "?q div 8 = k"
    then show "i + 24 - 8 * k \<le> t \<and> t < i + 24 - 8 * k + 8" using q k t by auto
  qed
  show "t - (i + 24 - 8 * k) = 7 - ?q mod 8" if "?q div 8 = k"
  proof -
    have "?q = 8 * k + ?q mod 8" using q(1) that by simp
    then show ?thesis using k t q(2) by linarith
  qed
qed

lemma byte_up_stream:
  assumes "i < 8" and "t < 32" and "k \<le> 3" and "s = i + 24 - 8 * k" and "a = p + k"
  shows "bit (byte_up m a s) t \<longleftrightarrow> (i + 31 - t) div 8 = k \<and> sbit m (8 * p + (i + 31 - t))"
proof -
  note st = stream_byte [OF assms(1-3)]
  have idx: "(8 * p + (i + 31 - t)) div 8 = p + (i + 31 - t) div 8"
    "(8 * p + (i + 31 - t)) mod 8 = (i + 31 - t) mod 8" by simp_all
  show ?thesis
    unfolding bit_byte_up sbit_def idx assms(4,5) using assms(2) st by auto
qed

text \<open>The last byte of a field that crosses five bytes.\<close>

lemma byte_down_stream:
  assumes "0 < i" and "i < 8" and "t < 32"
  shows "bit (drop_bit (8 - i) (ucast (m ! (p + 4))) :: u32) t
    \<longleftrightarrow> (i + 31 - t) div 8 = 4 \<and> sbit m (8 * p + (i + 31 - t))"
proof (cases "t < i")
  case True
  then have q: "(i + 31 - t) div 8 = 4" "(i + 31 - t) mod 8 = i - t - 1"
    using assms by (auto simp: div_nat_eqI mod_nat_eqI)
  have idx: "(8 * p + (i + 31 - t)) div 8 = p + (i + 31 - t) div 8"
    "(8 * p + (i + 31 - t)) mod 8 = (i + 31 - t) mod 8" by simp_all
  have "7 - (i - t - 1) = 8 - i + t" using True assms by simp
  moreover have "8 - i + t < 8" using True assms by simp
  ultimately show ?thesis unfolding sbit_def idx q using assms True by (simp add: bit_simps)
next
  case False
  then have "(i + 31 - t) div 8 \<noteq> 4" using assms by auto
  moreover have "\<not> bit (m ! (p + 4)) (8 - i + t)"
    using bit_imp_le_length [of "m ! (p + 4)" "8 - i + t"] False assms(2) by auto
  ultimately show ?thesis by (simp add: bit_simps)
qed

section \<open>Reading\<close>

definition field :: "u8 list \<Rightarrow> nat \<Rightarrow> nat \<Rightarrow> 'a::len word \<Rightarrow> bool" where
  "field m j n v \<longleftrightarrow> (\<forall>k<LENGTH('a). bit v k \<longleftrightarrow> k < n \<and> sbit m (j + n - 1 - k))"

lemma fieldI: "(\<And>k. k < LENGTH('a) \<Longrightarrow> bit v k \<longleftrightarrow> k < n \<and> sbit m (j + n - 1 - k)) \<Longrightarrow> field m j n (v :: 'a::len word)"
  by (simp add: field_def)

lemma field_unique: "field m j n v \<Longrightarrow> field m j n w \<Longrightarrow> v = w"
  by (rule bit_word_eqI) (simp add: field_def)

lemma get_parts:
  assumes i: "i < 8" and n: "0 < n" "n \<le> 32"
    and x: "\<And>t. t < 32 \<Longrightarrow> 32 - n \<le> t \<Longrightarrow> bit (x :: u32) t \<longleftrightarrow> sbit m (8 * p + (i + 31 - t))"
  shows "field m (8 * p + i) n (if n < 32 then drop_bit (32 - n) x else x)"
proof (rule fieldI)
  fix k assume k: "k < LENGTH(32)"
  have shift: "(if n < 32 then drop_bit (32 - n) x else x) = drop_bit (32 - n) x" by simp
  show "bit (if n < 32 then drop_bit (32 - n) x else x) k \<longleftrightarrow> k < n \<and> sbit m (8 * p + i + n - 1 - k)"
  proof (cases "k < n")
    case True
    then have "i + 31 - (32 - n + k) = i + n - 1 - k" using n by simp
    then have "8 * p + (i + 31 - (32 - n + k)) = 8 * p + i + n - 1 - k" using True by simp
    then show ?thesis
      unfolding shift using x [of "32 - n + k"] True n by (simp add: bit_drop_bit_eq)
  next
    case False
    then show ?thesis
      unfolding shift using bit_imp_le_length [of x "32 - n + k"] n by (auto simp: bit_drop_bit_eq)
  qed
qed

lemma byte_ups:
  assumes "i < 8" and "t < 32"
  shows "bit (byte_up m p (i + 24)) t \<longleftrightarrow> (i + 31 - t) div 8 = 0 \<and> sbit m (8 * p + (i + 31 - t))"
    and "bit (byte_up m (p + 1) (i + 16)) t \<longleftrightarrow> (i + 31 - t) div 8 = 1 \<and> sbit m (8 * p + (i + 31 - t))"
    and "bit (byte_up m (p + 2) (i + 8)) t \<longleftrightarrow> (i + 31 - t) div 8 = 2 \<and> sbit m (8 * p + (i + 31 - t))"
    and "bit (byte_up m (p + 3) i) t \<longleftrightarrow> (i + 31 - t) div 8 = 3 \<and> sbit m (8 * p + (i + 31 - t))"
  by (rule byte_up_stream [OF assms], simp_all)+

lemma stream_index_bound:
  "i < 8 \<Longrightarrow> (0 :: nat) < n \<Longrightarrow> t < 32 \<Longrightarrow> 32 - n \<le> t \<Longrightarrow> i + n \<le> 8 * c \<Longrightarrow> (i + 31 - t) div 8 < c"
  by (auto simp: less_mult_imp_div_less)

lemma div_cases:
  "(q :: nat) div 8 < 1 \<Longrightarrow> q div 8 = 0"
  "(q :: nat) div 8 < 2 \<Longrightarrow> q div 8 = 0 \<or> q div 8 = 1"
  "(q :: nat) div 8 < 3 \<Longrightarrow> q div 8 = 0 \<or> q div 8 = 1 \<or> q div 8 = 2"
  "(q :: nat) div 8 < 4 \<Longrightarrow> q div 8 = 0 \<or> q div 8 = 1 \<or> q div 8 = 2 \<or> q div 8 = 3"
  "(q :: nat) div 8 < 5 \<Longrightarrow> q div 8 = 0 \<or> q div 8 = 1 \<or> q div 8 = 2 \<or> q div 8 = 3 \<or> q div 8 = 4"
  by arith+

text \<open>Values made of whole bytes, the most significant first.\<close>

lemma byte_index:
  "w = Suc (c + d) \<Longrightarrow> k = 8 * c + t \<Longrightarrow> t < 8 \<Longrightarrow> 8 * p + 8 * w - 1 - k = 8 * (p + d) + (7 - t)"
  by (hypsubst, simp)

lemma byte_index_parts:
  fixes a t :: nat
  shows "(8 * a + (7 - t)) div 8 = a" and "(8 * a + (7 - t)) mod 8 = 7 - t"
proof -
  have r: "7 - t < 8" by simp
  show "(8 * a + (7 - t)) div 8 = a"
    by (rule div_nat_eqI) (use r in simp_all)
  show "(8 * a + (7 - t)) mod 8 = 7 - t"
    by (simp only: mod_mult_self4 mod_less [OF r])
qed

lemma whole_field:
  fixes x :: "'a::len word"
  assumes bytes: "\<And>c t. c < w \<Longrightarrow> t < 8 \<Longrightarrow> bit x (8 * c + t) \<longleftrightarrow> bit (m ! (p + (w - 1 - c))) t"
    and upper: "\<And>k. 8 * w \<le> k \<Longrightarrow> \<not> bit x k"
  shows "field m (8 * p) (8 * w) x"
proof (rule fieldI)
  fix k
  show "bit x k \<longleftrightarrow> k < 8 * w \<and> sbit m (8 * p + 8 * w - 1 - k)"
  proof (cases "k < 8 * w")
    case True
    let ?c = "k div 8" and ?t = "k mod 8"
    have k: "k = 8 * ?c + ?t" and t: "?t < 8" by simp_all
    have c: "?c < w" using True by (simp add: less_mult_imp_div_less mult.commute)
    then obtain d where d: "w = Suc (?c + d)" using less_iff_Suc_add by auto
    have j: "8 * p + 8 * w - 1 - k = 8 * (p + d) + (7 - ?t)"
      by (rule byte_index [OF d k t])
    have "(8 * p + 8 * w - 1 - k) div 8 = p + d" "7 - (8 * p + 8 * w - 1 - k) mod 8 = ?t"
      unfolding j byte_index_parts using t by simp_all
    moreover have "w - 1 - ?c = d" using d by simp
    ultimately show ?thesis
      using bytes [OF c t] k True by (simp add: sbit_def)
  next
    case False
    then show ?thesis using upper by simp
  qed
qed

lemma u1_field: "field m (8 * p) 1 (ucast (xu_bits_get_u1 m p) :: u32)"
  by (rule fieldI) (auto simp: xu_bits_get_u1_def sbit_def bit_simps)

lemma less_cases:
  "(c :: nat) < 2 \<Longrightarrow> c = 0 \<or> c = 1"
  "(c :: nat) < 3 \<Longrightarrow> c = 0 \<or> c = 1 \<or> c = 2"
  "(c :: nat) < 4 \<Longrightarrow> c = 0 \<or> c = 1 \<or> c = 2 \<or> c = 3"
  "(c :: nat) < 8 \<Longrightarrow> c = 0 \<or> c = 1 \<or> c = 2 \<or> c = 3 \<or> c = 4 \<or> c = 5 \<or> c = 6 \<or> c = 7"
  by arith+

lemma byte_high [simp]: "8 \<le> n \<Longrightarrow> \<not> bit (x :: u8) n"
  using bit_imp_le_length [of x n] by auto

lemma u8_field: "field m (8 * p) 8 (ucast (m ! p) :: u32)"
proof -
  have "field m (8 * p) (8 * 1) (ucast (m ! p) :: u32)"
    by (rule whole_field) (simp_all add: bit_simps)
  then show ?thesis by simp
qed

lemma u16_field: "field m (8 * p) 16 (ucast (xu_bits_get_u16_be m p) :: u32)"
proof -
  have "field m (8 * p) (8 * 2) (ucast (xu_bits_get_u16_be m p) :: u32)"
    by (rule whole_field) (auto simp: xu_bits_get_u16_be_def bit_simps dest!: less_cases(1))
  then show ?thesis by simp
qed

lemma u24_field: "field m (8 * p) 24 (xu_bits_get_u24_be m p)"
proof -
  have "field m (8 * p) (8 * 3) (xu_bits_get_u24_be m p)"
    by (rule whole_field) (auto simp: xu_bits_get_u24_be_def bit_simps dest!: less_cases(2))
  then show ?thesis by simp
qed

lemma u32_field: "field m (8 * p) 32 (xu_bits_get_u32_be m p)"
proof -
  have "field m (8 * p) (8 * 4) (xu_bits_get_u32_be m p)"
    by (rule whole_field) (auto simp: xu_bits_get_u32_be_def bit_simps dest!: less_cases(3))
  then show ?thesis by simp
qed

lemma u64_field: "field m (8 * p) 64 (xu_bits_get_u64_be m p)"
proof -
  have "field m (8 * p) (8 * 8) (xu_bits_get_u64_be m p)"
  proof (rule whole_field)
    fix c t :: nat
    assume c: "c < 8" and t: "t < 8"
    show "bit (xu_bits_get_u64_be m p) (8 * c + t) \<longleftrightarrow> bit (m ! (p + (8 - 1 - c))) t"
      using less_cases(4) [OF c] t
      by (elim disjE) (simp_all add: xu_bits_get_u64_be_def bit_or_iff bit_push_bit_iff bit_ucast_iff)
  qed (use bit_imp_le_length in force)
  then show ?thesis by simp
qed

text \<open>Each branch of the reader: one to five bytes.\<close>

lemma get_branches:
  assumes i: "i < 8" and n: "0 < n" "n \<le> 32" and t: "t < 32" "32 - n \<le> t"
  shows "i + n \<le> 8 \<Longrightarrow> bit (byte_up m p (i + 24)) t \<longleftrightarrow> sbit m (8 * p + (i + 31 - t))"
    and "i + n \<le> 16 \<Longrightarrow> bit (byte_up m p (i + 24) OR byte_up m (p + 1) (i + 16)) t
      \<longleftrightarrow> sbit m (8 * p + (i + 31 - t))"
    and "i + n \<le> 24 \<Longrightarrow> bit (byte_up m p (i + 24) OR byte_up m (p + 1) (i + 16) OR byte_up m (p + 2) (i + 8)) t
      \<longleftrightarrow> sbit m (8 * p + (i + 31 - t))"
    and "i + n \<le> 32 \<Longrightarrow> bit (byte_up m p (i + 24) OR byte_up m (p + 1) (i + 16) OR byte_up m (p + 2) (i + 8)
      OR byte_up m (p + 3) i) t \<longleftrightarrow> sbit m (8 * p + (i + 31 - t))"
    and "0 < i \<Longrightarrow> bit (byte_up m p (i + 24) OR byte_up m (p + 1) (i + 16) OR byte_up m (p + 2) (i + 8)
      OR byte_up m (p + 3) i OR drop_bit (8 - i) (ucast (m ! (p + 4)))) t \<longleftrightarrow> sbit m (8 * p + (i + 31 - t))"
proof -
  note q = stream_index_bound [OF i n(1) t]
  note up = byte_ups [OF i t(1), of m p]
  show "i + n \<le> 8 \<Longrightarrow> bit (byte_up m p (i + 24)) t \<longleftrightarrow> sbit m (8 * p + (i + 31 - t))"
    using q [of 1] by (simp only: up) auto
  show "i + n \<le> 16 \<Longrightarrow> bit (byte_up m p (i + 24) OR byte_up m (p + 1) (i + 16)) t
      \<longleftrightarrow> sbit m (8 * p + (i + 31 - t))"
    using div_cases(2) [OF q [of 2]] by (simp only: bit_or_iff up) auto
  show "i + n \<le> 24 \<Longrightarrow> bit (byte_up m p (i + 24) OR byte_up m (p + 1) (i + 16) OR byte_up m (p + 2) (i + 8)) t
      \<longleftrightarrow> sbit m (8 * p + (i + 31 - t))"
    using div_cases(3) [OF q [of 3]] by (simp only: bit_or_iff up) auto
  show "i + n \<le> 32 \<Longrightarrow> bit (byte_up m p (i + 24) OR byte_up m (p + 1) (i + 16) OR byte_up m (p + 2) (i + 8)
      OR byte_up m (p + 3) i) t \<longleftrightarrow> sbit m (8 * p + (i + 31 - t))"
    using div_cases(4) [OF q [of 4]] by (simp only: bit_or_iff up) auto
  show "0 < i \<Longrightarrow> bit (byte_up m p (i + 24) OR byte_up m (p + 1) (i + 16) OR byte_up m (p + 2) (i + 8)
      OR byte_up m (p + 3) i OR drop_bit (8 - i) (ucast (m ! (p + 4)))) t \<longleftrightarrow> sbit m (8 * p + (i + 31 - t))"
    using div_cases(5) [OF q [of 5]] i n(2)
    by (simp only: bit_or_iff up byte_down_stream [OF _ i t(1)]) auto
qed

lemma mem_span: "mem_ok m (p + b div 8) ((b mod 8 + n + 7) div 8) \<longleftrightarrow> mem_ok m p ((b + n + 7) div 8)"
proof -
  have "b + n + 7 = 8 * (b div 8) + (b mod 8 + n + 7)" by simp
  then have "(b + n + 7) div 8 = b div 8 + (b mod 8 + n + 7) div 8" by (metis div_mult_self4 zero_neq_numeral)
  then show ?thesis by (simp only: mem_ok_def add.assoc)
qed

lemma field_zero: "field m j 0 (0 :: 'a::len word)"
  by (simp add: field_def)

lemma bit_position: "8 * (p + b div 8) + b mod 8 = 8 * p + (b :: nat)"
  by simp

text \<open>The general branch, after the whole-byte cases.\<close>

definition gathered :: "u8 list \<Rightarrow> nat \<Rightarrow> nat \<Rightarrow> nat \<Rightarrow> u32" where
  "gathered m p i n =
     (let x = (if i + n > 32 then byte_up m p (i + 24) OR byte_up m (p + 1) (i + 16)
                     OR byte_up m (p + 2) (i + 8) OR byte_up m (p + 3) i
                     OR drop_bit (8 - i) (ucast (m ! (p + 4)))
                   else if i + n > 24 then byte_up m p (i + 24) OR byte_up m (p + 1) (i + 16)
                     OR byte_up m (p + 2) (i + 8) OR byte_up m (p + 3) i
                   else if i + n > 16 then byte_up m p (i + 24) OR byte_up m (p + 1) (i + 16)
                     OR byte_up m (p + 2) (i + 8)
                   else if i + n > 8 then byte_up m p (i + 24) OR byte_up m (p + 1) (i + 16)
                   else byte_up m p (i + 24))
      in if n < 32 then drop_bit (32 - n) x else x)"

lemma gathered_field:
  assumes "i < 8" and "0 < n" and "n \<le> 32"
  shows "field m (8 * p + i) n (gathered m p i n)"
  unfolding gathered_def Let_def
proof (rule get_parts [OF assms])
  fix t :: nat
  assume t: "t < 32" "32 - n \<le> t"
  note g = get_branches [OF assms t, of m p]
  show "bit (if i + n > 32 then byte_up m p (i + 24) OR byte_up m (p + 1) (i + 16)
                     OR byte_up m (p + 2) (i + 8) OR byte_up m (p + 3) i
                     OR drop_bit (8 - i) (ucast (m ! (p + 4)))
                   else if i + n > 24 then byte_up m p (i + 24) OR byte_up m (p + 1) (i + 16)
                     OR byte_up m (p + 2) (i + 8) OR byte_up m (p + 3) i
                   else if i + n > 16 then byte_up m p (i + 24) OR byte_up m (p + 1) (i + 16)
                     OR byte_up m (p + 2) (i + 8)
                   else if i + n > 8 then byte_up m p (i + 24) OR byte_up m (p + 1) (i + 16)
                   else byte_up m p (i + 24)) t \<longleftrightarrow> sbit m (8 * p + (i + 31 - t))"
    by (split if_split, intro conjI impI, rule g(5), use assms in linarith,
        split if_split, intro conjI impI, rule g(4), linarith,
        split if_split, intro conjI impI, rule g(3), linarith,
        split if_split, intro conjI impI, rule g(2), linarith, rule g(1), linarith)
qed

lemma get_ubits32_cases:
  assumes "0 < n" and "mem_ok m p ((b + n + 7) div 8)"
  shows "xu_bits_get_ubits32 m p b n = Some
    (let p = p + b div 8; b = b mod 8 in
     if b = 0 \<and> n = 1 then ucast (xu_bits_get_u1 m p)
     else if b = 0 \<and> n = 8 then ucast (m ! p)
     else if b = 0 \<and> n = 16 then ucast (xu_bits_get_u16_be m p)
     else if b = 0 \<and> n = 24 then xu_bits_get_u24_be m p
     else if b = 0 \<and> n = 32 then xu_bits_get_u32_be m p
     else gathered m p b n)"
  using assms(1) iffD2 [OF mem_span assms(2)]
  unfolding xu_bits_get_ubits32_def gathered_def Let_def by (simp only: if_True if_False not_not) simp

lemma get_ubits32_field:
  assumes "n \<le> 32" and "mem_ok m p ((b + n + 7) div 8)"
  obtains v where "xu_bits_get_ubits32 m p b n = Some v" and "field m (8 * p + b) n v"
proof (cases "n = 0")
  case True
  then show ?thesis using that [of 0] by (simp add: xu_bits_get_ubits32_def field_zero)
next
  case False
  then have n: "0 < n" by simp
  let ?p = "p + b div 8"
  have z: "8 * p + b = 8 * ?p" if "b mod 8 = 0" using bit_position [of p b] that by simp
  have "field m (8 * p + b) n
    (let p = p + b div 8; b = b mod 8 in
     if b = 0 \<and> n = 1 then ucast (xu_bits_get_u1 m p)
     else if b = 0 \<and> n = 8 then ucast (m ! p)
     else if b = 0 \<and> n = 16 then ucast (xu_bits_get_u16_be m p)
     else if b = 0 \<and> n = 24 then xu_bits_get_u24_be m p
     else if b = 0 \<and> n = 32 then xu_bits_get_u32_be m p
     else gathered m p b n)"
    unfolding Let_def
    by (split if_split, intro conjI impI, elim conjE, simp only: z u1_field,
        split if_split, intro conjI impI, elim conjE, simp only: z u8_field,
        split if_split, intro conjI impI, elim conjE, simp only: z u16_field,
        split if_split, intro conjI impI, elim conjE, simp only: z u24_field,
        split if_split, intro conjI impI, elim conjE, simp only: z u32_field,
        rule gathered_field [of "b mod 8" n m ?p, unfolded bit_position], simp_all add: n assms(1))
  then show ?thesis using that get_ubits32_cases [OF n assms(2)] by simp
qed

section \<open>Writing\<close>

lemma length_put_bytes [simp]: "p + length bs \<le> length m \<Longrightarrow> length (put_bytes m p bs) = length m"
  by (simp add: put_bytes_def)

lemma nth_put_bytes:
  assumes "p + length bs \<le> length m" and "a < length m"
  shows "put_bytes m p bs ! a = (if p \<le> a \<and> a < p + length bs then bs ! (a - p) else m ! a)"
  using assms by (auto simp: put_bytes_def nth_append)

lemma update_is_put: "p < length m \<Longrightarrow> m[p := v] = put_bytes m p [v]"
  by (simp add: put_bytes_def upd_conv_take_nth_drop)

text \<open>The field of \<open>n\<close> bits at bit \<open>i\<close> of the byte \<open>p\<close> holds the low bits of \<open>x\<close>; the bits in
  front of it and the bytes behind it are those of the old memory.\<close>

definition stores :: "u8 list \<Rightarrow> nat \<Rightarrow> nat \<Rightarrow> 'a::len word \<Rightarrow> u8 list \<Rightarrow> bool" where
  "stores m j n x m' \<longleftrightarrow> length m' = length m \<and>
     (\<forall>k < 8 * length m. (j \<le> k \<and> k < j + n \<longrightarrow> sbit m' k = bit x (j + n - 1 - k))
        \<and> (k < j \<or> 8 * ((j + n + 7) div 8) \<le> k \<longrightarrow> sbit m' k = sbit m k))"

lemma byte_bound: "(c :: nat) < l \<Longrightarrow> r < 8 \<Longrightarrow> 8 * c + r < 8 * l"
  by linarith

lemma storesI:
  assumes fits: "p + length bs \<le> length m" and len: "length bs = (i + n + 7) div 8"
    and bytes: "\<And>c r. c < length bs \<Longrightarrow> r < 8 \<Longrightarrow>
      (8 * c + r < i \<longrightarrow> bit (bs ! c) (7 - r) = bit (m ! (p + c)) (7 - r))
      \<and> (i \<le> 8 * c + r \<and> 8 * c + r < i + n \<longrightarrow> bit (bs ! c) (7 - r) = bit x (i + n - 1 - (8 * c + r)))"
  shows "stores m (8 * p + i) n x (put_bytes m p bs)"
proof -
  let ?m = "put_bytes m p bs"
  have "(8 * p + i \<le> k \<and> k < 8 * p + i + n \<longrightarrow> sbit ?m k = bit x (8 * p + i + n - 1 - k))
      \<and> (k < 8 * p + i \<or> 8 * (p + length bs) \<le> k \<longrightarrow> sbit ?m k = sbit m k)"
    if k: "k < 8 * length m" for k
  proof -
    let ?a = "k div 8" and ?r = "k mod 8"
    have ka: "k = 8 * ?a + ?r" "?r < 8" by simp_all
    have a: "?a < length m" using k by (simp add: less_mult_imp_div_less mult.commute)
    note nth = nth_put_bytes [OF fits a]
    show ?thesis
    proof (cases "p \<le> ?a \<and> ?a < p + length bs")
      case False
      then have "k < 8 * p \<or> 8 * (p + length bs) \<le> k" using ka by auto
      moreover have "8 * p + i + n \<le> 8 * (p + length bs)" using len by simp
      ultimately show ?thesis using False nth by (auto simp: sbit_def)
    next
      case True
      then obtain c where c: "?a = p + c" "c < length bs" by (auto simp: le_iff_add)
      have kc: "k = 8 * p + (8 * c + ?r)" using ka(1) c(1) by simp
      have "bs ! (?a - p) = bs ! c" using c by simp
      then have m: "sbit ?m k = bit (bs ! c) (7 - ?r)" "sbit m k = bit (m ! (p + c)) (7 - ?r)"
        using True nth c(1) by (simp_all add: sbit_def)
      have cmp: "8 * p + i \<le> k \<longleftrightarrow> i \<le> 8 * c + ?r" "k < 8 * p + i \<longleftrightarrow> 8 * c + ?r < i"
        "k < 8 * p + i + n \<longleftrightarrow> 8 * c + ?r < i + n"
        by (subst kc, simp)+
      have "8 * p + i + n - 1 - k = i + n - 1 - (8 * c + ?r)" by (subst kc) simp
      moreover have "\<not> 8 * (p + length bs) \<le> k"
        using byte_bound [OF c(2) ka(2)] by (subst kc) simp
      ultimately show ?thesis
        using bytes [OF c(2) ka(2)] unfolding m cmp by simp
    qed
  qed
  moreover have "8 * ((8 * p + i + n + 7) div 8) = 8 * (p + length bs)"
    unfolding len by (simp add: add.assoc)
  ultimately show ?thesis using fits by (simp add: stores_def)
qed

text \<open>The bytes of the general branch.\<close>

lemma shifted_bit:
  assumes "n \<le> 32"
  shows "bit (if n < 32 then push_bit (32 - n) x else (x :: u32)) k \<longleftrightarrow> 32 - n \<le> k \<and> k < 32 \<and> bit x (k - (32 - n))"
  using assms bit_imp_le_length [of x k] by (auto simp: bit_push_bit_iff)

lemma full_mask: "bit (0xffffffff :: u32) j \<longleftrightarrow> j < 32"
proof -
  have m: "(0xffffffff :: u32) = mask 32" by (simp add: mask_eq_exp_minus_1)
  show ?thesis unfolding m by (simp add: bit_mask_iff)
qed

lemma mask_bit:
  assumes "n \<le> 32"
  shows "bit (if n < 32 then push_bit (32 - n) 0xffffffff else (0xffffffff :: u32)) k \<longleftrightarrow> 32 - n \<le> k \<and> k < 32"
proof (cases "n < 32")
  case True
  then show ?thesis by (auto simp only: if_True bit_push_bit_iff full_mask) simp_all
next
  case False
  then have "n = 32" using assms by simp
  then show ?thesis by (simp only: if_False less_irrefl full_mask) simp
qed

lemma first_byte:
  assumes "i < 8" and "r < 8" and "n \<le> 32"
    and x: "\<And>k. bit (x' :: u32) k \<longleftrightarrow> 32 - n \<le> k \<and> k < 32 \<and> bit x (k - (32 - n))"
    and mk: "\<And>k. bit (mk :: u32) k \<longleftrightarrow> 32 - n \<le> k \<and> k < 32"
  shows "(r < i \<longrightarrow> bit (set_first m p i mk x') (7 - r) = bit (m ! p) (7 - r))
    \<and> (i \<le> r \<and> r < i + n \<longrightarrow> bit (set_first m p i mk x') (7 - r) = bit x (i + n - 1 - r))"
proof -
  have "i + n - 1 - r = 24 + i + (7 - r) - (32 - n)" if "i \<le> r" "r < i + n"
    using that assms(1-3) by linarith
  then show ?thesis
    using assms(1-3) unfolding set_first_def
    by (auto simp: bit_or_iff bit_and_iff bit_not_iff bit_ucast_iff bit_drop_bit_eq x mk)
qed

lemma plain_byte:
  assumes "r < 8" and "n \<le> 32" and "i \<le> 8 * c + r" and "8 * c + r < i + n" and "s = 24 + i - 8 * c" and "c \<le> 3"
    and x: "\<And>k. bit (x' :: u32) k \<longleftrightarrow> 32 - n \<le> k \<and> k < 32 \<and> bit x (k - (32 - n))"
  shows "bit (ucast (drop_bit s x') :: u8) (7 - r) \<longleftrightarrow> bit x (i + n - 1 - (8 * c + r))"
proof -
  have "s + (7 - r) - (32 - n) = i + n - 1 - (8 * c + r)" "32 - n \<le> s + (7 - r)" "s + (7 - r) < 32"
    using assms(1-6) by linarith+
  moreover have "7 - r < 8" by simp
  ultimately show ?thesis
    by (simp only: bit_ucast_iff bit_drop_bit_eq o_def x) simp
qed

lemma last_byte:
  assumes "r < 8" and "n \<le> 32" and "i < 8" and "32 + r < i + n"
    and x: "\<And>k. bit (x' :: u32) k \<longleftrightarrow> 32 - n \<le> k \<and> k < 32 \<and> bit x (k - (32 - n))"
  shows "bit (ucast (push_bit (8 - i) x') :: u8) (7 - r) \<longleftrightarrow> bit x (i + n - 1 - (32 + r))"
proof -
  have "7 - r - (8 - i) - (32 - n) = i + n - 1 - (32 + r)" "32 - n \<le> 7 - r - (8 - i)" "8 - i \<le> 7 - r"
    using assms(1-4) by linarith+
  moreover have "7 - r < 8" "7 - r < 32" "7 - r - (8 - i) < 32" by simp_all
  ultimately show ?thesis
    by (simp only: bit_ucast_iff bit_push_bit_iff x) simp
qed

definition scattered :: "u8 list \<Rightarrow> nat \<Rightarrow> nat \<Rightarrow> u32 \<Rightarrow> u32 \<Rightarrow> nat \<Rightarrow> u8 list" where
  "scattered m p i mk x n =
     (let first = (if i \<noteq> 0 \<or> i + n > 32 then set_first m p i mk x else ucast (drop_bit 24 x))
      in if i + n > 32 then [first, ucast (drop_bit (16 + i) x), ucast (drop_bit (8 + i) x),
           ucast (drop_bit i x), ucast (push_bit (8 - i) x)]
         else if i + n > 24 then [first, ucast (drop_bit (16 + i) x), ucast (drop_bit (8 + i) x),
           ucast (drop_bit i x)]
         else if i + n > 16 then [first, ucast (drop_bit (16 + i) x), ucast (drop_bit (8 + i) x)]
         else if i + n > 8 then [first, ucast (drop_bit (16 + i) x)]
         else [first])"

lemma length_scattered:
  "0 < n \<Longrightarrow> n \<le> 32 \<Longrightarrow> i < 8 \<Longrightarrow> length (scattered m p i mk x n) = (i + n + 7) div 8"
  by (auto simp: scattered_def Let_def div_nat_eqI)

lemma nth_scattered:
  assumes "c < length (scattered m p i mk x n)"
  shows "scattered m p i mk x n ! c =
    (if c = 0 then if i \<noteq> 0 \<or> i + n > 32 then set_first m p i mk x else ucast (drop_bit 24 x)
     else if c = 4 then ucast (push_bit (8 - i) x) else ucast (drop_bit (24 + i - 8 * c) x))"
proof -
  have "c = 0 \<or> c = 1 \<or> c = 2 \<or> c = 3 \<or> c = 4"
    using assms by (auto simp: scattered_def Let_def split: if_splits)
  then show ?thesis using assms
    by (elim disjE) (simp_all add: scattered_def Let_def add.commute split: if_splits)
qed

lemma scattered_stores:
  assumes i: "i < 8" and n: "0 < n" "n \<le> 32" and fits: "mem_ok m p ((i + n + 7) div 8)"
  shows "stores m (8 * p + i) n x (put_bytes m p
    (scattered m p i (if n < 32 then push_bit (32 - n) 0xffffffff else 0xffffffff)
       (if n < 32 then push_bit (32 - n) x else x) n))"
    (is "stores _ _ _ _ (put_bytes _ _ ?bs)")
proof (rule storesI)
  show len: "length ?bs = (i + n + 7) div 8"
    by (rule length_scattered [OF n i])
  show "p + length ?bs \<le> length m"
    unfolding len using fits by (simp add: mem_ok_def)
  fix c r :: nat
  assume c: "c < length ?bs" and r: "r < 8"
  note bits = shifted_bit [OF n(2), of x] mask_bit [OF n(2)]
  have c4: "c \<le> 4" using c i n unfolding len by simp
  show "(8 * c + r < i \<longrightarrow> bit (?bs ! c) (7 - r) = bit (m ! (p + c)) (7 - r))
      \<and> (i \<le> 8 * c + r \<and> 8 * c + r < i + n \<longrightarrow> bit (?bs ! c) (7 - r) = bit x (i + n - 1 - (8 * c + r)))"
  proof (cases "c = 0")
    case True
    show ?thesis
    proof (cases "i \<noteq> 0 \<or> i + n > 32")
      case first: True
      show ?thesis
        using first_byte [OF i r n(2) bits, of m p]
        unfolding nth_scattered [OF c] if_P [OF True] if_P [OF first] unfolding True by simp
    next
      case plain: False
      show ?thesis
        using plain_byte [OF r n(2) _ _ _ _ bits(1), of i 0 24] plain
        unfolding nth_scattered [OF c] if_P [OF True] if_not_P [OF plain] unfolding True by simp
    qed
  next
    case c0: False
    then have front: "\<not> 8 * c + r < i" using i by linarith
    show ?thesis
    proof (cases "c = 4")
      case True
      show ?thesis
        using last_byte [OF r n(2) i _ bits(1)] front
        unfolding nth_scattered [OF c] if_not_P [OF c0] if_P [OF True] unfolding True by simp
    next
      case False
      then have "c \<le> 3" using c4 by simp
      then show ?thesis
        using plain_byte [OF r n(2) _ _ refl _ bits(1), of i c] front
        unfolding nth_scattered [OF c] if_not_P [OF c0] if_not_P [OF False] by blast
    qed
  qed
qed

text \<open>Whole bytes, the most significant first.\<close>

lemma whole_stores:
  fixes x :: "'a::len word"
  assumes fits: "p + w \<le> length m" and len: "length bs = w" and n: "n = 8 * w"
    and bytes: "\<And>c t. c < w \<Longrightarrow> t < 8 \<Longrightarrow> bit (bs ! c) t \<longleftrightarrow> bit x (8 * (w - 1 - c) + t)"
  shows "stores m (8 * p) n x (put_bytes m p bs)"
proof -
  have "stores m (8 * p + 0) (8 * w) x (put_bytes m p bs)"
  proof (rule storesI)
    fix c r :: nat
    assume c: "c < length bs" and r: "r < 8"
    then have "0 + 8 * w - 1 - (8 * c + r) = 8 * (w - 1 - c) + (7 - r)"
      unfolding len by (simp add: diff_mult_distrib2)
    moreover have "7 - r < 8" by simp
    ultimately show "(8 * c + r < 0 \<longrightarrow> bit (bs ! c) (7 - r) = bit (m ! (p + c)) (7 - r))
        \<and> (0 \<le> 8 * c + r \<and> 8 * c + r < 0 + 8 * w \<longrightarrow> bit (bs ! c) (7 - r) = bit x (0 + 8 * w - 1 - (8 * c + r)))"
      using bytes [of c "7 - r"] c unfolding len by simp
  qed (use fits len in simp_all)
  then show ?thesis unfolding n by simp
qed

lemma u1_stores:
  assumes "p < length m"
  shows "stores m (8 * p) 1 x (xu_bits_set_u1 m p x)"
proof -
  have "stores m (8 * p + 0) 1 x (put_bytes m p [((m ! p) AND 0x7f) OR ucast (push_bit 7 (x AND 1))])"
    by (rule storesI) (use assms in \<open>auto simp: bit_simps\<close>)
  then show ?thesis using assms by (simp add: xu_bits_set_u1_def update_is_put)
qed

lemma u8_stores: "p < length m \<Longrightarrow> stores m (8 * p) 8 (x :: u32) (m[p := ucast x])"
  unfolding update_is_put by (rule whole_stores [where w = 1]) (auto simp: bit_simps)

lemma u16_stores:
  "p + 2 \<le> length m \<Longrightarrow> stores m (8 * p) 16 x (xu_bits_set_u16_be m p x)"
  unfolding xu_bits_set_u16_be_def
  by (rule whole_stores [where w = 2]) (auto simp: bit_simps dest!: less_cases(1))

lemma u16_stores_cast:
  "p + 2 \<le> length m \<Longrightarrow> stores m (8 * p) 16 (x :: u32) (xu_bits_set_u16_be m p (ucast x))"
  unfolding xu_bits_set_u16_be_def
  by (rule whole_stores [where w = 2]) (auto simp: bit_simps dest!: less_cases(1))

lemma u24_stores:
  "p + 3 \<le> length m \<Longrightarrow> stores m (8 * p) 24 x (xu_bits_set_u24_be m p x)"
  unfolding xu_bits_set_u24_be_def
  by (rule whole_stores [where w = 3]) (auto simp: bit_simps dest!: less_cases(2))

lemma u32_stores:
  "p + 4 \<le> length m \<Longrightarrow> stores m (8 * p) 32 x (xu_bits_set_u32_be m p x)"
  unfolding xu_bits_set_u32_be_def
  by (rule whole_stores [where w = 4]) (auto simp: bit_simps dest!: less_cases(3))

lemma u64_stores:
  "p + 8 \<le> length m \<Longrightarrow> stores m (8 * p) 64 x (xu_bits_set_u64_be m p x)"
  unfolding xu_bits_set_u64_be_def
proof (rule whole_stores [where w = 8])
  fix c t :: nat
  assume c: "c < 8" and t: "t < 8"
  show "bit ([ucast (drop_bit 56 x), ucast (drop_bit 48 x), ucast (drop_bit 40 x),
       ucast (drop_bit 32 x), ucast (drop_bit 24 x), ucast (drop_bit 16 x), ucast (drop_bit 8 x), ucast x] ! c :: u8) t
    \<longleftrightarrow> bit x (8 * (8 - 1 - c) + t)"
    using less_cases(4) [OF c] t by (elim disjE) (simp_all add: bit_ucast_iff bit_drop_bit_eq)
qed simp_all

lemma set_ubits32_cases:
  assumes "0 < n" and "mem_ok m (p + b div 8) ((b mod 8 + n + 7) div 8)"
  shows "xu_bits_set_ubits32 m p b x n =
    (if b mod 8 = 0 \<and> n = 1 then Some (xu_bits_set_u1 m (p + b div 8) x)
     else if b mod 8 = 0 \<and> n = 8 then Some (m[p + b div 8 := ucast x])
     else if b mod 8 = 0 \<and> n = 16 then Some (xu_bits_set_u16_be m (p + b div 8) (ucast x))
     else if b mod 8 = 0 \<and> n = 24 then Some (xu_bits_set_u24_be m (p + b div 8) x)
     else if b mod 8 = 0 \<and> n = 32 then Some (xu_bits_set_u32_be m (p + b div 8) x)
     else Some (put_bytes m (p + b div 8)
       (scattered m (p + b div 8) (b mod 8) (if n < 32 then push_bit (32 - n) 0xffffffff else 0xffffffff)
         (if n < 32 then push_bit (32 - n) x else x) n)))"
proof -
  have "n \<noteq> 0" using assms(1) by simp
  then show ?thesis
    unfolding xu_bits_set_ubits32_def scattered_def Let_def if_not_P [OF \<open>n \<noteq> 0\<close>] not_not if_P [OF assms(2)]
    by (cases "n < 32") (simp_all only: if_True if_False prod.case assms(2) not_True_eq_False)
qed

lemma set_ubits32_stores:
  assumes n: "n \<le> 32" and fits: "mem_ok m p ((b + n + 7) div 8)"
  obtains m' where "xu_bits_set_ubits32 m p b x n = Some m'" and "stores m (8 * p + b) n x m'"
proof (cases "n = 0")
  case True
  have "stores m (8 * p + b) n x m" using True by (auto simp: stores_def)
  then show ?thesis using that [of m] True by (simp add: xu_bits_set_ubits32_def)
next
  case False
  then have n0: "0 < n" by simp
  let ?p = "p + b div 8"
  have ok: "mem_ok m ?p ((b mod 8 + n + 7) div 8)" by (rule iffD2 [OF mem_span fits])
  have z: "8 * p + b = 8 * ?p" if "b mod 8 = 0" using bit_position [of p b] that by simp
  define m' where "m' =
    (if b mod 8 = 0 \<and> n = 1 then xu_bits_set_u1 m ?p x
     else if b mod 8 = 0 \<and> n = 8 then m[?p := ucast x]
     else if b mod 8 = 0 \<and> n = 16 then xu_bits_set_u16_be m ?p (ucast x)
     else if b mod 8 = 0 \<and> n = 24 then xu_bits_set_u24_be m ?p x
     else if b mod 8 = 0 \<and> n = 32 then xu_bits_set_u32_be m ?p x
     else put_bytes m ?p
       (scattered m ?p (b mod 8) (if n < 32 then push_bit (32 - n) 0xffffffff else 0xffffffff)
         (if n < 32 then push_bit (32 - n) x else x) n))"
  have "xu_bits_set_ubits32 m p b x n = Some m'"
    unfolding m'_def set_ubits32_cases [OF n0 ok] if_distrib [of Some] by (rule refl)
  moreover have "stores m (8 * p + b) n x m'"
    unfolding m'_def
    by (split if_split, intro conjI impI, elim conjE, simp only: z, rule u1_stores,
          use ok in \<open>simp add: mem_ok_def\<close>,
        split if_split, intro conjI impI, elim conjE, simp only: z, rule u8_stores,
          use ok in \<open>simp add: mem_ok_def\<close>,
        split if_split, intro conjI impI, elim conjE, simp only: z, rule u16_stores_cast,
          use ok in \<open>simp add: mem_ok_def\<close>,
        split if_split, intro conjI impI, elim conjE, simp only: z, rule u24_stores,
          use ok in \<open>simp add: mem_ok_def\<close>,
        split if_split, intro conjI impI, elim conjE, simp only: z, rule u32_stores,
          use ok in \<open>simp add: mem_ok_def\<close>,
        rule scattered_stores [OF _ n0 n ok, unfolded bit_position]) simp
  ultimately show ?thesis by (rule that)
qed

section \<open>Writing and reading back\<close>

lemma stores_field:
  fixes x :: "'a::len word"
  assumes st: "stores m j n x m'" and fits: "j + n \<le> 8 * length m"
  shows "field m' j n (take_bit n x)"
proof (rule fieldI)
  fix k
  show "bit (take_bit n x) k \<longleftrightarrow> k < n \<and> sbit m' (j + n - 1 - k)"
  proof (cases "k < n")
    case True
    then have "j \<le> j + n - 1 - k" "j + n - 1 - k < j + n" "j + n - 1 - (j + n - 1 - k) = k" by simp_all
    moreover have "j + n - 1 - k < 8 * length m" using True fits by linarith
    ultimately have "sbit m' (j + n - 1 - k) = bit x k" using st unfolding stores_def by metis
    then show ?thesis using True by (simp add: bit_take_bit_iff)
  qed (simp add: bit_take_bit_iff)
qed

lemma mem_ok_bits:
  assumes "mem_ok m p ((b + n + 7) div 8)"
  shows "8 * p + b + n \<le> 8 * length m"
proof -
  have "b + n \<le> 8 * ((b + n + 7) div 8)" by simp
  then show ?thesis using assms unfolding mem_ok_def by linarith
qed

lemma mem_ok_mono: "mem_ok m p k \<Longrightarrow> k' \<le> k \<Longrightarrow> length m' = length m \<Longrightarrow> mem_ok m' p k'"
  by (simp add: mem_ok_def)

lemma stores_length: "stores m j n x m' \<Longrightarrow> length m' = length m"
  by (simp add: stores_def)

lemma stores_frame:
  "stores m j n x m' \<Longrightarrow> k < 8 * length m \<Longrightarrow> k < j \<or> 8 * ((j + n + 7) div 8) \<le> k \<Longrightarrow> sbit m' k = sbit m k"
  unfolding stores_def by blast

lemma stores_at:
  "stores m j n x m' \<Longrightarrow> j + k < 8 * length m \<Longrightarrow> k < n \<Longrightarrow> sbit m' (j + k) = bit x (n - 1 - k)"
  by (auto simp: stores_def)

lemma ubits32_roundtrip:
  assumes "n \<le> 32" and "mem_ok m p ((b + n + 7) div 8)"
  shows "\<exists>m'. xu_bits_set_ubits32 m p b x n = Some m'
    \<and> xu_bits_get_ubits32 m' p b n = Some (take_bit n x)
    \<and> length m' = length m
    \<and> (\<forall>k < 8 * length m. k < 8 * p + b \<or> 8 * ((8 * p + b + n + 7) div 8) \<le> k \<longrightarrow> sbit m' k = sbit m k)"
proof -
  obtain m' where set: "xu_bits_set_ubits32 m p b x n = Some m'" and st: "stores m (8 * p + b) n x m'"
    by (rule set_ubits32_stores [OF assms])
  have ok: "mem_ok m' p ((b + n + 7) div 8)"
    by (rule mem_ok_mono [OF assms(2) order_refl stores_length [OF st]])
  obtain v where get: "xu_bits_get_ubits32 m' p b n = Some v" and v: "field m' (8 * p + b) n v"
    by (rule get_ubits32_field [OF assms(1) ok])
  have "v = take_bit n x"
    by (rule field_unique [OF v stores_field [OF st mem_ok_bits [OF assms(2)]]])
  then show ?thesis using set get stores_length [OF st] stores_frame [OF st] by blast
qed

section \<open>Signed fields\<close>

lemma field_bit: "field m j n v \<Longrightarrow> k < LENGTH('a) \<Longrightarrow> bit (v :: 'a::len word) k \<longleftrightarrow> k < n \<and> sbit m (j + n - 1 - k)"
  by (simp add: field_def)

lemma minus_bit_word:
  fixes s :: "'a::len word"
  assumes "\<And>k. bit s k \<longleftrightarrow> k = 0 \<and> q"
  shows "s = (if q then 1 else 0)"
  by (rule bit_word_eqI) (use assms in \<open>auto simp: bit_1_iff\<close>)

text \<open>The value with \<open>n\<close> low bits, the highest of them repeated upwards.\<close>

definition sfield :: "u8 list \<Rightarrow> nat \<Rightarrow> nat \<Rightarrow> 'a::len word \<Rightarrow> bool" where
  "sfield m j n v \<longleftrightarrow> (\<forall>k < LENGTH('a). bit v k \<longleftrightarrow> sbit m (j + n - 1 - min k (n - 1)))"

lemma joined_sfield:
  fixes s x :: "'a::len word"
  assumes n: "0 < n" "n < LENGTH('a)" and s: "field m j 1 s" and x: "field m (j + 1) (n - 1) x"
  shows "sfield m j n (push_bit (n - 1) (- s) OR x)"
  unfolding sfield_def
proof (intro allI impI)
  fix k
  assume k: "k < LENGTH('a)"
  have "bit s i \<longleftrightarrow> i = 0 \<and> sbit m j" for i
  proof (cases "i < LENGTH('a)")
    case True
    then show ?thesis using field_bit [OF s True] by auto
  next
    case False
    then show ?thesis using bit_imp_le_length [of s i] by auto
  qed
  then have s1: "s = (if sbit m j then 1 else 0)" by (rule minus_bit_word)
  have sb: "bit (push_bit (n - 1) (- s)) k \<longleftrightarrow> n - 1 \<le> k \<and> sbit m j"
    unfolding s1 using k by (auto simp: bit_push_bit_iff)
  have xb: "bit x k \<longleftrightarrow> k < n - 1 \<and> sbit m (j + n - 1 - k)"
    using field_bit [OF x k] n by simp
  show "bit (push_bit (n - 1) (- s) OR x) k \<longleftrightarrow> sbit m (j + n - 1 - min k (n - 1))"
  proof (cases "k < n - 1")
    case True
    then show ?thesis unfolding bit_or_iff sb xb by (simp add: min_def)
  next
    case False
    then have "j + n - 1 - min k (n - 1) = j" using n by simp
    then show ?thesis unfolding bit_or_iff sb xb using False by simp
  qed
qed

lemma get_sbits32_sfield:
  assumes n: "0 < n" "n \<le> 32" and fits: "mem_ok m p ((b + n + 7) div 8)"
  obtains v where "xu_bits_get_sbits32 m p b n = Some v" and "sfield m (8 * p + b) n v"
proof (cases "n < 32")
  case True
  let ?p = "p + b div 8" and ?b = "b mod 8"
  have ok: "mem_ok m ?p ((?b + n + 7) div 8)" by (rule iffD2 [OF mem_span fits])
  have ok1: "mem_ok m ?p ((?b + 1 + 7) div 8)"
    by (rule mem_ok_mono [OF ok div_le_mono refl]) (use n in simp)
  have ok2: "mem_ok m ?p ((?b + 1 + (n - 1) + 7) div 8)"
    using ok n by simp
  obtain s where s: "xu_bits_get_ubits32 m ?p ?b 1 = Some s" "field m (8 * ?p + ?b) 1 s"
    by (rule get_ubits32_field [OF _ ok1]) simp
  obtain x where x: "xu_bits_get_ubits32 m ?p (?b + 1) (n - 1) = Some x"
    "field m (8 * ?p + (?b + 1)) (n - 1) x"
    by (rule get_ubits32_field [OF _ ok2]) (use n in simp)
  have "xu_bits_get_sbits32 m p b n = Some (push_bit (n - 1) (- s) OR x)"
    using n True s(1) x(1) by (simp add: xu_bits_get_sbits32_def Let_def)
  moreover have "sfield m (8 * p + b) n (push_bit (n - 1) (- s) OR x)"
  proof (rule joined_sfield [OF n(1)])
    show "field m (8 * p + b) 1 s" using s(2) unfolding bit_position .
    show "field m (8 * p + b + 1) (n - 1) x"
      using x(2) unfolding add.assoc [symmetric] bit_position .
  qed (use True in simp)
  ultimately show ?thesis by (rule that)
next
  case False
  then have n32: "n = 32" using n by simp
  have ok: "mem_ok m (p + b div 8) ((b mod 8 + n + 7) div 8)" by (rule iffD2 [OF mem_span fits])
  obtain v where v: "xu_bits_get_ubits32 m (p + b div 8) (b mod 8) n = Some v"
    "field m (8 * (p + b div 8) + b mod 8) n v"
    by (rule get_ubits32_field [OF n(2) ok])
  have "xu_bits_get_sbits32 m p b n = Some v"
    using n32 v(1) by (simp add: xu_bits_get_sbits32_def Let_def)
  moreover have "sfield m (8 * p + b) n v"
    using v(2) unfolding bit_position by (auto simp: sfield_def field_def n32 min_def)
  ultimately show ?thesis by (rule that)
qed

lemma sfield_unique: "sfield m j n v \<Longrightarrow> sfield m j n w \<Longrightarrow> v = w"
  by (rule bit_word_eqI) (simp add: sfield_def)

lemma sign_bits: "bit (drop_bit 31 x AND 1 :: u32) 0 \<longleftrightarrow> bit x 31"
  by (simp add: bit_and_iff bit_drop_bit_eq)

lemma low_bits:
  assumes "k < 31"
  shows "bit (x AND 0x7fffffff :: u32) k \<longleftrightarrow> bit x k"
proof -
  have m: "(0x7fffffff :: u32) = mask 31" by (simp add: mask_eq_exp_minus_1)
  show ?thesis unfolding m using assms by (simp add: bit_and_iff bit_mask_iff)
qed

lemma fits_bits:
  assumes "signed_take_bit (n - 1) x = (x :: u32)" and "k < 32"
  shows "bit x k \<longleftrightarrow> bit x (min k (n - 1))"
  using assms(2) by (subst assms(1) [symmetric]) (simp add: bit_signed_take_bit_iff min.commute)

lemma set_sbits32_at:
  assumes n: "0 < n" "n \<le> 32" and fits: "mem_ok m p ((b + n + 7) div 8)"
  shows "\<exists>m'. xu_bits_set_sbits32 m p b x n = Some m' \<and> length m' = length m
    \<and> (\<forall>k < n. sbit m' (8 * p + b + k) = bit x (if k = 0 then 31 else n - 1 - k))
    \<and> (\<forall>k < 8 * length m. k < 8 * p + b \<or> 8 * ((8 * p + b + n + 7) div 8) \<le> k \<longrightarrow> sbit m' k = sbit m k)"
proof -
  let ?p = "p + b div 8" and ?b = "b mod 8" and ?j = "8 * p + b"
  have ok: "mem_ok m ?p ((?b + n + 7) div 8)" by (rule iffD2 [OF mem_span fits])
  have bits: "?j + n \<le> 8 * length m" by (rule mem_ok_bits [OF fits])
  show ?thesis
  proof (cases "n < 32")
    case True
    have ok1: "mem_ok m ?p ((?b + 1 + 7) div 8)"
      by (rule mem_ok_mono [OF ok div_le_mono refl]) (use n in simp)
    obtain m1 where m1: "xu_bits_set_ubits32 m ?p ?b (drop_bit 31 x AND 1) 1 = Some m1"
      and st1: "stores m (8 * ?p + ?b) 1 (drop_bit 31 x AND 1) m1"
      by (rule set_ubits32_stores [OF _ ok1]) simp
    have ok2: "mem_ok m1 ?p ((?b + 1 + (n - 1) + 7) div 8)"
      by (rule mem_ok_mono [OF ok div_le_mono stores_length [OF st1]]) (use n in simp)
    obtain m2 where m2: "xu_bits_set_ubits32 m1 ?p (?b + 1) (x AND 0x7fffffff) (n - 1) = Some m2"
      and st2: "stores m1 (8 * ?p + (?b + 1)) (n - 1) (x AND 0x7fffffff) m2"
      by (rule set_ubits32_stores [OF _ ok2]) (use n in simp)
    note st = st1 [unfolded bit_position] st2 [unfolded add.assoc [symmetric] bit_position]
    have len: "length m1 = length m" "length m2 = length m"
      using stores_length [OF st(1)] stores_length [OF st(2)] by simp_all
    have "sbit m2 (?j + k) = bit x (if k = 0 then 31 else n - 1 - k)" if k: "k < n" for k
    proof (cases k)
      case 0
      have "sbit m2 ?j = sbit m1 ?j" using stores_frame [OF st(2)] bits n len by simp
      also have "\<dots> = bit x 31" using stores_at [OF st(1), of 0] bits n by (simp add: sign_bits)
      finally show ?thesis using 0 by simp
    next
      case (Suc i)
      then have "sbit m2 (?j + 1 + i) = bit (x AND 0x7fffffff) (n - 1 - 1 - i)"
        using stores_at [OF st(2), of i] bits k len by simp
      also have "\<dots> = bit x (n - 1 - 1 - i)" by (rule low_bits) (use True in simp)
      finally show ?thesis using Suc by simp
    qed
    moreover have "sbit m2 k = sbit m k" if "k < 8 * length m" "k < ?j \<or> 8 * ((?j + n + 7) div 8) \<le> k" for k
    proof -
      have "8 * ((?j + 1 + 7) div 8) \<le> 8 * ((?j + n + 7) div 8)"
        using n(1) by (intro mult_le_mono2 div_le_mono) simp
      moreover have "?j + 1 + (n - 1) + 7 = ?j + n + 7" using n(1) by simp
      ultimately show ?thesis
        using that stores_frame [OF st(1), of k] stores_frame [OF st(2), of k] len by auto
    qed
    ultimately show ?thesis using n True m1 m2 len by (simp add: xu_bits_set_sbits32_def Let_def)
  next
    case False
    then have n32: "n = 32" using n by simp
    obtain m' where "xu_bits_set_ubits32 m ?p ?b x n = Some m'" "stores m (8 * ?p + ?b) n x m'"
      by (rule set_ubits32_stores [OF n(2) ok])
    then show ?thesis
      using stores_at [of m ?j n x m'] stores_length [of m ?j n x m'] stores_frame [of m ?j n x m'] bits n32
      unfolding bit_position by (simp add: xu_bits_set_sbits32_def Let_def)
  qed
qed

lemma set_sbits32_fit:
  assumes n: "0 < n" "n \<le> 32" and fits: "mem_ok m p ((b + n + 7) div 8)"
    and range: "signed_take_bit (n - 1) x = x"
  shows "\<exists>m'. xu_bits_set_sbits32 m p b x n = Some m' \<and> length m' = length m
    \<and> (\<forall>k < n. sbit m' (8 * p + b + k) = bit x (n - 1 - k))
    \<and> (\<forall>k < 8 * length m. k < 8 * p + b \<or> 8 * ((8 * p + b + n + 7) div 8) \<le> k \<longrightarrow> sbit m' k = sbit m k)"
proof -
  have "bit x (if k = 0 then 31 else n - 1 - k) = bit x (n - 1 - k)" for k
    using fits_bits [OF range, of 31] n by (simp add: min_absorb2)
  then show ?thesis using set_sbits32_at [OF assms(1-3), of x] by simp
qed

lemma at_sfield:
  assumes n: "0 < n" "n \<le> 32" and range: "signed_take_bit (n - 1) x = (x :: u32)"
    and at: "\<And>k. k < n \<Longrightarrow> sbit m (j + k) = bit x (n - 1 - k)"
  shows "sfield m j n x"
  unfolding sfield_def
proof (intro allI impI)
  fix k assume "k < LENGTH(32)"
  then have "bit x k \<longleftrightarrow> bit x (min k (n - 1))" by (intro fits_bits [OF range]) simp
  also have "\<dots> = sbit m (j + (n - 1 - min k (n - 1)))"
    using at [of "n - 1 - min k (n - 1)"] n by simp
  also have "j + (n - 1 - min k (n - 1)) = j + n - 1 - min k (n - 1)" using n by simp
  finally show "bit x k \<longleftrightarrow> sbit m (j + n - 1 - min k (n - 1))" .
qed

lemma sbits32_roundtrip:
  assumes n: "0 < n" "n \<le> 32" and fits: "mem_ok m p ((b + n + 7) div 8)"
    and range: "signed_take_bit (n - 1) x = x"
  shows "\<exists>m'. xu_bits_set_sbits32 m p b x n = Some m' \<and> xu_bits_get_sbits32 m' p b n = Some x"
proof -
  let ?j = "8 * p + b"
  obtain m' where set: "xu_bits_set_sbits32 m p b x n = Some m'" and len: "length m' = length m"
    and at: "\<And>k. k < n \<Longrightarrow> sbit m' (?j + k) = bit x (n - 1 - k)"
    using set_sbits32_fit [OF assms] by blast
  obtain v where get: "xu_bits_get_sbits32 m' p b n = Some v" and v: "sfield m' ?j n v"
    by (rule get_sbits32_sfield [OF n mem_ok_mono [OF fits order_refl len]])
  have "sfield m' ?j n x" by (rule at_sfield [OF n range at])
  then show ?thesis using set get sfield_unique [OF v] by blast
qed

text \<open>Writing \<open>n\<close> bits at any bit position inside the memory succeeds; reading them
  back gives the low \<open>n\<close> bits of the value, and no bit in front of the field and no byte behind
  its last byte changes. A signed value that fits in the field is read back sign-extended as itself after
  it was written with its sign bit first.\<close>

theorem xu_bits_ubits32_roundtrip:
  assumes "n \<le> 32" and "mem_ok m p ((b + n + 7) div 8)"
  shows "(\<exists>m'. xu_bits_set_ubits32 m p b x n = Some m'
    \<and> xu_bits_get_ubits32 m' p b n = Some (take_bit n x)
    \<and> length m' = length m
    \<and> (\<forall>k < 8 * length m. k < 8 * p + b \<or> 8 * ((8 * p + b + n + 7) div 8) \<le> k \<longrightarrow> sbit m' k = sbit m k))
    \<and> (0 < n \<and> signed_take_bit (n - 1) y = y \<longrightarrow>
        (\<exists>m'. xu_bits_set_sbits32 m p b y n = Some m' \<and> xu_bits_get_sbits32 m' p b n = Some y))"
  using ubits32_roundtrip [OF assms] sbits32_roundtrip [OF _ assms] by blast

theorem xu_bits_ubits32_roundtrip_example:
  "(\<exists>m'. xu_bits_set_ubits32 [0xff, 0xff, 0xff] 0 5 0x1ab 9 = Some m'
    \<and> xu_bits_get_ubits32 m' 0 5 9 = Some (take_bit 9 0x1ab) \<and> length m' = 3
    \<and> (\<forall>k < 24. k < 5 \<or> 16 \<le> k \<longrightarrow> sbit m' k = sbit [0xff, 0xff, 0xff] k))
   \<and> (\<exists>m'. xu_bits_set_sbits32 [0xff, 0xff, 0xff] 0 5 0xfffffff9 9 = Some m'
     \<and> xu_bits_get_sbits32 m' 0 5 9 = Some 0xfffffff9)"
proof -
  have "signed_take_bit (9 - 1) (0xfffffff9 :: u32) = 0xfffffff9" by code_simp
  then show ?thesis
    using xu_bits_ubits32_roundtrip [where n = 9 and m = "[0xff, 0xff, 0xff]" and p = 0 and b = 5 and x = "0x1ab" and y = "0xfffffff9"]
    by (simp add: mem_ok_def numeral_3_eq_3)
qed

section \<open>Fields of up to 64 bits\<close>

lemma long_byte:
  fixes i t c :: nat
  assumes "i < 8" and "t < 64" and "c \<le> 7"
  shows "bit (push_bit (i + 56 - 8 * c) (ucast (m ! (p + c))) :: u64) t
    \<longleftrightarrow> 8 * c \<le> i + 63 - t \<and> i + 63 - t < 8 * c + 8 \<and> sbit m (8 * p + (i + 63 - t))"
proof (cases "8 * c \<le> i + 63 - t \<and> i + 63 - t < 8 * c + 8")
  case True
  then obtain r where r: "i + 63 - t = 8 * c + r" "r < 8" by (auto simp: le_iff_add)
  have t: "i + 56 - 8 * c \<le> t" "t - (i + 56 - 8 * c) = 7 - r"
    using r assms by linarith+
  have "8 * p + (8 * c + r) = 8 * (p + c) + (7 - (7 - r))" using r(2) by simp
  then have s: "sbit m (8 * p + (8 * c + r)) = bit (m ! (p + c)) (7 - r)"
    using byte_index_parts [of "p + c" "7 - r"] r(2) by (simp only: sbit_def) simp
  show ?thesis using True assms(2) unfolding bit_push_bit_iff bit_ucast_iff r s t(2) using t(1) by auto
next
  case False
  then have "\<not> (i + 56 - 8 * c \<le> t \<and> t - (i + 56 - 8 * c) < 8)" using assms by linarith
  then show ?thesis using False bit_imp_le_length [of "m ! (p + c)" "t - (i + 56 - 8 * c)"]
    by (auto simp: bit_push_bit_iff bit_ucast_iff)
qed

lemma long_last:
  assumes "i < 8" and "t < 64"
  shows "bit (drop_bit (8 - i) (ucast (m ! (p + 8))) :: u64) t
    \<longleftrightarrow> 64 \<le> i + 63 - t \<and> sbit m (8 * p + (i + 63 - t))"
proof (cases "t < i")
  case True
  define r where "r = i - t - 1"
  have r: "i + 63 - t = 8 * 8 + r" "r < 8" "8 - i + t = 7 - r"
    using True assms unfolding r_def by linarith+
  have "8 * p + (8 * 8 + r) = 8 * (p + 8) + (7 - (7 - r))" using r(2) by simp
  then have s: "sbit m (8 * p + (8 * 8 + r)) = bit (m ! (p + 8)) (7 - r)"
    using byte_index_parts [of "p + 8" "7 - r"] r(2) by (simp only: sbit_def) simp
  have "7 - r < 64" by simp
  then show ?thesis unfolding r(1) s bit_drop_bit_eq o_def r(3) bit_ucast_iff by simp
next
  case False
  then have "\<not> bit (m ! (p + 8)) (8 - i + t)" using assms by simp
  moreover have "\<not> 64 \<le> i + 63 - t" using False assms by linarith
  ultimately show ?thesis by (simp only: bit_drop_bit_eq o_def bit_ucast_iff) simp
qed

lemma get_ubits64_loop_bits:
  assumes i: "i < 8" and tot: "tot \<le> 64 + i" and t: "t < 64" and q: "i + 63 - t < tot"
    and c: "8 * c \<le> tot"
  shows "bit (get_ubits64_loop m (p + c) i (tot - 8 * c) (56 - 8 * int c) x) t
    \<longleftrightarrow> bit x t \<or> 8 * c \<le> i + 63 - t \<and> sbit m (8 * p + (i + 63 - t))"
  using c
proof (induction "tot - 8 * c" arbitrary: c x rule: less_induct)
  case less
  note step = get_ubits64_loop.simps [of m "p + c" i "tot - 8 * c" "56 - 8 * int c" x]
  have sh: "nat (int i + (56 - 8 * int c)) = i + 56 - 8 * c" by simp
  consider (full) "tot - 8 * c > 7" | (rest) "0 < tot - 8 * c" "tot - 8 * c \<le> 7" | (stop) "tot - 8 * c = 0"
    by linarith
  then show ?case
  proof cases
    case full
    then have c7: "c \<le> 7" and "8 * c + 8 \<le> tot" using tot i by linarith+
    then have nx: "8 * Suc c \<le> tot" by simp
    have "tot - 8 * c - 8 = tot - 8 * Suc c" "56 - 8 * int c - 8 = 56 - 8 * int (Suc c)" "p + c + 1 = p + Suc c"
      by simp_all
    then have "get_ubits64_loop m (p + c) i (tot - 8 * c) (56 - 8 * int c) x
      = get_ubits64_loop m (p + Suc c) i (tot - 8 * Suc c) (56 - 8 * int (Suc c))
          (x OR push_bit (i + 56 - 8 * c) (ucast (m ! (p + c))))"
      using full sh unfolding step by (simp only: if_True)
    moreover have dec: "tot - 8 * Suc c < tot - 8 * c" using full by simp
    have "8 * c \<le> q \<and> q < 8 * c + 8 \<or> 8 * Suc c \<le> q \<longleftrightarrow> 8 * c \<le> q" for q by auto
    then have "8 * c \<le> q \<and> q < 8 * c + 8 \<and> s \<or> 8 * Suc c \<le> q \<and> s \<longleftrightarrow> 8 * c \<le> q \<and> s" for q s
      by blast
    ultimately show ?thesis
      by (simp only: less.hyps [OF dec nx] bit_or_iff long_byte [OF i t c7] disj_assoc)
  next
    case rest
    show ?thesis
    proof (cases "c \<le> 7")
      case True
      then show ?thesis
        using rest sh q unfolding step by (auto simp: bit_or_iff long_byte [OF i t True])
    next
      case False
      then have "c = 8" using rest tot i by linarith
      then show ?thesis using rest unfolding step by (simp add: bit_or_iff long_last [OF i t])
    qed
  next
    case stop
    then show ?thesis using q unfolding step by simp
  qed
qed

lemma long_parts:
  assumes i: "i < 8" and n: "0 < n" "n \<le> 64"
    and x: "\<And>t. t < 64 \<Longrightarrow> 64 - n \<le> t \<Longrightarrow> bit (x :: u64) t \<longleftrightarrow> sbit m (8 * p + (i + 63 - t))"
  shows "field m (8 * p + i) n (if n < 64 then drop_bit (64 - n) x else x)"
proof (rule fieldI)
  fix k assume k: "k < LENGTH(64)"
  have shift: "(if n < 64 then drop_bit (64 - n) x else x) = drop_bit (64 - n) x" by simp
  show "bit (if n < 64 then drop_bit (64 - n) x else x) k \<longleftrightarrow> k < n \<and> sbit m (8 * p + i + n - 1 - k)"
  proof (cases "k < n")
    case True
    then have "8 * p + (i + 63 - (64 - n + k)) = 8 * p + i + n - 1 - k" using n by linarith
    then show ?thesis
      unfolding shift using x [of "64 - n + k"] True n by (simp add: bit_drop_bit_eq)
  next
    case False
    then show ?thesis
      unfolding shift using bit_imp_le_length [of x "64 - n + k"] n by (auto simp: bit_drop_bit_eq)
  qed
qed

lemma field_ucast:
  assumes "field m j n (v :: u32)" and "n \<le> 32"
  shows "field m j n (ucast v :: u64)"
  using assms bit_imp_le_length [of v] by (auto simp: field_def bit_ucast_iff)

lemma sfield_scast:
  assumes "sfield m j n (v :: u32)" and "0 < n" and "n \<le> 32"
  shows "sfield m j n (scast v :: u64)"
  unfolding sfield_def
proof (intro allI impI)
  fix k assume "k < LENGTH(64)"
  then have "bit (scast v :: u64) k \<longleftrightarrow> bit v (min k 31)"
    using bit_imp_le_length [of v k] by (auto simp: bit_word_scast_iff min_def not_le)
  moreover have "min (min k 31) (n - 1) = min k (n - 1)" using assms(2,3) by simp
  moreover have "min k 31 < LENGTH(32)" by simp
  then have "bit v (min k 31) \<longleftrightarrow> sbit m (j + n - 1 - min (min k 31) (n - 1))"
    using assms(1) unfolding sfield_def by blast
  ultimately show "bit (scast v :: u64) k \<longleftrightarrow> sbit m (j + n - 1 - min k (n - 1))" by metis
qed

lemma get_ubits64_field:
  assumes n: "n \<le> 64" and fits: "mem_ok m p ((b + n + 7) div 8)"
  obtains v where "xu_bits_get_ubits64 m p b n = Some v" and "field m (8 * p + b) n v"
proof (cases "n \<le> 32")
  case True
  obtain v where "xu_bits_get_ubits32 m p b n = Some v" "field m (8 * p + b) n v"
    by (rule get_ubits32_field [OF True fits])
  then show ?thesis
    using that field_ucast [OF _ True] True by (simp add: xu_bits_get_ubits64_def)
next
  case False
  let ?p = "p + b div 8" and ?b = "b mod 8"
  have ok: "mem_ok m ?p ((?b + n + 7) div 8)" by (rule iffD2 [OF mem_span fits])
  have n0: "0 < n" and b: "?b < 8" using False by simp_all
  show ?thesis
  proof (cases "?b = 0 \<and> n = 64")
    case True
    then have z: "8 * p + b = 8 * ?p" using bit_position [of p b] by simp
    have "field m (8 * p + b) n (xu_bits_get_u64_be m ?p)"
      unfolding z conjunct2 [OF True] by (rule u64_field)
    then show ?thesis using that False ok True by (simp add: xu_bits_get_ubits64_def Let_def)
  next
    case general: False
    define x where "x = get_ubits64_loop m ?p ?b (?b + n) 56 0"
    have "bit x t \<longleftrightarrow> sbit m (8 * ?p + (?b + 63 - t))" if t: "t < 64" "64 - n \<le> t" for t
      unfolding x_def
      using get_ubits64_loop_bits [OF b _ t(1), of "?b + n" 0 m ?p 0] n t n0 by simp
    then have f: "field m (8 * p + b) n (if n < 64 then drop_bit (64 - n) x else x)"
      using long_parts [OF b n0 n, of x m ?p] unfolding bit_position by blast
    have "xu_bits_get_ubits64 m p b n = Some (if n < 64 then drop_bit (64 - n) x else x)"
      unfolding xu_bits_get_ubits64_def Let_def x_def
      by (simp only: False general ok if_False not_True_eq_False)
    then show ?thesis using f by (rule that)
  qed
qed

lemma get_sbits64_sfield:
  assumes n: "0 < n" "n \<le> 64" and fits: "mem_ok m p ((b + n + 7) div 8)"
  obtains v where "xu_bits_get_sbits64 m p b n = Some v" and "sfield m (8 * p + b) n v"
proof -
  let ?p = "p + b div 8" and ?b = "b mod 8"
  have ok: "mem_ok m ?p ((?b + n + 7) div 8)" by (rule iffD2 [OF mem_span fits])
  consider "n \<le> 32" | (mid) "32 < n" "n < 64" | (full) "n = 64" using n by linarith
  then show ?thesis
  proof cases
    case 1
    obtain v where "xu_bits_get_sbits32 m p b n = Some v" "sfield m (8 * p + b) n v"
      by (rule get_sbits32_sfield [OF n(1) 1 fits])
    then show ?thesis using that sfield_scast [OF _ n(1) 1] 1 by (simp add: xu_bits_get_sbits64_def)
  next
    case mid
    have ok1: "mem_ok m ?p ((?b + 1 + 7) div 8)"
      by (rule mem_ok_mono [OF ok div_le_mono refl]) (use n in simp)
    have ok2: "mem_ok m ?p ((?b + 1 + (n - 1) + 7) div 8)" using ok n by simp
    obtain s where s: "xu_bits_get_ubits64 m ?p ?b 1 = Some s" "field m (8 * ?p + ?b) 1 s"
      by (rule get_ubits64_field [OF _ ok1]) simp
    obtain x where x: "xu_bits_get_ubits64 m ?p (?b + 1) (n - 1) = Some x"
      "field m (8 * ?p + (?b + 1)) (n - 1) x"
      by (rule get_ubits64_field [OF _ ok2]) (use n in simp)
    have "sfield m (8 * p + b) n (push_bit (n - 1) (- s) OR x)"
      using joined_sfield [OF n(1) _ s(2) [unfolded bit_position], of x]
        x(2) [unfolded add.assoc [symmetric] bit_position] mid by simp
    moreover have "xu_bits_get_sbits64 m p b n = Some (push_bit (n - 1) (- s) OR x)"
      using mid s(1) x(1) by (simp add: xu_bits_get_sbits64_def Let_def)
    ultimately show ?thesis using that by blast
  next
    case full
    obtain v where v: "xu_bits_get_ubits64 m ?p ?b n = Some v" "field m (8 * ?p + ?b) n v"
      by (rule get_ubits64_field [OF n(2) ok])
    have "sfield m (8 * p + b) n v"
      using v(2) unfolding bit_position by (auto simp: sfield_def field_def full min_def)
    moreover have "xu_bits_get_sbits64 m p b n = Some v"
      using full v(1) by (simp add: xu_bits_get_sbits64_def Let_def)
    ultimately show ?thesis using that by blast
  qed
qed

text \<open>Reading up to 64 bits at any bit position gives exactly the bits of the stream, most
  significant first, with zeros above them, and the signed reader repeats the first bit of the
  field above it.\<close>

theorem xu_bits_get64_correct:
  assumes "0 < n" and "n \<le> 64" and "mem_ok m p ((b + n + 7) div 8)"
  shows "\<exists>u s. xu_bits_get_ubits64 m p b n = Some u \<and> xu_bits_get_sbits64 m p b n = Some s
    \<and> (\<forall>k < 64. bit u k = (k < n \<and> sbit m (8 * p + b + n - 1 - k))
        \<and> bit s k = sbit m (8 * p + b + n - 1 - min k (n - 1)))"
proof -
  obtain u where "xu_bits_get_ubits64 m p b n = Some u" "field m (8 * p + b) n u"
    by (rule get_ubits64_field [OF assms(2,3)])
  moreover obtain s where "xu_bits_get_sbits64 m p b n = Some s" "sfield m (8 * p + b) n s"
    by (rule get_sbits64_sfield [OF assms])
  ultimately show ?thesis by (auto simp: field_def sfield_def)
qed

theorem xu_bits_get64_correct_witness:
  "\<exists>u s. xu_bits_get_ubits64 [1, 2, 3, 4, 5, 6, 7, 8] 0 3 50 = Some u
    \<and> xu_bits_get_sbits64 [1, 2, 3, 4, 5, 6, 7, 8] 0 3 50 = Some s
    \<and> (\<forall>k < 64. bit u k = (k < 50 \<and> sbit [1, 2, 3, 4, 5, 6, 7, 8] (8 * 0 + 3 + 50 - 1 - k))
        \<and> bit s k = sbit [1, 2, 3, 4, 5, 6, 7, 8] (8 * 0 + 3 + 50 - 1 - min k (50 - 1)))"
  by (rule xu_bits_get64_correct) (simp_all add: mem_ok_def)

end
