(* ===== verification/XStream.thy ===== *)
theory XStream
  imports XBits
begin

text \<open>
  \<^verbatim>\<open>xutil/stream/static_stream.c\<close>: a cursor over a block of memory. The position is the byte
  \<open>sp\<close> and the bit \<open>sb\<close> in it, \<open>se\<close> is the end and \<open>sn\<close> the size the stream was opened with.
  An operation returns its result and the stream after it; the bit-field operations read or
  write the memory before they check the end, so they return none when that access leaves
  the memory. A null result pointer is none.
\<close>

record static_stream =
  smem :: "u8 list"
  sp :: nat
  sb :: nat
  sn :: nat
  se :: nat

section \<open>The position\<close>

definition xu_static_stream_init :: "u8 list \<Rightarrow> nat \<Rightarrow> nat \<Rightarrow> static_stream" where
  "xu_static_stream_init m data n = \<lparr>smem = m, sp = data, sb = 0, sn = n, se = data + n\<rparr>"

definition xu_static_stream_goto :: "static_stream \<Rightarrow> nat \<Rightarrow> bool \<times> static_stream" where
  "xu_static_stream_goto s data =
     (if data \<le> se s then (True, s\<lparr>sp := data, sb := 0\<rparr>) else (False, s))"

definition xu_static_stream_sync :: "static_stream \<Rightarrow> bool \<times> static_stream" where
  "xu_static_stream_sync s =
     (if sb s \<noteq> 0 then
        if sp s + 1 \<le> se s then (True, s\<lparr>sp := sp s + 1, sb := 0\<rparr>) else (False, s)
      else (True, s))"

definition xu_static_stream_beg :: "static_stream \<Rightarrow> nat" where
  "xu_static_stream_beg s = se s - sn s"

definition xu_static_stream_pos :: "static_stream \<Rightarrow> nat option \<times> static_stream" where
  "xu_static_stream_pos s =
     (if sp s \<le> se s then let s = snd (xu_static_stream_sync s) in (Some (sp s), s) else (None, s))"

definition xu_static_stream_end :: "static_stream \<Rightarrow> nat" where
  "xu_static_stream_end s = se s"

definition xu_static_stream_size :: "static_stream \<Rightarrow> nat" where
  "xu_static_stream_size s = sn s"

definition xu_static_stream_offset :: "static_stream \<Rightarrow> nat \<times> static_stream" where
  "xu_static_stream_offset s =
     (let s = snd (xu_static_stream_sync s)
      in (if sp s + sn s > se s then sp s + sn s - se s else 0, s))"

definition xu_static_stream_left :: "static_stream \<Rightarrow> nat \<times> static_stream" where
  "xu_static_stream_left s =
     (if sp s \<le> se s then let s = snd (xu_static_stream_sync s) in (se s - sp s, s) else (0, s))"

definition xu_static_stream_left_bits :: "static_stream \<Rightarrow> nat" where
  "xu_static_stream_left_bits s = (if sp s < se s then 8 * (se s - sp s) - sb s else 0)"

definition xu_static_stream_valid :: "static_stream \<Rightarrow> bool" where
  "xu_static_stream_valid s \<longleftrightarrow> \<not> sp s > se s \<and> \<not> (sp s = se s \<and> sb s \<noteq> 0)"

definition xu_static_stream_skip :: "static_stream \<Rightarrow> nat \<Rightarrow> bool \<times> static_stream" where
  "xu_static_stream_skip s n =
     (case xu_static_stream_sync s of
        (False, s) \<Rightarrow> (False, s)
      | (True, s) \<Rightarrow> if sp s + n \<le> se s then (True, s\<lparr>sp := sp s + n\<rparr>) else (False, s))"

definition xu_static_stream_skip_bits :: "static_stream \<Rightarrow> nat \<Rightarrow> bool \<times> static_stream" where
  "xu_static_stream_skip_bits s nbits =
     (if sp s \<le> se s then
        let p = sp s + (sb s + nbits) div 8; b = (sb s + nbits) mod 8 in
        if p \<le> se s \<and> (p < se s \<or> b = 0) then (True, s\<lparr>sp := p, sb := b\<rparr>) else (False, s)
      else (False, s))"

section \<open>Bit fields\<close>

definition xu_static_stream_read_ubits32 :: "static_stream \<Rightarrow> nat \<Rightarrow> (u32 \<times> static_stream) option" where
  "xu_static_stream_read_ubits32 s nbits =
     (if sp s < se s \<and> nbits \<noteq> 0 then
        case xu_bits_get_ubits32 (smem s) (sp s) (sb s) nbits of
          None \<Rightarrow> None
        | Some val \<Rightarrow>
            case xu_static_stream_skip_bits s nbits of
              (False, s) \<Rightarrow> Some (0, s)
            | (True, s) \<Rightarrow> Some (val, s)
      else Some (0, s))"

definition xu_static_stream_read_ubits64 :: "static_stream \<Rightarrow> nat \<Rightarrow> (u64 \<times> static_stream) option" where
  "xu_static_stream_read_ubits64 s nbits =
     (if sp s < se s \<and> nbits \<noteq> 0 then
        case xu_bits_get_ubits64 (smem s) (sp s) (sb s) nbits of
          None \<Rightarrow> None
        | Some val \<Rightarrow>
            case xu_static_stream_skip_bits s nbits of
              (False, s) \<Rightarrow> Some (0, s)
            | (True, s) \<Rightarrow> Some (val, s)
      else Some (0, s))"

definition xu_static_stream_read_sbits32 :: "static_stream \<Rightarrow> nat \<Rightarrow> (u32 \<times> static_stream) option" where
  "xu_static_stream_read_sbits32 s nbits =
     (if sp s < se s \<and> nbits \<noteq> 0 then
        case xu_bits_get_sbits32 (smem s) (sp s) (sb s) nbits of
          None \<Rightarrow> None
        | Some val \<Rightarrow>
            case xu_static_stream_skip_bits s nbits of
              (False, s) \<Rightarrow> Some (0, s)
            | (True, s) \<Rightarrow> Some (val, s)
      else Some (0, s))"

definition xu_static_stream_read_sbits64 :: "static_stream \<Rightarrow> nat \<Rightarrow> (u64 \<times> static_stream) option" where
  "xu_static_stream_read_sbits64 s nbits =
     (if sp s < se s \<and> nbits \<noteq> 0 then
        case xu_bits_get_sbits64 (smem s) (sp s) (sb s) nbits of
          None \<Rightarrow> None
        | Some val \<Rightarrow>
            case xu_static_stream_skip_bits s nbits of
              (False, s) \<Rightarrow> Some (0, s)
            | (True, s) \<Rightarrow> Some (val, s)
      else Some (0, s))"

definition xu_static_stream_peek_ubits32 :: "static_stream \<Rightarrow> nat \<Rightarrow> (u32 \<times> static_stream) option" where
  "xu_static_stream_peek_ubits32 s nbits =
     (if nbits = 0 then Some (0, s)
      else case xu_static_stream_read_ubits32 s nbits of
        None \<Rightarrow> None
      | Some (val, s') \<Rightarrow> Some (val, s'\<lparr>sp := sp s, sb := sb s\<rparr>))"

definition xu_static_stream_peek_sbits32 :: "static_stream \<Rightarrow> nat \<Rightarrow> (u32 \<times> static_stream) option" where
  "xu_static_stream_peek_sbits32 s nbits =
     (if nbits = 0 then Some (0, s)
      else case xu_static_stream_read_sbits32 s nbits of
        None \<Rightarrow> None
      | Some (val, s') \<Rightarrow> Some (val, s'\<lparr>sp := sp s, sb := sb s\<rparr>))"

definition xu_static_stream_writ_ubits32 :: "static_stream \<Rightarrow> u32 \<Rightarrow> nat \<Rightarrow> (bool \<times> static_stream) option" where
  "xu_static_stream_writ_ubits32 s val nbits =
     (if sp s < se s \<and> nbits \<noteq> 0 then
        case xu_bits_set_ubits32 (smem s) (sp s) (sb s) val nbits of
          None \<Rightarrow> None
        | Some m \<Rightarrow> Some (xu_static_stream_skip_bits (s\<lparr>smem := m\<rparr>) nbits)
      else Some (False, s))"

definition xu_static_stream_writ_sbits32 :: "static_stream \<Rightarrow> u32 \<Rightarrow> nat \<Rightarrow> (bool \<times> static_stream) option" where
  "xu_static_stream_writ_sbits32 s val nbits =
     (if sp s < se s \<and> nbits \<noteq> 0 then
        case xu_bits_set_sbits32 (smem s) (sp s) (sb s) val nbits of
          None \<Rightarrow> None
        | Some m \<Rightarrow> Some (xu_static_stream_skip_bits (s\<lparr>smem := m\<rparr>) nbits)
      else Some (False, s))"

section \<open>Strings and blocks\<close>

fun strnlen_loop :: "u8 list \<Rightarrow> nat \<Rightarrow> nat \<Rightarrow> nat" where
  "strnlen_loop m p 0 = 0"
| "strnlen_loop m p (Suc n) = (if m ! p \<noteq> 0 then 1 + strnlen_loop m (p + 1) n else 0)"

definition xu_strnlen :: "u8 list \<Rightarrow> nat \<Rightarrow> nat \<Rightarrow> nat" where
  "xu_strnlen m p n = (if n = 0 then 0 else strnlen_loop m p n)"

definition xu_static_stream_read_cstr :: "static_stream \<Rightarrow> nat option \<times> static_stream" where
  "xu_static_stream_read_cstr s =
     (if sp s \<le> se s then
        case xu_static_stream_sync s of
          (False, s) \<Rightarrow> (None, s)
        | (True, s) \<Rightarrow>
            let n = xu_strnlen (smem s) (sp s) (se s - sp s) in
            (case xu_static_stream_skip s (n + 1) of
               (False, s') \<Rightarrow> (None, s')
             | (True, s') \<Rightarrow> (Some (sp s), s'))
      else (None, s))"

definition xu_static_stream_skip_cstr :: "static_stream \<Rightarrow> bool \<times> static_stream" where
  "xu_static_stream_skip_cstr s =
     (let s = snd (xu_static_stream_read_cstr s) in (xu_static_stream_valid s, s))"

text \<open>The bytes copied to the caller's buffer are the first component of the result.\<close>

definition xu_static_stream_read_data :: "static_stream \<Rightarrow> nat \<Rightarrow> (u8 list \<times> nat) \<times> static_stream" where
  "xu_static_stream_read_data s n =
     (if sp s \<le> se s \<and> n \<noteq> 0 then
        case xu_static_stream_sync s of
          (False, s) \<Rightarrow> (([], 0), s)
        | (True, s) \<Rightarrow>
            let need = (if se s - sp s < n then se s - sp s else n) in
            if need \<noteq> 0 then
              (case xu_static_stream_skip s need of
                 (False, s') \<Rightarrow> ((take need (drop (sp s) (smem s)), 0), s')
               | (True, s') \<Rightarrow> ((take need (drop (sp s) (smem s)), need), s'))
            else (([], need), s)
      else (([], 0), s))"

definition xu_static_stream_writ_data :: "static_stream \<Rightarrow> u8 list \<Rightarrow> nat \<times> static_stream" where
  "xu_static_stream_writ_data s data =
     (if sp s \<le> se s \<and> data \<noteq> [] then
        case xu_static_stream_sync s of
          (False, s) \<Rightarrow> (0, s)
        | (True, s) \<Rightarrow>
            let need = (if se s - sp s < length data then se s - sp s else length data) in
            if need \<noteq> 0 then
              (case xu_static_stream_skip (s\<lparr>smem := put_bytes (smem s) (sp s) (take need data)\<rparr>) need of
                 (False, s') \<Rightarrow> (0, s')
               | (True, s') \<Rightarrow> (need, s'))
            else (need, s)
      else (0, s))"

text \<open>The characters of the string without its final zero; the loop leaves one byte for it.\<close>

fun writ_cstr_loop :: "u8 list \<Rightarrow> nat \<Rightarrow> nat \<Rightarrow> u8 list \<Rightarrow> u8 list \<times> nat \<times> u8 list" where
  "writ_cstr_loop m p e [] = (m, p, [])"
| "writ_cstr_loop m p e (c # cs) = (if p < e then writ_cstr_loop (m[p := c]) (p + 1) e cs else (m, p, c # cs))"

definition xu_static_stream_writ_cstr :: "static_stream \<Rightarrow> u8 list \<Rightarrow> (nat option \<times> static_stream) option" where
  "xu_static_stream_writ_cstr s cstr =
     (if sp s \<le> se s then
        case xu_static_stream_sync s of
          (False, s) \<Rightarrow> Some (None, s)
        | (True, s) \<Rightarrow>
            (case writ_cstr_loop (smem s) (sp s) (se s - 1) cstr of (m, p, rest) \<Rightarrow>
               if \<not> mem_ok m p 1 then None
               else let m = m[p := 0]; p = p + 1 in
                 if rest = [] then Some (Some (sp s), s\<lparr>smem := m, sp := p\<rparr>)
                 else Some (None, s\<lparr>smem := m\<rparr>))
      else Some (None, s))"

section \<open>Single bits and bytes\<close>

definition xu_static_stream_read_u1 :: "static_stream \<Rightarrow> u8 \<times> static_stream" where
  "xu_static_stream_read_u1 s =
     (if sp s < se s then
        let val = drop_bit (7 - sb s) (smem s ! sp s) AND 1;
            s = s\<lparr>sb := sb s + 1\<rparr> in
        if sb s \<ge> 8 then
          if sp s \<le> se s then (val, s\<lparr>sp := sp s + 1, sb := 0\<rparr>) else (0, s)
        else (val, s)
      else (0, s))"

definition xu_static_stream_writ_u1 :: "static_stream \<Rightarrow> u8 \<Rightarrow> bool \<times> static_stream" where
  "xu_static_stream_writ_u1 s val =
     (if sp s < se s then
        let c = smem s ! sp s AND NOT (push_bit (7 - sb s) 1);
            c = c OR push_bit (7 - sb s) (val AND 1);
            s = s\<lparr>smem := (smem s)[sp s := c], sb := sb s + 1\<rparr> in
        if sb s \<ge> 8 then
          if sp s \<le> se s then (True, s\<lparr>sp := sp s + 1, sb := 0\<rparr>) else (False, s)
        else (True, s)
      else (False, s))"

definition xu_static_stream_read_u8 :: "static_stream \<Rightarrow> u8 \<times> static_stream" where
  "xu_static_stream_read_u8 s =
     (if sp s < se s \<and> sb s = 0 then (smem s ! sp s, s\<lparr>sp := sp s + 1\<rparr>) else (0, s))"

definition xu_static_stream_writ_u8 :: "static_stream \<Rightarrow> u8 \<Rightarrow> bool \<times> static_stream" where
  "xu_static_stream_writ_u8 s val =
     (if sp s < se s \<and> sb s = 0
      then (True, s\<lparr>smem := (smem s)[sp s := val], sp := sp s + 1\<rparr>) else (False, s))"

definition xu_static_stream_read_s8 :: "static_stream \<Rightarrow> u8 \<times> static_stream" where
  "xu_static_stream_read_s8 s =
     (if sp s < se s \<and> sb s = 0 then (smem s ! sp s, s\<lparr>sp := sp s + 1\<rparr>) else (0, s))"

definition xu_static_stream_writ_s8 :: "static_stream \<Rightarrow> u8 \<Rightarrow> bool \<times> static_stream" where
  "xu_static_stream_writ_s8 s val =
     (if sp s < se s \<and> sb s = 0
      then (True, s\<lparr>smem := (smem s)[sp s := val], sp := sp s + 1\<rparr>) else (False, s))"

section \<open>Integers of several bytes\<close>

definition xu_static_stream_read_u16_be :: "static_stream \<Rightarrow> u16 \<times> static_stream" where
  "xu_static_stream_read_u16_be s =
     (if sp s + 1 < se s \<and> sb s = 0
      then (xu_bits_get_u16_be (smem s) (sp s), s\<lparr>sp := sp s + 2\<rparr>) else (0, s))"

definition xu_static_stream_writ_u16_be :: "static_stream \<Rightarrow> u16 \<Rightarrow> bool \<times> static_stream" where
  "xu_static_stream_writ_u16_be s val =
     (if sp s + 1 < se s \<and> sb s = 0
      then (True, s\<lparr>smem := xu_bits_set_u16_be (smem s) (sp s) val, sp := sp s + 2\<rparr>) else (False, s))"

definition xu_static_stream_read_s16_be :: "static_stream \<Rightarrow> u16 \<times> static_stream" where
  "xu_static_stream_read_s16_be s =
     (if sp s + 1 < se s \<and> sb s = 0
      then (xu_bits_get_u16_be (smem s) (sp s), s\<lparr>sp := sp s + 2\<rparr>) else (0, s))"

definition xu_static_stream_writ_s16_be :: "static_stream \<Rightarrow> u16 \<Rightarrow> bool \<times> static_stream" where
  "xu_static_stream_writ_s16_be s val =
     (if sp s + 1 < se s \<and> sb s = 0
      then (True, s\<lparr>smem := xu_bits_set_u16_be (smem s) (sp s) val, sp := sp s + 2\<rparr>) else (False, s))"

definition xu_static_stream_read_u16_le :: "static_stream \<Rightarrow> u16 \<times> static_stream" where
  "xu_static_stream_read_u16_le s =
     (if sp s + 1 < se s \<and> sb s = 0
      then (xu_bits_get_u16_le (smem s) (sp s), s\<lparr>sp := sp s + 2\<rparr>) else (0, s))"

definition xu_static_stream_writ_u16_le :: "static_stream \<Rightarrow> u16 \<Rightarrow> bool \<times> static_stream" where
  "xu_static_stream_writ_u16_le s val =
     (if sp s + 1 < se s \<and> sb s = 0
      then (True, s\<lparr>smem := xu_bits_set_u16_le (smem s) (sp s) val, sp := sp s + 2\<rparr>) else (False, s))"

definition xu_static_stream_read_s16_le :: "static_stream \<Rightarrow> u16 \<times> static_stream" where
  "xu_static_stream_read_s16_le s =
     (if sp s + 1 < se s \<and> sb s = 0
      then (xu_bits_get_u16_le (smem s) (sp s), s\<lparr>sp := sp s + 2\<rparr>) else (0, s))"

definition xu_static_stream_writ_s16_le :: "static_stream \<Rightarrow> u16 \<Rightarrow> bool \<times> static_stream" where
  "xu_static_stream_writ_s16_le s val =
     (if sp s + 1 < se s \<and> sb s = 0
      then (True, s\<lparr>smem := xu_bits_set_u16_le (smem s) (sp s) val, sp := sp s + 2\<rparr>) else (False, s))"

definition xu_static_stream_read_u24_be :: "static_stream \<Rightarrow> u32 \<times> static_stream" where
  "xu_static_stream_read_u24_be s =
     (if sp s + 2 < se s \<and> sb s = 0
      then (xu_bits_get_u24_be (smem s) (sp s), s\<lparr>sp := sp s + 3\<rparr>) else (0, s))"

definition xu_static_stream_writ_u24_be :: "static_stream \<Rightarrow> u32 \<Rightarrow> bool \<times> static_stream" where
  "xu_static_stream_writ_u24_be s val =
     (if sp s + 2 < se s \<and> sb s = 0
      then (True, s\<lparr>smem := xu_bits_set_u24_be (smem s) (sp s) val, sp := sp s + 3\<rparr>) else (False, s))"

definition xu_static_stream_read_s24_be :: "static_stream \<Rightarrow> u32 \<times> static_stream" where
  "xu_static_stream_read_s24_be s =
     (if sp s + 2 < se s \<and> sb s = 0
      then (xu_bits_get_s24_be (smem s) (sp s), s\<lparr>sp := sp s + 3\<rparr>) else (0, s))"

definition xu_static_stream_writ_s24_be :: "static_stream \<Rightarrow> u32 \<Rightarrow> bool \<times> static_stream" where
  "xu_static_stream_writ_s24_be s val =
     (if sp s + 2 < se s \<and> sb s = 0
      then (True, s\<lparr>smem := xu_bits_set_u24_be (smem s) (sp s) val, sp := sp s + 3\<rparr>) else (False, s))"

definition xu_static_stream_read_u24_le :: "static_stream \<Rightarrow> u32 \<times> static_stream" where
  "xu_static_stream_read_u24_le s =
     (if sp s + 2 < se s \<and> sb s = 0
      then (xu_bits_get_u24_le (smem s) (sp s), s\<lparr>sp := sp s + 3\<rparr>) else (0, s))"

definition xu_static_stream_writ_u24_le :: "static_stream \<Rightarrow> u32 \<Rightarrow> bool \<times> static_stream" where
  "xu_static_stream_writ_u24_le s val =
     (if sp s + 2 < se s \<and> sb s = 0
      then (True, s\<lparr>smem := xu_bits_set_u24_le (smem s) (sp s) val, sp := sp s + 3\<rparr>) else (False, s))"

definition xu_static_stream_read_s24_le :: "static_stream \<Rightarrow> u32 \<times> static_stream" where
  "xu_static_stream_read_s24_le s =
     (if sp s + 2 < se s \<and> sb s = 0
      then (xu_bits_get_s24_le (smem s) (sp s), s\<lparr>sp := sp s + 3\<rparr>) else (0, s))"

definition xu_static_stream_writ_s24_le :: "static_stream \<Rightarrow> u32 \<Rightarrow> bool \<times> static_stream" where
  "xu_static_stream_writ_s24_le s val =
     (if sp s + 2 < se s \<and> sb s = 0
      then (True, s\<lparr>smem := xu_bits_set_u24_le (smem s) (sp s) val, sp := sp s + 3\<rparr>) else (False, s))"

definition xu_static_stream_read_u32_be :: "static_stream \<Rightarrow> u32 \<times> static_stream" where
  "xu_static_stream_read_u32_be s =
     (if sp s + 3 < se s \<and> sb s = 0
      then (xu_bits_get_u32_be (smem s) (sp s), s\<lparr>sp := sp s + 4\<rparr>) else (0, s))"

definition xu_static_stream_writ_u32_be :: "static_stream \<Rightarrow> u32 \<Rightarrow> bool \<times> static_stream" where
  "xu_static_stream_writ_u32_be s val =
     (if sp s + 3 < se s \<and> sb s = 0
      then (True, s\<lparr>smem := xu_bits_set_u32_be (smem s) (sp s) val, sp := sp s + 4\<rparr>) else (False, s))"

definition xu_static_stream_read_s32_be :: "static_stream \<Rightarrow> u32 \<times> static_stream" where
  "xu_static_stream_read_s32_be s =
     (if sp s + 3 < se s \<and> sb s = 0
      then (xu_bits_get_u32_be (smem s) (sp s), s\<lparr>sp := sp s + 4\<rparr>) else (0, s))"

definition xu_static_stream_writ_s32_be :: "static_stream \<Rightarrow> u32 \<Rightarrow> bool \<times> static_stream" where
  "xu_static_stream_writ_s32_be s val =
     (if sp s + 3 < se s \<and> sb s = 0
      then (True, s\<lparr>smem := xu_bits_set_u32_be (smem s) (sp s) val, sp := sp s + 4\<rparr>) else (False, s))"

definition xu_static_stream_read_u32_le :: "static_stream \<Rightarrow> u32 \<times> static_stream" where
  "xu_static_stream_read_u32_le s =
     (if sp s + 3 < se s \<and> sb s = 0
      then (xu_bits_get_u32_le (smem s) (sp s), s\<lparr>sp := sp s + 4\<rparr>) else (0, s))"

definition xu_static_stream_writ_u32_le :: "static_stream \<Rightarrow> u32 \<Rightarrow> bool \<times> static_stream" where
  "xu_static_stream_writ_u32_le s val =
     (if sp s + 3 < se s \<and> sb s = 0
      then (True, s\<lparr>smem := xu_bits_set_u32_le (smem s) (sp s) val, sp := sp s + 4\<rparr>) else (False, s))"

definition xu_static_stream_read_s32_le :: "static_stream \<Rightarrow> u32 \<times> static_stream" where
  "xu_static_stream_read_s32_le s =
     (if sp s + 3 < se s \<and> sb s = 0
      then (xu_bits_get_u32_le (smem s) (sp s), s\<lparr>sp := sp s + 4\<rparr>) else (0, s))"

definition xu_static_stream_writ_s32_le :: "static_stream \<Rightarrow> u32 \<Rightarrow> bool \<times> static_stream" where
  "xu_static_stream_writ_s32_le s val =
     (if sp s + 3 < se s \<and> sb s = 0
      then (True, s\<lparr>smem := xu_bits_set_u32_le (smem s) (sp s) val, sp := sp s + 4\<rparr>) else (False, s))"

definition xu_static_stream_read_u64_be :: "static_stream \<Rightarrow> u64 \<times> static_stream" where
  "xu_static_stream_read_u64_be s =
     (if sp s + 7 < se s \<and> sb s = 0
      then (xu_bits_get_u64_be (smem s) (sp s), s\<lparr>sp := sp s + 8\<rparr>) else (0, s))"

definition xu_static_stream_writ_u64_be :: "static_stream \<Rightarrow> u64 \<Rightarrow> bool \<times> static_stream" where
  "xu_static_stream_writ_u64_be s val =
     (if sp s + 7 < se s \<and> sb s = 0
      then (True, s\<lparr>smem := xu_bits_set_u64_be (smem s) (sp s) val, sp := sp s + 8\<rparr>) else (False, s))"

definition xu_static_stream_read_s64_be :: "static_stream \<Rightarrow> u64 \<times> static_stream" where
  "xu_static_stream_read_s64_be s =
     (if sp s + 7 < se s \<and> sb s = 0
      then (xu_bits_get_u64_be (smem s) (sp s), s\<lparr>sp := sp s + 8\<rparr>) else (0, s))"

definition xu_static_stream_writ_s64_be :: "static_stream \<Rightarrow> u64 \<Rightarrow> bool \<times> static_stream" where
  "xu_static_stream_writ_s64_be s val =
     (if sp s + 7 < se s \<and> sb s = 0
      then (True, s\<lparr>smem := xu_bits_set_u64_be (smem s) (sp s) val, sp := sp s + 8\<rparr>) else (False, s))"

definition xu_static_stream_read_u64_le :: "static_stream \<Rightarrow> u64 \<times> static_stream" where
  "xu_static_stream_read_u64_le s =
     (if sp s + 7 < se s \<and> sb s = 0
      then (xu_bits_get_u64_le (smem s) (sp s), s\<lparr>sp := sp s + 8\<rparr>) else (0, s))"

definition xu_static_stream_writ_u64_le :: "static_stream \<Rightarrow> u64 \<Rightarrow> bool \<times> static_stream" where
  "xu_static_stream_writ_u64_le s val =
     (if sp s + 7 < se s \<and> sb s = 0
      then (True, s\<lparr>smem := xu_bits_set_u64_le (smem s) (sp s) val, sp := sp s + 8\<rparr>) else (False, s))"

definition xu_static_stream_read_s64_le :: "static_stream \<Rightarrow> u64 \<times> static_stream" where
  "xu_static_stream_read_s64_le s =
     (if sp s + 7 < se s \<and> sb s = 0
      then (xu_bits_get_u64_le (smem s) (sp s), s\<lparr>sp := sp s + 8\<rparr>) else (0, s))"

definition xu_static_stream_writ_s64_le :: "static_stream \<Rightarrow> u64 \<Rightarrow> bool \<times> static_stream" where
  "xu_static_stream_writ_s64_le s val =
     (if sp s + 7 < se s \<and> sb s = 0
      then (True, s\<lparr>smem := xu_bits_set_u64_le (smem s) (sp s) val, sp := sp s + 8\<rparr>) else (False, s))"

section \<open>The operations by the kind of value\<close>

datatype byte_order = BE | LE

datatype width = W16 | W24 | W32 | W64

text \<open>\<open>True\<close> stands for the signed routine of a width.\<close>

datatype kind = K1 | K8 bool | KInt width byte_order bool | KBits nat | KSBits nat

definition as64 :: "'a::len word \<times> static_stream \<Rightarrow> u64 \<times> static_stream" where
  "as64 r = (ucast (fst r), snd r)"

fun stream_read_int :: "width \<Rightarrow> byte_order \<Rightarrow> bool \<Rightarrow> static_stream \<Rightarrow> u64 \<times> static_stream" where
  "stream_read_int W16 BE False s = as64 (xu_static_stream_read_u16_be s)"
| "stream_read_int W16 BE True s = as64 (xu_static_stream_read_s16_be s)"
| "stream_read_int W16 LE False s = as64 (xu_static_stream_read_u16_le s)"
| "stream_read_int W16 LE True s = as64 (xu_static_stream_read_s16_le s)"
| "stream_read_int W24 BE False s = as64 (xu_static_stream_read_u24_be s)"
| "stream_read_int W24 BE True s = as64 (xu_static_stream_read_s24_be s)"
| "stream_read_int W24 LE False s = as64 (xu_static_stream_read_u24_le s)"
| "stream_read_int W24 LE True s = as64 (xu_static_stream_read_s24_le s)"
| "stream_read_int W32 BE False s = as64 (xu_static_stream_read_u32_be s)"
| "stream_read_int W32 BE True s = as64 (xu_static_stream_read_s32_be s)"
| "stream_read_int W32 LE False s = as64 (xu_static_stream_read_u32_le s)"
| "stream_read_int W32 LE True s = as64 (xu_static_stream_read_s32_le s)"
| "stream_read_int W64 BE False s = as64 (xu_static_stream_read_u64_be s)"
| "stream_read_int W64 BE True s = as64 (xu_static_stream_read_s64_be s)"
| "stream_read_int W64 LE False s = as64 (xu_static_stream_read_u64_le s)"
| "stream_read_int W64 LE True s = as64 (xu_static_stream_read_s64_le s)"

fun stream_writ_int :: "width \<Rightarrow> byte_order \<Rightarrow> bool \<Rightarrow> u64 \<Rightarrow> static_stream \<Rightarrow> bool \<times> static_stream" where
  "stream_writ_int W16 BE False v s = xu_static_stream_writ_u16_be s (ucast v)"
| "stream_writ_int W16 BE True v s = xu_static_stream_writ_s16_be s (ucast v)"
| "stream_writ_int W16 LE False v s = xu_static_stream_writ_u16_le s (ucast v)"
| "stream_writ_int W16 LE True v s = xu_static_stream_writ_s16_le s (ucast v)"
| "stream_writ_int W24 BE False v s = xu_static_stream_writ_u24_be s (ucast v)"
| "stream_writ_int W24 BE True v s = xu_static_stream_writ_s24_be s (ucast v)"
| "stream_writ_int W24 LE False v s = xu_static_stream_writ_u24_le s (ucast v)"
| "stream_writ_int W24 LE True v s = xu_static_stream_writ_s24_le s (ucast v)"
| "stream_writ_int W32 BE False v s = xu_static_stream_writ_u32_be s (ucast v)"
| "stream_writ_int W32 BE True v s = xu_static_stream_writ_s32_be s (ucast v)"
| "stream_writ_int W32 LE False v s = xu_static_stream_writ_u32_le s (ucast v)"
| "stream_writ_int W32 LE True v s = xu_static_stream_writ_s32_le s (ucast v)"
| "stream_writ_int W64 BE False v s = xu_static_stream_writ_u64_be s (ucast v)"
| "stream_writ_int W64 BE True v s = xu_static_stream_writ_s64_be s (ucast v)"
| "stream_writ_int W64 LE False v s = xu_static_stream_writ_u64_le s (ucast v)"
| "stream_writ_int W64 LE True v s = xu_static_stream_writ_s64_le s (ucast v)"

fun stream_read :: "kind \<Rightarrow> static_stream \<Rightarrow> (u64 \<times> static_stream) option" where
  "stream_read K1 s = Some (as64 (xu_static_stream_read_u1 s))"
| "stream_read (K8 sg) s = Some (as64 (if sg then xu_static_stream_read_s8 s else xu_static_stream_read_u8 s))"
| "stream_read (KInt w e sg) s = Some (stream_read_int w e sg s)"
| "stream_read (KBits n) s = map_option as64 (xu_static_stream_read_ubits32 s n)"
| "stream_read (KSBits n) s = map_option as64 (xu_static_stream_read_sbits32 s n)"

fun stream_writ :: "kind \<Rightarrow> u64 \<Rightarrow> static_stream \<Rightarrow> (bool \<times> static_stream) option" where
  "stream_writ K1 v s = Some (xu_static_stream_writ_u1 s (ucast v))"
| "stream_writ (K8 sg) v s = Some (if sg then xu_static_stream_writ_s8 s (ucast v) else xu_static_stream_writ_u8 s (ucast v))"
| "stream_writ (KInt w e sg) v s = Some (stream_writ_int w e sg v s)"
| "stream_writ (KBits n) v s = xu_static_stream_writ_ubits32 s (ucast v) n"
| "stream_writ (KSBits n) v s = xu_static_stream_writ_sbits32 s (ucast v) n"

text \<open>A sequence of values through one cursor, given its routines for a single value.\<close>

fun writ_all :: "('k \<Rightarrow> 'v \<Rightarrow> 's \<Rightarrow> (bool \<times> 's) option) \<Rightarrow> ('k \<times> 'v) list \<Rightarrow> 's \<Rightarrow> (bool \<times> 's) option" where
  "writ_all writ [] s = Some (True, s)"
| "writ_all writ ((k, v) # kvs) s =
     (case writ k v s of
        None \<Rightarrow> None
      | Some (ok, s) \<Rightarrow> if ok then writ_all writ kvs s else Some (False, s))"

fun read_all :: "('k \<Rightarrow> 's \<Rightarrow> ('v \<times> 's) option) \<Rightarrow> 'k list \<Rightarrow> 's \<Rightarrow> ('v list \<times> 's) option" where
  "read_all read [] s = Some ([], s)"
| "read_all read (k # ks) s =
     (case read k s of
        None \<Rightarrow> None
      | Some (v, s) \<Rightarrow> map_option (\<lambda>(vs, s). (v # vs, s)) (read_all read ks s))"

end
