(* ===== verification/XStreamCorrect.thy ===== *)
theory XStreamCorrect
  imports XStream XBitsCorrect
begin

text \<open>
  The static stream: the cursor stays inside its buffer and only bytes of the buffer change, what
  is written in sequence is read back, and where the bit-field and string writers leave the
  buffer.
\<close>

section \<open>Integers of several bytes\<close>

fun width_bytes :: "width \<Rightarrow> nat" where
  "width_bytes W16 = 2"
| "width_bytes W24 = 3"
| "width_bytes W32 = 4"
| "width_bytes W64 = 8"

definition le_bytes :: "nat \<Rightarrow> u64 \<Rightarrow> u8 list" where
  "le_bytes n v = map (\<lambda>c. ucast (drop_bit (8 * c) v)) [0..<n]"

definition int_bytes :: "width \<Rightarrow> byte_order \<Rightarrow> u64 \<Rightarrow> u8 list" where
  "int_bytes w e v = (if e = LE then le_bytes (width_bytes w) v else rev (le_bytes (width_bytes w) v))"

lemma length_int_bytes [simp]: "length (int_bytes w e v) = width_bytes w"
  by (simp add: int_bytes_def le_bytes_def)

lemma le_bytes_lists:
  "le_bytes 2 v = [ucast v, ucast (drop_bit 8 v)]"
  "le_bytes 3 v = [ucast v, ucast (drop_bit 8 v), ucast (drop_bit 16 v)]"
  "le_bytes 4 v = [ucast v, ucast (drop_bit 8 v), ucast (drop_bit 16 v), ucast (drop_bit 24 v)]"
  "le_bytes 8 v = [ucast v, ucast (drop_bit 8 v), ucast (drop_bit 16 v), ucast (drop_bit 24 v),
     ucast (drop_bit 32 v), ucast (drop_bit 40 v), ucast (drop_bit 48 v), ucast (drop_bit 56 v)]"
  by (simp_all add: le_bytes_def upt_rec)

lemma byte_of_cast:
  "k + 8 \<le> LENGTH('b::len) \<Longrightarrow> (ucast (drop_bit k (ucast v :: 'b word)) :: u8) = ucast (drop_bit k (v :: u64))"
  by (rule bit_word_eqI) (auto simp: bit_simps)

lemma byte_of_cast0:
  "8 \<le> LENGTH('b::len) \<Longrightarrow> (ucast (ucast v :: 'b word) :: u8) = ucast (v :: u64)"
  by (rule bit_word_eqI) (auto simp: bit_simps)

lemmas set_int_defs = xu_bits_set_u16_le_def xu_bits_set_u16_be_def xu_bits_set_u24_le_def
  xu_bits_set_u24_be_def xu_bits_set_u32_le_def xu_bits_set_u32_be_def xu_bits_set_u64_le_def
  xu_bits_set_u64_be_def

lemmas writ_int_defs = xu_static_stream_writ_u16_be_def xu_static_stream_writ_s16_be_def
  xu_static_stream_writ_u16_le_def xu_static_stream_writ_s16_le_def
  xu_static_stream_writ_u24_be_def xu_static_stream_writ_s24_be_def
  xu_static_stream_writ_u24_le_def xu_static_stream_writ_s24_le_def
  xu_static_stream_writ_u32_be_def xu_static_stream_writ_s32_be_def
  xu_static_stream_writ_u32_le_def xu_static_stream_writ_s32_le_def
  xu_static_stream_writ_u64_be_def xu_static_stream_writ_s64_be_def
  xu_static_stream_writ_u64_le_def xu_static_stream_writ_s64_le_def

lemmas read_int_defs = xu_static_stream_read_u16_be_def xu_static_stream_read_s16_be_def
  xu_static_stream_read_u16_le_def xu_static_stream_read_s16_le_def
  xu_static_stream_read_u24_be_def xu_static_stream_read_s24_be_def
  xu_static_stream_read_u24_le_def xu_static_stream_read_s24_le_def
  xu_static_stream_read_u32_be_def xu_static_stream_read_s32_be_def
  xu_static_stream_read_u32_le_def xu_static_stream_read_s32_le_def
  xu_static_stream_read_u64_be_def xu_static_stream_read_s64_be_def
  xu_static_stream_read_u64_le_def xu_static_stream_read_s64_le_def

lemma set_int_bytes:
  "xu_bits_set_u16_le m p (ucast v) = put_bytes m p (int_bytes W16 LE v)"
  "xu_bits_set_u16_be m p (ucast v) = put_bytes m p (int_bytes W16 BE v)"
  "xu_bits_set_u24_le m p (ucast v) = put_bytes m p (int_bytes W24 LE v)"
  "xu_bits_set_u24_be m p (ucast v) = put_bytes m p (int_bytes W24 BE v)"
  "xu_bits_set_u32_le m p (ucast v) = put_bytes m p (int_bytes W32 LE v)"
  "xu_bits_set_u32_be m p (ucast v) = put_bytes m p (int_bytes W32 BE v)"
  "xu_bits_set_u64_le m p v = put_bytes m p (int_bytes W64 LE v)"
  "xu_bits_set_u64_be m p v = put_bytes m p (int_bytes W64 BE v)"
  by (simp_all add: set_int_defs int_bytes_def le_bytes_lists byte_of_cast byte_of_cast0)

lemma writ_int_result:
  "stream_writ_int w e sg v s =
    (if sp s + width_bytes w \<le> se s \<and> sb s = 0
     then (True, s\<lparr>smem := put_bytes (smem s) (sp s) (int_bytes w e v), sp := sp s + width_bytes w\<rparr>)
     else (False, s))"
  by (cases w; cases e; cases sg) (auto simp: writ_int_defs set_int_bytes)

definition int_value :: "width \<Rightarrow> byte_order \<Rightarrow> bool \<Rightarrow> u8 list \<Rightarrow> nat \<Rightarrow> u64" where
  "int_value w e sg m p = (case w of
     W16 \<Rightarrow> ucast (if e = LE then xu_bits_get_u16_le m p else xu_bits_get_u16_be m p)
   | W24 \<Rightarrow> ucast (if sg then if e = LE then xu_bits_get_s24_le m p else xu_bits_get_s24_be m p
                   else if e = LE then xu_bits_get_u24_le m p else xu_bits_get_u24_be m p)
   | W32 \<Rightarrow> ucast (if e = LE then xu_bits_get_u32_le m p else xu_bits_get_u32_be m p)
   | W64 \<Rightarrow> if e = LE then xu_bits_get_u64_le m p else xu_bits_get_u64_be m p)"

lemma read_int_result:
  "stream_read_int w e sg s =
    (if sp s + width_bytes w \<le> se s \<and> sb s = 0
     then (int_value w e sg (smem s) (sp s), s\<lparr>sp := sp s + width_bytes w\<rparr>) else (0, s))"
  by (cases w; cases e; cases sg) (auto simp: read_int_defs int_value_def as64_def)

lemmas get_int_defs = xu_bits_get_u16_le_def xu_bits_get_u16_be_def xu_bits_get_u24_le_def
  xu_bits_get_u24_be_def xu_bits_get_s24_le_def xu_bits_get_s24_be_def
  xu_bits_get_u32_le_def xu_bits_get_u32_be_def xu_bits_get_u64_le_def xu_bits_get_u64_be_def

lemma int_value_cong:
  assumes "\<And>a. p \<le> a \<Longrightarrow> a < p + width_bytes w \<Longrightarrow> m ! a = m' ! a"
  shows "int_value w e sg m p = int_value w e sg m' p"
  by (cases w) (simp_all add: int_value_def get_int_defs assms)

text \<open>The little-endian readers are the big-endian ones on the bytes in reverse.\<close>

lemma int_value_rev:
  assumes "p + width_bytes w \<le> length m"
  shows "int_value w LE sg (put_bytes m p (int_bytes w LE v)) p
    = int_value w BE sg (put_bytes m p (int_bytes w BE v)) p"
  using assms by (cases w)
    (simp_all add: int_value_def get_int_defs nth_put_bytes int_bytes_def le_bytes_lists or.assoc or.commute
      or.left_commute)

lemma sign24_bits: "(x + 0xff800000 :: u32) XOR 0xff800000 = signed_take_bit 23 x" if "take_bit 24 x = x"
proof -
  let ?M = "NOT (mask 23) :: u32"
  have M: "(0xff800000 :: u32) = ?M" by (simp add: mask_eq_exp_minus_1)
  have high: "k < 24" if "bit x k" for k
    using that by (subst (asm) \<open>take_bit 24 x = x\<close> [symmetric]) (simp add: bit_take_bit_iff)
  show ?thesis
  proof (cases "bit x 23")
    case False
    have low: "k < 23" if "bit x k" for k
    proof -
      have "k \<noteq> 23" using False that by metis
      then show ?thesis using high [OF that] by simp
    qed
    have "x AND ?M = 0"
      by (rule bit_word_eqI) (use low in \<open>auto simp: bit_simps\<close>)
    then have "x + ?M = x OR ?M" by (rule disjunctive_add_eq_or)
    then show ?thesis unfolding M
      by (intro bit_word_eqI) (use False low in \<open>auto simp: bit_simps bit_signed_take_bit_iff min_def\<close>)
  next
    case True
    let ?y = "take_bit 23 x"
    have e: "bit (push_bit 23 1 :: u32) k \<longleftrightarrow> k = 23" for k
      by (simp only: bit_push_bit_iff bit_1_iff) auto
    have "x = ?y OR push_bit 23 1"
    proof (rule bit_word_eqI)
      fix k
      show "bit x k \<longleftrightarrow> bit (?y OR push_bit 23 1) k"
        unfolding bit_or_iff bit_take_bit_iff e using True high [of k] by (cases "k = 23") auto
    qed
    also have "\<dots> = ?y + push_bit 23 1"
      by (rule disjunctive_add_eq_or [symmetric], rule bit_word_eqI) (simp only: bit_and_iff bit_take_bit_iff e, simp)
    finally have x: "x = ?y + push_bit 23 1" .
    have "x + ?M = ?y + (push_bit 23 1 + ?M)" by (subst x) (simp only: add.assoc)
    also have "push_bit 23 1 + ?M = 0" by (simp add: mask_eq_exp_minus_1 push_bit_eq_mult)
    finally have "x + ?M = ?y" by simp
    then show ?thesis unfolding M
      by (intro bit_word_eqI) (use True in \<open>auto simp: bit_simps bit_signed_take_bit_iff not_less min_def\<close>)
  qed
qed

fun fits_int :: "width \<Rightarrow> bool \<Rightarrow> u64 \<Rightarrow> bool" where
  "fits_int W16 sg v = (take_bit 16 v = v)"
| "fits_int W24 False v = (take_bit 24 v = v)"
| "fits_int W24 True v = (ucast (signed_take_bit 23 (ucast v :: u32)) = v)"
| "fits_int W32 sg v = (take_bit 32 v = v)"
| "fits_int W64 sg v = True"

lemma ucast_inject: "(ucast (a :: u16) :: u32) = ucast b \<Longrightarrow> a = b"
  by (rule bit_word_eqI) (auto simp: bit_ucast_iff dest: arg_cong [where f = "\<lambda>w. bit w _"])

lemma be_values:
  "p + 2 \<le> length m \<Longrightarrow> xu_bits_get_u16_be (put_bytes m p (int_bytes W16 BE v)) p = ucast v"
  "p + 3 \<le> length m \<Longrightarrow> xu_bits_get_u24_be (put_bytes m p (int_bytes W24 BE v)) p = take_bit 24 (ucast v)"
  "p + 4 \<le> length m \<Longrightarrow> xu_bits_get_u32_be (put_bytes m p (int_bytes W32 BE v)) p = ucast v"
  "p + 8 \<le> length m \<Longrightarrow> xu_bits_get_u64_be (put_bytes m p (int_bytes W64 BE v)) p = v"
proof -
  show "xu_bits_get_u16_be (put_bytes m p (int_bytes W16 BE v)) p = ucast v" if "p + 2 \<le> length m"
  proof -
    have "field (xu_bits_set_u16_be m p (ucast v)) (8 * p) 16 (ucast (ucast v :: u16) :: u32)"
      using stores_field [OF u16_stores [OF that, of "ucast v"]] that
      by (auto simp: field_def bit_take_bit_iff bit_ucast_iff)
    then have "(ucast (xu_bits_get_u16_be (xu_bits_set_u16_be m p (ucast v)) p) :: u32) = ucast (ucast v :: u16)"
      by (rule field_unique [OF u16_field])
    then show ?thesis
      unfolding set_int_bytes by (rule ucast_inject)
  qed
  show "xu_bits_get_u24_be (put_bytes m p (int_bytes W24 BE v)) p = take_bit 24 (ucast v)" if "p + 3 \<le> length m"
    using field_unique [OF u24_field stores_field [OF u24_stores [OF that, of "ucast v"]]] that by (simp add: set_int_bytes)
  show "xu_bits_get_u32_be (put_bytes m p (int_bytes W32 BE v)) p = ucast v" if "p + 4 \<le> length m"
    using field_unique [OF u32_field stores_field [OF u32_stores [OF that, of "ucast v"]]] that
    by (simp add: set_int_bytes take_bit_word_eq_self)
  show "xu_bits_get_u64_be (put_bytes m p (int_bytes W64 BE v)) p = v" if "p + 8 \<le> length m"
    using field_unique [OF u64_field stores_field [OF u64_stores [OF that, of v]]] that
    by (simp add: set_int_bytes take_bit_word_eq_self)
qed

lemma cast_back:
  "(ucast (ucast v :: u16) :: u64) = take_bit 16 v"
  "(ucast (ucast v :: u32) :: u64) = take_bit 32 v"
  "(ucast (take_bit 24 (ucast v :: u32)) :: u64) = take_bit 24 v"
  by (rule bit_word_eqI, auto simp: bit_simps)+

lemma int_value_put:
  assumes "p + width_bytes w \<le> length m" and "fits_int w sg v"
  shows "int_value w e sg (put_bytes m p (int_bytes w e v)) p = v"
proof -
  have s24: "((take_bit 24 x + 0xff800000) XOR 0xff800000 :: u32) = signed_take_bit 23 x" for x
    by (subst sign24_bits) (simp_all add: signed_take_bit_take_bit)
  have be: "int_value w BE sg (put_bytes m p (int_bytes w BE v)) p = v"
    using assms by (cases w; cases sg)
      (simp_all add: int_value_def be_values cast_back xu_bits_get_s24_be_def s24)
  show ?thesis
    by (cases e) (simp_all only: be int_value_rev [OF assms(1)])
qed

section \<open>The position in bits\<close>

definition pos :: "static_stream \<Rightarrow> nat" where
  "pos s = 8 * sp s + sb s"

definition stream_ok :: "static_stream \<Rightarrow> bool" where
  "stream_ok s \<longleftrightarrow> sp s \<le> se s \<and> sn s \<le> se s \<and> se s \<le> length (smem s)
     \<and> sb s < 8 \<and> (sp s = se s \<longrightarrow> sb s = 0)"

definition move :: "static_stream \<Rightarrow> nat \<Rightarrow> static_stream" where
  "move s n = s\<lparr>sp := (pos s + n) div 8, sb := (pos s + n) mod 8\<rparr>"

lemma move_fields [simp]:
  "smem (move s n) = smem s" "se (move s n) = se s" "sn (move s n) = sn s" "pos (move s n) = pos s + n"
  by (simp_all add: move_def pos_def)

lemma pos_smem [simp]: "pos (s\<lparr>smem := m\<rparr>) = pos s" "move (s\<lparr>smem := m\<rparr>) n = (move s n)\<lparr>smem := m\<rparr>"
  by (simp_all add: pos_def move_def)

lemma move_ok:
  assumes "stream_ok s" and "pos s + n \<le> 8 * se s"
  shows "stream_ok (move s n)"
proof -
  have "(pos s + n) div 8 \<le> se s" using assms(2) by linarith
  moreover have "(pos s + n) mod 8 = 0" if "(pos s + n) div 8 = se s"
    using assms(2) that by (metis add_diff_cancel_left' div_mult_mod_eq le_zero_eq mult.commute diff_is_0_eq)
  ultimately show ?thesis using assms(1) unfolding stream_ok_def move_def by simp
qed

lemma ok_smem [simp]: "length m = length (smem s) \<Longrightarrow> stream_ok (s\<lparr>smem := m\<rparr>) = stream_ok s"
  by (simp add: stream_ok_def)

lemma skip_bits_move:
  assumes "stream_ok s" and "pos s + n \<le> 8 * se s"
  shows "xu_static_stream_skip_bits s n = (True, move s n)"
proof -
  have e: "sp s + (sb s + n) div 8 = (pos s + n) div 8" "(sb s + n) mod 8 = (pos s + n) mod 8"
    by (simp_all add: pos_def add.assoc)
  show ?thesis
    using move_ok [OF assms] assms(1) unfolding xu_static_stream_skip_bits_def Let_def e move_def
    by (auto simp: stream_ok_def)
qed

lemma byte_move: "sb s = 0 \<Longrightarrow> s\<lparr>sp := sp s + k\<rparr> = move s (8 * k)"
  by (simp add: move_def pos_def)

lemma bit_move:
  assumes "sb s < 8"
  shows "move s 1 = (if sb s + 1 \<ge> 8 then s\<lparr>sp := sp s + 1, sb := 0\<rparr> else s\<lparr>sb := sb s + 1\<rparr>)"
proof (cases "sb s = 7")
  case True
  have "(8 * sp s + 7 + 1) div 8 = sp s + 1" "(8 * sp s + 7 + 1) mod 8 = 0" by presburger+
  then show ?thesis unfolding move_def pos_def True by simp
next
  case False
  then have "(8 * sp s + sb s + 1) div 8 = sp s" "(8 * sp s + sb s + 1) mod 8 = sb s + 1"
    using assms by (simp_all add: div_nat_eqI)
  then show ?thesis unfolding move_def pos_def using False assms by simp
qed

lemma pos_lt: "stream_ok s \<Longrightarrow> pos s + n \<le> 8 * se s \<Longrightarrow> 0 < n \<Longrightarrow> sp s < se s"
  by (auto simp: stream_ok_def pos_def)

section \<open>Reading at a position\<close>

lemma pos_split: "stream_ok s \<Longrightarrow> sp s = pos s div 8 \<and> sb s = pos s mod 8"
  by (simp add: stream_ok_def pos_def)

lemma field_cong:
  assumes "\<And>k. j \<le> k \<Longrightarrow> k < j + n \<Longrightarrow> sbit m k = sbit m' k"
  shows "field m j n v \<longleftrightarrow> field m' j n v"
proof -
  have "sbit m (j + n - 1 - k) = sbit m' (j + n - 1 - k)" if "k < n" for k
    using that by (intro assms) linarith+
  then show ?thesis by (auto simp: field_def)
qed

lemma sfield_cong:
  assumes "\<And>k. j \<le> k \<Longrightarrow> k < j + n \<Longrightarrow> sbit m k = sbit m' k" and "0 < n"
  shows "sfield m j n v \<longleftrightarrow> sfield m' j n v"
proof -
  have "sbit m (j + n - 1 - min k (n - 1)) = sbit m' (j + n - 1 - min k (n - 1))" for k
    using assms(2) by (intro assms(1)) (auto simp: min_def)
  then show ?thesis by (auto simp: sfield_def)
qed

lemma byte_cong:
  assumes "\<And>k. 8 * a \<le> k \<Longrightarrow> k < 8 * a + 8 \<Longrightarrow> sbit m k = sbit m' k"
  shows "m ! a = m' ! a"
proof (rule bit_word_eqI)
  fix t assume "t < LENGTH(8)"
  then have t: "t < 8" by simp
  have "sbit m (8 * a + (7 - t)) = sbit m' (8 * a + (7 - t))" by (rule assms) simp_all
  then show "bit (m ! a) t = bit (m' ! a) t"
    using t unfolding sbit_def byte_index_parts by simp
qed

lemma bits_room:
  assumes "stream_ok t" and "pos t + n \<le> 8 * se t"
  shows "mem_ok (smem t) (sp t) ((sb t + n + 7) div 8)"
proof -
  define q where "q = (sb t + n + 7) div 8"
  have "8 * q \<le> sb t + n + 7" unfolding q_def by simp
  then have "sp t + q \<le> se t" using assms(2) unfolding pos_def by linarith
  then show ?thesis using assms(1) unfolding q_def mem_ok_def stream_ok_def by linarith
qed

lemma read_bits:
  assumes ok: "stream_ok t" "pos t + n \<le> 8 * se t" and n: "0 < n" "n \<le> 32"
    and v: "field (smem t) (pos t) n (v :: u32)"
  shows "stream_read (KBits n) t = Some (ucast v, move t n)"
proof -
  obtain w where w: "xu_bits_get_ubits32 (smem t) (sp t) (sb t) n = Some w" "field (smem t) (8 * sp t + sb t) n w"
    by (rule get_ubits32_field [OF n(2) bits_room [OF ok]])
  have "w = v" by (rule field_unique [OF w(2) v [unfolded pos_def]])
  then show ?thesis
    using w(1) n pos_lt [OF ok n(1)] skip_bits_move [OF ok]
    by (simp add: xu_static_stream_read_ubits32_def as64_def)
qed

lemma read_sbits:
  assumes ok: "stream_ok t" "pos t + n \<le> 8 * se t" and n: "0 < n" "n \<le> 32"
    and v: "sfield (smem t) (pos t) n (v :: u32)"
  shows "stream_read (KSBits n) t = Some (ucast v, move t n)"
proof -
  obtain w where w: "xu_bits_get_sbits32 (smem t) (sp t) (sb t) n = Some w" "sfield (smem t) (8 * sp t + sb t) n w"
    by (rule get_sbits32_sfield [OF n bits_room [OF ok]])
  have "w = v" by (rule sfield_unique [OF w(2) v [unfolded pos_def]])
  then show ?thesis
    using w(1) n pos_lt [OF ok n(1)] skip_bits_move [OF ok]
    by (simp add: xu_static_stream_read_sbits32_def as64_def)
qed

lemma read_int:
  assumes "stream_ok t" and "sb t = 0" and "pos t + 8 * width_bytes w \<le> 8 * se t"
  shows "stream_read (KInt w e sg) t = Some (int_value w e sg (smem t) (sp t), move t (8 * width_bytes w))"
  using assms by (simp add: read_int_result byte_move pos_def)

lemma read_byte:
  assumes "stream_ok t" and "sb t = 0" and "pos t + 8 \<le> 8 * se t"
  shows "stream_read (K8 sg) t = Some (ucast (smem t ! sp t), move t 8)"
  using assms byte_move [of t 1]
  by (simp add: xu_static_stream_read_u8_def xu_static_stream_read_s8_def as64_def pos_def)

lemma read_bit:
  assumes "stream_ok t" and "pos t + 1 \<le> 8 * se t"
  shows "stream_read K1 t = Some (of_bool (sbit (smem t) (pos t)), move t 1)"
proof -
  have "sp t < se t" by (rule pos_lt [OF assms]) simp
  moreover have "sb t < 8" using assms(1) by (simp add: stream_ok_def)
  moreover have "drop_bit (7 - sb t) (smem t ! sp t) AND 1 = of_bool (sbit (smem t) (pos t))"
    by (rule bit_word_eqI) (use pos_split [OF assms(1)] in \<open>auto simp: sbit_def bit_simps\<close>)
  ultimately show ?thesis
    using bit_move [of t] by (auto simp: xu_static_stream_read_u1_def as64_def Let_def)
qed

section \<open>Sequences of values\<close>

fun fit_all :: "('k \<Rightarrow> 'v \<Rightarrow> nat \<Rightarrow> bool) \<Rightarrow> ('k \<Rightarrow> nat) \<Rightarrow> ('k \<times> 'v) list \<Rightarrow> nat \<Rightarrow> bool" where
  "fit_all fit len [] j = True"
| "fit_all fit len ((k, v) # kvs) j = (fit k v j \<and> fit_all fit len kvs (j + len k))"

locale bit_cursor =
  fixes writ :: "'k \<Rightarrow> 'v \<Rightarrow> 's \<Rightarrow> (bool \<times> 's) option"
    and read :: "'k \<Rightarrow> 's \<Rightarrow> ('v \<times> 's) option"
    and len :: "'k \<Rightarrow> nat"
    and at :: "'s \<Rightarrow> nat"
    and room :: "'s \<Rightarrow> nat"
    and bits :: "'s \<Rightarrow> nat \<Rightarrow> bool"
    and ok :: "'s \<Rightarrow> bool"
    and fit :: "'k \<Rightarrow> 'v \<Rightarrow> nat \<Rightarrow> bool"
  assumes writ_read: "ok s \<Longrightarrow> fit k v (at s) \<Longrightarrow> at s + len k \<le> room s \<Longrightarrow>
    \<exists>s'. writ k v s = Some (True, s') \<and> ok s' \<and> at s' = at s + len k \<and> room s' = room s
      \<and> (\<forall>j < at s. bits s' j = bits s j)
      \<and> (\<forall>t. ok t \<longrightarrow> at t = at s \<longrightarrow> room t = room s
           \<longrightarrow> (\<forall>j. at s \<le> j \<longrightarrow> j < at s + len k \<longrightarrow> bits t j = bits s' j)
           \<longrightarrow> (\<exists>t'. read k t = Some (v, t') \<and> ok t' \<and> at t' = at t + len k \<and> room t' = room t \<and> bits t' = bits t))"
begin

abbreviation total :: "('k \<times> 'v) list \<Rightarrow> nat" where
  "total kvs \<equiv> sum_list (map (\<lambda>kv. len (fst kv)) kvs)"

definition reads :: "('k \<times> 'v) list \<Rightarrow> 's \<Rightarrow> nat \<Rightarrow> bool" where
  "reads kvs s' j \<longleftrightarrow> (\<forall>t. ok t \<longrightarrow> at t = j \<longrightarrow> room t = room s'
     \<longrightarrow> (\<forall>i. j \<le> i \<longrightarrow> i < j + total kvs \<longrightarrow> bits t i = bits s' i)
     \<longrightarrow> (\<exists>t'. read_all read (map fst kvs) t = Some (map snd kvs, t') \<and> ok t' \<and> at t' = j + total kvs))"

lemma writ_all_reads:
  assumes "ok s" and "fit_all fit len kvs (at s)" and "at s + total kvs \<le> room s"
  shows "\<exists>s'. writ_all writ kvs s = Some (True, s') \<and> ok s' \<and> at s' = at s + total kvs
    \<and> room s' = room s \<and> (\<forall>j < at s. bits s' j = bits s j) \<and> reads kvs s' (at s)"
  using assms
proof (induction kvs arbitrary: s)
  case Nil
  then show ?case by (auto simp: reads_def)
next
  case (Cons kv kvs)
  obtain k v where kv: "kv = (k, v)" by (cases kv)
  obtain s1 where s1: "writ k v s = Some (True, s1)" "ok s1" "at s1 = at s + len k" "room s1 = room s"
    "\<And>j. j < at s \<Longrightarrow> bits s1 j = bits s j"
    and rd: "\<And>t. ok t \<Longrightarrow> at t = at s \<Longrightarrow> room t = room s
           \<Longrightarrow> (\<And>j. at s \<le> j \<Longrightarrow> j < at s + len k \<Longrightarrow> bits t j = bits s1 j)
           \<Longrightarrow> \<exists>t'. read k t = Some (v, t') \<and> ok t' \<and> at t' = at t + len k \<and> room t' = room t \<and> bits t' = bits t"
    using writ_read [of s k v] Cons.prems kv by (auto simp del: all_simps)
  obtain s2 where s2: "writ_all writ kvs s1 = Some (True, s2)" "ok s2" "at s2 = at s1 + total kvs"
    "room s2 = room s1" "\<And>j. j < at s1 \<Longrightarrow> bits s2 j = bits s1 j" and rds: "reads kvs s2 (at s1)"
    using Cons.IH [of s1] Cons.prems kv s1 by auto
  have "reads (kv # kvs) s2 (at s)"
    unfolding reads_def
  proof (intro allI impI)
    fix t
    assume t: "ok t" "at t = at s" "room t = room s2"
      and b: "\<forall>i. at s \<le> i \<longrightarrow> i < at s + total (kv # kvs) \<longrightarrow> bits t i = bits s2 i"
    have b1: "bits t j = bits s1 j" if "at s \<le> j" "j < at s + len k" for j
      using b s2(5) [of j] s1(3) that kv by simp
    obtain t' where t': "read k t = Some (v, t')" "ok t'" "at t' = at t + len k" "room t' = room t" "bits t' = bits t"
      using rd [OF t(1,2) _ b1] t(3) s2(4) s1(4) by auto
    have "\<exists>t2. read_all read (map fst kvs) t' = Some (map snd kvs, t2) \<and> ok t2 \<and> at t2 = at s1 + total kvs"
      using rds t' t s1(3) b kv unfolding reads_def by auto
    then show "\<exists>t'. read_all read (map fst (kv # kvs)) t = Some (map snd (kv # kvs), t') \<and> ok t'
        \<and> at t' = at s + total (kv # kvs)"
      using t'(1) s1(3) kv by auto
  qed
  then show ?case using s1 s2 kv by auto
qed

end

section \<open>Writing at a position\<close>

fun kind_bits :: "kind \<Rightarrow> nat" where
  "kind_bits K1 = 1"
| "kind_bits (K8 sg) = 8"
| "kind_bits (KInt w e sg) = 8 * width_bytes w"
| "kind_bits (KBits n) = n"
| "kind_bits (KSBits n) = n"

text \<open>The value is one of the kind, and whole bytes are written at a byte boundary.\<close>

fun stream_fit :: "kind \<Rightarrow> u64 \<Rightarrow> nat \<Rightarrow> bool" where
  "stream_fit K1 v j = (take_bit 1 v = v)"
| "stream_fit (K8 sg) v j = (take_bit 8 v = v \<and> j mod 8 = 0)"
| "stream_fit (KInt w e sg) v j = (fits_int w sg v \<and> j mod 8 = 0)"
| "stream_fit (KBits n) v j = (0 < n \<and> n \<le> 32 \<and> take_bit n v = v)"
| "stream_fit (KSBits n) v j = (0 < n \<and> n \<le> 32 \<and> ucast (signed_take_bit (n - 1) (ucast v :: u32)) = v)"

definition reads_back :: "kind \<Rightarrow> u64 \<Rightarrow> u8 list \<Rightarrow> nat \<Rightarrow> bool" where
  "reads_back k v m j \<longleftrightarrow> (\<forall>t. stream_ok t \<longrightarrow> pos t = j \<longrightarrow> j + kind_bits k \<le> 8 * se t
     \<longrightarrow> (\<forall>i. j \<le> i \<longrightarrow> i < j + kind_bits k \<longrightarrow> sbit (smem t) i = sbit m i)
     \<longrightarrow> stream_read k t = Some (v, move t (kind_bits k)))"

definition written :: "kind \<Rightarrow> u64 \<Rightarrow> static_stream \<Rightarrow> u8 list \<Rightarrow> bool" where
  "written k v s m \<longleftrightarrow> stream_writ k v s = Some (True, (move s (kind_bits k))\<lparr>smem := m\<rparr>)
     \<and> length m = length (smem s) \<and> (\<forall>j < pos s. sbit m j = sbit (smem s) j) \<and> reads_back k v m (pos s)"

lemma writ_bits:
  assumes ok: "stream_ok s" "pos s + n \<le> 8 * se s" and fit: "stream_fit (KBits n) v (pos s)"
  shows "\<exists>m. written (KBits n) v s m"
proof -
  have n: "0 < n" "n \<le> 32" "take_bit n v = v" using fit by simp_all
  obtain m where m: "xu_bits_set_ubits32 (smem s) (sp s) (sb s) (ucast v) n = Some m"
    "stores (smem s) (pos s) n (ucast v :: u32) m"
    by (rule set_ubits32_stores [OF n(2) bits_room [OF ok], of "ucast v", folded pos_def])
  have len: "length m = length (smem s)" by (rule stores_length [OF m(2)])
  have room: "pos s + n \<le> 8 * length (smem s)" using ok unfolding stream_ok_def by linarith
  have f: "field m (pos s) n (take_bit n (ucast v) :: u32)" by (rule stores_field [OF m(2) room])
  have v: "ucast (take_bit n (ucast v) :: u32) = v"
  proof -
    have "ucast (take_bit n (ucast v) :: u32) = take_bit n v"
      by (rule bit_word_eqI) (use n(2) in \<open>auto simp: bit_simps\<close>)
    then show ?thesis using n(3) by simp
  qed
  have "reads_back (KBits n) v m (pos s)"
    unfolding reads_back_def
  proof (intro allI impI)
    fix t
    assume t: "stream_ok t" "pos t = pos s" "pos s + kind_bits (KBits n) \<le> 8 * se t"
      and b: "\<forall>i. pos s \<le> i \<longrightarrow> i < pos s + kind_bits (KBits n) \<longrightarrow> sbit (smem t) i = sbit m i"
    have "stream_read (KBits n) t = Some (ucast (take_bit n (ucast v) :: u32), move t n)"
      by (rule read_bits [OF t(1) _ n(1,2)]) (use t b field_cong [THEN iffD2, OF _ f] in auto)
    then show "stream_read (KBits n) t = Some (v, move t (kind_bits (KBits n)))"
      unfolding v kind_bits.simps .
  qed
  moreover have "stream_writ (KBits n) v s = Some (True, (move s n)\<lparr>smem := m\<rparr>)"
    using m(1) n(1) pos_lt [OF ok n(1)] skip_bits_move [of "s\<lparr>smem := m\<rparr>" n] ok len
    by (simp add: xu_static_stream_writ_ubits32_def)
  moreover have "\<forall>j < pos s. sbit m j = sbit (smem s) j"
    using stores_frame [OF m(2)] room by simp
  ultimately show ?thesis using len by (auto simp: written_def)
qed

lemma writ_sbits:
  assumes ok: "stream_ok s" "pos s + n \<le> 8 * se s" and fit: "stream_fit (KSBits n) v (pos s)"
  shows "\<exists>m. written (KSBits n) v s m"
proof -
  define y where "y = (signed_take_bit (n - 1) (ucast v) :: u32)"
  have n: "0 < n" "n \<le> 32" and v: "ucast y = v" using fit by (simp_all add: y_def)
  have x: "ucast v = y" by (subst v [symmetric]) (rule bit_word_eqI, simp add: bit_ucast_iff)
  have r: "signed_take_bit (n - 1) y = y" by (simp add: y_def)
  obtain m where m: "xu_bits_set_sbits32 (smem s) (sp s) (sb s) (ucast v) n = Some m"
    and len: "length m = length (smem s)"
    and at: "\<And>k. k < n \<Longrightarrow> sbit m (pos s + k) = bit y (n - 1 - k)"
    and fr: "\<forall>k < 8 * length (smem s). k < pos s \<or> 8 * ((pos s + n + 7) div 8) \<le> k \<longrightarrow> sbit m k = sbit (smem s) k"
    using set_sbits32_fit [OF n bits_room [OF ok] r] unfolding x pos_def by blast
  have "pos s + n \<le> 8 * length (smem s)" using ok unfolding stream_ok_def by linarith
  then have frame: "\<forall>k < pos s. sbit m k = sbit (smem s) k" using fr by simp
  have f: "sfield m (pos s) n y"
    by (rule at_sfield [OF n(1,2) r at])
  have "reads_back (KSBits n) v m (pos s)"
    unfolding reads_back_def
  proof (intro allI impI)
    fix t
    assume t: "stream_ok t" "pos t = pos s" "pos s + kind_bits (KSBits n) \<le> 8 * se t"
      and b: "\<forall>i. pos s \<le> i \<longrightarrow> i < pos s + kind_bits (KSBits n) \<longrightarrow> sbit (smem t) i = sbit m i"
    have "stream_read (KSBits n) t = Some (ucast (y), move t n)"
      by (rule read_sbits [OF t(1) _ n]) (use t b sfield_cong [THEN iffD2, OF _ n(1) f] in auto)
    then show "stream_read (KSBits n) t = Some (v, move t (kind_bits (KSBits n)))"
      unfolding v kind_bits.simps .
  qed
  moreover have "stream_writ (KSBits n) v s = Some (True, (move s n)\<lparr>smem := m\<rparr>)"
    using m n(1) pos_lt [OF ok n(1)] skip_bits_move [of "s\<lparr>smem := m\<rparr>" n] ok len
    by (simp add: xu_static_stream_writ_sbits32_def)
  ultimately show ?thesis using len frame by (auto simp: written_def)
qed

lemma put_frame:
  assumes "p + length bs \<le> length m" and "k < 8 * p"
  shows "sbit (put_bytes m p bs) k = sbit m k"
proof -
  have "k div 8 < p" using assms(2) by linarith
  then show ?thesis using assms(1) by (simp add: sbit_def nth_put_bytes)
qed

lemma put_agree:
  assumes "\<And>i. 8 * p \<le> i \<Longrightarrow> i < 8 * p + 8 * w \<Longrightarrow> sbit m i = sbit m' i" and "p \<le> a" and "a < p + w"
  shows "m ! a = m' ! a"
  by (rule byte_cong, rule assms(1)) (use assms(2,3) in linarith)+

lemma aligned_pos: "stream_ok t \<Longrightarrow> pos t mod 8 = 0 \<Longrightarrow> sb t = 0 \<and> pos t = 8 * sp t"
  by (auto simp: stream_ok_def pos_def)

lemma writ_int:
  assumes ok: "stream_ok s" "pos s + 8 * width_bytes w \<le> 8 * se s" and fit: "stream_fit (KInt w e sg) v (pos s)"
  shows "\<exists>m. written (KInt w e sg) v s m"
proof -
  let ?B = "width_bytes w" and ?m = "put_bytes (smem s) (sp s) (int_bytes w e v)"
  have a: "sb s = 0" "pos s = 8 * sp s" using aligned_pos [OF ok(1)] fit by simp_all
  have room: "sp s + ?B \<le> se s" "sp s + ?B \<le> length (smem s)" using ok a unfolding stream_ok_def by linarith+
  have "stream_writ (KInt w e sg) v s = Some (True, (move s (8 * ?B))\<lparr>smem := ?m\<rparr>)"
    using room a byte_move [of "s\<lparr>smem := ?m\<rparr>" ?B] by (simp add: writ_int_result)
  moreover have "reads_back (KInt w e sg) v ?m (pos s)"
    unfolding reads_back_def
  proof (intro allI impI)
    fix t
    assume t: "stream_ok t" "pos t = pos s" "pos s + kind_bits (KInt w e sg) \<le> 8 * se t"
      and b: "\<forall>i. pos s \<le> i \<longrightarrow> i < pos s + kind_bits (KInt w e sg) \<longrightarrow> sbit (smem t) i = sbit ?m i"
    have at: "sb t = 0" "sp t = sp s" using t(2) a(2) aligned_pos [OF t(1)] by simp_all
    have "int_value w e sg (smem t) (sp s) = int_value w e sg ?m (sp s)"
      by (rule int_value_cong, rule put_agree [where p = "sp s" and w = ?B]) (use b a(2) in auto)
    also have "\<dots> = v" using int_value_put room fit by simp
    finally show "stream_read (KInt w e sg) t = Some (v, move t (kind_bits (KInt w e sg)))"
      using read_int [OF t(1) at(1), of w e sg] t(2,3) at(2) by simp
  qed
  ultimately show ?thesis using put_frame [of "sp s" "int_bytes w e v"] room a(2) by (auto simp: written_def)
qed

lemma writ_byte:
  assumes ok: "stream_ok s" "pos s + 8 \<le> 8 * se s" and fit: "stream_fit (K8 sg) v (pos s)"
  shows "\<exists>m. written (K8 sg) v s m"
proof -
  let ?m = "put_bytes (smem s) (sp s) [ucast v]"
  have a: "sb s = 0" "pos s = 8 * sp s" using aligned_pos [OF ok(1)] fit by simp_all
  have room: "sp s < se s" "sp s < length (smem s)" using ok a unfolding stream_ok_def by linarith+
  have "stream_writ (K8 sg) v s = Some (True, (move s 8)\<lparr>smem := ?m\<rparr>)"
    using room a byte_move [of "s\<lparr>smem := ?m\<rparr>" 1]
    by (simp add: xu_static_stream_writ_u8_def xu_static_stream_writ_s8_def update_is_put)
  moreover have "reads_back (K8 sg) v ?m (pos s)"
    unfolding reads_back_def
  proof (intro allI impI)
    fix t
    assume t: "stream_ok t" "pos t = pos s" "pos s + kind_bits (K8 sg) \<le> 8 * se t"
      and b: "\<forall>i. pos s \<le> i \<longrightarrow> i < pos s + kind_bits (K8 sg) \<longrightarrow> sbit (smem t) i = sbit ?m i"
    have at: "sb t = 0" "sp t = sp s" using t(2) a(2) aligned_pos [OF t(1)] by simp_all
    have "smem t ! sp s = ?m ! sp s"
      by (rule put_agree [where p = "sp s" and w = 1]) (use b a(2) in auto)
    also have "\<dots> = ucast v" using room by (simp add: nth_put_bytes)
    finally have m: "smem t ! sp s = ucast v" .
    have "ucast (ucast v :: u8) = take_bit 8 v" by (rule bit_word_eqI) (auto simp: bit_simps)
    then have "ucast (smem t ! sp s) = v" using m fit by simp
    then show "stream_read (K8 sg) t = Some (v, move t (kind_bits (K8 sg)))"
      using read_byte [OF t(1) at(1), of sg] t(2,3) at(2) by simp
  qed
  ultimately show ?thesis using put_frame [of "sp s" "[ucast v]" "smem s"] room a(2) by (auto simp: written_def)
qed

lemma writ_bit:
  assumes ok: "stream_ok s" "pos s + 1 \<le> 8 * se s" and fit: "stream_fit K1 v (pos s)"
  shows "\<exists>m. written K1 v s m"
proof -
  let ?c = "smem s ! sp s AND NOT (push_bit (7 - sb s) 1) OR push_bit (7 - sb s) (ucast v AND 1)"
  let ?m = "(smem s)[sp s := ?c]"
  have b8: "sb s < 8" and lt: "sp s < se s" and len: "sp s < length (smem s)"
    using ok pos_lt [OF ok] unfolding stream_ok_def by simp_all
  have c: "bit ?c t \<longleftrightarrow> (if t = 7 - sb s then bit v 0 else bit (smem s ! sp s) t)" if "t < 8" for t
    using that b8 by (auto simp: bit_simps)
  have bits: "sbit ?m j = (if j = pos s then bit v 0 else sbit (smem s) j)" for j
  proof (cases "j div 8 = sp s")
    case True
    have t8: "7 - j mod 8 < 8" by simp
    obtain r where r: "j mod 8 = r" "r < 8" "j = 8 * sp s + r"
      using True mult_div_mod_eq [of 8 j] by (metis mod_less_divisor zero_less_numeral)
    have "7 - r = 7 - sb s \<longleftrightarrow> r = sb s" using b8 r(2) by linarith
    then have "7 - j mod 8 = 7 - sb s \<longleftrightarrow> j = pos s" unfolding r(1) unfolding pos_def r(3) by simp
    moreover have "sbit ?m j = bit ?c (7 - j mod 8)"
      unfolding sbit_def True nth_list_update_eq [OF len] ..
    moreover have "sbit (smem s) j = bit (smem s ! sp s) (7 - j mod 8)" by (simp only: sbit_def True)
    ultimately show ?thesis unfolding c [OF t8] by presburger
  next
    case False
    then have "j \<noteq> pos s" using b8 by (auto simp: pos_def)
    then show ?thesis using False by (simp add: sbit_def)
  qed
  have v: "of_bool (bit v 0) = v"
  proof -
    have "of_bool (bit v 0) = take_bit 1 v" by (rule bit_word_eqI) (auto simp: bit_simps bit_0)
    then show ?thesis using fit by simp
  qed
  have "reads_back K1 v ?m (pos s)"
    unfolding reads_back_def
  proof (intro allI impI)
    fix t
    assume t: "stream_ok t" "pos t = pos s" "pos s + kind_bits K1 \<le> 8 * se t"
      and b: "\<forall>i. pos s \<le> i \<longrightarrow> i < pos s + kind_bits K1 \<longrightarrow> sbit (smem t) i = sbit ?m i"
    have "sbit (smem t) (pos t) = bit v 0" using b bits [of "pos s"] t(2) by simp
    then show "stream_read K1 t = Some (v, move t (kind_bits K1))"
      using read_bit [OF t(1)] t(2,3) v by simp
  qed
  moreover have "stream_writ K1 v s = Some (True, (move s 1)\<lparr>smem := ?m\<rparr>)"
    using lt bit_move [OF b8] by (auto simp: xu_static_stream_writ_u1_def Let_def)
  ultimately show ?thesis using bits by (auto simp: written_def)
qed

lemma stream_written:
  assumes "stream_ok s" and "stream_fit k v (pos s)" and "pos s + kind_bits k \<le> 8 * se s"
  shows "\<exists>m. written k v s m"
  using assms by (cases k) (simp_all only: kind_bits.simps writ_bits writ_sbits writ_int writ_byte writ_bit)

interpretation stream_cursor: bit_cursor stream_writ stream_read kind_bits pos "\<lambda>s. 8 * se s" "\<lambda>s. sbit (smem s)"
  stream_ok stream_fit
proof
  fix s k v
  assume s: "stream_ok s" "stream_fit k v (pos s)" "pos s + kind_bits k \<le> 8 * se s"
  obtain m where m: "written k v s m" using stream_written [OF s] ..
  have rd: "stream_read k t = Some (v, move t (kind_bits k)) \<and> stream_ok (move t (kind_bits k))"
    if "stream_ok t" "pos t = pos s" "8 * se t = 8 * se s"
      "\<forall>j. pos s \<le> j \<longrightarrow> j < pos s + kind_bits k \<longrightarrow> sbit (smem t) j = sbit m j" for t
    using m that s(3) move_ok [OF that(1), of "kind_bits k"] by (auto simp: written_def reads_back_def)
  show "\<exists>s'. stream_writ k v s = Some (True, s') \<and> stream_ok s' \<and> pos s' = pos s + kind_bits k \<and> 8 * se s' = 8 * se s
      \<and> (\<forall>j<pos s. sbit (smem s') j = sbit (smem s) j)
      \<and> (\<forall>t. stream_ok t \<longrightarrow> pos t = pos s \<longrightarrow> 8 * se t = 8 * se s
           \<longrightarrow> (\<forall>j. pos s \<le> j \<longrightarrow> j < pos s + kind_bits k \<longrightarrow> sbit (smem t) j = sbit (smem s') j)
           \<longrightarrow> (\<exists>t'. stream_read k t = Some (v, t') \<and> stream_ok t' \<and> pos t' = pos t + kind_bits k
                 \<and> 8 * se t' = 8 * se t \<and> sbit (smem t') = sbit (smem t)))"
    using m rd move_ok [OF s(1,3)]
    by (intro exI [of _ "(move s (kind_bits k))\<lparr>smem := m\<rparr>"]) (auto simp: written_def)
qed

text \<open>C16. A sequence of bits, bytes, integers of either byte order and signedness and bit fields
  that fits in the buffer is written completely, and after going back to its start the same
  sequence of read operations returns the same values and ends at the same position.\<close>

theorem xu_static_stream_roundtrip:
  assumes ok: "stream_ok s" and start: "sb s = 0" and fit: "fit_all stream_fit kind_bits kvs (8 * sp s)"
    and room: "8 * sp s + (\<Sum>kv\<leftarrow>kvs. kind_bits (fst kv)) \<le> 8 * se s"
  shows "\<exists>s1 s2 s3. writ_all stream_writ kvs s = Some (True, s1)
    \<and> xu_static_stream_goto s1 (sp s) = (True, s2)
    \<and> read_all stream_read (map fst kvs) s2 = Some (map snd kvs, s3) \<and> pos s3 = pos s1"
proof -
  have at: "pos s = 8 * sp s" using start by (simp add: pos_def)
  obtain s1 where s1: "writ_all stream_writ kvs s = Some (True, s1)" "stream_ok s1" "se s1 = se s"
    "pos s1 = pos s + (\<Sum>kv\<leftarrow>kvs. kind_bits (fst kv))" and rd: "stream_cursor.reads kvs s1 (pos s)"
    using stream_cursor.writ_all_reads [OF ok, of kvs] fit room unfolding at by auto
  let ?s2 = "s1\<lparr>sp := sp s, sb := 0\<rparr>"
  have "stream_ok ?s2" using ok s1(2,3) by (simp add: stream_ok_def)
  moreover have "pos ?s2 = pos s" by (simp add: pos_def start)
  ultimately have "\<exists>s3. read_all stream_read (map fst kvs) ?s2 = Some (map snd kvs, s3) \<and> pos s3 = pos s1"
    using rd s1(4) unfolding stream_cursor.reads_def by auto
  moreover have "xu_static_stream_goto s1 (sp s) = (True, ?s2)"
    using ok s1(3) by (simp add: xu_static_stream_goto_def stream_ok_def)
  ultimately show ?thesis using s1(1) by blast
qed

theorem xu_static_stream_roundtrip_witness:
  "\<exists>s1 s2 s3. writ_all stream_writ
      [(KInt W24 LE True, 0xfffffffe), (KBits 5, 19), (K1, 1), (KBits 10, 513), (K8 False, 7), (KInt W32 BE False, 258)]
      (xu_static_stream_init (replicate 12 0xff) 1 11) = Some (True, s1)
    \<and> xu_static_stream_goto s1 1 = (True, s2)
    \<and> read_all stream_read [KInt W24 LE True, KBits 5, K1, KBits 10, K8 False, KInt W32 BE False] s2
        = Some ([0xfffffffe, 19, 1, 513, 7, 258], s3) \<and> pos s3 = pos s1"
proof -
  have v: "ucast (signed_take_bit 23 (ucast (0xfffffffe :: u64) :: u32)) = (0xfffffffe :: u64)" by code_simp
  show ?thesis
    using xu_static_stream_roundtrip [where s = "xu_static_stream_init (replicate 12 0xff) 1 11" and
      kvs = "[(KInt W24 LE True, 0xfffffffe), (KBits 5, 19), (K1, 1), (KBits 10, 513), (K8 False, 7), (KInt W32 BE False, 258)]"] v
    by (simp add: xu_static_stream_init_def stream_ok_def)
qed

section \<open>The operations as steps\<close>

definition in_buffer :: "static_stream \<Rightarrow> bool" where
  "in_buffer s \<longleftrightarrow> stream_ok s \<and> se s - sn s \<le> sp s"

text \<open>What a step may change: the position, and bytes of the buffer.\<close>

definition confined :: "static_stream \<Rightarrow> static_stream \<Rightarrow> bool" where
  "confined s s' \<longleftrightarrow> in_buffer s' \<and> se s' = se s \<and> sn s' = sn s \<and> length (smem s') = length (smem s)
     \<and> (\<forall>a < length (smem s). a < se s - sn s \<or> se s \<le> a \<longrightarrow> smem s' ! a = smem s ! a)"

text \<open>One call on the stream. A bit field has at most the bits that are left, a string is written in
  front of the end, and the stream is not sent in front of its buffer.\<close>

inductive stream_step :: "static_stream \<Rightarrow> static_stream \<Rightarrow> bool" where
  goto: "se s - sn s \<le> d \<Longrightarrow> stream_step s (snd (xu_static_stream_goto s d))"
| sync: "stream_step s (snd (xu_static_stream_sync s))"
| pos: "stream_step s (snd (xu_static_stream_pos s))"
| offset: "stream_step s (snd (xu_static_stream_offset s))"
| left: "stream_step s (snd (xu_static_stream_left s))"
| skip: "stream_step s (snd (xu_static_stream_skip s n))"
| skip_bits: "stream_step s (snd (xu_static_stream_skip_bits s n))"
| skip_cstr: "stream_step s (snd (xu_static_stream_skip_cstr s))"
| read_cstr: "stream_step s (snd (xu_static_stream_read_cstr s))"
| read_data: "stream_step s (snd (xu_static_stream_read_data s n))"
| writ_data: "stream_step s (snd (xu_static_stream_writ_data s d))"
| writ_cstr: "8 \<le> xu_static_stream_left_bits s \<Longrightarrow> xu_static_stream_writ_cstr s cs = Some (r, s') \<Longrightarrow> stream_step s s'"
| read_ubits32: "xu_static_stream_read_ubits32 s n = Some (v, s') \<Longrightarrow> stream_step s s'"
| read_sbits32: "xu_static_stream_read_sbits32 s n = Some (v, s') \<Longrightarrow> stream_step s s'"
| read_ubits64: "xu_static_stream_read_ubits64 s n = Some (w, s') \<Longrightarrow> stream_step s s'"
| read_sbits64: "xu_static_stream_read_sbits64 s n = Some (w, s') \<Longrightarrow> stream_step s s'"
| peek_ubits32: "xu_static_stream_peek_ubits32 s n = Some (v, s') \<Longrightarrow> stream_step s s'"
| peek_sbits32: "xu_static_stream_peek_sbits32 s n = Some (v, s') \<Longrightarrow> stream_step s s'"
| writ_ubits32: "n \<le> 32 \<Longrightarrow> n \<le> xu_static_stream_left_bits s \<Longrightarrow> xu_static_stream_writ_ubits32 s v n = Some (ok, s')
    \<Longrightarrow> stream_step s s'"
| writ_sbits32: "n \<le> 32 \<Longrightarrow> n \<le> xu_static_stream_left_bits s \<Longrightarrow> xu_static_stream_writ_sbits32 s v n = Some (ok, s')
    \<Longrightarrow> stream_step s s'"
| read_u1: "stream_step s (snd (xu_static_stream_read_u1 s))"
| writ_u1: "stream_step s (snd (xu_static_stream_writ_u1 s b))"
| read_u8: "stream_step s (snd (xu_static_stream_read_u8 s))"
| read_s8: "stream_step s (snd (xu_static_stream_read_s8 s))"
| writ_u8: "stream_step s (snd (xu_static_stream_writ_u8 s b))"
| writ_s8: "stream_step s (snd (xu_static_stream_writ_s8 s b))"
| read_int: "stream_step s (snd (stream_read_int w e sg s))"
| writ_int: "stream_step s (snd (stream_writ_int w e sg x s))"

definition moved :: "static_stream \<Rightarrow> static_stream \<Rightarrow> bool" where
  "moved s s' \<longleftrightarrow> in_buffer s' \<and> (\<exists>p b. s' = s\<lparr>sp := p, sb := b\<rparr>)"

lemma moved_confined: "moved s s' \<Longrightarrow> confined s s'"
  by (auto simp: moved_def confined_def)

lemma moved_refl: "in_buffer s \<Longrightarrow> moved s s"
  unfolding moved_def by (intro conjI exI [of _ "sp s"] exI [of _ "sb s"]) simp_all

lemma moved_trans: "moved s s' \<Longrightarrow> moved s' s'' \<Longrightarrow> moved s s''"
  unfolding moved_def by (elim conjE exE, intro conjI, assumption, hypsubst, intro exI, simp)

lemma moved_set: "in_buffer (s\<lparr>sp := p, sb := b\<rparr>) \<Longrightarrow> moved s (s\<lparr>sp := p, sb := b\<rparr>)"
  by (auto simp: moved_def)

lemma moved_sp: "in_buffer (s\<lparr>sp := p\<rparr>) \<Longrightarrow> moved s (s\<lparr>sp := p\<rparr>)"
  unfolding moved_def by (intro conjI exI [of _ p] exI [of _ "sb s"]) simp_all

lemma in_buffer_move:
  "in_buffer s \<Longrightarrow> p \<le> se s \<Longrightarrow> se s - sn s \<le> p \<Longrightarrow> b < 8 \<Longrightarrow> (p = se s \<Longrightarrow> b = 0)
    \<Longrightarrow> in_buffer (s\<lparr>sp := p, sb := b\<rparr>)"
  by (auto simp: in_buffer_def stream_ok_def)

lemma sync_moved: "in_buffer s \<Longrightarrow> moved s (snd (xu_static_stream_sync s)) \<and> sb (snd (xu_static_stream_sync s)) = 0
    \<and> fst (xu_static_stream_sync s)"
  by (auto simp: xu_static_stream_sync_def in_buffer_def stream_ok_def intro!: moved_set moved_refl in_buffer_move)

lemma moved_sync:
  assumes "in_buffer s"
  obtains s1 where "xu_static_stream_sync s = (True, s1)" and "moved s s1" and "in_buffer s1" and "sb s1 = 0"
  using sync_moved [OF assms] by (cases "xu_static_stream_sync s") (auto simp: moved_def)

lemma skip_moved: "in_buffer s \<Longrightarrow> moved s (snd (xu_static_stream_skip s n))"
proof -
  assume s: "in_buffer s"
  obtain s1 where s1: "xu_static_stream_sync s = (True, s1)" "moved s s1" "in_buffer s1" "sb s1 = 0"
    by (rule moved_sync [OF s])
  have "moved s1 (s1\<lparr>sp := sp s1 + n\<rparr>)" if "sp s1 + n \<le> se s1"
    using that s1(3,4) by (intro moved_sp) (auto simp: in_buffer_def stream_ok_def)
  then show ?thesis using s1(1,2) moved_trans by (auto simp: xu_static_stream_skip_def)
qed

lemma skip_bits_moved: "in_buffer s \<Longrightarrow> moved s (snd (xu_static_stream_skip_bits s n))"
  by (auto simp: xu_static_stream_skip_bits_def Let_def in_buffer_def stream_ok_def
      intro!: moved_set moved_refl in_buffer_move)

lemma goto_moved: "in_buffer s \<Longrightarrow> se s - sn s \<le> d \<Longrightarrow> moved s (snd (xu_static_stream_goto s d))"
  by (auto simp: xu_static_stream_goto_def intro!: moved_set moved_refl in_buffer_move)

lemma query_moved:
  assumes "in_buffer s"
  shows "moved s (snd (xu_static_stream_pos s))" and "moved s (snd (xu_static_stream_offset s))"
    and "moved s (snd (xu_static_stream_left s))"
  using sync_moved [OF assms] moved_refl [OF assms]
  by (auto simp: xu_static_stream_pos_def xu_static_stream_offset_def xu_static_stream_left_def Let_def)

lemma read_cstr_moved:
  assumes "in_buffer s"
  shows "moved s (snd (xu_static_stream_read_cstr s))" and "moved s (snd (xu_static_stream_skip_cstr s))"
proof -
  obtain s1 where s1: "xu_static_stream_sync s = (True, s1)" "moved s s1" "in_buffer s1" "sb s1 = 0"
    by (rule moved_sync [OF assms])
  show "moved s (snd (xu_static_stream_read_cstr s))"
    using moved_trans [OF s1(2) skip_moved [OF s1(3)]] moved_refl [OF assms] s1(1)
    by (auto simp: xu_static_stream_read_cstr_def Let_def split: prod.splits bool.splits)
      (metis snd_conv)+
  then show "moved s (snd (xu_static_stream_skip_cstr s))"
    by (simp add: xu_static_stream_skip_cstr_def Let_def)
qed

lemma read_data_moved:
  assumes "in_buffer s"
  shows "moved s (snd (xu_static_stream_read_data s n))"
proof -
  obtain s1 where s1: "xu_static_stream_sync s = (True, s1)" "moved s s1" "in_buffer s1" "sb s1 = 0"
    by (rule moved_sync [OF assms])
  have sk: "moved s s2" if "xu_static_stream_skip s1 k = (q, s2)" for k q s2
    using moved_trans [OF s1(2) skip_moved [OF s1(3), of k]] that by simp
  show ?thesis
    using s1(1,2) moved_refl [OF assms] sk
    by (auto simp: xu_static_stream_read_data_def Let_def split: prod.splits bool.splits)
qed

lemma read_bits_moved:
  assumes "in_buffer s"
  shows "xu_static_stream_read_ubits32 s n = Some (v, s') \<Longrightarrow> moved s s'"
    and "xu_static_stream_read_sbits32 s n = Some (v, s') \<Longrightarrow> moved s s'"
    and "xu_static_stream_read_ubits64 s n = Some (w, s') \<Longrightarrow> moved s s'"
    and "xu_static_stream_read_sbits64 s n = Some (w, s') \<Longrightarrow> moved s s'"
  using skip_bits_moved [OF assms, of n] moved_refl [OF assms]
  by (auto simp: xu_static_stream_read_ubits32_def xu_static_stream_read_sbits32_def
      xu_static_stream_read_ubits64_def xu_static_stream_read_sbits64_def
      split: if_splits option.splits prod.splits bool.splits)

lemma peek_moved:
  assumes "in_buffer s"
  shows "xu_static_stream_peek_ubits32 s n = Some (v, s') \<Longrightarrow> s' = s"
    and "xu_static_stream_peek_sbits32 s n = Some (v, s') \<Longrightarrow> s' = s"
proof -
  have restored: "t\<lparr>sp := sp s, sb := sb s\<rparr> = s" if "moved s t" for t
    using that by (auto simp: moved_def)
  show "xu_static_stream_peek_ubits32 s n = Some (v, s') \<Longrightarrow> s' = s"
    using restored read_bits_moved(1) [OF assms]
    by (auto simp: xu_static_stream_peek_ubits32_def split: if_splits option.splits)
  show "xu_static_stream_peek_sbits32 s n = Some (v, s') \<Longrightarrow> s' = s"
    using restored read_bits_moved(2) [OF assms]
    by (auto simp: xu_static_stream_peek_sbits32_def split: if_splits option.splits)
qed

lemma read_fixed_moved:
  assumes "in_buffer s"
  shows "moved s (snd (xu_static_stream_read_u1 s))" and "moved s (snd (xu_static_stream_read_u8 s))"
    and "moved s (snd (xu_static_stream_read_s8 s))" and "moved s (snd (stream_read_int w e sg s))"
proof -
  have adv: "moved s (s\<lparr>sp := sp s + k\<rparr>)" if "sp s + k \<le> se s" "sb s = 0" for k
    using that assms by (intro moved_sp) (auto simp: in_buffer_def stream_ok_def)
  show "moved s (snd (xu_static_stream_read_u1 s))"
  proof (cases "sp s < se s")
    case True
    have ok: "stream_ok s" using assms by (simp add: in_buffer_def)
    have "moved s (move s 1)"
      unfolding move_def
      by (rule moved_set) (use assms True move_ok [OF ok, of 1, unfolded move_def] ok in
        \<open>auto simp: in_buffer_def stream_ok_def pos_def\<close>)
    moreover have "snd (xu_static_stream_read_u1 s) = move s 1"
      using True bit_move [of s] ok by (auto simp: xu_static_stream_read_u1_def Let_def stream_ok_def)
    ultimately show ?thesis by simp
  next
    case False
    then show ?thesis using moved_refl [OF assms] by (simp add: xu_static_stream_read_u1_def)
  qed
  show "moved s (snd (xu_static_stream_read_u8 s))" "moved s (snd (xu_static_stream_read_s8 s))"
    "moved s (snd (stream_read_int w e sg s))"
    using adv [of 1] adv [of "width_bytes w"] moved_refl [OF assms]
    by (auto simp: xu_static_stream_read_u8_def xu_static_stream_read_s8_def read_int_result)
qed

text \<open>A write of some bytes at the position, followed by a move.\<close>

lemma put_confined:
  assumes "in_buffer s" and "moved s s'" and "sp s + length bs \<le> se s"
  shows "confined s (s'\<lparr>smem := put_bytes (smem s) (sp s) bs\<rparr>)"
  using assms by (auto simp: moved_def confined_def in_buffer_def stream_ok_def nth_put_bytes)

lemma confined_trans: "moved s s1 \<Longrightarrow> confined s1 s2 \<Longrightarrow> confined s s2"
  by (auto simp: moved_def confined_def)

lemma moved_by: "in_buffer s \<Longrightarrow> sp s + k \<le> se s \<Longrightarrow> sb s = 0 \<Longrightarrow> moved s (s\<lparr>sp := sp s + k\<rparr>)"
  by (intro moved_sp) (auto simp: in_buffer_def stream_ok_def)

lemma writ_data_confined:
  assumes "in_buffer s"
  shows "confined s (snd (xu_static_stream_writ_data s d))"
proof -
  obtain s1 where s1: "xu_static_stream_sync s = (True, s1)" "moved s s1" "in_buffer s1" "sb s1 = 0"
    by (rule moved_sync [OF assms])
  define k where "k = (if se s1 - sp s1 < length d then se s1 - sp s1 else length d)"
  let ?m = "put_bytes (smem s1) (sp s1) (take k d)"
  have k: "sp s1 + k \<le> se s1" "length (take k d) = k"
    using s1(3) by (auto simp: k_def in_buffer_def stream_ok_def)
  have "xu_static_stream_skip (s1\<lparr>smem := ?m\<rparr>) k = (True, (s1\<lparr>sp := sp s1 + k\<rparr>)\<lparr>smem := ?m\<rparr>)"
    using k s1(4) by (simp add: xu_static_stream_skip_def xu_static_stream_sync_def)
  moreover have "confined s1 ((s1\<lparr>sp := sp s1 + k\<rparr>)\<lparr>smem := ?m\<rparr>)"
    by (rule put_confined [OF s1(3) moved_by [OF s1(3) k(1) s1(4)]]) (use k in simp)
  moreover have "snd (xu_static_stream_writ_data s d) \<in> {s, s1, snd (xu_static_stream_skip (s1\<lparr>smem := ?m\<rparr>) k)}"
  proof (cases "sp s \<le> se s \<and> d \<noteq> []")
    case True
    have "xu_static_stream_writ_data s d =
        (if k \<noteq> 0 then case xu_static_stream_skip (s1\<lparr>smem := ?m\<rparr>) k of (False, s') \<Rightarrow> (0, s') | (True, s') \<Rightarrow> (k, s')
         else (k, s1))"
      unfolding xu_static_stream_writ_data_def if_P [OF True] s1(1) prod.case bool.case Let_def k_def ..
    then show ?thesis by (auto split: prod.splits bool.splits)
  qed (auto simp: xu_static_stream_writ_data_def)
  ultimately show ?thesis
    using confined_trans [OF s1(2)] moved_confined [OF s1(2)] moved_confined [OF moved_refl [OF assms]] by auto
qed

lemma writ_cstr_loop_frame:
  assumes "p \<le> e" and "e < length m" and "writ_cstr_loop m p e cs = (m', q, rest)"
  shows "p \<le> q \<and> q \<le> e \<and> length m' = length m \<and> (\<forall>a. a < p \<or> e \<le> a \<longrightarrow> m' ! a = m ! a)"
  using assms by (induction m p e cs rule: writ_cstr_loop.induct) (fastforce split: if_splits)+

lemma sync_room:
  assumes "in_buffer s" and "8 \<le> xu_static_stream_left_bits s" and "xu_static_stream_sync s = (True, s1)"
  shows "sp s1 < se s1"
  using assms by (auto simp: xu_static_stream_left_bits_def xu_static_stream_sync_def in_buffer_def stream_ok_def
      split: if_splits)

lemma writ_cstr_confined:
  assumes "in_buffer s" and "8 \<le> xu_static_stream_left_bits s"
    and w: "xu_static_stream_writ_cstr s cs = Some (r, s')"
  shows "confined s s'"
proof -
  obtain s1 where s1: "xu_static_stream_sync s = (True, s1)" "moved s s1" "in_buffer s1" "sb s1 = 0"
    by (rule moved_sync [OF assms(1)])
  obtain m q rest where l: "writ_cstr_loop (smem s1) (sp s1) (se s1 - 1) cs = (m, q, rest)"
    by (metis prod_cases3)
  have lt: "sp s1 < se s1" by (rule sync_room [OF assms(1,2) s1(1)])
  have e: "sp s1 \<le> se s1 - 1" "se s1 - 1 < length (smem s1)"
    using lt s1(3) by (auto simp: in_buffer_def stream_ok_def)
  note f = writ_cstr_loop_frame [OF e l]
  have q: "q < se s1" "q < length m" using f lt e by auto
  have "sp s \<le> se s" using assms(1) by (simp add: in_buffer_def stream_ok_def)
  then have "s' = s1\<lparr>smem := m[q := 0], sp := q + 1\<rparr> \<or> s' = s1\<lparr>smem := m[q := 0]\<rparr>"
    using w s1(1) l q by (auto simp: xu_static_stream_writ_cstr_def mem_ok_def Let_def split: if_splits)
  moreover have "m[q := 0] ! a = smem s1 ! a" if "a < se s1 - sn s1 \<or> se s1 \<le> a" for a
    using f that q lt s1(3) by (auto simp: nth_list_update in_buffer_def)
  ultimately have "confined s1 s'"
    using s1(3,4) f q by (auto simp: confined_def in_buffer_def stream_ok_def)
  then show ?thesis by (rule confined_trans [OF s1(2)])
qed

lemma bytes_le:
  assumes "(x :: nat) \<le> 8 * e"
  shows "(x + 7) div 8 \<le> e"
proof -
  have "(x + 7) div 8 \<le> (8 * e + 7) div 8" using assms by (intro div_le_mono) simp
  then show ?thesis by simp
qed

lemma stores_confined:
  assumes s: "in_buffer s" "pos s + n \<le> 8 * se s" and st: "length m = length (smem s)"
    "\<forall>k < 8 * length (smem s). k < pos s \<or> 8 * ((pos s + n + 7) div 8) \<le> k \<longrightarrow> sbit m k = sbit (smem s) k"
  shows "confined s ((move s n)\<lparr>smem := m\<rparr>)"
proof -
  have ok: "stream_ok s" using s(1) by (simp add: in_buffer_def)
  have "in_buffer (move s n)"
    using move_ok [OF ok s(2)] s(1) by (auto simp: in_buffer_def move_def pos_def)
  moreover have "m ! a = smem s ! a" if a: "a < length (smem s)" "a < se s - sn s \<or> se s \<le> a" for a
  proof (rule byte_cong)
    fix k assume k: "8 * a \<le> k" "k < 8 * a + 8"
    have "8 * ((pos s + n + 7) div 8) \<le> 8 * se s" using bytes_le [OF s(2)] by simp
    then have "k < pos s \<or> 8 * ((pos s + n + 7) div 8) \<le> k"
      using a(2) k s(1) unfolding in_buffer_def pos_def by linarith
    moreover have "k < 8 * length (smem s)" using a(1) k by linarith
    ultimately show "sbit m k = sbit (smem s) k" using st(2) by blast
  qed
  ultimately show ?thesis using st(1) by (auto simp: confined_def in_buffer_def)
qed

lemma left_bits_room: "in_buffer s \<Longrightarrow> 0 < n \<Longrightarrow> n \<le> xu_static_stream_left_bits s \<Longrightarrow> pos s + n \<le> 8 * se s"
  by (auto simp: xu_static_stream_left_bits_def pos_def split: if_splits)

lemma writ_bits_confined:
  assumes s: "in_buffer s" and n: "n \<le> 32" "n \<le> xu_static_stream_left_bits s"
  shows "xu_static_stream_writ_ubits32 s v n = Some (ok, s') \<Longrightarrow> confined s s'"
    and "xu_static_stream_writ_sbits32 s v n = Some (ok, s') \<Longrightarrow> confined s s'"
proof -
  have refl: "confined s s" by (rule moved_confined [OF moved_refl [OF s]])
  have sok: "stream_ok s" using s by (simp add: in_buffer_def)
  note room = left_bits_room [OF s _ n(2)]
  note fits = bits_room [OF sok room]
  show "confined s s'" if w: "xu_static_stream_writ_ubits32 s v n = Some (ok, s')"
  proof (cases "sp s < se s \<and> 0 < n")
    case True
    then have n0: "0 < n" by simp
    obtain m where m: "xu_bits_set_ubits32 (smem s) (sp s) (sb s) v n = Some m" "stores (smem s) (pos s) n v m"
      by (rule set_ubits32_stores [OF n(1) fits [OF n0], of v, folded pos_def])
    have "s' = (move s n)\<lparr>smem := m\<rparr>"
      using w m True skip_bits_move [of "s\<lparr>smem := m\<rparr>" n] sok room [OF n0] stores_length [OF m(2)]
      by (simp add: xu_static_stream_writ_ubits32_def)
    then show ?thesis
      using stores_confined [OF s room [OF n0] stores_length [OF m(2)]] stores_frame [OF m(2)] by simp
  qed (use w refl in \<open>auto simp: xu_static_stream_writ_ubits32_def split: if_splits\<close>)
  show "confined s s'" if w: "xu_static_stream_writ_sbits32 s v n = Some (ok, s')"
  proof (cases "sp s < se s \<and> 0 < n")
    case True
    then have n0: "0 < n" by simp
    obtain m where m: "xu_bits_set_sbits32 (smem s) (sp s) (sb s) v n = Some m" "length m = length (smem s)"
      "\<forall>k < 8 * length (smem s). k < pos s \<or> 8 * ((pos s + n + 7) div 8) \<le> k \<longrightarrow> sbit m k = sbit (smem s) k"
      using set_sbits32_at [OF n0 n(1) fits [OF n0], of v] unfolding pos_def by blast
    have "s' = (move s n)\<lparr>smem := m\<rparr>"
      using w m True skip_bits_move [of "s\<lparr>smem := m\<rparr>" n] sok room [OF n0]
      by (simp add: xu_static_stream_writ_sbits32_def)
    then show ?thesis using stores_confined [OF s room [OF n0] m(2,3)] by simp
  qed (use w refl in \<open>auto simp: xu_static_stream_writ_sbits32_def split: if_splits\<close>)
qed

lemma smem_sp: "s\<lparr>smem := m, sp := q\<rparr> = s\<lparr>sp := q, smem := m\<rparr>"
  by (cases s) simp

lemma writ_fixed_confined:
  assumes s: "in_buffer s"
  shows "confined s (snd (xu_static_stream_writ_u1 s b))" and "confined s (snd (xu_static_stream_writ_u8 s b))"
    and "confined s (snd (xu_static_stream_writ_s8 s b))" and "confined s (snd (stream_writ_int w e sg x s))"
proof -
  have refl: "confined s s" by (rule moved_confined [OF moved_refl [OF s]])
  have bytes: "confined s (s\<lparr>smem := put_bytes (smem s) (sp s) bs, sp := sp s + length bs\<rparr>)"
    if "sp s + length bs \<le> se s" "sb s = 0" for bs
    using put_confined [OF s moved_by [OF s that] that(1)] unfolding smem_sp .
  have len: "sp s < length (smem s)" if "sp s < se s"
    using that s by (simp add: in_buffer_def stream_ok_def)
  show "confined s (snd (xu_static_stream_writ_u8 s b))" "confined s (snd (xu_static_stream_writ_s8 s b))"
    using bytes [of "[b]"] refl len
    by (auto simp: xu_static_stream_writ_u8_def xu_static_stream_writ_s8_def update_is_put)
  show "confined s (snd (stream_writ_int w e sg x s))"
    using bytes [of "int_bytes w e x"] refl by (auto simp: writ_int_result)
  show "confined s (snd (xu_static_stream_writ_u1 s b))"
  proof (cases "sp s < se s")
    case True
    define c where "c = smem s ! sp s AND NOT (push_bit (7 - sb s) 1) OR push_bit (7 - sb s) (b AND 1)"
    have r: "moved s (snd (xu_static_stream_read_u1 s))" by (rule read_fixed_moved(1) [OF s])
    have "snd (xu_static_stream_writ_u1 s b)
        = (snd (xu_static_stream_read_u1 s))\<lparr>smem := put_bytes (smem s) (sp s) [c]\<rparr>"
      using True len unfolding xu_static_stream_writ_u1_def xu_static_stream_read_u1_def c_def Let_def
      by (simp add: update_is_put)
    then show ?thesis using put_confined [OF s r, of "[c]"] True by simp
  qed (use refl in \<open>simp add: xu_static_stream_writ_u1_def\<close>)
qed

lemma step_confined:
  assumes "stream_step s s'" and "in_buffer s"
  shows "confined s s'"
  using assms
proof (induction rule: stream_step.induct)
  case (peek_ubits32 s n v s')
  then show ?case using peek_moved(1) moved_confined [OF moved_refl] by blast
next
  case (peek_sbits32 s n v s')
  then show ?case using peek_moved(2) moved_confined [OF moved_refl] by blast
qed (blast intro: moved_confined goto_moved sync_moved [THEN conjunct1] query_moved skip_moved skip_bits_moved
    read_cstr_moved read_data_moved read_bits_moved read_fixed_moved writ_data_confined writ_cstr_confined
    writ_bits_confined writ_fixed_confined)+



text \<open>Without those conditions the buffer is overrun, when its memory ends with the stream: a bit
  field of up to 32 bits that is longer than the rest is read and written behind the end before the position is
  checked, and a string written at the end stores its final zero behind it.\<close>

theorem xu_static_stream_overruns:
  assumes "in_buffer s" and "length (smem s) = se s"
  shows "(sp s < se s \<and> n \<le> 32 \<and> xu_static_stream_left_bits s < n
      \<longrightarrow> xu_static_stream_read_ubits32 s n = None \<and> xu_static_stream_writ_ubits32 s v n = None)
    \<and> (sp s = se s \<longrightarrow> xu_static_stream_writ_cstr s cs = None)"
proof (intro conjI impI)
  have ok: "sb s < 8" "sp s = se s \<Longrightarrow> sb s = 0" using assms(1) by (auto simp: in_buffer_def stream_ok_def)
  have out: "xu_static_stream_read_ubits32 s n = None \<and> xu_static_stream_writ_ubits32 s v n = None"
    if p: "sp s < se s \<and> n \<le> 32 \<and> xu_static_stream_left_bits s < n"
  proof -
    have "8 * (se s - sp s) < sb s + n" using p by (auto simp: xu_static_stream_left_bits_def)
    then have "se s < sp s + (sb s + n + 7) div 8" using p by linarith
    then have "\<not> mem_ok (smem s) (sp s + sb s div 8) ((sb s mod 8 + n + 7) div 8)"
      using ok(1) assms(2) by (simp add: mem_ok_def)
    then show ?thesis using p
      by (simp add: xu_static_stream_read_ubits32_def xu_static_stream_writ_ubits32_def
          xu_bits_get_ubits32_def xu_bits_set_ubits32_def Let_def)
  qed
  then show "xu_static_stream_read_ubits32 s n = None" "xu_static_stream_writ_ubits32 s v n = None"
    if "sp s < se s \<and> n \<le> 32 \<and> xu_static_stream_left_bits s < n" using that by simp_all
  show "xu_static_stream_writ_cstr s cs = None" if e: "sp s = se s"
  proof -
    have "\<not> se s < se s - 1" by simp
    then have l: "writ_cstr_loop (smem s) (se s) (se s - 1) cs = (smem s, se s, cs)" by (cases cs) simp_all
    show ?thesis
      using e ok(2) assms(2) l by (simp add: xu_static_stream_writ_cstr_def xu_static_stream_sync_def mem_ok_def)
  qed
qed

theorem xu_static_stream_overruns_witness:
  "xu_static_stream_read_ubits32 (xu_static_stream_init [1, 2] 0 2) 17 = None
    \<and> xu_static_stream_writ_ubits32 (xu_static_stream_init [1, 2] 0 2) 5 17 = None
    \<and> xu_static_stream_writ_cstr (xu_static_stream_init [1, 2] 2 0) [] = None"
  using xu_static_stream_overruns [of "xu_static_stream_init [1, 2] 0 2" 17 5]
    xu_static_stream_overruns [of "xu_static_stream_init [1, 2] 2 0" _ _ "[]"]
  by (simp add: xu_static_stream_init_def in_buffer_def stream_ok_def xu_static_stream_left_bits_def)

end
