(* ===== verification/XListEntry.thy ===== *)
theory XListEntry
  imports XSearch
begin

text \<open>
  \<^verbatim>\<open>xutil/container/list_entry.h\<close> and \<^verbatim>\<open>list_entry.c\<close>: the intrusive circular list with
  two links, and \<^verbatim>\<open>single_list_entry.h\<close> and \<^verbatim>\<open>single_list_entry.c\<close>, the one with a single
  link and a pointer to its last entry. An address is a natural number, 0 is the null pointer,
  and a list head is an entry itself, at the address of the list. The store gives the links of
  every entry and the size of every head.
\<close>

section \<open>Two links\<close>

record links =
  nx :: "nat \<Rightarrow> nat"
  pv :: "nat \<Rightarrow> nat"
  sz :: "nat \<Rightarrow> nat"

definition set_nx :: "nat \<Rightarrow> nat \<Rightarrow> links \<Rightarrow> links" where
  "set_nx a b s = s\<lparr>nx := (nx s)(a := b)\<rparr>"

definition set_pv :: "nat \<Rightarrow> nat \<Rightarrow> links \<Rightarrow> links" where
  "set_pv a b s = s\<lparr>pv := (pv s)(a := b)\<rparr>"

definition set_sz :: "nat \<Rightarrow> nat \<Rightarrow> links \<Rightarrow> links" where
  "set_sz a n s = s\<lparr>sz := (sz s)(a := n)\<rparr>"

definition xu_list_entry_clear :: "links \<Rightarrow> nat \<Rightarrow> links" where
  "xu_list_entry_clear s list = set_sz list 0 (set_pv list list (set_nx list list s))"

definition xu_list_entry_init :: "links \<Rightarrow> nat \<Rightarrow> links" where
  "xu_list_entry_init s list = set_sz list 0 (set_pv list list (set_nx list list s))"

definition xu_list_entry_exit :: "links \<Rightarrow> nat \<Rightarrow> links" where
  "xu_list_entry_exit s list = set_sz list 0 (set_pv list list (set_nx list list s))"

definition xu_list_entry_size :: "links \<Rightarrow> nat \<Rightarrow> nat" where
  "xu_list_entry_size s list = sz s list"

definition xu_list_entry_next :: "links \<Rightarrow> nat \<Rightarrow> nat" where
  "xu_list_entry_next s entry = nx s entry"

definition xu_list_entry_prev :: "links \<Rightarrow> nat \<Rightarrow> nat" where
  "xu_list_entry_prev s entry = pv s entry"

definition xu_list_entry_head :: "links \<Rightarrow> nat \<Rightarrow> nat" where
  "xu_list_entry_head s list = nx s list"

definition xu_list_entry_last :: "links \<Rightarrow> nat \<Rightarrow> nat" where
  "xu_list_entry_last s list = pv s list"

definition xu_list_entry_tail :: "links \<Rightarrow> nat \<Rightarrow> nat" where
  "xu_list_entry_tail s list = list"

definition xu_list_entry_is_null :: "links \<Rightarrow> nat \<Rightarrow> bool" where
  "xu_list_entry_is_null s list \<longleftrightarrow> sz s list = 0"

definition xu_list_entry_is_head :: "links \<Rightarrow> nat \<Rightarrow> nat \<Rightarrow> bool" where
  "xu_list_entry_is_head s list entry \<longleftrightarrow> nx s list = entry"

definition xu_list_entry_is_last :: "links \<Rightarrow> nat \<Rightarrow> nat \<Rightarrow> bool" where
  "xu_list_entry_is_last s list entry \<longleftrightarrow> pv s list = entry"

definition xu_list_entry_is_valid :: "links \<Rightarrow> nat \<Rightarrow> bool" where
  "xu_list_entry_is_valid s list \<longleftrightarrow>
     (nx s list \<noteq> 0 \<and> pv s (nx s list) = list) \<and> (pv s list \<noteq> 0 \<and> nx s (pv s list) = list)"

definition xu_list_entry_splice :: "links \<Rightarrow> nat \<Rightarrow> nat \<Rightarrow> nat \<Rightarrow> nat \<Rightarrow> links" where
  "xu_list_entry_splice s list prev next spliced =
     (if xu_list_entry_is_null s spliced then s
      else let s = set_pv (nx s spliced) prev s;
               s = set_nx prev (nx s spliced) s;
               s = set_nx (pv s spliced) next s;
               s = set_pv next (pv s spliced) s;
               s = set_sz list (sz s list + sz s spliced) s
           in xu_list_entry_clear s spliced)"

definition xu_list_entry_splice_head :: "links \<Rightarrow> nat \<Rightarrow> nat \<Rightarrow> links" where
  "xu_list_entry_splice_head s list spliced = xu_list_entry_splice s list list (nx s list) spliced"

definition xu_list_entry_splice_tail :: "links \<Rightarrow> nat \<Rightarrow> nat \<Rightarrow> links" where
  "xu_list_entry_splice_tail s list spliced = xu_list_entry_splice s list (pv s list) list spliced"

definition xu_list_entry_insert_next :: "links \<Rightarrow> nat \<Rightarrow> nat \<Rightarrow> nat \<Rightarrow> links" where
  "xu_list_entry_insert_next s list node entry =
     (let s = set_pv (nx s node) entry s;
          s = set_nx entry (nx s node) s;
          s = set_pv entry node s;
          s = set_nx node entry s
      in set_sz list (sz s list + 1) s)"

definition xu_list_entry_insert_prev :: "links \<Rightarrow> nat \<Rightarrow> nat \<Rightarrow> nat \<Rightarrow> links" where
  "xu_list_entry_insert_prev s list node entry = xu_list_entry_insert_next s list (pv s node) entry"

definition xu_list_entry_insert_head :: "links \<Rightarrow> nat \<Rightarrow> nat \<Rightarrow> links" where
  "xu_list_entry_insert_head s list entry = xu_list_entry_insert_next s list list entry"

definition xu_list_entry_insert_tail :: "links \<Rightarrow> nat \<Rightarrow> nat \<Rightarrow> links" where
  "xu_list_entry_insert_tail s list entry = xu_list_entry_insert_next s list (pv s list) entry"

definition xu_list_entry_replace :: "links \<Rightarrow> nat \<Rightarrow> nat \<Rightarrow> nat \<Rightarrow> links" where
  "xu_list_entry_replace s list node entry =
     (let s = set_nx entry (nx s node) s;
          s = set_pv (nx s entry) entry s;
          s = set_pv entry (pv s node) s
      in set_nx (pv s entry) entry s)"

definition xu_list_entry_replace_next :: "links \<Rightarrow> nat \<Rightarrow> nat \<Rightarrow> nat \<Rightarrow> links" where
  "xu_list_entry_replace_next s list node entry = xu_list_entry_replace s list (nx s node) entry"

definition xu_list_entry_replace_prev :: "links \<Rightarrow> nat \<Rightarrow> nat \<Rightarrow> nat \<Rightarrow> links" where
  "xu_list_entry_replace_prev s list node entry = xu_list_entry_replace s list (pv s node) entry"

definition xu_list_entry_replace_head :: "links \<Rightarrow> nat \<Rightarrow> nat \<Rightarrow> links" where
  "xu_list_entry_replace_head s list entry = xu_list_entry_replace s list (nx s list) entry"

definition xu_list_entry_replace_last :: "links \<Rightarrow> nat \<Rightarrow> nat \<Rightarrow> links" where
  "xu_list_entry_replace_last s list entry = xu_list_entry_replace s list (pv s list) entry"

text \<open>\<open>xu_list_entry_remove_\<close> with a trailing underscore in the source.\<close>

definition list_entry_unlink :: "links \<Rightarrow> nat \<Rightarrow> nat \<Rightarrow> nat \<Rightarrow> links" where
  "list_entry_unlink s list prev next =
     (let s = set_nx prev next s; s = set_pv next prev s in set_sz list (sz s list - 1) s)"

definition xu_list_entry_remove :: "links \<Rightarrow> nat \<Rightarrow> nat \<Rightarrow> links" where
  "xu_list_entry_remove s list entry = list_entry_unlink s list (pv s entry) (nx s entry)"

definition xu_list_entry_remove_next :: "links \<Rightarrow> nat \<Rightarrow> nat \<Rightarrow> links" where
  "xu_list_entry_remove_next s list prev = list_entry_unlink s list prev (nx s (nx s prev))"

definition xu_list_entry_remove_prev :: "links \<Rightarrow> nat \<Rightarrow> nat \<Rightarrow> links" where
  "xu_list_entry_remove_prev s list next = list_entry_unlink s list (pv s (pv s next)) next"

definition xu_list_entry_remove_head :: "links \<Rightarrow> nat \<Rightarrow> links" where
  "xu_list_entry_remove_head s list = list_entry_unlink s list list (nx s (nx s list))"

definition xu_list_entry_remove_last :: "links \<Rightarrow> nat \<Rightarrow> links" where
  "xu_list_entry_remove_last s list = list_entry_unlink s list (pv s (pv s list)) list"

definition xu_list_entry_moveto_next :: "links \<Rightarrow> nat \<Rightarrow> nat \<Rightarrow> nat \<Rightarrow> links" where
  "xu_list_entry_moveto_next s list node entry =
     (if node = entry then s
      else xu_list_entry_insert_next (xu_list_entry_remove s list entry) list node entry)"

definition xu_list_entry_moveto_prev :: "links \<Rightarrow> nat \<Rightarrow> nat \<Rightarrow> nat \<Rightarrow> links" where
  "xu_list_entry_moveto_prev s list node entry = xu_list_entry_moveto_next s list (pv s node) entry"

definition xu_list_entry_moveto_head :: "links \<Rightarrow> nat \<Rightarrow> nat \<Rightarrow> links" where
  "xu_list_entry_moveto_head s list entry = xu_list_entry_moveto_next s list list entry"

definition xu_list_entry_moveto_tail :: "links \<Rightarrow> nat \<Rightarrow> nat \<Rightarrow> links" where
  "xu_list_entry_moveto_tail s list entry = xu_list_entry_moveto_next s list (pv s list) entry"

definition xu_list_entry_itor_nremove :: "links \<Rightarrow> nat \<Rightarrow> nat \<Rightarrow> nat \<Rightarrow> nat \<Rightarrow> links" where
  "xu_list_entry_itor_nremove s list prev next n =
     (if n = 0 then s
      else let s = set_nx prev next s; s = set_pv next prev s in set_sz list (sz s list - n) s)"

section \<open>One link\<close>

record slinks =
  snx :: "nat \<Rightarrow> nat"
  slast :: "nat \<Rightarrow> nat"
  ssz :: "nat \<Rightarrow> nat"

definition set_snx :: "nat \<Rightarrow> nat \<Rightarrow> slinks \<Rightarrow> slinks" where
  "set_snx a b s = s\<lparr>snx := (snx s)(a := b)\<rparr>"

definition set_slast :: "nat \<Rightarrow> nat \<Rightarrow> slinks \<Rightarrow> slinks" where
  "set_slast a b s = s\<lparr>slast := (slast s)(a := b)\<rparr>"

definition set_ssz :: "nat \<Rightarrow> nat \<Rightarrow> slinks \<Rightarrow> slinks" where
  "set_ssz a n s = s\<lparr>ssz := (ssz s)(a := n)\<rparr>"

definition xu_single_list_entry_clear :: "slinks \<Rightarrow> nat \<Rightarrow> slinks" where
  "xu_single_list_entry_clear s list = set_ssz list 0 (set_slast list 0 (set_snx list 0 s))"

definition xu_single_list_entry_init :: "slinks \<Rightarrow> nat \<Rightarrow> slinks" where
  "xu_single_list_entry_init s list = set_ssz list 0 (set_slast list 0 (set_snx list 0 s))"

definition xu_single_list_entry_exit :: "slinks \<Rightarrow> nat \<Rightarrow> slinks" where
  "xu_single_list_entry_exit s list = set_ssz list 0 (set_slast list 0 (set_snx list 0 s))"

definition xu_single_list_entry_size :: "slinks \<Rightarrow> nat \<Rightarrow> nat" where
  "xu_single_list_entry_size s list = ssz s list"

definition xu_single_list_entry_next :: "slinks \<Rightarrow> nat \<Rightarrow> nat" where
  "xu_single_list_entry_next s entry = snx s entry"

definition xu_single_list_entry_head :: "slinks \<Rightarrow> nat \<Rightarrow> nat" where
  "xu_single_list_entry_head s list = snx s list"

definition xu_single_list_entry_last :: "slinks \<Rightarrow> nat \<Rightarrow> nat" where
  "xu_single_list_entry_last s list = slast s list"

definition xu_single_list_entry_tail :: "slinks \<Rightarrow> nat \<Rightarrow> nat" where
  "xu_single_list_entry_tail s list = 0"

definition xu_single_list_entry_is_null :: "slinks \<Rightarrow> nat \<Rightarrow> bool" where
  "xu_single_list_entry_is_null s list \<longleftrightarrow> ssz s list = 0"

definition xu_single_list_entry_is_head :: "slinks \<Rightarrow> nat \<Rightarrow> nat \<Rightarrow> bool" where
  "xu_single_list_entry_is_head s list entry \<longleftrightarrow> snx s list = entry"

definition xu_single_list_entry_is_last :: "slinks \<Rightarrow> nat \<Rightarrow> nat \<Rightarrow> bool" where
  "xu_single_list_entry_is_last s list entry \<longleftrightarrow> slast s list = entry"

definition xu_single_list_entry_insert_next :: "slinks \<Rightarrow> nat \<Rightarrow> nat \<Rightarrow> nat \<Rightarrow> slinks" where
  "xu_single_list_entry_insert_next s list node entry =
     (let s = (if node = slast s list \<or> snx s list = 0 then set_slast list entry s else s);
          s = set_snx entry (snx s node) s;
          s = set_snx node entry s
      in set_ssz list (ssz s list + 1) s)"

definition xu_single_list_entry_insert_head :: "slinks \<Rightarrow> nat \<Rightarrow> nat \<Rightarrow> slinks" where
  "xu_single_list_entry_insert_head s list entry = xu_single_list_entry_insert_next s list list entry"

definition xu_single_list_entry_insert_tail :: "slinks \<Rightarrow> nat \<Rightarrow> nat \<Rightarrow> slinks" where
  "xu_single_list_entry_insert_tail s list entry =
     (if slast s list \<noteq> 0 then xu_single_list_entry_insert_next s list (slast s list) entry
      else xu_single_list_entry_insert_head s list entry)"

definition xu_single_list_entry_replace_next :: "slinks \<Rightarrow> nat \<Rightarrow> nat \<Rightarrow> nat \<Rightarrow> slinks" where
  "xu_single_list_entry_replace_next s list node entry =
     (let s = (if snx s node = slast s list then set_slast list entry s else s);
          s = set_snx entry (snx s (snx s node)) s
      in set_snx node entry s)"

definition xu_single_list_entry_replace_head :: "slinks \<Rightarrow> nat \<Rightarrow> nat \<Rightarrow> slinks" where
  "xu_single_list_entry_replace_head s list entry = xu_single_list_entry_replace_next s list list entry"

definition single_list_entry_unlink :: "slinks \<Rightarrow> nat \<Rightarrow> nat \<Rightarrow> nat \<Rightarrow> slinks" where
  "single_list_entry_unlink s list prev next =
     (let s = (if snx s prev = slast s list then set_slast list prev s else s);
          s = set_snx prev next s
      in set_ssz list (ssz s list - 1) s)"

definition xu_single_list_entry_remove_next :: "slinks \<Rightarrow> nat \<Rightarrow> nat \<Rightarrow> slinks" where
  "xu_single_list_entry_remove_next s list prev = single_list_entry_unlink s list prev (snx s (snx s prev))"

definition xu_single_list_entry_remove_head :: "slinks \<Rightarrow> nat \<Rightarrow> slinks" where
  "xu_single_list_entry_remove_head s list = single_list_entry_unlink s list list (snx s (snx s list))"

definition xu_single_list_entry_itor_nremove :: "slinks \<Rightarrow> nat \<Rightarrow> nat \<Rightarrow> nat \<Rightarrow> nat \<Rightarrow> slinks" where
  "xu_single_list_entry_itor_nremove s list prev next n =
     (if n = 0 then s else let s = set_snx prev next s in set_ssz list (ssz s list - n) s)"

end
