(* ===== verification/XList.thy ===== *)
theory XList
  imports XListEntry
begin

text \<open>
  \<^verbatim>\<open>xutil/container/list.c\<close> and \<^verbatim>\<open>single_list.c\<close>: lists of element items over the intrusive
  lists. A node is an entry with the data of its item behind it, taken from a pool of nodes of
  one size. The pool is the list of the addresses it has handed out; the address it hands out
  next is an argument, none when it has no memory. An iterator position is the address of a node.
\<close>

section \<open>The list with two links\<close>

definition XU_LIST_MAXN :: nat where
  "XU_LIST_MAXN = 2 ^ 30"

record xlist =
  l_head :: nat
  l_links :: links
  l_data :: "nat \<Rightarrow> u64 list"
  l_pool :: "nat list"
  l_elem :: element

definition xu_list_init :: "links \<Rightarrow> (nat \<Rightarrow> u64 list) \<Rightarrow> nat \<Rightarrow> element \<Rightarrow> xlist" where
  "xu_list_init s d head el =
     \<lparr>l_head = head, l_links = xu_list_entry_init s head, l_data = d, l_pool = [], l_elem = el\<rparr>"

definition xu_list_size :: "xlist \<Rightarrow> nat" where
  "xu_list_size l = xu_list_entry_size (l_links l) (l_head l)"

definition xu_list_maxn :: "xlist \<Rightarrow> nat" where
  "xu_list_maxn l = XU_LIST_MAXN"

definition xu_list_itor_size :: "xlist \<Rightarrow> nat" where
  "xu_list_itor_size l = xu_list_size l"

definition xu_list_itor_head :: "xlist \<Rightarrow> nat" where
  "xu_list_itor_head l = xu_list_entry_head (l_links l) (l_head l)"

definition xu_list_itor_last :: "xlist \<Rightarrow> nat" where
  "xu_list_itor_last l = xu_list_entry_last (l_links l) (l_head l)"

definition xu_list_itor_tail :: "xlist \<Rightarrow> nat" where
  "xu_list_itor_tail l = xu_list_entry_tail (l_links l) (l_head l)"

definition xu_list_itor_next :: "xlist \<Rightarrow> nat \<Rightarrow> nat" where
  "xu_list_itor_next l itor = xu_list_entry_next (l_links l) itor"

definition xu_list_itor_prev :: "xlist \<Rightarrow> nat \<Rightarrow> nat" where
  "xu_list_itor_prev l itor = xu_list_entry_prev (l_links l) itor"

definition xu_list_itor_item :: "xlist \<Rightarrow> nat \<Rightarrow> u64" where
  "xu_list_itor_item l itor = el_data (l_elem l) (l_data l itor) 0"

definition xu_list_itor_copy :: "xlist \<Rightarrow> nat \<Rightarrow> u64 \<Rightarrow> xlist" where
  "xu_list_itor_copy l itor item =
     l\<lparr>l_data := (l_data l)(itor := el_copy (l_elem l) (l_data l itor) 0 item)\<rparr>"

definition xu_list_itor_comp :: "xlist \<Rightarrow> u64 \<Rightarrow> u64 \<Rightarrow> int" where
  "xu_list_itor_comp l litem ritem = el_comp (l_elem l) litem ritem"

text \<open>The pool calls \<open>xu_list_item_exit\<close> for a node that is given back.\<close>

definition xu_list_item_exit :: "xlist \<Rightarrow> nat \<Rightarrow> xlist" where
  "xu_list_item_exit l node =
     (case el_free (l_elem l) of
        None \<Rightarrow> l
      | Some free \<Rightarrow> l\<lparr>l_data := (l_data l)(node := free (l_data l node) 0)\<rparr>)"

definition list_pool_free :: "xlist \<Rightarrow> nat \<Rightarrow> xlist" where
  "list_pool_free l node = (xu_list_item_exit l node)\<lparr>l_pool := remove1 node (l_pool l)\<rparr>"

definition list_pool_clear :: "xlist \<Rightarrow> xlist" where
  "list_pool_clear l = (foldl xu_list_item_exit l (l_pool l))\<lparr>l_pool := []\<rparr>"

definition xu_list_clear :: "xlist \<Rightarrow> xlist" where
  "xu_list_clear l =
     (let l = list_pool_clear l in l\<lparr>l_links := xu_list_entry_clear (l_links l) (l_head l)\<rparr>)"

definition xu_list_head :: "xlist \<Rightarrow> u64" where
  "xu_list_head l = xu_list_itor_item l (xu_list_itor_head l)"

definition xu_list_last :: "xlist \<Rightarrow> u64" where
  "xu_list_last l = xu_list_itor_item l (xu_list_itor_last l)"

definition xu_list_insert_prev :: "xlist \<Rightarrow> nat option \<Rightarrow> nat \<Rightarrow> u64 \<Rightarrow> nat \<times> xlist" where
  "xu_list_insert_prev l alloc itor data =
     (if \<not> xu_list_size l < xu_list_maxn l then (xu_list_itor_tail l, l)
      else if itor = 0 then (xu_list_itor_tail l, l)
      else case alloc of
        None \<Rightarrow> (xu_list_itor_tail l, l)
      | Some entry \<Rightarrow>
          (entry, l\<lparr>l_pool := entry # l_pool l,
                    l_data := (l_data l)(entry := el_dupl (l_elem l) (l_data l entry) 0 data),
                    l_links := xu_list_entry_insert_prev (l_links l) (l_head l) itor entry\<rparr>))"

definition xu_list_insert_next :: "xlist \<Rightarrow> nat option \<Rightarrow> nat \<Rightarrow> u64 \<Rightarrow> nat \<times> xlist" where
  "xu_list_insert_next l alloc itor data = xu_list_insert_prev l alloc (xu_list_itor_next l itor) data"

definition xu_list_insert_head :: "xlist \<Rightarrow> nat option \<Rightarrow> u64 \<Rightarrow> nat \<times> xlist" where
  "xu_list_insert_head l alloc data = xu_list_insert_prev l alloc (xu_list_itor_head l) data"

definition xu_list_insert_tail :: "xlist \<Rightarrow> nat option \<Rightarrow> u64 \<Rightarrow> nat \<times> xlist" where
  "xu_list_insert_tail l alloc data = xu_list_insert_prev l alloc (xu_list_itor_tail l) data"

definition xu_list_replace :: "xlist \<Rightarrow> nat \<Rightarrow> u64 \<Rightarrow> xlist" where
  "xu_list_replace l itor data =
     (if itor = 0 then l
      else l\<lparr>l_data := (l_data l)(itor := el_repl (l_elem l) (l_data l itor) 0 data)\<rparr>)"

definition xu_list_replace_head :: "xlist \<Rightarrow> u64 \<Rightarrow> xlist" where
  "xu_list_replace_head l data = xu_list_replace l (xu_list_itor_head l) data"

definition xu_list_replace_last :: "xlist \<Rightarrow> u64 \<Rightarrow> xlist" where
  "xu_list_replace_last l data = xu_list_replace l (xu_list_itor_last l) data"

definition xu_list_remove :: "xlist \<Rightarrow> nat \<Rightarrow> nat \<times> xlist" where
  "xu_list_remove l itor =
     (if itor = 0 then (0, l)
      else let next = xu_list_entry_next (l_links l) itor;
               l = l\<lparr>l_links := xu_list_entry_remove (l_links l) (l_head l) itor\<rparr>
           in (next, list_pool_free l itor))"

definition xu_list_remove_head :: "xlist \<Rightarrow> xlist" where
  "xu_list_remove_head l = snd (xu_list_remove l (xu_list_itor_head l))"

definition xu_list_remove_last :: "xlist \<Rightarrow> xlist" where
  "xu_list_remove_last l = snd (xu_list_remove l (xu_list_itor_last l))"

definition xu_list_moveto_prev :: "xlist \<Rightarrow> nat \<Rightarrow> nat \<Rightarrow> xlist" where
  "xu_list_moveto_prev l itor move =
     (if move = 0 \<or> itor = 0 then l
      else l\<lparr>l_links := xu_list_entry_moveto_prev (l_links l) (l_head l) itor move\<rparr>)"

definition xu_list_moveto_next :: "xlist \<Rightarrow> nat \<Rightarrow> nat \<Rightarrow> xlist" where
  "xu_list_moveto_next l itor move = xu_list_moveto_prev l (xu_list_itor_next l itor) move"

definition xu_list_moveto_head :: "xlist \<Rightarrow> nat \<Rightarrow> xlist" where
  "xu_list_moveto_head l move = xu_list_moveto_prev l (xu_list_itor_head l) move"

definition xu_list_moveto_tail :: "xlist \<Rightarrow> nat \<Rightarrow> xlist" where
  "xu_list_moveto_tail l move = xu_list_moveto_prev l (xu_list_itor_tail l) move"

definition xu_list_itor_remove :: "xlist \<Rightarrow> nat \<Rightarrow> xlist" where
  "xu_list_itor_remove l itor = snd (xu_list_remove l itor)"

fun list_nremove_body :: "xlist \<Rightarrow> nat \<Rightarrow> nat \<Rightarrow> nat \<Rightarrow> xlist" where
  "list_nremove_body l itor next 0 = l"
| "list_nremove_body l itor next (Suc n) =
     (if itor \<noteq> next then case xu_list_remove l itor of (itor, l) \<Rightarrow> list_nremove_body l itor next n else l)"

definition xu_list_itor_nremove :: "xlist \<Rightarrow> nat \<Rightarrow> nat \<Rightarrow> nat \<Rightarrow> xlist" where
  "xu_list_itor_nremove l prev next n =
     (if n = 0 \<or> xu_list_size l = 0 then l
      else let n = (if n > xu_list_size l then xu_list_size l else n) in
        if prev \<noteq> 0 then list_nremove_body l (xu_list_itor_next l prev) next n
        else (xu_list_remove_head ^^ n) l)"

definition list_op :: "(xlist, u64) iterator_op" where
  "list_op =
     \<lparr>op_mode = XU_ITERATOR_MODE_FORWARD OR XU_ITERATOR_MODE_REVERSE, op_head = xu_list_itor_head,
      op_tail = xu_list_itor_tail, op_next = xu_list_itor_next, op_item = xu_list_itor_item,
      op_remove = xu_list_itor_remove, op_nremove = xu_list_itor_nremove\<rparr>"

section \<open>The list with one link\<close>

definition XU_SINGLE_LIST_MAXN :: nat where
  "XU_SINGLE_LIST_MAXN = 2 ^ 30"

record xsingle =
  s_head :: nat
  s_links :: slinks
  s_data :: "nat \<Rightarrow> u64 list"
  s_pool :: "nat list"
  s_elem :: element

definition xu_single_list_init :: "slinks \<Rightarrow> (nat \<Rightarrow> u64 list) \<Rightarrow> nat \<Rightarrow> element \<Rightarrow> xsingle" where
  "xu_single_list_init s d head el =
     \<lparr>s_head = head, s_links = xu_single_list_entry_init s head, s_data = d, s_pool = [], s_elem = el\<rparr>"

definition xu_single_list_size :: "xsingle \<Rightarrow> nat" where
  "xu_single_list_size l = xu_single_list_entry_size (s_links l) (s_head l)"

definition xu_single_list_maxn :: "xsingle \<Rightarrow> nat" where
  "xu_single_list_maxn l = XU_SINGLE_LIST_MAXN"

definition xu_single_list_itor_size :: "xsingle \<Rightarrow> nat" where
  "xu_single_list_itor_size l = xu_single_list_size l"

definition xu_single_list_itor_head :: "xsingle \<Rightarrow> nat" where
  "xu_single_list_itor_head l = xu_single_list_entry_head (s_links l) (s_head l)"

definition xu_single_list_itor_last :: "xsingle \<Rightarrow> nat" where
  "xu_single_list_itor_last l = xu_single_list_entry_last (s_links l) (s_head l)"

definition xu_single_list_itor_tail :: "xsingle \<Rightarrow> nat" where
  "xu_single_list_itor_tail l = xu_single_list_entry_tail (s_links l) (s_head l)"

definition xu_single_list_itor_next :: "xsingle \<Rightarrow> nat \<Rightarrow> nat" where
  "xu_single_list_itor_next l itor = xu_single_list_entry_next (s_links l) itor"

definition xu_single_list_itor_item :: "xsingle \<Rightarrow> nat \<Rightarrow> u64" where
  "xu_single_list_itor_item l itor = el_data (s_elem l) (s_data l itor) 0"

definition xu_single_list_itor_copy :: "xsingle \<Rightarrow> nat \<Rightarrow> u64 \<Rightarrow> xsingle" where
  "xu_single_list_itor_copy l itor item =
     l\<lparr>s_data := (s_data l)(itor := el_copy (s_elem l) (s_data l itor) 0 item)\<rparr>"

definition xu_single_list_itor_comp :: "xsingle \<Rightarrow> u64 \<Rightarrow> u64 \<Rightarrow> int" where
  "xu_single_list_itor_comp l litem ritem = el_comp (s_elem l) litem ritem"

definition xu_single_list_item_exit :: "xsingle \<Rightarrow> nat \<Rightarrow> xsingle" where
  "xu_single_list_item_exit l node =
     (case el_free (s_elem l) of
        None \<Rightarrow> l
      | Some free \<Rightarrow> l\<lparr>s_data := (s_data l)(node := free (s_data l node) 0)\<rparr>)"

definition single_pool_free :: "xsingle \<Rightarrow> nat \<Rightarrow> xsingle" where
  "single_pool_free l node = (xu_single_list_item_exit l node)\<lparr>s_pool := remove1 node (s_pool l)\<rparr>"

definition single_pool_clear :: "xsingle \<Rightarrow> xsingle" where
  "single_pool_clear l = (foldl xu_single_list_item_exit l (s_pool l))\<lparr>s_pool := []\<rparr>"

definition xu_single_list_clear :: "xsingle \<Rightarrow> xsingle" where
  "xu_single_list_clear l =
     (let l = single_pool_clear l in l\<lparr>s_links := xu_single_list_entry_clear (s_links l) (s_head l)\<rparr>)"

definition xu_single_list_head :: "xsingle \<Rightarrow> u64" where
  "xu_single_list_head l = xu_single_list_itor_item l (xu_single_list_itor_head l)"

definition xu_single_list_last :: "xsingle \<Rightarrow> u64" where
  "xu_single_list_last l = xu_single_list_itor_item l (xu_single_list_itor_last l)"

text \<open>A new node with its data, before it is linked.\<close>

definition single_node :: "xsingle \<Rightarrow> nat \<Rightarrow> u64 \<Rightarrow> xsingle" where
  "single_node l entry data =
     l\<lparr>s_pool := entry # s_pool l,
       s_data := (s_data l)(entry := el_dupl (s_elem l) (s_data l entry) 0 data)\<rparr>"

definition xu_single_list_insert_next :: "xsingle \<Rightarrow> nat option \<Rightarrow> nat \<Rightarrow> u64 \<Rightarrow> nat \<times> xsingle" where
  "xu_single_list_insert_next l alloc itor data =
     (if \<not> xu_single_list_size l < xu_single_list_maxn l then (xu_single_list_itor_tail l, l)
      else if itor = 0 then (xu_single_list_itor_tail l, l)
      else case alloc of
        None \<Rightarrow> (xu_single_list_itor_tail l, l)
      | Some entry \<Rightarrow>
          (entry, (single_node l entry data)
             \<lparr>s_links := xu_single_list_entry_insert_next (s_links l) (s_head l) itor entry\<rparr>))"

definition xu_single_list_insert_head :: "xsingle \<Rightarrow> nat option \<Rightarrow> u64 \<Rightarrow> nat \<times> xsingle" where
  "xu_single_list_insert_head l alloc data =
     (if \<not> xu_single_list_size l < xu_single_list_maxn l then (xu_single_list_itor_tail l, l)
      else case alloc of
        None \<Rightarrow> (xu_single_list_itor_tail l, l)
      | Some entry \<Rightarrow>
          (entry, (single_node l entry data)
             \<lparr>s_links := xu_single_list_entry_insert_head (s_links l) (s_head l) entry\<rparr>))"

definition xu_single_list_insert_tail :: "xsingle \<Rightarrow> nat option \<Rightarrow> u64 \<Rightarrow> nat \<times> xsingle" where
  "xu_single_list_insert_tail l alloc data =
     (if \<not> xu_single_list_size l < xu_single_list_maxn l then (xu_single_list_itor_tail l, l)
      else case alloc of
        None \<Rightarrow> (xu_single_list_itor_tail l, l)
      | Some entry \<Rightarrow>
          (entry, (single_node l entry data)
             \<lparr>s_links := xu_single_list_entry_insert_tail (s_links l) (s_head l) entry\<rparr>))"

definition xu_single_list_replace :: "xsingle \<Rightarrow> nat \<Rightarrow> u64 \<Rightarrow> xsingle" where
  "xu_single_list_replace l itor data =
     (if itor = 0 then l
      else l\<lparr>s_data := (s_data l)(itor := el_repl (s_elem l) (s_data l itor) 0 data)\<rparr>)"

definition xu_single_list_replace_head :: "xsingle \<Rightarrow> u64 \<Rightarrow> xsingle" where
  "xu_single_list_replace_head l data = xu_single_list_replace l (xu_single_list_itor_head l) data"

definition xu_single_list_replace_last :: "xsingle \<Rightarrow> u64 \<Rightarrow> xsingle" where
  "xu_single_list_replace_last l data = xu_single_list_replace l (xu_single_list_itor_last l) data"

definition xu_single_list_remove_next :: "xsingle \<Rightarrow> nat \<Rightarrow> xsingle" where
  "xu_single_list_remove_next l itor =
     (if itor = 0 then l
      else let next = xu_single_list_entry_next (s_links l) itor in
        if next = 0 then l
        else single_pool_free (l\<lparr>s_links := xu_single_list_entry_remove_next (s_links l) (s_head l) itor\<rparr>) next)"

definition xu_single_list_remove_head :: "xsingle \<Rightarrow> xsingle" where
  "xu_single_list_remove_head l =
     (let node = xu_single_list_entry_head (s_links l) (s_head l) in
      if node = 0 then l
      else single_pool_free (l\<lparr>s_links := xu_single_list_entry_remove_head (s_links l) (s_head l)\<rparr>) node)"

fun single_nremove_body :: "xsingle \<Rightarrow> nat \<Rightarrow> nat \<Rightarrow> bool \<Rightarrow> nat \<Rightarrow> xsingle" where
  "single_nremove_body l prev next fin 0 = l"
| "single_nremove_body l prev next fin (Suc n) =
     (if \<not> fin then
        let fin = (xu_single_list_itor_next l prev = next)
        in single_nremove_body (xu_single_list_remove_next l prev) prev next fin n
      else l)"

definition xu_single_list_itor_nremove :: "xsingle \<Rightarrow> nat \<Rightarrow> nat \<Rightarrow> nat \<Rightarrow> xsingle" where
  "xu_single_list_itor_nremove l prev next n =
     (if n = 0 \<or> xu_single_list_size l = 0 then l
      else let n = (if n > xu_single_list_size l then xu_single_list_size l else n) in
        if prev \<noteq> 0 then single_nremove_body l prev next False n
        else (xu_single_list_remove_head ^^ n) l)"

text \<open>The operation table has no routine that removes one position.\<close>

definition single_list_op :: "(xsingle, u64) iterator_op" where
  "single_list_op =
     \<lparr>op_mode = XU_ITERATOR_MODE_FORWARD, op_head = xu_single_list_itor_head,
      op_tail = xu_single_list_itor_tail, op_next = xu_single_list_itor_next, op_item = xu_single_list_itor_item,
      op_remove = (\<lambda>l itor. l), op_nremove = xu_single_list_itor_nremove\<rparr>"

end
