(* ===== verification/XListEntryCorrect.thy ===== *)
theory XListEntryCorrect
  imports XListEntry
begin

text \<open>
  The intrusive lists: the entries of a list form a ring through its head, every operation
  changes the sequence of entries as its name says and leaves other lists as they are.
\<close>

section \<open>Rings\<close>

lemma links_simps [simp]:
  "nx (set_nx a b s) = (nx s)(a := b)" "pv (set_nx a b s) = pv s" "sz (set_nx a b s) = sz s"
  "nx (set_pv a b s) = nx s" "pv (set_pv a b s) = (pv s)(a := b)" "sz (set_pv a b s) = sz s"
  "nx (set_sz a n s) = nx s" "pv (set_sz a n s) = pv s" "sz (set_sz a n s) = (sz s)(a := n)"
  by (simp_all add: set_nx_def set_pv_def set_sz_def)

fun linked :: "links \<Rightarrow> nat list \<Rightarrow> bool" where
  "linked s (a # b # r) \<longleftrightarrow> nx s a = b \<and> pv s b = a \<and> linked s (b # r)"
| "linked s _ \<longleftrightarrow> True"

lemma linked_append: "linked s (xs @ b # ys) \<longleftrightarrow> linked s (xs @ [b]) \<and> linked s (b # ys)"
  by (induction xs rule: induct_list012) (cases ys; auto)+

lemma linked_cong:
  assumes "\<And>c. c \<in> set (butlast xs) \<Longrightarrow> nx s' c = nx s c" and "\<And>c. c \<in> set (tl xs) \<Longrightarrow> pv s' c = pv s c"
  shows "linked s' xs \<longleftrightarrow> linked s xs"
  using assms by (induction s xs rule: linked.induct) auto

text \<open>The sequence of entries between the head and itself, and the counter of the head.\<close>

definition dlist :: "links \<Rightarrow> nat \<Rightarrow> nat list \<Rightarrow> bool" where
  "dlist s h xs \<longleftrightarrow> 0 \<notin> set (h # xs) \<and> distinct (h # xs) \<and> linked s (h # xs @ [h]) \<and> sz s h = length xs"

text \<open>What stands in front of and behind a place in the list, the head included.\<close>

abbreviation before :: "nat \<Rightarrow> nat list \<Rightarrow> nat" where
  "before h us \<equiv> last (h # us)"

abbreviation after :: "nat \<Rightarrow> nat list \<Rightarrow> nat" where
  "after h vs \<equiv> hd (vs @ [h])"

lemma ring_split:
  obtains P Q where "h # us = P @ [before h us]" and "vs @ [h] = after h vs # Q"
    and "P = butlast (h # us)" and "Q = tl (vs @ [h])"
proof
  show "h # us = butlast (h # us) @ [before h us]" by (rule append_butlast_last_id [symmetric]) simp
  show "vs @ [h] = after h vs # tl (vs @ [h])" by (rule list.collapse [symmetric]) simp
qed simp_all

lemma ring_ends:
  assumes "distinct (h # us @ os @ vs)"
  shows "before h us \<notin> set (butlast (h # us))" and "before h us \<notin> set (butlast (vs @ [h]))"
    and "after h vs \<notin> set (tl (h # us))" and "after h vs \<notin> set (tl (vs @ [h]))"
proof -
  show "before h us \<notin> set (butlast (h # us))"
    using assms by (metis append_butlast_last_id distinct_append distinct.simps(2) list.simps(3) not_distinct_conv_prefix
        distinct_singleton append.assoc append_Cons)
  show "before h us \<notin> set (butlast (vs @ [h]))" using assms last_in_set [of us] by (cases "us = []") (auto simp: disjoint_iff)
  show "after h vs \<notin> set (tl (h # us))" using assms by (cases vs) auto
  show "after h vs \<notin> set (tl (vs @ [h]))" using assms by (cases vs) auto
qed

text \<open>Exchanging a part \<open>os\<close> of the list for \<open>ms\<close>, when only the links of the entries next to it and
  of \<open>ms\<close> change.\<close>

lemma dlist_relink:
  assumes s: "dlist s h (us @ os @ vs)"
    and nx: "\<And>c. c \<in> set (h # us @ vs) \<Longrightarrow> c \<noteq> before h us \<Longrightarrow> nx s' c = nx s c"
    and pv: "\<And>c. c \<in> set (h # us @ vs) \<Longrightarrow> c \<noteq> after h vs \<Longrightarrow> pv s' c = pv s c"
    and mid: "linked s' (before h us # ms @ [after h vs])"
    and ms: "distinct ms" "0 \<notin> set ms" "set ms \<inter> set (h # us @ vs) = {}"
    and sz: "sz s' h = length (us @ ms @ vs)"
  shows "dlist s' h (us @ ms @ vs)"
proof -
  have d: "distinct (h # us @ os @ vs)" using s by (simp add: dlist_def)
  obtain a b P Q where PQ: "h # us = P @ [a]" "vs @ [h] = b # Q" and ab: "a = before h us" "b = after h vs"
    by (metis ring_split)
  have "linked s ((h # us) @ os @ vs @ [h])" using s by (simp add: dlist_def)
  then have "linked s (P @ a # os @ b # Q)" unfolding PQ by simp
  then have "linked s (P @ [a])" "linked s (b # Q)"
    using linked_append [of s P a "os @ b # Q"] linked_append [of s "a # os" b Q] by auto
  then have l: "linked s (h # us)" "linked s (vs @ [h])" unfolding PQ .
  have "linked s' (h # us)"
  proof (subst linked_cong [of _ _ s])
    fix c
    show "nx s' c = nx s c" if c: "c \<in> set (butlast (h # us))"
      using c in_set_butlastD [OF c] ring_ends(1) [OF d] by (intro nx) auto
    show "pv s' c = pv s c" if c: "c \<in> set (tl (h # us))"
      using c ring_ends(3) [OF d] by (intro pv) auto
  qed (rule l)
  moreover have "linked s' (vs @ [h])"
  proof (subst linked_cong [of _ _ s])
    fix c
    show "nx s' c = nx s c" if c: "c \<in> set (butlast (vs @ [h]))"
      using c in_set_butlastD [OF c] ring_ends(2) [OF d] by (intro nx) (auto simp del: last.simps)
    show "pv s' c = pv s c" if c: "c \<in> set (tl (vs @ [h]))"
      using c ring_ends(4) [OF d] list.set_sel(2) [of "vs @ [h]" c] by (intro pv) auto
  qed (rule l)
  ultimately have "linked s' ((h # us) @ ms @ vs @ [h])"
    using mid unfolding PQ ab [symmetric] using linked_append [of s' P a "ms @ b # Q"]
      linked_append [of s' "a # ms" b Q] by simp
  then show ?thesis using s ms sz by (auto simp: dlist_def)
qed

lemma dlist_frame:
  assumes "dlist s k zs" and "\<And>c. c \<in> set (k # zs) \<Longrightarrow> nx s' c = nx s c \<and> pv s' c = pv s c" and "sz s' k = sz s k"
  shows "dlist s' k zs"
proof -
  have "linked s' (k # zs @ [k]) = linked s (k # zs @ [k])"
    by (rule linked_cong) (use assms(2) in \<open>auto dest!: in_set_butlastD\<close>)
  then show ?thesis using assms by (simp add: dlist_def)
qed

section \<open>The operations\<close>

lemma dlist_links:
  assumes "dlist s h (us @ vs)"
  shows "nx s (before h us) = after h vs" and "pv s (after h vs) = before h us"
proof -
  obtain a b P Q where PQ: "h # us = P @ [a]" "vs @ [h] = b # Q" and ab: "a = before h us" "b = after h vs"
    by (metis ring_split)
  have "linked s ((h # us) @ vs @ [h])" using assms by (simp add: dlist_def)
  then have "linked s (P @ a # b # Q)" unfolding PQ by simp
  then have "linked s (a # b # Q)" using linked_append [of s P a "b # Q"] by blast
  then show "nx s (before h us) = after h vs" "pv s (after h vs) = before h us" unfolding ab by auto
qed

lemma dlist_entry_links:
  assumes "dlist s h (us @ x # vs)"
  shows "nx s (before h us) = x" and "pv s x = before h us" and "nx s x = after h vs" and "pv s (after h vs) = x"
  using dlist_links [of s h us "x # vs"] dlist_links [of s h "us @ [x]" vs] assms by simp_all

lemma before_in: "before h us \<in> set (h # us)"
  by (rule last_in_set) simp

lemma after_in: "after h vs \<in> set (h # vs)"
  by (cases vs) auto

lemma insert_next_fields:
  assumes "nx s a = b" and "a \<noteq> e" and "b \<noteq> e"
  shows "nx (xu_list_entry_insert_next s h a e) = (nx s)(e := b, a := e)"
    and "pv (xu_list_entry_insert_next s h a e) = (pv s)(b := e, e := a)"
    and "sz (xu_list_entry_insert_next s h a e) = (sz s)(h := sz s h + 1)"
  using assms by (simp_all add: xu_list_entry_insert_next_def Let_def)

lemma insert_next_dlist:
  assumes s: "dlist s h (us @ vs)" and e: "e \<notin> set (h # us @ vs)" "e \<noteq> 0"
  shows "dlist (xu_list_entry_insert_next s h (before h us) e) h (us @ e # vs)"
proof -
  define a b where ab: "a = before h us" "b = after h vs"
  have ne: "a \<noteq> e" "b \<noteq> e"
    using before_in [of h us] after_in [where h = h and vs = vs] e(1) unfolding ab by auto
  note f = insert_next_fields [OF dlist_links(1) [OF s, folded ab] ne]
  have "dlist (xu_list_entry_insert_next s h a e) h (us @ [e] @ vs)"
    by (rule dlist_relink [where os = "[]" and s = s])
      (use s e ne in \<open>auto simp: f ab [symmetric] dlist_def simp del: last.simps\<close>)
  then show ?thesis unfolding ab by simp
qed

lemma insert_prev_dlist:
  assumes s: "dlist s h (us @ vs)" and e: "e \<notin> set (h # us @ vs)" "e \<noteq> 0"
  shows "dlist (xu_list_entry_insert_prev s h (after h vs) e) h (us @ e # vs)"
  unfolding xu_list_entry_insert_prev_def dlist_links(2) [OF s] by (rule insert_next_dlist [OF assms])

lemma nremove_dlist:
  assumes s: "dlist s h (us @ os @ vs)" and "os \<noteq> []"
  shows "dlist (xu_list_entry_itor_nremove s h (before h us) (after h vs) (length os)) h (us @ vs)"
proof -
  have "sz s h = length (us @ os @ vs)" using s by (simp add: dlist_def)
  then show ?thesis
    using dlist_relink [of s h us os vs "xu_list_entry_itor_nremove s h (before h us) (after h vs) (length os)" "[]"] assms
    unfolding xu_list_entry_itor_nremove_def Let_def by (simp del: last.simps)
qed

lemma remove_dlist:
  assumes s: "dlist s h (us @ x # vs)"
  shows "dlist (xu_list_entry_remove s h x) h (us @ vs)"
proof -
  have "xu_list_entry_remove s h x = xu_list_entry_itor_nremove s h (before h us) (after h vs) (length [x])"
    using dlist_entry_links [OF s]
    unfolding xu_list_entry_remove_def list_entry_unlink_def xu_list_entry_itor_nremove_def Let_def by (simp del: last.simps)
  then show ?thesis using nremove_dlist [of s h us "[x]" vs] s by (simp del: last.simps)
qed

lemma replace_fields:
  assumes "nx s x = b" and "pv s x = a" and "a \<noteq> e" and "b \<noteq> e" and "x \<noteq> e" and "b \<noteq> x"
  shows "nx (xu_list_entry_replace s h x e) = (nx s)(e := b, a := e)"
    and "pv (xu_list_entry_replace s h x e) = (pv s)(b := e, e := a)"
    and "sz (xu_list_entry_replace s h x e) = sz s"
  using assms by (simp_all add: xu_list_entry_replace_def Let_def)

lemma replace_dlist:
  assumes s: "dlist s h (us @ x # vs)" and e: "e \<notin> set (h # us @ x # vs)" "e \<noteq> 0"
  shows "dlist (xu_list_entry_replace s h x e) h (us @ e # vs)"
proof -
  define a b where ab: "a = before h us" "b = after h vs"
  have ne: "a \<noteq> e" "b \<noteq> e" "x \<noteq> e" "b \<noteq> x"
    using before_in [of h us] after_in [where h = h and vs = vs] e(1) s unfolding ab by (auto simp: dlist_def)
  note l = dlist_entry_links [OF s, folded ab]
  note f = replace_fields [OF l(3,2) ne]
  have "dlist (xu_list_entry_replace s h x e) h (us @ [e] @ vs)"
    by (rule dlist_relink [where os = "[x]" and s = s])
      (use s e ne in \<open>auto simp: f ab [symmetric] dlist_def simp del: last.simps\<close>)
  then show ?thesis by simp
qed

lemma moveto_next_dlist:
  assumes s: "dlist s h xs" and x: "x \<in> set xs" and p: "remove1 x xs = us @ vs"
  shows "dlist (xu_list_entry_moveto_next s h (before h us) x) h (us @ x # vs)"
proof -
  obtain as bs where xs: "xs = as @ x # bs" using x by (meson split_list)
  have d: "distinct (h # xs)" "0 \<notin> set (h # xs)" using s by (simp_all add: dlist_def)
  have "remove1 x xs = as @ bs" using d xs by (simp add: remove1_append)
  then have r: "dlist (xu_list_entry_remove s h x) h (us @ vs)"
    using remove_dlist [of s h as x bs] s xs p by simp
  have "x \<notin> set (us @ vs)" using d(1) by (simp add: p [symmetric] set_remove1_eq)
  moreover have "x \<noteq> h" "x \<noteq> 0" using d x by (metis distinct.simps(2), metis list.set_intros(2))
  moreover from calculation have "before h us \<noteq> x" using before_in [of h us] by auto
  ultimately show ?thesis
    using insert_next_dlist [OF r, of x] unfolding xu_list_entry_moveto_next_def by simp
qed

lemma clear_dlist: "h \<noteq> 0 \<Longrightarrow> dlist (xu_list_entry_clear s h) h []"
  by (simp add: xu_list_entry_clear_def dlist_def)

lemma splice_fields:
  assumes "nx s k = y" and "pv s k = z" and "sz s k \<noteq> 0" and "k \<notin> {a, b, h, y, z}"
  shows "nx (xu_list_entry_splice s h a b k) = (nx s)(a := y, z := b, k := k)"
    and "pv (xu_list_entry_splice s h a b k) = (pv s)(y := a, b := z, k := k)"
    and "sz (xu_list_entry_splice s h a b k) = (sz s)(h := sz s h + sz s k, k := 0)"
  using assms by (auto simp: xu_list_entry_splice_def xu_list_entry_is_null_def xu_list_entry_clear_def Let_def)

lemma linked_inner: "linked s (xs @ ys @ zs) \<Longrightarrow> linked s ys"
proof (induction xs)
  case Nil
  then show ?case
  proof (cases ys rule: rev_cases)
    case (snoc ys' y)
    then show ?thesis using Nil linked_append [of s ys' y zs] by simp
  qed simp
next
  case (Cons x xs)
  then show ?case by (cases "xs @ ys @ zs") auto
qed

lemma linked_close:
  assumes "linked t ys" and "ys \<noteq> []" and "nx t a = hd ys" and "pv t (hd ys) = a"
    and "nx t (last ys) = b" and "pv t b = last ys"
  shows "linked t (a # ys @ [b])"
proof -
  obtain zs z where ys: "ys = zs @ [z]" using assms(2) by (cases ys rule: rev_cases) auto
  have "linked t (ys @ [b])"
    using assms(1,5,6) linked_append [of t zs z "[b]"] unfolding ys by simp
  then show ?thesis using assms(2-4) by (cases ys) auto
qed

lemma distinct_ends:
  assumes "distinct ys" and "ys \<noteq> []"
  shows "c \<in> set (butlast ys) \<Longrightarrow> c \<noteq> last ys" and "c \<in> set (tl ys) \<Longrightarrow> c \<noteq> hd ys"
  using assms by (induction ys) (auto split: if_splits)

lemma splice_dlist:
  assumes s: "dlist s h (us @ vs)" and t: "dlist s k ys" and d: "set (h # us @ vs) \<inter> set (k # ys) = {}"
  shows "dlist (xu_list_entry_splice s h (before h us) (after h vs) k) h (us @ ys @ vs)
    \<and> dlist (xu_list_entry_splice s h (before h us) (after h vs) k) k []"
proof (cases "ys = []")
  case True
  then show ?thesis using s t by (simp add: xu_list_entry_splice_def xu_list_entry_is_null_def dlist_def)
next
  case False
  define a b where ab: "a = before h us" "b = after h vs"
  let ?s = "xu_list_entry_splice s h a b k"
  have in_h: "a \<in> set (h # us @ vs)" "b \<in> set (h # us @ vs)"
    using before_in [of h us] after_in [where h = h and vs = vs] unfolding ab by auto
  have in_k: "hd ys \<in> set ys" "last ys \<in> set ys" using False by simp_all
  have dy: "distinct ys" "0 \<notin> set ys" "k \<notin> set ys" "sz s k = length ys" "k \<noteq> 0" using t by (simp_all add: dlist_def)
  have ends: "nx s k = hd ys" "pv s k = last ys"
    using dlist_links [of s k "[]" ys] dlist_links [of s k ys "[]"] t False by simp_all
  have k: "k \<notin> {a, b, h, hd ys, last ys}" using in_h in_k d dy(3) by auto
  note f = splice_fields [OF ends _ k]
  have fs: "nx ?s = (nx s)(a := hd ys, last ys := b, k := k)" "pv ?s = (pv s)(hd ys := a, b := last ys, k := k)"
    "sz ?s = (sz s)(h := sz s h + sz s k, k := 0)"
    using f dy(4) False by simp_all
  have ly: "linked s ys" using t linked_inner [of s "[k]" ys "[k]"] by (simp add: dlist_def)
  have "linked ?s ys"
  proof (subst linked_cong [of _ _ s])
    fix c
    show "nx ?s c = nx s c" if c: "c \<in> set (butlast ys)"
      using distinct_ends(1) [OF dy(1) False c] in_set_butlastD [OF c] in_h d dy(3) unfolding fs by auto
    show "pv ?s c = pv s c" if c: "c \<in> set (tl ys)"
      using distinct_ends(2) [OF dy(1) False c] list.set_sel(2) [OF False c] in_h d dy(3) unfolding fs by auto
  qed (rule ly)
  moreover have "nx ?s a = hd ys" "pv ?s (hd ys) = a" "nx ?s (last ys) = b" "pv ?s b = last ys"
    using in_h in_k d dy(3) unfolding fs by auto
  ultimately have mid: "linked ?s (a # ys @ [b])" using False by (intro linked_close)
  have out: "c \<noteq> k \<and> c \<noteq> last ys \<and> c \<noteq> hd ys" if "c \<in> set (h # us @ vs)" for c
    using that in_k d by auto
  have "dlist ?s h (us @ ys @ vs)"
  proof (rule dlist_relink [where os = "[]" and s = s])
    fix c
    show "nx ?s c = nx s c" if "c \<in> set (h # us @ vs)" "c \<noteq> before h us"
      using that(2) out [OF that(1)] unfolding fs ab(1) [symmetric] by simp
    show "pv ?s c = pv s c" if "c \<in> set (h # us @ vs)" "c \<noteq> after h vs"
      using that(2) out [OF that(1)] unfolding fs ab(2) [symmetric] by simp
    show "linked ?s (before h us # ys @ [after h vs])" using mid unfolding ab .
    show "set ys \<inter> set (h # us @ vs) = {}" using d by auto
    show "sz ?s h = length (us @ ys @ vs)" using s dy(4) k unfolding fs by (simp add: dlist_def)
  qed (use s dy in simp_all)
  moreover have "dlist ?s k []" using dy(5) by (simp add: dlist_def fs)
  ultimately show ?thesis unfolding ab ..
qed

section \<open>Other lists\<close>

definition same_links :: "nat set \<Rightarrow> links \<Rightarrow> links \<Rightarrow> bool" where
  "same_links A s s' \<longleftrightarrow> (\<forall>c. c \<notin> A \<longrightarrow> nx s' c = nx s c \<and> pv s' c = pv s c \<and> sz s' c = sz s c)"

text \<open>What a list becomes: it holds the entries, and every list that shares none of the named addresses stays.\<close>

definition relisted :: "nat set \<Rightarrow> links \<Rightarrow> links \<Rightarrow> nat \<Rightarrow> nat list \<Rightarrow> bool" where
  "relisted A s s' h xs \<longleftrightarrow>
     dlist s' h xs \<and> (\<forall>k zs. dlist s k zs \<and> set (k # zs) \<inter> A = {} \<longrightarrow> dlist s' k zs)"

lemma relistedI: "dlist s' h xs \<Longrightarrow> same_links A s s' \<Longrightarrow> relisted A s s' h xs"
proof (unfold relisted_def, intro conjI allI impI, assumption, elim conjE)
  fix k zs assume s: "same_links A s s'" and k: "dlist s k zs" "set (k # zs) \<inter> A = {}"
  have out: "c \<notin> A" if "c \<in> set (k # zs)" for c using that k(2) by blast
  show "dlist s' k zs"
    by (rule dlist_frame [OF k(1)]) (use s out in \<open>simp_all add: same_links_def\<close>)
qed

lemma insert_next_same: "{h, node, nx s node, e} \<subseteq> A \<Longrightarrow> same_links A s (xu_list_entry_insert_next s h node e)"
  by (auto simp: same_links_def xu_list_entry_insert_next_def Let_def)

lemma nremove_same: "{h, a, b} \<subseteq> A \<Longrightarrow> same_links A s (xu_list_entry_itor_nremove s h a b n)"
  by (auto simp: same_links_def xu_list_entry_itor_nremove_def Let_def)

lemma remove_same: "{h, nx s x, pv s x} \<subseteq> A \<Longrightarrow> same_links A s (xu_list_entry_remove s h x)"
  by (auto simp: same_links_def xu_list_entry_remove_def list_entry_unlink_def Let_def)

lemma replace_same: "{e, nx s x, pv s x} \<subseteq> A \<Longrightarrow> same_links A s (xu_list_entry_replace s h x e)"
  by (auto simp: same_links_def xu_list_entry_replace_def Let_def)

lemma clear_same: "h \<in> A \<Longrightarrow> same_links A s (xu_list_entry_clear s h)"
  by (auto simp: same_links_def xu_list_entry_clear_def)

lemma place_in:
  "before h us \<in> set (h # us @ vs)" "after h vs \<in> set (h # us @ vs)"
  using before_in [of h us] after_in [where h = h and vs = vs] by auto

lemma insert_next_relisted:
  assumes s: "dlist s h (us @ vs)" and e: "e \<notin> set (h # us @ vs)" "e \<noteq> 0"
  shows "relisted (set (e # h # us @ vs)) s (xu_list_entry_insert_next s h (before h us) e) h (us @ e # vs)"
  using place_in [where h = h and us = us and vs = vs]
  by (intro relistedI insert_next_dlist [OF assms] insert_next_same) (auto simp: dlist_links(1) [OF s] simp del: last.simps)

lemma insert_prev_relisted:
  assumes s: "dlist s h (us @ vs)" and e: "e \<notin> set (h # us @ vs)" "e \<noteq> 0"
  shows "relisted (set (e # h # us @ vs)) s (xu_list_entry_insert_prev s h (after h vs) e) h (us @ e # vs)"
  unfolding xu_list_entry_insert_prev_def dlist_links(2) [OF s] by (rule insert_next_relisted [OF assms])

lemma remove_relisted:
  assumes s: "dlist s h (us @ x # vs)"
  shows "relisted (set (h # us @ x # vs)) s (xu_list_entry_remove s h x) h (us @ vs)"
  using place_in [where h = h and us = us and vs = vs]
  by (intro relistedI remove_dlist [OF s] remove_same) (auto simp: dlist_entry_links [OF s] simp del: last.simps)

lemma replace_relisted:
  assumes s: "dlist s h (us @ x # vs)" and e: "e \<notin> set (h # us @ x # vs)" "e \<noteq> 0"
  shows "relisted (set (e # h # us @ x # vs)) s (xu_list_entry_replace s h x e) h (us @ e # vs)"
  using place_in [where h = h and us = us and vs = vs]
  by (intro relistedI replace_dlist [OF s e] replace_same) (auto simp: dlist_entry_links [OF s] simp del: last.simps)

lemma nremove_relisted:
  assumes s: "dlist s h (us @ os @ vs)" and "os \<noteq> []"
  shows "relisted (set (h # us @ os @ vs)) s
    (xu_list_entry_itor_nremove s h (before h us) (after h vs) (length os)) h (us @ vs)"
  using place_in [where h = h and us = us and vs = vs] by (intro relistedI nremove_dlist [OF assms] nremove_same) (auto simp del: last.simps)

lemma clear_relisted:
  assumes "dlist s h xs"
  shows "relisted (set (h # xs)) s (xu_list_entry_clear s h) h []"
  using assms by (intro relistedI clear_dlist clear_same) (auto simp: dlist_def)

text \<open>C18. The circular list: inserting behind or in front of an entry or the head, removing or
  replacing an entry, removing a range and clearing do to the sequence of entries what their
  names say, keep the counter, and each of them leaves every list with other entries as it is.\<close>

theorem xu_list_entry_refines_list:
  assumes s: "dlist s h (us @ os @ vs)" and e: "e \<notin> set (h # us @ os @ vs)" "e \<noteq> 0"
  shows "relisted (set (e # h # us @ os @ vs)) s (xu_list_entry_insert_next s h (before h us) e) h (us @ e # os @ vs)
    \<and> relisted (set (e # h # us @ os @ vs)) s (xu_list_entry_insert_prev s h (after h vs) e) h (us @ os @ e # vs)
    \<and> (\<forall>x. os = [x] \<longrightarrow> relisted (set (h # us @ os @ vs)) s (xu_list_entry_remove s h x) h (us @ vs)
         \<and> relisted (set (e # h # us @ os @ vs)) s (xu_list_entry_replace s h x e) h (us @ e # vs))
    \<and> (os \<noteq> [] \<longrightarrow> relisted (set (h # us @ os @ vs)) s
         (xu_list_entry_itor_nremove s h (before h us) (after h vs) (length os)) h (us @ vs))
    \<and> relisted (set (h # us @ os @ vs)) s (xu_list_entry_clear s h) h []"
proof (intro conjI allI impI)
  show "relisted (set (e # h # us @ os @ vs)) s (xu_list_entry_insert_next s h (before h us) e) h (us @ e # os @ vs)"
    using insert_next_relisted [OF s e] .
  show "relisted (set (e # h # us @ os @ vs)) s (xu_list_entry_insert_prev s h (after h vs) e) h (us @ os @ e # vs)"
    using insert_prev_relisted [of s h "us @ os" vs e] s e by simp
  fix x assume x: "os = [x]"
  show "relisted (set (h # us @ os @ vs)) s (xu_list_entry_remove s h x) h (us @ vs)"
    using remove_relisted [of s h us x vs] s x by simp
  show "relisted (set (e # h # us @ os @ vs)) s (xu_list_entry_replace s h x e) h (us @ e # vs)"
    using replace_relisted [of s h us x vs e] s e x by simp
qed (use nremove_relisted [OF s] clear_relisted [OF s] in blast)+

theorem xu_list_entry_refines_list_witness:
  "(let s0 = \<lparr>nx = \<lambda>_. 0, pv = \<lambda>_. 0, sz = \<lambda>_. 0\<rparr>;
        s1 = xu_list_entry_insert_tail (xu_list_entry_init s0 40) 40 48;
        s = xu_list_entry_insert_tail (xu_list_entry_insert_tail (xu_list_entry_init s1 8) 8 16) 8 24
    in dlist (xu_list_entry_insert_next s 8 16 32) 8 [16, 32, 24]
      \<and> dlist (xu_list_entry_remove s 8 16) 8 [24] \<and> dlist (xu_list_entry_remove s 8 16) 40 [48])"
proof -
  let ?s1 = "xu_list_entry_insert_tail (xu_list_entry_init \<lparr>nx = \<lambda>_. 0, pv = \<lambda>_. 0, sz = \<lambda>_. 0\<rparr> 40) 40 48"
  let ?s = "xu_list_entry_insert_tail (xu_list_entry_insert_tail (xu_list_entry_init ?s1 8) 8 16) 8 24"
  have "dlist ?s 8 [16, 24]" and k: "dlist ?s 40 [48]"
    by (simp_all add: dlist_def xu_list_entry_init_def xu_list_entry_insert_tail_def xu_list_entry_insert_next_def Let_def)
  then have "dlist ?s 8 ([16] @ [] @ [24])" "dlist ?s 8 ([] @ [16] @ [24])" by simp_all
  from xu_list_entry_refines_list [OF this(1), of 32] xu_list_entry_refines_list [OF this(2), of 32]
  show ?thesis using k by (simp add: Let_def relisted_def)
qed

text \<open>Moving an entry behind a place of the rest of its list, and splicing a whole list into a
  place of another one, which empties it.\<close>

theorem xu_list_entry_move_and_splice:
  assumes s: "dlist s h (us @ vs)" and t: "dlist s k ys" and d: "set (h # us @ vs) \<inter> set (k # ys) = {}"
    and x: "x \<in> set ys" "remove1 x ys = as @ bs"
  shows "dlist (xu_list_entry_splice s h (before h us) (after h vs) k) h (us @ ys @ vs)
    \<and> dlist (xu_list_entry_splice s h (before h us) (after h vs) k) k []
    \<and> dlist (xu_list_entry_moveto_next s k (before k as) x) k (as @ x # bs)"
  using splice_dlist [OF s t d] moveto_next_dlist [OF t x] by simp

theorem xu_list_entry_move_and_splice_witness:
  "(let s0 = \<lparr>nx = \<lambda>_. 0, pv = \<lambda>_. 0, sz = \<lambda>_. 0\<rparr>;
        s1 = xu_list_entry_insert_tail (xu_list_entry_init s0 8) 8 16;
        s2 = xu_list_entry_insert_tail (xu_list_entry_insert_tail (xu_list_entry_init s1 40) 40 48) 40 56
    in dlist (xu_list_entry_splice s2 8 16 8 40) 8 [16, 48, 56]
      \<and> dlist (xu_list_entry_moveto_next s2 40 56 48) 40 [56, 48])"
proof -
  let ?s0 = "\<lparr>nx = \<lambda>_. 0, pv = \<lambda>_. 0, sz = \<lambda>_. 0\<rparr>"
  let ?s1 = "xu_list_entry_insert_tail (xu_list_entry_init ?s0 8) 8 16"
  let ?s2 = "xu_list_entry_insert_tail (xu_list_entry_insert_tail (xu_list_entry_init ?s1 40) 40 48) 40 56"
  have "dlist ?s2 8 ([16] @ [])" "dlist ?s2 40 [48, 56]"
    by (simp_all add: dlist_def xu_list_entry_init_def xu_list_entry_insert_tail_def xu_list_entry_insert_next_def Let_def)
  from xu_list_entry_move_and_splice [OF this, of 48 "[56]" "[]"] show ?thesis by (simp add: Let_def)
qed

section \<open>The list with one link\<close>

lemma slinks_simps [simp]:
  "snx (set_snx a b s) = (snx s)(a := b)" "slast (set_snx a b s) = slast s" "ssz (set_snx a b s) = ssz s"
  "snx (set_slast a b s) = snx s" "slast (set_slast a b s) = (slast s)(a := b)" "ssz (set_slast a b s) = ssz s"
  "snx (set_ssz a n s) = snx s" "slast (set_ssz a n s) = slast s" "ssz (set_ssz a n s) = (ssz s)(a := n)"
  by (simp_all add: set_snx_def set_slast_def set_ssz_def)

fun schain :: "slinks \<Rightarrow> nat list \<Rightarrow> bool" where
  "schain s (a # b # r) \<longleftrightarrow> snx s a = b \<and> schain s (b # r)"
| "schain s _ \<longleftrightarrow> True"

lemma schain_append: "schain s (xs @ b # ys) \<longleftrightarrow> schain s (xs @ [b]) \<and> schain s (b # ys)"
  by (induction xs rule: induct_list012) (cases ys; auto)+

lemma schain_cong: "(\<And>c. c \<in> set (butlast xs) \<Longrightarrow> snx s' c = snx s c) \<Longrightarrow> schain s' xs \<longleftrightarrow> schain s xs"
  by (induction s xs rule: schain.induct) auto

text \<open>The last pointer of an empty list is null or, after its only entry was removed, the head itself.\<close>

definition slist :: "slinks \<Rightarrow> nat \<Rightarrow> nat list \<Rightarrow> bool" where
  "slist s h xs \<longleftrightarrow> 0 \<notin> set (h # xs) \<and> distinct (h # xs) \<and> schain s (h # xs @ [0]) \<and> ssz s h = length xs
     \<and> (if xs = [] then slast s h = 0 \<or> slast s h = h else slast s h = last xs)"

abbreviation following :: "nat list \<Rightarrow> nat" where
  "following vs \<equiv> hd (vs @ [0])"

lemma slist_link: "slist s h (us @ vs) \<Longrightarrow> snx s (before h us) = following vs"
proof -
  assume s: "slist s h (us @ vs)"
  obtain P where P: "h # us = P @ [before h us]" by (metis append_butlast_last_id list.simps(3))
  define a where "a = before h us"
  have "schain s ((h # us) @ vs @ [0])" using s by (simp add: slist_def)
  then have "schain s (P @ a # vs @ [0])" using P unfolding a_def [symmetric] by simp
  then have "schain s (a # vs @ [0])" using schain_append [of s P a "vs @ [0]"] by blast
  then show ?thesis unfolding a_def by (cases vs) auto
qed

lemma slist_relink:
  assumes s: "slist s h (us @ os @ vs)"
    and nx: "\<And>c. c \<in> set (h # us @ vs) \<Longrightarrow> c \<noteq> before h us \<Longrightarrow> snx s' c = snx s c"
    and mid: "schain s' (before h us # ms @ [following vs])"
    and ms: "distinct ms" "0 \<notin> set ms" "set ms \<inter> set (h # us @ vs) = {}"
    and sz: "ssz s' h = length (us @ ms @ vs)"
    and la: "slast s' h = (if vs \<noteq> [] then last vs else last (h # us @ ms))"
  shows "slist s' h (us @ ms @ vs)"
proof -
  have d: "distinct (h # us @ os @ vs)" using s by (simp add: slist_def)
  obtain a P where P: "h # us = P @ [a]" and a: "a = before h us" by (metis append_butlast_last_id list.simps(3))
  obtain b Q where Q: "vs @ [0] = b # Q" and b: "b = following vs" by (metis list.collapse append_is_Nil_conv list.simps(3))
  have "schain s ((h # us) @ os @ vs @ [0])" using s by (simp add: slist_def)
  then have "schain s (P @ a # os @ b # Q)" unfolding P Q by simp
  then have "schain s (P @ [a])" "schain s (b # Q)"
    using schain_append [of s P a "os @ b # Q"] schain_append [of s "a # os" b Q] by auto
  then have l: "schain s (h # us)" "schain s (vs @ [0])" unfolding P Q .
  have "schain s' (h # us)"
  proof (subst schain_cong [of _ _ s])
    fix c assume c: "c \<in> set (butlast (h # us))"
    then show "snx s' c = snx s c"
      using in_set_butlastD [OF c] ring_ends(1) [OF d] by (intro nx) auto
  qed (rule l)
  moreover have "schain s' (vs @ [0])"
  proof (subst schain_cong [of _ _ s])
    fix c assume c: "c \<in> set (butlast (vs @ [0]))"
    then show "snx s' c = snx s c"
      using ring_ends(2) [OF d] by (intro nx) (auto simp del: last.simps)
  qed (rule l)
  ultimately have "schain s' ((h # us) @ ms @ vs @ [0])"
    using mid unfolding P Q a [symmetric] b [symmetric] using schain_append [of s' P a "ms @ b # Q"]
      schain_append [of s' "a # ms" b Q] by simp
  then show ?thesis using s ms sz la by (auto simp: slist_def)
qed

lemma slist_before_last:
  assumes "slist s h (us @ vs)"
  shows "before h us = slast s h \<or> snx s h = 0 \<longleftrightarrow> vs = []"
proof -
  have d: "distinct (h # us @ vs)" "0 \<notin> set (h # us @ vs)" using assms by (simp_all add: slist_def)
  show ?thesis
  proof (cases "us @ vs = []")
    case True
    then show ?thesis using slist_link [of s h "[]" "[]"] assms by simp
  next
    case False
    have "hd ((us @ vs) @ [0]) = hd (us @ vs)" by (rule hd_append2 [OF False])
    then have "snx s h = hd (us @ vs)" using slist_link [of s h "[]" "us @ vs"] assms by simp
    then have "snx s h \<noteq> 0" using d(2) False by (metis hd_in_set list.set_intros(2))
    moreover have "slast s h = last (us @ vs)" using assms False by (simp add: slist_def)
    moreover have "last vs \<noteq> before h us" if "vs \<noteq> []"
    proof -
      have "last vs \<in> set vs" using that by simp
      then show ?thesis using before_in [of h us] d(1) by auto
    qed
    ultimately show ?thesis by (cases "vs = []") (use False in auto)
  qed
qed

lemma single_insert_next:
  assumes s: "slist s h (us @ vs)" and e: "e \<notin> set (h # us @ vs)" "e \<noteq> 0"
  shows "slist (xu_single_list_entry_insert_next s h (before h us) e) h (us @ e # vs)"
proof -
  define a b where ab: "a = before h us" "b = following vs"
  have ne: "a \<noteq> e" using before_in [of h us] e(1) unfolding ab by auto
  note l = slist_link [OF s, folded ab] and la = slist_before_last [OF s, folded ab]
  have f: "snx (xu_single_list_entry_insert_next s h a e) = (snx s)(e := b, a := e)"
    "ssz (xu_single_list_entry_insert_next s h a e) = (ssz s)(h := ssz s h + 1)"
    "slast (xu_single_list_entry_insert_next s h a e) h = (if vs = [] then e else slast s h)"
    using l la ne by (auto simp: xu_single_list_entry_insert_next_def Let_def)
  have "slist (xu_single_list_entry_insert_next s h a e) h (us @ [e] @ vs)"
  proof (rule slist_relink [where os = "[]" and s = s])
    fix c
    show "snx (xu_single_list_entry_insert_next s h a e) c = snx s c"
      if "c \<in> set (h # us @ vs)" "c \<noteq> before h us"
      using that e(1) unfolding f ab(1) [symmetric] by auto
    show "schain (xu_single_list_entry_insert_next s h a e) (before h us # [e] @ [following vs])"
      using ne unfolding ab [symmetric] by (simp add: f)
  qed (use s e f in \<open>simp_all add: slist_def\<close>)
  then show ?thesis unfolding ab by simp
qed

lemma single_remove_next:
  assumes s: "slist s h (us @ x # vs)"
  shows "slist (xu_single_list_entry_remove_next s h (before h us)) h (us @ vs)"
proof -
  define a b where ab: "a = before h us" "b = following vs"
  have l: "snx s a = x" "snx s x = b"
    using slist_link [of s h us "x # vs"] slist_link [of s h "us @ [x]" vs] s unfolding ab by simp_all
  have d: "distinct (us @ x # vs)" using s by (simp add: slist_def)
  have la: "x = slast s h \<longleftrightarrow> vs = []" using s d by (cases vs rule: rev_cases) (auto simp: slist_def)
  let ?s = "xu_single_list_entry_remove_next s h a"
  have f: "snx ?s = (snx s)(a := b)" "ssz ?s = (ssz s)(h := ssz s h - 1)"
    "slast ?s h = (if vs = [] then a else slast s h)"
    using l la by (auto simp: xu_single_list_entry_remove_next_def single_list_entry_unlink_def Let_def)
  have "slist ?s h (us @ [] @ vs)"
  proof (rule slist_relink [where os = "[x]" and s = s])
    fix c
    show "snx ?s c = snx s c" if "c \<in> set (h # us @ vs)" "c \<noteq> before h us"
      using that unfolding f ab(1) [symmetric] by simp
    show "schain ?s (before h us # [] @ [following vs])" unfolding ab [symmetric] by (simp add: f)
    show "slast ?s h = (if vs \<noteq> [] then last vs else last (h # us @ []))"
      unfolding f(3) using s unfolding ab by (simp add: slist_def)
  qed (use s f in \<open>simp_all add: slist_def\<close>)
  then show ?thesis unfolding ab by simp
qed

lemma single_insert_tail:
  assumes s: "slist s h us" and e: "e \<notin> set (h # us)" "e \<noteq> 0"
  shows "slist (xu_single_list_entry_insert_tail s h e) h (us @ [e])"
proof -
  have "xu_single_list_entry_insert_tail s h e = xu_single_list_entry_insert_next s h (before h us) e"
  proof (cases "us = []")
    case True
    then have "slast s h = 0 \<or> slast s h = h" using s by (simp add: slist_def)
    then show ?thesis using True
      by (auto simp: xu_single_list_entry_insert_tail_def xu_single_list_entry_insert_head_def)
  next
    case False
    then have "slast s h = last us" using s by (simp add: slist_def)
    moreover have "last us \<noteq> 0" using s last_in_set [OF False] unfolding slist_def by (metis list.set_intros(2))
    ultimately show ?thesis using False by (simp add: xu_single_list_entry_insert_tail_def)
  qed
  then show ?thesis using single_insert_next [of s h us "[]" e] s e by simp
qed

lemma single_replace_next:
  assumes s: "slist s h (us @ x # vs)" and e: "e \<notin> set (h # us @ x # vs)" "e \<noteq> 0"
  shows "slist (xu_single_list_entry_replace_next s h (before h us) e) h (us @ e # vs)"
proof -
  define a b where ab: "a = before h us" "b = following vs"
  have ne: "a \<noteq> e" using before_in [of h us] e(1) unfolding ab by auto
  have l: "snx s a = x" "snx s x = b"
    using slist_link [of s h us "x # vs"] slist_link [of s h "us @ [x]" vs] s unfolding ab by simp_all
  have d: "distinct (us @ x # vs)" using s by (simp add: slist_def)
  have la: "x = slast s h \<longleftrightarrow> vs = []" using s d by (cases vs rule: rev_cases) (auto simp: slist_def)
  let ?s = "xu_single_list_entry_replace_next s h a e"
  have f: "snx ?s = (snx s)(e := b, a := e)" "ssz ?s = ssz s" "slast ?s h = (if vs = [] then e else slast s h)"
    using l la by (auto simp: xu_single_list_entry_replace_next_def Let_def)
  have "slist ?s h (us @ [e] @ vs)"
  proof (rule slist_relink [where os = "[x]" and s = s])
    fix c
    show "snx ?s c = snx s c" if "c \<in> set (h # us @ vs)" "c \<noteq> before h us"
      using that e(1) unfolding f ab(1) [symmetric] by auto
    show "schain ?s (before h us # [e] @ [following vs])"
      using ne unfolding ab [symmetric] by (simp add: f)
  qed (use s e f in \<open>simp_all add: slist_def\<close>)
  then show ?thesis unfolding ab by simp
qed

subsection \<open>Other lists with one link\<close>

definition same_slinks :: "nat set \<Rightarrow> slinks \<Rightarrow> slinks \<Rightarrow> bool" where
  "same_slinks A s s' \<longleftrightarrow> (\<forall>c. c \<notin> A \<longrightarrow> snx s' c = snx s c \<and> slast s' c = slast s c \<and> ssz s' c = ssz s c)"

definition srelisted :: "nat set \<Rightarrow> slinks \<Rightarrow> slinks \<Rightarrow> nat \<Rightarrow> nat list \<Rightarrow> bool" where
  "srelisted A s s' h xs \<longleftrightarrow>
     slist s' h xs \<and> (\<forall>k zs. slist s k zs \<and> set (k # zs) \<inter> A = {} \<longrightarrow> slist s' k zs)"

lemma slist_frame:
  assumes "slist s k zs" and "same_slinks A s s'" and "set (k # zs) \<inter> A = {}"
  shows "slist s' k zs"
proof -
  have out: "c \<notin> A" if "c \<in> set (k # zs)" for c using that assms(3) by blast
  have "schain s' (k # zs @ [0]) = schain s (k # zs @ [0])"
  proof (rule schain_cong)
    fix c assume "c \<in> set (butlast (k # zs @ [0]))"
    then have "c \<in> set (k # zs)" by (simp add: butlast_append)
    then show "snx s' c = snx s c" using out assms(2) by (simp add: same_slinks_def)
  qed
  then show ?thesis using assms(1,2) out [of k] by (simp add: slist_def same_slinks_def)
qed

lemma srelistedI: "slist s' h xs \<Longrightarrow> same_slinks A s s' \<Longrightarrow> srelisted A s s' h xs"
  using slist_frame [of s _ _ A s'] by (simp add: srelisted_def)

lemma single_insert_next_same: "{h, a, e} \<subseteq> A \<Longrightarrow> same_slinks A s (xu_single_list_entry_insert_next s h a e)"
  by (auto simp: same_slinks_def xu_single_list_entry_insert_next_def Let_def)

lemma slist_last_in: "slist s h xs \<Longrightarrow> slast s h \<in> insert 0 (set (h # xs))"
  using last_in_set [of xs] by (auto simp: slist_def split: if_splits)

lemma single_insert_tail_same:
  "{h, e} \<subseteq> A \<Longrightarrow> slast s h \<in> insert 0 A \<Longrightarrow> same_slinks A s (xu_single_list_entry_insert_tail s h e)"
  unfolding xu_single_list_entry_insert_tail_def xu_single_list_entry_insert_head_def
  using single_insert_next_same [of h _ e A s] by (cases "slast s h = 0") auto

lemma single_remove_next_same: "{h, a} \<subseteq> A \<Longrightarrow> same_slinks A s (xu_single_list_entry_remove_next s h a)"
  by (auto simp: same_slinks_def xu_single_list_entry_remove_next_def single_list_entry_unlink_def Let_def)

lemma single_replace_next_same: "{h, a, e} \<subseteq> A \<Longrightarrow> same_slinks A s (xu_single_list_entry_replace_next s h a e)"
  by (auto simp: same_slinks_def xu_single_list_entry_replace_next_def Let_def)

lemma single_clear_same: "h \<in> A \<Longrightarrow> same_slinks A s (xu_single_list_entry_clear s h)"
  by (auto simp: same_slinks_def xu_single_list_entry_clear_def)

lemma single_nremove_same: "{h, a} \<subseteq> A \<Longrightarrow> same_slinks A s (xu_single_list_entry_itor_nremove s h a b n)"
  by (auto simp: same_slinks_def xu_single_list_entry_itor_nremove_def Let_def)

text \<open>A removal moves the last pointer back only to what stands in front: the head, when the list is empty then.\<close>

lemma single_remove_last:
  assumes s: "slist s h (us @ [x])"
  shows "slast (xu_single_list_entry_remove_next s h (before h us)) h = before h us"
  using slist_link [of s h us "[x]"] s
  by (auto simp: xu_single_list_entry_remove_next_def single_list_entry_unlink_def Let_def slist_def)

text \<open>The range removal of the iterator changes the chain and the counter; the last pointer stays.\<close>

lemma single_nremove:
  assumes s: "slist s h (us @ os @ vs)" and os: "os \<noteq> []"
  defines "t \<equiv> xu_single_list_entry_itor_nremove s h (before h us) (following vs) (length os)"
  shows "schain t (h # us @ vs @ [0])" and "ssz t h = length (us @ vs)" and "slast t = slast s"
    and "vs \<noteq> [] \<Longrightarrow> slist t h (us @ vs)"
proof -
  have t: "snx t = (snx s)(before h us := following vs)" "ssz t = (ssz s)(h := ssz s h - length os)" "slast t = slast s"
    using os by (simp_all add: t_def xu_single_list_entry_itor_nremove_def Let_def)
  show "slast t = slast s" and "ssz t h = length (us @ vs)" using t s by (simp_all add: slist_def)
  let ?t = "t\<lparr>slast := (slast s)(h := if vs \<noteq> [] then last vs else before h us)\<rparr>"
  have "slist ?t h (us @ [] @ vs)"
  proof (rule slist_relink [where os = os and s = s])
    show "snx ?t c = snx s c" if "c \<in> set (h # us @ vs)" "c \<noteq> before h us" for c using that(2) t by simp
    show "schain ?t (before h us # [] @ [following vs])" by (simp add: t)
  qed (use s t in \<open>simp_all add: slist_def\<close>)
  then have l: "slist ?t h (us @ vs)" by simp
  have c: "schain ?t xs = schain t xs" for xs by (rule schain_cong) simp
  show "schain t (h # us @ vs @ [0])" using l unfolding slist_def c by simp
  show "slist t h (us @ vs)" if "vs \<noteq> []"
    using l s that unfolding slist_def c by (auto simp: t)
qed

text \<open>C19. The list with one link: inserting behind the head or an entry, inserting at the tail,
  removing and replacing the entry behind a place, also at the head, and clearing do to the sequence of entries what
  their names say, keep the counter and the last pointer, also when the last entry is concerned, and leave every list
  with other entries as it is. For an empty list the last pointer is null after clearing and the head itself after the
  removal of its only entry; insertion works from both. The range removal of the iterator
  changes the chain and the counter as it should, but leaves the last pointer alone: the list is kept
  when an entry stays behind the range, and when none does the pointer stays at a removed entry.\<close>

theorem xu_single_list_entry_refines_list:
  assumes s: "slist s h (us @ os @ vs)" and e: "e \<notin> set (h # us @ os @ vs)" "e \<noteq> 0"
  shows "srelisted (set (e # h # us @ os @ vs)) s (xu_single_list_entry_insert_next s h (before h us) e) h (us @ e # os @ vs)
    \<and> srelisted (set (e # h # us @ os @ vs)) s (xu_single_list_entry_insert_head s h e) h (e # us @ os @ vs)
    \<and> srelisted (set (e # h # us @ os @ vs)) s (xu_single_list_entry_insert_tail s h e) h (us @ os @ vs @ [e])
    \<and> (\<forall>x. os = [x] \<longrightarrow>
         srelisted (set (h # us @ os @ vs)) s (xu_single_list_entry_remove_next s h (before h us)) h (us @ vs)
         \<and> (vs = [] \<longrightarrow> slast (xu_single_list_entry_remove_next s h (before h us)) h = before h us)
         \<and> srelisted (set (e # h # us @ os @ vs)) s (xu_single_list_entry_replace_next s h (before h us) e) h (us @ e # vs))
    \<and> srelisted (set (h # us @ os @ vs)) s (xu_single_list_entry_clear s h) h [] \<and> slast (xu_single_list_entry_clear s h) h = 0
    \<and> (os \<noteq> [] \<longrightarrow> (let t = xu_single_list_entry_itor_nremove s h (before h us) (following vs) (length os) in
         schain t (h # us @ vs @ [0]) \<and> ssz t h = length (us @ vs) \<and>
         (if vs \<noteq> [] then srelisted (set (h # us @ os @ vs)) s t h (us @ vs) else slast t h = last os)))"
proof (intro conjI allI impI)
  let ?A = "set (e # h # us @ os @ vs)" and ?B = "set (h # us @ os @ vs)"
  have a: "{h, before h us, e} \<subseteq> ?A" "{h, before h us} \<subseteq> ?B" "h \<in> ?B"
    using place_in(1) [of h us "os @ vs"] by (auto simp del: last.simps)
  show "srelisted ?A s (xu_single_list_entry_insert_next s h (before h us) e) h (us @ e # os @ vs)"
    using single_insert_next [OF s e] single_insert_next_same [OF a(1)] by (rule srelistedI)
  show "srelisted ?A s (xu_single_list_entry_insert_head s h e) h (e # us @ os @ vs)"
    using single_insert_next [of s h "[]" "us @ os @ vs" e] s e single_insert_next_same [of h h e ?A s]
    by (intro srelistedI) (simp_all add: xu_single_list_entry_insert_head_def)
  have "same_slinks ?A s (xu_single_list_entry_insert_tail s h e)"
    using slist_last_in [OF s] by (intro single_insert_tail_same) auto
  then show "srelisted ?A s (xu_single_list_entry_insert_tail s h e) h (us @ os @ vs @ [e])"
    using single_insert_tail [OF s e] by (intro srelistedI) simp_all
  show "srelisted ?B s (xu_single_list_entry_clear s h) h []"
    using s by (intro srelistedI single_clear_same a) (simp add: xu_single_list_entry_clear_def slist_def)
  show "slast (xu_single_list_entry_clear s h) h = 0" by (simp add: xu_single_list_entry_clear_def)
  fix x assume x: "os = [x]"
  show "srelisted ?B s (xu_single_list_entry_remove_next s h (before h us)) h (us @ vs)"
    using s x by (intro srelistedI single_remove_next_same a single_remove_next) simp
  show "slast (xu_single_list_entry_remove_next s h (before h us)) h = before h us" if "vs = []"
    using single_remove_last s x that by simp
  show "srelisted ?A s (xu_single_list_entry_replace_next s h (before h us) e) h (us @ e # vs)"
    using s e x by (intro srelistedI single_replace_next_same a single_replace_next [where x = x]) simp_all
next
  assume os: "os \<noteq> []"
  have a: "{h, before h us} \<subseteq> set (h # us @ os @ vs)"
    using place_in(1) [of h us "os @ vs"] by (auto simp del: last.simps)
  have "slast s h = last os" if "vs = []" using s os that by (simp add: slist_def)
  then show "let t = xu_single_list_entry_itor_nremove s h (before h us) (following vs) (length os) in
      schain t (h # us @ vs @ [0]) \<and> ssz t h = length (us @ vs) \<and>
      (if vs \<noteq> [] then srelisted (set (h # us @ os @ vs)) s t h (us @ vs) else slast t h = last os)"
    using single_nremove [OF s os] single_nremove_same [OF a]
    by (cases "vs = []") (simp_all add: Let_def srelistedI del: last.simps)
qed

theorem xu_single_list_entry_refines_list_witness:
  "(let s = xu_single_list_entry_insert_tail (xu_single_list_entry_insert_tail
       (xu_single_list_entry_init \<lparr>snx = \<lambda>_. 0, slast = \<lambda>_. 0, ssz = \<lambda>_. 0\<rparr> 8) 8 16) 8 24
    in slist (xu_single_list_entry_remove_next s 8 16) 8 [16]
      \<and> slist (xu_single_list_entry_insert_tail s 8 32) 8 [16, 24, 32])"
proof -
  let ?s = "xu_single_list_entry_insert_tail (xu_single_list_entry_insert_tail
       (xu_single_list_entry_init \<lparr>snx = \<lambda>_. 0, slast = \<lambda>_. 0, ssz = \<lambda>_. 0\<rparr> 8) 8 16) 8 24"
  have "slist ?s 8 ([16] @ [24] @ [])"
    by (simp add: slist_def xu_single_list_entry_init_def xu_single_list_entry_insert_tail_def
        xu_single_list_entry_insert_head_def xu_single_list_entry_insert_next_def Let_def)
  from xu_single_list_entry_refines_list [OF this, of 32] show ?thesis by (simp add: Let_def srelisted_def)
qed

text \<open>The range removal of the iterator of this list does not update the last pointer: after
  the last entries were removed with it, an entry that is inserted at the tail is appended to a
  removed entry, so the counter says one more than the entries that can be reached.\<close>

theorem xu_single_list_entry_nremove_loses_tail:
  assumes s: "slist s h (us @ os)" and "us \<noteq> []" and "os \<noteq> []" and e: "e \<notin> set (h # us @ os)" "e \<noteq> 0"
  shows "let s' = xu_single_list_entry_insert_tail
           (xu_single_list_entry_itor_nremove s h (before h us) 0 (length os)) h e
    in ssz s' h = length us + 1 \<and> schain s' (h # us @ [0])"
proof -
  let ?n = "xu_single_list_entry_itor_nremove s h (before h us) 0 (length os)"
  define a z where az: "a = before h us" "z = last os"
  have sz: "ssz s h = length us + length os" and la: "slast s h = z" and d: "distinct (h # us @ os)" "0 \<notin> set (h # us @ os)"
    using s assms(3) by (auto simp: slist_def az)
  have "z \<in> set os" using assms(3) unfolding az by simp
  moreover from this have "z \<noteq> 0" using d(2) by (metis Un_iff list.set_intros(2) set_append)
  ultimately have z: "z \<in> set os" "z \<noteq> 0" .
  have az_ne: "a \<in> set us" "a \<noteq> h" using assms(2) d(1) unfolding az by auto
  have n: "snx ?n = (snx s)(a := 0)" "slast ?n = slast s" "ssz ?n h = length us"
    using assms(3) sz unfolding az by (simp_all add: xu_single_list_entry_itor_nremove_def Let_def)
  have "snx s h = hd us" using slist_link [of s h "[]" "us @ os"] s assms(2) by simp
  then have h0: "snx s h \<noteq> 0" using assms(2) d(2) by (metis Un_iff hd_in_set list.set_intros(2) set_append)
  let ?s = "xu_single_list_entry_insert_tail ?n h e"
  have f: "snx ?s = (snx s)(a := 0, e := snx s z, z := e)" "ssz ?s h = length us + 1"
    using la z n h0 az_ne d unfolding xu_single_list_entry_insert_tail_def xu_single_list_entry_insert_next_def Let_def
    by auto
  have "schain s ((h # us) @ os @ [0])" using s by (simp add: slist_def)
  then have c: "schain s (h # us)"
    using schain_append [of s "butlast (h # us)" a "os @ [0]"] append_butlast_last_id [of "h # us"]
    unfolding az by (metis append.assoc append_Cons append_Nil list.simps(3))
  have P: "h # us = butlast (h # us) @ [a]" unfolding az by (rule append_butlast_last_id [symmetric]) simp
  have "schain ?s (h # us)"
  proof (subst schain_cong [of _ _ s])
    fix c assume c: "c \<in> set (butlast (h # us))"
    then have "c \<noteq> a" using ring_ends(1) [of h us os "[]"] d unfolding az by auto
    then show "snx ?s c = snx s c" using in_set_butlastD [OF c] e(1) z(1) d(1) unfolding f by auto
  qed (rule c)
  moreover have "snx ?s a = 0" using az_ne e(1) z(1) d(1) unfolding f by auto
  ultimately have "schain ?s (h # us @ [0])"
    using schain_append [of ?s "butlast (h # us)" a "[0]"] P by (metis append.assoc append_Cons append_Nil schain.simps(1,3))
  then show ?thesis using f(2) by (simp add: Let_def)
qed

theorem xu_single_list_entry_nremove_loses_tail_witness:
  "(let s = xu_single_list_entry_insert_tail (xu_single_list_entry_insert_tail
       (xu_single_list_entry_init \<lparr>snx = \<lambda>_. 0, slast = \<lambda>_. 0, ssz = \<lambda>_. 0\<rparr> 8) 8 16) 8 24;
        s' = xu_single_list_entry_insert_tail (xu_single_list_entry_itor_nremove s 8 16 0 1) 8 32
    in ssz s' 8 = 2 \<and> schain s' [8, 16, 0])"
proof -
  let ?s = "xu_single_list_entry_insert_tail (xu_single_list_entry_insert_tail
       (xu_single_list_entry_init \<lparr>snx = \<lambda>_. 0, slast = \<lambda>_. 0, ssz = \<lambda>_. 0\<rparr> 8) 8 16) 8 24"
  have "slist ?s 8 ([16] @ [24])"
    by (simp add: slist_def xu_single_list_entry_init_def xu_single_list_entry_insert_tail_def
        xu_single_list_entry_insert_head_def xu_single_list_entry_insert_next_def Let_def)
  from xu_single_list_entry_nremove_loses_tail [OF this, of 32] show ?thesis by (simp add: Let_def)
qed

end
