(* ===== verification/XListCorrect.thy ===== *)
theory XListCorrect
  imports XList XListEntryCorrect XSearchCorrect
begin

text \<open>
  The lists of items: an operation on a list changes the sequence of its nodes and their items as
  its name says, the pool holds exactly the nodes of the list, and removing by a predicate is
  filtering for every container whose positions are the addresses of linked nodes.
\<close>

section \<open>Removing from linked nodes\<close>

text \<open>The positions are the nodes \<open>cs\<close>; the tail is the position in front of the first node, too.
  A removal keeps the tail and the items of the other nodes.\<close>

locale linked_container =
  fixes ops :: "('s, 'a) iterator_op" and rep :: "'s \<Rightarrow> nat list \<Rightarrow> bool"
  assumes link_forward: "op_has_mode ops XU_ITERATOR_MODE_FORWARD"
    and link_fixed: "\<not> op_has_mode ops XU_ITERATOR_MODE_MUTABLE"
    and link_write: "\<not> op_has_mode ops XU_ITERATOR_MODE_READONLY"
    and link_tail: "rep s cs \<Longrightarrow> op_tail ops s \<notin> set cs"
    and link_distinct: "rep s cs \<Longrightarrow> distinct cs"
    and link_head: "rep s cs \<Longrightarrow> op_head ops s = (cs @ [op_tail ops s]) ! 0"
    and link_next: "rep s cs \<Longrightarrow> i < length cs \<Longrightarrow> op_next ops s (cs ! i) = (cs @ [op_tail ops s]) ! Suc i"
    and link_nremove: "rep s cs \<Longrightarrow> n \<noteq> 0 \<Longrightarrow> j + n \<le> length cs \<Longrightarrow>
      s' = op_nremove ops s ((op_tail ops s # cs) ! j) ((cs @ [op_tail ops s]) ! (j + n)) n \<Longrightarrow>
      rep s' (take j cs @ drop (j + n) cs) \<and> op_tail ops s' = op_tail ops s
      \<and> (\<forall>c \<in> set (take j cs @ drop (j + n) cs). op_item ops s' c = op_item ops s c)"
begin

text \<open>The kept nodes \<open>[0, j)\<close>, the pending ones \<open>[j, i)\<close> and the node \<open>i\<close> that is looked at.\<close>

definition link_inv :: "('a \<Rightarrow> bool) \<Rightarrow> 's \<Rightarrow> remove_vars \<Rightarrow> nat list \<Rightarrow> nat \<Rightarrow> nat \<Rightarrow> bool" where
  "link_inv p s v cs j i \<longleftrightarrow> rep s cs \<and> j \<le> i \<and> i \<le> length cs \<and> \<not> rv_break v
     \<and> rv_itor v = (cs @ [op_tail ops s]) ! i \<and> rv_need v = (j < i) \<and> rv_size v = i - j
     \<and> (\<forall>k. j \<le> k \<longrightarrow> k < i \<longrightarrow> p (op_item ops s (cs ! k))) \<and> (j < i \<longrightarrow> i < length cs)
     \<and> (if j < i then rv_base v = (op_tail ops s # cs) ! j
        else j < length cs \<longrightarrow> rv_prev v = (op_tail ops s # cs) ! j)"

lemma link_at_tail:
  assumes "rep s cs" and "i \<le> length cs"
  shows "(cs @ [op_tail ops s]) ! i = op_tail ops s \<longleftrightarrow> i = length cs"
proof (cases "i = length cs")
  case False
  then have "i < length cs" using assms(2) by simp
  moreover from this have "cs ! i \<noteq> op_tail ops s" using link_tail [OF assms(1)] by (metis nth_mem)
  ultimately show ?thesis by (simp add: nth_append)
qed simp

abbreviation kept :: "('a \<Rightarrow> bool) \<Rightarrow> 's \<Rightarrow> nat list \<Rightarrow> nat list" where
  "kept p s cs \<equiv> filter (\<lambda>c. \<not> p (op_item ops s c)) cs"

lemma kept_cong: "(\<And>c. c \<in> set cs \<Longrightarrow> op_item ops s' c = op_item ops s c) \<Longrightarrow> kept p s' cs = kept p s cs"
  by (rule filter_cong) simp_all

lemma kept_pending:
  assumes "\<And>k. j \<le> k \<Longrightarrow> k < i \<Longrightarrow> p (op_item ops s (cs ! k))" and "i \<le> length cs" and "j \<le> i"
  shows "kept p s (drop j cs) = kept p s (drop i cs)"
proof -
  have "drop j cs = take (i - j) (drop j cs) @ drop i cs"
    using assms(3) append_take_drop_id [of "i - j" "drop j cs"] by simp
  moreover have "\<forall>c \<in> set (take (i - j) (drop j cs)). p (op_item ops s c)"
    using slice_nth [of _ i j cs] assms(1) by blast
  then have "kept p s (take (i - j) (drop j cs)) = []" by simp
  ultimately show ?thesis by (metis append_Nil filter_append)
qed

lemma link_turn_step:
  assumes li: "link_inv p s v cs j i" and i: "i < length cs"
    and turn: "remove_turn ops (xu_remove_if_pred p) s v = (s', v', go)"
  shows "go \<and> (\<exists>cs' j' i'. link_inv p s' v' cs' j' i' \<and> length cs' - i' < length cs - i
    \<and> op_tail ops s' = op_tail ops s
    \<and> (\<forall>c \<in> set (take j' cs' @ kept p s' (drop j' cs')). op_item ops s' c = op_item ops s c)
    \<and> take j' cs' @ kept p s' (drop j' cs') = take j cs @ kept p s (drop j cs))"
proof -
  let ?t = "op_tail ops s" and ?x = "cs ! i"
  have rep: "rep s cs" and j: "j \<le> i" and brk: "\<not> rv_break v" and need: "rv_need v = (j < i)"
    and itor: "rv_itor v = ?x" and size: "rv_size v = i - j"
    and pend: "\<And>k. j \<le> k \<Longrightarrow> k < i \<Longrightarrow> p (op_item ops s (cs ! k))"
    using li i by (auto simp: link_inv_def nth_append)
  define nxt where "nxt = (cs @ [?t]) ! Suc i"
  have nx: "op_next ops s ?x = nxt" using link_next [OF rep i] by (simp add: nxt_def)
  have tl: "nxt = ?t \<longleftrightarrow> Suc i = length cs" using link_at_tail [OF rep, of "Suc i"] i by (simp add: nxt_def)
  define base where "base = (if p (op_item ops s ?x) \<and> \<not> rv_need v then rv_prev v else rv_base v)"
  have base: "base = (?t # cs) ! j" if "j < i \<or> p (op_item ops s ?x)"
    using li that i need by (auto simp: link_inv_def base_def split: if_splits)
  have pk: "kept p s (drop j cs) = kept p s (drop i cs)"
    using kept_pending [of j i p s cs] pend i j by simp
  have dropi: "drop i cs = ?x # drop (Suc i) cs" using i by (simp add: Cons_nth_drop_Suc)
  note turn_simps = remove_turn_def xu_remove_if_pred_def Let_def base_def nx itor
  consider (A) "p (op_item ops s ?x)" "Suc i < length cs" | (B) "p (op_item ops s ?x)" "Suc i = length cs"
    | (C) "\<not> p (op_item ops s ?x)" "j < i" | (D) "\<not> p (op_item ops s ?x)" "j = i"
    using i j by fastforce
  then show ?thesis
  proof cases
    case A
    then have e: "s' = s" "go"
      "v' = v\<lparr>rv_base := base, rv_need := True, rv_size := rv_size v + 1, rv_prev := ?x, rv_itor := nxt\<rparr>"
      using turn brk tl by (auto simp: turn_simps)
    have pend': "p (op_item ops s (cs ! k))" if "j \<le> k" "k < Suc i" for k
      using pend [of k] A that by (cases "k = i") auto
    have "link_inv p s' v' cs j (Suc i)"
      using e A rep j brk size pend' base by (simp add: link_inv_def nxt_def)
    then show ?thesis using e A by (intro conjI exI [of _ cs] exI [of _ j] exI [of _ "Suc i"]) auto
  next
    case B
    let ?u = "op_nremove ops s base nxt (rv_size v + 1)"
    have "nxt = (cs @ [?t]) ! (j + (rv_size v + 1))" using size j by (simp add: nxt_def)
    then have r: "rep ?u (take j cs)" "op_tail ops ?u = ?t" "\<forall>c \<in> set (take j cs). op_item ops ?u c = op_item ops s c"
      using link_nremove [OF rep, of "rv_size v + 1" j ?u] B j size base by auto
    have e: "s' = ?u" "go"
      "v' = v\<lparr>rv_base := base, rv_need := False, rv_size := 0, rv_prev := ?x, rv_itor := ?t\<rparr>"
      using turn brk tl B link_fixed by (auto simp: turn_simps)
    have "link_inv p s' v' (take j cs) j j"
      using e r brk j i by (simp add: link_inv_def nth_append)
    moreover have "kept p s (drop i cs) = []" using B by (simp add: dropi)
    ultimately show ?thesis
      using e r i j pk B by (intro conjI exI [of _ "take j cs"] exI [of _ j]) (auto simp del: drop_eq_Nil)
  next
    case C
    let ?u = "op_nremove ops s base ?x (rv_size v)"
    let ?cs = "take j cs @ drop i cs"
    have "?x = (cs @ [?t]) ! (j + rv_size v)" using size j i by (simp add: nth_append)
    then have r: "rep ?u ?cs" "op_tail ops ?u = ?t" "\<forall>c \<in> set ?cs. op_item ops ?u c = op_item ops s c"
      using link_nremove [OF rep, of "rv_size v" j ?u] C j size base i by auto
    have e: "s' = ?u" "go"
      "v' = v\<lparr>rv_base := base, rv_need := False, rv_size := 0, rv_prev := ?x, rv_itor := nxt\<rparr>"
      using turn brk C link_fixed need by (auto simp: turn_simps)
    have cs: "?cs = (take j cs @ [?x]) @ drop (Suc i) cs" by (simp add: dropi)
    have tk: "take (Suc j) ?cs = take j cs @ [?x]" "drop (Suc j) ?cs = drop (Suc i) cs"
      using j i by (simp_all add: min_def take_Suc_conv_app_nth)
    have "rv_itor v' = (?cs @ [?t]) ! Suc j"
    proof (cases "Suc i = length cs")
      case True
      then show ?thesis using e C j i by (auto simp: nxt_def nth_append min_def)
    next
      case False
      then have "nxt = cs ! Suc i" using i by (simp add: nxt_def nth_append)
      moreover from this have "Suc 0 < length cs - i" using i False by simp
      ultimately show ?thesis using e C j i by (simp add: nth_append min_def)
    qed
    moreover have "(?t # ?cs) ! Suc j = ?x" using j i by (simp add: nth_append min_def)
    ultimately have "link_inv p s' v' ?cs (Suc j) (Suc j)"
      using e r brk i j by (simp add: link_inv_def)
    moreover have "kept p s' (drop (Suc j) ?cs) = kept p s (drop (Suc i) cs)"
      using r(3) e(1) unfolding tk by (intro kept_cong) (auto dest: in_set_dropD simp: dropi)
    ultimately show ?thesis
      using e r i j C pk dropi tk
      by (intro conjI exI [of _ ?cs] exI [of _ "Suc j"]) (auto simp: cs)
  next
    case D
    then have e: "s' = s" "go" "v' = v\<lparr>rv_base := rv_base v, rv_prev := ?x, rv_itor := nxt\<rparr>"
      using turn brk need by (auto simp: turn_simps)
    have "link_inv p s' v' cs (Suc i) (Suc i)" using e D rep brk size need i by (simp add: link_inv_def nxt_def)
    then show ?thesis
      using e D i dropi by (intro conjI exI [of _ cs] exI [of _ "Suc i"]) (auto simp: take_Suc_conv_app_nth)
  qed
qed

lemma link_loop_filter:
  assumes "link_inv p s v cs j i"
  shows "\<exists>s' cs'. remove_loop ops (xu_remove_if_pred p) s v = Some s' \<and> rep s' cs'
    \<and> cs' = take j cs @ kept p s (drop j cs) \<and> (\<forall>c \<in> set cs'. op_item ops s' c = op_item ops s c)"
  using assms
proof (induction "length cs - i" arbitrary: s v cs j i rule: less_induct)
  case less
  have rep: "rep s cs" and le: "i \<le> length cs" and it: "rv_itor v = (cs @ [op_tail ops s]) ! i"
    using less.prems by (auto simp: link_inv_def)
  show ?case
  proof (cases "i = length cs")
    case True
    then have "j = length cs" using less.prems by (auto simp: link_inv_def)
    then show ?thesis using True rep it by (subst remove_loop.simps) simp
  next
    case False
    obtain s' v' go where t: "remove_turn ops (xu_remove_if_pred p) s v = (s', v', go)"
      by (cases "remove_turn ops (xu_remove_if_pred p) s v")
    have "i < length cs" using False le by simp
    from link_turn_step [OF less.prems this t] obtain cs' j' i' where st: "go" "link_inv p s' v' cs' j' i'"
      "length cs' - i' < length cs - i"
      "\<forall>c \<in> set (take j' cs' @ kept p s' (drop j' cs')). op_item ops s' c = op_item ops s c"
      "take j' cs' @ kept p s' (drop j' cs') = take j cs @ kept p s (drop j cs)" by (elim exE conjE)
    have "remove_loop ops (xu_remove_if_pred p) s v = remove_loop ops (xu_remove_if_pred p) s' v'"
      using t st(1) False it link_at_tail [OF rep le] by (subst remove_loop.simps) simp
    moreover from less.hyps [OF st(3,2)] obtain s2 cs2 where "remove_loop ops (xu_remove_if_pred p) s' v' = Some s2"
      "rep s2 cs2" "cs2 = take j cs @ kept p s (drop j cs)" "\<forall>c \<in> set cs2. op_item ops s2 c = op_item ops s' c"
      unfolding st(5) by blast
    ultimately show ?thesis using st(4) unfolding st(5) by (intro exI [of _ s2] exI [of _ cs2]) simp
  qed
qed

lemma link_remove_if:
  assumes "rep s cs"
  shows "\<exists>s'. xu_remove_if ops s p = Some s' \<and> rep s' (kept p s cs)
    \<and> (\<forall>c \<in> set (kept p s cs). op_item ops s' c = op_item ops s c)"
proof -
  let ?v = "\<lparr>rv_prev = op_tail ops s, rv_itor = op_head ops s, rv_base = op_tail ops s,
    rv_need = False, rv_size = 0, rv_break = False\<rparr>"
  have "link_inv p s ?v cs 0 0"
    using assms link_head [OF assms] by (simp add: link_inv_def)
  then show ?thesis
    using link_loop_filter [of p s ?v cs 0 0] link_forward link_write
    by (auto simp: xu_remove_if_def xu_remove_if_until_def)
qed

end

section \<open>The list with two links\<close>

text \<open>The nodes of the list, all of them and no others taken from the pool, each with one item.\<close>

definition list_rep :: "xlist \<Rightarrow> nat list \<Rightarrow> bool" where
  "list_rep l cs \<longleftrightarrow> dlist (l_links l) (l_head l) cs \<and> mset (l_pool l) = mset cs
     \<and> (\<forall>c. length (l_data l c) = 1) \<and> (l_elem l = xu_element_long \<or> l_elem l = xu_element_size)"

lemma list_rep_elem: "list_rep l cs \<Longrightarrow> value_element (l_elem l)"
  using long_element.value_element_axioms size_element.value_element_axioms by (auto simp: list_rep_def)

lemma list_rep_dlist: "list_rep l cs \<Longrightarrow> dlist (l_links l) (l_head l) cs"
  by (simp add: list_rep_def)

lemma list_rep_size: "list_rep l cs \<Longrightarrow> xu_list_size l = length cs"
  by (simp add: list_rep_def dlist_def xu_list_size_def xu_list_entry_size_def)

lemma list_rep_nodes: "list_rep l cs \<Longrightarrow> distinct (l_head l # cs) \<and> 0 \<notin> set (l_head l # cs)"
  by (simp add: list_rep_def dlist_def)

lemma list_item: "list_rep l cs \<Longrightarrow> xu_list_itor_item l c = l_data l c ! 0"
  using value_element.data_cell [OF list_rep_elem] by (simp add: xu_list_itor_item_def)

lemma list_pool_free_fields:
  "l_head (list_pool_free l x) = l_head l" "l_links (list_pool_free l x) = l_links l"
  "l_elem (list_pool_free l x) = l_elem l" "l_pool (list_pool_free l x) = remove1 x (l_pool l)"
  "c \<noteq> x \<Longrightarrow> l_data (list_pool_free l x) c = l_data l c"
  by (auto simp: list_pool_free_def xu_list_item_exit_def split: option.splits)

lemma list_pool_free_length:
  assumes "value_element (l_elem l)" and "\<forall>c. length (l_data l c) = 1"
  shows "length (l_data (list_pool_free l x) c) = 1"
  using assms value_element.free_length [OF assms(1)]
  by (auto simp: list_pool_free_def xu_list_item_exit_def split: option.splits)

lemma list_remove_rep:
  assumes r: "list_rep l (us @ x # vs)"
  defines "l' \<equiv> snd (xu_list_remove l x)"
  shows "fst (xu_list_remove l x) = after (l_head l) vs" and "list_rep l' (us @ vs)" and "l_head l' = l_head l"
    and "c \<noteq> x \<Longrightarrow> xu_list_itor_item l' c = xu_list_itor_item l c"
proof -
  let ?m = "l\<lparr>l_links := xu_list_entry_remove (l_links l) (l_head l) x\<rparr>"
  have x: "x \<noteq> 0" using list_rep_nodes [OF r] by auto
  then have e: "xu_list_remove l x = (xu_list_entry_next (l_links l) x, list_pool_free ?m x)"
    by (simp add: xu_list_remove_def Let_def)
  show "fst (xu_list_remove l x) = after (l_head l) vs"
    using dlist_entry_links(3) [OF list_rep_dlist [OF r]] by (simp add: e xu_list_entry_next_def)
  have d: "dlist (xu_list_entry_remove (l_links l) (l_head l) x) (l_head l) (us @ vs)"
    by (rule remove_dlist [OF list_rep_dlist [OF r]])
  have "x \<notin> set us" using list_rep_nodes [OF r] by simp
  then have p: "mset (remove1 x (l_pool l)) = mset (us @ vs)" using r by (simp add: list_rep_def)
  have "\<forall>c. length (l_data (list_pool_free ?m x) c) = 1"
    using list_pool_free_length [of ?m x] list_rep_elem [OF r] r by (simp add: list_rep_def)
  then show rep: "list_rep l' (us @ vs)"
    using d p r by (simp add: l'_def e list_rep_def list_pool_free_fields)
  show "l_head l' = l_head l" by (simp add: l'_def e list_pool_free_fields)
  show "xu_list_itor_item l' c = xu_list_itor_item l c" if "c \<noteq> x"
    using that by (simp add: l'_def e xu_list_itor_item_def list_pool_free_fields)
qed

lemma list_nremove_rep:
  assumes "list_rep l (us @ os @ vs)"
    and "l' = list_nremove_body l (hd (os @ vs @ [l_head l])) (after (l_head l) vs) (length os)"
  shows "list_rep l' (us @ vs) \<and> l_head l' = l_head l
    \<and> (\<forall>c \<in> set (us @ vs). xu_list_itor_item l' c = xu_list_itor_item l c)"
  using assms
proof (induction os arbitrary: l)
  case (Cons x os)
  have r: "list_rep l (us @ x # os @ vs)" using Cons.prems(1) by simp
  note rm = list_remove_rep [OF r]
  define l1 where "l1 = snd (xu_list_remove l x)"
  have "after (l_head l) vs \<in> set (l_head l # vs)" by (cases vs) auto
  then have "x \<noteq> after (l_head l) vs" "x \<notin> set (us @ vs)" using list_rep_nodes [OF r] by auto
  then have "l' = list_nremove_body l1 (hd (os @ vs @ [l_head l1])) (after (l_head l1) vs) (length os)"
    using Cons.prems(2) rm(1,3) unfolding l1_def by (simp add: prod.case_eq_if)
  moreover have "\<forall>c \<in> set (us @ vs). xu_list_itor_item l1 c = xu_list_itor_item l c"
    using rm(4) \<open>x \<notin> set (us @ vs)\<close> unfolding l1_def by metis
  ultimately show ?case
    using Cons.IH [of l1] rm(2,3) unfolding l1_def by simp
qed simp

interpretation list_links: linked_container list_op list_rep
proof
  show "op_has_mode list_op XU_ITERATOR_MODE_FORWARD" "\<not> op_has_mode list_op XU_ITERATOR_MODE_MUTABLE"
    "\<not> op_has_mode list_op XU_ITERATOR_MODE_READONLY"
    by (simp_all add: op_has_mode_def list_op_def iterator_modes)
  fix l cs i n j s' assume r: "list_rep l cs"
  have tail: "op_tail list_op l = l_head l" by (simp add: list_op_def xu_list_itor_tail_def xu_list_entry_tail_def)
  show "op_tail list_op l \<notin> set cs" "distinct cs" using list_rep_nodes [OF r] by (simp_all add: tail)
  show "op_head list_op l = (cs @ [op_tail list_op l]) ! 0"
    using dlist_links(1) [of "l_links l" "l_head l" "[]" cs] list_rep_dlist [OF r]
    by (simp add: list_op_def xu_list_itor_head_def xu_list_entry_head_def xu_list_itor_tail_def xu_list_entry_tail_def
        hd_conv_nth)
  show "op_next list_op l (cs ! i) = (cs @ [op_tail list_op l]) ! Suc i" if i: "i < length cs"
  proof -
    have "cs = take i cs @ cs ! i # drop (Suc i) cs" using i by (simp add: id_take_nth_drop)
    then have "nx (l_links l) (cs ! i) = after (l_head l) (drop (Suc i) cs)"
      using dlist_entry_links(3) list_rep_dlist [OF r] by metis
    then show ?thesis using i
      by (simp add: list_op_def xu_list_itor_next_def xu_list_entry_next_def xu_list_itor_tail_def
          xu_list_entry_tail_def hd_conv_nth nth_append)
  qed
  assume n: "n \<noteq> 0" "j + n \<le> length cs"
    and s': "s' = op_nremove list_op l ((op_tail list_op l # cs) ! j) ((cs @ [op_tail list_op l]) ! (j + n)) n"
  define us os vs where parts: "us = take j cs" "os = take n (drop j cs)" "vs = drop (j + n) cs"
  have cs: "cs = us @ os @ vs" unfolding parts by (metis append_take_drop_id drop_drop add.commute)
  have len: "length us = j" "length os = n" using n unfolding parts by simp_all
  have pr: "(l_head l # cs) ! j = before (l_head l) us"
    using len by (cases us rule: rev_cases) (auto simp: cs nth_append)
  have ne: "(cs @ [l_head l]) ! (j + n) = after (l_head l) vs"
    using len by (cases vs) (auto simp: cs nth_append)
  have first: "xu_list_itor_next l (before (l_head l) us) = hd (os @ vs @ [l_head l])"
    using dlist_links(1) [of "l_links l" "l_head l" us "os @ vs"] list_rep_dlist [OF r]
    by (simp add: cs xu_list_itor_next_def xu_list_entry_next_def)
  have "before (l_head l) us \<noteq> 0"
    using before_in [of "l_head l" us] list_rep_nodes [OF r] unfolding cs by (metis Un_iff set_append list.set_intros append_Cons)
  moreover define a where "a = before (l_head l) us"
  moreover have "cs \<noteq> []" "\<not> length cs < n" using n by auto
  ultimately have "s' = list_nremove_body l (hd (os @ vs @ [l_head l])) (after (l_head l) vs) (length os)"
    using s' n(1) list_rep_size [OF r] first len unfolding tail pr ne a_def [symmetric]
    by (simp add: list_op_def xu_list_itor_nremove_def)
  from list_nremove_rep [OF r [unfolded cs] this]
  show "list_rep s' (take j cs @ drop (j + n) cs) \<and> op_tail list_op s' = op_tail list_op l
    \<and> (\<forall>c \<in> set (take j cs @ drop (j + n) cs). op_item list_op s' c = op_item list_op l c)"
    unfolding parts by (simp add: list_op_def xu_list_itor_tail_def xu_list_entry_tail_def)
qed

section \<open>The list with one link\<close>

definition single_rep :: "xsingle \<Rightarrow> nat list \<Rightarrow> bool" where
  "single_rep l cs \<longleftrightarrow> slist (s_links l) (s_head l) cs \<and> mset (s_pool l) = mset cs
     \<and> (\<forall>c. length (s_data l c) = 1) \<and> (s_elem l = xu_element_long \<or> s_elem l = xu_element_size)"

lemma single_rep_elem: "single_rep l cs \<Longrightarrow> value_element (s_elem l)"
  using long_element.value_element_axioms size_element.value_element_axioms by (auto simp: single_rep_def)

lemma single_rep_slist: "single_rep l cs \<Longrightarrow> slist (s_links l) (s_head l) cs"
  by (simp add: single_rep_def)

lemma single_rep_size: "single_rep l cs \<Longrightarrow> xu_single_list_size l = length cs"
  by (simp add: single_rep_def slist_def xu_single_list_size_def xu_single_list_entry_size_def)

lemma single_rep_nodes: "single_rep l cs \<Longrightarrow> distinct (s_head l # cs) \<and> 0 \<notin> set (s_head l # cs)"
  by (simp add: single_rep_def slist_def)

lemma single_item: "single_rep l cs \<Longrightarrow> xu_single_list_itor_item l c = s_data l c ! 0"
  using value_element.data_cell [OF single_rep_elem] by (simp add: xu_single_list_itor_item_def)

lemma single_pool_free_fields:
  "s_head (single_pool_free l x) = s_head l" "s_links (single_pool_free l x) = s_links l"
  "s_elem (single_pool_free l x) = s_elem l" "s_pool (single_pool_free l x) = remove1 x (s_pool l)"
  "c \<noteq> x \<Longrightarrow> s_data (single_pool_free l x) c = s_data l c"
  by (auto simp: single_pool_free_def xu_single_list_item_exit_def split: option.splits)

lemma single_pool_free_length:
  assumes "value_element (s_elem l)" and "\<forall>c. length (s_data l c) = 1"
  shows "length (s_data (single_pool_free l x) c) = 1"
  using assms value_element.free_length [OF assms(1)]
  by (auto simp: single_pool_free_def xu_single_list_item_exit_def split: option.splits)

text \<open>Unlinking the node behind a place and giving it back to the pool.\<close>

lemma single_take_out:
  assumes r: "single_rep l (us @ x # vs)"
  defines "l' \<equiv> single_pool_free
    (l\<lparr>s_links := xu_single_list_entry_remove_next (s_links l) (s_head l) (before (s_head l) us)\<rparr>) x"
  shows "single_rep l' (us @ vs)" and "s_head l' = s_head l"
    and "c \<noteq> x \<Longrightarrow> xu_single_list_itor_item l' c = xu_single_list_itor_item l c"
proof -
  let ?m = "l\<lparr>s_links := xu_single_list_entry_remove_next (s_links l) (s_head l) (before (s_head l) us)\<rparr>"
  have d: "slist (s_links ?m) (s_head l) (us @ vs)"
    using single_remove_next [OF single_rep_slist [OF r]] by simp
  have "x \<notin> set us" using single_rep_nodes [OF r] by simp
  then have p: "mset (remove1 x (s_pool l)) = mset (us @ vs)" using r by (simp add: single_rep_def)
  have "\<forall>c. length (s_data (single_pool_free ?m x) c) = 1"
    using single_pool_free_length [of ?m x] single_rep_elem [OF r] r by (simp add: single_rep_def)
  then show "single_rep l' (us @ vs)"
    using d p r unfolding l'_def single_rep_def single_pool_free_fields by (simp del: last.simps)
  show "s_head l' = s_head l" by (simp add: l'_def single_pool_free_fields)
  show "xu_single_list_itor_item l' c = xu_single_list_itor_item l c" if "c \<noteq> x"
    using that by (simp add: l'_def xu_single_list_itor_item_def single_pool_free_fields)
qed

lemma single_remove_next_eq:
  assumes r: "single_rep l (us @ x # vs)"
  shows "xu_single_list_remove_next l (before (s_head l) us) = single_pool_free
    (l\<lparr>s_links := xu_single_list_entry_remove_next (s_links l) (s_head l) (before (s_head l) us)\<rparr>) x"
proof -
  define a where "a = before (s_head l) us"
  have "x \<noteq> 0" "a \<in> set (s_head l # us)"
    using single_rep_nodes [OF r] before_in [of "s_head l" us] unfolding a_def by auto
  moreover from this have "a \<noteq> 0" using single_rep_nodes [OF r] by auto
  moreover have "snx (s_links l) a = x"
    using slist_link [OF single_rep_slist [OF r]] unfolding a_def by simp
  ultimately show ?thesis unfolding a_def [symmetric]
    by (simp add: xu_single_list_remove_next_def xu_single_list_entry_next_def)
qed

lemma single_remove_head_eq:
  assumes r: "single_rep l (x # vs)"
  shows "xu_single_list_remove_head l = xu_single_list_remove_next l (s_head l)"
proof -
  have "x \<noteq> 0" "s_head l \<noteq> 0" using single_rep_nodes [OF r] by auto
  moreover have "snx (s_links l) (s_head l) = x"
    using slist_link [of "s_links l" "s_head l" "[]" "x # vs"] single_rep_slist [OF r] by simp
  ultimately show ?thesis
    by (simp add: xu_single_list_remove_head_def xu_single_list_remove_next_def xu_single_list_entry_head_def
        xu_single_list_entry_next_def xu_single_list_entry_remove_head_def xu_single_list_entry_remove_next_def)
qed

lemma single_nremove_rep:
  assumes "single_rep l (us @ os @ vs)"
    and "l' = ((\<lambda>l. xu_single_list_remove_next l (before (s_head l) us)) ^^ length os) l"
  shows "single_rep l' (us @ vs) \<and> s_head l' = s_head l
    \<and> (\<forall>c \<in> set (us @ vs). xu_single_list_itor_item l' c = xu_single_list_itor_item l c)"
  using assms
proof (induction os arbitrary: l)
  case (Cons x os)
  have r: "single_rep l (us @ x # os @ vs)" using Cons.prems(1) by simp
  note rm = single_take_out [OF r]
  define l1 where "l1 = xu_single_list_remove_next l (before (s_head l) us)"
  have l1: "single_rep l1 (us @ os @ vs)" "s_head l1 = s_head l"
    and it: "\<And>c. c \<noteq> x \<Longrightarrow> xu_single_list_itor_item l1 c = xu_single_list_itor_item l c"
    using rm unfolding l1_def single_remove_next_eq [OF r] by blast+
  have "x \<notin> set (us @ vs)" using single_rep_nodes [OF r] by auto
  then have "\<forall>c \<in> set (us @ vs). xu_single_list_itor_item l1 c = xu_single_list_itor_item l c"
    using it by metis
  moreover have "l' = ((\<lambda>l. xu_single_list_remove_next l (before (s_head l) us)) ^^ length os) l1"
    using Cons.prems(2) unfolding l1_def by (simp add: funpow_Suc_right del: last.simps funpow.simps)
  ultimately show ?case using Cons.IH [OF l1(1)] l1(2) by (simp del: last.simps)
qed simp

text \<open>Both ways of the range removal take out one node after the other behind the place.\<close>

lemma single_nremove_body_steps:
  assumes "single_rep l (us @ os @ vs)"
  shows "single_nremove_body l (before (s_head l) us) (following vs) False (length os)
    = ((\<lambda>l. xu_single_list_remove_next l (before (s_head l) us)) ^^ length os) l"
  using assms
proof (induction os arbitrary: l)
  case (Cons x os)
  have r: "single_rep l (us @ x # os @ vs)" using Cons.prems by simp
  define a l1 where "a = before (s_head l) us" and "l1 = xu_single_list_remove_next l a"
  have l1: "single_rep l1 (us @ os @ vs)" "before (s_head l1) us = a"
    using single_take_out(1,2) [OF r] unfolding l1_def a_def single_remove_next_eq [OF r] by simp_all
  have "xu_single_list_itor_next l a = x"
    using slist_link [OF single_rep_slist [OF r]]
    by (simp add: a_def xu_single_list_itor_next_def xu_single_list_entry_next_def)
  moreover have "x \<noteq> following vs" using single_rep_nodes [OF r] by (cases vs) auto
  ultimately have "single_nremove_body l a (following vs) False (Suc (length os))
      = single_nremove_body l1 a (following vs) False (length os)"
    by (simp add: l1_def)
  then show ?case using Cons.IH [OF l1(1)] unfolding l1(2)
    by (simp add: funpow_Suc_right a_def [symmetric] l1_def [symmetric] del: last.simps funpow.simps)
qed simp

lemma single_remove_heads_steps:
  assumes "single_rep l (os @ vs)"
  shows "(xu_single_list_remove_head ^^ length os) l
    = ((\<lambda>l. xu_single_list_remove_next l (s_head l)) ^^ length os) l"
  using assms
proof (induction os arbitrary: l)
  case (Cons x os)
  have r: "single_rep l (x # os @ vs)" using Cons.prems by simp
  have "single_rep (xu_single_list_remove_next l (s_head l)) (os @ vs)"
    using single_take_out(1) [of l "[]" x "os @ vs"] single_remove_next_eq [of l "[]" x "os @ vs"] r by simp
  then show ?case using Cons.IH single_remove_head_eq [OF r] by (simp add: funpow_Suc_right del: funpow.simps)
qed simp

interpretation single_links: linked_container single_list_op single_rep
proof
  show "op_has_mode single_list_op XU_ITERATOR_MODE_FORWARD" "\<not> op_has_mode single_list_op XU_ITERATOR_MODE_MUTABLE"
    "\<not> op_has_mode single_list_op XU_ITERATOR_MODE_READONLY"
    by (simp_all add: op_has_mode_def single_list_op_def iterator_modes)
  fix l cs i n j s' assume r: "single_rep l cs"
  have tail: "op_tail single_list_op l = 0" for l
    by (simp add: single_list_op_def xu_single_list_itor_tail_def xu_single_list_entry_tail_def)
  show "op_tail single_list_op l \<notin> set cs" "distinct cs" using single_rep_nodes [OF r] by (simp_all add: tail)
  show "op_head single_list_op l = (cs @ [op_tail single_list_op l]) ! 0"
    using slist_link [of "s_links l" "s_head l" "[]" cs] single_rep_slist [OF r]
    unfolding tail by (simp add: single_list_op_def xu_single_list_itor_head_def xu_single_list_entry_head_def hd_conv_nth)
  show "op_next single_list_op l (cs ! i) = (cs @ [op_tail single_list_op l]) ! Suc i" if i: "i < length cs"
  proof -
    have "cs = (take i cs @ [cs ! i]) @ drop (Suc i) cs" using i by (simp add: id_take_nth_drop)
    then have "snx (s_links l) (before (s_head l) (take i cs @ [cs ! i])) = following (drop (Suc i) cs)"
      using slist_link single_rep_slist [OF r] by metis
    then have "snx (s_links l) (cs ! i) = following (drop (Suc i) cs)" by simp
    then show ?thesis using i unfolding tail
      by (simp add: single_list_op_def xu_single_list_itor_next_def xu_single_list_entry_next_def hd_conv_nth nth_append)
  qed
  assume n: "n \<noteq> 0" "j + n \<le> length cs"
    and s': "s' = op_nremove single_list_op l ((op_tail single_list_op l # cs) ! j)
      ((cs @ [op_tail single_list_op l]) ! (j + n)) n"
  define us os vs where parts: "us = take j cs" "os = take n (drop j cs)" "vs = drop (j + n) cs"
  have cs: "cs = us @ os @ vs" unfolding parts by (metis append_take_drop_id drop_drop add.commute)
  have len: "length us = j" "length os = n" using n unfolding parts by simp_all
  have ne: "(cs @ [0]) ! (j + n) = following vs" using len by (cases vs) (auto simp: cs nth_append)
  have "cs \<noteq> []" "\<not> length cs < n" using n by auto
  then have nr: "s' = (let prev = (0 # cs) ! j in
      if prev \<noteq> 0 then single_nremove_body l prev (following vs) False n else (xu_single_list_remove_head ^^ n) l)"
    using s' n(1) single_rep_size [OF r] unfolding tail ne
    by (simp add: single_list_op_def xu_single_list_itor_nremove_def Let_def)
  have "s' = ((\<lambda>l. xu_single_list_remove_next l (before (s_head l) us)) ^^ length os) l"
  proof (cases us rule: rev_cases)
    case Nil
    then have j0: "j = 0" using len by simp
    show ?thesis using single_remove_heads_steps [of l os vs] r len nr unfolding Nil j0 cs by simp
  next
    case (snoc us' a)
    then have a: "(0 # cs) ! j = a" "before (s_head l) us = a" using len by (auto simp: cs nth_append)
    then have "a \<noteq> 0" using single_rep_nodes [OF r] snoc by (auto simp: cs)
    then have "s' = single_nremove_body l a (following vs) False n" using nr unfolding a Let_def by simp
    moreover have "single_rep l (us @ os @ vs)" using r by (simp add: cs)
    ultimately show ?thesis using single_nremove_body_steps [of l us os vs] len unfolding a(2) by simp
  qed
  from single_nremove_rep [OF r [unfolded cs] this]
  show "single_rep s' (take j cs @ drop (j + n) cs) \<and> op_tail single_list_op s' = op_tail single_list_op l
    \<and> (\<forall>c \<in> set (take j cs @ drop (j + n) cs). op_item single_list_op s' c = op_item single_list_op l c)"
    unfolding parts tail by (simp add: single_list_op_def)
qed

section \<open>Inserting, replacing and moving\<close>

lemma list_insert_rep:
  fixes x :: u64
  assumes r: "list_rep l (us @ vs)" and room: "length (us @ vs) < XU_LIST_MAXN"
    and e: "e \<notin> set (l_head l # us @ vs)" "e \<noteq> 0"
  defines "l' \<equiv> snd (xu_list_insert_prev l (Some e) (after (l_head l) vs) x)"
  shows "fst (xu_list_insert_prev l (Some e) (after (l_head l) vs) x) = e" and "list_rep l' (us @ e # vs)"
    and "xu_list_itor_item l' e = x" and "c \<noteq> e \<Longrightarrow> xu_list_itor_item l' c = xu_list_itor_item l c"
proof -
  define b where "b = after (l_head l) vs"
  have "b \<in> set (l_head l # vs)" using after_in [where h = "l_head l" and vs = vs] unfolding b_def by simp
  then have b: "b \<noteq> 0" using list_rep_nodes [OF r] by auto
  note cell = value_element.dupl_cell [OF list_rep_elem [OF r]] value_element.data_cell [OF list_rep_elem [OF r]]
  have i: "xu_list_insert_prev l (Some e) b x = (e, l\<lparr>l_pool := e # l_pool l,
      l_data := (l_data l)(e := (l_data l e)[0 := x]),
      l_links := xu_list_entry_insert_prev (l_links l) (l_head l) b e\<rparr>)"
    using room b list_rep_size [OF r] by (simp add: xu_list_insert_prev_def xu_list_maxn_def cell)
  have d: "dlist (xu_list_entry_insert_prev (l_links l) (l_head l) b e) (l_head l) (us @ e # vs)"
    using insert_prev_dlist [OF list_rep_dlist [OF r] e] unfolding b_def .
  have len: "length (l_data l e) = 1" using r by (simp add: list_rep_def)
  show "fst (xu_list_insert_prev l (Some e) (after (l_head l) vs) x) = e" using i unfolding b_def by simp
  show "list_rep l' (us @ e # vs)" using i d r unfolding l'_def b_def [symmetric] by (simp add: list_rep_def)
  show "xu_list_itor_item l' e = x"
    using i len unfolding l'_def b_def [symmetric] by (simp add: xu_list_itor_item_def cell)
  show "xu_list_itor_item l' c = xu_list_itor_item l c" if "c \<noteq> e"
    using i that unfolding l'_def b_def [symmetric] by (simp add: xu_list_itor_item_def)
qed

lemma list_replace_rep:
  assumes r: "list_rep l cs" and c: "c \<noteq> 0"
  shows "list_rep (xu_list_replace l c x) cs" and "xu_list_itor_item (xu_list_replace l c x) c = x"
    and "b \<noteq> c \<Longrightarrow> xu_list_itor_item (xu_list_replace l c x) b = xu_list_itor_item l b"
proof -
  note cell = value_element.repl_cell [OF list_rep_elem [OF r]] value_element.data_cell [OF list_rep_elem [OF r]]
  have "xu_list_replace l c x = l\<lparr>l_data := (l_data l)(c := (l_data l c)[0 := x])\<rparr>"
    using c by (simp add: xu_list_replace_def cell)
  moreover have "length (l_data l c) = 1" using r by (simp add: list_rep_def)
  ultimately show "list_rep (xu_list_replace l c x) cs" "xu_list_itor_item (xu_list_replace l c x) c = x"
    "b \<noteq> c \<Longrightarrow> xu_list_itor_item (xu_list_replace l c x) b = xu_list_itor_item l b"
    using r by (auto simp: list_rep_def xu_list_itor_item_def cell)
qed

lemma moveto_prev_dlist:
  assumes s: "dlist s h cs" and x: "x \<in> set cs" "remove1 x cs = us @ vs"
  shows "dlist (xu_list_entry_moveto_prev s h (after h vs) x) h (us @ x # vs)"
proof -
  obtain as bs where cs: "cs = as @ x # bs" and "x \<notin> set as" using x(1) split_list_first by metis
  then have "as @ bs = us @ vs" using x(2) by (simp add: remove1_append)
  then obtain ws where "as = us @ ws \<and> ws @ bs = vs \<or> as @ ws = us \<and> bs = ws @ vs"
    by (auto simp: append_eq_append_conv2)
  then consider (same) "us = as" "vs = bs" | (front) "ws \<noteq> []" "as = us @ ws" "vs = ws @ bs"
    | (rear) "ws \<noteq> []" "us = as @ ws" "bs = ws @ vs" by (cases "ws = []") auto
  then show ?thesis
  proof cases
    case same
    have "pv s (after h vs) = x" using dlist_links(2) [of s h "as @ [x]" bs] s cs same by simp
    then show ?thesis using s cs same by (simp add: xu_list_entry_moveto_prev_def xu_list_entry_moveto_next_def)
  next
    case front
    have "pv s (after h (ws @ x # bs)) = before h us" using dlist_links(2) [of s h us "ws @ x # bs"] s cs front by simp
    moreover have "after h (ws @ x # bs) = after h vs" using front by (cases ws) auto
    ultimately show ?thesis using moveto_next_dlist [OF s x] unfolding xu_list_entry_moveto_prev_def by simp
  next
    case rear
    have "pv s (after h vs) = before h (as @ x # ws)" using dlist_links(2) [of s h "as @ x # ws" vs] s cs rear by simp
    moreover have "before h (as @ x # ws) = before h us" using rear by simp
    ultimately show ?thesis using moveto_next_dlist [OF s x] unfolding xu_list_entry_moveto_prev_def by simp
  qed
qed

lemma list_moveto_rep:
  assumes r: "list_rep l cs" and x: "x \<in> set cs" "remove1 x cs = us @ vs"
  shows "list_rep (xu_list_moveto_prev l (after (l_head l) vs) x) (us @ x # vs)"
    and "xu_list_itor_item (xu_list_moveto_prev l (after (l_head l) vs) x) c = xu_list_itor_item l c"
proof -
  define b where "b = after (l_head l) vs"
  have "set vs \<subseteq> set cs" using set_remove1_subset [of x cs] unfolding x(2) by auto
  moreover have "b \<in> set (l_head l # vs)" using after_in [where h = "l_head l" and vs = vs] unfolding b_def .
  moreover have "l_head l \<noteq> 0" "0 \<notin> set cs" using list_rep_nodes [OF r] by auto
  ultimately have "b \<noteq> 0" "x \<noteq> 0" using x(1) by (metis set_ConsD subsetD, metis)
  moreover have "mset (us @ vs) = mset cs - {#x#}" unfolding x(2) [symmetric] by simp
  then have "mset (us @ x # vs) = mset cs" using x(1) by simp
  ultimately show "list_rep (xu_list_moveto_prev l (after (l_head l) vs) x) (us @ x # vs)"
    and "xu_list_itor_item (xu_list_moveto_prev l (after (l_head l) vs) x) c = xu_list_itor_item l c"
    using moveto_prev_dlist [OF list_rep_dlist [OF r] x] r unfolding b_def [symmetric]
    by (simp_all add: xu_list_moveto_prev_def list_rep_def xu_list_itor_item_def)
qed

lemma item_exit_pool_data:
  fixes ps :: "nat list"
  assumes "value_element (l_elem l)" and "\<forall>c. length (l_data l c) = 1"
  defines "l' \<equiv> foldl xu_list_item_exit l ps"
  shows "(\<forall>c. length (l_data l' c) = 1) \<and> l_head l' = l_head l \<and> l_links l' = l_links l \<and> l_elem l' = l_elem l"
  unfolding l'_def using assms(1,2)
proof (induction ps arbitrary: l)
  case (Cons p ps)
  let ?l = "xu_list_item_exit l p"
  have "l_head ?l = l_head l" "l_links ?l = l_links l" "l_elem ?l = l_elem l" "\<forall>c. length (l_data ?l c) = 1"
    using Cons.prems value_element.free_length [OF Cons.prems(1)]
    by (auto simp: xu_list_item_exit_def split: option.splits)
  then show ?case using Cons.IH [of ?l] Cons.prems(1) by simp
qed simp

lemma list_clear_rep: "list_rep l cs \<Longrightarrow> list_rep (xu_list_clear l) []"
proof -
  assume r: "list_rep l cs"
  have "l_head l \<noteq> 0" using list_rep_nodes [OF r] by auto
  then show ?thesis
    using item_exit_pool_data [of l "l_pool l"] list_rep_elem [OF r] r clear_dlist [of "l_head l" "l_links l"]
    by (simp add: xu_list_clear_def list_pool_clear_def list_rep_def Let_def)
qed

section \<open>The properties\<close>

text \<open>C20. A list of items: inserting in front of a place, removing and replacing an item, moving an
  item in front of a place of the others and clearing do to the nodes and their items what their
  names say; the pool has handed out exactly the nodes of the list; when the pool has no memory or
  the list is full, nothing changes.\<close>

theorem xu_list_refines_list:
  assumes r: "list_rep l (us @ os @ vs)"
  shows "(\<forall>e x. length (us @ os @ vs) < XU_LIST_MAXN \<and> e \<notin> set (l_head l # us @ os @ vs) \<and> e \<noteq> 0 \<longrightarrow>
       (let l' = snd (xu_list_insert_prev l (Some e) (after (l_head l) (os @ vs)) x)
        in list_rep l' (us @ e # os @ vs)
          \<and> map (xu_list_itor_item l') (us @ e # os @ vs)
            = map (xu_list_itor_item l) us @ x # map (xu_list_itor_item l) (os @ vs)))
    \<and> (\<forall>c x. os = [c] \<longrightarrow>
       (let l' = snd (xu_list_remove l c) in
          list_rep l' (us @ vs) \<and> map (xu_list_itor_item l') (us @ vs) = map (xu_list_itor_item l) (us @ vs))
       \<and> (let l' = xu_list_replace l c x in
          list_rep l' (us @ c # vs)
          \<and> map (xu_list_itor_item l') (us @ c # vs)
            = map (xu_list_itor_item l) us @ x # map (xu_list_itor_item l) vs))
    \<and> (\<forall>c as bs. c \<in> set (us @ os @ vs) \<and> remove1 c (us @ os @ vs) = as @ bs \<longrightarrow>
       (let l' = xu_list_moveto_prev l (after (l_head l) bs) c in
          list_rep l' (as @ c # bs) \<and> xu_list_itor_item l' = xu_list_itor_item l))
    \<and> list_rep (xu_list_clear l) []
    \<and> snd (xu_list_insert_prev l None (after (l_head l) vs) y) = l
    \<and> (XU_LIST_MAXN \<le> length (us @ os @ vs) \<longrightarrow> snd (xu_list_insert_prev l a b y) = l)"
proof (intro conjI allI impI; (elim conjE)?)
  fix e x assume h: "length (us @ os @ vs) < XU_LIST_MAXN" "e \<notin> set (l_head l # us @ os @ vs)" "e \<noteq> 0"
  show "let l' = snd (xu_list_insert_prev l (Some e) (after (l_head l) (os @ vs)) x)
        in list_rep l' (us @ e # os @ vs)
          \<and> map (xu_list_itor_item l') (us @ e # os @ vs)
            = map (xu_list_itor_item l) us @ x # map (xu_list_itor_item l) (os @ vs)"
  proof -
    define l' where "l' = snd (xu_list_insert_prev l (Some e) (after (l_head l) (os @ vs)) x)"
    have i: "list_rep l' (us @ e # os @ vs)" "xu_list_itor_item l' e = x"
      "\<And>c. c \<noteq> e \<Longrightarrow> xu_list_itor_item l' c = xu_list_itor_item l c"
      unfolding l'_def by (rule list_insert_rep(2-4) [OF r h])+
    moreover have "\<forall>c \<in> set (us @ os @ vs). c \<noteq> e" using h(2) by auto
    ultimately show ?thesis unfolding l'_def [symmetric] Let_def by auto
  qed
next
  fix c x assume c: "os = [c]"
  have rc: "list_rep l (us @ c # vs)" using r c by simp
  have n: "c \<noteq> 0" "\<And>b. b \<in> set (us @ vs) \<Longrightarrow> b \<noteq> c" using list_rep_nodes [OF rc] by auto
  show "let l' = snd (xu_list_remove l c) in
          list_rep l' (us @ vs) \<and> map (xu_list_itor_item l') (us @ vs) = map (xu_list_itor_item l) (us @ vs)"
    using list_remove_rep(2,4) [OF rc] n(2) unfolding Let_def by (metis (no_types, lifting) map_cong)
  show "let l' = xu_list_replace l c x in list_rep l' (us @ c # vs)
          \<and> map (xu_list_itor_item l') (us @ c # vs)
            = map (xu_list_itor_item l) us @ x # map (xu_list_itor_item l) vs"
    using list_replace_rep [OF rc n(1), where x = x] n(2) by (simp add: Let_def)
next
  fix c as bs assume c: "c \<in> set (us @ os @ vs)" "remove1 c (us @ os @ vs) = as @ bs"
  show "let l' = xu_list_moveto_prev l (after (l_head l) bs) c in
          list_rep l' (as @ c # bs) \<and> xu_list_itor_item l' = xu_list_itor_item l"
    using list_moveto_rep [OF r c] by (simp add: Let_def fun_eq_iff)
next
  show "list_rep (xu_list_clear l) []" by (rule list_clear_rep [OF r])
  show "snd (xu_list_insert_prev l None (after (l_head l) vs) y) = l" by (simp add: xu_list_insert_prev_def)
  show "snd (xu_list_insert_prev l a b y) = l" if "XU_LIST_MAXN \<le> length (us @ os @ vs)"
    using that list_rep_size [OF r] by (simp add: xu_list_insert_prev_def xu_list_maxn_def)
qed

text \<open>A list of the two items 5 and 7 in the nodes 16 and 24.\<close>

definition sample_list :: xlist where
  "sample_list = (let l = xu_list_init \<lparr>nx = \<lambda>_. 0, pv = \<lambda>_. 0, sz = \<lambda>_. 0\<rparr> (\<lambda>_. [0]) 8 xu_element_long
     in snd (xu_list_insert_tail (snd (xu_list_insert_tail l (Some 16) 5)) (Some 24) 7))"

lemmas list_eval = xu_list_init_def xu_list_insert_tail_def xu_list_insert_prev_def xu_list_size_def xu_list_maxn_def
  XU_LIST_MAXN_def xu_list_itor_tail_def xu_list_entry_tail_def xu_list_entry_size_def xu_list_entry_init_def
  xu_list_entry_insert_prev_def xu_list_entry_insert_next_def long_element_defs

lemma sample_list_rep: "list_rep sample_list [16, 24]" and sample_list_items:
  "map (xu_list_itor_item sample_list) [16, 24] = [5, 7]" and sample_list_head: "l_head sample_list = 8"
  by (simp_all add: sample_list_def list_rep_def dlist_def list_eval xu_list_itor_item_def Let_def)

theorem xu_list_refines_list_witness:
  "list_rep (snd (xu_list_insert_prev sample_list (Some 32) 24 6)) [16, 32, 24]
    \<and> map (xu_list_itor_item (snd (xu_list_insert_prev sample_list (Some 32) 24 6))) [16, 32, 24] = [5, 6, 7]"
  using xu_list_refines_list [of sample_list "[16]" "[24]" "[]"] sample_list_rep sample_list_items sample_list_head
  by (simp add: Let_def XU_LIST_MAXN_def)

lemma list_remove_if_items:
  assumes "list_rep l cs"
  shows "\<exists>l'. xu_remove_if list_op l p = Some l'
    \<and> (let ks = filter (\<lambda>c. \<not> p (xu_list_itor_item l c)) cs
       in list_rep l' ks \<and> map (xu_list_itor_item l') ks = filter (\<lambda>x. \<not> p x) (map (xu_list_itor_item l) cs))"
proof -
  have i: "op_item list_op = xu_list_itor_item" by (simp add: list_op_def)
  obtain l' where "xu_remove_if list_op l p = Some l'"
    and "list_rep l' (filter (\<lambda>c. \<not> p (xu_list_itor_item l c)) cs)"
    and "\<forall>c \<in> set (filter (\<lambda>c. \<not> p (xu_list_itor_item l c)) cs). xu_list_itor_item l' c = xu_list_itor_item l c"
    using list_links.link_remove_if [OF assms, of p] unfolding i by blast
  then show ?thesis by (simp add: filter_map o_def Let_def)
qed

lemma single_list_remove_if_items:
  assumes "single_rep l cs"
  shows "\<exists>l'. xu_remove_if single_list_op l p = Some l'
    \<and> (let ks = filter (\<lambda>c. \<not> p (xu_single_list_itor_item l c)) cs
       in single_rep l' ks
         \<and> map (xu_single_list_itor_item l') ks = filter (\<lambda>x. \<not> p x) (map (xu_single_list_itor_item l) cs))"
proof -
  have i: "op_item single_list_op = xu_single_list_itor_item" by (simp add: single_list_op_def)
  obtain l' where "xu_remove_if single_list_op l p = Some l'"
    and "single_rep l' (filter (\<lambda>c. \<not> p (xu_single_list_itor_item l c)) cs)"
    and "\<forall>c \<in> set (filter (\<lambda>c. \<not> p (xu_single_list_itor_item l c)) cs).
      xu_single_list_itor_item l' c = xu_single_list_itor_item l c"
    using single_links.link_remove_if [OF assms, of p] unfolding i by blast
  then show ?thesis by (simp add: filter_map o_def Let_def)
qed

text \<open>C21. Removing by a predicate from a list with two links ends, and gives the list of the items
  that do not satisfy it, in their old nodes; the others are back in the pool. The same holds for the
  list with one link, whose iterator has no position in front of the first node: the range at the head is
  removed node by node from the head, any other behind the node in front of it, and the pointer to the
  last node follows.\<close>

theorem xu_list_remove_if_filters:
  assumes "list_rep l cs" and "single_rep s ds"
  shows "(\<exists>l'. xu_remove_if list_op l p = Some l'
    \<and> (let ks = filter (\<lambda>c. \<not> p (xu_list_itor_item l c)) cs
       in list_rep l' ks \<and> map (xu_list_itor_item l') ks = filter (\<lambda>x. \<not> p x) (map (xu_list_itor_item l) cs)))
    \<and> (\<exists>s'. xu_remove_if single_list_op s p = Some s'
    \<and> (let ks = filter (\<lambda>c. \<not> p (xu_single_list_itor_item s c)) ds
       in single_rep s' ks
         \<and> map (xu_single_list_itor_item s') ks = filter (\<lambda>x. \<not> p x) (map (xu_single_list_itor_item s) ds)))"
  using list_remove_if_items [OF assms(1)] single_list_remove_if_items [OF assms(2)] by blast

theorem xu_list_remove_if_filters_witness:
  "(let l = xu_single_list_init \<lparr>snx = \<lambda>_. 0, slast = \<lambda>_. 0, ssz = \<lambda>_. 0\<rparr> (\<lambda>_. [0]) 8 xu_element_long;
        l = snd (xu_single_list_insert_tail (snd (xu_single_list_insert_tail l (Some 16) 5)) (Some 24) 7)
    in (\<exists>l'. xu_remove_if single_list_op l (\<lambda>x. x = 7) = Some l'
      \<and> single_rep l' [16] \<and> map (xu_single_list_itor_item l') [16] = [5])
    \<and> (\<exists>l'. xu_remove_if list_op sample_list (\<lambda>x. x = 7) = Some l'
      \<and> list_rep l' [16] \<and> map (xu_list_itor_item l') [16] = [5]))"
proof -
  define l where "l = (let l = xu_single_list_init \<lparr>snx = \<lambda>_. 0, slast = \<lambda>_. 0, ssz = \<lambda>_. 0\<rparr> (\<lambda>_. [0]) 8 xu_element_long
    in snd (xu_single_list_insert_tail (snd (xu_single_list_insert_tail l (Some 16) 5)) (Some 24) 7))"
  have "single_rep l [16, 24]" "map (xu_single_list_itor_item l) [16, 24] = [5, 7]"
    by (simp_all add: l_def single_rep_def slist_def xu_single_list_init_def xu_single_list_insert_tail_def
        single_node_def xu_single_list_size_def xu_single_list_maxn_def XU_SINGLE_LIST_MAXN_def
        xu_single_list_entry_init_def xu_single_list_entry_size_def xu_single_list_entry_insert_tail_def
        xu_single_list_entry_insert_head_def xu_single_list_entry_insert_next_def
        xu_single_list_itor_item_def long_element_defs Let_def)
  then have "(\<exists>l'. xu_remove_if single_list_op l (\<lambda>x. x = 7) = Some l'
      \<and> single_rep l' [16] \<and> map (xu_single_list_itor_item l') [16] = [5])
    \<and> (\<exists>l'. xu_remove_if list_op sample_list (\<lambda>x. x = 7) = Some l'
      \<and> list_rep l' [16] \<and> map (xu_list_itor_item l') [16] = [5])"
    using xu_list_remove_if_filters [OF sample_list_rep, of l "[16, 24]" "\<lambda>x. x = 7"] sample_list_items by (auto simp: Let_def)
  then show ?thesis unfolding l_def by (simp add: Let_def)
qed

end
