(* ===== verification/XCString.thy ===== *)
theory XCString
  imports XBits "HOL-Library.Monad_Syntax"
begin

text \<open>
  The portable C library of xutil: \<^verbatim>\<open>xutil/libc/string/\<close>, the character classes of
  \<^verbatim>\<open>libc/misc/ctype.h\<close> and the integer conversions of \<^verbatim>\<open>libc/stdlib/stdlib.c\<close>.
  Memory is the list of its bytes, a pointer an index, and an access outside the memory the value
  none. A search returns the position or none, inside the option of the access. A character is a
  byte of memory; where the code reads it as \<open>xu_char_t\<close> it is signed, as \<open>xu_byte_t\<close> unsigned.
\<close>

section \<open>Memory accesses\<close>

definition peek :: "u8 list \<Rightarrow> nat \<Rightarrow> u8 option" where
  "peek m p = (if p < length m then Some (m ! p) else None)"

definition poke :: "u8 list \<Rightarrow> nat \<Rightarrow> u8 \<Rightarrow> u8 list option" where
  "poke m p x = (if p < length m then Some (m[p := x]) else None)"

definition copy_byte :: "u8 list \<Rightarrow> nat \<Rightarrow> nat \<Rightarrow> u8 list option" where
  "copy_byte m p q = do { x \<leftarrow> peek m q; poke m p x }"

section \<open>Character classes\<close>

definition xu_isspace :: "int \<Rightarrow> bool" where "xu_isspace x \<longleftrightarrow> x = 0x20 \<or> x > 0x8 \<and> x < 0xe"
definition xu_isgraph :: "int \<Rightarrow> bool" where "xu_isgraph x \<longleftrightarrow> x > 0x1f \<and> x < 0x7f"
definition xu_isalpha :: "int \<Rightarrow> bool" where
  "xu_isalpha x \<longleftrightarrow> x > 0x40 \<and> x < 0x5b \<or> x > 0x60 \<and> x < 0x7b"
definition xu_isupper :: "int \<Rightarrow> bool" where "xu_isupper x \<longleftrightarrow> x > 0x40 \<and> x < 0x5b"
definition xu_islower :: "int \<Rightarrow> bool" where "xu_islower x \<longleftrightarrow> x > 0x60 \<and> x < 0x7b"
definition xu_isascii :: "int \<Rightarrow> bool" where "xu_isascii x \<longleftrightarrow> x \<ge> 0x0 \<and> x < 0x80"
definition xu_isdigit :: "int \<Rightarrow> bool" where "xu_isdigit x \<longleftrightarrow> x > 0x2f \<and> x < 0x3a"
definition xu_isdigit2 :: "int \<Rightarrow> bool" where "xu_isdigit2 x \<longleftrightarrow> x = 48 \<or> x = 49"
definition xu_isdigit8 :: "int \<Rightarrow> bool" where "xu_isdigit8 x \<longleftrightarrow> x > 0x2f \<and> x < 0x38"
definition xu_isdigit10 :: "int \<Rightarrow> bool" where "xu_isdigit10 x \<longleftrightarrow> xu_isdigit x"
definition xu_isdigit16 :: "int \<Rightarrow> bool" where
  "xu_isdigit16 x \<longleftrightarrow> x > 0x2f \<and> x < 0x3a \<or> x > 0x40 \<and> x < 0x47 \<or> x > 0x60 \<and> x < 0x67"
definition xu_tolower :: "int \<Rightarrow> int" where "xu_tolower x = (if xu_isupper x then x + 0x20 else x)"
definition xu_toupper :: "int \<Rightarrow> int" where "xu_toupper x = (if xu_islower x then x - 0x20 else x)"

section \<open>Blocks of memory\<close>

fun copy_bytes :: "u8 list \<Rightarrow> nat \<Rightarrow> nat \<Rightarrow> nat \<Rightarrow> u8 list option" where
  "copy_bytes m p q 0 = Some m"
| "copy_bytes m p q (Suc n) = do { m \<leftarrow> copy_byte m p q; copy_bytes m (p + 1) (q + 1) n }"

fun copy_words :: "u8 list \<Rightarrow> nat \<Rightarrow> nat \<Rightarrow> nat \<Rightarrow> u8 list option" where
  "copy_words m p q 0 = Some m"
| "copy_words m p q (Suc n) = do {
     m \<leftarrow> copy_byte m p q;
     m \<leftarrow> copy_byte m (p + 1) (q + 1);
     m \<leftarrow> copy_byte m (p + 2) (q + 2);
     m \<leftarrow> copy_byte m (p + 3) (q + 3);
     copy_words m (p + 4) (q + 4) n }"

definition xu_memcpy :: "u8 list \<Rightarrow> nat \<Rightarrow> nat \<Rightarrow> nat \<Rightarrow> u8 list option" where
  "xu_memcpy m s1 s2 n =
     (if s1 = s2 \<or> n = 0 then Some m
      else let l = n mod 4; w = (n - l) div 4 in do {
        m \<leftarrow> copy_words m s1 s2 w;
        copy_bytes m (s1 + 4 * w) (s2 + 4 * w) l })"

fun copy_down :: "u8 list \<Rightarrow> nat \<Rightarrow> nat \<Rightarrow> nat \<Rightarrow> u8 list option" where
  "copy_down m s p 0 = Some m"
| "copy_down m s p (Suc n) = do { m \<leftarrow> copy_byte m (s + n) (p + n); copy_down m s p n }"

definition xu_memmov :: "u8 list \<Rightarrow> nat \<Rightarrow> nat \<Rightarrow> nat \<Rightarrow> u8 list option" where
  "xu_memmov m s1 s2 n = (if s2 \<ge> s1 then copy_bytes m s1 s2 n else copy_down m s1 s2 n)"

fun set_bytes :: "u8 list \<Rightarrow> nat \<Rightarrow> u8 \<Rightarrow> nat \<Rightarrow> u8 list option" where
  "set_bytes m p c 0 = Some m"
| "set_bytes m p c (Suc n) = do { m \<leftarrow> poke m p c; set_bytes m (p + 1) c n }"

fun set_words :: "u8 list \<Rightarrow> nat \<Rightarrow> u8 \<Rightarrow> nat \<Rightarrow> u8 list option" where
  "set_words m p c 0 = Some m"
| "set_words m p c (Suc n) = do {
     m \<leftarrow> poke m p c;
     m \<leftarrow> poke m (p + 1) c;
     m \<leftarrow> poke m (p + 2) c;
     m \<leftarrow> poke m (p + 3) c;
     set_words m (p + 4) c n }"

definition xu_memset :: "u8 list \<Rightarrow> nat \<Rightarrow> u8 \<Rightarrow> nat \<Rightarrow> u8 list option" where
  "xu_memset m s c n =
     (if n = 0 then Some m
      else let l = n mod 4; w = (n - l) div 4 in do {
        m \<leftarrow> set_words m s c w;
        set_bytes m (s + 4 * w) c l })"

section \<open>Comparing\<close>

text \<open>The loop of the comparisons: two characters converted by \<open>f\<close>, an end at the null character
  when \<open>nul\<close>, at most \<open>n\<close> characters when there is a count.\<close>

function cmp_loop :: "(int \<Rightarrow> int) \<Rightarrow> bool \<Rightarrow> u8 list \<Rightarrow> nat \<Rightarrow> nat \<Rightarrow> nat option \<Rightarrow> int option" where
  "cmp_loop f nul m s1 s2 n =
     (if n = Some 0 then Some 0
      else case (peek m s1, peek m s2) of
        (Some x, Some y) \<Rightarrow>
          (let r = f (uint x) - f (uint y) in
           if r = 0 \<and> \<not> (nul \<and> x = 0) then cmp_loop f nul m (s1 + 1) (s2 + 1) (map_option (\<lambda>n. n - 1) n)
           else Some r)
      | _ \<Rightarrow> None)"
  by pat_completeness auto
termination
  by (relation "measure (\<lambda>(f, nul, m, s1, s2, n). length m - s1)") (auto simp: peek_def split: if_splits)

definition xu_memcmp :: "u8 list \<Rightarrow> nat \<Rightarrow> nat \<Rightarrow> nat \<Rightarrow> int option" where
  "xu_memcmp m s1 s2 n = (if s1 = s2 \<or> n = 0 then Some 0 else cmp_loop id False m s1 s2 (Some n))"

definition xu_strcmp :: "u8 list \<Rightarrow> nat \<Rightarrow> nat \<Rightarrow> int option" where
  "xu_strcmp m s1 s2 = (if s1 = s2 then Some 0 else cmp_loop id True m s1 s2 None)"

definition xu_strncmp :: "u8 list \<Rightarrow> nat \<Rightarrow> nat \<Rightarrow> nat \<Rightarrow> int option" where
  "xu_strncmp m s1 s2 n = (if s1 = s2 \<or> n = 0 then Some 0 else cmp_loop id True m s1 s2 (Some n))"

definition xu_stricmp :: "u8 list \<Rightarrow> nat \<Rightarrow> nat \<Rightarrow> int option" where
  "xu_stricmp m s1 s2 = (if s1 = s2 then Some 0 else cmp_loop xu_tolower True m s1 s2 None)"

definition xu_strnicmp :: "u8 list \<Rightarrow> nat \<Rightarrow> nat \<Rightarrow> nat \<Rightarrow> int option" where
  "xu_strnicmp m s1 s2 n = (if s1 = s2 \<or> n = 0 then Some 0 else cmp_loop xu_tolower True m s1 s2 (Some n))"

declare cmp_loop.simps [simp del]

section \<open>Lengths and copies of strings\<close>

function strlen_loop :: "u8 list \<Rightarrow> nat \<Rightarrow> nat \<Rightarrow> nat option" where
  "strlen_loop m s p = do {
     a \<leftarrow> peek m p; if a = 0 then Some (p - s + 0) else do {
     b \<leftarrow> peek m (p + 1); if b = 0 then Some (p - s + 1) else do {
     c \<leftarrow> peek m (p + 2); if c = 0 then Some (p - s + 2) else do {
     d \<leftarrow> peek m (p + 3); if d = 0 then Some (p - s + 3) else
     strlen_loop m s (p + 4) }}}}"
  by pat_completeness auto
termination
  by (relation "measure (\<lambda>(m, s, p). length m - p)") (auto simp: peek_def split: if_splits)

declare strlen_loop.simps [simp del]

definition xu_strlen :: "u8 list \<Rightarrow> nat \<Rightarrow> nat option" where
  "xu_strlen m s = strlen_loop m s s"

definition xu_strcpy :: "u8 list \<Rightarrow> nat \<Rightarrow> nat \<Rightarrow> u8 list option" where
  "xu_strcpy m s1 s2 = (if s1 = s2 then Some m else do { n \<leftarrow> xu_strlen m s2; xu_memcpy m s1 s2 (n + 1) })"

fun strncpy_loop :: "u8 list \<Rightarrow> nat \<Rightarrow> nat \<Rightarrow> nat \<Rightarrow> u8 list option" where
  "strncpy_loop m s s2 0 = Some m"
| "strncpy_loop m s s2 (Suc n) = do {
     x \<leftarrow> peek m s2;
     m \<leftarrow> poke m s x;
     strncpy_loop m (s + 1) (if x \<noteq> 0 then s2 + 1 else s2) n }"

definition xu_strncpy :: "u8 list \<Rightarrow> nat \<Rightarrow> nat \<Rightarrow> nat \<Rightarrow> u8 list option" where
  "xu_strncpy m s1 s2 n = (if n = 0 \<or> s1 = s2 then Some m else strncpy_loop m s1 s2 n)"

text \<open>The copy loop of \<open>xu_strlcpy\<close> for \<open>k\<close> characters: memory, both pointers and what is left.\<close>

fun strlcpy_loop :: "u8 list \<Rightarrow> nat \<Rightarrow> nat \<Rightarrow> nat \<Rightarrow> (u8 list \<times> nat \<times> nat \<times> nat) option" where
  "strlcpy_loop m d s 0 = Some (m, d, s, 0)"
| "strlcpy_loop m d s (Suc k) = do {
     x \<leftarrow> peek m s;
     m \<leftarrow> poke m d x;
     if x = 0 then Some (m, d + 1, s + 1, Suc k) else strlcpy_loop m (d + 1) (s + 1) k }"

definition xu_strlcpy :: "u8 list \<Rightarrow> nat \<Rightarrow> nat \<Rightarrow> nat \<Rightarrow> (nat \<times> u8 list) option" where
  "xu_strlcpy m s1 s2 n = do {
     (m, d, s, k) \<leftarrow> strlcpy_loop m s1 s2 (n - 1);
     if k = 0 then do {
       m \<leftarrow> (if n \<noteq> 0 then poke m d 0 else Some m);
       r \<leftarrow> xu_strlen m s;
       Some (s + r + 1 - s2 - 1, m) }
     else Some (s - s2 - 1, m) }"

text \<open>The loop of \<open>xu_strcat\<close> goes on as long as the character it has copied is null.\<close>

function strcat_loop :: "u8 list \<Rightarrow> nat \<Rightarrow> nat \<Rightarrow> u8 list option" where
  "strcat_loop m s s2 = do {
     x \<leftarrow> peek m s2;
     m' \<leftarrow> poke m s x;
     if \<not> x \<noteq> 0 then strcat_loop m' (s + 1) (s2 + 1) else Some m' }"
  by pat_completeness auto
termination
  by (relation "measure (\<lambda>(m, s, s2). length m - s2)") (auto simp: peek_def poke_def split: if_splits)

declare strcat_loop.simps [simp del]

definition xu_strcat :: "u8 list \<Rightarrow> nat \<Rightarrow> nat \<Rightarrow> u8 list option" where
  "xu_strcat m s1 s2 = do { n \<leftarrow> xu_strlen m s1; strcat_loop m (s1 + n) s2 }"

section \<open>Searching\<close>

function chr_loop :: "(u8 \<Rightarrow> bool) \<Rightarrow> u8 list \<Rightarrow> nat \<Rightarrow> nat option \<Rightarrow> nat option option" where
  "chr_loop P m s n =
     (if n = Some 0 then Some None
      else do {
        x \<leftarrow> peek m s;
        if x = 0 then Some None
        else if P x then Some (Some s)
        else chr_loop P m (s + 1) (map_option (\<lambda>n. n - 1) n) })"
  by pat_completeness auto
termination
  by (relation "measure (\<lambda>(P, m, s, n). length m - s)") (auto simp: peek_def split: if_splits)

declare chr_loop.simps [simp del]

definition xu_strchr :: "u8 list \<Rightarrow> nat \<Rightarrow> u8 \<Rightarrow> nat option option" where
  "xu_strchr m s c = chr_loop (\<lambda>x. x = c) m s None"

definition xu_strichr :: "u8 list \<Rightarrow> nat \<Rightarrow> u8 \<Rightarrow> nat option option" where
  "xu_strichr m s c =
     (let b = word_of_int (xu_tolower (uint c)) :: u8
      in chr_loop (\<lambda>x. xu_tolower (uint x) = uint b) m s None)"

definition xu_strnchr :: "u8 list \<Rightarrow> nat \<Rightarrow> nat \<Rightarrow> u8 \<Rightarrow> nat option option" where
  "xu_strnchr m s n c = chr_loop (\<lambda>x. x = c) m s (Some n)"

text \<open>Backwards from the character before \<open>s + n\<close> to \<open>s\<close>.\<close>

fun rchr_loop :: "(u8 \<Rightarrow> bool) \<Rightarrow> u8 list \<Rightarrow> nat \<Rightarrow> nat \<Rightarrow> nat option option" where
  "rchr_loop P m s 0 = Some None"
| "rchr_loop P m s (Suc n) = do {
     x \<leftarrow> peek m (s + n);
     if x = 0 then Some None else if P x then Some (Some (s + n)) else rchr_loop P m s n }"

definition xu_strnrchr :: "u8 list \<Rightarrow> nat \<Rightarrow> nat \<Rightarrow> u8 \<Rightarrow> nat option option" where
  "xu_strnrchr m s n c = rchr_loop (\<lambda>x. x = c) m s n"

definition xu_strnirchr :: "u8 list \<Rightarrow> nat \<Rightarrow> nat \<Rightarrow> u8 \<Rightarrow> nat option option" where
  "xu_strnirchr m s n c =
     (let b = word_of_int (xu_tolower (uint c)) :: u8
      in rchr_loop (\<lambda>x. xu_tolower (uint x) = uint b) m s n)"

definition xu_strrchr :: "u8 list \<Rightarrow> nat \<Rightarrow> u8 \<Rightarrow> nat option option" where
  "xu_strrchr m s c = do { n \<leftarrow> xu_strlen m s; xu_strnrchr m s n c }"

text \<open>The start \<open>s1\<close> of the attempt, the position \<open>s\<close> in it and \<open>p\<close> in the searched string.\<close>

function str_loop :: "(u8 \<Rightarrow> u8 \<Rightarrow> bool) \<Rightarrow> u8 list \<Rightarrow> nat \<Rightarrow> nat \<Rightarrow> nat \<Rightarrow> nat \<Rightarrow> nat option option" where
  "str_loop eq m s2 s1 s p = do {
     y \<leftarrow> peek m p;
     if y = 0 then Some (Some s1)
     else do {
       x \<leftarrow> peek m s;
       if eq y x then str_loop eq m s2 s1 (s + 1) (p + 1)
       else if x = 0 then Some None
       else str_loop eq m s2 (s1 + 1) (s1 + 1) s2 }}"
  by pat_completeness auto
termination
  by (relation "measures [\<lambda>(eq, m, s2, s1, s, p). if length m \<le> s then 0 else Suc (length m - s1),
        \<lambda>(eq, m, s2, s1, s, p). length m - s]")
    (auto simp: peek_def split: if_splits)

declare str_loop.simps [simp del]

definition xu_strstr :: "u8 list \<Rightarrow> nat \<Rightarrow> nat \<Rightarrow> nat option option" where
  "xu_strstr m s1 s2 = str_loop (\<lambda>y x. y = x) m s2 s1 s1 s2"

definition xu_stristr :: "u8 list \<Rightarrow> nat \<Rightarrow> nat \<Rightarrow> nat option option" where
  "xu_stristr m s1 s2 =
     str_loop (\<lambda>y x. y = x \<or> xu_tolower (uint y) = xu_tolower (uint x)) m s2 s1 s1 s2"

section \<open>Integers from strings\<close>

function skip_while :: "(int \<Rightarrow> bool) \<Rightarrow> u8 list \<Rightarrow> nat \<Rightarrow> nat option" where
  "skip_while P m s = do { x \<leftarrow> peek m s; if P (sint x) then skip_while P m (s + 1) else Some s }"
  by pat_completeness auto
termination
  by (relation "measure (\<lambda>(P, m, s). length m - s)") (auto simp: peek_def split: if_splits)

text \<open>The sign and the position behind it.\<close>

definition read_sign :: "u8 list \<Rightarrow> nat \<Rightarrow> (bool \<times> nat) option" where
  "read_sign m s = do {
     x \<leftarrow> peek m s;
     Some (if x = 45 then (True, s + 1) else if x = 43 then (False, s + 1) else (False, s)) }"

definition skip_prefix :: "u8 list \<Rightarrow> nat \<Rightarrow> u8 \<Rightarrow> u8 \<Rightarrow> nat option" where
  "skip_prefix m s lower upper = do {
     x \<leftarrow> peek m s;
     if x = 48 then do { y \<leftarrow> peek m (s + 1); Some (if y = lower \<or> y = upper then s + 2 else s) }
     else Some s }"

function digits_loop :: "(int \<Rightarrow> u64 \<Rightarrow> u64 option) \<Rightarrow> u8 list \<Rightarrow> nat \<Rightarrow> u64 \<Rightarrow> u64 option" where
  "digits_loop step m s val = do {
     x \<leftarrow> peek m s;
     if x = 0 then Some val
     else case step (sint x) val of None \<Rightarrow> Some val | Some val' \<Rightarrow> digits_loop step m (s + 1) val' }"
  by pat_completeness auto
termination
  by (relation "measure (\<lambda>(step, m, s, val). length m - s)") (auto simp: peek_def split: if_splits)

declare skip_while.simps [simp del] digits_loop.simps [simp del]

definition step2 :: "int \<Rightarrow> u64 \<Rightarrow> u64 option" where
  "step2 ch val = (if xu_isdigit2 ch then Some (push_bit 1 val + word_of_int (ch - 48)) else None)"

definition step8 :: "int \<Rightarrow> u64 \<Rightarrow> u64 option" where
  "step8 ch val = (if xu_isdigit8 ch then Some (push_bit 3 val + word_of_int (ch - 48)) else None)"

definition step10 :: "int \<Rightarrow> u64 \<Rightarrow> u64 option" where
  "step10 ch val = (if xu_isdigit10 ch then Some (val * 10 + word_of_int (ch - 48)) else None)"

definition step16 :: "int \<Rightarrow> u64 \<Rightarrow> u64 option" where
  "step16 ch val =
     (if xu_isdigit10 ch then Some (push_bit 4 val + word_of_int (ch - 48))
      else if ch > 97 - 1 \<and> ch < 102 + 1 then Some (push_bit 4 val + word_of_int (ch - 97) + 10)
      else if ch > 65 - 1 \<and> ch < 70 + 1 then Some (push_bit 4 val + word_of_int (ch - 65) + 10)
      else None)"

definition signed_value :: "bool \<Rightarrow> u64 \<Rightarrow> u64" where
  "signed_value sign val = (if sign then NOT val + 1 else val)"

definition xu_s2tou64 :: "u8 list \<Rightarrow> nat \<Rightarrow> u64 option" where
  "xu_s2tou64 m s = do {
     s \<leftarrow> skip_while xu_isspace m s;
     (sign, s) \<leftarrow> read_sign m s;
     s \<leftarrow> skip_prefix m s 98 66;
     s \<leftarrow> skip_while (\<lambda>c. c = 48) m s;
     val \<leftarrow> digits_loop step2 m s 0;
     Some (signed_value sign val) }"

definition xu_s8tou64 :: "u8 list \<Rightarrow> nat \<Rightarrow> u64 option" where
  "xu_s8tou64 m s = do {
     s \<leftarrow> skip_while xu_isspace m s;
     (sign, s) \<leftarrow> read_sign m s;
     s \<leftarrow> skip_while (\<lambda>c. c = 48) m s;
     val \<leftarrow> digits_loop step8 m s 0;
     Some (signed_value sign val) }"

definition xu_s10tou64 :: "u8 list \<Rightarrow> nat \<Rightarrow> u64 option" where
  "xu_s10tou64 m s = do {
     s \<leftarrow> skip_while xu_isspace m s;
     (sign, s) \<leftarrow> read_sign m s;
     s \<leftarrow> skip_while (\<lambda>c. c = 48) m s;
     val \<leftarrow> digits_loop step10 m s 0;
     Some (signed_value sign val) }"

definition xu_s16tou64 :: "u8 list \<Rightarrow> nat \<Rightarrow> u64 option" where
  "xu_s16tou64 m s = do {
     s \<leftarrow> skip_while xu_isspace m s;
     (sign, s) \<leftarrow> read_sign m s;
     s \<leftarrow> skip_prefix m s 120 88;
     s \<leftarrow> skip_while (\<lambda>c. c = 48) m s;
     val \<leftarrow> digits_loop step16 m s 0;
     Some (signed_value sign val) }"

definition xu_stou64 :: "u8 list \<Rightarrow> nat \<Rightarrow> u64 option" where
  "xu_stou64 m s = do {
     p \<leftarrow> skip_while xu_isspace m s;
     x \<leftarrow> peek m p;
     let p = (if x = 45 \<or> x = 43 then p + 1 else p);
     x \<leftarrow> peek m p;
     if x = 48 then do {
       y \<leftarrow> peek m (p + 1);
       if y = 120 \<or> y = 88 then xu_s16tou64 m s
       else if y = 98 \<or> y = 66 then xu_s2tou64 m s
       else xu_s8tou64 m s }
     else xu_s10tou64 m s }"

definition xu_sbtou64 :: "u8 list \<Rightarrow> nat \<Rightarrow> int \<Rightarrow> u64 option" where
  "xu_sbtou64 m s base =
     (if base = 2 then xu_s2tou64 m s
      else if base = 8 then xu_s8tou64 m s
      else if base = 10 then xu_s10tou64 m s
      else if base = 16 then xu_s16tou64 m s
      else Some 0)"

end
