(* ===== verification/XCharset.thy ===== *)
theory XCharset
  imports XStream XCString XSearch
begin

text \<open>
  \<^verbatim>\<open>xutil/charset/\<close>: the character sets, each a pair of routines that read a character
  from a static stream and write one to it, the table of them and the conversion of a stream. A
  routine answers a negative number to stop, 0 when it has skipped bytes without a character and 1
  for a character. A reader returns none when it looks at memory outside the stream's memory.
\<close>

section \<open>Single bytes\<close>

type_synonym got = "int \<times> u32 option \<times> static_stream"

definition xu_charset_ascii_get :: "static_stream \<Rightarrow> bool \<Rightarrow> got option" where
  "xu_charset_ascii_get s be = (case xu_static_stream_read_u8 s of (b, s) \<Rightarrow> Some (1, Some (ucast b), s))"

definition xu_charset_ascii_set :: "static_stream \<Rightarrow> bool \<Rightarrow> u32 \<Rightarrow> int \<times> static_stream" where
  "xu_charset_ascii_set s be ch =
     (1, if ch \<le> 0xff then snd (xu_static_stream_writ_u8 s (ucast ch)) else s)"

definition xu_charset_iso8859_get :: "static_stream \<Rightarrow> bool \<Rightarrow> got option" where
  "xu_charset_iso8859_get s be =
     (case xu_static_stream_read_u8 s of
        (b, s) \<Rightarrow> if b < 0xa0 then Some (1, Some (ucast b), s) else Some (1, Some 0, s))"

definition xu_charset_iso8859_set :: "static_stream \<Rightarrow> bool \<Rightarrow> u32 \<Rightarrow> int \<times> static_stream" where
  "xu_charset_iso8859_set s be ch =
     (1, if ch \<le> 0xa0 then snd (xu_static_stream_writ_u8 s (ucast ch)) else s)"

section \<open>Fixed widths\<close>

definition xu_charset_ucs2_get :: "static_stream \<Rightarrow> bool \<Rightarrow> got option" where
  "xu_charset_ucs2_get s be =
     (case (if be then xu_static_stream_read_u16_be s else xu_static_stream_read_u16_le s) of
        (c, s) \<Rightarrow> Some (1, Some (ucast c), s))"

definition xu_charset_ucs2_set :: "static_stream \<Rightarrow> bool \<Rightarrow> u32 \<Rightarrow> int \<times> static_stream" where
  "xu_charset_ucs2_set s be ch =
     (let ch = (if ch > 0xffff then 0xfffd else ch)
      in (1, snd (if be then xu_static_stream_writ_u16_be s (ucast ch) else xu_static_stream_writ_u16_le s (ucast ch))))"

definition xu_charset_ucs4_get :: "static_stream \<Rightarrow> bool \<Rightarrow> got option" where
  "xu_charset_ucs4_get s be =
     (case (if be then xu_static_stream_read_u32_be s else xu_static_stream_read_u32_le s) of
        (c, s) \<Rightarrow> Some (1, Some c, s))"

definition xu_charset_ucs4_set :: "static_stream \<Rightarrow> bool \<Rightarrow> u32 \<Rightarrow> int \<times> static_stream" where
  "xu_charset_ucs4_set s be ch =
     (1, snd (if be then xu_static_stream_writ_u32_be s ch else xu_static_stream_writ_u32_le s ch))"

definition xu_charset_utf32_get :: "static_stream \<Rightarrow> bool \<Rightarrow> got option" where
  "xu_charset_utf32_get s be =
     (case (if be then xu_static_stream_read_u32_be s else xu_static_stream_read_u32_le s) of
        (c, s) \<Rightarrow> Some (1, Some c, s))"

definition xu_charset_utf32_set :: "static_stream \<Rightarrow> bool \<Rightarrow> u32 \<Rightarrow> int \<times> static_stream" where
  "xu_charset_utf32_set s be ch =
     (1, snd (if be then xu_static_stream_writ_u32_be s ch else xu_static_stream_writ_u32_le s ch))"

section \<open>UTF-16\<close>

definition utf16_unit :: "u8 list \<Rightarrow> bool \<Rightarrow> nat \<Rightarrow> u32" where
  "utf16_unit m be p = ucast (if be then xu_bits_get_u16_be m p else xu_bits_get_u16_le m p)"

definition utf16_done :: "static_stream \<Rightarrow> u32 \<Rightarrow> nat \<Rightarrow> got option" where
  "utf16_done s c n = Some (1, Some c, snd (xu_static_stream_skip s n))"

definition xu_charset_utf16_get :: "static_stream \<Rightarrow> bool \<Rightarrow> got option" where
  "xu_charset_utf16_get s be =
     (let (p, s) = xu_static_stream_pos s; (n, s) = xu_static_stream_left s in
      if \<not> n > 1 then Some (-1, None, s)
      else case p of
        None \<Rightarrow> None
      | Some p \<Rightarrow>
          let c = utf16_unit (smem s) be p in
          if c \<ge> 0xd800 \<and> c \<le> 0xdbff then
            if \<not> n > 3 then Some (-1, None, s)
            else let c2 = utf16_unit (smem s) be (p + 2) in
              if c2 \<ge> 0xdc00 \<and> c2 \<le> 0xdfff
              then utf16_done s (push_bit 10 (c - 0xd800) + (c2 - 0xdc00) + 0x0010000) 4
              else utf16_done s c 2
          else utf16_done s c 2)"

definition utf16_writ :: "static_stream \<Rightarrow> bool \<Rightarrow> u32 \<Rightarrow> static_stream" where
  "utf16_writ s be c =
     snd (if be then xu_static_stream_writ_u16_be s (ucast c) else xu_static_stream_writ_u16_le s (ucast c))"

definition xu_charset_utf16_set :: "static_stream \<Rightarrow> bool \<Rightarrow> u32 \<Rightarrow> int \<times> static_stream" where
  "xu_charset_utf16_set s be ch =
     (let (n, s) = xu_static_stream_left s in
      if ch \<le> 0x0000ffff then
        if \<not> n > 1 then (-1, s) else (1, utf16_writ s be ch)
      else if ch > 0x0010ffff then
        if \<not> n > 1 then (-1, s) else (1, utf16_writ s be 0x0000fffd)
      else if \<not> n > 3 then (-1, s)
      else let ch = ch - 0x0010000;
               s = utf16_writ s be (drop_bit 10 ch + 0xd800)
           in (1, utf16_writ s be ((ch AND 0x3ff) + 0xdc00)))"

section \<open>UTF-8\<close>

definition utf8_done :: "static_stream \<Rightarrow> u32 \<Rightarrow> nat \<Rightarrow> got option" where
  "utf8_done s c n = Some (1, Some c, snd (xu_static_stream_skip s n))"

text \<open>A byte of the sequence at \<open>p\<close>, masked and moved to its place in the character.\<close>

definition utf8_bits :: "u8 list \<Rightarrow> nat \<Rightarrow> u8 \<Rightarrow> nat \<Rightarrow> u32" where
  "utf8_bits m i msk n = push_bit n (ucast (m ! i AND msk))"

definition xu_charset_utf8_get :: "static_stream \<Rightarrow> bool \<Rightarrow> got option" where
  "xu_charset_utf8_get s be =
     (let (p, s) = xu_static_stream_pos s; (n, s) = xu_static_stream_left s; m = smem s in
      case p of
        None \<Rightarrow> None
      | Some p \<Rightarrow>
          if \<not> p < length m then None
          else if m ! p AND 0x80 = 0 then
            if n = 0 then Some (-1, None, s) else utf8_done s (ucast (m ! p)) 1
          else if m ! p AND 0xe0 = 0xc0 then
            if \<not> n > 1 then Some (-1, None, s)
            else utf8_done s (utf8_bits m p 0x1f 6 OR utf8_bits m (p + 1) 0x3f 0) 2
          else if m ! p AND 0xf0 = 0xe0 then
            if \<not> n > 2 then Some (-1, None, s)
            else utf8_done s (utf8_bits m p 0x0f 12 OR utf8_bits m (p + 1) 0x3f 6
              OR utf8_bits m (p + 2) 0x3f 0) 3
          else if m ! p AND 0xf8 = 0xf0 then
            if \<not> n > 3 then Some (-1, None, s)
            else utf8_done s (utf8_bits m p 0x07 18 OR utf8_bits m (p + 1) 0x3f 12
              OR utf8_bits m (p + 2) 0x3f 6 OR utf8_bits m (p + 3) 0x3f 0) 4
          else if m ! p AND 0xfc = 0xf8 then
            if \<not> n > 4 then Some (-1, None, s)
            else utf8_done s (utf8_bits m p 0x03 24 OR utf8_bits m (p + 1) 0x3f 18
              OR utf8_bits m (p + 2) 0x3f 12 OR utf8_bits m (p + 3) 0x3f 6 OR utf8_bits m (p + 4) 0x3f 0) 5
          else if m ! p AND 0xfe = 0xfc then
            if \<not> n > 5 then Some (-1, None, s)
            else utf8_done s (utf8_bits m p 0x01 30 OR utf8_bits m (p + 1) 0x3f 24
              OR utf8_bits m (p + 2) 0x3f 18 OR utf8_bits m (p + 3) 0x3f 12
              OR utf8_bits m (p + 4) 0x3f 6 OR utf8_bits m (p + 5) 0x3f 0) 6
          else Some (0, None, snd (xu_static_stream_skip s 1)))"

text \<open>The byte with the bits of the character from \<open>n\<close> on, masked and marked.\<close>

definition utf8_byte :: "u32 \<Rightarrow> nat \<Rightarrow> u32 \<Rightarrow> u32 \<Rightarrow> u8" where
  "utf8_byte ch n msk mark = ucast ((drop_bit n ch AND msk) OR mark)"

definition utf8_writ :: "static_stream \<Rightarrow> nat \<Rightarrow> u8 list \<Rightarrow> int \<times> static_stream" where
  "utf8_writ s n bs =
     (if \<not> n \<ge> length bs then (-1, s)
      else (1, snd (xu_static_stream_skip (s\<lparr>smem := put_bytes (smem s) (sp s) bs\<rparr>) (length bs))))"

definition xu_charset_utf8_set :: "static_stream \<Rightarrow> bool \<Rightarrow> u32 \<Rightarrow> int \<times> static_stream" where
  "xu_charset_utf8_set s be ch =
     (let s = snd (xu_static_stream_pos s); (n, s) = xu_static_stream_left s in
      if ch \<le> 0x0000007f then utf8_writ s n [ucast ch]
      else if ch \<le> 0x000007ff then
        utf8_writ s n [utf8_byte ch 6 0x1f 0xc0, utf8_byte ch 0 0x3f 0x80]
      else if ch \<le> 0x0000ffff then
        utf8_writ s n [utf8_byte ch 12 0x0f 0xe0, utf8_byte ch 6 0x3f 0x80, utf8_byte ch 0 0x3f 0x80]
      else if ch \<le> 0x001fffff then
        utf8_writ s n [utf8_byte ch 18 0x07 0xf0, utf8_byte ch 12 0x3f 0x80, utf8_byte ch 6 0x3f 0x80,
          utf8_byte ch 0 0x3f 0x80]
      else if ch \<le> 0x03ffffff then
        utf8_writ s n [utf8_byte ch 24 0x03 0xf8, utf8_byte ch 18 0x3f 0x80, utf8_byte ch 12 0x3f 0x80,
          utf8_byte ch 6 0x3f 0x80, utf8_byte ch 0 0x3f 0x80]
      else if ch \<le> 0x7fffffff then
        utf8_writ s n [utf8_byte ch 30 0x01 0xfc, utf8_byte ch 24 0x3f 0x80, utf8_byte ch 18 0x3f 0x80,
          utf8_byte ch 12 0x3f 0x80, utf8_byte ch 6 0x3f 0x80, utf8_byte ch 0 0x3f 0x80]
      else (0, s))"

section \<open>The table\<close>

definition XU_CHARSET_TYPE_LE :: u64 where "XU_CHARSET_TYPE_LE = 0x0100"
definition XU_CHARSET_TYPE_ME :: u64 where "XU_CHARSET_TYPE_ME = 0x0100"

definition XU_CHARSET_TYPE :: "u64 \<Rightarrow> u64" where
  "XU_CHARSET_TYPE type = type AND NOT XU_CHARSET_TYPE_ME"

definition XU_CHARSET_TYPE_OK :: "u64 \<Rightarrow> bool" where
  "XU_CHARSET_TYPE_OK type \<longleftrightarrow> XU_CHARSET_TYPE type \<noteq> 0"

record charset =
  cs_type :: u64
  cs_name :: "u8 list"
  cs_get :: "static_stream \<Rightarrow> bool \<Rightarrow> got option"
  cs_set :: "static_stream \<Rightarrow> bool \<Rightarrow> u32 \<Rightarrow> int \<times> static_stream"

definition g_charsets :: "charset list" where
  "g_charsets =
     [\<lparr>cs_type = 0x01, cs_name = [97, 115, 99, 105, 105], cs_get = xu_charset_ascii_get, cs_set = xu_charset_ascii_set\<rparr>,
      \<lparr>cs_type = 0x04, cs_name = [105, 115, 111, 56, 56, 53, 57], cs_get = xu_charset_iso8859_get, cs_set = xu_charset_iso8859_set\<rparr>,
      \<lparr>cs_type = 0x05, cs_name = [117, 99, 115, 51], cs_get = xu_charset_ucs2_get, cs_set = xu_charset_ucs2_set\<rparr>,
      \<lparr>cs_type = 0x06, cs_name = [117, 99, 115, 52], cs_get = xu_charset_ucs4_get, cs_set = xu_charset_ucs4_set\<rparr>,
      \<lparr>cs_type = 0x07, cs_name = [117, 116, 102, 49, 54], cs_get = xu_charset_utf16_get, cs_set = xu_charset_utf16_set\<rparr>,
      \<lparr>cs_type = 0x08, cs_name = [117, 116, 102, 51, 50], cs_get = xu_charset_utf32_get, cs_set = xu_charset_utf32_set\<rparr>,
      \<lparr>cs_type = 0x09, cs_name = [117, 116, 102, 56], cs_get = xu_charset_utf8_get, cs_set = xu_charset_utf8_set\<rparr>]"

text \<open>The table as an array; the comparison of its own is not used. For the search by name the name of
  an entry and the one that is looked for stand in one memory.\<close>

definition charsets_iterator :: "charset iterator" where
  "charsets_iterator = \<lparr>it_mode = array_mode, it_items = g_charsets, it_comp = (\<lambda>a b. 0)\<rparr>"

definition xu_charset_comp_by_name :: "charset iterator \<Rightarrow> charset \<Rightarrow> u8 list \<Rightarrow> int" where
  "xu_charset_comp_by_name it item name =
     the (xu_stricmp (cs_name item @ [0] @ name @ [0]) 0 (length (cs_name item) + 1))"

definition xu_charset_comp_by_type :: "charset iterator \<Rightarrow> charset \<Rightarrow> u64 \<Rightarrow> int" where
  "xu_charset_comp_by_type it item type = sint (cs_type item) - sint type"

definition xu_charset_find_by_name :: "u8 list \<Rightarrow> charset option" where
  "xu_charset_find_by_name name =
     (let itor = xu_binary_find_all_if charsets_iterator xu_charset_comp_by_name name
      in if itor \<noteq> xu_iterator_tail charsets_iterator then Some (xu_iterator_item charsets_iterator itor) else None)"

definition xu_charset_find_by_type :: "u64 \<Rightarrow> charset option" where
  "xu_charset_find_by_type type =
     (let itor = xu_binary_find_all_if charsets_iterator xu_charset_comp_by_type (XU_CHARSET_TYPE type)
      in if itor \<noteq> xu_iterator_tail charsets_iterator then Some (xu_iterator_item charsets_iterator itor) else None)"

definition xu_charset_name :: "u64 \<Rightarrow> u8 list option" where
  "xu_charset_name type = map_option cs_name (xu_charset_find_by_type type)"

definition xu_charset_type :: "u8 list \<Rightarrow> u64" where
  "xu_charset_type name = (case xu_charset_find_by_name name of None \<Rightarrow> 0 | Some c \<Rightarrow> cs_type c)"

definition xu_charset_find :: "u64 \<Rightarrow> charset option" where
  "xu_charset_find type = xu_charset_find_by_type type"

section \<open>Conversion\<close>

text \<open>No conversion by the platform.\<close>

definition xu_charset_conv_impl :: "u64 \<Rightarrow> u64 \<Rightarrow> static_stream \<Rightarrow> static_stream \<Rightarrow> int" where
  "xu_charset_conv_impl ftype ttype fs ts = - 1"

text \<open>The outer none is a loop that does not end, the inner one an access outside the memory.\<close>

partial_function (option) conv_loop ::
    "charset \<Rightarrow> charset \<Rightarrow> bool \<Rightarrow> bool \<Rightarrow> static_stream \<Rightarrow> static_stream
      \<Rightarrow> (static_stream \<times> static_stream) option option" where
  "conv_loop fr to fbe tbe fs ts =
     (case xu_static_stream_left fs of (nf, fs) \<Rightarrow>
      if nf = 0 then Some (Some (fs, ts))
      else case xu_static_stream_left ts of (nt, ts) \<Rightarrow>
      if nt = 0 then Some (Some (fs, ts))
      else case cs_get fr fs fbe of
        None \<Rightarrow> Some None
      | Some (ok, ch, fs) \<Rightarrow>
          if ok > 0 then
            case cs_set to ts tbe (the ch) of (r, ts) \<Rightarrow>
            if r < 0 then Some (Some (fs, ts)) else conv_loop fr to fbe tbe fs ts
          else if ok < 0 then Some (Some (fs, ts))
          else conv_loop fr to fbe tbe fs ts)"

declare conv_loop.simps [code]

definition xu_charset_conv_bst ::
    "u64 \<Rightarrow> u64 \<Rightarrow> static_stream \<Rightarrow> static_stream \<Rightarrow> (int \<times> static_stream \<times> static_stream) option option" where
  "xu_charset_conv_bst ftype ttype fs ts =
     (if \<not> (XU_CHARSET_TYPE_OK ftype \<and> XU_CHARSET_TYPE_OK ttype) then Some (Some (- 1, fs, ts))
      else if \<not> (xu_static_stream_valid fs \<and> xu_static_stream_valid ts) then Some (Some (- 1, fs, ts))
      else let ok = xu_charset_conv_impl ftype ttype fs ts in
      if \<not> ok < 0 then Some (Some (ok, fs, ts))
      else case (xu_charset_find_by_type ftype, xu_charset_find_by_type ttype) of
        (Some fr, Some to) \<Rightarrow>
          (case xu_static_stream_left fs of (nf, fs) \<Rightarrow>
           if nf = 0 then Some (Some (0, fs, ts))
           else let fbe = (ftype AND XU_CHARSET_TYPE_LE = 0); tbe = (ttype AND XU_CHARSET_TYPE_LE = 0);
                    (tp, ts) = xu_static_stream_pos ts
                in case conv_loop fr to fbe tbe fs ts of
                     None \<Rightarrow> None
                   | Some None \<Rightarrow> Some None
                   | Some (Some (fs, ts)) \<Rightarrow>
                       let (p, ts) = xu_static_stream_pos ts in Some (Some (int (the p) - int (the tp), fs, ts)))
      | _ \<Rightarrow> Some (Some (- 1, fs, ts)))"

text \<open>From a block of bytes into a buffer: the result and the buffer.\<close>

definition xu_charset_conv_data ::
    "u64 \<Rightarrow> u64 \<Rightarrow> u8 list \<Rightarrow> nat \<Rightarrow> u8 list \<Rightarrow> nat \<Rightarrow> (int \<times> u8 list) option option" where
  "xu_charset_conv_data ftype ttype idata isize odata osize =
     (if \<not> (XU_CHARSET_TYPE_OK ftype \<and> XU_CHARSET_TYPE_OK ttype \<and> osize \<noteq> 0) then Some (Some (- 1, odata))
      else if isize = 0 then Some (Some (0, odata))
      else map_option (map_option (\<lambda>(n, fs, ts). (n, smem ts)))
        (xu_charset_conv_bst ftype ttype (xu_static_stream_init idata 0 isize) (xu_static_stream_init odata 0 osize)))"

definition xu_charset_conv_cstr ::
    "u64 \<Rightarrow> u64 \<Rightarrow> u8 list \<Rightarrow> u8 list \<Rightarrow> nat \<Rightarrow> (int \<times> u8 list) option option" where
  "xu_charset_conv_cstr ftype ttype cs odata osize =
     (if \<not> (XU_CHARSET_TYPE_OK ftype \<and> XU_CHARSET_TYPE_OK ttype \<and> osize \<noteq> 0) then Some (Some (- 1, odata))
      else case xu_strlen cs 0 of
        None \<Rightarrow> Some None
      | Some n \<Rightarrow> xu_charset_conv_data ftype ttype cs n odata osize)"

end
