(* ===== verification/XCStringCorrect.thy ===== *)
theory XCStringCorrect
  imports XCString XElement "HOL-Library.List_Lexorder"
begin

text \<open>
  The portable C library: blocks are moved as a whole also when they overlap, searches find the
  first or last occurrence, comparisons are the lexicographic order of the bytes, and the integer
  conversions compute the value of the digits modulo 2 to the 64th.
\<close>

section \<open>Blocks of memory\<close>

lemma peek_in [simp]: "p < length m \<Longrightarrow> peek m p = Some (m ! p)"
  by (simp add: peek_def)

lemma poke_in [simp]: "p < length m \<Longrightarrow> poke m p x = Some (m[p := x])"
  by (simp add: poke_def)

lemma copy_byte_in [simp]: "p < length m \<Longrightarrow> q < length m \<Longrightarrow> copy_byte m p q = Some (m[p := m ! q])"
  by (simp add: copy_byte_def)

lemma mem_move_self [simp]: "mem_move m p p n = m"
  by (rule nth_equalityI) auto

lemma copy_bytes_move:
  assumes "p + n \<le> length m" and "q + n \<le> length m" and "p \<le> q \<or> q + n \<le> p"
  shows "copy_bytes m p q n = Some (mem_move m p q n)"
  using assms
proof (induction n arbitrary: m p q)
  case 0
  then show ?case by simp
next
  case (Suc n)
  have "copy_bytes m p q (Suc n) = Some (mem_move (m[p := m ! q]) (p + 1) (q + 1) n)"
    using Suc.IH [of "p + 1" "m[p := m ! q]" "q + 1"] Suc.prems by auto
  also have "mem_move (m[p := m ! q]) (p + 1) (q + 1) n = mem_move m p q (Suc n)"
  proof (rule nth_equalityI)
    fix i assume i: "i < length (mem_move (m[p := m ! q]) (p + 1) (q + 1) n)"
    consider "i < p \<or> p + Suc n \<le> i" | "i = p" | "p + 1 \<le> i" "i < p + Suc n" by linarith
    then show "mem_move (m[p := m ! q]) (p + 1) (q + 1) n ! i = mem_move m p q (Suc n) ! i"
    proof cases
      case 3
      then have "q + 1 + (i - (p + 1)) = q + (i - p)" "q + (i - p) \<noteq> p" using Suc.prems by auto
      then show ?thesis using 3 i by simp
    qed (use i in auto)
  qed simp
  finally show ?case .
qed

lemma copy_words_bytes: "copy_words m p q n = copy_bytes m p q (4 * n)"
proof (induction n arbitrary: m p q)
  case (Suc n)
  have "4 * Suc n = Suc (Suc (Suc (Suc (4 * n))))" by simp
  then show ?case using Suc by (simp add: numeral_eq_Suc del: mult_Suc_right)
qed simp

lemma copy_bytes_add:
  "copy_bytes m p q (k + n) = do { m \<leftarrow> copy_bytes m p q k; copy_bytes m (p + k) (q + k) n }"
proof (induction k arbitrary: m p q)
  case (Suc k)
  then show ?case by (cases "copy_byte m p q") simp_all
qed simp

lemma words_rest: "4 * ((n - n mod 4) div 4) + n mod 4 = (n :: nat)"
  by (metis div_mult_mod_eq minus_mod_eq_mult_div mult.commute nonzero_mult_div_cancel_left zero_neq_numeral)

lemma memcpy_bytes: "xu_memcpy m p q n = (if p = q then Some m else copy_bytes m p q n)"
  using copy_bytes_add [of m p q "4 * ((n - n mod 4) div 4)" "n mod 4"]
  by (simp add: xu_memcpy_def copy_words_bytes words_rest Let_def)

lemma copy_down_move:
  assumes "s + n \<le> length m" and "p < s"
  shows "copy_down m s p n = Some (mem_move m s p n)"
  using assms
proof (induction n arbitrary: m)
  case 0
  then show ?case by simp
next
  case (Suc n)
  let ?m = "m[s + n := m ! (p + n)]"
  have "copy_down m s p (Suc n) = Some (mem_move ?m s p n)" using Suc.IH [of ?m] Suc.prems by simp
  also have "mem_move ?m s p n = mem_move m s p (Suc n)"
  proof (rule nth_equalityI)
    fix i assume i: "i < length (mem_move ?m s p n)"
    consider "i < s \<or> s + Suc n \<le> i" | "i = s + n" | "s \<le> i" "i < s + n" by linarith
    then show "mem_move ?m s p n ! i = mem_move m s p (Suc n) ! i"
      using i Suc.prems by cases auto
  qed simp
  finally show ?case .
qed

lemma set_bytes_fill: "p + n \<le> length m \<Longrightarrow> set_bytes m p c n = Some (mem_fill m p n c)"
proof (induction n arbitrary: m p)
  case (Suc n)
  have "set_bytes m p c (Suc n) = Some (mem_fill (m[p := c]) (p + 1) n c)"
    using Suc.IH [of "p + 1" "m[p := c]"] Suc.prems by simp
  also have "mem_fill (m[p := c]) (p + 1) n c = mem_fill m p (Suc n) c"
    by (rule nth_equalityI) (auto simp: nth_list_update)
  finally show ?case .
qed simp

lemma set_words_bytes: "set_words m p c n = set_bytes m p c (4 * n)"
proof (induction n arbitrary: m p)
  case (Suc n)
  have "4 * Suc n = Suc (Suc (Suc (Suc (4 * n))))" by simp
  then show ?case using Suc by (simp add: numeral_eq_Suc del: mult_Suc_right)
qed simp

lemma set_bytes_add: "set_bytes m p c (k + n) = do { m \<leftarrow> set_bytes m p c k; set_bytes m (p + k) c n }"
proof (induction k arbitrary: m p)
  case (Suc k)
  then show ?case by (cases "poke m p c") simp_all
qed simp

lemma memory_blocks:
  assumes "s1 + n \<le> length m" and "s2 + n \<le> length m"
  shows "xu_memmov m s1 s2 n = Some (mem_move m s1 s2 n)
    \<and> (s1 \<le> s2 \<or> s2 + n \<le> s1 \<longrightarrow> xu_memcpy m s1 s2 n = Some (mem_move m s1 s2 n))
    \<and> xu_memset m s1 c n = Some (mem_fill m s1 n c)"
proof (intro conjI impI)
  show "xu_memmov m s1 s2 n = Some (mem_move m s1 s2 n)"
    using copy_bytes_move [of s1 n m s2] copy_down_move [of s1 n m s2] assms by (simp add: xu_memmov_def)
  show "xu_memcpy m s1 s2 n = Some (mem_move m s1 s2 n)" if "s1 \<le> s2 \<or> s2 + n \<le> s1"
    using copy_bytes_move [of s1 n m s2] assms that by (simp add: memcpy_bytes)
  show "xu_memset m s1 c n = Some (mem_fill m s1 n c)"
    using set_bytes_add [of m s1 c "4 * ((n - n mod 4) div 4)" "n mod 4"] set_bytes_fill [of s1 n m c] assms
    by (simp add: xu_memset_def set_words_bytes words_rest Let_def)
qed

text \<open>C22. Moving a block copies it as it was, whether or not the blocks overlap; copying does the same
  when the destination does not start inside the source, and setting fills the block. All three
  stay inside the blocks. These are the moves and fills the containers are modelled with.\<close>

theorem xu_memory_blocks_correct:
  assumes "s1 + n \<le> length m" and "s2 + n \<le> length m"
  shows "xu_memmov m s1 s2 n = Some (mem_move m s1 s2 n)
    \<and> (s1 \<le> s2 \<or> s2 + n \<le> s1 \<longrightarrow> xu_memcpy m s1 s2 n = Some (mem_move m s1 s2 n))
    \<and> xu_memset m s1 c n = Some (mem_fill m s1 n c)"
  by (rule memory_blocks [OF assms])

theorem xu_memory_blocks_correct_witness:
  "xu_memmov [1, 2, 3, 4, 5, 6, 7, 8] 2 0 5 = Some [1, 2, 1, 2, 3, 4, 5, 8]
    \<and> xu_memcpy [1, 2, 3, 4, 5, 6, 7, 8] 0 2 5 = Some [3, 4, 5, 6, 7, 6, 7, 8]"
  using xu_memory_blocks_correct [of 2 5 "[1, 2, 3, 4, 5, 6, 7, 8]" 0]
    xu_memory_blocks_correct [of 0 5 "[1, 2, 3, 4, 5, 6, 7, 8]" 2]
  by (simp add: mem_move_def upt_rec)

section \<open>Strings\<close>

text \<open>The characters of a string in memory, up to its null character.\<close>

fun cstr :: "u8 list \<Rightarrow> nat \<Rightarrow> u8 list \<Rightarrow> bool" where
  "cstr m p [] \<longleftrightarrow> peek m p = Some 0"
| "cstr m p (x # xs) \<longleftrightarrow> peek m p = Some x \<and> x \<noteq> 0 \<and> cstr m (p + 1) xs"

lemma cstr_drop: "cstr m p xs \<Longrightarrow> i \<le> length xs \<Longrightarrow> cstr m (p + i) (drop i xs)"
proof (induction xs arbitrary: p i)
  case (Cons x xs)
  then show ?case using Cons.IH [of "p + 1" "i - 1"] by (cases i) auto
qed simp

lemma cstr_peek: "cstr m p xs \<Longrightarrow> i < length xs \<Longrightarrow> peek m (p + i) = Some (xs ! i) \<and> xs ! i \<noteq> 0"
  using cstr_drop [of m p xs i] by (auto simp: Cons_nth_drop_Suc [symmetric])

lemma cstr_end: "cstr m p xs \<Longrightarrow> peek m (p + length xs) = Some 0"
  using cstr_drop [of m p xs "length xs"] by simp

lemma strlen_loop_cstr: "cstr m p xs \<Longrightarrow> s \<le> p \<Longrightarrow> strlen_loop m s p = Some (p - s + length xs)"
proof (induction "length xs" arbitrary: p xs rule: less_induct)
  case less
  consider "xs = []" | a where "xs = [a]" | a b where "xs = [a, b]" | a b c where "xs = [a, b, c]"
    | a b c d ys where "xs = a # b # c # d # ys"
    by (metis list.exhaust)
  then show ?case
  proof cases
    case 5
    have "strlen_loop m s (p + 4) = Some (p + 4 - s + length ys)"
      using less.hyps [of ys "p + 4"] less.prems 5 by (simp add: numeral_eq_Suc)
    then show ?thesis using less.prems 5 by (subst strlen_loop.simps) (simp add: numeral_eq_Suc)
  qed (use less.prems in \<open>subst strlen_loop.simps, simp add: numeral_eq_Suc\<close>)+
qed

lemma strlen_cstr: "cstr m s xs \<Longrightarrow> xu_strlen m s = Some (length xs)"
  by (simp add: xu_strlen_def strlen_loop_cstr)

subsection \<open>Characters\<close>

text \<open>The part of the string that a count lets a routine see.\<close>

definition seen :: "nat option \<Rightarrow> 'a list \<Rightarrow> 'a list" where
  "seen n xs = (case n of None \<Rightarrow> xs | Some k \<Rightarrow> take k xs)"

lemma seen_simps [simp]:
  "seen n [] = []" "seen None xs = xs" "seen (Some 0) xs = []"
  "n \<noteq> Some 0 \<Longrightarrow> seen n (x # xs) = x # seen (map_option (\<lambda>n. n - 1) n) xs"
  by (auto simp: seen_def take_Cons' split: option.splits)

lemma chr_loop_first:
  "cstr m s xs \<Longrightarrow> chr_loop P m s n =
     Some (if \<exists>x \<in> set (seen n xs). P x then Some (s + length (takeWhile (\<lambda>x. \<not> P x) (seen n xs))) else None)"
proof (induction xs arbitrary: s n)
  case Nil
  then show ?case by (subst chr_loop.simps) simp
next
  case (Cons x xs)
  show ?case
  proof (cases "n = Some 0")
    case True
    then show ?thesis by (subst chr_loop.simps) simp
  next
    case False
    have c: "peek m s = Some x" "x \<noteq> 0" "cstr m (s + 1) xs" using Cons.prems by auto
    show ?thesis using Cons.IH [OF c(3), of "map_option (\<lambda>n. n - 1) n"] c(1,2) False
      by (subst chr_loop.simps) simp
  qed
qed

text \<open>The first and the last index of a character with a property.\<close>

definition first_index :: "('a \<Rightarrow> bool) \<Rightarrow> 'a list \<Rightarrow> nat option" where
  "first_index P xs = (if \<exists>x \<in> set xs. P x then Some (length (takeWhile (\<lambda>x. \<not> P x) xs)) else None)"

definition last_index :: "('a \<Rightarrow> bool) \<Rightarrow> 'a list \<Rightarrow> nat option" where
  "last_index P xs = map_option (\<lambda>i. length xs - Suc i) (first_index P (rev xs))"

lemma last_index_snoc: "last_index P (xs @ [x]) = (if P x then Some (length xs) else last_index P xs)"
  by (auto simp: last_index_def first_index_def)

lemma rchr_loop_last:
  "cstr m s xs \<Longrightarrow> n \<le> length xs \<Longrightarrow> rchr_loop P m s n = Some (map_option ((+) s) (last_index P (take n xs)))"
proof (induction n)
  case 0
  then show ?case by (simp add: last_index_def first_index_def)
next
  case (Suc n)
  then show ?case using cstr_peek [OF Suc.prems(1), of n]
    by (simp add: take_Suc_conv_app_nth last_index_snoc)
qed

subsection \<open>Substrings\<close>

definition occurs :: "(u8 \<Rightarrow> u8 \<Rightarrow> bool) \<Rightarrow> u8 list \<Rightarrow> u8 list \<Rightarrow> nat \<Rightarrow> bool" where
  "occurs eq ys xs i \<longleftrightarrow> i + length ys \<le> length xs \<and> (\<forall>k < length ys. eq (ys ! k) (xs ! (i + k)))"

lemma str_loop_first:
  assumes xs: "cstr m a xs" and ys: "cstr m b ys" and eq: "\<And>y. y \<noteq> 0 \<Longrightarrow> \<not> eq y 0"
    and "i + k \<le> length xs" and "k \<le> length ys" and "\<And>l. l < k \<Longrightarrow> eq (ys ! l) (xs ! (i + l))"
    and "\<And>j. j < i \<Longrightarrow> \<not> occurs eq ys xs j"
  shows "\<exists>r. str_loop eq m b (a + i) (a + i + k) (b + k) = Some r \<and> (case r of None \<Rightarrow> \<forall>j. \<not> occurs eq ys xs j
    | Some p \<Rightarrow> \<exists>i. p = a + i \<and> occurs eq ys xs i \<and> (\<forall>j < i. \<not> occurs eq ys xs j))"
  using assms(4-7)
proof (induction "(length xs - i) * Suc (length ys) + (length ys - k)" arbitrary: i k rule: less_induct)
  case less
  note loop = str_loop.simps [of eq m b "a + i" "a + i + k" "b + k"]
  show ?case
  proof (cases "k = length ys")
    case True
    then show ?thesis
      using cstr_end [OF ys] less.prems by (subst loop) (auto simp: occurs_def intro!: exI [of _ i])
  next
    case False
    then have k: "k < length ys" using less.prems by simp
    note y = cstr_peek [OF ys k]
    define x where "x = (if i + k < length xs then xs ! (i + k) else 0)"
    have x: "peek m (a + i + k) = Some x"
      using cstr_peek [OF xs, of "i + k"] cstr_end [OF xs] less.prems(1)
      by (auto simp: x_def add.assoc)
    show ?thesis
    proof (cases "eq (ys ! k) x")
      case True
      then have ik: "i + k < length xs" using y eq by (auto simp: x_def split: if_splits)
      have "eq (ys ! l) (xs ! (i + l))" if "l < Suc k" for l
        using that less.prems(3) True ik by (cases "l = k") (auto simp: x_def)
      then show ?thesis
        using less.hyps [of i "Suc k"] less.prems True k ik x y by (subst loop) (simp add: add.assoc)
    next
      case False
      have no: "\<not> occurs eq ys xs i"
      proof
        assume o: "occurs eq ys xs i"
        then have "i + k < length xs" "eq (ys ! k) (xs ! (i + k))" using k by (auto simp: occurs_def)
        then show False using False by (simp add: x_def)
      qed
      show ?thesis
      proof (cases "x = 0")
        case True
        then have "i + k = length xs" using cstr_peek [OF xs, of "i + k"] less.prems(1) by (auto simp: x_def split: if_splits)
        then have "\<not> occurs eq ys xs j" for j
          using k no less.prems(4) by (cases "j < i") (auto simp: occurs_def)
        then show ?thesis using False True x y by (subst loop) simp
      next
        case nz: False
        then have ik: "i < length xs" by (auto simp: x_def split: if_splits)
        have "(length xs - Suc i) * Suc (length ys) + length ys < (length xs - i) * Suc (length ys)"
          using ik by (simp add: Suc_diff_Suc [symmetric])
        moreover have "\<not> occurs eq ys xs j" if "j < Suc i" for j
          using that no less.prems(4) by (cases "j = i") auto
        ultimately show ?thesis
          using less.hyps [of "Suc i" 0] False nz x y ik by (subst loop) (simp add: add.assoc)
      qed
    qed
  qed
qed

definition first_at :: "(u8 \<Rightarrow> u8 \<Rightarrow> bool) \<Rightarrow> u8 list \<Rightarrow> u8 list \<Rightarrow> nat option" where
  "first_at eq ys xs = (if \<exists>i. occurs eq ys xs i then Some (LEAST i. occurs eq ys xs i) else None)"

lemma str_loop_start:
  assumes "cstr m a xs" and "cstr m b ys" and "\<And>y. y \<noteq> 0 \<Longrightarrow> \<not> eq y 0"
  shows "str_loop eq m b a a b = Some (map_option ((+) a) (first_at eq ys xs))"
proof -
  obtain r where r: "str_loop eq m b a a b = Some r" "case r of None \<Rightarrow> \<forall>j. \<not> occurs eq ys xs j
    | Some p \<Rightarrow> \<exists>i. p = a + i \<and> occurs eq ys xs i \<and> (\<forall>j < i. \<not> occurs eq ys xs j)"
    using str_loop_first [where i = 0 and k = 0 and eq = eq, OF assms(1,2)] assms(3) by auto
  then show ?thesis
    by (cases r) (auto simp: first_at_def intro!: Least_equality [symmetric] leI)
qed

lemma lower_pos: "0 < x \<Longrightarrow> 0 < xu_tolower x"
  by (simp add: xu_tolower_def xu_isupper_def)

lemma lower_0 [simp]: "xu_tolower 0 = 0"
  by (simp add: xu_tolower_def xu_isupper_def)

lemma lower_byte: "uint (word_of_int (xu_tolower (uint (c :: u8))) :: u8) = xu_tolower (uint c)"
proof -
  have "uint c < 256" "0 \<le> uint c" using uint_lt2p [of c] by auto
  then show ?thesis by (auto simp: xu_tolower_def xu_isupper_def uint_word_of_int)
qed

lemma uint_pos: "x \<noteq> 0 \<Longrightarrow> 0 < uint x"
  by (simp add: less_le uint_0_iff)

abbreviation lower :: "u8 \<Rightarrow> int" where
  "lower c \<equiv> xu_tolower (uint c)"

lemma strings_search:
  assumes s: "cstr m s xs" and t: "cstr m t ys"
  shows "xu_strlen m s = Some (length xs)
    \<and> xu_strchr m s c = Some (map_option ((+) s) (first_index (\<lambda>x. x = c) xs))
    \<and> xu_strnchr m s n c = Some (map_option ((+) s) (first_index (\<lambda>x. x = c) (take n xs)))
    \<and> xu_strichr m s c = Some (map_option ((+) s) (first_index (\<lambda>x. lower x = lower c) xs))
    \<and> xu_strrchr m s c = Some (map_option ((+) s) (last_index (\<lambda>x. x = c) xs))
    \<and> (n \<le> length xs \<longrightarrow>
        xu_strnrchr m s n c = Some (map_option ((+) s) (last_index (\<lambda>x. x = c) (take n xs)))
        \<and> xu_strnirchr m s n c = Some (map_option ((+) s) (last_index (\<lambda>x. lower x = lower c) (take n xs))))
    \<and> xu_strstr m s t = Some (map_option ((+) s) (first_at (\<lambda>y x. y = x) ys xs))
    \<and> xu_stristr m s t = Some (map_option ((+) s) (first_at (\<lambda>y x. lower y = lower x) ys xs))"
proof -
  have chr: "chr_loop P m s k = Some (map_option ((+) s) (first_index P (seen k xs)))" for P k
    using chr_loop_first [OF s, of P k] by (simp add: first_index_def)
  have i: "(\<lambda>y x :: u8. y = x \<or> lower y = lower x) = (\<lambda>y x. lower y = lower x)" by auto
  have nz: "lower y \<noteq> lower 0" if "y \<noteq> 0" for y using lower_pos [OF uint_pos [OF that]] by simp
  show ?thesis
    using strlen_cstr [OF s] chr rchr_loop_last [OF s] str_loop_start [OF s t] nz
    by (simp add: xu_strchr_def xu_strnchr_def xu_strichr_def xu_strrchr_def xu_strnrchr_def xu_strnirchr_def
        xu_strstr_def xu_stristr_def seen_def i lower_byte Let_def)
qed


text \<open>A memory that holds "abcab" at 0, "ab" at 6 and "CA" at 9.\<close>

definition sample_strings :: "u8 list" where
  "sample_strings = [97, 98, 99, 97, 98, 0, 97, 98, 0, 67, 65, 0]"

lemma sample_strings_at: "cstr sample_strings 0 [97, 98, 99, 97, 98]" "cstr sample_strings 6 [97, 98]"
  "cstr sample_strings 9 [67, 65]"
  by (simp_all add: sample_strings_def peek_def)


section \<open>Comparisons\<close>

definition order_sign :: "int list \<Rightarrow> int list \<Rightarrow> int" where
  "order_sign xs ys = (if xs = ys then 0 else if xs < ys then - 1 else 1)"

lemma order_sign_simps [simp]:
  "order_sign [] [] = 0" "order_sign [] (y # ys) = - 1" "order_sign (x # xs) [] = 1"
  "order_sign (x # xs) (y # ys) = (if x = y then order_sign xs ys else sgn (x - y))"
  by (auto simp: order_sign_def sgn_if)

lemma order_sign_refl [simp]: "order_sign xs xs = 0"
  by (simp add: order_sign_def)

lemma cmp_loop_strings:
  assumes f: "\<And>x. x \<noteq> 0 \<Longrightarrow> 0 < f (uint (x :: u8))" "f 0 = 0"
  shows "cstr m a xs \<Longrightarrow> cstr m b ys \<Longrightarrow> map_option sgn (cmp_loop f True m a b n)
    = Some (order_sign (map (\<lambda>x. f (uint x)) (seen n xs)) (map (\<lambda>x. f (uint x)) (seen n ys)))"
proof (induction xs arbitrary: ys a b n)
  case Nil
  then show ?case using f(1) [of "hd ys"] f(2)
    by (subst cmp_loop.simps) (cases ys; cases "n = Some 0"; simp add: sgn_if)
next
  case (Cons x xs)
  show ?case
  proof (cases "n = Some 0")
    case True
    then show ?thesis by (subst cmp_loop.simps) simp
  next
    case n: False
    show ?thesis
    proof (cases ys)
      case Nil
      then show ?thesis using Cons.prems n f(1) [of x] f(2) by (subst cmp_loop.simps) simp
    next
      case (Cons y zs)
      have "map_option sgn (cmp_loop f True m (a + 1) (b + 1) (map_option (\<lambda>n. n - 1) n))
        = Some (order_sign (map (\<lambda>x. f (uint x)) (seen (map_option (\<lambda>n. n - 1) n) xs))
            (map (\<lambda>x. f (uint x)) (seen (map_option (\<lambda>n. n - 1) n) zs)))"
        using Cons.IH Cons.prems \<open>ys = y # zs\<close> by simp
      then show ?thesis using Cons.prems \<open>ys = y # zs\<close> n by (subst cmp_loop.simps) (simp add: Let_def)
    qed
  qed
qed

lemma cmp_loop_blocks:
  assumes "a + n \<le> length m" and "b + n \<le> length m"
  shows "map_option sgn (cmp_loop f False m a b (Some n))
    = Some (order_sign (map (\<lambda>x. f (uint x)) (take n (drop a m))) (map (\<lambda>x. f (uint x)) (take n (drop b m))))"
  using assms
proof (induction n arbitrary: a b)
  case 0
  then show ?case by (subst cmp_loop.simps) simp
next
  case (Suc n)
  have "take (Suc n) (drop a m) = m ! a # take n (drop (Suc a) m)" if "Suc (a + n) \<le> length m" for a
    using that by (simp add: Cons_nth_drop_Suc [symmetric])
  then show ?case using Suc by (subst cmp_loop.simps) (simp add: Let_def)
qed

lemma cstr_unique: "cstr m a xs \<Longrightarrow> cstr m a ys \<Longrightarrow> xs = ys"
proof (induction xs arbitrary: a ys)
  case Nil
  then show ?case by (cases ys) auto
next
  case (Cons x xs)
  then show ?case by (cases ys) auto
qed

lemma strings_compare:
  assumes s: "cstr m s xs" and t: "cstr m t ys" and p: "p + k \<le> length m" and q: "q + k \<le> length m"
  shows "map_option sgn (xu_strcmp m s t) = Some (order_sign (map uint xs) (map uint ys))
    \<and> map_option sgn (xu_strncmp m s t n) = Some (order_sign (map uint (take n xs)) (map uint (take n ys)))
    \<and> map_option sgn (xu_stricmp m s t) = Some (order_sign (map lower xs) (map lower ys))
    \<and> map_option sgn (xu_strnicmp m s t n) = Some (order_sign (map lower (take n xs)) (map lower (take n ys)))
    \<and> map_option sgn (xu_memcmp m p q k)
        = Some (order_sign (map uint (take k (drop p m))) (map uint (take k (drop q m))))"
proof -
  have i: "map_option sgn (cmp_loop id True m s t j)
      = Some (order_sign (map uint (seen j xs)) (map uint (seen j ys)))" for j
    using cmp_loop_strings [OF _ _ s t, of id j] by (simp add: uint_pos)
  have l: "map_option sgn (cmp_loop xu_tolower True m s t j)
      = Some (order_sign (map lower (seen j xs)) (map lower (seen j ys)))" for j
    using cmp_loop_strings [OF _ _ s t, of xu_tolower j] by (simp add: uint_pos lower_pos)
  have b: "map_option sgn (cmp_loop id False m p q (Some k))
      = Some (order_sign (map uint (take k (drop p m))) (map uint (take k (drop q m))))"
    using cmp_loop_blocks [OF p q, of id] by simp
  have e: "s = t \<Longrightarrow> xs = ys" using cstr_unique s t by blast
  show ?thesis
    using i [of None] i [of "Some n"] l [of None] l [of "Some n"] b e
    by (auto simp: xu_strcmp_def xu_strncmp_def xu_stricmp_def xu_strnicmp_def xu_memcmp_def seen_def)
qed

text \<open>C24. The comparisons of strings give a number whose sign is the lexicographic order of their
  bytes, of at most n bytes, or of the bytes in lower case; the comparison of blocks the order of
  the blocks.\<close>

theorem xu_strings_compare:
  assumes "cstr m s xs" and "cstr m t ys" and "p + k \<le> length m" and "q + k \<le> length m"
  shows "map_option sgn (xu_strcmp m s t) = Some (order_sign (map uint xs) (map uint ys))
    \<and> map_option sgn (xu_strncmp m s t n) = Some (order_sign (map uint (take n xs)) (map uint (take n ys)))
    \<and> map_option sgn (xu_stricmp m s t) = Some (order_sign (map lower xs) (map lower ys))
    \<and> map_option sgn (xu_strnicmp m s t n) = Some (order_sign (map lower (take n xs)) (map lower (take n ys)))
    \<and> map_option sgn (xu_memcmp m p q k)
        = Some (order_sign (map uint (take k (drop p m))) (map uint (take k (drop q m))))"
  by (rule strings_compare [OF assms])

theorem xu_strings_compare_witness:
  "map_option sgn (xu_strcmp sample_strings 0 6) = Some 1 \<and> map_option sgn (xu_strncmp sample_strings 0 6 2) = Some 0
    \<and> map_option sgn (xu_stricmp sample_strings 9 6) = Some 1 \<and> map_option sgn (xu_memcmp sample_strings 0 3 2) = Some 0"
  using xu_strings_compare [OF sample_strings_at(1,2), of 0 2 3 2] xu_strings_compare [OF sample_strings_at(3,2), of 0 2 3 2]
  by (simp add: sample_strings_def xu_tolower_def xu_isupper_def)

section \<open>Integers from strings\<close>

lemma signed_byte: "sint (c :: u8) = (if uint c < 128 then uint c else uint c - 256)"
proof -
  define u where "u = uint c"
  have l: "0 \<le> u" "u < 256" using uint_lt2p [of c] by (auto simp: u_def)
  have o: "odd (u div 128) \<longleftrightarrow> 128 \<le> u"
  proof (cases "u < 128")
    case False
    then have "u div 128 = 1" using l by linarith
    then show ?thesis using False by simp
  qed (use l in simp)
  have m: "NOT (mask 8 :: int) = - 256" by (simp add: minus_exp_eq_not_mask [symmetric])
  have "take_bit 8 u = u" using l by (simp add: take_bit_int_eq_self_iff)
  then show ?thesis using o l m unfolding sint_uint u_def [symmetric]
    by (auto simp: signed_take_bit_code bit_iff_odd)
qed

lemma byte_not [simp]: "256 \<le> k \<Longrightarrow> uint (c :: u8) \<noteq> k"
  and byte_not_above [simp]: "255 \<le> k \<Longrightarrow> \<not> k < uint c"
  using uint_lt2p [of c] by auto

text \<open>The value of a digit, 16 for other characters, and of a sequence of digits.\<close>

definition digit_value :: "u8 \<Rightarrow> int" where
  "digit_value c =
     (let x = uint c in
      if 48 \<le> x \<and> x \<le> 57 then x - 48 else if 97 \<le> x \<and> x \<le> 102 then x - 87
      else if 65 \<le> x \<and> x \<le> 70 then x - 55 else 16)"

definition digits_value :: "int \<Rightarrow> u8 list \<Rightarrow> int" where
  "digits_value base ds = foldl (\<lambda>v c. v * base + digit_value c) 0 ds"

text \<open>The step of a base reads a digit of the base and refuses characters that are no digits.\<close>

definition reads_base :: "int \<Rightarrow> (int \<Rightarrow> u64 \<Rightarrow> u64 option) \<Rightarrow> bool" where
  "reads_base base step \<longleftrightarrow> base \<le> 16 \<and> (\<forall>c v.
     (digit_value c < base \<longrightarrow> step (sint c) (word_of_int v) = Some (word_of_int (v * base + digit_value c)))
     \<and> (16 \<le> digit_value c \<longrightarrow> step (sint c) (word_of_int v) = None))"

lemma steps_read:
  "reads_base 2 step2" "reads_base 8 step8" "reads_base 10 step10" "reads_base 16 step16"
proof -
  have w: "(word_of_int (v * 2 ^ k + d) :: u64) = push_bit k (word_of_int v) + word_of_int d" for v d k
    by (simp add: push_bit_eq_mult)
  have d: "(word_of_int (v * 10 + d) :: u64) = word_of_int v * 10 + word_of_int d" for v d by simp
  note f = reads_base_def digit_value_def Let_def signed_byte
  show "reads_base 2 step2" using w [where k = 1]
    by (auto simp: f step2_def xu_isdigit2_def split: if_splits)
  show "reads_base 8 step8" using w [where k = 3]
    by (auto simp: f step8_def xu_isdigit8_def split: if_splits)
  show "reads_base 10 step10"
    by (auto simp: f step10_def xu_isdigit10_def xu_isdigit_def split: if_splits)
  show "reads_base 16 step16" using w [where k = 4]
    by (auto simp: f step16_def xu_isdigit10_def xu_isdigit_def split: if_splits)
qed

lemma skip_while_cstr:
  "cstr m s (xs @ ys) \<Longrightarrow> \<forall>x \<in> set xs. P (sint x) \<Longrightarrow> \<not> P (sint (hd (ys @ [0]))) \<Longrightarrow>
     skip_while P m s = Some (s + length xs)"
proof (induction xs arbitrary: s)
  case Nil
  then show ?case by (cases ys) (subst skip_while.simps, simp)+
next
  case (Cons x xs)
  then show ?case by (subst skip_while.simps) simp
qed

definition digit_end :: "u8 list \<Rightarrow> bool" where
  "digit_end rest \<longleftrightarrow> (case rest of [] \<Rightarrow> True | c # _ \<Rightarrow> 16 \<le> digit_value c \<and> c \<noteq> 120 \<and> c \<noteq> 88)"

lemma digits_loop_value:
  assumes r: "reads_base base step"
  shows "cstr m s (ds @ rest) \<Longrightarrow> \<forall>d \<in> set ds. digit_value d < base \<Longrightarrow> digit_end rest \<Longrightarrow>
    digits_loop step m s (word_of_int v) = Some (word_of_int (foldl (\<lambda>v c. v * base + digit_value c) v ds))"
proof (induction ds arbitrary: s v)
  case Nil
  then show ?case using r
    by (subst digits_loop.simps) (cases rest; simp add: digit_end_def reads_base_def)
next
  case (Cons d ds)
  have "step (sint d) (word_of_int v) = Some (word_of_int (v * base + digit_value d))"
    using r Cons.prems(2) unfolding reads_base_def by simp
  then show ?case using Cons.IH [of "s + 1" "v * base + digit_value d"] Cons.prems
    by (subst digits_loop.simps) simp
qed

lemma digit_48 [simp]: "digit_value 48 = 0"
  by (simp add: digit_value_def)

lemma digits_value_zeros: "digits_value base (replicate n 48 @ ds) = digits_value base ds"
  by (induction n) (simp_all add: digits_value_def)

lemma sint_48: "sint (c :: u8) = 48 \<longleftrightarrow> c = 48"
  by (auto simp: signed_byte word_uint_eq_iff)

lemma digits_tail:
  assumes r: "reads_base base step" and s: "cstr m s (ds @ rest)" and d: "\<forall>d \<in> set ds. digit_value d < base"
    and e: "digit_end rest"
  shows "do { s \<leftarrow> skip_while (\<lambda>c. c = 48) m s; digits_loop step m s 0 } = Some (word_of_int (digits_value base ds))"
proof -
  define zs es where ze: "zs = takeWhile (\<lambda>c. c = 48) ds" "es = dropWhile (\<lambda>c. c = 48) ds"
  have ds: "ds = zs @ es" unfolding ze by simp
  have z: "\<forall>x \<in> set zs. x = 48" unfolding ze by (meson set_takeWhileD)
  have "hd (es @ rest @ [0]) \<noteq> 48"
  proof (cases es)
    case Nil
    then show ?thesis using e by (cases rest) (auto simp: digit_end_def)
  next
    case (Cons a as)
    then have "a \<noteq> 48" unfolding ze by (simp add: dropWhile_eq_Cons_conv)
    then show ?thesis using Cons by simp
  qed
  then have "skip_while (\<lambda>c. c = 48) m s = Some (s + length zs)"
    using skip_while_cstr [of m s zs "es @ rest" "\<lambda>c. c = 48"] s z unfolding ds by (simp add: sint_48)
  moreover have "digits_loop step m (s + length zs) 0 = Some (word_of_int (digits_value base es))"
    using digits_loop_value [OF r, of m "s + length zs" es rest 0] cstr_drop [OF s, of "length zs"] d e
    unfolding ds by (simp add: digits_value_def)
  moreover have "zs = replicate (length zs) 48" using z by (simp add: replicate_length_same)
  then have "digits_value base ds = digits_value base es" unfolding ds by (metis digits_value_zeros)
  ultimately show ?thesis by simp
qed

lemma read_sign_cstr:
  assumes "cstr m s (sg @ ys)" and "sg = [] \<or> sg = [43] \<or> sg = [45]"
    and "sg = [] \<Longrightarrow> hd (ys @ [0]) \<noteq> 43 \<and> hd (ys @ [0]) \<noteq> 45"
  shows "read_sign m s = Some (sg = [45], s + length sg)"
  using assms by (cases ys) (auto simp: read_sign_def)

lemma digit_bounds: "digit_value c < 16 \<Longrightarrow> 48 \<le> uint c \<and> uint c \<le> 102"
  by (auto simp: digit_value_def Let_def split: if_splits)

lemma skip_prefix_cstr:
  assumes s: "cstr m s (pf @ ds @ rest)" and pf: "pf = [] \<or> pf = [48, lo] \<or> pf = [48, up]"
    and ds: "ds \<noteq> []" "\<forall>d \<in> set ds. digit_value d < base"
    and lo: "base \<le> digit_value lo" "base \<le> digit_value up"
    and e: "rest = [] \<or> hd rest \<noteq> lo \<and> hd rest \<noteq> up" "lo \<noteq> 0" "up \<noteq> 0"
  shows "skip_prefix m s lo up = Some (s + length pf)"
proof (cases "pf = []")
  case False
  then show ?thesis using s pf by (auto simp: skip_prefix_def)
next
  case True
  obtain d es where d: "ds = d # es" using ds(1) by (cases ds) auto
  have "peek m (s + 1) = Some (hd (es @ rest @ [0]))"
    using s True d by (cases es; cases rest) auto
  moreover have "hd (es @ rest @ [0]) \<noteq> lo \<and> hd (es @ rest @ [0]) \<noteq> up"
    using ds(2) lo e d by (cases es; cases rest) auto
  ultimately show ?thesis using s True d by (simp add: skip_prefix_def)
qed

lemma number_start:
  assumes s: "cstr m s (sp @ sg @ ys)" and sp: "\<forall>x \<in> set sp. xu_isspace (sint x)"
    and sg: "sg = [] \<or> sg = [43] \<or> sg = [45]" and ys: "ys \<noteq> []" "digit_value (hd ys) < 16"
  shows "skip_while xu_isspace m s = Some (s + length sp)"
    and "read_sign m (s + length sp) = Some (sg = [45], s + length (sp @ sg))"
    and "cstr m (s + length (sp @ sg)) ys"
proof -
  obtain y zs where y: "ys = y # zs" using ys(1) by (cases ys) auto
  have b: "48 \<le> uint y" "uint y \<le> 102" using digit_bounds [of y] ys(2) y by auto
  have "\<not> xu_isspace (sint (hd ((sg @ ys) @ [0])))"
    using sg y b by (auto simp: xu_isspace_def signed_byte)
  then show "skip_while xu_isspace m s = Some (s + length sp)" using skip_while_cstr [OF s sp] by blast
  have s1: "cstr m (s + length sp) (sg @ ys)" using cstr_drop [OF s, of "length sp"] by simp
  have "y \<noteq> 43 \<and> y \<noteq> 45" using b by auto
  then show "read_sign m (s + length sp) = Some (sg = [45], s + length (sp @ sg))"
    using read_sign_cstr [OF s1 sg] y by (simp add: add.assoc)
  show "cstr m (s + length (sp @ sg)) ys" using cstr_drop [OF s1, of "length sg"] by (simp add: add.assoc)
qed

lemma signed_value_int: "signed_value b (word_of_int v) = word_of_int (if b then - v else v)"
  by (simp add: signed_value_def minus_eq_not_plus_1 [symmetric])

definition prefixes :: "int \<Rightarrow> u8 list set" where
  "prefixes base = (if base = 2 then {[], [48, 98], [48, 66]} else if base = 16 then {[], [48, 120], [48, 88]} else {[]})"

text \<open>C25. A number written in base 2, 8, 10 or 16, with spaces in front, an optional sign and for base
  2 and 16 an optional prefix, is read as the value of its digits modulo 2 to the 64th; what comes
  behind the digits is ignored.\<close>

theorem xu_numbers_parse:
  assumes s: "cstr m s (sp @ sg @ pf @ ds @ rest)" and sp: "\<forall>x \<in> set sp. xu_isspace (sint x)"
    and sg: "sg \<in> {[], [43], [45]}" and base: "base \<in> {2, 8, 10, 16}" and pf: "pf \<in> prefixes base"
    and ds: "ds \<noteq> []" "\<forall>d \<in> set ds. digit_value d < base" and e: "digit_end rest"
  shows "xu_sbtou64 m s base = Some (word_of_int ((if sg = [45] then - 1 else 1) * digits_value base ds))"
proof -
  have d16: "digit_value (hd (pf @ ds @ rest)) < 16" "pf @ ds @ rest \<noteq> []"
    using pf ds base by (cases ds; auto simp: prefixes_def split: if_splits)+
  have sg3: "sg = [] \<or> sg = [43] \<or> sg = [45]" using sg by simp
  define p where "p = s + length (sp @ sg)"
  note st = number_start [OF s sp sg3 d16(2,1), folded p_def]
  define v where "v = digits_value base ds"
  have tail: "do { s \<leftarrow> skip_while (\<lambda>c. c = 48) m (p + length pf); digits_loop step m s 0 } = Some (word_of_int v)"
    if "reads_base base step" for step
    using digits_tail [OF that _ ds(2) e] cstr_drop [OF st(3), of "length pf"] by (simp add: v_def)
  have pre: "skip_prefix m p lo up = Some (p + length pf)"
    if "pf = [] \<or> pf = [48, lo] \<or> pf = [48, up]" "base \<le> digit_value lo" "base \<le> digit_value up"
      "digit_end [] \<Longrightarrow> rest = [] \<or> hd rest \<noteq> lo \<and> hd rest \<noteq> up" "lo \<noteq> 0" "up \<noteq> 0" for lo up
    using skip_prefix_cstr [OF st(3) that(1) ds that(2,3) _ that(5,6)] that(4) by (simp add: digit_end_def)
  have neg: "signed_value (sg = [45]) (word_of_int v) = word_of_int ((if sg = [45] then - 1 else 1) * v)"
    by (simp add: signed_value_int)
  consider "base = 2" | "base = 8" | "base = 10" | "base = 16" using base by auto
  then show ?thesis
  proof cases
    case 1
    have "skip_prefix m p 98 66 = Some (p + length pf)"
      using pf e 1 by (intro pre) (auto simp: prefixes_def digit_end_def digit_value_def split: list.splits)
    then show ?thesis using st(1,2) tail [of step2] steps_read(1) 1 neg
      by (auto simp: xu_sbtou64_def xu_s2tou64_def v_def bind_eq_Some_conv)
  next
    case 4
    have "skip_prefix m p 120 88 = Some (p + length pf)"
      using pf e 4 by (intro pre) (auto simp: prefixes_def digit_end_def digit_value_def split: list.splits)
    then show ?thesis using st(1,2) tail [of step16] steps_read(4) 4 neg
      by (auto simp: xu_sbtou64_def xu_s16tou64_def v_def bind_eq_Some_conv)
  next
    case 2
    then have "pf = []" using pf by (simp add: prefixes_def)
    then show ?thesis using st(1,2) tail [of step8] steps_read(2) 2 neg
      by (auto simp: xu_sbtou64_def xu_s8tou64_def v_def bind_eq_Some_conv)
  next
    case 3
    then have "pf = []" using pf by (simp add: prefixes_def)
    then show ?thesis using st(1,2) tail [of step10] steps_read(3) 3 neg
      by (auto simp: xu_sbtou64_def xu_s10tou64_def v_def bind_eq_Some_conv)
  qed
qed

theorem xu_numbers_parse_witness:
  "xu_sbtou64 [32, 45, 48, 120, 49, 97, 33, 0] 0 16 = Some (- 26)"
  using xu_numbers_parse [of "[32, 45, 48, 120, 49, 97, 33, 0]" 0 "[32]" "[45]" "[48, 120]" "[49, 97]" "[33]" 16]
  by (simp add: peek_def xu_isspace_def prefixes_def digit_value_def digit_end_def digits_value_def)

section \<open>Copies of strings\<close>

definition holds :: "u8 list \<Rightarrow> nat \<Rightarrow> u8 list \<Rightarrow> bool" where
  "holds m d bs \<longleftrightarrow> d + length bs \<le> length m \<and> (\<forall>i < length bs. m ! (d + i) = bs ! i)"

text \<open>A block of memory that shares no byte with a string and its null character.\<close>

definition apart :: "nat \<Rightarrow> nat \<Rightarrow> nat \<Rightarrow> u8 list \<Rightarrow> bool" where
  "apart d n s xs \<longleftrightarrow> s + length xs < d \<or> d + n \<le> s"

lemma cstr_cong:
  "cstr m s xs \<Longrightarrow> length m' = length m \<Longrightarrow> (\<And>p. s \<le> p \<Longrightarrow> p \<le> s + length xs \<Longrightarrow> m' ! p = m ! p) \<Longrightarrow> cstr m' s xs"
proof (induction xs arbitrary: s)
  case (Cons x xs)
  then show ?case by (auto simp: peek_def split: if_splits)
qed (auto simp: peek_def split: if_splits)

lemma cstr_apart:
  "cstr m s xs \<Longrightarrow> apart d n s xs \<Longrightarrow> same_outside m m' d (d + n) \<Longrightarrow> cstr m' s xs"
proof (rule cstr_cong)
  fix p assume c: "cstr m s xs" "apart d n s xs" "same_outside m m' d (d + n)" "s \<le> p" "p \<le> s + length xs"
  have "s + length xs < length m" using cstr_end [OF c(1)] by (simp add: peek_def split: if_splits)
  then show "m' ! p = m ! p" using c by (auto simp: apart_def same_outside_def)
qed (simp_all add: same_outside_def)

lemma cstr_fit: "cstr m s xs \<Longrightarrow> s + length xs < length m"
  using cstr_end [of m s xs] by (simp add: peek_def split: if_splits)

lemma cstr_nth: "cstr m s xs \<Longrightarrow> i < length xs \<Longrightarrow> m ! (s + i) = xs ! i"
  using cstr_peek [of m s xs i] by (auto simp: peek_def split: if_splits)

lemma cstr_last: "cstr m s xs \<Longrightarrow> m ! (s + length xs) = 0"
  using cstr_end [of m s xs] by (auto simp: peek_def split: if_splits)

lemma strcpy_holds:
  assumes s: "cstr m s xs" and d: "d + length xs < length m" and a: "apart d (length xs + 1) s xs"
  shows "\<exists>m'. xu_strcpy m d s = Some m' \<and> holds m' d (xs @ [0]) \<and> same_outside m m' d (d + length xs + 1)"
proof -
  let ?m = "mem_move m d s (length xs + 1)"
  have ne: "d \<noteq> s" using a by (auto simp: apart_def)
  have "copy_bytes m d s (length xs + 1) = Some ?m"
    using copy_bytes_move [of d "length xs + 1" m s] cstr_fit [OF s] d a by (auto simp: apart_def)
  then have "xu_strcpy m d s = Some ?m"
    using ne strlen_cstr [OF s] by (simp add: xu_strcpy_def memcpy_bytes del: copy_bytes.simps)
  moreover have "holds ?m d (xs @ [0])"
    using d cstr_nth [OF s] cstr_last [OF s] by (auto simp: holds_def nth_append less_Suc_eq)
  moreover have "same_outside m ?m d (d + length xs + 1)" by (auto simp: same_outside_def)
  ultimately show ?thesis by blast
qed

lemma strncpy_loop_holds:
  "cstr m s xs \<Longrightarrow> d + n \<le> length m \<Longrightarrow> apart d n s xs \<Longrightarrow>
     \<exists>m'. strncpy_loop m d s n = Some m' \<and> holds m' d (take n (xs @ replicate n 0)) \<and> same_outside m m' d (d + n)"
proof (induction n arbitrary: m d s xs)
  case 0
  then show ?case by (simp add: holds_def)
next
  case (Suc n)
  define x ys where "x = hd (xs @ [0])" and "ys = tl xs"
  define m1 where "m1 = m[d := x]"
  define s1 where "s1 = (if x \<noteq> 0 then s + 1 else s)"
  have px: "peek m s = Some x" using Suc.prems(1) by (cases xs) (auto simp: x_def)
  have o: "same_outside m m1 d (d + Suc n)" by (auto simp: m1_def same_outside_def nth_list_update)
  have c: "cstr m1 s xs" by (rule cstr_apart [OF Suc.prems(1,3) o])
  have c1: "cstr m1 s1 ys" using c by (cases xs) (auto simp: s1_def ys_def x_def)
  have a1: "apart (d + 1) n s1 ys"
    using Suc.prems(3) c by (cases xs) (auto simp: apart_def s1_def ys_def x_def)
  have "d + 1 + n \<le> length m1" using Suc.prems(2) by (simp add: m1_def)
  from Suc.IH [OF c1 this a1] obtain m' where m': "strncpy_loop m1 (d + 1) s1 n = Some m'"
    "holds m' (d + 1) (take n (ys @ replicate n 0))" "same_outside m1 m' (d + 1) (d + 1 + n)" by blast
  have "strncpy_loop m d s (Suc n) = Some m'"
    using px m'(1) Suc.prems(2) by (simp add: m1_def s1_def)
  moreover have "take (Suc n) (xs @ replicate (Suc n) 0) = x # take n (ys @ replicate n 0)"
    by (cases xs) (auto simp: x_def ys_def take_Cons' replicate_append_same [symmetric])
  then have "holds m' d (take (Suc n) (xs @ replicate (Suc n) 0))"
    using m'(2,3) Suc.prems(2) by (auto simp: holds_def m1_def same_outside_def nth_Cons split: nat.splits)
  moreover have "same_outside m m' d (d + Suc n)"
    using o m'(3) by (auto simp: same_outside_def)
  ultimately show ?case by blast
qed

lemma strlcpy_loop_holds:
  "cstr m s xs \<Longrightarrow> d + k \<le> length m \<Longrightarrow> apart d k s xs \<Longrightarrow>
     \<exists>m'. strlcpy_loop m d s k = Some (if length xs < k then (m', d + length xs + 1, s + length xs + 1, k - length xs)
         else (m', d + k, s + k, 0))
       \<and> holds m' d (take k (xs @ [0])) \<and> same_outside m m' d (d + k)"
proof (induction k arbitrary: m d s xs)
  case 0
  then show ?case by (simp add: holds_def)
next
  case (Suc k)
  define x where "x = hd (xs @ [0])"
  define m1 where "m1 = m[d := x]"
  have px: "peek m s = Some x" using Suc.prems(1) by (cases xs) (auto simp: x_def)
  have o: "same_outside m m1 d (d + Suc k)" by (auto simp: m1_def same_outside_def nth_list_update)
  have c: "cstr m1 s xs" by (rule cstr_apart [OF Suc.prems(1,3) o])
  show ?case
  proof (cases xs)
    case Nil
    then show ?thesis using px o Suc.prems(2) by (auto simp: m1_def x_def holds_def)
  next
    case (Cons y ys)
    have a1: "apart (d + 1) k (s + 1) ys" using Suc.prems(3) Cons by (auto simp: apart_def)
    have "cstr m1 (s + 1) ys" "d + 1 + k \<le> length m1" using c Cons Suc.prems(2) by (auto simp: m1_def)
    from Suc.IH [OF this a1] obtain m' where m': "strlcpy_loop m1 (d + 1) (s + 1) k
        = Some (if length ys < k then (m', d + 1 + length ys + 1, s + 1 + length ys + 1, k - length ys)
          else (m', d + 1 + k, s + 1 + k, 0))"
      "holds m' (d + 1) (take k (ys @ [0]))" "same_outside m1 m' (d + 1) (d + 1 + k)" by blast
    have "x \<noteq> 0" "x = y" using Suc.prems(1) Cons by (auto simp: x_def)
    then have "strlcpy_loop m d s (Suc k) = strlcpy_loop m1 (d + 1) (s + 1) k"
      using px Suc.prems(2) by (simp add: m1_def)
    moreover have "holds m' d (take (Suc k) (xs @ [0]))"
      using m'(2,3) Suc.prems(2) \<open>x = y\<close> Cons by (auto simp: holds_def m1_def same_outside_def nth_Cons split: nat.splits)
    moreover have "same_outside m m' d (d + Suc k)" using o m'(3) by (auto simp: same_outside_def)
    ultimately show ?thesis using m'(1) Cons by auto
  qed
qed

lemma strlcpy_holds:
  assumes s: "cstr m s xs" and d: "d + n \<le> length m" and a: "apart d n s xs"
  shows "\<exists>m'. xu_strlcpy m d s n = Some (length xs, m') \<and> same_outside m m' d (d + n)
    \<and> (n \<noteq> 0 \<longrightarrow> holds m' d (take (n - 1) xs @ [0]))"
proof (cases "n = 0")
  case True
  then show ?thesis using strlen_cstr [OF s] by (simp add: xu_strlcpy_def)
next
  case False
  define k where "k = n - 1"
  have n: "n = Suc k" using False by (simp add: k_def)
  have "apart d k s xs" using a by (auto simp: apart_def n)
  then obtain m' where m': "strlcpy_loop m d s k
      = Some (if length xs < k then (m', d + length xs + 1, s + length xs + 1, k - length xs) else (m', d + k, s + k, 0))"
    "holds m' d (take k (xs @ [0]))" "same_outside m m' d (d + k)"
    using strlcpy_loop_holds [OF s, of d k] d n by auto
  have o: "same_outside m m' d (d + n)" using m'(3) by (auto simp: same_outside_def n)
  show ?thesis
  proof (cases "length xs < k")
    case True
    then show ?thesis using m' o by (auto simp: xu_strlcpy_def n)
  next
    case short: False
    let ?m = "m'[d + k := 0]"
    have len: "length m' = length m" using o by (simp add: same_outside_def)
    have o2: "same_outside m ?m d (d + n)" using o by (auto simp: same_outside_def n nth_list_update)
    have "cstr ?m (s + k) (drop k xs)"
      using cstr_drop [OF cstr_apart [OF s a o2], of k] short by simp
    then have "xu_strlen ?m (s + k) = Some (length xs - k)" using strlen_cstr by fastforce
    then have "xu_strlcpy m d s n = Some (length xs, ?m)"
      using m'(1) short d len by (simp add: xu_strlcpy_def n)
    moreover have "holds ?m d (take k xs @ [0])"
      using m'(2) short d len by (auto simp: holds_def n nth_append less_Suc_eq)
    ultimately show ?thesis using o2 by (auto simp: n)
  qed
qed

text \<open>C26. Copying a string into a block apart from it: \<open>xu_strcpy\<close> copies it with its null character,
  \<open>xu_strncpy\<close> at most n characters filled up with null characters (none when the string has n or more), \<open>xu_strlcpy\<close> at most n - 1
  characters with one null character and the length of the source as its result; nothing outside
  the block changes. \<open>xu_strcat\<close> however copies only the first character of a string that is not
  empty, and no null character behind it.\<close>

theorem xu_strings_copy:
  assumes s: "cstr m s xs" and d: "d + n \<le> length m" and a: "apart d n s xs"
  shows "(length xs < n \<longrightarrow>
      (\<exists>m'. xu_strcpy m d s = Some m' \<and> holds m' d (xs @ [0]) \<and> same_outside m m' d (d + n)))
    \<and> (\<exists>m'. xu_strncpy m d s n = Some m' \<and> holds m' d (take n (xs @ replicate n 0)) \<and> same_outside m m' d (d + n))
    \<and> (\<exists>m'. xu_strlcpy m d s n = Some (length xs, m') \<and> same_outside m m' d (d + n)
        \<and> (n \<noteq> 0 \<longrightarrow> holds m' d (take (n - 1) xs @ [0])))
    \<and> (\<forall>t zs. cstr m t zs \<and> xs \<noteq> [] \<longrightarrow> xu_strcat m t s = Some (m[t + length zs := hd xs]))"
proof (intro conjI allI impI)
  assume n: "length xs < n"
  have "apart d (length xs + 1) s xs" "d + length xs < length m" using a n d by (auto simp: apart_def)
  then obtain m' where "xu_strcpy m d s = Some m'" "holds m' d (xs @ [0])" "same_outside m m' d (d + length xs + 1)"
    using strcpy_holds [OF s, of d] by blast
  then show "\<exists>m'. xu_strcpy m d s = Some m' \<and> holds m' d (xs @ [0]) \<and> same_outside m m' d (d + n)"
    using n by (auto simp: same_outside_def)
next
  show "\<exists>m'. xu_strncpy m d s n = Some m' \<and> holds m' d (take n (xs @ replicate n 0)) \<and> same_outside m m' d (d + n)"
  proof (cases "n = 0")
    case False
    then have "d \<noteq> s" using a by (auto simp: apart_def)
    then show ?thesis using strncpy_loop_holds [OF s d a] False by (simp add: xu_strncpy_def)
  qed (use d in \<open>simp add: xu_strncpy_def holds_def\<close>)
next
  fix t zs assume t: "cstr m t zs \<and> xs \<noteq> []"
  then have "t + length zs < length m" using cstr_fit by blast
  then show "xu_strcat m t s = Some (m[t + length zs := hd xs])"
    using t s strlen_cstr by (cases xs) (auto simp: xu_strcat_def strcat_loop.simps)
qed (rule strlcpy_holds [OF assms])

theorem xu_strings_copy_witness:
  "(\<exists>m'. xu_strlcpy [97, 98, 99, 0, 1, 1, 1] 4 0 3 = Some (3, m') \<and> holds m' 4 [97, 98, 0])
    \<and> xu_strcat [97, 98, 0, 99, 0, 1, 1] 3 0 = Some [97, 98, 0, 99, 97, 1, 1]"
proof
  have "cstr [97, 98, 99, 0, 1, 1, 1] 0 [97, 98, 99]" by (simp add: peek_def)
  from xu_strings_copy [OF this, of 4 3]
  show "\<exists>m'. xu_strlcpy [97, 98, 99, 0, 1, 1, 1] 4 0 3 = Some (3, m') \<and> holds m' 4 [97, 98, 0]"
    by (auto simp: apart_def)
  have c: "cstr [97, 98, 0, 99, 0, 1, 1] 0 [97, 98]" "cstr [97, 98, 0, 99, 0, 1, 1] 3 [99]"
    by (simp_all add: peek_def)
  have "xu_strcat [97, 98, 0, 99, 0, 1, 1] 3 0 = Some ([97, 98, 0, 99, 0, 1, 1][3 + length [99 :: u8] := hd [97, 98]])"
  proof -
    have "5 + 0 \<le> length [97, 98, 0, 99, 0, 1, 1 :: u8]" "apart 5 0 0 [97, 98]" by (simp_all add: apart_def)
    from xu_strings_copy [OF c(1) this] c(2) show ?thesis by blast
  qed
  then show "xu_strcat [97, 98, 0, 99, 0, 1, 1] 3 0 = Some [97, 98, 0, 99, 97, 1, 1]" by simp
qed

end
