(* ===== verification/XCharsetCorrect.thy ===== *)
theory XCharsetCorrect
  imports XCharset XCStringCorrect XBitsCorrect
begin

text \<open>
  The character sets: what a set writes is what it reads back, so the conversion of a text from
  one set to another writes the encoding of the same characters.
\<close>

section \<open>Streams at a byte\<close>

definition aligned :: "static_stream \<Rightarrow> bool" where
  "aligned s \<longleftrightarrow> sb s = 0 \<and> sp s \<le> se s \<and> se s \<le> length (smem s)"

lemma aligned_ops:
  assumes "aligned s"
  shows "xu_static_stream_pos s = (Some (sp s), s)" "xu_static_stream_left s = (se s - sp s, s)"
    "sp s + n \<le> se s \<Longrightarrow> xu_static_stream_skip s n = (True, s\<lparr>sp := sp s + n\<rparr>)"
  using assms by (simp_all add: aligned_def xu_static_stream_pos_def xu_static_stream_left_def
      xu_static_stream_skip_def xu_static_stream_sync_def)

text \<open>The stream after writing some bytes, and bytes that stand at its position.\<close>

definition written :: "static_stream \<Rightarrow> u8 list \<Rightarrow> static_stream" where
  "written s bs = s\<lparr>smem := put_bytes (smem s) (sp s) bs, sp := sp s + length bs\<rparr>"

definition ahead :: "static_stream \<Rightarrow> u8 list \<Rightarrow> bool" where
  "ahead s bs \<longleftrightarrow> sp s + length bs \<le> se s \<and> take (length bs) (drop (sp s) (smem s)) = bs"

lemma ahead_Cons:
  "aligned s \<Longrightarrow> ahead s (b # bs) \<longleftrightarrow> sp s < se s \<and> smem s ! sp s = b \<and> ahead (s\<lparr>sp := sp s + 1\<rparr>) bs"
  by (auto simp: ahead_def aligned_def Cons_nth_drop_Suc [symmetric])

lemma ahead_Nil: "aligned s \<Longrightarrow> ahead s []"
  by (simp add: ahead_def aligned_def)

lemma ahead_nth: "aligned s \<Longrightarrow> ahead s bs \<Longrightarrow> i < length bs \<Longrightarrow> smem s ! (sp s + i) = bs ! i"
  by (auto simp: ahead_def aligned_def dest: arg_cong [where f = "\<lambda>xs. xs ! i"])

lemma aligned_written: "aligned s \<Longrightarrow> sp s + length bs \<le> se s \<Longrightarrow> aligned (written s bs)"
  by (auto simp: aligned_def written_def)

section \<open>The contract of a character set\<close>

text \<open>An encoding \<open>enc\<close> of the characters that satisfy \<open>ok\<close>: with enough room the writer writes the
  encoding, the reader reads it back and moves behind it.\<close>

locale charset_codec =
  fixes cset :: charset and enc :: "bool \<Rightarrow> u32 \<Rightarrow> u8 list" and ok :: "u32 \<Rightarrow> bool"
  assumes enc_some: "enc be ch \<noteq> []"
    and set_enc: "ok ch \<Longrightarrow> aligned s \<Longrightarrow> sp s + length (enc be ch) \<le> se s \<Longrightarrow>
      cs_set cset s be ch = (1, written s (enc be ch))"
    and get_enc: "ok ch \<Longrightarrow> aligned s \<Longrightarrow> ahead s (enc be ch) \<Longrightarrow>
      cs_get cset s be = Some (1, Some ch, s\<lparr>sp := sp s + length (enc be ch)\<rparr>)"
begin

definition text_enc :: "bool \<Rightarrow> u32 list \<Rightarrow> u8 list" where
  "text_enc be cs = concat (map (enc be) cs)"

end

text \<open>Two character sets between which a text is converted.\<close>

locale charset_pair = fr: charset_codec fr enc_fr ok_fr + to: charset_codec to enc_to ok_to
  for fr enc_fr ok_fr to enc_to ok_to
begin

lemma conv_text:
  "\<forall>c \<in> set cs. ok_fr c \<and> ok_to c \<Longrightarrow> aligned fs \<Longrightarrow> aligned ts \<Longrightarrow>
     ahead fs (fr.text_enc fbe cs) \<Longrightarrow> sp fs + length (fr.text_enc fbe cs) = se fs \<Longrightarrow>
     sp ts + length (to.text_enc tbe cs) \<le> se ts \<Longrightarrow>
     conv_loop fr to fbe tbe fs ts = Some (Some (fs\<lparr>sp := se fs\<rparr>, written ts (to.text_enc tbe cs)))"
proof (induction cs arbitrary: fs ts)
  case Nil
  then have "sp fs = se fs" by (simp add: fr.text_enc_def)
  then show ?case using Nil.prems(2) aligned_ops(2) [OF Nil.prems(2)]
    by (subst conv_loop.simps) (simp add: to.text_enc_def written_def put_bytes_def)
next
  case (Cons c cs)
  let ?e = "enc_fr fbe c" and ?d = "enc_to tbe c"
  have oks: "ok_fr c" "ok_to c" using Cons.prems(1) by auto
  have len: "length ?e > 0" "length ?d > 0" using fr.enc_some to.enc_some by auto
  have e: "fr.text_enc fbe (c # cs) = ?e @ fr.text_enc fbe cs" "to.text_enc tbe (c # cs) = ?d @ to.text_enc tbe cs"
    by (simp_all add: fr.text_enc_def to.text_enc_def)
  define fs' ts' where "fs' = fs\<lparr>sp := sp fs + length ?e\<rparr>" and "ts' = written ts ?d"
  have a: "ahead fs ?e" "ahead fs' (fr.text_enc fbe cs)"
    using Cons.prems(2,4) unfolding e fs'_def
    by (auto simp: ahead_def aligned_def take_add drop_drop add.commute append_eq_append_conv)
  have "aligned fs'" "aligned ts'"
    using Cons.prems(2,3,5,6) aligned_written [of ts ?d] unfolding e by (auto simp: fs'_def ts'_def aligned_def)
  moreover have "sp fs' + length (fr.text_enc fbe cs) = se fs'" "sp ts' + length (to.text_enc tbe cs) \<le> se ts'"
    using Cons.prems(5,6) unfolding e by (simp_all add: fs'_def ts'_def written_def)
  ultimately have "conv_loop fr to fbe tbe fs' ts' = Some (Some (fs'\<lparr>sp := se fs'\<rparr>, written ts' (to.text_enc tbe cs)))"
    using Cons.IH [of fs' ts'] Cons.prems(1) a(2) by simp
  moreover have "conv_loop fr to fbe tbe fs ts = conv_loop fr to fbe tbe fs' ts'"
  proof -
    have "se fs - sp fs \<noteq> 0" "se ts - sp ts \<noteq> 0" using Cons.prems(5,6) len unfolding e length_append by linarith+
    moreover have "cs_get fr fs fbe = Some (1, Some c, fs')"
      using fr.get_enc [OF oks(1) Cons.prems(2) a(1)] by (simp add: fs'_def)
    moreover have "cs_set to ts tbe c = (1, ts')"
      using to.set_enc [OF oks(2) Cons.prems(3)] Cons.prems(6) unfolding e by (simp add: ts'_def)
    ultimately show ?thesis
      using aligned_ops(2) [OF Cons.prems(2)] aligned_ops(2) [OF Cons.prems(3)]
      by (subst conv_loop.simps) simp
  qed
  moreover have "written ts' (to.text_enc tbe cs) = written ts (to.text_enc tbe (c # cs))"
    using Cons.prems(3,6) unfolding e
    by (simp add: ts'_def written_def put_bytes_def aligned_def ac_simps)
  moreover have "fs'\<lparr>sp := se fs'\<rparr> = fs\<lparr>sp := se fs\<rparr>" by (simp add: fs'_def)
  ultimately show ?case by simp
qed

end

section \<open>The encodings\<close>

definition enc_byte :: "bool \<Rightarrow> u32 \<Rightarrow> u8 list" where
  "enc_byte be ch = [ucast ch]"

definition enc_16 :: "bool \<Rightarrow> u32 \<Rightarrow> u8 list" where
  "enc_16 be ch = (if be then [ucast (drop_bit 8 ch), ucast ch] else [ucast ch, ucast (drop_bit 8 ch)])"

definition enc_32 :: "bool \<Rightarrow> u32 \<Rightarrow> u8 list" where
  "enc_32 be ch =
     (let bs = [ucast (drop_bit 24 ch), ucast (drop_bit 16 ch), ucast (drop_bit 8 ch), ucast ch]
      in if be then bs else rev bs)"

definition enc_utf16 :: "bool \<Rightarrow> u32 \<Rightarrow> u8 list" where
  "enc_utf16 be ch =
     (if ch \<le> 0xffff then enc_16 be ch
      else enc_16 be (drop_bit 10 (ch - 0x10000) + 0xd800) @ enc_16 be (((ch - 0x10000) AND 0x3ff) + 0xdc00))"

definition enc_utf8 :: "bool \<Rightarrow> u32 \<Rightarrow> u8 list" where
  "enc_utf8 be ch =
     (if ch \<le> 0x7f then [ucast ch]
      else if ch \<le> 0x7ff then [utf8_byte ch 6 0x1f 0xc0, utf8_byte ch 0 0x3f 0x80]
      else if ch \<le> 0xffff then [utf8_byte ch 12 0x0f 0xe0, utf8_byte ch 6 0x3f 0x80, utf8_byte ch 0 0x3f 0x80]
      else if ch \<le> 0x1fffff then
        [utf8_byte ch 18 0x07 0xf0, utf8_byte ch 12 0x3f 0x80, utf8_byte ch 6 0x3f 0x80, utf8_byte ch 0 0x3f 0x80]
      else if ch \<le> 0x3ffffff then
        [utf8_byte ch 24 0x03 0xf8, utf8_byte ch 18 0x3f 0x80, utf8_byte ch 12 0x3f 0x80, utf8_byte ch 6 0x3f 0x80,
         utf8_byte ch 0 0x3f 0x80]
      else
        [utf8_byte ch 30 0x01 0xfc, utf8_byte ch 24 0x3f 0x80, utf8_byte ch 18 0x3f 0x80, utf8_byte ch 12 0x3f 0x80,
         utf8_byte ch 6 0x3f 0x80, utf8_byte ch 0 0x3f 0x80])"

section \<open>One byte and fixed widths\<close>

lemma small: "unat x < 2 ^ n \<Longrightarrow> take_bit n x = (x :: u32)"
  by (simp add: word_unat_eq_iff unsigned_take_bit_eq take_bit_nat_eq_self)

lemma low_byte_value: "(x :: u32) \<le> 0xff \<Longrightarrow> ucast (ucast x :: u8) = x"
proof -
  assume "x \<le> 0xff"
  then have "unat x < 2 ^ 8" by unat_arith
  moreover have "(ucast (ucast x :: u8) :: u32) = take_bit 8 x" by (rule bit_word_eqI) (auto simp: bit_simps)
  ultimately show ?thesis by (simp add: small)
qed

lemma unit_value:
  "(ucast (push_bit 8 (ucast (ucast (drop_bit 8 x) :: u8)) OR ucast (ucast x :: u8) :: u16) :: u32) = take_bit 16 (x :: u32)"
  by (rule bit_word_eqI) (auto simp: bit_simps)

lemma quad_value:
  "(push_bit 24 (ucast (ucast (drop_bit 24 x) :: u8)) OR push_bit 16 (ucast (ucast (drop_bit 16 x) :: u8))
    OR push_bit 8 (ucast (ucast (drop_bit 8 x) :: u8)) OR ucast (ucast x :: u8) :: u32) = x"
proof (rule bit_word_eqI)
  fix n assume "n < LENGTH(32)"
  then show "bit (push_bit 24 (ucast (ucast (drop_bit 24 x) :: u8)) OR push_bit 16 (ucast (ucast (drop_bit 16 x) :: u8))
    OR push_bit 8 (ucast (ucast (drop_bit 8 x) :: u8)) OR ucast (ucast x :: u8) :: u32) n = bit x n"
    by (cases "n < 8"; cases "n < 16"; cases "n < 24"; simp add: bit_simps; arith)
qed

lemma ahead_nths:
  assumes "aligned s" and "ahead s bs"
  shows "bs = [a] \<Longrightarrow> smem s ! sp s = a"
    and "bs = a # b # r \<Longrightarrow> smem s ! sp s = a \<and> smem s ! Suc (sp s) = b"
    and "bs = a # b # c # d # r \<Longrightarrow> smem s ! (sp s + 2) = c \<and> smem s ! (sp s + 3) = d"
  using ahead_nth [OF assms, of 0] ahead_nth [OF assms, of 1] ahead_nth [OF assms, of 2] ahead_nth [OF assms, of 3]
  by auto

lemma unit_at:
  assumes "aligned s" and "ahead s (enc_16 be c @ bs)"
  shows "utf16_unit (smem s) be (sp s) = take_bit 16 c"
  using ahead_nths(2) [OF assms] unit_value [of c]
  by (simp add: utf16_unit_def enc_16_def xu_bits_get_u16_be_def xu_bits_get_u16_le_def)

lemma quad_at:
  assumes "aligned s" and "ahead s (enc_32 be c)"
  shows "(if be then xu_bits_get_u32_be (smem s) (sp s) else xu_bits_get_u32_le (smem s) (sp s)) = c"
  using ahead_nths(2,3) [OF assms] quad_value [of c]
  by (simp add: enc_32_def xu_bits_get_u32_be_def xu_bits_get_u32_le_def)

lemma writ_unit:
  assumes "aligned s" and "sp s + 2 \<le> se s"
  shows "utf16_writ s be c = written s (enc_16 be c)"
proof -
  have "(ucast (drop_bit 8 (ucast c :: u16)) :: u8) = ucast (drop_bit 8 c)" "(ucast (ucast c :: u16) :: u8) = ucast c"
    by (rule bit_word_eqI; auto simp: bit_simps)+
  then show ?thesis using assms
    by (simp add: utf16_writ_def written_def enc_16_def aligned_def xu_static_stream_writ_u16_be_def
        xu_static_stream_writ_u16_le_def xu_bits_set_u16_be_def xu_bits_set_u16_le_def)
qed

lemma ahead_fits: "ahead s bs \<Longrightarrow> sp s + length bs \<le> se s"
  by (simp add: ahead_def)

lemma length_encs [simp]: "length (enc_16 be c) = 2" "length (enc_32 be c) = 4" "length (enc_byte be c) = 1"
  by (simp_all add: enc_16_def enc_32_def enc_byte_def Let_def)

interpretation ascii: charset_codec "g_charsets ! 0" enc_byte "\<lambda>c. c \<le> 0xff"
proof
  fix be s and c :: u32 assume c: "c \<le> 0xff" and s: "aligned s"
  show "cs_set (g_charsets ! 0) s be c = (1, written s (enc_byte be c))" if "sp s + length (enc_byte be c) \<le> se s"
    using that c s by (simp add: g_charsets_def xu_charset_ascii_set_def xu_static_stream_writ_u8_def aligned_def
        written_def enc_byte_def update_is_put)
  show "cs_get (g_charsets ! 0) s be = Some (1, Some c, s\<lparr>sp := sp s + length (enc_byte be c)\<rparr>)" if "ahead s (enc_byte be c)"
    using ahead_nths(1) [OF s that] ahead_fits [OF that] c s low_byte_value [of c]
    by (simp add: g_charsets_def xu_charset_ascii_get_def xu_static_stream_read_u8_def aligned_def enc_byte_def)
qed (simp add: enc_byte_def)

interpretation iso8859: charset_codec "g_charsets ! 1" enc_byte "\<lambda>c. c < 0xa0"
proof
  fix be s and c :: u32 assume c: "c < 0xa0" and s: "aligned s"
  show "cs_set (g_charsets ! 1) s be c = (1, written s (enc_byte be c))" if "sp s + length (enc_byte be c) \<le> se s"
    using that c s by (simp add: g_charsets_def xu_charset_iso8859_set_def xu_static_stream_writ_u8_def aligned_def
        written_def enc_byte_def update_is_put)
  have "unat c < 2 ^ 8" using c by unat_arith
  then have "(ucast c :: u8) < 0xa0" using c by (simp add: word_less_nat_alt unsigned_ucast_eq take_bit_nat_eq_self)
  moreover have "c \<le> 0xff" using c by unat_arith
  ultimately show "cs_get (g_charsets ! 1) s be = Some (1, Some c, s\<lparr>sp := sp s + length (enc_byte be c)\<rparr>)" if "ahead s (enc_byte be c)"
    using ahead_nths(1) [OF s that] ahead_fits [OF that] s low_byte_value [of c]
    by (simp add: g_charsets_def xu_charset_iso8859_get_def xu_static_stream_read_u8_def aligned_def enc_byte_def)
qed (simp add: enc_byte_def)

interpretation ucs2: charset_codec "g_charsets ! 2" enc_16 "\<lambda>c. c \<le> 0xffff"
proof
  fix be s and c :: u32 assume c: "c \<le> 0xffff" and s: "aligned s"
  show "cs_set (g_charsets ! 2) s be c = (1, written s (enc_16 be c))" if "sp s + length (enc_16 be c) \<le> se s"
    using writ_unit [OF s, of be c] that c
    by (cases be) (simp_all add: g_charsets_def xu_charset_ucs2_set_def utf16_writ_def)
  have "unat c < 2 ^ 16" using c by unat_arith
  then show "cs_get (g_charsets ! 2) s be = Some (1, Some c, s\<lparr>sp := sp s + length (enc_16 be c)\<rparr>)" if "ahead s (enc_16 be c)"
    using unit_at [OF s, of be c "[]"] that ahead_fits [OF that] s small [of c 16]
    by (cases be) (simp_all add: g_charsets_def xu_charset_ucs2_get_def utf16_unit_def
        xu_static_stream_read_u16_be_def xu_static_stream_read_u16_le_def aligned_def)
qed (simp add: enc_16_def)

lemmas quad_stream = xu_static_stream_read_u32_be_def xu_static_stream_read_u32_le_def xu_static_stream_writ_u32_be_def
  xu_static_stream_writ_u32_le_def xu_bits_set_u32_be_def xu_bits_set_u32_le_def

interpretation ucs4: charset_codec "g_charsets ! 3" enc_32 "\<lambda>c. True"
proof
  fix be s and c :: u32 assume s: "aligned s"
  show "cs_set (g_charsets ! 3) s be c = (1, written s (enc_32 be c))" if "sp s + length (enc_32 be c) \<le> se s"
    using that s by (cases be) (simp_all add: g_charsets_def xu_charset_ucs4_set_def quad_stream aligned_def written_def enc_32_def Let_def)
  show "cs_get (g_charsets ! 3) s be = Some (1, Some c, s\<lparr>sp := sp s + length (enc_32 be c)\<rparr>)" if "ahead s (enc_32 be c)"
    using quad_at [OF s that] ahead_fits [OF that] s
    by (simp add: g_charsets_def xu_charset_ucs4_get_def quad_stream aligned_def split: if_splits)
qed (simp add: enc_32_def Let_def)

interpretation utf32: charset_codec "g_charsets ! 5" enc_32 "\<lambda>c. True"
proof
  fix be s and c :: u32 assume s: "aligned s"
  show "cs_set (g_charsets ! 5) s be c = (1, written s (enc_32 be c))" if "sp s + length (enc_32 be c) \<le> se s"
    using that s by (cases be) (simp_all add: g_charsets_def xu_charset_utf32_set_def quad_stream aligned_def written_def enc_32_def Let_def)
  show "cs_get (g_charsets ! 5) s be = Some (1, Some c, s\<lparr>sp := sp s + length (enc_32 be c)\<rparr>)" if "ahead s (enc_32 be c)"
    using quad_at [OF s that] ahead_fits [OF that] s
    by (simp add: g_charsets_def xu_charset_utf32_get_def quad_stream aligned_def split: if_splits)
qed (simp add: enc_32_def Let_def)

section \<open>UTF-16\<close>

lemma written_append:
  "aligned s \<Longrightarrow> sp s + length a + length b \<le> se s \<Longrightarrow> written (written s a) b = written s (a @ b)"
  by (simp add: written_def put_bytes_def aligned_def ac_simps)

lemma ahead_append: "aligned s \<Longrightarrow> ahead s (a @ b) \<longleftrightarrow> ahead s a \<and> ahead (s\<lparr>sp := sp s + length a\<rparr>) b"
  by (auto simp: ahead_def aligned_def take_add drop_drop add.commute append_eq_append_conv)

text \<open>The two surrogates of a character above 0xffff.\<close>

lemma surrogates:
  fixes c :: u32
  assumes c: "0xffff < c" "c \<le> 0x10ffff"
  defines "hi \<equiv> drop_bit 10 (c - 0x10000) + 0xd800" and "lo \<equiv> ((c - 0x10000) AND 0x3ff) + 0xdc00"
  shows "0xd800 \<le> hi" "hi \<le> 0xdbff" "0xdc00 \<le> lo" "lo \<le> 0xdfff"
    and "push_bit 10 (hi - 0xd800) + (lo - 0xdc00) + 0x10000 = c"
proof -
  define d where "d = c - 0x10000"
  define a where "a = drop_bit 10 d"
  define b where "b = take_bit 10 d"
  have d: "unat d < 2 ^ 20" using c unfolding d_def by unat_arith
  have "unat a = unat d div 2 ^ 10" unfolding a_def by (simp add: drop_bit_eq_div unat_div)
  then have a: "unat a < 2 ^ 10" using d by (simp add: less_mult_imp_div_less)
  have "unat b = unat d mod 2 ^ 10" unfolding b_def by (simp add: take_bit_eq_mod unat_mod)
  then have b: "unat b < 2 ^ 10" by simp
  have "(0x3ff :: u32) = mask 10" by (simp add: mask_eq_exp_minus_1)
  then have e: "hi = a + 0xd800" "lo = b + 0xdc00"
    by (simp_all add: hi_def lo_def a_def b_def d_def take_bit_eq_mask)
  show "0xd800 \<le> hi" "hi \<le> 0xdbff" "0xdc00 \<le> lo" "lo \<le> 0xdfff" using a b unfolding e by (simp_all add: word_le_nat_alt unat_word_ariths(1))
  have "push_bit 10 a + b = d" unfolding a_def b_def by (rule bits_ident)
  then show "push_bit 10 (hi - 0xd800) + (lo - 0xdc00) + 0x10000 = c" unfolding e by (simp add: d_def)
qed

lemma small16: "c \<le> 0xffff \<Longrightarrow> take_bit 16 c = (c :: u32)"
  by (rule small) unat_arith

interpretation utf16: charset_codec "g_charsets ! 4" enc_utf16 "\<lambda>c. (c < 0xd800 \<or> 0xdfff < c) \<and> c \<le> 0x10ffff"
proof
  fix be s and c :: u32 assume c: "(c < 0xd800 \<or> 0xdfff < c) \<and> c \<le> 0x10ffff" and s: "aligned s"
  let ?hi = "drop_bit 10 (c - 0x10000) + 0xd800" and ?lo = "((c - 0x10000) AND 0x3ff) + 0xdc00"
  show "cs_set (g_charsets ! 4) s be c = (1, written s (enc_utf16 be c))" if r: "sp s + length (enc_utf16 be c) \<le> se s"
  proof (cases "c \<le> 0xffff")
    case True
    then show ?thesis using writ_unit [OF s, of be c] r aligned_ops(2) [OF s]
      by (simp add: g_charsets_def xu_charset_utf16_set_def enc_utf16_def)
  next
    case False
    have r: "sp s + 4 \<le> se s" using r False by (simp add: enc_utf16_def)
    have w: "utf16_writ s be ?hi = written s (enc_16 be ?hi)" using writ_unit [OF s] r by simp
    have "aligned (written s (enc_16 be ?hi))" using aligned_written [OF s, of "enc_16 be ?hi"] r by simp
    then have "utf16_writ (written s (enc_16 be ?hi)) be ?lo = written (written s (enc_16 be ?hi)) (enc_16 be ?lo)"
      using r by (intro writ_unit) (simp_all add: written_def)
    also have "\<dots> = written s (enc_16 be ?hi @ enc_16 be ?lo)" using r by (intro written_append [OF s]) simp
    finally show ?thesis using False c r w aligned_ops(2) [OF s] leD [of c "0x10ffff"]
      by (auto simp: g_charsets_def xu_charset_utf16_set_def enc_utf16_def Let_def)
  qed
  show "cs_get (g_charsets ! 4) s be = Some (1, Some c, s\<lparr>sp := sp s + length (enc_utf16 be c)\<rparr>)" if a: "ahead s (enc_utf16 be c)"
  proof (cases "c \<le> 0xffff")
    case True
    then have a: "ahead s (enc_16 be c)" using that by (simp add: enc_utf16_def)
    have "utf16_unit (smem s) be (sp s) = c" using unit_at [OF s, of be c "[]"] a small16 [OF True] by simp
    moreover have "\<not> (0xd800 \<le> c \<and> c \<le> 0xdbff)" using c by unat_arith
    moreover have "1 < se s - sp s" "sp s + 2 \<le> se s" using ahead_fits [OF a] by simp_all
    ultimately show ?thesis using aligned_ops [OF s] True
      by (auto simp: g_charsets_def xu_charset_utf16_get_def utf16_done_def enc_utf16_def Let_def)
  next
    case False
    note su = surrogates [of c] 
    have c': "0xffff < c" "c \<le> 0x10ffff" using False c by (auto simp: not_le)
    have hl: "?hi \<le> 0xffff" "?lo \<le> 0xffff" using su(2,4) [OF c'] by unat_arith+
    have a: "ahead s (enc_16 be ?hi @ enc_16 be ?lo)" using that False by (simp add: enc_utf16_def)
    then have a2: "ahead (s\<lparr>sp := sp s + 2\<rparr>) (enc_16 be ?lo)" using ahead_append [OF s] by simp
    have "4 \<le> se s - sp s" "sp s + 4 \<le> se s" using ahead_fits [OF a] by simp_all
    moreover from this have "aligned (s\<lparr>sp := sp s + 2\<rparr>)" using s by (simp add: aligned_def)
    then have "utf16_unit (smem s) be (sp s + 2) = ?lo"
      using unit_at [of "s\<lparr>sp := sp s + 2\<rparr>" be ?lo "[]"] a2 small16 [OF hl(2)] by simp
    moreover have "utf16_unit (smem s) be (sp s) = ?hi" using unit_at [OF s a] small16 [OF hl(1)] by simp
    ultimately show ?thesis using aligned_ops [OF s] su [OF c'] False
      by (simp add: g_charsets_def xu_charset_utf16_get_def utf16_done_def enc_utf16_def Let_def)
  qed
qed (simp add: enc_utf16_def enc_16_def)

section \<open>UTF-8\<close>

lemma utf8_byte_parts: "utf8_byte ch k msk mark = (ucast (drop_bit k ch) AND ucast msk) OR ucast mark"
  unfolding utf8_byte_def by (rule bit_word_eqI) (auto simp: bit_simps)

lemma utf8_lead: "(ucast msk :: u8) AND c = 0 \<Longrightarrow> utf8_byte ch k msk mark AND c = ucast mark AND c"
  unfolding utf8_byte_parts by (simp add: bit.conj_disj_distrib2 and.assoc)

lemma utf8_payload:
  assumes "a \<le> 8" and "(ucast mark :: u8) AND mask a = 0"
  shows "(ucast (utf8_byte ch k (mask a) mark AND mask a) :: u32) = take_bit a (drop_bit k ch)"
proof (rule bit_word_eqI)
  fix n assume n: "n < LENGTH(32)"
  have "\<not> (bit ((ucast mark :: u8) AND mask a) n)" using assms(2) by simp
  then show "bit (ucast (utf8_byte ch k (mask a) mark AND mask a) :: u32) n = bit (take_bit a (drop_bit k ch)) n"
    using assms(1) n unfolding utf8_byte_parts by (auto simp: bit_simps)
qed

lemma masks:
  "(1 :: u8) = mask 1" "(3 :: u8) = mask 2" "(7 :: u8) = mask 3" "(15 :: u8) = mask 4" "(31 :: u8) = mask 5" "(63 :: u8) = mask 6"
  "(1 :: u32) = mask 1" "(3 :: u32) = mask 2" "(7 :: u32) = mask 3" "(15 :: u32) = mask 4" "(31 :: u32) = mask 5" "(63 :: u32) = mask 6"
  by (simp_all add: mask_eq_exp_minus_1)

lemma utf8_bits_of:
  "m ! i = utf8_byte ch k 0x3f 0x80 \<Longrightarrow> utf8_bits m i 0x3f n = push_bit n (take_bit 6 (drop_bit k ch))"
  "m ! i = utf8_byte ch k 0x1f 0xc0 \<Longrightarrow> utf8_bits m i 0x1f n = push_bit n (take_bit 5 (drop_bit k ch))"
  "m ! i = utf8_byte ch k 0x0f 0xe0 \<Longrightarrow> utf8_bits m i 0x0f n = push_bit n (take_bit 4 (drop_bit k ch))"
  "m ! i = utf8_byte ch k 0x07 0xf0 \<Longrightarrow> utf8_bits m i 0x07 n = push_bit n (take_bit 3 (drop_bit k ch))"
  "m ! i = utf8_byte ch k 0x03 0xf8 \<Longrightarrow> utf8_bits m i 0x03 n = push_bit n (take_bit 2 (drop_bit k ch))"
  "m ! i = utf8_byte ch k 0x01 0xfc \<Longrightarrow> utf8_bits m i 0x01 n = push_bit n (take_bit 1 (drop_bit k ch))"
  using utf8_payload [of 6 "0x80" ch k] utf8_payload [of 5 "0xc0" ch k] utf8_payload [of 4 "0xe0" ch k]
    utf8_payload [of 3 "0xf0" ch k] utf8_payload [of 2 "0xf8" ch k] utf8_payload [of 1 "0xfc" ch k]
  by (simp_all add: utf8_bits_def masks [symmetric])

lemma utf8_join: "push_bit n (take_bit a (drop_bit n ch)) OR take_bit n ch = take_bit (n + a) (ch :: u32)"
  by (rule bit_word_eqI) (auto simp: bit_simps)

lemma utf8_writ_enc:
  "aligned s \<Longrightarrow> sp s + length bs \<le> se s \<Longrightarrow> utf8_writ s (se s - sp s) bs = (1, written s bs)"
  using aligned_ops(3) [of "s\<lparr>smem := put_bytes (smem s) (sp s) bs\<rparr>" "length bs"]
  by (auto simp: utf8_writ_def written_def aligned_def)

lemma utf8_done_enc: "aligned s \<Longrightarrow> sp s + n \<le> se s \<Longrightarrow> utf8_done s c n = Some (1, Some c, s\<lparr>sp := sp s + n\<rparr>)"
  by (simp add: utf8_done_def aligned_ops(3))

lemma length_utf8: "length (enc_utf8 be ch) =
  (if ch \<le> 0x7f then 1 else if ch \<le> 0x7ff then 2 else if ch \<le> 0xffff then 3 else if ch \<le> 0x1fffff then 4
   else if ch \<le> 0x3ffffff then 5 else 6)"
  by (simp add: enc_utf8_def)

lemma small_bits:
  "ch \<le> 0x7ff \<Longrightarrow> take_bit 11 ch = (ch :: u32)" "ch \<le> 0x1fffff \<Longrightarrow> take_bit 21 ch = (ch :: u32)"
  "ch \<le> 0x3ffffff \<Longrightarrow> take_bit 26 ch = (ch :: u32)" "ch \<le> 0x7fffffff \<Longrightarrow> take_bit 31 ch = (ch :: u32)"
  by (rule small, simp add: word_le_nat_alt)+

lemma low7: "ch \<le> 0x7f \<Longrightarrow> (ucast ch :: u8) AND 0x80 = 0 \<and> ucast (ucast ch :: u8) = (ch :: u32)"
proof
  assume l: "ch \<le> 0x7f"
  then have "ch \<le> 0xff" by (simp add: word_le_nat_alt)
  then show "ucast (ucast ch :: u8) = ch" by (rule low_byte_value)
  have t: "take_bit 7 ch = ch" using l by (intro small) (simp add: word_le_nat_alt)
  have "\<not> bit ch 7" by (subst t [symmetric]) (simp add: bit_simps)
  then show "(ucast ch :: u8) AND 0x80 = 0"
    using and_exp_eq_0_iff_not_bit [of "ucast ch :: u8" 7] by (simp add: bit_simps)
qed

lemma utf8_set_enc:
  assumes "c \<le> 0x7fffffff" and s: "aligned s" and "sp s + length (enc_utf8 be c) \<le> se s"
  shows "xu_charset_utf8_set s be c = (1, written s (enc_utf8 be c))"
proof -
  have "xu_charset_utf8_set s be c = utf8_writ s (se s - sp s) (enc_utf8 be c)"
    using aligned_ops(1,2) [OF s] assms(1) by (simp add: xu_charset_utf8_set_def enc_utf8_def)
  then show ?thesis using utf8_writ_enc [OF s assms(3)] by simp
qed

lemma utf8_get_enc:
  assumes c: "c \<le> 0x7fffffff" and s: "aligned s" and a: "ahead s (enc_utf8 be c)"
  shows "xu_charset_utf8_get s be = Some (1, Some c, s\<lparr>sp := sp s + length (enc_utf8 be c)\<rparr>)"
proof -
  let ?m = "smem s" and ?p = "sp s"
  note fit = ahead_fits [OF a] and nth = ahead_nth [OF s a]
  note joins = utf8_join [of 6 6 c] utf8_join [of 12 6 c] utf8_join [of 18 6 c] utf8_join [of 24 6 c]
    utf8_join [of 6 5 c] utf8_join [of 12 4 c] utf8_join [of 18 3 c] utf8_join [of 24 2 c] utf8_join [of 30 1 c]
  note get = xu_charset_utf8_get_def aligned_ops(1,2) [OF s] utf8_done_enc [OF s] utf8_lead or.assoc
  have len: "length (enc_utf8 be c) > 0" by (simp add: length_utf8)
  then have pm: "?p < length ?m" using fit s unfolding aligned_def by linarith
  consider (1) "c \<le> 0x7f" | (2) "\<not> c \<le> 0x7f" "c \<le> 0x7ff" | (3) "\<not> c \<le> 0x7ff" "c \<le> 0xffff"
    | (4) "\<not> c \<le> 0xffff" "c \<le> 0x1fffff" | (5) "\<not> c \<le> 0x1fffff" "c \<le> 0x3ffffff" | (6) "\<not> c \<le> 0x3ffffff"
    by blast
  then show ?thesis
  proof cases
    case 1
    then show ?thesis using nth [of 0] fit pm low7 [OF 1] by (simp add: get enc_utf8_def)
  next
    case 2
    then have e: "enc_utf8 be c = [utf8_byte c 6 0x1f 0xc0, utf8_byte c 0 0x3f 0x80]"
      by (simp add: enc_utf8_def)
    have b: "?m ! ?p = utf8_byte c 6 0x1f 0xc0" "?m ! Suc ?p = utf8_byte c 0 0x3f 0x80"
      using nth [of 0] nth [of 1] unfolding e by simp_all
    have "?p + 2 \<le> se s" "1 < se s - ?p" using fit unfolding e by simp_all
    then show ?thesis using pm b(1) joins small_bits(1) [OF 2(2)]
      unfolding e by (simp add: get utf8_bits_of(2) [OF b(1)] utf8_bits_of(1) [OF b(2)])
  next
    case 3
    have "\<not> c \<le> 0x7f" using 3(1) by (auto simp: word_le_nat_alt)
    then have e: "enc_utf8 be c =
      [utf8_byte c 12 0x0f 0xe0, utf8_byte c 6 0x3f 0x80, utf8_byte c 0 0x3f 0x80]"
      using 3 by (simp add: enc_utf8_def)
    have b: "?m ! ?p = utf8_byte c 12 0x0f 0xe0" "?m ! Suc ?p = utf8_byte c 6 0x3f 0x80" "?m ! Suc (Suc ?p) = utf8_byte c 0 0x3f 0x80"
      using nth [of 0] nth [of 1] nth [of 2] unfolding e by simp_all
    have "?p + 3 \<le> se s" "2 < se s - ?p" using fit unfolding e by simp_all
    then show ?thesis using pm b(1) joins small16 [OF 3(2)]
      unfolding e by (simp add: get utf8_bits_of(3) [OF b(1)] utf8_bits_of(1) [OF b(2)] utf8_bits_of(1) [OF b(3)])
  next
    case 4
    have "\<not> c \<le> 0x7f" "\<not> c \<le> 0x7ff" using 4(1) by (auto simp: word_le_nat_alt)
    then have e: "enc_utf8 be c =
      [utf8_byte c 18 0x07 0xf0, utf8_byte c 12 0x3f 0x80, utf8_byte c 6 0x3f 0x80, utf8_byte c 0 0x3f 0x80]"
      using 4 by (simp add: enc_utf8_def)
    have b: "?m ! ?p = utf8_byte c 18 0x07 0xf0" "?m ! Suc ?p = utf8_byte c 12 0x3f 0x80" "?m ! Suc (Suc ?p) = utf8_byte c 6 0x3f 0x80" "?m ! (?p + 3) = utf8_byte c 0 0x3f 0x80"
      using nth [of 0] nth [of 1] nth [of 2] nth [of 3] unfolding e by simp_all
    have "?p + 4 \<le> se s" "3 < se s - ?p" using fit unfolding e by simp_all
    then show ?thesis using pm b(1) joins small_bits(2) [OF 4(2)]
      unfolding e by (simp add: get utf8_bits_of(4) [OF b(1)] utf8_bits_of(1) [OF b(2)] utf8_bits_of(1) [OF b(3)] utf8_bits_of(1) [OF b(4)])
  next
    case 5
    have "\<not> c \<le> 0x7f" "\<not> c \<le> 0x7ff" "\<not> c \<le> 0xffff" using 5(1) by (auto simp: word_le_nat_alt)
    then have e: "enc_utf8 be c =
      [utf8_byte c 24 0x03 0xf8, utf8_byte c 18 0x3f 0x80, utf8_byte c 12 0x3f 0x80, utf8_byte c 6 0x3f 0x80, utf8_byte c 0 0x3f 0x80]"
      using 5 by (simp add: enc_utf8_def)
    have b: "?m ! ?p = utf8_byte c 24 0x03 0xf8" "?m ! Suc ?p = utf8_byte c 18 0x3f 0x80" "?m ! Suc (Suc ?p) = utf8_byte c 12 0x3f 0x80" "?m ! (?p + 3) = utf8_byte c 6 0x3f 0x80" "?m ! (?p + 4) = utf8_byte c 0 0x3f 0x80"
      using nth [of 0] nth [of 1] nth [of 2] nth [of 3] nth [of 4] unfolding e by simp_all
    have "?p + 5 \<le> se s" "4 < se s - ?p" using fit unfolding e by simp_all
    then show ?thesis using pm b(1) joins small_bits(3) [OF 5(2)]
      unfolding e by (simp add: get utf8_bits_of(5) [OF b(1)] utf8_bits_of(1) [OF b(2)] utf8_bits_of(1) [OF b(3)] utf8_bits_of(1) [OF b(4)] utf8_bits_of(1) [OF b(5)])
  next
    case 6
    have "\<not> c \<le> 0x7f" "\<not> c \<le> 0x7ff" "\<not> c \<le> 0xffff" "\<not> c \<le> 0x1fffff" using 6(1) by (auto simp: word_le_nat_alt)
    then have e: "enc_utf8 be c =
      [utf8_byte c 30 0x01 0xfc, utf8_byte c 24 0x3f 0x80, utf8_byte c 18 0x3f 0x80, utf8_byte c 12 0x3f 0x80, utf8_byte c 6 0x3f 0x80, utf8_byte c 0 0x3f 0x80]"
      using 6 by (simp add: enc_utf8_def)
    have b: "?m ! ?p = utf8_byte c 30 0x01 0xfc" "?m ! Suc ?p = utf8_byte c 24 0x3f 0x80" "?m ! Suc (Suc ?p) = utf8_byte c 18 0x3f 0x80" "?m ! (?p + 3) = utf8_byte c 12 0x3f 0x80" "?m ! (?p + 4) = utf8_byte c 6 0x3f 0x80" "?m ! (?p + 5) = utf8_byte c 0 0x3f 0x80"
      using nth [of 0] nth [of 1] nth [of 2] nth [of 3] nth [of 4] nth [of 5] unfolding e by simp_all
    have "?p + 6 \<le> se s" "5 < se s - ?p" using fit unfolding e by simp_all
    then show ?thesis using pm b(1) joins small_bits(4) [OF c]
      unfolding e by (simp add: get utf8_bits_of(6) [OF b(1)] utf8_bits_of(1) [OF b(2)] utf8_bits_of(1) [OF b(3)] utf8_bits_of(1) [OF b(4)] utf8_bits_of(1) [OF b(5)] utf8_bits_of(1) [OF b(6)])
  qed
qed

interpretation utf8: charset_codec "g_charsets ! 6" enc_utf8 "\<lambda>c. c \<le> 0x7fffffff"
proof
  fix be s and c :: u32 assume c: "c \<le> 0x7fffffff" and s: "aligned s"
  show "cs_set (g_charsets ! 6) s be c = (1, written s (enc_utf8 be c))" if "sp s + length (enc_utf8 be c) \<le> se s"
    using utf8_set_enc [OF c s that] by (simp add: g_charsets_def)
  show "cs_get (g_charsets ! 6) s be = Some (1, Some c, s\<lparr>sp := sp s + length (enc_utf8 be c)\<rparr>)" if "ahead s (enc_utf8 be c)"
    using utf8_get_enc [OF c s that] by (simp add: g_charsets_def)
qed (simp add: enc_utf8_def)

section \<open>The table\<close>

definition charset_types :: "u64 set" where
  "charset_types = {1, 4, 5, 6, 7, 8, 9}"

definition encoding :: "u64 \<Rightarrow> bool \<Rightarrow> u32 \<Rightarrow> u8 list" where
  "encoding t =
     (if t = 1 \<or> t = 4 then enc_byte else if t = 5 then enc_16 else if t = 6 \<or> t = 8 then enc_32
      else if t = 7 then enc_utf16 else enc_utf8)"

definition representable :: "u64 \<Rightarrow> u32 \<Rightarrow> bool" where
  "representable t c \<longleftrightarrow>
     (if t = 1 then c \<le> 0xff else if t = 4 then c < 0xa0 else if t = 5 then c \<le> 0xffff
      else if t = 6 \<or> t = 8 then True else if t = 7 then (c < 0xd800 \<or> 0xdfff < c) \<and> c \<le> 0x10ffff
      else c \<le> 0x7fffffff)"

text \<open>The type with its byte order.\<close>

definition with_order :: "u64 \<Rightarrow> bool \<Rightarrow> u64" where
  "with_order t be = (if be then t else t OR 0x100)"

lemma order_parts:
  assumes "t \<in> charset_types"
  shows "XU_CHARSET_TYPE (with_order t be) = t" "XU_CHARSET_TYPE_OK (with_order t be)"
    "with_order t be AND XU_CHARSET_TYPE_LE = 0 \<longleftrightarrow> be"
  using assms by (auto simp: charset_types_def with_order_def XU_CHARSET_TYPE_def XU_CHARSET_TYPE_ME_def
      XU_CHARSET_TYPE_OK_def XU_CHARSET_TYPE_LE_def)

lemma find_index:
  "xu_binary_find_all_if charsets_iterator xu_charset_comp_by_type 1 = 0"
  "xu_binary_find_all_if charsets_iterator xu_charset_comp_by_type 4 = 1"
  "xu_binary_find_all_if charsets_iterator xu_charset_comp_by_type 5 = 2"
  "xu_binary_find_all_if charsets_iterator xu_charset_comp_by_type 6 = 3"
  "xu_binary_find_all_if charsets_iterator xu_charset_comp_by_type 7 = 4"
  "xu_binary_find_all_if charsets_iterator xu_charset_comp_by_type 8 = 5"
  "xu_binary_find_all_if charsets_iterator xu_charset_comp_by_type 9 = 6"
  by code_simp+

lemma find_codec:
  assumes t: "t \<in> charset_types"
  shows "\<exists>c. xu_charset_find_by_type (with_order t be) = Some c \<and> charset_codec c (encoding t) (representable t)"
proof -
  note codecs = ascii.charset_codec_axioms iso8859.charset_codec_axioms ucs2.charset_codec_axioms
    ucs4.charset_codec_axioms utf16.charset_codec_axioms utf32.charset_codec_axioms utf8.charset_codec_axioms
  have tail: "xu_iterator_tail charsets_iterator = 7" "xu_iterator_item charsets_iterator = (\<lambda>i. g_charsets ! i)"
    by (simp_all add: charsets_iterator_def xu_iterator_tail_def xu_iterator_item_def g_charsets_def fun_eq_iff)
  have enc: "encoding 1 = enc_byte" "encoding 4 = enc_byte" "encoding 5 = enc_16" "encoding 6 = enc_32"
    "encoding 7 = enc_utf16" "encoding 8 = enc_32" "encoding 9 = enc_utf8"
    "representable 1 = (\<lambda>c. c \<le> 0xff)" "representable 4 = (\<lambda>c. c < 0xa0)" "representable 5 = (\<lambda>c. c \<le> 0xffff)"
    "representable 6 = (\<lambda>c. True)" "representable 7 = (\<lambda>c. (c < 0xd800 \<or> 0xdfff < c) \<and> c \<le> 0x10ffff)"
    "representable 8 = (\<lambda>c. True)" "representable 9 = (\<lambda>c. c \<le> 0x7fffffff)"
    by (simp_all add: encoding_def representable_def fun_eq_iff)
  show ?thesis
    using t codecs find_index
    unfolding xu_charset_find_by_type_def order_parts(1) [OF t] tail Let_def
    by (auto simp: charset_types_def enc)
qed

definition text_bytes :: "u64 \<Rightarrow> bool \<Rightarrow> u32 list \<Rightarrow> u8 list" where
  "text_bytes t be cs = concat (map (encoding t be) cs)"

lemma stream_starts:
  "sp (xu_static_stream_init m p n) = p" "se (xu_static_stream_init m p n) = p + n"
  "smem (xu_static_stream_init m p n) = m" "xu_static_stream_valid (xu_static_stream_init m p n)"
  "sp (written s bs) = sp s + length bs" "smem (written s bs) = put_bytes (smem s) (sp s) bs"
  by (simp_all add: xu_static_stream_init_def xu_static_stream_valid_def written_def)

text \<open>C27. Converting a text that is not empty and whose characters both sets can represent, from any set and byte order to
  any other, into a buffer with room for the result ends and writes exactly the encoding of the same characters in the other
  set, and answers its length; bytes of the buffer behind it stay as they were. UTF-8 sequences have up to
  six bytes and UTF-16 characters above 0xffff are two surrogates. What a set represents is \<open>representable\<close>: for ISO 8859
  only the characters below 0xa0, as the reader of the code takes the others for the null character, for ASCII those up to
  0xff, for UCS-2 those up to 0xffff, for UTF-16 no surrogates and nothing above 0x10ffff, for UTF-8 those of 31 bits.\<close>

theorem xu_charset_conv_correct:
  assumes f: "f \<in> charset_types" and t: "t \<in> charset_types" and cs: "cs \<noteq> []"
    and rep: "\<forall>c \<in> set cs. representable f c \<and> representable t c"
    and room: "length (text_bytes t tbe cs) \<le> osize" "osize \<le> length odata"
  shows "xu_charset_conv_data (with_order f fbe) (with_order t tbe) (text_bytes f fbe cs)
      (length (text_bytes f fbe cs)) odata osize
    = Some (Some (int (length (text_bytes t tbe cs)), put_bytes odata 0 (text_bytes t tbe cs)))"
proof -
  obtain fr where fr: "xu_charset_find_by_type (with_order f fbe) = Some fr"
    "charset_codec fr (encoding f) (representable f)" using find_codec [OF f] by blast
  obtain to where to: "xu_charset_find_by_type (with_order t tbe) = Some to"
    "charset_codec to (encoding t) (representable t)" using find_codec [OF t] by blast
  have pair: "charset_pair fr (encoding f) (representable f) to (encoding t) (representable t)"
    using fr(2) to(2) by (simp add: charset_pair_def)
  let ?i = "text_bytes f fbe cs" and ?o = "text_bytes t tbe cs"
  let ?fs = "xu_static_stream_init ?i 0 (length ?i)" and ?ts = "xu_static_stream_init odata 0 osize"
  obtain c cs' where c: "cs = c # cs'" using cs by (cases cs) auto
  have len: "?i \<noteq> []" "?o \<noteq> []"
    using charset_codec.enc_some [OF fr(2)] charset_codec.enc_some [OF to(2)] by (simp_all add: text_bytes_def c)
  have al: "aligned ?fs" "aligned ?ts" using room by (simp_all add: aligned_def xu_static_stream_init_def)
  have tx: "charset_codec.text_enc (encoding f) fbe cs = ?i" "charset_codec.text_enc (encoding t) tbe cs = ?o"
    using charset_codec.text_enc_def [OF fr(2)] charset_codec.text_enc_def [OF to(2)] by (simp_all add: text_bytes_def)
  have "conv_loop fr to fbe tbe ?fs ?ts = Some (Some (?fs\<lparr>sp := se ?fs\<rparr>, written ?ts ?o))"
    using charset_pair.conv_text [OF pair rep al, of fbe tbe] room unfolding tx
    by (simp add: ahead_def xu_static_stream_init_def)
  moreover have "aligned (written ?ts ?o)"
    using aligned_written [OF al(2), of ?o] room by (simp add: xu_static_stream_init_def)
  ultimately have "xu_charset_conv_bst (with_order f fbe) (with_order t tbe) ?fs ?ts
      = Some (Some (int (length ?o), ?fs\<lparr>sp := se ?fs\<rparr>, written ?ts ?o))"
    using len aligned_ops(1,2) [OF al(1)] aligned_ops(1,2) [OF al(2)] aligned_ops(1,2) [OF \<open>aligned (written ?ts ?o)\<close>]
      fr(1) to(1) order_parts [OF f] order_parts [OF t]
    by (simp add: xu_charset_conv_bst_def xu_charset_conv_impl_def Let_def stream_starts)
  then show ?thesis
    using len room order_parts(2) [OF f] order_parts(2) [OF t]
    by (cases "osize = 0") (simp_all add: xu_charset_conv_data_def stream_starts)
qed

interpretation utf8_to_utf16: charset_pair "g_charsets ! 6" enc_utf8 "\<lambda>c. c \<le> 0x7fffffff"
    "g_charsets ! 4" enc_utf16 "\<lambda>c. (c < 0xd800 \<or> 0xdfff < c) \<and> c \<le> 0x10ffff"
  by (rule charset_pair.intro [OF utf8.charset_codec_axioms utf16.charset_codec_axioms])

text \<open>The Euro sign and a character above 0xffff from UTF-8 to UTF-16 with the low bytes first.\<close>

lemma xu_charset_conv_correct_witness:
  "xu_charset_conv_data 9 0x107 (text_bytes 9 True [0x20ac, 0x1f600]) (length (text_bytes 9 True [0x20ac, 0x1f600]))
      [0, 0, 0, 0, 0, 0, 77] 7
    = Some (Some (int (length (text_bytes 7 False [0x20ac, 0x1f600])),
        put_bytes [0, 0, 0, 0, 0, 0, 77] 0 (text_bytes 7 False [0x20ac, 0x1f600])))
   \<and> text_bytes 9 True [0x20ac, 0x1f600] = [0xe2, 0x82, 0xac, 0xf0, 0x9f, 0x98, 0x80]
   \<and> text_bytes 7 False [0x20ac, 0x1f600] = [0xac, 0x20, 0x3d, 0xd8, 0x00, 0xde]"
proof -
  have b: "text_bytes 9 True [0x20ac, 0x1f600] = [0xe2, 0x82, 0xac, 0xf0, 0x9f, 0x98, 0x80]"
    "text_bytes 7 False [0x20ac, 0x1f600] = [0xac, 0x20, 0x3d, 0xd8, 0x00, 0xde]"
    by code_simp+
  have t: "9 \<in> charset_types" "7 \<in> charset_types" by (simp_all add: charset_types_def)
  have "\<forall>c \<in> set [0x20ac, 0x1f600]. representable 9 c \<and> representable 7 c" by (simp add: representable_def)
  from xu_charset_conv_correct [OF t, of "[0x20ac, 0x1f600]" False 7 "[0, 0, 0, 0, 0, 0, 77]" True, OF _ this]
  show ?thesis using b by (simp add: with_order_def)
qed

text \<open>The table has no name ucs2: its entry is named ucs3.\<close>

lemma ucs2_not_found: "xu_charset_type [117, 99, 115, 50] = 0 \<and> xu_charset_type [117, 99, 115, 51] = 5"
  by code_simp

section \<open>Stray bytes\<close>

definition wide_types :: "u64 set" where
  "wide_types = {5, 6, 8}"

definition code_width :: "u64 \<Rightarrow> nat" where
  "code_width t = (if t = 5 then 2 else 4)"

definition stray :: "nat \<Rightarrow> static_stream \<Rightarrow> bool" where
  "stray w s \<longleftrightarrow> sb s = 0 \<and> sp s \<le> se s \<and> (se s - sp s) mod w \<noteq> 0"

lemma stray_left: "stray w s \<Longrightarrow> xu_static_stream_left s = (se s - sp s, s) \<and> se s - sp s \<noteq> 0"
  by (auto simp: stray_def xu_static_stream_left_def xu_static_stream_sync_def intro: gr0I)

lemma stray_step: "stray w s \<Longrightarrow> sp s + w \<le> se s \<Longrightarrow> stray w (s\<lparr>sp := sp s + w\<rparr>)"
  "stray w s \<Longrightarrow> stray w (s\<lparr>smem := m\<rparr>)"
  by (auto simp: stray_def diff_diff_left [symmetric] le_mod_geq simp del: diff_diff_left)

definition keeps_stray :: "nat \<Rightarrow> charset \<Rightarrow> bool" where
  "keeps_stray w c \<longleftrightarrow>
     (\<forall>s be. stray w s \<longrightarrow> (\<exists>ch s'. cs_get c s be = Some (1, Some ch, s') \<and> stray w s'))
     \<and> (\<forall>s be ch. stray w s \<longrightarrow> (\<exists>s'. cs_set c s be ch = (1, s') \<and> stray w s'))"

lemma wide_stray:
  assumes t: "t \<in> wide_types"
  shows "\<exists>c. xu_charset_find_by_type (with_order t be) = Some c
    \<and> keeps_stray (code_width t) c"
proof -
  have tail: "xu_iterator_tail charsets_iterator = 7" "xu_iterator_item charsets_iterator = (\<lambda>i. g_charsets ! i)"
    by (simp_all add: charsets_iterator_def xu_iterator_tail_def xu_iterator_item_def g_charsets_def fun_eq_iff)
  have ct: "t \<in> charset_types" using t by (auto simp: wide_types_def charset_types_def)
  have two: "\<exists>ch s'. cs_get (g_charsets ! 2) s be = Some (1, Some ch, s') \<and> stray 2 s'"
    "\<exists>s'. cs_set (g_charsets ! 2) s be ch = (1, s') \<and> stray 2 s'" if "stray 2 s" for s be ch
    using that stray_step [OF that] stray_step(1) [OF stray_step(2) [OF that]]
    by (cases be; force simp: g_charsets_def xu_charset_ucs2_get_def xu_charset_ucs2_set_def Let_def
        xu_static_stream_read_u16_be_def xu_static_stream_read_u16_le_def
        xu_static_stream_writ_u16_be_def xu_static_stream_writ_u16_le_def)+
  have four: "\<exists>ch s'. cs_get (g_charsets ! i) s be = Some (1, Some ch, s') \<and> stray 4 s'"
    "\<exists>s'. cs_set (g_charsets ! i) s be ch = (1, s') \<and> stray 4 s'" if "stray 4 s" "i = 3 \<or> i = 5" for s be ch i
    using that(2) that(1) stray_step [OF that(1)] stray_step(1) [OF stray_step(2) [OF that(1)]]
    by (cases be; force simp: g_charsets_def xu_charset_ucs4_get_def xu_charset_ucs4_set_def
        xu_charset_utf32_get_def xu_charset_utf32_set_def quad_stream)+
  show ?thesis
    using t two four find_index
    unfolding xu_charset_find_by_type_def order_parts(1) [OF ct] tail Let_def
    by (auto simp: wide_types_def code_width_def keeps_stray_def)
qed

text \<open>The loop over two streams with stray bytes never gets to a result.\<close>

lemma keeps_strayD:
  assumes "keeps_stray w c" and "stray w s"
  obtains ch s' s'' where "cs_get c s be = Some (1, Some ch, s')" "stray w s'"
    "cs_set c s be' ch' = (1, s'')" "stray w s''"
  using assms unfolding keeps_stray_def by metis

lemma conv_loop_stray:
  "keeps_stray v fr \<Longrightarrow> keeps_stray w to \<Longrightarrow> stray v fs \<Longrightarrow> stray w ts \<Longrightarrow> conv_loop fr to fbe tbe fs ts = None"
proof (rule ccontr)
  assume pre: "keeps_stray v fr" "keeps_stray w to" "stray v fs" "stray w ts"
  assume "conv_loop fr to fbe tbe fs ts \<noteq> None"
  then obtain r where "conv_loop fr to fbe tbe fs ts = Some r" by blast
  then have "\<not> (keeps_stray v fr \<and> keeps_stray w to \<and> stray v fs \<and> stray w ts)"
  proof (rule conv_loop.raw_induct [rotated])
    fix loop fr to fbe tbe fs ts y
    assume IH: "\<And>fr to fbe tbe fs ts y. loop fr to fbe tbe fs ts = Some y \<Longrightarrow>
        \<not> (keeps_stray v fr \<and> keeps_stray w to \<and> stray v fs \<and> stray w ts)"
      and body: "(case xu_static_stream_left fs of (nf, fs) \<Rightarrow>
        if nf = 0 then Some (Some (fs, ts))
        else case xu_static_stream_left ts of (nt, ts) \<Rightarrow>
        if nt = 0 then Some (Some (fs, ts))
        else case cs_get fr fs fbe of
          None \<Rightarrow> Some None
        | Some (ok, ch, fs) \<Rightarrow>
            if ok > 0 then
              case cs_set to ts tbe (the ch) of (r, ts) \<Rightarrow>
              if r < 0 then Some (Some (fs, ts)) else loop fr to fbe tbe fs ts
            else if ok < 0 then Some (Some (fs, ts))
            else loop fr to fbe tbe fs ts) = Some y"
    show "\<not> (keeps_stray v fr \<and> keeps_stray w to \<and> stray v fs \<and> stray w ts)"
    proof
      assume k: "keeps_stray v fr \<and> keeps_stray w to \<and> stray v fs \<and> stray w ts"
      then obtain ch fs' where g: "cs_get fr fs fbe = Some (1, Some ch, fs')" "stray v fs'"
        using keeps_strayD [of v fr fs fbe] by metis
      obtain ts' where p: "cs_set to ts tbe ch = (1, ts')" "stray w ts'"
        using k keeps_strayD [of w to ts tbe tbe ch] by metis
      have "loop fr to fbe tbe fs' ts' = Some y"
        using body g(1) p(1) k stray_left [of v fs] stray_left [of w ts] by simp
      from IH [OF this] show False using k g(2) p(2) by simp
    qed
  qed
  then show False using pre by simp
qed

text \<open>C28. Converting between the sets of fixed width (ucs2, ucs4, utf32) never ends when neither the
  input nor the buffer is a multiple of its character: the last stray bytes are neither read nor
  overwritten, and the loop only stops at the end of one of the streams.\<close>

theorem xu_charset_conv_never_ends:
  assumes f: "f \<in> wide_types" and t: "t \<in> wide_types"
    and n: "isize mod code_width f \<noteq> 0" "osize mod code_width t \<noteq> 0"
  shows "xu_charset_conv_data (with_order f fbe) (with_order t tbe) idata isize odata osize = None"
proof -
  have ct: "f \<in> charset_types" "t \<in> charset_types" using f t by (auto simp: wide_types_def charset_types_def)
  obtain fr where fr: "xu_charset_find_by_type (with_order f fbe) = Some fr" "keeps_stray (code_width f) fr"
    using wide_stray [OF f] by blast
  obtain to where to: "xu_charset_find_by_type (with_order t tbe) = Some to" "keeps_stray (code_width t) to"
    using wide_stray [OF t] by blast
  let ?fs = "xu_static_stream_init idata 0 isize" and ?ts = "xu_static_stream_init odata 0 osize"
  have st: "stray (code_width f) ?fs" "stray (code_width t) ?ts"
    using n by (simp_all add: stray_def xu_static_stream_init_def)
  have "conv_loop fr to fbe tbe ?fs ?ts = None" using conv_loop_stray [OF fr(2) to(2) st] .
  moreover have "xu_static_stream_pos ?ts = (Some 0, ?ts)"
    by (simp add: xu_static_stream_pos_def xu_static_stream_sync_def xu_static_stream_init_def)
  moreover have "isize \<noteq> 0" "osize \<noteq> 0" using n by (auto intro: gr0I)
  ultimately show ?thesis
    using stray_left [OF st(1)] fr(1) to(1) order_parts [OF ct(1)] order_parts [OF ct(2)]
    by (simp add: xu_charset_conv_data_def xu_charset_conv_bst_def xu_charset_conv_impl_def Let_def stream_starts)
qed

lemma xu_charset_conv_never_ends_witness:
  "xu_charset_conv_data 5 0x108 [0, 65, 0] 3 [1, 2, 3, 4, 5] 5 = None"
  using xu_charset_conv_never_ends [of 5 8 3 5 True False "[0, 65, 0]" "[1, 2, 3, 4, 5]"]
  by (simp add: wide_types_def code_width_def with_order_def)

end
