(* ===== verification/XMath.thy ===== *)
theory XMath
  imports XPrelude
begin

text \<open>
  Integer arithmetic on words: counting bits and swapping bytes (\<^verbatim>\<open>xutil/utils/bits.h\<close>, the
  inline variants), the powers of two of \<^verbatim>\<open>xutil/utils/utils.h\<close> and the logarithm, the
  division by a byte and the square roots of \<^verbatim>\<open>xutil/libm/\<close> without floating point.
\<close>

unbundle bit_operations_syntax

section \<open>Swapping bytes\<close>

definition xu_bits_swap_u16_inline :: "u16 \<Rightarrow> u16" where
  "xu_bits_swap_u16_inline x = drop_bit 8 x OR push_bit 8 x"

definition xu_bits_swap_u24_inline :: "u32 \<Rightarrow> u32" where
  "xu_bits_swap_u24_inline x = drop_bit 16 x OR (x AND 0x0000ff00) OR push_bit 16 x"

definition xu_bits_swap_u32_inline :: "u32 \<Rightarrow> u32" where
  "xu_bits_swap_u32_inline x =
     (let x = (push_bit 8 x AND 0xff00ff00) OR (drop_bit 8 x AND 0x00ff00ff)
      in drop_bit 16 x OR push_bit 16 x)"

text \<open>The union of the two halves on a machine with the low half first.\<close>

definition xu_bits_swap_u64_inline :: "u64 \<Rightarrow> u64" where
  "xu_bits_swap_u64_inline x =
     (let w0 = ucast x :: u32; w1 = ucast (drop_bit 32 x) :: u32;
          r0 = xu_bits_swap_u32_inline w1; r1 = xu_bits_swap_u32_inline w0
      in ucast r0 OR push_bit 32 (ucast r1))"

section \<open>Counting zeros and ones\<close>

text \<open>One of the tests: with a set bit under the mask the count goes down, and the word is shifted when
  a bit is set (from above) or when none is set (from below).\<close>

definition cl0_high :: "nat \<Rightarrow> u32 \<Rightarrow> nat \<times> u32 \<Rightarrow> nat \<times> u32" where
  "cl0_high k msk s = (case s of (n, x) \<Rightarrow> if x AND msk \<noteq> 0 then (n - k, drop_bit k x) else (n, x))"

definition cl0_low :: "nat \<Rightarrow> u32 \<Rightarrow> nat \<times> u32 \<Rightarrow> nat \<times> u32" where
  "cl0_low k msk s = (case s of (n, x) \<Rightarrow> if x AND msk \<noteq> 0 then (n - k, x) else (n, drop_bit k x))"

definition xu_bits_cl0_u32_be_inline :: "u32 \<Rightarrow> nat" where
  "xu_bits_cl0_u32_be_inline x =
     (if x = 0 then 32
      else let s = (31, x);
               s = cl0_high 16 0xffff0000 s;
               s = cl0_high 8 0xff00 s;
               s = cl0_high 4 0xf0 s;
               s = cl0_high 2 0xc s
           in if snd s AND 0x2 \<noteq> 0 then fst s - 1 else fst s)"

definition xu_bits_cl0_u32_le_inline :: "u32 \<Rightarrow> nat" where
  "xu_bits_cl0_u32_le_inline x =
     (if x = 0 then 32
      else let s = (31, x);
               s = cl0_low 16 0x0000ffff s;
               s = cl0_low 8 0x00ff s;
               s = cl0_low 4 0x0f s;
               s = cl0_low 2 0x3 s
           in if snd s AND 0x1 \<noteq> 0 then fst s - 1 else fst s)"

definition xu_bits_cl0_u64_be_inline :: "u64 \<Rightarrow> nat" where
  "xu_bits_cl0_u64_be_inline x =
     (if x = 0 then 64
      else let n = xu_bits_cl0_u32_be_inline (ucast (drop_bit 32 x))
           in if n = 32 then n + xu_bits_cl0_u32_be_inline (ucast x) else n)"

definition xu_bits_cl0_u64_le_inline :: "u64 \<Rightarrow> nat" where
  "xu_bits_cl0_u64_le_inline x =
     (if x = 0 then 64
      else let n = xu_bits_cl0_u32_le_inline (ucast x)
           in if n = 32 then n + xu_bits_cl0_u32_le_inline (ucast (drop_bit 32 x)) else n)"

text \<open>The names of the interface: leading zeros and ones, the first zero and the first one.\<close>

definition xu_bits_cl1_u32_be :: "u32 \<Rightarrow> nat" where "xu_bits_cl1_u32_be x = xu_bits_cl0_u32_be_inline (NOT x)"
definition xu_bits_cl1_u32_le :: "u32 \<Rightarrow> nat" where "xu_bits_cl1_u32_le x = xu_bits_cl0_u32_le_inline (NOT x)"
definition xu_bits_cl1_u64_be :: "u64 \<Rightarrow> nat" where "xu_bits_cl1_u64_be x = xu_bits_cl0_u64_be_inline (NOT x)"
definition xu_bits_cl1_u64_le :: "u64 \<Rightarrow> nat" where "xu_bits_cl1_u64_le x = xu_bits_cl0_u64_le_inline (NOT x)"

definition xu_bits_fb0_u32_be :: "u32 \<Rightarrow> nat" where
  "xu_bits_fb0_u32_be x = (if x \<noteq> 0 then xu_bits_cl0_u32_be_inline (NOT x) else 0)"
definition xu_bits_fb0_u32_le :: "u32 \<Rightarrow> nat" where
  "xu_bits_fb0_u32_le x = (if x \<noteq> 0 then xu_bits_cl0_u32_le_inline (NOT x) else 0)"
definition xu_bits_fb0_u64_be :: "u64 \<Rightarrow> nat" where
  "xu_bits_fb0_u64_be x = (if x \<noteq> 0 then xu_bits_cl0_u64_be_inline (NOT x) else 0)"
definition xu_bits_fb0_u64_le :: "u64 \<Rightarrow> nat" where
  "xu_bits_fb0_u64_le x = (if x \<noteq> 0 then xu_bits_cl0_u64_le_inline (NOT x) else 0)"

definition xu_bits_fb1_u32_be :: "u32 \<Rightarrow> nat" where
  "xu_bits_fb1_u32_be x = (if x \<noteq> 0 then xu_bits_cl0_u32_be_inline x else 32)"
definition xu_bits_fb1_u32_le :: "u32 \<Rightarrow> nat" where
  "xu_bits_fb1_u32_le x = (if x \<noteq> 0 then xu_bits_cl0_u32_le_inline x else 32)"
definition xu_bits_fb1_u64_be :: "u64 \<Rightarrow> nat" where
  "xu_bits_fb1_u64_be x = (if x \<noteq> 0 then xu_bits_cl0_u64_be_inline x else 64)"
definition xu_bits_fb1_u64_le :: "u64 \<Rightarrow> nat" where
  "xu_bits_fb1_u64_le x = (if x \<noteq> 0 then xu_bits_cl0_u64_le_inline x else 64)"

definition xu_bits_cb1_u32_inline :: "u32 \<Rightarrow> u32" where
  "xu_bits_cb1_u32_inline x =
     (if x = 0 then 0
      else let x = x - (drop_bit 1 x AND 0x77777777) - (drop_bit 2 x AND 0x33333333) - (drop_bit 3 x AND 0x11111111);
               x = (x + drop_bit 4 x) AND 0x0f0f0f0f
           in drop_bit 24 (x * 0x01010101))"

definition xu_bits_cb1_u64_inline :: "u64 \<Rightarrow> u64" where
  "xu_bits_cb1_u64_inline x =
     (if x = 0 then 0
      else let x = x - (drop_bit 1 x AND 0x7777777777777777) - (drop_bit 2 x AND 0x3333333333333333)
                     - (drop_bit 3 x AND 0x1111111111111111);
               x = (x + drop_bit 4 x) AND 0x0f0f0f0f0f0f0f0f
           in drop_bit 56 (x * 0x0101010101010101))"

section \<open>Powers of two\<close>

text \<open>On \<open>xu_size_t\<close>.\<close>

definition xu_ispow2 :: "u64 \<Rightarrow> bool" where
  "xu_ispow2 x \<longleftrightarrow> \<not> (x AND (x - 1) \<noteq> 0) \<and> x \<noteq> 0"

definition xu_align_pow2 :: "u64 \<Rightarrow> u64" where
  "xu_align_pow2 x =
     (if x > 1 then if xu_ispow2 x then x else push_bit (32 - xu_bits_cl0_u32_be_inline (ucast x)) 1 else 1)"

definition xu_ilog2i :: "u32 \<Rightarrow> nat" where
  "xu_ilog2i x = 31 - xu_bits_cl0_u32_be_inline (x OR 1)"

section \<open>Division by a byte and square roots\<close>

definition inverse_table :: "u32 list" where
  "inverse_table =
    [0, 4294967295, 2147483648, 1431655766, 1073741824, 858993460, 715827883, 613566757, 536870912, 477218589,
     429496730, 390451573, 357913942, 330382100, 306783379, 286331154, 268435456, 252645136, 238609295, 226050911,
     214748365, 204522253, 195225787, 186737709, 178956971, 171798692, 165191050, 159072863, 153391690, 148102321,
     143165577, 138547333, 134217728, 130150525, 126322568, 122713352, 119304648, 116080198, 113025456, 110127367,
     107374183, 104755300, 102261127, 99882961, 97612894, 95443718, 93368855, 91382283, 89478486, 87652394,
     85899346, 84215046, 82595525, 81037119, 79536432, 78090315, 76695845, 75350304, 74051161, 72796056,
     71582789, 70409300, 69273667, 68174085, 67108864, 66076420, 65075263, 64103990, 63161284, 62245903,
     61356676, 60492498, 59652324, 58835169, 58040099, 57266231, 56512728, 55778797, 55063684, 54366675,
     53687092, 53024288, 52377650, 51746594, 51130564, 50529028, 49941481, 49367441, 48806447, 48258060,
     47721859, 47197443, 46684428, 46182445, 45691142, 45210183, 44739243, 44278014, 43826197, 43383509,
     42949673, 42524429, 42107523, 41698712, 41297763, 40904451, 40518560, 40139882, 39768216, 39403370,
     39045158, 38693400, 38347923, 38008561, 37675152, 37347542, 37025581, 36709123, 36398028, 36092163,
     35791395, 35495598, 35204650, 34918434, 34636834, 34359739, 34087043, 33818641, 33554432, 33294321,
     33038210, 32786010, 32537632, 32292988, 32051995, 31814573, 31580642, 31350127, 31122952, 30899046,
     30678338, 30460761, 30246249, 30034737, 29826162, 29620465, 29417585, 29217465, 29020050, 28825284,
     28633116, 28443493, 28256364, 28071682, 27889399, 27709467, 27531842, 27356480, 27183338, 27012373,
     26843546, 26676816, 26512144, 26349493, 26188825, 26030105, 25873297, 25718368, 25565282, 25414008,
     25264514, 25116768, 24970741, 24826401, 24683721, 24542671, 24403224, 24265352, 24129030, 23994231,
     23860930, 23729102, 23598722, 23469767, 23342214, 23216040, 23091223, 22967740, 22845571, 22724695,
     22605092, 22486740, 22369622, 22253717, 22139007, 22025474, 21913099, 21801865, 21691755, 21582751,
     21474837, 21367997, 21262215, 21157475, 21053762, 20951060, 20849356, 20748635, 20648882, 20550083,
     20452226, 20355296, 20259280, 20164166, 20069941, 19976593, 19884108, 19792477, 19701685, 19611723,
     19522579, 19434242, 19346700, 19259944, 19173962, 19088744, 19004281, 18920561, 18837576, 18755316,
     18673771, 18592933, 18512791, 18433337, 18354562, 18276457, 18199014, 18122225, 18046082, 17970575,
     17895698, 17821442, 17747799, 17674763, 17602325, 17530479, 17459217, 17388532, 17318417, 17248865,
     17179870, 17111424, 17043522, 16976156, 16909321, 16843010, 16777216]"

definition xu_idivi8 :: "u32 \<Rightarrow> u8 \<Rightarrow> u32" where
  "xu_idivi8 x y = ucast (drop_bit 32 (ucast x * ucast (inverse_table ! unat y) :: u64))"

definition sqrt_table :: "u8 list" where
  "sqrt_table =
    [0, 16, 23, 28, 32, 36, 40, 43, 46, 48, 51, 54, 56, 58, 60, 62, 64, 66, 68, 70, 72, 74,
     76, 77, 79, 80, 82, 84, 85, 87, 88, 90, 91, 92, 94, 95, 96, 98, 99, 100, 102, 103, 104, 105,
     107, 108, 109, 110, 111, 112, 114, 115, 116, 117, 118, 119, 120, 121, 122, 123, 124, 125, 126, 127, 128, 129,
     130, 131, 132, 133, 134, 135, 136, 137, 138, 139, 140, 141, 142, 143, 144, 144, 145, 146, 147, 148, 149, 150,
     151, 151, 152, 153, 154, 155, 156, 156, 157, 158, 159, 160, 160, 161, 162, 163, 164, 164, 165, 166, 167, 168,
     168, 169, 170, 171, 171, 172, 173, 174, 174, 175, 176, 176, 177, 178, 179, 179, 180, 181, 182, 182, 183, 184,
     184, 185, 186, 186, 187, 188, 188, 189, 190, 190, 191, 192, 192, 193, 194, 194, 195, 196, 196, 197, 198, 198,
     199, 200, 200, 201, 202, 202, 203, 204, 204, 205, 205, 206, 207, 207, 208, 208, 209, 210, 210, 211, 212, 212,
     213, 213, 214, 215, 215, 216, 216, 217, 218, 218, 219, 219, 220, 220, 221, 222, 222, 223, 223, 224, 224, 225,
     226, 226, 227, 227, 228, 228, 229, 230, 230, 231, 231, 232, 232, 233, 233, 234, 235, 235, 236, 236, 237, 237,
     238, 238, 239, 239, 240, 240, 241, 242, 242, 243, 243, 244, 244, 245, 245, 246, 246, 247, 247, 248, 248, 249,
     249, 250, 250, 251, 251, 252, 252, 253, 253, 254, 254, 255, 255, 255]"

definition xu_isqrti_impl :: "u32 \<Rightarrow> u32" where
  "xu_isqrti_impl x =
     (if x < 255 then drop_bit 4 (ucast (sqrt_table ! unat (x + 1)) - 1)
      else let b =
             (if x < 2 ^ 12 then drop_bit 2 (ucast (sqrt_table ! unat (drop_bit 4 x)))
              else if x < 2 ^ 14 then drop_bit 1 (ucast (sqrt_table ! unat (drop_bit 6 x)))
              else if x < 2 ^ 16 then ucast (sqrt_table ! unat (drop_bit 8 x))
              else let s = xu_ilog2i (drop_bit 16 x) div 2; c = drop_bit (s + 2) x;
                       b = sqrt_table ! unat (drop_bit (s + 8) c)
                   in xu_idivi8 c b + push_bit s (ucast b))
           in b - (if x < b * b then 1 else 0))"

text \<open>The configuration without floating point.\<close>

definition xu_isqrti :: "u32 \<Rightarrow> u32" where
  "xu_isqrti x = xu_isqrti_impl x"

text \<open>The turns with the bits \<open>2 ^ k\<close> of the root, \<open>k\<close> going down from 31.\<close>

fun isqrti64_loop :: "nat \<Rightarrow> u64 \<Rightarrow> u64 \<Rightarrow> u64" where
  "isqrti64_loop k x n =
     (let b = push_bit k 1; t = push_bit k (push_bit 1 n + b);
          (n, x) = (if x \<ge> t then (n + b, x - t) else (n, x))
      in case k of 0 \<Rightarrow> n | Suc k \<Rightarrow> isqrti64_loop k x n)"

definition xu_isqrti64_impl :: "u64 \<Rightarrow> u32" where
  "xu_isqrti64_impl x =
     (if drop_bit 32 x = 0 then xu_isqrti (ucast x) else ucast (isqrti64_loop 31 x 0))"

definition xu_isqrti64 :: "u64 \<Rightarrow> u32" where
  "xu_isqrti64 x = xu_isqrti64_impl x"

end
