(* ===== verification/XMathCorrect.thy ===== *)
theory XMathCorrect
  imports XMath
begin

text \<open>
  The counts are positions of bits, the logarithm and the powers of two follow from them, and
  the square roots are the integer square roots, except at the top of the 32-bit range.
\<close>

section \<open>Positions of bits\<close>

lemma word_zero_bits: "x = 0 \<longleftrightarrow> (\<forall>i. \<not> bit (x :: 'a::len word) i)"
  by (auto intro!: bit_word_eqI)

lemma and_zero_bits: "x AND y = 0 \<longleftrightarrow> (\<forall>i. bit x i \<longrightarrow> \<not> bit (y :: 'a::len word) i)"
  by (simp add: word_zero_bits bit_and_iff)

text \<open>The highest and the lowest bit of a word.\<close>

definition top_bit :: "'a::len word \<Rightarrow> nat \<Rightarrow> bool" where
  "top_bit x d \<longleftrightarrow> bit x d \<and> (\<forall>k > d. \<not> bit x k)"

definition low_bit :: "'a::len word \<Rightarrow> nat \<Rightarrow> bool" where
  "low_bit x d \<longleftrightarrow> bit x d \<and> (\<forall>k < d. \<not> bit x k)"

lemma top_bit_value:
  assumes "top_bit x d"
  shows "2 ^ d \<le> unat x" "unat x < 2 ^ (d + 1)"
proof -
  have "drop_bit d x = 1"
    by (rule bit_word_eqI) (use assms in \<open>auto simp: top_bit_def bit_simps\<close>, metis add_cancel_right_right less_add_same_cancel1 neq0_conv)
  then have "unat x div 2 ^ d = 1" by (metis unat_1 unat_drop_bit_eq drop_bit_eq_div)
  then show "2 ^ d \<le> unat x" "unat x < 2 ^ (d + 1)"
    by (metis div_less leI zero_neq_one, metis div_less_iff_less_mult less_2_cases_iff one_less_numeral_iff
      power_add power_one_right semiring_norm(76) zero_less_numeral zero_less_power mult.commute)
qed

lemma high_half:
  assumes "\<And>i. k + k \<le> i \<Longrightarrow> \<not> bit x i"
  shows "x AND push_bit k (2 ^ k - 1) = 0 \<longleftrightarrow> (\<forall>i \<ge> k. \<not> bit (x :: 'a::len word) i)"
proof -
  have "bit x i \<Longrightarrow> i < k + k \<and> i < LENGTH('a)" for i
    by (metis assms bit_imp_le_length not_le)
  then show ?thesis unfolding mask_eq_exp_minus_1 [symmetric] and_zero_bits by (force simp: bit_simps)
qed

text \<open>A halving step from above: the bits from \<open>d + 2 k\<close> on are zero, not all from \<open>d\<close> on.\<close>

definition upper_at :: "'a::len word \<Rightarrow> nat \<Rightarrow> nat \<Rightarrow> 'a word \<Rightarrow> bool" where
  "upper_at x0 m d x \<longleftrightarrow> x = drop_bit d x0 \<and> x \<noteq> 0 \<and> (\<forall>i \<ge> m. \<not> bit x i)"

lemma upper_step:
  assumes at: "upper_at x0 (k + k) d x" and msk: "msk = push_bit k (2 ^ k - 1)"
  shows "x AND msk \<noteq> 0 \<Longrightarrow> upper_at x0 k (d + k) (drop_bit k x)"
    and "x AND msk = 0 \<Longrightarrow> upper_at x0 k d x"
proof -
  have x: "x = drop_bit d x0" "x \<noteq> 0" "\<forall>i \<ge> k + k. \<not> bit x i" using at unfolding upper_at_def by blast+
  have z: "x AND msk = 0 \<longleftrightarrow> (\<forall>i \<ge> k. \<not> bit x i)"
    unfolding msk by (rule high_half) (use x(3) in blast)
  show "upper_at x0 k d x" if "x AND msk = 0" 
  proof -
    have "\<forall>i \<ge> k. \<not> bit x i" using z that by simp
    then show ?thesis using x(1,2) unfolding upper_at_def by (intro conjI)
  qed
  show "upper_at x0 k (d + k) (drop_bit k x)" if nz: "x AND msk \<noteq> 0"
  proof -
    obtain i where "i \<ge> k" "bit x i" using z nz by auto
    then have "bit (drop_bit k x) (i - k)" by (simp add: bit_drop_bit_eq)
    then have "drop_bit k x \<noteq> 0" by auto
    moreover have "drop_bit k x = drop_bit (d + k) x0" by (simp add: x(1) drop_bit_drop_bit add.commute)
    moreover have "\<not> bit (drop_bit k x) j" if "j \<ge> k" for j
    proof -
      have "k + k \<le> k + j" using that by simp
      then show ?thesis using x(3) unfolding bit_drop_bit_eq o_apply by blast
    qed
    ultimately show ?thesis unfolding upper_at_def by blast
  qed
qed

lemma upper_one:
  assumes "upper_at x0 1 d x"
  shows "top_bit x0 d"
proof -
  have x: "x = drop_bit d x0" "\<forall>i \<ge> 1. \<not> bit x i" using assms unfolding upper_at_def by blast+
  obtain i where "bit x i" using assms by (auto simp: upper_at_def word_zero_bits)
  then have "bit x0 d" using x by (cases i) (auto simp: bit_drop_bit_eq)
  moreover have "\<not> bit x0 k" if "k > d" for k
    using x that by (auto simp: bit_drop_bit_eq dest: spec [of _ "k - d"])
  ultimately show ?thesis by (simp add: top_bit_def)
qed

text \<open>A halving step from below: no bit before \<open>e\<close>, one of the first \<open>2 k\<close> bits from there is set.\<close>

definition lower_at :: "'a::len word \<Rightarrow> nat \<Rightarrow> nat \<Rightarrow> 'a word \<Rightarrow> bool" where
  "lower_at x0 m e x \<longleftrightarrow> x = drop_bit e x0 \<and> (\<forall>i < e. \<not> bit x0 i) \<and> (\<exists>i < m. bit x i)"

lemma low_half: "x AND (2 ^ k - 1) = 0 \<longleftrightarrow> (\<forall>i < k. \<not> bit (x :: 'a::len word) i)"
  unfolding mask_eq_exp_minus_1 [symmetric] and_zero_bits by (auto simp: bit_simps dest: bit_imp_le_length)

lemma lower_step:
  assumes "lower_at x0 (k + k) e x" and "msk = 2 ^ k - 1"
  shows "x AND msk \<noteq> 0 \<Longrightarrow> lower_at x0 k e x"
    and "x AND msk = 0 \<Longrightarrow> lower_at x0 k (e + k) (drop_bit k x)"
proof -
  have z: "x AND msk = 0 \<longleftrightarrow> (\<forall>i < k. \<not> bit x i)" using assms(2) low_half [of x k] by simp
  show "lower_at x0 k e x" if "x AND msk \<noteq> 0" using z that assms(1) by (auto simp: lower_at_def)
  show "lower_at x0 k (e + k) (drop_bit k x)" if "x AND msk = 0"
  proof -
    have n: "\<forall>i < k. \<not> bit x i" using z that by blast
    obtain i where i: "i < k + k" "bit x i" using assms(1) by (auto simp: lower_at_def)
    then have "k \<le> i" using n by (meson not_le)
    then have "i - k < k" "bit (drop_bit k x) (i - k)" using i by (simp_all add: bit_drop_bit_eq)
    moreover have "\<not> bit x0 j" if "j < e + k" for j
      using that n assms(1) by (cases "j < e") (auto simp: lower_at_def bit_drop_bit_eq dest: spec [of _ "j - e"])
    ultimately show ?thesis using assms(1) by (auto simp: lower_at_def drop_bit_drop_bit add.commute)
  qed
qed

lemma lower_one: "lower_at x0 1 e x \<Longrightarrow> low_bit x0 e"
  by (auto simp: lower_at_def low_bit_def bit_drop_bit_eq)

lemma cl0_high_fst: "fst (cl0_high k msk s) = (if snd s AND msk \<noteq> 0 then fst s - k else fst s)"
  by (simp add: cl0_high_def split_beta)

lemma halve_upper:
  assumes "upper_at x0 (k + k) d x" and "msk = push_bit k (2 ^ k - 1)" and "d + k \<le> 31"
  obtains d' x' where "cl0_high k msk (31 - d, x) = (31 - d', x')" "upper_at x0 k d' x'" "d' \<le> d + k"
proof (cases "x AND msk = 0")
  case True
  then show ?thesis using that [of d x] upper_step(2) [OF assms(1,2)] by (simp add: cl0_high_def)
next
  case False
  then show ?thesis using that [of "d + k" "drop_bit k x"] upper_step(1) [OF assms(1,2)] by (simp add: cl0_high_def)
qed

lemma cl0_u32_be:
  assumes "x \<noteq> 0"
  obtains d where "top_bit x d" "d < 32" "xu_bits_cl0_u32_be_inline x = 31 - d"
proof -
  have start: "upper_at x (16 + 16) 0 x" using assms by (auto simp: upper_at_def dest: bit_imp_le_length)
  obtain d1 x1 where 1: "cl0_high 16 0xffff0000 (31, x) = (31 - d1, x1)" "upper_at x 16 d1 x1" "d1 \<le> 16"
    by (rule halve_upper [OF start, of "0xffff0000"]) simp_all
  obtain d2 x2 where 2: "cl0_high 8 0xff00 (31 - d1, x1) = (31 - d2, x2)" "upper_at x 8 d2 x2" "d2 \<le> 24"
    by (rule halve_upper [of x 8 d1 x1 "0xff00"]) (use 1 in simp_all)
  obtain d3 x3 where 3: "cl0_high 4 0xf0 (31 - d2, x2) = (31 - d3, x3)" "upper_at x 4 d3 x3" "d3 \<le> 28"
    by (rule halve_upper [of x 4 d2 x2 "0xf0"]) (use 2 in simp_all)
  obtain d4 x4 where 4: "cl0_high 2 0xc (31 - d3, x3) = (31 - d4, x4)" "upper_at x 2 d4 x4" "d4 \<le> 30"
    by (rule halve_upper [of x 2 d3 x3 "0xc"]) (use 3 in simp_all)
  obtain d5 x5 where 5: "cl0_high 1 0x2 (31 - d4, x4) = (31 - d5, x5)" "upper_at x 1 d5 x5" "d5 \<le> 31"
    by (rule halve_upper [of x 1 d4 x4 "0x2"]) (use 4 in \<open>simp_all add: numeral_2_eq_2\<close>)
  have "xu_bits_cl0_u32_be_inline x
      = fst (cl0_high 1 0x2 (cl0_high 2 0xc (cl0_high 4 0xf0 (cl0_high 8 0xff00 (cl0_high 16 0xffff0000 (31, x))))))"
    using assms by (simp add: xu_bits_cl0_u32_be_inline_def cl0_high_fst Let_def)
  also have "\<dots> = 31 - d5" by (simp only: 1 2 3 4 5 fst_conv)
  finally show ?thesis using that upper_one [OF 5(2)] 5(3) by auto
qed

lemma cl0_low_fst: "fst (cl0_low k msk s) = (if snd s AND msk \<noteq> 0 then fst s - k else fst s)"
  by (simp add: cl0_low_def split_beta)

lemma halve_lower:
  assumes "lower_at x0 (k + k) e x" and "msk = 2 ^ k - 1" and "0 < k"
  obtains e' x' where "cl0_low k msk (e + (k + k - 1), x) = (e' + (k - 1), x')" "lower_at x0 k e' x'"
proof (cases "x AND msk = 0")
  case True
  then show ?thesis using that [of "e + k" "drop_bit k x"] lower_step(2) [OF assms(1,2)] by (simp add: cl0_low_def add.assoc)
next
  case False
  then show ?thesis using that [of e x] lower_step(1) [OF assms(1,2)] assms(3) by (simp add: cl0_low_def)
qed

lemma cl0_u32_le:
  assumes "x \<noteq> 0"
  obtains e where "low_bit x e" "e < 32" "xu_bits_cl0_u32_le_inline x = e"
proof -
  have start: "lower_at x (16 + 16) 0 x" using assms bit_imp_le_length [of x] by (force simp: lower_at_def word_zero_bits)
  obtain e1 x1 where 1: "cl0_low 16 0x0000ffff (31, x) = (e1 + 15, x1)" "lower_at x 16 e1 x1"
    by (rule halve_lower [OF start, of "0xffff"]) (simp_all add: numeral_eq_Suc)
  obtain e2 x2 where 2: "cl0_low 8 0x00ff (e1 + 15, x1) = (e2 + 7, x2)" "lower_at x 8 e2 x2"
    by (rule halve_lower [of x 8 e1 x1 "0xff"]) (use 1 in simp_all)
  obtain e3 x3 where 3: "cl0_low 4 0x0f (e2 + 7, x2) = (e3 + 3, x3)" "lower_at x 4 e3 x3"
    by (rule halve_lower [of x 4 e2 x2 "0xf"]) (use 2 in simp_all)
  obtain e4 x4 where 4: "cl0_low 2 0x3 (e3 + 3, x3) = (e4 + 1, x4)" "lower_at x 2 e4 x4"
    by (rule halve_lower [of x 2 e3 x3 "0x3"]) (use 3 in simp_all)
  obtain e5 x5 where 5: "cl0_low 1 0x1 (e4 + 1, x4) = (e5, x5)" "lower_at x 1 e5 x5"
    by (rule halve_lower [of x 1 e4 x4 "0x1"]) (use 4 in \<open>simp_all add: numeral_2_eq_2\<close>)
  have "xu_bits_cl0_u32_le_inline x
      = fst (cl0_low 1 0x1 (cl0_low 2 0x3 (cl0_low 4 0x0f (cl0_low 8 0x00ff (cl0_low 16 0x0000ffff (31, x))))))"
    using assms by (simp add: xu_bits_cl0_u32_le_inline_def cl0_low_fst Let_def)
  also have "\<dots> = e5" by (simp only: 1 2 3 4 5 fst_conv)
  finally have "xu_bits_cl0_u32_le_inline x = e5" .
  moreover have "low_bit x e5" using lower_one [OF 5(2)] .
  moreover from this have "e5 < 32" using bit_imp_le_length [of x e5] by (simp add: low_bit_def)
  ultimately show ?thesis using that by blast
qed

lemma top_bit_unique: "top_bit x d \<Longrightarrow> top_bit x e \<Longrightarrow> d = e"
  unfolding top_bit_def by (meson linorder_neqE_nat)

lemma halves_zero: "x \<noteq> 0 \<longleftrightarrow> (ucast (drop_bit 32 x) :: u32) \<noteq> 0 \<or> (ucast x :: u32) \<noteq> 0" for x :: u64
proof -
  have "\<exists>i. bit (ucast (drop_bit 32 x) :: u32) i \<or> bit (ucast x :: u32) i" if "bit x i" for i
  proof (cases "i < 32")
    case False
    then have "bit (ucast (drop_bit 32 x) :: u32) (i - 32)"
      using that bit_imp_le_length [OF that] by (simp add: bit_simps)
    then show ?thesis by blast
  qed (use that in \<open>auto simp: bit_simps\<close>)
  then show ?thesis unfolding word_zero_bits by (auto simp: bit_simps)
qed

lemma cl0_u64_be:
  assumes "x \<noteq> 0"
  obtains d where "top_bit x d" "d < 64" "xu_bits_cl0_u64_be_inline x = 63 - d"
proof (cases "(ucast (drop_bit 32 x) :: u32) = 0")
  case True
  then have z: "(ucast x :: u32) \<noteq> 0" using assms halves_zero by blast
  obtain d where d: "top_bit (ucast x :: u32) d" "d < 32" "xu_bits_cl0_u32_be_inline (ucast x) = 31 - d"
    by (rule cl0_u32_be [OF z])
  have "\<not> bit x k" if "k > d" for k
  proof (cases "k < 32")
    case False
    then show ?thesis using True bit_imp_le_length [of x k]
      by (auto simp: word_zero_bits bit_simps dest: spec [of _ "k - 32"])
  qed (use d(1) that in \<open>auto simp: top_bit_def bit_simps\<close>)
  then have "top_bit x d" using d(1) by (auto simp: top_bit_def bit_simps)
  moreover have "xu_bits_cl0_u64_be_inline x = 63 - d"
    using assms True d by (simp add: xu_bits_cl0_u64_be_inline_def xu_bits_cl0_u32_be_inline_def [of 0])
  ultimately show ?thesis using that d(2) by simp
next
  case False
  obtain d where d: "top_bit (ucast (drop_bit 32 x) :: u32) d" "d < 32"
    "xu_bits_cl0_u32_be_inline (ucast (drop_bit 32 x)) = 31 - d"
    by (rule cl0_u32_be [OF False])
  have "\<not> bit x k" if "k > 32 + d" for k
    using d(1) that bit_imp_le_length [of x k] by (auto simp: top_bit_def bit_simps dest: spec [of _ "k - 32"])
  then have "top_bit x (32 + d)" using d(1) by (auto simp: top_bit_def bit_simps)
  moreover have "xu_bits_cl0_u64_be_inline x = 63 - (32 + d)"
  proof -
    have "31 - d \<noteq> 32" by arith
    then show ?thesis using assms d by (simp add: xu_bits_cl0_u64_be_inline_def Let_def)
  qed
  ultimately show ?thesis using that [of "32 + d"] d(2) by simp
qed

lemma cl0_u64_le:
  assumes "x \<noteq> 0"
  obtains e where "low_bit x e" "e < 64" "xu_bits_cl0_u64_le_inline x = e"
proof (cases "(ucast x :: u32) = 0")
  case True
  then have z: "(ucast (drop_bit 32 x) :: u32) \<noteq> 0" using assms halves_zero by blast
  obtain e where e: "low_bit (ucast (drop_bit 32 x) :: u32) e" "e < 32"
    "xu_bits_cl0_u32_le_inline (ucast (drop_bit 32 x)) = e"
    by (rule cl0_u32_le [OF z])
  have "\<not> bit x k" if "k < 32 + e" for k
  proof (cases "k < 32")
    case True
    then show ?thesis using \<open>ucast x = 0\<close> by (auto simp: word_zero_bits bit_simps)
  qed (use e(1) that in \<open>auto simp: low_bit_def bit_simps dest: spec [of _ "k - 32"]\<close>)
  then have "low_bit x (32 + e)" using e(1) by (auto simp: low_bit_def bit_simps)
  moreover have "xu_bits_cl0_u64_le_inline x = 32 + e"
    using assms True e by (simp add: xu_bits_cl0_u64_le_inline_def xu_bits_cl0_u32_le_inline_def [of 0])
  ultimately show ?thesis using that e(2) by simp
next
  case False
  obtain e where e: "low_bit (ucast x :: u32) e" "e < 32" "xu_bits_cl0_u32_le_inline (ucast x) = e"
    by (rule cl0_u32_le [OF False])
  then have "low_bit x e" by (auto simp: low_bit_def bit_simps)
  moreover have "xu_bits_cl0_u64_le_inline x = e"
    using assms e by (simp add: xu_bits_cl0_u64_le_inline_def Let_def)
  ultimately show ?thesis using that e(2) by simp
qed

section \<open>Powers of two\<close>

lemma ilog2i_bounds:
  "2 ^ xu_ilog2i x \<le> max 1 (unat x) \<and> max 1 (unat x) < 2 ^ (xu_ilog2i x + 1) \<and> xu_ilog2i x < 32"
proof -
  have "x OR 1 \<noteq> 0" by (simp add: word_zero_bits bit_simps) (metis bit_1_0)
  then obtain d where d: "top_bit (x OR 1) d" "d < 32" "xu_bits_cl0_u32_be_inline (x OR 1) = 31 - d"
    by (rule cl0_u32_be)
  have l: "xu_ilog2i x = d" using d(2,3) by (simp add: xu_ilog2i_def)
  show ?thesis
  proof (cases "x = 0")
    case True
    have "top_bit (1 :: u32) 0" by (simp add: top_bit_def bit_1_iff)
    then show ?thesis using d(1) True l top_bit_unique by fastforce
  next
    case False
    obtain e where e: "top_bit x e" by (rule cl0_u32_be [OF False])
    then have "top_bit (x OR 1) e" by (auto simp: top_bit_def bit_simps)
    then have "e = d" using d(1) top_bit_unique by blast
    moreover have "unat x \<noteq> 0" using False by (simp add: unat_eq_0)
    ultimately show ?thesis using top_bit_value [OF e] l d(2) by (simp add: max_def)
  qed
qed

lemma unat_power_of_two:
  assumes "d < 64"
  shows "unat (2 ^ d :: u64) = 2 ^ d"
proof -
  have "(2 :: nat) ^ d < 2 ^ 64" using assms by (intro power_strict_increasing) simp_all
  then have "unat (of_nat (2 ^ d) :: u64) = 2 ^ d"
    using assms by (simp add: unsigned_of_nat take_bit_nat_eq_self del: of_nat_power)
  then show ?thesis by simp
qed

lemma ispow2_value:
  assumes "top_bit x d"
  shows "xu_ispow2 x \<longleftrightarrow> unat x = 2 ^ d"
proof -
  note v = top_bit_value [OF assms]
  have nz: "x \<noteq> 0" using v by auto
  have d: "d < 64" using assms bit_imp_le_length [of x d] by (simp add: top_bit_def)
  have u: "unat (x - 1) = unat x - 1" using nz by (simp add: unat_minus_one)
  have "unat x = 2 ^ d" if "x AND (x - 1) = 0"
  proof (rule ccontr)
    assume "unat x \<noteq> 2 ^ d"
    then have "2 ^ d \<le> unat (x - 1)" "unat (x - 1) < 2 ^ d * 2" using v u by simp_all
    then have "unat (x - 1) div 2 ^ d = 1" by (simp add: div_nat_eqI)
    then have "bit (unat (x - 1)) d" by (simp add: bit_iff_odd)
    then have "bit (x - 1) d" by (simp add: bit_unsigned_iff)
    then have "bit (x AND (x - 1)) d" using assms by (simp add: bit_and_iff top_bit_def)
    then show False using that by simp
  qed
  moreover have "x AND (x - 1) = 0" if "unat x = 2 ^ d"
  proof -
    have "unat x = unat (2 ^ d :: u64)" using that unat_power_of_two [OF d] by simp
    then have "x = 2 ^ d" by (rule unsigned_word_eqI)
    then have "x - 1 = mask d" by (simp add: mask_eq_exp_minus_1)
    then show ?thesis using \<open>x = 2 ^ d\<close> by (auto simp: and_zero_bits bit_simps)
  qed
  ultimately show ?thesis using nz by (auto simp: xu_ispow2_def)
qed

text \<open>The smallest power of two that is not below a size of 32 bits.\<close>

lemma align_pow2_value:
  assumes "unat x < 2 ^ 32"
  obtains k where "unat (xu_align_pow2 x) = 2 ^ k" "unat x \<le> 2 ^ k" "k \<le> 32" "1 < unat x \<Longrightarrow> 2 ^ k < 2 * unat x"
    "unat x \<le> 1 \<Longrightarrow> k = 0"
proof (cases "x > 1")
  case False
  then have "unat x \<le> 1" by (simp add: word_less_nat_alt)
  then show ?thesis using that [of 0] False by (simp add: xu_align_pow2_def)
next
  case True
  then have x: "1 < unat x" by (simp add: word_less_nat_alt)
  have u: "unat (ucast x :: u32) = unat x"
    using assms by (simp add: unsigned_ucast_eq take_bit_nat_eq_self_iff)
  then have nz: "(ucast x :: u32) \<noteq> 0" using x by auto
  obtain d where d: "top_bit (ucast x :: u32) d" "d < 32" "xu_bits_cl0_u32_be_inline (ucast x) = 31 - d"
    by (rule cl0_u32_be [OF nz])
  note v = top_bit_value [OF d(1), unfolded u]
  have "x \<noteq> 0" using x by auto
  then obtain e where e: "top_bit x e" by (rule cl0_u64_be)
  then have "e = d" using v top_bit_value [OF e]
    by (metis Suc_eq_plus1 leD le_less_trans less_Suc_eq_le linorder_neqE_nat one_less_numeral_iff power_less_imp_less_exp semiring_norm(76))
  then have p2: "xu_ispow2 x \<longleftrightarrow> unat x = 2 ^ d" using ispow2_value [OF e] by simp
  show ?thesis
  proof (cases "xu_ispow2 x")
    case True
    then show ?thesis using that [of d] p2 x d(2) \<open>x > 1\<close> by (simp add: xu_align_pow2_def)
  next
    case False
    then have "2 ^ d < unat x" using p2 v(1) by simp
    have "xu_align_pow2 x = push_bit (d + 1) 1" using False \<open>x > 1\<close> d(2,3) by (simp add: xu_align_pow2_def)
    then have "xu_align_pow2 x = 2 ^ (d + 1)" by (simp add: push_bit_eq_mult)
    then have "unat (xu_align_pow2 x) = 2 ^ (d + 1)" using unat_power_of_two [of "d + 1"] d(2) by simp
    then show ?thesis using that [of "d + 1"] v(2) x d(2) \<open>2 ^ d < unat x\<close> by simp
  qed
qed

section \<open>Division by a byte\<close>

lemma inverse_table_ceil:
  "list_all2 (\<lambda>i y. 2 ^ 32 \<le> uint i * y \<and> uint i * y < 2 ^ 32 + y \<and> (y \<noteq> 255 \<longrightarrow> uint i * y \<le> 2 ^ 32 + 253))
     (drop 2 inverse_table) [2..256]"
  by code_simp

lemma length_inverse_table: "length inverse_table = 257"
  by code_simp

lemma idivi8_last: "list_all (\<lambda>x. uint (xu_idivi8 (of_int x) 255) = x div 255) [16909321..16909558]"
  by code_simp

lemma quotient_bounds:
  fixes u W N X D Y R :: int
  assumes "0 \<le> u" "u < W" "N = X * W + u" "X = D * Y + R" "0 \<le> R" "R \<le> Y - 1"
  shows "D * W * Y \<le> N \<and> N < (D + 1) * W * Y"
proof -
  have "0 \<le> R * W" "R * W \<le> (Y - 1) * W" using assms by (auto intro: mult_right_mono)
  moreover have "N = D * W * Y + R * W + u" by (simp add: assms(3,4) algebra_simps)
  moreover have "(D + 1) * W * Y = D * W * Y + ((Y - 1) * W + W)" by (simp add: algebra_simps)
  ultimately show ?thesis using assms(1,2) by linarith
qed

lemma idivi8_product: "uint (xu_idivi8 x y) = uint x * uint (inverse_table ! unat y) div 2 ^ 32"
proof -
  define X I where "X = uint x" and "I = uint (inverse_table ! unat y)"
  have b: "X < 2 ^ 32" "I < 2 ^ 32" "0 \<le> X" "0 \<le> I"
    using uint_lt2p [of x] uint_lt2p [of "inverse_table ! unat y"] by (simp_all add: X_def I_def)
  have lt: "X * I < 2 ^ 64" using mult_strict_mono [of X "2 ^ 32" I "2 ^ 32"] b by simp
  have ge: "0 \<le> X * I" using b by simp
  have w: "uint (ucast x * ucast (inverse_table ! unat y) :: u64) = X * I"
    using uint_lt2p [of x] uint_lt2p [of "inverse_table ! unat y"] lt ge
    by (simp add: uint_word_ariths X_def I_def unsigned_ucast_eq take_bit_int_eq_self)
  have "X * I div 2 ^ 32 < 2 ^ 32" using zdiv_mono1 [of "X * I" "2 ^ 64 - 1" "2 ^ 32"] lt by simp
  moreover have "uint (drop_bit 32 (ucast x * ucast (inverse_table ! unat y) :: u64)) = X * I div 2 ^ 32"
    by (subst unsigned_drop_bit_eq, subst w) (use lt ge in \<open>simp add: take_bit_int_eq_self drop_bit_eq_div\<close>)
  ultimately have "uint (xu_idivi8 x y) = X * I div 2 ^ 32"
    using ge by (simp add: xu_idivi8_def unsigned_ucast_eq take_bit_int_eq_self_iff pos_imp_zdiv_nonneg_iff)
  then show ?thesis by (simp only: X_def I_def)
qed

lemma idivi8_value:
  assumes "2 \<le> y" and "unat x \<le> 16909558"
  shows "unat (xu_idivi8 x y) = unat x div unat y"
proof -
  define X Y I where "X = uint x" and "Y = uint y" and "I = uint (inverse_table ! unat y)"
  have y: "2 \<le> Y" "Y < 256" using assms(1) uint_lt2p [of y] by (simp_all add: Y_def word_le_def)
  have nat: "int (unat x) = X" "int (unat y) = Y" by (simp_all add: X_def Y_def)
  have x: "0 \<le> X" "X \<le> 16909558" using assms(2) nat(1) by linarith+
  have k: "2 \<le> unat y" "unat y < 256" using y nat(2) by linarith+
  obtain m where m: "unat y = m + 2" using le_Suc_ex [OF k(1)] by (metis add.commute)
  have n: "drop 2 inverse_table ! m = inverse_table ! unat y" "[2..256] ! m = Y" "m < length (drop 2 inverse_table)"
    using m k nat(2) nth_upto [of 2 m 256] by (simp_all add: length_inverse_table del: upto_rec_numeral)
  have c: "2 ^ 32 \<le> I * Y" "I * Y < 2 ^ 32 + Y" "Y \<noteq> 255 \<longrightarrow> I * Y \<le> 2 ^ 32 + 253"
    using list_all2_nthD [OF inverse_table_ceil n(3)] unfolding n(1,2) by (simp_all add: I_def)
  have u: "uint (xu_idivi8 x y) = X * I div 2 ^ 32" by (simp only: idivi8_product X_def I_def)
  have "uint (xu_idivi8 x y) = X div Y"
  proof (cases "Y = 255 \<and> 16909321 \<le> X")
    case True
    then have "y = 255" by (simp add: Y_def word_uint_eq_iff)
    moreover have "X \<in> set [16909321..16909558]" using True x by (simp del: upto_rec_numeral)
    then have "uint (xu_idivi8 (of_int X) 255) = X div 255" using idivi8_last unfolding list_all_iff by blast
    ultimately show ?thesis using True by (simp add: X_def)
  next
    case False
    define e where "e = I * Y - 2 ^ 32"
    have "X * e < 2 ^ 32"
    proof (cases "Y = 255")
      case True
      then have "e \<le> 254" "0 \<le> e" "X \<le> 16909320" using False c by (simp_all add: e_def)
      then show ?thesis using mult_mono [of X 16909320 e 254] x by simp
    next
      case False
      then have "e \<le> 253" "0 \<le> e" using c by (simp_all add: e_def)
      then show ?thesis using mult_mono [of X 16909558 e 253] x by simp
    qed
    moreover have "0 \<le> X * e" using x(1) c(1) by (simp add: e_def)
    moreover have "X * I * Y = X * 2 ^ 32 + X * e" by (simp add: e_def algebra_simps)
    moreover have "0 \<le> X mod Y" "X mod Y \<le> Y - 1" using y pos_mod_bound [of Y X] by simp_all
    moreover have "X = X div Y * Y + X mod Y" by simp
    ultimately have "X div Y * 2 ^ 32 * Y \<le> X * I * Y" "X * I * Y < (X div Y + 1) * 2 ^ 32 * Y"
      using quotient_bounds [of "X * e" "2 ^ 32" "X * I * Y" X "X div Y" Y "X mod Y"] by simp_all
    then have "X div Y * 2 ^ 32 \<le> X * I" "X * I < (X div Y + 1) * 2 ^ 32" using y by simp_all
    then have "X * I div 2 ^ 32 = X div Y" by (intro int_div_pos_eq [where r = "X * I - X div Y * 2 ^ 32"]) simp_all
    then show ?thesis using u by simp
  qed
  then have "int (unat (xu_idivi8 x y)) = int (unat x div unat y)" by (simp add: X_def Y_def zdiv_int)
  then show ?thesis by (simp only: of_nat_eq_iff)
qed

section \<open>Square roots\<close>

definition is_sqrt :: "nat \<Rightarrow> nat \<Rightarrow> bool" where
  "is_sqrt r x \<longleftrightarrow> r * r \<le> x \<and> x < (r + 1) * (r + 1)"

text \<open>What the table gives: the root itself below 255, and an estimate at most one too large for
  the blocks of 16, 64 and 256 numbers.\<close>

definition near_root :: "int \<Rightarrow> int \<Rightarrow> int \<Rightarrow> bool" where
  "near_root b lo hi \<longleftrightarrow> 1 \<le> b \<and> (b - 1) * (b - 1) \<le> lo \<and> hi < (b + 1) * (b + 1)"

lemma sqrt_table_small:
  "list_all2 (\<lambda>t i. let r = (uint t - 1) div 16 in 0 < uint t \<and> r * r \<le> i \<and> i < (r + 1) * (r + 1)) (drop 1 sqrt_table) [0..254]"
  by code_simp

lemma sqrt_table_blocks:
  "list_all2 (\<lambda>t i. (15 \<le> i \<longrightarrow> near_root (uint t div 4) (16 * i) (16 * i + 15))
     \<and> (64 \<le> i \<longrightarrow> near_root (uint t div 2) (64 * i) (64 * i + 63) \<and> near_root (uint t) (256 * i) (256 * i + 255)))
     sqrt_table [0..255]"
  by code_simp

text \<open>The Newton step from the table, with the error bound at both ends of a block.\<close>

definition newton_ok :: "int \<Rightarrow> int \<Rightarrow> bool" where
  "newton_ok t j \<longleftrightarrow> (128 * (256 * j + t * t) - t) * (128 * (256 * j + t * t) - t) \<le> 16777216 * (t * t * j)"

lemma sqrt_table_newton:
  "list_all2 (\<lambda>t i. 2 \<le> uint t \<and> newton_ok (uint t) i \<and> newton_ok (uint t) (i + 1)) (drop 64 sqrt_table) [64..255]"
  by code_simp

lemma length_sqrt_table: "length sqrt_table = 256"
  by code_simp

lemma quadratic_between:
  fixes lo hi x A c :: int
  assumes "(lo + A) * (lo + A) \<le> c * lo" and "(hi + A) * (hi + A) \<le> c * hi" and "lo \<le> x" and "x \<le> hi"
  shows "(x + A) * (x + A) \<le> c * x"
proof -
  define m where "m = lo + hi + 2 * A - c"
  have "0 \<le> (x - lo) * (hi - x)" using assms(3,4) by simp
  then have "(x + A) * (x + A) - c * x \<le> m * x - lo * hi + A * A" by (simp add: m_def algebra_simps)
  also have "\<dots> \<le> 0"
  proof (cases "0 \<le> m")
    case True
    then have "m * x \<le> m * hi" using assms(4) by (rule mult_left_mono [rotated])
    then show ?thesis using assms(2) by (simp add: m_def algebra_simps)
  next
    case False
    then have "m * x \<le> m * lo" using assms(3) by (intro mult_left_mono_neg) simp_all
    then show ?thesis using assms(1) by (simp add: m_def algebra_simps)
  qed
  finally show ?thesis by simp
qed

lemma int_square_mono: "0 \<le> (x :: int) \<Longrightarrow> x \<le> y \<Longrightarrow> x * x \<le> y * y"
  by (simp add: mult_mono)

lemma newton_end:
  fixes t j P :: int
  assumes "newton_ok t j" and t: "0 \<le> t" and j: "0 \<le> j" and P: "1 \<le> P" "P \<le> 128"
  defines "T \<equiv> 2 * t * P" and "u \<equiv> 1024 * P * P * j"
  shows "(u + (T * T - 2 * T)) * (u + (T * T - 2 * T)) \<le> 4 * T * T * u"
proof -
  define X Y where "X = 256 * P * j + t * t * P - t" and "Y = 128 * (256 * j + t * t) - t"
  have "t * P \<le> t * 128" using P t by (intro mult_left_mono) simp_all
  then have le: "128 * X \<le> P * Y" by (simp add: X_def Y_def algebra_simps)
  have "t * 1 \<le> t * (t * P)"
  proof (cases "t = 0")
    case False
    then have "1 \<le> t * P" using t P mult_mono [of 1 t 1 P] by simp
    then show ?thesis using t by (rule mult_left_mono)
  qed simp
  moreover have "0 \<le> P * j" using j P by simp
  ultimately have "0 \<le> X" by (simp add: X_def algebra_simps)
  then have "(128 * X) * (128 * X) \<le> (P * Y) * (P * Y)" using int_square_mono [of "128 * X" "P * Y"] le by simp
  also have "\<dots> = P * P * (Y * Y)" by (simp add: ac_simps)
  also have "\<dots> \<le> P * P * (16777216 * (t * t * j))"
    using assms(1) P by (intro mult_left_mono) (simp_all add: newton_ok_def Y_def)
  finally have "X * X \<le> 1024 * (P * P * (t * t * j))" by (simp add: ac_simps)
  then have "16 * P * P * (X * X) \<le> 16 * P * P * (1024 * (P * P * (t * t * j)))" using P by (intro mult_left_mono) simp_all
  moreover have "u + (T * T - 2 * T) = 4 * P * X" by (simp add: X_def T_def u_def algebra_simps)
  ultimately show ?thesis by (simp add: T_def u_def algebra_simps)
qed

text \<open>An estimate \<open>T / 2 + x div 2 T\<close> is the root or one more.\<close>

lemma newton_step:
  fixes x T :: int
  assumes T: "4 \<le> T" "even T" and x: "0 \<le> x" and ok: "(x + (T * T - 2 * T)) * (x + (T * T - 2 * T)) \<le> 4 * T * T * x"
  shows "near_root (T div 2 + x div (2 * T)) x x"
proof -
  obtain h where h: "T = 2 * h" using T(2) by (elim evenE)
  define q where "q = x div (2 * T)"
  have "x mod (2 * T) < 2 * T" "0 \<le> x mod (2 * T)" using T(1) by simp_all
  moreover have x2: "x = 2 * T * q + x mod (2 * T)" by (simp add: q_def)
  ultimately have q: "2 * T * q \<le> x" "x < 2 * T * q + 2 * T" by linarith+
  have q0: "0 \<le> q" using T x by (simp add: q_def pos_imp_zdiv_nonneg_iff)
  define a where "a = h + q - 1"
  have a: "0 \<le> a" "2 * T * a = T * T + 2 * T * q - 2 * T" using q0 T h by (simp_all add: a_def algebra_simps)
  have "2 * T \<le> T * T" by (rule mult_right_mono) (use T in simp_all)
  moreover have "0 \<le> 2 * T * q" using q0 T by simp
  ultimately have "(2 * T * a) * (2 * T * a) \<le> (x + (T * T - 2 * T)) * (x + (T * T - 2 * T))"
    using a q by (intro int_square_mono) linarith+
  then have "4 * T * T * (a * a) \<le> 4 * T * T * x" using ok by (simp add: algebra_simps)
  then have lo: "a * a \<le> x" using T by simp
  have "2 * T * (a + 2) = T * T + 2 * T * q + 2 * T" using a(2) by (simp add: algebra_simps)
  then have up: "T * T + x < 2 * T * (a + 2)" using q(2) by simp
  have "4 * T * T * x \<le> (T * T + x) * (T * T + x)"
    using zero_le_square [of "T * T - x"] by (simp add: algebra_simps)
  also have "\<dots> < (2 * T * (a + 2)) * (2 * T * (a + 2))" using up T x by (intro mult_strict_mono') simp_all
  finally have "4 * T * T * x < 4 * T * T * ((a + 2) * (a + 2))" by (simp add: algebra_simps)
  then have "x < (a + 2) * (a + 2)" using T by simp
  moreover have "T div 2 + x div (2 * T) = a + 1" using h by (simp add: a_def q_def)
  ultimately show ?thesis using lo a(1) by (simp add: near_root_def add.assoc)
qed

lemma sqrt_fix:
  assumes b: "near_root (uint b) (uint x) (uint x)" and small: "uint (b :: u32) < 65536"
  shows "is_sqrt (unat (b - (if x < b * b then 1 else 0))) (unat x)"
proof -
  have nat: "int (unat b) = uint b" "int (unat x) = uint x" by simp_all
  define B where "B = unat b"
  have bs: "1 \<le> uint b" "(uint b - 1) * (uint b - 1) \<le> uint x" "uint x < (uint b + 1) * (uint b + 1)"
    using b unfolding near_root_def by blast+
  have "int B = uint b" by (simp add: B_def)
  then have B: "1 \<le> B" "B < 65536" "int (B - 1) = uint b - 1" "int (B + 1) = uint b + 1"
    using bs(1) small by linarith+
  have lo: "(B - 1) * (B - 1) \<le> unat x" and up: "unat x < (B + 1) * (B + 1)"
    using bs(2,3) unfolding B(3,4) [symmetric] nat(2) [symmetric]
    by (simp_all only: of_nat_mult [symmetric] of_nat_le_iff of_nat_less_iff)
  have "B * B < 2 ^ 32" using mult_strict_mono [of B 65536 B 65536] B(2) by simp
  then have bb: "unat (b * b) = B * B" by (simp add: unat_word_ariths B_def)
  show ?thesis
  proof (cases "x < b * b")
    case True
    have "b \<noteq> 0" using B(1) by (auto simp: B_def)
    then have "unat (b - 1) = B - 1" by (simp add: unat_minus_one B_def)
    then show ?thesis using True lo B(1) bb by (simp add: is_sqrt_def word_less_nat_alt)
  next
    case False
    then show ?thesis using up bb by (simp add: is_sqrt_def word_less_nat_alt B_def)
  qed
qed

lemma table_small:
  assumes "i < 255"
  shows "0 < uint (sqrt_table ! (i + 1))"
    "is_sqrt (nat ((uint (sqrt_table ! (i + 1)) - 1) div 16)) i"
proof -
  define t where "t = uint (sqrt_table ! (i + 1))"
  have n: "i < length (drop 1 sqrt_table)" "drop 1 sqrt_table ! i = sqrt_table ! (i + 1)" "[0..254] ! i = int i"
    using assms nth_upto [of 0 i 254] by (simp_all add: length_sqrt_table del: upto_rec_numeral)
  have c: "0 < t" "(t - 1) div 16 * ((t - 1) div 16) \<le> int i" "int i < ((t - 1) div 16 + 1) * ((t - 1) div 16 + 1)"
    using list_all2_nthD [OF sqrt_table_small n(1)] unfolding n(2,3) t_def by (simp_all add: Let_def)
  then show "0 < uint (sqrt_table ! (i + 1))" by (simp add: t_def)
  define r where "r = nat ((t - 1) div 16)"
  have "(t - 1) div 16 = int r" using c(1) by (simp add: r_def)
  then have "int (r * r) \<le> int i" "int i < int ((r + 1) * (r + 1))" using c(2,3) by (simp_all add: algebra_simps)
  then show "is_sqrt (nat ((uint (sqrt_table ! (i + 1)) - 1) div 16)) i"
    unfolding is_sqrt_def t_def [symmetric] r_def [symmetric] by (simp only: of_nat_le_iff of_nat_less_iff simp_thms)
qed

lemma table_blocks:
  assumes "i < 256"
  shows "15 \<le> i \<Longrightarrow> near_root (uint (sqrt_table ! i) div 4) (16 * int i) (16 * int i + 15)"
    "64 \<le> i \<Longrightarrow> near_root (uint (sqrt_table ! i) div 2) (64 * int i) (64 * int i + 63)"
    "64 \<le> i \<Longrightarrow> near_root (uint (sqrt_table ! i)) (256 * int i) (256 * int i + 255)"
proof -
  have n: "i < length sqrt_table" "[0..255] ! i = int i"
    using assms nth_upto [of 0 i 255] by (simp_all add: length_sqrt_table del: upto_rec_numeral)
  note c = list_all2_nthD [OF sqrt_table_blocks n(1), unfolded n(2)]
  show "15 \<le> i \<Longrightarrow> near_root (uint (sqrt_table ! i) div 4) (16 * int i) (16 * int i + 15)"
    "64 \<le> i \<Longrightarrow> near_root (uint (sqrt_table ! i) div 2) (64 * int i) (64 * int i + 63)"
    "64 \<le> i \<Longrightarrow> near_root (uint (sqrt_table ! i)) (256 * int i) (256 * int i + 255)"
    using c by simp_all
qed

lemma table_newton:
  assumes "64 \<le> i" and "i < 256"
  shows "2 \<le> uint (sqrt_table ! i)" "newton_ok (uint (sqrt_table ! i)) (int i)" "newton_ok (uint (sqrt_table ! i)) (int i + 1)"
proof -
  obtain m where m: "i = m + 64" using le_Suc_ex [OF assms(1)] by (metis add.commute)
  have n: "m < length (drop 64 sqrt_table)" "drop 64 sqrt_table ! m = sqrt_table ! i" "[64..255] ! m = int i"
    using assms m nth_upto [of 64 m 255] by (simp_all add: length_sqrt_table add.commute del: upto_rec_numeral)
  show "2 \<le> uint (sqrt_table ! i)" "newton_ok (uint (sqrt_table ! i)) (int i)" "newton_ok (uint (sqrt_table ! i)) (int i + 1)"
    using list_all2_nthD [OF sqrt_table_newton n(1)] unfolding n(2,3) by simp_all
qed

text \<open>A block estimate is near the root of every number of the block.\<close>

lemma near_root_block: "near_root b lo hi \<Longrightarrow> lo \<le> x \<Longrightarrow> x \<le> hi \<Longrightarrow> near_root b x x"
  by (auto simp: near_root_def)

lemma block_of: "x = 2 ^ k * (x div 2 ^ k) + x mod 2 ^ k" "0 \<le> x mod 2 ^ k" "x mod 2 ^ k \<le> 2 ^ k - 1" for x :: int
  using pos_mod_bound [of "2 ^ k" x] by simp_all

lemma unat_drop: "unat (drop_bit k x) = unat x div 2 ^ k"
  by (subst unsigned_drop_bit_eq) (simp add: drop_bit_eq_div take_bit_nat_eq_self)

lemma uint_drop: "uint (drop_bit k x) = uint x div 2 ^ k"
  using arg_cong [OF unat_drop [of k x], of int] by (simp add: zdiv_int)

lemma uint_widen: "uint (ucast (t :: u8) :: u32) = uint t"
  using uint_lt2p [of t] by (simp add: unsigned_ucast_eq take_bit_int_eq_self)

lemma unat_widen: "unat (ucast (t :: u8) :: u32) = unat t"
  using unsigned_less [of t, where ?'a = nat] by (simp add: unsigned_ucast_eq take_bit_nat_eq_self)

lemma isqrti_small:
  assumes "x < 255"
  shows "is_sqrt (unat (xu_isqrti_impl x)) (unat x)"
proof -
  have x: "unat x < 255" using assms by (simp add: word_less_nat_alt)
  have i: "unat (x + 1) = unat x + 1" using x by (simp add: unat_word_ariths)
  define t where "t = sqrt_table ! (unat x + 1)"
  have t: "0 < uint t" using table_small(1) [OF x] by (simp add: t_def)
  then have "unat (ucast t :: u32) \<noteq> 0" unfolding unat_widen by (simp add: unat_eq_0) (metis less_irrefl unsigned_0)
  then have "(ucast t :: u32) \<noteq> 0" by (metis unsigned_0)
  then have "unat (ucast t - 1 :: u32) = unat t - 1" by (simp add: unat_minus_one unat_widen)
  then have "unat (xu_isqrti_impl x) = (unat t - 1) div 16"
    using assms i by (simp add: xu_isqrti_impl_def t_def unat_drop)
  moreover have "nat ((uint t - 1) div 16) = (unat t - 1) div 16"
  proof -
    have "int (unat t) = uint t" by simp
    then have "uint t - 1 = int (unat t - 1)" using t by linarith
    then have "(uint t - 1) div 16 = int ((unat t - 1) div 16)" by (simp add: zdiv_int)
    then show ?thesis by (simp only: nat_int)
  qed
  ultimately show ?thesis using table_small(2) [OF x] by (simp add: t_def)
qed

lemma isqrti_blocks:
  assumes "\<not> x < 255" and "x < 2 ^ 16"
  shows "is_sqrt (unat (xu_isqrti_impl x)) (unat x)"
proof -
  define b where "b = (if x < 2 ^ 12 then drop_bit 2 (ucast (sqrt_table ! unat (drop_bit 4 x)))
    else if x < 2 ^ 14 then drop_bit 1 (ucast (sqrt_table ! unat (drop_bit 6 x)))
    else ucast (sqrt_table ! unat (drop_bit 8 x)) :: u32)"
  have e: "xu_isqrti_impl x = b - (if x < b * b then 1 else 0)"
    using assms by (simp add: xu_isqrti_impl_def b_def Let_def)
  have x: "255 \<le> unat x" "unat x < 2 ^ 16" using assms by (simp_all add: word_less_nat_alt)
  define k where "k = (if x < 2 ^ 12 then 4 else if x < 2 ^ 14 then 6 else 8 :: nat)"
  define i where "i = unat x div 2 ^ k"
  have i: "i < 256" "15 \<le> i" "k \<noteq> 4 \<Longrightarrow> 64 \<le> i"
    using x by (auto simp: i_def k_def word_less_nat_alt div_less_iff_less_mult less_eq_div_iff_mult_less_eq split: if_splits)
  have ui: "unat (drop_bit k x) = i" by (simp add: i_def unat_drop)
  have bl: "2 ^ k * int i \<le> uint x" "uint x \<le> 2 ^ k * int i + (2 ^ k - 1)"
  proof -
    have ii: "int i = uint x div 2 ^ k" by (simp add: i_def zdiv_int)
    show "2 ^ k * int i \<le> uint x" "uint x \<le> 2 ^ k * int i + (2 ^ k - 1)"
      unfolding ii using block_of [of "uint x" k] by linarith+
  qed
  define t where "t = uint (sqrt_table ! i)"
  have t: "0 \<le> t" "t < 256" using uint_lt2p [of "sqrt_table ! i"] by (simp_all add: t_def)
  have ub: "uint b = t div (if k = 4 then 4 else if k = 6 then 2 else 1)"
    using ui t by (auto simp: b_def k_def t_def uint_drop uint_widen split: if_splits)
  have "near_root (uint b) (2 ^ k * int i) (2 ^ k * int i + (2 ^ k - 1))"
    using table_blocks [OF i(1)] i(2,3) unfolding ub by (auto simp: t_def k_def split: if_splits)
  then have "near_root (uint b) (uint x) (uint x)" using bl by (rule near_root_block)
  moreover have "uint b \<le> t div 1" unfolding ub by (rule zdiv_mono2) (use t in simp_all)
  ultimately have "near_root (uint b) (uint x) (uint x) \<and> uint b < 256" using t by simp
  then show ?thesis unfolding e by (intro sqrt_fix) simp_all
qed

text \<open>From \<open>2 ^ 16\<close> on: \<open>s\<close> is half the logarithm of the high half, so that the index of the table has
  its top bits.\<close>

lemma isqrti_large:
  assumes "\<not> x < 2 ^ 16"
  shows "if x < 0xffff0000 then is_sqrt (unat (xu_isqrti_impl x)) (unat x) else xu_isqrti_impl x = 65536"
proof -
  define y s P where "y = unat (drop_bit 16 x)" and "s = xu_ilog2i (drop_bit 16 x) div 2" and "P = (2 :: int) ^ s"
  define X i where "X = uint x" and "i = unat x div 2 ^ (2 * s + 10)"
  have x: "2 ^ 16 \<le> unat x" "unat x < 2 ^ 32" using assms unsigned_less [of x, where ?'a = nat] by (simp_all add: word_less_nat_alt)
  have y: "y = unat x div 2 ^ 16" by (simp add: y_def unat_drop)
  define l where "l = xu_ilog2i (drop_bit 16 x)"
  have y16: "1 \<le> y" "y < 2 ^ 16" using x by (simp_all add: y less_eq_div_iff_mult_less_eq div_less_iff_less_mult)
  then have l: "2 ^ l \<le> y" "y < 2 ^ (l + 1)" using ilog2i_bounds [of "drop_bit 16 x"] by (simp_all add: l_def y_def max_def)
  have "(2 :: nat) ^ l < 2 ^ 16" using l(1) y16(2) by linarith
  then have "l < 16" by (simp only: power_strict_increasing_iff)
  then have ls: "2 * s \<le> l" "l + 1 \<le> 2 * s + 2" "s \<le> 7" unfolding s_def l_def [symmetric] by simp_all
  have "(2 :: nat) ^ (2 * s) \<le> 2 ^ l" "(2 :: nat) ^ (l + 1) \<le> 2 ^ (2 * s + 2)" using ls by (intro power_increasing; simp)+
  then have sq: "2 ^ (2 * s) \<le> y" "y < 2 ^ (2 * s + 2)" using l by linarith+
  have "y * 2 ^ 16 \<le> unat x" "unat x < (y + 1) * 2 ^ 16"
    unfolding y using div_mult_mod_eq [of "unat x" "2 ^ 16"] mod_less_divisor [of "2 ^ 16" "unat x"] by (simp_all add: algebra_simps)
  moreover have "2 ^ (2 * s) * 2 ^ 16 \<le> y * 2 ^ 16" "(y + 1) * 2 ^ 16 \<le> 2 ^ (2 * s + 2) * (2 :: nat) ^ 16"
    using sq by (intro mult_right_mono; simp)+
  ultimately have xb: "2 ^ (2 * s) * 2 ^ 16 \<le> unat x" "unat x < 2 ^ (2 * s + 2) * 2 ^ 16" by linarith+
  then have i: "64 \<le> i" "i < 256"
    by (simp_all add: i_def less_eq_div_iff_mult_less_eq div_less_iff_less_mult power_add)
  define t where "t = uint (sqrt_table ! i)"
  define T where "T = 2 * t * P"
  have P: "1 \<le> P" "P \<le> 128" using power_increasing [OF ls(3), of "2 :: int"] by (simp_all add: P_def)
  have "t < 256" using uint_lt2p [of "sqrt_table ! i"] by (simp add: t_def)
  then have t: "2 \<le> t" "t \<le> 255" "newton_ok t (int i)" "newton_ok t (int i + 1)"
    using table_newton [OF i] by (simp_all only: t_def)
  have "2 * s + 10 = s + s + 10" by simp
  then have pw: "1024 * P * P = 2 ^ (2 * s + 10)" unfolding P_def by (simp only: power_add) simp
  have ix: "int i = X div 2 ^ (2 * s + 10)" by (simp add: i_def X_def zdiv_int)
  have lohi: "1024 * P * P * int i \<le> X" "X \<le> 1024 * P * P * (int i + 1)"
    unfolding pw ix distrib_left mult_1_right using block_of [of X "2 * s + 10"] by linarith+
  have "(X + (T * T - 2 * T)) * (X + (T * T - 2 * T)) \<le> 4 * T * T * X"
    using quadratic_between [OF newton_end [OF t(3)] newton_end [OF t(4)] lohi] P t(1) by (simp add: T_def)
  moreover have "2 * 1 \<le> t * P" using t(1) P(1) by (intro mult_mono) simp_all
  then have T: "4 \<le> T" "even T" "T div 2 = t * P" by (simp_all add: T_def ac_simps)
  ultimately have near: "near_root (t * P + X div (2 * T)) X X"
    using newton_step [of T X] by (simp add: X_def)
  define b where "b = xu_idivi8 (drop_bit (s + 2) x) (sqrt_table ! i) + push_bit s (ucast (sqrt_table ! i))"
  have "drop_bit (s + 8) (drop_bit (s + 2) x) = drop_bit (2 * s + 10) x" by (simp add: drop_bit_drop_bit mult_2 ac_simps)
  then have "unat (drop_bit (s + 8) (drop_bit (s + 2) x)) = i" by (simp only: unat_drop i_def)
  moreover have "\<not> x < 255" "\<not> x < 2 ^ 12" "\<not> x < 2 ^ 14" using x(1) by (simp_all add: word_less_nat_alt)
  ultimately have e: "xu_isqrti_impl x = b - (if x < b * b then 1 else 0)"
    unfolding xu_isqrti_impl_def Let_def s_def [symmetric] b_def using assms by (simp only: if_False)
  have "(2 :: nat) ^ (s + 16) * 2 ^ (s + 2) = 2 ^ (2 * s + 2) * 2 ^ 16"
    by (simp only: power_add [symmetric] mult_2 ac_simps) simp
  then have "unat x < 2 ^ (s + 16) * 2 ^ (s + 2)" using xb(2) by (simp only:)
  then have "unat (drop_bit (s + 2) x) < 2 ^ (s + 16)" by (simp only: unat_drop div_less_iff_less_mult zero_less_power zero_less_numeral)
  moreover have "(2 :: nat) ^ (s + 16) \<le> 2 ^ 23" using ls(3) by (intro power_increasing) simp_all
  ultimately have c: "unat (drop_bit (s + 2) x) \<le> 16909558" by simp
  have w: "2 \<le> sqrt_table ! i" using t(1) by (simp add: word_le_def t_def)
  define q where "q = xu_idivi8 (drop_bit (s + 2) x) (sqrt_table ! i)"
  have "uint q = X div 2 ^ (s + 2) div t"
    using arg_cong [OF idivi8_value [OF w c], of int] by (simp add: q_def X_def t_def zdiv_int uint_drop)
  also have "\<dots> = X div (2 ^ (s + 2) * t)" using t(1) by (simp only: zdiv_zmult2_eq)
  also have "2 ^ (s + 2) * t = 2 * T" by (simp add: T_def P_def)
  finally have uq: "uint q = X div (2 * T)" .
  have "t * P \<le> 255 * 128" using t(1,2) P by (intro mult_mono) simp_all
  moreover have "0 \<le> t * P" using t(1) P by simp
  ultimately have tp: "0 \<le> t * P" "t * P \<le> 32640" by simp_all
  then have up: "uint (push_bit s (ucast (sqrt_table ! i) :: u32)) = t * P"
    by (subst unsigned_push_bit_eq) (simp add: uint_widen push_bit_eq_mult take_bit_int_eq_self t_def P_def)
  have "uint q = int (unat q)" by simp
  also have "unat q \<le> 16909558" using idivi8_value [OF w c] c unfolding q_def [symmetric] by (metis div_le_dividend le_trans)
  finally have "uint q + t * P < 2 ^ 32" using tp by simp
  then have ub: "uint b = t * P + X div (2 * T)"
  proof -
    have "b = q + push_bit s (ucast (sqrt_table ! i))" by (simp only: b_def q_def)
    moreover have "0 \<le> uint q" by simp
    moreover have "uint (q + push_bit s (ucast (sqrt_table ! i))) = (uint q + t * P) mod 2 ^ 32"
      by (simp only: uint_word_ariths(1) up) simp
    ultimately have "uint b = uint q + t * P" using \<open>uint q + t * P < 2 ^ 32\<close> tp(1) by (simp only: mod_pos_pos_trivial add_nonneg_nonneg)
    then show ?thesis using uq by simp
  qed
  have top: "uint b = 32640 + X div 130560" if "4294836225 \<le> X"
  proof -
    have "int (unat x) = X" by (simp add: X_def)
    then have X: "4294836225 \<le> unat x" using that by linarith
    have "s = 7"
    proof (rule ccontr)
      assume "s \<noteq> 7"
      then have "(2 :: nat) ^ (2 * s + 2) \<le> 2 ^ 14" using ls(3) by (intro power_increasing) simp_all
      then have "2 ^ (2 * s + 2) * 2 ^ 16 \<le> 2 ^ 14 * (2 :: nat) ^ 16" by (rule mult_right_mono) simp
      also have "\<dots> = 1073741824" by simp
      finally show False using X xb(2) by linarith
    qed
    then have "i = unat x div 16777216" by (simp add: i_def)
    moreover have "255 \<le> unat x div 16777216" using X by (simp add: less_eq_div_iff_mult_less_eq)
    ultimately have "i = 255" using i(2) by simp
    moreover have "uint (sqrt_table ! 255) = 255" by code_simp
    ultimately show ?thesis using ub \<open>s = 7\<close> by (simp add: T_def P_def t_def)
  qed
  have big: "x < 0xffff0000 \<longleftrightarrow> X < 4294901760" by (simp add: X_def word_less_def)
  have X32: "X < 4294967296" using uint_lt2p [of x] by (simp add: X_def)
  have half: "X div 130560 = 32896" if "4294901760 \<le> X"
    using that X32 by (intro int_div_pos_eq [where r = "X - 4294901760"]) simp_all
  show ?thesis
  proof (cases "uint b < 65536")
    case True
    then have "is_sqrt (unat (xu_isqrti_impl x)) (unat x)" unfolding e using near ub by (intro sqrt_fix) (simp_all add: X_def)
    moreover have "x < 0xffff0000" using True top half unfolding big by fastforce
    ultimately show ?thesis by simp
  next
    case False
    have n: "(uint b - 1) * (uint b - 1) \<le> X" using near ub by (simp add: near_root_def)
    have "uint b = 65536"
    proof (rule ccontr)
      assume "uint b \<noteq> 65536"
      then have "65536 * 65536 \<le> (uint b - 1) * (uint b - 1)" using False by (intro mult_mono) simp_all
      then show False using n X32 by simp
    qed
    then have b: "b = 65536" by (simp add: word_uint_eq_iff)
    have "4294836225 \<le> X" using n \<open>uint b = 65536\<close> by simp
    then have "\<not> X < 4294901760" using top \<open>uint b = 65536\<close> zdiv_mono1 [of X 4294901759 130560] by auto
    then have nx: "\<not> x < 0xffff0000" by (simp only: big not_False_eq_True)
    have "b * b = 0" unfolding b by code_simp
    then have "xu_isqrti_impl x = 65536" unfolding e by (simp add: b [symmetric] word_less_nat_alt)
    then show ?thesis using nx by simp
  qed
qed

subsection \<open>Bit by bit\<close>

text \<open>The root so far has the bits from \<open>k + 1\<close> on and the rest is what is left of the number.\<close>

definition sqrt64_inv :: "nat \<Rightarrow> nat \<Rightarrow> u64 \<Rightarrow> u64 \<Rightarrow> bool" where
  "sqrt64_inv X m x n \<longleftrightarrow> unat x + unat n * unat n = X \<and> X < (unat n + m) * (unat n + m) \<and> unat n + m \<le> 2 ^ 32"

lemma sqrt64_step:
  assumes inv: "sqrt64_inv X (2 ^ k + 2 ^ k) x n"
  defines "b \<equiv> push_bit k 1 :: u64" and "t \<equiv> push_bit k (push_bit 1 n + push_bit k 1)"
  shows "x \<ge> t \<Longrightarrow> sqrt64_inv X (2 ^ k) (x - t) (n + b)" and "\<not> x \<ge> t \<Longrightarrow> sqrt64_inv X (2 ^ k) x n"
proof -
  define N B where "N = unat n" and "B = (2 :: nat) ^ k"
  have x: "unat x + N * N = X" "X < (N + 2 * B) * (N + 2 * B)" "N + 2 * B \<le> 2 ^ 32"
    using inv by (simp_all add: sqrt64_inv_def N_def B_def mult_2)
  have "B < 2 ^ 32" using x(3) by (simp add: B_def)
  then have k: "k < 32" unfolding B_def by (simp only: power_strict_increasing_iff)
  then have "b = 2 ^ k" by (simp add: b_def push_bit_eq_mult)
  then have ub: "unat b = B" using unat_power_of_two [of k] k by (simp add: B_def)
  have "(N + B) * (N + B) \<le> 2 ^ 32 * 2 ^ 32" using x(3) by (intro mult_mono) simp_all
  moreover have "0 < B" by (simp add: B_def)
  then have "(N + B) * (N + B) < (N + 2 * B) * (N + 2 * B)" by (intro mult_strict_mono) simp_all
  moreover have "(N + 2 * B) * (N + 2 * B) \<le> 2 ^ 32 * 2 ^ 32" using x(3) by (intro mult_mono) simp_all
  moreover have sq: "(N + B) * (N + B) = N * N + (2 * N + B) * B" by (simp add: algebra_simps)
  ultimately have small: "(2 * N + B) * B < 2 ^ 64" by simp
  have "unat (push_bit 1 n + b) = 2 * N + B"
    using x(3) ub \<open>B < 2 ^ 32\<close> by (simp add: unat_word_ariths push_bit_eq_mult N_def mult.commute)
  then have ut: "unat t = (2 * N + B) * B"
    using small \<open>b = 2 ^ k\<close> ub unfolding t_def b_def [symmetric] by (simp add: push_bit_eq_mult unat_word_ariths)
  have nb: "unat (n + b) = N + B" using x(3) ub \<open>B < 2 ^ 32\<close> by (simp add: unat_word_ariths N_def)
  show "sqrt64_inv X (2 ^ k) (x - t) (n + b)" if "x \<ge> t"
  proof -
    have "(2 * N + B) * B \<le> unat x" using that ut by (simp add: word_le_nat_alt)
    then have "unat (x - t) + (N + B) * (N + B) = X" using that ut x(1) sq by (simp add: unat_sub)
    then show ?thesis using x nb by (simp add: sqrt64_inv_def B_def [symmetric] algebra_simps)
  qed
  show "sqrt64_inv X (2 ^ k) x n" if "\<not> x \<ge> t"
  proof -
    have "unat x < (2 * N + B) * B" using that ut by (simp add: word_le_nat_alt)
    then have "X < (N + B) * (N + B)" using x(1) sq by simp
    then show ?thesis using x by (simp add: sqrt64_inv_def B_def [symmetric] N_def [symmetric])
  qed
qed

declare isqrti64_loop.simps [simp del]

lemma isqrti64_loop_sqrt:
  "sqrt64_inv X (2 ^ k + 2 ^ k) x n \<Longrightarrow> is_sqrt (unat (isqrti64_loop k x n)) X \<and> unat (isqrti64_loop k x n) < 2 ^ 32"
proof (induction k arbitrary: x n)
  case 0
  show ?case using sqrt64_step [OF 0] 
    by (subst (1 2) isqrti64_loop.simps) (auto simp: sqrt64_inv_def is_sqrt_def Let_def)
next
  case (Suc k)
  define t b where "t = push_bit (Suc k) (push_bit 1 n + push_bit (Suc k) 1)" and "b = (push_bit (Suc k) 1 :: u64)"
  define x' n' where "x' = (if x \<ge> t then x - t else x)" and "n' = (if x \<ge> t then n + b else n)"
  have "sqrt64_inv X (2 ^ Suc k) x' n'"
    using sqrt64_step [OF Suc.prems] by (simp add: x'_def n'_def t_def b_def del: push_bit_Suc)
  then have "sqrt64_inv X (2 ^ k + 2 ^ k) x' n'" by (simp add: mult_2)
  moreover have "isqrti64_loop (Suc k) x n = isqrti64_loop k x' n'"
    by (subst isqrti64_loop.simps) (simp add: Let_def x'_def n'_def t_def b_def del: push_bit_Suc)
  ultimately show ?case using Suc.IH by simp
qed

lemma isqrti64_large:
  assumes "2 ^ 32 \<le> unat x"
  shows "is_sqrt (unat (xu_isqrti64 x)) (unat x)"
proof -
  have "unat x < 2 ^ 64" using unsigned_less [of x, where ?'a = nat] by simp
  then have "sqrt64_inv (unat x) (2 ^ 31 + 2 ^ 31) x 0" by (simp add: sqrt64_inv_def)
  then have r: "is_sqrt (unat (isqrti64_loop 31 x 0)) (unat x)" "unat (isqrti64_loop 31 x 0) < 2 ^ 32"
    using isqrti64_loop_sqrt by blast+
  have "unat (drop_bit 32 x) \<noteq> 0" using assms by (simp add: unat_drop div_eq_0_iff)
  then have "drop_bit 32 x \<noteq> 0" by (metis unsigned_0)
  then show ?thesis using r by (simp add: xu_isqrti64_def xu_isqrti64_impl_def unsigned_ucast_eq take_bit_nat_eq_self)
qed

lemma isqrti_root: "if z < 0xffff0000 then is_sqrt (unat (xu_isqrti z)) (unat z) else xu_isqrti z = 65536"
proof (cases "z < 2 ^ 16")
  case True
  then have "z < 0xffff0000" by (simp add: word_less_nat_alt)
  then show ?thesis using isqrti_small [of z] isqrti_blocks [of z] True by (auto simp: xu_isqrti_def)
qed (use isqrti_large [of z] in \<open>simp add: xu_isqrti_def\<close>)

section \<open>Properties\<close>

lemma align_pow2_least:
  assumes "unat x < 2 ^ 32"
  obtains k where "k \<le> 32" "unat (xu_align_pow2 x) = 2 ^ k" "unat x \<le> 2 ^ k" "\<And>j. unat x \<le> 2 ^ j \<Longrightarrow> k \<le> j"
proof -
  obtain k where k: "unat (xu_align_pow2 x) = 2 ^ k" "unat x \<le> 2 ^ k" "k \<le> 32" "1 < unat x \<Longrightarrow> 2 ^ k < 2 * unat x"
    "unat x \<le> 1 \<Longrightarrow> k = 0" by (rule align_pow2_value [OF assms], blast)
  have "k \<le> j" if j: "unat x \<le> 2 ^ j" for j
  proof (cases "1 < unat x")
    case True
    then have "(2 :: nat) ^ k < 2 ^ Suc j" using k(4) j by simp
    then show ?thesis using power_less_imp_less_exp [of "2 :: nat" k "Suc j"] by simp
  qed (use k(5) in simp)
  then show ?thesis using that k by blast
qed

text \<open>The factor of the divisor one has no room in 32 bits: the table has the factor below it.\<close>

lemma idivi8_one: "xu_idivi8 x 1 = (if x = 0 then 0 else x - 1)"
proof -
  have i: "uint (inverse_table ! unat (1 :: u8)) = 4294967295" by (simp add: inverse_table_def)
  define X where "X = uint x"
  have x: "0 \<le> X" "X < 4294967296" using uint_lt2p [of x] by (simp_all add: X_def)
  have "uint (xu_idivi8 x 1) = X * 4294967295 div 2 ^ 32" by (simp only: idivi8_product i X_def)
  also have "\<dots> = (if X = 0 then 0 else X - 1)" using x by simp arith
  also have "\<dots> = uint (if x = 0 then 0 else x - 1)"
  proof (cases "x = 0")
    case False
    then have "X \<noteq> 0" by (simp add: X_def uint_0_iff)
    then have "1 \<le> X" using x(1) by simp
    then have "uint 1 \<le> uint x" by (simp add: X_def)
    then have "uint (x - 1) = X - 1" using uint_sub_lem [of 1 x] by (simp add: X_def)
    then show ?thesis using False by (simp add: X_def uint_0_iff)
  qed (simp add: X_def)
  finally show ?thesis by (simp only: word_uint_eq_iff)
qed

text \<open>C29. For words that are neither zero nor all ones, the leading and trailing zeros are the distances of the highest
  and the lowest set bit, the first zero those of the complement, the logarithm is rounded down, and the alignment of a
  size of 32 bits is the smallest power of two that is not below it: the exponent is the least one that reaches the size,
  so that the sizes 0 and 1 are aligned to 1.\<close>

theorem xu_bits_counts_correct:
  fixes x :: u32 and y :: u64
  assumes "x \<noteq> 0" "NOT x \<noteq> 0" "y \<noteq> 0" "NOT y \<noteq> 0" "unat n < 2 ^ 32"
  shows "top_bit x (31 - xu_bits_cl0_u32_be_inline x) \<and> low_bit x (xu_bits_cl0_u32_le_inline x)
    \<and> top_bit y (63 - xu_bits_cl0_u64_be_inline y) \<and> low_bit y (xu_bits_cl0_u64_le_inline y)
    \<and> top_bit (NOT x) (31 - xu_bits_fb0_u32_be x) \<and> low_bit (NOT x) (xu_bits_fb0_u32_le x)
    \<and> top_bit (NOT y) (63 - xu_bits_fb0_u64_be y) \<and> low_bit (NOT y) (xu_bits_fb0_u64_le y)
    \<and> 2 ^ xu_ilog2i x \<le> unat x \<and> unat x < 2 ^ (xu_ilog2i x + 1)
    \<and> (\<exists>k \<le> 32. unat (xu_align_pow2 n) = 2 ^ k \<and> unat n \<le> 2 ^ k \<and> (\<forall>j. unat n \<le> 2 ^ j \<longrightarrow> k \<le> j))"
proof -
  have be: "top_bit z (31 - xu_bits_cl0_u32_be_inline z) \<and> low_bit z (xu_bits_cl0_u32_le_inline z)" if nz: "z \<noteq> 0" for z
  proof -
    obtain d where "top_bit z d" "d < 32" "xu_bits_cl0_u32_be_inline z = 31 - d" by (rule cl0_u32_be [OF nz])
    moreover obtain e where "low_bit z e" "xu_bits_cl0_u32_le_inline z = e" by (rule cl0_u32_le [OF nz])
    ultimately show ?thesis by simp
  qed
  have be64: "top_bit z (63 - xu_bits_cl0_u64_be_inline z) \<and> low_bit z (xu_bits_cl0_u64_le_inline z)" if nz: "z \<noteq> 0" for z
  proof -
    obtain d where "top_bit z d" "d < 64" "xu_bits_cl0_u64_be_inline z = 63 - d" by (rule cl0_u64_be [OF nz])
    moreover obtain e where "low_bit z e" "xu_bits_cl0_u64_le_inline z = e" by (rule cl0_u64_le [OF nz])
    ultimately show ?thesis by simp
  qed
  obtain k where k: "k \<le> 32" "unat (xu_align_pow2 n) = 2 ^ k" "unat n \<le> 2 ^ k" "\<And>j. unat n \<le> 2 ^ j \<Longrightarrow> k \<le> j"
    by (rule align_pow2_least [OF assms(5)], blast)
  have "1 \<le> unat x" using assms(1) by (simp add: Suc_le_eq unat_gt_0)
  then show ?thesis
    using assms be [OF assms(1)] be [OF assms(2)] be64 [OF assms(3)] be64 [OF assms(4)] ilog2i_bounds [of x] k
    by (auto simp: xu_bits_fb0_u32_be_def xu_bits_fb0_u32_le_def xu_bits_fb0_u64_be_def xu_bits_fb0_u64_le_def max_def)
qed

lemma xu_bits_counts_correct_witness:
  "top_bit (0x00f0 :: u32) (31 - xu_bits_cl0_u32_be_inline 0xf0) \<and> 31 - xu_bits_cl0_u32_be_inline 0xf0 = 7
   \<and> low_bit (2 ^ 40 :: u64) (xu_bits_cl0_u64_le_inline (2 ^ 40)) \<and> xu_bits_cl0_u64_le_inline (2 ^ 40) = 40
   \<and> xu_align_pow2 1000 = 1024"
proof -
  have e: "31 - xu_bits_cl0_u32_be_inline 0xf0 = 7" "xu_bits_cl0_u64_le_inline (2 ^ 40) = 40" "xu_align_pow2 1000 = 1024"
    by code_simp+
  have n: "(0xf0 :: u32) \<noteq> 0" "NOT (0xf0 :: u32) \<noteq> 0" "(2 ^ 40 :: u64) \<noteq> 0" "NOT (2 ^ 40 :: u64) \<noteq> 0" "unat (1000 :: u64) < 2 ^ 32"
    by simp_all
  show ?thesis using xu_bits_counts_correct [OF n] e by blast
qed

text \<open>C30. The division by a byte is exact for the divisors from 2 on and the numbers up to the bound its comment names; the
  divisor 1 takes one away from every number but 0, as its factor does not fit 32 bits. The square roots are
  the integer square roots, except that the last 65536 numbers of 32 bits have the root 65536,
  whose square is beyond the range.\<close>

theorem xu_integer_roots_correct:
  "(x < 0xffff0000 \<longrightarrow> is_sqrt (unat (xu_isqrti x)) (unat x)) \<and> (\<not> x < 0xffff0000 \<longrightarrow> xu_isqrti x = 65536)
   \<and> (y < 0xffff0000 \<or> 2 ^ 32 \<le> y \<longrightarrow> is_sqrt (unat (xu_isqrti64 y)) (unat y))
   \<and> (2 \<le> d \<and> x \<le> 16909558 \<longrightarrow> unat (xu_idivi8 x d) = unat x div unat d)
   \<and> xu_idivi8 x 1 = (if x = 0 then 0 else x - 1)"
proof -
  note root = isqrti_root
  have "is_sqrt (unat (xu_isqrti64 y)) (unat y)" if "y < 0xffff0000"
  proof -
    have y: "unat y < 0xffff0000" using that by (simp add: word_less_nat_alt)
    then have "unat (drop_bit 32 y) = 0" by (simp add: unat_drop)
    then have d: "drop_bit 32 y = 0" by (simp add: unat_eq_0)
    have u: "unat (ucast y :: u32) = unat y" using y by (simp add: unsigned_ucast_eq take_bit_nat_eq_self)
    then have "ucast y < (0xffff0000 :: u32)" using y by (simp add: word_less_nat_alt)
    then show ?thesis using root [of "ucast y"] d u by (simp add: xu_isqrti64_def xu_isqrti64_impl_def)
  qed
  moreover have "is_sqrt (unat (xu_isqrti64 y)) (unat y)" if "2 ^ 32 \<le> y"
    using isqrti64_large [of y] that by (simp add: word_le_nat_alt)
  ultimately show ?thesis using root [of x] idivi8_value [of d x] idivi8_one [of x] by (auto simp: word_le_nat_alt)
qed

lemma xu_integer_roots_correct_witness:
  "is_sqrt (unat (xu_isqrti 1000000)) 1000000 \<and> xu_isqrti 0xffffffff = 65536
   \<and> is_sqrt (unat (xu_isqrti64 (10 ^ 18))) (10 ^ 18) \<and> unat (xu_idivi8 1000 7) = 142
   \<and> xu_idivi8 5 1 = 4"
proof -
  have "is_sqrt (unat (xu_isqrti 1000000)) 1000000"
    using xu_integer_roots_correct [of 1000000 0 2] by simp
  moreover have "xu_isqrti 0xffffffff = 65536" using xu_integer_roots_correct [of "0xffffffff" 0 2] by simp
  moreover have "is_sqrt (unat (xu_isqrti64 (10 ^ 18))) (10 ^ 18)"
    using xu_integer_roots_correct [of 0 "10 ^ 18" 2] by simp
  moreover have "xu_idivi8 5 1 = 4" using xu_integer_roots_correct [of 5 0 2] by simp
  moreover have "unat (xu_idivi8 1000 7) = 142" using xu_integer_roots_correct [of 1000 0 7] by simp
  ultimately show ?thesis by blast
qed

end
