(* ===== verification/XElementHash.thy ===== *)
theory XElementHash
  imports XElement XCrc XDigest XBits
begin

text \<open>
  \<^verbatim>\<open>xutil/container/element/hash.c\<close> and the elements that containers hash: \<^verbatim>\<open>size.c\<close>,
  \<^verbatim>\<open>long.c\<close>, \<^verbatim>\<open>uint8.c\<close>, \<^verbatim>\<open>uint16.c\<close>, \<^verbatim>\<open>uint32.c\<close>, \<^verbatim>\<open>ptr.c\<close> and \<^verbatim>\<open>true.c\<close>. An element
  occupies one cell of a buffer, the element for true none; a hash is taken modulo a mask, and
  an index chooses among several functions.
\<close>

section \<open>Hash functions of values\<close>

subsection \<open>Bytes\<close>

text \<open>The local of the MD5 function before it is initialised.\<close>

definition md5_local :: md5 where
  "md5_local = \<lparr>md5_i0 = 0, md5_i1 = 0, md5_sp = (0, 0, 0, 0), md5_ip = replicate 64 0, md5_data = replicate 16 0\<rparr>"

definition hash_data_func_11 :: "u8 list \<Rightarrow> u64" where
  "hash_data_func_11 data =
     ucast (xu_bits_get_u32_le (the (snd (xu_md5_make md5_local (Some data) (Some (replicate 16 0))))) 0)"

text \<open>None when the SHA function does not return.\<close>

definition hash_data_func_12 :: "u8 list \<Rightarrow> u64 option" where
  "hash_data_func_12 data =
     map_option (\<lambda>(n, b). ucast (xu_bits_get_u32_le (the b) 0)) (xu_sha_make 160 (Some data) (Some (replicate 32 0)))"

definition xu_element_hash_data :: "u8 list \<Rightarrow> u64 \<Rightarrow> nat \<Rightarrow> u64 option" where
  "xu_element_hash_data data msk index =
     (if \<not> (data \<noteq> [] \<and> msk \<noteq> 0) then Some 0
      else if \<not> index < 16 then Some 0
      else map_option (\<lambda>h. h AND msk)
        ([Some (xu_bkdr_make (Some data) 0), Some (ucast (xu_adler32_make (Some data) 0)),
          Some (ucast (xu_fnv32_1a_make (Some data) 0)), Some (xu_ap_make (Some data) 0),
          Some (xu_murmur_make (Some data) 0), Some (ucast (xu_crc32_le_make (Some data) 0)),
          Some (ucast (xu_fnv32_make (Some data) 0)), Some (xu_djb2_make (Some data) 0),
          Some (xu_blizzard_make (Some data) 0), Some (xu_rs_make (Some data) 0),
          Some (xu_sdbm_make (Some data) 0), Some (hash_data_func_11 data), hash_data_func_12 data,
          Some 0, Some 0, Some 0] ! index))"

text \<open>A string up to its end.\<close>

definition xu_element_hash_cstr :: "u8 list \<Rightarrow> u64 \<Rightarrow> nat \<Rightarrow> u64 option" where
  "xu_element_hash_cstr cstr msk index =
     (if msk = 0 then Some 0
      else if index < 2 then
        Some ([xu_bkdr_make_from_cstr (Some cstr) 0, ucast (xu_fnv32_1a_make_from_cstr (Some cstr) 0)] ! index AND msk)
      else xu_element_hash_data cstr msk index)"

subsection \<open>Integers\<close>

definition xu_element_hash_uint8_func_1 :: "u8 \<Rightarrow> u64" where
  "xu_element_hash_uint8_func_1 value = drop_bit 16 (ucast value * 2654435761)"

definition xu_element_hash_uint16_func_0 :: "u16 \<Rightarrow> u64" where
  "xu_element_hash_uint16_func_0 value = drop_bit 16 (ucast value * 2654435761)"

definition xu_element_hash_uint32_func_0 :: "u32 \<Rightarrow> u64" where
  "xu_element_hash_uint32_func_0 value = drop_bit 16 (ucast value * 2654435761)"

definition xu_element_hash_uint32_func_1 :: "u32 \<Rightarrow> u64" where
  "xu_element_hash_uint32_func_1 value =
     (let value = (value + 0x7ed55d16) + push_bit 12 value;
          value = (value XOR 0xc761c23c) XOR drop_bit 19 value;
          value = (value + 0x165667b1) + push_bit 5 value;
          value = (value + 0xd3a2646c) XOR push_bit 9 value;
          value = (value + 0xfd7046c5) + push_bit 3 value;
          value = (value XOR 0xb55a4f09) XOR drop_bit 16 value
      in ucast value)"

definition xu_element_hash_uint32_func_2 :: "u32 \<Rightarrow> u64" where
  "xu_element_hash_uint32_func_2 value =
     (let value = NOT value + push_bit 15 value;
          value = value XOR drop_bit 12 value;
          value = value + push_bit 2 value;
          value = value XOR drop_bit 4 value;
          value = value * 2057;
          value = value XOR drop_bit 16 value
      in ucast value)"

definition xu_element_hash_uint64_func_0 :: "u64 \<Rightarrow> u64" where
  "xu_element_hash_uint64_func_0 value = drop_bit 16 (value * 2654435761)"

text \<open>From the fourth function on the bytes of the word are hashed, the lowest first.\<close>

definition xu_element_hash_uint32 :: "u32 \<Rightarrow> u64 \<Rightarrow> nat \<Rightarrow> u64 option" where
  "xu_element_hash_uint32 value msk index =
     (if msk = 0 then Some 0
      else if index < 3 then
        Some ([xu_element_hash_uint32_func_0 value, xu_element_hash_uint32_func_1 value,
          xu_element_hash_uint32_func_2 value] ! index AND msk)
      else xu_element_hash_data [ucast value, ucast (drop_bit 8 value), ucast (drop_bit 16 value), ucast (drop_bit 24 value)]
        msk (index - 3))"

definition xu_element_hash_uint8 :: "u8 \<Rightarrow> u64 \<Rightarrow> nat \<Rightarrow> u64 option" where
  "xu_element_hash_uint8 value msk index =
     (if msk = 0 then Some 0
      else if index < 2 then Some ([ucast value, xu_element_hash_uint8_func_1 value] ! index AND msk)
      else let v = (ucast value :: u32)
           in xu_element_hash_uint32 (v OR push_bit 8 v OR push_bit 16 v OR push_bit 24 v) msk (index - 1))"

definition xu_element_hash_uint16 :: "u16 \<Rightarrow> u64 \<Rightarrow> nat \<Rightarrow> u64 option" where
  "xu_element_hash_uint16 value msk index =
     (if msk = 0 then Some 0
      else if index < 1 then Some (xu_element_hash_uint16_func_0 value AND msk)
      else let v = (ucast value :: u32) in xu_element_hash_uint32 (v OR push_bit 16 v) msk index)"

definition xu_element_hash_uint64 :: "u64 \<Rightarrow> u64 \<Rightarrow> nat \<Rightarrow> u64 option" where
  "xu_element_hash_uint64 value msk index =
     (if index < 1 then Some (xu_element_hash_uint64_func_0 value AND msk)
      else case (xu_element_hash_uint32 (ucast value) msk index, xu_element_hash_uint32 (ucast (drop_bit 32 value)) msk index) of
        (Some hash0, Some hash1) \<Rightarrow> Some ((hash0 XOR hash1) AND msk)
      | _ \<Rightarrow> None)"

section \<open>Elements with a hash\<close>

text \<open>The size is counted in cells.\<close>

record hash_element = element +
  el_hash :: "u64 \<Rightarrow> u64 \<Rightarrow> nat \<Rightarrow> u64 option"
  el_size :: nat

definition xu_element_size_hash :: "u64 \<Rightarrow> u64 \<Rightarrow> nat \<Rightarrow> u64 option" where
  "xu_element_size_hash data msk index = xu_element_hash_uint64 data msk index"

definition hashed_size :: hash_element where
  "hashed_size = element.extend xu_element_size \<lparr>el_hash = xu_element_size_hash, el_size = 1\<rparr>"

definition hashed_long :: hash_element where
  "hashed_long = element.extend xu_element_long \<lparr>el_hash = xu_element_size_hash, el_size = 1\<rparr>"

subsection \<open>Words of 8 bits\<close>

definition xu_element_uint8_hash :: "u64 \<Rightarrow> u64 \<Rightarrow> nat \<Rightarrow> u64 option" where
  "xu_element_uint8_hash data msk index = xu_element_hash_uint8 (ucast data) msk index"

definition xu_element_uint8_comp :: "u64 \<Rightarrow> u64 \<Rightarrow> int" where
  "xu_element_uint8_comp ldata rdata =
     (if (ucast ldata :: u8) < ucast rdata then -1 else if (ucast ldata :: u8) > ucast rdata then 1 else 0)"

definition xu_element_uint8_data :: "u64 list \<Rightarrow> nat \<Rightarrow> u64" where
  "xu_element_uint8_data buff i = buff ! i"

definition xu_element_uint8_free :: "u64 list \<Rightarrow> nat \<Rightarrow> u64 list" where
  "xu_element_uint8_free buff i = buff[i := 0]"

definition xu_element_uint8_copy :: "u64 list \<Rightarrow> nat \<Rightarrow> u64 \<Rightarrow> u64 list" where
  "xu_element_uint8_copy buff i data = buff[i := ucast (ucast data :: u8)]"

definition xu_element_uint8_nfree :: "u64 list \<Rightarrow> nat \<Rightarrow> nat \<Rightarrow> u64 list" where
  "xu_element_uint8_nfree buff i n = (if n \<noteq> 0 then mem_fill buff i n 0 else buff)"

definition xu_element_uint8_ncopy :: "u64 list \<Rightarrow> nat \<Rightarrow> u64 \<Rightarrow> nat \<Rightarrow> u64 list" where
  "xu_element_uint8_ncopy buff i data n = mem_fill buff i n (ucast (ucast data :: u8))"

definition xu_element_uint8 :: hash_element where
  "xu_element_uint8 =
     \<lparr>el_comp = xu_element_uint8_comp, el_data = xu_element_uint8_data,
      el_free = Some xu_element_uint8_free, el_dupl = xu_element_uint8_copy,
      el_repl = xu_element_uint8_copy, el_copy = xu_element_uint8_copy,
      el_nfree = Some xu_element_uint8_nfree, el_ndupl = xu_element_uint8_ncopy,
      el_nrepl = xu_element_uint8_ncopy, el_hash = xu_element_uint8_hash, el_size = 1\<rparr>"

subsection \<open>Words of 16 bits\<close>

definition xu_element_uint16_hash :: "u64 \<Rightarrow> u64 \<Rightarrow> nat \<Rightarrow> u64 option" where
  "xu_element_uint16_hash data msk index = xu_element_hash_uint16 (ucast data) msk index"

definition xu_element_uint16_comp :: "u64 \<Rightarrow> u64 \<Rightarrow> int" where
  "xu_element_uint16_comp ldata rdata =
     (if (ucast ldata :: u16) < ucast rdata then -1 else if (ucast ldata :: u16) > ucast rdata then 1 else 0)"

definition xu_element_uint16_data :: "u64 list \<Rightarrow> nat \<Rightarrow> u64" where
  "xu_element_uint16_data buff i = buff ! i"

definition xu_element_uint16_free :: "u64 list \<Rightarrow> nat \<Rightarrow> u64 list" where
  "xu_element_uint16_free buff i = buff[i := 0]"

definition xu_element_uint16_copy :: "u64 list \<Rightarrow> nat \<Rightarrow> u64 \<Rightarrow> u64 list" where
  "xu_element_uint16_copy buff i data = buff[i := ucast (ucast data :: u16)]"

definition xu_element_uint16_nfree :: "u64 list \<Rightarrow> nat \<Rightarrow> nat \<Rightarrow> u64 list" where
  "xu_element_uint16_nfree buff i n = (if n \<noteq> 0 then mem_fill buff i n 0 else buff)"

definition xu_element_uint16_ncopy :: "u64 list \<Rightarrow> nat \<Rightarrow> u64 \<Rightarrow> nat \<Rightarrow> u64 list" where
  "xu_element_uint16_ncopy buff i data n = mem_fill buff i n (ucast (ucast data :: u16))"

definition xu_element_uint16 :: hash_element where
  "xu_element_uint16 =
     \<lparr>el_comp = xu_element_uint16_comp, el_data = xu_element_uint16_data,
      el_free = Some xu_element_uint16_free, el_dupl = xu_element_uint16_copy,
      el_repl = xu_element_uint16_copy, el_copy = xu_element_uint16_copy,
      el_nfree = Some xu_element_uint16_nfree, el_ndupl = xu_element_uint16_ncopy,
      el_nrepl = xu_element_uint16_ncopy, el_hash = xu_element_uint16_hash, el_size = 1\<rparr>"

subsection \<open>Words of 32 bits\<close>

definition xu_element_uint32_hash :: "u64 \<Rightarrow> u64 \<Rightarrow> nat \<Rightarrow> u64 option" where
  "xu_element_uint32_hash data msk index = xu_element_hash_uint32 (ucast data) msk index"

definition xu_element_uint32_comp :: "u64 \<Rightarrow> u64 \<Rightarrow> int" where
  "xu_element_uint32_comp ldata rdata =
     (if (ucast ldata :: u32) < ucast rdata then -1 else if (ucast ldata :: u32) > ucast rdata then 1 else 0)"

definition xu_element_uint32_data :: "u64 list \<Rightarrow> nat \<Rightarrow> u64" where
  "xu_element_uint32_data buff i = buff ! i"

definition xu_element_uint32_free :: "u64 list \<Rightarrow> nat \<Rightarrow> u64 list" where
  "xu_element_uint32_free buff i = buff[i := 0]"

definition xu_element_uint32_copy :: "u64 list \<Rightarrow> nat \<Rightarrow> u64 \<Rightarrow> u64 list" where
  "xu_element_uint32_copy buff i data = buff[i := ucast (ucast data :: u32)]"

definition xu_element_uint32_nfree :: "u64 list \<Rightarrow> nat \<Rightarrow> nat \<Rightarrow> u64 list" where
  "xu_element_uint32_nfree buff i n = (if n \<noteq> 0 then mem_fill buff i n 0 else buff)"

text \<open>The fill writes units of 16 bits, as many as there are elements.\<close>

definition xu_element_uint32_ncopy :: "u64 list \<Rightarrow> nat \<Rightarrow> u64 \<Rightarrow> nat \<Rightarrow> u64 list" where
  "xu_element_uint32_ncopy buff i data n =
     (let v = (ucast (ucast data :: u16) :: u64); k = i + n div 2;
          buff = mem_fill buff i (n div 2) (v OR push_bit 16 v)
      in if odd n then buff[k := (buff ! k AND 0xffff0000) OR v] else buff)"

definition xu_element_uint32 :: hash_element where
  "xu_element_uint32 =
     \<lparr>el_comp = xu_element_uint32_comp, el_data = xu_element_uint32_data,
      el_free = Some xu_element_uint32_free, el_dupl = xu_element_uint32_copy,
      el_repl = xu_element_uint32_copy, el_copy = xu_element_uint32_copy,
      el_nfree = Some xu_element_uint32_nfree, el_ndupl = xu_element_uint32_ncopy,
      el_nrepl = xu_element_uint32_ncopy, el_hash = xu_element_uint32_hash, el_size = 1\<rparr>"

subsection \<open>True\<close>

definition xu_element_true_hash :: "u64 \<Rightarrow> u64 \<Rightarrow> nat \<Rightarrow> u64 option" where
  "xu_element_true_hash data msk index = Some 0"

definition xu_element_true_comp :: "u64 \<Rightarrow> u64 \<Rightarrow> int" where
  "xu_element_true_comp ldata rdata = 0"

definition xu_element_true_data :: "u64 list \<Rightarrow> nat \<Rightarrow> u64" where
  "xu_element_true_data buff i = 1"

definition xu_element_true_free :: "u64 list \<Rightarrow> nat \<Rightarrow> u64 list" where
  "xu_element_true_free buff i = buff"

definition xu_element_true_nfree :: "u64 list \<Rightarrow> nat \<Rightarrow> nat \<Rightarrow> u64 list" where
  "xu_element_true_nfree buff i n = buff"

definition xu_element_true_repl :: "u64 list \<Rightarrow> nat \<Rightarrow> u64 \<Rightarrow> u64 list" where
  "xu_element_true_repl buff i data = buff"

definition xu_element_true_nrepl :: "u64 list \<Rightarrow> nat \<Rightarrow> u64 \<Rightarrow> nat \<Rightarrow> u64 list" where
  "xu_element_true_nrepl buff i data n = buff"

definition xu_element_true :: hash_element where
  "xu_element_true =
     \<lparr>el_comp = xu_element_true_comp, el_data = xu_element_true_data,
      el_free = Some xu_element_true_free, el_dupl = xu_element_true_repl,
      el_repl = xu_element_true_repl, el_copy = xu_element_true_repl,
      el_nfree = Some xu_element_true_nfree, el_ndupl = xu_element_true_nrepl,
      el_nrepl = xu_element_true_nrepl, el_hash = xu_element_true_hash, el_size = 0\<rparr>"

subsection \<open>Pointers\<close>

text \<open>Without a function of the user's own for freeing.\<close>

definition xu_element_ptr_comp :: "u64 \<Rightarrow> u64 \<Rightarrow> int" where
  "xu_element_ptr_comp ldata rdata = (if ldata < rdata then -1 else if ldata > rdata then 1 else 0)"

definition xu_element_ptr_data :: "u64 list \<Rightarrow> nat \<Rightarrow> u64" where
  "xu_element_ptr_data buff i = buff ! i"

definition xu_element_ptr_free :: "u64 list \<Rightarrow> nat \<Rightarrow> u64 list" where
  "xu_element_ptr_free buff i = buff[i := 0]"

definition xu_element_ptr_copy :: "u64 list \<Rightarrow> nat \<Rightarrow> u64 \<Rightarrow> u64 list" where
  "xu_element_ptr_copy buff i data = buff[i := data]"

definition xu_element_ptr_dupl :: "u64 list \<Rightarrow> nat \<Rightarrow> u64 \<Rightarrow> u64 list" where
  "xu_element_ptr_dupl buff i data = buff[i := data]"

definition xu_element_ptr_repl :: "u64 list \<Rightarrow> nat \<Rightarrow> u64 \<Rightarrow> u64 list" where
  "xu_element_ptr_repl buff i data = buff[i := data]"

definition xu_element_ptr_nfree :: "u64 list \<Rightarrow> nat \<Rightarrow> nat \<Rightarrow> u64 list" where
  "xu_element_ptr_nfree buff i n = (if n \<noteq> 0 then mem_fill buff i n 0 else buff)"

definition xu_element_ptr_ncopy :: "u64 list \<Rightarrow> nat \<Rightarrow> u64 \<Rightarrow> nat \<Rightarrow> u64 list" where
  "xu_element_ptr_ncopy buff i data n = (if n \<noteq> 0 then mem_fill buff i n data else buff)"

definition xu_element_ptr_ndupl :: "u64 list \<Rightarrow> nat \<Rightarrow> u64 \<Rightarrow> nat \<Rightarrow> u64 list" where
  "xu_element_ptr_ndupl buff i data n = xu_element_ptr_ncopy buff i data n"

definition xu_element_ptr_nrepl :: "u64 list \<Rightarrow> nat \<Rightarrow> u64 \<Rightarrow> nat \<Rightarrow> u64 list" where
  "xu_element_ptr_nrepl buff i data n = xu_element_ptr_ncopy (xu_element_ptr_nfree buff i n) i data n"

definition xu_element_ptr :: hash_element where
  "xu_element_ptr =
     \<lparr>el_comp = xu_element_ptr_comp, el_data = xu_element_ptr_data,
      el_free = Some xu_element_ptr_free, el_dupl = xu_element_ptr_dupl,
      el_repl = xu_element_ptr_repl, el_copy = xu_element_ptr_copy,
      el_nfree = Some xu_element_ptr_nfree, el_ndupl = xu_element_ptr_ndupl,
      el_nrepl = xu_element_ptr_nrepl, el_hash = xu_element_size_hash, el_size = 1\<rparr>"

end
