(* ===== verification/XHashMap.thy ===== *)
theory XHashMap
  imports XElementHash XMath XSearch
begin

text \<open>
  \<^verbatim>\<open>xutil/container/hash_map.c\<close> and \<^verbatim>\<open>hash_set.c\<close>. The table is a list of buckets, each
  none or an item list whose cells hold name and data of its items one behind the other, in the
  order of the names. Sizes are natural numbers. A position packs the bucket and the item, both
  counted from 1, and 0 is the tail. The allocators are parameters: \<open>malloc0 n\<close> answers \<open>n\<close> zero
  cells or none, \<open>ralloc\<close> as for the vector. The asserted preconditions of the iterator (a
  position of an item) are not tested in the release build.
\<close>

unbundle bit_operations_syntax

section \<open>Data\<close>

definition XU_HASH_MAP_BUCKET_SIZE_DEFAULT :: nat where "XU_HASH_MAP_BUCKET_SIZE_DEFAULT = 256"
definition XU_HASH_MAP_BUCKET_SIZE_LARGE :: nat where "XU_HASH_MAP_BUCKET_SIZE_LARGE = 65536"
definition XU_HASH_MAP_BUCKET_MAXN :: nat where "XU_HASH_MAP_BUCKET_MAXN = 2 ^ 16"

definition xu_hash_map_index_make :: "nat \<Rightarrow> nat \<Rightarrow> nat" where
  "xu_hash_map_index_make buck item = push_bit 32 (take_bit 32 item) OR take_bit 32 buck"

definition xu_hash_map_index_buck :: "nat \<Rightarrow> nat" where
  "xu_hash_map_index_buck index = take_bit 32 index"

definition xu_hash_map_index_item :: "nat \<Rightarrow> nat" where
  "xu_hash_map_index_item index = take_bit 32 (drop_bit 32 index)"

record item_list =
  il_size :: nat
  il_maxn :: nat
  il_cells :: "u64 list"

record hash_map =
  hm_list :: "item_list option list"
  hm_hash_size :: nat
  hm_item :: "u64 \<times> u64"
  hm_item_size :: nat
  hm_item_maxn :: nat
  hm_item_grow :: nat
  hm_name :: hash_element
  hm_data :: hash_element

definition hm_step :: "hash_map \<Rightarrow> nat" where
  "hm_step hm = el_size (hm_name hm) + el_size (hm_data hm)"

section \<open>Finding an item\<close>

text \<open>The search of a list: the last comparison and the place.\<close>

function item_search :: "(nat \<Rightarrow> int) \<Rightarrow> nat \<Rightarrow> nat \<Rightarrow> int \<Rightarrow> int \<times> nat" where
  "item_search cmpf l r t =
     (let m = (l + r) div 2 in
      if l < r then
        (let t = cmpf m in
         if t < 0 then item_search cmpf l m t else if t > 0 then item_search cmpf (m + 1) r t else (t, m))
      else (t, m))"
  by pat_completeness auto
termination by (relation "measure (\<lambda>(c, l, r, t). r - l)") auto

declare item_search.simps [simp del]

text \<open>Whether there is the name, the bucket and the place. The first hash function of an element
  always returns.\<close>

definition xu_hash_map_item_find :: "hash_map \<Rightarrow> u64 \<Rightarrow> bool \<times> nat \<times> nat" where
  "xu_hash_map_item_find hm name =
     (if hm_hash_size hm = 0 \<or> hm_step hm = 0 then (False, 0, 0)
      else let buck = unat (the (el_hash (hm_name hm) name (of_nat (hm_hash_size hm) - 1) 0))
        in if \<not> buck < hm_hash_size hm then (False, 0, 0)
        else case hm_list hm ! buck of
          None \<Rightarrow> (False, buck, 0)
        | Some il \<Rightarrow>
            if il_size il = 0 then (False, buck, 0)
            else case item_search
                (\<lambda>m. el_comp (hm_name hm) name (el_data (hm_name hm) (il_cells il) (m * hm_step hm))) 0 (il_size il) 1 of
              (t, m) \<Rightarrow> (t = 0, buck, m))"

definition xu_hash_map_item_at :: "hash_map \<Rightarrow> nat \<Rightarrow> nat \<Rightarrow> (u64 \<times> u64) option" where
  "xu_hash_map_item_at hm buck item =
     (if hm_hash_size hm = 0 \<or> \<not> buck < hm_hash_size hm \<or> hm_step hm = 0 then None
      else case hm_list hm ! buck of
        None \<Rightarrow> None
      | Some il \<Rightarrow>
          if item < il_size il then
            Some (el_data (hm_name hm) (il_cells il) (item * hm_step hm),
                  el_data (hm_data hm) (il_cells il) (item * hm_step hm + el_size (hm_name hm)))
          else None)"

section \<open>The iterator operations\<close>

definition xu_hash_map_itor_size :: "hash_map \<Rightarrow> nat" where
  "xu_hash_map_itor_size hm = hm_item_size hm"

text \<open>The first bucket with items from one on.\<close>

function first_bucket :: "hash_map \<Rightarrow> nat \<Rightarrow> nat" where
  "first_bucket hm i =
     (if i < hm_hash_size hm then
        (case hm_list hm ! i of
           Some il \<Rightarrow> if il_size il \<noteq> 0 then xu_hash_map_index_make (i + 1) 1 else first_bucket hm (i + 1)
         | None \<Rightarrow> first_bucket hm (i + 1))
      else 0)"
  by pat_completeness auto
termination by (relation "measure (\<lambda>(hm, i). hm_hash_size hm - i)") auto

declare first_bucket.simps [simp del]

definition xu_hash_map_itor_head :: "hash_map \<Rightarrow> nat" where
  "xu_hash_map_itor_head hm = first_bucket hm 0"

definition xu_hash_map_itor_tail :: "hash_map \<Rightarrow> nat" where
  "xu_hash_map_itor_tail hm = 0"

definition xu_hash_map_itor_next :: "hash_map \<Rightarrow> nat \<Rightarrow> nat" where
  "xu_hash_map_itor_next hm itor =
     (let buck = xu_hash_map_index_buck itor - 1; item = xu_hash_map_index_item itor - 1
      in case hm_list hm ! buck of
        Some il \<Rightarrow>
          if item + 1 < il_size il then xu_hash_map_index_make (buck + 1) (item + 2) else first_bucket hm (buck + 1)
      | None \<Rightarrow> first_bucket hm (buck + 1))"

text \<open>The item is kept in the table itself.\<close>

definition xu_hash_map_itor_item :: "hash_map \<Rightarrow> nat \<Rightarrow> hash_map \<times> (u64 \<times> u64) option" where
  "xu_hash_map_itor_item hm itor =
     (let buck = xu_hash_map_index_buck itor; item = xu_hash_map_index_item itor
      in if buck = 0 \<or> item = 0 then (hm, None)
      else case xu_hash_map_item_at hm (buck - 1) (item - 1) of
        Some x \<Rightarrow> (hm\<lparr>hm_item := x\<rparr>, Some x)
      | None \<Rightarrow> (hm, None))"

definition xu_hash_map_itor_copy :: "hash_map \<Rightarrow> nat \<Rightarrow> u64 \<Rightarrow> hash_map" where
  "xu_hash_map_itor_copy hm itor item =
     (let b = xu_hash_map_index_buck itor - 1; i = xu_hash_map_index_item itor - 1
      in case hm_list hm ! b of
        None \<Rightarrow> hm
      | Some il \<Rightarrow>
          if i < il_size il then
            hm\<lparr>hm_list := (hm_list hm)[b := Some (il\<lparr>il_cells :=
              el_copy (hm_data hm) (il_cells il) (i * hm_step hm + el_size (hm_name hm)) item\<rparr>)]\<rparr>
          else hm)"

definition xu_hash_map_itor_comp :: "hash_map \<Rightarrow> u64 \<times> u64 \<Rightarrow> u64 \<times> u64 \<Rightarrow> int" where
  "xu_hash_map_itor_comp hm lelement relement = el_comp (hm_name hm) (fst lelement) (fst relement)"

definition el_free_at :: "hash_element \<Rightarrow> u64 list \<Rightarrow> nat \<Rightarrow> u64 list" where
  "el_free_at e buff i = (case el_free e of Some f \<Rightarrow> f buff i | None \<Rightarrow> buff)"

definition item_free :: "hash_map \<Rightarrow> u64 list \<Rightarrow> nat \<Rightarrow> u64 list" where
  "item_free hm cells i =
     el_free_at (hm_data hm) (el_free_at (hm_name hm) cells (i * hm_step hm)) (i * hm_step hm + el_size (hm_name hm))"

definition xu_hash_map_itor_remove :: "hash_map \<Rightarrow> nat \<Rightarrow> hash_map" where
  "xu_hash_map_itor_remove hm itor =
     (let buck = xu_hash_map_index_buck itor - 1; item = xu_hash_map_index_item itor - 1; step = hm_step hm
      in case hm_list hm ! buck of
        None \<Rightarrow> hm
      | Some il \<Rightarrow>
          let cells = item_free hm (il_cells il) item;
              slot = (if il_size il > 1 then
                  let cells = (if item < il_size il - 1 then
                        mem_move cells (item * step) ((item + 1) * step) ((il_size il - item - 1) * step) else cells)
                  in Some (il\<lparr>il_cells := cells, il_size := il_size il - 1\<rparr>)
                else None)
          in hm\<lparr>hm_list := (hm_list hm)[buck := slot], hm_item_size := hm_item_size hm - 1\<rparr>)"

text \<open>One bucket of a range: the items from one on are removed, in the last bucket up to a tail.\<close>

definition nremove_bucket :: "hash_map \<Rightarrow> nat \<Rightarrow> nat \<Rightarrow> nat \<Rightarrow> nat \<Rightarrow> nat \<Rightarrow> hash_map" where
  "nremove_bucket hm buck item buck_last next' item_tail =
     (case hm_list hm ! buck of
        None \<Rightarrow> hm
      | Some il \<Rightarrow>
          let step = hm_step hm;
              tail = (if buck = buck_last \<and> next' \<noteq> 0 then item_tail else il_size il)
          in if il_size il = 0 \<or> \<not> item < tail then hm
          else let cells = fold (\<lambda>i c. item_free hm c i) [item..<tail] (il_cells il);
                   cells = (if buck = buck_last \<and> tail < il_size il then
                       mem_move cells (item * step) (tail * step) ((il_size il - tail) * step) else cells)
               in hm\<lparr>hm_list := (hm_list hm)[buck := Some (il\<lparr>il_cells := cells, il_size := il_size il - (tail - item)\<rparr>)],
                     hm_item_size := hm_item_size hm - (tail - item)\<rparr>)"

function nremove_loop :: "hash_map \<Rightarrow> nat \<Rightarrow> nat \<Rightarrow> nat \<Rightarrow> nat \<Rightarrow> nat \<Rightarrow> hash_map" where
  "nremove_loop hm buck item buck_last next' item_tail =
     (if buck \<le> buck_last then
        nremove_loop (nremove_bucket hm buck item buck_last next' item_tail) (buck + 1) 0 buck_last next' item_tail
      else hm)"
  by pat_completeness auto
termination by (relation "measure (\<lambda>(hm, b, i, l, n, t). l + 1 - b)") auto

declare nremove_loop.simps [simp del]

definition xu_hash_map_itor_nremove :: "hash_map \<Rightarrow> nat \<Rightarrow> nat \<Rightarrow> nat \<Rightarrow> hash_map" where
  "xu_hash_map_itor_nremove hm prev next' n =
     (if n = 0 then hm
      else let itor = (if prev \<noteq> 0 then xu_hash_map_itor_next hm prev else xu_hash_map_itor_head hm);
               buck_head = sz_sub (xu_hash_map_index_buck itor) 1; item_head = sz_sub (xu_hash_map_index_item itor) 1;
               (buck_last, item_tail) = (if next' \<noteq> 0
                 then (sz_sub (xu_hash_map_index_buck next') 1, sz_sub (xu_hash_map_index_item next') 1)
                 else (hm_hash_size hm - 1, 2 ^ 64 - 1))
           in nremove_loop hm buck_head item_head buck_last next' item_tail)"

text \<open>The table of the operations, with the item read in the state before its call.\<close>

definition hash_map_op :: "(hash_map, u64 \<times> u64) iterator_op" where
  "hash_map_op =
     \<lparr>op_mode = XU_ITERATOR_MODE_FORWARD OR XU_ITERATOR_MODE_MUTABLE, op_head = xu_hash_map_itor_head,
      op_tail = xu_hash_map_itor_tail, op_next = xu_hash_map_itor_next,
      op_item = (\<lambda>hm i. the (snd (xu_hash_map_itor_item hm i))), op_remove = xu_hash_map_itor_remove,
      op_nremove = xu_hash_map_itor_nremove\<rparr>"

section \<open>The operations of the map\<close>

text \<open>The frees of the items of a list are followed by the free of the list.\<close>

definition xu_hash_map_clear :: "hash_map \<Rightarrow> hash_map" where
  "xu_hash_map_clear hm =
     (if hm_step hm = 0 then hm
      else hm\<lparr>hm_list := replicate (hm_hash_size hm) None @ drop (hm_hash_size hm) (hm_list hm),
              hm_item_size := 0, hm_item_maxn := 0, hm_item := (0, 0)\<rparr>)"

text \<open>The arguments in front are the results of the allocations of the map and of its list.\<close>

definition xu_hash_map_init :: "bool \<Rightarrow> bool \<Rightarrow> nat \<Rightarrow> hash_element \<Rightarrow> hash_element \<Rightarrow> hash_map option" where
  "xu_hash_map_init self_ok list_ok bucket_size element_name element_data =
     (if el_size element_name = 0 then None
      else let bucket_size = (if bucket_size = 0 then XU_HASH_MAP_BUCKET_SIZE_DEFAULT else bucket_size)
        in if \<not> bucket_size \<le> XU_HASH_MAP_BUCKET_SIZE_LARGE then None
        else if \<not> self_ok then None
        else let hash_size = unat (xu_align_pow2 (of_nat bucket_size))
          in if \<not> hash_size \<le> XU_HASH_MAP_BUCKET_MAXN then None
          else if \<not> list_ok then None
          else let grow = unat (xu_isqrti (of_nat bucket_size));
                   grow = (if grow < 8 then 8 else grow);
                   grow = unat (xu_align_pow2 (of_nat grow))
               in Some \<lparr>hm_list = replicate hash_size None, hm_hash_size = hash_size, hm_item = (0, 0), hm_item_size = 0,
                        hm_item_maxn = 0, hm_item_grow = grow, hm_name = element_name, hm_data = element_data\<rparr>)"

definition xu_hash_map_get :: "hash_map \<Rightarrow> u64 \<Rightarrow> u64 option" where
  "xu_hash_map_get hm name =
     (case xu_hash_map_item_find hm name of (found, buck, item) \<Rightarrow>
        if \<not> found then None else map_option snd (xu_hash_map_item_at hm buck item))"

definition xu_hash_map_find :: "hash_map \<Rightarrow> u64 \<Rightarrow> nat" where
  "xu_hash_map_find hm name =
     (case xu_hash_map_item_find hm name of (found, buck, item) \<Rightarrow>
        if found then xu_hash_map_index_make (buck + 1) (item + 1) else 0)"

definition item_dupl :: "hash_map \<Rightarrow> u64 list \<Rightarrow> nat \<Rightarrow> u64 \<Rightarrow> u64 \<Rightarrow> u64 list" where
  "item_dupl hm cells i name data =
     el_dupl (hm_data hm) (el_dupl (hm_name hm) cells (i * hm_step hm) name)
       (i * hm_step hm + el_size (hm_name hm)) data"

text \<open>Room for one more item in a list that is attached, or none when it is refused.\<close>

definition list_grow :: "reallocator \<Rightarrow> hash_map \<Rightarrow> nat \<Rightarrow> item_list \<Rightarrow> (hash_map \<times> item_list) option" where
  "list_grow ralloc hm buck il =
     (if il_size il \<ge> il_maxn il then
        if hm_item_grow hm = 0 then None
        else let maxn = unat (xu_align_pow2 (of_nat (il_maxn il + hm_item_grow hm)))
          in if \<not> maxn > il_maxn il then None
          else case ralloc (Some (il_cells il)) (maxn * hm_step hm) of
            None \<Rightarrow> None
          | Some cells \<Rightarrow>
              let il' = il\<lparr>il_maxn := maxn, il_cells := cells\<rparr>
              in Some (hm\<lparr>hm_item_maxn := hm_item_maxn hm + (maxn - il_maxn il),
                          hm_list := (hm_list hm)[buck := Some il']\<rparr>, il')
      else Some (hm, il))"

definition xu_hash_map_insert ::
    "(nat \<Rightarrow> u64 list option) \<Rightarrow> reallocator \<Rightarrow> hash_map \<Rightarrow> u64 \<Rightarrow> u64 \<Rightarrow> nat \<times> hash_map" where
  "xu_hash_map_insert malloc0 ralloc hm name data =
     (if hm_step hm = 0 then (0, hm)
      else let step = hm_step hm in
        case xu_hash_map_item_find hm name of (found, buck, item) \<Rightarrow>
          if \<not> buck < hm_hash_size hm then (0, hm)
          else let index = xu_hash_map_index_make (buck + 1) (item + 1) in
            case hm_list hm ! buck of
              Some il \<Rightarrow>
                if found then
                  if \<not> item < il_size il then (0, hm)
                  else (index, hm\<lparr>hm_list := (hm_list hm)[buck := Some (il\<lparr>il_cells :=
                      el_repl (hm_data hm) (il_cells il) (item * step + el_size (hm_name hm)) data\<rparr>)]\<rparr>)
                else (case list_grow ralloc hm buck il of
                    None \<Rightarrow> (0, hm)
                  | Some (hm, il) \<Rightarrow>
                      if \<not> (item \<le> il_size il \<and> il_size il < il_maxn il) then (0, hm)
                      else let cells = (if item \<noteq> il_size il then
                                 mem_move (il_cells il) ((item + 1) * step) (item * step) ((il_size il - item) * step)
                               else il_cells il);
                               cells = item_dupl hm cells item name data
                           in (index, hm\<lparr>hm_list := (hm_list hm)[buck := Some (il\<lparr>il_size := il_size il + 1, il_cells := cells\<rparr>)],
                                         hm_item_size := hm_item_size hm + 1\<rparr>))
            | None \<Rightarrow>
                if found \<or> hm_item_grow hm = 0 then (0, hm)
                else (case malloc0 (hm_item_grow hm * step) of
                    None \<Rightarrow> (0, hm)
                  | Some cells \<Rightarrow>
                      let il = \<lparr>il_size = 1, il_maxn = hm_item_grow hm, il_cells = item_dupl hm cells 0 name data\<rparr>
                      in (index, hm\<lparr>hm_list := (hm_list hm)[buck := Some il], hm_item_maxn := hm_item_maxn hm + il_maxn il,
                                    hm_item_size := hm_item_size hm + 1\<rparr>)))"

definition xu_hash_map_remove :: "hash_map \<Rightarrow> u64 \<Rightarrow> hash_map" where
  "xu_hash_map_remove hm name =
     (case xu_hash_map_item_find hm name of (found, buck, item) \<Rightarrow>
        if found then xu_hash_map_itor_remove hm (xu_hash_map_index_make (buck + 1) (item + 1)) else hm)"

definition xu_hash_map_size :: "hash_map \<Rightarrow> nat" where
  "xu_hash_map_size hm = hm_item_size hm"

definition xu_hash_map_maxn :: "hash_map \<Rightarrow> nat" where
  "xu_hash_map_maxn hm = hm_item_maxn hm"

section \<open>The hash set\<close>

text \<open>A map to true whose iterator answers the names.\<close>

definition xu_hash_set_itor_item :: "hash_map \<Rightarrow> nat \<Rightarrow> hash_map \<times> u64 option" where
  "xu_hash_set_itor_item hs itor = (case xu_hash_map_itor_item hs itor of (hs, item) \<Rightarrow> (hs, map_option fst item))"

definition xu_hash_set_init :: "bool \<Rightarrow> bool \<Rightarrow> nat \<Rightarrow> hash_element \<Rightarrow> hash_map option" where
  "xu_hash_set_init self_ok list_ok bucket_size element = xu_hash_map_init self_ok list_ok bucket_size element xu_element_true"

definition hash_set_op :: "(hash_map, u64) iterator_op" where
  "hash_set_op =
     \<lparr>op_mode = op_mode hash_map_op, op_head = op_head hash_map_op, op_tail = op_tail hash_map_op,
      op_next = op_next hash_map_op, op_item = (\<lambda>hs i. the (snd (xu_hash_set_itor_item hs i))),
      op_remove = op_remove hash_map_op, op_nremove = op_nremove hash_map_op\<rparr>"

definition xu_hash_set_clear :: "hash_map \<Rightarrow> hash_map" where
  "xu_hash_set_clear hs = xu_hash_map_clear hs"

text \<open>A null pointer is false.\<close>

definition xu_hash_set_get :: "hash_map \<Rightarrow> u64 \<Rightarrow> bool" where
  "xu_hash_set_get hs data = (case xu_hash_map_get hs data of Some p \<Rightarrow> p \<noteq> 0 | None \<Rightarrow> False)"

definition xu_hash_set_find :: "hash_map \<Rightarrow> u64 \<Rightarrow> nat" where
  "xu_hash_set_find hs data = xu_hash_map_find hs data"

definition xu_hash_set_insert ::
    "(nat \<Rightarrow> u64 list option) \<Rightarrow> reallocator \<Rightarrow> hash_map \<Rightarrow> u64 \<Rightarrow> nat \<times> hash_map" where
  "xu_hash_set_insert malloc0 ralloc hs data = xu_hash_map_insert malloc0 ralloc hs data 1"

definition xu_hash_set_remove :: "hash_map \<Rightarrow> u64 \<Rightarrow> hash_map" where
  "xu_hash_set_remove hs data = xu_hash_map_remove hs data"

definition xu_hash_set_size :: "hash_map \<Rightarrow> nat" where
  "xu_hash_set_size hs = xu_hash_map_size hs"

definition xu_hash_set_maxn :: "hash_map \<Rightarrow> nat" where
  "xu_hash_set_maxn hs = xu_hash_map_maxn hs"

end
