(* ===== verification/XHashMapCorrect.thy ===== *)
theory XHashMapCorrect
  imports XHashMap XMathCorrect XSearchCorrect
begin

text \<open>
  The hash map implements a finite map from the names to the data, as the elements keep them: every
  bucket holds the names with its hash in strict order, the counters are right, and inserting,
  removing and clearing are the updates of the map.
\<close>

section \<open>The contract of elements\<close>

text \<open>An element that writes a value into its cells reads it back, up to what its cells can hold, and
  touches no other cell.\<close>

definition puts :: "hash_element \<Rightarrow> (u64 \<Rightarrow> u64) \<Rightarrow> (u64 list \<Rightarrow> nat \<Rightarrow> u64 \<Rightarrow> u64 list) \<Rightarrow> bool" where
  "puts e norm put \<longleftrightarrow> (\<forall>buff i v. length (put buff i v) = length buff
     \<and> (\<forall>j < length buff. \<not> (i \<le> j \<and> j < i + el_size e) \<longrightarrow> put buff i v ! j = buff ! j)
     \<and> (i + el_size e \<le> length buff \<longrightarrow> el_data e (put buff i v) i = norm v))"

locale hash_cell =
  fixes e :: hash_element and norm :: "u64 \<Rightarrow> u64"
  assumes data_local: "(\<And>k. k < el_size e \<Longrightarrow> buff ! (i + k) = buff' ! (i' + k)) \<Longrightarrow> el_data e buff i = el_data e buff' i'"
    and dupl: "puts e norm (el_dupl e)"
    and repl: "puts e norm (el_repl e)"
    and copy: "puts e norm (el_copy e)"
    and free_length: "length (el_free_at e buff i) = length buff"
    and free_frame: "j < length buff \<Longrightarrow> \<not> (i \<le> j \<and> j < i + el_size e) \<Longrightarrow> el_free_at e buff i ! j = buff ! j"
    and norm_norm: "norm (norm v) = norm v"

locale hash_key = hash_cell + comparator "el_comp e" +
  assumes size_pos: "0 < el_size e"
    and comp_eq: "el_comp e a b = 0 \<longleftrightarrow> norm a = norm b"
    and comp_norm: "el_comp e (norm a) (norm b) = el_comp e a b"
    and hash_norm: "el_hash e (norm a) m 0 = el_hash e a m 0"
    and hash_below: "\<exists>h. el_hash e a m 0 = Some h \<and> h \<le> m"
begin

lemma comp_normed: "norm a = norm a' \<Longrightarrow> norm b = norm b' \<Longrightarrow> el_comp e a b = el_comp e a' b'"
  by (metis comp_norm)

lemma comp_less_trans: "el_comp e a b < 0 \<Longrightarrow> el_comp e b c < 0 \<Longrightarrow> el_comp e a c < 0"
  using comp_neg_trans comp_neg_le by blast

end

text \<open>The elements that keep their value in a cell.\<close>

lemma puts_cell:
  assumes "el_size e = 1" and "\<And>buff i. el_data e buff i = buff ! i"
  shows "puts e f (\<lambda>buff i v. buff[i := f v])"
  using assms by (auto simp: puts_def nth_list_update)

definition low8 :: "u64 \<Rightarrow> u64" where "low8 v = ucast (ucast v :: u8)"
definition low16 :: "u64 \<Rightarrow> u64" where "low16 v = ucast (ucast v :: u16)"
definition low32 :: "u64 \<Rightarrow> u64" where "low32 v = ucast (ucast v :: u32)"

lemma low_ucast:
  "(ucast (low8 v) :: u8) = ucast v" "(ucast (low16 v) :: u16) = ucast v" "(ucast (low32 v) :: u32) = ucast v"
  by (rule bit_word_eqI, simp add: low8_def low16_def low32_def bit_simps)+

lemma low_low: "low8 (low8 v) = low8 v" "low16 (low16 v) = low16 v" "low32 (low32 v) = low32 v"
  by (metis low8_def low_ucast(1), metis low16_def low_ucast(2), metis low32_def low_ucast(3))

lemma low_eq_iff:
  "low8 a = low8 b \<longleftrightarrow> (ucast a :: u8) = ucast b" "low16 a = low16 b \<longleftrightarrow> (ucast a :: u16) = ucast b"
  "low32 a = low32 b \<longleftrightarrow> (ucast a :: u32) = ucast b"
  by (metis low_ucast low8_def, metis low_ucast low16_def, metis low_ucast low32_def)

lemma below_mask: "(h AND m :: u64) \<le> m"
  by (rule word_and_le1)

text \<open>The first hash of a word is a value under the mask.\<close>

lemma first_hashes:
  "xu_element_hash_uint8 a m 0 = Some (if m = 0 then 0 else ucast a AND m)"
  "xu_element_hash_uint16 b m 0 = Some (if m = 0 then 0 else xu_element_hash_uint16_func_0 b AND m)"
  "xu_element_hash_uint32 c m 0 = Some (if m = 0 then 0 else xu_element_hash_uint32_func_0 c AND m)"
  "xu_element_hash_uint64 d m 0 = Some (xu_element_hash_uint64_func_0 d AND m)"
  by (simp_all add: xu_element_hash_uint8_def xu_element_hash_uint16_def xu_element_hash_uint32_def xu_element_hash_uint64_def)

lemmas element_defs = hashed_size_def hashed_long_def xu_element_size_def xu_element_long_def element.extend_def
  xu_element_uint8_def xu_element_uint16_def xu_element_uint32_def xu_element_ptr_def xu_element_true_def

lemmas element_cells = xu_element_size_data_def xu_element_size_free_def xu_element_size_copy_def
  xu_element_long_data_def xu_element_long_free_def xu_element_long_copy_def
  xu_element_uint8_data_def xu_element_uint8_free_def xu_element_uint8_copy_def
  xu_element_uint16_data_def xu_element_uint16_free_def xu_element_uint16_copy_def
  xu_element_uint32_data_def xu_element_uint32_free_def xu_element_uint32_copy_def
  xu_element_ptr_data_def xu_element_ptr_free_def xu_element_ptr_copy_def xu_element_ptr_dupl_def xu_element_ptr_repl_def
  xu_element_true_data_def xu_element_true_free_def xu_element_true_repl_def

lemmas element_comps = xu_element_size_comp_def xu_element_long_comp_def xu_element_ptr_comp_def
  xu_element_uint8_comp_def xu_element_uint16_comp_def xu_element_uint32_comp_def

lemmas element_hashes = xu_element_size_hash_def xu_element_uint8_hash_def xu_element_uint16_hash_def
  xu_element_uint32_hash_def first_hashes low_ucast

lemma cell_law:
  assumes "el_size e = 1" "el_data e = (\<lambda>buff i. buff ! i)" "el_free e = Some (\<lambda>buff i. buff[i := 0])"
    and "el_dupl e = (\<lambda>buff i v. buff[i := f v])" "el_repl e = el_dupl e" "el_copy e = el_dupl e"
    and "\<And>v. f (f v) = f v"
  shows "hash_cell e f"
proof (rule hash_cell.intro)
  show "el_data e buff i = el_data e buff' i'" if "\<And>k. k < el_size e \<Longrightarrow> buff ! (i + k) = buff' ! (i' + k)" for buff buff' i i'
    using that [of 0] assms(1,2) by simp
  show "puts e f (el_dupl e)" "puts e f (el_repl e)" "puts e f (el_copy e)"
    using puts_cell [of e f] assms(1,2,4-6) by simp_all
qed (use assms in \<open>auto simp: el_free_at_def nth_list_update\<close>)

lemma cell_laws:
  "hash_cell hashed_size id" "hash_cell hashed_long id" "hash_cell xu_element_ptr id"
  "hash_cell xu_element_uint8 low8" "hash_cell xu_element_uint16 low16" "hash_cell xu_element_uint32 low32"
  by (rule cell_law; simp add: element_defs element_cells fun_eq_iff low_low; simp add: low8_def low16_def low32_def)+

lemma true_law: "hash_cell xu_element_true (\<lambda>_. 1)"
  by (rule hash_cell.intro) (simp_all add: element_defs element_cells puts_def el_free_at_def)

lemma key_law:
  assumes "hash_cell e f" "el_size e = 1" "el_comp e = (\<lambda>a b. if r a < (r b :: 'a::linorder) then -1 else if r a > r b then 1 else 0)"
    and "\<And>a b. r a = r b \<longleftrightarrow> f a = f b" "\<And>a m. el_hash e (f a) m 0 = el_hash e a m 0"
    and "\<And>a m. \<exists>h. el_hash e a m 0 = Some h \<and> h \<le> m"
  shows "hash_key e f"
proof -
  have "r (f a) = r a" for a using assms(4) hash_cell.norm_norm [OF assms(1)] by blast
  moreover have "comparator (el_comp e)"
    by unfold_locales (auto simp: assms(3) split: if_splits)
  moreover have "el_comp e a b = 0 \<longleftrightarrow> f a = f b" for a b
    by (auto simp: assms(3) assms(4) [symmetric])
  ultimately show ?thesis
    by (intro hash_key.intro hash_key_axioms.intro assms(1)) (use assms(2,3,5,6) in simp_all)
qed

lemma first_hash_below: "(if m = 0 then 0 else v AND m) \<le> (m :: u64)"
  by (simp add: below_mask)

lemmas key_simps = element_defs element_comps element_hashes below_mask first_hash_below low_eq_iff fun_eq_iff

lemma key_size: "hash_key hashed_size id"
  by (rule key_law [OF cell_laws(1), of id]) (simp_all add: key_simps)

lemma key_long: "hash_key hashed_long id"
  by (rule key_law [OF cell_laws(2), of sint]) (simp_all add: key_simps, metis signed_word_eqI)

lemma key_ptr: "hash_key xu_element_ptr id"
  by (rule key_law [OF cell_laws(3), of id]) (simp_all add: key_simps)

lemma key_uint8: "hash_key xu_element_uint8 low8"
  by (rule key_law [OF cell_laws(4), of "\<lambda>a. ucast a :: u8"]) (simp_all add: key_simps)

lemma key_uint16: "hash_key xu_element_uint16 low16"
  by (rule key_law [OF cell_laws(5), of "\<lambda>a. ucast a :: u16"]) (simp_all add: key_simps)

lemma key_uint32: "hash_key xu_element_uint32 low32"
  by (rule key_law [OF cell_laws(6), of "\<lambda>a. ucast a :: u32"]) (simp_all add: key_simps)

section \<open>The items of a map\<close>

definition item_of :: "hash_map \<Rightarrow> u64 list \<Rightarrow> nat \<Rightarrow> u64 \<times> u64" where
  "item_of hm cells i = (el_data (hm_name hm) cells (i * hm_step hm),
     el_data (hm_data hm) cells (i * hm_step hm + el_size (hm_name hm)))"

definition list_items :: "hash_map \<Rightarrow> item_list \<Rightarrow> (u64 \<times> u64) list" where
  "list_items hm il = map (item_of hm (il_cells il)) [0..<il_size il]"

definition slot_items :: "hash_map \<Rightarrow> item_list option \<Rightarrow> (u64 \<times> u64) list" where
  "slot_items hm slot = (case slot of None \<Rightarrow> [] | Some il \<Rightarrow> list_items hm il)"

definition hm_items :: "hash_map \<Rightarrow> (u64 \<times> u64) list" where
  "hm_items hm = concat (map (slot_items hm) (hm_list hm))"

definition hm_map :: "hash_map \<Rightarrow> u64 \<rightharpoonup> u64" where
  "hm_map hm = map_of (hm_items hm)"

definition hm_bucket :: "hash_map \<Rightarrow> u64 \<Rightarrow> nat" where
  "hm_bucket hm name = unat (the (el_hash (hm_name hm) name (of_nat (hm_hash_size hm) - 1) 0))"

definition slot_maxn :: "item_list option \<Rightarrow> nat" where
  "slot_maxn slot = (case slot of None \<Rightarrow> 0 | Some il \<Rightarrow> il_maxn il)"

text \<open>A list has room for its items, all of its bucket, in the strict order of their names.\<close>

definition list_ok :: "hash_map \<Rightarrow> (u64 \<Rightarrow> u64) \<Rightarrow> nat \<Rightarrow> item_list \<Rightarrow> bool" where
  "list_ok hm norm b il \<longleftrightarrow> il_size il \<le> il_maxn il \<and> il_size il \<le> 2 ^ 31 \<and> il_maxn il \<le> 2 ^ 32
     \<and> length (il_cells il) = il_maxn il * hm_step hm
     \<and> sorted_wrt (\<lambda>x y. el_comp (hm_name hm) (fst x) (fst y) < 0) (list_items hm il)
     \<and> (\<forall>x \<in> set (list_items hm il). norm (fst x) = fst x \<and> hm_bucket hm (fst x) = b)"

definition slot_ok :: "hash_map \<Rightarrow> (u64 \<Rightarrow> u64) \<Rightarrow> nat \<Rightarrow> item_list option \<Rightarrow> bool" where
  "slot_ok hm norm b slot \<longleftrightarrow> (case slot of None \<Rightarrow> True | Some il \<Rightarrow> list_ok hm norm b il)"

definition hm_inv :: "hash_map \<Rightarrow> (u64 \<Rightarrow> u64) \<Rightarrow> bool" where
  "hm_inv hm norm \<longleftrightarrow> length (hm_list hm) = hm_hash_size hm \<and> 0 < hm_hash_size hm \<and> hm_hash_size hm \<le> 2 ^ 16
     \<and> 0 < hm_item_grow hm \<and> hm_item_grow hm \<le> 256
     \<and> (\<forall>b < hm_hash_size hm. slot_ok hm norm b (hm_list hm ! b))
     \<and> hm_item_size hm = length (hm_items hm)
     \<and> sum_list (map slot_maxn (hm_list hm)) \<le> hm_item_maxn hm"

text \<open>Updates that keep what the items are made of.\<close>

lemma hm_step_update [simp]:
  "hm_step (hm\<lparr>hm_list := l\<rparr>) = hm_step hm" "hm_step (hm\<lparr>hm_item_size := n\<rparr>) = hm_step hm"
  "hm_step (hm\<lparr>hm_item_maxn := n\<rparr>) = hm_step hm" "hm_step (hm\<lparr>hm_item := x\<rparr>) = hm_step hm"
  by (simp_all add: hm_step_def)

definition same_table :: "hash_map \<Rightarrow> hash_map \<Rightarrow> bool" where
  "same_table hm hm' \<longleftrightarrow> hm_name hm' = hm_name hm \<and> hm_data hm' = hm_data hm \<and> hm_hash_size hm' = hm_hash_size hm
     \<and> hm_item_grow hm' = hm_item_grow hm"

lemma same_table:
  assumes "same_table hm hm'"
  shows "hm_step hm' = hm_step hm" "item_of hm' = item_of hm" "list_items hm' = list_items hm"
    "slot_items hm' = slot_items hm" "item_dupl hm' = item_dupl hm" "hm_bucket hm' = hm_bucket hm" "list_ok hm' = list_ok hm" "slot_ok hm' = slot_ok hm"
proof -
  note st = assms [unfolded same_table_def]
  show 1: "hm_step hm' = hm_step hm" using st by (simp add: hm_step_def)
  show 2: "item_of hm' = item_of hm" using st 1 by (simp add: item_of_def fun_eq_iff)
  show 3: "list_items hm' = list_items hm" using 2 by (simp add: list_items_def fun_eq_iff)
  show "slot_items hm' = slot_items hm" by (intro ext) (simp only: slot_items_def 3)
  show "item_dupl hm' = item_dupl hm" using st 1 by (simp add: item_dupl_def fun_eq_iff)
  show 4: "hm_bucket hm' = hm_bucket hm" using st by (simp add: hm_bucket_def fun_eq_iff)
  show 5: "list_ok hm' = list_ok hm" using st 1 3 4 by (simp add: list_ok_def fun_eq_iff)
  show "slot_ok hm' = slot_ok hm" by (intro ext) (simp only: slot_ok_def 5)
qed

lemma length_list_items [simp]: "length (list_items hm il) = il_size il"
  by (simp add: list_items_def)

lemma nth_list_items [simp]: "i < il_size il \<Longrightarrow> list_items hm il ! i = item_of hm (il_cells il) i"
  by (simp add: list_items_def)

lemma slot_items_simps [simp]: "slot_items hm None = []" "slot_items hm (Some il) = list_items hm il"
  "slot_maxn None = 0" "slot_maxn (Some il) = il_maxn il"
  "slot_ok hm norm b None" "slot_ok hm norm b (Some il) \<longleftrightarrow> list_ok hm norm b il"
  by (simp_all add: slot_items_def slot_maxn_def slot_ok_def)

text \<open>The maps of the buckets do not overlap.\<close>

lemma map_of_buckets:
  assumes "\<And>b x. b < length xs \<Longrightarrow> x \<in> set (xs ! b) \<Longrightarrow> h (fst x) = b"
  shows "map_of (concat xs) k = (if h k < length xs then map_of (xs ! h k) k else None)"
  using assms
proof (induction xs rule: rev_induct)
  case (snoc ys xs)
  have "map_of (concat xs) k = (if h k < length xs then map_of (xs ! h k) k else None)"
    by (rule snoc.IH) (use snoc.prems in \<open>force simp: nth_append\<close>)
  moreover have "map_of ys k = None" if "h k \<noteq> length xs"
    using snoc.prems [of "length xs"] that by (force simp: map_of_eq_None_iff)
  ultimately show ?case by (auto simp: nth_append map_add_def split: option.splits)
qed simp

lemma map_of_insert_at:
  assumes "k \<notin> fst ` set xs"
  shows "map_of (take m xs @ (k, v) # drop m xs) = (map_of xs)(k \<mapsto> v)"
proof -
  have n: "map_of (take m xs) k = None" "map_of (drop m xs) k = None"
    using assms by (auto simp: map_of_eq_None_iff dest: in_set_takeD in_set_dropD)
  have "map_of xs = map_of (drop m xs) ++ map_of (take m xs)" by (metis append_take_drop_id map_of_append)
  then show ?thesis using n by (auto simp: map_add_def fun_eq_iff split: option.splits)
qed

lemma map_of_remove_at:
  assumes "distinct (map fst xs)" and "m < length xs"
  shows "map_of (take m xs @ drop (m + 1) xs) = (map_of xs)(fst (xs ! m) := None)"
proof -
  let ?k = "fst (xs ! m)"
  have xs: "xs = take m xs @ xs ! m # drop (m + 1) xs" using assms(2) by (simp add: id_take_nth_drop)
  have d: "distinct (map fst (take m xs @ xs ! m # drop (m + 1) xs))" using assms(1) xs by metis
  then have "map_of (take m xs) ?k = None" "map_of (drop (m + 1) xs) ?k = None" by (auto simp: map_of_eq_None_iff)
  moreover have "map_of xs = (map_of (drop (m + 1) xs))(?k \<mapsto> snd (xs ! m)) ++ map_of (take m xs)"
    by (subst xs) (cases "xs ! m", simp)
  ultimately show ?thesis by (auto simp: map_add_def fun_eq_iff split: option.splits)
qed

lemma map_of_update_at:
  assumes "distinct (map fst xs)" and "m < length xs"
  shows "map_of (xs[m := (fst (xs ! m), v)]) = (map_of xs)(fst (xs ! m) \<mapsto> v)"
proof -
  let ?k = "fst (xs ! m)"
  have xs: "xs = take m xs @ xs ! m # drop (m + 1) xs" using assms(2) by (simp add: id_take_nth_drop)
  have d: "distinct (map fst (take m xs @ xs ! m # drop (m + 1) xs))" using assms(1) xs by metis
  then have "map_of (take m xs) ?k = None" "map_of (drop (m + 1) xs) ?k = None" by (auto simp: map_of_eq_None_iff)
  moreover have "map_of xs = (map_of (drop (m + 1) xs))(?k \<mapsto> snd (xs ! m)) ++ map_of (take m xs)"
    by (subst xs) (cases "xs ! m", simp)
  moreover have "xs[m := (?k, v)] = take m xs @ (?k, v) # drop (m + 1) xs" using assms(2) by (simp add: upd_conv_take_nth_drop)
  ultimately show ?thesis by (auto simp: map_add_def fun_eq_iff split: option.splits)
qed

section \<open>Positions\<close>

text \<open>The places of the items of a list of buckets, one behind the other.\<close>

definition start :: "'a list list \<Rightarrow> nat \<Rightarrow> nat" where
  "start xs b = length (concat (take b xs))"

lemma start_simps: "start xs 0 = 0" "length xs \<le> b \<Longrightarrow> start xs b = length (concat xs)"
  "b < length xs \<Longrightarrow> start xs (Suc b) = start xs b + length (xs ! b)"
  by (simp_all add: start_def take_Suc_conv_app_nth)

lemma start_mono: "b \<le> c \<Longrightarrow> start xs b \<le> start xs c"
proof -
  assume "b \<le> c"
  then have "take c xs = take b xs @ take (c - b) (drop b xs)" by (metis le_add_diff_inverse take_add)
  then show ?thesis by (simp add: start_def)
qed

lemma start_less: "b < c \<Longrightarrow> b < length xs \<Longrightarrow> start xs b + length (xs ! b) \<le> start xs c"
  using start_mono [of "Suc b" c xs] start_simps(3) [of b xs] by simp

lemma concat_locate:
  assumes "i < length (concat xs)"
  obtains b m where "b < length xs" "m < length (xs ! b)" "i = start xs b + m"
  using assms
proof (induction xs arbitrary: i thesis)
  case (Cons x xs)
  show ?case
  proof (cases "i < length x")
    case True
    then show ?thesis using Cons.prems(1) [of 0 i] by (simp add: start_def)
  next
    case False
    then have "i - length x < length (concat xs)" using Cons.prems(2) by simp
    then obtain b m where "b < length xs" "m < length (xs ! b)" "i - length x = start xs b + m" using Cons.IH by blast
    then show ?thesis using Cons.prems(1) [of "Suc b" m] False by (simp add: start_def)
  qed
qed simp

lemma concat_nth: "b < length xs \<Longrightarrow> m < length (xs ! b) \<Longrightarrow> concat xs ! (start xs b + m) = xs ! b ! m"
proof -
  assume b: "b < length xs" "m < length (xs ! b)"
  have "concat xs = concat (take b xs) @ xs ! b @ concat (drop (Suc b) xs)"
    by (metis b(1) concat.simps(2) concat_append id_take_nth_drop)
  then show ?thesis using b(2) by (simp add: start_def nth_append)
qed

lemma locate_bound: "b < length xs \<Longrightarrow> m < length (xs ! b) \<Longrightarrow> start xs b + m < length (concat xs)"
  using start_less [of b "length xs" xs] start_simps(2) [of xs "length xs"] by simp

text \<open>A range of the whole is a range of every bucket.\<close>

lemma nths_concat:
  "concat (map (\<lambda>b. nths (xs ! b) {m. start xs b + m \<in> A}) [0..<length xs]) = nths (concat xs) A"
proof (induction xs rule: rev_induct)
  case (snoc y xs)
  have e: "map (\<lambda>b. nths ((xs @ [y]) ! b) {m. start (xs @ [y]) b + m \<in> A}) [0..<length xs]
    = map (\<lambda>b. nths (xs ! b) {m. start xs b + m \<in> A}) [0..<length xs]"
    by (simp add: nth_append start_def)
  have l: "start (xs @ [y]) (length xs) = length (concat xs)" by (simp add: start_def)
  have u: "[0..<length (xs @ [y])] = [0..<length xs] @ [length xs]" by simp
  show ?case unfolding u map_append e concat_append snoc.IH by (simp add: nths_append l add.commute)
qed simp

lemma nths_congr: "(\<And>i. i < length xs \<Longrightarrow> i \<in> A \<longleftrightarrow> i \<in> B) \<Longrightarrow> nths xs A = nths xs B"
  unfolding nths_def by (rule arg_cong [where f = "map fst"], rule filter_cong) (auto simp: set_zip)

lemma nths_range:
  assumes "j \<le> k" and "k \<le> length xs"
  shows "nths xs {i. i < j \<or> k \<le> i} = take j xs @ drop k xs"
proof -
  have l: "length (take j xs) = j" "length (take (k - j) (drop j xs)) = k - j" using assms by simp_all
  have xs: "xs = take j xs @ take (k - j) (drop j xs) @ drop k xs"
    using assms(1) append_take_drop_id [of "k - j" "drop j xs"] by simp
  have "nths xs {i. i < j \<or> k \<le> i} = nths (take j xs) {i. i < j \<or> k \<le> i}
      @ nths (take (k - j) (drop j xs)) {i. i + j < j \<or> k \<le> i + j} @ nths (drop k xs) {i. i + (k - j) + j < j \<or> k \<le> i + (k - j) + j}"
    by (subst xs, subst nths_append, subst nths_append) (simp only: l mem_Collect_eq)
  moreover have "nths (take j xs) {i. i < j \<or> k \<le> i} = take j xs" by (rule nths_all) (use l in auto)
  moreover have "nths (take (k - j) (drop j xs)) {i. i + j < j \<or> k \<le> i + j} = []"
  proof -
    have "nths (take (k - j) (drop j xs)) {i. i + j < j \<or> k \<le> i + j} = nths (take (k - j) (drop j xs)) {}"
      by (rule nths_congr) (use l(2) assms(1) in auto)
    then show ?thesis by (simp add: nths_empty)
  qed
  moreover have "nths (drop k xs) {i. i + (k - j) + j < j \<or> k \<le> i + (k - j) + j} = drop k xs"
    by (rule nths_all) (use assms(1) in auto)
  ultimately show ?thesis by simp
qed

section \<open>Items in cells\<close>

lemma cell_le: "k < (s :: nat) \<Longrightarrow> d * s \<le> j * s + k \<longleftrightarrow> d \<le> j"
  by (metis div_less div_mult_self3 add.right_neutral add_diff_cancel_left' le_add1 less_eq_div_iff_mult_less_eq
      mult.commute not_less_zero bot_nat_0.not_eq_extremum)

lemma cell_less: "k < (s :: nat) \<Longrightarrow> j * s + k < d * s \<longleftrightarrow> j < d"
  using cell_le [of k s d j] by (simp add: not_le [symmetric])

lemma cell_bound: "k < (s :: nat) \<Longrightarrow> j < m \<Longrightarrow> j * s + k < m * s"
  by (simp add: cell_less)

definition hm_positions :: "hash_map \<Rightarrow> nat list" where
  "hm_positions hm = concat (map (\<lambda>b. map (\<lambda>m. xu_hash_map_index_make (b + 1) (m + 1))
     [0..<length (slot_items hm (hm_list hm ! b))]) [0..<length (hm_list hm)])"

text \<open>The position of an item, and the tail behind the last one.\<close>

definition hm_pos :: "hash_map \<Rightarrow> nat \<Rightarrow> nat" where
  "hm_pos hm i = (hm_positions hm @ [0]) ! i"

abbreviation buckets :: "hash_map \<Rightarrow> (u64 \<times> u64) list list" where
  "buckets hm \<equiv> map (slot_items hm) (hm_list hm)"

lemma pos_start:
  "length (hm_positions hm) = length (hm_items hm)"
  "b < length (hm_list hm) \<Longrightarrow> m < length (slot_items hm (hm_list hm ! b)) \<Longrightarrow>
     hm_pos hm (start (buckets hm) b + m) = xu_hash_map_index_make (b + 1) (m + 1)"
  "hm_pos hm (length (hm_items hm)) = 0"
proof -
  let ?ps = "map (\<lambda>b. map (\<lambda>m. xu_hash_map_index_make (b + 1) (m + 1)) [0..<length (slot_items hm (hm_list hm ! b))]) [0..<length (hm_list hm)]"
  have ps: "hm_positions hm = concat ?ps" by (simp add: hm_positions_def)
  have "map length ?ps = map length (buckets hm)" by (rule nth_equalityI) simp_all
  then have tk: "map length (take b ?ps) = map length (take b (buckets hm))" for b by (simp only: take_map [symmetric])
  have st: "start ?ps b = start (buckets hm) b" for b
    using tk [of b] by (simp only: start_def length_concat)
  have "length (concat ?ps) = length (concat (buckets hm))"
    using tk [of "length (hm_list hm)"] by (simp only: length_concat take_all length_map length_upt)
  then show len: "length (hm_positions hm) = length (hm_items hm)" by (simp only: ps hm_items_def)
  show "hm_pos hm (length (hm_items hm)) = 0" by (simp add: hm_pos_def len [symmetric])
  assume b: "b < length (hm_list hm)" "m < length (slot_items hm (hm_list hm ! b))"
  then have b': "b < length ?ps" "m < length (?ps ! b)" by simp_all
  have "start (buckets hm) b + m < length (hm_positions hm)" using locate_bound [OF b'] by (simp only: st ps)
  moreover have "hm_positions hm ! (start (buckets hm) b + m) = ?ps ! b ! m" using concat_nth [OF b'] by (simp only: st ps)
  ultimately show "hm_pos hm (start (buckets hm) b + m) = xu_hash_map_index_make (b + 1) (m + 1)"
    using b by (simp add: hm_pos_def nth_append)
qed

locale hash_table = name: hash_key en fn + data: hash_cell ed fd for en fn ed fd
begin

abbreviation tab :: "hash_map \<Rightarrow> bool" where
  "tab hm \<equiv> hm_name hm = en \<and> hm_data hm = ed"

lemma step_pos: "tab hm \<Longrightarrow> 0 < hm_step hm"
  using name.size_pos by (simp add: hm_step_def)

lemma item_of_local:
  assumes "tab hm" and "\<And>k. k < hm_step hm \<Longrightarrow> c ! (i * hm_step hm + k) = c' ! (i' * hm_step hm + k)"
  shows "item_of hm c i = item_of hm c' i'"
proof -
  have "el_data en c (i * hm_step hm) = el_data en c' (i' * hm_step hm)"
    by (rule name.data_local) (use assms in \<open>simp add: hm_step_def\<close>)
  moreover have "el_data ed c (i * hm_step hm + el_size en) = el_data ed c' (i' * hm_step hm + el_size en)"
  proof (rule data.data_local)
    fix k assume "k < el_size ed"
    then show "c ! (i * hm_step hm + el_size en + k) = c' ! (i' * hm_step hm + el_size en + k)"
      using assms(2) [of "el_size en + k"] assms(1) by (simp add: hm_step_def add.assoc)
  qed
  ultimately show ?thesis using assms(1) by (simp add: item_of_def)
qed

lemma item_of_move:
  assumes "tab hm" and "length c = m * hm_step hm" and "j < m"
  shows "item_of hm (mem_move c (d * hm_step hm) (s * hm_step hm) (n * hm_step hm)) j =
    (if d \<le> j \<and> j < d + n then item_of hm c (s + (j - d)) else item_of hm c j)"
proof -
  let ?s = "hm_step hm"
  have c: "mem_move c (d * ?s) (s * ?s) (n * ?s) ! (j * ?s + k) =
    (if d \<le> j \<and> j < d + n then c ! ((s + (j - d)) * ?s + k) else c ! (j * ?s + k))" if k: "k < ?s" for k
  proof -
    have "j * ?s + k < length c" using assms(2,3) cell_bound [OF k] by simp
    moreover have "d * ?s \<le> j * ?s + k \<longleftrightarrow> d \<le> j" "j * ?s + k < d * ?s + n * ?s \<longleftrightarrow> j < d + n"
      using cell_le [OF k, of d j] cell_less [OF k, of j "d + n"] by (simp_all add: add_mult_distrib)
    moreover have "s * ?s + (j * ?s + k - d * ?s) = (s + (j - d)) * ?s + k" if "d \<le> j"
      using mult_le_mono1 [OF that, of ?s] unfolding add_mult_distrib diff_mult_distrib by linarith
    ultimately show ?thesis by auto
  qed
  show ?thesis
    by (cases "d \<le> j \<and> j < d + n") (use c in \<open>auto intro!: item_of_local [OF assms(1)]\<close>)
qed

text \<open>A change of the cells of one item leaves the others.\<close>

lemma item_of_other:
  assumes "tab hm" and "length c = m * hm_step hm" and "j < m" "j \<noteq> i"
    and "\<And>k. k < length c \<Longrightarrow> \<not> (i * hm_step hm \<le> k \<and> k < (i + 1) * hm_step hm) \<Longrightarrow> c' ! k = c ! k"
  shows "item_of hm c' j = item_of hm c j"
proof (rule item_of_local [OF assms(1)])
  fix k assume k: "k < hm_step hm"
  have "\<not> (i * hm_step hm \<le> j * hm_step hm + k \<and> j * hm_step hm + k < (i + 1) * hm_step hm)"
    using assms(4) cell_le [OF k, of i j] cell_less [OF k, of j "i + 1"] by auto
  then show "c' ! (j * hm_step hm + k) = c ! (j * hm_step hm + k)"
    using assms(5) cell_bound [OF k assms(3)] assms(2) by simp
qed

lemma item_end: "i < m \<Longrightarrow> i * s + s \<le> m * (s :: nat)"
  using mult_le_mono1 [of "i + 1" m s] by simp

lemma item_dupl_laws:
  assumes "tab hm" and "length c = m * hm_step hm" and "i < m"
  shows "length (item_dupl hm c i v d) = m * hm_step hm"
    and "j < m \<Longrightarrow> item_of hm (item_dupl hm c i v d) j = (if j = i then (fn v, fd d) else item_of hm c j)"
proof -
  let ?p = "i * hm_step hm" and ?q = "i * hm_step hm + el_size en"
  let ?c = "el_dupl en c ?p v"
  have nm: "length ?c = length c" "\<And>k. k < length c \<Longrightarrow> \<not> (?p \<le> k \<and> k < ?p + el_size en) \<Longrightarrow> ?c ! k = c ! k"
    "?p + el_size en \<le> length c \<Longrightarrow> el_data en ?c ?p = fn v"
    using name.dupl by (simp_all add: puts_def)
  let ?e = "el_dupl ed ?c ?q d"
  have dt: "length ?e = length ?c" "\<And>k. k < length ?c \<Longrightarrow> \<not> (?q \<le> k \<and> k < ?q + el_size ed) \<Longrightarrow> ?e ! k = ?c ! k"
    "?q + el_size ed \<le> length ?c \<Longrightarrow> el_data ed ?e ?q = fd d"
    using data.dupl by (simp_all add: puts_def)
  have st: "hm_step hm = el_size en + el_size ed" and e: "item_dupl hm c i v d = ?e"
    using assms(1) by (simp_all add: hm_step_def item_dupl_def)
  have room: "?p + (el_size en + el_size ed) \<le> length c" using item_end [OF assms(3)] assms(2) st by metis
  show "length (item_dupl hm c i v d) = m * hm_step hm" using e dt(1) nm(1) assms(2) by simp
  have "el_data en ?e ?p = el_data en ?c ?p"
    by (rule name.data_local) (use dt(2) nm(1) room in auto)
  then have "item_of hm ?e i = (fn v, fd d)" using nm dt(3) room assms(1) by (simp add: item_of_def add.assoc)
  moreover have "item_of hm ?e j = item_of hm c j" if "j < m" "j \<noteq> i"
    by (rule item_of_other [OF assms(1,2) that]) (use nm dt st in auto)
  ultimately show "j < m \<Longrightarrow> item_of hm (item_dupl hm c i v d) j = (if j = i then (fn v, fd d) else item_of hm c j)"
    unfolding e by simp
qed

lemma item_put_laws:
  assumes "tab hm" and "length c = m * hm_step hm" and "i < m" and "puts ed fd put"
  shows "length (put c (i * hm_step hm + el_size en) d) = m * hm_step hm"
    and "j < m \<Longrightarrow> item_of hm (put c (i * hm_step hm + el_size en) d) j =
      (if j = i then (fst (item_of hm c i), fd d) else item_of hm c j)"
proof -
  let ?p = "i * hm_step hm" and ?q = "i * hm_step hm + el_size en"
  let ?e = "put c ?q d"
  have dt: "length ?e = length c" "\<And>k. k < length c \<Longrightarrow> \<not> (?q \<le> k \<and> k < ?q + el_size ed) \<Longrightarrow> ?e ! k = c ! k"
    "?q + el_size ed \<le> length c \<Longrightarrow> el_data ed ?e ?q = fd d"
    using assms(4) by (simp_all add: puts_def)
  have st: "hm_step hm = el_size en + el_size ed" using assms(1) by (simp add: hm_step_def)
  have room: "?p + (el_size en + el_size ed) \<le> length c" using item_end [OF assms(3)] assms(2) st by metis
  show "length ?e = m * hm_step hm" using dt(1) assms(2) by simp
  have "el_data en ?e ?p = el_data en c ?p"
    by (rule name.data_local) (use dt(2) room in auto)
  then have "item_of hm ?e i = (fst (item_of hm c i), fd d)" using dt(3) room assms(1) by (simp add: item_of_def add.assoc)
  moreover have "item_of hm ?e j = item_of hm c j" if "j < m" "j \<noteq> i"
    by (rule item_of_other [OF assms(1,2) that]) (use dt st in auto)
  ultimately show "j < m \<Longrightarrow> item_of hm ?e j = (if j = i then (fst (item_of hm c i), fd d) else item_of hm c j)" by simp
qed

lemma item_free_laws:
  assumes "tab hm" and "length c = m * hm_step hm"
  shows "length (item_free hm c i) = m * hm_step hm"
    and "j < m \<Longrightarrow> j \<noteq> i \<Longrightarrow> item_of hm (item_free hm c i) j = item_of hm c j"
proof -
  show l: "length (item_free hm c i) = m * hm_step hm"
    using assms by (simp add: item_free_def name.free_length data.free_length)
  let ?p = "i * hm_step hm"
  have st: "hm_step hm = el_size en + el_size ed"
    and e: "item_free hm c i = el_free_at ed (el_free_at en c ?p) (?p + el_size en)"
    using assms(1) by (simp_all add: hm_step_def item_free_def)
  have "item_free hm c i ! k = c ! k" if "k < length c" "\<not> (?p \<le> k \<and> k < (i + 1) * hm_step hm)" for k
    unfolding e using that st data.free_frame [of k "el_free_at en c ?p" "?p + el_size en"] name.free_frame [of k c ?p]
    by (auto simp: name.free_length)
  then show "j < m \<Longrightarrow> j \<noteq> i \<Longrightarrow> item_of hm (item_free hm c i) j = item_of hm c j"
    using item_of_other [OF assms, of j i "item_free hm c i"] by blast
qed

lemma items_free_laws:
  assumes "tab hm" and "length c = m * hm_step hm" and "lo \<le> hi"
  shows "length (fold (\<lambda>i c. item_free hm c i) [lo..<hi] c) = m * hm_step hm
    \<and> (\<forall>j < m. \<not> (lo \<le> j \<and> j < hi) \<longrightarrow> item_of hm (fold (\<lambda>i c. item_free hm c i) [lo..<hi] c) j = item_of hm c j)"
  using assms(3)
proof (induction hi rule: dec_induct)
  case base
  then show ?case using assms(2) by simp
next
  case (step hi)
  let ?c = "fold (\<lambda>i c. item_free hm c i) [lo..<hi] c"
  have l: "length ?c = m * hm_step hm" using step.IH by blast
  have f: "fold (\<lambda>i c. item_free hm c i) [lo..<Suc hi] c = item_free hm ?c hi" using step.hyps by simp
  have "item_of hm (item_free hm ?c hi) j = item_of hm c j" if "j < m" "\<not> (lo \<le> j \<and> j < Suc hi)" for j
    using item_free_laws(2) [OF assms(1) l that(1), of hi] step.IH that step.hyps by auto
  then show ?case unfolding f using item_free_laws(1) [OF assms(1) l, of hi] by blast
qed

section \<open>Finding\<close>

text \<open>The place of a name in a strictly ordered bucket: in front of it the smaller names, behind it
  the greater ones.\<close>

lemma item_search_split:
  assumes "item_search f l r t = (t', m)" and "l \<le> r" and "t \<noteq> 0"
    and "\<And>i j. i < j \<Longrightarrow> j < n \<Longrightarrow> f i \<le> 0 \<Longrightarrow> f j < 0" and "\<And>i j. i < j \<Longrightarrow> j < n \<Longrightarrow> f j \<ge> 0 \<Longrightarrow> f i > 0"
    and "\<And>i. i < l \<Longrightarrow> f i > 0" and "\<And>i. r \<le> i \<Longrightarrow> i < n \<Longrightarrow> f i < 0" and "r \<le> n"
  shows "if t' = 0 then m < n \<and> f m = 0 else m \<le> n \<and> (\<forall>i < m. f i > 0) \<and> (\<forall>i. m \<le> i \<longrightarrow> i < n \<longrightarrow> f i < 0)"
  using assms
proof (induction f l r t rule: item_search.induct)
  case (1 f l r t)
  let ?m = "(l + r) div 2"
  consider "\<not> l < r" | "l < r" "f ?m < 0" | "l < r" "f ?m > 0" | "l < r" "f ?m = 0" by linarith
  then show ?case
  proof cases
    case 1
    then have "l = r" using "1.prems"(2) by simp
    then have "item_search f l r t = (t, l)" by (simp add: item_search.simps [of f r r])
    then have "t' = t" "m = l" "r = l" using "1.prems"(1,2) 1 by simp_all
    then show ?thesis using "1.prems"(3-8) by auto
  next
    case 2
    have s: "item_search f l ?m (f ?m) = (t', m)" using "1.prems"(1) 2 by (simp add: item_search.simps [of f l r] Let_def)
    have up: "f i < 0" if "?m \<le> i" "i < n" for i using "1.prems"(4) [of ?m i] 2 that by (cases "i = ?m") auto
    show ?thesis
      by (rule "1.IH"(1) [OF refl 2(1) refl 2(2) s _ _ "1.prems"(4,5,6) up]) (use 2 "1.prems"(8) in auto)
  next
    case 3
    have s: "item_search f (?m + 1) r (f ?m) = (t', m)" using "1.prems"(1) 3 by (simp add: item_search.simps [of f l r] Let_def)
    have lo: "f i > 0" if "i < ?m + 1" for i using "1.prems"(5) [of i ?m] "1.prems"(8) 3 that by (cases "i = ?m") auto
    show ?thesis
      by (rule "1.IH"(2) [OF refl 3(1) refl _ 3(2) s _ _ "1.prems"(4,5) lo "1.prems"(7,8)]) (use 3 in auto)
  next
    case 4
    then show ?thesis using "1.prems" by (auto simp: item_search.simps [of f l r] Let_def)
  qed
qed

lemma invD:
  assumes "hm_inv hm fn" and "tab hm"
  shows "hm_bucket hm v < hm_hash_size hm" and "hm_bucket hm (fn v) = hm_bucket hm v"
    and "b < hm_hash_size hm \<Longrightarrow> hm_list hm ! b = Some il \<Longrightarrow> list_ok hm fn b il"
    and "hm_map hm k = map_of (slot_items hm (hm_list hm ! hm_bucket hm k)) k"
proof -
  have inv: "length (hm_list hm) = hm_hash_size hm" "0 < hm_hash_size hm" "hm_hash_size hm \<le> 2 ^ 16"
    "\<And>b. b < hm_hash_size hm \<Longrightarrow> slot_ok hm fn b (hm_list hm ! b)"
    using assms(1) by (auto simp: hm_inv_def)
  obtain h where h: "el_hash en v (of_nat (hm_hash_size hm) - 1) 0 = Some h" "h \<le> of_nat (hm_hash_size hm) - 1"
    using name.hash_below by blast
  have "unat (of_nat (hm_hash_size hm) - 1 :: u64) = hm_hash_size hm - 1"
    using inv(2,3) by (subst unat_sub) (auto simp: word_le_nat_alt unsigned_of_nat take_bit_nat_eq_self)
  then show low: "hm_bucket hm v < hm_hash_size hm"
    using h inv(2) assms(2) by (simp add: hm_bucket_def word_le_nat_alt)
  show "hm_bucket hm (fn v) = hm_bucket hm v" using assms(2) name.hash_norm by (simp add: hm_bucket_def)
  show "list_ok hm fn b il" if "b < hm_hash_size hm" "hm_list hm ! b = Some il" for b il
    using inv(4) [OF that(1)] that(2) by simp
  have "hm_bucket hm (fst x) = b" if "b < length (hm_list hm)" "x \<in> set (slot_items hm (hm_list hm ! b))" for b x
    using inv(1) inv(4) [of b] that by (cases "hm_list hm ! b") (auto simp: list_ok_def)
  then have "hm_map hm k = (if hm_bucket hm k < length (hm_list hm)
      then map_of (slot_items hm (hm_list hm ! hm_bucket hm k)) k else None)"
    using map_of_buckets [of "map (slot_items hm) (hm_list hm)" "hm_bucket hm" k] by (simp add: hm_map_def hm_items_def split: if_splits)
  moreover have "hm_bucket hm k < hm_hash_size hm" for k
  proof -
    obtain h where "el_hash en k (of_nat (hm_hash_size hm) - 1) 0 = Some h" "h \<le> of_nat (hm_hash_size hm) - 1"
      using name.hash_below by blast
    moreover have "unat (of_nat (hm_hash_size hm) - 1 :: u64) = hm_hash_size hm - 1"
      using inv(2,3) by (subst unat_sub) (auto simp: word_le_nat_alt unsigned_of_nat take_bit_nat_eq_self)
    ultimately show ?thesis using inv(2) assms(2) by (simp add: hm_bucket_def word_le_nat_alt)
  qed
  ultimately show "hm_map hm k = map_of (slot_items hm (hm_list hm ! hm_bucket hm k)) k" using inv(1) by simp
qed

text \<open>What the search of a name answers.\<close>

lemma item_find_split:
  assumes inv: "hm_inv hm fn" and tab: "tab hm" and find: "xu_hash_map_item_find hm name = (found, b, m)"
  shows "b = hm_bucket hm name" and "b < hm_hash_size hm"
    and "found \<Longrightarrow> \<exists>il. hm_list hm ! b = Some il \<and> m < il_size il \<and> fst (item_of hm (il_cells il) m) = fn name"
    and "\<not> found \<Longrightarrow> let xs = slot_items hm (hm_list hm ! b) in m \<le> length xs
      \<and> (\<forall>x \<in> set (take m xs). el_comp en (fst x) (fn name) < 0) \<and> (\<forall>x \<in> set (drop m xs). el_comp en (fn name) (fst x) < 0)"
proof -
  let ?b = "hm_bucket hm name"
  have b: "?b < hm_hash_size hm" by (rule invD(1) [OF inv tab])
  define f where "f = (\<lambda>(il :: item_list) i. el_comp en name (fst (item_of hm (il_cells il) i)))"
  have e: "xu_hash_map_item_find hm name = (case hm_list hm ! ?b of None \<Rightarrow> (False, ?b, 0)
    | Some il \<Rightarrow> if il_size il = 0 then (False, ?b, 0)
        else case item_search (f il) 0 (il_size il) 1 of (t, m) \<Rightarrow> (t = 0, ?b, m))"
    using b tab step_pos [OF tab] unfolding xu_hash_map_item_find_def f_def
    by (auto simp: Let_def hm_bucket_def item_of_def split: option.splits)
  show bb: "b = ?b" using e find by (auto split: option.splits if_splits prod.splits)
  then show "b < hm_hash_size hm" using b by simp
  have ok: "list_ok hm fn b il" if "hm_list hm ! b = Some il" for il by (rule invD(3) [OF inv tab]) (use b bb that in auto)
  have sp: "if t = 0 then m < il_size il \<and> f il m = 0 else m \<le> il_size il \<and> (\<forall>i < m. f il i > 0) \<and> (\<forall>i. m \<le> i \<longrightarrow> i < il_size il \<longrightarrow> f il i < 0)"
    if il: "hm_list hm ! b = Some il" and s: "item_search (f il) 0 (il_size il) 1 = (t, m)" for il t m
  proof (rule item_search_split [OF s])
    have sorted: "el_comp en (fst (item_of hm (il_cells il) i)) (fst (item_of hm (il_cells il) j)) < 0" if "i < j" "j < il_size il" for i j
      using ok [OF il] that tab by (auto simp: list_ok_def sorted_wrt_iff_nth_less)
    show "f il j < 0" if "i < j" "j < il_size il" "f il i \<le> 0" for i j
      using sorted [OF that(1,2)] that(3) unfolding f_def by (metis name.comp_trans_neg)
    show "f il i > 0" if "i < j" "j < il_size il" "f il j \<ge> 0" for i j
    proof -
      have "el_comp en (fst (item_of hm (il_cells il) j)) name \<le> 0" using that(3) name.comp_nonneg_le by (simp add: f_def)
      then have "el_comp en (fst (item_of hm (il_cells il) i)) name < 0" using name.comp_neg_trans sorted [OF that(1,2)] by blast
      then show ?thesis using name.comp_pos by (simp add: f_def)
    qed
  qed auto
  have fst_norm: "fn (fst (item_of hm (il_cells il) i)) = fst (item_of hm (il_cells il) i)" if "hm_list hm ! b = Some il" "i < il_size il" for il i
    using ok [OF that(1)] that(2) unfolding list_ok_def by (metis length_list_items nth_list_items nth_mem)
  show "\<exists>il. hm_list hm ! b = Some il \<and> m < il_size il \<and> fst (item_of hm (il_cells il) m) = fn name" if yes: found
  proof -
    obtain il t where il: "hm_list hm ! b = Some il" "item_search (f il) 0 (il_size il) 1 = (t, m)" "t = 0"
      using e find bb yes by (auto split: option.splits if_splits prod.splits)
    have "m < il_size il \<and> f il m = 0" using sp [OF il(1,2)] il(3) by simp
    moreover from this have "fn name = fn (fst (item_of hm (il_cells il) m))" using name.comp_eq by (simp add: f_def)
    ultimately show ?thesis using il(1) fst_norm by auto
  qed
  show "let xs = slot_items hm (hm_list hm ! b) in m \<le> length xs
      \<and> (\<forall>x \<in> set (take m xs). el_comp en (fst x) (fn name) < 0) \<and> (\<forall>x \<in> set (drop m xs). el_comp en (fn name) (fst x) < 0)"
    if nf: "\<not> found"
  proof (cases "hm_list hm ! b")
    case None
    then show ?thesis using e find bb by (auto split: option.splits)
  next
    case (Some il)
    have cn: "el_comp en (fn name) (fst (item_of hm (il_cells il) i)) = f il i" if "i < il_size il" for i
      using name.comp_norm [of name "fst (item_of hm (il_cells il) i)"] fst_norm [OF Some that] by (simp add: f_def)
    have "m \<le> il_size il \<and> (\<forall>i < m. f il i > 0) \<and> (\<forall>i. m \<le> i \<longrightarrow> i < il_size il \<longrightarrow> f il i < 0)"
    proof (cases "il_size il = 0")
      case True
      then show ?thesis using e find bb Some by auto
    next
      case False
      then obtain t where "item_search (f il) 0 (il_size il) 1 = (t, m)" "t \<noteq> 0"
        using e find bb Some nf by (auto split: prod.splits)
      then show ?thesis using sp [OF Some] by fastforce
    qed
    moreover from this have "el_comp en (fst (item_of hm (il_cells il) i)) (fn name) < 0" if "i < m" for i
      using cn [of i] name.comp_pos that by fastforce
    ultimately have "m \<le> il_size il" "\<And>i. i < m \<Longrightarrow> el_comp en (fst (item_of hm (il_cells il) i)) (fn name) < 0"
      "\<And>i. m \<le> i \<Longrightarrow> i < il_size il \<Longrightarrow> el_comp en (fn name) (fst (item_of hm (il_cells il) i)) < 0"
      using cn by auto
    then show ?thesis
      unfolding Some Let_def by (auto simp: in_set_conv_nth; metis fst_conv add.commute le_add1 less_diff_conv order_less_le_trans)
  qed
qed

section \<open>Changing a bucket\<close>

lemma sum_list_update_slot: "b < length xs \<Longrightarrow> sum_list (map f (xs[b := x])) + f (xs ! b) = sum_list (map f xs) + (f x :: nat)"
proof -
  assume b: "b < length xs"
  have "xs = take b xs @ xs ! b # drop (Suc b) xs" by (rule id_take_nth_drop [OF b])
  moreover have "xs[b := x] = take b xs @ x # drop (Suc b) xs" by (rule upd_conv_take_nth_drop [OF b])
  ultimately have "sum_list (map f xs) = sum_list (map f (take b xs)) + (f (xs ! b) + sum_list (map f (drop (Suc b) xs)))"
    "sum_list (map f (xs[b := x])) = sum_list (map f (take b xs)) + (f x + sum_list (map f (drop (Suc b) xs)))"
    by (metis map_append sum_list_append list.map(2) sum_list.Cons)+
  then show ?thesis by simp
qed

lemma change_bucket:
  assumes inv: "hm_inv hm fn" and tab: "tab hm" and b: "b < hm_hash_size hm" and ok: "slot_ok hm fn b slot"
    and st: "same_table hm hm'" and l: "hm_list hm' = (hm_list hm)[b := slot]"
    and s: "hm_item_size hm' + length (slot_items hm (hm_list hm ! b)) = hm_item_size hm + length (slot_items hm slot)"
    and m: "hm_item_maxn hm + slot_maxn slot \<le> hm_item_maxn hm' + slot_maxn (hm_list hm ! b)"
  shows "hm_inv hm' fn" and "tab hm'"
    and "hm_map hm' k = (if hm_bucket hm k = b then map_of (slot_items hm slot) k else hm_map hm k)"
proof -
  have i: "length (hm_list hm) = hm_hash_size hm" "0 < hm_hash_size hm" "hm_hash_size hm \<le> 2 ^ 16" "0 < hm_item_grow hm"
    "hm_item_grow hm \<le> 256" "\<And>b. b < hm_hash_size hm \<Longrightarrow> slot_ok hm fn b (hm_list hm ! b)"
    "hm_item_size hm = length (hm_items hm)" "sum_list (map slot_maxn (hm_list hm)) \<le> hm_item_maxn hm"
    using inv by (auto simp: hm_inv_def)
  have bl: "b < length (hm_list hm)" using b i(1) by simp
  have len: "length (hm_items h) = sum_list (map (\<lambda>x. length (slot_items h x)) (hm_list h))" for h
    by (simp add: hm_items_def length_concat o_def)
  have "length (hm_items hm') + length (slot_items hm (hm_list hm ! b)) = length (hm_items hm) + length (slot_items hm slot)"
    unfolding len l same_table(4) [OF st] by (rule sum_list_update_slot [OF bl])
  then have size: "hm_item_size hm' = length (hm_items hm')" using s i(7) by simp
  have "sum_list (map slot_maxn (hm_list hm')) + slot_maxn (hm_list hm ! b) = sum_list (map slot_maxn (hm_list hm)) + slot_maxn slot"
    unfolding l by (rule sum_list_update_slot [OF bl])
  then have maxn: "sum_list (map slot_maxn (hm_list hm')) \<le> hm_item_maxn hm'" using m i(8) by simp
  have hs: "hm_hash_size hm' = hm_hash_size hm" "hm_item_grow hm' = hm_item_grow hm" using st by (simp_all add: same_table_def)
  have "slot_ok hm' fn c (hm_list hm' ! c)" if "c < hm_hash_size hm" for c
    using i(6) [OF that] ok that bl unfolding l same_table(8) [OF st] by (cases "c = b") simp_all
  then show inv': "hm_inv hm' fn" using i hs size maxn l unfolding hm_inv_def by simp
  show tab': "tab hm'" using st tab by (simp add: same_table_def)
  have "hm_bucket hm k < hm_hash_size hm" by (rule invD(1) [OF inv tab])
  then show "hm_map hm' k = (if hm_bucket hm k = b then map_of (slot_items hm slot) k else hm_map hm k)"
    using bl i(1) by (simp add: invD(4) [OF inv' tab'] invD(4) [OF inv tab] same_table [OF st] l nth_list_update)
qed

text \<open>A bucket with one name more or less.\<close>

lemma slot_distinct:
  assumes "slot_ok hm fn b slot" and "tab hm"
  shows "distinct (map fst (slot_items hm slot))"
proof -
  have "sorted_wrt (\<lambda>x y. el_comp en x y < 0) (map fst (slot_items hm slot))"
    using assms by (cases slot) (auto simp: list_ok_def sorted_wrt_map)
  moreover have "distinct xs" if "sorted_wrt (\<lambda>x y. el_comp en x y < 0) xs" for xs
    using that by (induction xs) auto
  ultimately show ?thesis by blast
qed

lemma list_ok_insert:
  assumes inv: "hm_inv hm fn" and tab: "tab hm" and find: "xu_hash_map_item_find hm name = (False, b, m)"
    and xs: "xs = slot_items hm (hm_list hm ! b)" and items: "list_items hm il = take m xs @ (fn name, d) # drop m xs"
    and room: "il_size il \<le> il_maxn il" "il_size il \<le> 2 ^ 31" "il_maxn il \<le> 2 ^ 32" "length (il_cells il) = il_maxn il * hm_step hm"
  shows "list_ok hm fn b il" and "fn name \<notin> fst ` set xs"
proof -
  note sp = item_find_split [OF inv tab find]
  have b: "b < hm_hash_size hm" "b = hm_bucket hm name" using sp by auto
  have lo: "\<And>x. x \<in> set (take m xs) \<Longrightarrow> el_comp en (fst x) (fn name) < 0"
    and hi: "\<And>x. x \<in> set (drop m xs) \<Longrightarrow> el_comp en (fn name) (fst x) < 0"
    using sp(4) xs by (auto simp: Let_def)
  have "slot_ok hm fn b (hm_list hm ! b)" using inv b(1) by (simp add: hm_inv_def)
  then have old: "sorted_wrt (\<lambda>x y. el_comp en (fst x) (fst y) < 0) xs" "\<forall>x \<in> set xs. fn (fst x) = fst x \<and> hm_bucket hm (fst x) = b"
    using xs tab by (cases "hm_list hm ! b"; auto simp: list_ok_def)+
  have "sorted_wrt (\<lambda>x y. el_comp en (fst x) (fst y) < 0) (take m xs @ drop m xs)" using old(1) by simp
  then have "sorted_wrt (\<lambda>x y. el_comp en (fst x) (fst y) < 0) (list_items hm il)"
    unfolding items sorted_wrt_append using lo hi by auto
  moreover have "fn (fst x) = fst x \<and> hm_bucket hm (fst x) = b" if "x \<in> set (list_items hm il)" for x
    using that old(2) b name.norm_norm invD(2) [OF inv tab, of name] unfolding items
    by (auto dest: in_set_takeD in_set_dropD)
  ultimately show "list_ok hm fn b il" using room tab by (simp add: list_ok_def)
  have "el_comp en (fst x) (fn name) < 0 \<or> el_comp en (fn name) (fst x) < 0" if "x \<in> set xs" for x
    using lo hi that by (metis Un_iff append_take_drop_id set_append)
  then show "fn name \<notin> fst ` set xs" by force
qed

section \<open>The operations\<close>

lemma item_at_nth:
  assumes "hm_inv hm fn" and "tab hm" and "b < hm_hash_size hm"
  shows "xu_hash_map_item_at hm b m = (let xs = slot_items hm (hm_list hm ! b) in if m < length xs then Some (xs ! m) else None)"
  using assms step_pos [OF assms(2)]
  by (cases "hm_list hm ! b") (auto simp: xu_hash_map_item_at_def hm_inv_def item_of_def Let_def)

lemma found_map:
  assumes "hm_inv hm fn" and "tab hm" and "xu_hash_map_item_find hm name = (True, b, m)"
  shows "hm_map hm (fn name) = Some (snd (slot_items hm (hm_list hm ! b) ! m))"
    and "xu_hash_map_item_at hm b m = Some (fn name, snd (slot_items hm (hm_list hm ! b) ! m))"
proof -
  from item_find_split [OF assms] obtain il where il: "hm_list hm ! b = Some il" "m < il_size il"
    "fst (item_of hm (il_cells il) m) = fn name" and b: "b = hm_bucket hm name" "b < hm_hash_size hm" by auto
  have "slot_ok hm fn b (hm_list hm ! b)" using assms(1) b by (simp add: hm_inv_def)
  then have d: "distinct (map fst (list_items hm il))" using slot_distinct [OF _ assms(2), of b "Some il"] il(1) by simp
  let ?x = "list_items hm il ! m"
  have x: "fst ?x = fn name" "?x \<in> set (list_items hm il)" using il by (simp, metis length_list_items nth_mem)
  then have "(fn name, snd ?x) \<in> set (list_items hm il)" by (metis prod.collapse)
  then have "map_of (list_items hm il) (fn name) = Some (snd ?x)" by (rule map_of_is_SomeI [OF d])
  then show "hm_map hm (fn name) = Some (snd (slot_items hm (hm_list hm ! b) ! m))"
    using invD(4) [OF assms(1,2), of "fn name"] invD(2) [OF assms(1,2), of name] b il(1) by simp
  show "xu_hash_map_item_at hm b m = Some (fn name, snd (slot_items hm (hm_list hm ! b) ! m))"
    using item_at_nth [OF assms(1,2) b(2), of m] il x(1) by (simp add: Let_def prod_eq_iff)
qed

lemma absent_map:
  assumes "hm_inv hm fn" and "tab hm" and "xu_hash_map_item_find hm name = (False, b, m)"
  shows "hm_map hm (fn name) = None"
proof -
  let ?xs = "slot_items hm (hm_list hm ! b)"
  note sp = item_find_split [OF assms]
  have "el_comp en (fst x) (fn name) < 0 \<or> el_comp en (fn name) (fst x) < 0" if "x \<in> set ?xs" for x
    using sp(4) that unfolding Let_def by (metis Un_iff append_take_drop_id set_append)
  then have "fn name \<notin> fst ` set ?xs" by force
  then show ?thesis
    using invD(4) [OF assms(1,2), of "fn name"] invD(2) [OF assms(1,2), of name] sp(1) by (simp add: map_of_eq_None_iff)
qed

lemma get_map:
  assumes "hm_inv hm fn" and "tab hm"
  shows "xu_hash_map_get hm name = hm_map hm (fn name)"
proof -
  obtain f b m where "xu_hash_map_item_find hm name = (f, b, m)" by (cases "xu_hash_map_item_find hm name")
  then show ?thesis
    using found_map [OF assms] absent_map [OF assms] by (cases f) (simp_all add: xu_hash_map_get_def)
qed

lemma index_parts:
  assumes "buck < 2 ^ 32" and "item < 2 ^ 32"
  shows "xu_hash_map_index_buck (xu_hash_map_index_make buck item) = buck"
    and "xu_hash_map_index_item (xu_hash_map_index_make buck item) = item"
proof -
  have t: "take_bit 32 buck = buck" "take_bit 32 item = item" using assms by (simp_all add: take_bit_nat_eq_self)
  have "take_bit 32 (push_bit 32 (take_bit 32 item) OR take_bit 32 buck) = take_bit 32 buck"
    "take_bit 32 (drop_bit 32 (push_bit 32 (take_bit 32 item) OR take_bit 32 buck)) = take_bit 32 item"
    by (auto intro!: bit_eqI simp: bit_simps)
  then show "xu_hash_map_index_buck (xu_hash_map_index_make buck item) = buck"
    "xu_hash_map_index_item (xu_hash_map_index_make buck item) = item"
    by (simp_all only: xu_hash_map_index_buck_def xu_hash_map_index_item_def xu_hash_map_index_make_def t)
qed

text \<open>The position of an item in a bucket.\<close>

lemma slot_position:
  assumes "hm_inv hm fn" and "b < hm_hash_size hm" and "m < length (slot_items hm (hm_list hm ! b))"
  shows "xu_hash_map_index_buck (xu_hash_map_index_make (b + 1) (m + 1)) = b + 1"
    and "xu_hash_map_index_item (xu_hash_map_index_make (b + 1) (m + 1)) = m + 1"
proof -
  have "slot_ok hm fn b (hm_list hm ! b)" "hm_hash_size hm \<le> 2 ^ 16" using assms by (auto simp: hm_inv_def)
  then have "m < 2 ^ 31" "b < 2 ^ 16" using assms(2,3) by (cases "hm_list hm ! b"; auto simp: list_ok_def)+
  then show "xu_hash_map_index_buck (xu_hash_map_index_make (b + 1) (m + 1)) = b + 1"
    "xu_hash_map_index_item (xu_hash_map_index_make (b + 1) (m + 1)) = m + 1"
    using index_parts [of "b + 1" "m + 1"] by simp_all
qed

lemma itor_item_at:
  assumes "hm_inv hm fn" and "b < hm_hash_size hm" and "m < length (slot_items hm (hm_list hm ! b))"
  shows "snd (xu_hash_map_itor_item hm (xu_hash_map_index_make (b + 1) (m + 1))) = xu_hash_map_item_at hm b m"
  using slot_position [OF assms] by (auto simp: xu_hash_map_itor_item_def Let_def split: option.splits)

lemma find_map:
  assumes "hm_inv hm fn" and "tab hm"
  shows "xu_hash_map_find hm name \<noteq> 0 \<longleftrightarrow> fn name \<in> dom (hm_map hm)"
    and "xu_hash_map_find hm name \<noteq> 0 \<Longrightarrow>
      snd (xu_hash_map_itor_item hm (xu_hash_map_find hm name)) = Some (fn name, the (hm_map hm (fn name)))"
proof -
  obtain f b m where f: "xu_hash_map_item_find hm name = (f, b, m)" by (cases "xu_hash_map_item_find hm name")
  have yes: "xu_hash_map_find hm name \<noteq> 0 \<and> fn name \<in> dom (hm_map hm)
      \<and> snd (xu_hash_map_itor_item hm (xu_hash_map_find hm name)) = Some (fn name, the (hm_map hm (fn name)))" if f
  proof -
    have fd: "xu_hash_map_item_find hm name = (True, b, m)" using f that by simp
    obtain il where il: "hm_list hm ! b = Some il" "m < il_size il" "b < hm_hash_size hm"
      using item_find_split [OF assms fd] by auto
    have pos: "b < hm_hash_size hm" "m < length (slot_items hm (hm_list hm ! b))" using il by simp_all
    have "xu_hash_map_find hm name = xu_hash_map_index_make (b + 1) (m + 1)" using fd by (simp add: xu_hash_map_find_def)
    moreover have "xu_hash_map_index_make (b + 1) (m + 1) \<noteq> 0"
      using slot_position(1) [OF assms(1) pos] by (intro notI) (simp add: xu_hash_map_index_buck_def)
    ultimately show ?thesis
      using itor_item_at [OF assms(1) pos] found_map [OF assms fd] by auto
  qed
  have no: "xu_hash_map_find hm name = 0 \<and> fn name \<notin> dom (hm_map hm)" if "\<not> f"
    using f that absent_map [OF assms] by (auto simp: xu_hash_map_find_def)
  show "xu_hash_map_find hm name \<noteq> 0 \<longleftrightarrow> fn name \<in> dom (hm_map hm)"
    "xu_hash_map_find hm name \<noteq> 0 \<Longrightarrow>
      snd (xu_hash_map_itor_item hm (xu_hash_map_find hm name)) = Some (fn name, the (hm_map hm (fn name)))"
    using yes no by (cases f; simp)+
qed

lemma size_card:
  assumes "hm_inv hm fn" and "tab hm"
  shows "xu_hash_map_size hm = card (dom (hm_map hm))" and "distinct (map fst (hm_items hm))"
proof -
  have ok: "slot_ok hm fn b (hm_list hm ! b)" if "b < length (hm_list hm)" for b using assms(1) that by (auto simp: hm_inv_def)
  have fs: "hm_bucket hm (fst x) = b" if "b < length (hm_list hm)" "x \<in> set (slot_items hm (hm_list hm ! b))" for b x
    using ok [OF that(1)] that(2) by (cases "hm_list hm ! b") (auto simp: list_ok_def)
  have d: "distinct (concat xs)"
    if "\<And>b. b < length xs \<Longrightarrow> distinct (xs ! b)" "\<And>b k. b < length xs \<Longrightarrow> k \<in> set (xs ! b) \<Longrightarrow> hm_bucket hm k = b" for xs
    using that
  proof (induction xs rule: rev_induct)
    case (snoc ys xs)
    have "distinct (xs ! b)" "\<And>k. k \<in> set (xs ! b) \<Longrightarrow> hm_bucket hm k = b" if "b < length xs" for b
      using snoc.prems(1) [of b] snoc.prems(2) [of b] that by (simp_all add: nth_append)
    then have "distinct (concat xs)" by (rule snoc.IH)
    moreover have "distinct ys" using snoc.prems(1) [of "length xs"] by simp
    moreover have "hm_bucket hm k \<noteq> length xs" if zs: "zs \<in> set xs" "k \<in> set zs" for k zs
    proof -
      obtain b where "b < length xs" "xs ! b = zs" using zs(1) by (auto simp: in_set_conv_nth)
      then show ?thesis using snoc.prems(2) [of b k] zs(2) by (simp add: nth_append)
    qed
    moreover have "hm_bucket hm k = length xs" if "k \<in> set ys" for k using snoc.prems(2) [of "length xs" k] that by simp
    ultimately show ?case by auto
  qed simp
  have "map fst (hm_items hm) = concat (map (\<lambda>s. map fst (slot_items hm s)) (hm_list hm))"
    by (simp add: hm_items_def map_concat o_def)
  moreover have "distinct (concat (map (\<lambda>s. map fst (slot_items hm s)) (hm_list hm)))"
    by (rule d) (use slot_distinct [OF ok assms(2)] fs in auto)
  ultimately show ds: "distinct (map fst (hm_items hm))" by simp
  have "card (dom (hm_map hm)) = length (hm_items hm)"
    unfolding hm_map_def dom_map_of_conv_image_fst using distinct_card [OF ds] by simp
  then show "xu_hash_map_size hm = card (dom (hm_map hm))" using assms(1) by (simp add: xu_hash_map_size_def hm_inv_def)
qed

text \<open>Room for one more item.\<close>

lemma slot_le_size:
  assumes "hm_inv hm fn" and "b < hm_hash_size hm"
  shows "length (slot_items hm (hm_list hm ! b)) \<le> hm_item_size hm"
proof -
  have "length (slot_items hm (hm_list hm ! b)) \<in> set (map (\<lambda>s. length (slot_items hm s)) (hm_list hm))"
    using assms by (auto simp: hm_inv_def)
  then have "length (slot_items hm (hm_list hm ! b)) \<le> sum_list (map (\<lambda>s. length (slot_items hm s)) (hm_list hm))"
    by (rule member_le_sum_list) simp
  then show ?thesis using assms(1) by (simp add: hm_inv_def hm_items_def length_concat o_def)
qed

lemma grow_maxn:
  assumes "hm_inv hm fn" and "il_maxn il < 2 ^ 31"
  shows "il_maxn il < unat (xu_align_pow2 (of_nat (il_maxn il + hm_item_grow hm)))"
    and "unat (xu_align_pow2 (of_nat (il_maxn il + hm_item_grow hm))) \<le> 2 ^ 32"
proof -
  let ?n = "il_maxn il + hm_item_grow hm"
  have n: "?n < 2 ^ 32" "?n > il_maxn il" using assms by (auto simp: hm_inv_def)
  then have u: "unat (of_nat ?n :: u64) = ?n" by (simp del: of_nat_add add: unsigned_of_nat take_bit_nat_eq_self)
  obtain k where "unat (xu_align_pow2 (of_nat ?n)) = 2 ^ k" "?n \<le> 2 ^ k" "k \<le> 32"
    using align_pow2_value [of "of_nat ?n"] u n(1) by metis
  then show "il_maxn il < unat (xu_align_pow2 (of_nat ?n))" "unat (xu_align_pow2 (of_nat ?n)) \<le> 2 ^ 32"
    using n power_increasing [of k 32 "2 :: nat"] by simp_all
qed

lemma list_grow_spec:
  assumes inv: "hm_inv hm fn" and tab: "tab hm" and b: "b < hm_hash_size hm" and il: "hm_list hm ! b = Some il"
    and size: "il_size il < 2 ^ 31" and keeps: "ralloc_keeps ralloc" and grow: "list_grow ralloc hm b il = Some (hm', il')"
  shows "il_size il' = il_size il \<and> il_size il < il_maxn il' \<and> il_maxn il \<le> il_maxn il' \<and> il_maxn il' \<le> 2 ^ 32
    \<and> length (il_cells il') = il_maxn il' * hm_step hm
    \<and> (\<forall>i < il_size il. item_of hm (il_cells il') i = item_of hm (il_cells il) i)
    \<and> same_table hm hm' \<and> hm_list hm' = (hm_list hm)[b := Some il'] \<and> hm_item_size hm' = hm_item_size hm
    \<and> hm_item_maxn hm' = hm_item_maxn hm + (il_maxn il' - il_maxn il)"
proof -
  have ok: "il_size il \<le> il_maxn il" "il_maxn il \<le> 2 ^ 32" "length (il_cells il) = il_maxn il * hm_step hm"
    using invD(3) [OF inv tab b il] by (simp_all add: list_ok_def)
  show ?thesis
  proof (cases "il_size il \<ge> il_maxn il")
    case False
    moreover have "(hm_list hm)[b := Some il] = hm_list hm" using il by (metis list_update_id)
    ultimately show ?thesis using grow ok by (auto simp: list_grow_def same_table_def)
  next
    case True
    define mx where "mx = unat (xu_align_pow2 (of_nat (il_maxn il + hm_item_grow hm)))"
    have mx: "il_maxn il < mx" "mx \<le> 2 ^ 32" using grow_maxn [OF inv, of il] True size by (simp_all add: mx_def)
    obtain cells where c: "ralloc (Some (il_cells il)) (mx * hm_step hm) = Some cells"
      and e: "il' = il\<lparr>il_maxn := mx, il_cells := cells\<rparr>"
        "hm' = hm\<lparr>hm_item_maxn := hm_item_maxn hm + (mx - il_maxn il), hm_list := (hm_list hm)[b := Some il']\<rparr>"
      using grow True mx inv unfolding list_grow_def mx_def [symmetric]
      by (auto simp: Let_def hm_inv_def split: option.splits if_splits)
    have len: "length cells = mx * hm_step hm" and pre: "\<forall>i < length (il_cells il). i < length cells \<longrightarrow> cells ! i = il_cells il ! i"
      using keeps c by (auto simp: ralloc_keeps_def)
    have "item_of hm cells i = item_of hm (il_cells il) i" if i: "i < il_size il" for i
    proof (rule item_of_local [OF tab])
      fix k assume k: "k < hm_step hm"
      show "cells ! (i * hm_step hm + k) = il_cells il ! (i * hm_step hm + k)"
        using pre cell_bound [OF k, of i mx] cell_bound [OF k, of i "il_maxn il"] i ok len mx by auto
    qed
    then show ?thesis using e len mx True ok by (simp add: same_table_def)
  qed
qed

lemma list_grow_refused:
  assumes "hm_inv hm fn" and "il_size il < 2 ^ 31" and "list_grow ralloc hm b il = None"
  shows "\<exists>c n. ralloc c n = None"
  using assms grow_maxn [OF assms(1), of il]
  by (auto simp: list_grow_def Let_def hm_inv_def split: if_splits option.splits)

lemma insert_new_items:
  assumes tab: "tab hm" and len: "length c = m * hm_step hm" and k: "k \<le> n" "n < m"
  shows "map (item_of hm (item_dupl hm (if k \<noteq> n then mem_move c ((k + 1) * hm_step hm) (k * hm_step hm) ((n - k) * hm_step hm) else c) k v d)) [0..<n + 1]
    = take k (map (item_of hm c) [0..<n]) @ (fn v, fd d) # drop k (map (item_of hm c) [0..<n])"
proof -
  let ?c = "if k \<noteq> n then mem_move c ((k + 1) * hm_step hm) (k * hm_step hm) ((n - k) * hm_step hm) else c"
  have lc: "length ?c = m * hm_step hm" using len by simp
  have mv: "item_of hm ?c j = (if k + 1 \<le> j \<and> j < n + 1 then item_of hm c (j - 1) else item_of hm c j)" if "j < m" for j
    using item_of_move [OF tab len that, of "k + 1" k "n - k"] k by auto
  have shift: "j - Suc 0 = k + x" if "j - k = Suc x" for j x using that by linarith
  have "item_of hm (item_dupl hm ?c k v d) j = (take k (map (item_of hm c) [0..<n]) @ (fn v, fd d) # drop k (map (item_of hm c) [0..<n])) ! j"
    if "j < n + 1" for j
    using item_dupl_laws(2) [OF tab lc, of k j v d] mv [of j] k that by (auto simp: nth_append nth_Cons shift split: nat.split)
  then show ?thesis by (intro nth_equalityI) (use k in \<open>simp_all del: upt_Suc\<close>)
qed

lemma find_unique:
  assumes inv: "hm_inv hm fn" and tab: "tab hm" and b: "b = hm_bucket hm name"
    and m: "m < length (slot_items hm (hm_list hm ! b))" "fst (slot_items hm (hm_list hm ! b) ! m) = fn name"
  shows "xu_hash_map_find hm name = xu_hash_map_index_make (b + 1) (m + 1)" and "xu_hash_map_find hm name \<noteq> 0"
proof -
  let ?xs = "slot_items hm (hm_list hm ! b)"
  have bl: "b < hm_hash_size hm" using invD(1) [OF inv tab] b by simp
  have "slot_ok hm fn b (hm_list hm ! b)" using inv bl by (simp add: hm_inv_def)
  then have d: "distinct (map fst ?xs)" using slot_distinct tab by blast
  have "fn name \<in> fst ` set ?xs" using m by (metis image_eqI nth_mem)
  then have "hm_map hm (fn name) \<noteq> None"
    using invD(4) [OF inv tab, of "fn name"] invD(2) [OF inv tab, of name] b by (simp add: map_of_eq_None_iff)
  moreover obtain f b' m' where f: "xu_hash_map_item_find hm name = (f, b', m')" by (cases "xu_hash_map_item_find hm name")
  ultimately have f and find: "xu_hash_map_item_find hm name = (True, b', m')"
    using absent_map [OF inv tab, of name b' m'] by (cases f; simp)+
  then have b': "b' = b" "\<exists>il. hm_list hm ! b = Some il \<and> m' < il_size il \<and> fst (item_of hm (il_cells il) m') = fn name"
    using item_find_split [OF inv tab find] b by auto
  then have m': "m' < length ?xs" "fst (?xs ! m') = fn name" by auto
  have "m' = m" using nth_eq_iff_index_eq [OF d, of m' m] m m' by simp
  then show f: "xu_hash_map_find hm name = xu_hash_map_index_make (b + 1) (m + 1)"
    using find b' by (simp add: xu_hash_map_find_def)
  show "xu_hash_map_find hm name \<noteq> 0"
    unfolding f using slot_position(1) [OF inv bl m(1)] by (intro notI) (simp add: xu_hash_map_index_buck_def)
qed

text \<open>An insertion that is not refused, once the changed bucket is known.\<close>

lemma insert_done:
  assumes inv: "hm_inv hm fn" and tab: "tab hm" and b: "b = hm_bucket hm name" and ok: "list_ok hm fn b il'"
    and st: "same_table hm hm'" and l: "hm_list hm' = (hm_list hm)[b := Some il']"
    and s: "hm_item_size hm' + length (slot_items hm (hm_list hm ! b)) = hm_item_size hm + il_size il'"
    and mx: "hm_item_maxn hm + il_maxn il' \<le> hm_item_maxn hm' + slot_maxn (hm_list hm ! b)"
    and m: "m < il_size il'" "fst (list_items hm il' ! m) = fn name"
    and map: "map_of (list_items hm il') = (map_of (slot_items hm (hm_list hm ! b)))(fn name \<mapsto> v)"
  shows "hm_inv hm' fn \<and> tab hm' \<and> hm_map hm' = (hm_map hm)(fn name \<mapsto> v)
    \<and> xu_hash_map_index_make (b + 1) (m + 1) \<noteq> 0 \<and> xu_hash_map_index_make (b + 1) (m + 1) = xu_hash_map_find hm' name"
proof -
  have bl: "b < hm_hash_size hm" "b < length (hm_list hm)" using invD(1) [OF inv tab] b inv by (auto simp: hm_inv_def)
  have bn: "hm_bucket hm (fn name) = b" using invD(2) [OF inv tab] b by simp
  have ch: "hm_inv hm' fn" "tab hm'" "\<And>k. hm_map hm' k = (if hm_bucket hm k = b then map_of (list_items hm il') k else hm_map hm k)"
    using change_bucket [OF inv tab bl(1), of "Some il'" hm'] ok st l s mx by simp_all
  have "hm_map hm' k = ((hm_map hm)(fn name \<mapsto> v)) k" for k
    unfolding ch(3) map using bn invD(4) [OF inv tab, of k] by auto
  then have mp: "hm_map hm' = (hm_map hm)(fn name \<mapsto> v)" by blast
  have sl: "slot_items hm' (hm_list hm' ! b) = list_items hm il'" using bl by (simp add: same_table [OF st] l)
  have "b = hm_bucket hm' name" using b by (simp add: same_table [OF st])
  from find_unique [OF ch(1,2) this, of m] show ?thesis using ch(1,2) mp sl m by auto
qed

lemma insert_map:
  assumes inv: "hm_inv hm fn" and tab: "tab hm" and size: "hm_item_size hm < 2 ^ 31"
    and keeps: "ralloc_keeps ralloc" and zero: "\<And>n c. malloc0 n = Some c \<Longrightarrow> length c = n"
    and ins: "xu_hash_map_insert malloc0 ralloc hm name d = (itor, hm')"
  shows "itor = 0 \<and> hm' = hm \<and> hm_map hm (fn name) = None
    \<and> ((\<exists>n. malloc0 n = None) \<or> (\<exists>c n. ralloc c n = None))
    \<or> hm_inv hm' fn \<and> tab hm' \<and> hm_map hm' = (hm_map hm)(fn name \<mapsto> fd d) \<and> itor \<noteq> 0 \<and> itor = xu_hash_map_find hm' name"
proof -
  obtain found b m where find: "xu_hash_map_item_find hm name = (found, b, m)" by (cases "xu_hash_map_item_find hm name")
  note sp = item_find_split [OF inv tab find]
  have b: "b < hm_hash_size hm" "b = hm_bucket hm name" using sp by auto
  have st: "hm_step hm \<noteq> 0" "hm_item_grow hm \<noteq> 0" using step_pos [OF tab] inv by (auto simp: hm_inv_def)
  consider (rep) il where found "hm_list hm ! b = Some il" "m < il_size il" "fst (item_of hm (il_cells il) m) = fn name"
    | (new) il where "\<not> found" "hm_list hm ! b = Some il" | (fresh) "\<not> found" "hm_list hm ! b = None"
    using sp(3) by (cases "hm_list hm ! b"; cases found) auto
  then show ?thesis
  proof cases
    case rep
    define il' where "il' = il\<lparr>il_cells := el_repl ed (il_cells il) (m * hm_step hm + el_size en) d\<rparr>"
    have e: "itor = xu_hash_map_index_make (b + 1) (m + 1)" "hm' = hm\<lparr>hm_list := (hm_list hm)[b := Some il']\<rparr>"
      using ins rep find st b(1) tab by (simp_all add: xu_hash_map_insert_def Let_def il'_def)
    have ok: "list_ok hm fn b il" by (rule invD(3) [OF inv tab b(1) rep(2)])
    then have len: "length (il_cells il) = il_maxn il * hm_step hm" "m < il_maxn il" using rep(3) by (simp_all add: list_ok_def)
    note put = item_put_laws [OF tab len data.repl, where d = d]
    have "list_items hm il' ! j = (list_items hm il)[m := (fn name, fd d)] ! j" if "j < il_size il" for j
      using put(2) [of j] that ok rep(4) by (auto simp: il'_def list_ok_def nth_list_update)
    then have items: "list_items hm il' = (list_items hm il)[m := (fst (list_items hm il ! m), fd d)]"
      using rep(3,4) by (intro nth_equalityI) (simp_all add: il'_def)
    have "fst (list_items hm il ! m) = map fst (list_items hm il) ! m" using rep(3) by simp
    then have names: "map fst (list_items hm il') = map fst (list_items hm il)"
      by (simp only: items map_update fst_conv list_update_id)
    have "list_ok hm fn b il'"
    proof -
      have "sorted_wrt (\<lambda>x y. el_comp (hm_name hm) x y < 0) (map fst (list_items hm il'))"
        using ok unfolding names by (simp add: list_ok_def sorted_wrt_map)
      moreover have "\<forall>x \<in> set (map fst (list_items hm il')). fn x = x \<and> hm_bucket hm x = b"
        using ok unfolding names by (auto simp: list_ok_def)
      ultimately show ?thesis using ok put(1) by (simp add: list_ok_def sorted_wrt_map il'_def)
    qed
    moreover have "map_of (list_items hm il') = (map_of (slot_items hm (hm_list hm ! b)))(fn name \<mapsto> fd d)"
      using map_of_update_at [of "list_items hm il" m "fd d"] slot_distinct [of hm b "Some il"] ok tab rep unfolding items by simp
    ultimately have "hm_inv hm' fn \<and> tab hm' \<and> hm_map hm' = (hm_map hm)(fn name \<mapsto> fd d)
      \<and> xu_hash_map_index_make (b + 1) (m + 1) \<noteq> 0 \<and> xu_hash_map_index_make (b + 1) (m + 1) = xu_hash_map_find hm' name"
      by (intro insert_done [OF inv tab b(2), of il']) (use e rep items in \<open>simp_all add: same_table_def il'_def\<close>)
    then show ?thesis using e by simp
  next
    case new
    have il: "il_size il < 2 ^ 31" using slot_le_size [OF inv b(1)] size new by simp
    have m: "m \<le> il_size il" using sp(4) new by (simp add: Let_def)
    show ?thesis
    proof (cases "list_grow ralloc hm b il")
      case None
      then have e: "itor = 0" "hm' = hm" using ins new find st b(1) by (simp_all add: xu_hash_map_insert_def Let_def)
      moreover have "hm_map hm (fn name) = None" using absent_map [OF inv tab] find new(1) by simp
      ultimately show ?thesis using list_grow_refused [OF inv il None] by blast
    next
      case (Some p)
      obtain hm1 il1 where g: "list_grow ralloc hm b il = Some (hm1, il1)" using Some by (cases p) auto
      note gs = list_grow_spec [OF inv tab b(1) new(2) il keeps g]
      have m1: "m \<le> il_size il1" "il_size il1 < il_maxn il1" using m gs by simp_all
      define c where "c = item_dupl hm (if m \<noteq> il_size il1
        then mem_move (il_cells il1) ((m + 1) * hm_step hm) (m * hm_step hm) ((il_size il1 - m) * hm_step hm) else il_cells il1) m name d"
      define il' where "il' = il1\<lparr>il_size := il_size il1 + 1, il_cells := c\<rparr>"
      have dp: "item_dupl hm1 = item_dupl hm" "hm_step hm1 = hm_step hm" using gs same_table by blast+
      have "xu_hash_map_insert malloc0 ralloc hm name d
        = (xu_hash_map_index_make (b + 1) (m + 1),
           hm1\<lparr>hm_list := (hm_list hm1)[b := Some il'], hm_item_size := hm_item_size hm1 + 1\<rparr>)"
        using find st b(1) new g m1 unfolding xu_hash_map_insert_def
        by (simp add: Let_def dp il'_def c_def)
      then have e: "itor = xu_hash_map_index_make (b + 1) (m + 1)"
        "hm' = hm1\<lparr>hm_list := (hm_list hm1)[b := Some il'], hm_item_size := hm_item_size hm1 + 1\<rparr>"
        using ins by simp_all
      have il1: "map (item_of hm (il_cells il1)) [0..<il_size il1] = list_items hm il"
        using gs by (simp add: list_items_def)
      have items: "list_items hm il' = take m (list_items hm il) @ (fn name, fd d) # drop m (list_items hm il)"
        using insert_new_items [OF tab, of "il_cells il1" "il_maxn il1" m "il_size il1" name d] gs m1
        unfolding il1 by (simp add: list_items_def il'_def c_def)
      have "length c = il_maxn il1 * hm_step hm"
        unfolding c_def by (rule item_dupl_laws(1) [OF tab]) (use gs m1 in auto)
      then have ok: "list_ok hm fn b il'" "fn name \<notin> fst ` set (list_items hm il)"
        using list_ok_insert [OF inv tab _ refl, of name b m il' "fd d"] find new items gs m1 il by (simp_all add: il'_def)
      have "fst (list_items hm il' ! m) = fn name" using items m by (simp add: nth_append)
      moreover have "map_of (list_items hm il') = (map_of (list_items hm il))(fn name \<mapsto> fd d)"
        unfolding items by (rule map_of_insert_at [OF ok(2)])
      ultimately have "hm_inv hm' fn \<and> tab hm' \<and> hm_map hm' = (hm_map hm)(fn name \<mapsto> fd d)
        \<and> xu_hash_map_index_make (b + 1) (m + 1) \<noteq> 0 \<and> xu_hash_map_index_make (b + 1) (m + 1) = xu_hash_map_find hm' name"
        by (intro insert_done [OF inv tab b(2) ok(1)]) (use e gs m m1 new in \<open>simp_all add: same_table_def il'_def\<close>)
      then show ?thesis using e by simp
    qed
  next
    case fresh
    show ?thesis
    proof (cases "malloc0 (hm_item_grow hm * hm_step hm)")
      case None
      then have e: "itor = 0" "hm' = hm" using ins fresh find st b(1) by (simp_all add: xu_hash_map_insert_def Let_def)
      moreover have "hm_map hm (fn name) = None" using absent_map [OF inv tab] find fresh(1) by simp
      ultimately show ?thesis using None by blast
    next
      case (Some c)
      have len: "length c = hm_item_grow hm * hm_step hm" by (rule zero [OF Some])
      have g: "0 < hm_item_grow hm" "hm_item_grow hm \<le> 256" using inv by (auto simp: hm_inv_def)
      have m: "m = 0" using sp(4) fresh by simp
      define il' where "il' = \<lparr>il_size = 1, il_maxn = hm_item_grow hm, il_cells = item_dupl hm c 0 name d\<rparr>"
      have e: "itor = xu_hash_map_index_make (b + 1) (m + 1)" "hm' = hm\<lparr>hm_list := (hm_list hm)[b := Some il'],
          hm_item_maxn := hm_item_maxn hm + il_maxn il', hm_item_size := hm_item_size hm + 1\<rparr>"
        using ins fresh find st b(1) Some m by (simp_all add: xu_hash_map_insert_def Let_def il'_def)
      have items: "list_items hm il' = [(fn name, fd d)]"
        using item_dupl_laws(2) [OF tab len g(1), of 0 name d] g by (simp add: list_items_def il'_def)
      have ok: "list_ok hm fn b il'"
        using list_ok_insert(1) [OF inv tab _ refl, of name b m il' "fd d"] find fresh items g m
          item_dupl_laws(1) [OF tab len g(1), of name d] by (simp add: il'_def)
      have "hm_inv hm' fn \<and> tab hm' \<and> hm_map hm' = (hm_map hm)(fn name \<mapsto> fd d)
        \<and> xu_hash_map_index_make (b + 1) (m + 1) \<noteq> 0 \<and> xu_hash_map_index_make (b + 1) (m + 1) = xu_hash_map_find hm' name"
        by (intro insert_done [OF inv tab b(2) ok]) (use e m fresh items in \<open>simp_all add: same_table_def il'_def\<close>)
      then show ?thesis using e by simp
    qed
  qed
qed

text \<open>Removing the items of a bucket from one place up to another.\<close>

lemma remove_items:
  assumes tab: "tab hm" and len: "length c = m * hm_step hm" and k: "j \<le> k" "k \<le> n" "n \<le> m"
    and same: "\<And>i. i < m \<Longrightarrow> \<not> (j \<le> i \<and> i < k) \<Longrightarrow> item_of hm c i = item_of hm c0 i"
  shows "map (item_of hm (if k < n then mem_move c (j * hm_step hm) (k * hm_step hm) ((n - k) * hm_step hm) else c)) [0..<n - (k - j)]
    = take j (map (item_of hm c0) [0..<n]) @ drop k (map (item_of hm c0) [0..<n])"
proof (rule nth_equalityI)
  fix i assume "i < length (map (item_of hm (if k < n then mem_move c (j * hm_step hm) (k * hm_step hm) ((n - k) * hm_step hm) else c)) [0..<n - (k - j)])"
  then have i: "i < n - (k - j)" by simp
  then have im: "i < m" using k by simp
  have "j + (n - k) = n - (k - j)" using k by simp
  then have "item_of hm (mem_move c (j * hm_step hm) (k * hm_step hm) ((n - k) * hm_step hm)) i
      = (if j \<le> i then item_of hm c (k + (i - j)) else item_of hm c i)"
    using item_of_move [OF tab len im, of j k "n - k"] i by auto
  moreover have "item_of hm c (k + (i - j)) = item_of hm c0 (k + (i - j))" if "j \<le> i" using i k that by (intro same) auto
  moreover have "item_of hm c i = item_of hm c0 i" if "i < j" using i k that by (intro same) auto
  ultimately show "map (item_of hm (if k < n then mem_move c (j * hm_step hm) (k * hm_step hm) ((n - k) * hm_step hm) else c)) [0..<n - (k - j)] ! i
    = (take j (map (item_of hm c0) [0..<n]) @ drop k (map (item_of hm c0) [0..<n])) ! i"
    using i k by (auto simp: nth_append min_def)
qed (use k in auto)

lemma sorted_range:
  assumes "sorted_wrt P xs" and "j \<le> k"
  shows "sorted_wrt P (take j xs @ drop k xs)"
proof -
  have d: "drop k xs = drop (k - j) (drop j xs)" using assms(2) by simp
  have "sorted_wrt P (take j xs @ drop j xs)" using assms(1) by simp
  then show ?thesis unfolding d sorted_wrt_append by (auto simp: sorted_wrt_drop simp del: drop_drop dest: in_set_dropD)
qed

lemma list_ok_range:
  assumes "list_ok hm fn b il" and "list_items hm il' = take j (list_items hm il) @ drop k (list_items hm il)" and "j \<le> k"
    and "il_maxn il' = il_maxn il" "length (il_cells il') = length (il_cells il)"
  shows "list_ok hm fn b il'"
proof -
  have "length (list_items hm il') \<le> length (list_items hm il)" unfolding assms(2) using assms(3) by simp
  then have "il_size il' \<le> il_size il" by simp
  moreover have "set (list_items hm il') \<subseteq> set (list_items hm il)"
    unfolding assms(2) by (auto dest: in_set_takeD in_set_dropD)
  ultimately show ?thesis
    using assms(1,4,5) sorted_range [OF _ assms(3)] unfolding list_ok_def assms(2) by auto
qed

lemma itor_remove_change:
  assumes inv: "hm_inv hm fn" and tab: "tab hm" and b: "b < hm_hash_size hm" and m: "m < length (slot_items hm (hm_list hm ! b))"
    and hm': "hm' = xu_hash_map_itor_remove hm (xu_hash_map_index_make (b + 1) (m + 1))"
  obtains slot where "hm_inv hm' fn" "tab hm'" "same_table hm hm'" "hm_list hm' = (hm_list hm)[b := slot]"
    "slot_items hm slot = take m (slot_items hm (hm_list hm ! b)) @ drop (m + 1) (slot_items hm (hm_list hm ! b))"
    "\<And>k. hm_map hm' k = (if hm_bucket hm k = b then map_of (slot_items hm slot) k else hm_map hm k)"
proof -
  obtain il where il: "hm_list hm ! b = Some il" "m < il_size il" using m by (cases "hm_list hm ! b") auto
  have ok: "list_ok hm fn b il" by (rule invD(3) [OF inv tab b il(1)])
  then have len: "length (il_cells il) = il_maxn il * hm_step hm" "il_size il \<le> il_maxn il" by (simp_all add: list_ok_def)
  let ?c = "item_free hm (il_cells il) m" and ?n = "il_size il"
  define c where "c = (if m + 1 < ?n then mem_move ?c (m * hm_step hm) ((m + 1) * hm_step hm) ((?n - (m + 1)) * hm_step hm) else ?c)"
  define slot where "slot = (if ?n > 1 then Some (il\<lparr>il_cells := c, il_size := ?n - 1\<rparr>) else None)"
  have e: "hm' = hm\<lparr>hm_list := (hm_list hm)[b := slot], hm_item_size := hm_item_size hm - 1\<rparr>"
    using il slot_position [OF inv b m] by (simp add: hm' xu_hash_map_itor_remove_def Let_def slot_def c_def less_diff_conv)
  have fr: "length ?c = il_maxn il * hm_step hm" "\<And>i. i < il_maxn il \<Longrightarrow> \<not> (m \<le> i \<and> i < m + 1) \<Longrightarrow> item_of hm ?c i = item_of hm (il_cells il) i"
    using item_free_laws(1) [OF tab len(1)] by (simp, intro item_free_laws(2) [OF tab len(1)]) auto
  have items: "map (item_of hm c) [0..<?n - 1] = take m (list_items hm il) @ drop (m + 1) (list_items hm il)"
    using remove_items [OF tab fr(1), of m "m + 1" ?n "il_cells il"] fr(2) il(2) len(2) by (simp add: c_def list_items_def)
  then have s: "slot_items hm slot = take m (list_items hm il) @ drop (m + 1) (list_items hm il)"
    using il(2) by (auto simp: slot_def list_items_def)
  have "slot_ok hm fn b slot"
    using list_ok_range [OF ok, of "il\<lparr>il_cells := c, il_size := ?n - 1\<rparr>" m "m + 1"] items fr(1) len(1)
    by (simp add: slot_def list_items_def c_def)
  moreover have "1 \<le> hm_item_size hm" using slot_le_size [OF inv b] m by simp
  moreover have "length (slot_items hm slot) + 1 = ?n" unfolding s using il(2) by simp
  ultimately show ?thesis
    using change_bucket [OF inv tab b, of slot hm'] e s il
    by (intro that [of slot]) (auto simp: same_table_def slot_def)
qed

lemma remove_map:
  assumes inv: "hm_inv hm fn" and tab: "tab hm"
  shows "hm_inv (xu_hash_map_remove hm name) fn \<and> tab (xu_hash_map_remove hm name)
    \<and> hm_map (xu_hash_map_remove hm name) = (hm_map hm)(fn name := None)"
proof -
  obtain found b m where find: "xu_hash_map_item_find hm name = (found, b, m)" by (cases "xu_hash_map_item_find hm name")
  note sp = item_find_split [OF inv tab find]
  show ?thesis
  proof (cases found)
    case False
    then have "hm_map hm (fn name) = None" using absent_map [OF inv tab] find by simp
    moreover have "xu_hash_map_remove hm name = hm" using find False by (simp add: xu_hash_map_remove_def)
    ultimately show ?thesis using inv tab by (simp add: fun_upd_idem)
  next
    case True
    let ?xs = "slot_items hm (hm_list hm ! b)" and ?r = "xu_hash_map_remove hm name"
    have b: "b = hm_bucket hm name" "b < hm_hash_size hm" using sp by simp_all
    have m: "m < length ?xs" "fst (?xs ! m) = fn name" using sp(3) True by auto
    have r: "?r = xu_hash_map_itor_remove hm (xu_hash_map_index_make (b + 1) (m + 1))"
      using find True by (simp add: xu_hash_map_remove_def)
    obtain slot where ch: "hm_inv ?r fn" "tab ?r" "slot_items hm slot = take m ?xs @ drop (m + 1) ?xs"
      "\<And>k. hm_map ?r k = (if hm_bucket hm k = b then map_of (slot_items hm slot) k else hm_map hm k)"
      by (rule itor_remove_change [OF inv tab b(2) m(1) r]) blast
    have "slot_ok hm fn b (hm_list hm ! b)" using inv b by (simp add: hm_inv_def)
    then have "map_of (slot_items hm slot) = (map_of ?xs)(fn name := None)"
      using map_of_remove_at [OF slot_distinct m(1)] tab m(2) ch(3) by simp
    then have "hm_map ?r k = ((hm_map hm)(fn name := None)) k" for k
      using ch(4) [of k] invD(4) [OF inv tab, of k] invD(2) [OF inv tab, of name] b(1) by auto
    then show ?thesis using ch(1,2) by blast
  qed
qed

lemma clear_map:
  assumes "hm_inv hm fn" and "tab hm"
  shows "hm_inv (xu_hash_map_clear hm) fn \<and> tab (xu_hash_map_clear hm) \<and> hm_map (xu_hash_map_clear hm) = Map.empty"
proof -
  have "xu_hash_map_clear hm = hm\<lparr>hm_list := replicate (hm_hash_size hm) None, hm_item_size := 0, hm_item_maxn := 0, hm_item := (0, 0)\<rparr>"
    using assms step_pos [OF assms(2)] by (simp add: xu_hash_map_clear_def hm_inv_def)
  moreover have "concat (map (slot_items h) (replicate n None)) = []" for h n by (induction n) simp_all
  ultimately show ?thesis
    using assms by (simp add: hm_inv_def hm_map_def hm_items_def sum_list_replicate)
qed

lemma init_map:
  assumes "bucket_size \<le> 65536" and "xu_hash_map_init True True bucket_size en ed = r"
  obtains hm where "r = Some hm" "hm_inv hm fn" "tab hm" "hm_map hm = Map.empty"
proof -
  define bs where "bs = (if bucket_size = 0 then XU_HASH_MAP_BUCKET_SIZE_DEFAULT else bucket_size)"
  have bs: "0 < bs" "bs \<le> 65536" using assms(1) by (auto simp: bs_def XU_HASH_MAP_BUCKET_SIZE_DEFAULT_def)
  have ub: "unat (of_nat bs :: u64) = bs" "unat (of_nat bs :: u32) = bs" using bs by (simp_all add: unsigned_of_nat take_bit_nat_eq_self)
  have pow: "\<exists>k. unat (xu_align_pow2 (of_nat n)) = 2 ^ k \<and> (if n \<le> 1 then k = 0 else 2 ^ k < 2 * n)" if "n \<le> 65536" for n
  proof -
    have un: "unat (of_nat n :: u64) = n" using that by (simp add: unsigned_of_nat take_bit_nat_eq_self)
    then have lt: "unat (of_nat n :: u64) < 2 ^ 32" using that by simp
    show ?thesis by (rule align_pow2_value [OF lt]) (use un in auto)
  qed
  obtain k where k: "unat (xu_align_pow2 (of_nat bs)) = 2 ^ k" "if bs \<le> 1 then k = 0 else 2 ^ k < 2 * bs"
    using pow [OF bs(2)] by blast
  have "k \<le> 16"
  proof (rule ccontr)
    assume "\<not> k \<le> 16"
    then have "(2 :: nat) ^ 17 \<le> 2 ^ k" by (intro power_increasing) auto
    then show False using k(2) bs by (cases "bs \<le> 1") auto
  qed
  then have hs: "2 ^ k \<le> (65536 :: nat)" using power_increasing [of k 16 "2 :: nat"] by simp
  define g where "g = (let g = unat (xu_isqrti (of_nat bs)) in if g < 8 then 8 else g)"
  have "is_sqrt (unat (xu_isqrti (of_nat bs))) bs"
    using isqrti_root [of "of_nat bs"] ub bs by (simp add: word_less_nat_alt split: if_splits)
  then have sq: "unat (xu_isqrti (of_nat bs)) * unat (xu_isqrti (of_nat bs)) \<le> 65536" using bs by (simp add: is_sqrt_def)
  have "unat (xu_isqrti (of_nat bs)) \<le> 256"
  proof (rule ccontr)
    assume "\<not> unat (xu_isqrti (of_nat bs)) \<le> 256"
    then have "257 * 257 \<le> unat (xu_isqrti (of_nat bs)) * unat (xu_isqrti (of_nat bs))" by (intro mult_le_mono) simp_all
    then show False using sq by simp
  qed
  then have g: "8 \<le> g" "g \<le> 256" by (auto simp: g_def Let_def)
  obtain j where j: "unat (xu_align_pow2 (of_nat g)) = 2 ^ j" "2 ^ j < 2 * g" using pow [of g] g by auto
  have "j < 9" using j(2) g power_less_imp_less_exp [of "2 :: nat" j 9] by simp
  then have gr: "0 < (2 :: nat) ^ j" "2 ^ j \<le> (256 :: nat)" using power_increasing [of j 8 "2 :: nat"] by simp_all
  let ?hm = "\<lparr>hm_list = replicate (2 ^ k) None, hm_hash_size = 2 ^ k, hm_item = (0, 0), hm_item_size = 0,
    hm_item_maxn = 0, hm_item_grow = 2 ^ j, hm_name = en, hm_data = ed\<rparr>"
  have "r = Some ?hm"
    using assms(2) bs hs k(1) j(1) name.size_pos
    by (simp add: xu_hash_map_init_def Let_def bs_def [symmetric] g_def [unfolded Let_def, symmetric]
        XU_HASH_MAP_BUCKET_SIZE_LARGE_def XU_HASH_MAP_BUCKET_MAXN_def)
  moreover have "concat (map (slot_items h) (replicate n None)) = []" for h n by (induction n) simp_all
  then have "hm_inv ?hm fn" "hm_map ?hm = Map.empty"
    using hs gr by (simp_all add: hm_inv_def hm_map_def hm_items_def sum_list_replicate)
  ultimately show ?thesis using that by simp
qed

section \<open>Iteration\<close>

lemma locate_item:
  assumes inv: "hm_inv hm fn" and i: "i < length (hm_items hm)"
  obtains b m where "b < hm_hash_size hm" "m < length (slot_items hm (hm_list hm ! b))" "i = start (buckets hm) b + m"
    "hm_pos hm i = xu_hash_map_index_make (b + 1) (m + 1)" "hm_items hm ! i = slot_items hm (hm_list hm ! b) ! m"
proof -
  obtain b m where b: "b < length (buckets hm)" "m < length (buckets hm ! b)" "i = start (buckets hm) b + m"
    using concat_locate i unfolding hm_items_def by blast
  then show ?thesis
    using that [of b m] pos_start(2) [of b hm m] concat_nth [OF b(1,2)] inv by (simp add: hm_items_def hm_inv_def)
qed

lemma first_bucket_pos:
  assumes "hm_inv hm fn" and "b \<le> hm_hash_size hm"
  shows "first_bucket hm b = hm_pos hm (start (buckets hm) b)"
  using assms
proof (induction hm b rule: first_bucket.induct)
  case (1 hm b)
  have len: "length (hm_list hm) = hm_hash_size hm" using "1.prems"(1) by (simp add: hm_inv_def)
  show ?case
  proof (cases "b < hm_hash_size hm")
    case False
    then have "start (buckets hm) b = length (hm_items hm)" using "1.prems"(2) len by (simp add: start_simps hm_items_def)
    then show ?thesis using False by (simp add: first_bucket.simps [of hm b] pos_start(3))
  next
    case True
    show ?thesis
    proof (cases "slot_items hm (hm_list hm ! b) = []")
      case empty: True
      then have "start (buckets hm) (b + 1) = start (buckets hm) b" using True len by (simp add: start_simps)
      moreover have "first_bucket hm b = first_bucket hm (b + 1)"
        using True empty by (cases "hm_list hm ! b") (simp_all add: first_bucket.simps [of hm b] flip: length_0_conv)
      moreover have "first_bucket hm (b + 1) = hm_pos hm (start (buckets hm) (b + 1))"
        using "1.IH"(1) [OF True] "1.IH"(2) [OF True] "1.prems"(1) True empty
        by (cases "hm_list hm ! b") (simp_all flip: length_0_conv)
      ultimately show ?thesis by simp
    next
      case False
      then obtain il where il: "hm_list hm ! b = Some il" "il_size il \<noteq> 0" by (cases "hm_list hm ! b") (auto simp flip: length_0_conv)
      then show ?thesis using pos_start(2) [of b hm 0] True len by (simp add: first_bucket.simps [of hm b])
    qed
  qed
qed

lemma itor_next_pos:
  assumes inv: "hm_inv hm fn" and i: "i < length (hm_items hm)"
  shows "xu_hash_map_itor_next hm (hm_pos hm i) = hm_pos hm (i + 1)"
proof -
  have len: "length (hm_list hm) = hm_hash_size hm" using inv by (simp add: hm_inv_def)
  obtain b m where l: "b < hm_hash_size hm" "m < length (slot_items hm (hm_list hm ! b))" "i = start (buckets hm) b + m"
    "hm_pos hm i = xu_hash_map_index_make (b + 1) (m + 1)" by (rule locate_item [OF assms])
  then obtain il where il: "hm_list hm ! b = Some il" by (cases "hm_list hm ! b") auto
  note p = slot_position [OF inv l(1,2)]
  show ?thesis
  proof (cases "m + 1 < il_size il")
    case True
    then show ?thesis using il p l pos_start(2) [of b hm "m + 1"] len by (simp add: xu_hash_map_itor_next_def Let_def)
  next
    case False
    then have "m + 1 = il_size il" using l(2) il by simp
    then have "i + 1 = start (buckets hm) (b + 1)" using l(1,3) il len by (simp add: start_simps)
    then show ?thesis
      using False il p l first_bucket_pos [OF inv, of "b + 1"] by (simp add: xu_hash_map_itor_next_def Let_def)
  qed
qed

lemma pos_nonzero:
  assumes "hm_inv hm fn" and "i < length (hm_items hm)"
  shows "hm_pos hm i \<noteq> 0"
proof -
  obtain b m where l: "b < hm_hash_size hm" "m < length (slot_items hm (hm_list hm ! b))"
    "hm_pos hm i = xu_hash_map_index_make (b + 1) (m + 1)" by (rule locate_item [OF assms])
  show ?thesis
    unfolding l(3) using slot_position(1) [OF assms(1) l(1,2)] by (intro notI) (simp add: xu_hash_map_index_buck_def)
qed

lemma itor_item_pos:
  assumes inv: "hm_inv hm fn" and tab: "tab hm" and i: "i < length (hm_items hm)"
  shows "snd (xu_hash_map_itor_item hm (hm_pos hm i)) = Some (hm_items hm ! i)"
proof -
  obtain b m where l: "b < hm_hash_size hm" "m < length (slot_items hm (hm_list hm ! b))"
    "hm_pos hm i = xu_hash_map_index_make (b + 1) (m + 1)" "hm_items hm ! i = slot_items hm (hm_list hm ! b) ! m"
    by (rule locate_item [OF inv i])
  then show ?thesis using itor_item_at [OF inv l(1,2)] item_at_nth [OF inv tab l(1), of m] by (simp add: Let_def)
qed

section \<open>Removing a range\<close>

lemma nremove_bucket_change:
  assumes inv: "hm_inv hm fn" and tab: "tab hm" and b: "b < hm_hash_size hm"
    and xs: "xs = slot_items hm (hm_list hm ! b)" and tt: "tt = (if b = lst \<and> nx \<noteq> 0 then item_tail else length xs)"
    and item: "item \<le> tt" "tt \<le> length xs" and hm': "hm' = nremove_bucket hm b item lst nx item_tail"
  shows "hm_inv hm' fn \<and> same_table hm hm'
    \<and> (\<exists>slot. hm_list hm' = (hm_list hm)[b := slot] \<and> slot_items hm slot = take item xs @ drop tt xs)"
proof (cases "\<exists>il. hm_list hm ! b = Some il \<and> il_size il \<noteq> 0 \<and> item < tt")
  case False
  then have "item = tt \<or> xs = []" using item xs by (cases "hm_list hm ! b") (auto simp flip: length_0_conv)
  then have "take item xs @ drop tt xs = xs" by auto
  moreover have "hm' = hm"
    using False item xs tt by (cases "hm_list hm ! b") (auto simp: hm' nremove_bucket_def Let_def)
  moreover have "hm_list hm = (hm_list hm)[b := hm_list hm ! b]" by simp
  ultimately show ?thesis using inv xs by (intro conjI exI [of _ "hm_list hm ! b"]) (simp_all add: same_table_def)
next
  case True
  then obtain il where il: "hm_list hm ! b = Some il" "il_size il \<noteq> 0" "item < tt" by blast
  have ok: "list_ok hm fn b il" by (rule invD(3) [OF inv tab b il(1)])
  then have len: "length (il_cells il) = il_maxn il * hm_step hm" "il_size il \<le> il_maxn il" by (simp_all add: list_ok_def)
  have xl: "xs = list_items hm il" "length xs = il_size il" using xs il(1) by simp_all
  define c where "c = fold (\<lambda>i c. item_free hm c i) [item..<tt] (il_cells il)"
  define d where "d = (if tt < il_size il then mem_move c (item * hm_step hm) (tt * hm_step hm) ((il_size il - tt) * hm_step hm) else c)"
  define il' where "il' = il\<lparr>il_cells := d, il_size := il_size il - (tt - item)\<rparr>"
  have move: "(b = lst \<and> tt < il_size il) = (tt < il_size il)" using tt xl by auto
  have t: "(if b = lst \<and> nx \<noteq> 0 then item_tail else il_size il) = tt" using tt xl by simp
  have "hm' = (if il_size il = 0 \<or> \<not> item < tt then hm
      else hm\<lparr>hm_list := (hm_list hm)[b := Some il'], hm_item_size := hm_item_size hm - (tt - item)\<rparr>)"
    by (simp only: hm' nremove_bucket_def il(1) option.case Let_def t move c_def d_def il'_def)
  then have e: "hm' = hm\<lparr>hm_list := (hm_list hm)[b := Some il'], hm_item_size := hm_item_size hm - (tt - item)\<rparr>"
    using il(2,3) by simp
  have fr: "length c = il_maxn il * hm_step hm" "\<And>i. i < il_maxn il \<Longrightarrow> \<not> (item \<le> i \<and> i < tt) \<Longrightarrow> item_of hm c i = item_of hm (il_cells il) i"
    using items_free_laws [OF tab len(1), of item tt] il(3) by (auto simp: c_def)
  have items: "list_items hm il' = take item xs @ drop tt xs"
    using remove_items [OF tab fr(1), of item tt "il_size il" "il_cells il"] fr(2) il(3) len(2) item xl
    by (simp add: list_items_def il'_def d_def)
  have "list_ok hm fn b il'"
    by (rule list_ok_range [OF ok, of _ item tt]) (use items xl item fr(1) len in \<open>simp_all add: il'_def d_def\<close>)
  moreover have "length (list_items hm il') + (tt - item) = length xs" unfolding items using item by simp
  moreover have "tt - item \<le> hm_item_size hm" using slot_le_size [OF inv b] xs item by simp
  moreover have "same_table hm hm'" using e by (simp add: same_table_def)
  ultimately have "hm_inv hm' fn"
    using change_bucket(1) [OF inv tab b, of "Some il'" hm'] e il(1) xl by (simp add: il'_def)
  then show ?thesis using e items by (intro conjI exI [of _ "Some il'"]) (simp_all add: same_table_def)
qed

lemma nremove_loop_change:
  assumes "hm_inv hm fn" and "tab hm" and "lst < hm_hash_size hm"
    and "\<And>c. tt c = (if c = lst \<and> nx \<noteq> 0 then item_tail else length (slot_items hm (hm_list hm ! c)))"
    and "b \<le> lst \<Longrightarrow> item \<le> tt b" and "tt lst \<le> length (slot_items hm (hm_list hm ! lst))"
  shows "hm_inv (nremove_loop hm b item lst nx item_tail) fn \<and> same_table hm (nremove_loop hm b item lst nx item_tail)
    \<and> (\<forall>c < hm_hash_size hm. slot_items hm (hm_list (nremove_loop hm b item lst nx item_tail) ! c)
       = (let xs = slot_items hm (hm_list hm ! c) in
          if b \<le> c \<and> c \<le> lst then take (if c = b then item else 0) xs @ drop (tt c) xs else xs))"
  using assms
proof (induction hm b item lst nx item_tail arbitrary: tt rule: nremove_loop.induct)
  case (1 hm b item lst nx item_tail)
  show ?case
  proof (cases "b \<le> lst")
    case False
    then show ?thesis using "1.prems"(1) by (simp add: nremove_loop.simps [of hm b] same_table_def Let_def)
  next
    case True
    define h1 where "h1 = nremove_bucket hm b item lst nx item_tail"
    have b: "b < hm_hash_size hm" using True "1.prems"(3) by simp
    have len: "length (hm_list hm) = hm_hash_size hm" using "1.prems"(1) by (simp add: hm_inv_def)
    have "tt b \<le> length (slot_items hm (hm_list hm ! b))" using "1.prems"(4,6) by auto
    from nremove_bucket_change [OF "1.prems"(1,2) b refl _ _ this h1_def] "1.prems"(4,5) True
    obtain slot where h1: "hm_inv h1 fn" "same_table hm h1" "hm_list h1 = (hm_list hm)[b := slot]"
      "slot_items hm slot = take item (slot_items hm (hm_list hm ! b)) @ drop (tt b) (slot_items hm (hm_list hm ! b))" by auto
    have tab1: "tab h1" using h1(2) "1.prems"(2) by (simp add: same_table_def)
    have hs: "hm_hash_size h1 = hm_hash_size hm" using h1(2) by (simp add: same_table_def)
    define tt1 where "tt1 c = (if c = lst \<and> nx \<noteq> 0 then item_tail else length (slot_items h1 (hm_list h1 ! c)))" for c
    have other: "hm_list h1 ! c = hm_list hm ! c" if "c \<noteq> b" for c using h1(3) that by simp
    have tt1: "tt1 c = tt c" if "c \<noteq> b" for c using other [OF that] by (simp add: tt1_def "1.prems"(4) same_table [OF h1(2)])
    let ?r = "nremove_loop h1 (b + 1) 0 lst nx item_tail"
    have nil: "nremove_loop h1 (b + 1) 0 lst nx item_tail = h1" if "b = lst"
      using that by (subst nremove_loop.simps) simp
    have r: "hm_inv ?r fn \<and> same_table h1 ?r \<and> (\<forall>c < hm_hash_size h1. slot_items h1 (hm_list ?r ! c)
       = (let xs = slot_items h1 (hm_list h1 ! c) in
          if b + 1 \<le> c \<and> c \<le> lst then take (if c = b + 1 then 0 else 0) xs @ drop (tt1 c) xs else xs))"
    proof (cases "b = lst")
      case True
      then show ?thesis using nil h1(1) by (auto simp: same_table_def Let_def)
    next
      case False
      have tl: "nx \<noteq> 0 \<Longrightarrow> item_tail \<le> length (slot_items hm (hm_list hm ! lst))"
        using "1.prems"(4) [of lst] "1.prems"(6) by simp
      show ?thesis
        by (intro "1.IH" [OF True, folded h1_def])
          (use tl h1(1) tab1 "1.prems"(3,6) hs tt1 False other in \<open>simp_all add: tt1_def same_table [OF h1(2)]\<close>)
    qed
    have "nremove_loop hm b item lst nx item_tail = ?r" using True by (simp add: nremove_loop.simps [of hm b] h1_def)
    moreover have "same_table hm ?r" using r h1(2) by (simp add: same_table_def)
    moreover have "slot_items hm (hm_list ?r ! c) = (let xs = slot_items hm (hm_list hm ! c) in
          if b \<le> c \<and> c \<le> lst then take (if c = b then item else 0) xs @ drop (tt c) xs else xs)" if c: "c < hm_hash_size hm" for c
    proof -
      have "slot_items hm (hm_list ?r ! c) = (let xs = slot_items hm (hm_list h1 ! c) in
          if b + 1 \<le> c \<and> c \<le> lst then drop (tt1 c) xs else xs)"
        using r c hs by (simp add: same_table [OF h1(2)] Let_def)
      then show ?thesis
        using h1(3,4) other [of c] tt1 [of c] True b len by (cases "c = b") (auto simp: Let_def)
    qed
    ultimately show ?thesis using r by simp
  qed
qed

lemma range_head:
  assumes inv: "hm_inv hm fn" and j: "j < length (hm_items hm)"
  shows "(if (if j = 0 then 0 else hm_pos hm (j - 1)) \<noteq> 0
      then xu_hash_map_itor_next hm (if j = 0 then 0 else hm_pos hm (j - 1)) else xu_hash_map_itor_head hm) = hm_pos hm j"
proof (cases "j = 0")
  case True
  then show ?thesis using first_bucket_pos [OF inv, of 0] by (simp add: xu_hash_map_itor_head_def start_def)
next
  case False
  then have "j - 1 < length (hm_items hm)" using j by simp
  then show ?thesis using itor_next_pos [OF inv, of "j - 1"] pos_nonzero [OF inv, of "j - 1"] False by simp
qed

text \<open>Removing the items from one place up to another. The indices of an item count from 1, so that taking 1 away does
  not wrap.\<close>

lemma slot_before:
  assumes "hm_inv hm fn" and "i < length (hm_items hm)"
  shows "sz_sub (xu_hash_map_index_buck (hm_pos hm i)) 1 = xu_hash_map_index_buck (hm_pos hm i) - 1"
    and "sz_sub (xu_hash_map_index_item (hm_pos hm i)) 1 = xu_hash_map_index_item (hm_pos hm i) - 1"
proof -
  have lt: "take_bit 32 x < (2 :: nat) ^ 64" for x by (rule less_trans [OF take_bit_nat_less_exp]) simp
  obtain b m where "b < hm_hash_size hm" "m < length (slot_items hm (hm_list hm ! b))"
    "hm_pos hm i = xu_hash_map_index_make (b + 1) (m + 1)" by (rule locate_item [OF assms])
  then have "1 \<le> xu_hash_map_index_buck (hm_pos hm i)" "1 \<le> xu_hash_map_index_item (hm_pos hm i)"
    using slot_position [OF assms(1)] by simp_all
  then show "sz_sub (xu_hash_map_index_buck (hm_pos hm i)) 1 = xu_hash_map_index_buck (hm_pos hm i) - 1"
    "sz_sub (xu_hash_map_index_item (hm_pos hm i)) 1 = xu_hash_map_index_item (hm_pos hm i) - 1"
    using lt by (simp_all add: sz_sub_small xu_hash_map_index_buck_def xu_hash_map_index_item_def)
qed

text \<open>Without an item behind the place in front the index of the first bucket wraps and the loop has no turn.\<close>

lemma nremove_nothing:
  assumes "(if prev \<noteq> 0 then xu_hash_map_itor_next hm prev else xu_hash_map_itor_head hm) = 0" and "hm_hash_size hm < 2 ^ 64"
  shows "xu_hash_map_itor_nremove hm prev 0 n = hm"
proof -
  have "sz_sub 0 1 = 2 ^ 64 - 1" by (simp add: sz_sub_def)
  then show ?thesis
    using assms by (simp add: xu_hash_map_itor_nremove_def xu_hash_map_index_buck_def nremove_loop.simps Let_def)
qed

lemma nremove_range:
  assumes inv: "hm_inv hm fn" and tab: "tab hm" and n: "n \<noteq> 0" "j + n \<le> length (hm_items hm)"
    and r: "r = xu_hash_map_itor_nremove hm (if j = 0 then 0 else hm_pos hm (j - 1)) (hm_pos hm (j + n)) n"
  shows "hm_inv r fn" and "tab r" and "hm_items r = take j (hm_items hm) @ drop (j + n) (hm_items hm)"
    and "i < j \<Longrightarrow> hm_pos r i = hm_pos hm i"
proof -
  let ?k = "j + n" and ?bs = "buckets hm"
  have len: "length (hm_list hm) = hm_hash_size hm" "0 < hm_hash_size hm" using inv by (simp_all add: hm_inv_def)
  have jl: "j < length (hm_items hm)" using n by simp
  obtain b1 m1 where h: "b1 < hm_hash_size hm" "m1 < length (slot_items hm (hm_list hm ! b1))" "j = start ?bs b1 + m1"
    "hm_pos hm j = xu_hash_map_index_make (b1 + 1) (m1 + 1)" by (rule locate_item [OF inv jl])
  define lst where "lst = (if ?k < length (hm_items hm) then xu_hash_map_index_buck (hm_pos hm ?k) - 1 else hm_hash_size hm - 1)"
  define itl where "itl = (if ?k < length (hm_items hm) then xu_hash_map_index_item (hm_pos hm ?k) - 1 else 2 ^ 64 - 1)"
  define tt where "tt c = (if c = lst \<and> hm_pos hm ?k \<noteq> 0 then itl else length (slot_items hm (hm_list hm ! c)))" for c
  have nz: "hm_pos hm ?k \<noteq> 0 \<longleftrightarrow> ?k < length (hm_items hm)"
    using pos_nonzero [OF inv, of ?k] pos_start(3) [of hm] n(2) by (cases "?k = length (hm_items hm)") auto
  text \<open>The end of the range in terms of the buckets.\<close>
  have en: "lst < hm_hash_size hm \<and> tt lst \<le> length (slot_items hm (hm_list hm ! lst)) \<and> start ?bs lst + tt lst = ?k"
  proof (cases "?k < length (hm_items hm)")
    case True
    obtain b m where "b < hm_hash_size hm" "m < length (slot_items hm (hm_list hm ! b))" "?k = start ?bs b + m"
      "hm_pos hm ?k = xu_hash_map_index_make (b + 1) (m + 1)" by (rule locate_item [OF inv True])
    moreover from this have "lst = b" "itl = m" using True slot_position [OF inv] by (simp_all add: lst_def itl_def)
    ultimately show ?thesis using True nz by (simp add: tt_def)
  next
    case False
    then have "?k = length (concat ?bs)" "lst = hm_hash_size hm - 1" using n(2) by (simp_all add: lst_def hm_items_def)
    then show ?thesis
      using False nz len start_simps(2) [of ?bs "hm_hash_size hm"] start_simps(3) [of lst ?bs] by (simp add: tt_def)
  qed
  have b1l: "b1 \<le> lst"
  proof (rule ccontr)
    assume "\<not> b1 \<le> lst"
    then have "start ?bs lst + length (?bs ! lst) \<le> start ?bs b1" using en len by (intro start_less) auto
    then show False using en h(3) n(1) len by simp
  qed
  have item: "m1 \<le> tt b1"
  proof (cases "b1 = lst")
    case True
    then show ?thesis using en h(3) by simp
  next
    case False
    then show ?thesis using h(2) by (simp add: tt_def)
  qed
  have e: "r = nremove_loop hm b1 m1 lst (hm_pos hm ?k) itl"
  proof -
    have "r = (let itor = hm_pos hm j; buck_head = xu_hash_map_index_buck itor - 1; item_head = xu_hash_map_index_item itor - 1
        in nremove_loop hm buck_head item_head lst (hm_pos hm ?k) itl)"
      unfolding r xu_hash_map_itor_nremove_def Let_def range_head [OF inv jl]
      using n(1) nz slot_before [OF inv jl] slot_before [OF inv, of ?k] by (simp add: lst_def itl_def)
    then show ?thesis using slot_position [OF inv h(1,2)] h(4) by (simp add: Let_def)
  qed
  have ch: "hm_inv r fn" "same_table hm r" "\<And>c. c < hm_hash_size hm \<Longrightarrow> slot_items hm (hm_list r ! c) =
      (let xs = slot_items hm (hm_list hm ! c) in if b1 \<le> c \<and> c \<le> lst then take (if c = b1 then m1 else 0) xs @ drop (tt c) xs else xs)"
    using nremove_loop_change [OF inv tab _ _ _ _, of lst tt "hm_pos hm ?k" itl b1 m1] en item b1l
    unfolding e tt_def by auto
  show "hm_inv r fn" by (rule ch)
  show "tab r" using ch(2) tab by (simp add: same_table_def)
  have lr: "length (hm_list r) = hm_hash_size hm" using ch(1,2) by (simp add: hm_inv_def same_table_def)
  define A where "A = {i. i < j \<or> ?k \<le> i}"
  have bucket: "slot_items hm (hm_list r ! c) = nths (?bs ! c) {m. start ?bs c + m \<in> A}" if c: "c < hm_hash_size hm" for c
  proof -
    let ?xs = "slot_items hm (hm_list hm ! c)"
    define lo where "lo = (if c < b1 then length ?xs else if c = b1 then m1 else 0)"
    define hi where "hi = (if c < b1 \<or> lst < c then lo else tt c)"
    have bs: "?bs ! c = ?xs" using c len by simp
    have tc: "tt c \<le> length ?xs" using en by (cases "c = lst") (simp_all add: tt_def)
    have lh: "lo \<le> hi" "hi \<le> length ?xs" using tc item h(2) by (auto simp: lo_def hi_def)
    have "slot_items hm (hm_list r ! c) = take lo ?xs @ drop hi ?xs"
      using ch(3) [OF c] b1l by (auto simp: lo_def hi_def Let_def)
    also have "\<dots> = nths ?xs {m. m < lo \<or> hi \<le> m}" using nths_range [OF lh] by simp
    also have "\<dots> = nths ?xs {m. start ?bs c + m \<in> A}"
    proof (rule nths_congr)
      fix m assume m: "m < length ?xs"
      consider "c < b1" | "b1 \<le> c" "c \<le> lst" | "lst < c" by linarith
      then show "m \<in> {m. m < lo \<or> hi \<le> m} \<longleftrightarrow> m \<in> {m. start ?bs c + m \<in> A}"
      proof cases
        case 1
        then have "start ?bs c + length ?xs \<le> start ?bs b1" using start_less [of c b1 ?bs] c len by simp
        then show ?thesis using m h(3) 1 by (simp add: lo_def A_def)
      next
        case 2
        have "start ?bs b1 + length (?bs ! b1) \<le> start ?bs c" if "b1 < c" using start_less [OF that, of ?bs] h(1) len by simp
        then have "m < lo \<longleftrightarrow> start ?bs c + m < j" using 2 h(1,2,3) len by (cases "c = b1") (auto simp: lo_def)
        moreover have "start ?bs c + length ?xs \<le> start ?bs lst" if "c < lst" using start_less [OF that, of ?bs] c len by simp
        then have "hi \<le> m \<longleftrightarrow> ?k \<le> start ?bs c + m" using 2 en m by (cases "c = lst") (auto simp: hi_def tt_def)
        ultimately show ?thesis by (simp add: A_def)
      next
        case 3
        have "start ?bs lst + length (?bs ! lst) \<le> start ?bs c" using start_less [OF 3, of ?bs] en len by simp
        then show ?thesis using 3 en len b1l by (simp add: hi_def lo_def A_def)
      qed
    qed
    finally show ?thesis unfolding bs .
  qed
  have "map (slot_items hm) (hm_list r) = map (\<lambda>c. nths (?bs ! c) {m. start ?bs c + m \<in> A}) [0..<length ?bs]"
    by (rule nth_equalityI) (use bucket lr len in simp_all)
  then have "hm_items r = nths (hm_items hm) A"
    using nths_concat [of ?bs A] by (simp add: hm_items_def same_table [OF ch(2)])
  then show "hm_items r = take j (hm_items hm) @ drop ?k (hm_items hm)"
    using nths_range [of j ?k "hm_items hm"] n(2) by (simp add: A_def)
  show "hm_pos r i = hm_pos hm i" if ij: "i < j"
  proof -
    have il: "i < length (hm_items hm)" using ij jl by simp
    obtain b m where l: "b < hm_hash_size hm" "m < length (slot_items hm (hm_list hm ! b))" "i = start ?bs b + m"
      "hm_pos hm i = xu_hash_map_index_make (b + 1) (m + 1)" by (rule locate_item [OF inv il])
    have bb: "b \<le> b1"
    proof (rule ccontr)
      assume "\<not> b \<le> b1"
      then have "start ?bs b1 + length (?bs ! b1) \<le> start ?bs b" using h(1) len by (intro start_less) auto
      then show False using l(3) h(1,2,3) ij len by simp
    qed
    have same: "slot_items hm (hm_list r ! c) = slot_items hm (hm_list hm ! c)" if "c < b1" for c
      using ch(3) [of c] that h(1) by (simp add: Let_def)
    have "take b (map (slot_items r) (hm_list r)) = take b ?bs"
      by (rule nth_equalityI) (use same bb lr len in \<open>simp_all add: same_table [OF ch(2)]\<close>)
    then have "start (buckets r) b = start ?bs b" by (simp add: start_def)
    moreover have "m < length (slot_items r (hm_list r ! b))"
    proof (cases "b = b1")
      case True
      then have "m < m1" using l(3) h(3) ij by simp
      then show ?thesis using ch(3) [OF h(1)] True h(2) b1l by (simp add: Let_def same_table [OF ch(2)])
    next
      case False
      then show ?thesis using same [of b] bb l(2) by (simp add: same_table [OF ch(2)])
    qed
    ultimately show ?thesis using pos_start(2) [of b r m] l lr by simp
  qed
qed

lemma remove_one_item:
  assumes inv: "hm_inv hm fn" and tab: "tab hm" and i: "i < length (hm_items hm)"
  shows "hm_inv (xu_hash_map_itor_remove hm (hm_pos hm i)) fn \<and> tab (xu_hash_map_itor_remove hm (hm_pos hm i))
    \<and> hm_items (xu_hash_map_itor_remove hm (hm_pos hm i)) = take i (hm_items hm) @ drop (i + 1) (hm_items hm)"
proof -
  let ?bs = "buckets hm" and ?r = "xu_hash_map_itor_remove hm (hm_pos hm i)"
  obtain b m where l: "b < hm_hash_size hm" "m < length (slot_items hm (hm_list hm ! b))" "i = start ?bs b + m"
    "hm_pos hm i = xu_hash_map_index_make (b + 1) (m + 1)" by (rule locate_item [OF inv i])
  let ?xs = "slot_items hm (hm_list hm ! b)"
  have r: "?r = xu_hash_map_itor_remove hm (xu_hash_map_index_make (b + 1) (m + 1))" by (simp only: l(4))
  obtain slot where ch: "hm_inv ?r fn" "tab ?r" "same_table hm ?r" "hm_list ?r = (hm_list hm)[b := slot]"
    "slot_items hm slot = take m ?xs @ drop (m + 1) ?xs"
    by (rule itor_remove_change [OF inv tab l(1,2) r])
  have bl: "b < length ?bs" using inv l(1) by (simp add: hm_inv_def)
  have "map (slot_items hm) ((hm_list hm)[b := slot]) = ?bs[b := take m ?xs @ drop (m + 1) ?xs]" by (simp add: map_update ch(5))
  also have "\<dots> = take b ?bs @ (take m ?xs @ drop (m + 1) ?xs) # drop (Suc b) ?bs" by (rule upd_conv_take_nth_drop [OF bl])
  finally have items: "hm_items ?r = concat (take b ?bs) @ (take m ?xs @ drop (m + 1) ?xs) @ concat (drop (Suc b) ?bs)"
    by (simp add: hm_items_def same_table [OF ch(3)] ch(4))
  have "?bs = take b ?bs @ ?xs # drop (Suc b) ?bs" using id_take_nth_drop [OF bl] bl by simp
  then have "hm_items hm = concat (take b ?bs) @ ?xs @ concat (drop (Suc b) ?bs)"
    by (metis concat.simps(2) concat_append hm_items_def)
  then show ?thesis using ch(1,2) items l(2,3) by (simp add: start_def)
qed

end

text \<open>So a hash map is a mutable container, and a hash set is one of the names.\<close>

sublocale hash_table \<subseteq> removal: mutable_container hash_map_op "\<lambda>hm. hm_inv hm fn \<and> tab hm" hm_items hm_pos
proof
  show "op_has_mode hash_map_op XU_ITERATOR_MODE_FORWARD" "op_has_mode hash_map_op XU_ITERATOR_MODE_MUTABLE"
    "\<not> op_has_mode hash_map_op XU_ITERATOR_MODE_READONLY"
    by (simp_all add: op_has_mode_def hash_map_op_def iterator_modes)
  fix s i j n s' assume "hm_inv s fn \<and> tab s"
  then have inv: "hm_inv s fn" and tab: "tab s" by simp_all
  show "op_head hash_map_op s = hm_pos s 0"
    using first_bucket_pos [OF inv, of 0] by (simp add: hash_map_op_def xu_hash_map_itor_head_def start_def)
  show tail: "op_tail hash_map_op s = hm_pos s (length (hm_items s))"
    by (simp add: hash_map_op_def xu_hash_map_itor_tail_def pos_start(3))
  show "hm_pos s i \<noteq> hm_pos s (length (hm_items s))" if "i < length (hm_items s)"
    using pos_nonzero [OF inv that] by (simp add: pos_start(3))
  show "op_next hash_map_op s (hm_pos s i) = hm_pos s (i + 1)" if "i < length (hm_items s)"
    using itor_next_pos [OF inv that] by (simp add: hash_map_op_def)
  show "op_item hash_map_op s (hm_pos s i) = hm_items s ! i" if "i < length (hm_items s)"
    using itor_item_pos [OF inv tab that] by (simp add: hash_map_op_def)
  show "(hm_inv (op_remove hash_map_op s (hm_pos s i)) fn \<and> tab (op_remove hash_map_op s (hm_pos s i)))
      \<and> hm_items (op_remove hash_map_op s (hm_pos s i)) = take i (hm_items s) @ drop (i + 1) (hm_items s)"
    if "i < length (hm_items s)"
    using remove_one_item [OF inv tab that] by (simp add: hash_map_op_def)
  show "(hm_inv s' fn \<and> tab s') \<and> hm_items s' = take j (hm_items s) @ drop (j + n) (hm_items s) \<and> (j \<noteq> 0 \<longrightarrow> hm_pos s' (j - 1) = hm_pos s (j - 1))"
    if "j + n \<le> length (hm_items s)" "n \<noteq> 0"
      "s' = op_nremove hash_map_op s (if j = 0 then op_tail hash_map_op s else hm_pos s (j - 1)) (hm_pos s (j + n)) n"
  proof -
    have "s' = xu_hash_map_itor_nremove s (if j = 0 then 0 else hm_pos s (j - 1)) (hm_pos s (j + n)) n"
      using that(3) by (simp add: hash_map_op_def xu_hash_map_itor_tail_def)
    from nremove_range [OF inv tab that(2,1) this] show ?thesis by auto
  qed
qed

sublocale hash_table \<subseteq> set_removal: mutable_container hash_set_op "\<lambda>hm. hm_inv hm fn \<and> tab hm" "\<lambda>hm. map fst (hm_items hm)" hm_pos
proof
  show "op_has_mode hash_set_op XU_ITERATOR_MODE_FORWARD" "op_has_mode hash_set_op XU_ITERATOR_MODE_MUTABLE"
    "\<not> op_has_mode hash_set_op XU_ITERATOR_MODE_READONLY"
    using removal.mode_forward removal.mode_mutable removal.mode_write by (simp_all add: hash_set_op_def op_has_mode_def)
  fix s i j n s' assume inv: "hm_inv s fn \<and> tab s"
  show "op_head hash_set_op s = hm_pos s 0" using removal.head_first [OF inv] by (simp add: hash_set_op_def)
  show "op_tail hash_set_op s = hm_pos s (length (map fst (hm_items s)))"
    using removal.tail_end [OF inv] by (simp add: hash_set_op_def)
  show "hm_pos s i \<noteq> hm_pos s (length (map fst (hm_items s)))" if "i < length (map fst (hm_items s))"
    using removal.pos_tail [OF inv, of i] that by simp
  show "op_next hash_set_op s (hm_pos s i) = hm_pos s (i + 1)" if "i < length (map fst (hm_items s))"
    using removal.next_up [OF inv, of i] that by (simp add: hash_set_op_def)
  show "op_item hash_set_op s (hm_pos s i) = map fst (hm_items s) ! i" if "i < length (map fst (hm_items s))"
    using itor_item_pos [of s i] inv that
    by (cases "xu_hash_map_itor_item s (hm_pos s i)") (simp add: hash_set_op_def xu_hash_set_itor_item_def)
  show "(hm_inv (op_remove hash_set_op s (hm_pos s i)) fn \<and> tab (op_remove hash_set_op s (hm_pos s i)))
      \<and> map fst (hm_items (op_remove hash_set_op s (hm_pos s i))) = take i (map fst (hm_items s)) @ drop (i + 1) (map fst (hm_items s))"
    if "i < length (map fst (hm_items s))"
    using removal.remove_one [OF inv, of i] that by (auto simp: hash_set_op_def take_map drop_map)
  show "(hm_inv s' fn \<and> tab s') \<and> map fst (hm_items s') = take j (map fst (hm_items s)) @ drop (j + n) (map fst (hm_items s))
      \<and> (j \<noteq> 0 \<longrightarrow> hm_pos s' (j - 1) = hm_pos s (j - 1))"
    if "j + n \<le> length (map fst (hm_items s))" "n \<noteq> 0"
      "s' = op_nremove hash_set_op s (if j = 0 then op_tail hash_set_op s else hm_pos s (j - 1)) (hm_pos s (j + n)) n"
    using removal.nremove_range [OF inv, of j n s'] that by (auto simp: hash_set_op_def take_map drop_map)
qed

context hash_table
begin

lemma remove_if_items:
  assumes "hm_inv hm fn" and "tab hm"
  shows "\<exists>r. xu_remove_if hash_map_op hm p = Some r \<and> hm_inv r fn \<and> hm_items r = filter (\<lambda>x. \<not> p x) (hm_items hm)"
    and "\<exists>r. xu_remove_if hash_set_op hm q = Some r \<and> hm_inv r fn \<and> map fst (hm_items r) = filter (\<lambda>x. \<not> q x) (map fst (hm_items hm))"
  using removal.remove_if_filter [of hm p] set_removal.remove_if_filter [of hm q] assms by blast+

lemma iteration:
  assumes "hm_inv hm fn" and "tab hm"
  shows "xu_hash_map_itor_head hm = hm_pos hm 0 \<and> xu_hash_map_itor_tail hm = hm_pos hm (length (hm_items hm))
    \<and> (\<forall>i < length (hm_items hm). hm_pos hm i \<noteq> xu_hash_map_itor_tail hm
        \<and> xu_hash_map_itor_next hm (hm_pos hm i) = hm_pos hm (i + 1)
        \<and> snd (xu_hash_map_itor_item hm (hm_pos hm i)) = Some (hm_items hm ! i))"
  using first_bucket_pos [OF assms(1), of 0] pos_start(3) [of hm] pos_nonzero [OF assms(1)] itor_next_pos [OF assms(1)]
    itor_item_pos [OF assms]
  by (simp add: xu_hash_map_itor_head_def xu_hash_map_itor_tail_def start_def)

end

section \<open>The elements of the library\<close>

text \<open>The elements with what they keep of a value.\<close>

definition key_elements :: "(hash_element \<times> (u64 \<Rightarrow> u64)) list" where
  "key_elements = [(hashed_size, id), (hashed_long, id), (xu_element_ptr, id),
     (xu_element_uint8, low8), (xu_element_uint16, low16), (xu_element_uint32, low32)]"

definition cell_elements :: "(hash_element \<times> (u64 \<Rightarrow> u64)) list" where
  "cell_elements = (xu_element_true, \<lambda>_. 1) # key_elements"

lemma element_tables:
  assumes "(en, fn) \<in> set key_elements" and "(ed, fd) \<in> set cell_elements"
  shows "hash_table en fn ed fd"
proof (rule hash_table.intro)
  show "hash_key en fn"
    using assms(1) key_size key_long key_ptr key_uint8 key_uint16 key_uint32 by (auto simp: key_elements_def)
  show "hash_cell ed fd"
    using assms(2) cell_laws true_law by (auto simp: cell_elements_def key_elements_def)
qed

interpretation size_table: hash_table hashed_size id hashed_size id
  by (rule element_tables) (simp_all add: key_elements_def cell_elements_def)

interpretation byte_set: hash_table xu_element_uint8 low8 xu_element_true "\<lambda>_. 1"
  by (rule element_tables) (simp_all add: key_elements_def cell_elements_def)

section \<open>Properties\<close>

lemma maxn_covers_size:
  assumes "hm_inv hm fn"
  shows "xu_hash_map_size hm \<le> xu_hash_map_maxn hm"
proof -
  have "length (slot_items hm s) \<le> slot_maxn s" if s: "s \<in> set (hm_list hm)" for s
  proof -
    obtain b where "b < hm_hash_size hm" "hm_list hm ! b = s" using s assms by (auto simp: in_set_conv_nth hm_inv_def)
    then have "slot_ok hm fn b s" using assms by (auto simp: hm_inv_def)
    then show ?thesis by (cases s) (auto simp: list_ok_def)
  qed
  then have "sum_list (map (\<lambda>s. length (slot_items hm s)) (hm_list hm)) \<le> sum_list (map slot_maxn (hm_list hm))"
    by (rule sum_list_mono)
  then show ?thesis
    using assms by (simp add: hm_inv_def xu_hash_map_size_def xu_hash_map_maxn_def hm_items_def length_concat o_def)
qed

text \<open>A map from bytes to sizes with four buckets, empty and with the entry of 263, whose low byte is 7.\<close>

definition example_malloc :: "nat \<Rightarrow> u64 list option" where
  "example_malloc n = Some (replicate n 0)"

definition example_realloc :: reallocator where
  "example_realloc d n = Some (take n (the d) @ replicate (n - length (the d)) 0)"

definition example_table :: hash_map where
  "example_table = the (xu_hash_map_init True True 4 xu_element_uint8 hashed_size)"

definition example_filled :: hash_map where
  "example_filled = snd (xu_hash_map_insert example_malloc example_realloc example_table 263 100)"

interpretation byte_table: hash_table xu_element_uint8 low8 hashed_size id
  by (rule element_tables) (simp_all add: key_elements_def cell_elements_def)

lemma example_allocators:
  "ralloc_keeps example_realloc" "example_malloc n = Some c \<Longrightarrow> length c = n" "example_malloc n \<noteq> None" "example_realloc d n \<noteq> None"
  by (auto simp: ralloc_keeps_def example_realloc_def example_malloc_def nth_append)

lemma example_table:
  "hm_inv example_table low8" "hm_name example_table = xu_element_uint8" "hm_data example_table = hashed_size"
  "hm_map example_table = Map.empty" "hm_item_size example_table = 0"
proof -
  obtain h where h: "xu_hash_map_init True True 4 xu_element_uint8 hashed_size = Some h" "hm_inv h low8"
    "hm_name h = xu_element_uint8 \<and> hm_data h = hashed_size" "hm_map h = Map.empty"
    by (rule byte_table.init_map [OF _ refl, of 4]) auto
  moreover from this have "hm_items h = []" by (simp add: hm_map_def)
  ultimately show "hm_inv example_table low8" "hm_name example_table = xu_element_uint8" "hm_data example_table = hashed_size"
    "hm_map example_table = Map.empty" "hm_item_size example_table = 0"
    by (simp_all add: example_table_def hm_inv_def)
qed

lemma low8_263: "low8 263 = 7" by code_simp

lemma example_filled:
  "hm_inv example_filled low8" "hm_name example_filled = xu_element_uint8" "hm_data example_filled = hashed_size"
  "hm_map example_filled = [7 \<mapsto> 100]"
proof -
  obtain itor where "xu_hash_map_insert example_malloc example_realloc example_table 263 100 = (itor, example_filled)"
    unfolding example_filled_def by (metis prod.collapse)
  from byte_table.insert_map [OF example_table(1) _ _ example_allocators(1,2) this] example_table example_allocators(3,4)
  show "hm_inv example_filled low8" "hm_name example_filled = xu_element_uint8" "hm_data example_filled = hashed_size"
    "hm_map example_filled = [7 \<mapsto> 100]" by (auto simp: low8_263)
qed

lemma byte_elements: "(xu_element_uint8, low8) \<in> set key_elements" "(hashed_size, id) \<in> set cell_elements"
  by (simp_all add: key_elements_def cell_elements_def)

text \<open>C31. A hash map over the elements of the library implements a finite map from the names to the data, both
  as their elements keep them: it starts empty, looks up and finds the entry of a name, its size is the number of entries
  and its capacity not smaller, and insertion, removal and clearing are the updates of the map. An insertion whose
  allocation is refused answers 0 and changes nothing, and every other one answers the position of the entry.\<close>

theorem xu_hash_map_refines_map:
  assumes "(en, fn) \<in> set key_elements" and "(ed, fd) \<in> set cell_elements"
    and "hm_inv hm fn" and "hm_name hm = en" "hm_data hm = ed" and "hm_item_size hm < 2 ^ 31"
    and "ralloc_keeps ralloc" and "\<And>n c. malloc0 n = Some c \<Longrightarrow> length c = n" and "bucket_size \<le> 65536"
  shows "(\<exists>h. xu_hash_map_init True True bucket_size en ed = Some h \<and> hm_inv h fn \<and> hm_map h = Map.empty)
    \<and> xu_hash_map_get hm name = hm_map hm (fn name)
    \<and> (xu_hash_map_find hm name \<noteq> 0 \<longleftrightarrow> fn name \<in> dom (hm_map hm))
    \<and> xu_hash_map_size hm = card (dom (hm_map hm)) \<and> xu_hash_map_size hm \<le> xu_hash_map_maxn hm
    \<and> (let (itor, hm') = xu_hash_map_insert malloc0 ralloc hm name d in
         itor = 0 \<and> hm' = hm \<and> hm_map hm (fn name) = None \<and> ((\<exists>n. malloc0 n = None) \<or> (\<exists>c n. ralloc c n = None))
         \<or> hm_inv hm' fn \<and> hm_map hm' = (hm_map hm)(fn name \<mapsto> fd d) \<and> itor = xu_hash_map_find hm' name
           \<and> snd (xu_hash_map_itor_item hm' itor) = Some (fn name, fd d))
    \<and> hm_inv (xu_hash_map_remove hm name) fn \<and> hm_map (xu_hash_map_remove hm name) = (hm_map hm)(fn name := None)
    \<and> hm_inv (xu_hash_map_clear hm) fn \<and> hm_map (xu_hash_map_clear hm) = Map.empty"
proof -
  note tb = element_tables [OF assms(1,2)] and tab = conjI [OF assms(4,5)]
  obtain h where h: "xu_hash_map_init True True bucket_size en ed = Some h" "hm_inv h fn" "hm_map h = Map.empty"
    by (rule hash_table.init_map [OF tb assms(9) refl])
  obtain itor hm' where ins: "xu_hash_map_insert malloc0 ralloc hm name d = (itor, hm')" by fastforce
  have "itor = 0 \<and> hm' = hm \<and> hm_map hm (fn name) = None \<and> ((\<exists>n. malloc0 n = None) \<or> (\<exists>c n. ralloc c n = None))
         \<or> hm_inv hm' fn \<and> hm_map hm' = (hm_map hm)(fn name \<mapsto> fd d) \<and> itor = xu_hash_map_find hm' name
           \<and> snd (xu_hash_map_itor_item hm' itor) = Some (fn name, fd d)"
    using hash_table.insert_map [OF tb assms(3) tab assms(6-8) ins] hash_table.find_map(2) [OF tb, of hm' name] by auto
  then show ?thesis
    using h hash_table.get_map [OF tb assms(3) tab] hash_table.find_map(1) [OF tb assms(3) tab]
      hash_table.size_card(1) [OF tb assms(3) tab] maxn_covers_size [OF assms(3)]
      hash_table.remove_map [OF tb assms(3) tab] hash_table.clear_map [OF tb assms(3) tab]
    by (simp add: ins)
qed

lemma xu_hash_map_refines_map_witness:
  "xu_hash_map_get example_table 7 = None \<and> xu_hash_map_size example_table = 0
   \<and> hm_map (snd (xu_hash_map_insert example_malloc example_realloc example_table 263 100)) = [7 \<mapsto> 100]"
proof -
  have small: "hm_item_size example_table < 2 ^ 31" by (simp add: example_table)
  note ex = xu_hash_map_refines_map [OF byte_elements example_table(1-3) small example_allocators(1),
      where ?malloc0.0 = example_malloc and bucket_size = 4]
  have "xu_hash_map_get example_table 7 = None \<and> xu_hash_map_size example_table = 0"
    using ex [of 7 100] example_allocators(2) by (simp add: example_table)
  moreover have "hm_map (snd (xu_hash_map_insert example_malloc example_realloc example_table 263 100)) = [7 \<mapsto> 100]"
    using ex [of 263 100] example_allocators(2-4) by (auto simp: example_table low8_263 split: prod.splits)
  ultimately show ?thesis by blast
qed

text \<open>C32. The iterator of a hash map visits every entry once: from the head on each step leads to the position of the
  next item, whose name and data it reads, and behind the last one is the tail. Removing by a predicate through it
  ends, also over several buckets, and keeps exactly the entries that fail the predicate, in their order.\<close>

theorem xu_hash_map_remove_if_filters:
  assumes "(en, fn) \<in> set key_elements" and "(ed, fd) \<in> set cell_elements"
    and "hm_inv hm fn" and "hm_name hm = en" "hm_data hm = ed"
  shows "xu_hash_map_itor_head hm = hm_pos hm 0 \<and> xu_hash_map_itor_tail hm = hm_pos hm (length (hm_items hm))
    \<and> (\<forall>i < length (hm_items hm). hm_pos hm i \<noteq> xu_hash_map_itor_tail hm
        \<and> xu_hash_map_itor_next hm (hm_pos hm i) = hm_pos hm (i + 1)
        \<and> snd (xu_hash_map_itor_item hm (hm_pos hm i)) = Some (hm_items hm ! i))
    \<and> distinct (map fst (hm_items hm))
    \<and> (\<exists>r. xu_remove_if hash_map_op hm p = Some r \<and> hm_inv r fn \<and> hm_items r = filter (\<lambda>x. \<not> p x) (hm_items hm))
    \<and> (\<exists>r. xu_remove_if hash_set_op hm q = Some r \<and> hm_inv r fn
        \<and> map fst (hm_items r) = filter (\<lambda>x. \<not> q x) (map fst (hm_items hm)))"
proof -
  note tb = element_tables [OF assms(1,2)] and tab = conjI [OF assms(4,5)]
  show ?thesis
    using hash_table.iteration [OF tb assms(3) tab] hash_table.size_card(2) [OF tb assms(3) tab]
      hash_table.remove_if_items [OF tb assms(3) tab] by blast
qed

lemma xu_hash_map_remove_if_filters_witness:
  "(\<exists>r. xu_remove_if hash_map_op example_filled (\<lambda>x. fst x = 7) = Some r \<and> hm_items r = [])
   \<and> (\<exists>r. xu_remove_if hash_set_op example_filled (\<lambda>x. x \<noteq> 7) = Some r \<and> map fst (hm_items r) = map fst (hm_items example_filled))"
proof -
  have "dom (map_of (hm_items example_filled)) = {7}" using example_filled(4) by (simp add: hm_map_def)
  then have "\<forall>x \<in> set (map fst (hm_items example_filled)). x = 7" by (auto simp: dom_map_of_conv_image_fst)
  then have "filter (\<lambda>x. \<not> fst x = 7) (hm_items example_filled) = []"
    "filter (\<lambda>x. \<not> x \<noteq> 7) (map fst (hm_items example_filled)) = map fst (hm_items example_filled)"
    by (auto simp: filter_empty_conv filter_id_conv)
  then show ?thesis
    using xu_hash_map_remove_if_filters [OF byte_elements example_filled(1-3), of "\<lambda>x. fst x = 7" "\<lambda>x. x \<noteq> 7"] by metis
qed

end
