(* ===== verification/XLargeAlloc.thy ===== *)
theory XLargeAlloc
  imports XMath
begin

text \<open>
  \<^verbatim>\<open>xutil/memory/impl/static_large_allocator.c\<close>: the allocator of pages in a block of memory, built
  without debugging. Addresses and sizes are natural numbers. The head of a block of data, 16 bytes long, has a
  space of 31 bits, a flag and, in its last bytes, the size that was asked for; the fields are maps from the
  address of the head. The bytes of the data are a separate map. The cache of free heads has ten entries, none
  for the null pointer. A walk over the heads that does not end is none.
\<close>

unbundle bit_operations_syntax

record large_allocator =
  la_page :: nat
  la_data_size :: nat
  la_head :: nat
  la_tail :: nat
  la_pred :: "nat option list"
  la_space :: "nat \<Rightarrow> nat"
  la_free :: "nat \<Rightarrow> bool"
  la_real :: "nat \<Rightarrow> nat"
  la_mem :: "nat \<Rightarrow> u8"

definition LARGE_HEAD :: nat where "LARGE_HEAD = 16"

text \<open>On \<open>xu_size_t\<close>.\<close>

definition xu_align :: "nat \<Rightarrow> nat \<Rightarrow> nat" where
  "xu_align x b = unat ((of_nat x + (of_nat b - 1)) AND NOT (of_nat b - 1) :: u64)"

definition set_space :: "large_allocator \<Rightarrow> nat \<Rightarrow> nat \<Rightarrow> large_allocator" where
  "set_space la h n = la\<lparr>la_space := (la_space la)(h := take_bit 31 n)\<rparr>"

definition set_free :: "large_allocator \<Rightarrow> nat \<Rightarrow> bool \<Rightarrow> large_allocator" where
  "set_free la h b = la\<lparr>la_free := (la_free la)(h := b)\<rparr>"

definition next_head :: "large_allocator \<Rightarrow> nat \<Rightarrow> nat" where
  "next_head la h = h + LARGE_HEAD + la_space la h"

section \<open>The cache of free heads\<close>

definition xu_static_large_allocator_pred_index :: "large_allocator \<Rightarrow> nat \<Rightarrow> nat" where
  "xu_static_large_allocator_pred_index la space =
     (let n = (LARGE_HEAD + space) div la_page la;
          indx = (if n > 1 then xu_ilog2i (of_nat (n - 1)) + 1 else 0)
      in if indx \<ge> length (la_pred la) then length (la_pred la) - 1 else indx)"

definition xu_static_large_allocator_pred_update :: "large_allocator \<Rightarrow> nat \<Rightarrow> large_allocator" where
  "xu_static_large_allocator_pred_update la h =
     (if h = la_tail la then la
      else let indx = xu_static_large_allocator_pred_index la (la_space la h)
        in case la_pred la ! indx of
          Some p \<Rightarrow> if la_space la h > la_space la p then la\<lparr>la_pred := (la_pred la)[indx := Some h]\<rparr> else la
        | None \<Rightarrow> la\<lparr>la_pred := (la_pred la)[indx := Some h]\<rparr>)"

definition xu_static_large_allocator_pred_remove :: "large_allocator \<Rightarrow> nat \<Rightarrow> large_allocator" where
  "xu_static_large_allocator_pred_remove la h =
     (let indx = xu_static_large_allocator_pred_index la (la_space la h)
      in if la_pred la ! indx = Some h then la\<lparr>la_pred := (la_pred la)[indx := None]\<rparr> else la)"

section \<open>Allocation\<close>

text \<open>A free head with enough space is taken, split when the rest has room for another head.\<close>

definition take_head :: "large_allocator \<Rightarrow> nat \<Rightarrow> nat \<Rightarrow> large_allocator" where
  "take_head la h space =
     (let la = xu_static_large_allocator_pred_remove la h; data_space = la_space la h;
          la = (if data_space > LARGE_HEAD + space then
              let n = h + LARGE_HEAD + space;
                  la = set_space la n (data_space - space - LARGE_HEAD);
                  la = set_free la n True;
                  la = set_space la h space
              in xu_static_large_allocator_pred_update la n
            else
              let n = h + LARGE_HEAD + data_space
              in if n + LARGE_HEAD < la_tail la \<and> la_free la n then xu_static_large_allocator_pred_update la n else la)
      in set_free la h False)"

text \<open>The next head, which is free, becomes part of the space of a free one.\<close>

definition merge_head :: "large_allocator \<Rightarrow> nat \<Rightarrow> large_allocator" where
  "merge_head la h =
     (let n = next_head la h;
          la = xu_static_large_allocator_pred_remove la n;
          la = xu_static_large_allocator_pred_remove la h;
          la = set_space la h (la_space la h + (LARGE_HEAD + la_space la n))
      in xu_static_large_allocator_pred_update la h)"

partial_function (option) find_loop :: "large_allocator \<Rightarrow> nat \<Rightarrow> nat \<Rightarrow> nat \<Rightarrow> (large_allocator \<times> nat option) option" where
  "find_loop la h walk_size space =
     (if \<not> (h + LARGE_HEAD \<le> la_tail la \<and> walk_size \<noteq> 0) then Some (la, None)
      else if la_free la h then
        if la_space la h \<ge> space then Some (take_head la h space, Some h)
        else let n = next_head la h
          in if \<not> n + LARGE_HEAD < la_tail la then Some (la, None)
          else if la_free la n then find_loop (merge_head la h) h walk_size space
          else find_loop la n (walk_size - 1) space
      else find_loop la (next_head la h) (walk_size - 1) space)"

declare find_loop.simps [code]

definition xu_static_large_allocator_malloc_find ::
    "large_allocator \<Rightarrow> nat \<Rightarrow> nat \<Rightarrow> nat \<Rightarrow> (large_allocator \<times> nat option) option" where
  "xu_static_large_allocator_malloc_find la h walk_size space =
     (if space = 0 \<or> \<not> h < la_tail la then Some (la, None) else find_loop la h walk_size space)"

text \<open>The entries of the cache from one index on.\<close>

function pred_walk :: "large_allocator \<Rightarrow> nat \<Rightarrow> nat \<Rightarrow> (large_allocator \<times> nat option) option" where
  "pred_walk la indx space =
     (if indx < 10 then
        (case la_pred la ! indx of
           None \<Rightarrow> pred_walk la (indx + 1) space
         | Some p \<Rightarrow>
             (case xu_static_large_allocator_malloc_find la p 1 space of
                None \<Rightarrow> None
              | Some (la, None) \<Rightarrow> pred_walk la (indx + 1) space
              | Some (la, Some h) \<Rightarrow> Some (la, Some h)))
      else Some (la, None))"
  by pat_completeness auto
termination by (relation "measure (\<lambda>(la, i, s). 10 - i)") auto

declare pred_walk.simps [simp del]

definition xu_static_large_allocator_malloc_pred ::
    "large_allocator \<Rightarrow> nat \<Rightarrow> (large_allocator \<times> nat option) option" where
  "xu_static_large_allocator_malloc_pred la space = pred_walk la (xu_static_large_allocator_pred_index la space) space"

text \<open>The space for a size, aligned to pages together with the head.\<close>

definition need_space :: "large_allocator \<Rightarrow> nat \<Rightarrow> nat" where
  "need_space la n =
     (let space = unat (of_nat (xu_align n (la_page la)) - of_nat LARGE_HEAD :: u64)
      in if n > space then unat (of_nat (xu_align (n + la_page la) (la_page la)) - of_nat LARGE_HEAD :: u64) else space)"

text \<open>With \<open>real\<close> the whole space of the head is given out.\<close>

definition set_real :: "large_allocator \<Rightarrow> nat \<Rightarrow> nat \<Rightarrow> bool \<Rightarrow> large_allocator" where
  "set_real la h n real =
     la\<lparr>la_real := (la_real la)(h := take_bit 32 (if real then la_space la h else n))\<rparr>"

definition xu_static_large_allocator_malloc_done ::
    "large_allocator \<Rightarrow> nat \<Rightarrow> bool \<Rightarrow> (large_allocator \<times> nat option) option" where
  "xu_static_large_allocator_malloc_done la n real =
     (let space = need_space la n in
      case xu_static_large_allocator_malloc_pred la space of
        None \<Rightarrow> None
      | Some (la, Some h) \<Rightarrow> Some (set_real la h n real, Some h)
      | Some (la, None) \<Rightarrow>
          (case xu_static_large_allocator_malloc_find la (la_head la) (2 ^ 64 - 1) space of
             None \<Rightarrow> None
           | Some (la, Some h) \<Rightarrow> Some (set_real la h n real, Some h)
           | Some (la, None) \<Rightarrow> Some (la, None)))"

text \<open>The data begins behind its head; 0 is the null pointer.\<close>

definition xu_static_large_allocator_malloc :: "large_allocator \<Rightarrow> nat \<Rightarrow> bool \<Rightarrow> (large_allocator \<times> nat) option" where
  "xu_static_large_allocator_malloc la n real =
     (if n = 0 then Some (la, 0)
      else case xu_static_large_allocator_malloc_done la n real of
        None \<Rightarrow> None
      | Some (la, Some h) \<Rightarrow> Some (la, h + LARGE_HEAD)
      | Some (la, None) \<Rightarrow> Some (la, 0))"

section \<open>Release\<close>

definition xu_static_large_allocator_free :: "large_allocator \<Rightarrow> nat \<Rightarrow> large_allocator \<times> bool" where
  "xu_static_large_allocator_free la data =
     (if data = 0 then (la, False)
      else let h = data - LARGE_HEAD in
        if la_free la h \<or> \<not> (h \<ge> la_head la \<and> h < la_tail la) then (la, False)
        else let n = next_head la h;
                 la = (if n < la_tail la \<and> la_free la n then
                     let la = xu_static_large_allocator_pred_remove la n
                     in set_space la h (la_space la h + (LARGE_HEAD + la_space la n))
                   else la);
                 la = set_free la h True
             in (xu_static_large_allocator_pred_update la h, True))"

section \<open>Reallocation\<close>

text \<open>The free heads behind a head are merged with it.\<close>

partial_function (option) merge_loop :: "large_allocator \<Rightarrow> nat \<Rightarrow> nat \<Rightarrow> large_allocator option" where
  "merge_loop la h n =
     (if n < la_tail la \<and> la_free la n then
        let la = xu_static_large_allocator_pred_remove la n;
            la = set_space la h (la_space la h + (LARGE_HEAD + la_space la n))
        in merge_loop la h (next_head la h)
      else Some la)"

declare merge_loop.simps [code]

definition xu_static_large_allocator_ralloc_fast ::
    "large_allocator \<Rightarrow> nat \<Rightarrow> nat \<Rightarrow> bool \<Rightarrow> (large_allocator \<times> nat option) option" where
  "xu_static_large_allocator_ralloc_fast la h n real =
     (if n = 0 then Some (la, None)
      else let space = need_space la n in
        case (if space > la_space la h then merge_loop la h (next_head la h) else Some la) of
          None \<Rightarrow> None
        | Some la \<Rightarrow>
            if \<not> space \<le> la_space la h then Some (la, None)
            else let la = (if la_space la h > LARGE_HEAD + space then
                         let nh = h + LARGE_HEAD + space;
                             la = set_space la nh (la_space la h - space - LARGE_HEAD);
                             la = set_free la nh True;
                             la = set_space la h space
                         in xu_static_large_allocator_pred_update la nh
                       else la)
                 in Some (set_real la h n real, Some h))"

definition copy_mem :: "large_allocator \<Rightarrow> nat \<Rightarrow> nat \<Rightarrow> nat \<Rightarrow> large_allocator" where
  "copy_mem la dst src n =
     la\<lparr>la_mem := (\<lambda>a. if dst \<le> a \<and> a < dst + n then la_mem la (src + (a - dst)) else la_mem la a)\<rparr>"

definition xu_static_large_allocator_ralloc ::
    "large_allocator \<Rightarrow> nat \<Rightarrow> nat \<Rightarrow> bool \<Rightarrow> (large_allocator \<times> nat) option" where
  "xu_static_large_allocator_ralloc la data n real =
     (if data = 0 \<or> n = 0 then Some (la, 0)
      else let h = data - LARGE_HEAD in
        if la_free la h \<or> \<not> (h \<ge> la_head la \<and> h < la_tail la) then Some (la, 0)
        else case xu_static_large_allocator_ralloc_fast la h n real of
          None \<Rightarrow> None
        | Some (la, Some a) \<Rightarrow> Some (la, a + LARGE_HEAD)
        | Some (la, None) \<Rightarrow>
            (case xu_static_large_allocator_malloc_done la n real of
               None \<Rightarrow> None
             | Some (la, None) \<Rightarrow> Some (la, 0)
             | Some (la, Some a) \<Rightarrow>
                 let la = (if a \<noteq> h then
                         let la = copy_mem la (a + LARGE_HEAD) data (min n (la_real la h))
                         in fst (xu_static_large_allocator_free la data)
                       else la)
                 in Some (la, a + LARGE_HEAD)))"

section \<open>Setting up\<close>

definition xu_static_large_allocator_clear :: "large_allocator \<Rightarrow> large_allocator" where
  "xu_static_large_allocator_clear la =
     (if \<not> la_data_size la > LARGE_HEAD then la
      else let la = set_free la (la_head la) True;
               la = set_space la (la_head la) (la_data_size la - LARGE_HEAD);
               la = la\<lparr>la_pred := replicate (length (la_pred la)) None\<rparr>
           in xu_static_large_allocator_pred_update la (la_head la))"

text \<open>The size of the structure of the allocator, the size of a page of the system and whether the lock could be made
  are parameters, and so are the bytes of the block, in which no head is set up.\<close>

definition xu_static_large_allocator_init ::
    "nat \<Rightarrow> nat \<Rightarrow> bool \<Rightarrow> (nat \<Rightarrow> u8) \<Rightarrow> nat \<Rightarrow> nat \<Rightarrow> nat \<Rightarrow> large_allocator option" where
  "xu_static_large_allocator_init struct_size system_page lock_ok mem data n page =
     (if data = 0 \<or> n = 0 then None
      else let diff = xu_align data 8 - data in
        if \<not> n > diff + struct_size then None
        else if \<not> lock_ok then None
        else let n = n - diff; data = data + diff;
                 page = (if page \<noteq> 0 then page else system_page);
                 page = (if page < LARGE_HEAD then page + LARGE_HEAD else page);
                 page = unat (xu_align_pow2 (of_nat page))
          in if page = 0 then None
          else let data_size = n - struct_size
            in if \<not> data_size > page then None
            else let data_size = xu_align (data_size - page) page
              in if \<not> data_size > LARGE_HEAD then None
              else let h = data + struct_size;
                       la = \<lparr>la_page = page, la_data_size = data_size, la_head = h, la_tail = 0, la_pred = replicate 10 None,
                             la_space = (\<lambda>_. 0)(h := take_bit 31 (data_size - LARGE_HEAD)), la_free = (\<lambda>_. False)(h := True),
                             la_real = (\<lambda>_. 0), la_mem = mem\<rparr>
                   in if h mod 8 \<noteq> 0 then None
                   else let la = xu_static_large_allocator_pred_update la h
                        in Some (la\<lparr>la_tail := next_head la h\<rparr>))"

end
