(* ===== verification/XLargeAllocCorrect.thy ===== *)
theory XLargeAllocCorrect
  imports XLargeAlloc XMathCorrect
begin

text \<open>
  The blocks of the allocator follow one another and fill its data, the cache names only free heads, and every
  operation keeps this; what merging, splitting, searching, allocating, releasing and reallocating do to the
  data that is given out, and the space that a size needs.
\<close>

unbundle bit_operations_syntax

section \<open>The heads of the blocks\<close>

text \<open>The heads follow one another from an address to the end, each behind the space of the one before.\<close>

primrec chain :: "(nat \<Rightarrow> nat) \<Rightarrow> nat \<Rightarrow> nat list \<Rightarrow> nat \<Rightarrow> bool" where
  "chain sp a [] t \<longleftrightarrow> a = t"
| "chain sp a (b # bs) t \<longleftrightarrow> b = a \<and> chain sp (a + LARGE_HEAD + sp a) bs t"

lemma chain_append: "chain sp a (xs @ ys) t \<longleftrightarrow> (\<exists>m. chain sp a xs m \<and> chain sp m ys t)"
  by (induction xs arbitrary: a) auto

lemma chain_cong: "(\<And>b. b \<in> set bs \<Longrightarrow> sp b = sp' b) \<Longrightarrow> chain sp a bs t = chain sp' a bs t"
  by (induction bs arbitrary: a) auto

lemma chain_le: "chain sp a bs t \<Longrightarrow> a \<le> t"
  by (induction bs arbitrary: a) fastforce+

lemma chain_in: "chain sp a bs t \<Longrightarrow> b \<in> set bs \<Longrightarrow> a \<le> b \<and> b + LARGE_HEAD + sp b \<le> t"
proof (induction bs arbitrary: a)
  case (Cons c bs)
  then show ?case using chain_le [of sp "a + LARGE_HEAD + sp a" bs t] by (auto dest!: Cons.IH)
qed simp

lemma chain_dvd: "chain sp a bs t \<Longrightarrow> \<forall>b\<in>set bs. d dvd LARGE_HEAD + sp b \<Longrightarrow> b \<in> set bs \<Longrightarrow> d dvd a \<Longrightarrow> d dvd b"
  by (induction bs arbitrary: a) (auto simp: add.assoc)

lemma chain_split:
  assumes "chain sp a (xs @ h # ys) t"
  shows "chain sp a xs h" "chain sp (h + LARGE_HEAD + sp h) ys t" "a \<le> h" "h + LARGE_HEAD + sp h \<le> t"
    "\<And>b. b \<in> set xs \<Longrightarrow> b + LARGE_HEAD + sp b \<le> h" "\<And>b. b \<in> set ys \<Longrightarrow> h + LARGE_HEAD + sp h \<le> b"
  using assms by (auto simp: chain_append dest: chain_le chain_in)

lemma chain_disjoint:
  assumes "chain sp a bs t" and "b \<in> set bs" and "c \<in> set bs" and "b \<noteq> c"
  shows "b + LARGE_HEAD + sp b \<le> c \<or> c + LARGE_HEAD + sp c \<le> b"
proof -
  obtain xs ys where bs: "bs = xs @ b # ys" using assms(2) split_list by fastforce
  then show ?thesis using assms(1,3,4) chain_split(5,6) [of sp a xs b ys t] by auto
qed

section \<open>The state of the allocator\<close>

definition la_shape :: "large_allocator \<Rightarrow> nat list \<Rightarrow> bool" where
  "la_shape la bs \<longleftrightarrow> chain (la_space la) (la_head la) bs (la_tail la) \<and> la_tail la = la_head la + la_data_size la
     \<and> 0 < la_head la \<and> la_tail la < 2 ^ 64 \<and> la_data_size la < 2 ^ 31 \<and> bs \<noteq> []
     \<and> 8 dvd la_head la \<and> (\<exists>k. 4 \<le> k \<and> k < 31 \<and> la_page la = 2 ^ k) \<and> length (la_pred la) = 10
     \<and> (\<forall>b\<in>set bs. la_page la dvd LARGE_HEAD + la_space la b \<and> 0 < la_space la b)"

text \<open>An entry of the cache is a free head of a set, in the place for its space.\<close>

definition la_cache :: "large_allocator \<Rightarrow> nat set \<Rightarrow> bool" where
  "la_cache la S \<longleftrightarrow> (\<forall>i p. i < 10 \<longrightarrow> la_pred la ! i = Some p \<longrightarrow>
     p \<in> S \<and> la_free la p \<and> xu_static_large_allocator_pred_index la (la_space la p) = i)"

text \<open>Data that is given out has no more bytes than the space of its head.\<close>

definition la_fits :: "large_allocator \<Rightarrow> nat list \<Rightarrow> bool" where
  "la_fits la bs \<longleftrightarrow> (\<forall>b\<in>set bs. \<not> la_free la b \<longrightarrow> la_real la b \<le> la_space la b)"

definition la_rep :: "large_allocator \<Rightarrow> nat list \<Rightarrow> bool" where
  "la_rep la bs \<longleftrightarrow> la_shape la bs \<and> la_fits la bs \<and> la_cache la (set bs)"

text \<open>The data that is given out, with its sizes.\<close>

definition la_live :: "large_allocator \<Rightarrow> nat list \<Rightarrow> nat \<Rightarrow> nat option" where
  "la_live la bs p =
     (if LARGE_HEAD \<le> p \<and> p - LARGE_HEAD \<in> set bs \<and> \<not> la_free la (p - LARGE_HEAD) then Some (la_real la (p - LARGE_HEAD)) else None)"

text \<open>The size of the largest run of free blocks next to each other.\<close>

primrec largest_run :: "large_allocator \<Rightarrow> nat \<Rightarrow> nat list \<Rightarrow> nat" where
  "largest_run la n [] = n"
| "largest_run la n (b # bs) =
     (if la_free la b then largest_run la (n + LARGE_HEAD + la_space la b) bs else max n (largest_run la 0 bs))"

lemma largest_run_cong:
  "(\<And>b. b \<in> set bs \<Longrightarrow> la_free la b = la_free la' b \<and> (la_free la b \<longrightarrow> la_space la b = la_space la' b)) \<Longrightarrow>
    largest_run la n bs = largest_run la' n bs"
  by (induction bs arbitrary: n) auto

lemma largest_run_ge: "n \<le> largest_run la n bs"
proof (induction bs arbitrary: n)
  case (Cons b bs)
  have "n \<le> n + LARGE_HEAD + la_space la b" by simp
  also have "\<dots> \<le> largest_run la (n + LARGE_HEAD + la_space la b) bs" by (rule Cons.IH)
  finally show ?case by simp
qed simp

lemma largest_run_mono: "n \<le> m \<Longrightarrow> largest_run la n bs \<le> largest_run la m bs"
  by (induction bs arbitrary: n m) auto

lemma largest_run_in: "b \<in> set bs \<Longrightarrow> la_free la b \<Longrightarrow> LARGE_HEAD + la_space la b \<le> largest_run la n bs"
proof (induction bs arbitrary: n)
  case (Cons c bs)
  show ?case
  proof (cases "b = c")
    case True
    have "LARGE_HEAD + la_space la c \<le> n + LARGE_HEAD + la_space la c" by simp
    also have "\<dots> \<le> largest_run la (n + LARGE_HEAD + la_space la c) bs" by (rule largest_run_ge)
    finally show ?thesis using True Cons.prems by simp
  next
    case False
    then have "b \<in> set bs" using Cons.prems by simp
    then show ?thesis using Cons.IH [OF _ Cons.prems(2)] by (simp add: le_max_iff_disj)
  qed
qed simp


section \<open>The cache\<close>

lemma set_space_simps [simp]:
  "la_page (set_space la h n) = la_page la" "la_data_size (set_space la h n) = la_data_size la"
  "la_head (set_space la h n) = la_head la" "la_tail (set_space la h n) = la_tail la" "la_pred (set_space la h n) = la_pred la"
  "la_free (set_space la h n) = la_free la" "la_real (set_space la h n) = la_real la" "la_mem (set_space la h n) = la_mem la"
  "la_space (set_space la h n) = (la_space la)(h := take_bit 31 n)"
  by (simp_all add: set_space_def)

lemma set_free_simps [simp]:
  "la_page (set_free la h b) = la_page la" "la_data_size (set_free la h b) = la_data_size la"
  "la_head (set_free la h b) = la_head la" "la_tail (set_free la h b) = la_tail la" "la_pred (set_free la h b) = la_pred la"
  "la_space (set_free la h b) = la_space la" "la_real (set_free la h b) = la_real la" "la_mem (set_free la h b) = la_mem la"
  "la_free (set_free la h b) = (la_free la)(h := b)"
  by (simp_all add: set_free_def)

lemma pred_update_simps [simp]:
  fixes la h
  defines "la' \<equiv> xu_static_large_allocator_pred_update la h"
  shows "la_page la' = la_page la" "la_data_size la' = la_data_size la" "la_head la' = la_head la" "la_tail la' = la_tail la"
    "la_space la' = la_space la" "la_free la' = la_free la" "la_real la' = la_real la" "la_mem la' = la_mem la"
    "length (la_pred la') = length (la_pred la)"
  by (simp_all add: la'_def xu_static_large_allocator_pred_update_def Let_def split: option.splits)

lemma pred_remove_simps [simp]:
  fixes la h
  defines "la' \<equiv> xu_static_large_allocator_pred_remove la h"
  shows "la_page la' = la_page la" "la_data_size la' = la_data_size la" "la_head la' = la_head la" "la_tail la' = la_tail la"
    "la_space la' = la_space la" "la_free la' = la_free la" "la_real la' = la_real la" "la_mem la' = la_mem la"
    "length (la_pred la') = length (la_pred la)"
  by (simp_all add: la'_def xu_static_large_allocator_pred_remove_def Let_def)

lemma set_real_simps [simp]:
  "la_page (set_real la h n r) = la_page la" "la_data_size (set_real la h n r) = la_data_size la"
  "la_head (set_real la h n r) = la_head la" "la_tail (set_real la h n r) = la_tail la" "la_pred (set_real la h n r) = la_pred la"
  "la_space (set_real la h n r) = la_space la" "la_free (set_real la h n r) = la_free la" "la_mem (set_real la h n r) = la_mem la"
  "la_real (set_real la h n r) = (la_real la)(h := take_bit 32 (if r then la_space la h else n))"
  by (simp_all add: set_real_def)

lemma pred_index_cong:
  "la_page la = la_page la' \<Longrightarrow> length (la_pred la) = length (la_pred la') \<Longrightarrow>
    xu_static_large_allocator_pred_index la n = xu_static_large_allocator_pred_index la' n"
  by (simp add: xu_static_large_allocator_pred_index_def Let_def)

lemma pred_index_less: "length (la_pred la) = 10 \<Longrightarrow> xu_static_large_allocator_pred_index la n < 10"
  by (simp add: xu_static_large_allocator_pred_index_def Let_def)

lemma la_cache_mono: "la_cache la S \<Longrightarrow> S \<subseteq> T \<Longrightarrow> la_cache la T"
  by (auto simp: la_cache_def)

lemma la_cache_cong:
  assumes "la_cache la S" and "la_pred la' = la_pred la" and "la_page la' = la_page la"
    and "\<And>p. p \<in> S \<Longrightarrow> la_free la p \<Longrightarrow> la_free la' p \<and> la_space la' p = la_space la p"
  shows "la_cache la' S"
proof -
  note idx = pred_index_cong [OF assms(3) arg_cong [where f = length, OF assms(2)]]
  show ?thesis using assms(1,4) unfolding la_cache_def idx assms(2) by metis
qed

lemma la_cacheD:
  "la_cache la S \<Longrightarrow> i < 10 \<Longrightarrow> la_pred la ! i = Some p \<Longrightarrow>
    p \<in> S \<and> la_free la p \<and> xu_static_large_allocator_pred_index la (la_space la p) = i"
  by (simp add: la_cache_def)

lemma la_cache_remove:
  assumes "la_cache la S" and "length (la_pred la) = 10"
  shows "la_cache (xu_static_large_allocator_pred_remove la h) (S - {h})"
proof -
  define j where "j = xu_static_large_allocator_pred_index la (la_space la h)"
  have "p \<in> S - {h} \<and> la_free la p \<and> xu_static_large_allocator_pred_index la (la_space la p) = i"
    if "i < 10" "la_pred (xu_static_large_allocator_pred_remove la h) ! i = Some p" for i p
  proof -
    have "la_pred la ! i = Some p" "\<not> (la_pred la ! j = Some h \<and> i = j)"
      using that assms(2)
      by (auto simp: xu_static_large_allocator_pred_remove_def j_def Let_def nth_list_update pred_index_less split: if_splits)
    then show ?thesis using la_cacheD [OF assms(1) that(1)] by (auto simp: j_def)
  qed
  then show ?thesis by (auto simp: la_cache_def pred_index_cong [of "xu_static_large_allocator_pred_remove la h" la])
qed

lemma la_cache_update:
  assumes "la_cache la S" and "length (la_pred la) = 10" and "la_free la h"
  shows "la_cache (xu_static_large_allocator_pred_update la h) (insert h S)"
proof -
  define j where "j = xu_static_large_allocator_pred_index la (la_space la h)"
  have "p \<in> insert h S \<and> la_free la p \<and> xu_static_large_allocator_pred_index la (la_space la p) = i"
    if "i < 10" "la_pred (xu_static_large_allocator_pred_update la h) ! i = Some p" for i p
  proof -
    have "la_pred la ! i = Some p \<or> i = j \<and> p = h"
      using that assms(2)
      by (auto simp: xu_static_large_allocator_pred_update_def j_def Let_def nth_list_update pred_index_less split: if_splits option.splits)
    then show ?thesis using la_cacheD [OF assms(1) that(1)] assms(3) by (auto simp: j_def)
  qed
  then show ?thesis by (auto simp: la_cache_def pred_index_cong [of "xu_static_large_allocator_pred_update la h" la])
qed


section \<open>Merging and splitting blocks\<close>

lemma chain_merge:
  assumes "chain sp a (xs @ h # n # ys) t"
  shows "chain (sp(h := sp h + (LARGE_HEAD + sp n))) a (xs @ h # ys) t"
proof -
  let ?sp = "sp(h := sp h + (LARGE_HEAD + sp n))"
  note c = chain_split [OF assms]
  have n: "n = h + LARGE_HEAD + sp h" and ys: "chain sp (n + LARGE_HEAD + sp n) ys t" using c(2) by auto
  have "chain ?sp a xs h" using c(1) chain_cong [of xs sp ?sp] c(5) by (fastforce simp: LARGE_HEAD_def)
  moreover have "chain ?sp (h + LARGE_HEAD + ?sp h) ys t"
    using ys chain_cong [of ys sp ?sp] c(6) by (fastforce simp: LARGE_HEAD_def n add.assoc)
  ultimately show ?thesis by (auto simp: chain_append)
qed

lemma chain_cut:
  assumes "chain sp a (xs @ h # ys) t" and "LARGE_HEAD + m \<le> sp h"
  shows "chain (sp(h + LARGE_HEAD + m := sp h - m - LARGE_HEAD, h := m)) a (xs @ h # (h + LARGE_HEAD + m) # ys) t"
proof -
  let ?sp = "sp(h + LARGE_HEAD + m := sp h - m - LARGE_HEAD, h := m)"
  note c = chain_split [OF assms(1)]
  have "chain ?sp a xs h" using c(1) chain_cong [of xs sp ?sp] c(5) by (fastforce simp: LARGE_HEAD_def)
  moreover have "chain ?sp (h + LARGE_HEAD + sp h) ys t"
    using c(2) chain_cong [of ys sp ?sp] c(6) assms(2) by (fastforce simp: LARGE_HEAD_def)
  ultimately show ?thesis using assms(2) by (auto simp: chain_append LARGE_HEAD_def ac_simps)
qed

lemma la_shapeD:
  assumes "la_shape la bs"
  shows "chain (la_space la) (la_head la) bs (la_tail la)" "la_tail la = la_head la + la_data_size la" "0 < la_head la"
    "la_tail la < 2 ^ 64" "la_data_size la < 2 ^ 31" "bs \<noteq> []" "8 dvd la_head la" "\<exists>k. 4 \<le> k \<and> k < 31 \<and> la_page la = 2 ^ k"
    "length (la_pred la) = 10" "\<And>b. b \<in> set bs \<Longrightarrow> la_page la dvd LARGE_HEAD + la_space la b"
    "\<And>b. b \<in> set bs \<Longrightarrow> 0 < la_space la b"
    "\<And>b. b \<in> set bs \<Longrightarrow> la_head la \<le> b \<and> b + LARGE_HEAD + la_space la b \<le> la_tail la"
    "\<And>b. b \<in> set bs \<Longrightarrow> LARGE_HEAD + la_space la b < 2 ^ 31"
proof -
  show "LARGE_HEAD + la_space la b < 2 ^ 31" if "b \<in> set bs" for b
    using assms that chain_in [of "la_space la" "la_head la" bs "la_tail la" b] by (auto simp: la_shape_def)
qed (use assms chain_in [of "la_space la" "la_head la" bs "la_tail la"] in \<open>auto simp: la_shape_def\<close>)

definition la_frame :: "large_allocator \<Rightarrow> large_allocator \<Rightarrow> bool" where
  "la_frame la la' \<longleftrightarrow> la_page la' = la_page la \<and> la_data_size la' = la_data_size la \<and> la_head la' = la_head la
     \<and> la_tail la' = la_tail la \<and> length (la_pred la') = length (la_pred la)"

lemma la_shape_cong: "la_shape la bs \<Longrightarrow> la_frame la la' \<Longrightarrow> la_space la' = la_space la \<Longrightarrow> la_shape la' bs"
  unfolding la_shape_def la_frame_def by metis

lemma la_shape_merge:
  assumes "la_shape la (xs @ h # n # ys)" and "la_frame la la'"
    and "la_space la' = (la_space la)(h := la_space la h + (LARGE_HEAD + la_space la n))"
  shows "la_shape la' (xs @ h # ys)"
proof -
  note s = la_shapeD [OF assms(1)]
  have "h \<notin> set ys" "h \<notin> set xs"
    using chain_split(5) [OF s(1), of h] chain_split(6) [OF s(1), of h] by (auto simp: LARGE_HEAD_def)
  moreover have "la_page la dvd LARGE_HEAD + (la_space la h + (LARGE_HEAD + la_space la n))"
    using dvd_add [OF s(10) [of h] s(10) [of n]] by (simp add: add.assoc)
  ultimately show ?thesis
    using assms(1) chain_merge [OF s(1)] assms(2,3) unfolding la_shape_def la_frame_def by auto
qed

lemma la_shape_cut:
  assumes "la_shape la (xs @ h # ys)" and "la_frame la la'" and "LARGE_HEAD + m < la_space la h" and "0 < m"
    and "la_page la dvd LARGE_HEAD + m"
    and "la_space la' = (la_space la)(h + LARGE_HEAD + m := la_space la h - m - LARGE_HEAD, h := m)"
  shows "la_shape la' (xs @ h # (h + LARGE_HEAD + m) # ys)"
proof -
  note s = la_shapeD [OF assms(1)]
  let ?n = "h + LARGE_HEAD + m"
  have "?n \<notin> set xs" "?n \<notin> set ys" "h \<notin> set xs" "h \<notin> set ys"
    using chain_split(5) [OF s(1)] chain_split(6) [OF s(1)] assms(3) by (fastforce simp: LARGE_HEAD_def)+
  moreover have "la_page la dvd (LARGE_HEAD + la_space la h) - (LARGE_HEAD + m)"
    using s(10) [of h] assms(5) by (intro dvd_diff_nat) auto
  then have "la_page la dvd LARGE_HEAD + (la_space la h - m - LARGE_HEAD)" using assms(3) by simp
  ultimately show ?thesis
    using assms(1) chain_cut [OF s(1), of m] assms(2-6) unfolding la_shape_def la_frame_def by auto
qed


text \<open>States in which the same data is given out.\<close>

definition la_like :: "large_allocator \<Rightarrow> nat list \<Rightarrow> large_allocator \<Rightarrow> nat list \<Rightarrow> bool" where
  "la_like la bs la' bs' \<longleftrightarrow> la_frame la la' \<and> la_mem la' = la_mem la \<and> la_live la' bs' = la_live la bs
     \<and> largest_run la' 0 bs' = largest_run la 0 bs"

lemma la_like_refl [simp]: "la_like la bs la bs"
  by (simp add: la_like_def la_frame_def)

lemma la_like_trans: "la_like la bs la1 bs1 \<Longrightarrow> la_like la1 bs1 la2 bs2 \<Longrightarrow> la_like la bs la2 bs2"
  by (simp add: la_like_def la_frame_def)

lemma largest_run_merge:
  assumes "\<And>b. b \<in> set (xs @ ys) \<Longrightarrow> la_free la b = la_free la' b \<and> la_space la b = la_space la' b"
    and "la_free la h" and "la_free la n" and "la_free la' h" and "la_space la' h = la_space la h + (LARGE_HEAD + la_space la n)"
  shows "largest_run la' k (xs @ h # ys) = largest_run la k (xs @ h # n # ys)"
  using assms
proof (induction xs arbitrary: k)
  case Nil
  then show ?case using largest_run_cong [of ys la' la] by (simp add: ac_simps)
qed auto

lemma next_head_in:
  assumes "la_shape la (xs @ h # ys)"
  shows "next_head la h = (case ys of [] \<Rightarrow> la_tail la | n # _ \<Rightarrow> n)"
  using chain_split(2) [OF la_shapeD(1) [OF assms]] by (cases ys) (auto simp: next_head_def)

lemma in_block_order:
  assumes "la_shape la (xs @ h # ys)"
  shows "h \<notin> set xs" "h \<notin> set ys" "h < la_tail la" "la_head la \<le> h" "h + LARGE_HEAD \<le> la_tail la" "\<And>b. b \<in> set ys \<Longrightarrow> b \<notin> set xs"
    "h + LARGE_HEAD < la_tail la"
  using chain_split [OF la_shapeD(1) [OF assms]] la_shapeD(11) [OF assms, of h] by (fastforce simp: LARGE_HEAD_def)+

lemma merge_bound:
  assumes "la_shape la (xs @ h # n # ys)"
  shows "take_bit 31 (la_space la h + (LARGE_HEAD + la_space la n)) = la_space la h + (LARGE_HEAD + la_space la n)"
proof -
  note s = la_shapeD [OF assms]
  have "n = h + LARGE_HEAD + la_space la h" using chain_split(2) [OF s(1)] by simp
  then have "la_space la h + (LARGE_HEAD + la_space la n) < 2 ^ 31"
    using s(12) [of h] s(12) [of n] s(2,5) by simp
  then show ?thesis by (simp add: take_bit_nat_eq_self_iff)
qed

lemma merge_head_correct:
  assumes "la_rep la (xs @ h # n # ys)" and "la_free la h" and "la_free la n"
  shows "la_rep (merge_head la h) (xs @ h # ys)" "la_like la (xs @ h # n # ys) (merge_head la h) (xs @ h # ys)"
    "la_free (merge_head la h) = la_free la" "LARGE_HEAD + la_space la h \<le> la_space (merge_head la h) h"
    "\<And>b. b \<noteq> h \<Longrightarrow> la_space (merge_head la h) b = la_space la b"
proof -
  have sh: "la_shape la (xs @ h # n # ys)" and ca: "la_cache la (set (xs @ h # n # ys))" and ft: "la_fits la (xs @ h # n # ys)"
    using assms(1) by (simp_all add: la_rep_def)
  have n: "next_head la h = n" using next_head_in [OF sh] by simp
  note order = in_block_order [OF sh] in_block_order [of la "xs @ [h]" n ys]
  have ne: "n \<noteq> h" using order(2) by auto
  let ?la = "merge_head la h"
  define l1 where "l1 = xu_static_large_allocator_pred_remove (xu_static_large_allocator_pred_remove la n) h"
  define l2 where "l2 = set_space l1 h (la_space la h + (LARGE_HEAD + la_space la n))"
  have m: "?la = xu_static_large_allocator_pred_update l2 h"
    by (simp add: merge_head_def l1_def l2_def Let_def n)
  have sp: "la_space ?la = (la_space la)(h := la_space la h + (LARGE_HEAD + la_space la n))"
    and fr: "la_frame la ?la" and fx: "la_free ?la = la_free la" "la_real ?la = la_real la" "la_mem ?la = la_mem la"
    using merge_bound [OF sh] by (simp_all add: m l1_def l2_def la_frame_def)
  have shape: "la_shape ?la (xs @ h # ys)" by (rule la_shape_merge [OF sh fr sp])
  have "la_cache l1 (set (xs @ h # n # ys) - {n} - {h})"
    unfolding l1_def by (intro la_cache_remove ca) (simp_all add: la_shapeD(9) [OF sh])
  then have "la_cache l2 (set (xs @ h # n # ys) - {n} - {h})"
    by (rule la_cache_cong) (simp_all add: l2_def)
  then have "la_cache ?la (insert h (set (xs @ h # n # ys) - {n} - {h}))"
    unfolding m by (rule la_cache_update) (simp_all add: l2_def l1_def la_shapeD(9) [OF sh] assms(2))
  then have cache: "la_cache ?la (set (xs @ h # ys))" by (rule la_cache_mono) auto
  have fits: "la_fits ?la (xs @ h # ys)" using ft by (auto simp: la_fits_def fx sp)
  show "la_rep ?la (xs @ h # ys)" using shape cache fits by (simp add: la_rep_def)
  have "la_live ?la (xs @ h # ys) = la_live la (xs @ h # n # ys)"
    using assms(2,3) by (auto simp: la_live_def fx)
  moreover have "largest_run ?la 0 (xs @ h # ys) = largest_run la 0 (xs @ h # n # ys)"
    by (rule largest_run_merge) (use order(1,2) assms(2,3) in \<open>auto simp: sp fx\<close>)
  ultimately show "la_like la (xs @ h # n # ys) ?la (xs @ h # ys)" by (simp add: la_like_def fr fx)
  show "la_free ?la = la_free la" "LARGE_HEAD + la_space la h \<le> la_space ?la h"
    "\<And>b. b \<noteq> h \<Longrightarrow> la_space ?la b = la_space la b" by (simp_all add: sp fx)
qed


section \<open>The search for a free head\<close>

text \<open>A search either has no head, and then a complete one shows that no run of free blocks is large enough, or takes one of a
  state in which the same data is given out.\<close>

definition found :: "large_allocator \<Rightarrow> nat list \<Rightarrow> nat \<Rightarrow> (large_allocator \<times> nat option) option \<Rightarrow> bool" where
  "found la bs need r \<longleftrightarrow> (\<exists>la1 xs h ys. r = Some (take_head la1 h need, Some h) \<and> la_rep la1 (xs @ h # ys)
     \<and> la_like la bs la1 (xs @ h # ys) \<and> la_free la1 h \<and> need \<le> la_space la1 h)"

definition not_found :: "large_allocator \<Rightarrow> nat list \<Rightarrow> bool \<Rightarrow> (large_allocator \<times> nat option) option \<Rightarrow> bool" where
  "not_found la bs full r \<longleftrightarrow> (\<exists>la1 bs1. r = Some (la1, None) \<and> la_rep la1 bs1 \<and> la_like la bs la1 bs1 \<and> full)"

lemma found_like: "found la1 bs1 need r \<Longrightarrow> la_like la bs la1 bs1 \<Longrightarrow> found la bs need r"
  unfolding found_def by (blast intro: la_like_trans)

lemma not_found_like: "not_found la1 bs1 full1 r \<Longrightarrow> la_like la bs la1 bs1 \<Longrightarrow> (full1 \<Longrightarrow> full) \<Longrightarrow> not_found la bs full r"
  unfolding not_found_def by (blast intro: la_like_trans)

lemma not_found_self: "la_rep la bs \<Longrightarrow> full \<Longrightarrow> not_found la bs full (Some (la, None))"
  unfolding not_found_def by force

lemma find_loop_correct:
  assumes "la_rep la (xs @ h # ys)"
  shows "found la (xs @ h # ys) need (find_loop la h w need) \<or>
    not_found la (xs @ h # ys) (length (h # ys) \<le> w \<longrightarrow> largest_run la 0 (h # ys) < LARGE_HEAD + need) (find_loop la h w need)"
  using assms
proof (induction ys arbitrary: la xs h w)
  case Nil
  then have sh: "la_shape la (xs @ [h])" by (simp add: la_rep_def)
  note order = in_block_order [OF sh] and step = next_head_in [OF sh, simplified]
  have stop: "find_loop la (la_tail la) (w - 1) need = Some (la, None)"
    by (subst find_loop.simps) (simp add: LARGE_HEAD_def)
  consider "w = 0" | "w \<noteq> 0" "la_free la h" "need \<le> la_space la h" | "w \<noteq> 0" "la_free la h" "la_space la h < need" | "w \<noteq> 0" "\<not> la_free la h"
    by linarith
  then show ?case
  proof cases
    case 2
    then have "find_loop la h w need = Some (take_head la h need, Some h)"
      using order(5) by (subst find_loop.simps) simp
    then have "found la (xs @ [h]) need (find_loop la h w need)"
      unfolding found_def using Nil 2 by fastforce
    then show ?thesis by simp
  next
    case 3
    then have "find_loop la h w need = Some (la, None)"
      using order(5) step by (subst find_loop.simps) (simp add: Let_def)
    then show ?thesis using not_found_self [OF Nil] 3 by simp
  next
    case 4
    then have "find_loop la h w need = Some (la, None)"
      using order(5) step stop by (subst find_loop.simps) simp
    then show ?thesis using not_found_self [OF Nil] 4 by (simp add: LARGE_HEAD_def)
  qed (use not_found_self [OF Nil] in \<open>subst (2) find_loop.simps, simp\<close>)
next
  case (Cons n zs)
  then have sh: "la_shape la (xs @ h # n # zs)" by (simp add: la_rep_def)
  note order = in_block_order [OF sh] and step = next_head_in [OF sh, simplified]
  have n: "n + LARGE_HEAD < la_tail la" using in_block_order(7) [of la "xs @ [h]" n zs] sh by simp
  consider "w = 0" | "w \<noteq> 0" "la_free la h" "need \<le> la_space la h"
    | "w \<noteq> 0" "la_free la h" "la_space la h < need" "la_free la n"
    | "w \<noteq> 0" "\<not> (la_free la h \<and> (need \<le> la_space la h \<or> la_free la n))"
    by linarith
  then show ?case
  proof cases
    case 2
    then have "find_loop la h w need = Some (take_head la h need, Some h)"
      using order(5) by (subst find_loop.simps) simp
    then have "found la (xs @ h # n # zs) need (find_loop la h w need)"
      unfolding found_def using Cons.prems 2 la_like_refl by blast
    then show ?thesis by simp
  next
    case 3
    note mh = merge_head_correct [OF Cons.prems 3(2,4)]
    have eq: "find_loop la h w need = find_loop (merge_head la h) h w need"
      using order(5) step n 3 by (subst find_loop.simps) (simp add: Let_def)
    have "largest_run (merge_head la h) 0 ([] @ h # zs) = largest_run la 0 ([] @ h # n # zs)"
    proof (rule largest_run_merge)
      show "la_space (merge_head la h) h = la_space la h + (LARGE_HEAD + la_space la n)"
        using merge_bound [OF sh] by (simp add: merge_head_def Let_def step)
      show "la_free la b = la_free (merge_head la h) b \<and> la_space la b = la_space (merge_head la h) b"
        if "b \<in> set ([] @ zs)" for b
        using that order(2) mh(3) mh(5) [of b] by (cases "b = h") auto
    qed (use mh(3) 3 in auto)
    then show ?thesis
      using Cons.IH [OF mh(1), of w] found_like [OF _ mh(2)] not_found_like [OF _ mh(2)] unfolding eq by force
  next
    case 4
    have eq: "find_loop la h w need = find_loop la n (w - 1) need"
      using order(5) step n 4 by (subst find_loop.simps) (simp add: Let_def)
    have rep: "la_rep la ((xs @ [h]) @ n # zs)" using Cons.prems by simp
    have run: "largest_run la 0 (h # n # zs) < LARGE_HEAD + need" if "largest_run la 0 (n # zs) < LARGE_HEAD + need"
      using that 4(2) by auto
    have len: "length (n # zs) \<le> w - 1" if "length (h # n # zs) \<le> w" using that by simp
    show ?thesis
      using Cons.IH [OF rep, of "w - 1"]
    proof (rule disj_forward)
      show "found la (xs @ h # n # zs) need (find_loop la h w need)"
        if "found la ((xs @ [h]) @ n # zs) need (find_loop la n (w - 1) need)"
        using that by (simp add: eq)
      show "not_found la (xs @ h # n # zs) (length (h # n # zs) \<le> w \<longrightarrow> largest_run la 0 (h # n # zs) < LARGE_HEAD + need)
          (find_loop la h w need)"
        if "not_found la ((xs @ [h]) @ n # zs) (length (n # zs) \<le> w - 1 \<longrightarrow> largest_run la 0 (n # zs) < LARGE_HEAD + need)
          (find_loop la n (w - 1) need)"
        unfolding eq by (rule not_found_like [OF that]) (use run len in simp_all)
    qed
  qed (use not_found_self [OF Cons.prems] in \<open>subst (2) find_loop.simps, simp\<close>)
qed


section \<open>Taking a head\<close>

text \<open>A head that is taken, before the size is set, and the other data as it was.\<close>

definition taken :: "large_allocator \<Rightarrow> nat list \<Rightarrow> nat \<Rightarrow> nat \<Rightarrow> large_allocator \<Rightarrow> nat list \<Rightarrow> bool" where
  "taken la bs h need la' bs' \<longleftrightarrow> la_shape la' bs' \<and> la_cache la' (set bs') \<and> h \<in> set bs' \<and> \<not> la_free la' h
     \<and> need \<le> la_space la' h \<and> (\<forall>b\<in>set bs'. \<not> la_free la' b \<longrightarrow> b \<noteq> h \<longrightarrow> la_real la' b \<le> la_space la' b)
     \<and> la_frame la la' \<and> la_mem la' = la_mem la
     \<and> (\<forall>p. p \<noteq> h + LARGE_HEAD \<longrightarrow> la_live la' bs' p = la_live la bs p)"

lemma taken_set_real:
  assumes "taken la bs h need la' bs'" and "n \<le> need"
  shows "la_rep (set_real la' h n real) bs'"
    "la_live (set_real la' h n real) bs' = (la_live la bs)(h + LARGE_HEAD \<mapsto> (if real then la_space la' h else n))"
    "la_mem (set_real la' h n real) = la_mem la" "la_frame la (set_real la' h n real)"
proof -
  note t = assms(1) [unfolded taken_def]
  have lt: "LARGE_HEAD + la_space la' h < 2 ^ 31" using t la_shapeD(13) by blast
  have r: "take_bit 32 (if real then la_space la' h else n) = (if real then la_space la' h else n)"
    using lt assms(2) t by (simp add: take_bit_nat_eq_self_iff)
  have "la_cache (set_real la' h n real) (set bs')" by (rule la_cache_cong [of la']) (use t in auto)
  moreover have "la_shape (set_real la' h n real) bs'" by (rule la_shape_cong [of la']) (use t in \<open>auto simp: la_frame_def\<close>)
  ultimately show "la_rep (set_real la' h n real) bs'" using t assms(2) r by (auto simp: la_rep_def la_fits_def)
  show "la_live (set_real la' h n real) bs' = (la_live la bs)(h + LARGE_HEAD \<mapsto> (if real then la_space la' h else n))"
  proof
    fix p
    have "la_live (set_real la' h n real) bs' p = la_live la' bs' p" if "p \<noteq> h + LARGE_HEAD"
      using that by (auto simp: la_live_def)
    moreover have "la_live (set_real la' h n real) bs' (h + LARGE_HEAD) = Some (if real then la_space la' h else n)"
      using t r by (simp add: la_live_def)
    ultimately show "la_live (set_real la' h n real) bs' p = ((la_live la bs)(h + LARGE_HEAD \<mapsto> (if real then la_space la' h else n))) p"
      using t by simp
  qed
qed (use assms(1) in \<open>auto simp: taken_def la_frame_def\<close>)

lemma cut_order:
  assumes "la_shape la (xs @ h # ys)" and "LARGE_HEAD + m \<le> la_space la h"
  shows "h + LARGE_HEAD + m \<notin> set xs" "h + LARGE_HEAD + m \<notin> set ys" "h + LARGE_HEAD + m \<noteq> h"
  using chain_split(5,6) [OF la_shapeD(1) [OF assms(1)], of "h + LARGE_HEAD + m"] assms(2) by (fastforce simp: LARGE_HEAD_def)+

lemma cut_bound:
  assumes "la_shape la (xs @ h # ys)" and "m \<le> la_space la h"
  shows "take_bit 31 m = m" "take_bit 31 (la_space la h - k) = la_space la h - k"
  using la_shapeD(13) [OF assms(1), of h] assms(2) by (simp_all add: take_bit_nat_eq_self_iff)

text \<open>A head is cut after a space, and a free head follows.\<close>

definition cut_head :: "large_allocator \<Rightarrow> nat \<Rightarrow> nat \<Rightarrow> large_allocator" where
  "cut_head la h need =
     (let n = h + LARGE_HEAD + need
      in xu_static_large_allocator_pred_update
        (set_space (set_free (set_space la n (la_space la h - need - LARGE_HEAD)) n True) h need) n)"

lemma cut_head_correct:
  assumes sh: "la_shape la (xs @ h # ys)" and ft: "la_fits la (xs @ h # ys)" and ca: "la_cache la C" and C: "C \<subseteq> set (xs @ h # ys)"
    and h: "la_free la h \<Longrightarrow> h \<notin> C" and room: "LARGE_HEAD + need < la_space la h" and need: "0 < need" "la_page la dvd LARGE_HEAD + need"
  defines "n \<equiv> h + LARGE_HEAD + need" and "la' \<equiv> cut_head la h need"
  shows "la_shape la' (xs @ h # n # ys)" "la_cache la' (insert n C)" "la_frame la la'" "la_mem la' = la_mem la"
    "la_free la' = (la_free la)(n := True)" "la_space la' h = need" "n \<notin> set (xs @ h # ys)"
    "\<And>b. b \<in> set (xs @ h # n # ys) \<Longrightarrow> \<not> la_free la' b \<Longrightarrow> b \<noteq> h \<Longrightarrow> la_real la' b \<le> la_space la' b"
    "la_live la' (xs @ h # n # ys) = la_live la (xs @ h # ys)"
proof -
  note cut = cut_order [OF sh less_imp_le [OF room], folded n_def] and order = in_block_order [OF sh]
  define l2 where "l2 = set_space (set_free (set_space la n (la_space la h - need - LARGE_HEAD)) n True) h need"
  have la': "la' = xu_static_large_allocator_pred_update l2 n" by (simp add: la'_def cut_head_def l2_def n_def Let_def)
  have sp: "la_space la' = (la_space la)(n := la_space la h - need - LARGE_HEAD, h := need)"
    using cut_bound [OF sh, of need] room by (simp add: la' l2_def)
  show fr: "la_frame la la'" and "la_mem la' = la_mem la" and free: "la_free la' = (la_free la)(n := True)"
    by (simp_all add: la' l2_def la_frame_def)
  show "la_space la' h = need" by (simp add: sp)
  show n: "n \<notin> set (xs @ h # ys)" using cut by simp
  show "la_shape la' (xs @ h # n # ys)" using la_shape_cut [OF sh fr room need] sp by (simp add: n_def)
  have "la_cache l2 C" by (rule la_cache_cong [OF ca]) (use n C h in \<open>auto simp: l2_def\<close>)
  then show "la_cache la' (insert n C)"
    unfolding la' by (rule la_cache_update) (use la_shapeD(9) [OF sh] in \<open>simp_all add: l2_def\<close>)
  have real: "la_real la' = la_real la" by (simp add: la' l2_def)
  show "la_real la' b \<le> la_space la' b" if "b \<in> set (xs @ h # n # ys)" "\<not> la_free la' b" "b \<noteq> h" for b
    using that ft n by (auto simp: la_fits_def free real sp)
  show "la_live la' (xs @ h # n # ys) = la_live la (xs @ h # ys)"
    using n by (auto simp: la_live_def free real fun_eq_iff)
qed

lemma take_head_correct:
  assumes "la_rep la (xs @ h # ys)" and "la_free la h" and "need \<le> la_space la h" and "0 < need" and "la_page la dvd LARGE_HEAD + need"
  shows "\<exists>bs'. taken la (xs @ h # ys) h need (take_head la h need) bs'"
proof -
  have sh: "la_shape la (xs @ h # ys)" and ca: "la_cache la (set (xs @ h # ys))" and ft: "la_fits la (xs @ h # ys)"
    using assms(1) by (simp_all add: la_rep_def)
  note order = in_block_order [OF sh]
  define l1 where "l1 = xu_static_large_allocator_pred_remove la h"
  have c1: "la_cache l1 (set (xs @ ys))"
    unfolding l1_def by (rule la_cache_mono [OF la_cache_remove [OF ca la_shapeD(9) [OF sh]]]) auto
  show ?thesis
  proof (cases "la_space la h > LARGE_HEAD + need")
    case True
    let ?n = "h + LARGE_HEAD + need"
    define la' where "la' = set_free (cut_head l1 h need) h False"
    have th: "take_head la h need = la'"
      using True by (simp add: take_head_def Let_def la'_def l1_def cut_head_def)
    have l1: "la_shape l1 (xs @ h # ys)" "la_fits l1 (xs @ h # ys)" "la_frame la l1"
      using la_shape_cong [OF sh, of l1] ft by (simp_all add: l1_def la_frame_def la_fits_def)
    have "set (xs @ ys) \<subseteq> set (xs @ h # ys)" "la_free l1 h \<Longrightarrow> h \<notin> set (xs @ ys)"
      "LARGE_HEAD + need < la_space l1 h" "la_page l1 dvd LARGE_HEAD + need"
      using order True assms(5) by (auto simp: l1_def)
    note cut = cut_head_correct [OF l1(1,2) c1 this(1,2,3) assms(4) this(4)]
    have "la_cache la' (insert ?n (set (xs @ ys)))"
      by (rule la_cache_cong [OF cut(2)]) (use cut(7) order in \<open>auto simp: la'_def\<close>)
    then have "la_cache la' (set (xs @ h # ?n # ys))" by (rule la_cache_mono) auto
    moreover have "la_shape la' (xs @ h # ?n # ys)" by (rule la_shape_cong [OF cut(1)]) (simp_all add: la'_def la_frame_def)
    moreover have "la_live la' (xs @ h # ?n # ys) p = la_live la (xs @ h # ys) p" if "p \<noteq> h + LARGE_HEAD" for p
    proof -
      have "la_live la' (xs @ h # ?n # ys) p = la_live (cut_head l1 h need) (xs @ h # ?n # ys) p"
        using that by (auto simp: la_live_def la'_def)
      also have "\<dots> = la_live l1 (xs @ h # ys) p" by (simp only: cut(9))
      finally show ?thesis by (simp add: la_live_def l1_def)
    qed
    ultimately have "taken la (xs @ h # ys) h need la' (xs @ h # ?n # ys)"
      using cut(3,4,6,8) by (auto simp: taken_def la'_def la_frame_def l1_def)
    then show ?thesis unfolding th by blast
  next
    case False
    let ?n = "h + LARGE_HEAD + la_space la h"
    define l2 where "l2 = (if ?n + LARGE_HEAD < la_tail la \<and> la_free la ?n then xu_static_large_allocator_pred_update l1 ?n else l1)"
    define la' where "la' = set_free l2 h False"
    have th: "take_head la h need = la'"
      using False by (simp add: take_head_def Let_def la'_def l2_def l1_def)
    have fr: "la_frame la la'" and fx: "la_real la' = la_real la" "la_mem la' = la_mem la" "la_free la' = (la_free la)(h := False)"
      "la_space la' = la_space la"
      by (simp_all add: la'_def l2_def l1_def la_frame_def)
    have "?n \<in> set ys" if "?n + LARGE_HEAD < la_tail la"
      using that next_head_in [OF sh] by (cases ys) (auto simp: next_head_def)
    then have "la_cache l2 (set (xs @ ys))"
      using c1 la_cache_update [OF c1, of ?n] la_shapeD(9) [OF sh] by (auto simp: l2_def l1_def insert_absorb)
    then have "la_cache la' (set (xs @ ys))"
      by (rule la_cache_cong) (use order in \<open>auto simp: la'_def\<close>)
    then have cache: "la_cache la' (set (xs @ h # ys))" by (rule la_cache_mono) auto
    have shape: "la_shape la' (xs @ h # ys)" by (rule la_shape_cong [OF sh fr fx(4)])
    have "la_live la' (xs @ h # ys) p = la_live la (xs @ h # ys) p" if "p \<noteq> h + LARGE_HEAD" for p
      using that by (auto simp: la_live_def fx)
    then have "taken la (xs @ h # ys) h need la' (xs @ h # ys)"
      using shape cache fr ft assms(3) by (simp add: taken_def fx la_fits_def)
    then show ?thesis unfolding th by blast
  qed
qed


section \<open>The space for a size\<close>

lemma unat_and_not_mask: "unat (w AND NOT (mask k) :: u64) = 2 ^ k * (unat w div 2 ^ k)"
proof -
  have "w AND NOT (mask k) = push_bit k (drop_bit k w)"
    by (rule bit_word_eqI) (auto simp: bit_simps)
  moreover have "unat w div 2 ^ k * 2 ^ k < 2 ^ 64"
    using le_less_trans [OF div_times_less_eq_dividend unsigned_less [of w]] by simp
  then have "unat (push_bit k (drop_bit k w)) = 2 ^ k * (unat w div 2 ^ k)"
    unfolding unsigned_push_bit_eq unsigned_drop_bit_eq
    by (simp add: take_bit_nat_eq_self [OF unsigned_less [of w], simplified] drop_bit_eq_div push_bit_eq_mult take_bit_nat_eq_self_iff mult.commute)
  ultimately show ?thesis by simp
qed

lemma xu_align_value:
  assumes "x + 2 ^ k \<le> 2 ^ 64" and "k < 64"
  shows "xu_align x (2 ^ k) = (x + (2 ^ k - 1)) div 2 ^ k * 2 ^ k"
proof -
  have "(of_nat (2 ^ k) - 1 :: u64) = mask k" by (simp add: mask_eq_decr_exp)
  moreover have "(of_nat x + mask k :: u64) = of_nat (x + (2 ^ k - 1))"
    by (simp only: mask_eq_decr_exp of_nat_add) (simp add: of_nat_diff)
  moreover have "unat (of_nat (x + (2 ^ k - 1)) :: u64) = x + (2 ^ k - 1)"
    using assms(1) by (simp add: unsigned_of_nat take_bit_nat_eq_self_iff del: of_nat_add)
  ultimately show ?thesis by (simp add: xu_align_def unat_and_not_mask mult.commute del: of_nat_add of_nat_power)
qed

text \<open>The space is the least one that has the size and fills pages together with the head.\<close>

lemma need_space_value:
  assumes "\<exists>k. 4 \<le> k \<and> k < 31 \<and> la_page la = 2 ^ k" and "0 < n" and "n < 2 ^ 63"
  shows "n \<le> need_space la n" "la_page la dvd LARGE_HEAD + need_space la n" "0 < need_space la n"
    "\<And>m. n \<le> m \<Longrightarrow> la_page la dvd LARGE_HEAD + m \<Longrightarrow> need_space la n \<le> m" "need_space la n < n + 2 * la_page la"
proof -
  obtain k where k: "4 \<le> k" "k < 31" and page: "la_page la = 2 ^ k" using assms(1) by blast
  have p: "16 \<le> la_page la" "la_page la < 2 ^ 31" "16 dvd la_page la"
    using power_increasing [OF k(1), of "2 :: nat"] power_strict_increasing [OF k(2), of "2 :: nat"] le_imp_power_dvd [OF k(1), of "2 :: nat"]
    by (simp_all add: page)
  define q where "q = (n + (la_page la - 1)) div la_page la"
  define r where "r = (n + (la_page la - 1)) mod la_page la"
  have "q * la_page la + r = n + (la_page la - 1)" "r < la_page la" using p(1) by (simp_all only: q_def r_def div_mult_mod_eq) simp
  then have q: "n \<le> q * la_page la" "q * la_page la < n + la_page la" using p(1) by linarith+
  then have q0: "0 < q" using assms(2) by (cases q) auto
  have al: "xu_align n (la_page la) = q * la_page la"
    using xu_align_value [of n k] k assms(3) p(2) by (simp add: page q_def)
  have "(n + la_page la + (la_page la - 1)) div la_page la = q + 1"
    using p(1) div_add_self1 [of "la_page la" "n + (la_page la - 1)"] by (simp add: q_def ac_simps)
  then have al2: "xu_align (n + la_page la) (la_page la) = q * la_page la + la_page la"
    using xu_align_value [of "n + la_page la" k] k assms(3) p(2) by (simp add: page)
  have u: "unat (of_nat x - of_nat LARGE_HEAD :: u64) = x - LARGE_HEAD" if "LARGE_HEAD \<le> x" "x < 2 ^ 64" for x
  proof -
    have "(of_nat x - of_nat LARGE_HEAD :: u64) = of_nat (x - LARGE_HEAD)" using that by (simp add: of_nat_diff)
    moreover have "unat (of_nat (x - LARGE_HEAD) :: u64) = x - LARGE_HEAD"
      unfolding unsigned_of_nat of_nat_id by (rule take_bit_nat_eq_self) (use that in simp)
    ultimately show ?thesis by (simp only:)
  qed
  have "LARGE_HEAD \<le> q * la_page la" using q0 p(1) by (cases q) (simp_all add: LARGE_HEAD_def)
  moreover have "q * la_page la + la_page la < 2 ^ 64" using q(2) assms(3) p(2) by simp
  ultimately have need: "need_space la n = (if n > q * la_page la - LARGE_HEAD then q * la_page la + la_page la - LARGE_HEAD
      else q * la_page la - LARGE_HEAD)"
    by (simp add: need_space_def Let_def al al2 u del: of_nat_add of_nat_mult)
  have dvd: "la_page la dvd LARGE_HEAD + need_space la n"
    using \<open>LARGE_HEAD \<le> q * la_page la\<close> by (simp add: need)
  show "n \<le> need_space la n" using q(1) p(1) \<open>LARGE_HEAD \<le> q * la_page la\<close> by (auto simp: need LARGE_HEAD_def)
  then show "0 < need_space la n" using assms(2) by simp
  show "need_space la n < n + 2 * la_page la" using q(2) by (auto simp: need)
  show "la_page la dvd LARGE_HEAD + need_space la n" by (rule dvd)
  show "need_space la n \<le> m" if m: "n \<le> m" "la_page la dvd LARGE_HEAD + m" for m
  proof -
    obtain j where j: "LARGE_HEAD + m = la_page la * j" using m(2) by blast
    have "q \<le> j"
    proof (rule ccontr)
      assume "\<not> q \<le> j"
      then have "(j + 1) * la_page la \<le> q * la_page la" by (intro mult_le_mono1) simp
      then show False using j m(1) q(2) p(1) by (simp add: LARGE_HEAD_def mult.commute)
    qed
    then consider "j = q" | "q + 1 \<le> j" by linarith
    then show ?thesis
    proof cases
      case 1
      then have "m = q * la_page la - LARGE_HEAD" using j by (metis add_diff_cancel_left' mult.commute)
      then show ?thesis using m(1) by (simp add: need)
    next
      case 2
      then have "(q + 1) * la_page la \<le> j * la_page la" by (rule mult_le_mono1)
      then have "q * la_page la + la_page la \<le> LARGE_HEAD + m" using j by (simp add: mult.commute)
      then have "q * la_page la + la_page la - LARGE_HEAD \<le> m" "q * la_page la - LARGE_HEAD \<le> m" by linarith+
      then show ?thesis by (simp add: need)
    qed
  qed
qed


section \<open>Allocation\<close>

lemma chain_length: "chain sp a bs t \<Longrightarrow> length bs * LARGE_HEAD \<le> t - a"
proof (induction bs arbitrary: a)
  case (Cons b bs)
  then show ?case using chain_le [of sp "a + LARGE_HEAD + sp a" bs t] by fastforce
qed simp

lemma malloc_find_correct:
  assumes "la_rep la (xs @ h # ys)" and "0 < need"
  shows "found la (xs @ h # ys) need (xu_static_large_allocator_malloc_find la h w need) \<or>
    not_found la (xs @ h # ys) (length (h # ys) \<le> w \<longrightarrow> largest_run la 0 (h # ys) < LARGE_HEAD + need)
      (xu_static_large_allocator_malloc_find la h w need)"
  using find_loop_correct [OF assms(1), of need w] assms(2) in_block_order(3) [of la xs h ys] assms(1)
  by (simp add: xu_static_large_allocator_malloc_find_def la_rep_def)

lemma pred_walk_correct:
  assumes "la_rep la bs" and "0 < need"
  shows "found la bs need (pred_walk la i need) \<or> not_found la bs True (pred_walk la i need)"
  using assms(1)
proof (induction "10 - i" arbitrary: i la bs)
  case 0
  then show ?case using not_found_self [of la bs True] by (subst (2) pred_walk.simps) simp
next
  case (Suc d)
  then have i: "i < 10" "d = 10 - (i + 1)" by simp_all
  show ?case
  proof (cases "la_pred la ! i")
    case None
    then have "pred_walk la i need = pred_walk la (i + 1) need" using i by (subst pred_walk.simps) simp
    then show ?thesis using Suc.hyps(1) [OF i(2) Suc.prems] by simp
  next
    case (Some p)
    then have "p \<in> set bs" using Suc.prems la_cacheD [of la "set bs" i p] i by (simp add: la_rep_def)
    then obtain xs ys where bs: "bs = xs @ p # ys" using split_list by fastforce
    have walk: "pred_walk la i need = (case xu_static_large_allocator_malloc_find la p 1 need of
        None \<Rightarrow> None | Some (la, None) \<Rightarrow> pred_walk la (i + 1) need | Some (la, Some h) \<Rightarrow> Some (la, Some h))"
      using i Some by (subst pred_walk.simps) simp
    have "la_rep la (xs @ p # ys)" using Suc.prems by (simp add: bs)
    then show ?thesis using malloc_find_correct [OF _ assms(2), of la xs p ys 1] unfolding bs [symmetric]
    proof (elim meta_impE disjE)
      assume "not_found la bs (length (p # ys) \<le> 1 \<longrightarrow> largest_run la 0 (p # ys) < LARGE_HEAD + need)
        (xu_static_large_allocator_malloc_find la p 1 need)"
      then obtain la1 bs1 where f: "xu_static_large_allocator_malloc_find la p 1 need = Some (la1, None)" "la_rep la1 bs1" "la_like la bs la1 bs1"
        unfolding not_found_def by blast
      then have eq: "pred_walk la i need = pred_walk la1 (i + 1) need" by (simp add: walk)
      show ?thesis
        using Suc.hyps(1) [OF i(2) f(2)] found_like [OF _ f(3)] not_found_like [OF _ f(3)] unfolding eq by blast
    next
      assume f: "found la bs need (xu_static_large_allocator_malloc_find la p 1 need)"
      then obtain la1 h where "xu_static_large_allocator_malloc_find la p 1 need = Some (la1, Some h)" unfolding found_def by blast
      then have "pred_walk la i need = xu_static_large_allocator_malloc_find la p 1 need" by (simp add: walk)
      then show ?thesis using f by simp
    qed
  qed
qed

definition given :: "large_allocator \<Rightarrow> nat list \<Rightarrow> nat \<Rightarrow> bool \<Rightarrow> large_allocator \<Rightarrow> nat list \<Rightarrow> nat \<Rightarrow> bool" where
  "given la bs n real la' bs' p \<longleftrightarrow> la_rep la' bs' \<and> la_frame la la' \<and> la_mem la' = la_mem la \<and> la_live la bs p = None \<and> p \<noteq> 0
     \<and> (\<exists>s. la_live la' bs' = (la_live la bs)(p \<mapsto> s) \<and> n \<le> s \<and> (\<not> real \<longrightarrow> s = n))"

lemma take_found:
  assumes "found la bs need r" and "0 < need" and "la_page la dvd LARGE_HEAD + need" and "n \<le> need"
  shows "\<exists>la1 h bs'. r = Some (la1, Some h) \<and> given la bs n real (set_real la1 h n real) bs' (h + LARGE_HEAD)
    \<and> LARGE_HEAD + need \<le> largest_run la 0 bs"
proof -
  obtain la1 xs h ys where r: "r = Some (take_head la1 h need, Some h)" and rep: "la_rep la1 (xs @ h # ys)"
    and like: "la_like la bs la1 (xs @ h # ys)" and h: "la_free la1 h" "need \<le> la_space la1 h"
    using assms(1) unfolding found_def by blast
  have "la_page la1 = la_page la" using like by (simp add: la_like_def la_frame_def)
  then obtain bs' where t: "taken la1 (xs @ h # ys) h need (take_head la1 h need) bs'"
    using take_head_correct [OF rep h assms(2)] assms(3) by auto
  note real = taken_set_real [OF t assms(4), of real]
  have "la_live la bs (h + LARGE_HEAD) = la_live la1 (xs @ h # ys) (h + LARGE_HEAD)" using like by (simp add: la_like_def)
  also have "\<dots> = None" using h(1) by (simp add: la_live_def)
  finally have "la_live la bs (h + LARGE_HEAD) = None" .
  moreover have "n \<le> la_space (take_head la1 h need) h" using t assms(4) by (simp add: taken_def)
  ultimately have "given la bs n real (set_real (take_head la1 h need) h n real) bs' (h + LARGE_HEAD)"
    using real like by (auto simp: given_def la_like_def la_frame_def LARGE_HEAD_def)
  moreover have "LARGE_HEAD + need \<le> largest_run la 0 bs"
    using largest_run_in [of h "xs @ h # ys" la1 0] h like by (simp add: la_like_def)
  ultimately show ?thesis using r by blast
qed

lemma malloc_done_correct:
  assumes "la_rep la bs" and "0 < n" and "n < 2 ^ 63"
  obtains (none) la' bs' where "xu_static_large_allocator_malloc_done la n real = Some (la', None)" "la_rep la' bs'" "la_like la bs la' bs'"
      "largest_run la 0 bs < LARGE_HEAD + need_space la n"
    | (some) la' bs' h where "xu_static_large_allocator_malloc_done la n real = Some (la', Some h)" "given la bs n real la' bs' (h + LARGE_HEAD)"
      "LARGE_HEAD + need_space la n \<le> largest_run la 0 bs"
proof -
  let ?m = "need_space la n"
  have sh: "la_shape la bs" using assms(1) by (simp add: la_rep_def)
  note m = need_space_value [OF la_shapeD(8) [OF sh] assms(2,3)]
  let ?p = "xu_static_large_allocator_malloc_pred la ?m"
  consider "found la bs ?m ?p" | "not_found la bs True ?p"
    using pred_walk_correct [OF assms(1) m(3)] unfolding xu_static_large_allocator_malloc_pred_def by blast
  then show thesis
  proof cases
    case 1
    then obtain la1 h bs' where "?p = Some (la1, Some h)" "given la bs n real (set_real la1 h n real) bs' (h + LARGE_HEAD)"
      "LARGE_HEAD + ?m \<le> largest_run la 0 bs" using take_found [OF 1 m(3,2,1)] by blast
    then show thesis by (intro some) (simp_all add: xu_static_large_allocator_malloc_done_def Let_def)
  next
    case 2
    then obtain la1 bs1 where p: "?p = Some (la1, None)" and rep: "la_rep la1 bs1" and like: "la_like la bs la1 bs1"
      unfolding not_found_def by blast
    have sh1: "la_shape la1 bs1" using rep by (simp add: la_rep_def)
    then obtain ys where bs1: "bs1 = la_head la1 # ys"
      using la_shapeD(1,6) [OF sh1] by (cases bs1) auto
    have "length bs1 \<le> 2 ^ 64 - 1"
      using chain_length [OF la_shapeD(1) [OF sh1]] la_shapeD(2,5) [OF sh1] by (simp add: LARGE_HEAD_def)
    let ?f = "xu_static_large_allocator_malloc_find la1 (la_head la1) (2 ^ 64 - 1) ?m"
    have page: "la_page la1 = la_page la" and run: "largest_run la1 0 bs1 = largest_run la 0 bs"
      using like by (simp_all add: la_like_def la_frame_def)
    consider "found la1 bs1 ?m ?f" | "not_found la1 bs1 (largest_run la1 0 bs1 < LARGE_HEAD + ?m) ?f"
      using malloc_find_correct [of la1 "[]" "la_head la1" ys ?m "2 ^ 64 - 1"] rep m(3) \<open>length bs1 \<le> _\<close> by (auto simp: bs1)
    then show thesis
    proof cases
      case 1
      then have "found la bs ?m ?f" using like by (rule found_like)
      then obtain la2 h bs' where "?f = Some (la2, Some h)" "given la bs n real (set_real la2 h n real) bs' (h + LARGE_HEAD)"
        "LARGE_HEAD + ?m \<le> largest_run la 0 bs" using take_found [OF _ m(3,2,1)] by blast
      then show thesis by (intro some) (simp_all add: xu_static_large_allocator_malloc_done_def Let_def p)
    next
      case 2
      then obtain la2 bs2 where "?f = Some (la2, None)" "la_rep la2 bs2" "la_like la1 bs1 la2 bs2" "largest_run la 0 bs < LARGE_HEAD + ?m"
        unfolding not_found_def run by blast
      then show thesis using la_like_trans [OF like]
        by (intro none) (simp_all add: xu_static_large_allocator_malloc_done_def Let_def p)
    qed
  qed
qed


section \<open>Release and reallocation\<close>

text \<open>The state behind a head that is given out may change, the data not.\<close>

definition la_still :: "large_allocator \<Rightarrow> nat list \<Rightarrow> large_allocator \<Rightarrow> nat list \<Rightarrow> bool" where
  "la_still la bs la' bs' \<longleftrightarrow> la_rep la' bs' \<and> la_frame la la' \<and> la_mem la' = la_mem la \<and> la_free la' = la_free la
     \<and> la_real la' = la_real la \<and> la_live la' bs' = la_live la bs"

lemma la_still_refl: "la_rep la bs \<Longrightarrow> la_still la bs la bs"
  by (simp add: la_still_def la_frame_def)

lemma la_still_trans: "la_still la bs la1 bs1 \<Longrightarrow> la_still la1 bs1 la2 bs2 \<Longrightarrow> la_still la bs la2 bs2"
  by (simp add: la_still_def la_frame_def)

definition absorb :: "large_allocator \<Rightarrow> nat \<Rightarrow> nat \<Rightarrow> large_allocator" where
  "absorb la h n = set_space (xu_static_large_allocator_pred_remove la n) h (la_space la h + (LARGE_HEAD + la_space la n))"

lemma absorb_correct:
  assumes "la_rep la (xs @ h # n # ys)" and "\<not> la_free la h" and "la_free la n"
  shows "la_still la (xs @ h # n # ys) (absorb la h n) (xs @ h # ys)"
proof -
  have sh: "la_shape la (xs @ h # n # ys)" and ca: "la_cache la (set (xs @ h # n # ys))" and ft: "la_fits la (xs @ h # n # ys)"
    using assms(1) by (simp_all add: la_rep_def)
  note order = in_block_order [OF sh]
  let ?la = "absorb la h n"
  have sp: "la_space ?la = (la_space la)(h := la_space la h + (LARGE_HEAD + la_space la n))"
    and fr: "la_frame la ?la" and fx: "la_free ?la = la_free la" "la_real ?la = la_real la" "la_mem ?la = la_mem la"
    using merge_bound [OF sh] by (simp_all add: absorb_def la_frame_def)
  have "la_cache ?la (set (xs @ h # n # ys) - {n})"
    by (rule la_cache_cong [OF la_cache_remove [OF ca la_shapeD(9) [OF sh], of n]])
      (use assms(2) in \<open>auto simp: absorb_def\<close>)
  then have "la_cache ?la (set (xs @ h # ys))" by (rule la_cache_mono) auto
  moreover have "la_fits ?la (xs @ h # ys)" using ft by (auto simp: la_fits_def fx sp)
  moreover have "la_live ?la (xs @ h # ys) = la_live la (xs @ h # n # ys)" using assms(3) by (auto simp: la_live_def fx)
  ultimately show ?thesis using la_shape_merge [OF sh fr sp] fr by (simp add: la_still_def la_rep_def fx)
qed

lemma merge_loop_correct:
  assumes "la_rep la (xs @ h # ys)" and "\<not> la_free la h"
  shows "\<exists>la' ys'. merge_loop la h (next_head la h) = Some la' \<and> la_still la (xs @ h # ys) la' (xs @ h # ys')"
  using assms
proof (induction ys arbitrary: la)
  case Nil
  then have "next_head la h = la_tail la" using next_head_in [of la xs h "[]"] by (simp add: la_rep_def)
  then have "merge_loop la h (next_head la h) = Some la" by (subst merge_loop.simps) simp
  then show ?case using la_still_refl [OF Nil(1)] by blast
next
  case (Cons n zs)
  have sh: "la_shape la (xs @ h # n # zs)" using Cons.prems by (simp add: la_rep_def)
  have n: "next_head la h = n" "n < la_tail la" using next_head_in [OF sh] in_block_order(3) [of la "xs @ [h]" n zs] sh by simp_all
  show ?case
  proof (cases "la_free la n")
    case True
    note ab = absorb_correct [OF Cons.prems True]
    have "merge_loop la h (next_head la h) = merge_loop (absorb la h n) h (next_head (absorb la h n) h)"
      using n True by (subst merge_loop.simps) (simp add: absorb_def Let_def)
    then show ?thesis using Cons.IH [of "absorb la h n"] Cons.prems(2) ab la_still_trans [OF ab] by (fastforce simp: la_still_def)
  next
    case False
    then have "merge_loop la h (next_head la h) = Some la" using n by (subst merge_loop.simps) simp
    then show ?thesis using la_still_refl [OF Cons.prems(1)] by blast
  qed
qed

lemma live_head:
  assumes "la_live la bs p = Some s"
  obtains xs ys where "bs = xs @ (p - LARGE_HEAD) # ys" "\<not> la_free la (p - LARGE_HEAD)" "s = la_real la (p - LARGE_HEAD)"
    "p = p - LARGE_HEAD + LARGE_HEAD"
  using assms split_list [of "p - LARGE_HEAD" bs] by (auto simp: la_live_def split: if_splits)

lemma xu_static_large_allocator_free_correct:
  assumes "la_rep la bs" and "la_live la bs p = Some s"
  shows "\<exists>la' bs'. xu_static_large_allocator_free la p = (la', True) \<and> la_rep la' bs' \<and> la_frame la la' \<and> la_mem la' = la_mem la
    \<and> la_live la' bs' = (la_live la bs)(p := None)"
proof -
  let ?h = "p - LARGE_HEAD"
  obtain xs ys where bs: "bs = xs @ ?h # ys" and h: "\<not> la_free la ?h" "p = ?h + LARGE_HEAD" using live_head [OF assms(2)] by metis
  have sh: "la_shape la (xs @ ?h # ys)" using assms(1) by (simp add: la_rep_def bs [symmetric])
  note order = in_block_order [OF sh] and step = next_head_in [OF sh]
  define l1 where "l1 = (if next_head la ?h < la_tail la \<and> la_free la (next_head la ?h) then absorb la ?h (next_head la ?h) else la)"
  have "\<exists>ys'. la_still la bs l1 (xs @ ?h # ys')"
  proof (cases "next_head la ?h < la_tail la \<and> la_free la (next_head la ?h)")
    case True
    then obtain n zs where "ys = n # zs" "next_head la ?h = n" using step by (cases ys) auto
    then have "la_still la bs (absorb la ?h n) (xs @ ?h # zs)"
      using absorb_correct [of la xs ?h n zs] assms(1) h(1) True bs by simp
    then show ?thesis using True \<open>next_head la ?h = n\<close> by (auto simp: l1_def)
  next
    case False
    then show ?thesis using la_still_refl [OF assms(1)] bs by (auto simp: l1_def)
  qed
  then obtain ys' where still: "la_still la bs l1 (xs @ ?h # ys')" by blast
  define l2 where "l2 = xu_static_large_allocator_pred_update (set_free l1 ?h True) ?h"
  have "p \<noteq> 0" using h(2) by (simp add: LARGE_HEAD_def)
  then have eq: "xu_static_large_allocator_free la p = (l2, True)"
    using h order(3,4) by (simp add: xu_static_large_allocator_free_def Let_def l2_def l1_def absorb_def)
  let ?bs = "xs @ ?h # ys'"
  have sh1: "la_shape l1 ?bs" and ca1: "la_cache l1 (set ?bs)" and ft1: "la_fits l1 ?bs" using still by (simp_all add: la_still_def la_rep_def)
  have "la_cache (set_free l1 ?h True) (set ?bs)" by (rule la_cache_cong [OF ca1]) auto
  then have "la_cache l2 (set ?bs)"
    using la_cache_update [of "set_free l1 ?h True" "set ?bs" ?h] la_shapeD(9) [OF sh1] by (simp add: l2_def insert_absorb)
  moreover have "la_shape l2 ?bs" by (rule la_shape_cong [OF sh1]) (simp_all add: l2_def la_frame_def)
  moreover have "la_fits l2 ?bs" using ft1 by (auto simp: l2_def la_fits_def)
  moreover have "la_live l2 ?bs = (la_live l1 ?bs)(p := None)" using h(2) by (auto simp: l2_def la_live_def fun_eq_iff)
  ultimately show ?thesis using eq still by (auto simp: la_rep_def la_still_def la_frame_def l2_def)
qed

lemma cut_taken:
  assumes rep: "la_rep la (xs @ h # ys)" and h: "\<not> la_free la h" and room: "need \<le> la_space la h"
    and need: "0 < need" "la_page la dvd LARGE_HEAD + need"
  shows "\<exists>bs'. taken la (xs @ h # ys) h need (if la_space la h > LARGE_HEAD + need then cut_head la h need else la) bs'"
proof (cases "la_space la h > LARGE_HEAD + need")
  case True
  let ?n = "h + LARGE_HEAD + need"
  have "la_shape la (xs @ h # ys)" "la_fits la (xs @ h # ys)" "la_cache la (set (xs @ h # ys))"
    using rep by (simp_all add: la_rep_def)
  note cut = cut_head_correct [OF this subset_refl _ True need]
  have "la_cache (cut_head la h need) (set (xs @ h # ?n # ys))" by (rule la_cache_mono [OF cut(2)]) (use h in auto)
  then have "taken la (xs @ h # ys) h need (cut_head la h need) (xs @ h # ?n # ys)"
    using cut(1,3-9) h by (auto simp: taken_def)
  then show ?thesis using True by auto
next
  case False
  have "taken la (xs @ h # ys) h need la (xs @ h # ys)"
    using rep h room by (simp add: taken_def la_rep_def la_fits_def la_frame_def)
  then show ?thesis using False by auto
qed

lemma ralloc_fast_correct:
  assumes "la_rep la (xs @ h # ys)" and "\<not> la_free la h" and "0 < n" and "n < 2 ^ 63"
  obtains (none) la' bs' where "xu_static_large_allocator_ralloc_fast la h n real = Some (la', None)" "la_still la (xs @ h # ys) la' bs'"
    | (some) la' bs' s where "xu_static_large_allocator_ralloc_fast la h n real = Some (la', Some h)" "la_rep la' bs'" "la_frame la la'"
      "la_mem la' = la_mem la" "la_live la' bs' = (la_live la (xs @ h # ys))(h + LARGE_HEAD \<mapsto> s)" "n \<le> s" "\<not> real \<Longrightarrow> s = n"
proof -
  let ?m = "need_space la n" and ?bs = "xs @ h # ys"
  have sh: "la_shape la ?bs" using assms(1) by (simp add: la_rep_def)
  note m = need_space_value [OF la_shapeD(8) [OF sh] assms(3,4)]
  let ?r = "if ?m > la_space la h then merge_loop la h (next_head la h) else Some la"
  obtain l1 ys1 where r: "?r = Some l1" and still: "la_still la ?bs l1 (xs @ h # ys1)"
    using merge_loop_correct [OF assms(1,2)] la_still_refl [OF assms(1)] by (cases "?m > la_space la h") auto
  have rep1: "la_rep l1 (xs @ h # ys1)" and h1: "\<not> la_free l1 h" and page: "la_page l1 = la_page la"
    using still assms(2) by (simp_all add: la_still_def la_frame_def)
  have sh1: "la_shape l1 (xs @ h # ys1)" and ca1: "la_cache l1 (set (xs @ h # ys1))" and ft1: "la_fits l1 (xs @ h # ys1)"
    using rep1 by (simp_all add: la_rep_def)
  define l2 where "l2 = (if la_space l1 h > LARGE_HEAD + ?m then cut_head l1 h ?m else l1)"
  have eq: "xu_static_large_allocator_ralloc_fast la h n real =
      (if ?m \<le> la_space l1 h then Some (set_real l2 h n real, Some h) else Some (l1, None))"
    using r assms(3) by (simp add: xu_static_large_allocator_ralloc_fast_def Let_def l2_def cut_head_def)
  show thesis
  proof (cases "?m \<le> la_space l1 h")
    case False
    then show thesis using none [OF _ still] eq by simp
  next
    case True
    have "\<exists>bs'. taken l1 (xs @ h # ys1) h ?m l2 bs'"
      using cut_taken [OF rep1 h1 True m(3)] m(2) page unfolding l2_def by simp
    then obtain bs' where t: "taken l1 (xs @ h # ys1) h ?m l2 bs'" by blast
    note tr = taken_set_real [OF t m(1), of real]
    have "la_live l1 (xs @ h # ys1) = la_live la ?bs" "la_frame la l1" "la_mem l1 = la_mem la" using still by (simp_all add: la_still_def)
    then show thesis
      using some [of "set_real l2 h n real" bs' "if real then la_space l2 h else n"] tr t True m(1) eq
      by (auto simp: taken_def la_frame_def)
  qed
qed


section \<open>The operations\<close>

text \<open>The heads of a state, with fuel; the size of the data is enough, since every block has some bytes.\<close>

primrec walk_heads :: "nat \<Rightarrow> large_allocator \<Rightarrow> nat \<Rightarrow> nat list" where
  "walk_heads 0 la h = []"
| "walk_heads (Suc k) la h = (if h < la_tail la then h # walk_heads k la (next_head la h) else [])"

definition la_blocks :: "large_allocator \<Rightarrow> nat list" where
  "la_blocks la = walk_heads (la_data_size la) la (la_head la)"

definition la_ok :: "large_allocator \<Rightarrow> bool" where
  "la_ok la \<longleftrightarrow> la_rep la (la_blocks la)"

definition la_regions :: "large_allocator \<Rightarrow> nat \<Rightarrow> nat option" where
  "la_regions la = la_live la (la_blocks la)"

lemma walk_heads_chain:
  "chain (la_space la) h bs (la_tail la) \<Longrightarrow> length bs \<le> k \<Longrightarrow> walk_heads k la h = bs"
proof (induction bs arbitrary: h k)
  case Nil
  then show ?case by (cases k) auto
next
  case (Cons b bs)
  then obtain j where k: "k = Suc j" "length bs \<le> j" by (cases k) auto
  have "h < la_tail la" using chain_in [OF Cons.prems(1), of b] Cons.prems(1) by (simp add: LARGE_HEAD_def)
  then show ?case using Cons.IH [of "next_head la h" j] Cons.prems(1) k by (simp add: next_head_def)
qed

lemma la_blocks_rep:
  assumes "la_rep la bs"
  shows "la_blocks la = bs"
proof -
  have sh: "la_shape la bs" using assms by (simp add: la_rep_def)
  have "length bs * LARGE_HEAD \<le> la_data_size la" using chain_length [OF la_shapeD(1) [OF sh]] la_shapeD(2) [OF sh] by simp
  then show ?thesis
    unfolding la_blocks_def by (intro walk_heads_chain [OF la_shapeD(1) [OF sh]]) (simp add: LARGE_HEAD_def)
qed

lemma la_okI: "la_rep la bs \<Longrightarrow> la_ok la \<and> la_regions la = la_live la bs"
  using la_blocks_rep [of la bs] by (simp add: la_ok_def la_regions_def)

lemma la_live_fits:
  assumes "la_rep la bs" and "la_live la bs p = Some s"
  shows "p - LARGE_HEAD \<in> set bs" "p = p - LARGE_HEAD + LARGE_HEAD" "s \<le> la_space la (p - LARGE_HEAD)"
  using assms by (auto simp: la_live_def la_rep_def la_fits_def split: if_splits)

lemma la_live_disjoint:
  assumes "la_rep la bs" and "la_live la bs p = Some s" and "la_live la bs q = Some t" and "p \<noteq> q"
  shows "p + s + LARGE_HEAD \<le> q \<or> q + t + LARGE_HEAD \<le> p"
proof -
  note p = la_live_fits [OF assms(1,2)] and q = la_live_fits [OF assms(1,3)]
  have "la_shape la bs" using assms(1) by (simp add: la_rep_def)
  from chain_disjoint [OF la_shapeD(1) [OF this] p(1) q(1)] show ?thesis using p(2,3) q(2,3) assms(4) by linarith
qed

lemma la_live_inside:
  assumes "la_rep la bs" and "la_live la bs p = Some s"
  shows "la_head la + LARGE_HEAD \<le> p" "p + s \<le> la_tail la" "8 dvd p"
proof -
  note p = la_live_fits [OF assms]
  have sh: "la_shape la bs" using assms(1) by (simp add: la_rep_def)
  show "la_head la + LARGE_HEAD \<le> p" "p + s \<le> la_tail la" using la_shapeD(12) [OF sh p(1)] p(2,3) by simp_all
  obtain k where k: "4 \<le> k" "la_page la = 2 ^ k" using la_shapeD(8) [OF sh] by blast
  have "(8 :: nat) dvd la_page la" using le_imp_power_dvd [of 3 k "2 :: nat"] k by simp
  then have "\<forall>b\<in>set bs. 8 dvd LARGE_HEAD + la_space la b" using la_shapeD(10) [OF sh] dvd_trans by blast
  then have "8 dvd p - LARGE_HEAD" using chain_dvd [OF la_shapeD(1) [OF sh] _ p(1)] la_shapeD(7) [OF sh] by blast
  then have "8 dvd p - LARGE_HEAD + LARGE_HEAD" by (rule dvd_add) (simp add: LARGE_HEAD_def)
  then show "8 dvd p" using p(2) by simp
qed

lemma malloc_correct:
  assumes "la_rep la bs" and "0 < n" and "n < 2 ^ 63"
  obtains (none) la' bs' where "xu_static_large_allocator_malloc la n real = Some (la', 0)" "la_rep la' bs'" "la_like la bs la' bs'"
      "largest_run la 0 bs < LARGE_HEAD + need_space la n"
    | (some) la' bs' p where "xu_static_large_allocator_malloc la n real = Some (la', p)" "given la bs n real la' bs' p"
      "LARGE_HEAD + need_space la n \<le> largest_run la 0 bs"
proof (rule malloc_done_correct [OF assms, where real = real])
  fix la' bs'
  assume "xu_static_large_allocator_malloc_done la n real = Some (la', None)" and r: "la_rep la' bs'" "la_like la bs la' bs'"
    "largest_run la 0 bs < LARGE_HEAD + need_space la n"
  then show thesis using assms(2) by (intro none [OF _ r]) (simp add: xu_static_large_allocator_malloc_def)
next
  fix la' bs' h
  assume "xu_static_large_allocator_malloc_done la n real = Some (la', Some h)" and r: "given la bs n real la' bs' (h + LARGE_HEAD)"
    "LARGE_HEAD + need_space la n \<le> largest_run la 0 bs"
  then show thesis using assms(2) by (intro some [OF _ r]) (simp add: xu_static_large_allocator_malloc_def)
qed

lemma copy_mem_simps [simp]:
  "la_rep (copy_mem la d s n) bs = la_rep la bs" "la_live (copy_mem la d s n) bs = la_live la bs" "la_frame l (copy_mem la d s n) = la_frame l la"
  "la_real (copy_mem la d s n) = la_real la"
  "la_mem (copy_mem la d s n) = (\<lambda>a. if d \<le> a \<and> a < d + n then la_mem la (s + (a - d)) else la_mem la a)"
proof -
  have idx: "xu_static_large_allocator_pred_index (copy_mem la d s n) = xu_static_large_allocator_pred_index la"
    by (rule ext, rule pred_index_cong) (simp_all add: copy_mem_def)
  show "la_rep (copy_mem la d s n) bs = la_rep la bs"
    unfolding la_rep_def la_cache_def idx by (simp add: la_shape_def la_fits_def copy_mem_def)
qed (auto simp: copy_mem_def la_live_def la_frame_def fun_eq_iff)

text \<open>What a reallocation does: the data is refused and all stays, or it keeps its bytes, where it is or elsewhere.\<close>

definition moved :: "large_allocator \<Rightarrow> nat list \<Rightarrow> nat \<Rightarrow> nat \<Rightarrow> nat \<Rightarrow> bool \<Rightarrow> large_allocator \<Rightarrow> nat list \<Rightarrow> nat \<Rightarrow> bool" where
  "moved la bs p s n real la' bs' q \<longleftrightarrow> la_rep la' bs' \<and> la_frame la la' \<and>
     (if q = 0 then la_live la' bs' = la_live la bs \<and> la_mem la' = la_mem la
      else (\<exists>t\<ge>n. (\<not> real \<longrightarrow> t = n) \<and> la_live la' bs' = (la_live la bs)(p := None, q \<mapsto> t))
        \<and> (q \<noteq> p \<longrightarrow> la_live la bs q = None)
        \<and> (\<forall>i<min n s. la_mem la' (q + i) = la_mem la (p + i))
        \<and> (\<forall>r u i. r \<noteq> p \<longrightarrow> la_live la bs r = Some u \<longrightarrow> i < u \<longrightarrow> la_mem la' (r + i) = la_mem la (r + i)))"

lemma ralloc_correct:
  assumes rep: "la_rep la bs" and p: "la_live la bs p = Some s" and n: "0 < n" "n < 2 ^ 63"
  shows "\<exists>la' bs' q. xu_static_large_allocator_ralloc la p n real = Some (la', q) \<and> moved la bs p s n real la' bs' q"
proof -
  let ?h = "p - LARGE_HEAD"
  obtain xs ys where bs: "bs = xs @ ?h # ys" and h: "\<not> la_free la ?h" "p = ?h + LARGE_HEAD" "s = la_real la ?h"
    using live_head [OF p] by metis
  have p0: "p \<noteq> 0" using h(2) by (simp add: LARGE_HEAD_def)
  have sh: "la_shape la (xs @ ?h # ys)" using rep by (simp add: la_rep_def bs [symmetric])
  note order = in_block_order [OF sh]
  have repx: "la_rep la (xs @ ?h # ys)" using rep bs by simp
  show ?thesis
  proof (cases rule: ralloc_fast_correct [OF repx h(1) n, where real = real, case_names none some])
    case (some l1 bs1 t)
    then have "xu_static_large_allocator_ralloc la p n real = Some (l1, p)"
      using h(1,2) order(3,4) p0 n(1) by (simp add: xu_static_large_allocator_ralloc_def Let_def)
    moreover have "moved la bs p s n real l1 bs1 p"
      using some p0 bs h(2) by (auto simp: moved_def)
    ultimately show ?thesis by blast
  next
    case (none l1 bs1)
    then have st: "la_still la bs l1 bs1" using bs by simp
    then have rep1: "la_rep l1 bs1" and live1: "la_live l1 bs1 = la_live la bs" and mem1: "la_mem l1 = la_mem la" and fr1: "la_frame la l1"
      by (simp_all add: la_still_def)
    show ?thesis
    proof (cases rule: malloc_done_correct [OF rep1 n, where real = real, case_names none some])
      case (none l2 bs2)
      then have "xu_static_large_allocator_ralloc la p n real = Some (l2, 0)"
        using \<open>xu_static_large_allocator_ralloc_fast la ?h n real = Some (l1, None)\<close> h(1,2) order(3,4) p0 n(1)
        by (simp add: xu_static_large_allocator_ralloc_def Let_def)
      moreover have "moved la bs p s n real l2 bs2 0"
        using none live1 mem1 fr1 by (simp add: moved_def la_like_def la_frame_def)
      ultimately show ?thesis by blast
    next
      case (some l2 bs2 a)
      let ?q = "a + LARGE_HEAD"
      obtain t where g: "la_rep l2 bs2" "la_frame l1 l2" "la_mem l2 = la_mem l1" "la_live l1 bs1 ?q = None"
        "la_live l2 bs2 = (la_live l1 bs1)(?q \<mapsto> t)" "n \<le> t" "\<not> real \<longrightarrow> t = n"
        using some(2) unfolding given_def by blast
      have qp: "?q \<noteq> p" using g(4) p by (auto simp: live1)
      then have ah: "a \<noteq> ?h" using h(2) by metis
      have livep: "la_live l2 bs2 p = Some s" using g(5) p qp by (simp add: live1)
      then have real: "la_real l2 ?h = s" by (auto simp: la_live_def split: if_splits)
      define l3 where "l3 = copy_mem l2 ?q p (min n s)"
      have "la_rep l3 bs2" "la_live l3 bs2 p = Some s" using g(1) livep by (simp_all add: l3_def)
      then obtain l4 bs4 where f: "xu_static_large_allocator_free l3 p = (l4, True)" "la_rep l4 bs4" "la_frame l3 l4" "la_mem l4 = la_mem l3"
          "la_live l4 bs4 = (la_live l3 bs2)(p := None)"
        using xu_static_large_allocator_free_correct by blast
      have "xu_static_large_allocator_ralloc la p n real = Some (l4, ?q)"
        using none(1) some(1) h(1,2) order(3,4) p0 n(1) ah f(1) real
        by (simp add: xu_static_large_allocator_ralloc_def Let_def l3_def)
      moreover have "moved la bs p s n real l4 bs4 ?q"
      proof -
        have "la_live l4 bs4 = (la_live la bs)(p := None, ?q \<mapsto> t)"
          using f(5) g(5) qp by (auto simp: l3_def live1)
        moreover have "la_mem l4 (r + i) = la_mem la (r + i)" if "r \<noteq> p" "la_live la bs r = Some u" "i < u" for r u i
        proof -
          have "la_live l2 bs2 r = Some u" "r \<noteq> ?q" using that g(4,5) by (auto simp: live1)
          then have "\<not> (?q \<le> r + i \<and> r + i < ?q + min n s)"
            using la_live_disjoint [OF g(1), of r u ?q t] g(5,6) that(3) by auto
          then show ?thesis using f(4) g(3) mem1 by (auto simp: l3_def)
        qed
        moreover have "la_mem l4 (?q + i) = la_mem la (p + i)" if "i < min n s" for i
          using that f(4) g(3) mem1 by (simp add: l3_def)
        moreover have "la_frame la l4" using fr1 g(2) f(3) by (simp add: la_frame_def l3_def copy_mem_def)
        ultimately show ?thesis using f(2) g(4,6,7) live1 by (auto simp: moved_def LARGE_HEAD_def)
      qed
      ultimately show ?thesis by blast
    qed
  qed
qed


section \<open>Setting up and clearing\<close>

lemma chain_total_dvd: "chain sp a bs t \<Longrightarrow> \<forall>b\<in>set bs. d dvd LARGE_HEAD + sp b \<Longrightarrow> d dvd t - a"
proof (induction bs arbitrary: a)
  case (Cons b bs)
  have le: "a + LARGE_HEAD + sp a \<le> t" using chain_le Cons.prems(1) by fastforce
  have "d dvd (t - (a + LARGE_HEAD + sp a)) + (LARGE_HEAD + sp a)"
    by (rule dvd_add) (use Cons in \<open>auto simp del: dvd_add_left_iff dvd_add_right_iff\<close>)
  moreover have "(t - (a + LARGE_HEAD + sp a)) + (LARGE_HEAD + sp a) = t - a" using le by simp
  ultimately show ?case by metis
qed simp

lemma single_block:
  assumes "la_tail la = la_head la + la_data_size la" "0 < la_head la" "la_tail la < 2 ^ 64" "la_data_size la < 2 ^ 31" "8 dvd la_head la"
    "\<exists>k. 4 \<le> k \<and> k < 31 \<and> la_page la = 2 ^ k" "la_page la dvd la_data_size la" "LARGE_HEAD < la_data_size la"
    "la_space la (la_head la) = la_data_size la - LARGE_HEAD" "la_free la (la_head la)" "length (la_pred la) = 10" "la_cache la {la_head la}"
  shows "la_ok la \<and> la_regions la = (\<lambda>_. None) \<and> largest_run la 0 (la_blocks la) = la_data_size la"
proof -
  have "la_shape la [la_head la]" unfolding la_shape_def using assms by simp
  then have "la_rep la [la_head la]" using assms(10,12) by (simp add: la_rep_def la_fits_def)
  moreover have "la_live la [la_head la] = (\<lambda>_. None)" using assms(10) by (auto simp: la_live_def)
  moreover have "largest_run la 0 [la_head la] = la_data_size la" using assms(8-10) by simp
  ultimately show ?thesis using la_okI la_blocks_rep by metis
qed

lemma empty_cache: "la_pred la = replicate 10 None \<Longrightarrow> la_cache la {}"
  by (simp add: la_cache_def)

lemma xu_static_large_allocator_clear_correct:
  assumes "la_ok la"
  shows "la_ok (xu_static_large_allocator_clear la)" "la_regions (xu_static_large_allocator_clear la) = (\<lambda>_. None)"
    "la_frame la (xu_static_large_allocator_clear la)" "la_mem (xu_static_large_allocator_clear la) = la_mem la"
proof -
  let ?la = "xu_static_large_allocator_clear la" and ?bs = "la_blocks la"
  have sh: "la_shape la ?bs" using assms by (simp add: la_ok_def la_rep_def)
  note s = la_shapeD [OF sh]
  have dvd: "la_page la dvd la_data_size la" using chain_total_dvd [OF s(1), of "la_page la"] s(2,10) by simp
  have big: "LARGE_HEAD < la_data_size la" using s(6) s(11,12) s(2) by (cases ?bs) fastforce+
  define l1 where "l1 = (set_space (set_free la (la_head la) True) (la_head la) (la_data_size la - LARGE_HEAD))
      \<lparr>la_pred := replicate (length (la_pred la)) None\<rparr>"
  have la: "?la = xu_static_large_allocator_pred_update l1 (la_head la)"
    using big by (simp add: xu_static_large_allocator_clear_def l1_def Let_def)
  have "take_bit 31 (la_data_size la - LARGE_HEAD) = la_data_size la - LARGE_HEAD"
    using s(5) by (simp add: take_bit_nat_eq_self_iff)
  moreover have "la_cache ?la (insert (la_head la) {})"
    unfolding la by (rule la_cache_update) (simp_all add: empty_cache l1_def s(9))
  ultimately have "la_ok ?la \<and> la_regions ?la = (\<lambda>_. None) \<and> largest_run ?la 0 (la_blocks ?la) = la_data_size ?la"
    using s(2-8,9) dvd big by (intro single_block) (simp_all add: la l1_def)
  then show "la_ok ?la" "la_regions ?la = (\<lambda>_. None)" by simp_all
  show "la_frame la ?la" "la_mem ?la = la_mem la" by (simp_all add: la l1_def la_frame_def)
qed

lemma xu_static_large_allocator_init_correct:
  assumes ini: "xu_static_large_allocator_init struct_size system_page lock_ok mem data n page = Some la"
    and bounds: "data + n < 2 ^ 64" "n < 2 ^ 31" "0 < system_page" "system_page < 2 ^ 31" "page < 2 ^ 31"
  shows "la_ok la" "la_regions la = (\<lambda>_. None)" "largest_run la 0 (la_blocks la) = la_data_size la" "la_mem la = mem" "data + struct_size \<le> la_head la" "la_tail la \<le> data + n"
proof -
  define diff where "diff = xu_align data 8 - data"
  define pg0 where "pg0 = (if (if page \<noteq> 0 then page else system_page) < LARGE_HEAD
      then (if page \<noteq> 0 then page else system_page) + LARGE_HEAD else (if page \<noteq> 0 then page else system_page))"
  define pg where "pg = unat (xu_align_pow2 (of_nat pg0))"
  define ds where "ds = xu_align (n - diff - struct_size - pg) pg"
  define h where "h = data + diff + struct_size"
  define l1 where "l1 = \<lparr>la_page = pg, la_data_size = ds, la_head = h, la_tail = 0, la_pred = replicate 10 None,
      la_space = (\<lambda>_. 0)(h := take_bit 31 (ds - LARGE_HEAD)), la_free = (\<lambda>_. False)(h := True), la_real = (\<lambda>_. 0), la_mem = mem\<rparr>"
  define l2 where "l2 = xu_static_large_allocator_pred_update l1 h"
  have c: "0 < data" "n > diff + struct_size" "n - diff - struct_size > pg" "ds > LARGE_HEAD" "h mod 8 = 0"
    and la: "la = l2\<lparr>la_tail := next_head l2 h\<rparr>"
    using ini unfolding xu_static_large_allocator_init_def Let_def diff_def [symmetric] pg0_def [symmetric] pg_def [symmetric]
    by (auto simp: ds_def h_def l1_def l2_def split: if_splits)
  have pg0: "16 \<le> pg0" "pg0 < 2 ^ 32" using bounds by (auto simp: pg0_def LARGE_HEAD_def)
  have u: "unat (of_nat pg0 :: u64) = pg0" using pg0(2) by (simp add: unsigned_of_nat take_bit_nat_eq_self_iff)
  obtain k where k: "pg = 2 ^ k" "pg0 \<le> 2 ^ k" using align_pow2_value [of "of_nat pg0"] pg0(2) unfolding u pg_def by metis
  have "(2 :: nat) ^ 4 \<le> 2 ^ k" using k(2) pg0(1) by simp
  moreover have "(2 :: nat) ^ k < 2 ^ 31" using c(3) k(1) bounds(2) by linarith
  ultimately have k4: "4 \<le> k" "k < 31"
    using power_le_imp_le_exp [of "2 :: nat" 4 k] power_less_imp_less_exp [of "2 :: nat" k 31] by simp_all
  define m where "m = n - diff - struct_size - pg"
  have ds: "ds = (m + (pg - 1)) div pg * pg"
    using xu_align_value [of m k] k4 bounds(2) c(3) by (simp add: ds_def m_def k(1) [symmetric])
  have "ds \<le> m + (pg - 1)" unfolding ds by (rule div_times_less_eq_dividend)
  then have ds_le: "ds + diff + struct_size \<le> n" using c(2,3) by (simp add: m_def)
  have f: "la_page la = pg" "la_data_size la = ds" "la_head la = h" "la_space la h = take_bit 31 (ds - LARGE_HEAD)" "la_free la h"
      "la_mem la = mem" "length (la_pred la) = 10" "la_tail la = h + LARGE_HEAD + take_bit 31 (ds - LARGE_HEAD)"
    by (simp_all add: la l2_def l1_def next_head_def)
  have tb: "take_bit 31 (ds - LARGE_HEAD) = ds - LARGE_HEAD" using ds_le bounds(2) by (simp add: take_bit_nat_eq_self_iff)
  have "la_cache l2 (insert h {})"
    unfolding l2_def by (rule la_cache_update) (simp_all add: empty_cache l1_def)
  then have "la_cache la {h}" by (rule la_cache_cong) (simp_all add: la)
  then have "la_ok la \<and> la_regions la = (\<lambda>_. None) \<and> largest_run la 0 (la_blocks la) = la_data_size la"
  proof (intro single_block)
    show "la_page la dvd la_data_size la" by (simp add: f ds)
    show "la_tail la = la_head la + la_data_size la" "la_tail la < 2 ^ 64" "la_data_size la < 2 ^ 31" "0 < la_head la"
      using c(1,4) ds_le bounds(1,2) by (simp_all add: f tb h_def)
    show "\<exists>k. 4 \<le> k \<and> k < 31 \<and> la_page la = 2 ^ k" using k(1) k4 by (auto simp: f)
  qed (use c(4,5) in \<open>simp_all add: f tb mod_0_imp_dvd\<close>)
  then show "la_ok la" "la_regions la = (\<lambda>_. None)" "largest_run la 0 (la_blocks la) = la_data_size la" by simp_all
  show "la_mem la = mem" "data + struct_size \<le> la_head la" "la_tail la \<le> data + n"
    using ds_le c(4) by (simp_all add: f tb h_def)
qed

end
