(* ===== verification/XRegions.thy ===== *)
theory XRegions
  imports XPrelude
begin

text \<open>
  The contract of a source of memory regions, which the allocator of pages and the pool of items of one size
  both fulfil, and what its clients get from it.
\<close>

section \<open>Sources of regions\<close>

text \<open>An allocation may be refused with the null pointer, and then nothing that is given out changes.\<close>

locale region_source =
  fixes ok :: "'a \<Rightarrow> bool" and regions :: "'a \<Rightarrow> nat \<Rightarrow> nat option" and sizes :: "nat \<Rightarrow> bool"
    and alloc :: "'a \<Rightarrow> nat \<Rightarrow> ('a \<times> nat) option" and release :: "'a \<Rightarrow> nat \<Rightarrow> 'a \<times> bool"
  assumes alloc_law: "ok s \<Longrightarrow> sizes n \<Longrightarrow> \<exists>s' p. alloc s n = Some (s', p) \<and> ok s' \<and>
      (if p = 0 then regions s' = regions s else regions s p = None \<and> (\<exists>m\<ge>n. regions s' = (regions s)(p \<mapsto> m)))"
    and release_law: "ok s \<Longrightarrow> regions s p = Some m \<Longrightarrow>
      \<exists>s'. release s p = (s', True) \<and> ok s' \<and> regions s' = (regions s)(p := None)"
    and disjoint_law: "ok s \<Longrightarrow> regions s p = Some m \<Longrightarrow> regions s q = Some k \<Longrightarrow> p \<noteq> q \<Longrightarrow> p + m \<le> q \<or> q + k \<le> p"
    and null_law: "ok s \<Longrightarrow> regions s 0 = None"

text \<open>A client that takes a list of sizes and one that gives a list of data back.\<close>

primrec alloc_all :: "('a \<Rightarrow> nat \<Rightarrow> ('a \<times> nat) option) \<Rightarrow> 'a \<Rightarrow> nat list \<Rightarrow> ('a \<times> nat list) option" where
  "alloc_all alloc s [] = Some (s, [])"
| "alloc_all alloc s (n # ns) =
     (case alloc s n of
        None \<Rightarrow> None
      | Some (s, p) \<Rightarrow> (case alloc_all alloc s ns of None \<Rightarrow> None | Some (s, ps) \<Rightarrow> Some (s, p # ps)))"

primrec release_all :: "('a \<Rightarrow> nat \<Rightarrow> 'a \<times> bool) \<Rightarrow> 'a \<Rightarrow> nat list \<Rightarrow> 'a \<times> bool" where
  "release_all release s [] = (s, True)"
| "release_all release s (p # ps) = (let (s, done1) = release s p; (s, done2) = release_all release s ps in (s, done1 \<and> done2))"

context region_source
begin

lemma alloc_all_law:
  assumes "ok s" and "\<forall>n\<in>set ns. sizes n"
  shows "\<exists>s' ps. alloc_all alloc s ns = Some (s', ps) \<and> ok s' \<and> length ps = length ns
    \<and> distinct (filter (\<lambda>p. p \<noteq> 0) ps) \<and> (\<forall>p\<in>set ps. p \<noteq> 0 \<longrightarrow> regions s p = None)
    \<and> (\<forall>p. p \<notin> set ps \<longrightarrow> regions s' p = regions s p)
    \<and> (\<forall>i<length ns. ps ! i \<noteq> 0 \<longrightarrow> (\<exists>m\<ge>ns ! i. regions s' (ps ! i) = Some m))"
  using assms
proof (induction ns arbitrary: s)
  case Nil
  then show ?case by simp
next
  case (Cons n ns)
  obtain s1 p where a: "alloc s n = Some (s1, p)" "ok s1"
    "if p = 0 then regions s1 = regions s else regions s p = None \<and> (\<exists>m\<ge>n. regions s1 = (regions s)(p \<mapsto> m))"
    using alloc_law [of s n] Cons.prems by auto
  have "\<forall>n\<in>set ns. sizes n" using Cons.prems(2) by simp
  from Cons.IH [OF a(2) this] obtain s' ps where b: "alloc_all alloc s1 ns = Some (s', ps)" "ok s'" "length ps = length ns"
    "distinct (filter (\<lambda>p. p \<noteq> 0) ps)" "\<forall>p\<in>set ps. p \<noteq> 0 \<longrightarrow> regions s1 p = None"
    "\<forall>p. p \<notin> set ps \<longrightarrow> regions s' p = regions s1 p"
    "\<forall>i<length ns. ps ! i \<noteq> 0 \<longrightarrow> (\<exists>m\<ge>ns ! i. regions s' (ps ! i) = Some m)" by blast
  have p: "p \<notin> set ps" if "p \<noteq> 0" using that a(3) b(5) by auto
  have "\<forall>q\<in>set (p # ps). q \<noteq> 0 \<longrightarrow> regions s q = None" using a(3) b(5) by (auto split: if_splits)
  moreover have "\<forall>q. q \<notin> set (p # ps) \<longrightarrow> regions s' q = regions s q" using a(3) b(6) by (auto split: if_splits)
  moreover have "\<exists>m\<ge>(n # ns) ! i. regions s' ((p # ps) ! i) = Some m" if "i < length (n # ns)" "(p # ps) ! i \<noteq> 0" for i
    using that a(3) b(6,7) p by (cases i) auto
  ultimately show ?case using a(1) b(1-4) p by (intro exI [of _ s'] exI [of _ "p # ps"]) auto
qed

text \<open>Data that is released in any order leaves nothing behind.\<close>

lemma release_all_law:
  assumes "ok s" and "distinct ps" and "\<And>p. p \<in> set ps \<Longrightarrow> regions s p \<noteq> None"
  shows "\<exists>s'. release_all release s ps = (s', True) \<and> ok s' \<and> (\<forall>p. regions s' p = (if p \<in> set ps then None else regions s p))"
  using assms
proof (induction ps arbitrary: s)
  case (Cons p ps)
  then obtain m where "regions s p = Some m" by fastforce
  then obtain s1 where s1: "release s p = (s1, True)" "ok s1" "regions s1 = (regions s)(p := None)"
    using release_law Cons.prems(1) by blast
  then show ?case using Cons.IH [of s1] Cons.prems by fastforce
qed simp

lemma alloc_release_all:
  assumes "ok s" and "\<forall>n\<in>set ns. sizes n" and "alloc_all alloc s ns = Some (s1, ps)"
    and "mset qs = mset (filter (\<lambda>p. p \<noteq> 0) ps)"
  shows "\<exists>s2. release_all release s1 qs = (s2, True) \<and> ok s2 \<and> regions s2 = regions s"
proof -
  obtain s' ps' where a: "alloc_all alloc s ns = Some (s', ps')" "ok s'" "length ps' = length ns"
    "distinct (filter (\<lambda>p. p \<noteq> 0) ps')" "\<forall>p\<in>set ps'. p \<noteq> 0 \<longrightarrow> regions s p = None"
    "\<forall>p. p \<notin> set ps' \<longrightarrow> regions s' p = regions s p"
    "\<forall>i<length ns. ps' ! i \<noteq> 0 \<longrightarrow> (\<exists>m\<ge>ns ! i. regions s' (ps' ! i) = Some m)"
    using alloc_all_law [OF assms(1,2)] by blast
  have eq: "s' = s1" "ps' = ps" using a(1) assms(3) by simp_all
  have qs: "set qs = {p \<in> set ps. p \<noteq> 0}" "distinct qs"
    using assms(4) a(4) mset_eq_setD [OF assms(4)] mset_eq_imp_distinct_iff [OF assms(4)] by (auto simp: eq)
  have "regions s1 p \<noteq> None" if "p \<in> set qs" for p
    using that a(3,7) by (fastforce simp: qs eq in_set_conv_nth)
  then obtain s2 where "release_all release s1 qs = (s2, True)" "ok s2"
    "\<forall>p. regions s2 p = (if p \<in> set qs then None else regions s1 p)"
    using release_all_law [of s1 qs] a(2) qs(2) eq by blast
  moreover have "regions s2 p = regions s p" for p
    using calculation(3) a(5,6) null_law [OF assms(1)] null_law [OF a(2)] by (cases "p = 0") (auto simp: qs eq)
  ultimately show ?thesis by blast
qed

end

end
