(* ===== verification/XLargeAllocRuns.thy ===== *)
theory XLargeAllocRuns
  imports XLargeAllocCorrect XRegions
begin

text \<open>
  The allocator of pages as its users see it: a source of regions, and the runs of the allocator, in which
  calls and writes of the users to their data alternate.
\<close>

section \<open>The allocator is a source of regions\<close>

lemma la_ok_rep: "la_ok la \<Longrightarrow> la_rep la (la_blocks la)"
  by (simp add: la_ok_def)

lemma large_malloc:
  assumes "la_ok la" and "0 < n" and "n < 2 ^ 63"
  shows "\<exists>la' p. xu_static_large_allocator_malloc la n real = Some (la', p) \<and> la_ok la' \<and> la_mem la' = la_mem la \<and> la_frame la la'
    \<and> (p \<noteq> 0 \<longleftrightarrow> LARGE_HEAD + need_space la n \<le> largest_run la 0 (la_blocks la))
    \<and> (if p = 0 then la_regions la' = la_regions la
       else la_regions la p = None \<and> (\<exists>m\<ge>n. (\<not> real \<longrightarrow> m = n) \<and> la_regions la' = (la_regions la)(p \<mapsto> m)))"
proof (rule malloc_correct [OF la_ok_rep [OF assms(1)] assms(2,3), where real = real])
  fix la' bs'
  assume "xu_static_large_allocator_malloc la n real = Some (la', 0)" "la_rep la' bs'" "la_like la (la_blocks la) la' bs'"
    "largest_run la 0 (la_blocks la) < LARGE_HEAD + need_space la n"
  then show ?thesis using la_okI [of la' bs'] by (simp add: la_like_def la_regions_def)
next
  fix la' bs' p
  assume a: "xu_static_large_allocator_malloc la n real = Some (la', p)" and "given la (la_blocks la) n real la' bs' p"
    and r: "LARGE_HEAD + need_space la n \<le> largest_run la 0 (la_blocks la)"
  then obtain m where g: "la_rep la' bs'" "la_frame la la'" "la_mem la' = la_mem la" "la_live la (la_blocks la) p = None" "p \<noteq> 0"
    "la_live la' bs' = (la_live la (la_blocks la))(p \<mapsto> m)" "n \<le> m" "\<not> real \<longrightarrow> m = n" unfolding given_def by blast
  show ?thesis
    by (intro exI [of _ la'] exI [of _ p] conjI) (use a r g la_okI [OF g(1)] in \<open>auto simp: la_regions_def\<close>)
qed

lemma large_free:
  assumes "la_ok la" and "la_regions la p = Some s"
  shows "\<exists>la'. xu_static_large_allocator_free la p = (la', True) \<and> la_ok la' \<and> la_mem la' = la_mem la \<and> la_frame la la'
    \<and> la_regions la' = (la_regions la)(p := None)"
  using xu_static_large_allocator_free_correct [OF la_ok_rep [OF assms(1)] assms(2) [unfolded la_regions_def]] la_okI
  unfolding la_regions_def by metis

lemma large_ralloc:
  assumes "la_ok la" and "la_regions la p = Some s" and "0 < n" and "n < 2 ^ 63"
  shows "\<exists>la' q. xu_static_large_allocator_ralloc la p n real = Some (la', q) \<and> la_ok la' \<and> la_frame la la'
    \<and> (if q = 0 then la_regions la' = la_regions la \<and> la_mem la' = la_mem la
       else (\<exists>t\<ge>n. (\<not> real \<longrightarrow> t = n) \<and> la_regions la' = (la_regions la)(p := None, q \<mapsto> t))
         \<and> (q \<noteq> p \<longrightarrow> la_regions la q = None) \<and> (\<forall>i<min n s. la_mem la' (q + i) = la_mem la (p + i))
         \<and> (\<forall>r u i. r \<noteq> p \<longrightarrow> la_regions la r = Some u \<longrightarrow> i < u \<longrightarrow> la_mem la' (r + i) = la_mem la (r + i)))"
proof -
  obtain la' bs' q where r: "xu_static_large_allocator_ralloc la p n real = Some (la', q)" "moved la (la_blocks la) p s n real la' bs' q"
    using ralloc_correct [OF la_ok_rep [OF assms(1)] assms(2) [unfolded la_regions_def] assms(3,4)] by blast
  have m: "la_rep la' bs'" using r(2) by (simp add: moved_def)
  have regions: "la_live la' bs' = la_regions la'" "la_live la (la_blocks la) = la_regions la" and "la_ok la'"
    using la_okI [OF m] by (simp_all add: la_regions_def)
  show ?thesis
  proof (intro exI conjI)
    show "if q = 0 then la_regions la' = la_regions la \<and> la_mem la' = la_mem la
       else (\<exists>t\<ge>n. (\<not> real \<longrightarrow> t = n) \<and> la_regions la' = (la_regions la)(p := None, q \<mapsto> t))
         \<and> (q \<noteq> p \<longrightarrow> la_regions la q = None) \<and> (\<forall>i<min n s. la_mem la' (q + i) = la_mem la (p + i))
         \<and> (\<forall>r u i. r \<noteq> p \<longrightarrow> la_regions la r = Some u \<longrightarrow> i < u \<longrightarrow> la_mem la' (r + i) = la_mem la (r + i))"
      using r(2) unfolding moved_def regions by (elim conjE)
  qed (use r \<open>la_ok la'\<close> in \<open>simp_all add: moved_def\<close>)
qed

lemma large_disjoint:
  "la_ok la \<Longrightarrow> la_regions la p = Some m \<Longrightarrow> la_regions la q = Some k \<Longrightarrow> p \<noteq> q \<Longrightarrow> p + m \<le> q \<or> q + k \<le> p"
  using la_live_disjoint [OF la_ok_rep, of la p m q k] by (fastforce simp: la_regions_def)

lemma large_null: "la_ok la \<Longrightarrow> la_regions la 0 = None"
  by (simp add: la_regions_def la_live_def LARGE_HEAD_def)

interpretation large: region_source la_ok la_regions "\<lambda>n. 0 < n \<and> n < 2 ^ 63"
  "\<lambda>la n. xu_static_large_allocator_malloc la n real" xu_static_large_allocator_free for real
proof unfold_locales
  show "\<exists>s' p. xu_static_large_allocator_malloc s n real = Some (s', p) \<and> la_ok s' \<and>
      (if p = 0 then la_regions s' = la_regions s else la_regions s p = None \<and> (\<exists>m\<ge>n. la_regions s' = (la_regions s)(p \<mapsto> m)))"
    if s: "la_ok s" "0 < n \<and> n < 2 ^ 63" for s n
  proof -
    obtain s' p where a: "xu_static_large_allocator_malloc s n real = Some (s', p)" "la_ok s'"
      and r: "if p = 0 then la_regions s' = la_regions s
        else la_regions s p = None \<and> (\<exists>m\<ge>n. (\<not> real \<longrightarrow> m = n) \<and> la_regions s' = (la_regions s)(p \<mapsto> m))"
      using large_malloc [of s n real] s by blast
    show ?thesis by (rule exI [of _ s'], rule exI [of _ p]) (use a r in \<open>cases "p = 0"; auto\<close>)
  qed
  show "\<exists>s'. xu_static_large_allocator_free s p = (s', True) \<and> la_ok s' \<and> la_regions s' = (la_regions s)(p := None)"
    if "la_ok s" "la_regions s p = Some m" for s p m using large_free [OF that] by blast
qed (rule large_disjoint large_null; assumption)+

section \<open>Runs\<close>

text \<open>A step is a call of the allocator with data it has given out, or a write of a user to its own data.\<close>

inductive la_step :: "large_allocator \<Rightarrow> large_allocator \<Rightarrow> bool" where
  step_malloc: "n < 2 ^ 63 \<Longrightarrow> xu_static_large_allocator_malloc la n real = Some (la', p) \<Longrightarrow> la_step la la'"
| step_ralloc: "n < 2 ^ 63 \<Longrightarrow> la_regions la p = Some s \<Longrightarrow> xu_static_large_allocator_ralloc la p n real = Some (la', q) \<Longrightarrow> la_step la la'"
| step_free: "la_regions la p = Some s \<Longrightarrow> xu_static_large_allocator_free la p = (la', ok) \<Longrightarrow> la_step la la'"
| step_clear: "la_step la (xu_static_large_allocator_clear la)"
| step_write: "la_regions la p = Some s \<Longrightarrow> i < s \<Longrightarrow> la_step la (la\<lparr>la_mem := (la_mem la)(p + i := b)\<rparr>)"

inductive la_run :: "large_allocator \<Rightarrow> large_allocator \<Rightarrow> bool" where
  run_start: "la_run la la"
| run_step: "la_run la la1 \<Longrightarrow> la_step la1 la2 \<Longrightarrow> la_run la la2"

lemma la_rep_write: "la_rep (la\<lparr>la_mem := m\<rparr>) bs = la_rep la bs"
proof -
  have "xu_static_large_allocator_pred_index (la\<lparr>la_mem := m\<rparr>) = xu_static_large_allocator_pred_index la"
    by (rule ext, rule pred_index_cong) simp_all
  then show ?thesis by (simp add: la_rep_def la_cache_def la_shape_def la_fits_def)
qed

lemma la_step_ok:
  assumes "la_step la la'" and "la_ok la"
  shows "la_ok la' \<and> la_frame la la'"
  using assms
proof (induction rule: la_step.induct)
  case (step_malloc n la real la' p)
  then show ?case using large_malloc [of la n real] by (cases "n = 0") (auto simp: xu_static_large_allocator_malloc_def la_frame_def)
next
  case (step_ralloc n la p s real la' q)
  then show ?case using large_ralloc [of la p s n real] by (cases "n = 0") (auto simp: xu_static_large_allocator_ralloc_def la_frame_def)
next
  case (step_free la p s la' ok)
  then show ?case using large_free [of la p s] by auto
next
  case (step_clear la)
  then show ?case using xu_static_large_allocator_clear_correct by blast
next
  case (step_write la p s i b)
  then have "la_rep (la\<lparr>la_mem := (la_mem la)(p + i := b)\<rparr>) (la_blocks la)" using la_ok_rep by (simp add: la_rep_write)
  then show ?case using la_okI by (auto simp: la_frame_def)
qed

lemma la_run_ok:
  assumes "la_run la la'" and "la_ok la"
  shows "la_ok la' \<and> la_frame la la'"
  using assms by (induction rule: la_run.induct) (use la_step_ok in \<open>fastforce simp: la_frame_def\<close>)+


section \<open>Properties\<close>

text \<open>A block of 1 KiB with pages of 32 bytes.\<close>

definition example_large :: large_allocator where
  "example_large = the (xu_static_large_allocator_init 64 4096 True (\<lambda>_. 0) 1024 1024 32)"

lemma example_large_init: "xu_static_large_allocator_init 64 4096 True (\<lambda>_. 0) 1024 1024 32 = Some example_large"
proof -
  have "xu_static_large_allocator_init 64 4096 True (\<lambda>_. 0) 1024 1024 32 \<noteq> None"
    by (simp add: xu_static_large_allocator_init_def xu_align_def xu_align_pow2_def xu_ispow2_def LARGE_HEAD_def Let_def)
  then show ?thesis by (auto simp: example_large_def)
qed

lemma example_large_ok: "la_ok example_large" "la_regions example_large = (\<lambda>_. None)"
    "largest_run example_large 0 (la_blocks example_large) = la_data_size example_large"
  using xu_static_large_allocator_init_correct [OF example_large_init] by simp_all

lemma example_large_size: "la_page example_large = 32" "la_data_size example_large = 928"
  by (simp_all add: example_large_def xu_static_large_allocator_init_def xu_align_def xu_align_pow2_def xu_ispow2_def LARGE_HEAD_def Let_def)

text \<open>C33. In every state that calls of the allocator with sizes below \<open>2 ^ 63\<close> and writes of its users reach from one set up
  on a block of less than 2 GiB, with pages of less than 2 GiB, the state is sound, and the data that is given out lies inside the block behind the structure of the allocator, at addresses that are
  multiples of eight, and no two pieces of data have a byte in common.\<close>

theorem xu_static_large_allocator_run_separates:
  assumes "xu_static_large_allocator_init struct_size system_page lock_ok mem data n page = Some la0"
    and "data + n < 2 ^ 64" and "n < 2 ^ 31" and "0 < system_page" and "system_page < 2 ^ 31" and "page < 2 ^ 31" and "la_run la0 la"
  shows "la_ok la
    \<and> (\<forall>p s. la_regions la p = Some s \<longrightarrow> data + struct_size + LARGE_HEAD \<le> p \<and> p + s \<le> data + n \<and> 8 dvd p)
    \<and> (\<forall>p s q t. la_regions la p = Some s \<longrightarrow> la_regions la q = Some t \<longrightarrow> p \<noteq> q \<longrightarrow> p + s \<le> q \<or> q + t \<le> p)"
proof -
  note ini = xu_static_large_allocator_init_correct [OF assms(1-6)]
  have ok: "la_ok la" and fr: "la_frame la0 la" using la_run_ok [OF assms(7) ini(1)] by simp_all
  have "data + struct_size + LARGE_HEAD \<le> p \<and> p + s \<le> data + n \<and> 8 dvd p" if "la_regions la p = Some s" for p s
    using la_live_inside [OF la_ok_rep [OF ok] that [unfolded la_regions_def]] ini(5,6) fr by (simp add: la_frame_def)
  then show ?thesis using ok large_disjoint [OF ok] by blast
qed

lemma xu_static_large_allocator_run_separates_witness:
  "\<exists>la. la_run example_large la \<and> la_ok la"
  using xu_static_large_allocator_run_separates [OF example_large_init _ _ _ _ _ run_start] run_start by auto



text \<open>C35. An allocation of a size below \<open>2 ^ 63\<close> succeeds exactly if some run of neighbouring free blocks has room for the size, made up to whole pages
  together with the head of a block: neither the cache of free heads nor free blocks that were not merged make it fail.\<close>

theorem xu_static_large_allocator_malloc_complete:
  assumes "la_ok la" and "0 < n" and "n < 2 ^ 63"
  shows "\<exists>la' p. xu_static_large_allocator_malloc la n real = Some (la', p)
    \<and> (p \<noteq> 0 \<longleftrightarrow> LARGE_HEAD + need_space la n \<le> largest_run la 0 (la_blocks la))
    \<and> n \<le> need_space la n \<and> need_space la n < n + 2 * la_page la \<and> la_page la dvd LARGE_HEAD + need_space la n"
proof -
  have "la_shape la (la_blocks la)" using assms(1) by (simp add: la_ok_def la_rep_def)
  note need = need_space_value [OF la_shapeD(8) [OF this] assms(2,3)]
  show ?thesis using large_malloc [OF assms, of real] need(1,2,5) by blast
qed

lemma xu_static_large_allocator_malloc_complete_witness:
  "\<exists>la p. xu_static_large_allocator_malloc example_large 100 False = Some (la, p) \<and> p \<noteq> 0"
proof -
  have "\<exists>k. 4 \<le> k \<and> k < 31 \<and> la_page example_large = 2 ^ k" by (rule exI [of _ 5]) (simp add: example_large_size)
  then have "LARGE_HEAD + need_space example_large 100 \<le> largest_run example_large 0 (la_blocks example_large)"
    using need_space_value(5) [of example_large 100] example_large_ok(3) by (simp add: example_large_size LARGE_HEAD_def)
  then show ?thesis using xu_static_large_allocator_malloc_complete [OF example_large_ok(1), of 100 False] by auto
qed

text \<open>C36. A client that takes data of any sizes from 1 up to below \<open>2 ^ 63\<close> and gives what it has got back in any order leaves the allocator with
  the data that was given out before, so that nothing is lost.\<close>

theorem xu_static_large_allocator_no_leak:
  assumes "la_ok la" and "\<forall>n\<in>set ns. 0 < n \<and> n < 2 ^ 63"
    and "alloc_all (\<lambda>la n. xu_static_large_allocator_malloc la n real) la ns = Some (la1, ps)"
    and "mset qs = mset (filter (\<lambda>p. p \<noteq> 0) ps)"
  shows "\<exists>la2. release_all xu_static_large_allocator_free la1 qs = (la2, True) \<and> la_ok la2 \<and> la_regions la2 = la_regions la"
  by (rule large.alloc_release_all [OF assms])

lemma xu_static_large_allocator_no_leak_witness:
  "\<exists>la1 ps la2. alloc_all (\<lambda>la n. xu_static_large_allocator_malloc la n False) example_large [100, 200, 300] = Some (la1, ps)
    \<and> release_all xu_static_large_allocator_free la1 (rev (filter (\<lambda>p. p \<noteq> 0) ps)) = (la2, True)
    \<and> la_regions la2 = (\<lambda>_. None)"
proof -
  obtain la1 ps where a: "alloc_all (\<lambda>la n. xu_static_large_allocator_malloc la n False) example_large [100, 200, 300] = Some (la1, ps)"
    using large.alloc_all_law [OF example_large_ok(1), of "[100, 200, 300]" False] by auto
  then show ?thesis
    using xu_static_large_allocator_no_leak [OF example_large_ok(1) _ a, of "rev (filter (\<lambda>p. p \<noteq> 0) ps)"] example_large_ok(2) by auto
qed

end
