(* ===== verification/XFixedPool.thy ===== *)
theory XFixedPool
  imports XLargeAlloc XBits
begin

text \<open>
  \<^verbatim>\<open>xutil/memory/impl/static_fixed_pool.c\<close>: the pool of items of one size in a block of memory, built
  without debugging for a little endian processor of 64 bits. The bits of the used items are bytes, which the
  searches read in words of eight; the heads of the items, which only a pool of the small allocator has, are a
  map from their addresses to the sizes.
\<close>

unbundle bit_operations_syntax

record fixed_pool =
  fp_data :: nat
  fp_tail :: nat
  fp_used :: "u8 list"
  fp_info_size :: nat
  fp_pred :: nat
  fp_item_size :: nat
  fp_item_space :: nat
  fp_item_count :: nat
  fp_item_maxn :: nat
  fp_head_size :: nat
  fp_small :: bool
  fp_sizes :: "nat \<Rightarrow> nat"

definition xu_static_fixed_pool_used_set1 :: "u8 list \<Rightarrow> nat \<Rightarrow> u8 list" where
  "xu_static_fixed_pool_used_set1 used i = used[i div 8 := used ! (i div 8) OR push_bit (i mod 8) 1]"

definition xu_static_fixed_pool_used_set0 :: "u8 list \<Rightarrow> nat \<Rightarrow> u8 list" where
  "xu_static_fixed_pool_used_set0 used i = used[i div 8 := used ! (i div 8) AND NOT (push_bit (i mod 8) 1)]"

definition xu_static_fixed_pool_used_bset :: "u8 list \<Rightarrow> nat \<Rightarrow> bool" where
  "xu_static_fixed_pool_used_bset used i \<longleftrightarrow> used ! (i div 8) AND push_bit (i mod 8) 1 \<noteq> 0"

definition xu_static_fixed_pool_cache_pred :: "fixed_pool \<Rightarrow> nat \<Rightarrow> fixed_pool" where
  "xu_static_fixed_pool_cache_pred pool i = pool\<lparr>fp_pred := i div 64 + 1\<rparr>"

text \<open>A word of the bits.\<close>

definition used_word :: "u8 list \<Rightarrow> nat \<Rightarrow> u64" where
  "used_word used k = xu_bits_get_u64_le used (8 * k)"

section \<open>Searching a free item\<close>

definition xu_static_fixed_pool_malloc_pred :: "fixed_pool \<Rightarrow> fixed_pool \<times> nat option" where
  "xu_static_fixed_pool_malloc_pred pool =
     (if fp_pred pool = 0 then (pool, None)
      else let pred_index = fp_pred pool - 1; data = used_word (fp_used pool) pred_index in
        if data + 1 = 0 then (pool, None)
        else let index = pred_index * 64 + xu_bits_fb0_u64_le data in
          if index \<ge> fp_item_maxn pool then (pool\<lparr>fp_pred := 0\<rparr>, None)
          else
            let pool = pool\<lparr>fp_used := xu_static_fixed_pool_used_set1 (fp_used pool) index\<rparr>;
                pool = (if used_word (fp_used pool) pred_index + 1 = 0 then
                    let pool = pool\<lparr>fp_pred := 0\<rparr> in
                    if index + 1 < fp_item_maxn pool \<and> \<not> xu_static_fixed_pool_used_bset (fp_used pool) (index + 1)
                    then xu_static_fixed_pool_cache_pred pool (index + 1) else pool
                  else pool)
            in (pool, Some (fp_data pool + index * fp_item_space pool)))"

text \<open>The search for a word that is not full, in steps of eight words and then of one; \<open>e\<close> is the number of words.\<close>

function find_eight :: "u8 list \<Rightarrow> nat \<Rightarrow> nat \<Rightarrow> nat" where
  "find_eight used p e =
     (if p + 7 < e then
        if used_word used p + 1 \<noteq> 0 then p
        else if used_word used (p + 1) + 1 \<noteq> 0 then p + 1
        else if used_word used (p + 2) + 1 \<noteq> 0 then p + 2
        else if used_word used (p + 3) + 1 \<noteq> 0 then p + 3
        else if used_word used (p + 4) + 1 \<noteq> 0 then p + 4
        else if used_word used (p + 5) + 1 \<noteq> 0 then p + 5
        else if used_word used (p + 6) + 1 \<noteq> 0 then p + 6
        else if used_word used (p + 7) + 1 \<noteq> 0 then p + 7
        else find_eight used (p + 8) e
      else p)"
  by pat_completeness auto
termination by (relation "measure (\<lambda>(used, p, e). e - p)") auto

function find_one :: "u8 list \<Rightarrow> nat \<Rightarrow> nat \<Rightarrow> nat" where
  "find_one used p e = (if p < e \<and> used_word used p + 1 = 0 then find_one used (p + 1) e else p)"
  by pat_completeness auto
termination by (relation "measure (\<lambda>(used, p, e). e - p)") auto

declare find_eight.simps [simp del] find_one.simps [simp del]

definition xu_static_fixed_pool_malloc_find :: "fixed_pool \<Rightarrow> fixed_pool \<times> nat option" where
  "xu_static_fixed_pool_malloc_find pool =
     (let e = fp_info_size pool div 8; p = find_one (fp_used pool) (find_eight (fp_used pool) 0 e) e in
      if \<not> p < e then (pool, None)
      else let i = p * 64 + xu_bits_fb0_u64_le (used_word (fp_used pool) p) in
        if \<not> i < fp_item_maxn pool then (pool, None)
        else
          let pool = pool\<lparr>fp_used := xu_static_fixed_pool_used_set1 (fp_used pool) i\<rparr>;
              pool = (if used_word (fp_used pool) p + 1 \<noteq> 0 then xu_static_fixed_pool_cache_pred pool i else pool)
          in (pool, Some (fp_data pool + i * fp_item_space pool)))"

section \<open>The operations\<close>

text \<open>The sizes of the structure of the pool and of the head of data are parameters; in the block only the fields
  of the pool are set.\<close>

definition xu_static_fixed_pool_init :: "nat \<Rightarrow> nat \<Rightarrow> (nat \<Rightarrow> nat) \<Rightarrow> nat \<Rightarrow> nat \<Rightarrow> nat \<Rightarrow> bool \<Rightarrow> fixed_pool option" where
  "xu_static_fixed_pool_init struct_size data_head mem data n item_size for_small =
     (if data = 0 \<or> n = 0 \<or> item_size = 0 then None
      else let diff = xu_align data 8 - data in
        if \<not> n > diff + struct_size then None
        else let n = n - diff; data = data + diff; head_size = (if for_small then data_head else 0) in
          if head_size mod 8 \<noteq> 0 then None
          else let item_space = xu_align (head_size + item_size) 8 in
            if \<not> item_space > head_size then None
            else let used_info = xu_align (data + struct_size) 8 in
              if \<not> data + n > used_info then None
              else let maxn = ((data + n - used_info) * 8 - 7) div (1 + item_space * 8) in
                if maxn = 0 then None
                else let info_size = xu_align maxn 64 div 8 in
                  if info_size = 0 \<or> info_size mod 8 \<noteq> 0 then None
                  else let base = xu_align (used_info + info_size) 8 in
                    if \<not> data + n > base then None
                    else if \<not> maxn * item_space \<le> data + n - base + 1 then None
                    else Some \<lparr>fp_data = base, fp_tail = base + maxn * item_space, fp_used = replicate info_size 0,
                      fp_info_size = info_size, fp_pred = 1, fp_item_size = item_size, fp_item_space = item_space,
                      fp_item_count = 0, fp_item_maxn = maxn, fp_head_size = head_size, fp_small = for_small, fp_sizes = mem\<rparr>)"

definition xu_static_fixed_pool_size :: "fixed_pool \<Rightarrow> nat" where
  "xu_static_fixed_pool_size pool = fp_item_count pool"

definition xu_static_fixed_pool_maxn :: "fixed_pool \<Rightarrow> nat" where
  "xu_static_fixed_pool_maxn pool = fp_item_maxn pool"

definition xu_static_fixed_pool_full :: "fixed_pool \<Rightarrow> bool" where
  "xu_static_fixed_pool_full pool \<longleftrightarrow> fp_item_count pool = fp_item_maxn pool"

definition xu_static_fixed_pool_null :: "fixed_pool \<Rightarrow> bool" where
  "xu_static_fixed_pool_null pool \<longleftrightarrow> fp_item_count pool = 0"

definition xu_static_fixed_pool_clear :: "fixed_pool \<Rightarrow> fixed_pool" where
  "xu_static_fixed_pool_clear pool =
     pool\<lparr>fp_used := replicate (fp_info_size pool) 0, fp_item_count := 0, fp_pred := 1\<rparr>"

text \<open>0 is the null pointer.\<close>

definition xu_static_fixed_pool_malloc :: "fixed_pool \<Rightarrow> fixed_pool \<times> nat" where
  "xu_static_fixed_pool_malloc pool =
     (if fp_item_space pool = 0 \<or> \<not> fp_item_count pool < fp_item_maxn pool then (pool, 0)
      else
        let (pool, data_head) = xu_static_fixed_pool_malloc_pred pool;
            (pool, data_head) = (case data_head of None \<Rightarrow> xu_static_fixed_pool_malloc_find pool | Some h \<Rightarrow> (pool, Some h))
        in case data_head of
          None \<Rightarrow> (pool, 0)
        | Some h \<Rightarrow>
            let pool = (if fp_small pool then pool\<lparr>fp_sizes := (fp_sizes pool)(h := fp_item_size pool)\<rparr> else pool)
            in (pool\<lparr>fp_item_count := fp_item_count pool + 1\<rparr>, h + fp_head_size pool))"

text \<open>For an address below the size of a head the position of the head wraps around and a bit outside is read: none.\<close>

definition xu_static_fixed_pool_free :: "fixed_pool \<Rightarrow> nat \<Rightarrow> (fixed_pool \<times> bool) option" where
  "xu_static_fixed_pool_free pool data =
     (if fp_item_space pool = 0 then Some (pool, False)
      else if data < fp_head_size pool then None
      else
        let h = data - fp_head_size pool; index = (h - fp_data pool) div fp_item_space pool in
        if \<not> (h \<ge> fp_data pool \<and> h + fp_item_space pool \<le> fp_tail pool) then Some (pool, False)
        else if fp_item_count pool = 0 then Some (pool, False)
        else if \<not> xu_static_fixed_pool_used_bset (fp_used pool) index then Some (pool, False)
        else
          let pool = pool\<lparr>fp_used := xu_static_fixed_pool_used_set0 (fp_used pool) index\<rparr>;
              pool = (if fp_pred pool = 0 then xu_static_fixed_pool_cache_pred pool index else pool)
          in Some (pool\<lparr>fp_item_count := fp_item_count pool - 1\<rparr>, True))"

text \<open>The data that a walk visits, in order; \<open>u\<close> is the byte of bits at hand.\<close>

function walk_items :: "fixed_pool \<Rightarrow> nat \<Rightarrow> u8 \<Rightarrow> nat list" where
  "walk_items pool i u =
     (if i < fp_item_maxn pool then
        let d = fp_data pool + fp_head_size pool; b = i mod 8; u = (if b = 0 then fp_used pool ! (i div 8) else u)
        in if b = 0 \<and> u + 1 = 0 then
             [d + i * fp_item_space pool, d + (i + 1) * fp_item_space pool, d + (i + 2) * fp_item_space pool,
              d + (i + 3) * fp_item_space pool, d + (i + 4) * fp_item_space pool, d + (i + 5) * fp_item_space pool,
              d + (i + 6) * fp_item_space pool, d + (i + 7) * fp_item_space pool] @ walk_items pool (i + 8) u
           else if u AND push_bit b 1 \<noteq> 0 then (d + i * fp_item_space pool) # walk_items pool (i + 1) u
           else walk_items pool (i + 1) u
      else [])"
  by pat_completeness auto
termination by (relation "measure (\<lambda>(pool, i, u). fp_item_maxn pool - i)") auto

declare walk_items.simps [simp del]

definition xu_static_fixed_pool_walk :: "fixed_pool \<Rightarrow> nat list" where
  "xu_static_fixed_pool_walk pool =
     (if fp_item_maxn pool = 0 \<or> fp_item_space pool = 0 then [] else walk_items pool 0 (fp_used pool ! 0))"

end
