(* ===== verification/XFixedPoolCorrect.thy ===== *)
theory XFixedPoolCorrect
  imports XFixedPool XLargeAllocCorrect XRegions
begin

text \<open>
  The bits of the pool say which items are used, and the searches find a free one whenever there is one; the
  pool is a source of regions that is refused only when it is full, and a walk visits the used items in order.
\<close>

unbundle bit_operations_syntax

section \<open>The bits\<close>

lemma used_bset_bit: "xu_static_fixed_pool_used_bset used i \<longleftrightarrow> bit (used ! (i div 8)) (i mod 8)"
proof -
  have "used ! (i div 8) AND push_bit (i mod 8) 1 = (if bit (used ! (i div 8)) (i mod 8) then push_bit (i mod 8) 1 else 0)"
    by (rule bit_word_eqI) (auto simp: bit_simps)
  moreover have "push_bit (i mod 8) 1 \<noteq> (0 :: u8)" by (auto simp: bit_eq_iff bit_simps intro: exI [of _ "i mod 8"])
  ultimately show ?thesis by (simp add: xu_static_fixed_pool_used_bset_def)
qed

lemma used_set1:
  assumes "i < 8 * length used"
  shows "length (xu_static_fixed_pool_used_set1 used i) = length used"
    "xu_static_fixed_pool_used_bset (xu_static_fixed_pool_used_set1 used i) j \<longleftrightarrow> j = i \<or> xu_static_fixed_pool_used_bset used j"
proof -
  show "length (xu_static_fixed_pool_used_set1 used i) = length used" by (simp add: xu_static_fixed_pool_used_set1_def)
  have i: "i div 8 < length used" using assms by auto
  have eq: "j = i \<longleftrightarrow> j div 8 = i div 8 \<and> j mod 8 = i mod 8" by (metis div_mult_mod_eq)
  show "xu_static_fixed_pool_used_bset (xu_static_fixed_pool_used_set1 used i) j \<longleftrightarrow> j = i \<or> xu_static_fixed_pool_used_bset used j"
    unfolding used_bset_bit eq xu_static_fixed_pool_used_set1_def
    using i by (cases "j div 8 = i div 8") (auto simp: bit_simps)
qed

lemma used_set0:
  assumes "i < 8 * length used"
  shows "length (xu_static_fixed_pool_used_set0 used i) = length used"
    "xu_static_fixed_pool_used_bset (xu_static_fixed_pool_used_set0 used i) j \<longleftrightarrow> j \<noteq> i \<and> xu_static_fixed_pool_used_bset used j"
proof -
  show "length (xu_static_fixed_pool_used_set0 used i) = length used" by (simp add: xu_static_fixed_pool_used_set0_def)
  have i: "i div 8 < length used" using assms by auto
  have eq: "j = i \<longleftrightarrow> j div 8 = i div 8 \<and> j mod 8 = i mod 8" by (metis div_mult_mod_eq)
  show "xu_static_fixed_pool_used_bset (xu_static_fixed_pool_used_set0 used i) j \<longleftrightarrow> j \<noteq> i \<and> xu_static_fixed_pool_used_bset used j"
    unfolding used_bset_bit eq xu_static_fixed_pool_used_set0_def
    using i by (cases "j div 8 = i div 8") (auto simp: bit_simps)
qed

lemma used_none: "\<not> xu_static_fixed_pool_used_bset (replicate n 0) i" if "i < 8 * n"
proof -
  have "i div 8 < n" using that by auto
  then show ?thesis by (simp add: used_bset_bit)
qed

lemma used_word_bit:
  assumes "j < 64"
  shows "bit (used_word used k) j \<longleftrightarrow> xu_static_fixed_pool_used_bset used (64 * k + j)"
proof -
  have byte: "bit (push_bit n (ucast x) :: u64) m \<longleftrightarrow> n \<le> m \<and> m < n + 8 \<and> bit x (m - n)" if "m < 64" for n m and x :: u8
    using that bit_imp_le_length [of x "m - n"] by (auto simp: bit_simps)
  have byte0: "bit (ucast x :: u64) m \<longleftrightarrow> m < 8 \<and> bit x m" if "m < 64" for m and x :: u8
    using byte [of m 0 x] that by simp
  define c d where "c = j div 8" and "d = j mod 8"
  have j: "j = 8 * c + d" "d < 8" "c < 8" using assms by (simp_all add: c_def d_def)
  have "bit (used_word used k) j \<longleftrightarrow> bit (used ! (8 * k + c)) d"
  proof -
    consider "c = 0" | "c = 1" | "c = 2" | "c = 3" | "c = 4" | "c = 5" | "c = 6" | "c = 7" using j(3) by linarith
    then show ?thesis
      by cases (use j(2) in \<open>simp_all add: used_word_def xu_bits_get_u64_le_def bit_or_iff byte byte0 j(1)\<close>)
  qed
  moreover have "(64 * k + j) div 8 = 8 * k + c" "(64 * k + j) mod 8 = d" unfolding c_def d_def by presburger+
  ultimately show ?thesis by (simp add: used_bset_bit)
qed

lemma used_word_full: "used_word used k + 1 = 0 \<longleftrightarrow> (\<forall>j<64. xu_static_fixed_pool_used_bset used (64 * k + j))"
proof -
  have "used_word used k + 1 = 0 \<longleftrightarrow> used_word used k = - 1" by (simp add: eq_neg_iff_add_eq_0)
  also have "\<dots> \<longleftrightarrow> (\<forall>j<64. bit (used_word used k) j)" by (auto simp: bit_eq_iff)
  finally show ?thesis by (simp add: used_word_bit)
qed


lemma free_bit:
  assumes "used_word used k + 1 \<noteq> 0"
  defines "i \<equiv> k * 64 + xu_bits_fb0_u64_le (used_word used k)"
  shows "i div 64 = k" "\<not> xu_static_fixed_pool_used_bset used i"
    "\<And>j. 64 * k \<le> j \<Longrightarrow> \<not> xu_static_fixed_pool_used_bset used j \<Longrightarrow> i \<le> j"
proof -
  let ?w = "used_word used k"
  have nf: "NOT ?w \<noteq> 0"
  proof
    assume "NOT ?w = 0"
    then have "?w = - 1" using bit.double_compl [of ?w] by simp
    then show False using assms(1) by simp
  qed
  then obtain e where e: "low_bit (NOT ?w) e" "e < 64" "xu_bits_cl0_u64_le_inline (NOT ?w) = e" by (rule cl0_u64_le)
  have fb: "xu_bits_fb0_u64_le ?w = e"
  proof (cases "?w = 0")
    case True
    then have "low_bit (NOT ?w) 0" by (simp add: low_bit_def)
    then have "e = 0" using e(1) by (auto simp: low_bit_def)
    then show ?thesis using True by (simp add: xu_bits_fb0_u64_le_def)
  qed (use e(3) in \<open>simp add: xu_bits_fb0_u64_le_def\<close>)
  then have i: "i = 64 * k + e" by (simp add: i_def)
  show "i div 64 = k" using i e(2) by simp
  show "\<not> xu_static_fixed_pool_used_bset used i"
    using e(1,2) used_word_bit [OF e(2)] by (simp add: i low_bit_def bit_not_iff)
  show "i \<le> j" if "64 * k \<le> j" "\<not> xu_static_fixed_pool_used_bset used j" for j
  proof (rule ccontr)
    assume "\<not> i \<le> j"
    then have "j - 64 * k < e" "64 * k + (j - 64 * k) = j" using that(1) i by simp_all
    then show False using e(1,2) that(2) used_word_bit [of "j - 64 * k" used k] by (auto simp: low_bit_def bit_not_iff)
  qed
qed

section \<open>The searches\<close>

lemma find_eight_full: "p \<le> k \<Longrightarrow> k < find_eight used p e \<Longrightarrow> used_word used k + 1 = 0"
proof (induction used p e rule: find_eight.induct)
  case (1 used p e)
  have "k = p \<or> k = p + 1 \<or> k = p + 2 \<or> k = p + 3 \<or> k = p + 4 \<or> k = p + 5 \<or> k = p + 6 \<or> k = p + 7 \<or> p + 8 \<le> k"
    using "1.prems"(1) by linarith
  then show ?case using 1 by (subst (asm) (2) find_eight.simps) (auto simp: le_less_Suc_eq split: if_splits)
qed

lemma find_one_full: "p \<le> k \<Longrightarrow> k < find_one used p e \<Longrightarrow> used_word used k + 1 = 0"
proof (induction used p e rule: find_one.induct)
  case (1 used p e)
  then show ?case by (cases "k = p"; subst (asm) (2) find_one.simps) (auto split: if_splits)
qed

lemma find_one_stop: "find_one used p e < e \<Longrightarrow> used_word used (find_one used p e) + 1 \<noteq> 0"
proof (induction used p e rule: find_one.induct)
  case (1 used p e)
  then show ?case by (cases "p < e \<and> used_word used p + 1 = 0") (simp_all add: find_one.simps [of used p e])
qed

section \<open>The pool\<close>

definition fp_in_use :: "fixed_pool \<Rightarrow> nat set" where
  "fp_in_use pool = {i. i < fp_item_maxn pool \<and> xu_static_fixed_pool_used_bset (fp_used pool) i}"

definition fp_inv :: "fixed_pool \<Rightarrow> bool" where
  "fp_inv pool \<longleftrightarrow> 0 < fp_data pool \<and> fp_head_size pool + fp_item_size pool \<le> fp_item_space pool \<and> 0 < fp_item_size pool
     \<and> fp_tail pool = fp_data pool + fp_item_maxn pool * fp_item_space pool \<and> 0 < fp_item_maxn pool
     \<and> length (fp_used pool) = fp_info_size pool \<and> 8 dvd fp_info_size pool \<and> fp_item_maxn pool \<le> 8 * fp_info_size pool
     \<and> fp_pred pool * 8 \<le> fp_info_size pool \<and> fp_item_count pool = card (fp_in_use pool)
     \<and> (\<forall>i. fp_item_maxn pool \<le> i \<and> i < 8 * fp_info_size pool \<longrightarrow> \<not> xu_static_fixed_pool_used_bset (fp_used pool) i)"

lemma fp_in_use_finite [simp]: "finite (fp_in_use pool)"
  by (simp add: fp_in_use_def)

text \<open>A search that has found an item has marked it.\<close>

definition fp_taken :: "fixed_pool \<Rightarrow> fixed_pool \<times> nat option \<Rightarrow> bool" where
  "fp_taken pool r \<longleftrightarrow> (\<exists>i q. i < fp_item_maxn pool \<and> \<not> xu_static_fixed_pool_used_bset (fp_used pool) i \<and> q * 8 \<le> fp_info_size pool
     \<and> r = (pool\<lparr>fp_used := xu_static_fixed_pool_used_set1 (fp_used pool) i, fp_pred := q\<rparr>, Some (fp_data pool + i * fp_item_space pool)))"

lemma cache_place:
  assumes "fp_inv pool" and "i < fp_item_maxn pool"
  shows "(i div 64 + 1) * 8 \<le> fp_info_size pool"
proof -
  obtain k where k: "fp_info_size pool = 8 * k" using assms(1) by (auto simp: fp_inv_def)
  then have "i < k * 64" using assms by (simp add: fp_inv_def)
  then have "i div 64 < k" by (rule less_mult_imp_div_less)
  then show ?thesis using k by simp
qed

lemma fixed_pred_correct:
  assumes "fp_inv pool"
  shows "fp_taken pool (xu_static_fixed_pool_malloc_pred pool) \<or>
    (\<exists>q. q * 8 \<le> fp_info_size pool \<and> xu_static_fixed_pool_malloc_pred pool = (pool\<lparr>fp_pred := q\<rparr>, None))"
proof -
  let ?k = "fp_pred pool - 1"
  let ?w = "used_word (fp_used pool) ?k"
  let ?i = "?k * 64 + xu_bits_fb0_u64_le ?w"
  have same: "pool = pool\<lparr>fp_pred := fp_pred pool\<rparr>" by simp
  consider "fp_pred pool = 0 \<or> ?w + 1 = 0" | "fp_pred pool \<noteq> 0" "?w + 1 \<noteq> 0" "?i \<ge> fp_item_maxn pool"
    | "fp_pred pool \<noteq> 0" "?w + 1 \<noteq> 0" "?i < fp_item_maxn pool" by linarith
  then show ?thesis
  proof cases
    case 1
    then have "xu_static_fixed_pool_malloc_pred pool = (pool, None)" by (auto simp: xu_static_fixed_pool_malloc_pred_def)
    then show ?thesis using assms same by (auto simp: fp_inv_def intro: exI [of _ "fp_pred pool"])
  next
    case 2
    then have "xu_static_fixed_pool_malloc_pred pool = (pool\<lparr>fp_pred := 0\<rparr>, None)"
      by (simp add: xu_static_fixed_pool_malloc_pred_def Let_def)
    then show ?thesis by (intro disjI2 exI [of _ 0]) simp
  next
    case 3
    let ?u = "xu_static_fixed_pool_used_set1 (fp_used pool) ?i"
    define q where "q = (if used_word ?u ?k + 1 = 0 then
      if ?i + 1 < fp_item_maxn pool \<and> \<not> xu_static_fixed_pool_used_bset ?u (?i + 1) then (?i + 1) div 64 + 1 else 0 else fp_pred pool)"
    have "xu_static_fixed_pool_malloc_pred pool = (pool\<lparr>fp_used := ?u, fp_pred := q\<rparr>, Some (fp_data pool + ?i * fp_item_space pool))"
      using 3 by (simp add: xu_static_fixed_pool_malloc_pred_def Let_def q_def xu_static_fixed_pool_cache_pred_def del: One_nat_def)
    moreover have "q * 8 \<le> fp_info_size pool" using cache_place [OF assms, of "?i + 1"] assms by (auto simp: q_def fp_inv_def)
    ultimately show ?thesis using 3(3) free_bit(2) [OF 3(2)] unfolding fp_taken_def by blast
  qed
qed

lemma fixed_find_correct:
  assumes "fp_inv pool" and "fp_item_count pool < fp_item_maxn pool"
  shows "fp_taken pool (xu_static_fixed_pool_malloc_find pool)"
proof -
  let ?e = "fp_info_size pool div 8" and ?u = "fp_used pool"
  let ?p = "find_one ?u (find_eight ?u 0 ?e) ?e"
  have "\<exists>i<fp_item_maxn pool. \<not> xu_static_fixed_pool_used_bset ?u i"
  proof (rule ccontr)
    assume "\<not> (\<exists>i<fp_item_maxn pool. \<not> xu_static_fixed_pool_used_bset ?u i)"
    then have "fp_in_use pool = {..<fp_item_maxn pool}" by (auto simp: fp_in_use_def)
    then show False using assms by (simp add: fp_inv_def)
  qed
  then obtain j where j: "j < fp_item_maxn pool" "\<not> xu_static_fixed_pool_used_bset ?u j" by blast
  have "64 * (j div 64) + j mod 64 = j" by simp
  then have notfull: "used_word ?u (j div 64) + 1 \<noteq> 0" using j(2) used_word_full [of ?u "j div 64"] by (metis mod_less_divisor zero_less_numeral)
  have pj: "?p \<le> j div 64"
    using notfull find_eight_full [of 0 "j div 64" ?u ?e] find_one_full [of "find_eight ?u 0 ?e" "j div 64" ?u ?e] by (meson le0 not_le)
  have "j div 64 < ?e" using div_le_mono [OF cache_place [OF assms(1) j(1)], of 8] by simp
  then have pe: "?p < ?e" using pj by simp
  note free = free_bit [OF find_one_stop [OF pe]]
  let ?i = "?p * 64 + xu_bits_fb0_u64_le (used_word ?u ?p)"
  have "64 * ?p \<le> 64 * (j div 64)" using pj by simp
  also have "\<dots> \<le> j" by (rule times_div_less_eq_dividend)
  finally have "?i \<le> j" using free(3) j(2) by blast
  then have i: "?i < fp_item_maxn pool" using j(1) by simp
  define q where "q = (if used_word (xu_static_fixed_pool_used_set1 ?u ?i) ?p + 1 \<noteq> 0 then ?i div 64 + 1 else fp_pred pool)"
  have "xu_static_fixed_pool_malloc_find pool =
      (pool\<lparr>fp_used := xu_static_fixed_pool_used_set1 ?u ?i, fp_pred := q\<rparr>, Some (fp_data pool + ?i * fp_item_space pool))"
    using pe i by (simp add: xu_static_fixed_pool_malloc_find_def Let_def q_def xu_static_fixed_pool_cache_pred_def)
  moreover have "q * 8 \<le> fp_info_size pool" using cache_place [OF assms(1) i] assms(1) by (simp add: q_def fp_inv_def)
  ultimately show ?thesis using i free(2) unfolding fp_taken_def by blast
qed


section \<open>The regions of the pool\<close>

definition fp_address :: "fixed_pool \<Rightarrow> nat \<Rightarrow> nat" where
  "fp_address pool i = fp_data pool + fp_head_size pool + i * fp_item_space pool"

definition fp_regions :: "fixed_pool \<Rightarrow> nat \<Rightarrow> nat option" where
  "fp_regions pool p =
     (let d = p - (fp_data pool + fp_head_size pool); i = d div fp_item_space pool in
      if fp_data pool + fp_head_size pool \<le> p \<and> d mod fp_item_space pool = 0 \<and> i < fp_item_maxn pool
        \<and> xu_static_fixed_pool_used_bset (fp_used pool) i
      then Some (fp_item_size pool) else None)"

lemma fp_regions_image:
  assumes "fp_inv pool"
  shows "fp_regions pool = (\<lambda>p. if p \<in> fp_address pool ` fp_in_use pool then Some (fp_item_size pool) else None)"
proof
  fix p
  let ?i = "(p - (fp_data pool + fp_head_size pool)) div fp_item_space pool"
  show "fp_regions pool p = (if p \<in> fp_address pool ` fp_in_use pool then Some (fp_item_size pool) else None)"
  proof (cases "p \<in> fp_address pool ` fp_in_use pool")
    case True
    then show ?thesis using assms by (auto simp: fp_regions_def fp_address_def fp_in_use_def fp_inv_def)
  next
    case False
    have "p = fp_address pool ?i" if "fp_data pool + fp_head_size pool \<le> p" "(p - (fp_data pool + fp_head_size pool)) mod fp_item_space pool = 0"
      using that by (auto simp: fp_address_def)
    then show ?thesis using False by (auto simp: fp_regions_def fp_in_use_def Let_def)
  qed
qed

lemma fp_address_inj: "fp_inv pool \<Longrightarrow> fp_address pool i = fp_address pool j \<longleftrightarrow> i = j"
  by (auto simp: fp_address_def fp_inv_def)

lemma fp_regions_update:
  assumes "fp_inv pool" and "fp_inv pool'" and "fp_address pool' = fp_address pool" and "fp_item_size pool' = fp_item_size pool"
  shows "fp_in_use pool' = insert i (fp_in_use pool) \<Longrightarrow> fp_regions pool' = (fp_regions pool)(fp_address pool i \<mapsto> fp_item_size pool)"
    "fp_in_use pool' = fp_in_use pool - {i} \<Longrightarrow> fp_regions pool' = (fp_regions pool)(fp_address pool i := None)"
  using fp_regions_image [OF assms(1)] fp_regions_image [OF assms(2)] assms(3,4) fp_address_inj [OF assms(1)]
  by (auto simp: fun_eq_iff image_iff)

lemma fp_region_bounds:
  assumes "fp_inv pool" and "i < fp_item_maxn pool"
  shows "fp_data pool + fp_head_size pool \<le> fp_address pool i" "fp_address pool i + fp_item_size pool \<le> fp_tail pool"
proof -
  have "(i + 1) * fp_item_space pool \<le> fp_item_maxn pool * fp_item_space pool" using assms(2) by (intro mult_le_mono1) simp
  then show "fp_address pool i + fp_item_size pool \<le> fp_tail pool" using assms(1) by (simp add: fp_inv_def fp_address_def)
qed (simp add: fp_address_def)

lemma fp_regions_disjoint:
  assumes "fp_inv pool" and "fp_regions pool p = Some m" and "fp_regions pool q = Some k" and "p \<noteq> q"
  shows "p + m \<le> q \<or> q + k \<le> p"
proof -
  obtain i j where ij: "p = fp_address pool i" "q = fp_address pool j" "m = fp_item_size pool" "k = fp_item_size pool"
    using assms(2,3) fp_regions_image [OF assms(1)] by (auto split: if_splits)
  then have "i < j \<or> j < i" using assms(4) by (cases i j rule: linorder_cases) auto
  moreover have "fp_address pool i + fp_item_size pool \<le> fp_address pool j" if "i < j" for i j
  proof -
    have "(i + 1) * fp_item_space pool \<le> j * fp_item_space pool" using that by (intro mult_le_mono1) simp
    then show ?thesis using assms(1) by (simp add: fp_address_def fp_inv_def)
  qed
  ultimately show ?thesis using ij by auto
qed

section \<open>The operations\<close>

lemma fp_taken_inv:
  fixes f :: "nat \<Rightarrow> nat"
  assumes inv: "fp_inv pool" and i: "i < fp_item_maxn pool" "\<not> xu_static_fixed_pool_used_bset (fp_used pool) i" and q: "q * 8 \<le> fp_info_size pool"
  defines "pool' \<equiv> pool\<lparr>fp_used := xu_static_fixed_pool_used_set1 (fp_used pool) i, fp_pred := q, fp_item_count := fp_item_count pool + 1,
      fp_sizes := f\<rparr>"
  shows "fp_inv pool'" "fp_regions pool' = (fp_regions pool)(fp_address pool i \<mapsto> fp_item_size pool)"
proof -
  have len: "i < 8 * length (fp_used pool)" using inv i(1) by (simp add: fp_inv_def)
  have use: "fp_in_use pool' = insert i (fp_in_use pool)"
    using i(1) used_set1(2) [OF len] by (auto simp: fp_in_use_def pool'_def)
  have "i \<notin> fp_in_use pool" using i(2) by (simp add: fp_in_use_def)
  then have "card (fp_in_use pool') = fp_item_count pool + 1" using inv by (simp add: use fp_inv_def)
  then show inv': "fp_inv pool'"
    using inv i(1) q used_set1 [OF len] by (auto simp: fp_inv_def pool'_def)
  show "fp_regions pool' = (fp_regions pool)(fp_address pool i \<mapsto> fp_item_size pool)"
    by (rule fp_regions_update(1) [OF inv inv' _ _ use]) (auto simp: fp_address_def pool'_def)
qed

lemma fixed_malloc:
  assumes "fp_inv pool"
  shows "\<exists>pool' p. xu_static_fixed_pool_malloc pool = (pool', p) \<and> fp_inv pool' \<and> (p \<noteq> 0 \<longleftrightarrow> fp_item_count pool < fp_item_maxn pool)
    \<and> (if p = 0 then pool' = pool
       else fp_regions pool p = None \<and> fp_regions pool' = (fp_regions pool)(p \<mapsto> fp_item_size pool)
         \<and> fp_item_count pool' = fp_item_count pool + 1 \<and> fp_item_maxn pool' = fp_item_maxn pool \<and> fp_item_size pool' = fp_item_size pool)"
proof (cases "fp_item_count pool < fp_item_maxn pool")
  case False
  then have "xu_static_fixed_pool_malloc pool = (pool, 0)" by (simp add: xu_static_fixed_pool_malloc_def)
  then show ?thesis using assms False by simp
next
  case True
  let ?s = "case xu_static_fixed_pool_malloc_pred pool of (pool, None) \<Rightarrow> xu_static_fixed_pool_malloc_find pool | (pool, Some h) \<Rightarrow> (pool, Some h)"
  have "fp_taken pool ?s" using fixed_pred_correct [OF assms]
  proof
    assume t: "fp_taken pool (xu_static_fixed_pool_malloc_pred pool)"
    then obtain r h where "xu_static_fixed_pool_malloc_pred pool = (r, Some h)" unfolding fp_taken_def by blast
    then show ?thesis using t by simp
  next
    assume "\<exists>q. q * 8 \<le> fp_info_size pool \<and> xu_static_fixed_pool_malloc_pred pool = (pool\<lparr>fp_pred := q\<rparr>, None)"
    then obtain q where q: "q * 8 \<le> fp_info_size pool" "xu_static_fixed_pool_malloc_pred pool = (pool\<lparr>fp_pred := q\<rparr>, None)" by blast
    have "fp_inv (pool\<lparr>fp_pred := q\<rparr>)" using assms q(1) by (simp add: fp_inv_def fp_in_use_def)
    then have "fp_taken (pool\<lparr>fp_pred := q\<rparr>) (xu_static_fixed_pool_malloc_find (pool\<lparr>fp_pred := q\<rparr>))"
      using fixed_find_correct True by simp
    then show ?thesis using q(2) by (simp add: fp_taken_def)
  qed
  then obtain i q where iq: "i < fp_item_maxn pool" "\<not> xu_static_fixed_pool_used_bset (fp_used pool) i" "q * 8 \<le> fp_info_size pool"
    "?s = (pool\<lparr>fp_used := xu_static_fixed_pool_used_set1 (fp_used pool) i, fp_pred := q\<rparr>, Some (fp_data pool + i * fp_item_space pool))"
    unfolding fp_taken_def by blast
  let ?f = "if fp_small pool then (fp_sizes pool)(fp_data pool + i * fp_item_space pool := fp_item_size pool) else fp_sizes pool"
  let ?pool = "pool\<lparr>fp_used := xu_static_fixed_pool_used_set1 (fp_used pool) i, fp_pred := q, fp_item_count := fp_item_count pool + 1, fp_sizes := ?f\<rparr>"
  have space: "fp_item_space pool \<noteq> 0" using assms by (auto simp: fp_inv_def)
  have eq: "xu_static_fixed_pool_malloc pool = (?pool, fp_address pool i)"
    using iq(4) True space
    by (auto simp: xu_static_fixed_pool_malloc_def fp_address_def Let_def split: prod.splits option.splits)
  note t = fp_taken_inv [OF assms iq(1-3), of ?f]
  have "fp_regions pool (fp_address pool i) = None"
    using iq(2) fp_regions_image [OF assms] fp_address_inj [OF assms] by (auto simp: fp_in_use_def)
  moreover have "fp_address pool i \<noteq> 0" using assms by (simp add: fp_address_def fp_inv_def)
  ultimately show ?thesis using eq t True by simp
qed

lemma fixed_free:
  assumes "fp_inv pool" and "fp_regions pool p = Some m"
  shows "\<exists>pool'. xu_static_fixed_pool_free pool p = Some (pool', True) \<and> fp_inv pool' \<and> fp_regions pool' = (fp_regions pool)(p := None)
    \<and> fp_item_count pool = fp_item_count pool' + 1 \<and> fp_item_maxn pool' = fp_item_maxn pool \<and> fp_item_size pool' = fp_item_size pool"
proof -
  obtain i where i: "i \<in> fp_in_use pool" "p = fp_address pool i"
    using assms(2) fp_regions_image [OF assms(1)] by (auto split: if_splits)
  then have im: "i < fp_item_maxn pool" and ib: "xu_static_fixed_pool_used_bset (fp_used pool) i" by (simp_all add: fp_in_use_def)
  have space: "fp_item_space pool \<noteq> 0" using assms(1) by (auto simp: fp_inv_def)
  define q where "q = (if fp_pred pool = 0 then i div 64 + 1 else fp_pred pool)"
  define pool' where "pool' = pool\<lparr>fp_used := xu_static_fixed_pool_used_set0 (fp_used pool) i, fp_pred := q, fp_item_count := fp_item_count pool - 1\<rparr>"
  have len: "i < 8 * length (fp_used pool)" using assms(1) im by (simp add: fp_inv_def)
  have use: "fp_in_use pool' = fp_in_use pool - {i}" using used_set0(2) [OF len] by (auto simp: fp_in_use_def pool'_def)
  have card: "card (fp_in_use pool - {i}) = fp_item_count pool - 1" "0 < fp_item_count pool"
    using i(1) assms(1) by (auto simp: fp_inv_def card_gt_0_iff)
  have q: "q * 8 \<le> fp_info_size pool" using cache_place [OF assms(1) im] assms(1) by (simp add: q_def fp_inv_def)
  have inv': "fp_inv pool'"
    using assms(1) use card q used_set0 [OF len] by (auto simp: fp_inv_def pool'_def)
  have "(i + 1) * fp_item_space pool \<le> fp_item_maxn pool * fp_item_space pool" using im by (intro mult_le_mono1) simp
  then have "xu_static_fixed_pool_free pool p = Some (pool', True)"
    using assms(1) i(2) ib space card(2)
    by (auto simp: xu_static_fixed_pool_free_def fp_address_def Let_def pool'_def q_def xu_static_fixed_pool_cache_pred_def fp_inv_def)
  moreover have "fp_regions pool' = (fp_regions pool)(p := None)"
    unfolding i(2) by (rule fp_regions_update(2) [OF assms(1) inv' _ _ use]) (auto simp: fp_address_def pool'_def)
  ultimately show ?thesis using inv' card(2) by (simp add: pool'_def)
qed


lemma fixed_clear:
  assumes "fp_inv pool"
  shows "fp_inv (xu_static_fixed_pool_clear pool)" "fp_regions (xu_static_fixed_pool_clear pool) = (\<lambda>_. None)"
proof -
  have none: "\<not> xu_static_fixed_pool_used_bset (replicate (fp_info_size pool) 0) i" if "i < 8 * fp_info_size pool" for i
    using used_none that by blast
  have use: "fp_in_use (xu_static_fixed_pool_clear pool) = {}"
    using assms none by (auto simp: fp_in_use_def xu_static_fixed_pool_clear_def fp_inv_def)
  obtain k where "fp_info_size pool = 8 * k" "0 < fp_info_size pool" using assms by (fastforce simp: fp_inv_def)
  then have "8 \<le> fp_info_size pool" by simp
  then show inv: "fp_inv (xu_static_fixed_pool_clear pool)"
    using assms use none by (auto simp: fp_inv_def xu_static_fixed_pool_clear_def)
  show "fp_regions (xu_static_fixed_pool_clear pool) = (\<lambda>_. None)" by (simp add: fp_regions_image [OF inv] use)
qed

lemma fp_null: "fp_inv pool \<Longrightarrow> fp_regions pool 0 = None"
  by (auto simp: fp_regions_def fp_inv_def)

interpretation fixed: region_source "\<lambda>pool. fp_inv pool \<and> fp_item_size pool = k" fp_regions "\<lambda>n. n \<le> k"
  "\<lambda>pool n. Some (xu_static_fixed_pool_malloc pool)" "\<lambda>pool p. the (xu_static_fixed_pool_free pool p)" for k
proof unfold_locales
  show "\<exists>s' p. Some (xu_static_fixed_pool_malloc s) = Some (s', p) \<and> (fp_inv s' \<and> fp_item_size s' = k) \<and>
      (if p = 0 then fp_regions s' = fp_regions s else fp_regions s p = None \<and> (\<exists>m\<ge>n. fp_regions s' = (fp_regions s)(p \<mapsto> m)))"
    if s: "fp_inv s \<and> fp_item_size s = k" "n \<le> k" for s n
  proof -
    obtain s' p where a: "xu_static_fixed_pool_malloc s = (s', p)" "fp_inv s'"
      and r: "if p = 0 then s' = s else fp_regions s p = None \<and> fp_regions s' = (fp_regions s)(p \<mapsto> fp_item_size s)
         \<and> fp_item_count s' = fp_item_count s + 1 \<and> fp_item_maxn s' = fp_item_maxn s \<and> fp_item_size s' = fp_item_size s"
      using fixed_malloc [of s] s(1) by blast
    show ?thesis by (rule exI [of _ s'], rule exI [of _ p]) (use a r s in \<open>cases "p = 0"; auto\<close>)
  qed
  show "\<exists>s'. the (xu_static_fixed_pool_free s p) = (s', True) \<and> (fp_inv s' \<and> fp_item_size s' = k) \<and> fp_regions s' = (fp_regions s)(p := None)"
    if "fp_inv s \<and> fp_item_size s = k" "fp_regions s p = Some m" for s p m
    using fixed_free [of s p m] that by auto
qed (use fp_regions_disjoint fp_null in blast)+

text \<open>A walk.\<close>

lemma walk_items_correct:
  assumes "fp_inv pool" and "i mod 8 \<noteq> 0 \<Longrightarrow> u = fp_used pool ! (i div 8)"
  shows "walk_items pool i u = map (fp_address pool) (filter (xu_static_fixed_pool_used_bset (fp_used pool)) [i..<fp_item_maxn pool])"
  using assms
proof (induction pool i u rule: walk_items.induct)
  case (1 pool i u)
  let ?used = "xu_static_fixed_pool_used_bset (fp_used pool)"
  show ?case
  proof (cases "i < fp_item_maxn pool")
    case False
    then show ?thesis by (subst walk_items.simps) simp
  next
    case True
    define v where "v = (if i mod 8 = 0 then fp_used pool ! (i div 8) else u)"
    have v: "v = fp_used pool ! (i div 8)" using "1.prems"(2) by (simp add: v_def)
    have rest: "[i..<fp_item_maxn pool] = i # [i + 1..<fp_item_maxn pool]" using True by (simp add: upt_conv_Cons)
    show ?thesis
    proof (cases "i mod 8 = 0 \<and> v + 1 = 0")
      case full: True
      have "v = - 1" using full by (simp add: eq_neg_iff_add_eq_0)
      then have set: "?used (i + j)" if "j < 8" for j
        using that full v by (auto simp: used_bset_bit div_add1_eq mod_add_eq [symmetric])
      obtain m where m: "fp_info_size pool = 8 * m" "fp_item_maxn pool \<le> 8 * fp_info_size pool"
        using "1.prems"(1) by (auto simp: fp_inv_def)
      have "i mod 8 = 0" using full by simp
      then have "i + 7 < 8 * fp_info_size pool" using True m(2) by presburger
      moreover have "\<forall>j. fp_item_maxn pool \<le> j \<and> j < 8 * fp_info_size pool \<longrightarrow> \<not> ?used j" using "1.prems"(1) by (simp add: fp_inv_def)
      moreover have "?used (i + 7)" by (rule set) simp
      ultimately have le: "i + 7 < fp_item_maxn pool" using not_le by blast
      have upt: "[i..<fp_item_maxn pool] = [i, i + 1, i + 2, i + 3, i + 4, i + 5, i + 6, i + 7] @ [i + 8..<fp_item_maxn pool]"
        using le by (simp add: upt_conv_Cons eval_nat_numeral)
      have "(i + 8) mod 8 = 0" using full by simp
      then have IH: "walk_items pool (i + 8) v = map (fp_address pool) (filter ?used [i + 8..<fp_item_maxn pool])"
        using "1.IH"(1) [OF True refl refl v_def] full "1.prems"(1) by simp
      show ?thesis
        using True conjunct1 [OF full] conjunct2 [OF full] set [of 0] set [of 1] set [of 2] set [of 3] set [of 4] set [of 5] set [of 6] set [of 7] IH
        unfolding upt by (subst walk_items.simps) (simp add: Let_def v [symmetric] fp_address_def)
    next
      case nf: False
      have byte: "v = fp_used pool ! ((i + 1) div 8)" if "(i + 1) mod 8 \<noteq> 0"
      proof -
        have "(i + 1) div 8 = i div 8" using that by presburger
        then show ?thesis using v by simp
      qed
      then have IH: "walk_items pool (i + 1) v = map (fp_address pool) (filter ?used [i + 1..<fp_item_maxn pool])"
      proof (cases "v AND push_bit (i mod 8) 1 \<noteq> 0")
        case set: True
        show ?thesis by (rule "1.IH"(2) [OF True refl refl v_def nf set "1.prems"(1)]) (rule byte)
      next
        case unset: False
        show ?thesis by (rule "1.IH"(3) [OF True refl refl v_def nf unset "1.prems"(1)]) (rule byte)
      qed
      have test: "v AND push_bit (i mod 8) 1 \<noteq> 0 \<longleftrightarrow> ?used i" by (simp add: v xu_static_fixed_pool_used_bset_def)
      show ?thesis
        using True nf IH test unfolding rest
        by (subst walk_items.simps) (auto simp: Let_def v_def [symmetric] fp_address_def)
    qed
  qed
qed


section \<open>Setting up\<close>

lemma align_eight: "x + 8 \<le> 2 ^ 64 \<Longrightarrow> xu_align x 8 = (x + 7) div 8 * 8"
  using xu_align_value [of x 3] by simp

lemma align_bounds: "x + 8 \<le> 2 ^ 64 \<Longrightarrow> x \<le> xu_align x 8 \<and> 8 dvd xu_align x 8"
  by (simp add: align_eight)

lemma xu_static_fixed_pool_init_correct:
  assumes ini: "xu_static_fixed_pool_init struct_size data_head mem data n item_size small = Some pool"
    and bounds: "data + n < 2 ^ 63" "item_size < 2 ^ 62" "data_head < 2 ^ 62"
  shows "fp_inv pool" "fp_regions pool = (\<lambda>_. None)" "data + struct_size \<le> fp_data pool" "fp_item_size pool = item_size"
    "fp_tail pool \<le> data + n + 1" "fp_tail pool = data + n + 1 \<Longrightarrow> (data + n) mod 8 = 7"
proof -
  define diff where "diff = xu_align data 8 - data"
  define hs where "hs = (if small then data_head else 0)"
  define space where "space = xu_align (hs + item_size) 8"
  define used where "used = xu_align (data + diff + struct_size) 8"
  define maxn where "maxn = ((data + diff + (n - diff) - used) * 8 - 7) div (1 + space * 8)"
  define info where "info = xu_align maxn 64 div 8"
  define base where "base = xu_align (used + info) 8"
  have c: "0 < data" "0 < item_size" "n > diff + struct_size" "data + diff + (n - diff) > used" "maxn \<noteq> 0" "data + diff + (n - diff) > base"
      "maxn * space \<le> data + diff + (n - diff) - base + 1"
    and pool: "pool = \<lparr>fp_data = base, fp_tail = base + maxn * space, fp_used = replicate info 0,
      fp_info_size = info, fp_pred = 1, fp_item_size = item_size, fp_item_space = space,
      fp_item_count = 0, fp_item_maxn = maxn, fp_head_size = hs, fp_small = small, fp_sizes = mem\<rparr>"
    using ini unfolding xu_static_fixed_pool_init_def Let_def diff_def [symmetric] hs_def [symmetric] space_def [symmetric] used_def [symmetric]
      maxn_def [symmetric] info_def [symmetric] base_def [symmetric]
    by (simp_all split: if_splits)
  have dn: "data + diff + (n - diff) = data + n" using c(3) by simp
  have space: "hs + item_size \<le> space" "8 dvd space"
    unfolding space_def using align_bounds [of "hs + item_size"] bounds by (auto simp: hs_def)
  have used: "data + diff + struct_size \<le> used"
    unfolding used_def using align_bounds [of "data + diff + struct_size"] bounds(1) c(3) by auto
  have "maxn \<le> (data + n - used) * 8 div (1 + space * 8)" unfolding maxn_def dn by (rule div_le_mono) simp
  also have "\<dots> \<le> (data + n - used) * 8 div 8" using space(1) c(2) by (intro div_le_mono2) simp_all
  finally have maxn: "maxn \<le> data + n" by simp
  then have al: "xu_align maxn 64 = (maxn + 63) div 64 * 64" using xu_align_value [of maxn 6] bounds(1) by simp
  then have info: "info = (maxn + 63) div 64 * 8" by (simp add: info_def)
  have "maxn \<le> (maxn + 63) div 64 * 64" "1 \<le> (maxn + 63) div 64" using c(5) by presburger+
  then have im: "maxn \<le> 8 * info" "8 dvd info" "8 \<le> info" unfolding info by simp_all
  have "info * 8 \<le> maxn + 63" using div_times_less_eq_dividend [of "maxn + 63" 64] by (simp add: info)
  then have base: "used + info \<le> base" "8 dvd base"
    unfolding base_def using align_bounds [of "used + info"] bounds(1) c(4) maxn dn by auto
  have tail: "base + maxn * space \<le> data + n + 1" using c(6,7) dn by simp
  have none: "\<not> xu_static_fixed_pool_used_bset (replicate info 0) i" if "i < 8 * info" for i using used_none that by blast
  have use: "fp_in_use pool = {}" using none im(1) by (auto simp: fp_in_use_def pool)
  show inv: "fp_inv pool"
    using c(1,2,5) space(1) im none use base(1) used by (auto simp: fp_inv_def pool)
  show "fp_regions pool = (\<lambda>_. None)" by (simp add: fp_regions_image [OF inv] use)
  show "data + struct_size \<le> fp_data pool" "fp_item_size pool = item_size" "fp_tail pool \<le> data + n + 1"
    using used base(1) tail by (simp_all add: pool)
  show "(data + n) mod 8 = 7" if "fp_tail pool = data + n + 1"
  proof -
    have "8 dvd base + maxn * space" using base(2) space(2) by (intro dvd_add dvd_mult)
    then have "8 dvd data + n + 1" using that by (simp add: pool)
    then show ?thesis by presburger
  qed
qed


section \<open>Properties\<close>

text \<open>A block of 111 bytes at 1024 with one item of 8 bytes, and one of 2000 bytes with the heads of the small allocator.\<close>

definition example_pool :: fixed_pool where
  "example_pool = the (xu_static_fixed_pool_init 96 8 (\<lambda>_. 0) 1024 2000 24 True)"

lemma example_pool_init: "xu_static_fixed_pool_init 96 8 (\<lambda>_. 0) 1024 2000 24 True = Some example_pool"
  by (simp add: example_pool_def xu_static_fixed_pool_init_def align_eight xu_align_value [of _ 6, simplified] Let_def)

lemma example_pool_inv: "fp_inv example_pool" "fp_regions example_pool = (\<lambda>_. None)"
  using xu_static_fixed_pool_init_correct [OF example_pool_init] by simp_all

text \<open>C37. The data that a pool gives out is a map from addresses to the size of the items. An allocation succeeds exactly if
  the pool is not full, whatever the cached place, and adds one new address; a release removes its address, and any order of
  releases after allocations restores the map; clearing empties it; the size of the pool is the number of addresses, no two
  items overlap, and a walk visits every item that is given out once, in the order of the addresses.\<close>

theorem xu_static_fixed_pool_refines_regions:
  assumes "fp_inv pool"
  shows "(\<exists>pool' p. xu_static_fixed_pool_malloc pool = (pool', p) \<and> fp_inv pool' \<and> (p \<noteq> 0 \<longleftrightarrow> \<not> xu_static_fixed_pool_full pool)
      \<and> (if p = 0 then pool' = pool else fp_regions pool p = None \<and> fp_regions pool' = (fp_regions pool)(p \<mapsto> fp_item_size pool)))
    \<and> (\<forall>p m. fp_regions pool p = Some m \<longrightarrow> (\<exists>pool'. xu_static_fixed_pool_free pool p = Some (pool', True) \<and> fp_inv pool'
      \<and> fp_regions pool' = (fp_regions pool)(p := None)))
    \<and> fp_inv (xu_static_fixed_pool_clear pool) \<and> fp_regions (xu_static_fixed_pool_clear pool) = (\<lambda>_. None)
    \<and> xu_static_fixed_pool_size pool = card (dom (fp_regions pool)) \<and> xu_static_fixed_pool_size pool \<le> xu_static_fixed_pool_maxn pool
    \<and> (\<forall>p m q k. fp_regions pool p = Some m \<longrightarrow> fp_regions pool q = Some k \<longrightarrow> p \<noteq> q \<longrightarrow> p + m \<le> q \<or> q + k \<le> p)
    \<and> set (xu_static_fixed_pool_walk pool) = dom (fp_regions pool) \<and> sorted_wrt (<) (xu_static_fixed_pool_walk pool)
    \<and> (\<forall>ns pool1 ps qs. (\<forall>n\<in>set ns. n \<le> fp_item_size pool) \<longrightarrow>
        alloc_all (\<lambda>pool n. Some (xu_static_fixed_pool_malloc pool)) pool ns = Some (pool1, ps) \<longrightarrow>
        mset qs = mset (filter (\<lambda>p. p \<noteq> 0) ps) \<longrightarrow>
        (\<exists>pool2. release_all (\<lambda>pool p. the (xu_static_fixed_pool_free pool p)) pool1 qs = (pool2, True) \<and> fp_regions pool2 = fp_regions pool))"
proof -
  let ?items = "filter (xu_static_fixed_pool_used_bset (fp_used pool)) [0..<fp_item_maxn pool]"
  have dom: "dom (fp_regions pool) = fp_address pool ` fp_in_use pool"
    unfolding fp_regions_image [OF assms] by (auto split: if_splits)
  have walk: "xu_static_fixed_pool_walk pool = map (fp_address pool) ?items"
    using walk_items_correct [OF assms, of 0 "fp_used pool ! 0"] assms by (simp add: xu_static_fixed_pool_walk_def fp_inv_def)
  have "set ?items = fp_in_use pool" by (auto simp: fp_in_use_def)
  then have set: "set (xu_static_fixed_pool_walk pool) = dom (fp_regions pool)" by (simp only: walk dom set_map)
  have "sorted_wrt (<) ?items" by (intro sorted_wrt_filter) simp
  then have sorted: "sorted_wrt (<) (xu_static_fixed_pool_walk pool)"
    unfolding walk sorted_wrt_map by (rule sorted_wrt_mono_rel [rotated]) (use assms in \<open>simp add: fp_address_def fp_inv_def\<close>)
  have "inj_on (fp_address pool) (fp_in_use pool)" using fp_address_inj [OF assms] by (simp add: inj_on_def)
  then have size: "xu_static_fixed_pool_size pool = card (dom (fp_regions pool))"
    using assms by (simp add: xu_static_fixed_pool_size_def dom card_image fp_inv_def)
  have "card (fp_in_use pool) \<le> card {..<fp_item_maxn pool}" by (rule card_mono) (auto simp: fp_in_use_def)
  then have le: "fp_item_count pool \<le> fp_item_maxn pool" using assms by (simp add: fp_inv_def)
  have full: "xu_static_fixed_pool_full pool \<longleftrightarrow> \<not> fp_item_count pool < fp_item_maxn pool"
    using le by (auto simp: xu_static_fixed_pool_full_def)
  have malloc: "\<exists>pool' p. xu_static_fixed_pool_malloc pool = (pool', p) \<and> fp_inv pool' \<and> (p \<noteq> 0 \<longleftrightarrow> \<not> xu_static_fixed_pool_full pool)
      \<and> (if p = 0 then pool' = pool else fp_regions pool p = None \<and> fp_regions pool' = (fp_regions pool)(p \<mapsto> fp_item_size pool))"
  proof -
    obtain pool' p where "xu_static_fixed_pool_malloc pool = (pool', p)" "fp_inv pool'" "p \<noteq> 0 \<longleftrightarrow> fp_item_count pool < fp_item_maxn pool"
      "if p = 0 then pool' = pool else fp_regions pool p = None \<and> fp_regions pool' = (fp_regions pool)(p \<mapsto> fp_item_size pool)
         \<and> fp_item_count pool' = fp_item_count pool + 1 \<and> fp_item_maxn pool' = fp_item_maxn pool \<and> fp_item_size pool' = fp_item_size pool"
      using fixed_malloc [OF assms] by blast
    then show ?thesis by (intro exI [of _ pool'] exI [of _ p]) (cases "p = 0"; simp add: full)
  qed
  have free: "\<exists>pool'. xu_static_fixed_pool_free pool p = Some (pool', True) \<and> fp_inv pool' \<and> fp_regions pool' = (fp_regions pool)(p := None)"
    if "fp_regions pool p = Some m" for p m using fixed_free [OF assms that] by blast
  have leak: "\<exists>pool2. release_all (\<lambda>pool p. the (xu_static_fixed_pool_free pool p)) pool1 qs = (pool2, True) \<and> fp_regions pool2 = fp_regions pool"
    if "\<forall>n\<in>set ns. n \<le> fp_item_size pool" "alloc_all (\<lambda>pool n. Some (xu_static_fixed_pool_malloc pool)) pool ns = Some (pool1, ps)"
      "mset qs = mset (filter (\<lambda>p. p \<noteq> 0) ps)" for ns pool1 ps qs
    using fixed.alloc_release_all [OF _ that] assms by auto
  show ?thesis
  proof (intro conjI allI impI)
    fix p m q k
    assume "fp_regions pool p = Some m" "fp_regions pool q = Some k" "p \<noteq> q"
    then show "p + m \<le> q \<or> q + k \<le> p" by (rule fp_regions_disjoint [OF assms])
  qed (use malloc fixed_clear [OF assms] size le set sorted in \<open>simp_all only: free leak xu_static_fixed_pool_size_def xu_static_fixed_pool_maxn_def\<close>)
qed

lemma xu_static_fixed_pool_refines_regions_witness:
  "\<exists>pool p. xu_static_fixed_pool_malloc example_pool = (pool, p) \<and> fp_inv pool"
  using xu_static_fixed_pool_refines_regions [OF example_pool_inv(1), THEN conjunct1] by blast

text \<open>C38. A pool that is set up in a block is empty and sound and its items lie behind its structure and, unless the end of the
  block is one below a multiple of eight, inside the block: then the last item may have its last byte behind the block, since
  the check of the code allows one byte too many.\<close>

theorem xu_static_fixed_pool_init_bounds:
  assumes "xu_static_fixed_pool_init struct_size data_head mem data n item_size small = Some pool"
    and "data + n < 2 ^ 63" and "item_size < 2 ^ 62" and "data_head < 2 ^ 62"
  shows "fp_inv pool \<and> fp_regions pool = (\<lambda>_. None) \<and> data + struct_size \<le> fp_data pool
    \<and> (\<forall>i<fp_item_maxn pool. fp_data pool \<le> fp_address pool i \<and> fp_address pool i + fp_item_size pool \<le> fp_tail pool)
    \<and> (if (data + n) mod 8 = 7 then fp_tail pool \<le> data + n + 1 else fp_tail pool \<le> data + n)"
proof -
  note ini = xu_static_fixed_pool_init_correct [OF assms]
  have "fp_data pool \<le> fp_address pool i" for i by (simp add: fp_address_def)
  then show ?thesis using ini fp_region_bounds(2) [OF ini(1)] by (auto simp: le_Suc_eq)
qed

lemma xu_static_fixed_pool_init_bounds_witness:
  "\<exists>pool. xu_static_fixed_pool_init 96 8 (\<lambda>_. 0) 1024 111 8 False = Some pool \<and> fp_inv pool \<and> fp_tail pool = 1024 + 111 + 1"
proof -
  have ini: "xu_static_fixed_pool_init 96 8 (\<lambda>_. 0) 1024 111 8 False = Some \<lparr>fp_data = 1128, fp_tail = 1136, fp_used = replicate 8 0, fp_info_size = 8,
      fp_pred = 1, fp_item_size = 8, fp_item_space = 8, fp_item_count = 0, fp_item_maxn = 1, fp_head_size = 0, fp_small = False, fp_sizes = \<lambda>_. 0\<rparr>"
    by (simp add: xu_static_fixed_pool_init_def align_eight xu_align_value [of _ 6, simplified] Let_def)
  show ?thesis using xu_static_fixed_pool_init_bounds [OF ini] ini by simp
qed

end
