(* ===== verification/XCodec.thy ===== *)
theory XCodec
  imports XCString
begin

text \<open>
  \<^verbatim>\<open>xutil/utils/base64.c\<close>, \<^verbatim>\<open>base32.c\<close> and \<^verbatim>\<open>url.c\<close>: the codecs of bytes into text. The base codecs append to
  their output, whose size they check before; the result is what is written and the count that is returned. The
  codecs of URLs write through a pointer into memory, where an access outside is none; their input lies outside
  of that memory. The decoder of base 64 collects the bits in a signed integer, of which only the low bits are
  used; here it wraps around.
\<close>

unbundle bit_operations_syntax

section \<open>Base 64\<close>

definition base64_table :: "u8 list" where
  "base64_table = map of_nat ([65..<91] @ [97..<123] @ [48..<58] @ [43, 47])"

text \<open>The characters for the bits at hand; \<open>left\<close> is the number of bytes behind them.\<close>

function base64_emit :: "u32 \<Rightarrow> nat \<Rightarrow> int \<Rightarrow> u8 list \<Rightarrow> int \<times> u8 list" where
  "base64_emit bits left shift op =
     (let op = op @ [base64_table ! unat (drop_bit (nat shift) (push_bit 6 bits) AND 0x3f)]; shift = shift - 6
      in if shift > 6 \<or> left = 0 \<and> shift > 0 then base64_emit bits left shift op else (shift, op))"
  by pat_completeness auto
termination by (relation "measure (\<lambda>(bits, left, shift, op). nat shift)") auto

fun base64_loop :: "u8 list \<Rightarrow> u32 \<Rightarrow> int \<Rightarrow> u8 list \<Rightarrow> u8 list" where
  "base64_loop [] bits shift op = op"
| "base64_loop (b # ib) bits shift op =
     (let bits = push_bit 8 bits + ucast b; (shift, op) = base64_emit bits (length ib) (shift + 8) op
      in base64_loop ib bits shift op)"

function base64_tail :: "u8 list \<Rightarrow> u8 list" where
  "base64_tail op = (if length op mod 4 \<noteq> 0 then base64_tail (op @ [61]) else op)"
  by pat_completeness auto
termination by (relation "measure (\<lambda>op. (4 - length op mod 4) mod 4)") (auto simp: mod_Suc)

declare base64_emit.simps [simp del] base64_tail.simps [simp del]

definition XU_BASE64_OUTPUT_MIN :: "nat \<Rightarrow> nat" where
  "XU_BASE64_OUTPUT_MIN n = (n + 2) div 3 * 4 + 1"

definition xu_base64_encode :: "u8 list \<Rightarrow> nat \<Rightarrow> u8 list \<times> nat" where
  "xu_base64_encode ib on =
     (if length ib \<ge> 0xffffffff div 4 \<or> on < XU_BASE64_OUTPUT_MIN (length ib) then ([], 0)
      else let op = base64_tail (base64_loop ib 0 0 []) in (op @ [0], length op))"

definition base64_values :: "u8 list" where
  "base64_values = [0x3e, 0xff, 0xff, 0xff, 0x3f, 0x34, 0x35, 0x36, 0x37, 0x38, 0x39, 0x3a, 0x3b, 0x3c,
     0x3d, 0xff, 0xff, 0xff, 0xff, 0xff, 0xff, 0xff, 0x00, 0x01, 0x02, 0x03, 0x04, 0x05,
     0x06, 0x07, 0x08, 0x09, 0x0a, 0x0b, 0x0c, 0x0d, 0x0e, 0x0f, 0x10, 0x11, 0x12, 0x13,
     0x14, 0x15, 0x16, 0x17, 0x18, 0x19, 0xff, 0xff, 0xff, 0xff, 0xff, 0xff, 0x1a, 0x1b,
     0x1c, 0x1d, 0x1e, 0x1f, 0x20, 0x21, 0x22, 0x23, 0x24, 0x25, 0x26, 0x27, 0x28, 0x29,
     0x2a, 0x2b, 0x2c, 0x2d, 0x2e, 0x2f, 0x30, 0x31, 0x32, 0x33]"

text \<open>A character that is none of the table ends the loop with what is written so far and a count of zero.\<close>

function base64_decode_loop :: "u8 list \<Rightarrow> nat \<Rightarrow> u32 \<Rightarrow> u8 list \<Rightarrow> nat \<Rightarrow> u8 list \<times> nat" where
  "base64_decode_loop ib i v op on =
     (if i < length ib \<and> ib ! i \<noteq> 0 \<and> ib ! i \<noteq> 61 then
        let idx = unat (word_of_int (sint (ib ! i) - 43) :: u32) in
        if idx \<ge> length base64_values \<or> base64_values ! idx = 0xff then (op, 0)
        else let v = push_bit 6 v + ucast (base64_values ! idx);
                 op = (if i mod 4 \<noteq> 0 \<and> length op < on then op @ [ucast (drop_bit (6 - 2 * (i mod 4)) v)] else op)
             in base64_decode_loop ib (i + 1) v op on
      else (op, length op))"
  by pat_completeness auto
termination by (relation "measure (\<lambda>(ib, i, v, op, on). length ib - i)") auto

declare base64_decode_loop.simps [simp del]

definition xu_base64_decode :: "u8 list \<Rightarrow> nat \<Rightarrow> u8 list \<times> nat" where
  "xu_base64_decode ib on = base64_decode_loop ib 0 0 [] on"

section \<open>Base 32\<close>

definition base32_table :: "u8 list" where
  "base32_table = map of_nat ([65..<91] @ [50..<56])"

definition XU_BASE32_OUTPUT_MIN :: "nat \<Rightarrow> nat" where
  "XU_BASE32_OUTPUT_MIN n = n * 8 div 5 + (if n mod 5 \<noteq> 0 then 1 else 0) + 1"

function base32_loop :: "u8 list \<Rightarrow> nat \<Rightarrow> nat \<Rightarrow> u8 list \<Rightarrow> u8 list" where
  "base32_loop ib i idx pb =
     (if i < length ib then
        if idx > 3 then
          let w = ib ! i AND drop_bit idx 0xff; idx = (idx + 5) mod 8; w = push_bit idx w;
              w = (if i < length ib - 1 then w OR drop_bit (8 - idx) (ib ! (i + 1)) else w)
          in base32_loop ib (i + 1) idx (pb @ [base32_table ! unat w])
        else
          let w = drop_bit (8 - (idx + 5)) (ib ! i) AND 0x1f; idx = (idx + 5) mod 8
          in base32_loop ib (if idx = 0 then i + 1 else i) idx (pb @ [base32_table ! unat w])
      else pb)"
  by pat_completeness auto
termination
  by (relation "measures [\<lambda>(ib, i, idx, pb). length ib - i, \<lambda>(ib, i, idx, pb). 8 - idx]") (auto, presburger+)

declare base32_loop.simps [simp del]

definition xu_base32_encode :: "u8 list \<Rightarrow> nat \<Rightarrow> u8 list \<times> nat" where
  "xu_base32_encode ib on =
     (if length ib \<ge> 0xffffffff div 4 \<or> on < XU_BASE32_OUTPUT_MIN (length ib) then ([], 0)
      else let pb = base32_loop ib 0 0 [] in (pb @ [0], length pb))"

text \<open>The second column of the table; the first are the characters from 0 to Z.\<close>

definition base32_values :: "u8 list" where
  "base32_values = [0xff, 0xff, 0x1a, 0x1b, 0x1c, 0x1d, 0x1e, 0x1f, 0xff, 0xff, 0xff, 0xff, 0xff, 0xff, 0xff, 0xff,
     0xff, 0x00, 0x01, 0x02, 0x03, 0x04, 0x05, 0x06, 0x07, 0x08, 0x09, 0x0a, 0x0b, 0x0c, 0x0d, 0x0e,
     0x0f, 0x10, 0x11, 0x12, 0x13, 0x14, 0x15, 0x16, 0x17, 0x18, 0x19]"

definition base32_lookup :: "u8 \<Rightarrow> u8" where
  "base32_lookup c =
     (let lookup = xu_toupper (uint c) - 48 in if lookup < 0 \<or> lookup \<ge> 43 then 0xff else base32_values ! nat lookup)"

definition or_byte :: "u8 list \<Rightarrow> nat \<Rightarrow> u8 \<Rightarrow> u8 list" where
  "or_byte ob p w = ob[p := ob ! p OR w]"

fun base32_decode_loop :: "u8 list \<Rightarrow> nat \<Rightarrow> u8 list \<Rightarrow> nat \<Rightarrow> u8 list \<times> nat" where
  "base32_decode_loop [] idx ob op = (ob, op)"
| "base32_decode_loop (c # ib) idx ob op =
     (let w = base32_lookup c in
      if w = 0xff then base32_decode_loop ib idx ob op
      else if idx \<le> 3 then
        let idx = (idx + 5) mod 8 in
        if idx = 0 then base32_decode_loop ib idx (or_byte ob op w) (op + 1)
        else base32_decode_loop ib idx (or_byte ob op (push_bit (8 - idx) w)) op
      else
        let idx = (idx + 5) mod 8; ob = or_byte ob op (drop_bit idx w)
        in base32_decode_loop ib idx (or_byte ob (op + 1) (push_bit (8 - idx) w)) (op + 1))"

definition xu_base32_decode :: "u8 list \<Rightarrow> nat \<Rightarrow> u8 list \<times> nat" where
  "xu_base32_decode ib on = (if \<not> on > length ib * 5 div 8 then ([], 0) else base32_decode_loop ib 0 (replicate on 0) 0)"

section \<open>URLs\<close>

definition url_digits :: "u8 list" where
  "url_digits = map of_nat ([48..<58] @ [65..<71])"

definition url_escape :: "u8 \<Rightarrow> bool" where
  "url_escape c \<longleftrightarrow> c < 48 \<and> c \<noteq> 45 \<and> c \<noteq> 46 \<or> c < 65 \<and> c > 57 \<or> c > 90 \<and> c < 97 \<and> c \<noteq> 95 \<or> c > 122"

definition url_escape2 :: "u8 \<Rightarrow> bool" where
  "url_escape2 c \<longleftrightarrow> c < 48 \<and> c \<notin> set [45, 46, 38, 33, 35, 36, 39, 40, 41, 43, 44, 42, 47]
     \<or> c < 65 \<and> c > 57 \<and> c \<notin> set [64, 63, 61, 59, 58] \<or> c > 90 \<and> c < 97 \<and> c \<noteq> 95 \<or> c > 122 \<and> c \<noteq> 126"

definition url_escape_args :: "u8 \<Rightarrow> bool" where
  "url_escape_args c \<longleftrightarrow> c < 48 \<and> c \<notin> set [45, 46, 33, 40, 41, 42, 39]
     \<or> c < 65 \<and> c > 57 \<or> c > 90 \<and> c < 97 \<and> c \<noteq> 95 \<or> c > 122 \<and> c \<noteq> 126"

text \<open>The loop of the encoders, with their tests; only the first one has a character for the space. The result is the
  memory and the end of the text.\<close>

fun url_encode_loop :: "(u8 \<Rightarrow> bool) \<Rightarrow> bool \<Rightarrow> u8 list \<Rightarrow> u8 list \<Rightarrow> nat \<Rightarrow> nat \<Rightarrow> (u8 list \<times> nat) option" where
  "url_encode_loop esc space [] m op oe = Some (m, op)"
| "url_encode_loop esc space (c # ib) m op oe =
     (if op < oe then
        if space \<and> c = 32 then do { m \<leftarrow> poke m op 43; url_encode_loop esc space ib m (op + 1) oe }
        else if esc c then do {
          m \<leftarrow> poke m op 37;
          m \<leftarrow> poke m (op + 1) (url_digits ! unat (drop_bit 4 c));
          m \<leftarrow> poke m (op + 2) (url_digits ! unat (c AND 15));
          url_encode_loop esc space ib m (op + 3) oe }
        else do { m \<leftarrow> poke m op c; url_encode_loop esc space ib m (op + 1) oe }
      else Some (m, op))"

definition url_end :: "nat \<Rightarrow> u8 list \<times> nat \<Rightarrow> (u8 list \<times> nat) option" where
  "url_end ob r = (case r of (m, op) \<Rightarrow> do { m \<leftarrow> poke m op 0; Some (m, op - ob) })"

definition xu_url_encode :: "u8 list \<Rightarrow> u8 list \<Rightarrow> nat \<Rightarrow> nat \<Rightarrow> (u8 list \<times> nat) option" where
  "xu_url_encode ib m ob on = do { r \<leftarrow> url_encode_loop url_escape True ib m ob (ob + on); url_end ob r }"

definition xu_url_encode2 :: "u8 list \<Rightarrow> u8 list \<Rightarrow> nat \<Rightarrow> nat \<Rightarrow> (u8 list \<times> nat) option" where
  "xu_url_encode2 ib m ob on = do { r \<leftarrow> url_encode_loop url_escape2 False ib m ob (ob + on); url_end ob r }"

definition xu_url_encode_args :: "u8 list \<Rightarrow> u8 list \<Rightarrow> nat \<Rightarrow> nat \<Rightarrow> (u8 list \<times> nat) option" where
  "xu_url_encode_args ib m ob on = do { r \<leftarrow> url_encode_loop url_escape_args False ib m ob (ob + on); url_end ob r }"

text \<open>The two digits are read by the conversion of numbers in base 16, from a text of their own.\<close>

function url_decode_loop :: "bool \<Rightarrow> u8 list \<Rightarrow> nat \<Rightarrow> u8 list \<Rightarrow> nat \<Rightarrow> nat \<Rightarrow> (u8 list \<times> nat) option" where
  "url_decode_loop space ib ip m op oe =
     (if ip < length ib \<and> op < oe then
        if space \<and> ib ! ip = 43 then do { m \<leftarrow> poke m op 32; url_decode_loop space ib (ip + 1) m (op + 1) oe }
        else if ib ! ip = 37 \<and> ip + 2 < length ib \<and> xu_isdigit16 (sint (ib ! (ip + 1))) \<and> xu_isdigit16 (sint (ib ! (ip + 2))) then do {
          v \<leftarrow> xu_s16tou64 [ib ! (ip + 1), ib ! (ip + 2), 0] 0;
          m \<leftarrow> poke m op (ucast v);
          url_decode_loop space ib (ip + 3) m (op + 1) oe }
        else do { m \<leftarrow> poke m op (ib ! ip); url_decode_loop space ib (ip + 1) m (op + 1) oe }
      else Some (m, op))"
  by pat_completeness auto
termination by (relation "measure (\<lambda>(space, ib, ip, m, op, oe). length ib - ip)") auto

declare url_decode_loop.simps [simp del]

definition xu_url_decode :: "u8 list \<Rightarrow> u8 list \<Rightarrow> nat \<Rightarrow> nat \<Rightarrow> (u8 list \<times> nat) option" where
  "xu_url_decode ib m ob on = do { r \<leftarrow> url_decode_loop True ib 0 m ob (ob + on); url_end ob r }"

definition xu_url_decode2 :: "u8 list \<Rightarrow> u8 list \<Rightarrow> nat \<Rightarrow> nat \<Rightarrow> (u8 list \<times> nat) option" where
  "xu_url_decode2 ib m ob on = do { r \<leftarrow> url_decode_loop False ib 0 m ob (ob + on); url_end ob r }"

definition xu_url_decode_args :: "u8 list \<Rightarrow> u8 list \<Rightarrow> nat \<Rightarrow> nat \<Rightarrow> (u8 list \<times> nat) option" where
  "xu_url_decode_args ib m ob on = xu_url_decode2 ib m ob on"

end
