(* ===== verification/XCodecCorrect.thy ===== *)
theory XCodecCorrect
  imports XCodec XCStringCorrect
begin

text \<open>
  The encoders write the text that the definitions of the codecs over groups of bytes give, and the decoders
  bring back the bytes.
\<close>

unbundle bit_operations_syntax

section \<open>Base 64\<close>

text \<open>The sextets of groups of three bytes.\<close>

fun sextets :: "u8 list \<Rightarrow> u8 list" where
  "sextets [] = []"
| "sextets [a] = [drop_bit 2 a, push_bit 4 (a AND 3)]"
| "sextets [a, b] = [drop_bit 2 a, push_bit 4 (a AND 3) OR drop_bit 4 b, push_bit 2 (b AND 15)]"
| "sextets (a # b # c # ib) =
     [drop_bit 2 a, push_bit 4 (a AND 3) OR drop_bit 4 b, push_bit 2 (b AND 15) OR drop_bit 6 c, c AND 63] @ sextets ib"

abbreviation char64 :: "u8 \<Rightarrow> u8" where "char64 s \<equiv> base64_table ! unat s"

definition char64_bits :: "u32 \<Rightarrow> nat \<Rightarrow> u8" where
  "char64_bits bits shift = base64_table ! unat (drop_bit shift (push_bit 6 bits) AND 0x3f)"

lemma below_eight: "n < 8 \<longleftrightarrow> n = 0 \<or> n = 1 \<or> n = 2 \<or> n = 3 \<or> n = 4 \<or> n = 5 \<or> n = 6 \<or> n = (7 :: nat)"
  by auto

lemma byte_eqI:
  fixes a b :: u8
  assumes "bit a 0 = bit b 0" "bit a 1 = bit b 1" "bit a 2 = bit b 2" "bit a 3 = bit b 3" "bit a 4 = bit b 4"
    "bit a 5 = bit b 5" "bit a 6 = bit b 6" "bit a 7 = bit b 7"
  shows "a = b"
  by (rule bit_word_eqI) (use assms in \<open>auto simp: below_eight\<close>)

lemma add_byte: "push_bit 8 x + ucast (a :: u8) = (push_bit 8 x OR ucast a :: u32)"
  by (rule disjunctive_add_eq_or) (auto simp: bit_eq_iff bit_simps dest: bit_imp_le_length)

lemma unat_up: "unat (ucast (f :: u8) :: u32) = unat f"
  by transfer simp

lemma char64_eq:
  assumes "drop_bit n (push_bit 6 bits) AND 0x3f = (ucast f :: u32)"
  shows "char64_bits bits n = char64 f"
  by (simp only: char64_bits_def assms unat_up)

lemma and_63: "(w :: u32) AND 0x3f = take_bit 6 w"
  by (simp add: take_bit_eq_mask mask_eq_exp_minus_1)

lemma and_masks: "(w :: u8) AND 63 = take_bit 6 w" "w AND 15 = take_bit 4 w" "w AND 3 = take_bit 2 w"
  by (simp_all add: take_bit_eq_mask mask_eq_exp_minus_1)

lemma char64_one:
  fixes a :: u8 and x :: u32
  shows "char64_bits (push_bit 8 x + ucast a) 8 = char64 (drop_bit 2 a)"
    "char64_bits (push_bit 8 x + ucast a) 2 = char64 (push_bit 4 (a AND 3))"
    "char64_bits (push_bit 8 x + ucast a) 4 = char64 (push_bit 2 (a AND 15))"
    "char64_bits (push_bit 8 x + ucast a) 6 = char64 (a AND 63)"
    "char64_bits (push_bit 8 x + ucast a) 14 = char64_bits x 6"
proof -
  have "drop_bit 14 (push_bit 6 (push_bit 8 x OR ucast a)) AND 0x3f = drop_bit 6 (push_bit 6 x) AND 0x3f"
    unfolding and_63 by (rule bit_word_eqI) (auto simp: bit_simps dest: bit_imp_le_length)
  then show "char64_bits (push_bit 8 x + ucast a) 14 = char64_bits x 6" by (simp only: char64_bits_def add_byte)
qed (unfold add_byte, (rule char64_eq, unfold and_63 and_masks, rule bit_word_eqI, auto simp: bit_simps dest: bit_imp_le_length)+)

lemma char64_two:
  fixes a b :: u8 and x :: u32
  shows "char64_bits (push_bit 8 (push_bit 8 x + ucast a) + ucast b) 10 = char64 (push_bit 4 (a AND 3) OR drop_bit 4 b)"
    "char64_bits (push_bit 8 (push_bit 8 x + ucast a) + ucast b) 12 = char64 (push_bit 2 (a AND 15) OR drop_bit 6 b)"
  unfolding add_byte by (rule char64_eq, unfold and_63 and_masks, rule bit_word_eqI, auto simp: bit_simps dest: bit_imp_le_length)+

lemma emit_eq:
  "base64_emit bits left 8 op = (if left = 0 then (-4, op @ [char64_bits bits 8, char64_bits bits 2]) else (2, op @ [char64_bits bits 8]))"
  "base64_emit bits left 10 op = (if left = 0 then (-2, op @ [char64_bits bits 10, char64_bits bits 4]) else (4, op @ [char64_bits bits 10]))"
  "base64_emit bits left 12 op = (if left = 0 then (0, op @ [char64_bits bits 12, char64_bits bits 6]) else (6, op @ [char64_bits bits 12]))"
  "base64_emit bits left 14 op = base64_emit bits left 8 (op @ [char64_bits bits 14])"
  by (simp_all add: base64_emit.simps char64_bits_def Let_def del: drop_bit_push_bit)

lemma base64_loop_sextets:
  "base64_loop ib bits 0 op = op @ map char64 (sextets ib)"
  "ib \<noteq> [] \<Longrightarrow> base64_loop ib bits 6 op = op @ char64_bits bits 6 # map char64 (sextets ib)"
proof (induction ib arbitrary: bits op rule: sextets.induct)
  case (4 a b c ib)
  {
    case 1
    show ?case using 4 [where bits = "push_bit 8 (push_bit 8 (push_bit 8 bits + ucast a) + ucast b) + ucast c"]
      by (cases "ib = []") (simp_all add: emit_eq char64_one char64_two)
  next
    case 2
    show ?case using 4 [where bits = "push_bit 8 (push_bit 8 (push_bit 8 bits + ucast a) + ucast b) + ucast c"]
      by (cases "ib = []") (simp_all add: emit_eq char64_one char64_two)
  }
qed (simp_all add: emit_eq char64_one char64_two)


text \<open>The text: the characters of the sextets, made up to a multiple of four.\<close>

definition base64_text :: "u8 list \<Rightarrow> u8 list" where
  "base64_text ib = (let t = map char64 (sextets ib) in t @ replicate ((4 - length t mod 4) mod 4) 61)"

lemma base64_tail_eq: "base64_tail op = op @ replicate ((4 - length op mod 4) mod 4) 61"
proof (induction op rule: base64_tail.induct)
  case (1 op)
  show ?case
  proof (cases "length op mod 4 = 0")
    case False
    then have pad: "Suc ((4 - length (op @ [61 :: u8]) mod 4) mod 4) = (4 - length op mod 4) mod 4"
      by (simp add: mod_Suc) linarith
    have "base64_tail op = base64_tail (op @ [61])" using False by (subst base64_tail.simps) simp
    also have "\<dots> = op @ replicate (Suc ((4 - length (op @ [61 :: u8]) mod 4) mod 4)) 61" using "1.IH" [OF False] by simp
    finally show ?thesis by (simp only: pad)
  qed (simp add: base64_tail.simps)
qed

lemma length_sextets: "length (sextets ib) + (4 - length (sextets ib) mod 4) mod 4 = (length ib + 2) div 3 * 4"
proof (induction ib rule: sextets.induct)
  case (4 a b c ib)
  have "(Suc (Suc (Suc (length ib))) + 2) div 3 = Suc ((length ib + 2) div 3)" by presburger
  then show ?case using 4 by (simp add: mod_simps numeral_eq_Suc [of "num.Bit0 num.One"])
qed simp_all

lemma length_base64_text: "length (base64_text ib) = (length ib + 2) div 3 * 4"
  using length_sextets [of ib] by (simp add: base64_text_def Let_def)

lemma xu_base64_encode_text:
  assumes "length ib < 0x3fffffff" and "XU_BASE64_OUTPUT_MIN (length ib) \<le> on"
  shows "xu_base64_encode ib on = (base64_text ib @ [0], length (base64_text ib))"
  using assms by (simp add: xu_base64_encode_def XU_BASE64_OUTPUT_MIN_def base64_loop_sextets base64_tail_eq base64_text_def Let_def)

text \<open>The tables are inverse to each other.\<close>

definition idx64 :: "u8 \<Rightarrow> nat" where "idx64 c = unat (scast c - 43 :: u32)"

lemma base64_table_list:
  "base64_table = [65, 66, 67, 68, 69, 70, 71, 72, 73, 74, 75, 76, 77, 78, 79, 80, 81, 82, 83, 84, 85, 86, 87, 88, 89, 90,
    97, 98, 99, 100, 101, 102, 103, 104, 105, 106, 107, 108, 109, 110, 111, 112, 113, 114, 115, 116, 117, 118, 119, 120, 121, 122,
    48, 49, 50, 51, 52, 53, 54, 55, 56, 57, 43, 47]"
  by (simp add: base64_table_def upt_rec)

lemma table64_inverse:
  assumes "unat s < 64"
  shows "idx64 (char64 s) < length base64_values" "base64_values ! idx64 (char64 s) = s" "char64 s \<noteq> 0" "char64 s \<noteq> 61"
proof -
  have len: "length base64_table = 64" by (simp add: base64_table_list)
  then have c: "char64 s \<in> set base64_table" using assms nth_mem [of "unat s" base64_table] by simp
  have "list_all (\<lambda>c. idx64 c < length base64_values \<and> c \<noteq> 0 \<and> c \<noteq> 61) base64_table"
    unfolding base64_table_list by (simp add: idx64_def base64_values_def)
  then show "idx64 (char64 s) < length base64_values" "char64 s \<noteq> 0" "char64 s \<noteq> 61"
    using c by (simp_all add: list_all_iff)
  have "map (\<lambda>c. base64_values ! idx64 c) base64_table = map of_nat [0..<64]"
    unfolding base64_table_list by (simp add: idx64_def base64_values_def upt_rec)
  then have "map (\<lambda>c. base64_values ! idx64 c) base64_table ! unat s = map of_nat [0..<64] ! unat s" by simp
  then show "base64_values ! idx64 (char64 s) = s" using assms len by simp
qed

text \<open>Decoding.\<close>

lemma small_iff: "unat (s :: u8) < 64 \<longleftrightarrow> (\<forall>n. bit s n \<longrightarrow> n < 6)"
proof
  assume "unat s < 64"
  then have "take_bit 6 (unat s) = unat s" by (simp add: take_bit_nat_eq_self)
  then have "take_bit 6 s = s" by (metis unsigned_take_bit_eq unsigned_word_eqI)
  then show "\<forall>n. bit s n \<longrightarrow> n < 6" by (metis bit_take_bit_iff)
next
  assume s: "\<forall>n. bit s n \<longrightarrow> n < 6"
  have "s = take_bit 6 s" by (rule bit_word_eqI) (use s in \<open>auto simp: bit_simps\<close>)
  then have "unat s = take_bit 6 (unat s)" by (metis unsigned_take_bit_eq)
  then show "unat s < 64" using take_bit_nat_less_exp [of 6 "unat s"] by simp
qed

lemma sextet_small:
  fixes a b c :: u8
  shows "unat (drop_bit 2 a) < 64" "unat (push_bit 4 (a AND 3)) < 64" "unat (push_bit 4 (a AND 3) OR drop_bit 4 b) < 64"
    "unat (push_bit 2 (b AND 15)) < 64" "unat (push_bit 2 (b AND 15) OR drop_bit 6 c) < 64" "unat (c AND 63) < 64"
  by (simp_all only: small_iff and_masks) (auto simp: bit_simps dest!: bit_imp_le_length)

lemma add_sextet: "unat (s :: u8) < 64 \<Longrightarrow> push_bit 6 x + ucast s = (push_bit 6 x OR ucast s :: u32)"
  by (rule disjunctive_add_eq_or) (auto simp: small_iff bit_eq_iff bit_simps)

lemma decode_step:
  assumes "i < length ib" and "ib ! i = char64 s" and "unat s < 64"
  shows "base64_decode_loop ib i v op on = base64_decode_loop ib (i + 1) (push_bit 6 v OR ucast s)
    (if i mod 4 \<noteq> 0 \<and> length op < on then op @ [ucast (drop_bit (6 - 2 * (i mod 4)) (push_bit 6 v OR ucast s))] else op) on"
proof -
  have "base64_values ! idx64 (char64 s) \<noteq> 0xff" using table64_inverse(2) [OF assms(3)] assms(3) by auto
  then show ?thesis
    using assms(1) table64_inverse [OF assms(3)]
    by (subst base64_decode_loop.simps)
      (simp add: assms(2) idx64_def [symmetric] add_sextet [OF assms(3), symmetric] Let_def)
qed

lemma decode_stop:
  assumes "i < length ib \<Longrightarrow> ib ! i \<in> {0, 61}"
  shows "base64_decode_loop ib i v op on = (op, length op)"
  using assms by (subst base64_decode_loop.simps) auto

lemma over_byte: "8 \<le> n \<Longrightarrow> \<not> bit (b :: u8) n"
  by (auto dest: bit_imp_le_length)

lemma decode_bytes:
  fixes a b c :: u8 and x :: u32
  shows "ucast (drop_bit 4 (push_bit 6 (push_bit 6 x OR ucast (drop_bit 2 a)) OR ucast (push_bit 4 (a AND 3) OR drop_bit 4 b))) = a"
    "ucast (drop_bit 4 (push_bit 6 (push_bit 6 x OR ucast (drop_bit 2 a)) OR ucast (push_bit 4 (a AND 3)))) = a"
    "ucast (drop_bit 2 (push_bit 6 (push_bit 6 x OR ucast (push_bit 4 (a AND 3) OR drop_bit 4 b)) OR ucast (push_bit 2 (b AND 15) OR drop_bit 6 c))) = b"
    "ucast (drop_bit 2 (push_bit 6 (push_bit 6 x OR ucast (push_bit 4 (a AND 3) OR drop_bit 4 b)) OR ucast (push_bit 2 (b AND 15)))) = b"
    "ucast (push_bit 6 (push_bit 6 x OR ucast (push_bit 2 (b AND 15) OR drop_bit 6 c)) OR ucast (c AND 63)) = c"
  unfolding and_masks by (rule byte_eqI; simp add: bit_simps over_byte del: push_bit_and push_bit_or drop_bit_and drop_bit_or)+

lemma decode_sextets:
  assumes "length pre mod 4 = 0" and "length op + length ib \<le> on" and "rest \<noteq> [] \<Longrightarrow> hd rest \<in> {0, 61}"
  shows "base64_decode_loop (pre @ map char64 (sextets ib) @ rest) (length pre) v op on = (op @ ib, length (op @ ib))"
  using assms
proof (induction ib arbitrary: pre op v rule: sextets.induct)
  case 1
  then show ?case by (subst decode_stop) (auto simp: nth_append hd_conv_nth)
next
  case (2 a)
  then show ?case
    apply (simp add: decode_step nth_append sextet_small decode_bytes mod_Suc del: push_bit_and push_bit_or drop_bit_and drop_bit_or)
    apply (subst decode_stop; auto simp: nth_append hd_conv_nth)
    done
next
  case (3 a b)
  then show ?case
    apply (simp add: decode_step nth_append sextet_small decode_bytes mod_Suc del: push_bit_and push_bit_or drop_bit_and drop_bit_or)
    apply (subst decode_stop; auto simp: nth_append hd_conv_nth)
    done
next
  case (4 a b c ib)
  let ?q = "pre @ map char64 (sextets [a, b, c])"
  show ?case using 4(1) [of ?q] 4(2-)
    by (simp add: decode_step nth_append sextet_small decode_bytes mod_Suc del: push_bit_and push_bit_or drop_bit_and drop_bit_or)
qed

lemma base64_decode_text:
  assumes "length ib \<le> n"
  shows "xu_base64_decode (base64_text ib @ [0]) n = (ib, length ib)"
proof -
  have "hd (replicate k 61 @ [0 :: u8]) \<in> {0, 61}" for k
    by (cases k) auto
  then show ?thesis
    using decode_sextets [of "[]" "[]" ib n] assms by (simp add: xu_base64_decode_def base64_text_def Let_def)
qed

section \<open>Base 32\<close>

fun quintets :: "u8 list \<Rightarrow> u8 list" where
  "quintets [] = []"
| "quintets [a] = [drop_bit 3 a AND 31, push_bit 2 (a AND 7)]"
| "quintets [a, b] = [drop_bit 3 a AND 31, push_bit 2 (a AND 7) OR drop_bit 6 b, drop_bit 1 b AND 31, push_bit 4 (b AND 1)]"
| "quintets [a, b, c] =
     [drop_bit 3 a AND 31, push_bit 2 (a AND 7) OR drop_bit 6 b, drop_bit 1 b AND 31, push_bit 4 (b AND 1) OR drop_bit 4 c,
      push_bit 1 (c AND 15)]"
| "quintets [a, b, c, d] =
     [drop_bit 3 a AND 31, push_bit 2 (a AND 7) OR drop_bit 6 b, drop_bit 1 b AND 31, push_bit 4 (b AND 1) OR drop_bit 4 c,
      push_bit 1 (c AND 15) OR drop_bit 7 d, drop_bit 2 d AND 31, push_bit 3 (d AND 3)]"
| "quintets (a # b # c # d # e # ib) =
     [drop_bit 3 a AND 31, push_bit 2 (a AND 7) OR drop_bit 6 b, drop_bit 1 b AND 31, push_bit 4 (b AND 1) OR drop_bit 4 c,
      push_bit 1 (c AND 15) OR drop_bit 7 d, drop_bit 2 d AND 31, push_bit 3 (d AND 3) OR drop_bit 5 e, e AND 31] @ quintets ib"

definition base32_text :: "u8 list \<Rightarrow> u8 list" where
  "base32_text ib = map (\<lambda>s. base32_table ! unat s) (quintets ib)"

abbreviation char32 :: "u8 \<Rightarrow> u8" where "char32 s \<equiv> base32_table ! unat s"

lemma base32_split:
  assumes "i < length ib"
  shows "base32_loop ib i 0 pb = base32_loop ib i 5 (pb @ [char32 (drop_bit 3 (ib ! i) AND 31)])"
    "base32_loop ib i 1 pb = base32_loop ib i 6 (pb @ [char32 (drop_bit 2 (ib ! i) AND 31)])"
    "base32_loop ib i 2 pb = base32_loop ib i 7 (pb @ [char32 (drop_bit 1 (ib ! i) AND 31)])"
    "base32_loop ib i 3 pb = base32_loop ib (i + 1) 0 (pb @ [char32 (ib ! i AND 31)])"
    "base32_loop ib i 4 pb = base32_loop ib (i + 1) 1
       (pb @ [char32 (if i < length ib - 1 then push_bit 1 (ib ! i AND 15) OR drop_bit 7 (ib ! (i + 1)) else push_bit 1 (ib ! i AND 15))])"
    "base32_loop ib i 5 pb = base32_loop ib (i + 1) 2
       (pb @ [char32 (if i < length ib - 1 then push_bit 2 (ib ! i AND 7) OR drop_bit 6 (ib ! (i + 1)) else push_bit 2 (ib ! i AND 7))])"
    "base32_loop ib i 6 pb = base32_loop ib (i + 1) 3
       (pb @ [char32 (if i < length ib - 1 then push_bit 3 (ib ! i AND 3) OR drop_bit 5 (ib ! (i + 1)) else push_bit 3 (ib ! i AND 3))])"
    "base32_loop ib i 7 pb = base32_loop ib (i + 1) 4
       (pb @ [char32 (if i < length ib - 1 then push_bit 4 (ib ! i AND 1) OR drop_bit 4 (ib ! (i + 1)) else push_bit 4 (ib ! i AND 1))])"
  using assms by (subst base32_loop.simps, simp add: Let_def del: push_bit_and)+

lemma base32_end: "base32_loop ib (length ib) idx pb = pb"
  by (simp add: base32_loop.simps)

lemma base32_loop_quintets: "base32_loop (pre @ ib) (length pre) 0 pb = pb @ map char32 (quintets ib)"
proof (induction ib arbitrary: pre pb rule: quintets.induct)
  case 1
  then show ?case using base32_end [of pre] by simp
next
  case (2 a)
  then show ?case using base32_end [of "pre @ [a]"] by (simp add: base32_split base32_split(2) [unfolded One_nat_def] nth_append del: push_bit_and)
next
  case (3 a b)
  then show ?case using base32_end [of "pre @ [a, b]"] by (simp add: base32_split base32_split(2) [unfolded One_nat_def] nth_append del: push_bit_and)
next
  case (4 a b c)
  then show ?case using base32_end [of "pre @ [a, b, c]"] by (simp add: base32_split base32_split(2) [unfolded One_nat_def] nth_append del: push_bit_and)
next
  case (5 a b c d)
  then show ?case using base32_end [of "pre @ [a, b, c, d]"] by (simp add: base32_split base32_split(2) [unfolded One_nat_def] nth_append del: push_bit_and)
next
  case (6 a b c d e ib)
  then show ?case using 6 [of "pre @ [a, b, c, d, e]"] by (simp add: base32_split base32_split(2) [unfolded One_nat_def] nth_append del: push_bit_and)
qed

lemma xu_base32_encode_text:
  assumes "length ib < 0x3fffffff" and "XU_BASE32_OUTPUT_MIN (length ib) \<le> on"
  shows "xu_base32_encode ib on = (base32_text ib @ [0], length (base32_text ib))"
  using assms base32_loop_quintets [of "[]" ib "[]"] by (simp add: xu_base32_encode_def base32_text_def)

lemma length_quintets: "length (quintets ib) = (length ib * 8 + 4) div 5"
proof (induction ib rule: quintets.induct)
  case (6 a b c d e ib)
  have "(length (a # b # c # d # e # ib) * 8 + 4) div 5 = 8 + (length ib * 8 + 4) div 5" by simp
  then show ?case using 6 by simp
qed simp_all

lemma base32_table_list:
  "base32_table = [65, 66, 67, 68, 69, 70, 71, 72, 73, 74, 75, 76, 77, 78, 79, 80, 81, 82, 83, 84, 85, 86, 87, 88, 89, 90,
    50, 51, 52, 53, 54, 55]"
  by (simp add: base32_table_def upt_rec)

lemma lookup_char32:
  assumes "unat s < 32"
  shows "base32_lookup (char32 s) = s" "s \<noteq> 0xff"
proof -
  have len: "length base32_table = 32" by (simp add: base32_table_list)
  have "map base32_lookup base32_table = map of_nat [0..<32]"
    unfolding base32_table_list by (simp add: base32_lookup_def base32_values_def xu_toupper_def xu_islower_def upt_rec)
  then have "map base32_lookup base32_table ! unat s = map of_nat [0..<32] ! unat s" by simp
  then show "base32_lookup (char32 s) = s" using assms len by simp
  show "s \<noteq> 0xff" using assms by auto
qed

lemma small32_iff: "unat (s :: u8) < 32 \<longleftrightarrow> (\<forall>n. bit s n \<longrightarrow> n < 5)"
proof
  assume "unat s < 32"
  then have "take_bit 5 (unat s) = unat s" by (simp add: take_bit_nat_eq_self)
  then have "take_bit 5 s = s" by (metis unsigned_take_bit_eq unsigned_word_eqI)
  then show "\<forall>n. bit s n \<longrightarrow> n < 5" by (metis bit_take_bit_iff)
next
  assume s: "\<forall>n. bit s n \<longrightarrow> n < 5"
  have "s = take_bit 5 s" by (rule bit_word_eqI) (use s in \<open>auto simp: bit_simps\<close>)
  then have "unat s = take_bit 5 (unat s)" by (metis unsigned_take_bit_eq)
  then show "unat s < 32" using take_bit_nat_less_exp [of 5 "unat s"] by simp
qed

lemma and_masks32: "(w :: u8) AND 31 = take_bit 5 w" "w AND 7 = take_bit 3 w" "w AND 1 = take_bit 1 w"
  by (simp_all add: take_bit_eq_mask mask_eq_exp_minus_1)

lemma quintet_small:
  fixes a b c d e :: u8
  shows "unat (w AND 31 :: u8) < 32" "unat (push_bit 2 (a AND 7)) < 32" "unat (push_bit 2 (a AND 7) OR drop_bit 6 b) < 32"
    "unat (push_bit 4 (b AND 1)) < 32" "unat (push_bit 4 (b AND 1) OR drop_bit 4 c) < 32"
    "unat (push_bit 1 (c AND 15)) < 32" "unat (push_bit 1 (c AND 15) OR drop_bit 7 d) < 32"
    "unat (push_bit 3 (d AND 3)) < 32" "unat (push_bit 3 (d AND 3) OR drop_bit 5 e) < 32"
  by (simp_all only: small32_iff and_masks and_masks32) (auto simp: bit_simps simp del: One_nat_def dest: bit_imp_le_length)

lemma quintet_bytes:
  fixes a b c d e :: u8
  shows "push_bit 3 (drop_bit 3 a AND 31) OR drop_bit 2 (push_bit 2 (a AND 7) OR drop_bit 6 b) = a"
    "push_bit 3 (drop_bit 3 a AND 31) OR drop_bit 2 (push_bit 2 (a AND 7)) = a"
    "(push_bit 6 (push_bit 2 (a AND 7) OR drop_bit 6 b) OR push_bit 1 (drop_bit 1 b AND 31)) OR drop_bit 4 (push_bit 4 (b AND 1) OR drop_bit 4 c) = b"
    "(push_bit 6 (push_bit 2 (a AND 7) OR drop_bit 6 b) OR push_bit 1 (drop_bit 1 b AND 31)) OR drop_bit 4 (push_bit 4 (b AND 1)) = b"
    "push_bit 4 (push_bit 4 (b AND 1) OR drop_bit 4 c) OR drop_bit 1 (push_bit 1 (c AND 15) OR drop_bit 7 d) = c"
    "push_bit 4 (push_bit 4 (b AND 1) OR drop_bit 4 c) OR drop_bit 1 (push_bit 1 (c AND 15)) = c"
    "(push_bit 7 (push_bit 1 (c AND 15) OR drop_bit 7 d) OR push_bit 2 (drop_bit 2 d AND 31)) OR drop_bit 3 (push_bit 3 (d AND 3) OR drop_bit 5 e) = d"
    "(push_bit 7 (push_bit 1 (c AND 15) OR drop_bit 7 d) OR push_bit 2 (drop_bit 2 d AND 31)) OR drop_bit 3 (push_bit 3 (d AND 3)) = d"
    "push_bit 5 (push_bit 3 (d AND 3) OR drop_bit 5 e) OR (e AND 31) = e"
    "push_bit 6 (push_bit 2 (a AND 7)) = 0" "push_bit 4 (push_bit 4 (b AND 1)) = 0" "push_bit 7 (push_bit 1 (c AND 15)) = 0"
    "push_bit 5 (push_bit 3 (d AND 3)) = 0"
  unfolding and_masks and_masks32
  by (rule byte_eqI; simp add: bit_simps over_byte del: push_bit_and push_bit_or drop_bit_and drop_bit_or One_nat_def; simp?)+

lemma base32_join:
  assumes "unat s < 32"
  shows "base32_decode_loop (char32 s # ib) 0 ob op = base32_decode_loop ib 5 (or_byte ob op (push_bit 3 s)) op"
    "base32_decode_loop (char32 s # ib) 1 ob op = base32_decode_loop ib 6 (or_byte ob op (push_bit 2 s)) op"
    "base32_decode_loop (char32 s # ib) 2 ob op = base32_decode_loop ib 7 (or_byte ob op (push_bit 1 s)) op"
    "base32_decode_loop (char32 s # ib) 3 ob op = base32_decode_loop ib 0 (or_byte ob op s) (op + 1)"
    "base32_decode_loop (char32 s # ib) 4 ob op =
       base32_decode_loop ib 1 (or_byte (or_byte ob op (drop_bit 1 s)) (op + 1) (push_bit 7 s)) (op + 1)"
    "base32_decode_loop (char32 s # ib) 5 ob op =
       base32_decode_loop ib 2 (or_byte (or_byte ob op (drop_bit 2 s)) (op + 1) (push_bit 6 s)) (op + 1)"
    "base32_decode_loop (char32 s # ib) 6 ob op =
       base32_decode_loop ib 3 (or_byte (or_byte ob op (drop_bit 3 s)) (op + 1) (push_bit 5 s)) (op + 1)"
    "base32_decode_loop (char32 s # ib) 7 ob op =
       base32_decode_loop ib 4 (or_byte (or_byte ob op (drop_bit 4 s)) (op + 1) (push_bit 4 s)) (op + 1)"
  using lookup_char32 [OF assms] by (simp_all add: Let_def)

lemma or_byte_Cons: "or_byte (x # Q) j w = (if j = 0 then (x OR w) # Q else x # or_byte Q (j - 1) w)"
  by (cases j) (simp_all add: or_byte_def)

lemma or_byte_append: "or_byte (P @ Q) (length P + j) w = P @ or_byte Q j w"
  by (simp add: or_byte_def list_update_append nth_append)

lemma base32_decode_shift:
  "base32_decode_loop ib idx (P @ Q) (length P + j) = map_prod ((@) P) ((+) (length P)) (base32_decode_loop ib idx Q j)"
proof (induction ib arbitrary: idx Q j)
  case (Cons c ib)
  show ?case using Cons [where j = "Suc j"] or_byte_append [of P _ "Suc j"] by (simp add: Cons or_byte_append Let_def)
qed simp

lemma decode_quintets:
  assumes "length ib < k"
  shows "base32_decode_loop (map char32 (quintets ib)) 0 (replicate k 0) 0 = (ib @ replicate (k - length ib) 0, length ib)"
proof -
  note steps = base32_join quintet_small quintet_bytes or_byte_Cons
  show ?thesis using assms
  proof (induction ib arbitrary: k rule: quintets.induct)
    case (2 a)
    then obtain k' where "k = Suc (Suc k')" by (auto simp: less_eq_Suc_le dest!: le_Suc_ex)
    then show ?case by (simp add: steps del: push_bit_and push_bit_or base32_decode_loop.simps(2) One_nat_def)
  next
    case (3 a b)
    then obtain k' where "k = Suc (Suc (Suc k'))" by (auto simp: less_eq_Suc_le dest!: le_Suc_ex)
    then show ?case by (simp add: steps del: push_bit_and push_bit_or base32_decode_loop.simps(2) One_nat_def)
  next
    case (4 a b c)
    then obtain k' where "k = Suc (Suc (Suc (Suc k')))" by (auto simp: less_eq_Suc_le dest!: le_Suc_ex)
    then show ?case by (simp add: steps del: push_bit_and push_bit_or base32_decode_loop.simps(2) One_nat_def)
  next
    case (5 a b c d)
    then obtain k' where "k = Suc (Suc (Suc (Suc (Suc k'))))" by (auto simp: less_eq_Suc_le dest!: le_Suc_ex)
    then show ?case by (simp add: steps del: push_bit_and push_bit_or base32_decode_loop.simps(2) One_nat_def)
  next
    case (6 a b c d e ib)
    then obtain k' where k: "k = Suc (Suc (Suc (Suc (Suc k'))))" by (auto simp: less_eq_Suc_le dest!: le_Suc_ex)
    have "base32_decode_loop (map char32 (quintets ib)) 0 (a # b # c # d # e # replicate k' 0) 5 =
      (a # b # c # d # e # ib @ replicate (k' - length ib) 0, 5 + length ib)"
      using "6.IH" [of k'] 6(2) k base32_decode_shift [of "map char32 (quintets ib)" 0 "[a, b, c, d, e]" "replicate k' 0" 0]
      by (simp add: eval_nat_numeral)
    then show ?case by (simp add: k steps del: push_bit_and push_bit_or base32_decode_loop.simps(2) One_nat_def)
  qed simp
qed

lemma length_base32_text: "length (base32_text ib) = (length ib * 8 + 4) div 5"
  by (simp add: base32_text_def length_quintets)

lemma base32_decode_text:
  assumes "length ib < n"
  shows "xu_base32_decode (base32_text ib) n = (ib @ replicate (n - length ib) 0, length ib)"
proof -
  have "((length ib * 8 + 4) div 5) * 5 div 8 = length ib" by presburger
  then show ?thesis using assms decode_quintets [of ib n]
    by (simp add: xu_base32_decode_def length_base32_text) (simp add: base32_text_def)
qed

text \<open>C39. With room for the text, the encoders of base 64 and base 32 write the characters of the groups of six bits,
  made up to a multiple of four, and of five bits, with a null character behind them, and return the length of the
  text; with room for the bytes the decoders give back exactly the bytes that were encoded.\<close>

theorem xu_base_codecs_roundtrip:
  assumes "length ib < 0x3fffffff"
  shows "(XU_BASE64_OUTPUT_MIN (length ib) \<le> on \<longrightarrow> xu_base64_encode ib on = (base64_text ib @ [0], (length ib + 2) div 3 * 4)) \<and>
    (length ib \<le> n \<longrightarrow> xu_base64_decode (base64_text ib @ [0]) n = (ib, length ib)) \<and>
    (XU_BASE32_OUTPUT_MIN (length ib) \<le> on \<longrightarrow> xu_base32_encode ib on = (base32_text ib @ [0], (length ib * 8 + 4) div 5)) \<and>
    (length ib < n \<longrightarrow> xu_base32_decode (base32_text ib) n = (ib @ replicate (n - length ib) 0, length ib))"
  using xu_base64_encode_text [OF assms] xu_base32_encode_text [OF assms] base64_decode_text base32_decode_text
  by (simp add: length_base64_text length_base32_text)

theorem xu_base_codecs_roundtrip_witness:
  "xu_base64_encode [102, 111, 111, 98] 9 = ([90, 109, 57, 118, 89, 103, 61, 61, 0], 8) \<and>
   xu_base64_decode [90, 109, 57, 118, 89, 103, 61, 61, 0] 5 = ([102, 111, 111, 98], 4) \<and>
   xu_base32_encode [102, 111, 111, 98] 9 = ([77, 90, 88, 87, 54, 89, 81, 0], 7) \<and>
   xu_base32_decode [77, 90, 88, 87, 54, 89, 81] 5 = ([102, 111, 111, 98, 0], 4)"
proof -
  have "replicate 2 (61 :: u8) = [61, 61]" by (simp add: numeral_2_eq_2)
  then show ?thesis
    using xu_base_codecs_roundtrip [of "[102, 111, 111, 98]" 9 5]
    by (simp add: XU_BASE64_OUTPUT_MIN_def XU_BASE32_OUTPUT_MIN_def base64_text_def base32_text_def base64_table_list base32_table_list
        eval_nat_numeral(3) [symmetric])
qed

section \<open>URLs\<close>

text \<open>The text of a byte list under a test.\<close>

fun url_code :: "(u8 \<Rightarrow> bool) \<Rightarrow> bool \<Rightarrow> u8 \<Rightarrow> u8 list" where
  "url_code esc space c =
     (if space \<and> c = 32 then [43]
      else if esc c then [37, url_digits ! unat (drop_bit 4 c), url_digits ! unat (c AND 15)] else [c])"

abbreviation url_text :: "(u8 \<Rightarrow> bool) \<Rightarrow> bool \<Rightarrow> u8 list \<Rightarrow> u8 list" where
  "url_text esc space ib \<equiv> concat (map (url_code esc space) ib)"

lemma url_code_cases:
  "space \<and> c = 32 \<Longrightarrow> url_code esc space c = [43]"
  "\<not> (space \<and> c = 32) \<Longrightarrow> esc c \<Longrightarrow> url_code esc space c = [37, url_digits ! unat (drop_bit 4 c), url_digits ! unat (c AND 15)]"
  "\<not> (space \<and> c = 32) \<Longrightarrow> \<not> esc c \<Longrightarrow> url_code esc space c = [c]"
  by auto

declare url_code.simps [simp del]

lemma url_encode_loop_text:
  assumes "length Q = length (url_text esc space ib)" and "length P + length Q < oe \<or> ib = []"
  shows "url_encode_loop esc space ib (P @ Q @ R) (length P) oe = Some (P @ url_text esc space ib @ R, length P + length Q)"
  using assms
proof (induction ib arbitrary: P Q)
  case (Cons c ib)
  define n where "n = length (url_code esc space c)"
  define Q1 Q2 where "Q1 = take n Q" and "Q2 = drop n Q"
  have Q: "Q = Q1 @ Q2" "length Q1 = n" "length Q2 = length (url_text esc space ib)"
    using Cons(2) by (auto simp: Q1_def Q2_def n_def)
  have n: "n = (if \<not> (space \<and> c = 32) \<and> esc c then 3 else 1)" by (cases "space \<and> c = 32"; cases "esc c") (auto simp: n_def url_code_cases)
  show ?case
  proof (cases "\<not> (space \<and> c = 32) \<and> esc c")
    case True
    then obtain x y z where "Q1 = [x, y, z]" using Q(2) n by (auto simp: length_Suc_conv eval_nat_numeral)
    then show ?thesis using True Cons(1) [of Q2 "P @ [37, url_digits ! unat (drop_bit 4 c), url_digits ! unat (c AND 15)]"] Cons(3) Q
      by (cases space) (auto simp: list_update_append url_code_cases numeral_3_eq_3)
  next
    case False
    then obtain x where "Q1 = [x]" using Q(2) n by (auto simp: length_Suc_conv)
    then show ?thesis using False Cons(1) [of Q2 "P @ url_code esc space c"] Cons(3) Q
      by (cases "space \<and> c = 32") (auto simp: list_update_append url_code_cases)
  qed
qed simp

text \<open>The digits of a byte are read back.\<close>

lemma url_digits_list: "url_digits = [48, 49, 50, 51, 52, 53, 54, 55, 56, 57, 65, 66, 67, 68, 69, 70]"
  by (simp add: url_digits_def upt_rec)

lemma url_digit:
  assumes "n < 16"
  shows "digit_value (url_digits ! n) = int n" "url_digits ! n \<noteq> 0" "xu_isdigit16 (sint (url_digits ! n))"
proof -
  have len: "length url_digits = 16" by (simp add: url_digits_list)
  have "map digit_value url_digits = map int [0..<16]" by (simp add: url_digits_list digit_value_def upt_rec)
  then have "map digit_value url_digits ! n = map int [0..<16] ! n" by simp
  then show "digit_value (url_digits ! n) = int n" using assms len by simp
  have "list_all (\<lambda>c. c \<noteq> 0 \<and> xu_isdigit16 (sint c)) url_digits" by (simp add: url_digits_list xu_isdigit16_def)
  then show "url_digits ! n \<noteq> 0" "xu_isdigit16 (sint (url_digits ! n))"
    using assms len by (simp_all add: list_all_length)
qed

lemma xu_s16_two:
  assumes "x \<noteq> 0" "y \<noteq> 0" "digit_value x < 16" "digit_value y < 16"
  shows "xu_s16tou64 [x, y, 0] 0 = Some (word_of_int (16 * digit_value x + digit_value y))"
proof -
  have c: "cstr [x, y, 0] 0 ([] @ [] @ [x, y])" using assms by (simp add: peek_def)
  note st = number_start [OF c, simplified, OF assms(3)]
  have "skip_prefix [x, y, 0] 0 120 88 = Some 0"
    using skip_prefix_cstr [of "[x, y, 0]" 0 "[]" "[x, y]" "[]" 120 88 16] c assms by (simp add: digit_value_def)
  moreover have "do { s \<leftarrow> skip_while (\<lambda>c. c = 48) [x, y, 0] 0; digits_loop step16 [x, y, 0] s 0 } =
    Some (word_of_int (16 * digit_value x + digit_value y))"
    using digits_tail [OF steps_read(4), of "[x, y, 0]" 0 "[x, y]" "[]"] c assms
    by (simp add: digits_value_def digit_end_def algebra_simps)
  ultimately show ?thesis using st by (simp add: xu_s16tou64_def signed_value_def bind_eq_Some_conv)
qed

lemma halves:
  fixes c :: u8
  shows "unat (drop_bit 4 c) = unat c div 16" "unat (c AND 15) = unat c mod 16"
    and halves_small: "unat (drop_bit 4 c) < 16" "unat (c AND 15) < 16"
proof -
  show "unat (drop_bit 4 c) = unat c div 16" by (subst unat_drop_bit_eq) (simp add: drop_bit_eq_div)
  moreover show "unat (c AND 15) = unat c mod 16" unfolding and_masks by (subst unsigned_take_bit_eq) (simp add: take_bit_eq_mod)
  ultimately show "unat (drop_bit 4 c) < 16" "unat (c AND 15) < 16" using unsigned_less [of c, where 'a = nat] by simp_all
qed

lemma url_digits_read:
  "xu_s16tou64 [url_digits ! unat (drop_bit 4 c), url_digits ! unat (c AND 15), 0] 0 = Some (word_of_int (uint (c :: u8)))"
proof -
  have "16 * int (unat c div 16) + int (unat c mod 16) = uint c"
    by (metis mult.commute div_mult_mod_eq of_nat_add of_nat_mult of_nat_numeral uint_nat)
  then have "16 * int (unat (drop_bit 4 c)) + int (unat (c AND 15)) = uint c" by (simp only: halves)
  note u = this
  note h = url_digit [OF halves_small(1) [of c]] and l = url_digit [OF halves_small(2) [of c]]
  have "16 * digit_value (url_digits ! unat (drop_bit 4 c)) + digit_value (url_digits ! unat (c AND 15)) = uint c"
    by (simp only: h(1) l(1) u)
  then show ?thesis
    using xu_s16_two [OF h(2) l(2)] h(1) l(1) halves_small [of c] by (metis of_nat_less_iff of_nat_numeral)
qed

lemma back_to_byte: "ucast (ucast (c :: u8) :: u64) = c"
  by (rule bit_word_eqI) (auto simp: bit_simps)

text \<open>Decoding.\<close>

lemma url_decode_loop_text:
  assumes esc: "esc 37" "space \<Longrightarrow> esc 43" and Q: "length Q = length ib" and oe: "length P + length ib \<le> oe"
  shows "url_decode_loop space (pre @ url_text esc space ib) (length pre) (P @ Q @ R) (length P) oe = Some (P @ ib @ R, length P + length ib)"
  using Q oe
proof (induction ib arbitrary: P Q pre)
  case Nil
  then show ?case by (simp add: url_decode_loop.simps)
next
  case (Cons c ib)
  obtain q Q' where q: "Q = q # Q'" "length Q' = length ib" using Cons(2) by (cases Q) auto
  have nx: "url_decode_loop space ((pre @ url_code esc space c) @ url_text esc space ib) (length (pre @ url_code esc space c))
      ((P @ [c]) @ Q' @ R) (length (P @ [c])) oe = Some (P @ (c # ib) @ R, length P + length (c # ib))"
    using Cons(1) [of Q' "P @ [c]" "pre @ url_code esc space c"] q Cons(3) by simp
  show ?case
  proof (cases "space \<and> c = 32")
    case True
    then show ?thesis using nx q Cons(3)
      by (subst url_decode_loop.simps) (simp add: nth_append list_update_append url_code_cases)
  next
    case False
    then show ?thesis using nx q Cons(3) esc url_digits_read [of c] url_digit(3) [OF halves_small(1) [of c]] url_digit(3) [OF halves_small(2) [of c]]
      by (subst url_decode_loop.simps) (cases "esc c"; auto simp: nth_append list_update_append url_code_cases back_to_byte numeral_3_eq_3)
  qed
qed

lemma split_block:
  assumes "p + n \<le> length m"
  obtains P Q R where "m = P @ Q @ R" "length P = p" "length Q = n"
proof -
  have "m = take p m @ take n (drop p m) @ drop n (drop p m)" by (simp only: append_take_drop_id)
  then show ?thesis using that assms by simp
qed

text \<open>Encoding and decoding with a test that spares no character that the decoder reads as another.\<close>

lemma url_encode_run:
  assumes "length (url_text esc space ib) < on" and "ob + on \<le> length m"
  shows "do { r \<leftarrow> url_encode_loop esc space ib m ob (ob + on); url_end ob r } =
    Some (take ob m @ url_text esc space ib @ [0] @ drop (ob + length (url_text esc space ib) + 1) m, length (url_text esc space ib))"
proof -
  let ?n = "length (url_text esc space ib)"
  obtain P Q R where m: "m = P @ Q @ R" "length P = ob" "length Q = ?n"
    using split_block [of ob ?n m] assms by auto
  then obtain z R' where "R = z # R'" using assms by (cases R) auto
  then show ?thesis using m assms url_encode_loop_text [of Q esc space ib P "ob + on" R]
    by (simp add: url_end_def list_update_append)
qed

lemma url_decode_run:
  assumes "esc 37" "space \<Longrightarrow> esc 43" and "length ib \<le> on" and "ob + length ib < length m"
  shows "do { r \<leftarrow> url_decode_loop space (url_text esc space ib) 0 m ob (ob + on); url_end ob r } =
    Some (take ob m @ ib @ [0] @ drop (ob + length ib + 1) m, length ib)"
proof -
  obtain P Q R where m: "m = P @ Q @ R" "length P = ob" "length Q = length ib"
    using split_block [of ob "length ib" m] assms by auto
  then obtain z R' where "R = z # R'" using assms by (cases R) auto
  then show ?thesis using m assms url_decode_loop_text [of esc space Q ib P "ob + on" "[]" R]
    by (simp add: url_end_def list_update_append)
qed

lemma url_roundtrip:
  assumes "esc 37" "space \<Longrightarrow> esc 43"
    and "do { r \<leftarrow> url_encode_loop esc space ib m ob (ob + on); url_end ob r } = Some (m1, n)"
    and "length (url_text esc space ib) < on" and "ob + on \<le> length m" and "length ib \<le> on2" and "ob2 + length ib < length m2"
  shows "do { r \<leftarrow> url_decode_loop space (take n (drop ob m1)) 0 m2 ob2 (ob2 + on2); url_end ob2 r } =
    Some (take ob2 m2 @ ib @ [0] @ drop (ob2 + length ib + 1) m2, length ib)"
proof -
  have "take n (drop ob m1) = url_text esc space ib"
    using assms(3) url_encode_run [OF assms(4,5)] assms(5) by auto
  then show ?thesis using url_decode_run [OF assms(1,2,6,7)] by simp
qed

text \<open>Without that room the encoder writes behind its buffer: with one byte of room for one character that is escaped
  it needs four, and with one byte for a plain character it needs two.\<close>

lemma xu_url_encode_overruns: "xu_url_encode [37] [0, 0, 0] 0 1 = None" "xu_url_encode [97] [0] 0 1 = None"
  by (simp_all add: xu_url_encode_def url_escape_def url_end_def poke_def)

text \<open>The tests of the three encoders escape what their decoders read as something else.\<close>

lemma url_escape_percent [simp]: "url_escape 37" "url_escape 43" "url_escape2 37" "url_escape_args 37"
  by (simp_all add: url_escape_def url_escape2_def url_escape_args_def)

text \<open>C40. With room for the text and its null character, each of the three encoders of URLs writes its text inside
  its buffer and nothing else; when the decoder of the pair has room for the bytes, it brings back any bytes
  from the text and writes them with a null character and nothing else.\<close>

theorem xu_url_roundtrip:
  assumes "(encode, decode, esc, space) \<in> {(xu_url_encode, xu_url_decode, url_escape, True),
      (xu_url_encode2, xu_url_decode2, url_escape2, False), (xu_url_encode_args, xu_url_decode_args, url_escape_args, False)}"
    and "length (url_text esc space ib) < on" and "ob + on \<le> length m" and "length ib \<le> on2" and "ob2 + length ib < length m2"
  shows "\<exists>m1 n. encode ib m ob on = Some (m1, n) \<and>
      m1 = take ob m @ url_text esc space ib @ [0] @ drop (ob + n + 1) m \<and> n = length (url_text esc space ib) \<and>
      decode (take n (drop ob m1)) m2 ob2 on2 = Some (take ob2 m2 @ ib @ [0] @ drop (ob2 + length ib + 1) m2, length ib)"
proof -
  have e: "esc 37" "space \<Longrightarrow> esc 43" using assms(1) by auto
  show ?thesis
    using assms(1) url_encode_run [OF assms(2,3)] url_roundtrip [OF e url_encode_run [OF assms(2,3)] assms(2-5)]
    by (auto simp: xu_url_encode_def xu_url_encode2_def xu_url_encode_args_def xu_url_decode_def xu_url_decode2_def xu_url_decode_args_def)
qed

theorem xu_url_roundtrip_witness:
  "xu_url_encode [97, 32, 47] [1, 2, 3, 4, 5, 6, 7, 8] 1 6 = Some ([1, 97, 43, 37, 50, 70, 0, 8], 5) \<and>
   xu_url_decode [97, 43, 37, 50, 70] [9, 9, 9, 9, 9] 1 3 = Some ([9, 97, 32, 47, 0], 3)"
  using xu_url_roundtrip [of xu_url_encode xu_url_decode url_escape True "[97, 32, 47]" 6 1 "[1, 2, 3, 4, 5, 6, 7, 8]" 3 1 "[9, 9, 9, 9, 9]"]
  by (simp add: url_code.simps url_escape_def url_digits_list)

end
