(* ===== verification/XBuffer.thy ===== *)
theory XBuffer
  imports XCString XElement
begin

text \<open>
  \<^verbatim>\<open>xutil/memory/buffer.c\<close> and \<^verbatim>\<open>static_buffer.c\<close>: the growing buffer, which starts in an array of its own
  structure and moves to the heap when it outgrows it, and the buffer over a block of its user. Both have the
  same operations on top of their resizing, so these take it as an argument. The data is the block of memory that
  the pointer of the structure stands for; the pointer that an operation returns is the data or null, here whether
  it is the data. An access outside a block is none. The sources of a copy lie outside of the buffer that is
  written. Sizes are those of 64 bits.
\<close>

section \<open>The structures\<close>

record static_buffer =
  bf_data :: "u8 list option"
  bf_size :: nat
  bf_maxn :: nat

text \<open>The array of the structure while the data is somewhere else; none while the data is that array.\<close>

record buffer = static_buffer +
  bf_array :: "u8 list option"

type_synonym byte_allocator = "u8 list option \<Rightarrow> nat \<Rightarrow> u8 list option"

definition XU_BUFFER_ARRAY :: nat where "XU_BUFFER_ARRAY = 64"
definition XU_BUFFER_GROW_SIZE :: nat where "XU_BUFFER_GROW_SIZE = 256"

definition xu_align8 :: "nat \<Rightarrow> nat" where "xu_align8 x = sz_add x 7 div 8 * 8"

text \<open>Copying \<open>n\<close> bytes from one block to a place in another.\<close>

definition copy_in :: "u8 list \<Rightarrow> nat \<Rightarrow> u8 list \<Rightarrow> nat \<Rightarrow> u8 list option" where
  "copy_in d p b n = (if p + n \<le> length d \<and> n \<le> length b then Some (take p d @ take n b @ drop (p + n) d) else None)"

type_synonym 'z resizer = "'z static_buffer_scheme \<Rightarrow> nat \<Rightarrow> bool \<times> 'z static_buffer_scheme"
type_synonym 'z outcome = "(bool \<times> 'z static_buffer_scheme) option"

section \<open>The operations on top of resizing\<close>

definition buffer_size :: "'z static_buffer_scheme \<Rightarrow> nat" where "buffer_size buffer = bf_size buffer"
definition buffer_maxn :: "'z static_buffer_scheme \<Rightarrow> nat" where "buffer_maxn buffer = bf_maxn buffer"
definition buffer_data :: "'z static_buffer_scheme \<Rightarrow> u8 list option" where "buffer_data buffer = bf_data buffer"

definition buffer_clear :: "'z static_buffer_scheme \<Rightarrow> 'z static_buffer_scheme" where
  "buffer_clear buffer = buffer\<lparr>bf_size := 0\<rparr>"

text \<open>The pointer to the data, returned as it is.\<close>

definition the_data :: "'z static_buffer_scheme \<Rightarrow> 'z outcome" where
  "the_data buffer = Some (bf_data buffer \<noteq> None, buffer)"

text \<open>Resizing to \<open>size\<close> and then writing the data.\<close>

definition resized :: "'z resizer \<Rightarrow> 'z static_buffer_scheme \<Rightarrow> nat \<Rightarrow> (u8 list \<Rightarrow> u8 list option) \<Rightarrow> 'z outcome" where
  "resized resize buffer n write =
     (case resize buffer n of
        (False, buffer) \<Rightarrow> Some (False, buffer)
      | (True, buffer) \<Rightarrow> do { d \<leftarrow> bf_data buffer; d \<leftarrow> write d; Some (True, buffer\<lparr>bf_data := Some d\<rparr>) })"

definition buffer_memnsetp :: "'z resizer \<Rightarrow> 'z static_buffer_scheme \<Rightarrow> nat \<Rightarrow> u8 \<Rightarrow> nat \<Rightarrow> 'z outcome" where
  "buffer_memnsetp resize buffer p b n =
     (if n = 0 then the_data buffer else resized resize buffer (sz_add p n) (\<lambda>d. xu_memset d p b n))"

definition buffer_memncpyp :: "'z resizer \<Rightarrow> 'z static_buffer_scheme \<Rightarrow> nat \<Rightarrow> u8 list option \<Rightarrow> nat \<Rightarrow> 'z outcome" where
  "buffer_memncpyp resize buffer p b n =
     (case b of
        None \<Rightarrow> Some (False, buffer)
      | Some b \<Rightarrow> if n = 0 then the_data buffer else resized resize buffer (sz_add p n) (\<lambda>d. copy_in d p b n))"

definition buffer_memnmovp :: "'z resizer \<Rightarrow> 'z static_buffer_scheme \<Rightarrow> nat \<Rightarrow> nat \<Rightarrow> nat \<Rightarrow> 'z outcome" where
  "buffer_memnmovp resize buffer p b n =
     (if \<not> sz_add b n \<le> buffer_size buffer then Some (False, buffer)
      else if b = buffer_size buffer then the_data (buffer_clear buffer)
      else if p = b \<or> n = 0 then the_data buffer
      else resized resize buffer (sz_add p n) (\<lambda>d. xu_memmov d p b n))"

definition buffer_memncat :: "'z resizer \<Rightarrow> 'z static_buffer_scheme \<Rightarrow> u8 list option \<Rightarrow> nat \<Rightarrow> 'z outcome" where
  "buffer_memncat resize buffer b n =
     (case b of
        None \<Rightarrow> Some (False, buffer)
      | Some c \<Rightarrow>
          if n = 0 then the_data buffer
          else let p = buffer_size buffer in
            if p = 0 then buffer_memncpyp resize buffer 0 b n
            else resized resize buffer (sz_add p n) (\<lambda>d. copy_in d p c n))"

definition buffer_memmovp :: "'z resizer \<Rightarrow> 'z static_buffer_scheme \<Rightarrow> nat \<Rightarrow> nat \<Rightarrow> 'z outcome" where
  "buffer_memmovp resize buffer p b =
     (if \<not> b \<le> buffer_size buffer then Some (False, buffer)
      else buffer_memnmovp resize buffer p b (buffer_size buffer - b))"

section \<open>The growing buffer\<close>

text \<open>A new structure, with what its array holds.\<close>

definition xu_buffer_init :: "u8 list \<Rightarrow> buffer" where
  "xu_buffer_init array = \<lparr>bf_data = Some array, bf_size = 0, bf_maxn = XU_BUFFER_ARRAY, bf_array = None\<rparr>"

definition xu_buffer_exit :: "buffer \<Rightarrow> buffer" where
  "xu_buffer_exit buffer =
     (let buffer = buffer_clear buffer;
          buffer = (case bf_array buffer of None \<Rightarrow> buffer | Some a \<Rightarrow> buffer\<lparr>bf_data := Some a, bf_array := None\<rparr>)
      in buffer\<lparr>bf_size := 0, bf_maxn := XU_BUFFER_ARRAY\<rparr>)"

definition xu_buffer_resize :: "byte_allocator \<Rightarrow> unit buffer_ext resizer" where
  "xu_buffer_resize ralloc buffer n =
     (if n = 0 then (False, buffer)
      else case bf_data buffer of
        None \<Rightarrow> (False, buffer)
      | Some d \<Rightarrow>
          if n > bf_maxn buffer then
            let maxn = xu_align8 (sz_add n XU_BUFFER_GROW_SIZE) in
            if \<not> n \<le> maxn then (False, buffer)
            else (case bf_array buffer of
                None \<Rightarrow>
                  (case ralloc None maxn of
                     None \<Rightarrow> (False, buffer)
                   | Some b \<Rightarrow> (True, buffer\<lparr>bf_data := Some (take (bf_size buffer) d @ drop (bf_size buffer) b), bf_size := n,
                       bf_maxn := maxn, bf_array := Some d\<rparr>))
              | Some a \<Rightarrow>
                  (case ralloc (Some d) maxn of
                     None \<Rightarrow> (False, buffer)
                   | Some b \<Rightarrow> (True, buffer\<lparr>bf_data := Some b, bf_size := n, bf_maxn := maxn\<rparr>)))
          else (True, buffer\<lparr>bf_size := n\<rparr>))"

definition xu_buffer_data :: "buffer \<Rightarrow> u8 list option" where "xu_buffer_data = buffer_data"
definition xu_buffer_size :: "buffer \<Rightarrow> nat" where "xu_buffer_size = buffer_size"
definition xu_buffer_maxn :: "buffer \<Rightarrow> nat" where "xu_buffer_maxn = buffer_maxn"
definition xu_buffer_clear :: "buffer \<Rightarrow> buffer" where "xu_buffer_clear = buffer_clear"

definition xu_buffer_memnsetp :: "byte_allocator \<Rightarrow> buffer \<Rightarrow> nat \<Rightarrow> u8 \<Rightarrow> nat \<Rightarrow> (bool \<times> buffer) option" where
  "xu_buffer_memnsetp ralloc = buffer_memnsetp (xu_buffer_resize ralloc)"
definition xu_buffer_memset :: "byte_allocator \<Rightarrow> buffer \<Rightarrow> u8 \<Rightarrow> (bool \<times> buffer) option" where
  "xu_buffer_memset ralloc buffer b = xu_buffer_memnsetp ralloc buffer 0 b (xu_buffer_size buffer)"
definition xu_buffer_memsetp :: "byte_allocator \<Rightarrow> buffer \<Rightarrow> nat \<Rightarrow> u8 \<Rightarrow> (bool \<times> buffer) option" where
  "xu_buffer_memsetp ralloc buffer p b =
     (let size = xu_buffer_size buffer
      in if \<not> p < size then Some (False, buffer) else xu_buffer_memnsetp ralloc buffer p b (size - p))"
definition xu_buffer_memnset :: "byte_allocator \<Rightarrow> buffer \<Rightarrow> u8 \<Rightarrow> nat \<Rightarrow> (bool \<times> buffer) option" where
  "xu_buffer_memnset ralloc buffer b n = xu_buffer_memnsetp ralloc buffer 0 b n"

definition xu_buffer_memncpyp :: "byte_allocator \<Rightarrow> buffer \<Rightarrow> nat \<Rightarrow> u8 list option \<Rightarrow> nat \<Rightarrow> (bool \<times> buffer) option" where
  "xu_buffer_memncpyp ralloc = buffer_memncpyp (xu_buffer_resize ralloc)"
definition xu_buffer_memcpy :: "byte_allocator \<Rightarrow> buffer \<Rightarrow> buffer \<Rightarrow> (bool \<times> buffer) option" where
  "xu_buffer_memcpy ralloc buffer b = xu_buffer_memncpyp ralloc buffer 0 (xu_buffer_data b) (xu_buffer_size b)"
definition xu_buffer_memcpyp :: "byte_allocator \<Rightarrow> buffer \<Rightarrow> nat \<Rightarrow> buffer \<Rightarrow> (bool \<times> buffer) option" where
  "xu_buffer_memcpyp ralloc buffer p b = xu_buffer_memncpyp ralloc buffer p (xu_buffer_data b) (xu_buffer_size b)"
definition xu_buffer_memncpy :: "byte_allocator \<Rightarrow> buffer \<Rightarrow> u8 list option \<Rightarrow> nat \<Rightarrow> (bool \<times> buffer) option" where
  "xu_buffer_memncpy ralloc buffer b n = xu_buffer_memncpyp ralloc buffer 0 b n"

definition xu_buffer_memnmovp :: "byte_allocator \<Rightarrow> buffer \<Rightarrow> nat \<Rightarrow> nat \<Rightarrow> nat \<Rightarrow> (bool \<times> buffer) option" where
  "xu_buffer_memnmovp ralloc = buffer_memnmovp (xu_buffer_resize ralloc)"
definition xu_buffer_memmov :: "byte_allocator \<Rightarrow> buffer \<Rightarrow> nat \<Rightarrow> (bool \<times> buffer) option" where
  "xu_buffer_memmov ralloc buffer b = buffer_memmovp (xu_buffer_resize ralloc) buffer 0 b"
definition xu_buffer_memmovp :: "byte_allocator \<Rightarrow> buffer \<Rightarrow> nat \<Rightarrow> nat \<Rightarrow> (bool \<times> buffer) option" where
  "xu_buffer_memmovp ralloc = buffer_memmovp (xu_buffer_resize ralloc)"
definition xu_buffer_memnmov :: "byte_allocator \<Rightarrow> buffer \<Rightarrow> nat \<Rightarrow> nat \<Rightarrow> (bool \<times> buffer) option" where
  "xu_buffer_memnmov ralloc buffer b n = xu_buffer_memnmovp ralloc buffer 0 b n"

definition xu_buffer_memncat :: "byte_allocator \<Rightarrow> buffer \<Rightarrow> u8 list option \<Rightarrow> nat \<Rightarrow> (bool \<times> buffer) option" where
  "xu_buffer_memncat ralloc = buffer_memncat (xu_buffer_resize ralloc)"
definition xu_buffer_memcat :: "byte_allocator \<Rightarrow> buffer \<Rightarrow> buffer \<Rightarrow> (bool \<times> buffer) option" where
  "xu_buffer_memcat ralloc buffer b = xu_buffer_memncat ralloc buffer (xu_buffer_data b) (xu_buffer_size b)"

section \<open>The buffer over a block\<close>

definition xu_static_buffer_init :: "u8 list option \<Rightarrow> nat \<Rightarrow> static_buffer" where
  "xu_static_buffer_init data maxn = \<lparr>bf_data = data, bf_size = 0, bf_maxn = maxn\<rparr>"

definition xu_static_buffer_exit :: "static_buffer \<Rightarrow> static_buffer" where
  "xu_static_buffer_exit buffer = buffer\<lparr>bf_data := None, bf_size := 0, bf_maxn := 0\<rparr>"

definition xu_static_buffer_resize :: "unit resizer" where
  "xu_static_buffer_resize buffer n =
     (if bf_data buffer = None \<or> \<not> n \<le> bf_maxn buffer then (False, buffer) else (True, buffer\<lparr>bf_size := n\<rparr>))"

definition xu_static_buffer_data :: "static_buffer \<Rightarrow> u8 list option" where "xu_static_buffer_data = buffer_data"
definition xu_static_buffer_size :: "static_buffer \<Rightarrow> nat" where "xu_static_buffer_size = buffer_size"
definition xu_static_buffer_maxn :: "static_buffer \<Rightarrow> nat" where "xu_static_buffer_maxn = buffer_maxn"
definition xu_static_buffer_clear :: "static_buffer \<Rightarrow> static_buffer" where "xu_static_buffer_clear = buffer_clear"

definition xu_static_buffer_memnsetp :: "static_buffer \<Rightarrow> nat \<Rightarrow> u8 \<Rightarrow> nat \<Rightarrow> (bool \<times> static_buffer) option" where
  "xu_static_buffer_memnsetp = buffer_memnsetp xu_static_buffer_resize"
definition xu_static_buffer_memset :: "static_buffer \<Rightarrow> u8 \<Rightarrow> (bool \<times> static_buffer) option" where
  "xu_static_buffer_memset buffer b = xu_static_buffer_memnsetp buffer 0 b (xu_static_buffer_size buffer)"
definition xu_static_buffer_memsetp :: "static_buffer \<Rightarrow> nat \<Rightarrow> u8 \<Rightarrow> (bool \<times> static_buffer) option" where
  "xu_static_buffer_memsetp buffer p b = xu_static_buffer_memnsetp buffer p b (xu_static_buffer_size buffer)"
definition xu_static_buffer_memnset :: "static_buffer \<Rightarrow> u8 \<Rightarrow> nat \<Rightarrow> (bool \<times> static_buffer) option" where
  "xu_static_buffer_memnset buffer b n = xu_static_buffer_memnsetp buffer 0 b n"

definition xu_static_buffer_memncpyp :: "static_buffer \<Rightarrow> nat \<Rightarrow> u8 list option \<Rightarrow> nat \<Rightarrow> (bool \<times> static_buffer) option" where
  "xu_static_buffer_memncpyp = buffer_memncpyp xu_static_buffer_resize"
definition xu_static_buffer_memcpy :: "static_buffer \<Rightarrow> static_buffer \<Rightarrow> (bool \<times> static_buffer) option" where
  "xu_static_buffer_memcpy buffer b = xu_static_buffer_memncpyp buffer 0 (xu_static_buffer_data b) (xu_static_buffer_size b)"
definition xu_static_buffer_memcpyp :: "static_buffer \<Rightarrow> nat \<Rightarrow> static_buffer \<Rightarrow> (bool \<times> static_buffer) option" where
  "xu_static_buffer_memcpyp buffer p b = xu_static_buffer_memncpyp buffer p (xu_static_buffer_data b) (xu_static_buffer_size b)"
definition xu_static_buffer_memncpy :: "static_buffer \<Rightarrow> u8 list option \<Rightarrow> nat \<Rightarrow> (bool \<times> static_buffer) option" where
  "xu_static_buffer_memncpy buffer b n = xu_static_buffer_memncpyp buffer 0 b n"

definition xu_static_buffer_memnmovp :: "static_buffer \<Rightarrow> nat \<Rightarrow> nat \<Rightarrow> nat \<Rightarrow> (bool \<times> static_buffer) option" where
  "xu_static_buffer_memnmovp = buffer_memnmovp xu_static_buffer_resize"
definition xu_static_buffer_memmov :: "static_buffer \<Rightarrow> nat \<Rightarrow> (bool \<times> static_buffer) option" where
  "xu_static_buffer_memmov buffer b = buffer_memmovp xu_static_buffer_resize buffer 0 b"
definition xu_static_buffer_memmovp :: "static_buffer \<Rightarrow> nat \<Rightarrow> nat \<Rightarrow> (bool \<times> static_buffer) option" where
  "xu_static_buffer_memmovp = buffer_memmovp xu_static_buffer_resize"
definition xu_static_buffer_memnmov :: "static_buffer \<Rightarrow> nat \<Rightarrow> nat \<Rightarrow> (bool \<times> static_buffer) option" where
  "xu_static_buffer_memnmov buffer b n = xu_static_buffer_memnmovp buffer 0 b n"

definition xu_static_buffer_memncat :: "static_buffer \<Rightarrow> u8 list option \<Rightarrow> nat \<Rightarrow> (bool \<times> static_buffer) option" where
  "xu_static_buffer_memncat = buffer_memncat xu_static_buffer_resize"
definition xu_static_buffer_memcat :: "static_buffer \<Rightarrow> static_buffer \<Rightarrow> (bool \<times> static_buffer) option" where
  "xu_static_buffer_memcat buffer b = xu_static_buffer_memncat buffer (xu_static_buffer_data b) (xu_static_buffer_size b)"

end
