(* ===== verification/XQueueBuffer.thy ===== *)
theory XQueueBuffer
  imports XBuffer
begin

text \<open>
  \<^verbatim>\<open>xutil/memory/queue_buffer.c\<close>: the queue of bytes in a block. The block is allocated by the first writing, the head is a
  position in it or null. An operation that fails gives minus one or null as in the code, an access outside the block is none.
  What a user writes between \<^verbatim>\<open>push_init\<close> and \<^verbatim>\<open>push_exit\<close> is an argument of \<open>queue_poke\<close>.
\<close>

record queue_buffer =
  qb_data :: "u8 list option"
  qb_head :: "nat option"
  qb_size :: nat
  qb_maxn :: nat

definition xu_queue_buffer_init :: "nat \<Rightarrow> queue_buffer" where
  "xu_queue_buffer_init maxn = \<lparr>qb_data = None, qb_head = None, qb_size = 0, qb_maxn = maxn\<rparr>"

definition xu_queue_buffer_exit :: "queue_buffer \<Rightarrow> queue_buffer" where
  "xu_queue_buffer_exit buffer = \<lparr>qb_data = None, qb_head = None, qb_size = 0, qb_maxn = 0\<rparr>"

definition xu_queue_buffer_data :: "queue_buffer \<Rightarrow> u8 list option" where "xu_queue_buffer_data buffer = qb_data buffer"
definition xu_queue_buffer_head :: "queue_buffer \<Rightarrow> nat option" where "xu_queue_buffer_head buffer = qb_head buffer"

definition xu_queue_buffer_tail :: "queue_buffer \<Rightarrow> nat option" where
  "xu_queue_buffer_tail buffer = map_option (\<lambda>h. h + qb_size buffer) (qb_head buffer)"

definition xu_queue_buffer_size :: "queue_buffer \<Rightarrow> nat" where "xu_queue_buffer_size buffer = qb_size buffer"
definition xu_queue_buffer_maxn :: "queue_buffer \<Rightarrow> nat" where "xu_queue_buffer_maxn buffer = qb_maxn buffer"

definition xu_queue_buffer_left :: "queue_buffer \<Rightarrow> nat" where
  "xu_queue_buffer_left buffer = (if \<not> qb_size buffer \<le> qb_maxn buffer then 0 else qb_maxn buffer - qb_size buffer)"

definition xu_queue_buffer_full :: "queue_buffer \<Rightarrow> bool" where
  "xu_queue_buffer_full buffer \<longleftrightarrow> qb_size buffer = qb_maxn buffer"

definition xu_queue_buffer_null :: "queue_buffer \<Rightarrow> bool" where
  "xu_queue_buffer_null buffer \<longleftrightarrow> qb_size buffer = 0"

text \<open>The head at the start of the data.\<close>

definition head_first :: "queue_buffer \<Rightarrow> queue_buffer" where
  "head_first buffer = buffer\<lparr>qb_head := map_option (\<lambda>_. 0) (qb_data buffer)\<rparr>"

definition xu_queue_buffer_clear :: "queue_buffer \<Rightarrow> queue_buffer" where
  "xu_queue_buffer_clear buffer = head_first (buffer\<lparr>qb_size := 0\<rparr>)"

text \<open>Moving the bytes to the start of the data.\<close>

definition move_first :: "queue_buffer \<Rightarrow> queue_buffer option" where
  "move_first buffer =
     (if qb_head buffer \<noteq> Some 0 then do {
        d \<leftarrow> qb_data buffer;
        d \<leftarrow> (if qb_size buffer \<noteq> 0 then do { h \<leftarrow> qb_head buffer; xu_memmov d 0 h (qb_size buffer) } else Some d);
        Some (head_first (buffer\<lparr>qb_data := Some d\<rparr>)) }
      else Some buffer)"

definition xu_queue_buffer_resize :: "byte_allocator \<Rightarrow> queue_buffer \<Rightarrow> nat \<Rightarrow> (bool \<times> queue_buffer) option" where
  "xu_queue_buffer_resize ralloc buffer maxn =
     (if maxn = 0 \<or> \<not> maxn \<ge> qb_size buffer then Some (False, buffer)
      else if qb_data buffer \<noteq> None then do {
        buffer \<leftarrow> move_first buffer;
        if maxn > qb_maxn buffer then
          let d = ralloc (qb_data buffer) maxn; buffer = buffer\<lparr>qb_head := None, qb_data := d\<rparr> in
          if d = None then Some (False, buffer)
          else Some (True, head_first buffer\<lparr>qb_maxn := maxn\<rparr>)
        else Some (True, buffer\<lparr>qb_maxn := maxn\<rparr>) }
      else Some (False, buffer\<lparr>qb_maxn := maxn\<rparr>))"

text \<open>Taking bytes off the head.\<close>

definition take_off :: "queue_buffer \<Rightarrow> nat \<Rightarrow> queue_buffer" where
  "take_off buffer n =
     (let buffer = buffer\<lparr>qb_head := map_option (\<lambda>h. h + n) (qb_head buffer), qb_size := qb_size buffer - n\<rparr>
      in if qb_size buffer = 0 then head_first buffer else buffer)"

definition xu_queue_buffer_skip :: "queue_buffer \<Rightarrow> nat \<Rightarrow> int \<times> queue_buffer" where
  "xu_queue_buffer_skip buffer n =
     (if qb_data buffer = None \<or> qb_size buffer = 0 \<or> n = 0 then (0, buffer)
      else if qb_head buffer = None then (- 1, buffer)
      else let r = (if qb_size buffer > n then n else qb_size buffer) in (int r, take_off buffer r))"

definition xu_queue_buffer_read :: "queue_buffer \<Rightarrow> nat \<Rightarrow> (int \<times> u8 list \<times> queue_buffer) option" where
  "xu_queue_buffer_read buffer n =
     (case qb_data buffer of
        None \<Rightarrow> Some (0, [], buffer)
      | Some d \<Rightarrow>
          if qb_size buffer = 0 \<or> n = 0 then Some (0, [], buffer)
          else (case qb_head buffer of
              None \<Rightarrow> Some (- 1, [], buffer)
            | Some h \<Rightarrow>
                let r = (if qb_size buffer > n then n else qb_size buffer) in
                if h + r \<le> length d then Some (int r, take r (drop h d), take_off buffer r) else None))"

text \<open>The block of a buffer that has none.\<close>

definition make_data :: "byte_allocator \<Rightarrow> queue_buffer \<Rightarrow> queue_buffer" where
  "make_data ralloc buffer =
     (if qb_data buffer = None then
        (case ralloc None (qb_maxn buffer) of
           None \<Rightarrow> buffer
         | Some d \<Rightarrow> buffer\<lparr>qb_data := Some d, qb_head := Some 0, qb_size := 0\<rparr>)
      else buffer)"

definition xu_queue_buffer_writ :: "byte_allocator \<Rightarrow> queue_buffer \<Rightarrow> u8 list \<Rightarrow> nat \<Rightarrow> (int \<times> queue_buffer) option" where
  "xu_queue_buffer_writ ralloc buffer data n =
     (if qb_maxn buffer = 0 then Some (- 1, buffer)
      else let buffer = make_data ralloc buffer in
        case (qb_data buffer, qb_head buffer) of
          (Some d, Some h) \<Rightarrow>
            let left = qb_maxn buffer - qb_size buffer in
            if left = 0 then Some (0, buffer)
            else let tail = h + qb_size buffer in
              if qb_maxn buffer \<ge> tail + n then do {
                d \<leftarrow> copy_in d tail data n;
                Some (int n, buffer\<lparr>qb_data := Some d, qb_size := qb_size buffer + n\<rparr>) }
              else do {
                buffer \<leftarrow> move_first buffer;
                let writ = (if left > n then n else left);
                d \<leftarrow> qb_data buffer;
                d \<leftarrow> copy_in d (qb_size buffer) data writ;
                Some (int writ, buffer\<lparr>qb_data := Some d, qb_size := qb_size buffer + writ\<rparr>) }
        | _ \<Rightarrow> Some (- 1, buffer))"

text \<open>The head and the size of the bytes to pull; none for null.\<close>

definition xu_queue_buffer_pull_init :: "queue_buffer \<Rightarrow> (nat \<times> nat) option" where
  "xu_queue_buffer_pull_init buffer =
     (if qb_data buffer = None \<or> qb_size buffer = 0 then None else map_option (\<lambda>h. (h, qb_size buffer)) (qb_head buffer))"

definition xu_queue_buffer_pull_exit :: "queue_buffer \<Rightarrow> nat \<Rightarrow> queue_buffer" where
  "xu_queue_buffer_pull_exit buffer n =
     (if qb_head buffer = None \<or> \<not> n \<le> qb_size buffer then buffer else take_off buffer n)"

text \<open>The place and the room for the bytes to push, none for null, and the buffer.\<close>

definition xu_queue_buffer_push_init :: "byte_allocator \<Rightarrow> queue_buffer \<Rightarrow> ((nat \<times> nat) option \<times> queue_buffer) option" where
  "xu_queue_buffer_push_init ralloc buffer =
     (if qb_maxn buffer = 0 then Some (None, buffer)
      else let buffer = make_data ralloc buffer in
        if qb_data buffer = None \<or> qb_head buffer = None then Some (None, buffer)
        else let left = qb_maxn buffer - qb_size buffer in
          if left = 0 then Some (None, buffer)
          else do {
            buffer \<leftarrow> move_first buffer;
            h \<leftarrow> qb_head buffer;
            Some (Some (h + qb_size buffer, left), buffer) })"

definition xu_queue_buffer_push_exit :: "queue_buffer \<Rightarrow> nat \<Rightarrow> queue_buffer" where
  "xu_queue_buffer_push_exit buffer n =
     (if qb_head buffer = None \<or> \<not> sz_add (qb_size buffer) n \<le> qb_maxn buffer then buffer
      else buffer\<lparr>qb_size := sz_add (qb_size buffer) n\<rparr>)"

text \<open>The bytes that the user puts at a place of the block.\<close>

definition queue_poke :: "queue_buffer \<Rightarrow> nat \<Rightarrow> u8 list \<Rightarrow> queue_buffer option" where
  "queue_poke buffer p bs = do {
     d \<leftarrow> qb_data buffer;
     d \<leftarrow> copy_in d p bs (length bs);
     Some (buffer\<lparr>qb_data := Some d\<rparr>) }"

end
