(* ===== verification/XBufferCorrect.thy ===== *)
theory XBufferCorrect
  imports XBuffer XCStringCorrect
begin

text \<open>
  The contract of a resizable buffer, what its operations do with the bytes it holds, proved once from the contract,
  and the two buffers as providers of the contract.
\<close>

section \<open>The contract\<close>

definition contents :: "'z static_buffer_scheme \<Rightarrow> u8 list" where
  "contents b = take (bf_size b) (the (bf_data b))"

text \<open>An operation succeeds or not; it leaves a buffer that holds the bytes, or the one it got.\<close>

definition yields :: "('z static_buffer_scheme \<Rightarrow> bool) \<Rightarrow> 'z outcome \<Rightarrow> 'z static_buffer_scheme \<Rightarrow> bool \<Rightarrow> u8 list \<Rightarrow> bool" where
  "yields valid r b ok xs \<longleftrightarrow> (\<exists>b'. r = Some (ok, b') \<and> valid b' \<and> (if ok then contents b' = xs else b' = b))"

text \<open>What the operations of a buffer do with the bytes it holds, for a position inside them: setting and copying replace
  the bytes from the position on, moving takes a part of them to the position and ends there, a concatenation appends.
  A move from the very end clears the buffer, a move to where the bytes are does nothing.\<close>

definition refines_bytes :: "('z static_buffer_scheme \<Rightarrow> bool) \<Rightarrow> 'z resizer
    \<Rightarrow> ('z static_buffer_scheme \<Rightarrow> nat \<Rightarrow> u8 \<Rightarrow> nat \<Rightarrow> 'z outcome)
    \<Rightarrow> ('z static_buffer_scheme \<Rightarrow> nat \<Rightarrow> u8 list option \<Rightarrow> nat \<Rightarrow> 'z outcome)
    \<Rightarrow> ('z static_buffer_scheme \<Rightarrow> nat \<Rightarrow> nat \<Rightarrow> nat \<Rightarrow> 'z outcome)
    \<Rightarrow> ('z static_buffer_scheme \<Rightarrow> u8 list option \<Rightarrow> nat \<Rightarrow> 'z outcome) \<Rightarrow> bool" where
  "refines_bytes valid resize memnsetp memncpyp memnmovp memncat \<longleftrightarrow>
     (\<forall>b p n c src q. valid b \<and> p \<le> length (contents b) \<and> 0 < n \<and> length (contents b) + n < 2 ^ 64 \<longrightarrow>
        yields valid (memnsetp b p c n) b (fst (resize b (p + n))) (take p (contents b) @ replicate n c) \<and>
        (n \<le> length src \<longrightarrow>
          yields valid (memncpyp b p (Some src) n) b (fst (resize b (p + n))) (take p (contents b) @ take n src) \<and>
          yields valid (memncat b (Some src) n) b (fst (resize b (length (contents b) + n))) (contents b @ take n src)) \<and>
        (q + n \<le> length (contents b) \<and> p \<noteq> q \<longrightarrow>
          yields valid (memnmovp b p q n) b (fst (resize b (p + n))) (take p (contents b) @ take n (drop q (contents b)))) \<and>
        yields valid (memnmovp b p (length (contents b)) 0) b True [] \<and>
        (q + n \<le> length (contents b) \<longrightarrow> yields valid (memnmovp b q q n) b True (contents b)))"

lemma refines_memncat:
  "refines_bytes valid resize memnsetp memncpyp memnmovp memncat \<Longrightarrow> valid b \<Longrightarrow> 0 < n \<Longrightarrow>
     length (contents b) + n < 2 ^ 64 \<Longrightarrow> n \<le> length src \<Longrightarrow>
     yields valid (memncat b (Some src) n) b (fst (resize b (length (contents b) + n))) (contents b @ take n src)"
  unfolding refines_bytes_def by blast

locale resizable =
  fixes resize :: "'z resizer" and valid :: "'z static_buffer_scheme \<Rightarrow> bool"
  assumes fits: "valid b \<Longrightarrow> \<exists>d. bf_data b = Some d \<and> bf_size b \<le> length d \<and> length d < 2 ^ 64"
    and refused: "valid b \<Longrightarrow> resize b n = (False, b') \<Longrightarrow> b' = b"
    and resizes: "valid b \<Longrightarrow> resize b n = (True, b') \<Longrightarrow> valid b' \<and> bf_size b' = n"
    and kept: "valid b \<Longrightarrow> resize b n = (True, b') \<Longrightarrow> bf_size b \<le> length (the (bf_data b'))
      \<and> take (bf_size b) (the (bf_data b')) = contents b"
    and shrinks: "valid b \<Longrightarrow> 0 < n \<Longrightarrow> n \<le> bf_size b \<Longrightarrow> fst (resize b n)"
    and written: "valid b \<Longrightarrow> bf_data b = Some e \<Longrightarrow> length d = length e \<Longrightarrow> valid (b\<lparr>bf_data := Some d\<rparr>)"
    and cleared: "valid b \<Longrightarrow> valid (b\<lparr>bf_size := 0\<rparr>)"
begin

lemma length_contents: "valid b \<Longrightarrow> length (contents b) = bf_size b"
  using fits [of b] by (auto simp: contents_def)

lemma size_small: "valid b \<Longrightarrow> bf_size b < 2 ^ 64"
  using fits [of b] by auto

text \<open>Resizing and writing with a function that keeps the length.\<close>

lemma resized_write:
  assumes b: "valid b" and w: "\<And>d. n \<le> length d \<Longrightarrow> bf_size b \<le> length d \<Longrightarrow> take (bf_size b) d = contents b \<Longrightarrow>
    \<exists>d'. write d = Some d' \<and> length d' = length d \<and> take n d' = xs"
  shows "yields valid (resized resize b n write) b (fst (resize b n)) xs"
proof (cases "resize b n")
  case (Pair ok b')
  show ?thesis
  proof (cases ok)
    case False
    then have "b' = b" using refused [OF b] Pair by simp
    then show ?thesis using False b Pair by (simp add: yields_def resized_def)
  next
    case True
    have p: "resize b n = (True, b')" using Pair True by simp
    note r = resizes [OF b p] kept [OF b p]
    obtain d where d: "bf_data b' = Some d" "n \<le> length d" using fits [of b'] r by auto
    obtain d' where "write d = Some d'" "length d' = length d" "take n d' = xs" using w [of d] d r by auto
    then show ?thesis using Pair True d r written [of b' d d'] by (simp add: yields_def resized_def contents_def)
  qed
qed

lemma the_data_yields: "valid b \<Longrightarrow> yields valid (the_data b) b True (contents b)"
  using fits [of b] by (auto simp: yields_def the_data_def)

lemma memnsetp_yields:
  assumes "valid b" and "p \<le> bf_size b" and "0 < n" and "p + n < 2 ^ 64"
  shows "yields valid (buffer_memnsetp resize b p c n) b (fst (resize b (p + n))) (take p (contents b) @ replicate n c)"
proof -
  have "\<exists>d'. xu_memset d p c n = Some d' \<and> length d' = length d \<and> take (p + n) d' = take p (contents b) @ replicate n c"
    if d: "p + n \<le> length d" "take (bf_size b) d = contents b" for d
  proof -
    have "take p (contents b) = take p d" using d(2) assms(2) by (metis min.absorb1 take_take)
    then have "take (p + n) (mem_fill d p n c) = take p (contents b) @ replicate n c"
      by (intro nth_equalityI) (use d(1) in \<open>auto simp: nth_append\<close>)
    then show ?thesis using memory_blocks [of p n d p c] d(1) by simp
  qed
  then show ?thesis using resized_write [OF assms(1), of "p + n"] assms(3,4) by (simp add: buffer_memnsetp_def)
qed

lemma memncpyp_yields:
  assumes "valid b" and "p \<le> bf_size b" and "0 < n" and "p + n < 2 ^ 64" and "n \<le> length src"
  shows "yields valid (buffer_memncpyp resize b p (Some src) n) b (fst (resize b (p + n))) (take p (contents b) @ take n src)"
proof -
  have "\<exists>d'. copy_in d p src n = Some d' \<and> length d' = length d \<and> take (p + n) d' = take p (contents b) @ take n src"
    if d: "p + n \<le> length d" "take (bf_size b) d = contents b" for d
  proof -
    have "take p (contents b) = take p d" using d(2) assms(2) by (metis min.absorb1 take_take)
    then show ?thesis using d(1) assms(5) by (simp add: copy_in_def)
  qed
  then show ?thesis using resized_write [OF assms(1), of "p + n"] assms(3,4) by (simp add: buffer_memncpyp_def)
qed

lemma memncat_yields:
  assumes "valid b" and "0 < n" and "bf_size b + n < 2 ^ 64" and "n \<le> length src"
  shows "yields valid (buffer_memncat resize b (Some src) n) b (fst (resize b (bf_size b + n))) (contents b @ take n src)"
proof -
  have e: "take (bf_size b) (contents b) = contents b" by (simp add: contents_def)
  then have "yields valid (resized resize b (bf_size b + n) (\<lambda>d. copy_in d (bf_size b) src n)) b (fst (resize b (bf_size b + n))) (contents b @ take n src)"
    using memncpyp_yields [OF assms(1) order_refl assms(2-4)] assms(2,3) by (simp add: buffer_memncpyp_def)
  moreover have "contents b = []" if "bf_size b = 0" using that by (simp add: contents_def)
  ultimately show ?thesis using memncpyp_yields [OF assms(1), of 0 n src] assms
    by (cases "bf_size b = 0") (simp_all add: buffer_memncat_def buffer_size_def Let_def)
qed

lemma memnmovp_yields:
  assumes "valid b" and "p \<le> bf_size b" and "q + n \<le> bf_size b" and "p + n < 2 ^ 64"
  shows "yields valid (buffer_memnmovp resize b p q n) b
      (if q = bf_size b \<or> p = q \<or> n = 0 then True else fst (resize b (p + n)))
      (if q = bf_size b then [] else if p = q \<or> n = 0 then contents b else take p (contents b) @ take n (drop q (contents b)))"
proof -
  have small: "q + n < 2 ^ 64" using size_small [OF assms(1)] assms(3) by simp
  consider "q = bf_size b" | "q \<noteq> bf_size b" "p = q \<or> n = 0" | "q \<noteq> bf_size b" "p \<noteq> q" "n \<noteq> 0" by blast
  then show ?thesis
  proof cases
    case 1
    then show ?thesis using fits [OF assms(1)] cleared [OF assms(1)] assms(3) small
      by (auto simp: buffer_memnmovp_def buffer_size_def the_data_def buffer_clear_def yields_def contents_def)
  next
    case 2
    then show ?thesis using the_data_yields [OF assms(1)] assms(3) small by (auto simp: buffer_memnmovp_def buffer_size_def)
  next
    case 3
    have "\<exists>d'. xu_memmov d p q n = Some d' \<and> length d' = length d \<and>
        take (p + n) d' = take p (contents b) @ take n (drop q (contents b))"
      if d: "p + n \<le> length d" "bf_size b \<le> length d" "take (bf_size b) d = contents b" for d
    proof -
      have "take p (contents b) = take p d" using d(3) assms(2) by (metis min.absorb1 take_take)
      moreover have "take n (drop q (contents b)) = take n (drop q d)"
        unfolding d(3) [symmetric] using assms(3) by (simp add: drop_take min_def)
      moreover have "take (p + n) (mem_move d p q n) = take p d @ take n (drop q d)"
        by (intro nth_equalityI) (use d assms(3) in \<open>auto simp: nth_append\<close>)
      ultimately show ?thesis using memory_blocks [of p n d q] d assms(3) by simp
    qed
    then show ?thesis using resized_write [OF assms(1), of "p + n"] 3 assms(3,4) small
      by (simp add: buffer_memnmovp_def buffer_size_def)
  qed
qed

lemma bytes_refined:
  "refines_bytes valid resize (buffer_memnsetp resize) (buffer_memncpyp resize) (buffer_memnmovp resize) (buffer_memncat resize)"
  unfolding refines_bytes_def
proof (intro allI impI, elim conjE, intro conjI impI, goal_cases)
  case (1 b p n c src q)
  then show ?case using memnsetp_yields [of b p n c] by (simp add: length_contents)
next
  case (2 b p n c src q)
  then show ?case using memncpyp_yields [of b p n src] by (simp add: length_contents)
next
  case (3 b p n c src q)
  then show ?case using memncat_yields [of b n src] by (simp add: length_contents)
next
  case (4 b p n c src q)
  then show ?case using memnmovp_yields [of b p q n] by (auto simp: length_contents)
next
  case (5 b p n c src q)
  then show ?case using memnmovp_yields [of b p "bf_size b" 0] by (simp add: length_contents)
next
  case (6 b p n c src q)
  then show ?case using memnmovp_yields [of b q q n] by (auto simp: length_contents)
qed

end

section \<open>The buffers\<close>

definition static_inv :: "static_buffer \<Rightarrow> bool" where
  "static_inv b \<longleftrightarrow> (\<exists>d. bf_data b = Some d \<and> length d = bf_maxn b) \<and> bf_size b \<le> bf_maxn b \<and> bf_maxn b < 2 ^ 64"

interpretation static: resizable xu_static_buffer_resize static_inv
  by unfold_locales (auto simp: xu_static_buffer_resize_def static_inv_def contents_def split: if_splits)

definition buffer_inv :: "buffer \<Rightarrow> bool" where
  "buffer_inv b \<longleftrightarrow> (\<exists>d. bf_data b = Some d \<and> length d = bf_maxn b) \<and> bf_size b \<le> bf_maxn b \<and> bf_maxn b < 2 ^ 64 \<and>
     (case bf_array b of None \<Rightarrow> bf_maxn b = XU_BUFFER_ARRAY | Some a \<Rightarrow> length a = XU_BUFFER_ARRAY)"

text \<open>An allocator gives blocks of the size asked for, and a reallocation keeps what fits.\<close>

definition gives_blocks :: "byte_allocator \<Rightarrow> bool" where
  "gives_blocks ralloc \<longleftrightarrow> (\<forall>old n b. ralloc old n = Some b \<longrightarrow> length b = n \<and>
     (\<forall>d. old = Some d \<longrightarrow> take (length d) b = take n d))"

lemma align8_small: "xu_align8 x < 2 ^ 64"
  by (simp add: xu_align8_def sz_add_def)

lemma take_shorter: "length d \<le> n \<Longrightarrow> length b = n \<Longrightarrow> take (length d) b = take n d \<Longrightarrow> k \<le> length d \<Longrightarrow> take k b = take k d"
  by (metis min.absorb1 take_all take_take)

lemma growing: "gives_blocks ralloc \<Longrightarrow> resizable (xu_buffer_resize ralloc) buffer_inv"
proof unfold_locales
  fix b b' :: buffer and n
  assume r: "gives_blocks ralloc" and b: "buffer_inv b"
  show "xu_buffer_resize ralloc b n = (False, b') \<Longrightarrow> b' = b"
    by (auto simp: xu_buffer_resize_def Let_def split: if_splits option.splits)
  show "xu_buffer_resize ralloc b n = (True, b') \<Longrightarrow> buffer_inv b' \<and> bf_size b' = n"
    using r b align8_small by (auto simp: xu_buffer_resize_def buffer_inv_def gives_blocks_def Let_def split: if_splits option.splits)
  assume t: "xu_buffer_resize ralloc b n = (True, b')"
  obtain d where d: "bf_data b = Some d" "length d = bf_maxn b" "bf_size b \<le> length d" using b by (auto simp: buffer_inv_def)
  show "bf_size b \<le> length (the (bf_data b')) \<and> take (bf_size b) (the (bf_data b')) = contents b"
  proof (cases "n > bf_maxn b")
    case False
    then show ?thesis using t d by (auto simp: xu_buffer_resize_def contents_def split: if_splits)
  next
    case True
    let ?m = "xu_align8 (sz_add n XU_BUFFER_GROW_SIZE)"
    have m: "n \<le> ?m" using t d True by (auto simp: xu_buffer_resize_def Let_def split: if_splits)
    show ?thesis
    proof (cases "bf_array b")
      case None
      then obtain e where "ralloc None ?m = Some e" "bf_data b' = Some (take (bf_size b) d @ drop (bf_size b) e)"
        using t d True m by (auto simp: xu_buffer_resize_def Let_def split: if_splits option.splits)
      then show ?thesis using d by (simp add: contents_def)
    next
      case (Some a)
      then obtain e where e: "ralloc (Some d) ?m = Some e" "bf_data b' = Some e"
        using t d True m by (auto simp: xu_buffer_resize_def Let_def split: if_splits option.splits)
      then have "length e = ?m" "take (length d) e = take ?m d" using r by (auto simp: gives_blocks_def)
      then show ?thesis using take_shorter [of d ?m e "bf_size b"] e d True m by (simp add: contents_def)
    qed
  qed
qed (auto simp: buffer_inv_def xu_buffer_resize_def split: option.splits)

text \<open>When resizing succeeds.\<close>

lemma static_room: "static_inv b \<Longrightarrow> fst (xu_static_buffer_resize b n) \<longleftrightarrow> n \<le> bf_maxn b"
  by (auto simp: static_inv_def xu_static_buffer_resize_def)

lemma align8_grow:
  "n + 263 < 2 ^ 64 \<Longrightarrow> n \<le> xu_align8 (sz_add n XU_BUFFER_GROW_SIZE)"
  "2 ^ 64 - 256 \<le> n \<Longrightarrow> n < 2 ^ 64 \<Longrightarrow> xu_align8 (sz_add n XU_BUFFER_GROW_SIZE) < n"
proof -
  show "n + 263 < 2 ^ 64 \<Longrightarrow> n \<le> xu_align8 (sz_add n XU_BUFFER_GROW_SIZE)"
    by (simp add: xu_align8_def XU_BUFFER_GROW_SIZE_def)
  assume n: "2 ^ 64 - 256 \<le> n" "n < 2 ^ 64"
  then have "sz_add n XU_BUFFER_GROW_SIZE = n + 256 - 2 ^ 64"
    by (simp add: sz_add_def XU_BUFFER_GROW_SIZE_def mod_if)
  then have "sz_add n XU_BUFFER_GROW_SIZE < 256" using n by simp
  then have "xu_align8 (sz_add n XU_BUFFER_GROW_SIZE) \<le> 263" by (simp add: xu_align8_def)
  then show "xu_align8 (sz_add n XU_BUFFER_GROW_SIZE) < n" using n by simp
qed

lemma buffer_room:
  assumes "buffer_inv b" and "n + 263 < 2 ^ 64"
  shows "fst (xu_buffer_resize ralloc b n) \<longleftrightarrow> 0 < n \<and> (n \<le> bf_maxn b \<or>
    ralloc (if bf_array b = None then None else bf_data b) (xu_align8 (sz_add n XU_BUFFER_GROW_SIZE)) \<noteq> None)"
  using assms align8_grow(1) [of n] by (auto simp: buffer_inv_def xu_buffer_resize_def Let_def split: option.splits)

section \<open>The property\<close>

text \<open>The growing buffer and the buffer over a block do to the bytes they hold what lists do: setting and copying
  replace the bytes from a position on, moving keeps a part of them, concatenation appends, and an operation that
  finds no room changes nothing. The buffer over a block has room up to its size, the growing one as long as the allocator
  gives it a larger block; filling from a position to the end keeps the length in the growing buffer, while the buffer over a block
  fills as many bytes as it holds from the position on and grows.\<close>

theorem xu_buffers_refine_lists:
  assumes "gives_blocks ralloc" and "buffer_inv b" and "static_inv t"
  shows "refines_bytes buffer_inv (xu_buffer_resize ralloc) (xu_buffer_memnsetp ralloc) (xu_buffer_memncpyp ralloc)
      (xu_buffer_memnmovp ralloc) (xu_buffer_memncat ralloc) \<and>
    refines_bytes static_inv xu_static_buffer_resize xu_static_buffer_memnsetp xu_static_buffer_memncpyp
      xu_static_buffer_memnmovp xu_static_buffer_memncat \<and>
    (n + 263 < 2 ^ 64 \<longrightarrow> (fst (xu_buffer_resize ralloc b n) \<longleftrightarrow> 0 < n \<and> (n \<le> bf_maxn b \<or>
      ralloc (if bf_array b = None then None else bf_data b) (xu_align8 (sz_add n XU_BUFFER_GROW_SIZE)) \<noteq> None))) \<and>
    (fst (xu_static_buffer_resize t n) \<longleftrightarrow> n \<le> bf_maxn t) \<and>
    (p < length (contents b) \<longrightarrow> yields buffer_inv (xu_buffer_memsetp ralloc b p c) b True
      (take p (contents b) @ replicate (length (contents b) - p) c)) \<and>
    (p < length (contents t) \<and> p + length (contents t) \<le> bf_maxn t \<longrightarrow> yields static_inv (xu_static_buffer_memsetp t p c) t True
      (take p (contents t) @ replicate (length (contents t)) c)) \<and>
    (length a = XU_BUFFER_ARRAY \<longrightarrow> buffer_inv (xu_buffer_init a) \<and> contents (xu_buffer_init a) = []) \<and>
    buffer_inv (xu_buffer_exit b) \<and> contents (xu_buffer_exit b) = []"
proof -
  note g = growing [OF assms(1)]
  have b: "length (contents b) = bf_size b" "bf_size b \<le> bf_maxn b" "bf_maxn b < 2 ^ 64"
    using resizable.length_contents [OF g assms(2)] assms(2) by (simp_all add: buffer_inv_def)
  have t: "length (contents t) = bf_size t" "bf_size t \<le> bf_maxn t" "bf_maxn t < 2 ^ 64"
    using static.length_contents [OF assms(3)] assms(3) by (simp_all add: static_inv_def)
  have "yields buffer_inv (xu_buffer_memsetp ralloc b p c) b True (take p (contents b) @ replicate (length (contents b) - p) c)"
    if "p < length (contents b)"
    using resizable.memnsetp_yields [OF g assms(2), of p "bf_size b - p" c] resizable.shrinks [OF g assms(2), of "bf_size b"] that b
    by (simp add: xu_buffer_memsetp_def xu_buffer_memnsetp_def xu_buffer_size_def buffer_size_def)
  moreover have "yields static_inv (xu_static_buffer_memsetp t p c) t True (take p (contents t) @ replicate (length (contents t)) c)"
    if "p < length (contents t) \<and> p + length (contents t) \<le> bf_maxn t"
    using static.memnsetp_yields [OF assms(3), of p "bf_size t" c] static_room [OF assms(3)] that t
    by (simp add: xu_static_buffer_memsetp_def xu_static_buffer_memnsetp_def xu_static_buffer_size_def buffer_size_def)
  moreover have "length a = XU_BUFFER_ARRAY \<longrightarrow> buffer_inv (xu_buffer_init a) \<and> contents (xu_buffer_init a) = []"
    by (simp add: buffer_inv_def xu_buffer_init_def contents_def XU_BUFFER_ARRAY_def)
  moreover have "buffer_inv (xu_buffer_exit b) \<and> contents (xu_buffer_exit b) = []"
    using assms(2) by (auto simp: buffer_inv_def xu_buffer_exit_def buffer_clear_def contents_def XU_BUFFER_ARRAY_def split: option.splits)
  ultimately show ?thesis
    using resizable.bytes_refined [OF g] static.bytes_refined buffer_room [OF assms(2), of n ralloc] static_room [OF assms(3)]
    by (simp add: xu_buffer_memnsetp_def xu_buffer_memncpyp_def xu_buffer_memnmovp_def xu_buffer_memncat_def
        xu_static_buffer_memnsetp_def xu_static_buffer_memncpyp_def xu_static_buffer_memnmovp_def xu_static_buffer_memncat_def)
qed

text \<open>An allocator that fills its blocks with a byte.\<close>

definition sample_blocks :: byte_allocator where
  "sample_blocks old n = Some (case old of None \<Rightarrow> replicate n 7 | Some d \<Rightarrow> take n d @ replicate (n - length d) 7)"

lemma sample_blocks_give: "gives_blocks sample_blocks"
  by (auto simp: gives_blocks_def sample_blocks_def min_def split: option.splits)

theorem xu_buffers_refine_lists_witness:
  "(\<exists>b. xu_buffer_memncat sample_blocks (xu_buffer_init (replicate 64 0)) (Some [1, 2, 3]) 2 = Some (True, b) \<and> contents b = [1, 2]) \<and>
   (\<exists>t. xu_static_buffer_memsetp \<lparr>bf_data = Some [1, 2, 3, 4, 5], bf_size = 3, bf_maxn = 5\<rparr> 1 9 = Some (True, t) \<and> contents t = [1, 9, 9, 9])"
proof -
  let ?b = "xu_buffer_init (replicate 64 0)" and ?t = "\<lparr>bf_data = Some [1, 2, 3, 4, 5], bf_size = 3, bf_maxn = 5\<rparr> :: static_buffer"
  have i: "buffer_inv ?b" "contents ?b = []" "bf_maxn ?b = 64" "static_inv ?t" "contents ?t = [1, 2, 3]"
    by (simp_all add: buffer_inv_def xu_buffer_init_def contents_def XU_BUFFER_ARRAY_def static_inv_def)
  note w = xu_buffers_refine_lists [OF sample_blocks_give i(1,4), where n = 2 and p = 1 and c = 9]
  have "refines_bytes buffer_inv (xu_buffer_resize sample_blocks) (xu_buffer_memnsetp sample_blocks) (xu_buffer_memncpyp sample_blocks)
      (xu_buffer_memnmovp sample_blocks) (xu_buffer_memncat sample_blocks)" and room: "fst (xu_buffer_resize sample_blocks ?b 2)"
    using w i by simp_all
  then have "yields buffer_inv (xu_buffer_memncat sample_blocks ?b (Some [1, 2, 3]) 2) ?b (fst (xu_buffer_resize sample_blocks ?b (0 + 2)))
      ([] @ take 2 [1, 2, 3])"
    using refines_memncat [of _ _ _ _ _ _ ?b 2 "[1, 2, 3]"] i by simp
  then have "yields buffer_inv (xu_buffer_memncat sample_blocks ?b (Some [1, 2, 3]) 2) ?b True [1, 2]" using room by (simp add: numeral_2_eq_2)
  moreover have "yields static_inv (xu_static_buffer_memsetp ?t 1 9) ?t True [1, 9, 9, 9]"
    using w i by (simp add: numeral_3_eq_3)
  ultimately show ?thesis by (auto simp: yields_def)
qed

end
