(* ===== verification/XQueueBufferCorrect.thy ===== *)
theory XQueueBufferCorrect
  imports XQueueBuffer XBufferCorrect
begin

text \<open>
  The queue of bytes is a queue: what is taken off it is what was put into it, in the same order, for every sequence of calls.
\<close>

definition queue_inv :: "queue_buffer \<Rightarrow> bool" where
  "queue_inv b \<longleftrightarrow> qb_size b \<le> qb_maxn b \<and> qb_maxn b < 2 ^ 64 \<and>
     (case qb_data b of
        None \<Rightarrow> qb_head b = None
      | Some d \<Rightarrow> qb_maxn b \<le> length d \<and> (\<exists>h. qb_head b = Some h \<and> h + qb_size b \<le> qb_maxn b))"

text \<open>The bytes in the queue; a buffer that has lost its block holds none.\<close>

definition queued :: "queue_buffer \<Rightarrow> u8 list" where
  "queued b = (case qb_data b of None \<Rightarrow> [] | Some d \<Rightarrow> take (qb_size b) (drop (the (qb_head b)) d))"

lemma queue_block:
  assumes "queue_inv b" and "qb_data b = Some d"
  obtains h where "qb_head b = Some h" "h + qb_size b \<le> qb_maxn b" "qb_maxn b \<le> length d" "qb_maxn b < 2 ^ 64"
    "queued b = take (qb_size b) (drop h d)" "length (queued b) = qb_size b"
  using assms by (auto simp: queue_inv_def queued_def)

lemma queued_none [simp]: "qb_data b = None \<Longrightarrow> queued b = []"
  by (simp add: queued_def)

lemma move_first_keeps:
  assumes "queue_inv b" and "qb_data b = Some d"
  shows "\<exists>d'. move_first b = Some (b\<lparr>qb_data := Some d', qb_head := Some 0\<rparr>) \<and> length d' = length d \<and> take (qb_size b) d' = queued b"
proof -
  obtain h where h: "qb_head b = Some h" "h + qb_size b \<le> qb_maxn b" "qb_maxn b \<le> length d" "queued b = take (qb_size b) (drop h d)"
    using queue_block [OF assms] by metis
  show ?thesis
  proof (cases "h = 0")
    case True
    then show ?thesis using h assms(2) by (auto simp: move_first_def intro!: exI [of _ d])
  next
    case False
    have "take (qb_size b) (mem_move d 0 h (qb_size b)) = take (qb_size b) (drop h d)"
      by (intro nth_equalityI) (use h in auto)
    then show ?thesis using h assms(2) False memory_blocks [of 0 "qb_size b" d h]
      by (auto simp: move_first_def head_first_def)
  qed
qed

lemma take_off_keeps:
  assumes "queue_inv b" and "qb_data b = Some d" and "n \<le> qb_size b"
  shows "queue_inv (take_off b n) \<and> queued (take_off b n) = drop n (queued b) \<and> qb_maxn (take_off b n) = qb_maxn b \<and>
    qb_data (take_off b n) = Some d"
proof -
  obtain h where h: "qb_head b = Some h" "h + qb_size b \<le> qb_maxn b" "qb_maxn b \<le> length d" "queued b = take (qb_size b) (drop h d)"
    using queue_block [OF assms(1,2)] by metis
  then show ?thesis using assms by (auto simp: take_off_def head_first_def queue_inv_def queued_def drop_take Let_def add.commute)
qed

lemma read_queue:
  assumes "queue_inv b"
  shows "\<exists>b'. xu_queue_buffer_read b n = Some (int (min n (length (queued b))), take n (queued b), b') \<and> queue_inv b' \<and>
    queued b' = drop n (queued b) \<and> qb_maxn b' = qb_maxn b"
proof (cases "qb_data b")
  case None
  then show ?thesis using assms by (simp add: xu_queue_buffer_read_def)
next
  case (Some d)
  obtain h where h: "qb_head b = Some h" "h + qb_size b \<le> qb_maxn b" "qb_maxn b \<le> length d" "queued b = take (qb_size b) (drop h d)"
    "length (queued b) = qb_size b"
    using queue_block [OF assms Some] by metis
  show ?thesis
  proof (cases "qb_size b = 0 \<or> n = 0")
    case True
    then show ?thesis using Some h assms by (auto simp: xu_queue_buffer_read_def)
  next
    case False
    let ?r = "min n (qb_size b)"
    have q: "take n (queued b) = take ?r (drop h d)" "drop n (queued b) = drop ?r (queued b)" using h by (auto simp: min_def)
    have r: "(if qb_size b > n then n else qb_size b) = ?r" by simp
    have "xu_queue_buffer_read b n = Some (int ?r, take n (queued b), take_off b ?r)"
      using Some h False unfolding xu_queue_buffer_read_def r q(1) by (simp add: Let_def)
    then show ?thesis using h(5) q(2) take_off_keeps [OF assms Some, of ?r] by simp
  qed
qed

lemma skip_queue:
  assumes "queue_inv b"
  shows "\<exists>b'. xu_queue_buffer_skip b n = (int (min n (length (queued b))), b') \<and> queue_inv b' \<and>
    queued b' = drop n (queued b) \<and> qb_maxn b' = qb_maxn b"
proof (cases "qb_data b")
  case None
  then show ?thesis using assms by (simp add: xu_queue_buffer_skip_def)
next
  case (Some d)
  obtain h where h: "qb_head b = Some h" "length (queued b) = qb_size b" using queue_block [OF assms Some] by metis
  let ?r = "min n (qb_size b)"
  have q: "drop n (queued b) = drop ?r (queued b)" using h by (auto simp: min_def)
  have r: "(if qb_size b > n then n else qb_size b) = ?r" by simp
  show ?thesis
  proof (cases "qb_size b = 0 \<or> n = 0")
    case True
    then show ?thesis using Some h assms by (auto simp: xu_queue_buffer_skip_def)
  next
    case False
    then have "xu_queue_buffer_skip b n = (int ?r, take_off b ?r)"
      using Some h unfolding xu_queue_buffer_skip_def r by (simp add: Let_def)
    then show ?thesis using h q take_off_keeps [OF assms Some, of ?r] by simp
  qed
qed

lemma made_block:
  assumes "queue_inv b" and "gives_blocks ralloc"
  shows "queue_inv (make_data ralloc b) \<and> queued (make_data ralloc b) = queued b \<and> qb_maxn (make_data ralloc b) = qb_maxn b \<and>
    (qb_data b \<noteq> None \<or> ralloc None (qb_maxn b) \<noteq> None \<longleftrightarrow> qb_data (make_data ralloc b) \<noteq> None)"
  using assms by (auto simp: make_data_def queue_inv_def queued_def gives_blocks_def split: option.splits)

text \<open>The bytes that come behind those in the queue.\<close>

lemma appended:
  assumes d: "qb_data b = Some d" "qb_head b = Some h" "h + qb_size b + n \<le> qb_maxn b" "qb_maxn b \<le> length d" "qb_maxn b < 2 ^ 64"
    and n: "n \<le> length bs" and q: "queued b = take (qb_size b) (drop h d)"
  shows "\<exists>d'. copy_in d (h + qb_size b) bs n = Some d' \<and>
    queue_inv (b\<lparr>qb_data := Some d', qb_size := qb_size b + n\<rparr>) \<and>
    queued (b\<lparr>qb_data := Some d', qb_size := qb_size b + n\<rparr>) = queued b @ take n bs"
proof -
  let ?d = "take (h + qb_size b) d @ take n bs @ drop (h + qb_size b + n) d"
  have c: "copy_in d (h + qb_size b) bs n = Some ?d" using d n by (simp add: copy_in_def)
  have l: "length ?d = length d" using d n by simp
  have "take (qb_size b + n) (drop h ?d) = take (qb_size b) (drop h d) @ take n bs"
    using d n by (simp add: drop_take)
  then show ?thesis using c d l q by (auto simp: queue_inv_def queued_def)
qed

lemma writ_queue:
  assumes b: "queue_inv b" and r: "gives_blocks ralloc" and n: "n \<le> length bs"
  defines "k \<equiv> (if qb_maxn b = 0 \<or> qb_data b = None \<and> ralloc None (qb_maxn b) = None then 0 else min n (qb_maxn b - length (queued b)))"
  shows "\<exists>b' c. xu_queue_buffer_writ ralloc b bs n = Some (c, b') \<and> queue_inv b' \<and> queued b' = queued b @ take k bs \<and>
    qb_maxn b' = qb_maxn b \<and> nat c = k"
proof (cases "qb_maxn b = 0")
  case True
  then show ?thesis using b by (simp add: xu_queue_buffer_writ_def k_def)
next
  case False
  let ?b = "make_data ralloc b"
  note m = made_block [OF b r]
  show ?thesis
  proof (cases "qb_data ?b")
    case None
    then have "qb_head ?b = None" using m by (simp add: queue_inv_def)
    then show ?thesis using m None False by (simp add: xu_queue_buffer_writ_def k_def)
  next
    case (Some d)
    obtain h where h: "qb_head ?b = Some h" "h + qb_size ?b \<le> qb_maxn b" "qb_maxn b \<le> length d" "qb_maxn b < 2 ^ 64"
      "queued ?b = take (qb_size ?b) (drop h d)" "length (queued b) = qb_size ?b"
      using queue_block [of ?b d] m Some by metis
    have k: "k = min n (qb_maxn b - qb_size ?b)" using m Some False h(6) by (auto simp: k_def)
    show ?thesis
    proof (cases "qb_maxn b - qb_size ?b = 0")
      case True
      then show ?thesis using m Some False h k by (simp add: xu_queue_buffer_writ_def)
    next
      case left: False
      show ?thesis
      proof (cases "h + qb_size ?b + n \<le> qb_maxn b")
        case True
        then have "k = n" using k by simp
        moreover obtain d' where "copy_in d (h + qb_size ?b) bs n = Some d'"
          "queue_inv (?b\<lparr>qb_data := Some d', qb_size := qb_size ?b + n\<rparr>)"
          "queued (?b\<lparr>qb_data := Some d', qb_size := qb_size ?b + n\<rparr>) = queued b @ take n bs"
          using appended [of ?b d h n bs] Some h True n m by auto
        ultimately show ?thesis using Some h False left True m by (simp add: xu_queue_buffer_writ_def Let_def)
      next
        case late: False
        obtain d1 where d1: "move_first ?b = Some (?b\<lparr>qb_data := Some d1, qb_head := Some 0\<rparr>)" "length d1 = length d"
          "take (qb_size ?b) d1 = queued ?b"
          using move_first_keeps [of ?b d] m Some by blast
        let ?c = "?b\<lparr>qb_data := Some d1, qb_head := Some 0\<rparr>"
        have q: "queued ?c = queued b" using d1 m by (simp add: queued_def)
        have w: "(if qb_maxn b - qb_size ?b > n then n else qb_maxn b - qb_size ?b) = k" using k by simp
        obtain d' where "copy_in d1 (qb_size ?b) bs k = Some d'"
          "queue_inv (?c\<lparr>qb_data := Some d', qb_size := qb_size ?b + k\<rparr>)"
          "queued (?c\<lparr>qb_data := Some d', qb_size := qb_size ?b + k\<rparr>) = queued b @ take k bs"
        proof -
          have kl: "0 + qb_size ?c + k \<le> qb_maxn ?c" "qb_maxn ?c \<le> length d1" "qb_maxn ?c < 2 ^ 64" "k \<le> length bs"
            using k left h(2-4) d1(2) m n by auto
          have "queued ?c = take (qb_size ?c) (drop 0 d1)" by (simp add: queued_def)
          from appended [OF _ _ kl this] show ?thesis using that unfolding q by auto
        qed
        then show ?thesis using Some h False left late m d1 w by (simp add: xu_queue_buffer_writ_def Let_def)
      qed
    qed
  qed
qed

lemma clear_queue:
  assumes "queue_inv b"
  shows "queue_inv (xu_queue_buffer_clear b)" and "queued (xu_queue_buffer_clear b) = []"
  using assms by (auto simp: xu_queue_buffer_clear_def head_first_def queue_inv_def queued_def split: option.splits)

lemma pull_queue:
  assumes b: "queue_inv b" and p: "xu_queue_buffer_pull_init b = Some (h, n)" and k: "k \<le> n"
  shows "qb_head b = Some h" and "n = length (queued b)" and "\<exists>d. qb_data b = Some d \<and> take n (drop h d) = queued b"
    and "queue_inv (xu_queue_buffer_pull_exit b k)" and "queued (xu_queue_buffer_pull_exit b k) = drop k (queued b)"
proof -
  obtain d where d: "qb_data b = Some d" using p by (auto simp: xu_queue_buffer_pull_init_def split: if_splits)
  obtain h' where h: "qb_head b = Some h'" "queued b = take (qb_size b) (drop h' d)" "length (queued b) = qb_size b"
    using queue_block [OF b d] by metis
  have n: "h = h'" "n = qb_size b" using p h d by (auto simp: xu_queue_buffer_pull_init_def split: if_splits)
  show "qb_head b = Some h" "n = length (queued b)" "\<exists>d. qb_data b = Some d \<and> take n (drop h d) = queued b"
    using n h d by auto
  have "xu_queue_buffer_pull_exit b k = take_off b k" using h n k by (simp add: xu_queue_buffer_pull_exit_def)
  then show "queue_inv (xu_queue_buffer_pull_exit b k)" "queued (xu_queue_buffer_pull_exit b k) = drop k (queued b)"
    using take_off_keeps [OF b d] k n by auto
qed

text \<open>Preparing to push answers a place behind the bytes with all the room there is.\<close>

lemma push_init_queue:
  assumes b: "queue_inv b" and r: "gives_blocks ralloc"
  shows "\<exists>o' b'. xu_queue_buffer_push_init ralloc b = Some (o', b') \<and> queue_inv b' \<and> queued b' = queued b \<and> qb_maxn b' = qb_maxn b \<and>
    (\<forall>p n. o' = Some (p, n) \<longrightarrow> qb_head b' = Some 0 \<and> p = qb_size b' \<and> qb_data b' \<noteq> None \<and> n = qb_maxn b - length (queued b))"
proof (cases "qb_maxn b = 0")
  case True
  then show ?thesis using b by (simp add: xu_queue_buffer_push_init_def)
next
  case False
  let ?b = "make_data ralloc b"
  note m = made_block [OF b r]
  show ?thesis
  proof (cases "qb_data ?b")
    case None
    then show ?thesis using m False by (simp add: xu_queue_buffer_push_init_def)
  next
    case (Some d)
    obtain h where h: "qb_head ?b = Some h" "h + qb_size ?b \<le> qb_maxn b" "qb_maxn b \<le> length d" "qb_maxn b < 2 ^ 64"
      "length (queued b) = qb_size ?b"
      using queue_block [of ?b d] m Some by metis
    obtain d1 where d1: "move_first ?b = Some (?b\<lparr>qb_data := Some d1, qb_head := Some 0\<rparr>)" "length d1 = length d"
      "take (qb_size ?b) d1 = queued ?b"
      using move_first_keeps [of ?b d] m Some by blast
    have "queue_inv (?b\<lparr>qb_data := Some d1, qb_head := Some 0\<rparr>)" "queued (?b\<lparr>qb_data := Some d1, qb_head := Some 0\<rparr>) = queued b"
      using d1 m h by (auto simp: queue_inv_def queued_def)
    then show ?thesis using Some h False d1 m by (cases "qb_maxn b = qb_size ?b") (simp_all add: xu_queue_buffer_push_init_def Let_def)
  qed
qed

lemma push_queue:
  assumes b: "queue_inv b" and r: "gives_blocks ralloc" and p: "xu_queue_buffer_push_init ralloc b = Some (Some (p, n), b1)"
    and bs: "length bs \<le> n"
  shows "\<exists>b2. queue_poke b1 p bs = Some b2 \<and> queue_inv (xu_queue_buffer_push_exit b2 (length bs)) \<and>
    queued (xu_queue_buffer_push_exit b2 (length bs)) = queued b @ bs"
proof -
  have b1: "queue_inv b1" "queued b1 = queued b" "qb_maxn b1 = qb_maxn b" "qb_head b1 = Some 0" "p = qb_size b1" "qb_data b1 \<noteq> None"
    "n = qb_maxn b - length (queued b)"
    using push_init_queue [OF b r] p by auto
  obtain d where d: "qb_data b1 = Some d" using b1(6) by blast
  have h: "qb_size b1 \<le> qb_maxn b1" "qb_maxn b1 \<le> length d" "qb_maxn b1 < 2 ^ 64" "queued b1 = take (qb_size b1) (drop 0 d)"
    "length (queued b1) = qb_size b1"
    using queue_block [OF b1(1) d] b1(4) by (metis add_0 option.inject)+
  have "0 + qb_size b1 + length bs \<le> qb_maxn b1" using h(1,5) b1(2,3,7) bs by simp
  from appended [OF d b1(4) this h(2,3) order_refl h(4)]
  obtain d' where c: "copy_in d (0 + qb_size b1) bs (length bs) = Some d'"
    "queue_inv (b1\<lparr>qb_data := Some d', qb_size := qb_size b1 + length bs\<rparr>)"
    "queued (b1\<lparr>qb_data := Some d', qb_size := qb_size b1 + length bs\<rparr>) = queued b1 @ bs" by auto
  have poke: "queue_poke b1 p bs = Some (b1\<lparr>qb_data := Some d'\<rparr>)" using c(1) d b1(5) by (simp add: queue_poke_def)
  have "qb_size b1 + length bs < 2 ^ 64" using h(3) \<open>0 + qb_size b1 + length bs \<le> qb_maxn b1\<close> by linarith
  then have "xu_queue_buffer_push_exit (b1\<lparr>qb_data := Some d'\<rparr>) (length bs) = b1\<lparr>qb_data := Some d', qb_size := qb_size b1 + length bs\<rparr>"
    using \<open>0 + qb_size b1 + length bs \<le> qb_maxn b1\<close> b1(4) by (simp add: xu_queue_buffer_push_exit_def sz_add_small)
  then show ?thesis using poke c b1(2) by simp
qed

text \<open>Resizing keeps the bytes, unless the block is lost when there is no other.\<close>

lemma resize_queue:
  assumes b: "queue_inv b" and r: "gives_blocks ralloc" and n: "n < 2 ^ 64"
  shows "\<exists>ok b'. xu_queue_buffer_resize ralloc b n = Some (ok, b') \<and> queue_inv b' \<and>
    queued b' = (if qb_data b \<noteq> None \<and> qb_data b' = None then [] else queued b)"
proof (cases "n = 0 \<or> \<not> qb_size b \<le> n")
  case True
  then show ?thesis using b by (auto simp: xu_queue_buffer_resize_def)
next
  case False
  show ?thesis
  proof (cases "qb_data b")
    case None
    then show ?thesis using b False n by (auto simp: xu_queue_buffer_resize_def queue_inv_def queued_def)
  next
    case (Some d)
    obtain h where h: "qb_head b = Some h" "h + qb_size b \<le> qb_maxn b" "qb_maxn b \<le> length d" "qb_maxn b < 2 ^ 64"
      "length (queued b) = qb_size b"
      using queue_block [OF b Some] by metis
    obtain d1 where d1: "move_first b = Some (b\<lparr>qb_data := Some d1, qb_head := Some 0\<rparr>)" "length d1 = length d"
      "take (qb_size b) d1 = queued b"
      using move_first_keeps [OF b Some] by blast
    show ?thesis
    proof (cases "n > qb_maxn b")
      case grow: True
      show ?thesis
      proof (cases "ralloc (Some d1) n")
        case None
        then show ?thesis using Some d1 False grow h b
          by (auto simp: xu_queue_buffer_resize_def queue_inv_def queued_def Let_def)
      next
        case (Some d2)
        then have l: "length d2 = n" "take (length d1) d2 = take n d1" using r by (auto simp: gives_blocks_def)
        have "take (qb_size b) (take (length d1) d2) = take (qb_size b) (take n d1)" by (simp only: l(2))
        then have "take (qb_size b) d2 = take (qb_size b) d1" using h(2,3) grow d1(2) by (simp add: min_def split: if_splits)
        then show ?thesis using Some \<open>qb_data b = Some d\<close> d1 False grow h n l
          by (auto simp: xu_queue_buffer_resize_def queue_inv_def queued_def head_first_def Let_def)
      qed
    next
      case fit: False
      then show ?thesis using Some d1 False h n
        by (auto simp: xu_queue_buffer_resize_def queue_inv_def queued_def)
    qed
  qed
qed

section \<open>Sequences of calls\<close>

text \<open>A call with the bytes that it puts into the queue and those that it takes off; what a skip or a clearing drops is
  taken off. A resizing that loses the block is not among them.\<close>

inductive queue_step :: "queue_buffer \<Rightarrow> u8 list \<Rightarrow> u8 list \<Rightarrow> queue_buffer \<Rightarrow> bool" where
  writ: "gives_blocks ralloc \<Longrightarrow> n \<le> length bs \<Longrightarrow> xu_queue_buffer_writ ralloc b bs n = Some (c, b')
    \<Longrightarrow> queue_step b (take (nat c) bs) [] b'"
| read: "xu_queue_buffer_read b n = Some (c, bs, b') \<Longrightarrow> queue_step b [] bs b'"
| skip: "xu_queue_buffer_skip b n = (c, b') \<Longrightarrow> queue_step b [] (take (nat c) (queued b)) b'"
| clear: "queue_step b [] (queued b) (xu_queue_buffer_clear b)"
| pull: "xu_queue_buffer_pull_init b = Some (h, n) \<Longrightarrow> k \<le> n \<Longrightarrow> qb_data b = Some d
    \<Longrightarrow> queue_step b [] (take k (drop h d)) (xu_queue_buffer_pull_exit b k)"
| push: "gives_blocks ralloc \<Longrightarrow> xu_queue_buffer_push_init ralloc b = Some (Some (p, n), b1) \<Longrightarrow> length bs \<le> n
    \<Longrightarrow> queue_poke b1 p bs = Some b2 \<Longrightarrow> queue_step b bs [] (xu_queue_buffer_push_exit b2 (length bs))"
| no_push: "gives_blocks ralloc \<Longrightarrow> xu_queue_buffer_push_init ralloc b = Some (None, b') \<Longrightarrow> queue_step b [] [] b'"
| resize: "gives_blocks ralloc \<Longrightarrow> n < 2 ^ 64 \<Longrightarrow> xu_queue_buffer_resize ralloc b n = Some (ok, b')
    \<Longrightarrow> \<not> (qb_data b \<noteq> None \<and> qb_data b' = None) \<Longrightarrow> queue_step b [] [] b'"

inductive queue_run :: "queue_buffer \<Rightarrow> u8 list \<Rightarrow> u8 list \<Rightarrow> queue_buffer \<Rightarrow> bool" where
  queue_start: "queue_run b [] [] b"
| queue_next: "queue_run b put got b1 \<Longrightarrow> queue_step b1 ps gs b2 \<Longrightarrow> queue_run b (put @ ps) (got @ gs) b2"

lemma queue_step_keeps:
  assumes "queue_step b ps gs b'" and "queue_inv b"
  shows "queue_inv b' \<and> queued b @ ps = gs @ queued b'"
  using assms
proof (induction rule: queue_step.induct)
  case (writ ralloc n bs b c b')
  then show ?case using writ_queue [of b ralloc n bs] by force
next
  case (read b n c bs b')
  then show ?case using read_queue [of b n] by force
next
  case (skip b n c b')
  then show ?case using skip_queue [of b n] by (auto simp: min_def)
next
  case (clear b)
  then show ?case using clear_queue by simp
next
  case (pull b h n k d)
  have "take k (drop h d) = take k (queued b)" using pull_queue(3) [OF pull.prems pull.hyps(1,2)] pull.hyps(2,3)
    by (metis min.absorb1 option.inject take_take)
  then show ?case using pull_queue(4,5) [OF pull.prems pull.hyps(1,2)] by simp
next
  case (push ralloc b p n b1 bs b2)
  then show ?case using push_queue [of b ralloc p n b1 bs] by auto
next
  case (no_push ralloc b b')
  then show ?case using push_init_queue [of b ralloc] by auto
next
  case (resize ralloc n b ok b')
  then show ?case using resize_queue [of b ralloc n] by auto
qed

text \<open>For every sequence of calls on a new queue, the bytes put into it are those taken off it and those still in it, in this
  order, and every call ends without leaving the block.\<close>

theorem xu_queue_buffer_fifo:
  assumes "queue_run (xu_queue_buffer_init maxn) put got b" and "maxn < 2 ^ 64"
  shows "queue_inv b \<and> put = got @ queued b \<and> length (queued b) \<le> qb_maxn b
    \<and> (\<forall>ralloc bs n. gives_blocks ralloc \<longrightarrow> n \<le> length bs \<longrightarrow> xu_queue_buffer_writ ralloc b bs n \<noteq> None)
    \<and> (\<forall>n. xu_queue_buffer_read b n \<noteq> None)
    \<and> (\<forall>ralloc. gives_blocks ralloc \<longrightarrow> xu_queue_buffer_push_init ralloc b \<noteq> None)
    \<and> (\<forall>ralloc n. gives_blocks ralloc \<longrightarrow> n < 2 ^ 64 \<longrightarrow> xu_queue_buffer_resize ralloc b n \<noteq> None)"
proof -
  have i: "queue_inv b \<and> put = got @ queued b"
    using assms(1)
  proof (induction "xu_queue_buffer_init maxn" put got b rule: queue_run.induct)
    case queue_start
    then show ?case using assms(2) by (simp add: queue_inv_def xu_queue_buffer_init_def)
  next
    case (queue_next put got b1 ps gs b2)
    then show ?case using queue_step_keeps [of b1 ps gs b2] by simp
  qed
  have "length (queued b) \<le> qb_maxn b" using i by (auto simp: queued_def queue_inv_def split: option.splits)
  moreover have "xu_queue_buffer_writ ralloc b bs n \<noteq> None" if "gives_blocks ralloc" "n \<le> length bs" for ralloc bs n
    using writ_queue [of b, OF _ that] i by auto
  moreover have "xu_queue_buffer_read b n \<noteq> None" for n using read_queue [of b n] i by auto
  moreover have "xu_queue_buffer_push_init ralloc b \<noteq> None" if "gives_blocks ralloc" for ralloc
    using push_init_queue [of b, OF _ that] i by auto
  moreover have "xu_queue_buffer_resize ralloc b n \<noteq> None" if "gives_blocks ralloc" "n < 2 ^ 64" for ralloc n
    using resize_queue [of b, OF _ that] i by auto
  ultimately show ?thesis using i by blast
qed

lemma xu_queue_buffer_fifo_witness:
  "\<exists>b. queue_run (xu_queue_buffer_init 4) [1, 2, 3] [1, 2] b \<and> queued b = [3]"
proof -
  obtain b1 c where w: "xu_queue_buffer_writ sample_blocks (xu_queue_buffer_init 4) [1, 2, 3] 3 = Some (c, b1)" "nat c = 3" "queue_inv b1"
      "queued b1 = [1, 2, 3]"
    using writ_queue [of "xu_queue_buffer_init 4" sample_blocks 3 "[1, 2, 3]"] sample_blocks_give
    by (auto simp: queue_inv_def xu_queue_buffer_init_def sample_blocks_def numeral_3_eq_3)
  obtain b2 where r: "xu_queue_buffer_read b1 2 = Some (2, [1, 2], b2)"
    using read_queue [OF w(3), of 2] w(4) by auto
  have "queue_run (xu_queue_buffer_init 4) (([] @ take (nat c) [1, 2, 3]) @ []) (([] @ []) @ [1, 2]) b2"
    by (rule queue_next [OF queue_next [OF queue_start queue_step.writ [OF sample_blocks_give _ w(1)]] queue_step.read [OF r]]) simp
  then have "queue_run (xu_queue_buffer_init 4) [1, 2, 3] [1, 2] b2" using w(2) by simp
  from this xu_queue_buffer_fifo [OF this] show ?thesis by auto
qed

end
