(* ===== verification/XString.thy ===== *)
theory XString
  imports XBuffer
begin

text \<open>
  \<^verbatim>\<open>xutil/string/string.c\<close> and \<^verbatim>\<open>static_string.c\<close>: the strings over the two buffers. The buffer holds the text
  and its null character, or nothing while the string is empty. The two files differ only in what they return for an
  empty source, so the operations take the resizing of the buffer and that as arguments. The text of a C string that is
  an argument is the memory from its pointer on; where two texts are read it lies behind the block of the string. The formatting of
  \<^verbatim>\<open>cstrfcpy\<close> and \<^verbatim>\<open>cstrfcat\<close> is an argument: the text and the length it gives.
\<close>

section \<open>The operations on top of a buffer\<close>

definition string_size :: "'z static_buffer_scheme \<Rightarrow> nat" where
  "string_size string = (let n = buffer_size string in if n > 0 then n - 1 else 0)"

definition string_cstr :: "'z static_buffer_scheme \<Rightarrow> u8 list option" where
  "string_cstr string = (if string_size string \<noteq> 0 then buffer_data string else None)"

definition string_clear :: "'z static_buffer_scheme \<Rightarrow> 'z static_buffer_scheme option" where
  "string_clear string =
     (let string = buffer_clear string in
      case buffer_data string of
        None \<Rightarrow> Some string
      | Some p \<Rightarrow> do { p \<leftarrow> poke p 0 0; Some (string\<lparr>bf_data := Some p\<rparr>) })"

definition the_cstr :: "'z static_buffer_scheme \<Rightarrow> 'z outcome" where
  "the_cstr string = Some (string_cstr string \<noteq> None, string)"

definition string_strip :: "'z resizer \<Rightarrow> 'z static_buffer_scheme \<Rightarrow> nat \<Rightarrow> 'z outcome" where
  "string_strip resize string n =
     (if \<not> n < string_size string then the_cstr string else resized resize string (n + 1) (\<lambda>p. poke p n 0))"

function ltrim_loop :: "u8 list \<Rightarrow> nat \<Rightarrow> nat \<Rightarrow> nat option" where
  "ltrim_loop s p e =
     (if p < e then do { x \<leftarrow> peek s p; if xu_isspace (sint x) then ltrim_loop s (p + 1) e else Some p } else Some p)"
  by pat_completeness auto
termination by (relation "measure (\<lambda>(s, p, e). e - p)") auto

declare ltrim_loop.simps [simp del]

definition string_ltrim :: "'z resizer \<Rightarrow> 'z static_buffer_scheme \<Rightarrow> 'z outcome" where
  "string_ltrim resize string =
     (let n = string_size string in
      case string_cstr string of
        None \<Rightarrow> Some (False, string)
      | Some s \<Rightarrow> do {
          p \<leftarrow> ltrim_loop s 0 n;
          string \<leftarrow> (if p < n
             then if p > 0 then map_option snd (buffer_memmovp resize string 0 p) else Some string
             else string_clear string);
          the_cstr string })"

text \<open>The count of the characters that stay in front of spaces at the end.\<close>

fun rtrim_loop :: "u8 list \<Rightarrow> nat \<Rightarrow> nat option" where
  "rtrim_loop s 0 = Some 0"
| "rtrim_loop s (Suc e) = do { x \<leftarrow> peek s e; if xu_isspace (sint x) then rtrim_loop s e else Some (Suc e) }"

definition string_rtrim :: "'z resizer \<Rightarrow> 'z static_buffer_scheme \<Rightarrow> 'z outcome" where
  "string_rtrim resize string =
     (let n = string_size string in
      case string_cstr string of
        None \<Rightarrow> Some (False, string)
      | Some s \<Rightarrow> do {
          k \<leftarrow> rtrim_loop s n;
          string \<leftarrow> (if k > 0 then map_option snd (string_strip resize string k) else string_clear string);
          the_cstr string })"

definition string_charat :: "'z static_buffer_scheme \<Rightarrow> nat \<Rightarrow> u8 option" where
  "string_charat string p =
     (case string_cstr string of None \<Rightarrow> Some 0 | Some s \<Rightarrow> if p < string_size string then peek s p else Some 0)"

text \<open>A search from a position inside the text; the result is the position of what is found, or minus one.\<close>

definition string_search :: "'z static_buffer_scheme \<Rightarrow> nat \<Rightarrow> (u8 list \<Rightarrow> nat option option) \<Rightarrow> int option" where
  "string_search string p look =
     (case string_cstr string of
        None \<Rightarrow> Some (- 1)
      | Some s \<Rightarrow>
          if p < string_size string then do { q \<leftarrow> look s; Some (case q of None \<Rightarrow> - 1 | Some q \<Rightarrow> int q) }
          else Some (- 1))"

definition string_strchr :: "'z static_buffer_scheme \<Rightarrow> nat \<Rightarrow> u8 \<Rightarrow> int option" where
  "string_strchr string p c = string_search string p (\<lambda>s. xu_strchr s p c)"

definition string_strichr :: "'z static_buffer_scheme \<Rightarrow> nat \<Rightarrow> u8 \<Rightarrow> int option" where
  "string_strichr string p c = string_search string p (\<lambda>s. xu_strichr s p c)"

definition string_strrchr :: "'z static_buffer_scheme \<Rightarrow> nat \<Rightarrow> u8 \<Rightarrow> int option" where
  "string_strrchr string p c = string_search string p (\<lambda>s. xu_strnrchr s p (string_size string) c)"

definition string_strirchr :: "'z static_buffer_scheme \<Rightarrow> nat \<Rightarrow> u8 \<Rightarrow> int option" where
  "string_strirchr string p c = string_search string p (\<lambda>s. xu_strnirchr s p (string_size string) c)"

definition string_cstrstr :: "'z static_buffer_scheme \<Rightarrow> nat \<Rightarrow> u8 list option \<Rightarrow> int option" where
  "string_cstrstr string p s2 =
     string_search string p (\<lambda>s. case s2 of None \<Rightarrow> Some None | Some t \<Rightarrow> xu_strstr (s @ t) p (length s))"

definition string_cstristr :: "'z static_buffer_scheme \<Rightarrow> nat \<Rightarrow> u8 list option \<Rightarrow> int option" where
  "string_cstristr string p s2 =
     string_search string p (\<lambda>s. case s2 of None \<Rightarrow> Some None | Some t \<Rightarrow> xu_stristr (s @ t) p (length s))"

text \<open>The searches for the last string are not implemented in the library below: they find nothing.\<close>

definition string_cstrrstr :: "'z static_buffer_scheme \<Rightarrow> nat \<Rightarrow> u8 list option \<Rightarrow> int option" where
  "string_cstrrstr string p s2 = string_search string p (\<lambda>s. Some None)"

definition string_cstrirstr :: "'z static_buffer_scheme \<Rightarrow> nat \<Rightarrow> u8 list option \<Rightarrow> int option" where
  "string_cstrirstr string p s2 = string_search string p (\<lambda>s. Some None)"

definition string_strstr :: "'z static_buffer_scheme \<Rightarrow> nat \<Rightarrow> 'z static_buffer_scheme \<Rightarrow> int option" where
  "string_strstr string p s = string_cstrstr string p (string_cstr s)"

definition string_stristr :: "'z static_buffer_scheme \<Rightarrow> nat \<Rightarrow> 'z static_buffer_scheme \<Rightarrow> int option" where
  "string_stristr string p s = string_cstristr string p (string_cstr s)"

definition string_strrstr :: "'z static_buffer_scheme \<Rightarrow> nat \<Rightarrow> 'z static_buffer_scheme \<Rightarrow> int option" where
  "string_strrstr string p s = string_cstrrstr string p (string_cstr s)"

definition string_strirstr :: "'z static_buffer_scheme \<Rightarrow> nat \<Rightarrow> 'z static_buffer_scheme \<Rightarrow> int option" where
  "string_strirstr string p s = string_cstrirstr string p (string_cstr s)"

text \<open>Writing the null character behind the text when the buffer was written.\<close>

definition terminated :: "'z outcome \<Rightarrow> 'z outcome" where
  "terminated r = do {
     (p, string) \<leftarrow> r;
     if p then do {
       d \<leftarrow> bf_data string;
       d \<leftarrow> poke d (string_size string) 0;
       Some (True, string\<lparr>bf_data := Some d\<rparr>) }
     else Some (False, string) }"

text \<open>The answer \<open>same\<close> for an empty source: the text of the string or null.\<close>

definition string_cstrncpy :: "'z resizer \<Rightarrow> bool \<Rightarrow> 'z static_buffer_scheme \<Rightarrow> u8 list option \<Rightarrow> nat \<Rightarrow> 'z outcome" where
  "string_cstrncpy resize same string s n =
     (if s = None then Some (False, string)
      else if n = 0 then if same then the_cstr string else Some (False, string)
      else terminated (buffer_memncpyp resize string 0 s (sz_add n 1)))"

definition string_cstrncat :: "'z resizer \<Rightarrow> bool \<Rightarrow> 'z static_buffer_scheme \<Rightarrow> u8 list option \<Rightarrow> nat \<Rightarrow> 'z outcome" where
  "string_cstrncat resize same string s n =
     (if s = None then Some (False, string)
      else if n = 0 then if same then the_cstr string else Some (False, string)
      else terminated (buffer_memncpyp resize string (string_size string) s (sz_add n 1)))"

definition string_strcpy :: "'z resizer \<Rightarrow> bool \<Rightarrow> 'z static_buffer_scheme \<Rightarrow> 'z static_buffer_scheme \<Rightarrow> 'z outcome" where
  "string_strcpy resize same string s =
     (let n = string_size s in
      if n \<noteq> 0 then string_cstrncpy resize same string (string_cstr s) n
      else do { string \<leftarrow> string_clear string; Some (False, string) })"

definition string_cstrcpy :: "'z resizer \<Rightarrow> bool \<Rightarrow> 'z static_buffer_scheme \<Rightarrow> u8 list option \<Rightarrow> 'z outcome" where
  "string_cstrcpy resize same string s =
     (case s of None \<Rightarrow> Some (False, string) | Some t \<Rightarrow> do { n \<leftarrow> xu_strlen t 0; string_cstrncpy resize same string s n })"

definition string_cstrfcpy :: "'z resizer \<Rightarrow> bool \<Rightarrow> 'z static_buffer_scheme \<Rightarrow> u8 list \<Rightarrow> nat \<Rightarrow> 'z outcome" where
  "string_cstrfcpy resize same string p n =
     (if n = 0 then Some (False, string) else string_cstrncpy resize same string (Some p) n)"

definition string_chrcat :: "'z resizer \<Rightarrow> 'z static_buffer_scheme \<Rightarrow> u8 \<Rightarrow> 'z outcome" where
  "string_chrcat resize string c = terminated (buffer_memnsetp resize string (string_size string) c 2)"

definition string_chrncat :: "'z resizer \<Rightarrow> 'z static_buffer_scheme \<Rightarrow> u8 \<Rightarrow> nat \<Rightarrow> 'z outcome" where
  "string_chrncat resize string c n = terminated (buffer_memnsetp resize string (string_size string) c (sz_add n 1))"

definition string_strcat :: "'z resizer \<Rightarrow> bool \<Rightarrow> 'z static_buffer_scheme \<Rightarrow> 'z static_buffer_scheme \<Rightarrow> 'z outcome" where
  "string_strcat resize same string s = string_cstrncat resize same string (string_cstr s) (string_size s)"

definition string_cstrcat :: "'z resizer \<Rightarrow> bool \<Rightarrow> 'z static_buffer_scheme \<Rightarrow> u8 list option \<Rightarrow> 'z outcome" where
  "string_cstrcat resize same string s =
     (case s of None \<Rightarrow> Some (False, string) | Some t \<Rightarrow> do { n \<leftarrow> xu_strlen t 0; string_cstrncat resize same string s n })"

definition string_cstrfcat :: "'z resizer \<Rightarrow> bool \<Rightarrow> 'z static_buffer_scheme \<Rightarrow> u8 list \<Rightarrow> nat \<Rightarrow> 'z outcome" where
  "string_cstrfcat resize same string p n =
     (if n = 0 then Some (False, string) else string_cstrncat resize same string (Some p) n)"

text \<open>Comparing; the comparison with regard to case answers minus one for a string that is empty, the other one zero.\<close>

definition string_cstrncmp :: "'z static_buffer_scheme \<Rightarrow> u8 list option \<Rightarrow> nat \<Rightarrow> int option" where
  "string_cstrncmp string s n =
     (case s of
        None \<Rightarrow> Some 0
      | Some t \<Rightarrow>
          (case string_cstr string of
             None \<Rightarrow> Some (if n = 0 then 0 else - 1)
           | Some d \<Rightarrow> xu_strncmp (d @ t) 0 (length d) n))"

definition string_cstrnicmp :: "'z static_buffer_scheme \<Rightarrow> u8 list option \<Rightarrow> nat \<Rightarrow> int option" where
  "string_cstrnicmp string s n =
     (case s of
        None \<Rightarrow> Some 0
      | Some t \<Rightarrow>
          (case string_cstr string of
             None \<Rightarrow> Some 0
           | Some d \<Rightarrow> xu_strnicmp (d @ t) 0 (length d) n))"

definition string_strcmp :: "'z static_buffer_scheme \<Rightarrow> 'z static_buffer_scheme \<Rightarrow> int option" where
  "string_strcmp string s = string_cstrncmp string (string_cstr s) (string_size s + 1)"

definition string_strimp :: "'z static_buffer_scheme \<Rightarrow> 'z static_buffer_scheme \<Rightarrow> int option" where
  "string_strimp string s = string_cstrnicmp string (string_cstr s) (string_size s + 1)"

definition string_cstrcmp :: "'z static_buffer_scheme \<Rightarrow> u8 list option \<Rightarrow> int option" where
  "string_cstrcmp string s =
     (case s of None \<Rightarrow> Some 0 | Some t \<Rightarrow> do { n \<leftarrow> xu_strlen t 0; string_cstrncmp string s (n + 1) })"

definition string_cstricmp :: "'z static_buffer_scheme \<Rightarrow> u8 list option \<Rightarrow> int option" where
  "string_cstricmp string s =
     (case s of None \<Rightarrow> Some 0 | Some t \<Rightarrow> do { n \<leftarrow> xu_strlen t 0; string_cstrnicmp string s (n + 1) })"

section \<open>The growing string\<close>

definition xu_string_init :: "u8 list \<Rightarrow> buffer option" where
  "xu_string_init array = string_clear (xu_buffer_init array)"

definition xu_string_exit :: "buffer \<Rightarrow> buffer" where
  "xu_string_exit string = xu_buffer_exit string"

definition xu_string_size :: "buffer \<Rightarrow> nat" where
  "xu_string_size = string_size"
definition xu_string_cstr :: "buffer \<Rightarrow> u8 list option" where
  "xu_string_cstr = string_cstr"
definition xu_string_clear :: "buffer \<Rightarrow> buffer option" where
  "xu_string_clear = string_clear"
definition xu_string_charat :: "buffer \<Rightarrow> nat \<Rightarrow> u8 option" where
  "xu_string_charat = string_charat"
definition xu_string_strchr :: "buffer \<Rightarrow> nat \<Rightarrow> u8 \<Rightarrow> int option" where
  "xu_string_strchr = string_strchr"
definition xu_string_strichr :: "buffer \<Rightarrow> nat \<Rightarrow> u8 \<Rightarrow> int option" where
  "xu_string_strichr = string_strichr"
definition xu_string_strrchr :: "buffer \<Rightarrow> nat \<Rightarrow> u8 \<Rightarrow> int option" where
  "xu_string_strrchr = string_strrchr"
definition xu_string_strirchr :: "buffer \<Rightarrow> nat \<Rightarrow> u8 \<Rightarrow> int option" where
  "xu_string_strirchr = string_strirchr"
definition xu_string_strstr :: "buffer \<Rightarrow> nat \<Rightarrow> buffer \<Rightarrow> int option" where
  "xu_string_strstr = string_strstr"
definition xu_string_stristr :: "buffer \<Rightarrow> nat \<Rightarrow> buffer \<Rightarrow> int option" where
  "xu_string_stristr = string_stristr"
definition xu_string_strrstr :: "buffer \<Rightarrow> nat \<Rightarrow> buffer \<Rightarrow> int option" where
  "xu_string_strrstr = string_strrstr"
definition xu_string_strirstr :: "buffer \<Rightarrow> nat \<Rightarrow> buffer \<Rightarrow> int option" where
  "xu_string_strirstr = string_strirstr"
definition xu_string_cstrstr :: "buffer \<Rightarrow> nat \<Rightarrow> u8 list option \<Rightarrow> int option" where
  "xu_string_cstrstr = string_cstrstr"
definition xu_string_cstristr :: "buffer \<Rightarrow> nat \<Rightarrow> u8 list option \<Rightarrow> int option" where
  "xu_string_cstristr = string_cstristr"
definition xu_string_cstrrstr :: "buffer \<Rightarrow> nat \<Rightarrow> u8 list option \<Rightarrow> int option" where
  "xu_string_cstrrstr = string_cstrrstr"
definition xu_string_cstrirstr :: "buffer \<Rightarrow> nat \<Rightarrow> u8 list option \<Rightarrow> int option" where
  "xu_string_cstrirstr = string_cstrirstr"
definition xu_string_strcmp :: "buffer \<Rightarrow> buffer \<Rightarrow> int option" where
  "xu_string_strcmp = string_strcmp"
definition xu_string_strimp :: "buffer \<Rightarrow> buffer \<Rightarrow> int option" where
  "xu_string_strimp = string_strimp"
definition xu_string_cstrcmp :: "buffer \<Rightarrow> u8 list option \<Rightarrow> int option" where
  "xu_string_cstrcmp = string_cstrcmp"
definition xu_string_cstricmp :: "buffer \<Rightarrow> u8 list option \<Rightarrow> int option" where
  "xu_string_cstricmp = string_cstricmp"
definition xu_string_cstrncmp :: "buffer \<Rightarrow> u8 list option \<Rightarrow> nat \<Rightarrow> int option" where
  "xu_string_cstrncmp = string_cstrncmp"
definition xu_string_cstrnicmp :: "buffer \<Rightarrow> u8 list option \<Rightarrow> nat \<Rightarrow> int option" where
  "xu_string_cstrnicmp = string_cstrnicmp"
definition xu_string_strip :: "byte_allocator \<Rightarrow> buffer \<Rightarrow> nat \<Rightarrow> (bool \<times> buffer) option" where
  "xu_string_strip ralloc = string_strip (xu_buffer_resize ralloc)"
definition xu_string_ltrim :: "byte_allocator \<Rightarrow> buffer \<Rightarrow> (bool \<times> buffer) option" where
  "xu_string_ltrim ralloc = string_ltrim (xu_buffer_resize ralloc)"
definition xu_string_rtrim :: "byte_allocator \<Rightarrow> buffer \<Rightarrow> (bool \<times> buffer) option" where
  "xu_string_rtrim ralloc = string_rtrim (xu_buffer_resize ralloc)"
definition xu_string_chrcat :: "byte_allocator \<Rightarrow> buffer \<Rightarrow> u8 \<Rightarrow> (bool \<times> buffer) option" where
  "xu_string_chrcat ralloc = string_chrcat (xu_buffer_resize ralloc)"
definition xu_string_chrncat :: "byte_allocator \<Rightarrow> buffer \<Rightarrow> u8 \<Rightarrow> nat \<Rightarrow> (bool \<times> buffer) option" where
  "xu_string_chrncat ralloc = string_chrncat (xu_buffer_resize ralloc)"
definition xu_string_cstrncpy :: "byte_allocator \<Rightarrow> buffer \<Rightarrow> u8 list option \<Rightarrow> nat \<Rightarrow> (bool \<times> buffer) option" where
  "xu_string_cstrncpy ralloc = string_cstrncpy (xu_buffer_resize ralloc) True"
definition xu_string_cstrncat :: "byte_allocator \<Rightarrow> buffer \<Rightarrow> u8 list option \<Rightarrow> nat \<Rightarrow> (bool \<times> buffer) option" where
  "xu_string_cstrncat ralloc = string_cstrncat (xu_buffer_resize ralloc) True"
definition xu_string_strcpy :: "byte_allocator \<Rightarrow> buffer \<Rightarrow> buffer \<Rightarrow> (bool \<times> buffer) option" where
  "xu_string_strcpy ralloc = string_strcpy (xu_buffer_resize ralloc) True"
definition xu_string_strcat :: "byte_allocator \<Rightarrow> buffer \<Rightarrow> buffer \<Rightarrow> (bool \<times> buffer) option" where
  "xu_string_strcat ralloc = string_strcat (xu_buffer_resize ralloc) True"
definition xu_string_cstrcpy :: "byte_allocator \<Rightarrow> buffer \<Rightarrow> u8 list option \<Rightarrow> (bool \<times> buffer) option" where
  "xu_string_cstrcpy ralloc = string_cstrcpy (xu_buffer_resize ralloc) True"
definition xu_string_cstrcat :: "byte_allocator \<Rightarrow> buffer \<Rightarrow> u8 list option \<Rightarrow> (bool \<times> buffer) option" where
  "xu_string_cstrcat ralloc = string_cstrcat (xu_buffer_resize ralloc) True"
definition xu_string_cstrfcpy :: "byte_allocator \<Rightarrow> buffer \<Rightarrow> u8 list \<Rightarrow> nat \<Rightarrow> (bool \<times> buffer) option" where
  "xu_string_cstrfcpy ralloc = string_cstrfcpy (xu_buffer_resize ralloc) True"
definition xu_string_cstrfcat :: "byte_allocator \<Rightarrow> buffer \<Rightarrow> u8 list \<Rightarrow> nat \<Rightarrow> (bool \<times> buffer) option" where
  "xu_string_cstrfcat ralloc = string_cstrfcat (xu_buffer_resize ralloc) True"

section \<open>The string over a block\<close>

definition xu_static_string_init :: "u8 list option \<Rightarrow> nat \<Rightarrow> static_buffer option" where
  "xu_static_string_init data maxn = string_clear (xu_static_buffer_init data maxn)"

definition xu_static_string_exit :: "static_buffer \<Rightarrow> static_buffer" where
  "xu_static_string_exit string = xu_static_buffer_exit string"

definition xu_static_string_size :: "static_buffer \<Rightarrow> nat" where
  "xu_static_string_size = string_size"
definition xu_static_string_cstr :: "static_buffer \<Rightarrow> u8 list option" where
  "xu_static_string_cstr = string_cstr"
definition xu_static_string_clear :: "static_buffer \<Rightarrow> static_buffer option" where
  "xu_static_string_clear = string_clear"
definition xu_static_string_charat :: "static_buffer \<Rightarrow> nat \<Rightarrow> u8 option" where
  "xu_static_string_charat = string_charat"
definition xu_static_string_strchr :: "static_buffer \<Rightarrow> nat \<Rightarrow> u8 \<Rightarrow> int option" where
  "xu_static_string_strchr = string_strchr"
definition xu_static_string_strichr :: "static_buffer \<Rightarrow> nat \<Rightarrow> u8 \<Rightarrow> int option" where
  "xu_static_string_strichr = string_strichr"
definition xu_static_string_strrchr :: "static_buffer \<Rightarrow> nat \<Rightarrow> u8 \<Rightarrow> int option" where
  "xu_static_string_strrchr = string_strrchr"
definition xu_static_string_strirchr :: "static_buffer \<Rightarrow> nat \<Rightarrow> u8 \<Rightarrow> int option" where
  "xu_static_string_strirchr = string_strirchr"
definition xu_static_string_strstr :: "static_buffer \<Rightarrow> nat \<Rightarrow> static_buffer \<Rightarrow> int option" where
  "xu_static_string_strstr = string_strstr"
definition xu_static_string_stristr :: "static_buffer \<Rightarrow> nat \<Rightarrow> static_buffer \<Rightarrow> int option" where
  "xu_static_string_stristr = string_stristr"
definition xu_static_string_strrstr :: "static_buffer \<Rightarrow> nat \<Rightarrow> static_buffer \<Rightarrow> int option" where
  "xu_static_string_strrstr = string_strrstr"
definition xu_static_string_strirstr :: "static_buffer \<Rightarrow> nat \<Rightarrow> static_buffer \<Rightarrow> int option" where
  "xu_static_string_strirstr = string_strirstr"
definition xu_static_string_cstrstr :: "static_buffer \<Rightarrow> nat \<Rightarrow> u8 list option \<Rightarrow> int option" where
  "xu_static_string_cstrstr = string_cstrstr"
definition xu_static_string_cstristr :: "static_buffer \<Rightarrow> nat \<Rightarrow> u8 list option \<Rightarrow> int option" where
  "xu_static_string_cstristr = string_cstristr"
definition xu_static_string_cstrrstr :: "static_buffer \<Rightarrow> nat \<Rightarrow> u8 list option \<Rightarrow> int option" where
  "xu_static_string_cstrrstr = string_cstrrstr"
definition xu_static_string_cstrirstr :: "static_buffer \<Rightarrow> nat \<Rightarrow> u8 list option \<Rightarrow> int option" where
  "xu_static_string_cstrirstr = string_cstrirstr"
definition xu_static_string_strcmp :: "static_buffer \<Rightarrow> static_buffer \<Rightarrow> int option" where
  "xu_static_string_strcmp = string_strcmp"
definition xu_static_string_strimp :: "static_buffer \<Rightarrow> static_buffer \<Rightarrow> int option" where
  "xu_static_string_strimp = string_strimp"
definition xu_static_string_cstrcmp :: "static_buffer \<Rightarrow> u8 list option \<Rightarrow> int option" where
  "xu_static_string_cstrcmp = string_cstrcmp"
definition xu_static_string_cstricmp :: "static_buffer \<Rightarrow> u8 list option \<Rightarrow> int option" where
  "xu_static_string_cstricmp = string_cstricmp"
definition xu_static_string_cstrncmp :: "static_buffer \<Rightarrow> u8 list option \<Rightarrow> nat \<Rightarrow> int option" where
  "xu_static_string_cstrncmp = string_cstrncmp"
definition xu_static_string_cstrnicmp :: "static_buffer \<Rightarrow> u8 list option \<Rightarrow> nat \<Rightarrow> int option" where
  "xu_static_string_cstrnicmp = string_cstrnicmp"
definition xu_static_string_strip :: "static_buffer \<Rightarrow> nat \<Rightarrow> (bool \<times> static_buffer) option" where
  "xu_static_string_strip = string_strip xu_static_buffer_resize"
definition xu_static_string_ltrim :: "static_buffer \<Rightarrow> (bool \<times> static_buffer) option" where
  "xu_static_string_ltrim = string_ltrim xu_static_buffer_resize"
definition xu_static_string_rtrim :: "static_buffer \<Rightarrow> (bool \<times> static_buffer) option" where
  "xu_static_string_rtrim = string_rtrim xu_static_buffer_resize"
definition xu_static_string_chrcat :: "static_buffer \<Rightarrow> u8 \<Rightarrow> (bool \<times> static_buffer) option" where
  "xu_static_string_chrcat = string_chrcat xu_static_buffer_resize"
definition xu_static_string_chrncat :: "static_buffer \<Rightarrow> u8 \<Rightarrow> nat \<Rightarrow> (bool \<times> static_buffer) option" where
  "xu_static_string_chrncat = string_chrncat xu_static_buffer_resize"
definition xu_static_string_cstrncpy :: "static_buffer \<Rightarrow> u8 list option \<Rightarrow> nat \<Rightarrow> (bool \<times> static_buffer) option" where
  "xu_static_string_cstrncpy = string_cstrncpy xu_static_buffer_resize False"
definition xu_static_string_cstrncat :: "static_buffer \<Rightarrow> u8 list option \<Rightarrow> nat \<Rightarrow> (bool \<times> static_buffer) option" where
  "xu_static_string_cstrncat = string_cstrncat xu_static_buffer_resize False"
definition xu_static_string_strcpy :: "static_buffer \<Rightarrow> static_buffer \<Rightarrow> (bool \<times> static_buffer) option" where
  "xu_static_string_strcpy = string_strcpy xu_static_buffer_resize False"
definition xu_static_string_strcat :: "static_buffer \<Rightarrow> static_buffer \<Rightarrow> (bool \<times> static_buffer) option" where
  "xu_static_string_strcat = string_strcat xu_static_buffer_resize False"
definition xu_static_string_cstrcpy :: "static_buffer \<Rightarrow> u8 list option \<Rightarrow> (bool \<times> static_buffer) option" where
  "xu_static_string_cstrcpy = string_cstrcpy xu_static_buffer_resize False"
definition xu_static_string_cstrcat :: "static_buffer \<Rightarrow> u8 list option \<Rightarrow> (bool \<times> static_buffer) option" where
  "xu_static_string_cstrcat = string_cstrcat xu_static_buffer_resize False"
definition xu_static_string_cstrfcpy :: "static_buffer \<Rightarrow> u8 list \<Rightarrow> nat \<Rightarrow> (bool \<times> static_buffer) option" where
  "xu_static_string_cstrfcpy = string_cstrfcpy xu_static_buffer_resize False"
definition xu_static_string_cstrfcat :: "static_buffer \<Rightarrow> u8 list \<Rightarrow> nat \<Rightarrow> (bool \<times> static_buffer) option" where
  "xu_static_string_cstrfcat = string_cstrfcat xu_static_buffer_resize False"

end
