(* ===== verification/XStringCorrect.thy ===== *)
theory XStringCorrect
  imports XString XBufferCorrect
begin

text \<open>
  A string holds a text without null characters; the operations build, cut, search and compare the texts. The proofs rest on the
  contract of a resizable buffer.
\<close>

section \<open>The text of a string\<close>

definition holds_text :: "('z static_buffer_scheme \<Rightarrow> bool) \<Rightarrow> 'z static_buffer_scheme \<Rightarrow> u8 list \<Rightarrow> bool" where
  "holds_text valid s xs \<longleftrightarrow> valid s \<and> bf_data s \<noteq> Some [] \<and> 0 \<notin> set xs \<and>
     (contents s = xs @ [0] \<or> contents s = [] \<and> xs = [])"

text \<open>An operation answers a pointer or null, and leaves a string with the text.\<close>

definition leaves_text :: "('z static_buffer_scheme \<Rightarrow> bool) \<Rightarrow> 'z outcome \<Rightarrow> bool \<Rightarrow> u8 list \<Rightarrow> bool" where
  "leaves_text valid r ok ys \<longleftrightarrow> (\<exists>s'. r = Some (ok, s') \<and> holds_text valid s' ys)"

text \<open>A position relative to the start of a search, as the searches of strings return it.\<close>

definition found_from :: "nat \<Rightarrow> nat option \<Rightarrow> int" where
  "found_from p i = (case i of None \<Rightarrow> - 1 | Some i \<Rightarrow> int (p + i))"

lemma nth_cstr: "0 \<notin> set xs \<Longrightarrow> p + length xs < length m \<Longrightarrow> take (length xs) (drop p m) = xs \<Longrightarrow> m ! (p + length xs) = 0 \<Longrightarrow> cstr m p xs"
proof (induction xs arbitrary: p)
  case (Cons x xs)
  have "drop p m = m ! p # drop (Suc p) m" using Cons.prems(2) by (simp add: Cons_nth_drop_Suc)
  then show ?case using Cons.IH [of "p + 1"] Cons.prems by simp
qed simp

context resizable
begin

lemma text_size: "holds_text valid s xs \<Longrightarrow> string_size s = length xs"
  using length_contents [of s] by (auto simp: holds_text_def string_size_def buffer_size_def Let_def)

lemma text_at:
  assumes "holds_text valid s xs" and "xs \<noteq> []"
  obtains d where "string_cstr s = Some d" "bf_data s = Some d" "cstr d 0 xs" "length xs < length d" "take (length xs) d = xs"
proof -
  have v: "valid s" and c: "contents s = xs @ [0]" using assms by (auto simp: holds_text_def)
  obtain d where d: "bf_data s = Some d" "bf_size s \<le> length d" using fits [OF v] by auto
  have n: "bf_size s = Suc (length xs)" using length_contents [OF v] c by simp
  then have t: "take (Suc (length xs)) d = xs @ [0]" using c d by (simp add: contents_def)
  then have x: "take (length xs) d = xs" using d(2) n by (simp add: take_Suc_conv_app_nth)
  have "d ! length xs = 0" using t n d by (metis lessI nth_append_length nth_take)
  then have "cstr d 0 xs" using nth_cstr [of xs 0 d] assms(1) n d x by (simp add: holds_text_def)
  moreover have "string_cstr s = Some d"
    using text_size [OF assms(1)] assms(2) d by (simp add: string_cstr_def buffer_data_def)
  ultimately show ?thesis using that d n x by simp
qed

lemma empty_cstr: "holds_text valid s [] \<Longrightarrow> string_cstr s = None"
  using text_size [of s "[]"] by (simp add: string_cstr_def)

lemma the_cstr_leaves: "holds_text valid s xs \<Longrightarrow> leaves_text valid (the_cstr s) (xs \<noteq> []) xs"
  by (cases "xs = []") (auto simp: leaves_text_def the_cstr_def empty_cstr elim: text_at)

text \<open>Writing the null character behind what the buffer was given.\<close>

lemma terminated_leaves:
  assumes y: "yields valid r s ok (ys @ [c])" and s: "holds_text valid s xs" and "0 \<notin> set ys"
  shows "leaves_text valid (terminated r) ok (if ok then ys else xs)"
proof -
  obtain b where b: "r = Some (ok, b)" "valid b" "if ok then contents b = ys @ [c] else b = s" using y by (auto simp: yields_def)
  show ?thesis
  proof (cases ok)
    case False
    then show ?thesis using b s by (simp add: leaves_text_def terminated_def)
  next
    case True
    obtain d where d: "bf_data b = Some d" "bf_size b \<le> length d" using fits [OF b(2)] by auto
    have n: "bf_size b = Suc (length ys)" using length_contents [OF b(2)] b(3) True by simp
    have "valid (b\<lparr>bf_data := Some (d[length ys := 0])\<rparr>)" using written [OF b(2) d(1)] by simp
    moreover have "contents (b\<lparr>bf_data := Some (d[length ys := 0])\<rparr>) = ys @ [0]"
      using b(3) True d n by (simp add: contents_def take_update_swap)
    ultimately show ?thesis
      using True b(1) d n assms(3)
      by (auto simp: leaves_text_def terminated_def string_size_def buffer_size_def holds_text_def)
  qed
qed

lemma clear_leaves:
  assumes "holds_text valid s xs" shows "\<exists>s'. string_clear s = Some s' \<and> holds_text valid s' []"
proof -
  have v: "valid s" using assms by (simp add: holds_text_def)
  obtain d where d: "bf_data s = Some d" "0 < length d" using fits [OF v] assms by (auto simp: holds_text_def)
  have "valid (s\<lparr>bf_size := 0, bf_data := Some (d[0 := 0])\<rparr>)" using written [OF cleared [OF v], of d "d[0 := 0]"] d by simp
  then show ?thesis using d
    by (simp add: string_clear_def buffer_clear_def buffer_data_def holds_text_def contents_def)
qed

section \<open>Building\<close>

lemma text_valid: "holds_text valid s xs \<Longrightarrow> valid s"
  by (simp add: holds_text_def)

lemma text_fits: "holds_text valid s xs \<Longrightarrow> length xs \<le> bf_size s \<and> length xs < 2 ^ 64"
  using length_contents [of s] size_small [of s] by (auto simp: holds_text_def)

lemma text_front: "holds_text valid s xs \<Longrightarrow> take (length xs) (contents s) = xs"
  by (auto simp: holds_text_def)

lemma chrncat_leaves:
  assumes "holds_text valid s xs" and "c \<noteq> 0" and "length xs + n + 1 < 2 ^ 64"
  shows "leaves_text valid (string_chrncat resize s c n) (fst (resize s (length xs + n + 1)))
    (if fst (resize s (length xs + n + 1)) then xs @ replicate n c else xs)"
proof -
  have "yields valid (buffer_memnsetp resize s (length xs) c (n + 1)) s (fst (resize s (length xs + (n + 1)))) (xs @ replicate (n + 1) c)"
    using memnsetp_yields [OF text_valid [OF assms(1)], of "length xs" "n + 1" c] text_fits [OF assms(1)] text_front [OF assms(1)] assms(3)
    by simp
  then have "yields valid (buffer_memnsetp resize s (length xs) c (n + 1)) s (fst (resize s (length xs + n + 1))) ((xs @ replicate n c) @ [c])"
    by (simp add: replicate_append_same)
  from terminated_leaves [OF this assms(1)] show ?thesis
    using assms text_size [OF assms(1)] by (simp add: string_chrncat_def holds_text_def)
qed

lemma chrcat_leaves:
  assumes "holds_text valid s xs" and "c \<noteq> 0" and "length xs + 2 < 2 ^ 64"
  shows "leaves_text valid (string_chrcat resize s c) (fst (resize s (length xs + 2)))
    (if fst (resize s (length xs + 2)) then xs @ [c] else xs)"
proof -
  have "string_chrcat resize s c = string_chrncat resize s c 1" "length xs + 1 + 1 = length xs + 2" "xs @ [c] = xs @ replicate 1 c"
    by (simp_all add: string_chrcat_def string_chrncat_def numeral_2_eq_2 [symmetric])
  then show ?thesis using chrncat_leaves [OF assms(1,2), of 1] assms(3) by (simp only:)
qed

text \<open>Copying \<open>n\<close> characters of a text and the one behind them to a position.\<close>

lemma copied_leaves:
  assumes s: "holds_text valid s xs" and p: "p \<le> length xs" and n: "0 < n" "n < length src" and z: "0 \<notin> set (take n src)"
    and w: "p + n + 1 < 2 ^ 64"
  shows "leaves_text valid (terminated (buffer_memncpyp resize s p (Some src) (n + 1))) (fst (resize s (p + n + 1)))
    (if fst (resize s (p + n + 1)) then take p xs @ take n src else xs)"
proof -
  have c: "take p (contents s) = take p xs" using text_front [OF s] p by (metis min.absorb1 take_take)
  have "yields valid (buffer_memncpyp resize s p (Some src) (n + 1)) s (fst (resize s (p + (n + 1)))) (take p (contents s) @ take (n + 1) src)"
    using memncpyp_yields [OF text_valid [OF s], of p "n + 1" src] text_fits [OF s] p n w by simp
  then have "yields valid (buffer_memncpyp resize s p (Some src) (n + 1)) s (fst (resize s (p + n + 1))) ((take p xs @ take n src) @ [src ! n])"
    using n c by (simp add: take_Suc_conv_app_nth)
  moreover have "0 \<notin> set (take p xs @ take n src)" using s z in_set_takeD [of 0 p xs] by (auto simp: holds_text_def)
  ultimately show ?thesis by (rule terminated_leaves [OF _ s])
qed

text \<open>A C string as an argument.\<close>

lemma strlen_arg: "cstr t 0 ys \<Longrightarrow> xu_strlen t 0 = Some (length ys) \<and> length ys < length t \<and> take (length ys) t = ys \<and> 0 \<notin> set ys"
proof -
  assume t: "cstr t 0 ys"
  have "take (length ys) t = ys" by (rule nth_equalityI) (use t cstr_fit [OF t] cstr_nth [OF t] in auto)
  moreover have "0 \<notin> set ys" using cstr_peek [OF t] by (auto simp: in_set_conv_nth)
  ultimately show ?thesis using strlen_cstr [OF t] cstr_fit [OF t] by simp
qed

lemma cstrncpy_leaves:
  assumes s: "holds_text valid s xs" and t: "cstr t 0 ys" and k: "0 < k" "k \<le> length ys" and w: "length ys + 1 < 2 ^ 64"
  shows "leaves_text valid (string_cstrncpy resize same s (Some t) k) (fst (resize s (k + 1)))
    (if fst (resize s (k + 1)) then take k ys else xs)"
proof -
  note a = strlen_arg [OF t]
  have "take k t = take k ys" using a k by (metis min.absorb1 take_take)
  moreover have "0 \<notin> set (take k ys)" using a in_set_takeD [of 0 k ys] by blast
  ultimately show ?thesis using copied_leaves [OF s, of 0 k t] a k w
    by (cases "fst (resize s (Suc k))") (simp_all add: string_cstrncpy_def)
qed

lemma cstrncat_leaves:
  assumes s: "holds_text valid s xs" and t: "cstr t 0 ys" and k: "0 < k" "k \<le> length ys" and w: "length xs + length ys + 1 < 2 ^ 64"
  shows "leaves_text valid (string_cstrncat resize same s (Some t) k) (fst (resize s (length xs + k + 1)))
    (if fst (resize s (length xs + k + 1)) then xs @ take k ys else xs)"
proof -
  note a = strlen_arg [OF t]
  have "take k t = take k ys" using a k by (metis min.absorb1 take_take)
  moreover have "0 \<notin> set (take k ys)" using a in_set_takeD [of 0 k ys] by blast
  ultimately show ?thesis using copied_leaves [OF s order_refl, of k t] a k w text_size [OF s]
    by (cases "fst (resize s (Suc (length xs + k)))") (simp_all add: string_cstrncat_def)
qed

text \<open>An empty source is not copied; the answer is the text or null.\<close>

lemma cstrncpy_none: "holds_text valid s xs \<Longrightarrow> leaves_text valid (string_cstrncpy resize same s (Some t) 0) (same \<and> xs \<noteq> []) xs"
  using the_cstr_leaves [of s xs] by (auto simp: string_cstrncpy_def leaves_text_def)

lemma cstrncat_none: "holds_text valid s xs \<Longrightarrow> leaves_text valid (string_cstrncat resize same s (Some t) 0) (same \<and> xs \<noteq> []) xs"
  using the_cstr_leaves [of s xs] by (auto simp: string_cstrncat_def leaves_text_def)

lemma strip_leaves:
  assumes s: "holds_text valid s xs" and n: "n < length xs"
  shows "leaves_text valid (string_strip resize s n) True (take n xs)"
proof -
  have v: "valid s" and c: "contents s = xs @ [0]" using s n by (auto simp: holds_text_def)
  have m: "bf_size s = Suc (length xs)" using length_contents [OF v] c by simp
  have "yields valid (resized resize s (n + 1) (\<lambda>p. poke p n 0)) s (fst (resize s (n + 1))) (take n xs @ [0])"
  proof (rule resized_write [OF v])
    fix d assume d: "n + 1 \<le> length d" "bf_size s \<le> length d" "take (bf_size s) d = contents s"
    have "take n d = take n xs" using arg_cong [OF d(3), of "take n"] c m n by (simp add: min_def)
    then show "\<exists>d'. poke d n 0 = Some d' \<and> length d' = length d \<and> take (n + 1) d' = take n xs @ [0]"
      using d(1) by (simp add: take_Suc_conv_app_nth)
  qed
  then have "yields valid (string_strip resize s n) s True (take n xs @ [0])"
    using shrinks [OF v, of "n + 1"] m n text_size [OF s] by (simp add: string_strip_def)
  then obtain s' where r: "string_strip resize s n = Some (True, s')" "valid s'" "contents s' = take n xs @ [0]" by (auto simp: yields_def)
  then have "bf_data s' \<noteq> Some []" by (auto simp: contents_def)
  then show ?thesis using r s in_set_takeD [of 0 n xs] by (auto simp: leaves_text_def holds_text_def)
qed

section \<open>Trimming\<close>

lemma ltrim_loop_spaces:
  "take (length xs) (drop p d) = xs \<Longrightarrow> p + length xs \<le> length d \<Longrightarrow>
     ltrim_loop d p (p + length xs) = Some (p + length (takeWhile (\<lambda>x. xu_isspace (sint x)) xs))"
proof (induction xs arbitrary: p)
  case Nil
  then show ?case by (simp add: ltrim_loop.simps)
next
  case (Cons x xs)
  have "drop p d = d ! p # drop (Suc p) d" using Cons.prems(2) by (simp add: Cons_nth_drop_Suc)
  then show ?case using Cons.IH [of "Suc p"] Cons.prems by (subst ltrim_loop.simps) simp
qed

lemma rtrim_loop_spaces:
  "take (length xs) d = xs \<Longrightarrow> length xs \<le> length d \<Longrightarrow>
     rtrim_loop d (length xs) = Some (length (dropWhile (\<lambda>x. xu_isspace (sint x)) (rev xs)))"
proof (induction xs rule: rev_induct)
  case (snoc x xs)
  then show ?case by (simp add: take_Suc_conv_app_nth)
qed simp

lemma ltrim_leaves:
  assumes s: "holds_text valid s xs"
  shows "leaves_text valid (string_ltrim resize s) (dropWhile (\<lambda>x. xu_isspace (sint x)) xs \<noteq> []) (dropWhile (\<lambda>x. xu_isspace (sint x)) xs)"
proof (cases "xs = []")
  case True
  then show ?thesis using s empty_cstr [of s] by (simp add: string_ltrim_def leaves_text_def)
next
  case False
  let ?ys = "dropWhile (\<lambda>x. xu_isspace (sint x)) xs" and ?k = "length (takeWhile (\<lambda>x. xu_isspace (sint x)) xs)"
  obtain d where d: "string_cstr s = Some d" "length xs < length d" "take (length xs) d = xs" using text_at [OF s False] by metis
  have loop: "ltrim_loop d 0 (length xs) = Some ?k" using ltrim_loop_spaces [of xs 0 d] d(2,3) by simp
  have ys: "?ys = drop ?k xs" by (rule dropWhile_eq_drop)
  have v: "valid s" and c: "contents s = xs @ [0]" using s False by (auto simp: holds_text_def)
  have n: "bf_size s = Suc (length xs)" using length_contents [OF v] c by simp
  have z: "0 \<notin> set ?ys" using s set_dropWhileD [of 0 _ xs] by (auto simp: holds_text_def)
  consider "?k = length xs" | "?k = 0" "?k < length xs" | "0 < ?k" "?k < length xs"
    using length_takeWhile_le [of _ xs] le_neq_implies_less by blast
  then show ?thesis
  proof cases
    case 1
    then have e: "?ys = []" using ys by simp
    obtain s' where "string_clear s = Some s'" "holds_text valid s' []" using clear_leaves [OF s] by blast
    then show ?thesis unfolding e using d loop 1 text_size [OF s] empty_cstr [of s']
      by (simp add: string_ltrim_def leaves_text_def the_cstr_def)
  next
    case 2
    then have "?ys = xs" using ys by simp
    then show ?thesis using d loop 2 text_size [OF s] the_cstr_leaves [OF s] by (simp add: string_ltrim_def)
  next
    case 3
    have "yields valid (buffer_memmovp resize s 0 ?k) s True (?ys @ [0])"
      using memnmovp_yields [OF v, of 0 ?k "Suc (length xs) - ?k"] 3 n c ys shrinks [OF v, of "Suc (length xs) - ?k"] size_small [OF v]
      by (simp add: buffer_memmovp_def buffer_size_def)
    then obtain s' where r: "buffer_memmovp resize s 0 ?k = Some (True, s')" "valid s'" "contents s' = ?ys @ [0]" by (auto simp: yields_def)
    then have "holds_text valid s' ?ys" using z by (auto simp: holds_text_def contents_def)
    then show ?thesis using d loop 3 text_size [OF s] the_cstr_leaves [of s' ?ys] r(1) by (simp add: string_ltrim_def)
  qed
qed

lemma rtrim_leaves:
  assumes s: "holds_text valid s xs"
  defines "ys \<equiv> rev (dropWhile (\<lambda>x. xu_isspace (sint x)) (rev xs))"
  shows "leaves_text valid (string_rtrim resize s) (ys \<noteq> []) ys"
proof (cases "xs = []")
  case True
  then show ?thesis using s empty_cstr [of s] by (simp add: string_rtrim_def leaves_text_def ys_def)
next
  case False
  obtain d where d: "string_cstr s = Some d" "length xs < length d" "take (length xs) d = xs" using text_at [OF s False] by metis
  have loop: "rtrim_loop d (length xs) = Some (length ys)" using rtrim_loop_spaces [of xs d] d(2,3) by (simp add: ys_def)
  have "xs = ys @ rev (takeWhile (\<lambda>x. xu_isspace (sint x)) (rev xs))"
    unfolding ys_def by (metis rev_append rev_rev_ident takeWhile_dropWhile_id)
  then have ys: "ys = take (length ys) xs" by (metis append_eq_conv_conj)
  have le: "length ys \<le> length xs" using length_dropWhile_le [of _ "rev xs"] by (simp add: ys_def)
  consider "ys = []" | "ys = xs" "ys \<noteq> []" | "length ys < length xs" "ys \<noteq> []" using le ys by fastforce
  then show ?thesis
  proof cases
    case 1
    moreover obtain s' where "string_clear s = Some s'" "holds_text valid s' []" using clear_leaves [OF s] by blast
    ultimately show ?thesis using d loop text_size [OF s] empty_cstr [of s']
      by (simp add: string_rtrim_def leaves_text_def the_cstr_def)
  next
    case 2
    then show ?thesis using d loop text_size [OF s] the_cstr_leaves [OF s] by (simp add: string_rtrim_def string_strip_def the_cstr_def)
  next
    case 3
    then obtain s' where r: "string_strip resize s (length ys) = Some (True, s')" "holds_text valid s' ys"
      using strip_leaves [OF s, of "length ys"] ys by (auto simp: leaves_text_def)
    then show ?thesis using d loop 3 text_size [OF s] the_cstr_leaves [of s' ys] by (simp add: string_rtrim_def)
  qed
qed

section \<open>Searching and comparing\<close>

lemma search_found:
  assumes s: "holds_text valid s xs" and p: "p < length xs" and l: "\<And>d. cstr d 0 xs \<Longrightarrow> look d = Some (map_option ((+) p) i)"
  shows "string_search s p look = Some (found_from p i)"
proof -
  have "xs \<noteq> []" using p by auto
  then obtain d where "string_cstr s = Some d" "cstr d 0 xs" using text_at [OF s] by metis
  then show ?thesis using p l [of d] text_size [OF s] by (cases i) (simp_all add: string_search_def found_from_def)
qed

lemma cstr_append: "cstr d p xs \<Longrightarrow> cstr (d @ t) p xs"
  by (induction xs arbitrary: p) (auto simp: peek_def nth_append split: if_splits)

lemma cstr_behind: "cstr t p xs \<Longrightarrow> cstr (d @ t) (length d + p) xs"
proof (induction xs arbitrary: p)
  case (Cons x xs)
  then show ?case using Cons.IH [of "p + 1"] by (auto simp: peek_def nth_append split: if_splits)
qed (auto simp: peek_def nth_append split: if_splits)

lemma cstr_from: "cstr d 0 xs \<Longrightarrow> p < length xs \<Longrightarrow> cstr d p (drop p xs)"
  using cstr_drop [of d 0 xs p] by simp

lemma searches:
  assumes s: "holds_text valid s xs" and p: "p < length xs" and t: "cstr t 0 ys"
  shows "string_charat s p = Some (xs ! p)"
    "string_strchr s p c = Some (found_from p (first_index (\<lambda>x. x = c) (drop p xs)))"
    "string_strichr s p c = Some (found_from p (first_index (\<lambda>x. lower x = lower c) (drop p xs)))"
    "string_strrchr s 0 c = Some (found_from 0 (last_index (\<lambda>x. x = c) xs))"
    "string_strirchr s 0 c = Some (found_from 0 (last_index (\<lambda>x. lower x = lower c) xs))"
    "string_cstrstr s p (Some t) = Some (found_from p (first_at (\<lambda>y x. y = x) ys (drop p xs)))"
    "string_cstristr s p (Some t) = Some (found_from p (first_at (\<lambda>y x. lower y = lower x) ys (drop p xs)))"
proof -
  have ne: "xs \<noteq> []" "0 < length xs" using p by auto
  obtain d where d: "string_cstr s = Some d" "cstr d 0 xs" using text_at [OF s ne(1)] by metis
  show "string_charat s p = Some (xs ! p)" using d p cstr_peek [OF d(2) p] text_size [OF s] by (simp add: string_charat_def)
  show "string_strchr s p c = Some (found_from p (first_index (\<lambda>x. x = c) (drop p xs)))"
    "string_strichr s p c = Some (found_from p (first_index (\<lambda>x. lower x = lower c) (drop p xs)))"
    unfolding string_strchr_def string_strichr_def
    by (rule search_found [OF s p]; use p in \<open>simp add: strings_search [OF cstr_from cstr_from]\<close>)+
  show "string_strrchr s 0 c = Some (found_from 0 (last_index (\<lambda>x. x = c) xs))"
    "string_strirchr s 0 c = Some (found_from 0 (last_index (\<lambda>x. lower x = lower c) xs))"
    unfolding string_strrchr_def string_strirchr_def text_size [OF s]
    by (rule search_found [OF s ne(2)]; simp add: strings_search [where n = "length xs"])+
  show "string_cstrstr s p (Some t) = Some (found_from p (first_at (\<lambda>y x. y = x) ys (drop p xs)))"
    "string_cstristr s p (Some t) = Some (found_from p (first_at (\<lambda>y x. lower y = lower x) ys (drop p xs)))"
    unfolding string_cstrstr_def string_cstristr_def
    by (rule search_found [OF s p]; use p t in \<open>simp add: strings_search [OF cstr_append [OF cstr_from] cstr_behind [of t 0, simplified]]\<close>)+
qed

lemma compares:
  assumes s: "holds_text valid s xs" and t: "cstr t 0 ys" and ne: "xs \<noteq> []"
  shows "map_option sgn (string_cstrncmp s (Some t) n) = Some (order_sign (map uint (take n xs)) (map uint (take n ys)))"
    "map_option sgn (string_cstrnicmp s (Some t) n) = Some (order_sign (map lower (take n xs)) (map lower (take n ys)))"
proof -
  obtain d where d: "string_cstr s = Some d" "cstr d 0 xs" using text_at [OF s ne] by metis
  note c = strings_compare [OF cstr_append [OF d(2)] cstr_behind [OF t], of 0 0 0]
  show "map_option sgn (string_cstrncmp s (Some t) n) = Some (order_sign (map uint (take n xs)) (map uint (take n ys)))"
    "map_option sgn (string_cstrnicmp s (Some t) n) = Some (order_sign (map lower (take n xs)) (map lower (take n ys)))"
    using c d by (simp_all add: string_cstrncmp_def string_cstrnicmp_def)
qed

lemma text_read:
  assumes t: "holds_text valid t ys" and "ys \<noteq> []"
  obtains d where "string_cstr t = Some d" "cstr d 0 ys"
  using text_at [OF assms] by metis

lemma prefix_order: "order_sign (take (Suc (length ys)) xs) ys = order_sign xs ys"
proof (induction ys arbitrary: xs)
  case Nil
  then show ?case by (cases xs) simp_all
next
  case (Cons y ys)
  then show ?case by (cases xs) simp_all
qed

lemma string_compares:
  assumes s: "holds_text valid s xs" and t: "holds_text valid t ys" and ne: "xs \<noteq> []" "ys \<noteq> []"
  shows "map_option sgn (string_strcmp s t) = Some (order_sign (map uint xs) (map uint ys))"
    "map_option sgn (string_strimp s t) = Some (order_sign (map lower xs) (map lower ys))"
proof -
  obtain d where d: "string_cstr t = Some d" "cstr d 0 ys" using text_read [OF t ne(2)] .
  show "map_option sgn (string_strcmp s t) = Some (order_sign (map uint xs) (map uint ys))"
    "map_option sgn (string_strimp s t) = Some (order_sign (map lower xs) (map lower ys))"
    using compares [OF s d(2) ne(1), of "Suc (length ys)"] text_size [OF t] d(1) prefix_order [of "map uint ys" "map uint xs"]
      prefix_order [of "map lower ys" "map lower xs"]
    by (simp_all add: string_strcmp_def string_strimp_def take_map)
qed

lemma back_search_broken:
  assumes s: "holds_text valid s xs" and n: "1 < length xs"
  shows "string_strrchr s 1 c = Some (- 1)"
proof -
  have "xs \<noteq> []" using n by auto
  then obtain d where d: "string_cstr s = Some d" "cstr d 0 xs" using text_at [OF s] by metis
  obtain m where m: "length xs = Suc m" using n by (cases "length xs") auto
  have "peek d (1 + m) = Some 0" using cstr_end [OF d(2)] m by simp
  then have "xu_strnrchr d 1 (length xs) c = Some None" by (simp add: xu_strnrchr_def m)
  then show ?thesis using d(1) n text_size [OF s] by (simp add: string_strrchr_def string_search_def)
qed

text \<open>Copies and concatenations of whole texts.\<close>

lemma whole_copies:
  assumes s: "holds_text valid s xs" and t: "holds_text valid t ys" and u: "cstr u 0 zs"
    and w: "length xs + length ys + length zs + 1 < 2 ^ 64"
  shows "leaves_text valid (string_strcpy resize same s t) (ys \<noteq> [] \<and> fst (resize s (length ys + 1)))
      (if ys = [] \<or> fst (resize s (length ys + 1)) then ys else xs)"
    "leaves_text valid (string_strcat resize same s t) (ys \<noteq> [] \<and> fst (resize s (length xs + length ys + 1)))
      (if ys \<noteq> [] \<and> fst (resize s (length xs + length ys + 1)) then xs @ ys else xs)"
    "leaves_text valid (string_cstrcpy resize same s (Some u)) (if zs = [] then same \<and> xs \<noteq> [] else fst (resize s (length zs + 1)))
      (if zs \<noteq> [] \<and> fst (resize s (length zs + 1)) then zs else xs)"
    "leaves_text valid (string_cstrcat resize same s (Some u))
      (if zs = [] then same \<and> xs \<noteq> [] else fst (resize s (length xs + length zs + 1)))
      (if zs \<noteq> [] \<and> fst (resize s (length xs + length zs + 1)) then xs @ zs else xs)"
proof -
  have n: "string_size t = length ys" "xu_strlen u 0 = Some (length zs)" using text_size [OF t] strlen_arg [OF u] by auto
  show "leaves_text valid (string_strcpy resize same s t) (ys \<noteq> [] \<and> fst (resize s (length ys + 1)))
      (if ys = [] \<or> fst (resize s (length ys + 1)) then ys else xs)"
  proof (cases "ys = []")
    case True
    then show ?thesis using clear_leaves [OF s] n by (auto simp: string_strcpy_def leaves_text_def)
  next
    case False
    then obtain d where "string_cstr t = Some d" "cstr d 0 ys" using text_read [OF t] by metis
    then show ?thesis using cstrncpy_leaves [OF s, of d ys "length ys" same] False w n
      by (cases "fst (resize s (Suc (length ys)))") (simp_all add: string_strcpy_def)
  qed
  show "leaves_text valid (string_strcat resize same s t) (ys \<noteq> [] \<and> fst (resize s (length xs + length ys + 1)))
      (if ys \<noteq> [] \<and> fst (resize s (length xs + length ys + 1)) then xs @ ys else xs)"
  proof (cases "ys = []")
    case True
    then show ?thesis using empty_cstr [of t] t s by (simp add: string_strcat_def string_cstrncat_def leaves_text_def)
  next
    case False
    then obtain d where "string_cstr t = Some d" "cstr d 0 ys" using text_read [OF t] by metis
    then show ?thesis using cstrncat_leaves [OF s, of d ys "length ys" same] False w n
      by (cases "fst (resize s (Suc (length xs + length ys)))") (simp_all add: string_strcat_def)
  qed
  show "leaves_text valid (string_cstrcpy resize same s (Some u)) (if zs = [] then same \<and> xs \<noteq> [] else fst (resize s (length zs + 1)))
      (if zs \<noteq> [] \<and> fst (resize s (length zs + 1)) then zs else xs)"
    using cstrncpy_leaves [OF s u, of "length zs" same] cstrncpy_none [OF s, of same u] n w
    by (cases "zs = []"; cases "fst (resize s (Suc (length zs)))") (simp_all add: string_cstrcpy_def)
  show "leaves_text valid (string_cstrcat resize same s (Some u))
      (if zs = [] then same \<and> xs \<noteq> [] else fst (resize s (length xs + length zs + 1)))
      (if zs \<noteq> [] \<and> fst (resize s (length xs + length zs + 1)) then xs @ zs else xs)"
    using cstrncat_leaves [OF s u, of "length zs" same] cstrncat_none [OF s, of same u] n w
    by (cases "zs = []"; cases "fst (resize s (Suc (length xs + length zs)))") (simp_all add: string_cstrcat_def)
qed

end

section \<open>The properties\<close>

text \<open>What the operations of a string do to its text. Without room nothing changes. Copying an empty string clears the string,
  but copying an empty C string does not.\<close>

definition builds_text :: "('z static_buffer_scheme \<Rightarrow> bool) \<Rightarrow> 'z resizer \<Rightarrow> bool
    \<Rightarrow> ('z static_buffer_scheme \<Rightarrow> u8 \<Rightarrow> nat \<Rightarrow> 'z outcome)
    \<Rightarrow> ('z static_buffer_scheme \<Rightarrow> 'z static_buffer_scheme \<Rightarrow> 'z outcome)
    \<Rightarrow> ('z static_buffer_scheme \<Rightarrow> 'z static_buffer_scheme \<Rightarrow> 'z outcome)
    \<Rightarrow> ('z static_buffer_scheme \<Rightarrow> u8 list option \<Rightarrow> 'z outcome)
    \<Rightarrow> ('z static_buffer_scheme \<Rightarrow> u8 list option \<Rightarrow> 'z outcome)
    \<Rightarrow> ('z static_buffer_scheme \<Rightarrow> nat \<Rightarrow> 'z outcome) \<Rightarrow> ('z static_buffer_scheme \<Rightarrow> 'z outcome)
    \<Rightarrow> ('z static_buffer_scheme \<Rightarrow> 'z outcome) \<Rightarrow> bool" where
  "builds_text valid resize same chrncat strcpy strcat cstrcpy cstrcat strip ltrim rtrim \<longleftrightarrow>
     (\<forall>s t u xs ys zs c n. let room = (\<lambda>k. fst (resize s (k + 1))); sp = (\<lambda>x. xu_isspace (sint x)) in
        holds_text valid s xs \<and> holds_text valid t ys \<and> cstr u 0 zs \<and> c \<noteq> 0 \<and>
        length xs + length ys + length zs + n + 1 < 2 ^ 64 \<longrightarrow>
        leaves_text valid (chrncat s c n) (room (length xs + n)) (if room (length xs + n) then xs @ replicate n c else xs) \<and>
        leaves_text valid (strcpy s t) (ys \<noteq> [] \<and> room (length ys)) (if ys = [] \<or> room (length ys) then ys else xs) \<and>
        leaves_text valid (strcat s t) (ys \<noteq> [] \<and> room (length xs + length ys))
          (if ys \<noteq> [] \<and> room (length xs + length ys) then xs @ ys else xs) \<and>
        leaves_text valid (cstrcpy s (Some u)) (if zs = [] then same \<and> xs \<noteq> [] else room (length zs))
          (if zs \<noteq> [] \<and> room (length zs) then zs else xs) \<and>
        leaves_text valid (cstrcat s (Some u)) (if zs = [] then same \<and> xs \<noteq> [] else room (length xs + length zs))
          (if zs \<noteq> [] \<and> room (length xs + length zs) then xs @ zs else xs) \<and>
        (n < length xs \<longrightarrow> leaves_text valid (strip s n) True (take n xs)) \<and>
        leaves_text valid (ltrim s) (dropWhile sp xs \<noteq> []) (dropWhile sp xs) \<and>
        leaves_text valid (rtrim s) (rev (dropWhile sp (rev xs)) \<noteq> []) (rev (dropWhile sp (rev xs))))"

lemma text_built:
  assumes "resizable resize valid"
  shows "builds_text valid resize same (string_chrncat resize) (string_strcpy resize same) (string_strcat resize same)
    (string_cstrcpy resize same) (string_cstrcat resize same) (string_strip resize) (string_ltrim resize) (string_rtrim resize)"
  unfolding builds_text_def Let_def
proof (intro allI impI, elim conjE)
  fix s t u xs ys zs and c :: u8 and n
  assume h: "holds_text valid s xs" "holds_text valid t ys" "cstr u 0 zs" "c \<noteq> 0" and w: "length xs + length ys + length zs + n + 1 < 2 ^ 64"
  have w': "length xs + length ys + length zs + 1 < 2 ^ 64" "length xs + n + 1 < 2 ^ 64" using w by simp_all
  note r = resizable.whole_copies [OF assms h(1-3) w'(1), where same = same]
  show "leaves_text valid (string_chrncat resize s c n) (fst (resize s (length xs + n + 1)))
      (if fst (resize s (length xs + n + 1)) then xs @ replicate n c else xs) \<and>
    leaves_text valid (string_strcpy resize same s t) (ys \<noteq> [] \<and> fst (resize s (length ys + 1)))
      (if ys = [] \<or> fst (resize s (length ys + 1)) then ys else xs) \<and>
    leaves_text valid (string_strcat resize same s t) (ys \<noteq> [] \<and> fst (resize s (length xs + length ys + 1)))
      (if ys \<noteq> [] \<and> fst (resize s (length xs + length ys + 1)) then xs @ ys else xs) \<and>
    leaves_text valid (string_cstrcpy resize same s (Some u)) (if zs = [] then same \<and> xs \<noteq> [] else fst (resize s (length zs + 1)))
      (if zs \<noteq> [] \<and> fst (resize s (length zs + 1)) then zs else xs) \<and>
    leaves_text valid (string_cstrcat resize same s (Some u))
      (if zs = [] then same \<and> xs \<noteq> [] else fst (resize s (length xs + length zs + 1)))
      (if zs \<noteq> [] \<and> fst (resize s (length xs + length zs + 1)) then xs @ zs else xs) \<and>
    (n < length xs \<longrightarrow> leaves_text valid (string_strip resize s n) True (take n xs)) \<and>
    leaves_text valid (string_ltrim resize s) (dropWhile (\<lambda>x. xu_isspace (sint x)) xs \<noteq> []) (dropWhile (\<lambda>x. xu_isspace (sint x)) xs) \<and>
    leaves_text valid (string_rtrim resize s) (rev (dropWhile (\<lambda>x. xu_isspace (sint x)) (rev xs)) \<noteq> [])
      (rev (dropWhile (\<lambda>x. xu_isspace (sint x)) (rev xs)))"
    by (intro conjI impI r resizable.chrncat_leaves [OF assms h(1,4) w'(2)] resizable.strip_leaves [OF assms h(1)]
      resizable.ltrim_leaves [OF assms h(1)] resizable.rtrim_leaves [OF assms h(1)])
qed

text \<open>A string over the growing buffer and one over a block hold a text: appending characters, copying and appending strings
  and C strings, cutting and trimming do to it what lists do, or change nothing when the buffer has no room. An empty C string,
  unlike an empty string, is not copied, and an empty string is neither appended nor answered with a pointer.\<close>

theorem xu_strings_build_texts:
  assumes "gives_blocks ralloc"
  shows "builds_text buffer_inv (xu_buffer_resize ralloc) True (xu_string_chrncat ralloc) (xu_string_strcpy ralloc)
      (xu_string_strcat ralloc) (xu_string_cstrcpy ralloc) (xu_string_cstrcat ralloc) (xu_string_strip ralloc)
      (xu_string_ltrim ralloc) (xu_string_rtrim ralloc) \<and>
    builds_text static_inv xu_static_buffer_resize False xu_static_string_chrncat xu_static_string_strcpy
      xu_static_string_strcat xu_static_string_cstrcpy xu_static_string_cstrcat xu_static_string_strip
      xu_static_string_ltrim xu_static_string_rtrim \<and>
    (\<forall>a. length a = XU_BUFFER_ARRAY \<longrightarrow> (\<exists>s. xu_string_init a = Some s \<and> holds_text buffer_inv s [])) \<and>
    (\<forall>d. d \<noteq> [] \<and> length d < 2 ^ 64 \<longrightarrow> (\<exists>s. xu_static_string_init (Some d) (length d) = Some s \<and> holds_text static_inv s []))"
proof (intro conjI allI impI)
  show "\<exists>s. xu_string_init a = Some s \<and> holds_text buffer_inv s []" if "length a = XU_BUFFER_ARRAY" for a
  proof (rule resizable.clear_leaves [OF growing [OF assms], of "xu_buffer_init a" "[]", folded xu_string_init_def])
    show "holds_text buffer_inv (xu_buffer_init a) []"
      using that by (auto simp: holds_text_def buffer_inv_def xu_buffer_init_def contents_def XU_BUFFER_ARRAY_def)
  qed
  show "\<exists>s. xu_static_string_init (Some d) (length d) = Some s \<and> holds_text static_inv s []" if "d \<noteq> [] \<and> length d < 2 ^ 64" for d
  proof (rule static.clear_leaves [of "xu_static_buffer_init (Some d) (length d)" "[]", folded xu_static_string_init_def])
    show "holds_text static_inv (xu_static_buffer_init (Some d) (length d)) []"
      using that by (auto simp: holds_text_def static_inv_def xu_static_buffer_init_def contents_def)
  qed
qed (use text_built [OF growing [OF assms], of True] text_built [OF static.resizable_axioms, of False] in
    \<open>simp_all add: xu_string_chrncat_def xu_string_strcpy_def xu_string_strcat_def xu_string_cstrcpy_def xu_string_cstrcat_def
      xu_string_strip_def xu_string_ltrim_def xu_string_rtrim_def xu_static_string_chrncat_def xu_static_string_strcpy_def
      xu_static_string_strcat_def xu_static_string_cstrcpy_def xu_static_string_cstrcat_def xu_static_string_strip_def
      xu_static_string_ltrim_def xu_static_string_rtrim_def\<close>)

theorem xu_strings_build_texts_witness:
  "\<exists>s. xu_static_string_init (Some [1, 2, 3, 4]) 4 = Some s \<and>
    (\<exists>s'. xu_static_string_chrncat s 97 3 = Some (True, s') \<and> holds_text static_inv s' [97, 97, 97]) \<and>
    (\<exists>s'. xu_static_string_cstrcpy s (Some [98, 99, 0]) = Some (True, s') \<and> holds_text static_inv s' [98, 99])"
proof -
  note w = xu_strings_build_texts [OF sample_blocks_give]
  have "\<exists>s. xu_static_string_init (Some [1, 2, 3, 4]) (length [1, 2, 3, 4 :: u8]) = Some s \<and> holds_text static_inv s []"
    by (rule w [THEN conjunct2, THEN conjunct2, THEN conjunct2, rule_format]) simp
  moreover have "length [1, 2, 3, 4 :: u8] = 4" by simp
  ultimately obtain s where s: "xu_static_string_init (Some [1, 2, 3, 4]) 4 = Some s" "holds_text static_inv s []" by metis
  then have m: "bf_maxn s = 4" "bf_data s \<noteq> None" "static_inv s"
    by (auto simp: holds_text_def static_inv_def xu_static_string_init_def xu_static_buffer_init_def string_clear_def buffer_clear_def
        buffer_data_def bind_eq_Some_conv)
  have c: "cstr [98, 99, 0] 0 [98, 99]" by (simp add: peek_def)
  note b = w [THEN conjunct2, THEN conjunct1, unfolded builds_text_def Let_def, THEN spec, of s, THEN spec, of s, THEN spec,
      of "[98, 99, 0]", THEN spec, of "[]", THEN spec, of "[]", THEN spec, of "[98, 99]", THEN spec, of 97, THEN spec, of 3]
  have room: "fst (xu_static_buffer_resize s (3 + 1))" "fst (xu_static_buffer_resize s (2 + 1))"
    using static_room [OF m(3)] m(1) by simp_all
  have "leaves_text static_inv (xu_static_string_chrncat s 97 3) True [97, 97, 97]"
    "leaves_text static_inv (xu_static_string_cstrcpy s (Some [98, 99, 0])) True [98, 99]"
    using b s(2) c room by (simp_all add: numeral_3_eq_3)
  then show ?thesis using s(1) by (auto simp: leaves_text_def)
qed

text \<open>What a string answers about its text.\<close>

definition answers_text :: "('z static_buffer_scheme \<Rightarrow> bool) \<Rightarrow> ('z static_buffer_scheme \<Rightarrow> nat) \<Rightarrow> ('z static_buffer_scheme \<Rightarrow> nat \<Rightarrow> u8 option)
    \<Rightarrow> ('z static_buffer_scheme \<Rightarrow> nat \<Rightarrow> u8 \<Rightarrow> int option) \<Rightarrow> ('z static_buffer_scheme \<Rightarrow> nat \<Rightarrow> u8 \<Rightarrow> int option)
    \<Rightarrow> ('z static_buffer_scheme \<Rightarrow> nat \<Rightarrow> u8 \<Rightarrow> int option) \<Rightarrow> ('z static_buffer_scheme \<Rightarrow> nat \<Rightarrow> u8 \<Rightarrow> int option)
    \<Rightarrow> ('z static_buffer_scheme \<Rightarrow> nat \<Rightarrow> u8 list option \<Rightarrow> int option) \<Rightarrow> ('z static_buffer_scheme \<Rightarrow> nat \<Rightarrow> u8 list option \<Rightarrow> int option)
    \<Rightarrow> ('z static_buffer_scheme \<Rightarrow> 'z static_buffer_scheme \<Rightarrow> int option) \<Rightarrow> ('z static_buffer_scheme \<Rightarrow> 'z static_buffer_scheme \<Rightarrow> int option)
    \<Rightarrow> bool" where
  "answers_text valid text_size charat strchr strichr strrchr strirchr cstrstr cstristr strcmp strimp \<longleftrightarrow>
     (\<forall>s t u xs ys zs p c. holds_text valid s xs \<and> holds_text valid t ys \<and> cstr u 0 zs \<and> p < length xs \<longrightarrow>
        text_size s = length xs \<and>
        charat s p = Some (xs ! p) \<and>
        strchr s p c = Some (found_from p (first_index (\<lambda>x. x = c) (drop p xs))) \<and>
        strichr s p c = Some (found_from p (first_index (\<lambda>x. lower x = lower c) (drop p xs))) \<and>
        strrchr s 0 c = Some (found_from 0 (last_index (\<lambda>x. x = c) xs)) \<and>
        strirchr s 0 c = Some (found_from 0 (last_index (\<lambda>x. lower x = lower c) xs)) \<and>
        cstrstr s p (Some u) = Some (found_from p (first_at (\<lambda>y x. y = x) zs (drop p xs))) \<and>
        cstristr s p (Some u) = Some (found_from p (first_at (\<lambda>y x. lower y = lower x) zs (drop p xs))) \<and>
        (if ys = [] then strcmp s t = Some 0
         else map_option sgn (strcmp s t) = Some (order_sign (map uint xs) (map uint ys)) \<and>
           map_option sgn (strimp s t) = Some (order_sign (map lower xs) (map lower ys))) \<and>
        (1 < length xs \<longrightarrow> strrchr s 1 c = Some (- 1)))"

lemma text_answered:
  assumes "resizable resize valid"
  shows "answers_text valid string_size string_charat string_strchr string_strichr string_strrchr string_strirchr
    string_cstrstr string_cstristr string_strcmp string_strimp"
  unfolding answers_text_def
proof (intro allI impI, elim conjE)
  fix s t u xs ys zs p c
  assume h: "holds_text valid s xs" "holds_text valid t ys" "cstr u 0 zs" "p < length xs"
  then have ne: "xs \<noteq> []" by auto
  have e: "string_strcmp s t = Some 0" if "ys = []"
    using resizable.empty_cstr [OF assms] h(2) that by (simp add: string_strcmp_def string_cstrncmp_def)
  show "string_size s = length xs \<and>
        string_charat s p = Some (xs ! p) \<and>
        string_strchr s p c = Some (found_from p (first_index (\<lambda>x. x = c) (drop p xs))) \<and>
        string_strichr s p c = Some (found_from p (first_index (\<lambda>x. lower x = lower c) (drop p xs))) \<and>
        string_strrchr s 0 c = Some (found_from 0 (last_index (\<lambda>x. x = c) xs)) \<and>
        string_strirchr s 0 c = Some (found_from 0 (last_index (\<lambda>x. lower x = lower c) xs)) \<and>
        string_cstrstr s p (Some u) = Some (found_from p (first_at (\<lambda>y x. y = x) zs (drop p xs))) \<and>
        string_cstristr s p (Some u) = Some (found_from p (first_at (\<lambda>y x. lower y = lower x) zs (drop p xs))) \<and>
        (if ys = [] then string_strcmp s t = Some 0
         else map_option sgn (string_strcmp s t) = Some (order_sign (map uint xs) (map uint ys)) \<and>
           map_option sgn (string_strimp s t) = Some (order_sign (map lower xs) (map lower ys))) \<and>
        (1 < length xs \<longrightarrow> string_strrchr s 1 c = Some (- 1))"
    using resizable.searches [OF assms h(1,4,3)] resizable.text_size [OF assms h(1)] resizable.back_search_broken [OF assms h(1)]
      resizable.string_compares [OF assms h(1,2) ne] e
    by (cases "ys = []") simp_all
qed

text \<open>A string over either buffer answers about its text: its size, the character at a place, the first place from a position
  of a character or of a C string with and without regard to case, the last place of a character from the start, and the order of
  two texts that are not empty. But every string is equal to an empty one, and a backward search from position one finds nothing.\<close>

theorem xu_strings_answer:
  "answers_text buffer_inv xu_string_size xu_string_charat xu_string_strchr xu_string_strichr xu_string_strrchr xu_string_strirchr
     xu_string_cstrstr xu_string_cstristr xu_string_strcmp xu_string_strimp \<and>
   answers_text static_inv xu_static_string_size xu_static_string_charat xu_static_string_strchr xu_static_string_strichr
     xu_static_string_strrchr xu_static_string_strirchr xu_static_string_cstrstr xu_static_string_cstristr
     xu_static_string_strcmp xu_static_string_strimp"
  using text_answered [OF growing [OF sample_blocks_give]] text_answered [OF static.resizable_axioms]
  by (simp add: xu_string_size_def xu_string_charat_def xu_string_strchr_def xu_string_strichr_def xu_string_strrchr_def
      xu_string_strirchr_def xu_string_cstrstr_def xu_string_cstristr_def xu_string_strcmp_def xu_string_strimp_def
      xu_static_string_size_def xu_static_string_charat_def xu_static_string_strchr_def xu_static_string_strichr_def
      xu_static_string_strrchr_def xu_static_string_strirchr_def xu_static_string_cstrstr_def xu_static_string_cstristr_def
      xu_static_string_strcmp_def xu_static_string_strimp_def)

end
