(* ===== verification/Spec2Isabelle.thy ===== *)
theory Spec2Isabelle
  imports XSortCorrect XVectorCorrect XSearchCorrect XHeapCorrect XHashCorrect XCrcCorrect XDigestCorrect XBitsCorrect
    XStreamCorrect XListCorrect XCharsetCorrect XMathCorrect XHashMapCorrect XLargeAllocRuns XFixedPoolCorrect XCodecCorrect XQueueBufferCorrect XStringCorrect
begin

text \<open>
  Verification library for \<^verbatim>\<open>xutil\<close>, the C runtime library under
  \<^verbatim>\<open>src/core/src/xutil\<close> on which the xmake build tool is written.

  \<^bold>\<open>Program.\<close> The containers of xutil store items through an element table (how an item is
  compared, copied and freed) and expose positions through an iterator table; the generic
  algorithms (sorting, searching, removing, distance) only use the iterator table. The hash
  routines work on byte sequences. The bit accessors read and write integers and bit fields in
  memory, the static stream is a cursor over memory built on them, and character sets and text
  codecs convert bytes.

  \<^bold>\<open>Theories and code.\<close> A pair \<^verbatim>\<open>X\<close>, \<^verbatim>\<open>XCorrect\<close> holds the model of a component and its proofs.
  Functions keep the names they have in C; an auxiliary function stands for one loop or one block
  of its function.

  \<^item> \<^verbatim>\<open>XPrelude\<close>: words, comparators, ranges of a list and
    permutations inside a range.
  \<^item> \<^verbatim>\<open>XIterator\<close>, \<^verbatim>\<open>XSort\<close>,
    \<^verbatim>\<open>XSortCorrect\<close>, \<^verbatim>\<open>XHeapShape\<close>:
    \<^verbatim>\<open>container/iterator.c\<close>,
    \<^verbatim>\<open>container/array_iterator.c\<close>,
    \<^verbatim>\<open>algorithm/*_sort.c\<close>,
    \<^verbatim>\<open>algorithm/distance.c\<close>.
  \<^item> \<^verbatim>\<open>XElement\<close>, \<^verbatim>\<open>XVector\<close>,
    \<^verbatim>\<open>XVectorCorrect\<close>:
    \<^verbatim>\<open>container/element/long.c\<close>, \<^verbatim>\<open>size.c\<close>,
    \<^verbatim>\<open>container/vector.c\<close>: the record holds the buffer, the item count and
    the capacity.
  \<^item> \<^verbatim>\<open>XSearch\<close>, \<^verbatim>\<open>XSearchCorrect\<close>:
    \<^verbatim>\<open>algorithm/find*.c\<close>, \<^verbatim>\<open>binary_find*.c\<close>,
    \<^verbatim>\<open>walk.c\<close>, \<^verbatim>\<open>remove*.c\<close>,
    \<^verbatim>\<open>predicate.c\<close>.
  \<^item> \<^verbatim>\<open>XHeap\<close>, \<^verbatim>\<open>XHeapCorrect\<close>:
    \<^verbatim>\<open>container/heap.c\<close>.
  \<^item> \<^verbatim>\<open>XHash\<close>, \<^verbatim>\<open>XHashCorrect\<close>:
    \<^verbatim>\<open>hash/adler32.c\<close>, \<^verbatim>\<open>fnv32.c\<close>,
    \<^verbatim>\<open>fnv64.c\<close> and the multiplicative hashes.
  \<^item> \<^verbatim>\<open>XCrc\<close>, \<^verbatim>\<open>XCrcCorrect\<close>:
    \<^verbatim>\<open>hash/crc32.c\<close>, \<^verbatim>\<open>crc16.c\<close>,
    \<^verbatim>\<open>crc8.c\<close> with their tables.
  \<^item> \<^verbatim>\<open>XDigest\<close>, \<^verbatim>\<open>XDigestCorrect\<close>:
    \<^verbatim>\<open>hash/md5.c\<close>, \<^verbatim>\<open>hash/sha.c\<close>.
  \<^item> \<^verbatim>\<open>XBits\<close>, \<^verbatim>\<open>XBitsCorrect\<close>:
    \<^verbatim>\<open>utils/bits.c\<close>, \<^verbatim>\<open>utils/bits.h\<close>.
  \<^item> \<^verbatim>\<open>XStream\<close>, \<^verbatim>\<open>XStreamCorrect\<close>:
    \<^verbatim>\<open>stream/static_stream.c\<close>: the record holds the memory, the position
    in bytes and bits, the size and the end.
  \<^item> \<^verbatim>\<open>XListEntry\<close>, \<^verbatim>\<open>XListEntryCorrect\<close>:
    \<^verbatim>\<open>container/list_entry.h\<close>, \<^verbatim>\<open>list_entry.c\<close>,
    \<^verbatim>\<open>single_list_entry.h\<close>,
    \<^verbatim>\<open>single_list_entry.c\<close>: the store gives the links of every entry and
    the counter of every head.
  \<^item> \<^verbatim>\<open>XList\<close>, \<^verbatim>\<open>XListCorrect\<close>:
    \<^verbatim>\<open>container/list.c\<close>, \<^verbatim>\<open>single_list.c\<close>: the
    store of links, the item of every node and the nodes that the pool has handed out.
  \<^item> \<^verbatim>\<open>XCString\<close>, \<^verbatim>\<open>XCStringCorrect\<close>:
    \<^verbatim>\<open>libc/string/\<close>, \<^verbatim>\<open>libc/misc/ctype.h\<close>, the
    integers of \<^verbatim>\<open>libc/stdlib/stdlib.c\<close>: a string is a position in memory,
    an access outside the memory is none.
  \<^item> \<^verbatim>\<open>XCharset\<close>, \<^verbatim>\<open>XCharsetCorrect\<close>:
    \<^verbatim>\<open>charset/\<close>: the readers and writers of the seven sets on static
    streams, the table of the sets and the conversions; a conversion that does not end is none.
  \<^item> \<^verbatim>\<open>XMath\<close>, \<^verbatim>\<open>XMathCorrect\<close>:
    \<^verbatim>\<open>utils/bits.h\<close>, \<^verbatim>\<open>utils/utils.h\<close>,
    \<^verbatim>\<open>libm/\<close>: bit counts, byte swaps, powers of two and integer roots on
    words.
  \<^item> \<^verbatim>\<open>XElementHash\<close>:
    \<^verbatim>\<open>container/element/hash.c\<close> and the elements of integers, pointers and
    true with their hashes.
  \<^item> \<^verbatim>\<open>XHashMap\<close>, \<^verbatim>\<open>XHashMapCorrect\<close>:
    \<^verbatim>\<open>container/hash_map.c\<close>, \<^verbatim>\<open>hash_set.c\<close>: the
    buckets of items in cells, positions as packed numbers.
  \<^item> \<^verbatim>\<open>XLargeAlloc\<close>, \<^verbatim>\<open>XLargeAllocCorrect\<close>,
    \<^verbatim>\<open>XLargeAllocRuns\<close>:
    \<^verbatim>\<open>memory/impl/static_large_allocator.c\<close>: the heads of the blocks as
    maps from their addresses, the cache of free heads, the bytes of the data.
  \<^item> \<^verbatim>\<open>XRegions\<close>: the contract of a source of memory regions and its
    clients.
  \<^item> \<^verbatim>\<open>XFixedPool\<close>, \<^verbatim>\<open>XFixedPoolCorrect\<close>:
    \<^verbatim>\<open>memory/impl/static_fixed_pool.c\<close>: the bits of the used items as
    bytes, the items by their number.
  \<^item> \<^verbatim>\<open>XCodec\<close>, \<^verbatim>\<open>XCodecCorrect\<close>:
    \<^verbatim>\<open>utils/base64.c\<close>, \<^verbatim>\<open>utils/base32.c\<close>,
    \<^verbatim>\<open>utils/url.c\<close>: bytes into text and back.
  \<^item> \<^verbatim>\<open>XBuffer\<close>, \<^verbatim>\<open>XBufferCorrect\<close>:
    \<^verbatim>\<open>memory/buffer.c\<close>, \<^verbatim>\<open>static_buffer.c\<close>: the
    data as a block of bytes, the size and the capacity; the operations take the resizing as an
    argument.
  \<^item> \<^verbatim>\<open>XQueueBuffer\<close>,
    \<^verbatim>\<open>XQueueBufferCorrect\<close>:
    \<^verbatim>\<open>memory/queue_buffer.c\<close>: the block, the head as a position in it and
    the size.
  \<^item> \<^verbatim>\<open>XString\<close>, \<^verbatim>\<open>XStringCorrect\<close>:
    \<^verbatim>\<open>string/string.c\<close>, \<^verbatim>\<open>static_string.c\<close>: a text
    and its null character in a buffer.

  \<^bold>\<open>How state is represented.\<close> A C structure is a record and an operation returns the updated
  record. Memory is a list of cells or bytes and a pointer is an index into it; an access outside
  it is the value none where the code can make one. Machine integers that wrap are words of
  their width. A pointer result is an option, null being none. A callback is an argument, and a
  structure of callbacks is a record of functions.

  \<^bold>\<open>Parameters.\<close> The result of a memory allocation is an argument of the operations that allocate.
  Comparators, predicates and visitors are arguments with their documented laws as hypotheses (a
  comparator is a total preorder given by the sign of its result).

  \<^bold>\<open>Loops.\<close> Most loops are functions with a measure. Quick sort and the heap loops, whose
  termination depends on the comparator, and loops whose counter can wrap are partial functions
  into the option type, and the properties state that they return a value.

  \<^bold>\<open>What the lemmas show.\<close>

  \<^item> The four sorting routines and their dispatcher return a sorted permutation of the range
    and keep the rest of the buffer; distance is the signed difference of positions.
  \<^item> Vector operations implement list operations when the allocation succeeds and leave the
    vector as it was when the size limit refuses it, while a failed reallocation loses the items;
    elements promise the laws of the locale for values.
  \<^item> Searches return the first position that satisfies the predicate, binary search any
    equal one in a sorted range; removal filters the sequence, and the stopping flag is not always
    obeyed.
  \<^item> The heap implements a multiset with its least element on top and is drained in order.
  \<^item> Adler-32 with deferred reductions equals its definition; the multiplicative hashes are
    injective in the seed; the CRC loops equal bit-serial polynomial division; the digests do not
    depend on how the input is cut into pieces.
  \<^item> Bit fields are read as the bits of memory, most significant first, and written fields
    are read back with a frame around them; the stream stays in its buffer and reads back what was
    written, except for the overruns that are stated.
  \<^item> The entries of an intrusive list form a ring or a chain and the operations change their
    sequence as the names say, other lists untouched; the lists of items implement list
    operations, and removal by a predicate filters every container of linked nodes.
  \<^item> Memory blocks are copied as a whole also when they overlap; string searches find the
    first or last place, comparisons are the lexicographic order, numbers are the value of their
    digits, and copies end with their null character, except for concatenation.
  \<^item> What a character set writes it reads back, so that a conversion between any two sets
    writes the encoding of the same characters; with stray bytes at the end of both streams the
    conversion between fixed widths does not end.
  \<^item> The bit counts are positions of set bits, the alignment is the next power of two, and
    the integer square roots are exact except for the last 65536 numbers of 32 bits.
  \<^item> A hash map keeps its buckets in the order of the names and is a finite map on the
    values its elements can hold; its iterator visits every entry once, and removal by a predicate
    filters it, as every mutable container.
  \<^item> The blocks of the large allocator tile its memory in every state that calls and writes
    of its users reach, so that data never overlaps; an allocation fails only if no run of free
    blocks has room, a reallocation keeps the data, and every search ends.
  \<^item> The fixed pool finds a free item whenever it is not full and visits the used ones in
    order; both allocators are sources of regions, whose clients lose nothing.
  \<^item> The encoders write the characters of the groups of bits and the escaped text of the
    bytes, which the decoders bring back.
  \<^item> Both buffers do to their bytes what lists do or change nothing when there is no room;
    the queue of bytes is first in, first out for every sequence of calls; the strings build and
    search texts as lists do, except for the comparisons with empty strings and the backward
    searches from a later position.

  \<^bold>\<open>Bounds.\<close> Sizes and positions are natural numbers: the models hold for objects that fit in the
  address space, where adding a size to a pointer does not wrap. Where a narrower counter can wrap
  (the block counter of SHA, the bit counts of MD5, the hash values, the stream integers) it is a
  word of its width.

  \<^bold>\<open>Not modelled.\<close> The vendored Lua and LuaJIT interpreters, lua-cjson, lz4 and xxhash are
  third-party code. The platform layer, asynchronous streams, network protocols and the Lua
  bindings are sequences of system and interpreter calls. For the containers an
  allocation is the allocation argument. Floating point accessors and assembly variants are left
  out; the portable C variants are modelled.
\<close>

end
